(* ===== verification/Prelude.thy ===== *)
theory Prelude
  imports Complex_Main "HOL-Library.AList" "HOL-Library.Multiset"
begin

text \<open>
  What the components share: the values of the source language that the code tests for
  (numbers with their non-finite values, JSON), the insertion-ordered \<^verbatim>\<open>Map\<close>, the
  stable \<^verbatim>\<open>Array.prototype.sort\<close>, decimal rendering, and the generic lemmas on them.

  Numbers. A number that the code never tests with \<^verbatim>\<open>Number.isFinite\<close> and that is
  finite by construction (a clock reading, a stored counter) is a \<open>rat\<close>, \<open>int\<close> or
  \<open>nat\<close>; one that it does test is a \<open>jsnum\<close>, with the three non-finite values. Finite
  arithmetic is exact: double rounding and the sign of zero are not modelled.
\<close>

section \<open>Numbers\<close>

datatype jsnum = Fin rat | PosInf | NegInf | NaN

named_theorems jsnum_simps "evaluation of the number operations"

primrec isFinite :: "jsnum \<Rightarrow> bool" where
  "isFinite (Fin q) = True"
| "isFinite PosInf = False"
| "isFinite NegInf = False"
| "isFinite NaN = False"

instantiation jsnum :: "{zero, one, plus, uminus, minus, times, divide, ord}"
begin

definition zero_jsnum :: jsnum where "0 = Fin 0"

definition one_jsnum :: jsnum where "1 = Fin 1"

fun plus_jsnum :: "jsnum \<Rightarrow> jsnum \<Rightarrow> jsnum" where
  "Fin a + Fin b = Fin (a + b)"
| "NaN + y = NaN"
| "x + NaN = NaN"
| "PosInf + NegInf = NaN"
| "NegInf + PosInf = NaN"
| "PosInf + y = PosInf"
| "x + PosInf = PosInf"
| "NegInf + y = NegInf"
| "x + NegInf = NegInf"

fun uminus_jsnum :: "jsnum \<Rightarrow> jsnum" where
  "- Fin a = Fin (- a)"
| "- PosInf = NegInf"
| "- NegInf = PosInf"
| "- NaN = NaN"

definition minus_jsnum :: "jsnum \<Rightarrow> jsnum \<Rightarrow> jsnum" where
  "x - y = x + (- y)" for x y :: jsnum

fun signed_inf :: "rat \<Rightarrow> jsnum" where
  "signed_inf s = (if s = 0 then NaN else if 0 < s then PosInf else NegInf)"

fun times_jsnum :: "jsnum \<Rightarrow> jsnum \<Rightarrow> jsnum" where
  "Fin a * Fin b = Fin (a * b)"
| "NaN * y = NaN"
| "x * NaN = NaN"
| "Fin a * PosInf = signed_inf a"
| "Fin a * NegInf = signed_inf (- a)"
| "PosInf * Fin b = signed_inf b"
| "NegInf * Fin b = signed_inf (- b)"
| "PosInf * PosInf = PosInf"
| "PosInf * NegInf = NegInf"
| "NegInf * PosInf = NegInf"
| "NegInf * NegInf = PosInf"

fun divide_jsnum :: "jsnum \<Rightarrow> jsnum \<Rightarrow> jsnum" where
  "Fin a div Fin b = (if b = 0 then signed_inf a else Fin (a / b))"
| "NaN div y = NaN"
| "x div NaN = NaN"
| "Fin a div PosInf = Fin 0"
| "Fin a div NegInf = Fin 0"
| "PosInf div Fin b = (if b < 0 then NegInf else PosInf)"
| "NegInf div Fin b = (if b < 0 then PosInf else NegInf)"
| "PosInf div y = NaN"
| "NegInf div y = NaN"

fun less_jsnum :: "jsnum \<Rightarrow> jsnum \<Rightarrow> bool" where
  "Fin a < Fin b \<longleftrightarrow> a < b"
| "NaN < y \<longleftrightarrow> False"
| "x < NaN \<longleftrightarrow> False"
| "x < NegInf \<longleftrightarrow> False"
| "PosInf < y \<longleftrightarrow> False"
| "x < PosInf \<longleftrightarrow> True"
| "NegInf < y \<longleftrightarrow> True"

definition less_eq_jsnum :: "jsnum \<Rightarrow> jsnum \<Rightarrow> bool" where
  "x \<le> y \<longleftrightarrow> x < y \<or> (x = y \<and> x \<noteq> NaN)" for x y :: jsnum

instance ..

end

fun js_min :: "jsnum \<Rightarrow> jsnum \<Rightarrow> jsnum" where
  "js_min x y = (if x = NaN \<or> y = NaN then NaN else if y < x then y else x)"

fun js_max :: "jsnum \<Rightarrow> jsnum \<Rightarrow> jsnum" where
  "js_max x y = (if x = NaN \<or> y = NaN then NaN else if x < y then y else x)"

text \<open>\<^verbatim>\<open>Math.floor\<close>, and \<^verbatim>\<open>Math.round\<close>, which rounds a tie upwards.\<close>

fun js_floor :: "jsnum \<Rightarrow> jsnum" where
  "js_floor (Fin q) = Fin (of_int \<lfloor>q\<rfloor>)"
| "js_floor x = x"

fun js_round :: "jsnum \<Rightarrow> jsnum" where
  "js_round (Fin q) = Fin (of_int \<lfloor>q + 1 / 2\<rfloor>)"
| "js_round x = x"

lemma isFinite_iff [jsnum_simps]: "isFinite x \<longleftrightarrow> (\<exists>q. x = Fin q)"
  by (cases x) auto

lemma zero_jsnum_Fin [jsnum_simps]: "(0::jsnum) = Fin 0"
  by (simp add: zero_jsnum_def)

lemma one_jsnum_Fin [jsnum_simps]: "(1::jsnum) = Fin 1"
  by (simp add: one_jsnum_def)

lemma minus_Fin [simp]: "Fin a - Fin b = Fin (a - b)"
  by (simp add: minus_jsnum_def)

lemma less_eq_Fin [simp]: "Fin a \<le> Fin b \<longleftrightarrow> a \<le> b"
  by (auto simp: less_eq_jsnum_def)

lemma js_min_Fin [simp]: "js_min (Fin a) (Fin b) = Fin (min a b)"
  by (auto simp: min_def)

lemma js_max_Fin [simp]: "js_max (Fin a) (Fin b) = Fin (max a b)"
  by (auto simp: max_def)

declare js_min.simps [simp del] js_max.simps [simp del]

lemma js_max_left [intro]: "y \<noteq> NaN \<Longrightarrow> x \<noteq> NaN \<Longrightarrow> x \<le> js_max x y"
  by (cases x; cases y) (auto simp: js_max.simps less_eq_jsnum_def)

section \<open>Integer square root\<close>

text \<open>\<^verbatim>\<open>Math.round(Math.sqrt v)\<close> is computed exactly: \<open>\<lfloor>sqrt v + 1/2\<rfloor>\<close>.\<close>

fun isqrt :: "nat \<Rightarrow> nat" where
  "isqrt n = (if n = 0 then 0
     else let r = 2 * isqrt (n div 4) in if (r + 1) * (r + 1) \<le> n then r + 1 else r)"

declare isqrt.simps [simp del]

lemma isqrt_correct: "isqrt n * isqrt n \<le> n \<and> n < (isqrt n + 1) * (isqrt n + 1)"
proof (induction n rule: isqrt.induct)
  case (1 n)
  show ?case
  proof (cases "n = 0")
    case True
    then show ?thesis by (simp add: isqrt.simps)
  next
    case False
    define k where "k = isqrt (n div 4)"
    have k: "k * k \<le> n div 4" "n div 4 < (k + 1) * (k + 1)"
      using 1 False by (simp_all add: k_def)
    have e: "isqrt n = (if (2 * k + 1) * (2 * k + 1) \<le> n then 2 * k + 1 else 2 * k)"
      using False by (simp add: isqrt.simps [of n] k_def Let_def)
    have lo: "(2 * k) * (2 * k) \<le> n" using k(1) by (simp add: algebra_simps)
    have "n < 4 * ((k + 1) * (k + 1))" using k(2) by linarith
    then have hi: "n < (2 * k + 2) * (2 * k + 2)" by (simp add: algebra_simps)
    show ?thesis using lo hi by (simp add: e)
  qed
qed

definition round_sqrt :: "rat \<Rightarrow> int" where
  "round_sqrt v = (int (isqrt (nat \<lfloor>4 * v\<rfloor>)) + 1) div 2"

fun js_round_sqrt :: "jsnum \<Rightarrow> jsnum" where
  "js_round_sqrt (Fin v) = (if v < 0 then NaN else Fin (of_int (round_sqrt v)))"
| "js_round_sqrt PosInf = PosInf"
| "js_round_sqrt NegInf = NaN"
| "js_round_sqrt NaN = NaN"

lemma round_sqrt_real:
  assumes "0 \<le> v"
  shows "round_sqrt v = \<lfloor>sqrt (real_of_rat v) + 1 / 2\<rfloor>"
proof -
  define n where "n = nat \<lfloor>4 * v\<rfloor>"
  define r where "r = isqrt n"
  define s where "s = 2 * sqrt (real_of_rat v)"
  have s0: "0 \<le> s" using assms by (simp add: s_def)
  have s2: "s * s = 4 * real_of_rat v" using assms by (simp add: s_def)
  have nv: "real n = of_int \<lfloor>4 * real_of_rat v\<rfloor>"
  proof -
    have "\<lfloor>4 * real_of_rat v\<rfloor> = \<lfloor>real_of_rat (4 * v)\<rfloor>"
      by (simp add: of_rat_mult)
    then have "\<lfloor>4 * real_of_rat v\<rfloor> = \<lfloor>4 * v\<rfloor>" by simp
    moreover have "0 \<le> \<lfloor>4 * v\<rfloor>" using assms by simp
    ultimately show ?thesis by (simp add: n_def)
  qed
  have "r * r \<le> n" "n < (r + 1) * (r + 1)"
    using isqrt_correct [of n] by (simp_all add: r_def)
  then have b: "real r * real r \<le> real n" "real n + 1 \<le> (real r + 1) * (real r + 1)"
    by (metis of_nat_le_iff of_nat_mult, metis Suc_eq_plus1 Suc_leI of_nat_1 of_nat_add of_nat_le_iff of_nat_mult)
  have lo: "real r \<le> s"
  proof (rule power2_le_imp_le [OF _ s0])
    have "real n \<le> s * s" by (simp add: nv s2)
    then show "(real r)\<^sup>2 \<le> s\<^sup>2" using b(1) by (simp add: power2_eq_square)
  qed
  have hi: "s < real r + 1"
  proof (rule power2_less_imp_less)
    have "s * s < real n + 1" unfolding nv s2 by linarith
    then show "s\<^sup>2 < (real r + 1)\<^sup>2" using b(2) by (simp add: power2_eq_square)
  qed simp
  have "\<lfloor>sqrt (real_of_rat v) + 1 / 2\<rfloor> = \<lfloor>(s + 1) / 2\<rfloor>" by (simp add: s_def field_simps)
  also have "\<dots> = (int r + 1) div 2"
  proof (rule floor_unique)
    define m where "m = (int r + 1) div 2"
    have "2 * m \<le> int r + 1" "int r + 1 < 2 * m + 2" by (simp_all add: m_def)
    then have "real_of_int (2 * m) \<le> real_of_int (int r + 1)"
      "real_of_int (int r + 2) \<le> real_of_int (2 * m + 2)"
      by (simp_all only: of_int_le_iff)
    then show "of_int ((int r + 1) div 2) \<le> (s + 1) / 2"
      "(s + 1) / 2 < of_int ((int r + 1) div 2) + 1"
      using lo hi by (simp_all add: m_def [symmetric])
  qed
  finally show ?thesis by (simp add: round_sqrt_def n_def r_def)
qed

section \<open>The stable sort\<close>

text \<open>
  \<^verbatim>\<open>xs.sort(cmp)\<close> is stable. With a consistent comparator its result is determined:
  \<open>le a b\<close> stands for \<^verbatim>\<open>cmp(a, b) <= 0\<close>, and insertion from the right keeps the order
  of elements that compare equal.
\<close>

fun js_insert :: "('a \<Rightarrow> 'a \<Rightarrow> bool) \<Rightarrow> 'a \<Rightarrow> 'a list \<Rightarrow> 'a list" where
  "js_insert le x [] = [x]"
| "js_insert le x (y # ys) = (if le x y then x # y # ys else y # js_insert le x ys)"

definition js_sort :: "('a \<Rightarrow> 'a \<Rightarrow> bool) \<Rightarrow> 'a list \<Rightarrow> 'a list" where
  "js_sort le xs = foldr (js_insert le) xs []"

named_theorems list_order "permutation and order facts of list operations"

lemma js_sort_simps [simp]:
  "js_sort le [] = []" "js_sort le (x # xs) = js_insert le x (js_sort le xs)"
  by (simp_all add: js_sort_def)

lemma mset_js_insert [simp, list_order]: "mset (js_insert le x xs) = add_mset x (mset xs)"
  by (induction xs) auto

lemma mset_js_sort [simp, list_order]: "mset (js_sort le xs) = mset xs"
  by (induction xs) auto

lemma set_js_insert [simp]: "set (js_insert le x xs) = insert x (set xs)"
  by (induction xs) auto

lemma set_js_sort [simp]: "set (js_sort le xs) = set xs"
  by (induction xs) auto

lemma length_js_sort [simp]: "length (js_sort le xs) = length xs"
  by (metis mset_js_sort size_mset)

lemma js_insert_sorted:
  assumes "\<And>a b. le a b \<or> le b a" and "\<And>a b c. le a b \<Longrightarrow> le b c \<Longrightarrow> le a c"
  shows "sorted_wrt le ys \<Longrightarrow> sorted_wrt le (js_insert le x ys)"
proof (induction ys)
  case (Cons y ys)
  then show ?case using assms(1) [of x y] by (auto intro: assms(2))
qed simp

lemma js_sort_sorted:
  assumes "\<And>a b. le a b \<or> le b a" and "\<And>a b c. le a b \<Longrightarrow> le b c \<Longrightarrow> le a c"
  shows "sorted_wrt le (js_sort le xs)"
proof (induction xs)
  case (Cons x xs)
  then show ?case using js_insert_sorted [of le, OF assms] by simp
qed simp

lemma js_insert_insort_key: "js_insert (\<lambda>a b. f a \<le> f b) x xs = insort_key f x xs"
  for f :: "'a \<Rightarrow> 'b::linorder"
  by (induction xs) auto

lemma js_sort_key: "js_sort (\<lambda>a b. f a \<le> f b) xs = sort_key f xs"
  for f :: "'a \<Rightarrow> 'b::linorder"
  by (induction xs) (auto simp: js_insert_insort_key sort_key_def)

lemma js_insert_cong:
  "(\<And>y. y \<in> set ys \<Longrightarrow> le x y = le' x y) \<Longrightarrow> js_insert le x ys = js_insert le' x ys"
  by (induction ys) auto

lemma js_sort_cong:
  "(\<And>x y. x \<in> set xs \<Longrightarrow> y \<in> set xs \<Longrightarrow> le x y = le' x y) \<Longrightarrow> js_sort le xs = js_sort le' xs"
proof (induction xs)
  case (Cons x xs)
  then have "js_sort le xs = js_sort le' xs" by simp
  then show ?case using Cons.prems by (auto intro: js_insert_cong)
qed simp

lemma distinct_js_sort [simp]: "distinct (js_sort le xs) = distinct xs"
  by (metis mset_eq_imp_distinct_iff mset_js_sort)

section \<open>Demote, never drop\<close>

text \<open>
  The candidate orderings of the code walk the list once, push every candidate on the list
  of its band and concatenate the bands.
\<close>

definition concat_bands :: "'b list \<Rightarrow> ('a \<Rightarrow> 'b) \<Rightarrow> 'a list \<Rightarrow> 'a list" where
  "concat_bands bands band xs = concat (map (\<lambda>b. filter (\<lambda>x. band x = b) xs) bands)"

text \<open>
  What a caller of an ordering relies on: it permutes its input, and no candidate stands
  before one of a better rank.
\<close>

locale demote_only =
  fixes order :: "'a list \<Rightarrow> 'a list"
    and rank :: "'a \<Rightarrow> nat"
  assumes order_mset: "mset (order xs) = mset xs"
    and order_ranked: "sorted (map rank (order xs))"
begin

lemma order_keeps: "set (order xs) = set xs"
  by (metis order_mset set_mset_mset)

lemma order_length: "length (order xs) = length xs"
  by (metis order_mset size_mset)

lemma order_empty: "order xs = [] \<longleftrightarrow> xs = []"
  by (metis order_length length_0_conv)

lemma order_distinct: "distinct (order xs) = distinct xs"
  by (metis mset_eq_imp_distinct_iff order_mset)

lemma order_head_best:
  assumes "x \<in> set xs"
  shows "order xs \<noteq> [] \<and> rank (hd (order xs)) \<le> rank x"
proof -
  have "x \<in> set (order xs)" using assms by (simp add: order_keeps)
  then show ?thesis using order_ranked [of xs] by (cases "order xs") auto
qed

lemma order_before:
  assumes "i < j" and "j < length xs"
  shows "rank (order xs ! i) \<le> rank (order xs ! j)"
proof -
  have "map rank (order xs) ! i \<le> map rank (order xs) ! j"
    using assms by (intro sorted_nth_mono [OF order_ranked]) (simp_all add: order_length)
  then show ?thesis using assms by (simp add: order_length)
qed

end

lemma mset_concat_bands:
  assumes "distinct bands" and "\<And>x. x \<in> set xs \<Longrightarrow> band x \<in> set bands"
  shows "mset (concat_bands bands band xs) = mset xs"
proof (rule multiset_eqI)
  fix x
  have c: "count (mset (filter (\<lambda>y. band y = b) xs)) x = (if band x = b then count (mset xs) x else 0)" for b
    by (induction xs) auto
  have "count (mset (concat_bands bands band xs)) x
      = (\<Sum>b\<leftarrow>bands. count (mset (filter (\<lambda>y. band y = b) xs)) x)"
    unfolding concat_bands_def by (induction bands) auto
  also have "\<dots> = (\<Sum>b\<leftarrow>bands. if band x = b then count (mset xs) x else 0)"
    by (simp add: c)
  also have "\<dots> = (if band x \<in> set bands then count (mset xs) x else 0)"
    using assms(1) by (induction bands) auto
  finally show "count (mset (concat_bands bands band xs)) x = count (mset xs) x"
    using assms(2) by (auto simp: count_eq_zero_iff)
qed

lemma sorted_one_band: "sorted (map (\<lambda>x. rank (band x)) (filter (\<lambda>x. band x = b) xs))"
  for rank :: "'b \<Rightarrow> nat"
  by (induction xs) auto

lemma concat_bands_sorted:
  "sorted (map rank bands) \<Longrightarrow> sorted (map (\<lambda>x. rank (band x)) (concat_bands bands band xs))"
  for rank :: "'b \<Rightarrow> nat"
  unfolding concat_bands_def by (induction bands) (auto simp: sorted_append sorted_one_band)

lemma concat_bands_stable:
  "distinct bands \<Longrightarrow> b \<in> set bands \<Longrightarrow>
     filter (\<lambda>x. band x = b) (concat_bands bands band xs) = filter (\<lambda>x. band x = b) xs"
proof (induction bands)
  case (Cons c bands)
  have none: "filter (\<lambda>x. band x = b) (concat_bands bs band xs) = []" if "b \<notin> set bs" for bs
    using that by (auto simp: concat_bands_def filter_empty_conv)
  show ?case
  proof (cases "b = c")
    case True
    then show ?thesis using Cons.prems none [of bands] by (simp add: concat_bands_def)
  next
    case False
    then have "filter (\<lambda>x. band x = b) (filter (\<lambda>x. band x = c) xs) = []"
      by (auto simp: filter_empty_conv)
    then show ?thesis using Cons False by (simp add: concat_bands_def del: filter_filter)
  qed
qed simp

lemma set_concat_bands:
  "(\<And>x. x \<in> set xs \<Longrightarrow> band x \<in> set bands) \<Longrightarrow> set (concat_bands bands band xs) = set xs"
  by (auto simp: concat_bands_def)

end
