(* ===== verification/JsData.thy ===== *)
theory JsData
  imports Prelude
begin

text \<open>
  The containers and texts of the source language: the insertion-ordered \<^verbatim>\<open>Map\<close> as an
  association list, behind the interface \<open>js_map\<close>; JSON values; decimal rendering.
\<close>

section \<open>The insertion-ordered map\<close>

text \<open>
  \<^verbatim>\<open>Map.set\<close> on a present key keeps the key's place, on a new key appends; iteration is
  in insertion order; \<^verbatim>\<open>Map.delete\<close> removes the entry. A component that keeps a
  \<^verbatim>\<open>Map\<close> relies on the laws of the locale only.
\<close>

locale js_map =
  fixes get :: "'m \<Rightarrow> 'k \<Rightarrow> 'v option"
    and put :: "'k \<Rightarrow> 'v \<Rightarrow> 'm \<Rightarrow> 'm"
    and del :: "'k \<Rightarrow> 'm \<Rightarrow> 'm"
    and keys :: "'m \<Rightarrow> 'k list"
    and ok :: "'m \<Rightarrow> bool"
  assumes get_put: "get (put k v m) j = (if j = k then Some v else get m j)"
    and get_del: "get (del k m) j = (if j = k then None else get m j)"
    and keys_put: "keys (put k v m) = (if k \<in> set (keys m) then keys m else keys m @ [k])"
    and keys_del: "keys (del k m) = filter (\<lambda>j. j \<noteq> k) (keys m)"
    and get_keys: "get m k \<noteq> None \<longleftrightarrow> k \<in> set (keys m)"
    and ok_distinct: "ok m \<longleftrightarrow> distinct (keys m)"
begin

lemma ok_put: "ok m \<Longrightarrow> ok (put k v m)"
  by (auto simp: ok_distinct keys_put)

lemma ok_del: "ok m \<Longrightarrow> ok (del k m)"
  by (auto simp: ok_distinct keys_del)

lemma get_put_same: "get (put k v m) k = Some v"
  by (simp add: get_put)

lemma get_put_other: "j \<noteq> k \<Longrightarrow> get (put k v m) j = get m j"
  by (simp add: get_put)

lemma size_put: "length (keys (put k v m)) \<le> length (keys m) + 1"
  by (simp add: keys_put)

lemma size_del:
  assumes "ok m" and "k \<in> set (keys m)"
  shows "length (keys (del k m)) = length (keys m) - 1"
proof -
  have "keys (del k m) = remove1 k (keys m)"
    using assms(1) by (simp add: keys_del ok_distinct distinct_remove1_removeAll removeAll_filter_not_eq)
      (metis (mono_tags, lifting) filter_cong)
  then show ?thesis using assms(2) by (simp add: length_remove1)
qed

lemma keys_put_present: "get m k \<noteq> None \<Longrightarrow> keys (put k v m) = keys m"
  by (simp add: keys_put flip: get_keys)

lemma set_keys_put: "set (keys (put k v m)) = insert k (set (keys m))"
  by (auto simp: keys_put)

end

type_synonym ('k, 'v) jmap = "('k \<times> 'v) list"

definition jm_get :: "('k, 'v) jmap \<Rightarrow> 'k \<Rightarrow> 'v option" where
  "jm_get m k = map_of m k"

definition jm_put :: "'k \<Rightarrow> 'v \<Rightarrow> ('k, 'v) jmap \<Rightarrow> ('k, 'v) jmap" where
  "jm_put k v m = AList.update k v m"

definition jm_del :: "'k \<Rightarrow> ('k, 'v) jmap \<Rightarrow> ('k, 'v) jmap" where
  "jm_del k m = AList.delete k m"

definition jm_keys :: "('k, 'v) jmap \<Rightarrow> 'k list" where
  "jm_keys m = map fst m"

definition jm_ok :: "('k, 'v) jmap \<Rightarrow> bool" where
  "jm_ok m \<longleftrightarrow> distinct (map fst m)"

definition jm_map_values :: "('v \<Rightarrow> 'v) \<Rightarrow> ('k, 'v) jmap \<Rightarrow> ('k, 'v) jmap" where
  "jm_map_values f m = map (\<lambda>(k, v). (k, f v)) m"

lemma map_fst_update: "map fst (AList.update k v m) = (if k \<in> fst ` set m then map fst m else map fst m @ [k])"
  by (induction m) auto

interpretation jm: js_map jm_get jm_put jm_del jm_keys jm_ok
proof
  show "jm_get (jm_put k v m) j = (if j = k then Some v else jm_get m j)" for k v m j
    by (simp add: jm_get_def jm_put_def update_conv)
  show "jm_get (jm_del k m) j = (if j = k then None else jm_get m j)" for k m j
    by (simp add: jm_get_def jm_del_def delete_conv)
  show "jm_keys (jm_put k v m) = (if k \<in> set (jm_keys m) then jm_keys m else jm_keys m @ [k])" for k v m
    by (simp add: jm_keys_def jm_put_def map_fst_update)
  show "jm_keys (jm_del k m) = filter (\<lambda>j. j \<noteq> k) (jm_keys m)" for k m
    by (induction m) (auto simp: jm_keys_def jm_del_def)
  show "jm_get m k \<noteq> None \<longleftrightarrow> k \<in> set (jm_keys m)" for m k
    by (induction m) (auto simp: jm_get_def jm_keys_def)
  show "jm_ok m \<longleftrightarrow> distinct (jm_keys m)" for m
    by (simp add: jm_ok_def jm_keys_def)
qed

lemmas jm_laws = jm.get_put jm.get_del jm.keys_put jm.keys_del jm.ok_put jm.ok_del

lemma jm_get_Nil [simp]: "jm_get [] k = None"
  by (simp add: jm_get_def)

lemma jm_get_Cons [simp]: "jm_get ((j, v) # m) k = (if k = j then Some v else jm_get m k)"
  by (simp add: jm_get_def)

lemma jm_ok_Nil [simp]: "jm_ok []"
  by (simp add: jm_ok_def)

lemma jm_put_Nil [simp]: "jm_put k v [] = [(k, v)]"
  by (simp add: jm_put_def)

lemma jm_put_Cons [simp]: "jm_put k v ((j, w) # m) = (if j = k then (k, v) # m else (j, w) # jm_put k v m)"
  by (simp add: jm_put_def)

lemma jm_put_new: "jm_get m k = None \<Longrightarrow> jm_put k v m = m @ [(k, v)]"
  by (induction m) (auto split: if_splits)

lemma jm_get_in: "jm_get m k = Some v \<Longrightarrow> (k, v) \<in> set m"
  by (simp add: jm_get_def map_of_SomeD)

lemma jm_in_get: "jm_ok m \<Longrightarrow> (k, v) \<in> set m \<Longrightarrow> jm_get m k = Some v"
  by (simp add: jm_get_def jm_ok_def)

lemma jm_get_None: "jm_get m k = None \<longleftrightarrow> k \<notin> fst ` set m"
  by (simp add: jm_get_def map_of_eq_None_iff)

lemma jm_get_map_values [simp]: "jm_get (jm_map_values f m) k = map_option f (jm_get m k)"
  by (induction m) (auto simp: jm_map_values_def)

lemma jm_keys_map_values [simp]: "jm_keys (jm_map_values f m) = jm_keys m"
  by (induction m) (auto simp: jm_map_values_def jm_keys_def)

lemma jm_ok_map_values [simp]: "jm_ok (jm_map_values f m) = jm_ok m"
  by (simp add: jm.ok_distinct)

lemma jm_put_set: "(j, w) \<in> set (jm_put k v m) \<Longrightarrow> (j, w) = (k, v) \<or> (j, w) \<in> set m"
  by (induction m) (auto split: if_splits)

lemma set_jm_del: "set (jm_del k m) \<subseteq> set m"
  by (auto simp: jm_del_def AList.delete_eq)

section \<open>JSON values\<close>

text \<open>
  What \<^verbatim>\<open>JSON.parse\<close> returns. An object keeps its members in order; a member's name
  occurs once. A number literal out of range parses to an infinity, so the numbers are
  \<open>jsnum\<close>; \<^verbatim>\<open>JSON.stringify\<close> writes a non-finite number as \<^verbatim>\<open>null\<close>.
\<close>

datatype json = JNull | JBool bool | JNum jsnum | JStr string | JArr "json list" | JObj "(string \<times> json) list"

fun json_of_num :: "jsnum \<Rightarrow> json" where
  "json_of_num x = (if isFinite x then JNum x else JNull)"

text \<open>\<^verbatim>\<open>row[name]\<close>: \<open>None\<close> is \<^verbatim>\<open>undefined\<close>.\<close>

definition member :: "(string \<times> json) list \<Rightarrow> string \<Rightarrow> json option" where
  "member row name = map_of row name"

lemma member_simps [simp]:
  "member [] n = None"
  "member ((k, v) # row) n = (if n = k then Some v else member row n)"
  by (simp_all add: member_def)

lemma member_append [simp]:
  "member (xs @ ys) n = (case member xs n of None \<Rightarrow> member ys n | Some v \<Rightarrow> Some v)"
  by (simp add: member_def map_add_def split: option.splits)

text \<open>\<^verbatim>\<open>v?.k\<close> on a parsed value; only an object has the keys asked for here.\<close>

fun data_key :: "json option \<Rightarrow> string \<Rightarrow> json option" where
  "data_key (Some (JObj ms)) k = member ms k"
| "data_key d k = None"

section \<open>Decimal rendering\<close>

definition digit_char :: "nat \<Rightarrow> char" where
  "digit_char d = char_of (48 + d)"

fun show_nat :: "nat \<Rightarrow> string" where
  "show_nat n = (if n < 10 then [digit_char n] else show_nat (n div 10) @ [digit_char (n mod 10)])"

declare show_nat.simps [simp del]

definition show_int :: "int \<Rightarrow> string" where
  "show_int i = (if i < 0 then CHR ''-'' # show_nat (nat (- i)) else show_nat (nat i))"

definition read_digits :: "string \<Rightarrow> nat" where
  "read_digits s = foldl (\<lambda>a c. 10 * a + (of_char c - 48)) 0 s"

lemma of_char_digit: "d < 10 \<Longrightarrow> (of_char (digit_char d) :: nat) = 48 + d"
  by (simp add: digit_char_def of_char_of)

lemma read_show_nat: "read_digits (show_nat n) = n"
proof (induction n rule: show_nat.induct)
  case (1 n)
  then show ?case
    by (cases "n < 10") (simp_all add: show_nat.simps [of n] read_digits_def of_char_digit)
qed

lemma show_nat_inj: "show_nat a = show_nat b \<longleftrightarrow> a = b"
  by (metis read_show_nat)

lemma show_nat_digits: "c \<in> set (show_nat n) \<Longrightarrow> 48 \<le> (of_char c :: nat) \<and> (of_char c :: nat) < 58"
proof (induction n rule: show_nat.induct)
  case (1 n)
  then show ?case
    by (cases "n < 10") (auto simp: show_nat.simps [of n] of_char_digit)
qed

lemma split_at_separator:
  assumes "a @ c # b = a' @ c # b'" and "c \<notin> set a" and "c \<notin> set a'"
  shows "a = a' \<and> b = b'"
  using assms
proof (induction a arbitrary: a')
  case Nil
  then show ?case by (cases a') auto
next
  case (Cons x a)
  then show ?case by (cases a') auto
qed

text \<open>\<^verbatim>\<open>parts.join(sep)\<close>\<close>

fun join_with :: "string \<Rightarrow> string list \<Rightarrow> string" where
  "join_with sep [] = []"
| "join_with sep [x] = x"
| "join_with sep (x # y # ys) = x @ sep @ join_with sep (y # ys)"

section \<open>White space\<close>

text \<open>The white space of the language among the first 256 code points.\<close>

definition js_space :: "char \<Rightarrow> bool" where
  "js_space c = (let n = of_char c :: nat in (9 \<le> n \<and> n \<le> 13) \<or> n = 32 \<or> n = 160)"

definition trimStart :: "string \<Rightarrow> string" where
  "trimStart s = dropWhile js_space s"

definition js_trim :: "string \<Rightarrow> string" where
  "js_trim s = rev (dropWhile js_space (rev (dropWhile js_space s)))"

section \<open>Lower case\<close>

text \<open>\<^verbatim>\<open>toLowerCase\<close> on the first 256 code points.\<close>

definition latin_lower :: "char \<Rightarrow> char" where
  "latin_lower c = (let n = of_char c :: nat in
     if (65 \<le> n \<and> n \<le> 90) \<or> (192 \<le> n \<and> n \<le> 222 \<and> n \<noteq> 215) then char_of (n + 32) else c)"

definition toLowerCase :: "string \<Rightarrow> string" where
  "toLowerCase s = map latin_lower s"

section \<open>Sizes of texts\<close>

text \<open>\<^verbatim>\<open>Buffer.byteLength(text, "utf8")\<close>\<close>

definition utf8_length :: "string \<Rightarrow> nat" where
  "utf8_length v = (\<Sum>c\<leftarrow>v. if (of_char c :: nat) < 128 then 1 else 2)"

lemma utf8_length_bound: "utf8_length s \<le> 2 * length s"
  by (induction s) (auto simp: utf8_length_def)

lemma show_nat_length: "n < 10 ^ Suc k \<Longrightarrow> length (show_nat n) \<le> Suc k"
proof (induction k arbitrary: n)
  case (Suc k)
  have "n div 10 < 10 ^ Suc k" using Suc.prems by (simp add: less_mult_imp_div_less mult.commute)
  then show ?case using Suc.IH [of "n div 10"] by (simp add: show_nat.simps [of n])
qed (simp add: show_nat.simps)

section \<open>Lines and prefixes\<close>

abbreviation CR :: char where "CR \<equiv> CHR 0x0D"
abbreviation LF :: char where "LF \<equiv> CHR 0x0A"

text \<open>\<^verbatim>\<open>startsWith\<close>, \<^verbatim>\<open>split("\n")\<close> and \<^verbatim>\<open>replace(/\r\n/g, "\n")\<close>\<close>

definition starts_with :: "string \<Rightarrow> string \<Rightarrow> bool" where
  "starts_with p v \<longleftrightarrow> take (length p) v = p"

lemma starts_with_self [simp]: "starts_with p (p @ v)"
  by (simp add: starts_with_def)

lemma starts_with_Nil [simp]: "starts_with [] v" "starts_with (c # p) [] = False"
  by (simp_all add: starts_with_def)

lemma starts_with_Cons [simp]: "starts_with (c # p) (d # v) = (c = d \<and> starts_with p v)"
  by (auto simp: starts_with_def)

fun split_lf :: "string \<Rightarrow> string list" where
  "split_lf [] = [[]]"
| "split_lf (c # cs) = (if c = LF then [] # split_lf cs
     else (case split_lf cs of [] \<Rightarrow> [[c]] | l # ls \<Rightarrow> (c # l) # ls))"

fun unix_eol :: "string \<Rightarrow> string" where
  "unix_eol (c # d # cs) = (if c = CR \<and> d = LF then LF # unix_eol cs else c # unix_eol (d # cs))"
| "unix_eol [c] = [c]"
| "unix_eol [] = []"

lemma split_lf_nonempty: "split_lf v \<noteq> []"
  by (induction v) (auto split: list.split)

lemma split_lf_line: "LF \<notin> set l \<Longrightarrow> split_lf l = [l]"
  by (induction l) auto

lemma split_lf_join_Cons: "LF \<notin> set l \<Longrightarrow> split_lf (l @ LF # v) = l # split_lf v"
  by (induction l) (auto split: list.split)

lemma split_lf_join: "ls \<noteq> [] \<Longrightarrow> \<forall>l\<in>set ls. LF \<notin> set l \<Longrightarrow> split_lf (join_with [LF] ls) = ls"
proof (induction "[LF]" ls rule: join_with.induct)
  case (3 x y ys)
  then show ?case by (simp add: split_lf_join_Cons)
qed (simp_all add: split_lf_line)

text \<open>A line without a carriage return at its end is not touched.\<close>

definition plain_line :: "string \<Rightarrow> bool" where
  "plain_line l \<longleftrightarrow> LF \<notin> set l \<and> (l = [] \<or> last l \<noteq> CR)"

lemma unix_eol_line: "LF \<notin> set l \<Longrightarrow> unix_eol l = l"
  by (induction l rule: unix_eol.induct) auto

lemma unix_eol_join_Cons: "plain_line l \<Longrightarrow> unix_eol (l @ LF # v) = l @ LF # unix_eol v"
proof (induction l rule: unix_eol.induct)
  case (1 c d cs)
  then show ?case by (auto simp: plain_line_def)
next
  case (2 c)
  then show ?case by (cases v) (auto simp: plain_line_def)
next
  case 3
  then show ?case by (cases v) auto
qed

lemma unix_eol_join: "\<forall>l\<in>set ls. plain_line l \<Longrightarrow> unix_eol (join_with [LF] ls) = join_with [LF] ls"
proof (induction "[LF]" ls rule: join_with.induct)
  case (2 x)
  then show ?case by (simp add: plain_line_def unix_eol_line)
next
  case (3 x y ys)
  then show ?case by (simp add: unix_eol_join_Cons)
qed simp

end
