(* ===== verification/Identity.thy ===== *)
theory Identity
  imports JsData
begin

text \<open>
  The identities that routing, accounting and the circuit breaker share:
  credential-slot ids (\<^verbatim>\<open>credential-id.ts\<close>), routing specs (\<^verbatim>\<open>spec.ts\<close>), the provider
  target and its equality (\<^verbatim>\<open>kernel/contracts.ts\<close>), and the key of a breaker cell
  (\<^verbatim>\<open>CircuitBreaker.getKey\<close>). The lemmas show that ids and specs round-trip and that
  distinct cells have distinct keys.
\<close>

section \<open>Positions in a string\<close>

fun indexOf :: "char \<Rightarrow> string \<Rightarrow> nat option" where
  "indexOf c [] = None"
| "indexOf c (x # xs) = (if x = c then Some 0 else map_option Suc (indexOf c xs))"

fun lastIndexOf :: "char \<Rightarrow> string \<Rightarrow> nat option" where
  "lastIndexOf c [] = None"
| "lastIndexOf c (x # xs) =
     (case lastIndexOf c xs of Some i \<Rightarrow> Some (Suc i) | None \<Rightarrow> if x = c then Some 0 else None)"

lemma indexOf_None: "indexOf c s = None \<longleftrightarrow> c \<notin> set s"
  by (induction s) auto

lemma lastIndexOf_None: "lastIndexOf c s = None \<longleftrightarrow> c \<notin> set s"
  by (induction s) (auto split: option.splits)

lemma indexOf_append: "c \<notin> set a \<Longrightarrow> indexOf c (a @ c # b) = Some (length a)"
  by (induction a) auto

lemma lastIndexOf_append: "c \<notin> set b \<Longrightarrow> lastIndexOf c (a @ c # b) = Some (length a)"
  by (induction a) (auto simp: lastIndexOf_None split: option.splits)

lemma indexOf_Some: "indexOf c s = Some i \<Longrightarrow> \<exists>a b. s = a @ c # b \<and> length a = i \<and> c \<notin> set a"
proof (induction s arbitrary: i)
  case (Cons x s)
  show ?case
  proof (cases "x = c")
    case True
    then show ?thesis using Cons.prems by (intro exI [of _ "[]"] exI [of _ s]) simp
  next
    case False
    with Cons.prems obtain j where j: "indexOf c s = Some j" "i = Suc j" by auto
    from Cons.IH [OF j(1)] obtain a b where "s = a @ c # b" "length a = j" "c \<notin> set a" by blast
    then show ?thesis using False j(2) by (intro exI [of _ "x # a"] exI [of _ b]) auto
  qed
qed simp

lemma lastIndexOf_Some: "lastIndexOf c s = Some i \<Longrightarrow> \<exists>a b. s = a @ c # b \<and> length a = i \<and> c \<notin> set b"
proof (induction s arbitrary: i)
  case (Cons x s)
  show ?case
  proof (cases "lastIndexOf c s")
    case None
    with Cons.prems have "x = c" "i = 0" "c \<notin> set s"
      by (auto simp: lastIndexOf_None [symmetric] split: if_splits)
    then show ?thesis by (intro exI [of _ "[]"] exI [of _ s]) simp
  next
    case (Some j)
    from Cons.IH [OF Some] obtain a b where "s = a @ c # b" "length a = j" "c \<notin> set b" by blast
    then show ?thesis using Cons.prems Some by (intro exI [of _ "x # a"] exI [of _ b]) auto
  qed
qed simp

section \<open>Credential ids\<close>

definition label_char :: "char \<Rightarrow> bool" where
  "label_char c = (let n = of_char c :: nat in
     (65 \<le> n \<and> n \<le> 90) \<or> (97 \<le> n \<and> n \<le> 122) \<or> (48 \<le> n \<and> n \<le> 57) \<or>
     c = CHR ''_'' \<or> c = CHR ''.'' \<or> c = CHR ''-'')"

text \<open>\<^verbatim>\<open>CREDENTIAL_LABEL_PATTERN\<close>: \<^verbatim>\<open>/^[A-Za-z0-9_.-]{1,32}$/\<close>\<close>

definition label_ok :: "string \<Rightarrow> bool" where
  "label_ok l \<longleftrightarrow> 1 \<le> length l \<and> length l \<le> 32 \<and> list_all label_char l"

datatype cred_error = BadProvider | BadLabel

definition makeCredentialId :: "string \<Rightarrow> string \<Rightarrow> cred_error + string" where
  "makeCredentialId provider label =
     (if provider = [] \<or> CHR ''#'' \<in> set provider then Inl BadProvider
      else if \<not> label_ok label then Inl BadLabel
      else Inr (provider @ ''#'' @ label))"

definition parseCredentialId :: "string \<Rightarrow> (string \<times> string) option" where
  "parseCredentialId v =
     (case indexOf (CHR ''#'') v of
        None \<Rightarrow> None
      | Some sep \<Rightarrow>
          if sep = 0 \<or> lastIndexOf (CHR ''#'') v \<noteq> Some sep then None
          else let provider = take sep v; label = drop (sep + 1) v in
            if provider = [] \<or> \<not> label_ok label then None else Some (provider, label))"

lemma label_ok_chars:
  assumes "label_ok l"
  shows "CHR ''#'' \<notin> set l" and "CHR ''/'' \<notin> set l"
  using assms by (auto simp: label_ok_def list_all_iff label_char_def)

lemma parse_make: "makeCredentialId p l = Inr v \<Longrightarrow> parseCredentialId v = Some (p, l)"
  using label_ok_chars(1) [of l]
  by (auto simp: makeCredentialId_def parseCredentialId_def indexOf_append lastIndexOf_append
      split: if_splits)

lemma make_parse:
  assumes "parseCredentialId v = Some (p, l)"
  shows "makeCredentialId p l = Inr v"
proof -
  from assms obtain sep where sep: "indexOf (CHR ''#'') v = Some sep"
    and p: "p = take sep v" "p \<noteq> []" and l: "l = drop (sep + 1) v" "label_ok l"
    by (auto simp: parseCredentialId_def Let_def split: option.splits if_splits)
  from indexOf_Some [OF sep] obtain a b where "v = a @ CHR ''#'' # b" "length a = sep" "CHR ''#'' \<notin> set a"
    by blast
  then show ?thesis using p l by (simp add: makeCredentialId_def)
qed

definition credential_id_ok :: "string \<Rightarrow> bool" where
  "credential_id_ok v \<longleftrightarrow> parseCredentialId v \<noteq> None"

section \<open>Routing specs\<close>

definition splitSpec :: "string \<Rightarrow> string \<times> string option" where
  "splitSpec spec =
     (case indexOf (CHR ''/'') spec of
        None \<Rightarrow> (spec, None)
      | Some slash \<Rightarrow> (take slash spec, Some (drop (slash + 1) spec)))"

text \<open>\<^verbatim>\<open>specOfTarget\<close>: an absent or empty model leaves the bare provider.\<close>

definition specOfTarget :: "string \<Rightarrow> string option \<Rightarrow> string" where
  "specOfTarget provider model =
     (case model of None \<Rightarrow> provider | Some m \<Rightarrow> if m = [] then provider else provider @ ''/'' @ m)"

lemma splitSpec_specOfTarget:
  "CHR ''/'' \<notin> set p \<Longrightarrow> m \<noteq> Some [] \<Longrightarrow> splitSpec (specOfTarget p m) = (p, m)"
  by (auto simp: splitSpec_def specOfTarget_def indexOf_append indexOf_None [THEN iffD2] split: option.splits)

lemma specOfTarget_splitSpec:
  "snd (splitSpec s) \<noteq> Some [] \<Longrightarrow> specOfTarget (fst (splitSpec s)) (snd (splitSpec s)) = s"
proof (cases "indexOf (CHR ''/'') s")
  case None
  then show ?thesis by (simp add: splitSpec_def specOfTarget_def)
next
  case (Some i)
  assume "snd (splitSpec s) \<noteq> Some []"
  moreover from indexOf_Some [OF Some] obtain a b where "s = a @ CHR ''/'' # b" "length a = i" by blast
  ultimately show ?thesis using Some by (simp add: splitSpec_def specOfTarget_def)
qed

section \<open>Provider targets and breaker cells\<close>

text \<open>
  \<open>UncheckedKind\<close> is a kind read back from disk and cast to the closed union. A base URL
  carries its text and what the platform's URL parser says its hostname is (\<open>None\<close>: it throws).
\<close>

datatype provider_kind = Anthropic | OpenAI | UncheckedKind string

record base_url =
  bu_text :: string
  bu_hostname :: "string option"

record provider_target =
  t_provider :: string
  t_model :: "string option"
  t_kind :: provider_kind
  t_credentialId :: string
  t_base :: "base_url option"

definition sameProviderTarget :: "provider_target \<Rightarrow> provider_target \<Rightarrow> bool" where
  "sameProviderTarget a b \<longleftrightarrow>
     t_provider a = t_provider b \<and> t_model a = t_model b \<and> t_kind a = t_kind b \<and>
     t_credentialId a = t_credentialId b"

lemma sameProviderTarget_refl [simp]: "sameProviderTarget a a"
  by (simp add: sameProviderTarget_def)

lemma sameProviderTarget_base [simp]: "sameProviderTarget (a\<lparr>t_base := x\<rparr>) b = sameProviderTarget a b"
  by (simp add: sameProviderTarget_def)

definition cell_key :: "string \<Rightarrow> string option \<Rightarrow> string" where
  "cell_key cred model = (case model of None \<Rightarrow> cred | Some m \<Rightarrow> cred @ ''/'' @ m)"

definition getKey :: "provider_target \<Rightarrow> string" where
  "getKey t = cell_key (t_credentialId t) (t_model t)"

lemma same_target_same_key: "sameProviderTarget a b \<Longrightarrow> getKey a = getKey b"
  by (simp add: sameProviderTarget_def getKey_def)

fun model_suffix :: "string option \<Rightarrow> string" where
  "model_suffix None = []"
| "model_suffix (Some m) = CHR ''/'' # m"

lemma model_suffix_inj:
  assumes "l @ model_suffix m = l' @ model_suffix m'"
    and "CHR ''/'' \<notin> set l" and "CHR ''/'' \<notin> set l'"
  shows "l = l' \<and> m = m'"
proof (cases m; cases m')
  fix x y
  assume mm: "m = Some x" "m' = Some y"
  have "l @ CHR ''/'' # x = l' @ CHR ''/'' # y" using assms(1) mm by simp
  from split_at_separator [OF this assms(2,3)] show ?thesis using mm by simp
qed (use assms in \<open>auto simp: in_set_conv_decomp\<close>)

lemma cell_key_split:
  assumes "parseCredentialId c = Some (p, l)"
  shows "cell_key c m = p @ CHR ''#'' # l @ model_suffix m"
  using make_parse [OF assms]
  by (cases m) (auto simp: cell_key_def makeCredentialId_def split: if_splits)

lemma cell_key_inj:
  assumes "credential_id_ok c" and "credential_id_ok c'" and "cell_key c m = cell_key c' m'"
  shows "c = c' \<and> m = m'"
proof -
  from assms(1,2) obtain p l p' l' where c: "parseCredentialId c = Some (p, l)"
    and c': "parseCredentialId c' = Some (p', l')"
    by (auto simp: credential_id_ok_def)
  note m = make_parse [OF c] and m' = make_parse [OF c']
  have ok: "label_ok l" "label_ok l'" "CHR ''#'' \<notin> set p" "CHR ''#'' \<notin> set p'"
    using m m' by (auto simp: makeCredentialId_def split: if_splits)
  have "p @ CHR ''#'' # (l @ model_suffix m) = p' @ CHR ''#'' # (l' @ model_suffix m')"
    using assms(3) by (simp add: cell_key_split [OF c] cell_key_split [OF c'])
  from split_at_separator [OF this ok(3,4)] have "p = p'" and l: "l @ model_suffix m = l' @ model_suffix m'"
    by auto
  moreover from model_suffix_inj [OF l] have "l = l' \<and> m = m'"
    using label_ok_chars(2) ok(1,2) by blast
  ultimately show ?thesis using m m' by simp
qed

end
