(* ===== verification/Lifecycle.thy ===== *)
theory Lifecycle
  imports Identity
begin

text \<open>
  The attempt lifecycle of \<^verbatim>\<open>kernel/contracts.ts\<close> and \<^verbatim>\<open>kernel/request-lifecycle.ts\<close>.
  Object identities are natural numbers handed out by \<open>w_next\<close>; the module-level
  \<^verbatim>\<open>knownHandles\<close> weak map is \<open>w_known\<close>, shared by every lifecycle of the process.
  The port that the request paths call is the locale \<open>attempt_port\<close>; the class
  \<^verbatim>\<open>AttemptLifecycle\<close> interprets it here and the circuit breaker in its own theory.
\<close>

section \<open>Outcomes and failures\<close>

datatype provenance = Upstream | InvalidUpstreamEnvelope | RelayMapperDefect | ClientCancellation | Deadline

datatype failure_kind = HttpFailure | TransportFailure | InvalidResponse | MappingFailure | ProtocolFailure

datatype cancellation_cause = ClientGoneBeforeResponse | ClientGoneMidResponse | RelayAbandoned

record outcome_base =
  o_target :: provider_target
  o_provenance :: provenance
  o_completedAt :: rat
  o_elapsedMs :: jsnum

datatype attempt_outcome =
    Succeeded (base_of: outcome_base) (ok_status: int)
  | Failed (base_of: outcome_base) (failure_of: failure_kind) (failed_status: "int option")
      (retryAfterMs: "rat option")
  | Cancelled (base_of: outcome_base) (cause_of: cancellation_cause) (reason_of: "string option")

definition outcome_target :: "attempt_outcome \<Rightarrow> provider_target" where
  "outcome_target oc = o_target (base_of oc)"

datatype begin_failure = LifecycleClosed

datatype completion_failure =
    DuplicateCompletion string
  | ForeignHandle
  | StaleHandle
  | CrossTarget (expected: provider_target) (received: provider_target)

record completed_attempt =
  ca_id :: string
  ca_target :: provider_target
  ca_outcome :: attempt_outcome

text \<open>What a caller may pass as a handle.\<close>

datatype handle_arg = HRef nat | HNull | HPrimitive

section \<open>The port\<close>

text \<open>
  \<open>opened s h\<close> is the target of a handle that \<open>s\<close> issued and has not completed. A port
  issues handles that were not open, completes an open one for its own target exactly once,
  and rejects everything else without opening or closing a handle.
\<close>

locale attempt_port =
  fixes begin_op :: "'s \<Rightarrow> provider_target \<Rightarrow> 's \<times> (begin_failure + nat)"
    and complete_op :: "'s \<Rightarrow> handle_arg \<Rightarrow> attempt_outcome \<Rightarrow> 's \<times> (completion_failure + completed_attempt)"
    and opened :: "'s \<Rightarrow> nat \<Rightarrow> provider_target option"
    and inv :: "'s \<Rightarrow> bool"
  assumes begin_inv: "inv s \<Longrightarrow> inv (fst (begin_op s t))"
    and complete_inv: "inv s \<Longrightarrow> inv (fst (complete_op s a oc))"
    and begin_opens: "inv s \<Longrightarrow> begin_op s t = (s', Inr h) \<Longrightarrow>
           opened s h = None \<and> opened s' = (opened s)(h \<mapsto> t)"
    and begin_refused: "inv s \<Longrightarrow> begin_op s t = (s', Inl e) \<Longrightarrow> opened s' = opened s"
    and complete_accepts: "inv s \<Longrightarrow> opened s h = Some t \<Longrightarrow> sameProviderTarget t (outcome_target oc) \<Longrightarrow>
           \<exists>s' c. complete_op s (HRef h) oc = (s', Inr c) \<and> ca_target c = t \<and> ca_outcome c = oc"
    and complete_closes: "inv s \<Longrightarrow> complete_op s a oc = (s', Inr c) \<Longrightarrow>
           \<exists>h t. a = HRef h \<and> opened s h = Some t \<and> sameProviderTarget t (outcome_target oc) \<and>
             opened s' = (opened s)(h := None)"
    and complete_rejects: "inv s \<Longrightarrow> complete_op s a oc = (s', Inl f) \<Longrightarrow> s' = s"
begin

lemma completed_once:
  assumes "inv s" and "complete_op s a oc = (s', Inr c)"
  shows "\<exists>e. complete_op s' a oc' = (s', Inl e)"
proof -
  from complete_closes [OF assms] obtain h t where h: "a = HRef h" "opened s' h = None" by auto
  have inv': "inv s'" using complete_inv [OF assms(1), of a oc] assms(2) by simp
  obtain s'' r where r: "complete_op s' a oc' = (s'', r)" by force
  show ?thesis
  proof (cases r)
    case (Inl e)
    then show ?thesis using complete_rejects [OF inv'] r by metis
  next
    case (Inr c')
    then show ?thesis using complete_closes [OF inv' r [unfolded Inr]] h by auto
  qed
qed

end

text \<open>Any sequence of calls on a port.\<close>

datatype port_call = PBegin provider_target | PComplete handle_arg attempt_outcome

context attempt_port
begin

fun run :: "'s \<Rightarrow> port_call list \<Rightarrow> 's" where
  "run s [] = s"
| "run s (PBegin t # cs) = run (fst (begin_op s t)) cs"
| "run s (PComplete a oc # cs) = run (fst (complete_op s a oc)) cs"

text \<open>How often a run completes a handle, and how often it issues one.\<close>

fun completions :: "'s \<Rightarrow> nat \<Rightarrow> port_call list \<Rightarrow> nat" where
  "completions s h [] = 0"
| "completions s h (PBegin t # cs) = completions (fst (begin_op s t)) h cs"
| "completions s h (PComplete a oc # cs) =
     (case complete_op s a oc of
        (s', Inr c) \<Rightarrow> (if a = HRef h then 1 else 0) + completions s' h cs
      | (s', Inl e) \<Rightarrow> completions s' h cs)"

fun issues :: "'s \<Rightarrow> nat \<Rightarrow> port_call list \<Rightarrow> nat" where
  "issues s h [] = 0"
| "issues s h (PBegin t # cs) =
     (case begin_op s t of
        (s', Inr g) \<Rightarrow> (if g = h then 1 else 0) + issues s' h cs
      | (s', Inl e) \<Rightarrow> issues s' h cs)"
| "issues s h (PComplete a oc # cs) = issues (fst (complete_op s a oc)) h cs"

lemma run_inv: "inv s \<Longrightarrow> inv (run s cs)"
proof (induction cs arbitrary: s)
  case (Cons c cs)
  then show ?case by (cases c) (auto intro: begin_inv complete_inv)
qed simp

lemma completions_bounded:
  "inv s \<Longrightarrow> completions s h cs + (if opened (run s cs) h = None then 0 else 1)
     = issues s h cs + (if opened s h = None then 0 else 1)"
proof (induction cs arbitrary: s)
  case (Cons c cs)
  show ?case
  proof (cases c)
    case (PBegin t)
    obtain s' r where r: "begin_op s t = (s', r)" by force
    then have i: "inv s'" using begin_inv [OF Cons.prems, of t] by simp
    show ?thesis
      using Cons.IH [OF i] PBegin r begin_opens [OF Cons.prems, of t s'] begin_refused [OF Cons.prems, of t s']
      by (cases r) (auto split: if_splits)
  next
    case (PComplete a oc)
    obtain s' r where r: "complete_op s a oc = (s', r)" by force
    then have i: "inv s'" using complete_inv [OF Cons.prems, of a oc] by simp
    show ?thesis
      using Cons.IH [OF i] PComplete r complete_closes [OF Cons.prems, of a oc s'] complete_rejects [OF Cons.prems, of a oc s']
      by (cases r) (auto split: if_splits)
  qed
qed simp

end

section \<open>The request lifecycle\<close>

record attempt_record =
  ar_owner :: nat
  ar_generation :: int
  ar_id :: string
  ar_target :: provider_target
  ar_completed :: bool

record world =
  w_next :: nat
  w_known :: "nat \<Rightarrow> attempt_record option"

record lifecycle =
  lc_owner :: nat
  lc_generation :: int
  lc_issued :: nat
  lc_closed :: bool

datatype range_error = GenerationRange

definition MAX_SAFE_INTEGER :: int where
  "MAX_SAFE_INTEGER = 9007199254740991"

definition empty_world :: world where
  "empty_world = \<lparr>w_next = 0, w_known = (\<lambda>_. None)\<rparr>"

text \<open>\<^verbatim>\<open>constructor\<close>: the owner is a fresh frozen object.\<close>

definition new_lifecycle :: "world \<Rightarrow> int \<Rightarrow> range_error + (world \<times> lifecycle)" where
  "new_lifecycle w generation =
     (if generation < 1 \<or> MAX_SAFE_INTEGER < generation then Inl GenerationRange
      else Inr (w\<lparr>w_next := w_next w + 1\<rparr>,
        \<lparr>lc_owner = w_next w, lc_generation = generation, lc_issued = 0, lc_closed = False\<rparr>))"

definition attempt_id :: "int \<Rightarrow> nat \<Rightarrow> string" where
  "attempt_id generation ordinal = show_int generation @ '':'' @ show_nat ordinal"

definition lc_beginAttempt ::
  "world \<times> lifecycle \<Rightarrow> provider_target \<Rightarrow> (world \<times> lifecycle) \<times> (begin_failure + nat)" where
  "lc_beginAttempt = (\<lambda>(w, l) target.
     if lc_closed l then ((w, l), Inl LifecycleClosed)
     else
       let ordinal = lc_issued l + 1;
           handle = w_next w;
           record = \<lparr>ar_owner = lc_owner l, ar_generation = lc_generation l,
             ar_id = attempt_id (lc_generation l) ordinal, ar_target = target, ar_completed = False\<rparr>
       in ((w\<lparr>w_next := w_next w + 1, w_known := (w_known w)(handle \<mapsto> record)\<rparr>,
            l\<lparr>lc_issued := ordinal\<rparr>), Inr handle))"

fun known_record :: "world \<Rightarrow> handle_arg \<Rightarrow> attempt_record option" where
  "known_record w (HRef h) = w_known w h"
| "known_record w HNull = None"
| "known_record w HPrimitive = None"

fun mark_completed :: "world \<Rightarrow> handle_arg \<Rightarrow> world" where
  "mark_completed w (HRef h) =
     w\<lparr>w_known := (w_known w)(h := map_option (\<lambda>r. r\<lparr>ar_completed := True\<rparr>) (w_known w h))\<rparr>"
| "mark_completed w HNull = w"
| "mark_completed w HPrimitive = w"

definition lc_completeAttempt ::
  "world \<times> lifecycle \<Rightarrow> handle_arg \<Rightarrow> attempt_outcome \<Rightarrow>
     (world \<times> lifecycle) \<times> (completion_failure + completed_attempt)" where
  "lc_completeAttempt = (\<lambda>(w, l) handle oc.
     case known_record w handle of
       None \<Rightarrow> ((w, l), Inl StaleHandle)
     | Some record \<Rightarrow>
         if ar_owner record \<noteq> lc_owner l then ((w, l), Inl ForeignHandle)
         else if ar_generation record \<noteq> lc_generation l then ((w, l), Inl StaleHandle)
         else if ar_completed record then ((w, l), Inl (DuplicateCompletion (ar_id record)))
         else if \<not> sameProviderTarget (ar_target record) (outcome_target oc) then
           ((w, l), Inl (CrossTarget (ar_target record) (outcome_target oc)))
         else ((mark_completed w handle, l),
           Inr \<lparr>ca_id = ar_id record, ca_target = ar_target record, ca_outcome = oc\<rparr>))"

definition lc_close :: "world \<times> lifecycle \<Rightarrow> world \<times> lifecycle" where
  "lc_close = (\<lambda>(w, l). (w, l\<lparr>lc_closed := True\<rparr>))"

section \<open>The lifecycle is an attempt port\<close>

definition lc_opened :: "world \<times> lifecycle \<Rightarrow> nat \<Rightarrow> provider_target option" where
  "lc_opened = (\<lambda>(w, l) h. case w_known w h of
     None \<Rightarrow> None
   | Some r \<Rightarrow> if ar_owner r = lc_owner l \<and> ar_generation r = lc_generation l \<and> \<not> ar_completed r
       then Some (ar_target r) else None)"

definition world_ok :: "world \<Rightarrow> bool" where
  "world_ok w \<longleftrightarrow> (\<forall>h. w_known w h \<noteq> None \<longrightarrow> h < w_next w)"

lemma world_ok_fresh [simp]: "world_ok w \<Longrightarrow> w_known w (w_next w) = None"
  unfolding world_ok_def by (metis less_irrefl)

lemma lc_begin_ok: "world_ok (fst s) \<Longrightarrow> world_ok (fst (fst (lc_beginAttempt s t)))"
  by (cases s) (auto simp: lc_beginAttempt_def world_ok_def Let_def less_Suc_eq)

lemma mark_completed_ok: "world_ok w \<Longrightarrow> world_ok (mark_completed w a)"
  by (cases a) (auto simp: world_ok_def)

lemma lc_complete_ok: "world_ok (fst s) \<Longrightarrow> world_ok (fst (fst (lc_completeAttempt s a oc)))"
  by (cases s) (auto simp: lc_completeAttempt_def mark_completed_ok split: option.splits)

interpretation lc: attempt_port lc_beginAttempt lc_completeAttempt lc_opened "\<lambda>s. world_ok (fst s)"
proof
  fix s :: "world \<times> lifecycle" and t s' h e a oc c f
  assume ok: "world_ok (fst s)"
  show "world_ok (fst (fst (lc_beginAttempt s t)))" using ok by (rule lc_begin_ok)
  show "world_ok (fst (fst (lc_completeAttempt s a oc)))" using ok by (rule lc_complete_ok)
  show "lc_opened s h = None \<and> lc_opened s' = (lc_opened s)(h \<mapsto> t)" if "lc_beginAttempt s t = (s', Inr h)"
    using that ok by (cases s)
      (auto simp: lc_beginAttempt_def lc_opened_def Let_def fun_eq_iff split: if_splits option.splits)
  show "lc_opened s' = lc_opened s" if "lc_beginAttempt s t = (s', Inl e)"
    using that by (cases s) (auto simp: lc_beginAttempt_def Let_def split: if_splits)
  show "\<exists>s' c. lc_completeAttempt s (HRef h) oc = (s', Inr c) \<and> ca_target c = t \<and> ca_outcome c = oc"
    if "lc_opened s h = Some t" "sameProviderTarget t (outcome_target oc)"
    using that by (cases s)
      (auto simp: lc_completeAttempt_def lc_opened_def split: option.splits if_splits)
  show "\<exists>h t. a = HRef h \<and> lc_opened s h = Some t \<and> sameProviderTarget t (outcome_target oc) \<and>
      lc_opened s' = (lc_opened s)(h := None)" if "lc_completeAttempt s a oc = (s', Inr c)"
    using that by (cases s; cases a)
      (auto simp: lc_completeAttempt_def lc_opened_def fun_eq_iff split: option.splits if_splits)
  show "s' = s" if "lc_completeAttempt s a oc = (s', Inl f)"
    using that by (cases s) (auto simp: lc_completeAttempt_def split: option.splits if_splits)
qed

section \<open>Attempt ids\<close>

lemma show_int_no_colon: "CHR '':'' \<notin> set (show_int i)"
  by (auto simp: show_int_def dest: show_nat_digits)

lemma show_int_inj: "show_int i = show_int j \<longleftrightarrow> i = j"
proof -
  have minus: "CHR ''-'' \<notin> set (show_nat n)" for n by (auto dest: show_nat_digits)
  have "i = j" if eq: "show_int i = show_int j"
    using eq minus [of "nat i"] minus [of "nat j"]
    by (auto simp: show_int_def show_nat_inj split: if_splits) (metis list.set_intros(1))+
  then show ?thesis by auto
qed

lemma attempt_id_inj: "attempt_id g n = attempt_id g' n' \<longleftrightarrow> g = g' \<and> n = n'"
proof
  assume "attempt_id g n = attempt_id g' n'"
  then have "show_int g @ CHR '':'' # show_nat n = show_int g' @ CHR '':'' # show_nat n'"
    by (simp add: attempt_id_def)
  from split_at_separator [OF this show_int_no_colon show_int_no_colon]
  show "g = g' \<and> n = n'" by (simp add: show_int_inj show_nat_inj)
qed simp

end
