(* ===== verification/Quota.thy ===== *)
theory Quota
  imports JsData
begin

text \<open>
  Quota dimensions and observations (\<^verbatim>\<open>quota-observation.ts\<close>, the closed vocabularies of
  \<^verbatim>\<open>dashboard-contract.ts\<close>): the bucket key, the merge that keeps the latest statement
  per bucket, the canonical bucket order of \<^verbatim>\<open>quota-demotion.ts\<close>. An observation's
  \<^verbatim>\<open>basis\<close> is always \<^verbatim>\<open>"provider-stated"\<close> and is not stored.
\<close>

datatype quota_axis = Requests | Tokens

datatype quota_period = Minute | Day | Month | UnknownPeriod

record quota_observation =
  q_axis :: quota_axis
  q_period :: quota_period
  q_limit :: jsnum
  q_remaining :: jsnum
  q_resetsAt :: "jsnum option"
  q_observedAt :: jsnum

fun axis_name :: "quota_axis \<Rightarrow> string" where
  "axis_name Requests = ''requests''"
| "axis_name Tokens = ''tokens''"

fun period_name :: "quota_period \<Rightarrow> string" where
  "period_name Minute = ''minute''"
| "period_name Day = ''day''"
| "period_name Month = ''month''"
| "period_name UnknownPeriod = ''unknown''"

fun PERIOD_RANK :: "quota_period \<Rightarrow> nat" where
  "PERIOD_RANK Minute = 0"
| "PERIOD_RANK Day = 1"
| "PERIOD_RANK Month = 2"
| "PERIOD_RANK UnknownPeriod = 3"

definition bucketRank :: "quota_axis \<Rightarrow> quota_period \<Rightarrow> nat" where
  "bucketRank axis period = (if axis = Requests then 0 else 1) * 10 + PERIOD_RANK period"

definition bucketKey :: "quota_axis \<Rightarrow> quota_period \<Rightarrow> string" where
  "bucketKey axis period = axis_name axis @ '':'' @ period_name period"

definition mergeQuotaObservations :: "quota_observation list list \<Rightarrow> quota_observation list" where
  "mergeQuotaObservations sets =
     map snd (fold (\<lambda>ob m. jm_put (bucketKey (q_axis ob) (q_period ob)) ob m) (concat sets) [])"

definition headroomPercent :: "quota_observation \<Rightarrow> jsnum" where
  "headroomPercent ob =
     (let ratio = (q_remaining ob div q_limit ob) * Fin 100
      in js_max (Fin 0) (js_min (Fin 100) ratio))"

section \<open>The axes and periods are ordered by rank\<close>

instantiation quota_period :: linorder
begin

definition less_eq_quota_period :: "quota_period \<Rightarrow> quota_period \<Rightarrow> bool" where
  "p \<le> q \<longleftrightarrow> PERIOD_RANK p \<le> PERIOD_RANK q"

definition less_quota_period :: "quota_period \<Rightarrow> quota_period \<Rightarrow> bool" where
  "p < q \<longleftrightarrow> PERIOD_RANK p < PERIOD_RANK q"

instance
proof
  fix p q r :: quota_period
  show "p < q \<longleftrightarrow> p \<le> q \<and> \<not> q \<le> p" by (auto simp: less_quota_period_def less_eq_quota_period_def)
  show "p \<le> p" by (simp add: less_eq_quota_period_def)
  show "p \<le> q \<Longrightarrow> q \<le> r \<Longrightarrow> p \<le> r" by (simp add: less_eq_quota_period_def)
  show "p \<le> q \<Longrightarrow> q \<le> p \<Longrightarrow> p = q" by (cases p; cases q) (auto simp: less_eq_quota_period_def)
  show "p \<le> q \<or> q \<le> p" by (auto simp: less_eq_quota_period_def)
qed

end

lemma bucketRank_inj: "bucketRank a p = bucketRank b q \<longleftrightarrow> a = b \<and> p = q"
  by (cases a; cases b; cases p; cases q) (auto simp: bucketRank_def)

lemma axis_name_inj: "axis_name a = axis_name b \<longleftrightarrow> a = b"
  by (cases a; cases b) simp_all

lemma period_name_inj: "period_name p = period_name q \<longleftrightarrow> p = q"
  by (cases p; cases q) simp_all

lemma axis_name_no_colon: "CHR '':'' \<notin> set (axis_name a)"
  by (cases a) simp_all

lemma bucketKey_inj: "bucketKey a p = bucketKey b q \<longleftrightarrow> a = b \<and> p = q"
proof
  assume "bucketKey a p = bucketKey b q"
  then have "axis_name a @ CHR '':'' # period_name p = axis_name b @ CHR '':'' # period_name q"
    by (simp add: bucketKey_def)
  from split_at_separator [OF this axis_name_no_colon axis_name_no_colon]
  show "a = b \<and> p = q" by (simp add: axis_name_inj period_name_inj)
qed simp

section \<open>The merge\<close>

definition in_bucket :: "quota_axis \<Rightarrow> quota_period \<Rightarrow> quota_observation \<Rightarrow> bool" where
  "in_bucket a p ob \<longleftrightarrow> q_axis ob = a \<and> q_period ob = p"

abbreviation put_observation ::
  "quota_observation \<Rightarrow> (string, quota_observation) jmap \<Rightarrow> (string, quota_observation) jmap" where
  "put_observation ob m \<equiv> jm_put (bucketKey (q_axis ob) (q_period ob)) ob m"

definition keyed :: "(string, quota_observation) jmap \<Rightarrow> bool" where
  "keyed m \<longleftrightarrow> jm_ok m \<and> (\<forall>(k, ob) \<in> set m. k = bucketKey (q_axis ob) (q_period ob))"

lemma keyed_fold: "keyed m \<Longrightarrow> keyed (fold put_observation obs m)"
proof (induction obs arbitrary: m)
  case (Cons ob obs)
  then have "keyed (put_observation ob m)"
    by (auto simp: keyed_def jm.ok_put dest!: jm_put_set)
  then show ?case using Cons.IH by simp
qed simp

lemma get_fold_put:
  "jm_get (fold put_observation obs m) (bucketKey a p) =
     (case filter (in_bucket a p) obs of [] \<Rightarrow> jm_get m (bucketKey a p) | xs \<Rightarrow> Some (last xs))"
proof (induction obs rule: rev_induct)
  case (snoc ob obs)
  then show ?case
    by (auto simp: jm.get_put bucketKey_inj in_bucket_def split: list.splits)
qed simp

lemma keyed_get_find:
  "keyed m \<Longrightarrow> jm_get m (bucketKey a p) = find (in_bucket a p) (map snd m)"
proof (induction m)
  case (Cons x m)
  have "keyed m" using Cons.prems by (auto simp: keyed_def jm_ok_def)
  then show ?case using Cons by (cases x) (auto simp: keyed_def in_bucket_def bucketKey_inj)
qed simp

lemma merge_latest_wins:
  "find (in_bucket a p) (mergeQuotaObservations sets) =
     (case filter (in_bucket a p) (concat sets) of [] \<Rightarrow> None | xs \<Rightarrow> Some (last xs))"
proof -
  have "keyed (fold put_observation (concat sets) [])"
    by (rule keyed_fold) (simp add: keyed_def)
  from keyed_get_find [OF this, of a p] get_fold_put [of "concat sets" "[]" a p]
  show ?thesis by (auto simp: mergeQuotaObservations_def split: list.splits)
qed

lemma keyed_distinct: "keyed m \<Longrightarrow> distinct (map (\<lambda>ob. (q_axis ob, q_period ob)) (map snd m))"
proof (induction m)
  case (Cons x m)
  have k: "keyed m" using Cons.prems by (auto simp: keyed_def jm_ok_def)
  have "(q_axis (snd x), q_period (snd x)) \<notin> (\<lambda>ob. (q_axis ob, q_period ob)) ` snd ` set m"
  proof
    assume "(q_axis (snd x), q_period (snd x)) \<in> (\<lambda>ob. (q_axis ob, q_period ob)) ` snd ` set m"
    then obtain y where "y \<in> set m" "q_axis (snd y) = q_axis (snd x)" "q_period (snd y) = q_period (snd x)"
      by auto
    then have "fst y = fst x" "fst y \<in> fst ` set m" using Cons.prems by (force simp: keyed_def)+
    then show False using Cons.prems by (auto simp: keyed_def jm_ok_def)
  qed
  then show ?case using Cons.IH [OF k] by (simp add: image_image)
qed simp

lemma merge_buckets_distinct:
  "distinct (map (\<lambda>ob. (q_axis ob, q_period ob)) (mergeQuotaObservations sets))"
proof -
  have "keyed (fold put_observation (concat sets) [])"
    by (rule keyed_fold) (simp add: keyed_def)
  from keyed_distinct [OF this] show ?thesis by (simp add: mergeQuotaObservations_def)
qed

lemma length_merge: "length (mergeQuotaObservations sets) \<le> 8"
proof -
  let ?f = "\<lambda>ob. (q_axis ob, q_period ob)" and ?U = "{Requests, Tokens} \<times> {Minute, Day, Month, UnknownPeriod}"
  have "(a, p) \<in> ?U" for a p by (cases a; cases p) simp_all
  then have "set (map ?f (mergeQuotaObservations sets)) \<subseteq> ?U" by (auto simp del: insert_iff)
  then have "card (set (map ?f (mergeQuotaObservations sets))) \<le> card ?U"
    by (intro card_mono) auto
  moreover have "card (set (map ?f (mergeQuotaObservations sets))) = length (mergeQuotaObservations sets)"
    using distinct_card [OF merge_buckets_distinct] by simp
  moreover have "card ?U = 8" by (simp add: card_cartesian_product)
  ultimately show ?thesis by simp
qed

lemma set_merge: "set (mergeQuotaObservations sets) \<subseteq> set (concat sets)"
proof -
  have "snd ` set (fold put_observation obs m) \<subseteq> set obs \<union> snd ` set m" for obs m
  proof (induction obs arbitrary: m)
    case (Cons ob obs)
    have "snd ` set (put_observation ob m) \<subseteq> insert ob (snd ` set m)"
      by (force dest!: jm_put_set)
    with Cons [of "put_observation ob m"] show ?case
      unfolding fold_simps list.set by blast
  qed simp
  from this [of "concat sets" "[]"] show ?thesis by (simp add: mergeQuotaObservations_def)
qed

end
