(* ===== verification/Metrics.thy ===== *)
theory Metrics
  imports JsData
begin

text \<open>
  Ping statistics (\<^verbatim>\<open>ping/metrics.ts\<close>): averages, quantiles, jitter, uptime, the
  stability score and the health verdict. The functions are computed over \<open>jsnum\<close>, so an
  empty dataset's \<^verbatim>\<open>Infinity\<close> flows as in the code; with a non-finite sample the order
  of \<^verbatim>\<open>sort\<close> is implementation-defined, and the lemmas assume finite samples.
\<close>

datatype ping_source = Probe | Request

record ping =
  p_ms :: jsnum
  p_code :: string
  p_timestamp :: rat
  p_tokens :: "jsnum option"
  p_source :: "ping_source option"

definition measurable :: "ping \<Rightarrow> bool" where
  "measurable p \<longleftrightarrow> p_code p = ''200'' \<or> p_code p = ''401''"

definition js_sum :: "jsnum list \<Rightarrow> jsnum" where
  "js_sum xs = foldl (+) (Fin 0) xs"

definition js_len :: "'a list \<Rightarrow> jsnum" where
  "js_len xs = Fin (of_nat (length xs))"

definition getAvg :: "ping list \<Rightarrow> jsnum" where
  "getAvg pings =
     (let m = filter measurable pings in
      if m = [] then PosInf else js_round (js_sum (map p_ms m) div js_len m))"

text \<open>\<^verbatim>\<open>xs.sort((a, b) => a - b)\<close>\<close>

definition js_sort_num :: "jsnum list \<Rightarrow> jsnum list" where
  "js_sort_num xs = js_sort (\<lambda>a b. \<not> Fin 0 < a - b) xs"

definition quantile_index :: "nat \<Rightarrow> rat \<Rightarrow> nat" where
  "quantile_index n q = nat (max 0 (\<lceil>of_nat n * q\<rceil> - 1))"

definition quantileOf :: "jsnum list \<Rightarrow> rat \<Rightarrow> jsnum" where
  "quantileOf ascending q =
     (if ascending = [] then PosInf else ascending ! quantile_index (length ascending) q)"

definition measurableMs :: "ping list \<Rightarrow> jsnum list" where
  "measurableMs pings = js_sort_num (map p_ms (filter measurable pings))"

definition getP95 :: "ping list \<Rightarrow> jsnum" where
  "getP95 pings = quantileOf (measurableMs pings) (95 / 100)"

definition getP90 :: "ping list \<Rightarrow> jsnum" where
  "getP90 pings = quantileOf (measurableMs pings) (9 / 10)"

fun ms_per_token_rate :: "ping \<Rightarrow> jsnum option" where
  "ms_per_token_rate p =
     (if p_source p \<noteq> Some Request then None
      else if \<not> measurable p then None
      else case p_tokens p of
          None \<Rightarrow> None
        | Some tokens \<Rightarrow>
            if \<not> isFinite tokens \<or> tokens \<le> Fin 0 then None
            else if \<not> isFinite (p_ms p) \<or> p_ms p < Fin 0 then None
            else Some (p_ms p div tokens))"

definition msPerTokenRates :: "ping list \<Rightarrow> jsnum list" where
  "msPerTokenRates pings = js_sort_num (List.map_filter ms_per_token_rate pings)"

definition getP95MsPerToken :: "ping list \<Rightarrow> jsnum" where
  "getP95MsPerToken pings = quantileOf (msPerTokenRates pings) (95 / 100)"

definition getP90MsPerToken :: "ping list \<Rightarrow> jsnum" where
  "getP90MsPerToken pings = quantileOf (msPerTokenRates pings) (9 / 10)"

definition countMsPerTokenSamples :: "ping list \<Rightarrow> nat" where
  "countMsPerTokenSamples pings = length (msPerTokenRates pings)"

definition getJitter :: "ping list \<Rightarrow> jsnum" where
  "getJitter pings =
     (let m = filter measurable pings in
      if length m < 2 then Fin 0
      else let mean = js_sum (map p_ms m) div js_len m;
               variance = js_sum (map (\<lambda>p. (p_ms p - mean) * (p_ms p - mean)) m) div js_len m
           in js_round_sqrt variance)"

definition getSpikeRate :: "ping list \<Rightarrow> jsnum" where
  "getSpikeRate pings =
     (let m = filter measurable pings in
      if m = [] then Fin 0
      else js_len (filter (\<lambda>p. Fin 3000 < p_ms p) m) div js_len m)"

definition getUptime :: "ping list \<Rightarrow> jsnum" where
  "getUptime pings =
     (if pings = [] then Fin 0
      else js_round ((js_len (filter (\<lambda>p. p_code p = ''200'') pings) div js_len pings) * Fin 100))"

definition clamp_score :: "jsnum \<Rightarrow> jsnum" where
  "clamp_score x = js_max (Fin 0) (js_min (Fin 100) x)"

definition getStabilityScore :: "ping list \<Rightarrow> jsnum" where
  "getStabilityScore pings =
     (if pings = [] then Fin (- 1)
      else let p95 = getP95 pings; jitter = getJitter pings;
               uptime = getUptime pings; spikeRate = getSpikeRate pings;
               p95Score = clamp_score (Fin 100 * (Fin 1 - p95 div Fin 5000));
               jitterScore = clamp_score (Fin 100 * (Fin 1 - jitter div Fin 2000));
               spikeScore = js_max (Fin 0) (Fin 100 * (Fin 1 - spikeRate));
               latencyQuality = Fin (4 / 10) * p95Score + Fin (4 / 10) * jitterScore + Fin (2 / 10) * spikeScore
           in js_round (latencyQuality * (uptime div Fin 100)))"

definition trailingFailures :: "ping list \<Rightarrow> nat" where
  "trailingFailures pings = length (takeWhile (\<lambda>p. p_code p \<noteq> ''200'') (rev pings))"

definition DOWN_AFTER_CONSECUTIVE_FAILURES :: nat where
  "DOWN_AFTER_CONSECUTIVE_FAILURES = 3"

definition credential_code :: "string \<Rightarrow> bool" where
  "credential_code c \<longleftrightarrow> c = ''401'' \<or> c = ''403''"

definition isPersistentlyDown :: "ping list \<Rightarrow> bool" where
  "isPersistentlyDown pings =
     (if pings = [] then False
      else if credential_code (p_code (last pings)) then True
      else if \<not> list_ex (\<lambda>p. p_code p = ''200'') pings then True
      else DOWN_AFTER_CONSECUTIVE_FAILURES \<le> trailingFailures pings \<and> getUptime pings < Fin 50)"

datatype verdict = Perfect | Normal | Slow | Spiky | Overloaded | Unstable | NotActive | Pending

definition getVerdict :: "ping list \<Rightarrow> string option \<Rightarrow> bool option \<Rightarrow> verdict" where
  "getVerdict pings httpCode isDown =
     (let down = (case isDown of Some b \<Rightarrow> b | None \<Rightarrow> isPersistentlyDown pings) in
      if httpCode = Some ''429'' \<and> 0 < trailingFailures pings then Overloaded
      else let wasUpBefore = pings \<noteq> [] \<and> list_ex (\<lambda>p. p_code p = ''200'') pings in
        if down then (if wasUpBefore then Unstable else NotActive)
        else let avg = getAvg pings in
          if avg = PosInf then Pending
          else let m = filter measurable pings; p95 = getP95 pings in
            if avg < Fin 400 then (if 3 \<le> length m \<and> Fin 3000 < p95 then Spiky else Perfect)
            else if avg < Fin 1000 then (if 3 \<le> length m \<and> Fin 5000 < p95 then Spiky else Normal)
            else if avg < Fin 5000 then Slow
            else Unstable)"

section \<open>Quantiles\<close>

lemma quantile_index_less: "0 < n \<Longrightarrow> 0 < q \<Longrightarrow> q \<le> 1 \<Longrightarrow> quantile_index n q < n"
proof -
  assume "0 < n" "0 < q" "q \<le> 1"
  then have "of_nat n * q \<le> of_nat n" by (simp add: mult_left_le)
  then have "\<lceil>of_nat n * q\<rceil> \<le> int n" by (simp add: ceiling_le_iff)
  then show ?thesis using \<open>0 < n\<close> by (simp add: quantile_index_def)
qed

lemma quantile_index_covers: "of_nat n * q \<le> of_nat (quantile_index n q + 1)"
proof -
  have "of_nat n * q \<le> of_int \<lceil>of_nat n * q\<rceil>" by simp
  also have "\<dots> \<le> of_int (int (quantile_index n q + 1))"
    by (simp only: of_int_le_iff) (simp add: quantile_index_def)
  finally show ?thesis by simp
qed

lemma js_sort_num_Fin: "js_sort_num (map Fin xs) = map Fin (sort xs)"
proof -
  have i: "js_insert (\<lambda>a b. \<not> Fin 0 < a - b) (Fin x) (map Fin ys) = map Fin (insort x ys)" for x ys
    by (induction ys) auto
  have "js_sort (\<lambda>a b. \<not> Fin 0 < a - b) (map Fin xs) = map Fin (sort xs)"
    by (induction xs) (simp_all add: i)
  then show ?thesis by (simp add: js_sort_num_def)
qed

lemma set_js_sort_num [simp]: "set (js_sort_num xs) = set xs"
  by (simp add: js_sort_num_def)

lemma length_js_sort_num [simp]: "length (js_sort_num xs) = length xs"
  by (simp add: js_sort_num_def)

lemma quantileOf_mem: "xs \<noteq> [] \<Longrightarrow> 0 < q \<Longrightarrow> q \<le> 1 \<Longrightarrow> quantileOf xs q \<in> set xs"
  using quantile_index_less [of "length xs" q] by (simp add: quantileOf_def)

text \<open>The quantile of a sorted list bounds at least the share \<open>q\<close> of its members.\<close>

lemma sorted_quantile_share:
  assumes "sorted xs" and "xs \<noteq> []" and "0 < q" and "q \<le> 1"
  shows "of_nat (length xs) * q \<le> of_nat (length (filter (\<lambda>x. x \<le> xs ! quantile_index (length xs) q) xs))"
proof -
  let ?i = "quantile_index (length xs) q"
  have i: "?i < length xs" using assms by (simp add: quantile_index_less)
  have "\<forall>x \<in> set (take (?i + 1) xs). x \<le> xs ! ?i"
    using i by (auto simp: in_set_conv_nth less_Suc_eq_le intro!: sorted_nth_mono [OF assms(1)])
  then have "length (take (?i + 1) xs) \<le> length (filter (\<lambda>x. x \<le> xs ! ?i) xs)"
    by (metis (mono_tags, lifting) append_take_drop_id filter_True filter_append le_add1 length_append)
  then have "of_nat (?i + 1) \<le> (of_nat (length (filter (\<lambda>x. x \<le> xs ! ?i) xs)) :: rat)"
    using i by (simp only: of_nat_le_iff) simp
  then show ?thesis using quantile_index_covers [of "length xs" q] by linarith
qed

section \<open>The stability score\<close>

definition finite_samples :: "ping list \<Rightarrow> bool" where
  "finite_samples pings \<longleftrightarrow> (\<forall>p \<in> set pings. isFinite (p_ms p))"

lemma finite_samples_filter: "finite_samples pings \<Longrightarrow> finite_samples (filter P pings)"
  by (simp add: finite_samples_def)

lemma finite_ms_obtain:
  assumes "finite_samples pings"
  obtains xs where "map p_ms pings = map Fin xs" and "length xs = length pings"
proof -
  have "\<exists>xs. map p_ms pings = map Fin xs \<and> length xs = length pings"
    using assms
  proof (induction pings)
    case (Cons p ps)
    then obtain xs q where "map p_ms ps = map Fin xs" "length xs = length ps" "p_ms p = Fin q"
      by (auto simp: finite_samples_def isFinite_iff)
    then show ?case by (intro exI [of _ "q # xs"]) simp
  qed simp
  then show ?thesis using that by blast
qed

lemma js_sum_Fin: "js_sum (map Fin xs) = Fin (sum_list xs)"
proof -
  have "foldl (+) (Fin a) (map Fin xs) = Fin (a + sum_list xs)" for a
    by (induction xs arbitrary: a) (simp_all add: add.assoc)
  then show ?thesis by (simp add: js_sum_def)
qed

lemma js_mean_Fin: "0 < n \<Longrightarrow> Fin a div Fin (of_nat n) = Fin (a / of_nat n)"
  by simp

lemma clamp_score_range: "x \<noteq> NaN \<Longrightarrow> \<exists>q. clamp_score x = Fin q \<and> 0 \<le> q \<and> q \<le> 100"
  by (cases x) (auto simp: clamp_score_def js_min.simps js_max.simps)

lemma js_round_sqrt_Fin: "0 \<le> v \<Longrightarrow> js_round_sqrt (Fin v) = Fin (of_int (round_sqrt v))"
  by simp

lemma getJitter_Fin:
  assumes "finite_samples pings"
  shows "\<exists>q. getJitter pings = Fin q"
proof -
  define m where "m = filter measurable pings"
  obtain xs where xs: "map p_ms m = map Fin xs" "length xs = length m"
    using finite_ms_obtain [OF finite_samples_filter [OF assms, of measurable]] m_def by blast
  show ?thesis
  proof (cases "length m < 2")
    case True
    then show ?thesis by (simp add: getJitter_def m_def)
  next
    case False
    define mean where "mean = sum_list xs / of_nat (length m)"
    have e: "js_sum (map p_ms m) div js_len m = Fin mean"
      using False by (auto simp: xs(1) js_sum_Fin js_len_def mean_def)
    have "map (\<lambda>p. (p_ms p - Fin mean) * (p_ms p - Fin mean)) m
        = map Fin (map (\<lambda>x. (x - mean) * (x - mean)) xs)"
    proof -
      have "map (\<lambda>p. (p_ms p - Fin mean) * (p_ms p - Fin mean)) m
          = map (\<lambda>y. (y - Fin mean) * (y - Fin mean)) (map p_ms m)" by simp
      then show ?thesis by (simp add: xs(1))
    qed
    then have "getJitter pings = js_round_sqrt (Fin (sum_list (map (\<lambda>x. (x - mean) * (x - mean)) xs)) div js_len m)"
      using False by (simp add: getJitter_def m_def [symmetric] e Let_def js_sum_Fin del: map_map)
    moreover have "0 \<le> sum_list (map (\<lambda>x. (x - mean) * (x - mean)) xs)"
      by (rule sum_list_nonneg) auto
    moreover have "m \<noteq> []" using False by auto
    ultimately show ?thesis by (simp add: js_len_def divide_less_0_iff)
  qed
qed

lemma getP95_not_NaN: "finite_samples pings \<Longrightarrow> getP95 pings \<noteq> NaN \<and> getP95 pings \<noteq> NegInf"
proof (cases "measurableMs pings = []")
  case False
  assume "finite_samples pings"
  then have "\<forall>x \<in> set (measurableMs pings). isFinite x"
    by (auto simp: measurableMs_def finite_samples_def)
  then show ?thesis using quantileOf_mem [OF False, of "95 / 100"] by (auto simp: getP95_def)
qed (simp add: getP95_def quantileOf_def)

lemma share_range: "0 < n \<Longrightarrow> k \<le> n \<Longrightarrow> 0 \<le> of_nat k / (of_nat n :: rat) \<and> of_nat k / (of_nat n :: rat) \<le> 1"
  by (simp add: divide_le_eq)

lemma getSpikeRate_range: "\<exists>q. getSpikeRate pings = Fin q \<and> 0 \<le> q \<and> q \<le> 1"
proof (cases "filter measurable pings = []")
  case False
  let ?m = "filter measurable pings" and ?P = "\<lambda>p. Fin 3000 < p_ms p"
  have "length (filter ?P ?m) \<le> length ?m" by (rule length_filter_le)
  then show ?thesis
    using share_range [of "length ?m" "length (filter ?P ?m)"] False
    by (simp add: getSpikeRate_def js_len_def Let_def del: filter_filter)
qed (simp add: getSpikeRate_def)

lemma round_percent: "0 \<le> x \<Longrightarrow> x \<le> 100 \<Longrightarrow> 0 \<le> \<lfloor>x + 1 / 2\<rfloor> \<and> \<lfloor>x + 1 / 2\<rfloor> \<le> 100" for x :: rat
  by (simp add: floor_le_iff)

lemma getUptime_range: "\<exists>n. getUptime pings = Fin (of_int n) \<and> 0 \<le> n \<and> n \<le> 100"
proof (cases "pings = []")
  case True
  then show ?thesis by (intro exI [of _ 0]) (simp add: getUptime_def)
next
  case False
  let ?k = "length (filter (\<lambda>p. p_code p = ''200'') pings)"
  define f where "f = of_nat ?k / (of_nat (length pings) :: rat)"
  have "0 \<le> f \<and> f \<le> 1"
    using share_range [of "length pings" ?k] False by (simp add: f_def)
  then have "0 \<le> f * 100 \<and> f * 100 \<le> 100" by simp
  then show ?thesis using False round_percent [of "f * 100"]
    by (simp add: getUptime_def js_len_def f_def del: times_divide_eq_left)
qed

lemma getStabilityScore_range:
  assumes "finite_samples pings" and "pings \<noteq> []"
  shows "\<exists>n. getStabilityScore pings = Fin (of_int n) \<and> 0 \<le> n \<and> n \<le> 100"
proof -
  obtain j where j: "getJitter pings = Fin j" using getJitter_Fin [OF assms(1)] by blast
  obtain r where r: "getSpikeRate pings = Fin r" "0 \<le> r" "r \<le> 1" using getSpikeRate_range by blast
  obtain u where u: "getUptime pings = Fin (of_int u)" "0 \<le> u" "u \<le> 100" using getUptime_range by blast
  have "Fin 100 * (Fin 1 - getP95 pings div Fin 5000) \<noteq> NaN"
    using getP95_not_NaN [OF assms(1)] by (cases "getP95 pings") (auto simp: minus_jsnum_def)
  then obtain a where a: "clamp_score (Fin 100 * (Fin 1 - getP95 pings div Fin 5000)) = Fin a" "0 \<le> a" "a \<le> 100"
    using clamp_score_range by blast
  obtain b where b: "clamp_score (Fin 100 * (Fin 1 - Fin j div Fin 2000)) = Fin b" "0 \<le> b" "b \<le> 100"
    using clamp_score_range [of "Fin 100 * (Fin 1 - Fin j div Fin 2000)"] by auto
  define q where "q = (4 / 10 * a + 4 / 10 * b + 2 / 10 * (100 * (1 - r)))"
  have "100 * r \<le> 100" "0 \<le> 100 * r" using r by simp_all
  then have q: "0 \<le> q" "q \<le> 100" using a b unfolding q_def by (simp_all add: field_simps)
  have "getStabilityScore pings = Fin (of_int \<lfloor>q * (of_int u / 100) + 1 / 2\<rfloor>)"
    using assms(2) r(2,3) by (simp add: getStabilityScore_def Let_def j r(1) u(1) a(1) b(1) [simplified] q_def max_def)
  moreover have "0 \<le> q * (of_int u / 100)" "q * (of_int u / 100) \<le> 100"
  proof -
    have f: "0 \<le> (of_int u / 100 :: rat)" "(of_int u / 100 :: rat) \<le> 1" using u by simp_all
    show "0 \<le> q * (of_int u / 100)" using q f by simp
    show "q * (of_int u / 100) \<le> 100" using mult_mono [OF q(2) f(2)] q f by simp
  qed
  ultimately show ?thesis using round_percent by blast
qed

end
