(* ===== verification/Breaker.thy ===== *)
theory Breaker
  imports Lifecycle Quota Metrics
begin

text \<open>
  The circuit breaker (\<^verbatim>\<open>circuit-breaker.ts\<close>): per-cell health, the cooldown ladder,
  credential faults, the attempt-start log, leases, and the attempt port. This theory holds the
  state and every operation; \<open>Breaker_Health\<close>, \<open>Breaker_Inv\<close> and \<open>Breaker_Props\<close> prove their properties. A clock reading is an
  argument of the operation. \<open>b_notified\<close> counts the calls of the persistence listener.
\<close>

section \<open>State\<close>

datatype cooldown_source =
  Default | Escalation | RetryAfter | Loopback | QuotaSource | Elapsed | FailureEscalation

record circuit_state =
  cs_target :: provider_target
  consecutiveFailures :: nat
  lastFailureTime :: rat
  cooldownUntil :: rat
  cooldownSource :: "cooldown_source option"
  unexplained429s :: nat
  lastStatus :: "int option"
  pings :: "ping list"
  quotaObservations :: "quota_observation list"
  credentialFailures :: nat
  lastCredentialStatus :: "int option"
  credentialFaultUntil :: rat

record attempt_start =
  as_at :: rat
  as_tokens :: "rat option"

record attempt_window =
  aw_requests :: nat
  aw_tokens :: "rat option"
  aw_saturated :: bool

record cooling_cell =
  cc_provider :: string
  cc_model :: "string option"
  cc_credentialId :: string
  cc_cooldownUntil :: rat
  cc_source :: cooldown_source

record header_observation =
  ho_target :: provider_target
  ho_status :: int
  ho_elapsedMs :: jsnum
  ho_observedAt :: rat
  ho_quota :: "quota_observation list option"
  ho_retryAfterMs :: "rat option"

record breaker_attempt =
  ba_generation :: int
  ba_target :: provider_target
  ba_observation :: "header_observation option"
  ba_completedId :: "string option"

record health_outcome =
  h_ok :: bool
  h_status :: "int option"
  h_elapsedMs :: jsnum
  h_at :: rat
  h_quota :: "quota_observation list option"
  h_retryAfterMs :: "rat option"

record clear_selector =
  sel_provider :: string
  sel_model :: "string option"
  sel_credentialId :: "string option"

record cleared_cell =
  cl_provider :: string
  cl_model :: "string option"
  cl_credentialId :: string

record breaker =
  b_states :: "(string, circuit_state) jmap"
  b_inFlight :: "(string, nat) jmap"
  b_starts :: "(string, attempt_start list) jmap"
  b_owner :: nat
  b_generation :: int
  b_lifecycle :: lifecycle
  b_attempts :: "nat \<Rightarrow> breaker_attempt option"
  b_notified :: nat

text \<open>The process: the kernel's known handles and the module-level \<^verbatim>\<open>breakerHandleOwners\<close>.\<close>

record process =
  p_world :: world
  p_owners :: "nat \<Rightarrow> nat option"

section \<open>Constants and tables\<close>

definition DEFAULT_COOLDOWN_MS :: rat where "DEFAULT_COOLDOWN_MS = 60000"
definition CANCELLATION_EVIDENCE_MS :: rat where "CANCELLATION_EVIDENCE_MS = DEFAULT_COOLDOWN_MS"
definition RATE_LIMIT_ESCALATION_MS :: "rat list" where
  "RATE_LIMIT_ESCALATION_MS = [120000, 600000, 3600000, 86400000]"
definition FAILURE_ESCALATION_MS :: "rat list" where
  "FAILURE_ESCALATION_MS = [600000, 3600000, 21600000, 86400000]"
definition LOOPBACK_RATE_LIMIT_COOLDOWN_MS :: rat where "LOOPBACK_RATE_LIMIT_COOLDOWN_MS = 5000"
definition QUOTA_EXHAUSTED_COOLDOWN_MS :: rat where "QUOTA_EXHAUSTED_COOLDOWN_MS = 3600000"
definition MAX_FAILURES_BEFORE_TRIP :: nat where "MAX_FAILURES_BEFORE_TRIP = 2"
definition MAX_PING_HISTORY :: nat where "MAX_PING_HISTORY = 10"
definition CREDENTIAL_FAULT_TTL_MS :: rat where "CREDENTIAL_FAULT_TTL_MS = 300000"
definition MIN_RETRY_AFTER_MS :: rat where "MIN_RETRY_AFTER_MS = 1000"
definition MAX_RETRY_AFTER_MS :: rat where "MAX_RETRY_AFTER_MS = 900000"
definition ATTEMPT_START_WINDOW_MS :: rat where "ATTEMPT_START_WINDOW_MS = 86400000"
definition MAX_ATTEMPT_STARTS :: nat where "MAX_ATTEMPT_STARTS = 10000"

lemmas breaker_constants =
  DEFAULT_COOLDOWN_MS_def CANCELLATION_EVIDENCE_MS_def RATE_LIMIT_ESCALATION_MS_def
  FAILURE_ESCALATION_MS_def LOOPBACK_RATE_LIMIT_COOLDOWN_MS_def QUOTA_EXHAUSTED_COOLDOWN_MS_def
  MAX_FAILURES_BEFORE_TRIP_def CREDENTIAL_FAULT_TTL_MS_def MIN_RETRY_AFTER_MS_def MAX_RETRY_AFTER_MS_def

fun PROVENANCE_REACHES_HEALTH_PATH :: "provenance \<Rightarrow> bool" where
  "PROVENANCE_REACHES_HEALTH_PATH Upstream = True"
| "PROVENANCE_REACHES_HEALTH_PATH InvalidUpstreamEnvelope = True"
| "PROVENANCE_REACHES_HEALTH_PATH Deadline = True"
| "PROVENANCE_REACHES_HEALTH_PATH ClientCancellation = True"
| "PROVENANCE_REACHES_HEALTH_PATH RelayMapperDefect = False"

fun CANCELLATION_REACHES_HEALTH_PATH :: "cancellation_cause \<Rightarrow> bool" where
  "CANCELLATION_REACHES_HEALTH_PATH ClientGoneBeforeResponse = True"
| "CANCELLATION_REACHES_HEALTH_PATH ClientGoneMidResponse = False"
| "CANCELLATION_REACHES_HEALTH_PATH RelayAbandoned = False"

fun PROBE_SUCCESS_ENDS_COOLDOWN :: "cooldown_source \<Rightarrow> bool" where
  "PROBE_SUCCESS_ENDS_COOLDOWN Default = True"
| "PROBE_SUCCESS_ENDS_COOLDOWN Escalation = True"
| "PROBE_SUCCESS_ENDS_COOLDOWN RetryAfter = True"
| "PROBE_SUCCESS_ENDS_COOLDOWN Loopback = True"
| "PROBE_SUCCESS_ENDS_COOLDOWN QuotaSource = False"
| "PROBE_SUCCESS_ENDS_COOLDOWN Elapsed = False"
| "PROBE_SUCCESS_ENDS_COOLDOWN FailureEscalation = True"

fun REPROBE_TARGETS_COOLDOWN :: "cooldown_source \<Rightarrow> bool" where
  "REPROBE_TARGETS_COOLDOWN Default = True"
| "REPROBE_TARGETS_COOLDOWN Escalation = True"
| "REPROBE_TARGETS_COOLDOWN RetryAfter = False"
| "REPROBE_TARGETS_COOLDOWN Loopback = False"
| "REPROBE_TARGETS_COOLDOWN QuotaSource = False"
| "REPROBE_TARGETS_COOLDOWN Elapsed = False"
| "REPROBE_TARGETS_COOLDOWN FailureEscalation = True"

section \<open>Pure helpers\<close>

definition outcomeCode :: "bool \<Rightarrow> int option \<Rightarrow> string" where
  "outcomeCode ok status =
     (case status of
        None \<Rightarrow> (if ok then ''200'' else ''500'')
      | Some st \<Rightarrow> (if 200 \<le> st \<and> st < 300 then ''200'' else show_int st))"

definition failureCooldown :: "jsnum \<Rightarrow> rat \<times> cooldown_source" where
  "failureCooldown elapsedMs =
     (let wasted = (case elapsedMs of Fin q \<Rightarrow> min MAX_RETRY_AFTER_MS (max 0 q) | _ \<Rightarrow> 0) in
      if DEFAULT_COOLDOWN_MS < wasted then (wasted, Elapsed) else (DEFAULT_COOLDOWN_MS, Default))"

definition failureEscalationMs :: "nat \<Rightarrow> rat option" where
  "failureEscalationMs failures =
     (if failures < MAX_FAILURES_BEFORE_TRIP + 1 then None
      else Some (FAILURE_ESCALATION_MS !
        min (failures - (MAX_FAILURES_BEFORE_TRIP + 1)) (length FAILURE_ESCALATION_MS - 1)))"

definition probeDisprovesCooldown :: "cooldown_source \<Rightarrow> int option \<Rightarrow> bool" where
  "probeDisprovesCooldown source status =
     (if source = FailureEscalation then
        (case status of None \<Rightarrow> False | Some st \<Rightarrow> st = 402 \<or> (500 \<le> st \<and> st \<le> 599))
      else status = Some 429)"

definition lower_char :: "char \<Rightarrow> char" where
  "lower_char c = (let n = of_char c :: nat in if 65 \<le> n \<and> n \<le> 90 then char_of (n + 32) else c)"

definition isLoopbackTarget :: "provider_target \<Rightarrow> bool" where
  "isLoopbackTarget t =
     (case t_base t of
        None \<Rightarrow> False
      | Some base \<Rightarrow>
          (case bu_hostname base of
             None \<Rightarrow> False
           | Some hostname \<Rightarrow> let h = map lower_char hostname in h = ''127.0.0.1'' \<or> h = ''localhost''))"

definition sameDeployment :: "provider_target \<Rightarrow> string \<Rightarrow> string option \<Rightarrow> bool" where
  "sameDeployment t provider model \<longleftrightarrow> t_provider t = provider \<and> t_model t = model"

definition matchesClearSelector :: "provider_target \<Rightarrow> clear_selector \<Rightarrow> bool" where
  "matchesClearSelector t sel \<longleftrightarrow>
     t_provider t = sel_provider sel \<and>
     (sel_model sel = None \<or> t_model t = sel_model sel) \<and>
     (sel_credentialId sel = None \<or> Some (t_credentialId t) = sel_credentialId sel)"

definition clearedCell :: "provider_target \<Rightarrow> cleared_cell" where
  "clearedCell t = \<lparr>cl_provider = t_provider t, cl_model = t_model t, cl_credentialId = t_credentialId t\<rparr>"

text \<open>
  The order of \<^verbatim>\<open>compareClearedCells\<close>, over the platform's \<^verbatim>\<open>localeCompare\<close>
  (the parameter \<open>lc\<close>: negative, zero or positive); \<open>True\<close> is "not after".
\<close>

definition compareClearedCells :: "(string \<Rightarrow> string \<Rightarrow> int) \<Rightarrow> cleared_cell \<Rightarrow> cleared_cell \<Rightarrow> int" where
  "compareClearedCells lc a b =
     (let p = lc (cl_provider a) (cl_provider b) in
      if p \<noteq> 0 then p
      else let c = lc (cl_credentialId a) (cl_credentialId b) in
        if c \<noteq> 0 then c
        else lc (case cl_model a of None \<Rightarrow> [] | Some m \<Rightarrow> m) (case cl_model b of None \<Rightarrow> [] | Some m \<Rightarrow> m))"

section \<open>Cells\<close>

definition fresh_cell :: "provider_target \<Rightarrow> circuit_state" where
  "fresh_cell t = \<lparr>cs_target = t, consecutiveFailures = 0, lastFailureTime = 0, cooldownUntil = 0,
     cooldownSource = None, unexplained429s = 0, lastStatus = None, pings = [], quotaObservations = [],
     credentialFailures = 0, lastCredentialStatus = None, credentialFaultUntil = 0\<rparr>"

definition getOrCreate :: "breaker \<Rightarrow> provider_target \<Rightarrow> circuit_state" where
  "getOrCreate b t = (case jm_get (b_states b) (getKey t) of Some s \<Rightarrow> s | None \<Rightarrow> fresh_cell t)"

text \<open>Mutate the cell of \<open>t\<close>, creating it when absent, as code holding \<^verbatim>\<open>getOrCreate(t)\<close> does.\<close>

definition modify_cell :: "provider_target \<Rightarrow> (circuit_state \<Rightarrow> circuit_state) \<Rightarrow> breaker \<Rightarrow> breaker" where
  "modify_cell t f b = b\<lparr>b_states := jm_put (getKey t) (f (getOrCreate b t)) (b_states b)\<rparr>"

definition notifyStateChanged :: "breaker \<Rightarrow> breaker" where
  "notifyStateChanged b = b\<lparr>b_notified := b_notified b + 1\<rparr>"

definition getState :: "breaker \<Rightarrow> provider_target \<Rightarrow> circuit_state option" where
  "getState b t = jm_get (b_states b) (getKey t)"

definition isHealthy :: "breaker \<Rightarrow> provider_target \<Rightarrow> rat \<Rightarrow> bool" where
  "isHealthy b t now = (case getState b t of None \<Rightarrow> True | Some s \<Rightarrow> cooldownUntil s \<le> now)"

definition hasCredentialFault :: "breaker \<Rightarrow> provider_target \<Rightarrow> rat \<Rightarrow> bool" where
  "hasCredentialFault b t now = (case getState b t of None \<Rightarrow> False | Some s \<Rightarrow> now < credentialFaultUntil s)"

definition inFlightCredential :: "breaker \<Rightarrow> string \<Rightarrow> nat" where
  "inFlightCredential b c = (case jm_get (b_inFlight b) c of None \<Rightarrow> 0 | Some n \<Rightarrow> n)"

section \<open>Health\<close>

definition push_ping :: "ping \<Rightarrow> ping list \<Rightarrow> ping list" where
  "push_ping p ps = (let ps' = ps @ [p] in if MAX_PING_HISTORY < length ps' then tl ps' else ps')"

definition asked_ms :: "health_outcome \<Rightarrow> rat option" where
  "asked_ms oc = map_option (\<lambda>r. min MAX_RETRY_AFTER_MS (max MIN_RETRY_AFTER_MS r)) (h_retryAfterMs oc)"

text \<open>The cooldown ladder of a failed outcome, on the state whose counters are already advanced.\<close>

definition cool :: "rat \<Rightarrow> cooldown_source \<Rightarrow> circuit_state \<Rightarrow> circuit_state" where
  "cool until source s = s\<lparr>cooldownUntil := until, cooldownSource := Some source\<rparr>"

definition failure_ladder :: "provider_target \<Rightarrow> health_outcome \<Rightarrow> circuit_state \<Rightarrow> circuit_state" where
  "failure_ladder t oc s =
     (let now = h_at oc; asked = asked_ms oc in
      if h_status oc = Some 429 then
        (case asked of
           Some ms \<Rightarrow> cool (now + ms) RetryAfter s
         | None \<Rightarrow>
             if isLoopbackTarget t then cool (now + LOOPBACK_RATE_LIMIT_COOLDOWN_MS) Loopback s
             else let n = unexplained429s s + 1;
                      index = min (n - 1) (length RATE_LIMIT_ESCALATION_MS - 1)
               in cool (now + RATE_LIMIT_ESCALATION_MS ! index) (if n = 1 then Default else Escalation)
                    (s\<lparr>unexplained429s := n\<rparr>))
      else if h_status oc = Some 402 then
        (case asked of
           Some ms \<Rightarrow> cool (now + ms) RetryAfter s
         | None \<Rightarrow>
             let escalated = failureEscalationMs (consecutiveFailures s);
                 ms = max QUOTA_EXHAUSTED_COOLDOWN_MS (case escalated of None \<Rightarrow> 0 | Some e \<Rightarrow> e)
             in cool (now + ms)
                  (case escalated of
                     None \<Rightarrow> Default
                   | Some e \<Rightarrow> if QUOTA_EXHAUSTED_COOLDOWN_MS < e then FailureEscalation else Default) s)
      else (case asked of
          Some ms \<Rightarrow> cool (now + ms) RetryAfter s
        | None \<Rightarrow>
            if MAX_FAILURES_BEFORE_TRIP \<le> consecutiveFailures s then
              let cooling = failureCooldown (h_elapsedMs oc);
                  escalated = failureEscalationMs (consecutiveFailures s)
              in (case escalated of
                    Some e \<Rightarrow> if fst cooling < e then cool (now + e) FailureEscalation s
                      else cool (now + fst cooling) (snd cooling) s
                  | None \<Rightarrow> cool (now + fst cooling) (snd cooling) s)
            else s))"

definition recovered :: "circuit_state \<Rightarrow> circuit_state" where
  "recovered s = s\<lparr>consecutiveFailures := 0, cooldownUntil := 0, cooldownSource := None,
     unexplained429s := 0, credentialFailures := 0, credentialFaultUntil := 0, lastCredentialStatus := None\<rparr>"

definition merge_into :: "quota_observation list option \<Rightarrow> circuit_state \<Rightarrow> circuit_state" where
  "merge_into obs s =
     (case obs of
        None \<Rightarrow> s
      | Some xs \<Rightarrow> if xs = [] then s
          else s\<lparr>quotaObservations := mergeQuotaObservations [quotaObservations s, xs]\<rparr>)"

definition health_step :: "provider_target \<Rightarrow> health_outcome \<Rightarrow> circuit_state \<Rightarrow> circuit_state" where
  "health_step t oc s0 =
     (let s1 = merge_into (h_quota oc) s0;
          s2 = s1\<lparr>lastStatus := (case h_status oc of Some st \<Rightarrow> Some st | None \<Rightarrow> if h_ok oc then Some 200 else None),
                pings := push_ping \<lparr>p_ms = h_elapsedMs oc, p_code = outcomeCode (h_ok oc) (h_status oc),
                  p_timestamp = h_at oc, p_tokens = None, p_source = None\<rparr> (pings s1)\<rparr>
      in if h_ok oc then recovered s2
         else failure_ladder t oc (s2\<lparr>consecutiveFailures := consecutiveFailures s2 + 1, lastFailureTime := h_at oc\<rparr>))"

definition applyHealthOutcome :: "provider_target \<Rightarrow> health_outcome \<Rightarrow> breaker \<Rightarrow> breaker" where
  "applyHealthOutcome t oc b = notifyStateChanged (modify_cell t (health_step t oc) b)"

definition recordOutcome :: "provider_target \<Rightarrow> health_outcome \<Rightarrow> breaker \<Rightarrow> breaker" where
  "recordOutcome t oc b = applyHealthOutcome t oc b"

definition recordQuotaObservations :: "provider_target \<Rightarrow> quota_observation list option \<Rightarrow> breaker \<Rightarrow> breaker" where
  "recordQuotaObservations t obs b =
     (case obs of
        None \<Rightarrow> b
      | Some xs \<Rightarrow> if xs = [] then b else modify_cell t (merge_into (Some xs)) b)"

definition applyCredentialFault :: "provider_target \<Rightarrow> int \<Rightarrow> rat \<Rightarrow> breaker \<Rightarrow> breaker" where
  "applyCredentialFault t status now b =
     notifyStateChanged (modify_cell t (\<lambda>s. s\<lparr>credentialFailures := credentialFailures s + 1,
       lastCredentialStatus := Some status, credentialFaultUntil := now + CREDENTIAL_FAULT_TTL_MS\<rparr>) b)"

definition recordCredentialFault :: "provider_target \<Rightarrow> int \<Rightarrow> rat \<Rightarrow> breaker \<Rightarrow> breaker" where
  "recordCredentialFault t status now b = applyCredentialFault t status now b"

definition applyCancelledOutcome ::
  "provider_target \<Rightarrow> outcome_base \<Rightarrow> cancellation_cause \<Rightarrow> breaker \<Rightarrow> breaker" where
  "applyCancelledOutcome t base cause b =
     (if \<not> CANCELLATION_REACHES_HEALTH_PATH cause then b
      else if \<not> isFinite (o_elapsedMs base) \<or> o_elapsedMs base \<le> Fin CANCELLATION_EVIDENCE_MS then b
      else applyHealthOutcome t \<lparr>h_ok = False, h_status = None, h_elapsedMs = o_elapsedMs base,
        h_at = o_completedAt base, h_quota = None, h_retryAfterMs = None\<rparr> b)"

definition spared_client_error :: "int option \<Rightarrow> bool" where
  "spared_client_error status =
     (case status of
        None \<Rightarrow> False
      | Some st \<Rightarrow> 400 \<le> st \<and> st < 500 \<and> st \<noteq> 400 \<and> st \<noteq> 402 \<and> st \<noteq> 404 \<and> st \<noteq> 429)"

definition applyTerminalOutcome ::
  "provider_target \<Rightarrow> attempt_outcome \<Rightarrow> header_observation option \<Rightarrow> breaker \<Rightarrow> breaker" where
  "applyTerminalOutcome t oc observation b =
     (case oc of
        Cancelled base cause reason \<Rightarrow> applyCancelledOutcome t base cause b
      | Succeeded base status \<Rightarrow>
          (let b' = recordQuotaObservations t (Option.bind observation ho_quota) b in
           if \<not> PROVENANCE_REACHES_HEALTH_PATH (o_provenance base) then b'
           else applyHealthOutcome t \<lparr>h_ok = True, h_status = Some status, h_elapsedMs = o_elapsedMs base,
             h_at = o_completedAt base, h_quota = None, h_retryAfterMs = None\<rparr> b')
      | Failed base failure status retry \<Rightarrow>
          (let b' = recordQuotaObservations t (Option.bind observation ho_quota) b in
           if \<not> PROVENANCE_REACHES_HEALTH_PATH (o_provenance base) then b'
           else if status = Some 401 \<or> status = Some 403 then
             applyCredentialFault t (the status) (o_completedAt base) b'
           else if spared_client_error status then b'
           else applyHealthOutcome t \<lparr>h_ok = False, h_status = status, h_elapsedMs = o_elapsedMs base,
             h_at = o_completedAt base, h_quota = None,
             h_retryAfterMs = (case retry of Some r \<Rightarrow> Some r | None \<Rightarrow> Option.bind observation ho_retryAfterMs)\<rparr> b'))"

section \<open>Quota cooldowns, probes and operator clears\<close>

definition recordQuotaCooldown :: "provider_target \<Rightarrow> jsnum \<Rightarrow> rat \<Rightarrow> breaker \<Rightarrow> breaker" where
  "recordQuotaCooldown t until now b =
     (case until of
        Fin u \<Rightarrow>
          if u \<le> now then b
          else if u \<le> cooldownUntil (getOrCreate b t) then modify_cell t (\<lambda>s. s) b
          else notifyStateChanged (modify_cell t (cool u QuotaSource) b)
      | _ \<Rightarrow> b)"

definition ends_rate_limit :: "circuit_state \<Rightarrow> rat \<Rightarrow> bool" where
  "ends_rate_limit s now =
     (if cooldownUntil s \<le> now then False
      else case cooldownSource s of
          None \<Rightarrow> False
        | Some source \<Rightarrow> PROBE_SUCCESS_ENDS_COOLDOWN source \<and> probeDisprovesCooldown source (lastStatus s))"

definition endRateLimitCooldown :: "string \<Rightarrow> rat \<Rightarrow> breaker \<Rightarrow> breaker \<times> bool" where
  "endRateLimitCooldown key now b =
     (case jm_get (b_states b) key of
        None \<Rightarrow> (b, False)
      | Some s \<Rightarrow>
          if \<not> ends_rate_limit s now then (b, False)
          else (notifyStateChanged (b\<lparr>b_states :=
            jm_put key (s\<lparr>cooldownUntil := 0, cooldownSource := None\<rparr>) (b_states b)\<rparr>), True))"

definition reprobe_cell :: "rat \<Rightarrow> circuit_state \<Rightarrow> cooling_cell option" where
  "reprobe_cell now s =
     (case cooldownSource s of
        None \<Rightarrow> None
      | Some source \<Rightarrow>
          if cooldownUntil s \<le> now then None
          else if \<not> REPROBE_TARGETS_COOLDOWN source then None
          else if \<not> probeDisprovesCooldown source (lastStatus s) then None
          else Some \<lparr>cc_provider = t_provider (cs_target s), cc_model = t_model (cs_target s),
            cc_credentialId = t_credentialId (cs_target s), cc_cooldownUntil = cooldownUntil s, cc_source = source\<rparr>)"

definition rateLimitCoolingCells :: "breaker \<Rightarrow> rat \<Rightarrow> cooling_cell list" where
  "rateLimitCoolingCells b now =
     js_sort (\<lambda>x y. cc_cooldownUntil x \<le> cc_cooldownUntil y)
       (List.map_filter (reprobe_cell now) (map snd (b_states b)))"

definition clear_fault :: "circuit_state \<Rightarrow> circuit_state" where
  "clear_fault s = s\<lparr>credentialFaultUntil := 0, credentialFailures := 0, lastCredentialStatus := None\<rparr>"

definition clear_cooling :: "circuit_state \<Rightarrow> circuit_state" where
  "clear_cooling s = s\<lparr>cooldownUntil := 0, cooldownSource := None, unexplained429s := 0\<rparr>"

definition clearCredentialFaults :: "string \<Rightarrow> breaker \<Rightarrow> breaker \<times> nat" where
  "clearCredentialFaults c b =
     (let hit = (\<lambda>s. t_credentialId (cs_target s) = c \<and> \<not> (credentialFaultUntil s = 0 \<and> credentialFailures s = 0));
          cleared = length (filter hit (map snd (b_states b)));
          b' = b\<lparr>b_states := jm_map_values (\<lambda>s. if hit s then clear_fault s else s) (b_states b)\<rparr>
      in (if 0 < cleared then notifyStateChanged b' else b', cleared))"

definition has_fault_state :: "circuit_state \<Rightarrow> bool" where
  "has_fault_state s \<longleftrightarrow> credentialFaultUntil s \<noteq> 0 \<or> credentialFailures s \<noteq> 0 \<or> lastCredentialStatus s \<noteq> None"

definition has_cooling_state :: "circuit_state \<Rightarrow> bool" where
  "has_cooling_state s \<longleftrightarrow> cooldownUntil s \<noteq> 0 \<or> cooldownSource s \<noteq> None \<or> unexplained429s s \<noteq> 0"

definition sort_cleared :: "(string \<Rightarrow> string \<Rightarrow> int) \<Rightarrow> cleared_cell list \<Rightarrow> cleared_cell list" where
  "sort_cleared lc cells = js_sort (\<lambda>x y. compareClearedCells lc x y \<le> 0) cells"

definition clearCredentialFaultState ::
  "(string \<Rightarrow> string \<Rightarrow> int) \<Rightarrow> clear_selector \<Rightarrow> breaker \<Rightarrow> breaker \<times> cleared_cell list" where
  "clearCredentialFaultState lc sel b =
     (let hit = (\<lambda>s. matchesClearSelector (cs_target s) sel \<and> has_fault_state s);
          faults = map (\<lambda>s. clearedCell (cs_target s)) (filter hit (map snd (b_states b)));
          b' = b\<lparr>b_states := jm_map_values (\<lambda>s. if hit s then clear_fault s else s) (b_states b)\<rparr>
      in (if faults \<noteq> [] then notifyStateChanged b' else b', sort_cleared lc faults))"

definition clearCooldownState ::
  "(string \<Rightarrow> string \<Rightarrow> int) \<Rightarrow> clear_selector \<Rightarrow> breaker \<Rightarrow> breaker \<times> cleared_cell list \<times> cleared_cell list" where
  "clearCooldownState lc sel b =
     (let match = (\<lambda>s. matchesClearSelector (cs_target s) sel);
          clear1 = (\<lambda>s. if match s \<and> has_cooling_state s then clear_cooling s else s);
          clear2 = (\<lambda>s. if match s \<and> has_fault_state s then clear_fault s else s);
          cells = map (\<lambda>s. clearedCell (cs_target s)) (filter (\<lambda>s. match s \<and> has_cooling_state s) (map snd (b_states b)));
          faults = map (\<lambda>s. clearedCell (cs_target s)) (filter (\<lambda>s. match s \<and> has_fault_state s) (map snd (b_states b)));
          b' = b\<lparr>b_states := jm_map_values (\<lambda>s. clear2 (clear1 s)) (b_states b)\<rparr>
      in (if cells \<noteq> [] \<or> faults \<noteq> [] then notifyStateChanged b' else b',
          sort_cleared lc cells, sort_cleared lc faults))"

section \<open>The attempt-start log\<close>

definition prune_log :: "rat \<Rightarrow> attempt_start list \<Rightarrow> attempt_start list" where
  "prune_log now starts =
     (let floor = now - ATTEMPT_START_WINDOW_MS;
          aged = length (takeWhile (\<lambda>s. as_at s < floor) starts);
          overflow = int (length starts) - int aged - int MAX_ATTEMPT_STARTS
      in drop (if 0 < overflow then aged + nat overflow else aged) starts)"

definition known_tokens :: "jsnum option \<Rightarrow> rat option" where
  "known_tokens tokens = (case tokens of Some (Fin q) \<Rightarrow> if 0 \<le> q then Some q else None | _ \<Rightarrow> None)"

definition recordAttemptStart :: "provider_target \<Rightarrow> jsnum \<Rightarrow> jsnum option \<Rightarrow> breaker \<Rightarrow> breaker" where
  "recordAttemptStart t start tokens b =
     (case start of
        Fin now \<Rightarrow>
          (let starts = (case jm_get (b_starts b) (getKey t) of None \<Rightarrow> [] | Some l \<Rightarrow> l);
               starts' = prune_log now (starts @ [\<lparr>as_at = now, as_tokens = known_tokens tokens\<rparr>])
           in b\<lparr>b_starts := jm_put (getKey t) starts' (b_starts b)\<rparr>)
      | _ \<Rightarrow> b)"

text \<open>The backward walk of \<^verbatim>\<open>attemptsInWindow\<close>, newest start first.\<close>

fun window_scan :: "rat \<Rightarrow> rat \<Rightarrow> attempt_start list \<Rightarrow> nat \<Rightarrow> rat option \<Rightarrow> nat \<times> rat option" where
  "window_scan since now [] requests tokens = (requests, tokens)"
| "window_scan since now (s # ss) requests tokens =
     (if as_at s \<le> since then (requests, tokens)
      else if now < as_at s then window_scan since now ss requests tokens
      else window_scan since now ss (requests + 1)
        (case tokens of None \<Rightarrow> None | Some n \<Rightarrow> map_option (\<lambda>e. n + e) (as_tokens s)))"

definition attemptsInWindow :: "breaker \<Rightarrow> string \<Rightarrow> jsnum \<Rightarrow> rat \<Rightarrow> attempt_window" where
  "attemptsInWindow b key windowMs now =
     (case (jm_get (b_starts b) key, windowMs) of
        (Some starts, Fin w) \<Rightarrow>
          if w \<le> 0 then \<lparr>aw_requests = 0, aw_tokens = Some 0, aw_saturated = False\<rparr>
          else (let r = window_scan (now - w) now (rev starts) 0 (Some 0) in
            \<lparr>aw_requests = fst r, aw_tokens = snd r,
             aw_saturated = (MAX_ATTEMPT_STARTS \<le> length starts \<and> fst r = length starts)\<rparr>)
      | _ \<Rightarrow> \<lparr>aw_requests = 0, aw_tokens = Some 0, aw_saturated = False\<rparr>)"

section \<open>Attempts\<close>

definition beginAttempt ::
  "provider_target \<Rightarrow> jsnum \<Rightarrow> jsnum option \<Rightarrow> process \<times> breaker \<Rightarrow> (process \<times> breaker) \<times> (begin_failure + nat)" where
  "beginAttempt t start tokens = (\<lambda>(p, b).
     case lc_beginAttempt (p_world p, b_lifecycle b) t of
       (_, Inl e) \<Rightarrow> ((p, b), Inl e)
     | ((w, l), Inr h) \<Rightarrow>
         (let attempt = \<lparr>ba_generation = b_generation b, ba_target = t, ba_observation = None, ba_completedId = None\<rparr>;
              b1 = b\<lparr>b_lifecycle := l, b_attempts := (b_attempts b)(h \<mapsto> attempt),
                b_inFlight := jm_put (t_credentialId t) (inFlightCredential b (t_credentialId t) + 1) (b_inFlight b)\<rparr>
          in ((p\<lparr>p_world := w, p_owners := (p_owners p)(h \<mapsto> b_owner b)\<rparr>, recordAttemptStart t start tokens b1), Inr h)))"

fun getAttemptRecord :: "process \<times> breaker \<Rightarrow> handle_arg \<Rightarrow> completion_failure + (nat \<times> breaker_attempt)" where
  "getAttemptRecord (p, b) (HRef h) =
     (case b_attempts b h of
        None \<Rightarrow> Inl (if p_owners p h \<noteq> None \<and> p_owners p h \<noteq> Some (b_owner b) then ForeignHandle else StaleHandle)
      | Some r \<Rightarrow> if ba_generation r \<noteq> b_generation b then Inl StaleHandle else Inr (h, r))"
| "getAttemptRecord (p, b) HNull = Inl StaleHandle"
| "getAttemptRecord (p, b) HPrimitive = Inl StaleHandle"

datatype observation_failure = CompletionFailure completion_failure | DuplicateObservation

definition observeHeaders ::
  "handle_arg \<Rightarrow> header_observation \<Rightarrow> process \<times> breaker \<Rightarrow>
     (process \<times> breaker) \<times> (observation_failure + header_observation)" where
  "observeHeaders handle ob = (\<lambda>(p, b).
     case getAttemptRecord (p, b) handle of
       Inl e \<Rightarrow> ((p, b), Inl (CompletionFailure e))
     | Inr (h, r) \<Rightarrow>
         (case ba_completedId r of
            Some i \<Rightarrow> ((p, b), Inl (CompletionFailure (DuplicateCompletion i)))
          | None \<Rightarrow>
              if \<not> sameProviderTarget (ba_target r) (ho_target ob) then
                ((p, b), Inl (CompletionFailure (CrossTarget (ba_target r) (ho_target ob))))
              else if ba_observation r \<noteq> None then ((p, b), Inl DuplicateObservation)
              else ((p, b\<lparr>b_attempts := (b_attempts b)(h \<mapsto> r\<lparr>ba_observation := Some ob\<rparr>)\<rparr>), Inr ob)))"

definition release_lease :: "string \<Rightarrow> breaker \<Rightarrow> breaker" where
  "release_lease c b =
     (let n = inFlightCredential b c in
      b\<lparr>b_inFlight := (if n \<le> 1 then jm_del c (b_inFlight b) else jm_put c (n - 1) (b_inFlight b))\<rparr>)"

definition completeAttempt ::
  "handle_arg \<Rightarrow> attempt_outcome \<Rightarrow> process \<times> breaker \<Rightarrow> (process \<times> breaker) \<times> (completion_failure + completed_attempt)" where
  "completeAttempt handle oc = (\<lambda>(p, b).
     case getAttemptRecord (p, b) handle of
       Inl e \<Rightarrow> ((p, b), Inl e)
     | Inr (h, r) \<Rightarrow>
         (case ba_completedId r of
            Some i \<Rightarrow> ((p, b), Inl (DuplicateCompletion i))
          | None \<Rightarrow>
              if \<not> sameProviderTarget (ba_target r) (outcome_target oc) then
                ((p, b), Inl (CrossTarget (ba_target r) (outcome_target oc)))
              else (case lc_completeAttempt (p_world p, b_lifecycle b) handle oc of
                  (_, Inl e) \<Rightarrow> ((p, b), Inl e)
                | ((w, l), Inr completed) \<Rightarrow>
                    (let b1 = b\<lparr>b_lifecycle := l,
                           b_attempts := (b_attempts b)(h \<mapsto> r\<lparr>ba_completedId := Some (ca_id completed)\<rparr>)\<rparr>;
                         b2 = release_lease (t_credentialId (ba_target r)) b1
                     in ((p\<lparr>p_world := w\<rparr>, applyTerminalOutcome (ba_target r) oc (ba_observation r) b2),
                         Inr completed)))))"

definition reset :: "process \<times> breaker \<Rightarrow> range_error + (process \<times> breaker)" where
  "reset = (\<lambda>(p, b).
     case new_lifecycle (p_world p) (b_generation b + 1) of
       Inl e \<Rightarrow> Inl e
     | Inr (w, l) \<Rightarrow> Inr (p\<lparr>p_world := w\<rparr>,
         b\<lparr>b_states := [], b_inFlight := [], b_starts := [], b_generation := b_generation b + 1, b_lifecycle := l\<rparr>))"

text \<open>\<^verbatim>\<open>new CircuitBreaker()\<close>: a fresh owner, then a lifecycle of generation 1.\<close>

definition new_breaker :: "process \<Rightarrow> range_error + (process \<times> breaker)" where
  "new_breaker p =
     (let w0 = p_world p; owner = w_next w0 in
      case new_lifecycle (w0\<lparr>w_next := owner + 1\<rparr>) 1 of
        Inl e \<Rightarrow> Inl e
      | Inr (w, l) \<Rightarrow> Inr (p\<lparr>p_world := w\<rparr>, \<lparr>b_states = [], b_inFlight = [], b_starts = [], b_owner = owner,
          b_generation = 1, b_lifecycle = l, b_attempts = (\<lambda>_. None), b_notified = 0\<rparr>))"

section \<open>Measurement and order\<close>

record deployment_measurement =
  dm_pings :: "ping list"
  dm_score :: "jsnum option"
  dm_minSamples :: nat

definition getDeploymentMeasurement :: "breaker \<Rightarrow> string \<Rightarrow> string option \<Rightarrow> deployment_measurement" where
  "getDeploymentMeasurement b provider model =
     (let cells = filter (\<lambda>s. sameDeployment (cs_target s) provider model \<and> pings s \<noteq> []) (map snd (b_states b));
          merged = sort_key p_timestamp (concat (map pings cells));
          score = (if merged = [] then None else Some (getStabilityScore merged))
      in \<lparr>dm_pings = merged, dm_score = map_option (\<lambda>x. js_max (Fin 0) x) score,
          dm_minSamples = (if cells = [] then 0 else Min (set (map (\<lambda>s. length (pings s)) cells)))\<rparr>)"

datatype usability_band = Ready | CredentialFaulted | Cooling | CoolingAndFaulted

definition usability_of :: "breaker \<Rightarrow> rat \<Rightarrow> provider_target \<Rightarrow> usability_band" where
  "usability_of b now t =
     (let healthy = isHealthy b t now; fault = hasCredentialFault b t now in
      if healthy \<and> \<not> fault then Ready
      else if healthy then CredentialFaulted
      else if \<not> fault then Cooling
      else CoolingAndFaulted)"

definition orderByUsability :: "breaker \<Rightarrow> rat \<Rightarrow> provider_target list \<Rightarrow> provider_target list" where
  "orderByUsability b now targets =
     concat_bands [Ready, CredentialFaulted, Cooling, CoolingAndFaulted] (usability_of b now) targets"

section \<open>Export and restore\<close>

record cell_row =
  r_provider :: string
  r_model :: "string option"
  r_kind :: string
  r_credentialId :: string
  r_base :: "string option"
  r_cooldownUntil :: rat
  r_cooldownSource :: "cooldown_source option"
  r_unexplained429s :: nat
  r_lastStatus :: "int option"
  r_consecutiveFailures :: "nat option"
  r_lastFailureTime :: "rat option"
  r_credentialFailures :: "nat option"
  r_lastCredentialStatus :: "int option"
  r_credentialFaultUntil :: "rat option"
  r_pings :: "ping list option"
  r_quotaObservations :: "quota_observation list option"

fun kind_name :: "provider_kind \<Rightarrow> string" where
  "kind_name Anthropic = ''anthropic''"
| "kind_name OpenAI = ''openai''"
| "kind_name (UncheckedKind s) = s"

definition kind_of_name :: "string \<Rightarrow> provider_kind" where
  "kind_of_name s = (if s = ''anthropic'' then Anthropic else if s = ''openai'' then OpenAI else UncheckedKind s)"

definition export_cell :: "circuit_state \<Rightarrow> cell_row" where
  "export_cell s = \<lparr>r_provider = t_provider (cs_target s), r_model = t_model (cs_target s),
     r_kind = kind_name (t_kind (cs_target s)), r_credentialId = t_credentialId (cs_target s),
     r_base = map_option bu_text (t_base (cs_target s)),
     r_cooldownUntil = cooldownUntil s, r_cooldownSource = cooldownSource s,
     r_unexplained429s = unexplained429s s, r_lastStatus = lastStatus s,
     r_consecutiveFailures = Some (consecutiveFailures s), r_lastFailureTime = Some (lastFailureTime s),
     r_credentialFailures = Some (credentialFailures s), r_lastCredentialStatus = lastCredentialStatus s,
     r_credentialFaultUntil = Some (credentialFaultUntil s), r_pings = Some (pings s),
     r_quotaObservations = Some (quotaObservations s)\<rparr>"

definition exportState :: "breaker \<Rightarrow> cell_row list" where
  "exportState b = map (\<lambda>(k, s). export_cell s) (b_states b)"

text \<open>\<open>uh\<close> is the platform's URL parser: the hostname of a base text, \<open>None\<close> when it throws.\<close>

definition row_target :: "(string \<Rightarrow> string option) \<Rightarrow> cell_row \<Rightarrow> provider_target" where
  "row_target uh row = \<lparr>t_provider = r_provider row, t_model = r_model row, t_kind = kind_of_name (r_kind row),
     t_credentialId = r_credentialId row,
     t_base = map_option (\<lambda>text. \<lparr>bu_text = text, bu_hostname = uh text\<rparr>) (r_base row)\<rparr>"

definition or_default :: "'a \<Rightarrow> 'a option \<Rightarrow> 'a" where
  "or_default d x = (case x of None \<Rightarrow> d | Some v \<Rightarrow> v)"

text \<open>\<^verbatim>\<open>xs.slice(-n)\<close> for positive \<open>n\<close>\<close>

definition newest :: "nat \<Rightarrow> 'a list \<Rightarrow> 'a list" where
  "newest n xs = drop (length xs - n) xs"

definition restore_cell :: "(string \<Rightarrow> string option) \<Rightarrow> cell_row \<Rightarrow> circuit_state" where
  "restore_cell uh row = (fresh_cell (row_target uh row))\<lparr>
     cooldownUntil := r_cooldownUntil row, cooldownSource := r_cooldownSource row,
     unexplained429s := r_unexplained429s row, lastStatus := r_lastStatus row,
     consecutiveFailures := or_default 0 (r_consecutiveFailures row),
     lastFailureTime := or_default 0 (r_lastFailureTime row),
     credentialFailures := or_default 0 (r_credentialFailures row),
     lastCredentialStatus := r_lastCredentialStatus row,
     credentialFaultUntil := or_default 0 (r_credentialFaultUntil row),
     pings := newest MAX_PING_HISTORY (or_default [] (r_pings row)),
     quotaObservations := or_default [] (r_quotaObservations row)\<rparr>"

fun restoreState :: "(string \<Rightarrow> string option) \<Rightarrow> cell_row list \<Rightarrow> breaker \<Rightarrow> breaker \<times> nat" where
  "restoreState uh [] b = (b, 0)"
| "restoreState uh (row # rows) b =
     (let key = getKey (row_target uh row) in
      if jm_get (b_states b) key \<noteq> None then restoreState uh rows b
      else let (b', n) = restoreState uh rows (b\<lparr>b_states := jm_put key (restore_cell uh row) (b_states b)\<rparr>)
        in (b', n + 1))"

end
