(* ===== verification/Breaker_Health.thy ===== *)
theory Breaker_Health
  imports Breaker
begin

text \<open>
  What one outcome does to one cell, and that it touches no other cell: the cooldown ladder
  with its bounds, recovery, credential faults, probes and operator clears.
\<close>

named_theorems cell_simps "reading a cell after an operation"

section \<open>Reading a cell after an operation\<close>

lemma getState_modify [cell_simps]:
  "getState (modify_cell t f b) u = (if getKey u = getKey t then Some (f (getOrCreate b t)) else getState b u)"
  by (simp add: getState_def modify_cell_def jm.get_put)

lemma getState_notify [cell_simps]: "getState (notifyStateChanged b) u = getState b u"
  by (simp add: getState_def notifyStateChanged_def)

lemma getOrCreate_getState: "getOrCreate b t = (case getState b t of Some s \<Rightarrow> s | None \<Rightarrow> fresh_cell t)"
  by (simp add: getOrCreate_def getState_def)

lemma getState_health [cell_simps]:
  "getState (applyHealthOutcome t oc b) u =
     (if getKey u = getKey t then Some (health_step t oc (getOrCreate b t)) else getState b u)"
  by (simp add: applyHealthOutcome_def cell_simps)

lemma getState_quota_observations [cell_simps]:
  "getKey u \<noteq> getKey t \<Longrightarrow> getState (recordQuotaObservations t obs b) u = getState b u"
  by (auto simp: recordQuotaObservations_def cell_simps split: option.splits)

lemma getState_fault [cell_simps]:
  "getKey u \<noteq> getKey t \<Longrightarrow> getState (applyCredentialFault t status now b) u = getState b u"
  by (simp add: applyCredentialFault_def cell_simps)

lemma getState_cancelled [cell_simps]:
  "getKey u \<noteq> getKey t \<Longrightarrow> getState (applyCancelledOutcome t base cause b) u = getState b u"
  by (simp add: applyCancelledOutcome_def cell_simps)

lemma terminal_other_cell:
  "getKey u \<noteq> getKey t \<Longrightarrow> getState (applyTerminalOutcome t oc observation b) u = getState b u"
  by (cases oc) (simp_all add: applyTerminalOutcome_def cell_simps Let_def)

lemma cell_reads:
  "getState b u = getState b' u \<Longrightarrow> isHealthy b u = isHealthy b' u \<and> hasCredentialFault b u = hasCredentialFault b' u"
  by (auto simp: isHealthy_def hasCredentialFault_def fun_eq_iff)

section \<open>The health step\<close>

lemma merge_into_fields [simp]:
  "cs_target (merge_into obs s) = cs_target s"
  "consecutiveFailures (merge_into obs s) = consecutiveFailures s"
  "cooldownUntil (merge_into obs s) = cooldownUntil s"
  "cooldownSource (merge_into obs s) = cooldownSource s"
  "unexplained429s (merge_into obs s) = unexplained429s s"
  "pings (merge_into obs s) = pings s"
  "credentialFailures (merge_into obs s) = credentialFailures s"
  "credentialFaultUntil (merge_into obs s) = credentialFaultUntil s"
  "lastCredentialStatus (merge_into obs s) = lastCredentialStatus s"
  "lastStatus (merge_into obs s) = lastStatus s"
  by (auto simp: merge_into_def split: option.splits)

lemma cool_fields [simp]:
  "cs_target (cool u c s) = cs_target s" "pings (cool u c s) = pings s"
  "consecutiveFailures (cool u c s) = consecutiveFailures s"
  "unexplained429s (cool u c s) = unexplained429s s"
  "credentialFaultUntil (cool u c s) = credentialFaultUntil s"
  "credentialFailures (cool u c s) = credentialFailures s"
  "quotaObservations (cool u c s) = quotaObservations s"
  "lastStatus (cool u c s) = lastStatus s"
  "cooldownUntil (cool u c s) = u" "cooldownSource (cool u c s) = Some c"
  by (simp_all add: cool_def)

text \<open>The ladder writes the cooldown and the 429 counter only.\<close>

lemma failure_ladder_fields [simp]:
  "cs_target (failure_ladder t oc s) = cs_target s"
  "pings (failure_ladder t oc s) = pings s"
  "consecutiveFailures (failure_ladder t oc s) = consecutiveFailures s"
  "credentialFaultUntil (failure_ladder t oc s) = credentialFaultUntil s"
  "credentialFailures (failure_ladder t oc s) = credentialFailures s"
  "quotaObservations (failure_ladder t oc s) = quotaObservations s"
  "lastStatus (failure_ladder t oc s) = lastStatus s"
  by (simp_all add: failure_ladder_def Let_def split: option.splits)

lemma length_push_ping: "length (push_ping p ps) \<le> max MAX_PING_HISTORY (length ps)"
  by (auto simp: push_ping_def Let_def)

lemma push_ping_last: "last (push_ping p ps) = p"
  by (cases ps) (auto simp: push_ping_def Let_def MAX_PING_HISTORY_def)

lemma health_step_pings: "pings (health_step t oc s) = push_ping \<lparr>p_ms = h_elapsedMs oc,
    p_code = outcomeCode (h_ok oc) (h_status oc), p_timestamp = h_at oc, p_tokens = None, p_source = None\<rparr> (pings s)"
  by (simp add: health_step_def Let_def recovered_def)

lemma health_step_target [simp]: "cs_target (health_step t oc s) = cs_target s"
  by (simp add: health_step_def Let_def recovered_def)

lemma health_step_failed:
  assumes "\<not> h_ok oc"
  obtains s' where "health_step t oc s = failure_ladder t oc s'"
    and "consecutiveFailures s' = consecutiveFailures s + 1" and "cooldownUntil s' = cooldownUntil s"
    and "unexplained429s s' = unexplained429s s" and "cooldownSource s' = cooldownSource s"
  using assms by (simp add: health_step_def Let_def)

section \<open>The ladder's rungs\<close>

lemma failureEscalationMs_cases:
  "failureEscalationMs n =
     (if n \<le> 2 then None else if n = 3 then Some 600000 else if n = 4 then Some 3600000
      else if n = 5 then Some 21600000 else Some 86400000)"
proof -
  consider "n \<le> 2" | "n = 3" | "n = 4" | "n = 5" | "6 \<le> n" by linarith
  then show ?thesis
    by cases (auto simp: failureEscalationMs_def breaker_constants min_def nth_Cons')
qed

lemma rate_rung:
  "RATE_LIMIT_ESCALATION_MS ! min (n - 1) (length RATE_LIMIT_ESCALATION_MS - 1) =
     (if n \<le> 1 then 120000 else if n = 2 then 600000 else if n = 3 then 3600000 else 86400000)"
proof -
  consider "n \<le> 1" | "n = 2" | "n = 3" | "4 \<le> n" by linarith
  then show ?thesis
    by cases (auto simp: RATE_LIMIT_ESCALATION_MS_def min_def nth_Cons')
qed

lemma failureCooldown_bounds:
  "60000 \<le> fst (failureCooldown e) \<and> fst (failureCooldown e) \<le> 900000"
  by (auto simp: failureCooldown_def breaker_constants Let_def split: jsnum.splits)

lemma failureCooldown_wasted:
  "fst (failureCooldown (Fin e)) = max 60000 (min 900000 e)"
  by (auto simp: failureCooldown_def breaker_constants Let_def min_def max_def)

lemma asked_bounds: "asked_ms oc = Some ms \<Longrightarrow> 1000 \<le> ms \<and> ms \<le> 900000"
  by (auto simp: asked_ms_def breaker_constants)

lemma failure_ladder_bounds:
  "failure_ladder t oc s = s \<or>
     (h_at oc + 1000 \<le> cooldownUntil (failure_ladder t oc s) \<and>
      cooldownUntil (failure_ladder t oc s) \<le> h_at oc + 86400000)"
proof -
  have rung: "120000 \<le> RATE_LIMIT_ESCALATION_MS ! min (n - 1) (length RATE_LIMIT_ESCALATION_MS - 1) \<and>
      RATE_LIMIT_ESCALATION_MS ! min (n - 1) (length RATE_LIMIT_ESCALATION_MS - 1) \<le> 86400000" for n
    unfolding rate_rung by auto
  have esc: "600000 \<le> e \<and> e \<le> 86400000" if "failureEscalationMs n = Some e" for n e
    using that by (auto simp: failureEscalationMs_cases split: if_splits)
  show ?thesis
    using failureCooldown_bounds [of "h_elapsedMs oc"] rung [of "unexplained429s s + 1"] asked_bounds [of oc]
      esc [of "consecutiveFailures s"]
    unfolding failure_ladder_def Let_def
    by (auto simp: breaker_constants(5,6) split: option.splits simp del: One_nat_def add_Suc_right)
qed

text \<open>A generic failure past the trip threshold cools for at least the time it wasted.\<close>

lemma generic_failure_cools:
  assumes "\<not> h_ok oc" and "h_status oc \<noteq> Some 429" and "h_status oc \<noteq> Some 402"
    and "h_retryAfterMs oc = None" and "1 \<le> consecutiveFailures s"
  shows "h_at oc + fst (failureCooldown (h_elapsedMs oc)) \<le> cooldownUntil (health_step t oc s)"
proof -
  obtain s' where s': "health_step t oc s = failure_ladder t oc s'"
    "consecutiveFailures s' = consecutiveFailures s + 1"
    using health_step_failed [OF assms(1)] by metis
  show ?thesis using assms
    by (auto simp: s' failure_ladder_def asked_ms_def Let_def MAX_FAILURES_BEFORE_TRIP_def split: option.splits)
qed

lemma first_generic_failure:
  assumes "\<not> h_ok oc" and "h_status oc \<noteq> Some 429" and "h_status oc \<noteq> Some 402"
    and "h_retryAfterMs oc = None" and "consecutiveFailures s = 0"
  shows "cooldownUntil (health_step t oc s) = cooldownUntil s"
proof -
  obtain s' where "health_step t oc s = failure_ladder t oc s'" "cooldownUntil s' = cooldownUntil s"
    "consecutiveFailures s' = consecutiveFailures s + 1"
    using health_step_failed [OF assms(1)] by metis
  then show ?thesis using assms
    by (auto simp: failure_ladder_def asked_ms_def Let_def MAX_FAILURES_BEFORE_TRIP_def split: option.splits)
qed

section \<open>Unexplained 429s\<close>

definition unexplained_429 :: "provider_target \<Rightarrow> health_outcome \<Rightarrow> bool" where
  "unexplained_429 t oc \<longleftrightarrow> \<not> h_ok oc \<and> h_status oc = Some 429 \<and> h_retryAfterMs oc = None \<and> \<not> isLoopbackTarget t"

lemma unexplained_429_step:
  assumes "unexplained_429 t oc"
  shows "unexplained429s (health_step t oc s) = unexplained429s s + 1"
    and "cooldownUntil (health_step t oc s) = h_at oc +
      RATE_LIMIT_ESCALATION_MS ! min (unexplained429s s) (length RATE_LIMIT_ESCALATION_MS - 1)"
proof -
  have f: "\<not> h_ok oc" using assms by (simp add: unexplained_429_def)
  obtain s' where "health_step t oc s = failure_ladder t oc s'" "unexplained429s s' = unexplained429s s"
    using health_step_failed [OF f] by metis
  then show "unexplained429s (health_step t oc s) = unexplained429s s + 1"
    and "cooldownUntil (health_step t oc s) = h_at oc +
      RATE_LIMIT_ESCALATION_MS ! min (unexplained429s s) (length RATE_LIMIT_ESCALATION_MS - 1)"
    using assms by (simp_all add: failure_ladder_def Let_def unexplained_429_def asked_ms_def)
qed

lemma unexplained_429_run:
  "\<forall>oc \<in> set ocs. unexplained_429 t oc \<Longrightarrow>
     unexplained429s (fold (health_step t) ocs s) = unexplained429s s + length ocs"
  by (induction ocs arbitrary: s) (simp_all add: unexplained_429_step)

section \<open>Recovery\<close>

lemma health_step_ok:
  assumes "h_ok oc"
  shows "cooldownUntil (health_step t oc s) = 0" "cooldownSource (health_step t oc s) = None"
    "credentialFaultUntil (health_step t oc s) = 0" "unexplained429s (health_step t oc s) = 0"
    "consecutiveFailures (health_step t oc s) = 0"
  using assms by (simp_all add: health_step_def Let_def recovered_def)

lemma success_usable:
  assumes "h_ok oc" and "0 \<le> now"
  shows "isHealthy (applyHealthOutcome t oc b) t now \<and> \<not> hasCredentialFault (applyHealthOutcome t oc b) t now"
  using assms by (simp add: isHealthy_def hasCredentialFault_def cell_simps health_step_ok)

section \<open>Quota cooldowns and probes\<close>

lemma quota_cooldown_only_lengthens:
  "cooldownUntil (getOrCreate b t) \<le> cooldownUntil (getOrCreate (recordQuotaCooldown t until now b) t)"
proof (cases until)
  case (Fin u)
  then show ?thesis
    by (auto simp: recordQuotaCooldown_def getOrCreate_getState cell_simps split: option.splits)
qed (simp_all add: recordQuotaCooldown_def)

lemma quota_cooldown_other:
  "getKey u \<noteq> getKey t \<Longrightarrow> getState (recordQuotaCooldown t until now b) u = getState b u"
  by (cases until) (simp_all add: recordQuotaCooldown_def cell_simps)

lemma reprobe_implies_probe: "REPROBE_TARGETS_COOLDOWN c \<Longrightarrow> PROBE_SUCCESS_ENDS_COOLDOWN c"
  by (cases c) simp_all

lemma reprobe_ends: "reprobe_cell now s = Some c \<Longrightarrow> ends_rate_limit s now"
  by (auto simp: reprobe_cell_def ends_rate_limit_def reprobe_implies_probe split: option.splits if_splits)

end
