(* ===== verification/Breaker_Inv.thy ===== *)
theory Breaker_Inv
  imports Breaker_Health
begin

text \<open>
  What every operation of the circuit breaker keeps: cells stored under their own key with a
  bounded history, bounded attempt logs, attempts linked to the kernel's records, and one lease
  per open attempt. The breaker interprets \<open>attempt_port\<close>, its ordering \<open>demote_only\<close>; the
  step relation \<open>breaker_step\<close> interleaves every operation with other lifecycles of the process.
\<close>

section \<open>Frames\<close>

text \<open>The part of a breaker that health operations leave alone.\<close>

definition same_ledger :: "breaker \<Rightarrow> breaker \<Rightarrow> bool" where
  "same_ledger b b' \<longleftrightarrow> b_inFlight b' = b_inFlight b \<and> b_starts b' = b_starts b \<and> b_owner b' = b_owner b \<and>
     b_generation b' = b_generation b \<and> b_lifecycle b' = b_lifecycle b \<and> b_attempts b' = b_attempts b"

named_theorems frame "operations that leave the ledger alone"

lemma same_ledger_refl [frame]: "same_ledger b b"
  by (simp add: same_ledger_def)

lemma same_ledger_trans: "same_ledger a b \<Longrightarrow> same_ledger b c \<Longrightarrow> same_ledger a c"
  by (simp add: same_ledger_def)

lemma ledger_states [frame]: "same_ledger b (b\<lparr>b_states := m\<rparr>)"
  by (simp add: same_ledger_def)

lemma ledger_notify [frame]: "same_ledger b (notifyStateChanged b') = same_ledger b b'"
  by (simp add: same_ledger_def notifyStateChanged_def)

lemma ledger_modify [frame]: "same_ledger b (modify_cell t f b)"
  by (simp add: same_ledger_def modify_cell_def)

lemma ledger_health [frame]: "same_ledger b (applyHealthOutcome t oc b)"
  by (simp add: applyHealthOutcome_def frame)

lemma ledger_fault [frame]: "same_ledger b (applyCredentialFault t st now b)"
  by (simp add: applyCredentialFault_def frame)

lemma ledger_observations [frame]: "same_ledger b (recordQuotaObservations t obs b)"
  by (simp add: recordQuotaObservations_def frame split: option.splits)

lemma ledger_cancelled [frame]: "same_ledger b (applyCancelledOutcome t base cause b)"
  by (simp add: applyCancelledOutcome_def frame)

lemma ledger_terminal [frame]: "same_ledger b (applyTerminalOutcome t oc ob b)"
  using same_ledger_trans [OF ledger_observations ledger_health] same_ledger_trans [OF ledger_observations ledger_fault]
  by (cases oc) (simp_all add: applyTerminalOutcome_def Let_def frame)

lemma ledger_quota_cooldown [frame]: "same_ledger b (recordQuotaCooldown t until now b)"
  by (cases until) (simp_all add: recordQuotaCooldown_def frame)

lemma ledger_end [frame]: "same_ledger b (fst (endRateLimitCooldown k now b))"
  by (simp add: endRateLimitCooldown_def frame split: option.splits)

lemma ledger_clears [frame]:
  "same_ledger b (fst (clearCredentialFaults c b))"
  "same_ledger b (fst (clearCredentialFaultState lc sel b))"
  "same_ledger b (fst (clearCooldownState lc sel b))"
  by (simp_all add: clearCredentialFaults_def clearCredentialFaultState_def clearCooldownState_def Let_def frame)

lemma ledger_restore [frame]: "same_ledger b (fst (restoreState uh rows b))"
proof (induction rows arbitrary: b)
  case (Cons row rows)
  let ?b = "b\<lparr>b_states := jm_put (getKey (row_target uh row)) (restore_cell uh row) (b_states b)\<rparr>"
  have "same_ledger b (fst (restoreState uh rows ?b))"
    by (rule same_ledger_trans [OF ledger_states Cons.IH])
  then show ?case using Cons.IH [of b] by (simp add: Let_def case_prod_unfold)
qed (simp add: frame)

section \<open>Cells\<close>

definition cell_ok :: "string \<times> circuit_state \<Rightarrow> bool" where
  "cell_ok x \<longleftrightarrow> fst x = getKey (cs_target (snd x)) \<and> length (pings (snd x)) \<le> MAX_PING_HISTORY"

definition cells_ok :: "breaker \<Rightarrow> bool" where
  "cells_ok b \<longleftrightarrow> jm_ok (b_states b) \<and> list_all cell_ok (b_states b)"

lemma cells_ok_notify [simp]: "cells_ok (notifyStateChanged b) = cells_ok b"
  by (simp add: cells_ok_def notifyStateChanged_def)

lemma cells_ok_put:
  "cells_ok b \<Longrightarrow> cell_ok (k, s) \<Longrightarrow> cells_ok (b\<lparr>b_states := jm_put k s (b_states b)\<rparr>)"
  by (auto simp: cells_ok_def list_all_iff jm.ok_put dest!: jm_put_set)

lemma cells_ok_get: "cells_ok b \<Longrightarrow> jm_get (b_states b) k = Some s \<Longrightarrow> cell_ok (k, s)"
  by (auto simp: cells_ok_def list_all_iff dest: jm_get_in)

lemma getOrCreate_ok: "cells_ok b \<Longrightarrow> cell_ok (getKey t, getOrCreate b t)"
  by (auto simp: getOrCreate_def split: option.splits dest: cells_ok_get) (simp add: fresh_cell_def cell_ok_def)

lemma cells_ok_modify:
  "cells_ok b \<Longrightarrow> (\<And>s. cs_target (f s) = cs_target s \<and> length (pings (f s)) \<le> max MAX_PING_HISTORY (length (pings s)))
     \<Longrightarrow> cells_ok (modify_cell t f b)"
  using getOrCreate_ok [of b t]
  by (auto simp: modify_cell_def cell_ok_def intro!: cells_ok_put) (metis le_trans max.absorb1)

lemma cells_ok_map:
  "cells_ok b \<Longrightarrow> (\<And>s. cs_target (f s) = cs_target s \<and> pings (f s) = pings s)
     \<Longrightarrow> cells_ok (b\<lparr>b_states := jm_map_values f (b_states b)\<rparr>)"
  by (auto simp: cells_ok_def list_all_iff cell_ok_def jm_map_values_def [of f "b_states b"] intro: jm_ok_map_values [THEN iffD2, unfolded jm_map_values_def])

lemma health_step_cell: "length (pings (health_step t oc s)) \<le> max MAX_PING_HISTORY (length (pings s))"
  by (simp add: health_step_pings length_push_ping)

lemma cells_health: "cells_ok b \<Longrightarrow> cells_ok (applyHealthOutcome t oc b)"
  by (simp add: applyHealthOutcome_def cells_ok_modify health_step_cell)

lemma cells_fault: "cells_ok b \<Longrightarrow> cells_ok (applyCredentialFault t st now b)"
  by (simp add: applyCredentialFault_def cells_ok_modify)

lemma cells_observations: "cells_ok b \<Longrightarrow> cells_ok (recordQuotaObservations t obs b)"
  by (simp add: recordQuotaObservations_def cells_ok_modify split: option.splits)

lemma cells_cancelled: "cells_ok b \<Longrightarrow> cells_ok (applyCancelledOutcome t base cause b)"
  by (simp add: applyCancelledOutcome_def cells_health)

lemma cells_terminal: "cells_ok b \<Longrightarrow> cells_ok (applyTerminalOutcome t oc ob b)"
  by (cases oc) (simp_all add: applyTerminalOutcome_def Let_def cells_cancelled cells_health cells_fault cells_observations)

lemma cells_quota_cooldown: "cells_ok b \<Longrightarrow> cells_ok (recordQuotaCooldown t until now b)"
  by (cases until) (simp_all add: recordQuotaCooldown_def cells_ok_modify)

lemma cells_end: "cells_ok b \<Longrightarrow> cells_ok (fst (endRateLimitCooldown k now b))"
  by (auto simp: endRateLimitCooldown_def cell_ok_def split: option.splits intro!: cells_ok_put dest: cells_ok_get)

lemma cells_clears:
  "cells_ok b \<Longrightarrow> cells_ok (fst (clearCredentialFaults c b))"
  "cells_ok b \<Longrightarrow> cells_ok (fst (clearCredentialFaultState lc sel b))"
  "cells_ok b \<Longrightarrow> cells_ok (fst (clearCooldownState lc sel b))"
  by (simp_all add: clearCredentialFaults_def clearCredentialFaultState_def clearCooldownState_def Let_def
      cells_ok_map clear_fault_def clear_cooling_def)

lemma restore_cell_ok: "cell_ok (getKey (row_target uh row), restore_cell uh row)"
  by (simp add: cell_ok_def restore_cell_def fresh_cell_def newest_def)

lemma cells_restore: "cells_ok b \<Longrightarrow> cells_ok (fst (restoreState uh rows b))"
proof (induction rows arbitrary: b)
  case (Cons row rows)
  then show ?case
    using Cons.IH [OF cells_ok_put [OF Cons.prems restore_cell_ok]] Cons.IH [OF Cons.prems]
    by (simp add: Let_def case_prod_unfold)
qed simp

lemmas cells_kept = cells_health cells_fault cells_observations cells_terminal cells_quota_cooldown
  cells_end cells_clears cells_restore

section \<open>Logs\<close>

definition logs_ok :: "breaker \<Rightarrow> bool" where
  "logs_ok b \<longleftrightarrow> (\<forall>k l. jm_get (b_starts b) k = Some l \<longrightarrow> length l \<le> MAX_ATTEMPT_STARTS)"

lemma length_prune_log: "length (prune_log now starts) \<le> MAX_ATTEMPT_STARTS"
  by (auto simp: prune_log_def Let_def)

lemma logs_recordAttemptStart: "logs_ok b \<Longrightarrow> logs_ok (recordAttemptStart t start tokens b)"
  by (cases start) (auto simp: logs_ok_def recordAttemptStart_def Let_def jm.get_put length_prune_log)

lemma recordAttemptStart_fields [simp]:
  "b_states (recordAttemptStart t start tokens b) = b_states b"
  "b_inFlight (recordAttemptStart t start tokens b) = b_inFlight b"
  "b_owner (recordAttemptStart t start tokens b) = b_owner b"
  "b_generation (recordAttemptStart t start tokens b) = b_generation b"
  "b_lifecycle (recordAttemptStart t start tokens b) = b_lifecycle b"
  "b_attempts (recordAttemptStart t start tokens b) = b_attempts b"
  by (cases start; simp add: recordAttemptStart_def Let_def)+

section \<open>Attempts and leases\<close>

text \<open>The target of a handle this breaker issued in its current generation and has not completed.\<close>

definition bk_opened :: "process \<times> breaker \<Rightarrow> nat \<Rightarrow> provider_target option" where
  "bk_opened = (\<lambda>(p, b) h. case b_attempts b h of
     None \<Rightarrow> None
   | Some r \<Rightarrow> if ba_generation r = b_generation b \<and> ba_completedId r = None then Some (ba_target r) else None)"

definition open_on :: "(nat \<Rightarrow> provider_target option) \<Rightarrow> string \<Rightarrow> nat set" where
  "open_on op c = {h. \<exists>t. op h = Some t \<and> t_credentialId t = c}"

definition linked :: "process \<Rightarrow> breaker \<Rightarrow> nat \<Rightarrow> breaker_attempt \<Rightarrow> bool" where
  "linked p b h r \<longleftrightarrow> (\<exists>k. w_known (p_world p) h = Some k \<and> ar_owner k = lc_owner (b_lifecycle b) \<and>
     ar_generation k = b_generation b \<and> ar_target k = ba_target r \<and> ar_completed k = (ba_completedId r \<noteq> None))"

definition attempts_ok :: "process \<times> breaker \<Rightarrow> bool" where
  "attempts_ok = (\<lambda>(p, b). world_ok (p_world p) \<and> lc_generation (b_lifecycle b) = b_generation b \<and>
     \<not> lc_closed (b_lifecycle b) \<and> lc_owner (b_lifecycle b) < w_next (p_world p) \<and>
     (\<forall>h r. b_attempts b h = Some r \<longrightarrow> h < w_next (p_world p) \<and> ba_generation r \<le> b_generation b \<and>
        p_owners p h = Some (b_owner b) \<and> (ba_generation r = b_generation b \<longrightarrow> linked p b h r)))"

definition leases_ok :: "process \<times> breaker \<Rightarrow> bool" where
  "leases_ok s \<longleftrightarrow> (\<forall>c. inFlightCredential (snd s) c = card (open_on (bk_opened s) c))"

definition breaker_ok :: "process \<times> breaker \<Rightarrow> bool" where
  "breaker_ok s \<longleftrightarrow> cells_ok (snd s) \<and> logs_ok (snd s) \<and> attempts_ok s \<and> leases_ok s"

lemma open_on_finite: "attempts_ok s \<Longrightarrow> finite (open_on (bk_opened s) c)"
proof (cases s)
  case (Pair p b)
  assume "attempts_ok s"
  then have "open_on (bk_opened s) c \<subseteq> {..<w_next (p_world p)}"
    by (auto simp: open_on_def attempts_ok_def bk_opened_def Pair split: option.splits)
  then show ?thesis using finite_subset by blast
qed

lemma open_on_put: "op h = None \<Longrightarrow> open_on (op(h \<mapsto> t)) c =
    (if t_credentialId t = c then insert h (open_on op c) else open_on op c)"
  by (auto simp: open_on_def)

lemma open_on_close: "op h = Some t \<Longrightarrow> open_on (op(h := None)) c =
    (if t_credentialId t = c then open_on op c - {h} else open_on op c)"
  by (auto simp: open_on_def split: if_splits)

lemma inFlight_release:
  "inFlightCredential (release_lease c b) d = (if d = c then inFlightCredential b c - 1 else inFlightCredential b d)"
  by (auto simp: inFlightCredential_def release_lease_def Let_def jm.get_put jm.get_del split: option.splits)

lemma inFlight_ledger: "same_ledger b b' \<Longrightarrow> inFlightCredential b' c = inFlightCredential b c"
  by (simp add: inFlightCredential_def same_ledger_def)

lemma release_fields [simp]:
  "b_states (release_lease c b) = b_states b" "b_starts (release_lease c b) = b_starts b"
  "b_owner (release_lease c b) = b_owner b" "b_generation (release_lease c b) = b_generation b"
  "b_lifecycle (release_lease c b) = b_lifecycle b" "b_attempts (release_lease c b) = b_attempts b"
  by (simp_all add: release_lease_def Let_def)

lemma opened_ledger: "same_ledger b b' \<Longrightarrow> bk_opened (p, b') = bk_opened (p, b)"
  unfolding bk_opened_def same_ledger_def by (simp cong: option.case_cong)

lemma attempts_ok_ledger: "attempts_ok (p, b) \<Longrightarrow> same_ledger b b' \<Longrightarrow> attempts_ok (p, b')"
  unfolding attempts_ok_def same_ledger_def linked_def by simp

lemma breaker_ok_ledger:
  assumes "breaker_ok (p, b)" and "same_ledger b b'" and "cells_ok b'"
  shows "breaker_ok (p, b')"
proof -
  have "logs_ok b'" using assms by (simp add: breaker_ok_def logs_ok_def same_ledger_def)
  moreover have "leases_ok (p, b')"
    using assms(1) by (simp add: breaker_ok_def leases_ok_def inFlight_ledger [OF assms(2)] opened_ledger [OF assms(2)])
  ultimately show ?thesis
    using assms attempts_ok_ledger [of p b b'] by (simp add: breaker_ok_def)
qed

lemma health_op:
  assumes "breaker_ok (p, b)" and "same_ledger b b'" and "cells_ok b \<Longrightarrow> cells_ok b'"
  shows "breaker_ok (p, b')"
proof (rule breaker_ok_ledger [OF assms(1,2)])
  show "cells_ok b'" using assms(1,3) by (simp add: breaker_ok_def)
qed

section \<open>The port's operations\<close>

lemma begin_accepts:
  assumes "attempts_ok (p, b)"
  shows "\<exists>p' b'. beginAttempt t start tokens (p, b) = ((p', b'), Inr (w_next (p_world p)))"
  using assms by (auto simp: beginAttempt_def lc_beginAttempt_def attempts_ok_def Let_def)

lemma begin_effect:
  assumes ok: "attempts_ok (p, b)" and beg: "beginAttempt t start tokens (p, b) = ((p', b'), Inr h)"
  shows "attempts_ok (p', b')" "bk_opened (p, b) h = None" "bk_opened (p', b') = (bk_opened (p, b))(h \<mapsto> t)"
    "b_states b' = b_states b"
    "inFlightCredential b' c = inFlightCredential b c + (if c = t_credentialId t then 1 else 0)"
    "logs_ok b \<Longrightarrow> logs_ok b'"
proof -
  have open0: "\<not> lc_closed (b_lifecycle b)" using ok by (simp add: attempts_ok_def)
  define k where "k = \<lparr>ar_owner = lc_owner (b_lifecycle b), ar_generation = lc_generation (b_lifecycle b),
      ar_id = attempt_id (lc_generation (b_lifecycle b)) (lc_issued (b_lifecycle b) + 1), ar_target = t, ar_completed = False\<rparr>"
  define r where "r = \<lparr>ba_generation = b_generation b, ba_target = t, ba_observation = None, ba_completedId = None\<rparr>"
  define b1 where "b1 = b\<lparr>b_lifecycle := (b_lifecycle b)\<lparr>lc_issued := lc_issued (b_lifecycle b) + 1\<rparr>,
      b_attempts := (b_attempts b)(h \<mapsto> r),
      b_inFlight := jm_put (t_credentialId t) (inFlightCredential b (t_credentialId t) + 1) (b_inFlight b)\<rparr>"
  have h: "h = w_next (p_world p)"
    and p': "p' = p\<lparr>p_world := (p_world p)\<lparr>w_next := w_next (p_world p) + 1, w_known := (w_known (p_world p))(h \<mapsto> k)\<rparr>,
        p_owners := (p_owners p)(h \<mapsto> b_owner b)\<rparr>"
    and b': "b' = recordAttemptStart t start tokens b1"
    using beg open0 by (auto simp: beginAttempt_def lc_beginAttempt_def Let_def k_def r_def b1_def)
  have new: "b_attempts b h = None" using ok unfolding h attempts_ok_def by (cases "b_attempts b (w_next (p_world p))") auto
  show "attempts_ok (p', b')"
    using ok new unfolding attempts_ok_def p' b' b1_def
    by (auto simp: linked_def world_ok_def h k_def r_def less_Suc_eq split: if_splits)
  show "bk_opened (p, b) h = None" using new by (simp add: bk_opened_def)
  show "bk_opened (p', b') = (bk_opened (p, b))(h \<mapsto> t)"
    by (auto simp: bk_opened_def b' b1_def r_def fun_eq_iff cong: option.case_cong)
  show "b_states b' = b_states b" by (simp add: b' b1_def)
  show "inFlightCredential b' c = inFlightCredential b c + (if c = t_credentialId t then 1 else 0)"
    by (auto simp: inFlightCredential_def b' b1_def jm.get_put split: option.splits)
  show "logs_ok b'" if "logs_ok b"
  proof -
    have "logs_ok b1" using that by (simp add: logs_ok_def b1_def)
    then show ?thesis by (simp add: b' logs_recordAttemptStart)
  qed
qed

lemma getAttemptRecord_Inr:
  "getAttemptRecord (p, b) a = Inr (h, r) \<longleftrightarrow>
     a = HRef h \<and> b_attempts b h = Some r \<and> ba_generation r = b_generation b"
  by (cases a) (auto split: option.splits if_splits)

lemma attempt_known:
  assumes "attempts_ok (p, b)" and "b_attempts b h = Some r" and "ba_generation r = b_generation b"
    and "ba_completedId r = None"
  obtains k where "w_known (p_world p) h = Some k" "ar_owner k = lc_owner (b_lifecycle b)"
    "ar_generation k = b_generation b" "ar_target k = ba_target r" "\<not> ar_completed k"
proof -
  have "linked p b h r" using assms(1-3) unfolding attempts_ok_def by blast
  then show ?thesis using assms(4) that unfolding linked_def by auto
qed

lemma complete_closed:
  assumes "attempts_ok (p, b)" and "bk_opened (p, b) h = Some t" and "sameProviderTarget t (outcome_target oc)"
  shows "\<exists>s' c. completeAttempt (HRef h) oc (p, b) = (s', Inr c) \<and> ca_target c = t \<and> ca_outcome c = oc"
proof -
  obtain r where r: "b_attempts b h = Some r" "ba_generation r = b_generation b" "ba_completedId r = None" "ba_target r = t"
    using assms(2) by (auto simp: bk_opened_def split: option.splits if_splits)
  then obtain k where "w_known (p_world p) h = Some k" "ar_owner k = lc_owner (b_lifecycle b)"
    "ar_generation k = b_generation b" "ar_target k = t" "\<not> ar_completed k"
    using attempt_known [OF assms(1)] by metis
  then show ?thesis using assms(1,3) r
    by (auto simp: completeAttempt_def lc_completeAttempt_def attempts_ok_def)
qed

lemma complete_effect:
  assumes ok: "attempts_ok (p, b)" and comp: "completeAttempt a oc (p, b) = ((p', b'), Inr c)"
  obtains h t r b2 where "a = HRef h" "bk_opened (p, b) h = Some t" "sameProviderTarget t (outcome_target oc)"
    "b_attempts b h = Some r" "ba_target r = t" "attempts_ok (p', b')" "bk_opened (p', b') = (bk_opened (p, b))(h := None)"
    "b' = applyTerminalOutcome t oc (ba_observation r) b2" "b_states b2 = b_states b" "b_starts b2 = b_starts b"
    "\<And>d. inFlightCredential b' d = (if d = t_credentialId t then inFlightCredential b d - 1 else inFlightCredential b d)"
    "ca_target c = t" "ca_outcome c = oc"
proof -
  obtain h r where hr: "getAttemptRecord (p, b) a = Inr (h, r)" "ba_completedId r = None"
    "sameProviderTarget (ba_target r) (outcome_target oc)"
    using comp by (auto simp: completeAttempt_def split: sum.splits option.splits if_splits)
  then have a: "a = HRef h" and r: "b_attempts b h = Some r" "ba_generation r = b_generation b"
    by (simp_all add: getAttemptRecord_Inr)
  from ok r obtain k where k: "w_known (p_world p) h = Some k" "ar_owner k = lc_owner (b_lifecycle b)"
    "ar_generation k = b_generation b" "ar_target k = ba_target r" "\<not> ar_completed k"
    using attempt_known [OF ok r hr(2)] by metis
  define w where "w = mark_completed (p_world p) (HRef h)"
  define r' where "r' = r\<lparr>ba_completedId := Some (ar_id k)\<rparr>"
  define b2 where "b2 = release_lease (t_credentialId (ba_target r)) (b\<lparr>b_attempts := (b_attempts b)(h \<mapsto> r')\<rparr>)"
  have lc: "lc_completeAttempt (p_world p, b_lifecycle b) a oc =
      ((w, b_lifecycle b), Inr \<lparr>ca_id = ar_id k, ca_target = ba_target r, ca_outcome = oc\<rparr>)"
    using k hr(3) ok by (simp add: lc_completeAttempt_def a w_def attempts_ok_def)
  have res: "p' = p\<lparr>p_world := w\<rparr>" "b' = applyTerminalOutcome (ba_target r) oc (ba_observation r) b2"
    "ca_target c = ba_target r" "ca_outcome c = oc"
    using comp hr lc by (auto simp: completeAttempt_def b2_def r'_def Let_def)
  have led: "same_ledger b2 b'" by (simp add: res(2) frame)
  have ok2: "attempts_ok (p', b2)"
    using ok r k unfolding attempts_ok_def res(1) b2_def
    by (auto simp: linked_def world_ok_def w_def r'_def)
  have op: "bk_opened (p', b2) = (bk_opened (p, b))(h := None)"
    by (auto simp: bk_opened_def b2_def r'_def fun_eq_iff cong: option.case_cong)
  show ?thesis
  proof (rule that [OF a])
    show "bk_opened (p, b) h = Some (ba_target r)" using r hr(2) by (simp add: bk_opened_def)
    show "attempts_ok (p', b')" by (rule attempts_ok_ledger [OF ok2 led])
    show "bk_opened (p', b') = (bk_opened (p, b))(h := None)" by (simp add: opened_ledger [OF led] op)
    show "inFlightCredential b' d = (if d = t_credentialId (ba_target r) then inFlightCredential b d - 1 else inFlightCredential b d)" for d
      by (simp add: inFlight_ledger [OF led] b2_def inFlight_release) (simp add: inFlightCredential_def)
    show "b_states b2 = b_states b" "b_starts b2 = b_starts b" by (simp_all add: b2_def)
  qed (use r hr res in simp_all)
qed

lemma complete_error: "completeAttempt a oc s = (s', Inl f) \<Longrightarrow> s' = s"
  by (cases s) (auto simp: completeAttempt_def Let_def split: sum.splits option.splits if_splits prod.splits)

lemma leases_close:
  assumes "attempts_ok (p, b)" and "leases_ok (p, b)" and "bk_opened (p, b) h = Some t"
    and "bk_opened (p', b') = (bk_opened (p, b))(h := None)"
    and "\<And>d. inFlightCredential b' d = (if d = t_credentialId t then inFlightCredential b d - 1 else inFlightCredential b d)"
  shows "leases_ok (p', b')"
  unfolding leases_ok_def snd_conv
proof
  fix c
  have "inFlightCredential b c = card (open_on (bk_opened (p, b)) c)" using assms(2) by (simp add: leases_ok_def)
  moreover have "h \<in> open_on (bk_opened (p, b)) c \<longleftrightarrow> t_credentialId t = c" using assms(3) by (auto simp: open_on_def)
  ultimately show "inFlightCredential b' c = card (open_on (bk_opened (p', b')) c)"
    using open_on_finite [OF assms(1), of c]
    by (cases "c = t_credentialId t") (simp_all add: assms(4,5) open_on_close [of "bk_opened (p, b)", OF assms(3)] card_Diff_singleton)
qed

lemma begin_ok: "breaker_ok (p, b) \<Longrightarrow> breaker_ok (fst (beginAttempt t start tokens (p, b)))"
proof -
  assume ok: "breaker_ok (p, b)"
  then have att: "attempts_ok (p, b)" by (simp add: breaker_ok_def)
  obtain p' b' where beg: "beginAttempt t start tokens (p, b) = ((p', b'), Inr (w_next (p_world p)))"
    using begin_accepts [OF att] by blast
  note e = begin_effect [OF att beg]
  have "leases_ok (p', b')"
    using ok open_on_finite [OF att] e(2)
    by (auto simp: breaker_ok_def leases_ok_def e(3,5) open_on_put) (simp add: open_on_def)+
  then show ?thesis using ok e(1,4,6) by (simp add: beg breaker_ok_def cells_ok_def)
qed

lemma complete_ok: "breaker_ok (p, b) \<Longrightarrow> breaker_ok (fst (completeAttempt a oc (p, b)))"
proof -
  assume ok: "breaker_ok (p, b)"
  then have att: "attempts_ok (p, b)" by (simp add: breaker_ok_def)
  obtain p' b' x where r: "completeAttempt a oc (p, b) = ((p', b'), x)" by (metis surj_pair)
  show ?thesis
  proof (cases x)
    case (Inl f)
    then show ?thesis using ok complete_error r by (metis fst_conv)
  next
    case (Inr c)
    show ?thesis
    proof (rule complete_effect [OF att r [unfolded Inr]])
      fix h t rc b2
      assume c: "bk_opened (p, b) h = Some t" "attempts_ok (p', b')" "bk_opened (p', b') = (bk_opened (p, b))(h := None)"
        and b': "b' = applyTerminalOutcome t oc (ba_observation rc) b2" "b_states b2 = b_states b" "b_starts b2 = b_starts b"
        and fl: "\<And>d. inFlightCredential b' d = (if d = t_credentialId t then inFlightCredential b d - 1 else inFlightCredential b d)"
      have "leases_ok (p', b')" using ok leases_close [OF att _ c(1,3) fl] by (simp add: breaker_ok_def)
      moreover have "cells_ok b2" using ok by (simp add: breaker_ok_def cells_ok_def b'(2))
      moreover have "logs_ok b'" using ok ledger_terminal [of b2 t oc "ba_observation rc"]
        by (simp add: breaker_ok_def logs_ok_def same_ledger_def b'(3) b'(1) [symmetric])
      ultimately show ?thesis using c(2) cells_terminal [of b2 t oc "ba_observation rc"]
        by (simp add: r breaker_ok_def b'(1) [symmetric])
    qed
  qed
qed

interpretation bk: attempt_port "\<lambda>s t. beginAttempt t start tokens s" "\<lambda>s a oc. completeAttempt a oc s"
  bk_opened breaker_ok for start tokens
proof
  fix s s' :: "process \<times> breaker" and t h e a oc c f
  assume ok: "breaker_ok s"
  obtain p b where s: "s = (p, b)" by force
  have att: "attempts_ok (p, b)" using ok by (simp add: s breaker_ok_def)
  obtain p' b' where s': "s' = (p', b')" by force
  show "breaker_ok (fst (beginAttempt t start tokens s))" using ok by (simp add: s begin_ok)
  show "breaker_ok (fst (completeAttempt a oc s))" using ok by (simp add: s complete_ok)
  show "bk_opened s h = None \<and> bk_opened s' = (bk_opened s)(h \<mapsto> t)" if "beginAttempt t start tokens s = (s', Inr h)"
    using begin_effect(2,3) [OF att that [unfolded s s']] by (simp add: s s')
  show "bk_opened s' = bk_opened s" if "beginAttempt t start tokens s = (s', Inl e)"
    using begin_accepts [OF att, of t start tokens] that by (auto simp: s)
  show "\<exists>s' c. completeAttempt (HRef h) oc s = (s', Inr c) \<and> ca_target c = t \<and> ca_outcome c = oc"
    if "bk_opened s h = Some t" "sameProviderTarget t (outcome_target oc)"
    using complete_closed [OF att] that by (simp add: s)
  show "\<exists>h t. a = HRef h \<and> bk_opened s h = Some t \<and> sameProviderTarget t (outcome_target oc) \<and>
      bk_opened s' = (bk_opened s)(h := None)" if "completeAttempt a oc s = (s', Inr c)"
    by (rule complete_effect [OF att that [unfolded s s']]) (simp add: s s')
  show "s' = s" if "completeAttempt a oc s = (s', Inl f)" using that by (rule complete_error)
qed

section \<open>Every operation, interleaved\<close>

text \<open>
  What the rest of the process may do between two operations of this breaker: issue identities
  and keep records of its own, never touching this breaker's.
\<close>

definition others_acted :: "breaker \<Rightarrow> process \<Rightarrow> process \<Rightarrow> bool" where
  "others_acted b p p' \<longleftrightarrow> w_next (p_world p) \<le> w_next (p_world p') \<and> world_ok (p_world p') \<and>
     (\<forall>h. b_attempts b h \<noteq> None \<longrightarrow> w_known (p_world p') h = w_known (p_world p) h \<and> p_owners p' h = p_owners p h)"

inductive breaker_step :: "process \<times> breaker \<Rightarrow> process \<times> breaker \<Rightarrow> bool" where
  Begin: "breaker_step s (fst (beginAttempt t start tokens s))"
| Observe: "breaker_step s (fst (observeHeaders a ob s))"
| Complete: "breaker_step s (fst (completeAttempt a oc s))"
| Outcome: "breaker_step (p, b) (p, recordOutcome t oc' b)"
| Fault: "breaker_step (p, b) (p, recordCredentialFault t status now b)"
| QuotaCooldown: "breaker_step (p, b) (p, recordQuotaCooldown t until now b)"
| EndCooldown: "breaker_step (p, b) (p, fst (endRateLimitCooldown k now b))"
| ClearFaults: "breaker_step (p, b) (p, fst (clearCredentialFaults c b))"
| ClearFaultState: "breaker_step (p, b) (p, fst (clearCredentialFaultState lc sel b))"
| ClearCooldown: "breaker_step (p, b) (p, fst (clearCooldownState lc sel b))"
| Restore: "breaker_step (p, b) (p, fst (restoreState uh rows b))"
| Reset: "reset s = Inr s' \<Longrightarrow> breaker_step s s'"
| Others: "others_acted b p p' \<Longrightarrow> breaker_step (p, b) (p', b)"

inductive breaker_reachable :: "process \<times> breaker \<Rightarrow> bool" where
  New: "world_ok (p_world p) \<Longrightarrow> new_breaker p = Inr s \<Longrightarrow> breaker_reachable s"
| Step: "breaker_reachable s \<Longrightarrow> breaker_step s s' \<Longrightarrow> breaker_reachable s'"

inductive_cases breaker_stepE: "breaker_step s s'"

lemma empty_leases: "(\<And>h. bk_opened (p, b) h = None) \<Longrightarrow> b_inFlight b = [] \<Longrightarrow> leases_ok (p, b)"
  by (simp add: leases_ok_def inFlightCredential_def open_on_def)

lemma new_breaker_ok: "world_ok (p_world p) \<Longrightarrow> new_breaker p = Inr s \<Longrightarrow> breaker_ok s"
  by (auto simp: new_breaker_def new_lifecycle_def Let_def breaker_ok_def cells_ok_def logs_ok_def attempts_ok_def
      bk_opened_def world_ok_def MAX_SAFE_INTEGER_def less_Suc_eq split: if_splits intro!: empty_leases)

lemma reset_ok:
  assumes ok: "breaker_ok (p, b)" and reset: "reset (p, b) = Inr (p', b')"
  shows "breaker_ok (p', b')" and "bk_opened (p', b') h = None"
proof -
  have p': "p' = p\<lparr>p_world := (p_world p)\<lparr>w_next := w_next (p_world p) + 1\<rparr>\<rparr>"
    and b': "b' = b\<lparr>b_states := [], b_inFlight := [], b_starts := [], b_generation := b_generation b + 1,
      b_lifecycle := \<lparr>lc_owner = w_next (p_world p), lc_generation = b_generation b + 1, lc_issued = 0, lc_closed = False\<rparr>\<rparr>"
    using reset by (auto simp: reset_def new_lifecycle_def split: if_splits)
  have old: "ba_generation r \<noteq> b_generation b + 1" if "b_attempts b h = Some r" for h r
    using ok that by (force simp: breaker_ok_def attempts_ok_def)
  show none: "bk_opened (p', b') h = None" for h
    using old by (auto simp: bk_opened_def b' split: option.splits)
  have "attempts_ok (p', b')"
    using ok old unfolding attempts_ok_def breaker_ok_def p' b'
    by (auto simp: world_ok_def less_Suc_eq) (force+)
  moreover have "leases_ok (p', b')" by (rule empty_leases [OF none]) (simp add: b')
  ultimately show "breaker_ok (p', b')" by (simp add: breaker_ok_def cells_ok_def logs_ok_def b')
qed

lemma observe_effect:
  "observeHeaders a ob (p, b) = (s', x) \<Longrightarrow>
     (s' = (p, b) \<and> (\<exists>e. x = Inl e)) \<or>
     (\<exists>h r. a = HRef h \<and> b_attempts b h = Some r \<and> ba_generation r = b_generation b \<and> ba_completedId r = None \<and>
        ba_observation r = None \<and> sameProviderTarget (ba_target r) (ho_target ob) \<and> x = Inr ob \<and>
        s' = (p, b\<lparr>b_attempts := (b_attempts b)(h \<mapsto> r\<lparr>ba_observation := Some ob\<rparr>)\<rparr>))"
proof (cases "getAttemptRecord (p, b) a")
  case (Inr hr)
  obtain h r where "hr = (h, r)" by force
  then show "observeHeaders a ob (p, b) = (s', x) \<Longrightarrow> ?thesis" using Inr
    by (auto simp: observeHeaders_def getAttemptRecord_Inr split: option.splits if_splits)
qed (auto simp: observeHeaders_def)

lemma observe_ok: "breaker_ok (p, b) \<Longrightarrow> breaker_ok (fst (observeHeaders a ob (p, b)))"
proof -
  assume ok: "breaker_ok (p, b)"
  obtain s' x where e: "observeHeaders a ob (p, b) = (s', x)" by (rule prod.exhaust)
  show ?thesis
    using observe_effect [OF e]
  proof (elim disjE exE conjE)
    fix h r
    assume r: "b_attempts b h = Some r" and s': "s' = (p, b\<lparr>b_attempts := (b_attempts b)(h \<mapsto> r\<lparr>ba_observation := Some ob\<rparr>)\<rparr>)"
    let ?b = "b\<lparr>b_attempts := (b_attempts b)(h \<mapsto> r\<lparr>ba_observation := Some ob\<rparr>)\<rparr>"
    have "bk_opened (p, ?b) = bk_opened (p, b)" using r by (auto simp: bk_opened_def fun_eq_iff cong: option.case_cong)
    moreover have "attempts_ok (p, ?b)"
      using ok r unfolding breaker_ok_def attempts_ok_def by (auto simp: linked_def)
    ultimately show ?thesis using ok unfolding e s'
      by (simp add: breaker_ok_def cells_ok_def logs_ok_def leases_ok_def inFlightCredential_def)
  qed (simp add: e ok)
qed

lemma others_ok: "breaker_ok (p, b) \<Longrightarrow> others_acted b p p' \<Longrightarrow> breaker_ok (p', b)"
proof -
  assume ok: "breaker_ok (p, b)" and oth: "others_acted b p p'"
  have "attempts_ok (p', b)"
    using ok oth unfolding breaker_ok_def attempts_ok_def others_acted_def linked_def by force
  moreover have "bk_opened (p', b) = bk_opened (p, b)" by (simp add: bk_opened_def)
  ultimately show ?thesis using ok by (simp add: breaker_ok_def leases_ok_def)
qed

lemma breaker_step_ok: "breaker_step s s' \<Longrightarrow> breaker_ok s \<Longrightarrow> breaker_ok s'"
proof (induction rule: breaker_step.induct)
  case (Begin s t start tokens)
  then show ?case by (cases s) (simp add: begin_ok)
next
  case (Observe s a ob)
  then show ?case by (cases s) (simp add: observe_ok)
next
  case (Complete s a oc)
  then show ?case by (cases s) (simp add: complete_ok)
next
  case (Reset s s')
  then show ?case by (cases s; cases s') (auto dest: reset_ok)
next
  case (Others b p p')
  then show ?case by (rule others_ok [rotated])
qed (simp_all add: recordOutcome_def recordCredentialFault_def health_op frame cells_kept)

lemma reachable_ok: "breaker_reachable s \<Longrightarrow> breaker_ok s"
  by (induction rule: breaker_reachable.induct) (auto intro: new_breaker_ok breaker_step_ok)

section \<open>The usability order\<close>

fun usability_rank :: "usability_band \<Rightarrow> nat" where
  "usability_rank Ready = 0"
| "usability_rank CredentialFaulted = 1"
| "usability_rank Cooling = 2"
| "usability_rank CoolingAndFaulted = 3"

lemma usability_bands: "band \<in> set [Ready, CredentialFaulted, Cooling, CoolingAndFaulted]"
  by (cases band) simp_all

interpretation ob: demote_only "orderByUsability b now" "\<lambda>t. usability_rank (usability_of b now t)" for b now
proof
  show "mset (orderByUsability b now xs) = mset xs" for xs
    unfolding orderByUsability_def by (intro mset_concat_bands usability_bands) simp
  show "sorted (map (\<lambda>t. usability_rank (usability_of b now t)) (orderByUsability b now xs))" for xs
    unfolding orderByUsability_def by (rule concat_bands_sorted) simp
qed

section \<open>The window count\<close>

text \<open>
  The walk stops at the first start outside the window, so on a log in time order it counts
  exactly the starts inside it.
\<close>

definition in_window :: "rat \<Rightarrow> rat \<Rightarrow> attempt_start \<Rightarrow> bool" where
  "in_window since now s \<longleftrightarrow> since < as_at s \<and> as_at s \<le> now"

lemma window_scan_le: "fst (window_scan since now xs n tk) \<le> n + length (filter (in_window since now) xs)"
proof (induction xs arbitrary: n tk)
  case (Cons x xs)
  show ?case using Cons.IH [of n tk] Cons.IH [of "n + 1" "case tk of None \<Rightarrow> None | Some m \<Rightarrow> map_option (\<lambda>e. m + e) (as_tokens x)"]
    by (auto simp: in_window_def [of since now x])
qed simp

lemma window_scan_exact:
  "sorted_wrt (\<lambda>x y. as_at y \<le> as_at x) xs \<Longrightarrow>
     fst (window_scan since now xs n tk) = n + length (filter (in_window since now) xs)"
proof (induction xs arbitrary: n tk)
  case (Cons x xs)
  have "filter (in_window since now) xs = []" if "as_at x \<le> since"
    using Cons.prems that by (fastforce simp: filter_empty_conv in_window_def)
  then show ?case using Cons by (auto simp: in_window_def [of since now x])
qed simp

lemma window_scan_tokens:
  "sorted_wrt (\<lambda>x y. as_at y \<le> as_at x) xs \<Longrightarrow>
     snd (window_scan since now xs n (Some a)) =
       (if \<forall>s \<in> set (filter (in_window since now) xs). as_tokens s \<noteq> None
        then Some (a + (\<Sum>s\<leftarrow>filter (in_window since now) xs. the (as_tokens s))) else None)"
proof (induction xs arbitrary: n a)
  case (Cons x xs)
  have none: "snd (window_scan since now ys m None) = None" for ys m
    by (induction ys arbitrary: m) simp_all
  have "filter (in_window since now) xs = []" if "as_at x \<le> since"
    using Cons.prems that by (fastforce simp: filter_empty_conv in_window_def)
  then show ?case using Cons none
    by (cases "as_tokens x") (auto simp: in_window_def [of since now x] add.assoc)
qed simp

end
