(* ===== verification/Json_Read.thy ===== *)
theory Json_Read
  imports JsData "HOL-Library.Monad_Syntax"
begin

text \<open>
  Writing and checking JSON members: the encoders of an optional or nullable member, the tests that the code's
  validators make of a member, and the typed view of a member that has passed them.
\<close>

section \<open>Members written\<close>

definition num :: "rat \<Rightarrow> json" where
  "num q = JNum (Fin q)"

definition optional :: "string \<Rightarrow> json option \<Rightarrow> (string \<times> json) list" where
  "optional name v = (case v of None \<Rightarrow> [] | Some x \<Rightarrow> [(name, x)])"

definition nullable :: "('a \<Rightarrow> json) \<Rightarrow> 'a option \<Rightarrow> json" where
  "nullable f v = (case v of None \<Rightarrow> JNull | Some x \<Rightarrow> f x)"

section \<open>Tests of a member\<close>

fun finite_number :: "json option \<Rightarrow> bool" where
  "finite_number (Some (JNum x)) = isFinite x"
| "finite_number _ = False"

fun some_number :: "json option \<Rightarrow> bool" where
  "some_number (Some (JNum x)) = True"
| "some_number _ = False"

fun finite_at_least_0 :: "json option \<Rightarrow> bool" where
  "finite_at_least_0 (Some (JNum (Fin q))) = (0 \<le> q)"
| "finite_at_least_0 _ = False"

fun natural_number :: "json option \<Rightarrow> bool" where
  "natural_number (Some (JNum (Fin q))) = (q = of_int \<lfloor>q\<rfloor> \<and> 0 \<le> q)"
| "natural_number _ = False"

fun any_string :: "json option \<Rightarrow> bool" where
  "any_string (Some (JStr s)) = True"
| "any_string _ = False"

fun nonempty_string :: "json option \<Rightarrow> bool" where
  "nonempty_string (Some (JStr s)) = (s \<noteq> [])"
| "nonempty_string _ = False"

fun string_in :: "string list \<Rightarrow> json option \<Rightarrow> bool" where
  "string_in names (Some (JStr s)) = (s \<in> set names)"
| "string_in names _ = False"

definition absent_or :: "(json option \<Rightarrow> bool) \<Rightarrow> json option \<Rightarrow> bool" where
  "absent_or ok v \<longleftrightarrow> v = None \<or> ok v"

definition null_or :: "(json option \<Rightarrow> bool) \<Rightarrow> json option \<Rightarrow> bool" where
  "null_or ok v \<longleftrightarrow> v = Some JNull \<or> ok v"

fun array_of :: "(json \<Rightarrow> bool) \<Rightarrow> json option \<Rightarrow> bool" where
  "array_of ok (Some (JArr xs)) = list_all ok xs"
| "array_of ok _ = False"

section \<open>The typed view of a member\<close>

fun str_of :: "json option \<Rightarrow> string option" where
  "str_of (Some (JStr s)) = Some s"
| "str_of _ = None"

fun rat_of :: "json option \<Rightarrow> rat option" where
  "rat_of (Some (JNum (Fin q))) = Some q"
| "rat_of _ = None"

fun int_of :: "json option \<Rightarrow> int option" where
  "int_of (Some (JNum (Fin q))) = (if q = of_int \<lfloor>q\<rfloor> then Some \<lfloor>q\<rfloor> else None)"
| "int_of _ = None"

definition nat_of :: "json option \<Rightarrow> nat option" where
  "nat_of v = map_option nat (int_of v)"

text \<open>An absent member, or one that must read; and a member that may be null.\<close>

definition opt_member :: "(json option \<Rightarrow> 'a option) \<Rightarrow> json option \<Rightarrow> 'a option option" where
  "opt_member f v = (case v of None \<Rightarrow> Some None | Some x \<Rightarrow> map_option Some (f (Some x)))"

definition null_member :: "(json option \<Rightarrow> 'a option) \<Rightarrow> json option \<Rightarrow> 'a option option" where
  "null_member f v = (if v = Some JNull then Some None else map_option Some (f v))"

definition named :: "('a \<Rightarrow> string) \<Rightarrow> 'a list \<Rightarrow> json option \<Rightarrow> 'a option" where
  "named name xs v = Option.bind (str_of v) (\<lambda>s. find (\<lambda>x. name x = s) xs)"

fun all_some :: "'a option list \<Rightarrow> 'a list option" where
  "all_some [] = Some []"
| "all_some (x # xs) = Option.bind x (\<lambda>a. map_option (\<lambda>as. a # as) (all_some xs))"

fun list_member :: "(json \<Rightarrow> 'a option) \<Rightarrow> json option \<Rightarrow> 'a list option" where
  "list_member f (Some (JArr xs)) = all_some (map f xs)"
| "list_member f _ = None"

section \<open>What was written reads back\<close>

lemma member_optional [simp]: "member (optional n v) m = (if m = n then v else None)"
  by (simp add: optional_def split: option.splits)

lemma num_eq [simp]: "num p = num q \<longleftrightarrow> p = q" "num p = JNum x \<longleftrightarrow> x = Fin p" "JNum x = num p \<longleftrightarrow> x = Fin p"
  by (auto simp: num_def)

lemma num_readers [simp]:
  "finite_number (Some (num q))" "some_number (Some (num q))" "rat_of (Some (num q)) = Some q"
  "finite_at_least_0 (Some (num q)) = (0 \<le> q)" "natural_number (Some (num (of_nat n)))"
  "int_of (Some (num (of_int i))) = Some i" "nat_of (Some (num (of_nat n))) = Some n"
proof -
  have n: "(of_nat n :: rat) = of_int (int n)" by simp
  show "natural_number (Some (num (of_nat n)))" "nat_of (Some (num (of_nat n))) = Some n"
    unfolding n num_def nat_of_def natural_number.simps int_of.simps floor_of_int by simp_all
qed (simp_all add: num_def)

lemma readers_simps [simp]:
  "absent_or ok None" "absent_or ok (Some v) = ok (Some v)" "null_or ok (Some JNull)"
  "opt_member f None = Some None" "opt_member f (Some x) = map_option Some (f (Some x))"
  "null_member f (Some JNull) = Some None"
  by (simp_all add: absent_or_def null_or_def opt_member_def null_member_def)

lemma nullable_simps [simp]:
  "nullable f None = JNull" "nullable f (Some x) = f x"
  by (simp_all add: nullable_def)

lemma all_some_map: "(\<And>x. x \<in> set xs \<Longrightarrow> f (g x) = Some x) \<Longrightarrow> all_some (map f (map g xs)) = Some xs"
  by (induction xs) auto

lemma opt_round: "(\<And>x. v = Some x \<Longrightarrow> f (Some (g x)) = Some x) \<Longrightarrow> opt_member f (map_option g v) = Some v"
  by (cases v) auto

lemma null_round: "(\<And>x. v = Some x \<Longrightarrow> g x \<noteq> JNull \<and> f (Some (g x)) = Some x) \<Longrightarrow>
    null_member f (Some (nullable g v)) = Some v"
  by (cases v) (auto simp: null_member_def)

lemma absent_round: "(\<And>x. v = Some x \<Longrightarrow> ok (Some (g x))) \<Longrightarrow> absent_or ok (map_option g v)"
  by (cases v) auto

lemma null_or_round: "(\<And>x. v = Some x \<Longrightarrow> ok (Some (g x))) \<Longrightarrow> null_or ok (Some (nullable g v))"
  by (cases v) (auto simp: null_or_def)

end
