(* ===== verification/Breaker_Persistence.thy ===== *)
theory Breaker_Persistence
  imports Breaker_Inv Json_Read
begin

text \<open>
  The breaker's state file (\<^verbatim>\<open>breaker-persistence.ts\<close>): what \<^verbatim>\<open>saveBreakerState\<close> writes, the
  row validators, what \<^verbatim>\<open>loadBreakerState\<close> returns of an arbitrary parsed file. Texts are not
  modelled: a file is the value \<^verbatim>\<open>JSON.parse\<close> returns of it, \<open>None\<close> when it is absent or does
  not parse, and \<^verbatim>\<open>JSON.stringify\<close> is the encoders below with a non-finite number written as
  null. \<open>read_row\<close> is the typed view of a loaded row (a status outside the integers, which
  the validator lets through, has none).
\<close>

section \<open>Writing\<close>

fun cooldown_source_name :: "cooldown_source \<Rightarrow> string" where
  "cooldown_source_name Default = ''default''"
| "cooldown_source_name Escalation = ''escalation''"
| "cooldown_source_name RetryAfter = ''retry-after''"
| "cooldown_source_name Loopback = ''loopback''"
| "cooldown_source_name QuotaSource = ''quota''"
| "cooldown_source_name Elapsed = ''elapsed''"
| "cooldown_source_name FailureEscalation = ''failure-escalation''"

definition COOLDOWN_SOURCES :: "cooldown_source list" where
  "COOLDOWN_SOURCES = [Default, Escalation, RetryAfter, Loopback, QuotaSource, Elapsed, FailureEscalation]"

fun ping_source_name :: "ping_source \<Rightarrow> string" where
  "ping_source_name Probe = ''probe''"
| "ping_source_name Request = ''request''"

definition encode_ping :: "ping \<Rightarrow> json" where
  "encode_ping p = JObj ([(''ms'', json_of_num (p_ms p)), (''code'', JStr (p_code p)), (''timestamp'', num (p_timestamp p))]
     @ optional ''tokens'' (map_option json_of_num (p_tokens p))
     @ optional ''source'' (map_option (\<lambda>s. JStr (ping_source_name s)) (p_source p)))"

definition encode_quota :: "quota_observation \<Rightarrow> json" where
  "encode_quota ob = JObj [(''axis'', JStr (axis_name (q_axis ob))), (''period'', JStr (period_name (q_period ob))),
     (''limit'', json_of_num (q_limit ob)), (''remaining'', json_of_num (q_remaining ob)),
     (''resetsAt'', nullable json_of_num (q_resetsAt ob)), (''observedAt'', json_of_num (q_observedAt ob)),
     (''basis'', JStr ''provider-stated'')]"

definition encode_row :: "cell_row \<Rightarrow> json" where
  "encode_row r = JObj ([(''provider'', JStr (r_provider r)), (''model'', nullable JStr (r_model r)),
       (''kind'', JStr (r_kind r)), (''credentialId'', JStr (r_credentialId r))]
     @ optional ''base'' (map_option JStr (r_base r))
     @ [(''cooldownUntil'', num (r_cooldownUntil r)),
        (''cooldownSource'', nullable (\<lambda>c. JStr (cooldown_source_name c)) (r_cooldownSource r)),
        (''unexplained429s'', num (of_nat (r_unexplained429s r)))]
     @ optional ''lastStatus'' (map_option (\<lambda>i. num (of_int i)) (r_lastStatus r))
     @ optional ''consecutiveFailures'' (map_option (\<lambda>n. num (of_nat n)) (r_consecutiveFailures r))
     @ optional ''lastFailureTime'' (map_option num (r_lastFailureTime r))
     @ optional ''credentialFailures'' (map_option (\<lambda>n. num (of_nat n)) (r_credentialFailures r))
     @ optional ''lastCredentialStatus'' (map_option (\<lambda>i. num (of_int i)) (r_lastCredentialStatus r))
     @ optional ''credentialFaultUntil'' (map_option num (r_credentialFaultUntil r))
     @ optional ''pings'' (map_option (\<lambda>ps. JArr (map encode_ping ps)) (r_pings r))
     @ optional ''quotaObservations'' (map_option (\<lambda>qs. JArr (map encode_quota qs)) (r_quotaObservations r)))"

definition saveBreakerState :: "cell_row list \<Rightarrow> json" where
  "saveBreakerState rows = JObj [(''version'', num 1), (''rows'', JArr (map encode_row rows))]"

section \<open>Validation\<close>

fun isCooldownSource :: "json option \<Rightarrow> bool" where
  "isCooldownSource v = string_in (map cooldown_source_name COOLDOWN_SOURCES) v"

fun isValidPingRecord :: "json \<Rightarrow> bool" where
  "isValidPingRecord (JObj row) =
     (finite_number (member row ''ms'') \<and> nonempty_string (member row ''code'') \<and>
      finite_number (member row ''timestamp'') \<and> absent_or finite_number (member row ''tokens'') \<and>
      absent_or (string_in [''probe'', ''request'']) (member row ''source''))"
| "isValidPingRecord _ = False"

fun isValidQuotaObservation :: "json \<Rightarrow> bool" where
  "isValidQuotaObservation (JObj row) =
     (string_in (map axis_name [Requests, Tokens]) (member row ''axis'') \<and>
      string_in (map period_name [Minute, Day, Month, UnknownPeriod]) (member row ''period'') \<and>
      finite_number (member row ''limit'') \<and> finite_number (member row ''remaining'') \<and>
      null_or finite_number (member row ''resetsAt'') \<and> finite_number (member row ''observedAt'') \<and>
      string_in [''provider-stated''] (member row ''basis''))"
| "isValidQuotaObservation _ = False"

fun isBreakerCellRow :: "json \<Rightarrow> bool" where
  "isBreakerCellRow (JObj row) =
     (nonempty_string (member row ''provider'') \<and> null_or any_string (member row ''model'') \<and>
      nonempty_string (member row ''kind'') \<and> nonempty_string (member row ''credentialId'') \<and>
      absent_or any_string (member row ''base'') \<and> finite_number (member row ''cooldownUntil'') \<and>
      null_or isCooldownSource (member row ''cooldownSource'') \<and> natural_number (member row ''unexplained429s'') \<and>
      absent_or some_number (member row ''lastStatus'') \<and>
      absent_or natural_number (member row ''consecutiveFailures'') \<and>
      absent_or finite_at_least_0 (member row ''lastFailureTime'') \<and>
      absent_or natural_number (member row ''credentialFailures'') \<and>
      absent_or some_number (member row ''lastCredentialStatus'') \<and>
      absent_or finite_at_least_0 (member row ''credentialFaultUntil'') \<and>
      absent_or (array_of isValidPingRecord) (member row ''pings'') \<and>
      absent_or (array_of isValidQuotaObservation) (member row ''quotaObservations''))"
| "isBreakerCellRow _ = False"

fun loadBreakerState :: "json option \<Rightarrow> json list" where
  "loadBreakerState (Some (JObj file)) =
     (if member file ''version'' \<noteq> Some (num 1) then []
      else case member file ''rows'' of Some (JArr rows) \<Rightarrow> filter isBreakerCellRow rows | _ \<Rightarrow> [])"
| "loadBreakerState _ = []"

section \<open>The typed view\<close>

fun read_ping :: "json \<Rightarrow> ping option" where
  "read_ping (JObj row) = do {
     ms \<leftarrow> rat_of (member row ''ms'');
     code \<leftarrow> str_of (member row ''code'');
     ts \<leftarrow> rat_of (member row ''timestamp'');
     tokens \<leftarrow> opt_member rat_of (member row ''tokens'');
     source \<leftarrow> opt_member (named ping_source_name [Probe, Request]) (member row ''source'');
     Some \<lparr>p_ms = Fin ms, p_code = code, p_timestamp = ts, p_tokens = map_option Fin tokens, p_source = source\<rparr> }"
| "read_ping _ = None"

fun read_quota :: "json \<Rightarrow> quota_observation option" where
  "read_quota (JObj row) = do {
     axis \<leftarrow> named axis_name [Requests, Tokens] (member row ''axis'');
     period \<leftarrow> named period_name [Minute, Day, Month, UnknownPeriod] (member row ''period'');
     lim \<leftarrow> rat_of (member row ''limit'');
     remaining \<leftarrow> rat_of (member row ''remaining'');
     resets \<leftarrow> null_member rat_of (member row ''resetsAt'');
     observed \<leftarrow> rat_of (member row ''observedAt'');
     Some \<lparr>q_axis = axis, q_period = period, q_limit = Fin lim, q_remaining = Fin remaining,
       q_resetsAt = map_option Fin resets, q_observedAt = Fin observed\<rparr> }"
| "read_quota _ = None"

fun read_row :: "json \<Rightarrow> cell_row option" where
  "read_row (JObj row) = do {
     provider \<leftarrow> str_of (member row ''provider'');
     model \<leftarrow> null_member str_of (member row ''model'');
     kind \<leftarrow> str_of (member row ''kind'');
     cred \<leftarrow> str_of (member row ''credentialId'');
     base \<leftarrow> opt_member str_of (member row ''base'');
     until \<leftarrow> rat_of (member row ''cooldownUntil'');
     source \<leftarrow> null_member (named cooldown_source_name COOLDOWN_SOURCES) (member row ''cooldownSource'');
     unexplained \<leftarrow> nat_of (member row ''unexplained429s'');
     status \<leftarrow> opt_member int_of (member row ''lastStatus'');
     failures \<leftarrow> opt_member nat_of (member row ''consecutiveFailures'');
     failed \<leftarrow> opt_member rat_of (member row ''lastFailureTime'');
     faults \<leftarrow> opt_member nat_of (member row ''credentialFailures'');
     cstatus \<leftarrow> opt_member int_of (member row ''lastCredentialStatus'');
     fault \<leftarrow> opt_member rat_of (member row ''credentialFaultUntil'');
     ps \<leftarrow> opt_member (list_member read_ping) (member row ''pings'');
     qs \<leftarrow> opt_member (list_member read_quota) (member row ''quotaObservations'');
     Some \<lparr>r_provider = provider, r_model = model, r_kind = kind, r_credentialId = cred, r_base = base,
       r_cooldownUntil = until, r_cooldownSource = source, r_unexplained429s = unexplained, r_lastStatus = status,
       r_consecutiveFailures = failures, r_lastFailureTime = failed, r_credentialFailures = faults,
       r_lastCredentialStatus = cstatus, r_credentialFaultUntil = fault, r_pings = ps, r_quotaObservations = qs\<rparr> }"
| "read_row _ = None"

section \<open>What was written reads back\<close>

definition ping_finite :: "ping \<Rightarrow> bool" where
  "ping_finite p \<longleftrightarrow> isFinite (p_ms p) \<and> (case p_tokens p of None \<Rightarrow> True | Some x \<Rightarrow> isFinite x) \<and> p_code p \<noteq> []"

definition quota_finite :: "quota_observation \<Rightarrow> bool" where
  "quota_finite ob \<longleftrightarrow> isFinite (q_limit ob) \<and> isFinite (q_remaining ob) \<and> isFinite (q_observedAt ob) \<and>
     (case q_resetsAt ob of None \<Rightarrow> True | Some x \<Rightarrow> isFinite x)"

lemma ping_valid: "ping_finite p \<Longrightarrow> isValidPingRecord (encode_ping p) \<and> read_ping (encode_ping p) = Some p"
proof (cases p)
  case (fields ms code ts tokens source)
  assume f: "ping_finite p"
  obtain m where m: "ms = Fin m" using f by (auto simp: fields ping_finite_def isFinite_iff)
  show ?thesis using f
    by (cases tokens; cases source; (cases "the source")?)
      (auto simp: fields m ping_finite_def encode_ping_def named_def isFinite_iff optional_def)
qed

lemma quota_valid: "quota_finite ob \<Longrightarrow> isValidQuotaObservation (encode_quota ob) \<and> read_quota (encode_quota ob) = Some ob"
proof (cases ob)
  case (fields axis period lim rem resets obs)
  assume f: "quota_finite ob"
  obtain l r z where m: "lim = Fin l" "rem = Fin r" "obs = Fin z" using f by (auto simp: fields quota_finite_def isFinite_iff)
  have "string_in (map axis_name [Requests, Tokens]) (Some (JStr (axis_name axis))) \<and>
      named axis_name [Requests, Tokens] (Some (JStr (axis_name axis))) = Some axis"
    by (cases axis) (simp_all add: named_def)
  moreover have "string_in (map period_name [Minute, Day, Month, UnknownPeriod]) (Some (JStr (period_name period))) \<and>
      named period_name [Minute, Day, Month, UnknownPeriod] (Some (JStr (period_name period))) = Some period"
    by (cases period) (simp_all add: named_def)
  moreover have "string_in [''provider-stated''] (Some (JStr ''provider-stated''))" by simp
  ultimately show ?thesis using f
    by (cases resets) (auto simp: fields m quota_finite_def encode_quota_def isFinite_iff null_or_def null_member_def
        simp del: string_in.simps list.map)
qed

lemma source_valid: "isCooldownSource (Some (JStr (cooldown_source_name c))) \<and>
    named cooldown_source_name COOLDOWN_SOURCES (Some (JStr (cooldown_source_name c))) = Some c"
  by (cases c) (simp_all add: named_def COOLDOWN_SOURCES_def)

definition row_finite :: "cell_row \<Rightarrow> bool" where
  "row_finite r \<longleftrightarrow> r_provider r \<noteq> [] \<and> r_kind r \<noteq> [] \<and> r_credentialId r \<noteq> [] \<and>
     (case r_lastFailureTime r of None \<Rightarrow> True | Some x \<Rightarrow> 0 \<le> x) \<and>
     (case r_credentialFaultUntil r of None \<Rightarrow> True | Some x \<Rightarrow> 0 \<le> x) \<and>
     (case r_pings r of None \<Rightarrow> True | Some ps \<Rightarrow> list_all ping_finite ps) \<and>
     (case r_quotaObservations r of None \<Rightarrow> True | Some qs \<Rightarrow> list_all quota_finite qs)"

text \<open>The members of an encoded row, one lemma per member.\<close>

definition row_members :: "cell_row \<Rightarrow> (string \<times> json) list" where
  "row_members r = (case encode_row r of JObj m \<Rightarrow> m | _ \<Rightarrow> [])"

lemma encode_row_members: "encode_row r = JObj (row_members r)"
  by (simp add: row_members_def encode_row_def)

lemma row_member [simp]:
  "member (row_members r) ''provider'' = Some (JStr (r_provider r))"
  "member (row_members r) ''model'' = Some (nullable JStr (r_model r))"
  "member (row_members r) ''kind'' = Some (JStr (r_kind r))"
  "member (row_members r) ''credentialId'' = Some (JStr (r_credentialId r))"
  "member (row_members r) ''base'' = map_option JStr (r_base r)"
  "member (row_members r) ''cooldownUntil'' = Some (num (r_cooldownUntil r))"
  "member (row_members r) ''cooldownSource'' = Some (nullable (\<lambda>c. JStr (cooldown_source_name c)) (r_cooldownSource r))"
  "member (row_members r) ''unexplained429s'' = Some (num (of_nat (r_unexplained429s r)))"
  "member (row_members r) ''lastStatus'' = map_option (\<lambda>i. num (of_int i)) (r_lastStatus r)"
  "member (row_members r) ''consecutiveFailures'' = map_option (\<lambda>n. num (of_nat n)) (r_consecutiveFailures r)"
  "member (row_members r) ''lastFailureTime'' = map_option num (r_lastFailureTime r)"
  "member (row_members r) ''credentialFailures'' = map_option (\<lambda>n. num (of_nat n)) (r_credentialFailures r)"
  "member (row_members r) ''lastCredentialStatus'' = map_option (\<lambda>i. num (of_int i)) (r_lastCredentialStatus r)"
  "member (row_members r) ''credentialFaultUntil'' = map_option num (r_credentialFaultUntil r)"
  "member (row_members r) ''pings'' = map_option (\<lambda>ps. JArr (map encode_ping ps)) (r_pings r)"
  "member (row_members r) ''quotaObservations'' = map_option (\<lambda>qs. JArr (map encode_quota qs)) (r_quotaObservations r)"
  by (simp_all add: row_members_def encode_row_def split: option.splits)

lemma row_valid:
  assumes "row_finite r"
  shows "isBreakerCellRow (encode_row r)"
proof -
  have ps: "list_all isValidPingRecord (map encode_ping ps)" if "r_pings r = Some ps" for ps
    using assms that ping_valid by (auto simp: row_finite_def list_all_iff)
  have qs: "list_all isValidQuotaObservation (map encode_quota qs)" if "r_quotaObservations r = Some qs" for qs
    using assms that quota_valid by (auto simp: row_finite_def list_all_iff)
  show ?thesis
    unfolding encode_row_members isBreakerCellRow.simps row_member
    using assms ps qs source_valid
    by (intro conjI absent_round null_or_round) (auto simp: row_finite_def simp del: isCooldownSource.simps)
qed

lemma row_reads:
  assumes "row_finite r"
  shows "read_row (encode_row r) = Some r"
proof -
  have ps: "opt_member (list_member read_ping) (map_option (\<lambda>ps. JArr (map encode_ping ps)) (r_pings r)) = Some (r_pings r)"
    using assms ping_valid by (intro opt_round) (auto simp: row_finite_def list_all_iff intro!: all_some_map [unfolded map_map])
  have qs: "opt_member (list_member read_quota) (map_option (\<lambda>qs. JArr (map encode_quota qs)) (r_quotaObservations r)) =
      Some (r_quotaObservations r)"
    using assms quota_valid by (intro opt_round) (auto simp: row_finite_def list_all_iff intro!: all_some_map [unfolded map_map])
  have simple: "opt_member str_of (map_option JStr a) = Some a"
    "opt_member int_of (map_option (\<lambda>i. num (of_int i)) b) = Some b"
    "opt_member nat_of (map_option (\<lambda>n. num (of_nat n)) c) = Some c"
    "opt_member rat_of (map_option num d) = Some d"
    "null_member str_of (Some (nullable JStr e)) = Some e"
    "null_member (named cooldown_source_name COOLDOWN_SOURCES) (Some (nullable (\<lambda>c. JStr (cooldown_source_name c)) f)) = Some f"
    for a b c d e f
    using source_valid by (auto intro!: opt_round null_round)
  show ?thesis
    unfolding encode_row_members read_row.simps row_member simple ps qs by simp
qed

lemma load_save:
  assumes "list_all row_finite rows"
  shows "loadBreakerState (Some (saveBreakerState rows)) = map encode_row rows"
    and "all_some (map read_row (loadBreakerState (Some (saveBreakerState rows)))) = Some rows"
proof -
  show "loadBreakerState (Some (saveBreakerState rows)) = map encode_row rows"
    using assms row_valid by (auto simp: saveBreakerState_def list_all_iff filter_id_conv)
  then show "all_some (map read_row (loadBreakerState (Some (saveBreakerState rows)))) = Some rows"
    using assms row_reads by (auto simp: list_all_iff intro!: all_some_map [unfolded map_map])
qed

section \<open>A whole breaker through its file\<close>

text \<open>
  A cell the file can hold: its numbers are finite and not in the past of the epoch, its kind is
  a kind, its base parses as the platform's parser \<open>uh\<close> says.
\<close>

definition cell_storable :: "(string \<Rightarrow> string option) \<Rightarrow> circuit_state \<Rightarrow> bool" where
  "cell_storable uh s \<longleftrightarrow> t_provider (cs_target s) \<noteq> [] \<and> t_credentialId (cs_target s) \<noteq> [] \<and>
     kind_name (t_kind (cs_target s)) \<noteq> [] \<and> kind_of_name (kind_name (t_kind (cs_target s))) = t_kind (cs_target s) \<and>
     (case t_base (cs_target s) of None \<Rightarrow> True | Some u \<Rightarrow> bu_hostname u = uh (bu_text u)) \<and>
     0 \<le> lastFailureTime s \<and> 0 \<le> credentialFaultUntil s \<and>
     list_all ping_finite (pings s) \<and> list_all quota_finite (quotaObservations s)"

lemma row_target_export: "cell_storable uh s \<Longrightarrow> row_target uh (export_cell s) = cs_target s"
  by (cases "cs_target s") (auto simp: cell_storable_def row_target_def export_cell_def split: option.splits)

lemma newest_all: "length xs \<le> n \<Longrightarrow> newest n xs = xs"
  by (simp add: newest_def)

lemma restore_export_cell:
  "cell_storable uh s \<Longrightarrow> length (pings s) \<le> MAX_PING_HISTORY \<Longrightarrow> restore_cell uh (export_cell s) = s"
  unfolding restore_cell_def
  by (simp add: row_target_export) (simp add: export_cell_def fresh_cell_def or_default_def newest_all)

lemma restore_rows:
  assumes "list_all cell_ok m" and "list_all (\<lambda>(k, s). cell_storable uh s) m" and "distinct (map fst (b_states b @ m))"
  shows "b_states (fst (restoreState uh (map (\<lambda>(k, s). export_cell s) m) b)) = b_states b @ m \<and>
    snd (restoreState uh (map (\<lambda>(k, s). export_cell s) m) b) = length m"
  using assms
proof (induction m arbitrary: b)
  case (Cons x m)
  obtain k s where x: "x = (k, s)" by force
  have k: "k = getKey (cs_target s)" and st: "cell_storable uh s" and len: "length (pings s) \<le> MAX_PING_HISTORY"
    using Cons.prems by (simp_all add: x cell_ok_def)
  have new: "jm_get (b_states b) k = None" using Cons.prems(3) by (auto simp: x jm_get_None)
  let ?b = "b\<lparr>b_states := jm_put k s (b_states b)\<rparr>"
  have put: "jm_put k s (b_states b) = b_states b @ [(k, s)]" using new by (rule jm_put_new)
  show ?case
    using Cons.IH [of ?b] Cons.prems new
    by (simp add: x k [symmetric] row_target_export [OF st] restore_export_cell [OF st len] put Let_def case_prod_unfold)
qed simp

lemma export_rows_finite:
  "list_all (\<lambda>(k, s). cell_storable uh s) m \<Longrightarrow> list_all row_finite (map (\<lambda>(k, s). export_cell s) m)"
  by (auto simp: list_all_iff row_finite_def export_cell_def cell_storable_def)

text \<open>C39. A breaker's state survives a restart when its cells can be stored (\<open>cell_storable\<close>: the ping latencies and quota numbers are
  finite, the provider and the credential have a name, no time is negative, and the base address parses to its own host): what is
  exported, written, read back, validated and restored into a breaker with no cells is the same cells in the same order, every
  field included, and every row is applied. (A row that cannot be stored, as one with a latency that is not finite, is
  refused alone by the validator when it is read.)\<close>

theorem breaker_survives_restart:
  assumes "breaker_reachable (p, b)" and "list_all (\<lambda>(k, s). cell_storable uh s) (b_states b)" and "b_states b0 = []"
  shows "\<exists>rows. all_some (map read_row (loadBreakerState (Some (saveBreakerState (exportState b))))) = Some rows \<and>
     b_states (fst (restoreState uh rows b0)) = b_states b \<and> snd (restoreState uh rows b0) = length (b_states b)"
proof (intro exI conjI)
  have ok: "jm_ok (b_states b)" "list_all cell_ok (b_states b)"
    using reachable_ok [OF assms(1)] by (simp_all add: breaker_ok_def cells_ok_def)
  show "all_some (map read_row (loadBreakerState (Some (saveBreakerState (exportState b))))) = Some (exportState b)"
    unfolding exportState_def by (rule load_save(2) [OF export_rows_finite [OF assms(2)]])
  have "b_states (fst (restoreState uh (exportState b) b0)) = b_states b0 @ b_states b \<and>
      snd (restoreState uh (exportState b) b0) = length (b_states b)"
    unfolding exportState_def by (rule restore_rows) (use ok assms in \<open>simp_all add: jm_ok_def\<close>)
  then show "b_states (fst (restoreState uh (exportState b) b0)) = b_states b"
    "snd (restoreState uh (exportState b) b0) = length (b_states b)"
    using assms(3) by simp_all
qed

definition ex_process :: process where
  "ex_process = \<lparr>p_world = \<lparr>w_next = 2, w_known = (\<lambda>_. None)\<rparr>, p_owners = (\<lambda>_. None)\<rparr>"

definition ex_empty :: breaker where
  "ex_empty = \<lparr>b_states = [], b_inFlight = [], b_starts = [], b_owner = 0, b_generation = 1,
     b_lifecycle = \<lparr>lc_owner = 1, lc_generation = 1, lc_issued = 0, lc_closed = False\<rparr>,
     b_attempts = (\<lambda>_. None), b_notified = 0\<rparr>"

definition ex_cell_target :: provider_target where
  "ex_cell_target = \<lparr>t_provider = ''p'', t_model = Some ''m'', t_kind = OpenAI, t_credentialId = ''p#k'', t_base = None\<rparr>"

definition ex_stored :: breaker where
  "ex_stored = recordOutcome ex_cell_target \<lparr>h_ok = False, h_status = Some 429, h_elapsedMs = Fin 10, h_at = 5,
     h_quota = None, h_retryAfterMs = None\<rparr> ex_empty"

lemma ex_stored_reachable: "breaker_reachable (ex_process, ex_stored)"
proof -
  have w: "world_ok (p_world \<lparr>p_world = empty_world, p_owners = (\<lambda>_. None)\<rparr>)"
    by (simp add: world_ok_def empty_world_def)
  have n: "new_breaker \<lparr>p_world = empty_world, p_owners = (\<lambda>_. None)\<rparr> = Inr (ex_process, ex_empty)"
    by (simp add: new_breaker_def new_lifecycle_def ex_process_def ex_empty_def empty_world_def MAX_SAFE_INTEGER_def)
  show ?thesis unfolding ex_stored_def
    by (rule breaker_reachable.Step [OF breaker_reachable.New [OF w n] breaker_step.Outcome])
qed

lemma ex_stored_cells: "b_states ex_stored = [(''p#k/m'', \<lparr>cs_target = ex_cell_target, consecutiveFailures = 1,
    lastFailureTime = 5, cooldownUntil = 120005, cooldownSource = Some Default, unexplained429s = 1, lastStatus = Some 429,
    pings = [\<lparr>p_ms = Fin 10, p_code = show_int 429, p_timestamp = 5, p_tokens = None, p_source = None\<rparr>],
    quotaObservations = [], credentialFailures = 0, lastCredentialStatus = None, credentialFaultUntil = 0\<rparr>)]"
  by (simp add: ex_stored_def recordOutcome_def applyHealthOutcome_def notifyStateChanged_def modify_cell_def ex_empty_def
      getOrCreate_def fresh_cell_def health_step_def failure_ladder_def Let_def asked_ms_def isLoopbackTarget_def
      ex_cell_target_def RATE_LIMIT_ESCALATION_MS_def cool_def merge_into_def push_ping_def MAX_PING_HISTORY_def
      outcomeCode_def getKey_def cell_key_def)

theorem breaker_survives_restart_witness:
  "\<exists>rows. all_some (map read_row (loadBreakerState (Some (saveBreakerState (exportState ex_stored))))) = Some rows \<and>
     b_states (fst (restoreState (\<lambda>_. None) rows ex_empty)) = b_states ex_stored \<and>
     snd (restoreState (\<lambda>_. None) rows ex_empty) = 1"
proof -
  have code: "show_int 429 \<noteq> []" by (simp add: show_int_def show_nat.simps)
  have "list_all (\<lambda>(k, s). cell_storable (\<lambda>_. None) s) (b_states ex_stored)"
    by (simp add: ex_stored_cells cell_storable_def ex_cell_target_def kind_of_name_def ping_finite_def code)
  from breaker_survives_restart [OF ex_stored_reachable this, of ex_empty] show ?thesis
    by (simp add: ex_empty_def ex_stored_cells)
qed

text \<open>A restore never touches a cell the process already has, whatever rows the file holds.\<close>

theorem restore_keeps_live_cells:
  assumes "jm_get (b_states b) k = Some s"
  shows "jm_get (b_states (fst (restoreState uh rows b))) k = Some s"
  using assms
proof (induction rows arbitrary: b)
  case (Cons row rows)
  show ?case
  proof (cases "jm_get (b_states b) (getKey (row_target uh row)) = None")
    case True
    let ?b = "b\<lparr>b_states := jm_put (getKey (row_target uh row)) (restore_cell uh row) (b_states b)\<rparr>"
    have "jm_get (b_states ?b) k = Some s" using Cons.prems True by (auto simp: jm.get_put)
    from Cons.IH [OF this] True show ?thesis by (simp add: Let_def case_prod_unfold)
  qed (use Cons in simp)
qed simp

theorem restore_keeps_live_cells_witness:
  "jm_get (b_states (fst (restoreState (\<lambda>_. None) [(export_cell (fresh_cell ex_cell_target))\<lparr>r_cooldownUntil := 9\<rparr>] ex_stored)))
     ''p#k/m'' = jm_get (b_states ex_stored) ''p#k/m''"
proof -
  obtain s where s: "jm_get (b_states ex_stored) ''p#k/m'' = Some s" by (simp add: ex_stored_cells)
  show ?thesis unfolding s by (rule restore_keeps_live_cells [OF s])
qed

end
