(* ===== verification/Facts.thy ===== *)
theory Facts
  imports Identity "HOL-Library.Char_ord" "HOL-Library.List_Lexorder"
begin

text \<open>
  What the relay has learned about targets (\<^verbatim>\<open>target-facts.ts\<close>): facts with a kind, a scope
  and an expiry, kept under one key per kind and scope. The state is the facts of the loaded
  store, in insertion order, and the write-behind flag with the last file written. The loader
  of an arbitrary file is not modelled.
\<close>

section \<open>Data\<close>

datatype fact_kind =
    NotServable | SubscriptionRequired | AllowanceExhausted | CredentialInvalid | RateLimited
  | ContextLimit | MaxOutput | RateLimitRpm | RateLimitRpd | RateLimitTpm | RateLimitTpd

datatype fact_scope =
    AttemptScope string string string
  | GroupScope string "string option" "string list"
  | DeploymentScope string string
  | CredentialScope string string
  | ProviderScope string
  | ModelScope string

datatype reset_basis = RetryAfterBasis | ReviewedField | StatedBody | ReviewedFixed

datatype cost_class = Free | Paid | UnknownCost

datatype basis_rung = StatedRung | ReviewedRung

record stored_fact =
  f_kind :: fact_kind
  f_scope :: fact_scope
  f_at :: rat
  f_until :: "rat option"
  f_value :: "rat option"
  f_untilBasis :: "reset_basis option"
  f_costClasses :: "cost_class list option"

record fact_store =
  fs_facts :: "(string, stored_fact) jmap"
  fs_dirty :: bool
  fs_file :: "(string, stored_fact) jmap option"

record fact_hit =
  fh_kind :: fact_kind
  fh_scope :: fact_scope
  fh_until :: rat
  fh_untilBasis :: "reset_basis option"
  fh_value :: "rat option"

record fact_selector =
  fsel_provider :: string
  fsel_model :: "string option"
  fsel_credentialId :: "string option"

fun FACT_RESET_BASIS_RUNG :: "reset_basis \<Rightarrow> basis_rung" where
  "FACT_RESET_BASIS_RUNG RetryAfterBasis = StatedRung"
| "FACT_RESET_BASIS_RUNG ReviewedField = ReviewedRung"
| "FACT_RESET_BASIS_RUNG StatedBody = StatedRung"
| "FACT_RESET_BASIS_RUNG ReviewedFixed = ReviewedRung"

fun FACT_TTL_MS :: "fact_kind \<Rightarrow> rat" where
  "FACT_TTL_MS NotServable = 21600000"
| "FACT_TTL_MS SubscriptionRequired = 86400000"
| "FACT_TTL_MS AllowanceExhausted = 3600000"
| "FACT_TTL_MS CredentialInvalid = 900000"
| "FACT_TTL_MS RateLimited = 120000"
| "FACT_TTL_MS ContextLimit = 2592000000"
| "FACT_TTL_MS MaxOutput = 2592000000"
| "FACT_TTL_MS RateLimitRpm = 2592000000"
| "FACT_TTL_MS RateLimitRpd = 2592000000"
| "FACT_TTL_MS RateLimitTpm = 2592000000"
| "FACT_TTL_MS RateLimitTpd = 2592000000"

definition CONDITIONS :: "fact_kind \<Rightarrow> bool" where
  "CONDITIONS k \<longleftrightarrow> k \<in> {NotServable, SubscriptionRequired, AllowanceExhausted, CredentialInvalid, RateLimited}"

definition COST_BLOCKING :: "fact_kind \<Rightarrow> bool" where
  "COST_BLOCKING k \<longleftrightarrow> k \<in> {NotServable, SubscriptionRequired}"

definition COOLING_FACT_KINDS :: "fact_kind \<Rightarrow> bool" where
  "COOLING_FACT_KINDS k \<longleftrightarrow> k \<in> {AllowanceExhausted, CredentialInvalid, RateLimited}"

definition QUOTA_RESET_FACT_KINDS :: "fact_kind \<Rightarrow> bool" where
  "QUOTA_RESET_FACT_KINDS k \<longleftrightarrow> k \<in> {AllowanceExhausted, RateLimited}"

text \<open>\<^verbatim>\<open>SCOPE_PRECEDENCE.indexOf(scope.kind)\<close>\<close>

fun scope_precedence :: "fact_scope \<Rightarrow> nat" where
  "scope_precedence (AttemptScope p c m) = 0"
| "scope_precedence (GroupScope p c ms) = 1"
| "scope_precedence (DeploymentScope p m) = 2"
| "scope_precedence (CredentialScope p c) = 3"
| "scope_precedence (ProviderScope p) = 4"
| "scope_precedence (ModelScope m) = 5"

section \<open>Keys\<close>

fun kind_text :: "fact_kind \<Rightarrow> string" where
  "kind_text NotServable = ''not-servable''"
| "kind_text SubscriptionRequired = ''subscription-required''"
| "kind_text AllowanceExhausted = ''allowance-exhausted''"
| "kind_text CredentialInvalid = ''credential-invalid''"
| "kind_text RateLimited = ''rate-limited''"
| "kind_text ContextLimit = ''context-limit''"
| "kind_text MaxOutput = ''max-output''"
| "kind_text RateLimitRpm = ''rate-limit-rpm''"
| "kind_text RateLimitRpd = ''rate-limit-rpd''"
| "kind_text RateLimitTpm = ''rate-limit-tpm''"
| "kind_text RateLimitTpd = ''rate-limit-tpd''"

definition canonicalMembers :: "string list \<Rightarrow> string list" where
  "canonicalMembers ms = sort (remdups ms)"

fun keyOfScope :: "fact_scope \<Rightarrow> string" where
  "keyOfScope (AttemptScope p c m) = ''a:'' @ c @ ''/'' @ m"
| "keyOfScope (GroupScope p c ms) =
     (case c of
        None \<Rightarrow> ''g:p:'' @ p @ ''/'' @ join_with '','' (canonicalMembers ms)
      | Some cr \<Rightarrow> if cr = [] then ''g:p:'' @ p @ ''/'' @ join_with '','' (canonicalMembers ms)
          else ''g:c:'' @ cr @ ''/'' @ join_with '','' (canonicalMembers ms))"
| "keyOfScope (DeploymentScope p m) = ''d:'' @ p @ ''/'' @ m"
| "keyOfScope (CredentialScope p c) = ''c:'' @ c"
| "keyOfScope (ProviderScope p) = ''p:'' @ p"
| "keyOfScope (ModelScope m) = ''m:'' @ m"

definition keyOf :: "fact_kind \<Rightarrow> fact_scope \<Rightarrow> string" where
  "keyOf k s = kind_text k @ '':'' @ keyOfScope s"

fun normalizeScope :: "fact_scope \<Rightarrow> fact_scope" where
  "normalizeScope (GroupScope p c ms) = GroupScope p c (canonicalMembers ms)"
| "normalizeScope s = s"

definition credentialBelongsTo :: "string \<Rightarrow> string \<Rightarrow> bool" where
  "credentialBelongsTo provider c = (map_option fst (parseCredentialId c) = Some provider)"

fun isValidScope :: "fact_scope \<Rightarrow> bool" where
  "isValidScope (AttemptScope p c m) = (p \<noteq> [] \<and> m \<noteq> [] \<and> credentialBelongsTo p c)"
| "isValidScope (GroupScope p c ms) =
     (p \<noteq> [] \<and> ms \<noteq> [] \<and> (\<forall>m \<in> set ms. m \<noteq> []) \<and> (case c of None \<Rightarrow> True | Some cr \<Rightarrow> credentialBelongsTo p cr))"
| "isValidScope (DeploymentScope p m) = (p \<noteq> [] \<and> m \<noteq> [])"
| "isValidScope (CredentialScope p c) = (p \<noteq> [] \<and> credentialBelongsTo p c)"
| "isValidScope (ProviderScope p) = (p \<noteq> [])"
| "isValidScope (ModelScope m) = (m \<noteq> [])"

section \<open>Expiry and coverage\<close>

definition expiryOf :: "stored_fact \<Rightarrow> rat" where
  "expiryOf f = (case f_until f of Some u \<Rightarrow> u | None \<Rightarrow> f_at f + FACT_TTL_MS (f_kind f))"

fun covers_scope :: "fact_scope \<Rightarrow> string \<Rightarrow> string option \<Rightarrow> string option \<Rightarrow> bool" where
  "covers_scope (AttemptScope p c m) provider cred model = (p = provider \<and> Some c = cred \<and> Some m = model)"
| "covers_scope (GroupScope p c ms) provider cred model =
     (p = provider \<and> (case model of None \<Rightarrow> False | Some m \<Rightarrow> m \<in> set ms) \<and> (c = None \<or> (cred \<noteq> None \<and> c = cred)))"
| "covers_scope (DeploymentScope p m) provider cred model = (p = provider \<and> Some m = model)"
| "covers_scope (CredentialScope p c) provider cred model = (p = provider \<and> Some c = cred)"
| "covers_scope (ProviderScope p) provider cred model = (p = provider)"
| "covers_scope (ModelScope m) provider cred model = (Some m = model)"

definition covers :: "stored_fact \<Rightarrow> string \<Rightarrow> string option \<Rightarrow> string option \<Rightarrow> bool" where
  "covers f provider cred model = covers_scope (f_scope f) provider cred model"

fun matchesFactSelector :: "fact_scope \<Rightarrow> fact_selector \<Rightarrow> bool" where
  "matchesFactSelector (AttemptScope p c m) sel =
     (p = fsel_provider sel \<and> (fsel_model sel = None \<or> Some m = fsel_model sel) \<and>
      (fsel_credentialId sel = None \<or> Some c = fsel_credentialId sel))"
| "matchesFactSelector (GroupScope p c ms) sel =
     (if p \<noteq> fsel_provider sel then False
      else if fsel_model sel \<noteq> None \<and> \<not> (\<forall>m \<in> set ms. Some m = fsel_model sel) then False
      else fsel_credentialId sel = None \<or> c = fsel_credentialId sel)"
| "matchesFactSelector (DeploymentScope p m) sel =
     (p = fsel_provider sel \<and> fsel_credentialId sel = None \<and> (fsel_model sel = None \<or> Some m = fsel_model sel))"
| "matchesFactSelector (CredentialScope p c) sel =
     (p = fsel_provider sel \<and> fsel_model sel = None \<and> (fsel_credentialId sel = None \<or> Some c = fsel_credentialId sel))"
| "matchesFactSelector (ProviderScope p) sel =
     (p = fsel_provider sel \<and> fsel_model sel = None \<and> fsel_credentialId sel = None)"
| "matchesFactSelector (ModelScope m) sel = False"

definition costFilterAdmits :: "stored_fact \<Rightarrow> cost_class option \<Rightarrow> bool" where
  "costFilterAdmits f cls =
     (case f_costClasses f of None \<Rightarrow> True | Some cs \<Rightarrow> (case cls of None \<Rightarrow> False | Some c \<Rightarrow> c \<in> set cs))"

section \<open>Operations\<close>

definition normalizeCostClasses :: "cost_class list option \<Rightarrow> cost_class list option" where
  "normalizeCostClasses raw = (case raw of None \<Rightarrow> None | Some cs \<Rightarrow> if cs = [] then None else Some cs)"

record record_options =
  ro_now :: jsnum
  ro_retryAfterMs :: "jsnum option"
  ro_untilBasis :: "reset_basis option"
  ro_value :: "jsnum option"
  ro_costClasses :: "cost_class list option"

definition stated_wait :: "jsnum option \<Rightarrow> rat option" where
  "stated_wait r = (case r of Some (Fin q) \<Rightarrow> if 0 < q then Some q else None | _ \<Rightarrow> None)"

definition new_fact :: "fact_kind \<Rightarrow> fact_scope \<Rightarrow> rat \<Rightarrow> record_options \<Rightarrow> stored_fact" where
  "new_fact k s now opts =
     (let stated = stated_wait (ro_retryAfterMs opts) in
      \<lparr>f_kind = k, f_scope = normalizeScope s, f_at = now, f_until = map_option (\<lambda>w. now + w) stated,
       f_value = (case ro_value opts of Some (Fin v) \<Rightarrow> Some v | _ \<Rightarrow> None),
       f_untilBasis = (if stated = None then None else ro_untilBasis opts),
       f_costClasses = normalizeCostClasses (ro_costClasses opts)\<rparr>)"

definition recordFact :: "fact_kind \<Rightarrow> fact_scope \<Rightarrow> record_options \<Rightarrow> fact_store \<Rightarrow> fact_store" where
  "recordFact k s opts st =
     (if \<not> isValidScope s then st
      else case ro_now opts of
          Fin now \<Rightarrow> st\<lparr>fs_facts := jm_put (keyOf k (normalizeScope s)) (new_fact k s now opts) (fs_facts st), fs_dirty := True\<rparr>
        | _ \<Rightarrow> st)"

definition hit_of :: "stored_fact \<Rightarrow> fact_hit" where
  "hit_of f = \<lparr>fh_kind = f_kind f, fh_scope = f_scope f, fh_until = expiryOf f, fh_untilBasis = f_untilBasis f,
     fh_value = f_value f\<rparr>"

definition factsFor :: "fact_store \<Rightarrow> string \<Rightarrow> string option \<Rightarrow> string option \<Rightarrow> rat \<Rightarrow> cost_class option \<Rightarrow> fact_hit list" where
  "factsFor st provider cred model now cls =
     js_sort (\<lambda>x y. scope_precedence (fh_scope x) \<le> scope_precedence (fh_scope y))
       (map hit_of (filter (\<lambda>f. now < expiryOf f \<and> covers f provider cred model \<and> costFilterAdmits f cls)
          (map snd (fs_facts st))))"

definition isCostBlocked :: "fact_store \<Rightarrow> string \<Rightarrow> string option \<Rightarrow> string option \<Rightarrow> rat \<Rightarrow> cost_class option \<Rightarrow> bool" where
  "isCostBlocked st provider cred model now cls =
     list_ex (\<lambda>h. COST_BLOCKING (fh_kind h)) (factsFor st provider cred model now cls)"

definition fact_cooldownUntil ::
  "fact_store \<Rightarrow> string \<Rightarrow> string option \<Rightarrow> string option \<Rightarrow> rat \<Rightarrow> cost_class option \<Rightarrow> rat option" where
  "fact_cooldownUntil st provider cred model now cls =
     fold (\<lambda>h latest. if COOLING_FACT_KINDS (fh_kind h)
        then Some (case latest of None \<Rightarrow> fh_until h | Some l \<Rightarrow> max l (fh_until h)) else latest)
       (factsFor st provider cred model now cls) None"

definition clears :: "string \<Rightarrow> string option \<Rightarrow> string option \<Rightarrow> cost_class option \<Rightarrow> stored_fact \<Rightarrow> bool" where
  "clears provider cred model cls f \<longleftrightarrow>
     CONDITIONS (f_kind f) \<and> covers f provider cred model \<and> costFilterAdmits f cls"

text \<open>\<^verbatim>\<open>delete store.facts[key]\<close> of every entry that \<open>hit\<close> selects.\<close>

definition drop_facts :: "(stored_fact \<Rightarrow> bool) \<Rightarrow> (string, stored_fact) jmap \<Rightarrow> (string, stored_fact) jmap" where
  "drop_facts hit m = filter (\<lambda>(k, f). \<not> hit f) m"

fun is_credential_scope :: "fact_scope \<Rightarrow> bool" where
  "is_credential_scope (CredentialScope p c) = True"
| "is_credential_scope s = False"

definition clearFacts ::
  "string \<Rightarrow> string option \<Rightarrow> string option \<Rightarrow> cost_class option \<Rightarrow> fact_store \<Rightarrow> fact_store \<times> fact_kind list" where
  "clearFacts provider cred model cls st =
     (let hits = filter (clears provider cred model cls) (map snd (fs_facts st)) in
      (st\<lparr>fs_facts := drop_facts (clears provider cred model cls) (fs_facts st), fs_dirty := fs_dirty st \<or> hits \<noteq> []\<rparr>,
       map f_kind (filter (\<lambda>f. is_credential_scope (f_scope f)) hits)))"

definition cleared_fact_le ::
  "(string \<Rightarrow> string \<Rightarrow> int) \<Rightarrow> fact_kind \<times> fact_scope \<Rightarrow> fact_kind \<times> fact_scope \<Rightarrow> bool" where
  "cleared_fact_le lc a b =
     (let k = lc (kind_text (fst a)) (kind_text (fst b)) in
      (if k \<noteq> 0 then k else lc (keyOfScope (snd a)) (keyOfScope (snd b))) \<le> 0)"

definition clearMatchingActiveFacts ::
  "(string \<Rightarrow> string \<Rightarrow> int) \<Rightarrow> (stored_fact \<Rightarrow> bool) \<Rightarrow> fact_selector \<Rightarrow> rat \<Rightarrow> fact_store \<Rightarrow>
     fact_store \<times> (fact_kind \<times> fact_scope) list" where
  "clearMatchingActiveFacts lc hit sel now st =
     (let drop = (\<lambda>f. hit f \<and> now < expiryOf f \<and> matchesFactSelector (f_scope f) sel);
          hits = filter drop (map snd (fs_facts st))
      in (st\<lparr>fs_facts := drop_facts drop (fs_facts st), fs_dirty := fs_dirty st \<or> hits \<noteq> []\<rparr>,
          js_sort (cleared_fact_le lc) (map (\<lambda>f. (f_kind f, f_scope f)) hits)))"

definition clearCooldownFacts where
  "clearCooldownFacts lc = clearMatchingActiveFacts lc (\<lambda>f. COOLING_FACT_KINDS (f_kind f))"

definition clearCredentialInvalidFacts where
  "clearCredentialInvalidFacts lc = clearMatchingActiveFacts lc (\<lambda>f. f_kind f = CredentialInvalid)"

definition clearPaidAllowanceFacts where
  "clearPaidAllowanceFacts lc = clearMatchingActiveFacts lc (\<lambda>f. f_kind f = AllowanceExhausted \<and>
     (case f_costClasses f of None \<Rightarrow> False | Some cs \<Rightarrow> list_all (\<lambda>c. c = Paid) cs))"

record listed_fact =
  lf_kind :: fact_kind
  lf_scope :: fact_scope
  lf_at :: rat
  lf_until :: rat
  lf_untilBasis :: "reset_basis option"

definition allFacts :: "fact_store \<Rightarrow> rat \<Rightarrow> listed_fact list" where
  "allFacts st now =
     js_sort (\<lambda>a b. lf_at b \<le> lf_at a)
       (map (\<lambda>f. \<lparr>lf_kind = f_kind f, lf_scope = f_scope f, lf_at = f_at f, lf_until = expiryOf f, lf_untilBasis = f_untilBasis f\<rparr>)
          (filter (\<lambda>f. now < expiryOf f) (map snd (fs_facts st))))"

text \<open>\<^verbatim>\<open>persist\<close> drops the expired facts from the store itself, then writes it whole.\<close>

definition persist :: "rat \<Rightarrow> fact_store \<Rightarrow> fact_store" where
  "persist now st =
     (let kept = drop_facts (\<lambda>f. expiryOf f \<le> now) (fs_facts st) in st\<lparr>fs_facts := kept, fs_file := Some kept\<rparr>)"

definition flushFacts :: "rat \<Rightarrow> fact_store \<Rightarrow> fact_store" where
  "flushFacts now st = (if \<not> fs_dirty st then st else persist now (st\<lparr>fs_dirty := False\<rparr>))"

fun describeScope :: "fact_scope \<Rightarrow> string" where
  "describeScope (AttemptScope p c m) = c @ ''/'' @ m"
| "describeScope (GroupScope p c ms) =
     (case c of None \<Rightarrow> p | Some cr \<Rightarrow> cr) @ ''/{'' @ show_nat (length ms) @ '' models}''"
| "describeScope (DeploymentScope p m) = p @ ''/'' @ m"
| "describeScope (CredentialScope p c) = c @ ''/*''"
| "describeScope (ProviderScope p) = p @ ''/* (all credentials)''"
| "describeScope (ModelScope m) = ''*/'' @ m"

end
