(* ===== verification/Fleet.thy ===== *)
theory Fleet
  imports Facts Breaker
begin

text \<open>
  Credential slots and the attempts resolved from them (\<^verbatim>\<open>credential-fleet.ts\<close>), and the cost gate
  over every slot of a provider (\<^verbatim>\<open>isCostBlockedForEverySlot\<close> of \<^verbatim>\<open>target-facts.ts\<close>). What the
  environment and the keystore hold for a slot is the parameter \<open>secret\<close>. An attempt object has an
  identity, \<open>ra_ref\<close>.
\<close>

datatype credential_state = NotDeclared | DeclaredPresent | DeclaredMissing

datatype slot_origin = ImplicitOrigin | LegacyAuthEnv | CredentialsOrigin

record credential_slot =
  sl_credentialId :: string
  sl_provider :: string
  sl_label :: string
  sl_authEnv :: "string option"
  sl_enabled :: bool
  sl_models :: "string list option"
  sl_origin :: slot_origin
  sl_declaredOnly :: bool
  sl_configIndex :: int

record fleet_entry =
  fe_label :: string
  fe_authEnv :: "string option"
  fe_enabled :: "bool option"
  fe_models :: "string list option"

record fleet_config =
  fc_credentials :: "fleet_entry list option"
  fc_authEnv :: "string option"

record resolved_target =
  rt_provider :: string
  rt_base :: base_url
  rt_kind :: provider_kind
  rt_model :: "string option"

record resolved_attempt =
  ra_ref :: nat
  ra_target :: resolved_target
  ra_credentialId :: string
  ra_secret :: credential_state
  ra_slot :: credential_slot

section \<open>Slots\<close>

text \<open>\<^verbatim>\<open>authEnv ? ... : ...\<close>: an empty name is no name.\<close>

definition implicitCredentialSlot :: "string \<Rightarrow> string option \<Rightarrow> cred_error + credential_slot" where
  "implicitCredentialSlot provider authEnv =
     (case makeCredentialId provider ''default'' of
        Inl e \<Rightarrow> Inl e
      | Inr c \<Rightarrow> Inr \<lparr>sl_credentialId = c, sl_provider = provider, sl_label = ''default'', sl_authEnv = authEnv,
          sl_enabled = True, sl_models = None,
          sl_origin = (case authEnv of Some e \<Rightarrow> if e = [] then ImplicitOrigin else LegacyAuthEnv | None \<Rightarrow> ImplicitOrigin),
          sl_declaredOnly = False, sl_configIndex = 0\<rparr>)"

definition emptyCredentialSlot :: "string \<Rightarrow> cred_error + credential_slot" where
  "emptyCredentialSlot provider =
     (case makeCredentialId provider ''default'' of
        Inl e \<Rightarrow> Inl e
      | Inr c \<Rightarrow> Inr \<lparr>sl_credentialId = c, sl_provider = provider, sl_label = ''default'', sl_authEnv = None,
          sl_enabled = False, sl_models = Some [], sl_origin = CredentialsOrigin, sl_declaredOnly = True, sl_configIndex = - 1\<rparr>)"

fun config_slots :: "string \<Rightarrow> int \<Rightarrow> fleet_entry list \<Rightarrow> cred_error + credential_slot list" where
  "config_slots provider i [] = Inr []"
| "config_slots provider i (e # es) =
     (case makeCredentialId provider (fe_label e) of
        Inl err \<Rightarrow> Inl err
      | Inr c \<Rightarrow> (case config_slots provider (i + 1) es of
            Inl err \<Rightarrow> Inl err
          | Inr slots \<Rightarrow> Inr (\<lparr>sl_credentialId = c, sl_provider = provider, sl_label = fe_label e, sl_authEnv = fe_authEnv e,
              sl_enabled = (fe_enabled e \<noteq> Some False), sl_models = fe_models e, sl_origin = CredentialsOrigin,
              sl_declaredOnly = True, sl_configIndex = i\<rparr> # slots)))"

definition providerCredentialSlots :: "string \<Rightarrow> fleet_config \<Rightarrow> cred_error + credential_slot list" where
  "providerCredentialSlots provider config =
     (case fc_credentials config of
        Some es \<Rightarrow> config_slots provider 0 es
      | None \<Rightarrow> (case implicitCredentialSlot provider (fc_authEnv config) of Inl e \<Rightarrow> Inl e | Inr s \<Rightarrow> Inr [s]))"

definition slotAllowsModel :: "credential_slot \<Rightarrow> string option \<Rightarrow> bool" where
  "slotAllowsModel slot model =
     (case sl_models slot of
        None \<Rightarrow> True
      | Some ms \<Rightarrow> (case model of None \<Rightarrow> False | Some m \<Rightarrow> m \<in> set ms))"

definition aggregateHasKey :: "(credential_slot \<Rightarrow> credential_state) \<Rightarrow> string \<Rightarrow> fleet_config \<Rightarrow> cred_error + bool" where
  "aggregateHasKey secret provider config =
     (case providerCredentialSlots provider config of
        Inl e \<Rightarrow> Inl e
      | Inr slots \<Rightarrow> Inr (list_ex (\<lambda>s. sl_enabled s \<and> (case sl_models s of None \<Rightarrow> True | Some ms \<Rightarrow> ms \<noteq> []) \<and>
          secret s \<noteq> DeclaredMissing) slots))"

text \<open>\<open>ref\<close> is the identity of the frozen attempt object.\<close>

definition resolveAttemptForSlot ::
  "(credential_slot \<Rightarrow> credential_state) \<Rightarrow> nat \<Rightarrow> resolved_target \<Rightarrow> credential_slot \<Rightarrow> resolved_attempt option" where
  "resolveAttemptForSlot secret ref target slot =
     (if sl_provider slot \<noteq> rt_provider target \<or> \<not> sl_enabled slot \<or> \<not> slotAllowsModel slot (rt_model target) then None
      else if secret slot = DeclaredMissing then None
      else Some \<lparr>ra_ref = ref, ra_target = target, ra_credentialId = sl_credentialId slot, ra_secret = secret slot, ra_slot = slot\<rparr>)"

text \<open>The breaker's name for an attempt, as the demotion terms and the runner build it.\<close>

definition target_identity :: "resolved_attempt \<Rightarrow> provider_target" where
  "target_identity a = \<lparr>t_provider = rt_provider (ra_target a), t_model = rt_model (ra_target a),
     t_kind = rt_kind (ra_target a), t_credentialId = ra_credentialId a,
     t_base = (if bu_text (rt_base (ra_target a)) = [] then None else Some (rt_base (ra_target a)))\<rparr>"

section \<open>The cost gate over every slot\<close>

definition isCostBlockedForEverySlot ::
  "fact_store \<Rightarrow> string \<Rightarrow> string option \<Rightarrow> (string, fleet_config) jmap \<Rightarrow> rat \<Rightarrow> cost_class option \<Rightarrow> cred_error + bool" where
  "isCostBlockedForEverySlot st provider model providers now cls =
     (case (case jm_get providers provider of
          Some config \<Rightarrow> providerCredentialSlots provider config
        | None \<Rightarrow> (case implicitCredentialSlot provider None of Inl e \<Rightarrow> Inl e | Inr s \<Rightarrow> Inr [s])) of
        Inl e \<Rightarrow> Inl e
      | Inr slots \<Rightarrow>
          (let enabled = filter sl_enabled slots in
           Inr (enabled = [] \<or> list_all (\<lambda>s. isCostBlocked st provider (Some (sl_credentialId s)) model now cls) enabled)))"

lemma config_slots_ids:
  "config_slots provider i es = Inr slots \<Longrightarrow> s \<in> set slots \<Longrightarrow> credentialBelongsTo provider (sl_credentialId s)"
proof (induction provider i es arbitrary: slots rule: config_slots.induct)
  case (2 provider i e es)
  then obtain c rest where c: "makeCredentialId provider (fe_label e) = Inr c" "config_slots provider (i + 1) es = Inr rest"
    and slots: "slots = \<lparr>sl_credentialId = c, sl_provider = provider, sl_label = fe_label e, sl_authEnv = fe_authEnv e,
      sl_enabled = (fe_enabled e \<noteq> Some False), sl_models = fe_models e, sl_origin = CredentialsOrigin,
      sl_declaredOnly = True, sl_configIndex = i\<rparr> # rest"
    by (auto split: sum.splits)
  show ?case using 2(3) 2(1) [OF c] parse_make [OF c(1)] by (auto simp: slots credentialBelongsTo_def)
qed simp

lemma provider_slots_belong:
  "providerCredentialSlots provider config = Inr slots \<Longrightarrow> s \<in> set slots \<Longrightarrow> credentialBelongsTo provider (sl_credentialId s)"
  by (auto simp: providerCredentialSlots_def implicitCredentialSlot_def credentialBelongsTo_def
      split: option.splits sum.splits dest: config_slots_ids parse_make)

end
