(* ===== verification/Rate_Limits.thy ===== *)
theory Rate_Limits
  imports Quota
begin

text \<open>
  Operator-declared rate limits (\<^verbatim>\<open>configured-limits.ts\<close>): the parser of a limits block, and the
  per-axis resolution over credential and provider declarations. An axis map is a function from the
  closed axis vocabulary. Error messages are constructors carrying the place they name.
\<close>

datatype limit_axis = Rpm | Rpd | Tpm | Tpd

definition CONFIGURED_LIMIT_AXES :: "limit_axis list" where
  "CONFIGURED_LIMIT_AXES = [Rpm, Rpd, Tpm, Tpd]"

fun limit_axis_name :: "limit_axis \<Rightarrow> string" where
  "limit_axis_name Rpm = ''rpm''"
| "limit_axis_name Rpd = ''rpd''"
| "limit_axis_name Tpm = ''tpm''"
| "limit_axis_name Tpd = ''tpd''"

type_synonym axis_values = "limit_axis \<Rightarrow> int option"

definition no_values :: axis_values where "no_values = (\<lambda>_. None)"

record rate_limits =
  rl_values :: axis_values
  rl_hard :: "axis_values option"

record limits_config =
  lcfg_limits :: rate_limits
  lcfg_models :: "(string, rate_limits) jmap option"

section \<open>Parsing\<close>

datatype limits_error =
    NotPositiveInteger string string
  | HardNotObject string
  | UnknownHardAxis string string
  | UnknownAxis string string
  | LimitsNotObject string
  | ModelsNotObject string
  | ModelNotObject string string

definition MAX_SAFE :: rat where "MAX_SAFE = 9007199254740991"

fun positive_safe_integer :: "json \<Rightarrow> int option" where
  "positive_safe_integer (JNum (Fin q)) = (if q = of_int \<lfloor>q\<rfloor> \<and> 0 < q \<and> q \<le> MAX_SAFE then Some \<lfloor>q\<rfloor> else None)"
| "positive_safe_integer v = None"

definition axis_of_name :: "string \<Rightarrow> limit_axis option" where
  "axis_of_name key = find (\<lambda>a. limit_axis_name a = key) CONFIGURED_LIMIT_AXES"

text \<open>\<^verbatim>\<open>parseAxisValues\<close>, on members whose names are axes already.\<close>

fun parseAxisValues :: "(string \<times> json) list \<Rightarrow> string \<Rightarrow> axis_values \<Rightarrow> limits_error + axis_values" where
  "parseAxisValues [] place out = Inr out"
| "parseAxisValues ((key, v) # raw) place out =
     (case positive_safe_integer v of
        None \<Rightarrow> Inl (NotPositiveInteger place key)
      | Some n \<Rightarrow> parseAxisValues raw place
          (case axis_of_name key of None \<Rightarrow> out | Some a \<Rightarrow> out(a := Some n)))"

fun parseHardLimits :: "json option \<Rightarrow> string \<Rightarrow> limits_error + axis_values option" where
  "parseHardLimits None place = Inr None"
| "parseHardLimits (Some (JObj raw)) place =
     (case find (\<lambda>(key, v). axis_of_name key = None) raw of
        Some (key, v) \<Rightarrow> Inl (UnknownHardAxis place key)
      | None \<Rightarrow> (case parseAxisValues raw place no_values of Inl e \<Rightarrow> Inl e | Inr out \<Rightarrow> Inr (Some out)))"
| "parseHardLimits (Some v) place = Inl (HardNotObject place)"

definition parseLimitEntry :: "(string \<times> json) list \<Rightarrow> string \<Rightarrow> bool \<Rightarrow> limits_error + (rate_limits \<times> json option)" where
  "parseLimitEntry raw place allowModels =
     (let special = (\<lambda>key. (allowModels \<and> key = ''models'') \<or> key = ''hard'') in
      case find (\<lambda>(key, v). \<not> special key \<and> axis_of_name key = None) raw of
        Some (key, v) \<Rightarrow> Inl (UnknownAxis place key)
      | None \<Rightarrow>
          (case parseAxisValues (filter (\<lambda>(key, v). \<not> special key) raw) place no_values of
             Inl e \<Rightarrow> Inl e
           | Inr values \<Rightarrow>
               (case parseHardLimits (member raw ''hard'') (place @ ''.hard'') of
                  Inl e \<Rightarrow> Inl e
                | Inr hard \<Rightarrow> Inr (\<lparr>rl_values = values, rl_hard = hard\<rparr>,
                    if allowModels then member raw ''models'' else None))))"

fun parse_models :: "(string \<times> json) list \<Rightarrow> string \<Rightarrow> limits_error + (string, rate_limits) jmap" where
  "parse_models [] place = Inr []"
| "parse_models ((modelId, entry) # raw) place =
     (case entry of
        JObj row \<Rightarrow>
          (case parseLimitEntry row (place @ ''.models.'' @ modelId) False of
             Inl e \<Rightarrow> Inl e
           | Inr (limits, _) \<Rightarrow>
               (case parse_models raw place of Inl e \<Rightarrow> Inl e | Inr ms \<Rightarrow> Inr ((modelId, limits) # ms)))
      | _ \<Rightarrow> Inl (ModelNotObject place modelId))"

fun parseConfiguredLimits :: "json option \<Rightarrow> string \<Rightarrow> limits_error + limits_config option" where
  "parseConfiguredLimits None place = Inr None"
| "parseConfiguredLimits (Some (JObj raw)) place =
     (case parseLimitEntry raw place True of
        Inl e \<Rightarrow> Inl e
      | Inr (limits, None) \<Rightarrow> Inr (Some \<lparr>lcfg_limits = limits, lcfg_models = None\<rparr>)
      | Inr (limits, Some (JObj modelsRaw)) \<Rightarrow>
          (case parse_models modelsRaw place of
             Inl e \<Rightarrow> Inl e
           | Inr ms \<Rightarrow> Inr (Some \<lparr>lcfg_limits = limits, lcfg_models = (if ms = [] then None else Some ms)\<rparr>))
      | Inr (limits, Some v) \<Rightarrow> Inl (ModelsNotObject place))"
| "parseConfiguredLimits (Some v) place = Inl (LimitsNotObject place)"

section \<open>Resolution\<close>

datatype limit_source = FromProvider | FromCredential | FromProviderModel | FromCredentialModel

record credential_config =
  cc_label :: string
  cc_limits :: "limits_config option"

record provider_config =
  pc_limits :: "limits_config option"
  pc_credentials :: "credential_config list option"

record limits_cfg =
  cfg_providers :: "(string, provider_config) jmap"
  cfg_hardCaps :: "bool option"

record configured_limits =
  cl_values :: axis_values
  cl_source :: "limit_axis \<Rightarrow> limit_source option"
  cl_hard :: "axis_values option"
  cl_hardSource :: "(limit_axis \<Rightarrow> limit_source option) option"

definition model_limits :: "limits_config option \<Rightarrow> string option \<Rightarrow> rate_limits option" where
  "model_limits limits model =
     (case (limits, model) of
        (Some l, Some m) \<Rightarrow> (case lcfg_models l of None \<Rightarrow> None | Some ms \<Rightarrow> jm_get ms m)
      | _ \<Rightarrow> None)"

definition credential_limits :: "provider_config option \<Rightarrow> string option \<Rightarrow> limits_config option" where
  "credential_limits p label =
     (case (p, label) of
        (Some pc, Some l) \<Rightarrow>
          (case pc_credentials pc of None \<Rightarrow> None | Some cs \<Rightarrow> Option.bind (find (\<lambda>c. cc_label c = l) cs) cc_limits)
      | _ \<Rightarrow> None)"

definition limit_ladder ::
  "limits_config option \<Rightarrow> limits_config option \<Rightarrow> string option \<Rightarrow> (limit_source \<times> rate_limits option) list" where
  "limit_ladder credentialLimits providerLimits model =
     [(FromCredentialModel, model_limits credentialLimits model), (FromProviderModel, model_limits providerLimits model),
      (FromCredential, map_option lcfg_limits credentialLimits), (FromProvider, map_option lcfg_limits providerLimits)]"

definition soft_value :: "limit_axis \<Rightarrow> rate_limits option \<Rightarrow> int option" where
  "soft_value axis limits = Option.bind limits (\<lambda>l. rl_values l axis)"

definition hard_value :: "limit_axis \<Rightarrow> rate_limits option \<Rightarrow> int option" where
  "hard_value axis limits = Option.bind limits (\<lambda>l. Option.bind (rl_hard l) (\<lambda>h. h axis))"

text \<open>The walk of one axis down the ladder: the first value of each sort, with where it came from.\<close>

fun walk_ladder ::
  "limit_axis \<Rightarrow> (limit_source \<times> rate_limits option) list \<Rightarrow> (int \<times> limit_source) option \<Rightarrow> (int \<times> limit_source) option \<Rightarrow>
     (int \<times> limit_source) option \<times> (int \<times> limit_source) option" where
  "walk_ladder axis [] soft hard = (soft, hard)"
| "walk_ladder axis ((source, limits) # ladder) soft hard =
     (let soft' = (case (soft, soft_value axis limits) of (None, Some v) \<Rightarrow> Some (v, source) | _ \<Rightarrow> soft);
          hard' = (case (hard, hard_value axis limits) of (None, Some v) \<Rightarrow> Some (v, source) | _ \<Rightarrow> hard)
      in if soft' \<noteq> None \<and> hard' \<noteq> None then (soft', hard') else walk_ladder axis ladder soft' hard')"

definition resolveConfiguredLimits :: "limits_cfg \<Rightarrow> string \<Rightarrow> string option \<Rightarrow> string option \<Rightarrow> configured_limits option" where
  "resolveConfiguredLimits cfg provider label model =
     (let p = jm_get (cfg_providers cfg) provider;
          providerLimits = Option.bind p pc_limits;
          credentialLimits = credential_limits p label
      in if providerLimits = None \<and> credentialLimits = None then None
         else let ladder = limit_ladder credentialLimits providerLimits model;
                  soft = (\<lambda>axis. fst (walk_ladder axis ladder None None));
                  hard = (\<lambda>axis. snd (walk_ladder axis ladder None None));
                  declared = list_ex (\<lambda>axis. hard axis \<noteq> None) CONFIGURED_LIMIT_AXES
              in if list_all (\<lambda>axis. soft axis = None) CONFIGURED_LIMIT_AXES \<and> \<not> declared then None
                 else Some \<lparr>cl_values = (\<lambda>a. map_option fst (soft a)), cl_source = (\<lambda>a. map_option snd (soft a)),
                   cl_hard = (if declared then Some (\<lambda>a. map_option fst (hard a)) else None),
                   cl_hardSource = (if declared then Some (\<lambda>a. map_option snd (hard a)) else None)\<rparr>)"

fun configuredLimitQuotaShape :: "limit_axis \<Rightarrow> quota_axis \<times> quota_period" where
  "configuredLimitQuotaShape Rpm = (Requests, Minute)"
| "configuredLimitQuotaShape Rpd = (Requests, Day)"
| "configuredLimitQuotaShape Tpm = (Tokens, Minute)"
| "configuredLimitQuotaShape Tpd = (Tokens, Day)"

section \<open>The first declaration wins\<close>

fun first_some :: "('a \<times> 'b option) list \<Rightarrow> ('b \<times> 'a) option" where
  "first_some [] = None"
| "first_some ((s, v) # xs) = (case v of Some x \<Rightarrow> Some (x, s) | None \<Rightarrow> first_some xs)"

lemma walk_ladder_done:
  "fst (walk_ladder axis ladder (Some x) hard) = Some x" "snd (walk_ladder axis ladder soft (Some y)) = Some y"
  by (induction ladder arbitrary: soft hard) (auto simp: Let_def split: option.splits)

lemma walk_ladder_soft:
  "fst (walk_ladder axis ladder None hard) = first_some (map (\<lambda>(s, l). (s, soft_value axis l)) ladder)"
  by (induction ladder arbitrary: hard) (auto simp: Let_def walk_ladder_done split: option.splits)

lemma walk_ladder_hard:
  "snd (walk_ladder axis ladder soft None) = first_some (map (\<lambda>(s, l). (s, hard_value axis l)) ladder)"
  by (induction ladder arbitrary: soft) (auto simp: Let_def walk_ladder_done split: option.splits)

lemma axes_complete: "axis \<in> set CONFIGURED_LIMIT_AXES"
  by (cases axis) (simp_all add: CONFIGURED_LIMIT_AXES_def)

text \<open>Each axis of a target's limits comes from the most specific declaration that states it - credential and
  model, provider and model, credential, provider - soft and hard values independently of each other, and
  the reported source names that declaration.\<close>

theorem limits_most_specific:
  assumes "resolveConfiguredLimits cfg provider label model = Some out"
    and "ladder = limit_ladder (credential_limits (jm_get (cfg_providers cfg) provider) label)
       (Option.bind (jm_get (cfg_providers cfg) provider) pc_limits) model"
  shows "cl_values out axis = map_option fst (first_some (map (\<lambda>(s, l). (s, soft_value axis l)) ladder)) \<and>
     cl_source out axis = map_option snd (first_some (map (\<lambda>(s, l). (s, soft_value axis l)) ladder)) \<and>
     Option.bind (cl_hard out) (\<lambda>h. h axis) = map_option fst (first_some (map (\<lambda>(s, l). (s, hard_value axis l)) ladder)) \<and>
     Option.bind (cl_hardSource out) (\<lambda>h. h axis) = map_option snd (first_some (map (\<lambda>(s, l). (s, hard_value axis l)) ladder))"
proof -
  have "snd (walk_ladder axis ladder None None) = None"
    if "\<not> list_ex (\<lambda>a. snd (walk_ladder a ladder None None) \<noteq> None) CONFIGURED_LIMIT_AXES"
    using that axes_complete [of axis] unfolding list_ex_iff by blast
  then show ?thesis
    using assms(1) unfolding resolveConfiguredLimits_def Let_def assms(2) [symmetric]
    by (auto simp: walk_ladder_soft walk_ladder_hard split: if_splits)
qed

definition ex_limits :: "int \<Rightarrow> limits_config" where
  "ex_limits n = \<lparr>lcfg_limits = \<lparr>rl_values = no_values(Rpd := Some n), rl_hard = Some (no_values(Rpd := Some (2 * n)))\<rparr>, lcfg_models = None\<rparr>"

definition ex_cfg :: limits_cfg where
  "ex_cfg = \<lparr>cfg_providers = [(''p'', \<lparr>pc_limits = Some (ex_limits 100),
     pc_credentials = Some [\<lparr>cc_label = ''k'', cc_limits = Some (ex_limits 7)\<rparr>]\<rparr>)], cfg_hardCaps = None\<rparr>"

lemma ex_resolves: "resolveConfiguredLimits ex_cfg ''p'' (Some ''k'') (Some ''m'') = Some
    \<lparr>cl_values = cl_values (the (resolveConfiguredLimits ex_cfg ''p'' (Some ''k'') (Some ''m''))),
     cl_source = cl_source (the (resolveConfiguredLimits ex_cfg ''p'' (Some ''k'') (Some ''m''))),
     cl_hard = cl_hard (the (resolveConfiguredLimits ex_cfg ''p'' (Some ''k'') (Some ''m''))),
     cl_hardSource = cl_hardSource (the (resolveConfiguredLimits ex_cfg ''p'' (Some ''k'') (Some ''m'')))\<rparr>"
  by (simp add: resolveConfiguredLimits_def ex_cfg_def ex_limits_def credential_limits_def limit_ladder_def model_limits_def
      Let_def soft_value_def hard_value_def no_values_def CONFIGURED_LIMIT_AXES_def)

theorem limits_most_specific_witness:
  "\<exists>out. resolveConfiguredLimits ex_cfg ''p'' (Some ''k'') (Some ''m'') = Some out \<and> cl_values out Rpd = Some 7 \<and>
     cl_source out Rpd = Some FromCredential"
  using limits_most_specific [OF ex_resolves refl, of Rpd] ex_resolves
  by (auto simp: ex_cfg_def ex_limits_def credential_limits_def limit_ladder_def model_limits_def soft_value_def no_values_def)

section \<open>What the parser lets through\<close>

definition values_ok :: "axis_values \<Rightarrow> bool" where
  "values_ok v \<longleftrightarrow> (\<forall>a n. v a = Some n \<longrightarrow> 0 < n \<and> n \<le> 9007199254740991)"

definition limits_ok :: "rate_limits \<Rightarrow> bool" where
  "limits_ok l \<longleftrightarrow> values_ok (rl_values l) \<and> (\<forall>h. rl_hard l = Some h \<longrightarrow> values_ok h)"

lemma positive_safe_bounds: "positive_safe_integer v = Some n \<Longrightarrow> 0 < n \<and> n \<le> 9007199254740991"
proof (induction v rule: positive_safe_integer.induct)
  case (1 q)
  then have q: "q = of_int n" "0 < q" "q \<le> of_int 9007199254740991"
    by (auto simp: MAX_SAFE_def split: if_splits)
  then show ?case by (simp only: of_int_le_iff of_int_0_less_iff)
qed simp_all

lemma parse_axis_ok: "parseAxisValues raw place out = Inr v \<Longrightarrow> values_ok out \<Longrightarrow> values_ok v"
proof (induction raw place out rule: parseAxisValues.induct)
  case (2 key x raw place out)
  from 2(2) obtain n where n: "positive_safe_integer x = Some n" by (auto split: option.splits)
  have "values_ok (case axis_of_name key of None \<Rightarrow> out | Some a \<Rightarrow> out(a := Some n))"
    using 2(3) positive_safe_bounds [OF n] by (auto simp: values_ok_def split: option.splits)
  then show ?case using 2(1) [OF n] 2(2) n by simp
qed simp

lemma no_values_ok [simp]: "values_ok no_values"
  by (simp add: values_ok_def no_values_def)

lemma parse_hard_ok: "parseHardLimits raw place = Inr (Some h) \<Longrightarrow> values_ok h"
  by (induction raw place rule: parseHardLimits.induct)
    (auto split: option.splits sum.splits intro: parse_axis_ok [OF _ no_values_ok])

lemma parse_entry_ok: "parseLimitEntry raw place allow = Inr (l, m) \<Longrightarrow> limits_ok l"
  by (auto simp: parseLimitEntry_def Let_def limits_ok_def split: option.splits sum.splits
      intro: parse_axis_ok [OF _ no_values_ok] parse_hard_ok)

lemma parse_models_ok: "parse_models raw place = Inr ms \<Longrightarrow> (k, l) \<in> set ms \<Longrightarrow> limits_ok l"
proof (induction raw arbitrary: ms)
  case (Cons x raw)
  obtain modelId row lim rest ms' where x: "x = (modelId, JObj row)"
    and e: "parseLimitEntry row (place @ ''.models.'' @ modelId) False = Inr (lim, rest)"
    and m: "parse_models raw place = Inr ms'" "ms = (modelId, lim) # ms'"
    using Cons.prems(1) by (cases x) (auto split: json.splits sum.splits)
  show ?case using Cons.prems(2) Cons.IH [OF m(1)] parse_entry_ok [OF e] by (auto simp: m(2))
qed simp

text \<open>C40. Every number a limits block is accepted with - soft or hard, provider-wide or per model - is a positive
  safe integer.\<close>

theorem parsed_limits_positive:
  assumes "parseConfiguredLimits raw place = Inr (Some cfg)"
  shows "limits_ok (lcfg_limits cfg) \<and> (\<forall>ms k l. lcfg_models cfg = Some ms \<longrightarrow> (k, l) \<in> set ms \<longrightarrow> limits_ok l)"
  using assms
proof (induction raw place rule: parseConfiguredLimits.induct)
  case (2 raw place)
  then obtain l m where e: "parseLimitEntry raw place True = Inr (l, m)" by (auto split: sum.splits)
  note ok = parse_entry_ok [OF e]
  show ?case using 2 e ok
    by (cases m; (cases "the m")?) (auto split: sum.splits if_splits dest: parse_models_ok)
qed simp_all

theorem parsed_limits_positive_witness:
  "\<exists>cfg. parseConfiguredLimits (Some (JObj [(''rpd'', JNum (Fin 450))])) ''limits'' = Inr (Some cfg) \<and> limits_ok (lcfg_limits cfg)"
proof -
  let ?cfg = "\<lparr>lcfg_limits = \<lparr>rl_values = no_values(Rpd := Some 450), rl_hard = None\<rparr>, lcfg_models = None\<rparr>"
  have "parseConfiguredLimits (Some (JObj [(''rpd'', JNum (Fin 450))])) ''limits'' = Inr (Some ?cfg)"
    by (simp add: parseLimitEntry_def Let_def axis_of_name_def CONFIGURED_LIMIT_AXES_def MAX_SAFE_def)
  then show ?thesis using parsed_limits_positive by blast
qed

end
