(* ===== verification/Calendar.thy ===== *)
theory Calendar
  imports Prelude
begin

text \<open>
  The UTC calendar of the language's \<^verbatim>\<open>Date\<close>: years and months of a time value,
  \<^verbatim>\<open>Date.UTC\<close> with its two-digit years and its range, and the proof that the fields of a day
  make the same day again.
\<close>

definition msPerDay :: int where "msPerDay = 86400000"

definition leap_year :: "int \<Rightarrow> bool" where
  "leap_year y \<longleftrightarrow> 4 dvd y \<and> (\<not> 100 dvd y \<or> 400 dvd y)"

definition day_from_year :: "int \<Rightarrow> int" where
  "day_from_year y = 365 * (y - 1970) + (y - 1969) div 4 - (y - 1901) div 100 + (y - 1601) div 400"

text \<open>The year of a day: the Gregorian mean finds it up to one.\<close>

definition year_of_day :: "int \<Rightarrow> int" where
  "year_of_day d =
     (let y = 1970 + (400 * d) div 146097 in
      if day_from_year (y + 1) \<le> d then y + 1 else if d < day_from_year y then y - 1 else y)"

definition month_starts :: "bool \<Rightarrow> int list" where
  "month_starts leap = (let l = (if leap then 1 else 0) in
     [0, 31, 59 + l, 90 + l, 120 + l, 151 + l, 181 + l, 212 + l, 243 + l, 273 + l, 304 + l, 334 + l])"

definition year_length :: "int \<Rightarrow> int" where
  "year_length y = (if leap_year y then 366 else 365)"

definition month_in_year :: "bool \<Rightarrow> int \<Rightarrow> nat" where
  "month_in_year leap n = length (takeWhile (\<lambda>s. s \<le> n) (month_starts leap)) - 1"

text \<open>\<^verbatim>\<open>getUTCFullYear\<close>, \<^verbatim>\<open>getUTCMonth\<close> (from 0) and \<^verbatim>\<open>getUTCDate\<close> of a day number.\<close>

definition civil_of_day :: "int \<Rightarrow> int \<times> int \<times> int" where
  "civil_of_day d =
     (let y = year_of_day d; n = d - day_from_year y; m = month_in_year (leap_year y) n
      in (y, int m, n - month_starts (leap_year y) ! m + 1))"

definition make_day :: "int \<Rightarrow> int \<Rightarrow> int \<Rightarrow> int" where
  "make_day y m d =
     (let ym = y + m div 12; mn = nat (m mod 12)
      in day_from_year ym + month_starts (leap_year ym) ! mn + d - 1)"

definition MAX_TIME :: int where "MAX_TIME = 8640000000000000"

text \<open>\<^verbatim>\<open>new Date(t)\<close>: the integral time value, \<open>None\<close> for an invalid date.\<close>

definition truncate_time :: "rat \<Rightarrow> int" where
  "truncate_time q = (if q < 0 then \<lceil>q\<rceil> else \<lfloor>q\<rfloor>)"

definition date_of :: "rat \<Rightarrow> (int \<times> int \<times> int) option" where
  "date_of q = (if of_int MAX_TIME < \<bar>q\<bar> then None else Some (civil_of_day (truncate_time q div msPerDay)))"

text \<open>\<^verbatim>\<open>Date.UTC(y, m, d)\<close>: a year from 0 to 99 means one of the twentieth century.\<close>

definition date_UTC :: "int \<Rightarrow> int \<Rightarrow> int \<Rightarrow> jsnum" where
  "date_UTC y m d =
     (let year = (if 0 \<le> y \<and> y \<le> 99 then 1900 + y else y);
          t = make_day year m d * msPerDay
      in if MAX_TIME < \<bar>t\<bar> then NaN else Fin (of_int t))"

section \<open>Years\<close>

lemma div_Suc_int: "0 < n \<Longrightarrow> (a + 1) div n = a div n + (if n dvd a + 1 then 1 else 0)" for a n :: int
proof -
  assume n: "0 < n"
  define q r where "q = a div n" and "r = a mod n"
  have a: "a = n * q + r" and r: "0 \<le> r" "r < n" using n by (simp_all add: q_def r_def)
  show ?thesis
  proof (cases "r + 1 = n")
    case True
    then have e: "a + 1 = n * (q + 1)" using a by (simp add: algebra_simps)
    then have "(a + 1) div n = q + 1" using n by simp
    then show ?thesis using e by (simp add: q_def)
  next
    case False
    have e: "a + 1 = n * q + (r + 1)" "0 \<le> r + 1" "r + 1 < n" using a r False by linarith+
    have "(a + 1) div n = q" by (rule int_div_pos_eq [OF e])
    moreover have "(a + 1) mod n = r + 1" by (rule int_mod_pos_eq [OF e])
    ultimately show ?thesis using r(1) by (simp add: q_def dvd_eq_mod_eq_0)
  qed
qed

lemma day_from_next_year: "day_from_year (y + 1) = day_from_year y + year_length y"
proof -
  have shift: "n dvd y - n * c \<longleftrightarrow> n dvd y" for n c :: int
    using dvd_add_times_triv_right_iff [of n "y - n * c" c] by (simp add: mult.commute)
  have four: "(y + 1 - 1969) div 4 = (y - 1969) div 4 + (if 4 dvd y then 1 else 0)"
    using div_Suc_int [of 4 "y - 1969"] shift [of 4 492] by (simp add: algebra_simps)
  have hundred: "(y + 1 - 1901) div 100 = (y - 1901) div 100 + (if 100 dvd y then 1 else 0)"
    using div_Suc_int [of 100 "y - 1901"] shift [of 100 19] by (simp add: algebra_simps)
  have fourhundred: "(y + 1 - 1601) div 400 = (y - 1601) div 400 + (if 400 dvd y then 1 else 0)"
    using div_Suc_int [of 400 "y - 1601"] shift [of 400 4] by (simp add: algebra_simps)
  have "(100::int) dvd 400" "(4::int) dvd 100" by simp_all
  then have imp: "400 dvd y \<Longrightarrow> 100 dvd y" "100 dvd y \<Longrightarrow> 4 dvd y" by (blast intro: dvd_trans)+
  have e: "day_from_year (y + 1) - day_from_year y = 365 + (if 4 dvd y then 1 else 0) - (if 100 dvd y then 1 else 0)
      + (if 400 dvd y then 1 else 0)"
    unfolding day_from_year_def four hundred fourhundred by (simp only: algebra_simps)
  show ?thesis
  proof (cases "100 dvd y")
    case True
    then show ?thesis using e imp by (cases "400 dvd y") (simp_all add: year_length_def leap_year_def)
  next
    case False
    then have "\<not> 400 dvd y" using imp by blast
    then show ?thesis using e False by (simp add: year_length_def leap_year_def split: if_splits)
  qed
qed

lemma year_of_day_bounds: "day_from_year (year_of_day d) \<le> d \<and> d < day_from_year (year_of_day d + 1)"
proof -
  define k where "k = (400 * d) div 146097"
  have bnd: "x div n * n \<le> x \<and> x < (x div n + 1) * n" if n: "0 < n" for x n :: int
  proof -
    have "x div n * n + x mod n = x" by simp
    moreover have "0 \<le> x mod n" "x mod n < n" using n by simp_all
    ultimately show ?thesis by (simp only: distrib_right mult_1) linarith
  qed
  have k: "146097 * k \<le> 400 * d" "400 * d < 146097 * (k + 1)"
    using bnd [of 146097 "400 * d"] by (simp_all add: k_def mult.commute)
  have lo: "day_from_year (1970 + k - 1) \<le> d"
    using k bnd [of 4 "1970 + k - 1 - 1969"] bnd [of 100 "1970 + k - 1 - 1901"] bnd [of 400 "1970 + k - 1 - 1601"]
    unfolding day_from_year_def by (simp add: algebra_simps)
  have hi: "d < day_from_year (1970 + k + 2)"
    using k bnd [of 4 "1970 + k + 2 - 1969"] bnd [of 100 "1970 + k + 2 - 1901"] bnd [of 400 "1970 + k + 2 - 1601"]
    unfolding day_from_year_def by (simp add: algebra_simps)
  show ?thesis
    using lo hi unfolding year_of_day_def Let_def k_def [symmetric] by (auto simp: algebra_simps)
qed

section \<open>Months\<close>

definition month_bounds :: "bool \<Rightarrow> int list" where
  "month_bounds leap = month_starts leap @ [if leap then 366 else 365]"

lemma month_in_year_bounds:
  assumes "0 \<le> n" and "n < (if leap then 366 else 365)"
  shows "month_in_year leap n < 12 \<and> month_bounds leap ! month_in_year leap n \<le> n \<and>
     n < month_bounds leap ! (month_in_year leap n + 1)"
  using assms unfolding month_in_year_def month_bounds_def month_starts_def Let_def
  by (cases leap) (simp_all add: nth_append nth_Cons')

lemma month_bounds_starts: "m < 12 \<Longrightarrow> month_starts leap ! m = month_bounds leap ! m"
  unfolding month_bounds_def by (subst nth_append) (simp add: month_starts_def Let_def)

lemma make_day_first:
  assumes "m \<le> 12"
  shows "make_day y (int m) 1 = day_from_year y + month_bounds (leap_year y) ! m"
proof (cases "m = 12")
  case True
  then show ?thesis
    by (simp add: make_day_def Let_def day_from_next_year year_length_def month_bounds_def month_starts_def)
next
  case False
  then have "m < 12" using assms by simp
  then show ?thesis by (simp add: make_day_def Let_def month_bounds_starts)
qed

lemma civil_of_day_range:
  assumes "civil_of_day d = (y, m, k)"
  shows "y = year_of_day d" "0 \<le> m" "m < 12" "make_day y m k = d" "make_day y m 1 \<le> d" "d < make_day y (m + 1) 1"
proof -
  define n where "n = d - day_from_year (year_of_day d)"
  define mm where "mm = month_in_year (leap_year y) n"
  show y: "y = year_of_day d" using assms by (simp add: civil_of_day_def Let_def)
  have n: "0 \<le> n" "n < (if leap_year y then 366 else 365)"
    using year_of_day_bounds [of d] day_from_next_year [of y] by (auto simp: n_def year_length_def y)
  have mb: "mm < 12" "month_bounds (leap_year y) ! mm \<le> n" "n < month_bounds (leap_year y) ! (mm + 1)"
    using month_in_year_bounds [OF n] by (simp_all add: mm_def)
  have m: "m = int mm" and k: "k = n - month_starts (leap_year y) ! mm + 1"
    using assms y by (simp_all add: civil_of_day_def Let_def n_def mm_def)
  show "0 \<le> m" "m < 12" using mb(1) by (simp_all add: m)
  have f: "make_day y (int mm) 1 = day_from_year y + month_bounds (leap_year y) ! mm"
    "make_day y (int (mm + 1)) 1 = day_from_year y + month_bounds (leap_year y) ! (mm + 1)"
    using mb(1) by (intro make_day_first, simp)+
  have "make_day y m k = make_day y m 1 + k - 1" by (simp add: make_day_def Let_def)
  then show "make_day y m k = d" using f(1) mb(1) by (simp add: m k n_def y month_bounds_starts)
  show "make_day y m 1 \<le> d" using f(1) mb(2) by (simp add: m n_def y)
  show "d < make_day y (m + 1) 1" using f(2) mb(3) by (simp add: m n_def y add.commute)
qed

lemma day_from_year_mono: "a \<le> b \<Longrightarrow> day_from_year a \<le> day_from_year b"
proof (induction "nat (b - a)" arbitrary: b)
  case (Suc n)
  then have "day_from_year a \<le> day_from_year (b - 1)" by simp
  then show ?case using day_from_next_year [of "b - 1"] by (simp add: year_length_def split: if_splits)
qed simp

lemma year_of_day_mono: "d \<le> e \<Longrightarrow> year_of_day d \<le> year_of_day e"
proof (rule ccontr)
  assume le: "d \<le> e" and gt: "\<not> year_of_day d \<le> year_of_day e"
  show False
    using day_from_year_mono [of "year_of_day e + 1" "year_of_day d"] gt le year_of_day_bounds [of d] year_of_day_bounds [of e] by simp
qed

lemma civil_1970: "year_of_day 0 = 1970"
  by (simp add: year_of_day_def day_from_year_def)

end
