(* ===== verification/Availability.thy ===== *)
theory Availability
  imports Rate_Limits Facts Calendar
begin

text \<open>
  What is left of a quota (\<^verbatim>\<open>availability.ts\<close>): the periods of the UTC calendar, which
  observation still speaks for the current period, the ladder of limits, the remaining amount with
  its basis, when it resets. The ledger's reading is an argument.
\<close>

section \<open>Local use\<close>

datatype used_basis = Reported | Estimated | Mixed | RelayCounted

record window_reading =
  wr_requests :: "jsnum option"
  wr_tokens :: "jsnum option"
  wr_basis :: "used_basis option"

record local_used =
  lu_value :: "jsnum option"
  lu_basis :: "used_basis option"

definition projectLocalUsed :: "window_reading option \<Rightarrow> quota_axis \<Rightarrow> local_used" where
  "projectLocalUsed reading axis =
     (case reading of
        None \<Rightarrow> \<lparr>lu_value = None, lu_basis = None\<rparr>
      | Some r \<Rightarrow>
          if axis = Requests then
            \<lparr>lu_value = wr_requests r, lu_basis = (if wr_requests r = None then None else Some RelayCounted)\<rparr>
          else \<lparr>lu_value = wr_tokens r, lu_basis = wr_basis r\<rparr>)"

definition localUsedForPeriod :: "(quota_period \<Rightarrow> window_reading option) \<Rightarrow> quota_period \<Rightarrow> quota_axis \<Rightarrow> local_used" where
  "localUsedForPeriod read_window period axis =
     (if period = UnknownPeriod then \<lparr>lu_value = None, lu_basis = None\<rparr> else projectLocalUsed (read_window period) axis)"

section \<open>Buckets\<close>

record limit_inputs =
  li_configured :: "jsnum option"
  li_learned :: "jsnum option"
  li_published :: "jsnum option"

definition no_limits :: limit_inputs where
  "no_limits = \<lparr>li_configured = None, li_learned = None, li_published = None\<rparr>"

record quota_bucket =
  qb_axis :: quota_axis
  qb_period :: quota_period
  qb_observations :: "quota_observation list"
  qb_limits :: limit_inputs

definition bucketFor :: "quota_axis \<Rightarrow> quota_period \<Rightarrow> (quota_bucket \<Rightarrow> quota_bucket) \<Rightarrow>
    (string, quota_bucket) jmap \<Rightarrow> (string, quota_bucket) jmap" where
  "bucketFor axis period f buckets =
     (let key = bucketKey axis period;
          bucket = (case jm_get buckets key of
              Some b \<Rightarrow> b
            | None \<Rightarrow> \<lparr>qb_axis = axis, qb_period = period, qb_observations = [], qb_limits = no_limits\<rparr>)
      in jm_put key (f bucket) buckets)"

definition add_observation :: "quota_observation \<Rightarrow> (string, quota_bucket) jmap \<Rightarrow> (string, quota_bucket) jmap" where
  "add_observation ob buckets =
     (if q_period ob = UnknownPeriod \<and> (case q_resetsAt ob of None \<Rightarrow> True | Some r \<Rightarrow> \<not> isFinite r) then buckets
      else bucketFor (q_axis ob) (q_period ob) (\<lambda>b. b\<lparr>qb_observations := qb_observations b @ [ob]\<rparr>) buckets)"

record learned_limit =
  ll_axis :: quota_axis
  ll_period :: quota_period
  ll_limit :: jsnum

definition add_learned :: "learned_limit \<Rightarrow> (string, quota_bucket) jmap \<Rightarrow> (string, quota_bucket) jmap" where
  "add_learned l buckets =
     bucketFor (ll_axis l) (ll_period l) (\<lambda>b. b\<lparr>qb_limits := (qb_limits b)\<lparr>li_learned := Some (ll_limit l)\<rparr>\<rparr>) buckets"

definition add_configured :: "axis_values \<Rightarrow> limit_axis \<Rightarrow> (string, quota_bucket) jmap \<Rightarrow> (string, quota_bucket) jmap" where
  "add_configured values axis buckets =
     (case values axis of
        None \<Rightarrow> buckets
      | Some v \<Rightarrow> (case configuredLimitQuotaShape axis of (qa, qp) \<Rightarrow>
          bucketFor qa qp (\<lambda>b. b\<lparr>qb_limits := (qb_limits b)\<lparr>li_configured := Some (Fin (of_int v))\<rparr>\<rparr>) buckets))"

definition collectQuotaBuckets ::
  "quota_observation list \<Rightarrow> learned_limit list \<Rightarrow> axis_values option \<Rightarrow> (string, quota_bucket) jmap" where
  "collectQuotaBuckets observations learned configured =
     (let b1 = fold add_observation observations [];
          b2 = fold add_learned learned b1
      in case configured of None \<Rightarrow> b2 | Some values \<Rightarrow> fold (add_configured values) CONFIGURED_LIMIT_AXES b2)"

section \<open>Periods\<close>

definition MINUTE_MS :: rat where "MINUTE_MS = 60000"
definition DAY_MS :: rat where "DAY_MS = 86400000"

definition periodStart :: "jsnum \<Rightarrow> quota_period \<Rightarrow> jsnum option" where
  "periodStart now period =
     (case now of
        Fin q \<Rightarrow>
          (case period of
             Minute \<Rightarrow> Some (Fin (of_int \<lfloor>q / MINUTE_MS\<rfloor> * MINUTE_MS))
           | Day \<Rightarrow> Some (case date_of q of None \<Rightarrow> NaN | Some (y, m, d) \<Rightarrow> date_UTC y m d)
           | Month \<Rightarrow> Some (case date_of q of None \<Rightarrow> NaN | Some (y, m, d) \<Rightarrow> date_UTC y m 1)
           | UnknownPeriod \<Rightarrow> None)
      | _ \<Rightarrow> None)"

definition periodEnd :: "jsnum \<Rightarrow> quota_period \<Rightarrow> jsnum option" where
  "periodEnd now period =
     (case periodStart now period of
        None \<Rightarrow> None
      | Some start \<Rightarrow>
          (case period of
             Minute \<Rightarrow> Some (start + Fin MINUTE_MS)
           | Day \<Rightarrow> Some (start + Fin DAY_MS)
           | Month \<Rightarrow> Some (case start of
                 Fin s \<Rightarrow> (case date_of s of None \<Rightarrow> NaN | Some (y, m, d) \<Rightarrow> date_UTC y (m + 1) 1)
               | _ \<Rightarrow> NaN)
           | UnknownPeriod \<Rightarrow> None))"

definition withinCurrentPeriod :: "quota_observation \<Rightarrow> jsnum \<Rightarrow> quota_period \<Rightarrow> bool" where
  "withinCurrentPeriod ob now period =
     (if \<not> isFinite (q_observedAt ob) \<or> now < q_observedAt ob then False
      else if period = UnknownPeriod then
        (case q_resetsAt ob of None \<Rightarrow> False | Some r \<Rightarrow> isFinite r \<and> now < r)
      else (case periodStart now period of None \<Rightarrow> False | Some start \<Rightarrow> start \<le> q_observedAt ob))"

definition eligibleObservation ::
  "quota_observation list \<Rightarrow> jsnum \<Rightarrow> quota_axis \<Rightarrow> quota_period \<Rightarrow> quota_observation option \<times> nat" where
  "eligibleObservation obs now axis period =
     (let same = filter (in_bucket axis period) obs in
      (find (\<lambda>ob. withinCurrentPeriod ob now period) same,
       length (filter (\<lambda>ob. \<not> withinCurrentPeriod ob now period) same)))"

section \<open>Remaining\<close>

datatype limit_basis = StatedLimit | ConfiguredLimit | LearnedLimit | PublishedLimit

datatype remaining_basis = StatedRemaining | Derived limit_basis

definition positive_limit :: "jsnum option \<Rightarrow> bool" where
  "positive_limit v = (case v of None \<Rightarrow> False | Some x \<Rightarrow> isFinite x \<and> 0 < x)"

definition declared_limit :: "limit_inputs option \<Rightarrow> (jsnum \<times> limit_basis) option" where
  "declared_limit limits =
     map_option (\<lambda>(v, b). (the v, b)) (find (\<lambda>(v, b). positive_limit v)
       [(Option.bind limits li_configured, ConfiguredLimit), (Option.bind limits li_learned, LearnedLimit),
        (Option.bind limits li_published, PublishedLimit)])"

definition resolveLimit ::
  "quota_observation list \<Rightarrow> quota_axis \<Rightarrow> quota_period \<Rightarrow> limit_inputs option \<Rightarrow> (jsnum \<times> limit_basis) option" where
  "resolveLimit obs axis period limits =
     (case find (in_bucket axis period) obs of
        Some ob \<Rightarrow> if positive_limit (Some (q_limit ob)) then Some (q_limit ob, StatedLimit) else declared_limit limits
      | None \<Rightarrow> declared_limit limits)"

record remaining_resolution =
  rr_remaining :: "jsnum option"
  rr_basis :: "remaining_basis option"
  rr_limit :: "jsnum option"
  rr_limitBasis :: "limit_basis option"
  rr_localUsed :: "jsnum option"
  rr_localUsedBasis :: "used_basis option"
  rr_eligible :: "quota_observation option"
  rr_stale :: nat
  rr_routingEligible :: bool

definition usable_local :: "quota_period \<Rightarrow> local_used \<Rightarrow> jsnum option" where
  "usable_local period used =
     (case lu_value used of Some v \<Rightarrow> if period \<noteq> UnknownPeriod \<and> isFinite v then Some v else None | None \<Rightarrow> None)"

definition resolveRemaining ::
  "quota_observation list \<Rightarrow> quota_axis \<Rightarrow> quota_period \<Rightarrow> limit_inputs option \<Rightarrow> local_used \<Rightarrow> jsnum \<Rightarrow> remaining_resolution" where
  "resolveRemaining obs axis period limits used now =
     (let value = usable_local period used; (eligible, stale) = eligibleObservation obs now axis period in
      case eligible of
        Some ob \<Rightarrow> \<lparr>rr_remaining = Some (q_remaining ob), rr_basis = Some StatedRemaining, rr_limit = Some (q_limit ob),
          rr_limitBasis = Some StatedLimit, rr_localUsed = value, rr_localUsedBasis = lu_basis used,
          rr_eligible = Some ob, rr_stale = stale, rr_routingEligible = True\<rparr>
      | None \<Rightarrow>
          (case (resolveLimit obs axis period limits, value) of
             (Some (limit, basis), Some v) \<Rightarrow> \<lparr>rr_remaining = Some (limit - v), rr_basis = Some (Derived basis),
               rr_limit = Some limit, rr_limitBasis = Some basis, rr_localUsed = value, rr_localUsedBasis = lu_basis used,
               rr_eligible = None, rr_stale = stale,
               rr_routingEligible = (basis = ConfiguredLimit \<or> basis = StatedLimit)\<rparr>
           | (limit, _) \<Rightarrow> \<lparr>rr_remaining = None, rr_basis = None, rr_limit = map_option fst limit,
               rr_limitBasis = map_option snd limit, rr_localUsed = value, rr_localUsedBasis = lu_basis used,
               rr_eligible = None, rr_stale = stale, rr_routingEligible = False\<rparr>))"

section \<open>Resets\<close>

datatype resets_basis = StatedReset | ReviewedReset | DerivedBoundary

definition rule_or_boundary :: "jsnum option \<Rightarrow> quota_period \<Rightarrow> jsnum \<Rightarrow> (jsnum \<times> resets_basis) option" where
  "rule_or_boundary reviewedRule period now =
     (if (case reviewedRule of None \<Rightarrow> False | Some v \<Rightarrow> isFinite v) then Some (the reviewedRule, ReviewedReset)
      else map_option (\<lambda>e. (e, DerivedBoundary)) (periodEnd now period))"

definition resolveResetsAt ::
  "jsnum option \<Rightarrow> jsnum option \<Rightarrow> quota_period \<Rightarrow> jsnum \<Rightarrow> (jsnum \<times> resets_basis) option" where
  "resolveResetsAt providerStated reviewedRule period now =
     (case providerStated of
        Some r \<Rightarrow> if isFinite r \<and> now < r then Some (r, StatedReset) else rule_or_boundary reviewedRule period now
      | None \<Rightarrow> rule_or_boundary reviewedRule period now)"

text \<open>The first usable fact of each rung.\<close>

definition fact_resets :: "rat \<Rightarrow> fact_hit list \<Rightarrow> basis_rung \<Rightarrow> rat option" where
  "fact_resets now facts rung =
     map_option fh_until (find (\<lambda>f. QUOTA_RESET_FACT_KINDS (fh_kind f) \<and> now < fh_until f \<and>
       map_option FACT_RESET_BASIS_RUNG (fh_untilBasis f) = Some rung) facts)"

definition factResetInputs ::
  "fact_hit list \<Rightarrow> jsnum option \<Rightarrow> jsnum option \<Rightarrow> rat \<Rightarrow> jsnum option \<times> jsnum option" where
  "factResetInputs facts observationReset remaining now =
     (let spent = (case remaining of None \<Rightarrow> False | Some r \<Rightarrow> r \<le> 0) in
      if \<not> spent \<or> observationReset \<noteq> None then (observationReset, None)
      else (map_option Fin (fact_resets now facts StatedRung), map_option Fin (fact_resets now facts ReviewedRung)))"

section \<open>Wire names\<close>

fun mapLimitBasis :: "limit_basis option \<Rightarrow> string option" where
  "mapLimitBasis None = None"
| "mapLimitBasis (Some StatedLimit) = Some ''provider_stated''"
| "mapLimitBasis (Some ConfiguredLimit) = Some ''configured''"
| "mapLimitBasis (Some LearnedLimit) = Some ''learned''"
| "mapLimitBasis (Some PublishedLimit) = Some ''published''"

fun mapRemainingBasis :: "remaining_basis option \<Rightarrow> string option" where
  "mapRemainingBasis None = None"
| "mapRemainingBasis (Some StatedRemaining) = Some ''provider_stated''"
| "mapRemainingBasis (Some (Derived StatedLimit)) = Some ''derived_provider_stated''"
| "mapRemainingBasis (Some (Derived ConfiguredLimit)) = Some ''derived_configured''"
| "mapRemainingBasis (Some (Derived PublishedLimit)) = Some ''derived_published''"
| "mapRemainingBasis (Some (Derived LearnedLimit)) = Some ''derived_learned''"

fun mapLocalUsedBasis :: "used_basis option \<Rightarrow> string option" where
  "mapLocalUsedBasis None = None"
| "mapLocalUsedBasis (Some Reported) = Some ''reported''"
| "mapLocalUsedBasis (Some Estimated) = Some ''estimated''"
| "mapLocalUsedBasis (Some Mixed) = Some ''mixed''"
| "mapLocalUsedBasis (Some RelayCounted) = Some ''relay_counted''"

fun mapResetsAtBasis :: "resets_basis option \<Rightarrow> string option" where
  "mapResetsAtBasis None = None"
| "mapResetsAtBasis (Some StatedReset) = Some ''provider_stated''"
| "mapResetsAtBasis (Some ReviewedReset) = Some ''reviewed_rule''"
| "mapResetsAtBasis (Some DerivedBoundary) = Some ''derived_boundary''"

section \<open>The periods partition time\<close>

lemma year_unique:
  assumes "day_from_year y \<le> d" and "d < day_from_year (y + 1)"
  shows "year_of_day d = y"
proof -
  have mono: "day_from_year a \<le> day_from_year b" if "a \<le> b" for a b using day_from_year_mono that .
  show ?thesis
    using year_of_day_bounds [of d] assms mono [of "y + 1" "year_of_day d"] mono [of "year_of_day d + 1" y] by linarith
qed

lemma month_unique:
  assumes "m < 12" and "month_bounds leap ! m \<le> n" and "n < month_bounds leap ! (m + 1)"
  shows "month_in_year leap n = m"
proof -
  have "m \<in> set [0..<12]" using assms(1) by simp
  then have "m \<in> {0, 1, 2, 3, 4, 5, 6, 7, 8, 9, 10, 11}" by (simp add: upt_rec numeral_eq_Suc)
  then show ?thesis using assms(2,3)
    unfolding month_in_year_def month_bounds_def month_starts_def Let_def
    by (cases leap) (elim insertE emptyE; simp add: nth_append nth_Cons')+
qed

lemma month_bounds_le: "m \<le> 12 \<Longrightarrow> 0 \<le> month_bounds leap ! m \<and> month_bounds leap ! m \<le> (if leap then 366 else 365)"
proof -
  assume "m \<le> 12"
  then have "m \<in> set [0..<13]" by simp
  then have "m \<in> {0, 1, 2, 3, 4, 5, 6, 7, 8, 9, 10, 11, 12}" by (simp add: upt_rec numeral_eq_Suc)
  then show ?thesis
    unfolding month_bounds_def month_starts_def Let_def
    by (cases leap) (elim insertE emptyE; simp add: nth_append nth_Cons')+
qed

lemma civil_unique:
  assumes "0 \<le> m" and "m < 12" and "make_day y m 1 \<le> d" and "d < make_day y (m + 1) 1"
  shows "\<exists>k. civil_of_day d = (y, m, k)"
proof -
  define mm where "mm = nat m"
  have mm: "m = int mm" "mm < 12" using assms(1,2) by (simp_all add: mm_def)
  have b: "make_day y m 1 = day_from_year y + month_bounds (leap_year y) ! mm"
    "make_day y (m + 1) 1 = day_from_year y + month_bounds (leap_year y) ! (mm + 1)"
    using make_day_first [of mm y] make_day_first [of "mm + 1" y] mm by (simp_all add: add.commute)
  have l: "0 \<le> month_bounds (leap_year y) ! mm" "month_bounds (leap_year y) ! (mm + 1) \<le> year_length y"
    using month_bounds_le [of mm "leap_year y"] month_bounds_le [of "mm + 1" "leap_year y"] mm by (simp_all add: year_length_def)
  have y: "year_of_day d = y"
    by (rule year_unique) (use assms(3,4) b l day_from_next_year [of y] in linarith)+
  have "month_in_year (leap_year y) (d - day_from_year y) = mm"
    by (rule month_unique) (use mm assms(3,4) b in simp_all)
  then show ?thesis by (simp add: civil_of_day_def Let_def y mm)
qed

lemma civil_bounds:
  assumes "civil_of_day d = (y, m, k)" and "0 \<le> d"
  shows "1970 \<le> y" "0 \<le> make_day y m 1" "make_day y (m + 1) 1 \<le> d + 366"
proof -
  note c = civil_of_day_range [OF assms(1)]
  show y: "1970 \<le> y" using year_of_day_mono [OF assms(2)] c(1) civil_1970 by simp
  define mm where "mm = nat m"
  have mm: "m = int mm" "mm < 12" using c(2,3) by (simp_all add: mm_def)
  have b: "make_day y m 1 = day_from_year y + month_bounds (leap_year y) ! mm"
    "make_day y (m + 1) 1 = day_from_year y + month_bounds (leap_year y) ! (mm + 1)"
    using make_day_first [of mm y] make_day_first [of "mm + 1" y] mm by (simp_all add: add.commute)
  have l: "0 \<le> month_bounds (leap_year y) ! mm" "month_bounds (leap_year y) ! (mm + 1) \<le> 366"
    using month_bounds_le [of mm "leap_year y"] month_bounds_le [of "mm + 1" "leap_year y"] mm by (auto split: if_splits)
  have "0 \<le> day_from_year y" using day_from_year_mono [OF y] by (simp add: day_from_year_def)
  then show "0 \<le> make_day y m 1" using b(1) l(1) by simp
  show "make_day y (m + 1) 1 \<le> d + 366" using b(2) l(2) year_of_day_bounds [of d] c(1) by simp
qed

text \<open>Times the calendar handles in both directions: from the epoch to a year before the end of time.\<close>

definition in_calendar :: "rat \<Rightarrow> bool" where
  "in_calendar q \<longleftrightarrow> 0 \<le> q \<and> q \<le> of_int (MAX_TIME - 367 * msPerDay)"

definition day_of :: "rat \<Rightarrow> int" where
  "day_of q = \<lfloor>q\<rfloor> div msPerDay"

lemma day_of_bounds: "of_int (day_of q * msPerDay) \<le> q \<and> q < of_int ((day_of q + 1) * msPerDay)"
proof -
  have "day_of q * msPerDay \<le> \<lfloor>q\<rfloor>" "\<lfloor>q\<rfloor> < (day_of q + 1) * msPerDay"
    by (simp_all add: day_of_def msPerDay_def)
  then show ?thesis by (simp only: le_floor_iff floor_less_iff) 
qed

lemma day_of_unique: "of_int (d * msPerDay) \<le> q \<Longrightarrow> q < of_int ((d + 1) * msPerDay) \<Longrightarrow> day_of q = d"
proof -
  assume a: "of_int (d * msPerDay) \<le> q" "q < of_int ((d + 1) * msPerDay)"
  then have "d * msPerDay \<le> \<lfloor>q\<rfloor>" "\<lfloor>q\<rfloor> < (d + 1) * msPerDay"
    by (simp_all only: le_floor_iff floor_less_iff)
  then show ?thesis unfolding day_of_def msPerDay_def
    by (intro int_div_pos_eq [of _ _ _ "\<lfloor>q\<rfloor> - 86400000 * d"]) (simp_all add: algebra_simps)
qed

lemma in_calendar_day:
  assumes "in_calendar q"
  shows "date_of q = Some (civil_of_day (day_of q))" "0 \<le> day_of q" "(day_of q + 367) * msPerDay \<le> MAX_TIME"
proof -
  have q: "0 \<le> q" "q \<le> of_int (MAX_TIME - 367 * msPerDay)" using assms by (simp_all add: in_calendar_def)
  have "q \<le> of_int MAX_TIME" using q(2) by (simp add: msPerDay_def)
  then show "date_of q = Some (civil_of_day (day_of q))" using q(1)
    by (simp add: date_of_def day_of_def truncate_time_def)
  show "0 \<le> day_of q" using q(1) by (simp add: day_of_def msPerDay_def pos_imp_zdiv_nonneg_iff)
  have "\<lfloor>q\<rfloor> \<le> MAX_TIME - 367 * msPerDay" using q(2) by (metis floor_mono floor_of_int)
  moreover have "day_of q * msPerDay \<le> \<lfloor>q\<rfloor>" using day_of_bounds [of q] by (simp add: le_floor_iff)
  ultimately show "(day_of q + 367) * msPerDay \<le> MAX_TIME" by (simp add: algebra_simps)
qed

lemma date_UTC_first:
  assumes "1970 \<le> y" and "0 \<le> make_day y m d" and "make_day y m d * msPerDay \<le> MAX_TIME"
  shows "date_UTC y m d = Fin (of_int (make_day y m d * msPerDay))"
  using assms by (simp add: date_UTC_def Let_def msPerDay_def)

lemma day_period:
  assumes "in_calendar q"
  shows "periodStart (Fin q) Day = Some (Fin (of_int (day_of q * msPerDay)))"
    and "periodEnd (Fin q) Day = Some (Fin (of_int ((day_of q + 1) * msPerDay)))"
proof -
  note d = in_calendar_day [OF assms]
  obtain y m k where c: "civil_of_day (day_of q) = (y, m, k)" by (metis surj_pair)
  have "date_UTC y m k = Fin (of_int (day_of q * msPerDay))"
    using date_UTC_first [of y m k] civil_bounds(1) [OF c d(2)] civil_of_day_range(4) [OF c] d(2,3)
    by (simp add: msPerDay_def)
  then show s: "periodStart (Fin q) Day = Some (Fin (of_int (day_of q * msPerDay)))"
    by (simp add: periodStart_def d(1) c)
  show "periodEnd (Fin q) Day = Some (Fin (of_int ((day_of q + 1) * msPerDay)))"
    by (simp add: periodEnd_def s DAY_MS_def msPerDay_def algebra_simps)
qed

lemma month_period:
  assumes "in_calendar q" and "civil_of_day (day_of q) = (y, m, k)"
  shows "periodStart (Fin q) Month = Some (Fin (of_int (make_day y m 1 * msPerDay)))"
    and "periodEnd (Fin q) Month = Some (Fin (of_int (make_day y (m + 1) 1 * msPerDay)))"
proof -
  note d = in_calendar_day [OF assms(1)] and r = civil_of_day_range [OF assms(2)]
  note b = civil_bounds [OF assms(2) d(2)]
  let ?s = "make_day y m 1" and ?e = "make_day y (m + 1) 1"
  have le: "?s * msPerDay \<le> MAX_TIME" "?e * msPerDay \<le> MAX_TIME" "0 \<le> ?e"
    using r(5,6) b(2,3) d(3) by (simp_all add: msPerDay_def)
  have s: "date_UTC y m 1 = Fin (of_int (?s * msPerDay))" "date_UTC y (m + 1) 1 = Fin (of_int (?e * msPerDay))"
    using date_UTC_first b(1,2) le by blast+
  then show p: "periodStart (Fin q) Month = Some (Fin (of_int (?s * msPerDay)))"
    by (simp add: periodStart_def d(1) assms(2))
  have sc: "in_calendar (of_int (?s * msPerDay))"
    using b(2) r(5) d(3) unfolding in_calendar_def of_int_le_iff by (simp add: msPerDay_def algebra_simps flip: of_int_mult)
  have sd: "day_of (of_int (?s * msPerDay)) = ?s" by (rule day_of_unique) (simp_all add: msPerDay_def)
  obtain k' where "civil_of_day ?s = (y, m, k')"
    using civil_unique [OF r(2,3), of y ?s] r(5,6) by auto
  then have "date_of (of_int (?s * msPerDay)) = Some (y, m, k')"
    using in_calendar_day(1) [OF sc] sd by simp
  then show "periodEnd (Fin q) Month = Some (Fin (of_int (?e * msPerDay)))"
    by (simp add: periodEnd_def p s(2) del: of_int_mult)
qed

lemma period_cases:
  assumes "in_calendar q" and "p \<noteq> UnknownPeriod"
  shows "\<exists>s e. periodStart (Fin q) p = Some (Fin s) \<and> periodEnd (Fin q) p = Some (Fin e) \<and> s \<le> q \<and> q < e \<and>
     (\<forall>t. in_calendar t \<longrightarrow> s \<le> t \<longrightarrow> t < e \<longrightarrow> periodStart (Fin t) p = Some (Fin s))"
proof (cases p)
  case Minute
  have "\<lfloor>t / 60000\<rfloor> = \<lfloor>q / 60000\<rfloor>" if "of_int \<lfloor>q / 60000\<rfloor> * 60000 \<le> t" "t < of_int \<lfloor>q / 60000\<rfloor> * 60000 + 60000" for t
    using that by (intro floor_unique) (simp_all add: field_simps)
  moreover have "of_int \<lfloor>q / 60000\<rfloor> * 60000 \<le> q" "q < of_int \<lfloor>q / 60000\<rfloor> * 60000 + 60000"
    using floor_correct [of "q / 60000"] by (simp_all add: field_simps)
  ultimately show ?thesis by (auto simp: Minute periodStart_def periodEnd_def MINUTE_MS_def)
next
  case Day
  have same: "periodStart (Fin t) Day = Some (Fin (of_int (day_of q * msPerDay)))"
    if "in_calendar t" "of_int (day_of q * msPerDay) \<le> t" "t < of_int ((day_of q + 1) * msPerDay)" for t
    using day_period(1) [OF that(1)] day_of_unique [OF that(2,3)] by simp
  show ?thesis using day_of_bounds [of q] day_period [OF assms(1)] same unfolding Day by blast
next
  case Month
  obtain y m k where c: "civil_of_day (day_of q) = (y, m, k)" by (metis surj_pair)
  note r = civil_of_day_range [OF c] and mp = month_period [OF assms(1) c]
  let ?s = "make_day y m 1 * msPerDay" and ?e = "make_day y (m + 1) 1 * msPerDay"
  have pos: "0 < msPerDay" by (simp add: msPerDay_def)
  have le: "of_int ?s \<le> q" "q < of_int ?e"
  proof -
    have "?s \<le> day_of q * msPerDay" "(day_of q + 1) * msPerDay \<le> ?e" using r(5,6) pos by (simp_all add: mult_right_mono)
    then have "(of_int ?s :: rat) \<le> of_int (day_of q * msPerDay)" "(of_int ((day_of q + 1) * msPerDay) :: rat) \<le> of_int ?e"
      by (simp_all only: of_int_le_iff)
    then show "of_int ?s \<le> q" "q < of_int ?e" using day_of_bounds [of q] by (auto intro: order_trans order_less_le_trans)
  qed
  have same: "periodStart (Fin t) Month = Some (Fin (of_int ?s))"
    if t: "in_calendar t" "of_int ?s \<le> t" "t < of_int ?e" for t
  proof -
    have "(of_int ?s :: rat) < of_int ((day_of t + 1) * msPerDay)" "(of_int (day_of t * msPerDay) :: rat) < of_int ?e"
      using t day_of_bounds [of t] by (auto intro: order_le_less_trans)
    then have "?s < (day_of t + 1) * msPerDay" "day_of t * msPerDay < ?e" by (simp_all only: of_int_less_iff)
    then have "make_day y m 1 \<le> day_of t" "day_of t < make_day y (m + 1) 1" using pos by simp_all
    from civil_unique [OF r(2,3) this] obtain k' where "civil_of_day (day_of t) = (y, m, k')" by blast
    from month_period(1) [OF t(1) this] show ?thesis .
  qed
  show ?thesis using mp le same unfolding Month by blast
qed (use assms in simp)

lemma period_partition_end:
  "in_calendar q \<Longrightarrow> p \<noteq> UnknownPeriod \<Longrightarrow>
     \<exists>s e. periodStart (Fin q) p = Some (Fin s) \<and> periodEnd (Fin q) p = Some (Fin e) \<and> q < e"
  using period_cases by blast

text \<open>A minute, day or month period holds the time it is taken at, and it is the same period for every
  time inside it: its start is not after the time, its end is after it, and any time from its start to
  before its end has the same start.\<close>

theorem period_partition:
  assumes "in_calendar q" and "p \<noteq> UnknownPeriod"
  shows "\<exists>s e. periodStart (Fin q) p = Some (Fin s) \<and> periodEnd (Fin q) p = Some (Fin e) \<and> s \<le> q \<and> q < e \<and>
     (\<forall>t. in_calendar t \<longrightarrow> s \<le> t \<longrightarrow> t < e \<longrightarrow> periodStart (Fin t) p = Some (Fin s))"
  using period_cases [OF assms] .

theorem period_partition_witness:
  "\<exists>s e. periodStart (Fin 1700000000000) Month = Some (Fin s) \<and> periodEnd (Fin 1700000000000) Month = Some (Fin e) \<and>
     s \<le> 1700000000000 \<and> 1700000000000 < e"
  using period_partition [of 1700000000000 Month]
  by (auto simp: in_calendar_def MAX_TIME_def msPerDay_def)

text \<open>A provider's statement counts for a minute, day or month exactly when it was observed in the period of
  now: not in an earlier period, not in the future.\<close>

theorem observation_counts_in_its_period:
  assumes "in_calendar now" and "in_calendar x" and "q_observedAt ob = Fin x" and "p \<noteq> UnknownPeriod"
  shows "withinCurrentPeriod ob (Fin now) p = (x \<le> now \<and> periodStart (Fin x) p = periodStart (Fin now) p)"
proof -
  obtain s e where n: "periodStart (Fin now) p = Some (Fin s)" "s \<le> now" "now < e"
    "\<And>t. in_calendar t \<Longrightarrow> s \<le> t \<Longrightarrow> t < e \<Longrightarrow> periodStart (Fin t) p = Some (Fin s)"
    using period_cases [OF assms(1,4)] by blast
  obtain s' where x: "periodStart (Fin x) p = Some (Fin s')" "s' \<le> x"
    using period_cases [OF assms(2,4)] by blast
  show ?thesis using n x assms(2-4)
    by (auto simp: withinCurrentPeriod_def not_less)
qed

theorem observation_counts_in_its_period_witness:
  "withinCurrentPeriod \<lparr>q_axis = Requests, q_period = Day, q_limit = Fin 10, q_remaining = Fin 0, q_resetsAt = None,
     q_observedAt = Fin 86399999\<rparr> (Fin 86400000) Day = False"
proof -
  have c: "in_calendar 86400000" "in_calendar 86399999" by (simp_all add: in_calendar_def MAX_TIME_def msPerDay_def)
  have "day_of 86400000 = 1" "day_of 86399999 = 0" by (simp_all add: day_of_def msPerDay_def)
  then have "periodStart (Fin 86399999) Day \<noteq> periodStart (Fin 86400000) Day"
    using day_period(1) [OF c(1)] day_period(1) [OF c(2)] by (simp add: msPerDay_def)
  then show ?thesis
    using observation_counts_in_its_period [OF c, of "\<lparr>q_axis = Requests, q_period = Day, q_limit = Fin 10, q_remaining = Fin 0,
      q_resetsAt = None, q_observedAt = Fin 86399999\<rparr>" Day]
    by simp
qed

text \<open>What routing may act on is either what the provider stated in the current period, or the difference
  between a limit the operator configured or the provider stated and what the ledger measured - never an
  amount derived from a learned or a published limit, and never with an unknown usage.\<close>

theorem routing_remaining_grounded:
  assumes "r = resolveRemaining obs axis period limits used now" and "rr_routingEligible r"
  shows "(\<exists>ob \<in> set obs. in_bucket axis period ob \<and> withinCurrentPeriod ob now period \<and> rr_remaining r = Some (q_remaining ob)) \<or>
     (\<exists>l v. (resolveLimit obs axis period limits = Some (l, ConfiguredLimit) \<or> resolveLimit obs axis period limits = Some (l, StatedLimit)) \<and>
        lu_value used = Some v \<and> isFinite v \<and> period \<noteq> UnknownPeriod \<and> rr_remaining r = Some (l - v))"
proof (cases "fst (eligibleObservation obs now axis period)")
  case (Some ob)
  then have "ob \<in> set obs \<and> in_bucket axis period ob \<and> withinCurrentPeriod ob now period"
    by (auto simp: eligibleObservation_def Let_def find_Some_iff) (metis nth_mem mem_Collect_eq set_filter)+
  then show ?thesis using Some assms by (auto simp: resolveRemaining_def Let_def case_prod_unfold)
next
  case None
  then show ?thesis using assms
    by (auto simp: resolveRemaining_def Let_def case_prod_unfold usable_local_def split: option.splits if_splits)
qed

definition ex_observation :: quota_observation where
  "ex_observation = \<lparr>q_axis = Requests, q_period = Minute, q_limit = Fin 10, q_remaining = Fin 3, q_resetsAt = None,
     q_observedAt = Fin 60000\<rparr>"

theorem routing_remaining_grounded_witness:
  "rr_routingEligible (resolveRemaining [ex_observation] Requests Minute None \<lparr>lu_value = None, lu_basis = None\<rparr> (Fin 60000)) \<and>
     rr_remaining (resolveRemaining [ex_observation] Requests Minute None \<lparr>lu_value = None, lu_basis = None\<rparr> (Fin 60000)) = Some (Fin 3)"
proof -
  let ?r = "resolveRemaining [ex_observation] Requests Minute None \<lparr>lu_value = None, lu_basis = None\<rparr> (Fin 60000)"
  have w: "withinCurrentPeriod ex_observation (Fin 60000) Minute"
    by (simp add: withinCurrentPeriod_def ex_observation_def periodStart_def MINUTE_MS_def)
  then have "eligibleObservation [ex_observation] (Fin 60000) Requests Minute = (Some ex_observation, 0)"
    by (simp add: eligibleObservation_def in_bucket_def ex_observation_def)
  then have e: "rr_routingEligible ?r" by (simp add: resolveRemaining_def Let_def)
  then show ?thesis using routing_remaining_grounded [OF refl e] by (auto simp: ex_observation_def)
qed

end
