(* ===== verification/Demotion.thy ===== *)
theory Demotion
  imports Fleet Availability
begin

text \<open>
  The terms that move a candidate back or refuse it: learned rate limits (\<^verbatim>\<open>rate-limits.ts\<close>), the
  spent-quota demotion (\<^verbatim>\<open>quota-demotion.ts\<close>), the latency demotion (\<^verbatim>\<open>latency-demotion.ts\<close>), pacing
  against the relay's own attempt log (\<^verbatim>\<open>pacing.ts\<close>), the operator's hard caps (\<^verbatim>\<open>hard-cap.ts\<close>). The
  accounting ledger's window read and the ping reader are arguments. The text patterns that read a
  limit out of an error body, and the labels, are not modelled.
\<close>

section \<open>Learned rate limits\<close>

record stated_rate_limit =
  srl_axis :: quota_axis
  srl_period :: quota_period
  srl_limit :: jsnum
  srl_accountWording :: bool

definition credible :: "quota_axis \<Rightarrow> jsnum \<Rightarrow> bool" where
  "credible axis n = (isFinite n \<and> 0 < n \<and> n \<le> (if axis = Requests then Fin 1000000 else Fin 100000000))"

text \<open>The stated periods are minute and day only.\<close>

definition rateLimitFactKind :: "quota_axis \<Rightarrow> quota_period \<Rightarrow> fact_kind" where
  "rateLimitFactKind axis period =
     (if axis = Requests then if period = Minute then RateLimitRpm else RateLimitRpd
      else if period = Minute then RateLimitTpm else RateLimitTpd)"

fun rateLimitAxisOf :: "fact_kind \<Rightarrow> (quota_axis \<times> quota_period) option" where
  "rateLimitAxisOf RateLimitRpm = Some (Requests, Minute)"
| "rateLimitAxisOf RateLimitRpd = Some (Requests, Day)"
| "rateLimitAxisOf RateLimitTpm = Some (Tokens, Minute)"
| "rateLimitAxisOf RateLimitTpd = Some (Tokens, Day)"
| "rateLimitAxisOf k = None"

definition observed_scope :: "string \<Rightarrow> string option \<Rightarrow> string \<Rightarrow> bool \<Rightarrow> fact_scope" where
  "observed_scope provider cred model account =
     (case cred of
        None \<Rightarrow> DeploymentScope provider model
      | Some c \<Rightarrow> if account then CredentialScope provider c else AttemptScope provider c model)"

definition recordObservedRateLimit ::
  "string \<Rightarrow> string option \<Rightarrow> string \<Rightarrow> stated_rate_limit list \<Rightarrow> jsnum \<Rightarrow> fact_store \<Rightarrow> fact_store" where
  "recordObservedRateLimit provider cred model stated now st =
     fold (\<lambda>e st. if \<not> credible (srl_axis e) (srl_limit e) then st
        else recordFact (rateLimitFactKind (srl_axis e) (srl_period e)) (observed_scope provider cred model (srl_accountWording e))
          \<lparr>ro_now = now, ro_retryAfterMs = None, ro_untilBasis = None, ro_value = Some (srl_limit e), ro_costClasses = None\<rparr> st)
       stated st"

definition learned_of_hit :: "fact_hit \<Rightarrow> learned_limit option" where
  "learned_of_hit h =
     (case (rateLimitAxisOf (fh_kind h), fh_value h) of
        (Some (axis, period), Some v) \<Rightarrow> Some \<lparr>ll_axis = axis, ll_period = period, ll_limit = Fin v\<rparr>
      | _ \<Rightarrow> None)"

definition observedRateLimits :: "fact_store \<Rightarrow> string \<Rightarrow> string option \<Rightarrow> string \<Rightarrow> rat \<Rightarrow> learned_limit list" where
  "observedRateLimits st provider cred model now = List.map_filter learned_of_hit (factsFor st provider cred (Some model) now None)"

section \<open>The spent-quota demotion\<close>

record quota_settings =
  qs_enforce :: "bool option"
  qs_enforceLearned :: "bool option"

record quota_demotion =
  qd_axis :: quota_axis
  qd_period :: quota_period
  qd_remaining :: jsnum
  qd_basis :: "remaining_basis option"
  qd_resetsAt :: jsnum
  qd_resetsAtBasis :: resets_basis

type_synonym ledger = "string \<Rightarrow> string option \<Rightarrow> quota_period \<Rightarrow> rat \<Rightarrow> window_reading option"

definition attempt_label :: "resolved_attempt \<Rightarrow> string option" where
  "attempt_label a = map_option snd (parseCredentialId (ra_credentialId a))"

definition cell_observations :: "breaker \<Rightarrow> provider_target \<Rightarrow> quota_observation list" where
  "cell_observations b t = (case getState b t of None \<Rightarrow> [] | Some s \<Rightarrow> quotaObservations s)"

definition sorted_buckets :: "(string, quota_bucket) jmap \<Rightarrow> quota_bucket list" where
  "sorted_buckets m = js_sort (\<lambda>a b. bucketRank (qb_axis a) (qb_period a) \<le> bucketRank (qb_axis b) (qb_period b)) (map snd m)"

text \<open>What one bucket says: a demotion when it is spent on grounds routing may act on and has a known end.\<close>

definition bucket_demotion :: "(quota_period \<Rightarrow> window_reading option) \<Rightarrow> rat \<Rightarrow> quota_bucket \<Rightarrow> quota_demotion option" where
  "bucket_demotion read_window now bucket =
     (let limits = (if li_configured (qb_limits bucket) \<noteq> None \<or> li_learned (qb_limits bucket) \<noteq> None
                    then Some (qb_limits bucket) else None);
          r = resolveRemaining (qb_observations bucket) (qb_axis bucket) (qb_period bucket) limits
                (localUsedForPeriod read_window (qb_period bucket) (qb_axis bucket)) (Fin now)
      in case rr_remaining r of
           None \<Rightarrow> None
         | Some remaining \<Rightarrow>
             if 0 < remaining then None
             else if \<not> (rr_routingEligible r \<or> rr_basis r = Some (Derived LearnedLimit)) then None
             else (case resolveResetsAt (Option.bind (rr_eligible r) q_resetsAt) None (qb_period bucket) (Fin now) of
                 None \<Rightarrow> None
               | Some (resetsAt, basis) \<Rightarrow> Some \<lparr>qd_axis = qb_axis bucket, qd_period = qb_period bucket,
                   qd_remaining = remaining, qd_basis = rr_basis r, qd_resetsAt = resetsAt, qd_resetsAtBasis = basis\<rparr>))"

definition soonest :: "quota_demotion option \<Rightarrow> quota_demotion option \<Rightarrow> quota_demotion option" where
  "soonest best d =
     (case d of
        None \<Rightarrow> best
      | Some x \<Rightarrow> (case best of None \<Rightarrow> Some x | Some y \<Rightarrow> if qd_resetsAt x < qd_resetsAt y then Some x else Some y))"

definition resolveQuotaDemotion ::
  "quota_settings option \<Rightarrow> limits_cfg \<Rightarrow> breaker \<Rightarrow> fact_store \<Rightarrow> ledger option \<Rightarrow> resolved_attempt \<Rightarrow> rat \<Rightarrow> quota_demotion option" where
  "resolveQuotaDemotion settings cfg b facts accounting a now =
     (if (case settings of Some s \<Rightarrow> qs_enforce s = Some False | None \<Rightarrow> False) then None
      else
        let target = ra_target a; model = rt_model target;
            enforceLearned = (case settings of Some s \<Rightarrow> qs_enforceLearned s = Some True | None \<Rightarrow> False);
            observations = cell_observations b (target_identity a);
            configured = resolveConfiguredLimits cfg (rt_provider target) (attempt_label a) model;
            learned = (case model of
                Some m \<Rightarrow> if enforceLearned then observedRateLimits facts (rt_provider target) (Some (ra_credentialId a)) m now else []
              | None \<Rightarrow> []);
            buckets = sorted_buckets (collectQuotaBuckets observations learned (map_option cl_values configured));
            read_window = (\<lambda>period. case accounting of None \<Rightarrow> None | Some read_ledger \<Rightarrow> read_ledger (ra_credentialId a) model period now)
        in fold (\<lambda>bucket best. soonest best (bucket_demotion read_window now bucket)) buckets None)"

section \<open>The latency demotion\<close>

record latency_settings =
  ls_enabled :: "bool option"
  ls_p95Ms :: "rat option"
  ls_msPerToken :: "rat option"
  ls_minSamples :: "nat option"

datatype latency_basis = PerToken | Absolute

record latency_demotion =
  ld_basis :: latency_basis
  ld_measured :: jsnum
  ld_threshold :: rat
  ld_samples :: nat

definition resolveLatencyDemotion ::
  "(string \<Rightarrow> string \<Rightarrow> ping list) \<Rightarrow> latency_settings option \<Rightarrow> resolved_attempt \<Rightarrow> latency_demotion option" where
  "resolveLatencyDemotion readPings settings a =
     (let enabled = or_default True (Option.bind settings ls_enabled);
          p95Ms = or_default 30000 (Option.bind settings ls_p95Ms);
          msPerToken = or_default 250 (Option.bind settings ls_msPerToken);
          minSamples = or_default 5 (Option.bind settings ls_minSamples);
          model = (case rt_model (ra_target a) of None \<Rightarrow> [] | Some m \<Rightarrow> m)
      in if \<not> enabled \<or> model = [] then None
         else
           let samples = readPings (rt_provider (ra_target a)) model;
               perTokenSamples = countMsPerTokenSamples samples;
               rate = getP95MsPerToken samples
           in if minSamples \<le> perTokenSamples \<and> isFinite rate then
                (if Fin msPerToken < rate then
                   Some \<lparr>ld_basis = PerToken, ld_measured = rate, ld_threshold = msPerToken, ld_samples = perTokenSamples\<rparr>
                 else None)
              else
                let probes = filter (\<lambda>p. p_source p \<noteq> Some Request) samples;
                    absoluteSamples = length (filter measurable probes);
                    p95 = getP95 probes
                in if absoluteSamples < minSamples \<or> \<not> isFinite p95 \<or> p95 \<le> Fin p95Ms then None
                   else Some \<lparr>ld_basis = Absolute, ld_measured = p95, ld_threshold = p95Ms, ld_samples = absoluteSamples\<rparr>)"

section \<open>Pacing\<close>

fun PACING_WINDOW_MS :: "quota_period \<Rightarrow> rat option" where
  "PACING_WINDOW_MS Minute = Some 60000"
| "PACING_WINDOW_MS Day = Some 86400000"
| "PACING_WINDOW_MS p = None"

fun PACES_ON_LIMIT_BASIS :: "limit_basis \<Rightarrow> bool" where
  "PACES_ON_LIMIT_BASIS StatedLimit = True"
| "PACES_ON_LIMIT_BASIS ConfiguredLimit = True"
| "PACES_ON_LIMIT_BASIS LearnedLimit = True"
| "PACES_ON_LIMIT_BASIS PublishedLimit = False"

record pacing_verdict =
  pv_axis :: quota_axis
  pv_period :: quota_period
  pv_limit :: jsnum
  pv_limitBasis :: limit_basis
  pv_counted :: rat

definition bucket_pacing :: "breaker \<Rightarrow> string \<Rightarrow> rat \<Rightarrow> quota_bucket \<Rightarrow> pacing_verdict option" where
  "bucket_pacing b key now bucket =
     (case (PACING_WINDOW_MS (qb_period bucket),
            resolveLimit (qb_observations bucket) (qb_axis bucket) (qb_period bucket) (Some (qb_limits bucket))) of
        (Some window, Some (limit, basis)) \<Rightarrow>
          if \<not> PACES_ON_LIMIT_BASIS basis then None
          else
            let w = attemptsInWindow b key (Fin window) now;
                counted = (if qb_axis bucket = Requests then Some (of_nat (aw_requests w)) else aw_tokens w)
            in (case counted of
                  None \<Rightarrow> None
                | Some n \<Rightarrow> if Fin n < limit then None
                    else Some \<lparr>pv_axis = qb_axis bucket, pv_period = qb_period bucket, pv_limit = limit,
                      pv_limitBasis = basis, pv_counted = n\<rparr>)
      | _ \<Rightarrow> None)"

fun first_result :: "('a \<Rightarrow> 'b option) \<Rightarrow> 'a list \<Rightarrow> 'b option" where
  "first_result f [] = None"
| "first_result f (x # xs) = (case f x of Some y \<Rightarrow> Some y | None \<Rightarrow> first_result f xs)"

definition resolvePacing ::
  "bool option \<Rightarrow> limits_cfg \<Rightarrow> breaker \<Rightarrow> fact_store \<Rightarrow> resolved_attempt \<Rightarrow> rat \<Rightarrow> pacing_verdict option" where
  "resolvePacing enabled cfg b facts a now =
     (case rt_model (ra_target a) of
        None \<Rightarrow> None
      | Some model \<Rightarrow>
          if enabled = Some False then None
          else
            let provider = rt_provider (ra_target a);
                observations = cell_observations b (target_identity a);
                configured = resolveConfiguredLimits cfg provider (attempt_label a) (Some model);
                learned = observedRateLimits facts provider (Some (ra_credentialId a)) model now
            in first_result (bucket_pacing b (getKey (target_identity a)) now)
                 (sorted_buckets (collectQuotaBuckets observations learned (map_option cl_values configured))))"

section \<open>Hard caps\<close>

datatype cap_scope = CredentialCap | DeploymentCap

record capped_axis =
  ca_axis :: quota_axis
  ca_period :: quota_period
  ca_cap :: int
  ca_used :: jsnum
  ca_source :: limit_source
  ca_scope :: cap_scope

record hard_cap_verdict =
  hv_capped :: capped_axis
  hv_resetsAt :: jsnum

definition scopeOfSource :: "limit_source \<Rightarrow> cap_scope" where
  "scopeOfSource s = (if s = FromCredentialModel \<or> s = FromProviderModel then DeploymentCap else CredentialCap)"

text \<open>\<^verbatim>\<open>createHardCapLedgerReader\<close>: no ledger reads as unknown.\<close>

definition hard_cap_reader ::
  "ledger option \<Rightarrow> string \<Rightarrow> string option \<Rightarrow> rat \<Rightarrow> quota_axis \<Rightarrow> quota_period \<Rightarrow> cap_scope \<Rightarrow> local_used" where
  "hard_cap_reader accounting cred model now axis period scope =
     (case accounting of
        None \<Rightarrow> \<lparr>lu_value = None, lu_basis = None\<rparr>
      | Some read_ledger \<Rightarrow> projectLocalUsed (read_ledger cred (if scope = DeploymentCap then model else None) period now) axis)"

definition axis_capped ::
  "(quota_axis \<Rightarrow> quota_period \<Rightarrow> cap_scope \<Rightarrow> local_used) \<Rightarrow> configured_limits \<Rightarrow> limit_axis \<Rightarrow> capped_axis option" where
  "axis_capped used configured axis =
     (case Option.bind (cl_hard configured) (\<lambda>h. h axis) of
        None \<Rightarrow> None
      | Some cap \<Rightarrow>
          (let (qa, qp) = configuredLimitQuotaShape axis;
               source = (case Option.bind (cl_hardSource configured) (\<lambda>h. h axis) of None \<Rightarrow> FromCredential | Some s \<Rightarrow> s);
               scope = scopeOfSource source
           in case lu_value (used qa qp scope) of
                None \<Rightarrow> None
              | Some v \<Rightarrow> if Fin (of_int cap) \<le> v then
                    Some \<lparr>ca_axis = qa, ca_period = qp, ca_cap = cap, ca_used = v, ca_source = source, ca_scope = scope\<rparr>
                  else None))"

definition evaluateHardCap ::
  "limits_cfg \<Rightarrow> string \<Rightarrow> string option \<Rightarrow> string option \<Rightarrow> (quota_axis \<Rightarrow> quota_period \<Rightarrow> cap_scope \<Rightarrow> local_used) \<Rightarrow> jsnum \<Rightarrow>
     hard_cap_verdict option" where
  "evaluateHardCap cfg provider label model used now =
     (if cfg_hardCaps cfg = Some False then None
      else case resolveConfiguredLimits cfg provider label model of
          None \<Rightarrow> None
        | Some configured \<Rightarrow>
            (case js_sort (\<lambda>a b. bucketRank (ca_axis a) (ca_period a) \<le> bucketRank (ca_axis b) (ca_period b))
                (List.map_filter (axis_capped used configured) CONFIGURED_LIMIT_AXES) of
               [] \<Rightarrow> None
             | first # _ \<Rightarrow> map_option (\<lambda>e. \<lparr>hv_capped = first, hv_resetsAt = e\<rparr>) (periodEnd now (ca_period first))))"

end
