(* ===== verification/Credential_Select.thy ===== *)
theory Credential_Select
  imports Fleet Availability
begin

text \<open>
  The order in which a deployment's credentials are tried and the walk over them
  (\<^verbatim>\<open>credential-select.ts\<close>). \<^verbatim>\<open>localeCompare\<close> is the parameter \<open>lc\<close>; the evidence about a
  credential is the parameter \<open>ev\<close>. The test of an observation's basis has one possible
  outcome, since \<^verbatim>\<open>QuotaObservation.basis\<close> has the single value \<^verbatim>\<open>provider-stated\<close>.
\<close>

datatype health = Healthy | Degraded | Unhealthy | UnknownHealth

record credential_fact =
  cf_kind :: string
  cf_scope :: fact_scope

record selection_evidence =
  se_facts :: "credential_fact list"
  se_health :: "health option"
  se_credentialFault :: bool
  se_cooling :: bool
  se_saturated :: bool
  se_quota :: "quota_observation list"
  se_cost :: "cost_class option"

type_synonym evidence = "resolved_attempt \<Rightarrow> selection_evidence option"

section \<open>The least-recently-used ranks\<close>

record credential_lru =
  lru_lastUsed :: "(string, int) jmap"
  lru_sequence :: int

definition new_lru :: credential_lru where
  "new_lru = \<lparr>lru_lastUsed = [], lru_sequence = 0\<rparr>"

definition lru_touch :: "string \<Rightarrow> credential_lru \<Rightarrow> credential_lru" where
  "lru_touch c lru = \<lparr>lru_lastUsed = jm_put c (lru_sequence lru + 1) (lru_lastUsed lru), lru_sequence = lru_sequence lru + 1\<rparr>"

definition lru_lastUsed_of :: "credential_lru \<Rightarrow> string \<Rightarrow> int option" where
  "lru_lastUsed_of lru c = jm_get (lru_lastUsed lru) c"

definition lru_rank :: "credential_lru \<Rightarrow> string \<Rightarrow> int" where
  "lru_rank lru c = (case jm_get (lru_lastUsed lru) c of None \<Rightarrow> 0 | Some n \<Rightarrow> n)"

section \<open>The bands\<close>

definition model_text :: "resolved_attempt \<Rightarrow> string" where
  "model_text a = (case rt_model (ra_target a) of None \<Rightarrow> [] | Some m \<Rightarrow> m)"

definition targetKey :: "resolved_attempt \<Rightarrow> string" where
  "targetKey a = rt_provider (ra_target a) @ [CHR 0x00] @ bu_text (rt_base (ra_target a)) @ [CHR 0x00] @ model_text a"

fun scopeMatches :: "fact_scope \<Rightarrow> resolved_attempt \<Rightarrow> bool" where
  "scopeMatches (AttemptScope p c m) a \<longleftrightarrow> p = rt_provider (ra_target a) \<and> c = ra_credentialId a \<and> m = model_text a"
| "scopeMatches (CredentialScope p c) a \<longleftrightarrow> p = rt_provider (ra_target a) \<and> c = ra_credentialId a"
| "scopeMatches (DeploymentScope p m) a \<longleftrightarrow> p = rt_provider (ra_target a) \<and> m = model_text a"
| "scopeMatches (ProviderScope p) a \<longleftrightarrow> p = rt_provider (ra_target a)"
| "scopeMatches (ModelScope m) a \<longleftrightarrow> m = model_text a"
| "scopeMatches (GroupScope p c ms) a \<longleftrightarrow> p = rt_provider (ra_target a) \<and> model_text a \<noteq> [] \<and> model_text a \<in> set ms \<and>
     (case c of None \<Rightarrow> True | Some c \<Rightarrow> c = ra_credentialId a)"

definition matching_facts :: "resolved_attempt \<Rightarrow> selection_evidence option \<Rightarrow> credential_fact list" where
  "matching_facts a e = (case e of None \<Rightarrow> [] | Some e \<Rightarrow> filter (\<lambda>f. scopeMatches (cf_scope f) a) (se_facts e))"

definition hasHardFact :: "credential_fact list \<Rightarrow> bool" where
  "hasHardFact facts = list_ex (\<lambda>f. cf_kind f = ''not-servable'' \<or> cf_kind f = ''subscription-required'') facts"

definition hasSecret :: "resolved_attempt \<Rightarrow> bool" where
  "hasSecret a \<longleftrightarrow> ra_secret a \<noteq> DeclaredMissing"

definition fresh_headroom :: "jsnum \<Rightarrow> jsnum \<Rightarrow> quota_observation \<Rightarrow> bool" where
  "fresh_headroom now freshnessMs q \<longleftrightarrow>
     isFinite (q_observedAt q) \<and> q_observedAt q \<le> now \<and> now - q_observedAt q \<le> freshnessMs \<and>
     (case q_resetsAt q of None \<Rightarrow> True | Some r \<Rightarrow> now < r) \<and>
     isFinite (q_limit q) \<and> Fin 0 < q_limit q \<and> isFinite (q_remaining q) \<and> Fin 0 \<le> q_remaining q \<and>
     (case periodStart now (q_period q) of None \<Rightarrow> True | Some s \<Rightarrow> s \<le> q_observedAt q)"

definition headroomBand :: "quota_observation list \<Rightarrow> jsnum \<Rightarrow> jsnum \<Rightarrow> int" where
  "headroomBand quota now freshnessMs =
     (let fresh = filter (fresh_headroom now freshnessMs) quota in
      if fresh = [] then 1
      else (let minimum = fold (\<lambda>q m. js_min m (q_remaining q div q_limit q * Fin 100)) fresh PosInf in
            if minimum \<le> Fin 0 then 3 else if minimum \<le> Fin 10 then 2 else 0))"

definition demotionBand :: "selection_evidence option \<Rightarrow> int" where
  "demotionBand e = (case e of None \<Rightarrow> 0 | Some e \<Rightarrow>
     if se_health e = Some Unhealthy then 4
     else if se_cooling e then 3
     else if se_credentialFault e then 2
     else if se_saturated e \<or> se_health e = Some Degraded then 1
     else 0)"

definition costBand :: "cost_class option \<Rightarrow> int" where
  "costBand c = (if c = Some Free then 0 else 1)"

section \<open>Ranking\<close>

record ranked =
  rk_attempt :: resolved_attempt
  rk_index :: int
  rk_hard :: bool
  rk_absolute :: bool
  rk_key :: string

definition rank_row :: "credential_lru \<Rightarrow> evidence \<Rightarrow> jsnum \<Rightarrow> jsnum \<Rightarrow> ranked \<Rightarrow> int list" where
  "rank_row lru ev now freshnessMs a =
     (let e = ev (rk_attempt a) in
      [if rk_hard a then 1 else 0, demotionBand e,
       headroomBand (case e of None \<Rightarrow> [] | Some e \<Rightarrow> se_quota e) now freshnessMs,
       costBand (Option.bind e se_cost), lru_rank lru (ra_credentialId (rk_attempt a)),
       sl_configIndex (ra_slot (rk_attempt a)), rk_index a])"

text \<open>The loop over the two rows: the first difference, 0 when there is none.\<close>

fun row_difference :: "int list \<Rightarrow> int list \<Rightarrow> int" where
  "row_difference (x # xs) (y # ys) = (if x \<noteq> y then x - y else row_difference xs ys)"
| "row_difference xs ys = 0"

definition compare_ranked ::
  "(string \<Rightarrow> string \<Rightarrow> int) \<Rightarrow> credential_lru \<Rightarrow> evidence \<Rightarrow> jsnum \<Rightarrow> jsnum \<Rightarrow> ranked \<Rightarrow> ranked \<Rightarrow> int" where
  "compare_ranked lc lru ev now freshnessMs a b =
     (let d = row_difference (rank_row lru ev now freshnessMs a) (rank_row lru ev now freshnessMs b) in
      if d \<noteq> 0 then d else lc (rk_key a) (rk_key b))"

definition absolute_attempt :: "resolved_attempt \<Rightarrow> bool" where
  "absolute_attempt a \<longleftrightarrow> \<not> sl_enabled (ra_slot a) \<or> \<not> hasSecret a \<or>
     \<not> (case sl_models (ra_slot a) of None \<Rightarrow> True
        | Some ms \<Rightarrow> (case rt_model (ra_target a) of None \<Rightarrow> False | Some m \<Rightarrow> m \<in> set ms))"

definition ranked_of :: "evidence \<Rightarrow> int \<Rightarrow> resolved_attempt \<Rightarrow> ranked" where
  "ranked_of ev i a = \<lparr>rk_attempt = a, rk_index = i, rk_hard = (absolute_attempt a \<or> hasHardFact (matching_facts a (ev a))),
     rk_absolute = absolute_attempt a, rk_key = targetKey a\<rparr>"

definition rankOneDeployment ::
  "(string \<Rightarrow> string \<Rightarrow> int) \<Rightarrow> credential_lru \<Rightarrow> evidence \<Rightarrow> jsnum \<Rightarrow> jsnum \<Rightarrow> resolved_attempt list \<Rightarrow> resolved_attempt list" where
  "rankOneDeployment lc lru ev now freshnessMs deployment =
     (let rows = map (\<lambda>(i, a). ranked_of ev (int i) a) (List.enumerate 0 deployment);
          survivors = filter (\<lambda>r. \<not> rk_absolute r \<and> \<not> rk_hard r) rows;
          nonAbsolute = filter (\<lambda>r. \<not> rk_absolute r) rows;
          usable = (if survivors \<noteq> [] then survivors else nonAbsolute) in
      map rk_attempt (js_sort (\<lambda>a b. compare_ranked lc lru ev now freshnessMs a b \<le> 0) usable))"

record deployment_group =
  dg_key :: string
  dg_attempts :: "resolved_attempt list"

definition add_to_group :: "resolved_attempt \<Rightarrow> (string, resolved_attempt list) jmap \<Rightarrow> (string, resolved_attempt list) jmap" where
  "add_to_group a groups =
     (case jm_get groups (targetKey a) of
        Some grouped \<Rightarrow> jm_put (targetKey a) (grouped @ [a]) groups
      | None \<Rightarrow> jm_put (targetKey a) [a] groups)"

definition groupCredentialAttempts :: "resolved_attempt list \<Rightarrow> deployment_group list" where
  "groupCredentialAttempts attempts =
     map (\<lambda>(key, grouped). \<lparr>dg_key = key, dg_attempts = grouped\<rparr>) (fold add_to_group attempts [])"

text \<open>The default freshness is five minutes.\<close>

definition rankCredentialAttempts ::
  "(string \<Rightarrow> string \<Rightarrow> int) \<Rightarrow> credential_lru \<Rightarrow> evidence \<Rightarrow> jsnum option \<Rightarrow> jsnum \<Rightarrow> resolved_attempt list \<Rightarrow> resolved_attempt list" where
  "rankCredentialAttempts lc lru ev freshness now attempts =
     concat (map (\<lambda>g. rankOneDeployment lc lru ev now (case freshness of None \<Rightarrow> Fin 300000 | Some f \<Rightarrow> f) (dg_attempts g))
       (groupCredentialAttempts attempts))"

section \<open>The walk\<close>

datatype walk_kind = WSuccess | WCredential | WDeployment | WProviderTransport | WTimeout | WProtocol | WUnknownRefusal
  | WLocal | WClient | WCancelled

record walk_outcome =
  wo_status :: "int option"
  wo_kind :: "walk_kind option"
  wo_scope :: "fact_scope option"

record attempt_plan =
  pl_attempt :: resolved_attempt
  pl_group :: deployment_group
  pl_started :: bool

record credential_walk =
  cw_groups :: "deployment_group list"
  cw_cursor :: "(string, nat) jmap"
  cw_queue :: "string list"
  cw_providerSuppressed :: "string list"
  cw_deploymentClosed :: "string list"
  cw_suppressed :: "credential_fact list"
  cw_lru :: credential_lru
  cw_budgetMs :: rat
  cw_started :: nat
  cw_skipped :: nat
  cw_stopped :: bool
  cw_startedAt :: "rat option"
  cw_pending :: "(resolved_attempt, attempt_plan) jmap"
  cw_maxInFlight :: nat

datatype walk_error = NotPending | AlreadyStarted | AbandonedUnstarted | OutcomeBeforeStart | MissingGroup

definition max_in_flight :: "jsnum option \<Rightarrow> nat" where
  "max_in_flight cap = (case cap of Some (Fin q) \<Rightarrow> if 1 \<le> q then nat \<lfloor>q\<rfloor> else 1 | _ \<Rightarrow> 1)"

text \<open>The constructor: 45 seconds is the default budget.\<close>

definition new_walk ::
  "(string \<Rightarrow> string \<Rightarrow> int) \<Rightarrow> credential_lru \<Rightarrow> evidence \<Rightarrow> jsnum option \<Rightarrow> jsnum \<Rightarrow> rat option \<Rightarrow> credential_fact list \<Rightarrow>
   jsnum option \<Rightarrow> resolved_attempt list \<Rightarrow> credential_walk" where
  "new_walk lc lru ev freshness selectionNow budget suppressed cap attempts =
     (let groups = groupCredentialAttempts (rankCredentialAttempts lc lru ev freshness selectionNow attempts) in
      \<lparr>cw_groups = groups, cw_cursor = fold (\<lambda>g c. jm_put (dg_key g) 0 c) groups [], cw_queue = map dg_key groups,
       cw_providerSuppressed = [], cw_deploymentClosed = [], cw_suppressed = suppressed, cw_lru = lru,
       cw_budgetMs = (case budget of None \<Rightarrow> 45000 | Some b \<Rightarrow> b), cw_started = 0, cw_skipped = 0, cw_stopped = False,
       cw_startedAt = None, cw_pending = [], cw_maxInFlight = max_in_flight cap\<rparr>)"

definition walk_pending :: "credential_walk \<Rightarrow> resolved_attempt option" where
  "walk_pending w = (case cw_pending w of [] \<Rightarrow> None | (a, p) # rest \<Rightarrow> Some a)"

definition isPending :: "credential_walk \<Rightarrow> resolved_attempt \<Rightarrow> bool" where
  "isPending w a \<longleftrightarrow> jm_get (cw_pending w) a \<noteq> None"

definition budgetAllowsStart :: "credential_walk \<Rightarrow> rat \<Rightarrow> bool" where
  "budgetAllowsStart w now =
     (if cw_started w < 2 \<or> cw_budgetMs w = 0 then True
      else case cw_startedAt w of None \<Rightarrow> True | Some s \<Rightarrow> now - s < cw_budgetMs w)"

definition isSuppressed :: "credential_walk \<Rightarrow> resolved_attempt \<Rightarrow> bool" where
  "isSuppressed w a = list_ex (\<lambda>f. scopeMatches (cf_scope f) a) (cw_suppressed w)"

definition cursor_of :: "credential_walk \<Rightarrow> string \<Rightarrow> nat" where
  "cursor_of w key = (case jm_get (cw_cursor w) key of None \<Rightarrow> 0 | Some i \<Rightarrow> i)"

definition group_left :: "credential_walk \<Rightarrow> deployment_group \<Rightarrow> nat" where
  "group_left w g = length (dg_attempts g) - cursor_of w (dg_key g)"

definition walk_left :: "credential_walk \<Rightarrow> nat" where
  "walk_left w = length (cw_queue w) + (\<Sum>g\<leftarrow>cw_groups w. group_left w g)"

lemma group_left_advance:
  assumes "find (\<lambda>g. dg_key g = key) gs = Some g" and "cursor_of w key < length (dg_attempts g)"
  shows "(\<Sum>g\<leftarrow>gs. group_left (w\<lparr>cw_cursor := jm_put key (cursor_of w key + 1) (cw_cursor w)\<rparr>) g) < (\<Sum>g\<leftarrow>gs. group_left w g)"
    (is "sum_list (map ?new gs) < _")
proof -
  have le: "?new h \<le> group_left w h" for h
    by (auto simp: group_left_def cursor_of_def jm.get_put split: option.splits)
  have g: "g \<in> set gs" "dg_key g = key" using assms(1) by (auto simp: find_Some_iff)
  have lt: "?new g < group_left w g"
    using assms(2) g(2) by (auto simp: group_left_def cursor_of_def jm.get_put split: option.splits)
  have "sum_list (map ?new hs) \<le> sum_list (map (group_left w) hs)" for hs
    by (rule sum_list_mono) (rule le)
  moreover obtain us vs where "gs = us @ g # vs" using g(1) by (meson split_list)
  ultimately show ?thesis using lt by (simp add: add_le_less_mono add_less_le_mono)
qed

text \<open>The loop of \<^verbatim>\<open>next\<close>. Its keys are keys of groups, so \<open>MissingGroup\<close> does not happen.\<close>

function walk_take :: "credential_walk \<Rightarrow> walk_error + (credential_walk \<times> resolved_attempt option)" where
  "walk_take w =
     (case cw_queue w of
        [] \<Rightarrow> Inr (w, None)
      | key # rest \<Rightarrow>
          (case find (\<lambda>g. dg_key g = key) (cw_groups w) of
             None \<Rightarrow> Inl MissingGroup
           | Some g \<Rightarrow>
               if key \<in> set (cw_deploymentClosed w) then walk_take (w\<lparr>cw_queue := rest\<rparr>)
               else if dg_attempts g = [] then Inl MissingGroup
               else if rt_provider (ra_target (hd (dg_attempts g))) \<in> set (cw_providerSuppressed w)
                 then walk_take (w\<lparr>cw_queue := rest\<rparr>)
               else if cursor_of w key \<ge> length (dg_attempts g)
                 then walk_take (w\<lparr>cw_queue := rest, cw_deploymentClosed := List.insert key (cw_deploymentClosed w)\<rparr>)
               else
                 (let a = dg_attempts g ! cursor_of w key;
                      w1 = w\<lparr>cw_cursor := jm_put key (cursor_of w key + 1) (cw_cursor w)\<rparr> in
                  if isSuppressed w a then walk_take (w1\<lparr>cw_skipped := cw_skipped w + 1\<rparr>)
                  else Inr (w1\<lparr>cw_queue := rest,
                    cw_pending := jm_put a \<lparr>pl_attempt = a, pl_group = g, pl_started = False\<rparr> (cw_pending w)\<rparr>, Some a))))"
  by pat_completeness auto

termination
proof (relation "measure walk_left")
  fix w key rest g a w1
  assume q: "cw_queue w = key # rest" and f: "find (\<lambda>g. dg_key g = key) (cw_groups w) = Some g"
    and n: "\<not> length (dg_attempts g) \<le> cursor_of w key"
    and w1: "w1 = w\<lparr>cw_cursor := jm_put key (cursor_of w key + 1) (cw_cursor w)\<rparr>"
  have "group_left (w1\<lparr>cw_skipped := cw_skipped w + 1\<rparr>) = group_left w1"
    by (simp add: fun_eq_iff group_left_def cursor_of_def)
  then show "(w1\<lparr>cw_skipped := cw_skipped w + 1\<rparr>, w) \<in> measure walk_left"
    using group_left_advance [OF f] n by (simp add: walk_left_def w1)
qed (auto simp: walk_left_def group_left_def cursor_of_def)

declare walk_take.simps [simp del]

definition walk_next :: "credential_walk \<Rightarrow> rat \<Rightarrow> walk_error + (credential_walk \<times> resolved_attempt option)" where
  "walk_next w now =
     (if cw_stopped w then Inr (w, None)
      else case find (\<lambda>(a, p). \<not> pl_started p) (cw_pending w) of
        Some (a, p) \<Rightarrow> Inr (w, Some a)
      | None \<Rightarrow>
          if length (cw_pending w) \<ge> cw_maxInFlight w then Inr (w, walk_pending w)
          else if \<not> budgetAllowsStart w now then Inr (w, None)
          else walk_take w)"

definition releaseGroup :: "deployment_group \<Rightarrow> credential_walk \<Rightarrow> credential_walk" where
  "releaseGroup g w =
     (if cursor_of w (dg_key g) < length (dg_attempts g) then w\<lparr>cw_queue := cw_queue w @ [dg_key g]\<rparr>
      else w\<lparr>cw_deploymentClosed := List.insert (dg_key g) (cw_deploymentClosed w)\<rparr>)"

definition recordStarted :: "resolved_attempt \<Rightarrow> rat \<Rightarrow> credential_walk \<Rightarrow> walk_error + credential_walk" where
  "recordStarted a now w =
     (case jm_get (cw_pending w) a of
        None \<Rightarrow> Inl NotPending
      | Some held \<Rightarrow>
          if pl_started held then Inl AlreadyStarted
          else Inr (w\<lparr>cw_startedAt := (case cw_startedAt w of None \<Rightarrow> Some now | Some s \<Rightarrow> Some s),
            cw_started := cw_started w + 1, cw_lru := lru_touch (ra_credentialId a) (cw_lru w),
            cw_pending := jm_put a (held\<lparr>pl_started := True\<rparr>) (cw_pending w)\<rparr>))"

definition recordRejected :: "resolved_attempt \<Rightarrow> credential_walk \<Rightarrow> walk_error + credential_walk" where
  "recordRejected a w =
     (case jm_get (cw_pending w) a of
        None \<Rightarrow> Inl NotPending
      | Some held \<Rightarrow> Inr (releaseGroup (pl_group held) (w\<lparr>cw_pending := jm_del a (cw_pending w)\<rparr>)))"

definition recordAbandoned :: "resolved_attempt \<Rightarrow> credential_walk \<Rightarrow> walk_error + credential_walk" where
  "recordAbandoned a w =
     (case jm_get (cw_pending w) a of
        None \<Rightarrow> Inl NotPending
      | Some held \<Rightarrow>
          if \<not> pl_started held then Inl AbandonedUnstarted
          else Inr (releaseGroup (pl_group held) (w\<lparr>cw_pending := jm_del a (cw_pending w)\<rparr>)))"

definition stopping_outcome :: "walk_outcome \<Rightarrow> bool" where
  "stopping_outcome out \<longleftrightarrow>
     wo_kind out = Some WSuccess \<or> (case wo_status out of None \<Rightarrow> False | Some s \<Rightarrow> 200 \<le> s \<and> s < 400) \<or>
     wo_kind out = Some WLocal \<or> wo_kind out = Some WClient \<or> wo_kind out = Some WCancelled"

definition credential_scoped :: "walk_outcome \<Rightarrow> bool" where
  "credential_scoped out \<longleftrightarrow>
     (case wo_scope out of
        None \<Rightarrow> wo_status out \<in> {Some 401, Some 403, Some 402, Some 429} \<or> wo_kind out = Some WCredential
      | Some (AttemptScope p c m) \<Rightarrow> True
      | Some (CredentialScope p c) \<Rightarrow> True
      | Some (GroupScope p c ms) \<Rightarrow> c \<noteq> None
      | Some s \<Rightarrow> False)"

definition accepted_fact :: "fact_scope \<Rightarrow> credential_fact" where
  "accepted_fact s = \<lparr>cf_kind = ''accepted'', cf_scope = s\<rparr>"

definition exact_scope :: "resolved_attempt \<Rightarrow> walk_outcome \<Rightarrow> fact_scope" where
  "exact_scope a out = (case wo_scope out of Some s \<Rightarrow> s
     | None \<Rightarrow> AttemptScope (rt_provider (ra_target a)) (ra_credentialId a) (model_text a))"

definition record_outcome :: "resolved_attempt \<Rightarrow> walk_outcome \<Rightarrow> credential_walk \<Rightarrow> walk_error + credential_walk" where
  "record_outcome a out w =
     (case jm_get (cw_pending w) a of
        None \<Rightarrow> Inl NotPending
      | Some held \<Rightarrow>
          if \<not> pl_started held then Inl OutcomeBeforeStart
          else
            (let w1 = w\<lparr>cw_pending := jm_del a (cw_pending w)\<rparr> in
             Inr (if stopping_outcome out then w1\<lparr>cw_stopped := True\<rparr>
               else if wo_kind out = Some WProviderTransport
                 then w1\<lparr>cw_providerSuppressed := List.insert (rt_provider (ra_target a)) (cw_providerSuppressed w)\<rparr>
               else if credential_scoped out
                 then releaseGroup (pl_group held) (w1\<lparr>cw_suppressed := cw_suppressed w @ [accepted_fact (exact_scope a out)]\<rparr>)
               else w1\<lparr>cw_suppressed := cw_suppressed w @ (case wo_scope out of None \<Rightarrow> [] | Some s \<Rightarrow> [accepted_fact s]),
                 cw_deploymentClosed := List.insert (dg_key (pl_group held)) (cw_deploymentClosed w)\<rparr>)))"

end
