(* ===== verification/Candidate_Order.thy ===== *)
theory Candidate_Order
  imports Demotion Credential_Select
begin

text \<open>
  How the runner orders a route's candidates (\<^verbatim>\<open>candidate-runner.ts\<close>): the usability of an attempt, the
  ordering by usability of attempts and of deployment groups, and the sticky ordering. The demotion terms are the hooks the
  server installs (\<open>order_hooks\<close>; a missing hook is \<open>None\<close>); a hook does not throw. Judging an attempt may record a
  quota cooldown, so the breaker is passed through. Where the code renders a label for a demoted first choice, the
  model returns what the label is rendered from.
\<close>

section \<open>Probation\<close>

record probation_settings =
  pb_enabled :: "bool option"
  pb_minSamples :: "nat option"

record probation_verdict =
  pr_samples :: int
  pr_minSamples :: nat

text \<open>The samples read are \<open>None\<close> when the reader throws.\<close>

definition resolveProbation ::
  "(string \<Rightarrow> string \<Rightarrow> jsnum option) \<Rightarrow> (resolved_attempt \<Rightarrow> cost_class option) option \<Rightarrow> probation_settings option \<Rightarrow>
   resolved_attempt \<Rightarrow> probation_verdict option" where
  "resolveProbation readSamples costOf settings a =
     (let enabled = or_default True (Option.bind settings pb_enabled);
          minSamples = or_default 5 (Option.bind settings pb_minSamples) in
      if \<not> enabled then None
      else case rt_model (ra_target a) of
        None \<Rightarrow> None
      | Some model \<Rightarrow>
          if model = [] then None
          else if Option.bind costOf (\<lambda>c. c a) \<noteq> Some Free then None
          else (case readSamples (rt_provider (ra_target a)) model of
              Some (Fin n) \<Rightarrow> if of_nat minSamples \<le> n then None
                else Some \<lparr>pr_samples = max 0 \<lfloor>n\<rfloor>, pr_minSamples = minSamples\<rparr>
            | _ \<Rightarrow> None))"

section \<open>Usability\<close>

datatype target_usability = Probation | Live | TooSlow | Paced | FaultedCredential | CoolingDown

record order_hooks =
  oh_quota :: "(resolved_attempt \<Rightarrow> rat \<Rightarrow> quota_demotion option) option"
  oh_cost :: "(resolved_attempt \<Rightarrow> cost_class option) option"
  oh_latency :: "(resolved_attempt \<Rightarrow> rat \<Rightarrow> latency_demotion option) option"
  oh_probation :: "(resolved_attempt \<Rightarrow> rat \<Rightarrow> probation_verdict option) option"
  oh_pacing :: "(resolved_attempt \<Rightarrow> rat \<Rightarrow> pacing_verdict option) option"

definition hook_cost :: "order_hooks \<Rightarrow> resolved_attempt \<Rightarrow> cost_class option" where
  "hook_cost h a = Option.bind (oh_cost h) (\<lambda>c. c a)"

definition cooledByAllowance :: "fact_store \<Rightarrow> resolved_attempt \<Rightarrow> rat \<Rightarrow> cost_class option \<Rightarrow> bool" where
  "cooledByAllowance st a now cls =
     (case fact_cooldownUntil st (rt_provider (ra_target a)) (Some (ra_credentialId a)) (rt_model (ra_target a)) now cls of
        None \<Rightarrow> False
      | Some until \<Rightarrow> now < until)"

definition cooledByQuota :: "order_hooks \<Rightarrow> resolved_attempt \<Rightarrow> rat \<Rightarrow> breaker \<Rightarrow> breaker \<times> bool" where
  "cooledByQuota h a now b =
     (case Option.bind (oh_quota h) (\<lambda>q. q a now) of
        None \<Rightarrow> (b, False)
      | Some spent \<Rightarrow> (recordQuotaCooldown (target_identity a) (qd_resetsAt spent) now b, True))"

definition targetUsability :: "order_hooks \<Rightarrow> fact_store \<Rightarrow> rat \<Rightarrow> resolved_attempt \<Rightarrow> breaker \<Rightarrow> breaker \<times> target_usability" where
  "targetUsability h st now a b =
     (if \<not> isHealthy b (target_identity a) now then (b, CoolingDown)
      else if cooledByAllowance st a now (hook_cost h a) then (b, CoolingDown)
      else (let (b1, spent) = cooledByQuota h a now b in
        if spent then (b1, CoolingDown)
        else if hasCredentialFault b1 (target_identity a) now then (b1, FaultedCredential)
        else if Option.bind (oh_pacing h) (\<lambda>p. p a now) \<noteq> None then (b1, Paced)
        else if Option.bind (oh_latency h) (\<lambda>l. l a now) \<noteq> None then (b1, TooSlow)
        else if Option.bind (oh_probation h) (\<lambda>p. p a now) \<noteq> None then (b1, Probation)
        else (b1, Live)))"

definition coolingLiftTime :: "order_hooks \<Rightarrow> fact_store \<Rightarrow> rat \<Rightarrow> breaker \<Rightarrow> resolved_attempt \<Rightarrow> rat option" where
  "coolingLiftTime h st now b a =
     (case (case getState b (target_identity a) of None \<Rightarrow> None
          | Some s \<Rightarrow> if now < cooldownUntil s then Some (cooldownUntil s) else None) of
        Some lift \<Rightarrow> Some lift
      | None \<Rightarrow>
          (case fact_cooldownUntil st (rt_provider (ra_target a)) (Some (ra_credentialId a)) (rt_model (ra_target a)) now
              (hook_cost h a) of
             None \<Rightarrow> None
           | Some until \<Rightarrow> if now < until then Some until else None))"

text \<open>The comparator of the cooling band: a known lift before an unknown one, the earlier first.\<close>

fun lift_le :: "rat option \<Rightarrow> rat option \<Rightarrow> bool" where
  "lift_le None None = True"
| "lift_le None (Some b) = False"
| "lift_le (Some a) None = True"
| "lift_le (Some a) (Some b) = (a \<le> b)"

section \<open>Ordering\<close>

text \<open>The single pass over the candidates; \<open>lead\<close> is the attempt a candidate is judged by.\<close>

fun usability_scan ::
  "order_hooks \<Rightarrow> fact_store \<Rightarrow> rat \<Rightarrow> ('c \<Rightarrow> resolved_attempt) \<Rightarrow> 'c list \<Rightarrow> breaker \<Rightarrow> breaker \<times> ('c \<times> target_usability) list" where
  "usability_scan h st now lead [] b = (b, [])"
| "usability_scan h st now lead (c # cs) b =
     (let (b1, u) = targetUsability h st now (lead c) b; (b2, us) = usability_scan h st now lead cs b1 in (b2, (c, u) # us))"

definition usability_order :: "target_usability list" where
  "usability_order = [Probation, Live, TooSlow, Paced, FaultedCredential, CoolingDown]"

definition band_of :: "target_usability \<Rightarrow> ('c \<times> target_usability) list \<Rightarrow> 'c list" where
  "band_of u scanned = map fst (filter (\<lambda>(c, v). v = u) scanned)"

definition order_scanned ::
  "order_hooks \<Rightarrow> fact_store \<Rightarrow> rat \<Rightarrow> ('c \<Rightarrow> resolved_attempt) \<Rightarrow> breaker \<Rightarrow> ('c \<times> target_usability) list \<Rightarrow> 'c list" where
  "order_scanned h st now lead b scanned =
     band_of Probation scanned @ band_of Live scanned @ band_of TooSlow scanned @ band_of Paced scanned @
     band_of FaultedCredential scanned @
     js_sort (\<lambda>x y. lift_le (coolingLiftTime h st now b (lead x)) (coolingLiftTime h st now b (lead y))) (band_of CoolingDown scanned)"

definition orderByUsabilityTracked ::
  "order_hooks \<Rightarrow> fact_store \<Rightarrow> rat \<Rightarrow> resolved_attempt list \<Rightarrow> breaker \<Rightarrow> breaker \<times> resolved_attempt list" where
  "orderByUsabilityTracked h st now attempts b =
     (let (b', scanned) = usability_scan h st now (\<lambda>a. a) attempts b in (b', order_scanned h st now (\<lambda>a. a) b' scanned))"

record group_ordering =
  go_ordered :: "resolved_attempt list"
  go_quotaDemotedFirst :: "(string \<times> quota_demotion) option"
  go_latencyDemotedFirst :: "(string \<times> latency_demotion) option"
  go_pacedFirst :: "(string \<times> pacing_verdict) option"

definition target_spec :: "resolved_attempt \<Rightarrow> string" where
  "target_spec a = specOfTarget (rt_provider (ra_target a)) (rt_model (ra_target a))"

text \<open>What a hook says of the preferred attempt, when another attempt was put first.\<close>

definition demoted_first :: "resolved_attempt list \<Rightarrow> resolved_attempt list \<Rightarrow> (resolved_attempt \<Rightarrow> rat \<Rightarrow> 'v option) option \<Rightarrow> rat \<Rightarrow>
    (string \<times> 'v) option" where
  "demoted_first attempts ordered hook now =
     (case (map (\<lambda>g. hd (dg_attempts g)) (groupCredentialAttempts attempts), ordered, hook) of
        (preferred # _, first # _, Some f) \<Rightarrow>
          if first \<noteq> preferred then map_option (\<lambda>v. (target_spec preferred, v)) (f preferred now) else None
      | _ \<Rightarrow> None)"

definition orderDeploymentGroupsByUsability ::
  "order_hooks \<Rightarrow> fact_store \<Rightarrow> rat \<Rightarrow> resolved_attempt list \<Rightarrow> breaker \<Rightarrow> breaker \<times> group_ordering" where
  "orderDeploymentGroupsByUsability h st now attempts b =
     (let lead = (\<lambda>g. hd (dg_attempts g));
          (b', scanned) = usability_scan h st now lead (groupCredentialAttempts attempts) b;
          ordered = concat (map dg_attempts (order_scanned h st now lead b' scanned)) in
      (b', \<lparr>go_ordered = ordered, go_quotaDemotedFirst = demoted_first attempts ordered (oh_quota h) now,
        go_latencyDemotedFirst = demoted_first attempts ordered (oh_latency h) now,
        go_pacedFirst = demoted_first attempts ordered (oh_pacing h) now\<rparr>))"

section \<open>Stickiness\<close>

fun usability_text :: "target_usability \<Rightarrow> string" where
  "usability_text Probation = ''probation''"
| "usability_text Live = ''live''"
| "usability_text TooSlow = ''slow''"
| "usability_text Paced = ''paced''"
| "usability_text FaultedCredential = ''credential-fault''"
| "usability_text CoolingDown = ''cooling''"

text \<open>\<^verbatim>\<open>groups.some\<close>: stops at the first live deployment outside the degraded set.\<close>

fun some_live :: "order_hooks \<Rightarrow> fact_store \<Rightarrow> rat \<Rightarrow> string list \<Rightarrow> deployment_group list \<Rightarrow> breaker \<Rightarrow> breaker \<times> bool" where
  "some_live h st now degraded [] b = (b, False)"
| "some_live h st now degraded (g # gs) b =
     (let a = hd (dg_attempts g) in
      if target_spec a \<in> set degraded then some_live h st now degraded gs b
      else (let (b1, u) = targetUsability h st now a b in
        if u = Live then (b1, True) else some_live h st now degraded gs b1))"

fun index_where :: "('a \<Rightarrow> bool) \<Rightarrow> 'a list \<Rightarrow> nat option" where
  "index_where P [] = None"
| "index_where P (x # xs) = (if P x then Some 0 else map_option Suc (index_where P xs))"

definition applyStickyOrdering ::
  "order_hooks \<Rightarrow> fact_store \<Rightarrow> rat \<Rightarrow> string list option \<Rightarrow> string \<Rightarrow> resolved_attempt list \<Rightarrow> breaker \<Rightarrow>
   breaker \<times> resolved_attempt list \<times> string" where
  "applyStickyOrdering h st now degraded pinnedSpec ordered b =
     (let groups = groupCredentialAttempts ordered in
      case index_where (\<lambda>g. target_spec (hd (dg_attempts g)) = pinnedSpec) groups of
        None \<Rightarrow> (b, ordered, ''bypassed: not-in-pool'')
      | Some i \<Rightarrow>
          (let pinnedGroup = groups ! i; (b1, u) = targetUsability h st now (hd (dg_attempts pinnedGroup)) b in
           if u \<noteq> Live then (b1, ordered, ''bypassed: '' @ usability_text u)
           else
             (let (b2, better) = (case degraded of
                    None \<Rightarrow> (b1, False)
                  | Some d \<Rightarrow> if pinnedSpec \<in> set d then some_live h st now d groups b1 else (b1, False)) in
              if better then (b2, ordered, ''bypassed: degraded'')
              else if i = 0 then (b2, ordered, ''pinned, natural'')
              else (b2, concat (map dg_attempts (pinnedGroup # take i groups @ drop (Suc i) groups)), ''pinned, reordered''))))"

end
