(* ===== verification/Candidate_Attempt.thy ===== *)
theory Candidate_Attempt
  imports Candidate_Order
begin

text \<open>
  One attempt of a request (\<^verbatim>\<open>candidate-runner.ts\<close>): how a status is classified, what the walk is told of it, the
  tally of a request's attempts, the attempt trace, and the completion of an attempt across the breaker, the facts and the
  records. A clock reading is an argument; \<open>show_num\<close> stands for the rendering of a number; what the accounting
  and the model-call recorder are told is kept in the order of the calls.
\<close>

section \<open>Statuses\<close>

datatype outcome_class = OkStatus | Retriable | CredentialStatus | ClientStatus

record status_verdict =
  sv_outcome :: outcome_class
  sv_carriesEligibilityFact :: bool

definition STATUS_VERDICT_TABLE :: "int \<Rightarrow> status_verdict option" where
  "STATUS_VERDICT_TABLE status =
     (if status \<in> {400, 402, 404, 410, 429} then Some \<lparr>sv_outcome = Retriable, sv_carriesEligibilityFact = True\<rparr>
      else if status \<in> {401, 403} then Some \<lparr>sv_outcome = CredentialStatus, sv_carriesEligibilityFact = True\<rparr>
      else None)"

definition statusVerdict :: "int \<Rightarrow> status_verdict" where
  "statusVerdict status =
     (case STATUS_VERDICT_TABLE status of
        Some listed \<Rightarrow> listed
      | None \<Rightarrow>
          \<lparr>sv_outcome = (if status < 400 then OkStatus else if status \<ge> 500 then Retriable else ClientStatus),
           sv_carriesEligibilityFact = False\<rparr>)"

definition classifyStatus :: "int \<Rightarrow> outcome_class" where
  "classifyStatus status = sv_outcome (statusVerdict status)"

definition shouldTryNext :: "outcome_class \<Rightarrow> bool" where
  "shouldTryNext cls \<longleftrightarrow> cls = Retriable \<or> cls = CredentialStatus"

definition carriesEligibilityFact :: "int \<Rightarrow> bool" where
  "carriesEligibilityFact status = sv_carriesEligibilityFact (statusVerdict status)"

definition walkOutcomeForResponse :: "int \<Rightarrow> bool \<Rightarrow> fact_scope option \<Rightarrow> walk_outcome" where
  "walkOutcomeForResponse status localFailure scope =
     \<lparr>wo_status = Some status,
      wo_kind = Some (if localFailure then WLocal
        else if classifyStatus status = ClientStatus then WClient
        else if status = 401 \<or> status = 403 \<or> status = 402 \<or> status = 429 then WCredential
        else WDeployment),
      wo_scope = scope\<rparr>"

section \<open>The tally of a request\<close>

datatype tally_key = TallyStatus int | TallyDeadTurn | TallyCapped

record pool_tracker =
  pt_minRetryAfterMs :: "rat option"
  pt_only429 :: bool
  pt_counts :: "(tally_key, nat) jmap"
  pt_firstSeenAt :: "(tally_key, nat) jmap"
  pt_order :: nat
  pt_inFlight :: bool
  pt_deferredCapped :: bool
  pt_cappedLabels :: "string list"
  pt_soonestCapResetAt :: "jsnum option"
  pt_egressed :: bool
  pt_unknownRefusals :: nat

definition new_tracker :: pool_tracker where
  "new_tracker = \<lparr>pt_minRetryAfterMs = None, pt_only429 = True, pt_counts = [], pt_firstSeenAt = [], pt_order = 0,
     pt_inFlight = False, pt_deferredCapped = False, pt_cappedLabels = [], pt_soonestCapResetAt = None, pt_egressed = False,
     pt_unknownRefusals = 0\<rparr>"

definition noteEgress :: "pool_tracker \<Rightarrow> pool_tracker" where
  "noteEgress t = t\<lparr>pt_egressed := True\<rparr>"

definition noteOffered :: "pool_tracker \<Rightarrow> pool_tracker" where
  "noteOffered t = t\<lparr>pt_inFlight := True\<rparr>"

definition tally_stamp :: "tally_key \<Rightarrow> pool_tracker \<Rightarrow> pool_tracker" where
  "tally_stamp k t =
     (if jm_get (pt_firstSeenAt t) k \<noteq> None then t
      else t\<lparr>pt_firstSeenAt := jm_put k (pt_order t + 1) (pt_firstSeenAt t), pt_order := pt_order t + 1\<rparr>)"

definition stampCapped :: "pool_tracker \<Rightarrow> pool_tracker" where
  "stampCapped t = (if \<not> pt_deferredCapped t then t else tally_stamp TallyCapped (t\<lparr>pt_deferredCapped := False\<rparr>))"

definition tally_count :: "tally_key \<Rightarrow> pool_tracker \<Rightarrow> pool_tracker" where
  "tally_count k t =
     (let t1 = t\<lparr>pt_counts := jm_put k ((case jm_get (pt_counts t) k of None \<Rightarrow> 0 | Some n \<Rightarrow> n) + 1) (pt_counts t)\<rparr> in
      stampCapped ((tally_stamp k t1)\<lparr>pt_inFlight := False\<rparr>))"

definition recordFailover :: "int \<Rightarrow> rat option \<Rightarrow> pool_tracker \<Rightarrow> pool_tracker" where
  "recordFailover status retryMs t =
     (let t1 = tally_count (TallyStatus status) t in
      if status = 429 then
        (case retryMs of
           None \<Rightarrow> t1
         | Some r \<Rightarrow> t1\<lparr>pt_minRetryAfterMs := Some (case pt_minRetryAfterMs t1 of None \<Rightarrow> r | Some m \<Rightarrow> min m r)\<rparr>)
      else t1\<lparr>pt_only429 := False\<rparr>)"

definition recordFinal :: "int \<Rightarrow> pool_tracker \<Rightarrow> pool_tracker" where
  "recordFinal status t = tally_count (TallyStatus status) t"

definition tally_capped :: "string \<Rightarrow> jsnum \<Rightarrow> pool_tracker \<Rightarrow> pool_tracker" where
  "tally_capped label resetsAt t =
     (let t1 = (if pt_inFlight t then t\<lparr>pt_deferredCapped := True\<rparr> else tally_stamp TallyCapped t) in
      t1\<lparr>pt_cappedLabels := pt_cappedLabels t1 @ [label],
         pt_soonestCapResetAt := Some (case pt_soonestCapResetAt t1 of None \<Rightarrow> resetsAt | Some s \<Rightarrow> js_min s resetsAt)\<rparr>)"

definition cappedResetAt :: "pool_tracker \<Rightarrow> jsnum option" where
  "cappedResetAt t = pt_soonestCapResetAt t"

definition allCapped :: "pool_tracker \<Rightarrow> bool" where
  "allCapped t \<longleftrightarrow> pt_cappedLabels t \<noteq> [] \<and> pt_counts t = [] \<and> \<not> pt_egressed t"

fun join_texts :: "string \<Rightarrow> string list \<Rightarrow> string" where
  "join_texts sep [] = []"
| "join_texts sep [p] = p"
| "join_texts sep (p # ps) = p @ sep @ join_texts sep ps"

definition cappedSummary :: "pool_tracker \<Rightarrow> string option" where
  "cappedSummary t =
     (let labels = pt_cappedLabels t in
      if labels = [] then None
      else if length labels \<le> 5 then Some (join_texts ''; '' labels)
      else Some (join_texts ''; '' (take 5 labels) @ ''; +'' @ show_nat (length labels - 5) @ '' more''))"

definition recordDeadTurn :: "pool_tracker \<Rightarrow> pool_tracker" where
  "recordDeadTurn t = tally_count TallyDeadTurn (t\<lparr>pt_only429 := False\<rparr>)"

definition noteUnknownRefusal :: "pool_tracker \<Rightarrow> pool_tracker" where
  "noteUnknownRefusal t = t\<lparr>pt_unknownRefusals := pt_unknownRefusals t + 1\<rparr>"

definition unknownCount :: "pool_tracker \<Rightarrow> nat option" where
  "unknownCount t = (if 0 < pt_unknownRefusals t then Some (pt_unknownRefusals t) else None)"

fun tally_text :: "tally_key \<Rightarrow> string" where
  "tally_text (TallyStatus s) = show_int s"
| "tally_text TallyDeadTurn = ''dead-turn''"
| "tally_text TallyCapped = ''capped''"

definition tally_tried :: "pool_tracker \<Rightarrow> nat" where
  "tally_tried t = (\<Sum>(k, n)\<leftarrow>pt_counts t. n) + length (pt_cappedLabels t)"

definition tally_served :: "pool_tracker \<Rightarrow> nat" where
  "tally_served t = (\<Sum>(k, n)\<leftarrow>pt_counts t. case k of TallyStatus s \<Rightarrow> if s < 400 then n else 0 | _ \<Rightarrow> 0)"

definition tally_part :: "pool_tracker \<Rightarrow> tally_key \<Rightarrow> string" where
  "tally_part t k =
     (if k = TallyCapped then show_nat (length (pt_cappedLabels t)) @ ''xcapped''
      else show_nat (case jm_get (pt_counts t) k of None \<Rightarrow> 0 | Some n \<Rightarrow> n) @ ''x'' @ tally_text k)"

definition tally_summary :: "pool_tracker \<Rightarrow> pool_tracker \<times> string option" where
  "tally_summary t =
     (if tally_tried t < 2 then (t, None)
      else
        (let t1 = stampCapped t;
             keys = map fst (sort_key snd (pt_firstSeenAt t1)) in
         (t1, Some (show_nat (tally_tried t) @ '' tried, '' @ show_nat (tally_served t) @ '' served: '' @
           join_texts '', '' (map (tally_part t1) keys)))))"

definition overrideMs :: "int \<Rightarrow> rat option \<Rightarrow> pool_tracker \<Rightarrow> rat option" where
  "overrideMs finalStatus finalRetryAfterMs t =
     (if finalStatus \<noteq> 429 \<or> \<not> pt_only429 t then None
      else case pt_minRetryAfterMs t of
        None \<Rightarrow> None
      | Some m \<Rightarrow> Some (case finalRetryAfterMs of None \<Rightarrow> m | Some r \<Rightarrow> min m r))"

section \<open>The attempt trace\<close>

datatype log_status = LogStatus int | LogFailed | LogCancelled | LogCommitted | LogDeadTurn | LogCapped

record attempt_log =
  al_provider :: string
  al_model :: "string option"
  al_status :: log_status
  al_ms :: rat

definition MAX_LOG_ATTEMPTS :: nat where "MAX_LOG_ATTEMPTS = 64"

definition trace_record :: "resolved_target \<Rightarrow> log_status \<Rightarrow> rat \<Rightarrow> rat \<Rightarrow> attempt_log list \<Rightarrow> attempt_log list" where
  "trace_record target status started completedAt entries =
     (if MAX_LOG_ATTEMPTS \<le> length entries then entries
      else entries @ [\<lparr>al_provider = rt_provider target, al_model = rt_model target, al_status = status,
        al_ms = max 0 (completedAt - started)\<rparr>])"

definition trace_recordCapped :: "resolved_target \<Rightarrow> rat \<Rightarrow> attempt_log list \<Rightarrow> attempt_log list" where
  "trace_recordCapped target now entries = trace_record target LogCapped now now entries"

section \<open>The credential trace\<close>

record credential_entry =
  cte_provider :: string
  cte_deployment :: string
  cte_credentialId :: string
  cte_multiSlot :: bool
  cte_outcome :: "walk_outcome option"

definition ctrace_recordStarted :: "(string, fleet_config) jmap \<Rightarrow> resolved_attempt \<Rightarrow> credential_entry list \<Rightarrow> credential_entry list" where
  "ctrace_recordStarted providers a entries =
     (let configured = Option.bind (jm_get providers (rt_provider (ra_target a))) fc_credentials;
          multiSlot = (case configured of None \<Rightarrow> False | Some es \<Rightarrow> 2 \<le> length (filter (\<lambda>e. fe_enabled e \<noteq> Some False) es)) in
      entries @ [\<lparr>cte_provider = rt_provider (ra_target a), cte_deployment = target_spec a, cte_credentialId = ra_credentialId a,
        cte_multiSlot = multiSlot, cte_outcome = None\<rparr>])"

definition entry_open_for :: "resolved_attempt \<Rightarrow> credential_entry \<Rightarrow> bool" where
  "entry_open_for a e \<longleftrightarrow> cte_outcome e = None \<and> cte_provider e = rt_provider (ra_target a) \<and> cte_deployment e = target_spec a \<and>
     cte_credentialId e = ra_credentialId a"

text \<open>The newest open entry of the attempt is settled; without one the call throws (\<open>None\<close>).\<close>

definition ctrace_record :: "resolved_attempt \<Rightarrow> walk_outcome \<Rightarrow> credential_entry list \<Rightarrow> credential_entry list option" where
  "ctrace_record a out entries =
     (case index_where (entry_open_for a) (rev entries) of
        None \<Rightarrow> None
      | Some i \<Rightarrow> (let j = length entries - 1 - i in Some (entries[j := (entries ! j)\<lparr>cte_outcome := Some out\<rparr>])))"

definition credentialAttemptLabel :: "walk_outcome option \<Rightarrow> string" where
  "credentialAttemptLabel out =
     (case Option.bind out wo_status of
        Some s \<Rightarrow> show_int s
      | None \<Rightarrow>
          (case Option.bind out wo_kind of
             Some WProviderTransport \<Rightarrow> ''transport''
           | Some WTimeout \<Rightarrow> ''timeout''
           | Some WProtocol \<Rightarrow> ''protocol''
           | Some WClient \<Rightarrow> ''client''
           | Some WCancelled \<Rightarrow> ''cancelled''
           | _ \<Rightarrow> ''local''))"

definition entry_succeeded :: "credential_entry \<Rightarrow> bool" where
  "entry_succeeded e \<longleftrightarrow> Option.bind (cte_outcome e) wo_kind = Some WSuccess"

text \<open>The entry the headers name as the one that served: the first success, else the newest open entry of the attempt being served.
  Entries are named by their place in the trace.\<close>

definition served_entry :: "resolved_attempt option \<Rightarrow> credential_entry list \<Rightarrow> nat option" where
  "served_entry servedAttempt entries =
     (case index_where entry_succeeded entries of
        Some i \<Rightarrow> Some i
      | None \<Rightarrow>
          (case servedAttempt of
             None \<Rightarrow> None
           | Some a \<Rightarrow> map_option (\<lambda>i. length entries - 1 - i) (index_where (entry_open_for a) (rev entries))))"

definition failed_labels :: "nat option \<Rightarrow> credential_entry list \<Rightarrow> string list" where
  "failed_labels served entries =
     map (\<lambda>(i, e). credentialAttemptLabel (cte_outcome e))
       (filter (\<lambda>(i, e). Some i \<noteq> served \<and> \<not> entry_succeeded e) (List.enumerate 0 entries))"

definition label_tallies :: "string list \<Rightarrow> (string, nat) jmap" where
  "label_tallies labels = fold (\<lambda>l m. jm_put l ((case jm_get m l of None \<Rightarrow> 0 | Some n \<Rightarrow> n) + 1) m) labels []"

definition ctrace_headers :: "resolved_attempt option \<Rightarrow> credential_entry list \<Rightarrow> (string \<times> string) list" where
  "ctrace_headers servedAttempt entries =
     (if \<not> list_ex cte_multiSlot entries then []
      else
        (let served = served_entry servedAttempt entries;
             credential = (case served of
                 None \<Rightarrow> []
               | Some i \<Rightarrow> if cte_multiSlot (entries ! i) then [(''x-llm-relay-credential'', cte_credentialId (entries ! i))] else []);
             summary = join_texts '', '' (map (\<lambda>(l, n). show_nat n @ ''x'' @ l) (label_tallies (failed_labels served entries)))
         in credential @
            (if 2 \<le> length entries \<or> served = None
             then [(''x-llm-relay-credential-attempts'', show_nat (length entries) @ '' tried, '' @ show_nat (if served = None then 0 else 1) @
               '' served'' @ (if summary = [] then [] else '': '' @ summary))]
             else [])))"

end
