(* ===== verification/Credential_Walk.thy ===== *)
theory Credential_Walk
  imports Credential_Select "HOL-Library.Product_Lexorder"
begin

text \<open>
  What the credential ranking keeps and drops, and the invariant of the walk: every call leaves at most one
  attempt of a deployment in flight, offers every attempt at most once and loses no deployment.
\<close>

section \<open>Grouping\<close>

lemma group_fold:
  "jm_ok (fold add_to_group xs []) \<and>
   (\<forall>k. jm_get (fold add_to_group xs []) k =
     (if filter (\<lambda>a. targetKey a = k) xs = [] then None else Some (filter (\<lambda>a. targetKey a = k) xs)))"
proof (induction xs rule: rev_induct)
  case (snoc a xs)
  then show ?case
    by (auto simp: add_to_group_def jm.get_put jm.ok_put split: option.splits if_splits)
qed simp

lemma group_keys_distinct: "distinct (map dg_key (groupCredentialAttempts xs))"
  using group_fold [of xs] by (simp add: groupCredentialAttempts_def jm_ok_def comp_def case_prod_unfold)

lemma in_groups: "g \<in> set (groupCredentialAttempts xs) \<longleftrightarrow>
    dg_attempts g = filter (\<lambda>a. targetKey a = dg_key g) xs \<and> dg_attempts g \<noteq> []"
proof -
  have ok: "jm_ok (fold add_to_group xs [])" using group_fold by blast
  have "g \<in> set (groupCredentialAttempts xs) \<longleftrightarrow> (dg_key g, dg_attempts g) \<in> set (fold add_to_group xs [])"
  proof
    assume "g \<in> set (groupCredentialAttempts xs)"
    then obtain k as where "(k, as) \<in> set (fold add_to_group xs [])" "g = \<lparr>dg_key = k, dg_attempts = as\<rparr>"
      unfolding groupCredentialAttempts_def by auto
    then show "(dg_key g, dg_attempts g) \<in> set (fold add_to_group xs [])" by simp
  next
    assume "(dg_key g, dg_attempts g) \<in> set (fold add_to_group xs [])"
    moreover have "g = (\<lambda>(key, grouped). \<lparr>dg_key = key, dg_attempts = grouped\<rparr>) (dg_key g, dg_attempts g)" by simp
    ultimately show "g \<in> set (groupCredentialAttempts xs)"
      unfolding groupCredentialAttempts_def set_map by (rule image_eqI [rotated])
  qed
  also have "\<dots> \<longleftrightarrow> jm_get (fold add_to_group xs []) (dg_key g) = Some (dg_attempts g)"
    using jm_in_get [OF ok] jm_get_in by metis
  also have "\<dots> \<longleftrightarrow> dg_attempts g = filter (\<lambda>a. targetKey a = dg_key g) xs \<and> dg_attempts g \<noteq> []"
    using group_fold [of xs] by auto
  finally show ?thesis .
qed

lemma group_of: "a \<in> set xs \<Longrightarrow> \<exists>g \<in> set (groupCredentialAttempts xs). dg_key g = targetKey a \<and> a \<in> set (dg_attempts g)"
  by (rule bexI [of _ "\<lparr>dg_key = targetKey a, dg_attempts = filter (\<lambda>b. targetKey b = targetKey a) xs\<rparr>"])
    (auto simp: in_groups filter_empty_conv)

section \<open>What the ranking keeps\<close>

abbreviation hard_fact :: "evidence \<Rightarrow> resolved_attempt \<Rightarrow> bool" where
  "hard_fact ev a \<equiv> hasHardFact (matching_facts a (ev a))"

definition usable_survivors :: "evidence \<Rightarrow> resolved_attempt list \<Rightarrow> bool" where
  "usable_survivors ev xs = list_ex (\<lambda>b. \<not> absolute_attempt b \<and> \<not> hard_fact ev b) xs"

lemma ranked_of_sel [simp]:
  "rk_attempt (ranked_of ev i a) = a" "rk_index (ranked_of ev i a) = i" "rk_absolute (ranked_of ev i a) = absolute_attempt a"
  "rk_hard (ranked_of ev i a) \<longleftrightarrow> absolute_attempt a \<or> hard_fact ev a" "rk_key (ranked_of ev i a) = targetKey a"
  by (simp_all add: ranked_of_def)

definition deployment_rows :: "evidence \<Rightarrow> resolved_attempt list \<Rightarrow> ranked list" where
  "deployment_rows ev xs = filter (\<lambda>r. \<not> rk_absolute r \<and> (usable_survivors ev xs \<longrightarrow> \<not> rk_hard r))
     (map (\<lambda>(i, a). ranked_of ev (int i) a) (List.enumerate 0 xs))"

lemma rows_nth: "map (\<lambda>(i, a). ranked_of ev (int i) a) (List.enumerate 0 xs) =
    map (\<lambda>i. ranked_of ev (int i) (xs ! i)) [0..<length xs]"
  by (rule nth_equalityI) (simp_all add: nth_enumerate_eq)

lemma rankOneDeployment_rows:
  "rankOneDeployment lc lru ev now f xs =
     map rk_attempt (js_sort (\<lambda>a b. compare_ranked lc lru ev now f a b \<le> 0) (deployment_rows ev xs))"
proof -
  let ?rows = "map (\<lambda>(i, a). ranked_of ev (int i) a) (List.enumerate 0 xs)"
  have "filter (\<lambda>r. \<not> rk_absolute r \<and> \<not> rk_hard r) ?rows \<noteq> [] \<longleftrightarrow>
      (\<exists>r \<in> set ?rows. \<not> rk_absolute r \<and> \<not> rk_hard r)"
    by (simp only: filter_empty_conv) blast
  also have "\<dots> \<longleftrightarrow> usable_survivors ev xs"
    unfolding rows_nth usable_survivors_def list_ex_length by auto
  finally show ?thesis by (simp add: rankOneDeployment_def deployment_rows_def Let_def)
qed

lemma set_rankOneDeployment: "a \<in> set (rankOneDeployment lc lru ev now f xs) \<longleftrightarrow>
    a \<in> set xs \<and> \<not> absolute_attempt a \<and> (usable_survivors ev xs \<longrightarrow> \<not> hard_fact ev a)"
proof -
  have "set (rankOneDeployment lc lru ev now f xs) = rk_attempt ` set (deployment_rows ev xs)"
    by (simp add: rankOneDeployment_rows)
  also have "\<dots> = {a. \<exists>i < length xs. a = xs ! i \<and> \<not> absolute_attempt a \<and> (usable_survivors ev xs \<longrightarrow> \<not> hard_fact ev a)}"
  proof (intro set_eqI iffI; elim imageE CollectE exE conjE)
    fix a i
    assume "i < length xs" "a = xs ! i" "\<not> absolute_attempt a" "usable_survivors ev xs \<longrightarrow> \<not> hard_fact ev a"
    then show "a \<in> rk_attempt ` set (deployment_rows ev xs)"
      unfolding deployment_rows_def rows_nth by (intro image_eqI [of _ _ "ranked_of ev (int i) a"]) auto
  qed (auto simp: deployment_rows_def rows_nth)
  finally show ?thesis by (auto simp: in_set_conv_nth)
qed

text \<open>The ranking offers exactly the attempts whose slot is enabled, holds its secret and allows the model, save
  those a hard fact (not servable, or needing a subscription) marks while a credential of the same deployment
  is left unmarked: marked credentials are a last resort, never silently dropped.\<close>

theorem ranking_keeps_usable:
  "a \<in> set (rankCredentialAttempts lc lru ev freshness now attempts) \<longleftrightarrow>
     a \<in> set attempts \<and> \<not> absolute_attempt a \<and>
     (hasHardFact (matching_facts a (ev a)) \<longrightarrow>
       \<not> (\<exists>b \<in> set attempts. targetKey b = targetKey a \<and> \<not> absolute_attempt b \<and> \<not> hasHardFact (matching_facts b (ev b))))"
    (is "?l \<longleftrightarrow> ?r")
proof -
  have "?l \<longleftrightarrow> (\<exists>g \<in> set (groupCredentialAttempts attempts). a \<in> set (dg_attempts g) \<and> \<not> absolute_attempt a \<and>
      (usable_survivors ev (dg_attempts g) \<longrightarrow> \<not> hard_fact ev a))"
    by (simp add: rankCredentialAttempts_def set_rankOneDeployment)
  also have "\<dots> \<longleftrightarrow> ?r"
  proof
    assume "\<exists>g \<in> set (groupCredentialAttempts attempts). a \<in> set (dg_attempts g) \<and> \<not> absolute_attempt a \<and>
      (usable_survivors ev (dg_attempts g) \<longrightarrow> \<not> hard_fact ev a)"
    then show ?r by (fastforce simp: in_groups usable_survivors_def list_ex_iff)
  next
    assume r: ?r
    then obtain g where "g \<in> set (groupCredentialAttempts attempts)" "dg_key g = targetKey a" "a \<in> set (dg_attempts g)"
      using group_of by blast
    then show "\<exists>g \<in> set (groupCredentialAttempts attempts). a \<in> set (dg_attempts g) \<and> \<not> absolute_attempt a \<and>
      (usable_survivors ev (dg_attempts g) \<longrightarrow> \<not> hard_fact ev a)"
      using r by (intro bexI [of _ g]) (auto simp: in_groups usable_survivors_def list_ex_iff)
  qed
  finally show ?thesis .
qed

definition ex_try :: "nat \<Rightarrow> string \<Rightarrow> credential_state \<Rightarrow> string \<Rightarrow> resolved_attempt" where
  "ex_try ref label secret model =
     \<lparr>ra_ref = ref, ra_target = \<lparr>rt_provider = ''p'', rt_base = \<lparr>bu_text = ''http://p'', bu_hostname = Some ''p''\<rparr>, rt_kind = OpenAI,
        rt_model = Some model\<rparr>, ra_credentialId = ''p#'' @ label, ra_secret = secret,
      ra_slot = \<lparr>sl_credentialId = ''p#'' @ label, sl_provider = ''p'', sl_label = label, sl_authEnv = None, sl_enabled = True,
        sl_models = None, sl_origin = CredentialsOrigin, sl_declaredOnly = True, sl_configIndex = int ref\<rparr>\<rparr>"

definition ex_marked :: evidence where
  "ex_marked a = (if ra_ref a = 0 then Some \<lparr>se_facts = [\<lparr>cf_kind = ''not-servable'', cf_scope = ProviderScope ''p''\<rparr>], se_health = None,
     se_credentialFault = False, se_cooling = False, se_saturated = False, se_quota = [], se_cost = None\<rparr> else None)"

lemmas ex_try_simps = ex_try_def absolute_attempt_def hasSecret_def

theorem ranking_keeps_usable_witness:
  "ex_try 0 ''a'' DeclaredPresent ''m'' \<notin>
     set (rankCredentialAttempts (\<lambda>_ _. 0) new_lru ex_marked None (Fin 0) [ex_try 0 ''a'' DeclaredPresent ''m'', ex_try 1 ''b'' DeclaredPresent ''m'']) \<and>
   ex_try 0 ''a'' DeclaredPresent ''m'' \<in>
     set (rankCredentialAttempts (\<lambda>_ _. 0) new_lru ex_marked None (Fin 0) [ex_try 0 ''a'' DeclaredPresent ''m'', ex_try 1 ''b'' DeclaredMissing ''m''])"
  unfolding ranking_keeps_usable
  by (simp add: ex_try_simps ex_marked_def matching_facts_def hasHardFact_def targetKey_def model_text_def)

section \<open>The order of a deployment's credentials\<close>

lemma row_difference_swap: "length xs = length ys \<Longrightarrow> row_difference ys xs = - row_difference xs ys"
  by (induction xs ys rule: list_induct2) auto

lemma row_difference_trans:
  "length xs = length ys \<Longrightarrow> length ys = length zs \<Longrightarrow> row_difference xs ys \<le> 0 \<Longrightarrow> row_difference ys zs \<le> 0 \<Longrightarrow>
     row_difference xs zs \<le> 0"
  by (induction xs ys zs rule: list_induct3) (auto split: if_splits)

lemma row_difference_0: "length xs = length ys \<Longrightarrow> row_difference xs ys = 0 \<longleftrightarrow> xs = ys"
  by (induction xs ys rule: list_induct2) auto

lemma length_rank_row [simp]: "length (rank_row lru ev now f a) = 7"
  by (simp add: rank_row_def Let_def)

lemma js_sort_cong_distinct:
  "distinct xs \<Longrightarrow> (\<And>x y. x \<in> set xs \<Longrightarrow> y \<in> set xs \<Longrightarrow> x \<noteq> y \<Longrightarrow> le x y = le' x y) \<Longrightarrow> js_sort le xs = js_sort le' xs"
proof (induction xs)
  case (Cons x xs)
  then have "js_sort le xs = js_sort le' xs" by simp
  moreover have "js_insert le x (js_sort le' xs) = js_insert le' x (js_sort le' xs)"
    by (rule js_insert_cong) (use Cons.prems in \<open>simp, metis\<close>)
  ultimately show ?case by simp
qed simp

lemma rows_distinct: "distinct (map rk_index (deployment_rows ev xs))"
proof -
  have "distinct (map rk_index (map (\<lambda>i. ranked_of ev (int i) (xs ! i)) [0..<length xs]))"
    by (simp add: comp_def distinct_map inj_on_def)
  then show ?thesis unfolding deployment_rows_def rows_nth by (rule distinct_map_filter)
qed

lemma rows_hard: "r \<in> set (deployment_rows ev xs) \<Longrightarrow> rk_hard r \<longleftrightarrow> \<not> usable_survivors ev xs"
  unfolding deployment_rows_def rows_nth by (auto simp: usable_survivors_def list_ex_length)

lemma rows_sorted:
  "sorted_wrt (\<lambda>a b. row_difference (rank_row lru ev now f a) (rank_row lru ev now f b) \<le> 0)
     (js_sort (\<lambda>a b. compare_ranked lc lru ev now f a b \<le> 0) (deployment_rows ev xs))"
proof -
  let ?row = "rank_row lru ev now f"
  have "compare_ranked lc lru ev now f a b \<le> 0 \<longleftrightarrow> row_difference (?row a) (?row b) \<le> 0"
    if "a \<in> set (deployment_rows ev xs)" "b \<in> set (deployment_rows ev xs)" "a \<noteq> b" for a b
  proof -
    have "rk_index a \<noteq> rk_index b" using rows_distinct [of ev xs] that by (auto simp: distinct_map inj_on_def)
    then have "?row a \<noteq> ?row b" by (simp add: rank_row_def Let_def)
    then have "row_difference (?row a) (?row b) \<noteq> 0" by (simp add: row_difference_0)
    then show ?thesis by (simp add: compare_ranked_def)
  qed
  then have "js_sort (\<lambda>a b. compare_ranked lc lru ev now f a b \<le> 0) (deployment_rows ev xs) =
      js_sort (\<lambda>a b. row_difference (?row a) (?row b) \<le> 0) (deployment_rows ev xs)"
    using rows_distinct [of ev xs] by (intro js_sort_cong_distinct) (auto simp: distinct_map)
  also have "sorted_wrt (\<lambda>a b. row_difference (?row a) (?row b) \<le> 0) \<dots>"
  proof (rule js_sort_sorted)
    show "row_difference (?row a) (?row b) \<le> 0 \<or> row_difference (?row b) (?row a) \<le> 0" for a b
      using row_difference_swap [of "?row a" "?row b"] by auto
    show "row_difference (?row a) (?row b) \<le> 0 \<Longrightarrow> row_difference (?row b) (?row c) \<le> 0 \<Longrightarrow>
        row_difference (?row a) (?row c) \<le> 0" for a b c
      by (rule row_difference_trans [of _ "?row b"]) simp_all
  qed
  finally show ?thesis .
qed

text \<open>A deployment's credentials come out ordered by their demotion (unhealthy, cooling, at fault, saturated), then
  by quota headroom, then free before paid, then least recently used, then by their place in the configuration.\<close>

theorem ranking_order:
  "sorted (map (\<lambda>a. (demotionBand (ev a), headroomBand (case ev a of None \<Rightarrow> [] | Some e \<Rightarrow> se_quota e) now freshnessMs,
       costBand (Option.bind (ev a) se_cost), lru_rank lru (ra_credentialId a), sl_configIndex (ra_slot a)))
     (rankOneDeployment lc lru ev now freshnessMs deployment))"
proof -
  let ?rows = "js_sort (\<lambda>a b. compare_ranked lc lru ev now freshnessMs a b \<le> 0) (deployment_rows ev deployment)"
  let ?t = "\<lambda>a. (demotionBand (ev a), headroomBand (case ev a of None \<Rightarrow> [] | Some e \<Rightarrow> se_quota e) now freshnessMs,
       costBand (Option.bind (ev a) se_cost), lru_rank lru (ra_credentialId a), sl_configIndex (ra_slot a))"
  have "sorted_wrt (\<lambda>a b. ?t (rk_attempt a) \<le> ?t (rk_attempt b)) ?rows"
  proof (rule sorted_wrt_mono_rel [OF _ rows_sorted])
    fix a b
    assume "a \<in> set ?rows" "b \<in> set ?rows"
    then have "rk_hard a = rk_hard b" using rows_hard by simp
    then show "row_difference (rank_row lru ev now freshnessMs a) (rank_row lru ev now freshnessMs b) \<le> 0 \<Longrightarrow>
        ?t (rk_attempt a) \<le> ?t (rk_attempt b)"
      by (auto simp: rank_row_def Let_def less_eq_prod_def less_prod_def split: if_splits)
  qed
  then show ?thesis by (simp add: rankOneDeployment_rows sorted_wrt_map)
qed

section \<open>The invariant of the walk\<close>

definition groups_ok :: "deployment_group list \<Rightarrow> bool" where
  "groups_ok gs \<longleftrightarrow> distinct (map dg_key gs) \<and>
     (\<forall>g \<in> set gs. dg_attempts g \<noteq> [] \<and> distinct (dg_attempts g) \<and> (\<forall>a \<in> set (dg_attempts g). targetKey a = dg_key g))"

definition passed :: "credential_walk \<Rightarrow> deployment_group \<Rightarrow> resolved_attempt set" where
  "passed w g = set (take (cursor_of w (dg_key g)) (dg_attempts g))"

definition held_keys :: "credential_walk \<Rightarrow> string list" where
  "held_keys w = map (\<lambda>(a, p). dg_key (pl_group p)) (cw_pending w)"

definition queue_ok :: "credential_walk \<Rightarrow> bool" where
  "queue_ok w \<longleftrightarrow> distinct (cw_queue w @ held_keys w) \<and> set (cw_queue w) \<subseteq> dg_key ` set (cw_groups w)"

definition pending_ok :: "credential_walk \<Rightarrow> bool" where
  "pending_ok w \<longleftrightarrow> jm_ok (cw_pending w) \<and> 0 < cw_maxInFlight w \<and> length (cw_pending w) \<le> cw_maxInFlight w \<and>
     (\<forall>(a, p) \<in> set (cw_pending w). pl_attempt p = a \<and> pl_group p \<in> set (cw_groups w) \<and> a \<in> passed w (pl_group p))"

definition covered :: "credential_walk \<Rightarrow> bool" where
  "covered w \<longleftrightarrow> cw_stopped w \<or>
     (\<forall>g \<in> set (cw_groups w). dg_key g \<in> set (cw_queue w) \<union> set (held_keys w) \<union> set (cw_deploymentClosed w) \<or>
        (\<exists>a \<in> set (dg_attempts g). rt_provider (ra_target a) \<in> set (cw_providerSuppressed w)))"

definition walk_ok :: "credential_walk \<Rightarrow> bool" where
  "walk_ok w \<longleftrightarrow> groups_ok (cw_groups w) \<and> queue_ok w \<and> pending_ok w \<and> covered w"

definition behind :: "credential_walk \<Rightarrow> resolved_attempt set" where
  "behind w = (\<Union>g \<in> set (cw_groups w). passed w g)"

lemma group_keys_inj: "groups_ok gs \<Longrightarrow> g \<in> set gs \<Longrightarrow> h \<in> set gs \<Longrightarrow> dg_key g = dg_key h \<Longrightarrow> g = h"
  by (auto simp: groups_ok_def distinct_map inj_on_def)

lemma find_group: "find (\<lambda>g. dg_key g = key) gs = Some g \<Longrightarrow> g \<in> set gs \<and> dg_key g = key"
  by (auto simp: find_Some_iff)

lemma passed_step:
  assumes "groups_ok (cw_groups w)" and "g \<in> set (cw_groups w)" and "h \<in> set (cw_groups w)"
    and "cursor_of w (dg_key g) < length (dg_attempts g)"
    and "cw_cursor w' = jm_put (dg_key g) (cursor_of w (dg_key g) + 1) (cw_cursor w)"
  shows "passed w' h = (if h = g then insert (dg_attempts g ! cursor_of w (dg_key g)) (passed w g) else passed w h)"
proof (cases "h = g")
  case True
  then show ?thesis using assms(4,5) by (auto simp: passed_def cursor_of_def jm.get_put take_Suc_conv_app_nth)
next
  case False
  then have "dg_key h \<noteq> dg_key g" using group_keys_inj [OF assms(1,3,2)] by blast
  then show ?thesis using False assms(5) by (simp add: passed_def cursor_of_def jm.get_put)
qed

lemma next_not_passed:
  assumes "groups_ok (cw_groups w)" and "g \<in> set (cw_groups w)" and "cursor_of w (dg_key g) < length (dg_attempts g)"
  shows "dg_attempts g ! cursor_of w (dg_key g) \<notin> behind w"
proof
  assume "dg_attempts g ! cursor_of w (dg_key g) \<in> behind w"
  then obtain h where h: "h \<in> set (cw_groups w)" "dg_attempts g ! cursor_of w (dg_key g) \<in> passed w h"
    by (auto simp: behind_def)
  have "dg_attempts g ! cursor_of w (dg_key g) \<in> set (dg_attempts h)" using h(2) by (auto simp: passed_def dest: in_set_takeD)
  moreover have "dg_attempts g ! cursor_of w (dg_key g) \<in> set (dg_attempts g)" using assms(3) by simp
  ultimately have "dg_key h = dg_key g" using assms(1,2) h(1) unfolding groups_ok_def by metis
  then have "h = g" using group_keys_inj [OF assms(1)] h(1) assms(2) by blast
  moreover have "distinct (dg_attempts g)" using assms(1,2) by (auto simp: groups_ok_def)
  ultimately show False using h(2) assms(3) by (auto simp: passed_def in_set_conv_nth nth_eq_iff_index_eq)
qed

text \<open>What one round of the loop relies on.\<close>

lemma drop_queue_ok:
  assumes "walk_ok w" and "cw_queue w = key # rest"
    and "find (\<lambda>g. dg_key g = key) (cw_groups w) = Some g"
    and "key \<in> set shut \<or> rt_provider (ra_target (hd (dg_attempts g))) \<in> set (cw_providerSuppressed w)"
    and "set (cw_deploymentClosed w) \<subseteq> set shut"
  shows "walk_ok (w\<lparr>cw_queue := rest, cw_deploymentClosed := shut\<rparr>)"
proof -
  have g: "g \<in> set (cw_groups w)" "dg_key g = key" using find_group [OF assms(3)] by auto
  have "hd (dg_attempts g) \<in> set (dg_attempts g)" using assms(1) g(1) by (auto simp: walk_ok_def groups_ok_def)
  moreover have "h = g" if "h \<in> set (cw_groups w)" "dg_key h = key" for h
    using group_keys_inj that g assms(1) unfolding walk_ok_def by blast
  ultimately have "covered (w\<lparr>cw_queue := rest, cw_deploymentClosed := shut\<rparr>)"
    using assms(1,2,4,5) unfolding walk_ok_def covered_def held_keys_def by simp blast
  then show ?thesis using assms(1,2)
    by (auto simp: walk_ok_def queue_ok_def pending_ok_def held_keys_def passed_def cursor_of_def)
qed

lemma skip_ok:
  assumes "walk_ok w" and "find (\<lambda>g. dg_key g = key) (cw_groups w) = Some g"
    and "cursor_of w key < length (dg_attempts g)"
    and "w' = w\<lparr>cw_cursor := jm_put key (cursor_of w key + 1) (cw_cursor w), cw_skipped := cw_skipped w + 1\<rparr>"
  shows "walk_ok w'" and "behind w' = insert (dg_attempts g ! cursor_of w key) (behind w)"
proof -
  have g: "g \<in> set (cw_groups w)" "dg_key g = key" using find_group [OF assms(2)] by auto
  have gs: "groups_ok (cw_groups w)" using assms(1) by (simp add: walk_ok_def)
  have step: "passed w' h = (if h = g then insert (dg_attempts g ! cursor_of w key) (passed w g) else passed w h)"
    if "h \<in> set (cw_groups w)" for h
    using passed_step [OF gs g(1) that, of w'] assms(3,4) g(2) by simp
  show "walk_ok w'" using assms(1,4) step unfolding walk_ok_def
    by (auto simp: queue_ok_def pending_ok_def covered_def held_keys_def)
  show "behind w' = insert (dg_attempts g ! cursor_of w key) (behind w)"
    using step g(1) assms(4) by (auto simp: behind_def split: if_splits)
qed

lemma take_ok:
  assumes "walk_ok w" and "cw_queue w = key # rest" and "find (\<lambda>g. dg_key g = key) (cw_groups w) = Some g"
    and "cursor_of w key < length (dg_attempts g)" and "length (cw_pending w) < cw_maxInFlight w"
    and "w' = w\<lparr>cw_cursor := jm_put key (cursor_of w key + 1) (cw_cursor w), cw_queue := rest,
      cw_pending := jm_put (dg_attempts g ! cursor_of w key)
        \<lparr>pl_attempt = dg_attempts g ! cursor_of w key, pl_group = g, pl_started = False\<rparr> (cw_pending w)\<rparr>"
  shows "walk_ok w'" and "behind w' = insert (dg_attempts g ! cursor_of w key) (behind w)"
    and "\<not> isPending w (dg_attempts g ! cursor_of w key)"
proof -
  let ?a = "dg_attempts g ! cursor_of w key"
  have g: "g \<in> set (cw_groups w)" "dg_key g = key" using find_group [OF assms(3)] by auto
  have gs: "groups_ok (cw_groups w)" and p: "pending_ok w" and q: "queue_ok w" and c: "covered w"
    using assms(1) by (auto simp: walk_ok_def)
  have step: "passed w' h = (if h = g then insert ?a (passed w g) else passed w h)" if "h \<in> set (cw_groups w)" for h
    using passed_step [OF gs g(1) that, of w'] assms(4,6) g(2) by simp
  have "?a \<notin> behind w" using next_not_passed [OF gs g(1)] assms(4) g(2) by simp
  then have new: "jm_get (cw_pending w) ?a = None"
    using p by (fastforce simp: pending_ok_def behind_def jm_get_None)
  then show "\<not> isPending w ?a" by (simp add: isPending_def)
  have pend: "cw_pending w' = cw_pending w @ [(?a, \<lparr>pl_attempt = ?a, pl_group = g, pl_started = False\<rparr>)]"
    using new by (simp add: assms(6) jm_put_new)
  have keys: "held_keys w' = held_keys w @ [key]" using pend g(2) by (simp add: held_keys_def)
  have "pending_ok w'"
    unfolding pending_ok_def
  proof (intro conjI)
    show "jm_ok (cw_pending w')" "0 < cw_maxInFlight w'" using p by (simp_all add: assms(6) pending_ok_def jm.ok_put)
    show "length (cw_pending w') \<le> cw_maxInFlight w'" using assms(5,6) pend by simp
    show "\<forall>(a, p) \<in> set (cw_pending w'). pl_attempt p = a \<and> pl_group p \<in> set (cw_groups w') \<and> a \<in> passed w' (pl_group p)"
    proof -
      have "cw_groups w' = cw_groups w" by (simp add: assms(6))
      then show ?thesis using p g(1) step unfolding pend pending_ok_def by auto
    qed
  qed
  moreover have parts: "cw_queue w' = rest" "cw_groups w' = cw_groups w" "cw_stopped w' = cw_stopped w"
      "cw_deploymentClosed w' = cw_deploymentClosed w" "cw_providerSuppressed w' = cw_providerSuppressed w"
    by (simp_all add: assms(6))
  have "queue_ok w'" using q assms(2) unfolding queue_ok_def keys parts by auto
  moreover have "covered w'" using c assms(2) unfolding covered_def keys parts by auto
  ultimately show "walk_ok w'" using gs parts(2) by (simp add: walk_ok_def)
  show "behind w' = insert ?a (behind w)" using step g(1) assms(6) by (auto simp: behind_def split: if_splits)
qed

text \<open>The loop, by its rounds.\<close>

definition offer_of :: "credential_walk \<Rightarrow> resolved_attempt option \<Rightarrow> resolved_attempt list" where
  "offer_of w r = (case r of Some a \<Rightarrow> if isPending w a then [] else [a] | None \<Rightarrow> [])"

definition fixed_parts :: "credential_walk \<Rightarrow> credential_walk \<Rightarrow> bool" where
  "fixed_parts w w' \<longleftrightarrow> cw_groups w' = cw_groups w \<and> cw_maxInFlight w' = cw_maxInFlight w \<and>
     cw_providerSuppressed w' = cw_providerSuppressed w \<and> cw_suppressed w' = cw_suppressed w \<and> cw_stopped w' = cw_stopped w"

definition offerable :: "credential_walk \<Rightarrow> resolved_attempt \<Rightarrow> bool" where
  "offerable w a \<longleftrightarrow> \<not> isSuppressed w a \<and> a \<notin> behind w \<and>
     (\<exists>g \<in> set (cw_groups w). a \<in> set (dg_attempts g) \<and> dg_key g \<notin> set (cw_deploymentClosed w) \<and>
        rt_provider (ra_target (hd (dg_attempts g))) \<notin> set (cw_providerSuppressed w))"

definition take_result :: "credential_walk \<Rightarrow> walk_error + (credential_walk \<times> resolved_attempt option) \<Rightarrow> bool" where
  "take_result w res \<longleftrightarrow> (\<exists>w' r. res = Inr (w', r) \<and> walk_ok w' \<and> fixed_parts w w' \<and> behind w \<subseteq> behind w' \<and>
     set (cw_deploymentClosed w) \<subseteq> set (cw_deploymentClosed w') \<and>
     (case r of None \<Rightarrow> cw_queue w' = [] \<and> cw_pending w' = cw_pending w
      | Some a \<Rightarrow> offerable w a \<and> a \<in> behind w' \<and> \<not> isPending w a))"

lemma take_result_weaken:
  assumes "take_result w1 res" and "fixed_parts w w1" and "behind w \<subseteq> behind w1" and "cw_pending w1 = cw_pending w"
    and "set (cw_deploymentClosed w) \<subseteq> set (cw_deploymentClosed w1)"
  shows "take_result w res"
proof -
  have "offerable w a" if "offerable w1 a" for a
    using that assms(2,3,5) unfolding offerable_def fixed_parts_def isSuppressed_def by auto
  then show ?thesis using assms unfolding take_result_def fixed_parts_def isPending_def
    by (fastforce split: option.splits)
qed

lemma walk_take_result:
  "walk_ok w \<Longrightarrow> length (cw_pending w) < cw_maxInFlight w \<Longrightarrow> take_result w (walk_take w)"
proof (induction w rule: walk_take.induct)
  case (1 w)
  show ?case
  proof (cases "cw_queue w")
    case Nil
    then show ?thesis using "1.prems"(1) by (simp add: walk_take.simps [of w] take_result_def fixed_parts_def)
  next
    case (Cons key rest)
    then have "key \<in> dg_key ` set (cw_groups w)" using "1.prems"(1) by (auto simp: walk_ok_def queue_ok_def)
    then obtain g where f: "find (\<lambda>g. dg_key g = key) (cw_groups w) = Some g"
      by (cases "find (\<lambda>g. dg_key g = key) (cw_groups w)") (auto simp: find_None_iff)
    have g: "g \<in> set (cw_groups w)" "dg_key g = key" using find_group [OF f] by auto
    have ne: "dg_attempts g \<noteq> []" using "1.prems"(1) g(1) by (auto simp: walk_ok_def groups_ok_def)
    note unfold = walk_take.simps [of w] Cons f ne
    have closed: "take_result w (walk_take w)" if "key \<in> set (cw_deploymentClosed w)"
    proof -
      have "walk_ok (w\<lparr>cw_queue := rest\<rparr>)"
        using drop_queue_ok [OF "1.prems"(1) Cons f, of "cw_deploymentClosed w"] that by simp
      then have "take_result (w\<lparr>cw_queue := rest\<rparr>) (walk_take (w\<lparr>cw_queue := rest\<rparr>))"
        using "1.IH"(1) [OF Cons f that] "1.prems"(2) by simp
      then have "take_result w (walk_take (w\<lparr>cw_queue := rest\<rparr>))"
        by (rule take_result_weaken) (auto simp: fixed_parts_def behind_def passed_def cursor_of_def)
      then show ?thesis using that by (simp add: unfold)
    qed
    have provider: "take_result w (walk_take w)" if n: "key \<notin> set (cw_deploymentClosed w)" and s: "rt_provider (ra_target (hd (dg_attempts g))) \<in> set (cw_providerSuppressed w)"
    proof -
      have "walk_ok (w\<lparr>cw_queue := rest\<rparr>)"
        using drop_queue_ok [OF "1.prems"(1) Cons f, of "cw_deploymentClosed w"] s by simp
      then have "take_result (w\<lparr>cw_queue := rest\<rparr>) (walk_take (w\<lparr>cw_queue := rest\<rparr>))"
        using "1.IH"(2) [OF Cons f n ne s] "1.prems"(2) by simp
      then have "take_result w (walk_take (w\<lparr>cw_queue := rest\<rparr>))"
        by (rule take_result_weaken) (auto simp: fixed_parts_def behind_def passed_def cursor_of_def)
      then show ?thesis using n s by (simp add: unfold)
    qed
    have spent: "take_result w (walk_take w)" if n: "key \<notin> set (cw_deploymentClosed w)"
      and s: "rt_provider (ra_target (hd (dg_attempts g))) \<notin> set (cw_providerSuppressed w)"
      and e: "length (dg_attempts g) \<le> cursor_of w key"
    proof -
      let ?w = "w\<lparr>cw_queue := rest, cw_deploymentClosed := List.insert key (cw_deploymentClosed w)\<rparr>"
      have "walk_ok ?w" by (rule drop_queue_ok [OF "1.prems"(1) Cons f]) auto
      then have "take_result ?w (walk_take ?w)"
        using "1.IH"(3) [OF Cons f n ne s e] "1.prems"(2) by simp
      then have "take_result w (walk_take ?w)"
        by (rule take_result_weaken) (auto simp: fixed_parts_def behind_def passed_def cursor_of_def)
      then show ?thesis using n s e by (simp add: unfold)
    qed
    have live: "take_result w (walk_take w)" if n: "key \<notin> set (cw_deploymentClosed w)"
      and s: "rt_provider (ra_target (hd (dg_attempts g))) \<notin> set (cw_providerSuppressed w)"
      and e: "\<not> length (dg_attempts g) \<le> cursor_of w key"
    proof -
      let ?a = "dg_attempts g ! cursor_of w key"
      let ?skip = "w\<lparr>cw_cursor := jm_put key (cursor_of w key + 1) (cw_cursor w), cw_skipped := cw_skipped w + 1\<rparr>"
      let ?take = "w\<lparr>cw_cursor := jm_put key (cursor_of w key + 1) (cw_cursor w), cw_queue := rest,
        cw_pending := jm_put ?a \<lparr>pl_attempt = ?a, pl_group = g, pl_started = False\<rparr> (cw_pending w)\<rparr>"
      have lt: "cursor_of w key < length (dg_attempts g)" using e by simp
      show ?thesis
      proof (cases "isSuppressed w ?a")
        case True
        note skip = skip_ok [OF "1.prems"(1) f lt refl]
        have "take_result ?skip (walk_take ?skip)"
          using "1.IH"(4) [OF Cons f n ne s e refl refl True] "1.prems"(2) skip(1) by simp
        then have "take_result w (walk_take ?skip)"
          by (rule take_result_weaken) (use skip(2) in \<open>auto simp: fixed_parts_def\<close>)
        then show ?thesis using n s e True by (simp add: unfold Let_def)
      next
        case False
        note taken = take_ok [OF "1.prems"(1) Cons f lt "1.prems"(2) refl]
        have "?a \<notin> behind w" using next_not_passed [OF _ g(1)] "1.prems"(1) lt g(2) by (simp add: walk_ok_def)
        then have "offerable w ?a" using False g n s lt by (auto simp: offerable_def intro!: bexI [of _ g])
        then have "take_result w (Inr (?take, Some ?a))"
          using taken by (auto simp: take_result_def fixed_parts_def)
        then show ?thesis using n s e False by (simp add: unfold Let_def)
      qed
    qed
    show ?thesis using closed provider spent live by blast
  qed
qed

section \<open>Every call keeps the invariant\<close>

datatype walk_call =
    Next rat
  | Start resolved_attempt rat
  | Reject resolved_attempt
  | Abandon resolved_attempt
  | Outcome resolved_attempt walk_outcome

text \<open>A call that throws leaves the walk as it was.\<close>

definition unless_thrown :: "credential_walk \<Rightarrow> walk_error + credential_walk \<Rightarrow> credential_walk" where
  "unless_thrown w res = (case res of Inl e \<Rightarrow> w | Inr w' \<Rightarrow> w')"

fun call_walk :: "walk_call \<Rightarrow> credential_walk \<Rightarrow> credential_walk" where
  "call_walk (Next now) w = (case walk_next w now of Inl e \<Rightarrow> w | Inr (w', r) \<Rightarrow> w')"
| "call_walk (Start a now) w = unless_thrown w (recordStarted a now w)"
| "call_walk (Reject a) w = unless_thrown w (recordRejected a w)"
| "call_walk (Abandon a) w = unless_thrown w (recordAbandoned a w)"
| "call_walk (Outcome a out) w = unless_thrown w (record_outcome a out w)"

fun run_walk :: "walk_call list \<Rightarrow> credential_walk \<Rightarrow> credential_walk" where
  "run_walk [] w = w"
| "run_walk (c # cs) w = run_walk cs (call_walk c w)"

text \<open>The attempts that \<^verbatim>\<open>next\<close> hands out anew, in order; a pending attempt handed out again does not count.\<close>

fun call_offer :: "walk_call \<Rightarrow> credential_walk \<Rightarrow> resolved_attempt list" where
  "call_offer (Next now) w = (case walk_next w now of Inl e \<Rightarrow> [] | Inr (w', r) \<Rightarrow> offer_of w r)"
| "call_offer c w = []"

fun offers :: "walk_call list \<Rightarrow> credential_walk \<Rightarrow> resolved_attempt list" where
  "offers [] w = []"
| "offers (c # cs) w = call_offer c w @ offers cs (call_walk c w)"

definition grows :: "credential_walk \<Rightarrow> credential_walk \<Rightarrow> bool" where
  "grows w w' \<longleftrightarrow> cw_groups w' = cw_groups w \<and> cw_maxInFlight w' = cw_maxInFlight w \<and> behind w \<subseteq> behind w' \<and>
     set (cw_suppressed w) \<subseteq> set (cw_suppressed w') \<and> set (cw_providerSuppressed w) \<subseteq> set (cw_providerSuppressed w') \<and>
     set (cw_deploymentClosed w) \<subseteq> set (cw_deploymentClosed w') \<and> (cw_stopped w \<longrightarrow> cw_stopped w')"

lemma grows_refl [simp]: "grows w w"
  by (simp add: grows_def)

lemma grows_trans: "grows w w' \<Longrightarrow> grows w' w'' \<Longrightarrow> grows w w''"
  by (auto simp: grows_def)

lemma jm_put_same_view:
  "jm_get m a = Some p \<Longrightarrow> f q = f p \<Longrightarrow> map (\<lambda>(a, p). f p) (jm_put a q m) = map (\<lambda>(a, p). f p) m"
  by (induction m) (auto split: if_splits)

lemma jm_del_split:
  "jm_ok m \<Longrightarrow> jm_get m a = Some p \<Longrightarrow> \<exists>us vs. m = us @ (a, p) # vs \<and> jm_del a m = us @ vs"
proof (induction m)
  case (Cons x m)
  obtain b q where x: "x = (b, q)" by (cases x)
  show ?case
  proof (cases "b = a")
    case True
    then have "jm_del a m = m" using Cons.prems(1) x by (auto simp: jm_del_def jm_ok_def delete_idem)
    then have "x # m = [] @ (a, p) # m \<and> jm_del a (x # m) = [] @ m" using True Cons.prems(2) x by (simp add: jm_del_def)
    then show ?thesis by blast
  next
    case False
    then obtain us vs where "m = us @ (a, p) # vs" "jm_del a m = us @ vs" using Cons x by (auto simp: jm_ok_def)
    then have "x # m = (x # us) @ (a, p) # vs \<and> jm_del a (x # m) = (x # us) @ vs" using False x by (simp add: jm_del_def)
    then show ?thesis by blast
  qed
qed simp

lemma start_ok:
  assumes "walk_ok w" and "jm_get (cw_pending w) a = Some held"
    and "w' = w\<lparr>cw_startedAt := sa, cw_started := n, cw_lru := l, cw_pending := jm_put a (held\<lparr>pl_started := True\<rparr>) (cw_pending w)\<rparr>"
  shows "walk_ok w' \<and> grows w w'"
proof -
  have parts: "cw_groups w' = cw_groups w" "cw_queue w' = cw_queue w" "cw_cursor w' = cw_cursor w" "cw_stopped w' = cw_stopped w"
    "cw_maxInFlight w' = cw_maxInFlight w" "cw_deploymentClosed w' = cw_deploymentClosed w" "cw_suppressed w' = cw_suppressed w"
    "cw_providerSuppressed w' = cw_providerSuppressed w"
    "cw_pending w' = jm_put a (held\<lparr>pl_started := True\<rparr>) (cw_pending w)"
    by (simp_all add: assms(3))
  have keys: "held_keys w' = held_keys w"
    unfolding held_keys_def parts by (rule jm_put_same_view [OF assms(2)]) simp
  have passed: "passed w' = passed w" by (simp add: fun_eq_iff passed_def cursor_of_def parts)
  have len: "length (cw_pending w') = length (cw_pending w)"
    by (metis keys held_keys_def length_map)
  have held: "(a, held) \<in> set (cw_pending w)" using assms(2) by (rule jm_get_in)
  have "pending_ok w'"
    using assms(1) held jm.ok_put jm_put_set [of _ _ a "held\<lparr>pl_started := True\<rparr>" "cw_pending w"]
    unfolding walk_ok_def pending_ok_def parts passed len [unfolded parts] by fastforce
  then show ?thesis using assms(1)
    by (simp add: walk_ok_def queue_ok_def covered_def grows_def behind_def keys parts passed)
qed

lemma settle_ok:
  assumes "walk_ok w" and "jm_get (cw_pending w) a = Some held" and "cw_pending w' = jm_del a (cw_pending w)"
    and "cw_groups w' = cw_groups w" and "cw_cursor w' = cw_cursor w" and "cw_maxInFlight w' = cw_maxInFlight w"
    and "cw_queue w' = cw_queue w @ extra" and "extra = [] \<or> extra = [dg_key (pl_group held)]"
    and "set (cw_deploymentClosed w) \<subseteq> set (cw_deploymentClosed w')"
    and "set (cw_providerSuppressed w) \<subseteq> set (cw_providerSuppressed w')" and "cw_stopped w \<longrightarrow> cw_stopped w'"
    and "set (cw_suppressed w) \<subseteq> set (cw_suppressed w')"
    and "dg_key (pl_group held) \<in> set extra \<union> set (cw_deploymentClosed w') \<or> cw_stopped w' \<or>
      rt_provider (ra_target a) \<in> set (cw_providerSuppressed w')"
  shows "walk_ok w' \<and> grows w w'"
proof -
  have gs: "groups_ok (cw_groups w)" and p: "pending_ok w" and q: "queue_ok w" and c: "covered w"
    using assms(1) by (auto simp: walk_ok_def)
  obtain us vs where pend: "cw_pending w = us @ (a, held) # vs" "cw_pending w' = us @ vs"
    using jm_del_split [OF _ assms(2)] p assms(3) by (auto simp: pending_ok_def)
  have passed: "passed w' = passed w" by (simp add: fun_eq_iff passed_def cursor_of_def assms(5))
  have held: "pl_group held \<in> set (cw_groups w)" "a \<in> passed w (pl_group held)"
    using p by (auto simp: pending_ok_def pend(1))
  have a: "a \<in> set (dg_attempts (pl_group held))" using held(2) by (auto simp: passed_def dest: in_set_takeD)
  have keys: "set (held_keys w) = insert (dg_key (pl_group held)) (set (held_keys w'))"
    by (auto simp: held_keys_def pend)
  have kq: "distinct (cw_queue w @ held_keys w')" "dg_key (pl_group held) \<notin> set (cw_queue w @ held_keys w')"
    using q by (auto simp: queue_ok_def held_keys_def pend)
  have "queue_ok w'" using q kq assms(8) held(1) unfolding queue_ok_def assms(4,7) by auto
  moreover have "pending_ok w'"
    using p jm.ok_del [of "cw_pending w" a] unfolding pending_ok_def passed assms(4,6) pend(1)
    by (auto simp: assms(3) [symmetric] pend jm_ok_def)
  moreover have "covered w'"
  proof -
    have "dg_key h \<in> set (cw_queue w') \<union> set (held_keys w') \<union> set (cw_deploymentClosed w') \<or>
        (\<exists>a \<in> set (dg_attempts h). rt_provider (ra_target a) \<in> set (cw_providerSuppressed w'))"
      if "h \<in> set (cw_groups w)" "\<not> cw_stopped w'" for h
    proof (cases "h = pl_group held")
      case True
      then show ?thesis using assms(7,13) that(2) a by auto
    next
      case False
      then have "dg_key h \<noteq> dg_key (pl_group held)" using group_keys_inj [OF gs that(1) held(1)] by blast
      moreover have "dg_key h \<in> set (cw_queue w) \<union> set (held_keys w) \<union> set (cw_deploymentClosed w) \<or>
          (\<exists>a \<in> set (dg_attempts h). rt_provider (ra_target a) \<in> set (cw_providerSuppressed w))"
        using c that assms(11) unfolding covered_def by blast
      ultimately show ?thesis using assms(7,9,10) keys by auto
    qed
    then show ?thesis unfolding covered_def assms(4) by blast
  qed
  ultimately show ?thesis using gs assms(4,6,9-12)
    by (auto simp: walk_ok_def grows_def behind_def passed)
qed

lemma release_parts [simp]:
  "cw_pending (releaseGroup g w) = cw_pending w" "cw_groups (releaseGroup g w) = cw_groups w"
  "cw_cursor (releaseGroup g w) = cw_cursor w" "cw_maxInFlight (releaseGroup g w) = cw_maxInFlight w"
  "cw_providerSuppressed (releaseGroup g w) = cw_providerSuppressed w" "cw_stopped (releaseGroup g w) = cw_stopped w"
  "cw_suppressed (releaseGroup g w) = cw_suppressed w"
  by (simp_all add: releaseGroup_def)

lemma release_ok:
  assumes "walk_ok w" and "jm_get (cw_pending w) a = Some held"
    and "w1 = w\<lparr>cw_pending := jm_del a (cw_pending w), cw_suppressed := cw_suppressed w @ fs\<rparr>"
  shows "walk_ok (releaseGroup (pl_group held) w1) \<and> grows w (releaseGroup (pl_group held) w1)"
  by (rule settle_ok [OF assms(1,2), where extra = "if cursor_of w1 (dg_key (pl_group held)) < length (dg_attempts (pl_group held))
    then [dg_key (pl_group held)] else []"]) (auto simp: assms(3) releaseGroup_def)

lemma walk_next_result:
  assumes "walk_ok w"
  shows "\<exists>w' r. walk_next w now = Inr (w', r) \<and> walk_ok w' \<and> grows w w' \<and>
    (\<forall>a. r = Some a \<longrightarrow> (if isPending w a then w' = w else offerable w a \<and> a \<in> behind w' \<and> \<not> cw_stopped w)) \<and>
    (r = None \<longrightarrow> cw_stopped w \<or> \<not> budgetAllowsStart w now \<or> (cw_queue w' = [] \<and> cw_pending w' = cw_pending w))"
proof (cases "cw_stopped w \<or> find (\<lambda>(a, p). \<not> pl_started p) (cw_pending w) \<noteq> None \<or> length (cw_pending w) \<ge> cw_maxInFlight w \<or>
    \<not> budgetAllowsStart w now")
  case False
  then have eq: "walk_next w now = walk_take w" by (auto simp: walk_next_def split: option.splits)
  have "take_result w (walk_take w)" using walk_take_result [OF assms] False by simp
  then show ?thesis unfolding eq take_result_def using False
    by (auto simp: fixed_parts_def grows_def split: option.splits)
next
  case True
  have stopped: ?thesis if "cw_stopped w" using that assms by (simp add: walk_next_def)
  have unstarted: ?thesis if "\<not> cw_stopped w" "find (\<lambda>(a, p). \<not> pl_started p) (cw_pending w) = Some (a, p)" for a p
  proof -
    have "(a, p) \<in> set (cw_pending w)" using that(2) by (metis find_Some_iff nth_mem)
    then have "isPending w a" by (force simp: isPending_def jm_get_None)
    then show ?thesis using that assms by (simp add: walk_next_def)
  qed
  have full: ?thesis if "\<not> cw_stopped w" "find (\<lambda>(a, p). \<not> pl_started p) (cw_pending w) = None"
      "length (cw_pending w) \<ge> cw_maxInFlight w"
  proof (cases "cw_pending w")
    case Nil
    then show ?thesis using that assms by (simp add: walk_ok_def pending_ok_def)
  next
    case (Cons x rest)
    then show ?thesis using that assms by (cases x) (auto simp: walk_next_def walk_pending_def isPending_def)
  qed
  have budget: ?thesis if "\<not> cw_stopped w" "find (\<lambda>(a, p). \<not> pl_started p) (cw_pending w) = None"
      "\<not> length (cw_pending w) \<ge> cw_maxInFlight w" "\<not> budgetAllowsStart w now"
    using that assms by (simp add: walk_next_def)
  show ?thesis
  proof (cases "find (\<lambda>(a, p). \<not> pl_started p) (cw_pending w)")
    case None
    show ?thesis
    proof (cases "cw_stopped w")
      case False
      show ?thesis
      proof (cases "length (cw_pending w) \<ge> cw_maxInFlight w")
        case more: False
        have "\<not> budgetAllowsStart w now" using True None False more by simp
        then show ?thesis by (rule budget [OF False None more])
      qed (rule full [OF False None])
    qed (rule stopped)
  next
    case (Some x)
    obtain a p where "x = (a, p)" by (cases x)
    then show ?thesis using stopped unstarted [of a p] Some by (cases "cw_stopped w") simp_all
  qed
qed

lemma call_ok: "walk_ok w \<Longrightarrow> walk_ok (call_walk c w) \<and> grows w (call_walk c w)"
proof (induction c w rule: call_walk.induct)
  case (1 now w)
  then show ?case using walk_next_result [of w now] by auto
next
  case (2 a now w)
  then show ?case using start_ok [OF 2]
    by (auto simp: unless_thrown_def recordStarted_def split: sum.splits option.splits if_splits)
next
  case (3 a w)
  have same: "w\<lparr>cw_pending := P\<rparr> = w\<lparr>cw_pending := P, cw_suppressed := cw_suppressed w @ []\<rparr>" for P by simp
  show ?case using 3 release_ok [OF 3 _ same]
    by (auto simp: unless_thrown_def recordRejected_def split: sum.splits option.splits if_splits)
next
  case (4 a w)
  have same: "w\<lparr>cw_pending := P\<rparr> = w\<lparr>cw_pending := P, cw_suppressed := cw_suppressed w @ []\<rparr>" for P by simp
  show ?case using 4 release_ok [OF 4 _ same]
    by (auto simp: unless_thrown_def recordAbandoned_def split: sum.splits option.splits if_splits)
next
  case (5 a out w)
  show ?case
  proof (cases "jm_get (cw_pending w) a")
    case None
    then show ?thesis using 5 by (simp add: unless_thrown_def record_outcome_def)
  next
    case (Some held)
    let ?w = "unless_thrown w (record_outcome a out w)"
    consider "\<not> pl_started held" | "pl_started held" "\<not> stopping_outcome out" "wo_kind out \<noteq> Some WProviderTransport" "credential_scoped out"
      | "pl_started held" "stopping_outcome out \<or> wo_kind out = Some WProviderTransport \<or> \<not> credential_scoped out"
      by blast
    then show ?thesis
    proof cases
      case 1
      then show ?thesis using 5 Some by (simp add: unless_thrown_def record_outcome_def)
    next
      case 2
      then show ?thesis using release_ok [OF 5 Some refl, of "[accepted_fact (exact_scope a out)]"] Some
        by (simp add: unless_thrown_def record_outcome_def Let_def)
    next
      case 3
      have "walk_ok ?w \<and> grows w ?w"
        by (rule settle_ok [OF 5 Some, where extra = "[]"])
          (use 3 Some in \<open>auto simp: unless_thrown_def record_outcome_def Let_def split: if_splits option.splits\<close>)
      then show ?thesis by simp
    qed
  qed
qed

lemma run_ok: "walk_ok w \<Longrightarrow> walk_ok (run_walk cs w) \<and> grows w (run_walk cs w)"
proof (induction cs arbitrary: w)
  case (Cons c cs)
  have c: "walk_ok (call_walk c w)" "grows w (call_walk c w)" using call_ok [OF Cons.prems] by blast+
  show ?case using Cons.IH [OF c(1)] grows_trans [OF c(2)] by simp
qed simp

lemma call_offer_spec:
  assumes "walk_ok w" and "a \<in> set (call_offer c w)"
  shows "offerable w a \<and> a \<in> behind (call_walk c w) \<and> \<not> cw_stopped w \<and> call_offer c w = [a]"
proof -
  obtain now where c: "c = Next now" using assms(2) by (cases c) auto
  obtain w' r where n: "walk_next w now = Inr (w', r)"
      "r = Some b \<longrightarrow> (if isPending w b then w' = w else offerable w b \<and> b \<in> behind w' \<and> \<not> cw_stopped w)" for b
    using walk_next_result [OF assms(1), of now] by blast
  have offer: "call_offer c w = offer_of w r" "call_walk c w = w'" using n(1) by (simp_all add: c)
  then have "r = Some a" "\<not> isPending w a" using assms(2) by (auto simp: offer_of_def split: option.splits if_splits)
  then show ?thesis using n(2) [of a] by (simp add: offer offer_of_def)
qed

lemma offers_spec:
  "walk_ok w \<Longrightarrow> a \<in> set (offers cs w) \<Longrightarrow> \<exists>w'. walk_ok w' \<and> grows w w' \<and> offerable w' a \<and> \<not> cw_stopped w'"
proof (induction cs arbitrary: w)
  case (Cons c cs)
  show ?case
  proof (cases "a \<in> set (call_offer c w)")
    case True
    then show ?thesis using call_offer_spec [OF Cons.prems(1)] Cons.prems(1) by (intro exI [of _ w]) auto
  next
    case False
    then have "a \<in> set (offers cs (call_walk c w))" using Cons.prems(2) by simp
    then obtain w' where w': "walk_ok w'" "grows (call_walk c w) w'" "offerable w' a" "\<not> cw_stopped w'"
      using Cons.IH [OF conjunct1 [OF call_ok [OF Cons.prems(1)]]] by blast
    have "grows w w'" using grows_trans [OF conjunct2 [OF call_ok [OF Cons.prems(1)]] w'(2)] .
    then show ?thesis using w' by (intro exI [of _ w'] conjI)
  qed
qed simp

lemma offers_distinct: "walk_ok w \<Longrightarrow> distinct (offers cs w)"
proof (induction cs arbitrary: w)
  case (Cons c cs)
  have ok: "walk_ok (call_walk c w)" using call_ok [OF Cons.prems] by blast
  have "a \<notin> set (offers cs (call_walk c w))" if "a \<in> set (call_offer c w)" for a
  proof
    assume "a \<in> set (offers cs (call_walk c w))"
    from offers_spec [OF ok this] obtain w' where "walk_ok w' \<and> grows (call_walk c w) w' \<and> offerable w' a \<and> \<not> cw_stopped w'"
      by (elim exE)
    then have "a \<notin> behind w'" "behind (call_walk c w) \<subseteq> behind w'" unfolding grows_def offerable_def by simp_all
    moreover have "a \<in> behind (call_walk c w)" using call_offer_spec [OF Cons.prems that] by (elim conjE)
    ultimately show False by blast
  qed
  moreover have "distinct (call_offer c w)"
  proof (cases "call_offer c w = []")
    case False
    then obtain a where "a \<in> set (call_offer c w)" by (meson ex_in_conv set_empty)
    then have "call_offer c w = [a]" using call_offer_spec [OF Cons.prems, of a c] by blast
    then show ?thesis by (metis distinct_singleton)
  qed simp
  ultimately show ?case using Cons.IH [OF ok] by auto
qed simp

section \<open>A new walk\<close>

lemma distinct_rankOneDeployment: "distinct xs \<Longrightarrow> distinct (rankOneDeployment lc lru ev now f xs)"
proof -
  assume "distinct xs"
  then have "distinct (map rk_attempt (map (\<lambda>i. ranked_of ev (int i) (xs ! i)) [0..<length xs]))"
    by (simp add: comp_def map_nth)
  then have d: "distinct (map rk_attempt (deployment_rows ev xs))"
    unfolding deployment_rows_def rows_nth by (rule distinct_map_filter)
  have "mset (rankOneDeployment lc lru ev now f xs) = mset (map rk_attempt (deployment_rows ev xs))"
    by (simp add: rankOneDeployment_rows)
  then show ?thesis using d by (metis mset_eq_imp_distinct_iff)
qed

lemma distinct_concat_keyed:
  "distinct (map k gs) \<Longrightarrow> (\<And>g. g \<in> set gs \<Longrightarrow> distinct (f g)) \<Longrightarrow> (\<And>g a. g \<in> set gs \<Longrightarrow> a \<in> set (f g) \<Longrightarrow> key a = k g) \<Longrightarrow>
     distinct (concat (map f gs))"
  by (induction gs) (auto, metis image_eqI)

lemma distinct_ranking:
  assumes "distinct attempts"
  shows "distinct (rankCredentialAttempts lc lru ev freshness now attempts)"
  unfolding rankCredentialAttempts_def
proof (rule distinct_concat_keyed [where k = dg_key and key = targetKey])
  show "distinct (map dg_key (groupCredentialAttempts attempts))" by (rule group_keys_distinct)
next
  fix g assume "g \<in> set (groupCredentialAttempts attempts)"
  then have "distinct (dg_attempts g)" using assms by (auto simp: in_groups)
  then show "distinct (rankOneDeployment lc lru ev now (case freshness of None \<Rightarrow> Fin 300000 | Some f \<Rightarrow> f) (dg_attempts g))"
    by (rule distinct_rankOneDeployment)
qed (auto simp: set_rankOneDeployment in_groups)

lemma groups_ok_group: "distinct xs \<Longrightarrow> groups_ok (groupCredentialAttempts xs)"
  by (auto simp: groups_ok_def group_keys_distinct in_groups)

lemma zero_cursors: "jm_get m k \<in> {None, Some 0} \<Longrightarrow> jm_get (fold (\<lambda>g c. jm_put (dg_key g) 0 c) gs m) k \<in> {None, Some (0::nat)}"
  by (induction gs arbitrary: m) (auto simp: jm.get_put)

lemma new_walk_ok:
  assumes "distinct attempts" and w: "w = new_walk lc lru ev freshness selectionNow budget suppressed cap attempts"
  shows "walk_ok w" and "behind w = {}" and "\<not> cw_stopped w" and "cw_maxInFlight w = max_in_flight cap"
    and "(\<Union>g \<in> set (cw_groups w). set (dg_attempts g)) = set (rankCredentialAttempts lc lru ev freshness selectionNow attempts)"
proof -
  let ?r = "rankCredentialAttempts lc lru ev freshness selectionNow attempts"
  have gs: "cw_groups w = groupCredentialAttempts ?r" by (simp add: w new_walk_def Let_def)
  have passed: "passed w g = {}" for g
    using zero_cursors [of "[]" "dg_key g" "cw_groups w"] gs
    by (auto simp: passed_def cursor_of_def w new_walk_def Let_def split: option.splits)
  have cap: "0 < max_in_flight cap" by (auto simp: max_in_flight_def le_floor_iff zero_less_nat_eq split: option.splits jsnum.splits)
  show "walk_ok w"
    unfolding walk_ok_def
  proof (intro conjI)
    show "groups_ok (cw_groups w)" unfolding gs by (rule groups_ok_group [OF distinct_ranking [OF assms(1)]])
    show "queue_ok w" by (simp add: queue_ok_def held_keys_def w new_walk_def Let_def group_keys_distinct)
    show "pending_ok w" using cap by (simp add: pending_ok_def w new_walk_def Let_def)
    show "covered w" by (simp add: covered_def w new_walk_def Let_def)
  qed
  show "behind w = {}" by (simp add: behind_def passed)
  show "\<not> cw_stopped w" "cw_maxInFlight w = max_in_flight cap" by (simp_all add: w new_walk_def Let_def)
  show "(\<Union>g \<in> set (cw_groups w). set (dg_attempts g)) = set ?r"
  proof
    show "(\<Union>g \<in> set (cw_groups w). set (dg_attempts g)) \<subseteq> set ?r" unfolding gs by (auto simp: in_groups)
    show "set ?r \<subseteq> (\<Union>g \<in> set (cw_groups w). set (dg_attempts g))" unfolding gs using group_of by blast
  qed
qed

section \<open>What a walk promises\<close>

text \<open>C3. Whatever calls a walk receives, it hands out no attempt anew twice, and only attempts that the ranking kept.\<close>

theorem walk_offers_once:
  assumes "distinct attempts"
  shows "distinct (offers calls (new_walk lc lru ev freshness selectionNow budget suppressed cap attempts)) \<and>
    set (offers calls (new_walk lc lru ev freshness selectionNow budget suppressed cap attempts)) \<subseteq>
      set (rankCredentialAttempts lc lru ev freshness selectionNow attempts)"
proof -
  let ?w = "new_walk lc lru ev freshness selectionNow budget suppressed cap attempts"
  note new = new_walk_ok [OF assms refl, of lc lru ev freshness selectionNow budget suppressed cap]
  have "a \<in> (\<Union>g \<in> set (cw_groups ?w). set (dg_attempts g))" if a: "a \<in> set (offers calls ?w)" for a
  proof -
    from offers_spec [OF new(1) a] obtain w' where "walk_ok w' \<and> grows ?w w' \<and> offerable w' a \<and> \<not> cw_stopped w'" by (elim exE)
    then show ?thesis by (auto simp: offerable_def grows_def)
  qed
  then show ?thesis using offers_distinct [OF new(1)] new(5) by blast
qed

definition ex_two_attempts :: "resolved_attempt list" where
  "ex_two_attempts = [ex_try 0 ''a'' DeclaredPresent ''m'', ex_try 1 ''b'' DeclaredPresent ''m'']"

lemma ex_two_distinct: "distinct ex_two_attempts"
  by (simp add: ex_two_attempts_def ex_try_def)

theorem walk_offers_once_witness:
  "distinct (offers [Next 0, Next 0] (new_walk (\<lambda>_ _. 0) new_lru ex_marked None (Fin 0) None [] None ex_two_attempts))"
  using walk_offers_once [OF ex_two_distinct] by blast

text \<open>C4. At every moment of a walk at most \<open>maxInFlight\<close> attempts are in flight, at most one of them for a deployment.\<close>

theorem walk_in_flight:
  assumes "distinct attempts"
    and "w = run_walk calls (new_walk lc lru ev freshness selectionNow budget suppressed cap attempts)"
  shows "length (cw_pending w) \<le> max_in_flight cap \<and> distinct (map (targetKey \<circ> fst) (cw_pending w))"
proof -
  note new = new_walk_ok [OF assms(1) refl, of lc lru ev freshness selectionNow budget suppressed cap]
  have ok: "walk_ok w" and same: "cw_maxInFlight w = max_in_flight cap"
    using run_ok [OF new(1), of calls] new(4) by (auto simp: assms(2) grows_def)
  have "map (targetKey \<circ> fst) (cw_pending w) = held_keys w"
    unfolding held_keys_def
  proof (rule map_cong [OF refl])
    fix x assume "x \<in> set (cw_pending w)"
    moreover obtain a p where "x = (a, p)" by (cases x)
    ultimately show "(targetKey \<circ> fst) x = (case x of (a, p) \<Rightarrow> dg_key (pl_group p))"
      using ok by (auto simp: walk_ok_def pending_ok_def groups_ok_def passed_def dest!: in_set_takeD)
  qed
  then show ?thesis using ok same by (simp add: walk_ok_def pending_ok_def queue_ok_def)
qed

theorem walk_in_flight_witness:
  "length (cw_pending (run_walk [Next 0] (new_walk (\<lambda>_ _. 0) new_lru ex_marked None (Fin 0) None [] (Some (Fin 3)) ex_two_attempts))) \<le> 3"
  using walk_in_flight [OF ex_two_distinct refl, of "[Next 0]" "\<lambda>_ _. 0" new_lru ex_marked None "Fin 0" None "[]" "Some (Fin 3)"]
  by (simp add: max_in_flight_def)

lemma stopped_offers:
  "walk_ok w \<Longrightarrow> cw_stopped w \<Longrightarrow> offers cs w = []"
proof (rule ccontr)
  assume ok: "walk_ok w" and stop: "cw_stopped w" and "offers cs w \<noteq> []"
  then obtain a where "a \<in> set (offers cs w)" by (meson ex_in_conv set_empty)
  from offers_spec [OF ok this] obtain w' where "walk_ok w' \<and> grows w w' \<and> offerable w' a \<and> \<not> cw_stopped w'" by (elim exE)
  then show False using stop unfolding grows_def by blast
qed

text \<open>A success, a status from 200 to 399, a local, a client or a cancelled outcome ends the walk: \<^verbatim>\<open>next\<close> returns
  nothing from then on, whatever calls follow, and no attempt is handed out.\<close>

theorem walk_stops:
  assumes "distinct attempts"
    and "w = run_walk calls (new_walk lc lru ev freshness selectionNow budget suppressed cap attempts)"
    and "record_outcome a out w = Inr w'" and "stopping_outcome out"
  shows "offers later w' = [] \<and> walk_next (run_walk later w') now = Inr (run_walk later w', None)"
proof -
  have "walk_ok w" using run_ok [OF new_walk_ok(1) [OF assms(1) refl]] assms(2) by blast
  moreover have w': "w' = call_walk (Outcome a out) w" using assms(3) by (simp add: unless_thrown_def)
  ultimately have ok: "walk_ok w'" using call_ok by blast
  have stop: "cw_stopped w'"
    using assms(3,4) by (auto simp: record_outcome_def Let_def split: option.splits if_splits)
  have "cw_stopped (run_walk later w')" using run_ok [OF ok, of later] stop by (simp add: grows_def)
  then show ?thesis using stopped_offers [OF ok stop] by (simp add: walk_next_def)
qed

abbreviation "ex_a \<equiv> ex_try 0 ''a'' DeclaredPresent ''m''"

abbreviation "ex_b \<equiv> ex_try 1 ''b'' DeclaredPresent ''m''"

definition ex_walk :: "credential_walk" where
  "ex_walk = new_walk (\<lambda>_ _. 0) new_lru (\<lambda>_. None) None (Fin 0) None [] None ex_two_attempts"

definition ex_out :: "int option \<Rightarrow> walk_kind option \<Rightarrow> walk_outcome" where
  "ex_out status kind = \<lparr>wo_status = status, wo_kind = kind, wo_scope = None\<rparr>"

definition ex_group :: deployment_group where
  "ex_group = \<lparr>dg_key = targetKey ex_a, dg_attempts = ex_two_attempts\<rparr>"

lemma ex_group_parts: "dg_key ex_group = targetKey ex_a" "dg_attempts ex_group = [ex_a, ex_b]"
  by (simp_all add: ex_group_def ex_two_attempts_def)

lemma ex_groups: "groupCredentialAttempts [ex_a, ex_b] = [ex_group]"
proof -
  have "targetKey ex_b = targetKey ex_a" by (simp add: targetKey_def model_text_def ex_try_def)
  then show ?thesis by (simp add: groupCredentialAttempts_def ex_two_attempts_def add_to_group_def ex_group_def)
qed

lemma ex_walk_parts:
  "ex_walk = \<lparr>cw_groups = [ex_group], cw_cursor = [(targetKey ex_a, 0)], cw_queue = [targetKey ex_a], cw_providerSuppressed = [],
     cw_deploymentClosed = [], cw_suppressed = [], cw_lru = new_lru, cw_budgetMs = 45000, cw_started = 0, cw_skipped = 0,
     cw_stopped = False, cw_startedAt = None, cw_pending = [], cw_maxInFlight = 1\<rparr>"
proof -
  have g: "groupCredentialAttempts ex_two_attempts = [ex_group]"
    using ex_groups by (simp add: ex_two_attempts_def)
  have r: "rankCredentialAttempts (\<lambda>_ _. 0) new_lru (\<lambda>_. None) None (Fin 0) ex_two_attempts = ex_two_attempts"
    unfolding rankCredentialAttempts_def g
    by (simp add: rankOneDeployment_def ex_two_attempts_def ex_group_parts ranked_of_def matching_facts_def hasHardFact_def Let_def
        compare_ranked_def rank_row_def new_lru_def lru_rank_def demotionBand_def headroomBand_def costBand_def)
      (simp add: ex_try_simps)
  show ?thesis by (simp add: ex_walk_def new_walk_def r g Let_def max_in_flight_def ex_group_parts)
qed

text \<open>Taking the attempt at the cursor of the example's only deployment.\<close>

lemma ex_take:
  assumes "cw_queue w = [targetKey ex_a]" and "cw_groups w = [ex_group]" and "cw_deploymentClosed w = []"
    and "cw_providerSuppressed w = []" and "cw_cursor w = [(targetKey ex_a, i)]" and "i < 2" and "\<not> isSuppressed w ([ex_a, ex_b] ! i)"
  shows "walk_take w = Inr (w\<lparr>cw_cursor := [(targetKey ex_a, i + 1)], cw_queue := [],
    cw_pending := jm_put ([ex_a, ex_b] ! i) \<lparr>pl_attempt = [ex_a, ex_b] ! i, pl_group = ex_group, pl_started = False\<rparr> (cw_pending w)\<rparr>,
    Some ([ex_a, ex_b] ! i))"
  by (subst walk_take.simps) (use assms in \<open>simp add: cursor_of_def ex_group_parts Let_def\<close>)

definition ex_started :: credential_walk where
  "ex_started = run_walk [Next 0, Start ex_a 0] ex_walk"

lemma ex_started_parts:
  "ex_started = \<lparr>cw_groups = [ex_group], cw_cursor = [(targetKey ex_a, 1)], cw_queue = [], cw_providerSuppressed = [],
     cw_deploymentClosed = [], cw_suppressed = [], cw_lru = lru_touch ''p#a'' new_lru, cw_budgetMs = 45000, cw_started = 1,
     cw_skipped = 0, cw_stopped = False, cw_startedAt = Some 0,
     cw_pending = [(ex_a, \<lparr>pl_attempt = ex_a, pl_group = ex_group, pl_started = True\<rparr>)], cw_maxInFlight = 1\<rparr>"
proof -
  have "walk_next ex_walk 0 = walk_take ex_walk" by (simp add: walk_next_def ex_walk_parts budgetAllowsStart_def)
  also have "\<dots> = Inr (ex_walk\<lparr>cw_cursor := [(targetKey ex_a, 1)], cw_queue := [],
      cw_pending := [(ex_a, \<lparr>pl_attempt = ex_a, pl_group = ex_group, pl_started = False\<rparr>)]\<rparr>, Some ex_a)"
    using ex_take [of ex_walk 0] by (simp add: ex_walk_parts isSuppressed_def)
  finally show ?thesis
    by (simp add: ex_started_def ex_walk_parts recordStarted_def unless_thrown_def)
      (simp add: ex_try_def)
qed

lemma ex_started_outcome:
  "record_outcome ex_a out ex_started = Inr (call_walk (Outcome ex_a out) ex_started)"
  by (simp add: ex_started_parts record_outcome_def unless_thrown_def Let_def)

theorem walk_stops_witness:
  "offers [Next 5] (call_walk (Outcome ex_a (ex_out (Some 200) None)) ex_started) = []"
  using walk_stops [OF ex_two_distinct ex_started_def [unfolded ex_walk_def] ex_started_outcome, of "ex_out (Some 200) None" "[Next 5]"]
  by (simp add: stopping_outcome_def ex_out_def)

text \<open>Once a refusal told of a credential is recorded, no attempt that the refused scope covers is handed out anew.
  Without a stated scope the statuses 401, 402, 403 and 429 close the attempt itself only.\<close>

theorem walk_refused_scope:
  assumes "distinct attempts"
    and "w = run_walk calls (new_walk lc lru ev freshness selectionNow budget suppressed cap attempts)"
    and "record_outcome a out w = Inr w'" and "\<not> stopping_outcome out" and "wo_kind out \<noteq> Some WProviderTransport"
    and "credential_scoped out" and "b \<in> set (offers later w')"
  shows "\<not> scopeMatches (exact_scope a out) b"
proof
  assume m: "scopeMatches (exact_scope a out) b"
  have "walk_ok w" using run_ok [OF new_walk_ok(1) [OF assms(1) refl]] assms(2) by blast
  moreover have w': "w' = call_walk (Outcome a out) w" using assms(3) by (simp add: unless_thrown_def)
  ultimately have ok: "walk_ok w'" using call_ok by blast
  have "accepted_fact (exact_scope a out) \<in> set (cw_suppressed w')"
    using assms(3-6) by (auto simp: record_outcome_def Let_def split: option.splits if_splits)
  moreover from offers_spec [OF ok assms(7)] obtain w'' where
    "walk_ok w'' \<and> grows w' w'' \<and> offerable w'' b \<and> \<not> cw_stopped w''" by (elim exE)
  ultimately have "accepted_fact (exact_scope a out) \<in> set (cw_suppressed w'')" "\<not> isSuppressed w'' b"
    by (auto simp: grows_def offerable_def)
  then show False using m by (auto simp: isSuppressed_def list_ex_iff accepted_fact_def)
qed

theorem walk_refused_scope_witness:
  "\<not> scopeMatches (AttemptScope ''p'' ''p#a'' ''m'') (ex_try 1 ''b'' DeclaredPresent ''m'')"
proof -
  define w where "w = call_walk (Outcome ex_a (ex_out (Some 429) None)) ex_started"
  have parts: "w = \<lparr>cw_groups = [ex_group], cw_cursor = [(targetKey ex_a, 1)], cw_queue = [targetKey ex_a], cw_providerSuppressed = [],
     cw_deploymentClosed = [], cw_suppressed = [accepted_fact (AttemptScope ''p'' ''p#a'' ''m'')], cw_lru = lru_touch ''p#a'' new_lru,
     cw_budgetMs = 45000, cw_started = 1, cw_skipped = 0, cw_stopped = False, cw_startedAt = Some 0, cw_pending = [],
     cw_maxInFlight = 1\<rparr>"
    by (simp add: w_def ex_started_parts record_outcome_def unless_thrown_def Let_def ex_out_def stopping_outcome_def credential_scoped_def
        releaseGroup_def cursor_of_def ex_group_parts exact_scope_def jm_del_def) (simp add: ex_try_def model_text_def)
  have free: "\<not> isSuppressed w ex_b"
    by (simp add: parts isSuppressed_def accepted_fact_def) (simp add: ex_try_def)
  have "walk_next w 5 = walk_take w" unfolding parts by (simp add: walk_next_def budgetAllowsStart_def)
  also have "\<dots> = Inr (w\<lparr>cw_cursor := [(targetKey ex_a, 2)], cw_queue := [],
      cw_pending := [(ex_b, \<lparr>pl_attempt = ex_b, pl_group = ex_group, pl_started = False\<rparr>)]\<rparr>, Some ex_b)"
    using ex_take [of w 1] free by (simp add: parts numeral_2_eq_2)
  finally have "ex_b \<in> set (offers [Next 5] w)" by (simp add: parts offer_of_def isPending_def)
  then have "ex_b \<in> set (offers [Next 5] (call_walk (Outcome ex_a (ex_out (Some 429) None)) ex_started))" unfolding w_def .
  then show ?thesis
    using walk_refused_scope [OF ex_two_distinct ex_started_def [unfolded ex_walk_def] ex_started_outcome,
      of "ex_out (Some 429) None" "ex_try 1 ''b'' DeclaredPresent ''m''" "[Next 5]"]
    by (simp add: stopping_outcome_def credential_scoped_def ex_out_def exact_scope_def ex_try_def model_text_def)
qed

end
