(* ===== verification/Breaker_Props.thy ===== *)
theory Breaker_Props
  imports Breaker_Inv
begin

text \<open>
  The properties of the circuit breaker, over every reachable interleaving of its operations.
\<close>

section \<open>Lemmas\<close>

lemma others_opened [simp]: "bk_opened (p', b) = bk_opened (p, b)"
  by (simp add: bk_opened_def)

lemma step_keeps_next:
  "breaker_step s s' \<Longrightarrow> breaker_ok s \<Longrightarrow> w_next (p_world (fst s)) \<le> w_next (p_world (fst s'))"
proof (induction rule: breaker_step.induct)
  case (Begin s t start tokens)
  obtain p b where s: "s = (p, b)" by force
  then show ?case
    by (auto simp: beginAttempt_def lc_beginAttempt_def Let_def)
next
  case (Observe s a ob)
  obtain p b where s: "s = (p, b)" by force
  obtain s' x where e: "observeHeaders a ob (p, b) = (s', x)" by (rule prod.exhaust)
  show ?case using observe_effect [OF e] by (auto simp: s e)
next
  case (Complete s a oc)
  obtain p b where s: "s = (p, b)" by force
  have "w_next (mark_completed w x) = w_next w" for w x by (cases x) simp_all
  then show ?case
    by (auto simp: s completeAttempt_def lc_completeAttempt_def Let_def split: sum.splits option.splits)
next
  case (Reset s s')
  then show ?case by (cases s) (auto simp: reset_def new_lifecycle_def split: if_splits)
qed (simp_all add: others_acted_def)

lemma step_keeps_closed:
  "breaker_step s s' \<Longrightarrow> breaker_ok s \<Longrightarrow> h < w_next (p_world (fst s)) \<Longrightarrow> bk_opened s h = None \<Longrightarrow> bk_opened s' h = None"
proof (induction rule: breaker_step.induct)
  case (Begin s t start tokens)
  obtain p b where s: "s = (p, b)" by force
  have att: "attempts_ok (p, b)" using Begin(1) by (simp add: s breaker_ok_def)
  obtain p' b' where beg: "beginAttempt t start tokens (p, b) = ((p', b'), Inr (w_next (p_world p)))"
    using begin_accepts [OF att] by blast
  show ?case using Begin(2,3) begin_effect(3) [OF att beg] by (simp add: s beg)
next
  case (Observe s a ob)
  obtain p b where s: "s = (p, b)" by force
  obtain s' x where e: "observeHeaders a ob (p, b) = (s', x)" by (rule prod.exhaust)
  show ?case using observe_effect [OF e] Observe(3) unfolding s e
    by (auto simp: bk_opened_def split: option.splits if_splits)
next
  case (Complete s a oc)
  obtain s' x where e: "completeAttempt a oc s = (s', x)" by (rule prod.exhaust)
  show ?case
  proof (cases x)
    case (Inl f)
    then show ?thesis using complete_error e Complete(3) by (metis fst_conv)
  next
    case (Inr c)
    then show ?thesis using bk.complete_closes [OF Complete(1) e [unfolded Inr]] Complete(3) e by auto
  qed
next
  case (Reset s s')
  then show ?case by (cases s; cases s') (auto dest: reset_ok(2))
next
  case (Others b p p')
  then show ?case by (metis others_opened)
qed (metis frame fst_conv recordOutcome_def recordCredentialFault_def opened_ledger)+

lemma steps_keep_closed:
  assumes "breaker_step\<^sup>*\<^sup>* s s'" and "breaker_ok s" and "h < w_next (p_world (fst s))" and "bk_opened s h = None"
  shows "breaker_ok s' \<and> h < w_next (p_world (fst s')) \<and> bk_opened s' h = None"
  using assms(1)
proof (induction rule: rtranclp_induct)
  case (step s1 s2)
  then show ?case using breaker_step_ok step_keeps_closed step_keeps_next by (meson order_less_le_trans)
qed (use assms in simp)

lemma opened_known: "breaker_ok s \<Longrightarrow> bk_opened s h = Some t \<Longrightarrow> h < w_next (p_world (fst s))"
  by (cases s) (auto simp: breaker_ok_def attempts_ok_def bk_opened_def split: option.splits)

lemma closed_refused:
  assumes "breaker_ok s" and "bk_opened s h = None"
  shows "\<exists>e. completeAttempt (HRef h) oc s = (s, Inl e)"
proof -
  obtain s' x where e: "completeAttempt (HRef h) oc s = (s', x)" by (rule prod.exhaust)
  show ?thesis
  proof (cases x)
    case (Inl f)
    then show ?thesis using complete_error e by metis
  next
    case (Inr c)
    then show ?thesis using bk.complete_closes [OF assms(1) e [unfolded Inr]] assms(2) by auto
  qed
qed

section \<open>Completion\<close>

text \<open>C1. A handle is completed at most once: after a completion is accepted, every later completion
  of that handle is refused and changes nothing, whatever operations ran in between.\<close>

theorem completed_at_most_once:
  assumes "breaker_reachable s" and "completeAttempt (HRef h) oc s = (s1, Inr c)" and "breaker_step\<^sup>*\<^sup>* s1 s2"
  shows "\<exists>e. completeAttempt (HRef h) oc' s2 = (s2, Inl e)"
proof -
  have ok: "breaker_ok s" using assms(1) by (rule reachable_ok)
  obtain t where t: "bk_opened s h = Some t" "bk_opened s1 h = None"
    using bk.complete_closes [OF ok assms(2)] by auto
  have st: "breaker_step s s1" using breaker_step.Complete [of s "HRef h" oc] assms(2) by simp
  have "h < w_next (p_world (fst s1))"
    using step_keeps_next [OF st ok] opened_known [OF ok t(1)] by simp
  then show ?thesis
    using steps_keep_closed [OF assms(3) breaker_step_ok [OF st ok] _ t(2)] closed_refused by blast
qed

section \<open>A concrete process\<close>

definition ex_target :: provider_target where
  "ex_target = \<lparr>t_provider = ''p'', t_model = Some ''m'', t_kind = OpenAI, t_credentialId = ''p#k'', t_base = None\<rparr>"

definition ex_base :: outcome_base where
  "ex_base = \<lparr>o_target = ex_target, o_provenance = Upstream, o_completedAt = 100000, o_elapsedMs = Fin 70000\<rparr>"

definition ex_new :: "process \<times> breaker" where
  "ex_new = (\<lparr>p_world = \<lparr>w_next = 2, w_known = (\<lambda>_. None)\<rparr>, p_owners = (\<lambda>_. None)\<rparr>,
     \<lparr>b_states = [], b_inFlight = [], b_starts = [], b_owner = 0, b_generation = 1,
       b_lifecycle = \<lparr>lc_owner = 1, lc_generation = 1, lc_issued = 0, lc_closed = False\<rparr>,
       b_attempts = (\<lambda>_. None), b_notified = 0\<rparr>)"

definition ex_begun :: "process \<times> breaker" where
  "ex_begun = fst (beginAttempt ex_target (Fin 30000) None ex_new)"

lemma ex_new_reachable: "breaker_reachable ex_new"
proof (rule breaker_reachable.New)
  show "world_ok (p_world \<lparr>p_world = empty_world, p_owners = (\<lambda>_. None)\<rparr>)"
    by (simp add: world_ok_def empty_world_def)
  show "new_breaker \<lparr>p_world = empty_world, p_owners = (\<lambda>_. None)\<rparr> = Inr ex_new"
    by (simp add: new_breaker_def new_lifecycle_def ex_new_def empty_world_def MAX_SAFE_INTEGER_def)
qed

lemma ex_begun_reachable: "breaker_reachable ex_begun"
  unfolding ex_begun_def by (rule breaker_reachable.Step [OF ex_new_reachable breaker_step.Begin])

lemma ex_begun_open: "bk_opened ex_begun 2 = Some ex_target"
  by (simp add: bk_opened_def ex_begun_def ex_new_def beginAttempt_def lc_beginAttempt_def Let_def)

lemma ex_completes:
  assumes "o_target (base_of oc) = ex_target"
  shows "\<exists>s' c. completeAttempt (HRef 2) oc ex_begun = (s', Inr c) \<and> ca_target c = ex_target"
  using bk.complete_accepts [OF reachable_ok [OF ex_begun_reachable] ex_begun_open, of oc] assms
  by (auto simp: outcome_target_def)

theorem completed_at_most_once_witness:
  "\<exists>s c e. completeAttempt (HRef 2) (Succeeded ex_base 200) ex_begun = (s, Inr c) \<and>
     completeAttempt (HRef 2) (Failed ex_base HttpFailure (Some 500) None) s = (s, Inl e)"
proof -
  obtain s c where c: "completeAttempt (HRef 2) (Succeeded ex_base 200) ex_begun = (s, Inr c)"
    using ex_completes [of "Succeeded ex_base 200"] by (auto simp: ex_base_def)
  from completed_at_most_once [OF ex_begun_reachable c rtranclp.rtrancl_refl] c show ?thesis by blast
qed

text \<open>C2. In every reachable state, the in-flight count of a credential is the number of its attempts that were begun in the
  current generation, that is since the last reset, and not completed. A reset gives up the leases of the attempts begun before
  it, completed or not: they are never counted again.\<close>

theorem lease_count:
  assumes "breaker_reachable (p, b)"
  shows "inFlightCredential b c = card {h. \<exists>t. bk_opened (p, b) h = Some t \<and> t_credentialId t = c}"
  using reachable_ok [OF assms] by (simp add: breaker_ok_def leases_ok_def open_on_def)

theorem lease_count_witness:
  "inFlightCredential (snd ex_begun) ''p#k'' = card {h. \<exists>t. bk_opened ex_begun h = Some t \<and> t_credentialId t = ''p#k''} \<and>
     inFlightCredential (snd ex_begun) ''p#k'' = 1"
proof
  show "inFlightCredential (snd ex_begun) ''p#k'' = card {h. \<exists>t. bk_opened ex_begun h = Some t \<and> t_credentialId t = ''p#k''}"
    using lease_count [of "fst ex_begun" "snd ex_begun"] ex_begun_reachable by simp
  show "inFlightCredential (snd ex_begun) ''p#k'' = 1"
    by (simp add: inFlightCredential_def ex_begun_def ex_new_def beginAttempt_def lc_beginAttempt_def Let_def ex_target_def)
qed

text \<open>In every reachable state each cell stands under the key of its own target, with at most 10
  pings, and no attempt log is longer than 10000.\<close>

theorem reachable_cells_bounded:
  assumes "breaker_reachable (p, b)"
  shows "(\<forall>k s. jm_get (b_states b) k = Some s \<longrightarrow> k = getKey (cs_target s) \<and> length (pings s) \<le> 10) \<and>
     (\<forall>k l. jm_get (b_starts b) k = Some l \<longrightarrow> length l \<le> 10000)"
proof -
  have ok: "cells_ok b" "logs_ok b" using reachable_ok [OF assms] by (simp_all add: breaker_ok_def)
  then show ?thesis using cells_ok_get [OF ok(1)]
    by (auto simp: cell_ok_def logs_ok_def MAX_PING_HISTORY_def MAX_ATTEMPT_STARTS_def)
qed

theorem reachable_cells_bounded_witness:
  "b_starts (snd ex_begun) \<noteq> [] \<and> \<not> (\<exists>k l. jm_get (b_starts (snd ex_begun)) k = Some l \<and> 10000 < length l)"
proof
  show "b_starts (snd ex_begun) \<noteq> []"
    by (simp add: ex_begun_def ex_new_def beginAttempt_def lc_beginAttempt_def recordAttemptStart_def Let_def)
  show "\<not> (\<exists>k l. jm_get (b_starts (snd ex_begun)) k = Some l \<and> 10000 < length l)"
    using reachable_cells_bounded [of "fst ex_begun" "snd ex_begun"] ex_begun_reachable by fastforce
qed

text \<open>A completion changes the breaker cell of the attempt's own target only.\<close>

theorem complete_touches_own_cell:
  assumes "breaker_reachable (p, b)" and "completeAttempt a oc (p, b) = ((p', b'), Inr c)"
    and "getKey u \<noteq> getKey (ca_target c)"
  shows "getState b' u = getState b u"
proof -
  have att: "attempts_ok (p, b)" using reachable_ok [OF assms(1)] by (simp add: breaker_ok_def)
  show ?thesis
  proof (rule complete_effect [OF att assms(2)])
    fix t r b2
    assume e: "b' = applyTerminalOutcome t oc (ba_observation r) b2" "b_states b2 = b_states b" "ca_target c = t"
    have "getState b' u = getState b2 u" using assms(3) by (simp add: e(1,3) terminal_other_cell)
    then show ?thesis by (simp add: getState_def e(2))
  qed
qed

theorem complete_touches_own_cell_witness:
  "\<exists>p b c. completeAttempt (HRef 2) (Failed ex_base HttpFailure (Some 500) None) ex_begun = ((p, b), Inr c) \<and>
     getState b (ex_target\<lparr>t_model := Some ''n''\<rparr>) = getState (snd ex_begun) (ex_target\<lparr>t_model := Some ''n''\<rparr>)"
proof -
  obtain p b c where c: "completeAttempt (HRef 2) (Failed ex_base HttpFailure (Some 500) None) (fst ex_begun, snd ex_begun) =
      ((p, b), Inr c)" "ca_target c = ex_target"
    using ex_completes [of "Failed ex_base HttpFailure (Some 500) None"] by (auto simp: ex_base_def)
  have "getKey (ex_target\<lparr>t_model := Some ''n''\<rparr>) \<noteq> getKey (ca_target c)"
    by (simp add: c(2) getKey_def cell_key_def ex_target_def)
  from complete_touches_own_cell [OF _ c(1) this] ex_begun_reachable c(1) show ?thesis by auto
qed

text \<open>A reset makes every handle issued before it stale, returns every lease, and forgets every
  cooldown and credential fault.\<close>

theorem reset_forgets:
  assumes "breaker_reachable s" and "reset s = Inr (p', b')" and "b_attempts (snd s) h \<noteq> None"
  shows "completeAttempt (HRef h) oc (p', b') = ((p', b'), Inl StaleHandle) \<and> inFlightCredential b' c = 0 \<and>
     isHealthy b' t now \<and> \<not> hasCredentialFault b' t now"
proof -
  obtain p b where s: "s = (p, b)" by force
  have ok: "breaker_ok (p, b)" using reachable_ok [OF assms(1)] by (simp add: s)
  have b': "b' = b\<lparr>b_states := [], b_inFlight := [], b_starts := [], b_generation := b_generation b + 1,
      b_lifecycle := b_lifecycle b'\<rparr>"
    using assms(2) by (auto simp: s reset_def new_lifecycle_def split: if_splits)
  obtain r where r: "b_attempts b h = Some r" using assms(3) by (auto simp: s)
  have old: "ba_generation r \<le> b_generation b" using ok r by (auto simp: breaker_ok_def attempts_ok_def)
  have f: "b_attempts b' = b_attempts b" "b_generation b' = b_generation b + 1" "b_states b' = []" "b_inFlight b' = []"
    by (subst b', simp)+
  show ?thesis using old
    by (simp add: completeAttempt_def f r inFlightCredential_def isHealthy_def hasCredentialFault_def getState_def)
qed

theorem reset_forgets_witness:
  "\<exists>p b. reset ex_begun = Inr (p, b) \<and>
     completeAttempt (HRef 2) (Succeeded ex_base 200) (p, b) = ((p, b), Inl StaleHandle)"
proof -
  have "\<exists>p b. reset ex_begun = Inr (p, b)"
    by (simp add: reset_def new_lifecycle_def ex_begun_def ex_new_def beginAttempt_def lc_beginAttempt_def Let_def
        recordAttemptStart_def MAX_SAFE_INTEGER_def)
  then obtain p b where r: "reset ex_begun = Inr (p, b)" by blast
  have "b_attempts (snd ex_begun) 2 \<noteq> None"
    using ex_begun_open by (auto simp: bk_opened_def case_prod_unfold split: option.splits)
  from reset_forgets [OF ex_begun_reachable r this] r show ?thesis by blast
qed

section \<open>Outcomes and one cell\<close>

lemma getOrCreate_terminal_failed:
  assumes "PROVENANCE_REACHES_HEALTH_PATH (o_provenance base)" and "status \<notin> {Some 401, Some 403}"
    and "\<not> spared_client_error status"
  shows "getOrCreate (applyTerminalOutcome t (Failed base fk status retry) ob b) t =
     health_step t \<lparr>h_ok = False, h_status = status, h_elapsedMs = o_elapsedMs base, h_at = o_completedAt base,
       h_quota = None, h_retryAfterMs = (case retry of Some r \<Rightarrow> Some r | None \<Rightarrow> Option.bind ob ho_retryAfterMs)\<rparr>
       (getOrCreate (recordQuotaObservations t (Option.bind ob ho_quota) b) t)"
  using assms by (simp add: applyTerminalOutcome_def Let_def getOrCreate_getState cell_simps)

lemma getOrCreate_observations:
  "getOrCreate (recordQuotaObservations t obs b) t = merge_into obs (getOrCreate b t)"
  by (auto simp: recordQuotaObservations_def getOrCreate_getState cell_simps merge_into_def split: option.splits)

lemma getState_observations:
  "getState (recordQuotaObservations t obs b) u =
     (if obs = None \<or> obs = Some [] \<or> getKey u \<noteq> getKey t then getState b u
      else Some (merge_into obs (case getState b u of Some s \<Rightarrow> s | None \<Rightarrow> fresh_cell t)))"
  by (auto simp: recordQuotaObservations_def cell_simps getOrCreate_getState split: option.splits)
    (simp_all add: getState_def)

lemma merge_into_None [simp]: "merge_into None s = s"
  by (simp add: merge_into_def)

lemma getOrCreate_modify: "getOrCreate (modify_cell t f b) t = f (getOrCreate b t)"
  by (simp add: getOrCreate_getState cell_simps)

lemma getOrCreate_notify: "getOrCreate (notifyStateChanged b) t = getOrCreate b t"
  by (simp add: getOrCreate_getState cell_simps)

lemma isHealthy_cell: "0 \<le> now \<Longrightarrow> isHealthy b t now = (cooldownUntil (getOrCreate b t) \<le> now)"
  by (auto simp: isHealthy_def getOrCreate_getState fresh_cell_def split: option.splits)

lemma hasCredentialFault_cell: "0 \<le> now \<Longrightarrow> hasCredentialFault b t now = (now < credentialFaultUntil (getOrCreate b t))"
  by (auto simp: hasCredentialFault_def getOrCreate_getState fresh_cell_def split: option.splits)

text \<open>A failure that reaches the health path, neither a 429 nor a 402 nor a spared client error, with no
  Retry-After, on a cell that already failed once, keeps the cell unhealthy for at least as long as
  the failed attempt took, within one and fifteen minutes.\<close>

theorem failure_outlasts_waste:
  assumes "PROVENANCE_REACHES_HEALTH_PATH (o_provenance base)"
    and "status \<notin> {Some 401, Some 403, Some 402, Some 429}" and "\<not> spared_client_error status"
    and "Option.bind ob ho_retryAfterMs = None" and "1 \<le> consecutiveFailures (getOrCreate b t)"
    and "o_elapsedMs base = Fin e" and "0 \<le> now" and "now < o_completedAt base + max 60000 (min 900000 e)"
  shows "\<not> isHealthy (applyTerminalOutcome t (Failed base fk status None) ob b) t now"
proof -
  let ?oc = "\<lparr>h_ok = False, h_status = status, h_elapsedMs = o_elapsedMs base, h_at = o_completedAt base,
       h_quota = None, h_retryAfterMs = None\<rparr>"
  let ?s = "getOrCreate (recordQuotaObservations t (Option.bind ob ho_quota) b) t"
  have "h_at ?oc + fst (failureCooldown (h_elapsedMs ?oc)) \<le> cooldownUntil (health_step t ?oc ?s)"
    by (rule generic_failure_cools) (use assms in \<open>auto simp: getOrCreate_observations\<close>)
  then show ?thesis
    using assms by (simp add: isHealthy_cell getOrCreate_terminal_failed failureCooldown_wasted)
qed

definition ex_failed_once :: breaker where
  "ex_failed_once = recordOutcome ex_target \<lparr>h_ok = False, h_status = Some 500, h_elapsedMs = Fin 10, h_at = 20000,
     h_quota = None, h_retryAfterMs = None\<rparr> (snd ex_new)"

lemma ex_failed_once_cell: "consecutiveFailures (getOrCreate ex_failed_once ex_target) = 1"
  by (simp add: ex_failed_once_def recordOutcome_def getOrCreate_getState cell_simps health_step_def Let_def)
    (simp add: ex_new_def getState_def fresh_cell_def)

theorem failure_outlasts_waste_witness:
  "\<not> isHealthy (applyTerminalOutcome ex_target (Failed ex_base TransportFailure (Some 500) None) None ex_failed_once)
     ex_target 169999"
  by (rule failure_outlasts_waste [where e = 70000])
    (simp_all add: ex_base_def spared_client_error_def ex_failed_once_cell)

text \<open>Whatever one terminal outcome is, it leaves the cell's cooldown as it was, ends it, or sets it
  between one second and one day after the completion.\<close>

theorem outcome_cooldown_bounds:
  "cooldownUntil (getOrCreate (applyTerminalOutcome t oc ob b) t) = cooldownUntil (getOrCreate b t) \<or>
   cooldownUntil (getOrCreate (applyTerminalOutcome t oc ob b) t) = 0 \<or>
   (o_completedAt (base_of oc) + 1000 \<le> cooldownUntil (getOrCreate (applyTerminalOutcome t oc ob b) t) \<and>
    cooldownUntil (getOrCreate (applyTerminalOutcome t oc ob b) t) \<le> o_completedAt (base_of oc) + 86400000)"
proof -
  have step: "cooldownUntil (health_step t h s) = cooldownUntil s \<or> cooldownUntil (health_step t h s) = 0 \<or>
      (h_at h + 1000 \<le> cooldownUntil (health_step t h s) \<and> cooldownUntil (health_step t h s) \<le> h_at h + 86400000)" for h s
  proof (cases "h_ok h")
    case False
    then obtain s' where "health_step t h s = failure_ladder t h s'" "cooldownUntil s' = cooldownUntil s"
      by (metis health_step_failed)
    then show ?thesis using failure_ladder_bounds [of t h s'] by auto
  qed (simp add: health_step_ok)
  have health: "getOrCreate (applyHealthOutcome t h b) t = health_step t h (getOrCreate b t)" for h b
    by (simp add: getOrCreate_getState cell_simps)
  have fault: "cooldownUntil (getOrCreate (applyCredentialFault t st now b) t) = cooldownUntil (getOrCreate b t)" for st now b
    by (simp add: applyCredentialFault_def getOrCreate_getState cell_simps)
  note s = step [of "\<lparr>h_ok = k, h_status = st, h_elapsedMs = o_elapsedMs (base_of oc), h_at = o_completedAt (base_of oc),
      h_quota = None, h_retryAfterMs = r\<rparr>" for k st r]
  show ?thesis
  proof (cases oc)
    case (Succeeded base st)
    then show ?thesis using s [of True "Some st" None "merge_into (Option.bind ob ho_quota) (getOrCreate b t)"]
      by (simp add: applyTerminalOutcome_def Let_def health getOrCreate_observations)
  next
    case (Failed base fk st r)
    then show ?thesis
      using s [of False st "case r of Some x \<Rightarrow> Some x | None \<Rightarrow> Option.bind ob ho_retryAfterMs"
          "merge_into (Option.bind ob ho_quota) (getOrCreate b t)"]
      by (auto simp: applyTerminalOutcome_def Let_def health fault getOrCreate_observations)
  next
    case (Cancelled base cause r)
    then show ?thesis using s [of False None None "getOrCreate b t"]
      by (simp add: applyTerminalOutcome_def applyCancelledOutcome_def health)
  qed
qed

text \<open>The n-th unexplained 429 in a row on a remote target cools it for 2 minutes, 10 minutes, an hour,
  then a day, each counted from the outcome itself.\<close>

theorem unexplained_429_ladder:
  assumes "\<forall>oc \<in> set (ocs @ [oc]). unexplained_429 t oc" and "unexplained429s (getOrCreate b t) = 0"
  shows "cooldownUntil (getOrCreate (fold (recordOutcome t) (ocs @ [oc]) b) t) =
    h_at oc + [120000, 600000, 3600000, 86400000] ! min (length ocs) 3"
proof -
  have one: "getOrCreate (recordOutcome t x b) t = health_step t x (getOrCreate b t)" for x b
    by (simp add: recordOutcome_def getOrCreate_getState cell_simps)
  have run: "getOrCreate (fold (recordOutcome t) xs b) t = fold (health_step t) xs (getOrCreate b t)" for xs
    by (induction xs arbitrary: b) (simp_all add: one)
  have "unexplained429s (fold (health_step t) ocs (getOrCreate b t)) = length ocs"
    using assms unexplained_429_run [of ocs t "getOrCreate b t"] by simp
  then show ?thesis using assms(1)
    by (simp add: run one unexplained_429_step(2) RATE_LIMIT_ESCALATION_MS_def numeral_3_eq_3)
qed

theorem unexplained_429_ladder_witness:
  "cooldownUntil (getOrCreate (fold (recordOutcome ex_target)
      (map (\<lambda>x. \<lparr>h_ok = False, h_status = Some 429, h_elapsedMs = Fin 10, h_at = x, h_quota = None, h_retryAfterMs = None\<rparr>)
        [0, 120000] @ [\<lparr>h_ok = False, h_status = Some 429, h_elapsedMs = Fin 10, h_at = 720000, h_quota = None,
          h_retryAfterMs = None\<rparr>]) (snd ex_new)) ex_target) = 720000 + 3600000"
  by (subst unexplained_429_ladder)
    (simp_all add: unexplained_429_def isLoopbackTarget_def ex_target_def ex_new_def getOrCreate_def fresh_cell_def)

lemma served_recovers:
  assumes "PROVENANCE_REACHES_HEALTH_PATH (o_provenance base)" and "0 \<le> now"
    and "b' = applyTerminalOutcome t (Succeeded base status) ob b"
  shows "isHealthy b' t now \<and> \<not> hasCredentialFault b' t now \<and> consecutiveFailures (getOrCreate b' t) = 0 \<and>
     unexplained429s (getOrCreate b' t) = 0"
  using assms
  by (simp add: applyTerminalOutcome_def Let_def isHealthy_cell hasCredentialFault_cell)
    (simp add: getOrCreate_getState cell_simps health_step_ok)

text \<open>A served request recovers its cell: usable from then on, with every failure counter at zero.\<close>

theorem success_recovers:
  assumes "PROVENANCE_REACHES_HEALTH_PATH (o_provenance base)" and "0 \<le> now"
    and "b' = applyTerminalOutcome t (Succeeded base status) ob b"
  shows "isHealthy b' t now \<and> \<not> hasCredentialFault b' t now \<and> consecutiveFailures (getOrCreate b' t) = 0 \<and>
     unexplained429s (getOrCreate b' t) = 0"
  using assms by (rule served_recovers)

theorem success_recovers_witness:
  "isHealthy (applyTerminalOutcome ex_target (Succeeded ex_base 200) None ex_failed_once) ex_target 100000 \<and>
     consecutiveFailures (getOrCreate (applyTerminalOutcome ex_target (Succeeded ex_base 200) None ex_failed_once) ex_target) = 0"
  using success_recovers [of ex_base 100000 _ ex_target 200 None ex_failed_once] by (simp add: ex_base_def)

text \<open>An outcome the upstream did not cause - a relay mapping defect, an abandoned or mid-response
  cancellation, a cancellation within one minute - leaves the health and the faults of every cell
  as they were.\<close>

theorem spared_outcomes_keep_health:
  assumes "(case oc of
      Succeeded base st \<Rightarrow> o_provenance base = RelayMapperDefect
    | Failed base fk st r \<Rightarrow> o_provenance base = RelayMapperDefect
    | Cancelled base cause r \<Rightarrow> cause = RelayAbandoned \<or> cause = ClientGoneMidResponse \<or> o_elapsedMs base \<le> Fin 60000)"
    and "b' = applyTerminalOutcome t oc ob b" and "0 \<le> now"
  shows "isHealthy b' u now = isHealthy b u now \<and> hasCredentialFault b' u now = hasCredentialFault b u now \<and>
     consecutiveFailures (getOrCreate b' u) = consecutiveFailures (getOrCreate b u) \<and>
     pings (getOrCreate b' u) = pings (getOrCreate b u)"
proof -
  have obs: "isHealthy (recordQuotaObservations t q b) u now = isHealthy b u now \<and>
      hasCredentialFault (recordQuotaObservations t q b) u now = hasCredentialFault b u now \<and>
      consecutiveFailures (getOrCreate (recordQuotaObservations t q b) u) = consecutiveFailures (getOrCreate b u) \<and>
      pings (getOrCreate (recordQuotaObservations t q b) u) = pings (getOrCreate b u)" for q
    using assms(3)
    by (auto simp: isHealthy_def hasCredentialFault_def getState_observations getOrCreate_getState fresh_cell_def
        split: option.splits)
  show ?thesis
  proof (cases oc)
    case (Cancelled base cause r)
    then have "b' = b" using assms(1,2)
      by (auto simp: applyTerminalOutcome_def applyCancelledOutcome_def CANCELLATION_EVIDENCE_MS_def DEFAULT_COOLDOWN_MS_def)
    then show ?thesis by simp
  qed (use assms obs in \<open>simp_all add: applyTerminalOutcome_def Let_def\<close>)
qed

theorem spared_outcomes_keep_health_witness:
  "isHealthy (applyTerminalOutcome ex_target (Cancelled ex_base RelayAbandoned None) None ex_failed_once) ex_target 100000 =
     isHealthy ex_failed_once ex_target 100000"
  using spared_outcomes_keep_health [of "Cancelled ex_base RelayAbandoned None" _ ex_target None ex_failed_once 100000 ex_target]
  by simp

text \<open>An upstream 401 or 403 faults the credential of its cell for exactly five minutes and does not
  touch the cell's cooldown.\<close>

theorem credential_fault_window:
  assumes "PROVENANCE_REACHES_HEALTH_PATH (o_provenance base)" and "st = 401 \<or> st = 403" and "0 \<le> now"
    and "b' = applyTerminalOutcome t (Failed base fk (Some st) retry) ob b"
  shows "hasCredentialFault b' t now = (now < o_completedAt base + 300000) \<and> isHealthy b' t now = isHealthy b t now"
proof -
  have "getOrCreate b' t = (merge_into (Option.bind ob ho_quota) (getOrCreate b t))
      \<lparr>credentialFailures := credentialFailures (merge_into (Option.bind ob ho_quota) (getOrCreate b t)) + 1,
       lastCredentialStatus := Some st, credentialFaultUntil := o_completedAt base + 300000\<rparr>"
    using assms(1,2,4)
    by (auto simp: applyTerminalOutcome_def Let_def applyCredentialFault_def getOrCreate_modify CREDENTIAL_FAULT_TTL_MS_def
        getOrCreate_observations getOrCreate_notify)
  then show ?thesis using assms(3) by (simp add: isHealthy_cell hasCredentialFault_cell)
qed

theorem credential_fault_window_witness:
  "hasCredentialFault (applyTerminalOutcome ex_target (Failed ex_base HttpFailure (Some 401) None) None (snd ex_new))
     ex_target 399999"
  using credential_fault_window [of ex_base 401 399999 _ ex_target HttpFailure None None "snd ex_new"]
  by (simp add: ex_base_def)

text \<open>A quota cooldown cools its target until the given time at least, never shortens a cooldown that
  stands, and touches no other cell.\<close>

theorem quota_cooldown_extends:
  assumes "0 \<le> now" and "now < u" and "now \<le> at'"
  shows "isHealthy (recordQuotaCooldown t (Fin u) now b) t at' = (u \<le> at' \<and> isHealthy b t at')"
  using assms
  by (auto simp: isHealthy_cell recordQuotaCooldown_def getOrCreate_modify getOrCreate_getState cell_simps
      split: option.splits)

theorem quota_cooldown_extends_witness:
  "isHealthy (recordQuotaCooldown ex_target (Fin 500000) 0 ex_failed_once) ex_target 499999 =
     ((500000::rat) \<le> 499999 \<and> isHealthy ex_failed_once ex_target 499999)"
  using quota_cooldown_extends [of 0 500000 499999 ex_target ex_failed_once] by simp

text \<open>Every cell the re-probe worker is offered is cooling, and a successful probe of it ends exactly
  that cooldown.\<close>

theorem reprobe_row_ends:
  assumes "breaker_reachable (p, b)" and "row \<in> set (rateLimitCoolingCells b now)"
    and "key = cell_key (cc_credentialId row) (cc_model row)"
  shows "\<exists>s. jm_get (b_states b) key = Some s \<and> now < cooldownUntil s \<and>
     endRateLimitCooldown key now b =
       (notifyStateChanged (b\<lparr>b_states := jm_put key (s\<lparr>cooldownUntil := 0, cooldownSource := None\<rparr>) (b_states b)\<rparr>), True)"
proof -
  have ok: "cells_ok b" using reachable_ok [OF assms(1)] by (simp add: breaker_ok_def)
  obtain k s where ks: "(k, s) \<in> set (b_states b)" "reprobe_cell now s = Some row"
    using assms(2) by (auto simp: rateLimitCoolingCells_def List.map_filter_def)
  have "k = getKey (cs_target s)" using ok ks(1) by (auto simp: cells_ok_def list_all_iff cell_ok_def)
  also have "\<dots> = key"
    using ks(2) by (auto simp: reprobe_cell_def assms(3) getKey_def split: option.splits if_splits)
  finally have "jm_get (b_states b) key = Some s" using ok ks(1) by (auto simp: cells_ok_def intro: jm_in_get)
  then show ?thesis using reprobe_ends [OF ks(2)]
    by (auto simp: endRateLimitCooldown_def ends_rate_limit_def split: if_splits)
qed

definition ex_limited :: "process \<times> breaker" where
  "ex_limited = (fst ex_new, recordOutcome ex_target \<lparr>h_ok = False, h_status = Some 429, h_elapsedMs = Fin 10, h_at = 0,
     h_quota = None, h_retryAfterMs = None\<rparr> (snd ex_new))"

lemma ex_limited_reachable: "breaker_reachable (fst ex_limited, snd ex_limited)"
  using breaker_reachable.Step [OF ex_new_reachable, of ex_limited] breaker_step.Outcome [of "fst ex_new" "snd ex_new"]
  by (auto simp: ex_limited_def)

lemma ex_limited_rows: "rateLimitCoolingCells (snd ex_limited) 1000 =
    [\<lparr>cc_provider = ''p'', cc_model = Some ''m'', cc_credentialId = ''p#k'', cc_cooldownUntil = 120000, cc_source = Default\<rparr>]"
  by (simp add: ex_limited_def rateLimitCoolingCells_def recordOutcome_def applyHealthOutcome_def notifyStateChanged_def
      modify_cell_def ex_new_def getOrCreate_def fresh_cell_def health_step_def failure_ladder_def Let_def asked_ms_def
      isLoopbackTarget_def ex_target_def RATE_LIMIT_ESCALATION_MS_def cool_def reprobe_cell_def
      probeDisprovesCooldown_def List.map_filter_def merge_into_def)

theorem reprobe_row_ends_witness:
  "\<exists>s. jm_get (b_states (snd ex_limited)) ''p#k/m'' = Some s \<and> 1000 < cooldownUntil s \<and>
     snd (endRateLimitCooldown ''p#k/m'' 1000 (snd ex_limited))"
  using reprobe_row_ends [OF ex_limited_reachable, of _ 1000 "''p#k/m''"]
  by (simp add: ex_limited_rows cell_key_def) auto

text \<open>Ordering by usability drops and adds no target, puts no target before one of a better band, and
  keeps the given order inside a band; so a ready target leads whenever there is one.\<close>

theorem order_demotes_only:
  "mset (orderByUsability b now ts) = mset ts \<and>
   sorted (map (\<lambda>t. usability_rank (usability_of b now t)) (orderByUsability b now ts)) \<and>
   filter (\<lambda>t. usability_of b now t = band) (orderByUsability b now ts) = filter (\<lambda>t. usability_of b now t = band) ts"
proof (intro conjI)
  show "filter (\<lambda>t. usability_of b now t = band) (orderByUsability b now ts) = filter (\<lambda>t. usability_of b now t = band) ts"
    unfolding orderByUsability_def by (rule concat_bands_stable) (use usability_bands in simp_all)
qed (rule ob.order_mset ob.order_ranked)+

section \<open>The attempt-start log\<close>

lemma prune_log_short: "length xs \<le> MAX_ATTEMPT_STARTS \<Longrightarrow> prune_log now xs = dropWhile (\<lambda>s. as_at s < now - 86400000) xs"
  by (auto simp: prune_log_def Let_def ATTEMPT_START_WINDOW_MS_def dropWhile_eq_drop)

definition start_log :: "breaker \<Rightarrow> string \<Rightarrow> attempt_start list" where
  "start_log b k = (case jm_get (b_starts b) k of None \<Rightarrow> [] | Some l \<Rightarrow> l)"

lemma start_log_record:
  "start_log (recordAttemptStart t (Fin now) tk b) (getKey t) =
     prune_log now (start_log b (getKey t) @ [\<lparr>as_at = now, as_tokens = known_tokens tk\<rparr>])"
  by (simp add: start_log_def recordAttemptStart_def Let_def jm.get_put)

lemma filter_dropWhile: "(\<And>x. Q x \<Longrightarrow> \<not> P x) \<Longrightarrow> filter P (dropWhile Q xs) = filter P xs"
  by (induction xs) auto

abbreviation record_starts :: "provider_target \<Rightarrow> (rat \<times> jsnum option) list \<Rightarrow> breaker \<Rightarrow> breaker" where
  "record_starts t starts b \<equiv> fold (\<lambda>(x, tk). recordAttemptStart t (Fin x) tk) starts b"

lemma log_of_starts:
  assumes "start_log b (getKey t) = []" and "sorted (map fst starts)" and "length starts \<le> 10000"
    and "\<forall>x \<in> set starts. fst x \<le> now" and "w \<le> 86400000"
  shows "filter (in_window (now - w) now) (start_log (record_starts t starts b) (getKey t)) =
      map (\<lambda>(x, tk). \<lparr>as_at = x, as_tokens = known_tokens tk\<rparr>) (filter (\<lambda>x. now - w < fst x) starts) \<and>
    sorted (map as_at (start_log (record_starts t starts b) (getKey t))) \<and>
    set (map as_at (start_log (record_starts t starts b) (getKey t))) \<subseteq> set (map fst starts) \<and>
    length (start_log (record_starts t starts b) (getKey t)) \<le> length starts"
  using assms(2-4)
proof (induction starts rule: rev_induct)
  case (snoc x starts)
  obtain a tk where x: "x = (a, tk)" by force
  let ?l = "start_log (record_starts t starts b) (getKey t)"
  have IH: "filter (in_window (now - w) now) ?l =
      map (\<lambda>(x, tk). \<lparr>as_at = x, as_tokens = known_tokens tk\<rparr>) (filter (\<lambda>x. now - w < fst x) starts)"
    "sorted (map as_at ?l)" "set (map as_at ?l) \<subseteq> set (map fst starts)" "length ?l \<le> length starts"
    using snoc by (simp_all add: sorted_append)
  let ?l' = "?l @ [\<lparr>as_at = a, as_tokens = known_tokens tk\<rparr>]"
  have new: "start_log (record_starts t (starts @ [x]) b) (getKey t) = dropWhile (\<lambda>s. as_at s < a - 86400000) ?l'"
    using IH(4) snoc.prems(2) by (simp add: x start_log_record prune_log_short MAX_ATTEMPT_STARTS_def)
  have le: "a \<le> now" "\<forall>y \<in> set starts. fst y \<le> a" using snoc.prems by (auto simp: x sorted_append)
  have "\<forall>s \<in> set ?l. as_at s \<le> a" using IH(3) le(2) by fastforce
  then have srt: "sorted (map as_at ?l')" using IH(2) by (simp add: sorted_append)
  let ?d = "dropWhile (\<lambda>s. as_at s < a - 86400000) ?l'"
  have "filter (in_window (now - w) now) ?d = filter (in_window (now - w) now) ?l'"
    by (rule filter_dropWhile) (use le(1) assms(5) in \<open>auto simp: in_window_def\<close>)
  then have "filter (in_window (now - w) now) ?d =
      map (\<lambda>(x, tk). \<lparr>as_at = x, as_tokens = known_tokens tk\<rparr>) (filter (\<lambda>x. now - w < fst x) (starts @ [x]))"
    using IH(1) le(1) by (simp add: x in_window_def [of _ _ "\<lparr>as_at = a, as_tokens = known_tokens tk\<rparr>"])
  moreover have "sorted (map as_at ?d)"
    by (metis dropWhile_eq_drop drop_map sorted_wrt_drop srt)
  moreover have "set (map as_at ?d) \<subseteq> set (map fst (starts @ [x]))"
  proof -
    have "set (map as_at ?d) \<subseteq> set (map as_at ?l')" using set_dropWhileD by fastforce
    also have "\<dots> \<subseteq> insert a (set (map fst starts))" using IH(3) by auto
    finally show ?thesis by (simp add: x)
  qed
  moreover have "length ?d \<le> length (starts @ [x])"
    using IH(4) length_dropWhile_le [of "\<lambda>s. as_at s < a - 86400000" ?l'] by simp
  ultimately show ?case unfolding new by simp
qed (simp add: assms(1))

text \<open>The live floor under a quota window is exact: with starts recorded in time order, at most ten
  thousand of them, the window read at a later time counts precisely the starts inside it, and its
  tokens are their sum, unknown when one of them is unknown. Pruning never loses a start that a
  window of at most a day could count.\<close>

theorem window_count_exact:
  assumes "start_log b (getKey t) = []" and "sorted (map fst starts)" and "length starts \<le> 10000"
    and "\<forall>x \<in> set starts. fst x \<le> now" and "0 < w" and "w \<le> 86400000"
    and "inside = filter (\<lambda>x. now - w < fst x) starts"
    and "r = attemptsInWindow (record_starts t starts b) (getKey t) (Fin w) now"
  shows "aw_requests r = length inside \<and>
     aw_tokens r = (if \<forall>x \<in> set inside. known_tokens (snd x) \<noteq> None
       then Some (\<Sum>x\<leftarrow>inside. the (known_tokens (snd x))) else None)"
proof -
  define l where "l = start_log (record_starts t starts b) (getKey t)"
  note L = log_of_starts [OF assms(1-4,6), folded l_def]
  define m where "m = rev (map (\<lambda>(x, tk). \<lparr>as_at = x, as_tokens = known_tokens tk\<rparr>) inside)"
  have srt: "sorted_wrt (\<lambda>x y. as_at y \<le> as_at x) (rev l)"
    using L by (simp add: sorted_wrt_rev sorted_map)
  have fil: "filter (in_window (now - w) now) (rev l) = m"
    using L by (simp add: rev_filter [symmetric] assms(7) m_def)
  have "aw_requests r = fst (window_scan (now - w) now (rev l) 0 (Some 0)) \<and>
      aw_tokens r = snd (window_scan (now - w) now (rev l) 0 (Some 0))"
    using assms(5) by (auto simp: assms(8) attemptsInWindow_def start_log_def l_def Let_def split: option.splits)
  then have r: "aw_requests r = length m" "aw_tokens r = (if \<forall>s \<in> set m. as_tokens s \<noteq> None
      then Some (0 + (\<Sum>s\<leftarrow>m. the (as_tokens s))) else None)"
    by (simp_all add: window_scan_exact [OF srt] window_scan_tokens [OF srt] fil)
  have "(\<Sum>s\<leftarrow>m. the (as_tokens s)) = (\<Sum>x\<leftarrow>inside. the (known_tokens (snd x)))"
    by (simp add: m_def rev_map [symmetric] sum_list_rev comp_def case_prod_unfold)
  then show ?thesis using r by (simp add: m_def case_prod_unfold)
qed

theorem window_count_exact_witness:
  "aw_requests (attemptsInWindow (record_starts ex_target [(0, None), (50000, Some (Fin 7)), (90000, Some (Fin 5))] (snd ex_new))
     (getKey ex_target) (Fin 60000) 100000) = 2"
  using window_count_exact [of "snd ex_new" ex_target "[(0, None), (50000, Some (Fin 7)), (90000, Some (Fin 5))]" 100000 60000]
  by (simp add: start_log_def ex_new_def)

end
