(* ===== verification/Facts_Props.thy ===== *)
theory Facts_Props
  imports Facts
begin

text \<open>
  The properties of the fact store: keys are injective, a recorded fact is read back until it
  expires, a success retracts what it disproves and nothing else, an operator clear never reaches
  outside its selector, the write-behind prune is invisible.
\<close>

section \<open>Keys\<close>

lemma kind_text_inj: "kind_text k = kind_text k' \<longleftrightarrow> k = k'"
  by (cases k; cases k') simp_all

lemma kind_text_no_colon: "CHR '':'' \<notin> set (kind_text k)"
  by (cases k) simp_all

lemma join_with_Cons: "join_with '','' (x # xs) = (if xs = [] then x else x @ CHR '','' # join_with '','' xs)"
  by (cases xs) simp_all

lemma join_with_inj:
  assumes "join_with '','' xs = join_with '','' ys"
    and "\<forall>x \<in> set xs. x \<noteq> [] \<and> CHR '','' \<notin> set x" and "\<forall>y \<in> set ys. y \<noteq> [] \<and> CHR '','' \<notin> set y"
  shows "xs = ys"
  using assms
proof (induction xs arbitrary: ys)
  case Nil
  then show ?case by (cases ys) (auto simp: join_with_Cons split: if_splits)
next
  case (Cons x xs)
  have sep: "CHR '','' \<in> set (join_with '','' (z # zs)) \<longleftrightarrow> zs \<noteq> []" if "CHR '','' \<notin> set z" for z zs
    using that by (auto simp: join_with_Cons)
  show ?case
  proof (cases ys)
    case Nil
    then show ?thesis using Cons.prems by (auto simp: join_with_Cons split: if_splits)
  next
    case (Cons y zs)
    have x: "CHR '','' \<notin> set x" and y: "CHR '','' \<notin> set y" using Cons.prems(2,3) Cons by auto
    have both: "xs = [] \<longleftrightarrow> zs = []" using sep [OF x, of xs] sep [OF y, of zs] Cons.prems(1) Cons by simp
    show ?thesis
    proof (cases "xs = []")
      case True
      then show ?thesis using both Cons.prems(1) Cons by (simp add: join_with_Cons)
    next
      case False
      then have "x @ CHR '','' # join_with '','' xs = y @ CHR '','' # join_with '','' zs"
        using both Cons.prems(1) Cons by (simp add: join_with_Cons)
      then have "x = y \<and> join_with '','' xs = join_with '','' zs" by (rule split_at_separator [OF _ x y])
      then show ?thesis using Cons.IH [of zs] Cons.prems Cons by simp
    qed
  qed
qed

text \<open>
  What a scope's texts must not contain for its key to be its own: a slash in a provider name, a
  comma in a group member.
\<close>

fun separable :: "fact_scope \<Rightarrow> bool" where
  "separable (AttemptScope p c m) = True"
| "separable (GroupScope p c ms) = (CHR ''/'' \<notin> set p \<and> (\<forall>m \<in> set ms. CHR '','' \<notin> set m))"
| "separable (DeploymentScope p m) = (CHR ''/'' \<notin> set p)"
| "separable (CredentialScope p c) = True"
| "separable (ProviderScope p) = True"
| "separable (ModelScope m) = True"

lemma belongs: "credentialBelongsTo p c \<Longrightarrow> credentialBelongsTo p' c \<Longrightarrow> p = p'"
  by (auto simp: credentialBelongsTo_def)

lemma belongs_ok: "credentialBelongsTo p c \<Longrightarrow> credential_id_ok c"
  by (auto simp: credentialBelongsTo_def credential_id_ok_def)

lemma belongs_nonempty: "credentialBelongsTo p c \<Longrightarrow> c \<noteq> []"
  by (auto simp: credentialBelongsTo_def parseCredentialId_def)

lemma cred_slash_inj:
  assumes "c @ ''/'' @ m = c' @ ''/'' @ m'" and "credential_id_ok c" and "credential_id_ok c'"
  shows "c = c' \<and> m = m'"
  using cell_key_inj [of c c' "Some m" "Some m'"] assms by (simp add: cell_key_def)

lemma canonical_members: "set (canonicalMembers ms) = set ms" "ms \<noteq> [] \<Longrightarrow> canonicalMembers ms \<noteq> []"
proof -
  show s: "set (canonicalMembers ms) = set ms" by (simp add: canonicalMembers_def)
  show "ms \<noteq> [] \<Longrightarrow> canonicalMembers ms \<noteq> []" using s by (metis set_empty)
qed

lemma canonical_idem: "canonicalMembers (canonicalMembers ms) = canonicalMembers ms"
  by (simp add: canonicalMembers_def distinct_remdups_id sorted_sort_id)

lemma normalize_idem [simp]: "normalizeScope (normalizeScope s) = normalizeScope s"
  by (cases s) (simp_all add: canonical_idem)

lemma scope_key_inj:
  assumes "keyOfScope s = keyOfScope s'" and "isValidScope s" and "isValidScope s'"
    and "separable s" and "separable s'"
  shows "normalizeScope s = normalizeScope s'"
proof (cases s)
  case (AttemptScope p c m)
  then obtain p' c' m' where s': "s' = AttemptScope p' c' m'"
    using assms(1) by (cases s') (auto split: option.splits if_splits)
  then have "c @ ''/'' @ m = c' @ ''/'' @ m'" using assms(1) AttemptScope by simp
  from cred_slash_inj [OF this] have "c = c' \<and> m = m'"
    using assms(2,3) AttemptScope s' belongs_ok by auto
  then show ?thesis using assms(2,3) AttemptScope s' belongs by auto
next
  case (GroupScope p c ms)
  then obtain p' c' ms' where s': "s' = GroupScope p' c' ms'"
    using assms(1) by (cases s') (auto split: option.splits if_splits)
  note v = assms(2,3) [unfolded GroupScope s', simplified] and sep = assms(4,5) [unfolded GroupScope s', simplified]
  have mem: "canonicalMembers ms = canonicalMembers ms'"
    if "join_with '','' (canonicalMembers ms) = join_with '','' (canonicalMembers ms')"
    by (rule join_with_inj [OF that]) (use v sep in \<open>auto simp: canonical_members\<close>)
  show ?thesis
  proof (cases c)
    case None
    then have "c' = None" using assms(1) v belongs_nonempty unfolding GroupScope s' by (auto split: option.splits if_splits)
    then have "p @ CHR ''/'' # join_with '','' (canonicalMembers ms) = p' @ CHR ''/'' # join_with '','' (canonicalMembers ms')"
      using assms(1) None unfolding GroupScope s' by simp
    from split_at_separator [OF this] show ?thesis using sep mem None \<open>c' = None\<close> by (simp add: GroupScope s')
  next
    case (Some cr)
    then obtain cr' where c': "c' = Some cr'"
      using assms(1) v belongs_nonempty unfolding GroupScope s' by (auto split: option.splits if_splits)
    have b: "credentialBelongsTo p cr" "credentialBelongsTo p' cr'" using v Some c' by simp_all
    have "cr @ ''/'' @ join_with '','' (canonicalMembers ms) = cr' @ ''/'' @ join_with '','' (canonicalMembers ms')"
      using assms(1) Some c' b belongs_nonempty unfolding GroupScope s' by (auto split: if_splits)
    from cred_slash_inj [OF this belongs_ok [OF b(1)] belongs_ok [OF b(2)]]
    show ?thesis using mem b belongs Some c' by (auto simp: GroupScope s')
  qed
next
  case (DeploymentScope p m)
  then obtain p' m' where s': "s' = DeploymentScope p' m'"
    using assms(1) by (cases s') (auto split: option.splits if_splits)
  then have "p @ CHR ''/'' # m = p' @ CHR ''/'' # m'" using assms(1) DeploymentScope by simp
  from split_at_separator [OF this] show ?thesis using assms(4,5) by (simp add: DeploymentScope s')
next
  case (CredentialScope p c)
  then obtain p' c' where "s' = CredentialScope p' c'"
    using assms(1) by (cases s') (auto split: option.splits if_splits)
  then show ?thesis using assms(1-3) CredentialScope belongs by auto
next
  case (ProviderScope p)
  then show ?thesis using assms(1) by (cases s') (auto split: option.splits if_splits)
next
  case (ModelScope m)
  then show ?thesis using assms(1) by (cases s') (auto split: option.splits if_splits)
qed

text \<open>A fact's key is its own: two valid facts have the same key exactly when they have the same kind
  and the same scope, members in any order, provided provider names carry no slash and group members
  no comma.\<close>

theorem fact_keys_injective:
  assumes "isValidScope s" and "isValidScope s'" and "separable s" and "separable s'"
  shows "keyOf k (normalizeScope s) = keyOf k' (normalizeScope s') \<longleftrightarrow> k = k' \<and> normalizeScope s = normalizeScope s'"
proof
  assume "keyOf k (normalizeScope s) = keyOf k' (normalizeScope s')"
  then have "kind_text k @ CHR '':'' # keyOfScope (normalizeScope s) = kind_text k' @ CHR '':'' # keyOfScope (normalizeScope s')"
    by (simp add: keyOf_def)
  from split_at_separator [OF this kind_text_no_colon kind_text_no_colon]
  have kk: "k = k'" and ks: "keyOfScope (normalizeScope s) = keyOfScope (normalizeScope s')"
    by (simp_all add: kind_text_inj)
  have v: "isValidScope (normalizeScope u) \<and> separable (normalizeScope u)" if "isValidScope u" "separable u" for u
    using that by (cases u) (auto simp: canonical_members)
  show "k = k' \<and> normalizeScope s = normalizeScope s'"
    using kk scope_key_inj [OF ks] v assms by simp
qed simp

theorem fact_keys_injective_witness:
  "keyOf RateLimited (normalizeScope (GroupScope ''p'' None [''b'', ''a''])) =
     keyOf RateLimited (normalizeScope (GroupScope ''p'' None [''a'', ''b'']))"
  by (subst fact_keys_injective) (simp_all add: canonicalMembers_def)

section \<open>Reading what was recorded\<close>

lemma covers_normalize [simp]: "covers_scope (normalizeScope s) provider cred model = covers_scope s provider cred model"
  by (cases s) (auto simp: canonical_members split: option.splits)

lemma set_factsFor:
  "set (factsFor st provider cred model now cls) =
     hit_of ` {f \<in> snd ` set (fs_facts st). now < expiryOf f \<and> covers f provider cred model \<and> costFilterAdmits f cls}"
  by (auto simp: factsFor_def)

lemma factsFor_precedence: "sorted (map (\<lambda>h. scope_precedence (fh_scope h)) (factsFor st provider cred model now cls))"
  by (simp add: factsFor_def js_sort_key)

text \<open>A recorded fact is told of every target its scope covers, to callers of a cost class it names, until
  it expires: at the stated wait, or its kind's default. The answers come in scope precedence, and no
  other fact is lost.\<close>

theorem recorded_fact_told:
  assumes "isValidScope s" and "ro_now opts = Fin now" and "covers_scope s provider cred model"
    and "st' = recordFact k s opts st"
    and "t < (case stated_wait (ro_retryAfterMs opts) of Some w \<Rightarrow> now + w | None \<Rightarrow> now + FACT_TTL_MS k)"
    and "case ro_costClasses opts of None \<Rightarrow> True | Some cs \<Rightarrow> cs = [] \<or> (\<exists>c \<in> set cs. cls = Some c)"
  shows "hit_of (new_fact k s now opts) \<in> set (factsFor st' provider cred model t cls) \<and>
     sorted (map (\<lambda>h. scope_precedence (fh_scope h)) (factsFor st' provider cred model t cls)) \<and>
     (\<forall>key. key \<noteq> keyOf k (normalizeScope s) \<longrightarrow> jm_get (fs_facts st') key = jm_get (fs_facts st) key)"
proof (intro conjI)
  have st': "st' = st\<lparr>fs_facts := jm_put (keyOf k (normalizeScope s)) (new_fact k s now opts) (fs_facts st), fs_dirty := True\<rparr>"
    using assms(1,2,4) by (simp add: recordFact_def)
  have "jm_get (fs_facts st') (keyOf k (normalizeScope s)) = Some (new_fact k s now opts)"
    by (simp add: st' jm.get_put)
  then have "new_fact k s now opts \<in> snd ` set (fs_facts st')" by (force dest: jm_get_in)
  moreover have "t < expiryOf (new_fact k s now opts)"
    using assms(5) by (auto simp: expiryOf_def new_fact_def Let_def split: option.splits)
  moreover have "covers (new_fact k s now opts) provider cred model"
    using assms(3) by (simp add: covers_def new_fact_def Let_def)
  moreover have "costFilterAdmits (new_fact k s now opts) cls"
    using assms(6) by (auto simp: costFilterAdmits_def new_fact_def Let_def normalizeCostClasses_def split: option.splits)
  ultimately show "hit_of (new_fact k s now opts) \<in> set (factsFor st' provider cred model t cls)"
    by (auto simp: set_factsFor)
  show "\<forall>key. key \<noteq> keyOf k (normalizeScope s) \<longrightarrow> jm_get (fs_facts st') key = jm_get (fs_facts st) key"
    by (simp add: st' jm.get_put)
qed (rule factsFor_precedence)

definition ex_store :: fact_store where
  "ex_store = \<lparr>fs_facts = [], fs_dirty = False, fs_file = None\<rparr>"

definition ex_options :: record_options where
  "ex_options = \<lparr>ro_now = Fin 1000, ro_retryAfterMs = Some (Fin 500), ro_untilBasis = Some RetryAfterBasis, ro_value = None,
     ro_costClasses = None\<rparr>"

theorem recorded_fact_told_witness:
  "hit_of (new_fact RateLimited (AttemptScope ''p'' ''p#k'' ''m'') 1000 ex_options)
     \<in> set (factsFor (recordFact RateLimited (AttemptScope ''p'' ''p#k'' ''m'') ex_options ex_store) ''p'' (Some ''p#k'') (Some ''m'') 1499 None)"
  using recorded_fact_told [of "AttemptScope ''p'' ''p#k'' ''m''" ex_options 1000 "''p''" "Some ''p#k''" "Some ''m''" _
      RateLimited ex_store 1499 None]
  by (simp add: ex_options_def stated_wait_def credentialBelongsTo_def parseCredentialId_def label_ok_def label_char_def Let_def)

text \<open>After a target served a request, no condition fact that covers it and that this class of request
  could disprove is left; learned limits, facts about other targets and facts about other cost classes
  all stay.\<close>

theorem success_retracts_conditions:
  assumes "st' = fst (clearFacts provider cred model cls st)"
  shows "(\<forall>h \<in> set (factsFor st' provider cred model now cls). \<not> CONDITIONS (fh_kind h)) \<and>
     (\<forall>f \<in> snd ` set (fs_facts st). \<not> CONDITIONS (f_kind f) \<or> \<not> covers f provider cred model \<or> \<not> costFilterAdmits f cls \<longrightarrow>
        f \<in> snd ` set (fs_facts st'))"
  unfolding assms set_factsFor
  by (force simp: clearFacts_def Let_def drop_facts_def clears_def hit_of_def)

theorem success_retracts_conditions_witness:
  "factsFor (fst (clearFacts ''p'' (Some ''p#k'') (Some ''m'') None
      (recordFact RateLimited (AttemptScope ''p'' ''p#k'' ''m'') ex_options ex_store))) ''p'' (Some ''p#k'') (Some ''m'') 1100 None = []"
proof -
  let ?st = "recordFact RateLimited (AttemptScope ''p'' ''p#k'' ''m'') ex_options ex_store"
  have "\<forall>h \<in> set (factsFor (fst (clearFacts ''p'' (Some ''p#k'') (Some ''m'') None ?st)) ''p'' (Some ''p#k'') (Some ''m'') 1100 None).
      \<not> CONDITIONS (fh_kind h)"
    using success_retracts_conditions [of _ "''p''" "Some ''p#k''" "Some ''m''" None ?st 1100] by blast
  moreover have "fh_kind h = RateLimited" if "h \<in> set (factsFor (fst (clearFacts ''p'' (Some ''p#k'') (Some ''m'') None ?st))
      ''p'' (Some ''p#k'') (Some ''m'') 1100 None)" for h
    using that by (auto simp: set_factsFor clearFacts_def Let_def drop_facts_def recordFact_def ex_options_def ex_store_def
        hit_of_def new_fact_def credentialBelongsTo_def parseCredentialId_def label_ok_def label_char_def
        split: if_splits)
  ultimately show ?thesis by (auto simp: CONDITIONS_def simp flip: set_empty)
qed

section \<open>Operator clears\<close>

definition outside :: "fact_selector \<Rightarrow> string \<Rightarrow> string option \<Rightarrow> string option \<Rightarrow> bool" where
  "outside sel provider cred model \<longleftrightarrow> provider \<noteq> fsel_provider sel \<or>
     (fsel_model sel \<noteq> None \<and> model \<noteq> fsel_model sel) \<or> (fsel_credentialId sel \<noteq> None \<and> cred \<noteq> fsel_credentialId sel)"

lemma selector_contains:
  "matchesFactSelector s sel \<Longrightarrow> covers_scope s provider cred model \<Longrightarrow> \<not> outside sel provider cred model"
  by (cases s) (auto simp: outside_def split: option.splits if_splits)

lemma factsFor_drop:
  assumes "\<And>f. f \<in> snd ` set m \<Longrightarrow> hit f \<Longrightarrow> \<not> (now < expiryOf f \<and> covers f provider cred model \<and> costFilterAdmits f cls)"
  shows "factsFor (st\<lparr>fs_facts := drop_facts hit m, fs_dirty := d\<rparr>) provider cred model now cls =
     factsFor (st\<lparr>fs_facts := m\<rparr>) provider cred model now cls"
proof -
  have "filter (\<lambda>f. now < expiryOf f \<and> covers f provider cred model \<and> costFilterAdmits f cls) (map snd (drop_facts hit m)) =
      filter (\<lambda>f. now < expiryOf f \<and> covers f provider cred model \<and> costFilterAdmits f cls) (map snd m)"
    using assms by (induction m) (auto simp: drop_facts_def)
  then show ?thesis by (simp add: factsFor_def)
qed

text \<open>An operator clear of the cooldown facts of one provider, model or credential changes nothing that
  is told of a target outside that selector, at any time and for any class of request.\<close>

theorem clear_stays_inside:
  assumes "outside sel provider cred model"
  shows "factsFor (fst (clearCooldownFacts lc sel now st)) provider cred model t cls = factsFor st provider cred model t cls \<and>
     factsFor (fst (clearCredentialInvalidFacts lc sel now st)) provider cred model t cls = factsFor st provider cred model t cls \<and>
     factsFor (fst (clearPaidAllowanceFacts lc sel now st)) provider cred model t cls = factsFor st provider cred model t cls"
proof -
  have "factsFor (fst (clearMatchingActiveFacts lc hit sel now st)) provider cred model t cls =
      factsFor st provider cred model t cls" for hit
    using selector_contains assms
    by (simp add: clearMatchingActiveFacts_def Let_def) (subst factsFor_drop, auto simp: covers_def)
  then show ?thesis
    by (simp add: clearCooldownFacts_def clearCredentialInvalidFacts_def clearPaidAllowanceFacts_def)
qed

theorem clear_stays_inside_witness:
  "factsFor (fst (clearCooldownFacts (\<lambda>_ _. 0) \<lparr>fsel_provider = ''p'', fsel_model = None, fsel_credentialId = Some ''p#j''\<rparr> 1100
      (recordFact RateLimited (ProviderScope ''p'') ex_options ex_store))) ''p'' (Some ''p#k'') (Some ''m'') 1100 None =
     factsFor (recordFact RateLimited (ProviderScope ''p'') ex_options ex_store) ''p'' (Some ''p#k'') (Some ''m'') 1100 None"
  using clear_stays_inside [of "\<lparr>fsel_provider = ''p'', fsel_model = None, fsel_credentialId = Some ''p#j''\<rparr>" "''p''" "Some ''p#k''"
      "Some ''m''"]
  by (simp add: outside_def)

section \<open>The write-behind prune\<close>

text \<open>Writing the store out forgets expired facts only: at any later time every caller is told the same,
  and what is written is the store itself.\<close>

theorem flush_invisible:
  assumes "now \<le> t"
  shows "factsFor (flushFacts now st) provider cred model t cls = factsFor st provider cred model t cls \<and>
     (fs_dirty st \<longrightarrow> fs_file (flushFacts now st) = Some (fs_facts (flushFacts now st))) \<and> \<not> fs_dirty (flushFacts now st)"
proof -
  have "filter (\<lambda>f. t < expiryOf f \<and> covers f provider cred model \<and> costFilterAdmits f cls)
        (map snd (drop_facts (\<lambda>f. expiryOf f \<le> now) m)) =
      filter (\<lambda>f. t < expiryOf f \<and> covers f provider cred model \<and> costFilterAdmits f cls) (map snd m)" for m
    using assms by (induction m) (auto simp: drop_facts_def)
  then show ?thesis by (simp add: flushFacts_def persist_def Let_def factsFor_def)
qed

theorem flush_invisible_witness:
  "factsFor (flushFacts 1600 (recordFact RateLimited (ProviderScope ''p'') ex_options ex_store)) ''p'' None None 1600 None =
     factsFor (recordFact RateLimited (ProviderScope ''p'') ex_options ex_store) ''p'' None None 1600 None"
  using flush_invisible [of 1600 1600] by simp

section \<open>The cooldown of a target\<close>

lemma fold_latest:
  "fold (\<lambda>h latest. if P h then Some (case latest of None \<Rightarrow> u h | Some l \<Rightarrow> max l (u h)) else latest) hs acc =
     (if filter P hs = [] then acc
      else Some (Max (set_option acc \<union> set (map u (filter P hs)))))"
  for u :: "'a \<Rightarrow> rat"
proof (induction hs arbitrary: acc)
  case (Cons h hs)
  show ?case
  proof (cases "P h")
    case True
    let ?S = "set (map u (filter P hs))"
    have S: "?S = {} \<longleftrightarrow> filter P hs = []" by (auto simp: filter_empty_conv)
    have two: "Max (insert (max a (u h)) ?S) = Max (insert a (insert (u h) ?S))" for a
    proof (cases "?S = {}")
      case False
      then show ?thesis by (simp del: set_map add: max.assoc)
    qed (simp del: set_map)
    show ?thesis
    proof (cases "filter P hs = []")
      case True
      then show ?thesis using Cons.IH \<open>P h\<close> by (cases acc) simp_all
    next
      case False
      have "fold (\<lambda>h latest. if P h then Some (case latest of None \<Rightarrow> u h | Some l \<Rightarrow> max l (u h)) else latest) (h # hs) acc =
          Some (Max (insert (case acc of None \<Rightarrow> u h | Some l \<Rightarrow> max l (u h)) ?S))"
        using Cons.IH \<open>P h\<close> False by (simp del: Max_insert)
      also have "\<dots> = Some (Max (set_option acc \<union> insert (u h) ?S))"
        using two by (cases acc) (simp_all del: Max_insert add: insert_commute)
      finally show ?thesis using \<open>P h\<close> by (simp del: Max_insert)
    qed
  next
    case False
    then show ?thesis using Cons.IH by simp
  qed
qed simp

text \<open>The cooldown that facts put on a target is the latest expiry among the live cooling facts that cover
  it, and none when there is no such fact; a target it cools is cooled until exactly then.\<close>

theorem fact_cooldown_latest:
  "fact_cooldownUntil st provider cred model now cls =
     (let us = map fh_until (filter (\<lambda>h. COOLING_FACT_KINDS (fh_kind h)) (factsFor st provider cred model now cls)) in
      if us = [] then None else Some (Max (set us))) \<and>
   (\<forall>u. fact_cooldownUntil st provider cred model now cls = Some u \<longrightarrow> now < u)"
proof -
  have eq: "fact_cooldownUntil st provider cred model now cls =
     (let us = map fh_until (filter (\<lambda>h. COOLING_FACT_KINDS (fh_kind h)) (factsFor st provider cred model now cls)) in
      if us = [] then None else Some (Max (set us)))"
    unfolding fact_cooldownUntil_def fold_latest by (simp add: Let_def)
  have live: "now < fh_until h" if "h \<in> set (factsFor st provider cred model now cls)" for h
    using that by (auto simp: set_factsFor hit_of_def)
  have "now < u" if "fact_cooldownUntil st provider cred model now cls = Some u" for u
  proof -
    let ?us = "map fh_until (filter (\<lambda>h. COOLING_FACT_KINDS (fh_kind h)) (factsFor st provider cred model now cls))"
    have "?us \<noteq> []" "u = Max (set ?us)" using that eq by (auto simp: Let_def split: if_splits)
    then have "u \<in> set ?us" by (metis Max_in finite_set set_empty)
    then show ?thesis using live by auto
  qed
  then show ?thesis using eq by blast
qed

theorem fact_cooldown_latest_witness:
  "fact_cooldownUntil (recordFact RateLimited (ProviderScope ''p'') ex_options ex_store) ''p'' None None 1100 None = Some 1500 \<and>
     (1100::rat) < 1500"
proof -
  let ?st = "recordFact RateLimited (ProviderScope ''p'') ex_options ex_store"
  have "factsFor ?st ''p'' None None 1100 None = [hit_of (new_fact RateLimited (ProviderScope ''p'') 1000 ex_options)]"
    by (simp add: factsFor_def recordFact_def ex_options_def ex_store_def new_fact_def stated_wait_def Let_def expiryOf_def
        covers_def costFilterAdmits_def normalizeCostClasses_def)
  then show ?thesis
    using fact_cooldown_latest [of ?st "''p''" None None 1100 None]
    by (simp add: hit_of_def new_fact_def Let_def COOLING_FACT_KINDS_def expiryOf_def ex_options_def stated_wait_def)
qed

end
