(* ===== verification/Candidate_Run.thy ===== *)
theory Candidate_Run
  imports Candidate_Attempt Credential_Walk Breaker_Props Facts_Props
begin

text \<open>
  The parts of one request that join the components (\<^verbatim>\<open>candidate-runner.ts\<close>): the next attempt that no hard
  cap forbids, and the begin and the completion of an attempt across the breaker, the facts, the trace, the model-call
  recorder and the accounting. Every reading of a clock is an argument; \<open>show_num\<close> stands for the rendering
  of a number; what the recorder and the accounting are told is kept in the order of the calls.
\<close>

section \<open>The next attempt under the hard caps\<close>

definition hardCapLabel :: "(jsnum \<Rightarrow> string) \<Rightarrow> string option \<Rightarrow> string \<Rightarrow> hard_cap_verdict \<Rightarrow> string" where
  "hardCapLabel show_num label spec verdict =
     (let c = hv_capped verdict in
      (case label of None \<Rightarrow> ''-'' | Some l \<Rightarrow> l) @ ''/'' @ spec @ '' '' @ axis_name (ca_axis c) @ ''/'' @ period_name (ca_period c) @
        '' '' @ show_num (ca_used c) @ ''/'' @ show_int (ca_cap c))"

text \<open>What a run of the walk carries: the walk, the attempt trace and the tally.\<close>

record walk_run =
  wr_walk :: credential_walk
  wr_trace :: "attempt_log list"
  wr_tally :: pool_tracker

lemma walk_left_cong:
  "cw_queue w' = cw_queue w \<Longrightarrow> cw_groups w' = cw_groups w \<Longrightarrow> cw_cursor w' = cw_cursor w \<Longrightarrow> walk_left w' = walk_left w"
  by (simp add: walk_left_def group_left_def cursor_of_def cong: map_cong)

lemma length_jm_put: "length (jm_put k v m) \<le> length m + 1"
  by (induction m) auto

lemma length_jm_del: "jm_get m k \<noteq> None \<Longrightarrow> length (jm_del k m) < length m"
  by (induction m) (auto simp: jm_del_def intro!: le_imp_less_Suc length_filter_le [THEN le_trans] simp: AList.delete_eq)

lemma walk_take_budget:
  "walk_take w = Inr (w', Some a) \<Longrightarrow>
     walk_left w' + 2 \<le> walk_left w \<and> length (cw_pending w') \<le> length (cw_pending w) + 1 \<and> isPending w' a"
proof (induction w rule: walk_take.induct)
  case (1 w)
  obtain key rest g where q: "cw_queue w = key # rest" and f: "find (\<lambda>g. dg_key g = key) (cw_groups w) = Some g"
    using "1.prems" by (subst (asm) walk_take.simps) (auto split: list.splits option.splits if_splits)
  note unfold = walk_take.simps [of w] q f
  have ne: "dg_attempts g \<noteq> []" if "key \<notin> set (cw_deploymentClosed w)" using "1.prems" that by (auto simp: unfold)
  let ?a = "dg_attempts g ! cursor_of w key"
  let ?w1 = "w\<lparr>cw_cursor := jm_put key (cursor_of w key + 1) (cw_cursor w)\<rparr>"
  consider "key \<in> set (cw_deploymentClosed w)"
    | "key \<notin> set (cw_deploymentClosed w)" "rt_provider (ra_target (hd (dg_attempts g))) \<in> set (cw_providerSuppressed w)"
    | "key \<notin> set (cw_deploymentClosed w)" "rt_provider (ra_target (hd (dg_attempts g))) \<notin> set (cw_providerSuppressed w)"
      "length (dg_attempts g) \<le> cursor_of w key"
    | "key \<notin> set (cw_deploymentClosed w)" "rt_provider (ra_target (hd (dg_attempts g))) \<notin> set (cw_providerSuppressed w)"
      "\<not> length (dg_attempts g) \<le> cursor_of w key" "isSuppressed w ?a"
    | "key \<notin> set (cw_deploymentClosed w)" "rt_provider (ra_target (hd (dg_attempts g))) \<notin> set (cw_providerSuppressed w)"
      "\<not> length (dg_attempts g) \<le> cursor_of w key" "\<not> isSuppressed w ?a"
    by blast
  then show ?case
  proof cases
    case 5
    note ne [OF 5(1)]
    then have w': "w' = ?w1\<lparr>cw_queue := rest,
        cw_pending := jm_put ?a \<lparr>pl_attempt = ?a, pl_group = g, pl_started = False\<rparr> (cw_pending w)\<rparr>" "a = ?a"
      using "1.prems" 5 by (auto simp: unfold Let_def)
    have "(\<Sum>g\<leftarrow>cw_groups w. group_left w' g) < (\<Sum>g\<leftarrow>cw_groups w. group_left w g)"
      using group_left_advance [OF f] 5(3) by (simp add: w'(1) group_left_def cursor_of_def)
    then show ?thesis using length_jm_put by (auto simp: w' walk_left_def q isPending_def jm.get_put)
  next
    case 4
    have left: "walk_left (?w1\<lparr>cw_skipped := cw_skipped w + 1\<rparr>) < walk_left w"
      using group_left_advance [OF f] 4(3) by (simp add: walk_left_def group_left_def cursor_of_def)
    show ?thesis
      using "1.IH"(4) [OF q f 4(1) ne [OF 4(1)] 4(2,3) refl refl 4(4)] "1.prems" left 4 ne [OF 4(1)] by (auto simp: unfold Let_def)
  next
    case 3
    then show ?thesis
      using "1.IH"(3) [OF q f 3(1) ne [OF 3(1)] 3(2,3)] "1.prems" ne [OF 3(1)] by (auto simp: unfold walk_left_def group_left_def cursor_of_def q)
  next
    case 2
    then show ?thesis
      using "1.IH"(2) [OF q f 2(1) ne [OF 2(1)] 2(2)] "1.prems" ne [OF 2(1)] by (auto simp: unfold walk_left_def group_left_def cursor_of_def q)
  next
    case 1
    then show ?thesis
      using "1.IH"(1) [OF q f 1] "1.prems" by (auto simp: unfold walk_left_def group_left_def cursor_of_def q)
  qed
qed

lemma walk_next_budget:
  assumes "walk_next w now = Inr (w', Some a)"
  shows "walk_left w' + 2 * length (cw_pending w') \<le> walk_left w + 2 * length (cw_pending w) \<and> isPending w' a"
proof (cases "walk_next w now = walk_take w")
  case True
  then show ?thesis using assms walk_take_budget [of w w' a] by simp
next
  case False
  have held: "isPending w b" if "(b, p) \<in> set (cw_pending w)" for b p
    using that by (force simp: isPending_def jm_get_None)
  have "w' = w \<and> isPending w a"
  proof (cases "find (\<lambda>(a, p). \<not> pl_started p) (cw_pending w)")
    case (Some x)
    then have "x \<in> set (cw_pending w)" by (metis find_Some_iff nth_mem)
    moreover have "walk_next w now = (if cw_stopped w then Inr (w, None) else Inr (w, Some (fst x)))"
      by (cases x) (simp add: walk_next_def Some)
    ultimately show ?thesis using assms held [of "fst x" "snd x"] by (auto simp del: split_paired_all split: if_splits)
  next
    case None
    then show ?thesis using assms False held
      by (fastforce simp: walk_next_def walk_pending_def split: if_splits list.splits)
  qed
  then show ?thesis by simp
qed

lemma recordRejected_budget:
  assumes "recordRejected a w = Inr w'"
  shows "walk_left w' + 2 * length (cw_pending w') < walk_left w + 2 * length (cw_pending w)"
proof -
  obtain held where held: "jm_get (cw_pending w) a = Some held"
    and w': "w' = releaseGroup (pl_group held) (w\<lparr>cw_pending := jm_del a (cw_pending w)\<rparr>)"
    using assms by (auto simp: recordRejected_def split: option.splits)
  have "walk_left w' \<le> walk_left w + 1"
    by (auto simp: w' releaseGroup_def walk_left_def group_left_def cursor_of_def)
  moreover have "length (cw_pending w') < length (cw_pending w)"
    using length_jm_del [of "cw_pending w" a] held by (simp add: w')
  ultimately show ?thesis by simp
qed

text \<open>
  The loop of \<^verbatim>\<open>nextUncappedAttempt\<close>. \<open>clock n\<close> is the reading of the walk's clock at the \<open>n\<close>-th call of \<^verbatim>\<open>next\<close>,
  \<open>now\<close> the one reading the loop hands to the cap.
\<close>

definition skip_capped :: "(jsnum \<Rightarrow> string) \<Rightarrow> rat \<Rightarrow> resolved_attempt \<Rightarrow> hard_cap_verdict \<Rightarrow> walk_run \<Rightarrow> walk_run" where
  "skip_capped show_num now a verdict r =
     r\<lparr>wr_tally := tally_capped (hardCapLabel show_num (attempt_label a) (target_spec a) verdict) (hv_resetsAt verdict) (wr_tally r),
       wr_trace := trace_recordCapped (ra_target a) now (wr_trace r)\<rparr>"

function nextUncapped ::
  "(jsnum \<Rightarrow> string) \<Rightarrow> (resolved_attempt \<Rightarrow> rat \<Rightarrow> hard_cap_verdict option) \<Rightarrow> (nat \<Rightarrow> rat) \<Rightarrow> rat \<Rightarrow> nat \<Rightarrow> walk_run \<Rightarrow>
   walk_error + (walk_run \<times> resolved_attempt option)" where
  "nextUncapped show_num hardCap clock now n r =
     (case walk_next (wr_walk r) (clock n) of
        Inl e \<Rightarrow> Inl e
      | Inr (w, None) \<Rightarrow> Inr (r\<lparr>wr_walk := w\<rparr>, None)
      | Inr (w, Some a) \<Rightarrow>
          (case hardCap a now of
             None \<Rightarrow> Inr (r\<lparr>wr_walk := w, wr_tally := noteOffered (wr_tally r)\<rparr>, Some a)
           | Some verdict \<Rightarrow>
               (case recordRejected a w of
                  Inl e \<Rightarrow> Inl e
                | Inr w1 \<Rightarrow> nextUncapped show_num hardCap clock now (n + 1) (skip_capped show_num now a verdict r\<lparr>wr_walk := w1\<rparr>))))"
  by pat_completeness auto

termination
proof (relation "measure (\<lambda>(show_num, hardCap, clock, now, n, r). walk_left (wr_walk r) + 2 * length (cw_pending (wr_walk r)))")
qed (use walk_next_budget recordRejected_budget in \<open>fastforce intro: less_le_trans\<close>)+

declare nextUncapped.simps [simp del]

definition nextUncappedAttempt where
  "nextUncappedAttempt show_num hardCap clock now r = nextUncapped show_num hardCap clock now 0 r"

text \<open>
  What the loop promises of a walk that \<^verbatim>\<open>new\<close> made: it returns; \<open>skipped\<close> lists the attempts it passed over with
  their verdicts, \<open>later\<close> the calls the walk saw.
\<close>

definition walk_drained :: "(nat \<Rightarrow> rat) \<Rightarrow> credential_walk \<Rightarrow> bool" where
  "walk_drained clock w \<longleftrightarrow> cw_stopped w \<or> cw_queue w = [] \<or> (\<exists>n. \<not> budgetAllowsStart w (clock n))"

definition capped_label :: "(jsnum \<Rightarrow> string) \<Rightarrow> resolved_attempt \<times> hard_cap_verdict \<Rightarrow> string" where
  "capped_label show_num s = hardCapLabel show_num (attempt_label (fst s)) (target_spec (fst s)) (snd s)"

definition uncapped_result where
  "uncapped_result show_num hardCap clock now r r' x skipped later \<longleftrightarrow>
     wr_walk r' = run_walk later (wr_walk r) \<and>
     list_all (\<lambda>(c, v). hardCap c now = Some v) skipped \<and>
     pt_cappedLabels (wr_tally r') = pt_cappedLabels (wr_tally r) @ map (capped_label show_num) skipped \<and>
     (case x of None \<Rightarrow> walk_drained clock (wr_walk r')
      | Some a \<Rightarrow> hardCap a now = None \<and> isPending (wr_walk r') a \<and> pt_inFlight (wr_tally r'))"

lemma reject_pending: "isPending w a \<Longrightarrow> recordRejected a w = Inr (call_walk (Reject a) w)"
  by (auto simp: isPending_def recordRejected_def unless_thrown_def)

lemma capped_labels_capped [simp]:
  "pt_cappedLabels (tally_capped l t tr) = pt_cappedLabels tr @ [l]"
  by (simp add: tally_capped_def tally_stamp_def Let_def)

lemma nextUncapped_result:
  "walk_ok (wr_walk r) \<Longrightarrow> \<exists>r' x skipped later. nextUncapped show_num hardCap clock now n r = Inr (r', x) \<and>
     uncapped_result show_num hardCap clock now r r' x skipped later"
proof (induction show_num hardCap clock now n r rule: nextUncapped.induct)
  case (1 show_num hardCap clock now n r)
  obtain w x where next': "walk_next (wr_walk r) (clock n) = Inr (w, x)" and ok: "walk_ok w"
    and none: "x = None \<longrightarrow> cw_stopped (wr_walk r) \<or> \<not> budgetAllowsStart (wr_walk r) (clock n) \<or> cw_queue w = []"
    using walk_next_result [OF "1.prems", of "clock n"] by blast
  have call: "w = call_walk (Next (clock n)) (wr_walk r)" by (simp add: next')
  show ?case
  proof (cases x)
    case None
    have "w = wr_walk r \<or> cw_queue w = []"
      using none next' None by (auto simp: walk_next_def split: if_splits option.splits)
    then have "walk_drained clock w" using none None unfolding walk_drained_def by auto
    then show ?thesis
      by (intro exI [of _ "r\<lparr>wr_walk := w\<rparr>"] exI [of _ None] exI [of _ "[]"] exI [of _ "[Next (clock n)]"])
        (simp add: nextUncapped.simps [of _ _ _ _ _ r] next' None uncapped_result_def)
  next
    case (Some a)
    have pend: "isPending w a" using walk_next_budget next' Some by blast
    show ?thesis
    proof (cases "hardCap a now")
      case free: None
      then show ?thesis using pend
        by (intro exI [of _ "r\<lparr>wr_walk := w, wr_tally := noteOffered (wr_tally r)\<rparr>"] exI [of _ "Some a"] exI [of _ "[]"]
            exI [of _ "[Next (clock n)]"])
          (simp add: nextUncapped.simps [of _ _ _ _ _ r] next' Some uncapped_result_def noteOffered_def)
    next
      case capped: (Some v)
      let ?w = "call_walk (Reject a) w" and ?r = "skip_capped show_num now a v r"
      have rej: "recordRejected a w = Inr ?w" by (rule reject_pending [OF pend])
      have "walk_ok ?w" using call_ok [OF ok] by blast
      then obtain r' y skipped later where rest:
          "nextUncapped show_num hardCap clock now (n + 1) (?r\<lparr>wr_walk := ?w\<rparr>) = Inr (r', y)"
          "uncapped_result show_num hardCap clock now (?r\<lparr>wr_walk := ?w\<rparr>) r' y skipped later"
        using "1.IH" [OF next' refl Some capped rej] by auto
      have "uncapped_result show_num hardCap clock now r r' y ((a, v) # skipped) (Next (clock n) # Reject a # later)"
        using rest(2) capped call by (simp add: uncapped_result_def skip_capped_def capped_label_def)
      moreover have "nextUncapped show_num hardCap clock now n r = Inr (r', y)"
        by (subst nextUncapped.simps) (simp only: next' Some capped rej rest(1) sum.case option.case prod.case)
      ultimately show ?thesis by (intro exI conjI)
    qed
  qed
qed

section \<open>One attempt from begin to completion\<close>

datatype accounting_failure = AccProtocol | AccAuthError | AccRateLimit | AccTimeout | AccProviderError | AccAborted

fun RELAY_AUTHORED_PROVENANCE :: "provenance \<Rightarrow> bool" where
  "RELAY_AUTHORED_PROVENANCE RelayMapperDefect = True"
| "RELAY_AUTHORED_PROVENANCE _ = False"

definition accountingFailureForAttempt :: "failure_kind \<Rightarrow> provenance \<Rightarrow> int option \<Rightarrow> accounting_failure" where
  "accountingFailureForAttempt failure prov status =
     (if RELAY_AUTHORED_PROVENANCE prov then AccProtocol
      else if status = Some 401 \<or> status = Some 403 then AccAuthError
      else if status = Some 429 then AccRateLimit
      else (case failure of
          ProtocolFailure \<Rightarrow> AccProtocol
        | MappingFailure \<Rightarrow> AccProtocol
        | InvalidResponse \<Rightarrow> AccProtocol
        | TransportFailure \<Rightarrow> if prov = Deadline then AccTimeout else AccProviderError
        | HttpFailure \<Rightarrow> AccProviderError))"

record usage =
  us_ref :: nat
  us_completionTokens :: "rat option"

datatype terminal_kind = TSucceeded | TFailed | TCancelled

record health_attempt =
  ha_handle :: nat
  ha_identity :: provider_target
  ha_resolvedAttempt :: resolved_attempt
  ha_started :: rat
  ha_usage :: usage
  ha_accounting :: "nat option"
  ha_accountingAttempt :: "nat option"
  ha_completed :: bool
  ha_committed :: bool
  ha_terminal :: "terminal_kind option"

record model_call =
  mc_provider :: string
  mc_model :: string
  mc_ok :: bool
  mc_latencyMs :: rat
  mc_completionTokens :: "rat option"

datatype accounting_result = AccSuccess | AccError | AccCancelled

datatype accounting_event =
    MarkCommitted nat "nat option" rat
  | Complete nat "nat option" accounting_result "accounting_failure option" usage rat bool

text \<open>What the attempts of a request share: the process with its breaker, the facts, the attempt trace, and what the
  model-call recorder and the accounting were told.\<close>

record run_state =
  rs_core :: "process \<times> breaker"
  rs_facts :: fact_store
  rs_trace :: "attempt_log list"
  rs_calls :: "model_call list"
  rs_accounting :: "accounting_event list"

record run_hooks =
  rh_recordsCalls :: bool
  rh_cost :: "(resolved_attempt \<Rightarrow> cost_class option) option"

definition beginHealthAttempt ::
  "resolved_attempt \<Rightarrow> rat \<Rightarrow> usage \<Rightarrow> nat option \<Rightarrow> jsnum \<Rightarrow> run_state \<Rightarrow> run_state \<times> health_attempt option" where
  "beginHealthAttempt a started us acc tokens s =
     (case beginAttempt (target_identity a) (Fin started) (Some tokens) (rs_core s) of
        (core, Inl e) \<Rightarrow> (s\<lparr>rs_core := core\<rparr>, None)
      | (core, Inr h) \<Rightarrow> (s\<lparr>rs_core := core\<rparr>,
          Some \<lparr>ha_handle = h, ha_identity = target_identity a, ha_resolvedAttempt = a, ha_started = started, ha_usage = us,
            ha_accounting = acc, ha_accountingAttempt = None, ha_completed = False, ha_committed = False, ha_terminal = None\<rparr>))"

definition ha_target :: "health_attempt \<Rightarrow> resolved_target" where
  "ha_target att = ra_target (ha_resolvedAttempt att)"

definition markAttemptCommitted :: "rat \<Rightarrow> health_attempt \<Rightarrow> run_state \<Rightarrow> health_attempt \<times> run_state" where
  "markAttemptCommitted now att s =
     (att\<lparr>ha_committed := True\<rparr>,
      case ha_accounting att of
        None \<Rightarrow> s
      | Some acc \<Rightarrow> s\<lparr>rs_accounting := rs_accounting s @ [MarkCommitted acc (ha_accountingAttempt att) now]\<rparr>)"

definition recordCall :: "run_hooks \<Rightarrow> health_attempt \<Rightarrow> bool \<Rightarrow> rat \<Rightarrow> run_state \<Rightarrow> run_state" where
  "recordCall h att ok completedAt s =
     (case rt_model (ha_target att) of
        None \<Rightarrow> s
      | Some m \<Rightarrow>
          if m = [] \<or> \<not> rh_recordsCalls h then s
          else s\<lparr>rs_calls := rs_calls s @ [\<lparr>mc_provider = rt_provider (ha_target att), mc_model = m, mc_ok = ok,
            mc_latencyMs = completedAt - ha_started att, mc_completionTokens = us_completionTokens (ha_usage att)\<rparr>]\<rparr>)"

definition tell_accounting ::
  "health_attempt \<Rightarrow> accounting_result \<Rightarrow> accounting_failure option \<Rightarrow> rat \<Rightarrow> bool \<Rightarrow> run_state \<Rightarrow> run_state" where
  "tell_accounting att res failure completedAt abandoned s =
     (case ha_accounting att of
        None \<Rightarrow> s
      | Some acc \<Rightarrow> s\<lparr>rs_accounting := rs_accounting s @
          [Complete acc (ha_accountingAttempt att) res failure (ha_usage att) completedAt abandoned]\<rparr>)"

definition outcome_base_of :: "health_attempt \<Rightarrow> provenance \<Rightarrow> rat \<Rightarrow> outcome_base" where
  "outcome_base_of att prov completedAt = \<lparr>o_target = ha_identity att, o_provenance = prov, o_completedAt = completedAt,
     o_elapsedMs = Fin (completedAt - ha_started att)\<rparr>"

definition settled :: "terminal_kind \<Rightarrow> health_attempt \<Rightarrow> health_attempt" where
  "settled k att = att\<lparr>ha_completed := True, ha_terminal := Some k\<rparr>"

text \<open>The retraction after a success, and the credential faults that go with it.\<close>

definition retract_disproved :: "cost_class option \<Rightarrow> health_attempt \<Rightarrow> run_state \<Rightarrow> run_state" where
  "retract_disproved cls att s =
     (let a = ha_resolvedAttempt att;
          (facts, cleared) = clearFacts (rt_provider (ra_target a)) (Some (ra_credentialId a)) (rt_model (ra_target a)) cls (rs_facts s);
          s1 = s\<lparr>rs_facts := facts\<rparr>
      in if CredentialInvalid \<in> set cleared
         then s1\<lparr>rs_core := (fst (rs_core s1), fst (clearCredentialFaults (ra_credentialId a) (snd (rs_core s1))))\<rparr>
         else s1)"

definition completeAttemptSuccess ::
  "run_hooks \<Rightarrow> int \<Rightarrow> rat \<Rightarrow> health_attempt \<Rightarrow> run_state \<Rightarrow> completion_failure + (health_attempt \<times> run_state)" where
  "completeAttemptSuccess h status completedAt att s =
     (if ha_completed att then Inr (att, s)
      else
        (let cls = Option.bind (rh_cost h) (\<lambda>c. c (ha_resolvedAttempt att)) in
         case completeAttempt (HRef (ha_handle att)) (Succeeded (outcome_base_of att Upstream completedAt) status) (rs_core s) of
           (core, Inl e) \<Rightarrow> Inl e
         | (core, Inr c) \<Rightarrow>
             (let s1 = s\<lparr>rs_core := core,
                    rs_trace := trace_record (ha_target att) (LogStatus status) (ha_started att) completedAt (rs_trace s)\<rparr>;
                  s2 = tell_accounting att AccSuccess None completedAt False (recordCall h att True completedAt s1)
              in Inr (settled TSucceeded att, retract_disproved cls att s2))))"

record failure_options =
  fo_failure :: failure_kind
  fo_provenance :: provenance
  fo_status :: "int option"
  fo_retryAfterMs :: "rat option"
  fo_logStatus :: "log_status option"

definition completeAttemptFailure ::
  "run_hooks \<Rightarrow> failure_options \<Rightarrow> rat \<Rightarrow> health_attempt \<Rightarrow> run_state \<Rightarrow> completion_failure + (health_attempt \<times> run_state)" where
  "completeAttemptFailure h opts completedAt att s =
     (if ha_completed att then Inr (att, s)
      else case completeAttempt (HRef (ha_handle att))
            (Failed (outcome_base_of att (fo_provenance opts) completedAt) (fo_failure opts) (fo_status opts) (fo_retryAfterMs opts)) (rs_core s) of
          (core, Inl e) \<Rightarrow> Inl e
        | (core, Inr c) \<Rightarrow>
            (let shown = (case fo_logStatus opts of Some l \<Rightarrow> l
                   | None \<Rightarrow> case fo_status opts of Some st \<Rightarrow> LogStatus st | None \<Rightarrow> LogFailed);
                 s1 = s\<lparr>rs_core := core, rs_trace := trace_record (ha_target att) shown (ha_started att) completedAt (rs_trace s)\<rparr>
             in Inr (settled TFailed att,
                  tell_accounting att AccError (Some (accountingFailureForAttempt (fo_failure opts) (fo_provenance opts) (fo_status opts)))
                    completedAt False (recordCall h att False completedAt s1))))"

definition completeCancellation ::
  "string option \<Rightarrow> cancellation_cause \<Rightarrow> rat \<Rightarrow> health_attempt \<Rightarrow> run_state \<Rightarrow> completion_failure + (health_attempt \<times> run_state)" where
  "completeCancellation reason cause completedAt att s =
     (if ha_completed att then Inr (att, s)
      else case completeAttempt (HRef (ha_handle att)) (Cancelled (outcome_base_of att ClientCancellation completedAt) cause reason) (rs_core s) of
          (core, Inl e) \<Rightarrow> Inl e
        | (core, Inr c) \<Rightarrow>
            (let s1 = s\<lparr>rs_core := core,
                   rs_trace := trace_record (ha_target att) LogCancelled (ha_started att) completedAt (rs_trace s)\<rparr>
             in Inr (settled TCancelled att,
                  tell_accounting att AccCancelled (Some AccAborted) completedAt (cause = RelayAbandoned) s1)))"

definition completeAttemptCancelled where
  "completeAttemptCancelled reason completedAt att =
     completeCancellation reason (if ha_committed att then ClientGoneMidResponse else ClientGoneBeforeResponse) completedAt att"

definition completeAttemptAbandoned where
  "completeAttemptAbandoned reason = completeCancellation reason RelayAbandoned"

section \<open>The walk and the credential trace together\<close>

datatype run_error = WalkThrow walk_error | TraceMismatch | CompletionRejected completion_failure

definition recordCredentialStarted ::
  "(string, fleet_config) jmap \<Rightarrow> resolved_attempt \<Rightarrow> rat \<Rightarrow> credential_walk \<times> credential_entry list \<Rightarrow>
   run_error + (credential_walk \<times> credential_entry list)" where
  "recordCredentialStarted providers a now = (\<lambda>(w, entries).
     case recordStarted a now w of
       Inl e \<Rightarrow> Inl (WalkThrow e)
     | Inr w' \<Rightarrow> Inr (w', ctrace_recordStarted providers a entries))"

definition recordCredentialOutcome ::
  "resolved_attempt \<Rightarrow> walk_outcome \<Rightarrow> credential_walk \<times> credential_entry list \<Rightarrow>
   run_error + (credential_walk \<times> credential_entry list)" where
  "recordCredentialOutcome a out = (\<lambda>(w, entries).
     case record_outcome a out w of
       Inl e \<Rightarrow> Inl (WalkThrow e)
     | Inr w' \<Rightarrow> (case ctrace_record a out entries of None \<Rightarrow> Inl TraceMismatch | Some entries' \<Rightarrow> Inr (w', entries')))"

datatype body_disposition = BodyCancelled | BodyTimeout | BodyProtocol

definition plain_outcome :: "walk_kind \<Rightarrow> walk_outcome" where
  "plain_outcome k = \<lparr>wo_status = None, wo_kind = Some k, wo_scope = None\<rparr>"

text \<open>A response whose body failed after its headers: the client is gone, the relay's deadline fired, or the provider broke off.\<close>

definition completePostHeaderBodyFailure ::
  "run_hooks \<Rightarrow> bool \<Rightarrow> bool \<Rightarrow> rat \<Rightarrow> resolved_attempt \<Rightarrow> health_attempt \<times> run_state \<Rightarrow> credential_walk \<times> credential_entry list \<Rightarrow>
   run_error + ((health_attempt \<times> run_state) \<times> (credential_walk \<times> credential_entry list) \<times> body_disposition)" where
  "completePostHeaderBodyFailure h destroyed aborted now a x wt =
     (let (att, s) = x;
          (completed, kind, disposition) =
            (if destroyed then
               (completeAttemptCancelled (Some ''client disconnected while reading provider response body'') now att s, WCancelled, BodyCancelled)
             else if aborted then
               (completeAttemptFailure h \<lparr>fo_failure = TransportFailure, fo_provenance = Deadline, fo_status = Some 504,
                  fo_retryAfterMs = None, fo_logStatus = None\<rparr> now att s, WTimeout, BodyTimeout)
             else
               (completeAttemptFailure h \<lparr>fo_failure = ProtocolFailure, fo_provenance = InvalidUpstreamEnvelope, fo_status = Some 502,
                  fo_retryAfterMs = None, fo_logStatus = None\<rparr> now att s, WProtocol, BodyProtocol))
      in case completed of
           Inl e \<Rightarrow> Inl (CompletionRejected e)
         | Inr y \<Rightarrow>
             (case recordCredentialOutcome a (plain_outcome kind) wt of
                Inl e \<Rightarrow> Inl e
              | Inr wt' \<Rightarrow> Inr (y, wt', disposition)))"

end
