(* ===== verification/Candidate_Props.thy ===== *)
theory Candidate_Props
  imports Candidate_Order Breaker_Props Credential_Walk
begin

text \<open>
  What the runner's orderings promise: nothing is dropped, the bands stand in their order, the cooling band is sorted by
  the time it lifts, and a spent attempt is left cooling in the breaker.
\<close>

section \<open>The bands\<close>

primrec candidate_rank :: "target_usability \<Rightarrow> nat" where
  "candidate_rank Probation = 0"
| "candidate_rank Live = 1"
| "candidate_rank TooSlow = 2"
| "candidate_rank Paced = 3"
| "candidate_rank FaultedCredential = 4"
| "candidate_rank CoolingDown = 5"

lemma lift_le_total: "lift_le a b \<or> lift_le b a"
  by (cases a; cases b) auto

lemma lift_le_trans: "lift_le a b \<Longrightarrow> lift_le b c \<Longrightarrow> lift_le a c"
  by (cases a; cases b; cases c) auto

text \<open>The ordering as one of judged candidates, before the judgements are dropped.\<close>

definition warm_rows :: "('c \<times> target_usability) list \<Rightarrow> ('c \<times> target_usability) list" where
  "warm_rows scanned = concat_bands [Probation, Live, TooSlow, Paced, FaultedCredential] snd scanned"

definition row_order ::
  "order_hooks \<Rightarrow> fact_store \<Rightarrow> rat \<Rightarrow> ('c \<Rightarrow> resolved_attempt) \<Rightarrow> breaker \<Rightarrow> ('c \<times> target_usability) list \<Rightarrow> ('c \<times> target_usability) list" where
  "row_order h st now lead b scanned = warm_rows scanned @
     js_sort (\<lambda>x y. lift_le (coolingLiftTime h st now b (lead (fst x))) (coolingLiftTime h st now b (lead (fst y))))
       (filter (\<lambda>r. snd r = CoolingDown) scanned)"

lemma js_insert_map: "map f (js_insert (\<lambda>x y. le (f x) (f y)) x ys) = js_insert le (f x) (map f ys)"
  by (induction ys) auto

lemma js_sort_map: "map f (js_sort (\<lambda>x y. le (f x) (f y)) xs) = js_sort le (map f xs)"
  by (induction xs) (auto simp: js_insert_map)

lemma order_scanned_rows: "order_scanned h st now lead b scanned = map fst (row_order h st now lead b scanned)"
proof -
  have "map fst (warm_rows scanned) = band_of Probation scanned @ band_of Live scanned @ band_of TooSlow scanned @
      band_of Paced scanned @ band_of FaultedCredential scanned"
    by (simp add: warm_rows_def concat_bands_def band_of_def case_prod_unfold)
  moreover note js_sort_map [of fst "\<lambda>x y. lift_le (coolingLiftTime h st now b (lead x)) (coolingLiftTime h st now b (lead y))"
      "filter (\<lambda>r. snd r = CoolingDown) scanned"]
  ultimately show ?thesis
    by (simp add: order_scanned_def row_order_def band_of_def case_prod_unfold)
qed

lemma mset_split_filter: "mset (filter P xs) + mset (filter (\<lambda>x. \<not> P x) xs) = mset xs"
  by (induction xs) auto

lemma row_order_mset: "mset (row_order h st now lead b scanned) = mset scanned"
proof -
  have "mset (warm_rows scanned) = mset (filter (\<lambda>r. snd r \<noteq> CoolingDown) scanned)"
  proof -
    have "filter (\<lambda>r. snd r = u) (filter (\<lambda>r. snd r \<noteq> CoolingDown) scanned) = filter (\<lambda>r. snd r = u) scanned"
      if "u \<noteq> CoolingDown" for u
      using that unfolding filter_filter by (intro filter_cong) auto
    then have "warm_rows scanned = warm_rows (filter (\<lambda>r. snd r \<noteq> CoolingDown) scanned)"
      by (simp add: warm_rows_def concat_bands_def del: filter_filter)
    moreover have "snd r \<in> set [Probation, Live, TooSlow, Paced, FaultedCredential]" if "snd r \<noteq> CoolingDown" for r :: "'a \<times> target_usability"
      using that by (cases "snd r") auto
    then have "mset (warm_rows (filter (\<lambda>r. snd r \<noteq> CoolingDown) scanned)) = mset (filter (\<lambda>r. snd r \<noteq> CoolingDown) scanned)"
      unfolding warm_rows_def by (intro mset_concat_bands) auto
    ultimately show ?thesis by simp
  qed
  then have "mset (row_order h st now lead b scanned) =
      mset (filter (\<lambda>r. snd r \<noteq> CoolingDown) scanned) + mset (filter (\<lambda>r. \<not> snd r \<noteq> CoolingDown) scanned)"
    by (simp add: row_order_def)
  then show ?thesis using mset_split_filter [of "\<lambda>r. snd r \<noteq> CoolingDown" scanned] by simp
qed

interpretation co: demote_only "row_order h st now lead b" "\<lambda>r. candidate_rank (snd r)" for h st now lead b
proof
  fix scanned :: "('a \<times> target_usability) list"
  show "mset (row_order h st now lead b scanned) = mset scanned" by (rule row_order_mset)
  have "sorted (map (\<lambda>r. candidate_rank (snd r)) (warm_rows scanned))"
    unfolding warm_rows_def by (rule concat_bands_sorted) simp
  moreover have "candidate_rank u \<le> 5" for u by (cases u) auto
  moreover have "sorted (map (\<lambda>r. candidate_rank (snd r)) xs)" if "\<And>r. r \<in> set xs \<Longrightarrow> snd r = CoolingDown" for xs :: "('a \<times> target_usability) list"
    using that by (induction xs) auto
  from this [of "js_sort le (filter (\<lambda>r. snd r = CoolingDown) scanned)" for le]
  have "sorted (map (\<lambda>r. candidate_rank (snd r)) (js_sort le (filter (\<lambda>r. snd r = CoolingDown) scanned)))" for le
    by simp
  ultimately show "sorted (map (\<lambda>r. candidate_rank (snd r)) (row_order h st now lead b scanned))"
    by (auto simp: row_order_def sorted_append)
qed

lemma scan_rows: "usability_scan h st now lead cs b = (b', scanned) \<Longrightarrow> map fst scanned = cs"
  by (induction cs arbitrary: b b' scanned) (auto simp: Let_def split: prod.splits)

lemma rows_lift_sorted:
  "sorted_wrt (\<lambda>x y. lift_le (coolingLiftTime h st now b (lead (fst x))) (coolingLiftTime h st now b (lead (fst y))))
     (filter (\<lambda>r. snd r = CoolingDown) (row_order h st now lead b scanned))"
proof -
  have "filter (\<lambda>r. snd r = CoolingDown) (warm_rows scanned) = []"
    by (auto simp: warm_rows_def concat_bands_def filter_empty_conv)
  moreover have "filter (\<lambda>r. snd r = CoolingDown) (js_sort le (filter (\<lambda>r. snd r = CoolingDown) scanned)) =
      js_sort le (filter (\<lambda>r. snd r = CoolingDown) scanned)" for le
    by (rule filter_True) simp
  ultimately show ?thesis
    unfolding row_order_def by (simp del: set_js_sort) (rule js_sort_sorted, rule lift_le_total, rule lift_le_trans)
qed

text \<open>Ordering a route's attempts by usability drops and repeats none of them; it puts probation before live, then
  slow, paced, at fault and cooling, keeps the given order inside a band, and sorts the cooling band by the time each
  is known to lift, the unknown ones last.\<close>

theorem candidates_demoted_only:
  assumes "usability_scan h st now (\<lambda>a. a) attempts b = (b', scanned)"
  shows "fst (orderByUsabilityTracked h st now attempts b) = b' \<and>
    (\<exists>rows. map fst rows = snd (orderByUsabilityTracked h st now attempts b) \<and> mset rows = mset scanned \<and>
      mset (map fst rows) = mset attempts \<and> sorted (map (\<lambda>r. candidate_rank (snd r)) rows) \<and>
      (\<forall>u. u \<noteq> CoolingDown \<longrightarrow> filter (\<lambda>r. snd r = u) rows = filter (\<lambda>r. snd r = u) scanned) \<and>
      sorted_wrt (\<lambda>x y. lift_le (coolingLiftTime h st now b' (fst x)) (coolingLiftTime h st now b' (fst y)))
        (filter (\<lambda>r. snd r = CoolingDown) rows))"
proof -
  let ?rows = "row_order h st now (\<lambda>a. a) b' scanned"
  have "filter (\<lambda>r. snd r = u) ?rows = filter (\<lambda>r. snd r = u) scanned" if "u \<noteq> CoolingDown" for u
  proof -
    have "u \<in> set [Probation, Live, TooSlow, Paced, FaultedCredential]" using that by (cases u) auto
    then have "filter (\<lambda>r. snd r = u) (warm_rows scanned) = filter (\<lambda>r. snd r = u) scanned"
      unfolding warm_rows_def by (intro concat_bands_stable) auto
    moreover have "filter (\<lambda>r. snd r = u) (js_sort le (filter (\<lambda>r. snd r = CoolingDown) scanned)) = []" for le
      using that by (auto simp: filter_empty_conv)
    ultimately show ?thesis by (simp add: row_order_def)
  qed
  moreover have "mset (map fst ?rows) = mset attempts"
    using co.order_mset [of h st now "\<lambda>a. a" b' scanned] scan_rows [OF assms] by (metis mset_map)
  ultimately show ?thesis
    using co.order_mset [of h st now "\<lambda>a. a" b' scanned] co.order_ranked [of h st now "\<lambda>a. a" b' scanned]
      rows_lift_sorted [of h st now b' "\<lambda>a. a" scanned]
    by (intro conjI exI [of _ ?rows]) (simp_all add: orderByUsabilityTracked_def assms order_scanned_rows)
qed

definition ex_hooks :: order_hooks where
  "ex_hooks = \<lparr>oh_quota = None, oh_cost = None, oh_latency = None, oh_probation = None,
     oh_pacing = Some (\<lambda>a now. if ra_ref a = 0 then Some \<lparr>pv_axis = Requests, pv_period = Minute, pv_limit = Fin 5,
       pv_limitBasis = StatedLimit, pv_counted = 5\<rparr> else None)\<rparr>"

definition ex_no_facts :: fact_store where
  "ex_no_facts = \<lparr>fs_facts = [], fs_dirty = False, fs_file = None\<rparr>"

lemma ex_usability:
  "targetUsability ex_hooks ex_no_facts 0 a (snd ex_new) = (snd ex_new, if ra_ref a = 0 then Paced else Live)"
  by (simp add: targetUsability_def isHealthy_def getState_def ex_new_def cooledByAllowance_def fact_cooldownUntil_def factsFor_def
      ex_no_facts_def cooledByQuota_def ex_hooks_def hasCredentialFault_def hook_cost_def)

lemma ex_scan:
  "usability_scan ex_hooks ex_no_facts 0 (\<lambda>a. a) [ex_a, ex_b] (snd ex_new) = (snd ex_new, [(ex_a, Paced), (ex_b, Live)])"
  by (simp add: ex_usability) (simp add: ex_try_def)

theorem candidates_demoted_only_witness:
  "snd (orderByUsabilityTracked ex_hooks ex_no_facts 0 [ex_a, ex_b] (snd ex_new)) = [ex_b, ex_a] \<and>
   fst (orderByUsabilityTracked ex_hooks ex_no_facts 0 [ex_a, ex_b] (snd ex_new)) = snd ex_new"
proof
  show "snd (orderByUsabilityTracked ex_hooks ex_no_facts 0 [ex_a, ex_b] (snd ex_new)) = [ex_b, ex_a]"
    unfolding orderByUsabilityTracked_def ex_scan by (simp add: order_scanned_def band_of_def)
  show "fst (orderByUsabilityTracked ex_hooks ex_no_facts 0 [ex_a, ex_b] (snd ex_new)) = snd ex_new"
    using candidates_demoted_only [OF ex_scan] by blast
qed

section \<open>Deployment groups\<close>

lemma concat_put:
  "jm_get m k = Some g \<Longrightarrow> mset (concat (map snd (jm_put k (g @ [a]) m))) = add_mset a (mset (concat (map snd m)))"
  by (induction m) (auto split: if_splits)

lemma group_fold_mset: "mset (concat (map snd (fold add_to_group xs m))) = mset xs + mset (concat (map snd m))"
proof (induction xs arbitrary: m)
  case (Cons a xs)
  have "mset (concat (map snd (add_to_group a m))) = add_mset a (mset (concat (map snd m)))"
    by (auto simp: add_to_group_def concat_put jm_put_new split: option.splits)
  then show ?case by (simp add: Cons.IH)
qed simp

lemma groups_mset: "mset (concat (map dg_attempts (groupCredentialAttempts xs))) = mset xs"
  using group_fold_mset [of xs "[]"] by (simp add: groupCredentialAttempts_def comp_def case_prod_unfold)

lemma mset_concat_cong: "mset xs = mset ys \<Longrightarrow> mset (concat (map f xs)) = mset (concat (map f ys))"
proof -
  have "mset (concat (map f zs)) = sum_mset (image_mset (\<lambda>z. mset (f z)) (mset zs))" for zs
    by (induction zs) auto
  then show "mset xs = mset ys \<Longrightarrow> mset (concat (map f xs)) = mset (concat (map f ys))" by simp
qed

text \<open>Ordering by deployment keeps every attempt of every deployment, and each deployment's attempts together in
  their order; the deployments stand in the order of their leading attempt's band.\<close>

theorem deployments_demoted_only:
  assumes "usability_scan h st now (\<lambda>g. hd (dg_attempts g)) (groupCredentialAttempts attempts) b = (b', scanned)"
  shows "\<exists>rows. go_ordered (snd (orderDeploymentGroupsByUsability h st now attempts b)) = concat (map (dg_attempts \<circ> fst) rows) \<and>
    mset (go_ordered (snd (orderDeploymentGroupsByUsability h st now attempts b))) = mset attempts \<and>
    mset rows = mset scanned \<and> sorted (map (\<lambda>r. candidate_rank (snd r)) rows)"
proof -
  let ?lead = "\<lambda>g. hd (dg_attempts g)"
  let ?rows = "row_order h st now ?lead b' scanned"
  have o: "go_ordered (snd (orderDeploymentGroupsByUsability h st now attempts b)) = concat (map dg_attempts (map fst ?rows))"
    by (simp add: orderDeploymentGroupsByUsability_def Let_def assms order_scanned_rows)
  have "mset (map fst ?rows) = mset (groupCredentialAttempts attempts)"
    using co.order_mset [of h st now ?lead b' scanned] scan_rows [OF assms] by (metis mset_map)
  then have "mset (concat (map dg_attempts (map fst ?rows))) = mset attempts"
    using mset_concat_cong groups_mset by metis
  then show ?thesis using o co.order_mset [of h st now ?lead b' scanned] co.order_ranked [of h st now ?lead b' scanned]
    by (intro exI [of _ ?rows]) simp
qed

theorem deployments_demoted_only_witness:
  "mset (go_ordered (snd (orderDeploymentGroupsByUsability ex_hooks ex_no_facts 0 [ex_a, ex_b] (snd ex_new)))) = mset [ex_a, ex_b]"
proof -
  have "usability_scan ex_hooks ex_no_facts 0 (\<lambda>g. hd (dg_attempts g)) (groupCredentialAttempts [ex_a, ex_b]) (snd ex_new) =
      (snd ex_new, [(ex_group, Paced)])"
    unfolding ex_groups by (simp add: ex_usability ex_group_parts) (simp add: ex_try_def)
  from deployments_demoted_only [OF this] show ?thesis by blast
qed

section \<open>Stickiness\<close>

lemma index_where_Some: "index_where P xs = Some i \<Longrightarrow> i < length xs \<and> P (xs ! i)"
  by (induction xs arbitrary: i) (auto split: if_splits)

lemma move_to_front: "i < length xs \<Longrightarrow> mset (xs ! i # take i xs @ drop (Suc i) xs) = mset xs"
proof -
  assume i: "i < length xs"
  have "mset (take i xs @ xs ! i # drop (Suc i) xs) = mset xs" using i by (simp add: id_take_nth_drop [symmetric])
  then show ?thesis by simp
qed

text \<open>A pin only moves: the sticky ordering keeps every attempt, changes the order only when the pinned target's leading
  attempt is judged live, and then puts the pinned deployment first.\<close>

theorem sticky_moves_only_pinned:
  assumes "applyStickyOrdering h st now degraded pinnedSpec ordered b = (b', targets, status)"
  shows "mset targets = mset ordered \<and>
    (targets \<noteq> ordered \<longrightarrow> target_spec (hd targets) = pinnedSpec \<and> snd (targetUsability h st now (hd targets) b) = Live)"
proof -
  let ?gs = "groupCredentialAttempts ordered"
  show ?thesis
  proof (cases "targets = ordered")
    case False
    then obtain i where i: "index_where (\<lambda>g. target_spec (hd (dg_attempts g)) = pinnedSpec) ?gs = Some i"
      using assms by (auto simp: applyStickyOrdering_def Let_def split: option.splits)
    have live: "snd (targetUsability h st now (hd (dg_attempts (?gs ! i))) b) = Live"
      and t: "targets = concat (map dg_attempts (?gs ! i # take i ?gs @ drop (Suc i) ?gs))"
      using assms i False by (auto simp: applyStickyOrdering_def Let_def split: prod.splits if_splits option.splits)
    have "mset targets = mset ordered"
      unfolding t using mset_concat_cong [OF move_to_front] index_where_Some [OF i] groups_mset by metis
    moreover have "dg_attempts (?gs ! i) \<noteq> []"
      using index_where_Some [OF i] in_groups nth_mem by metis
    then have "hd targets = hd (dg_attempts (?gs ! i))" by (simp add: t)
    ultimately show ?thesis using live index_where_Some [OF i] by simp
  qed simp
qed

theorem sticky_moves_only_pinned_witness:
  "applyStickyOrdering ex_hooks ex_no_facts 0 None ''p/n'' [ex_a, ex_try 2 ''a'' DeclaredPresent ''n''] (snd ex_new) =
     (snd ex_new, [ex_try 2 ''a'' DeclaredPresent ''n'', ex_a], ''pinned, reordered'') \<and>
   mset [ex_try 2 ''a'' DeclaredPresent ''n'', ex_a] = mset [ex_a, ex_try 2 ''a'' DeclaredPresent ''n'']"
proof
  let ?c = "ex_try 2 ''a'' DeclaredPresent ''n''"
  have k: "targetKey ?c \<noteq> targetKey ex_a" by (simp add: targetKey_def model_text_def ex_try_def)
  have g: "groupCredentialAttempts [ex_a, ?c] =
      [\<lparr>dg_key = targetKey ex_a, dg_attempts = [ex_a]\<rparr>, \<lparr>dg_key = targetKey ?c, dg_attempts = [?c]\<rparr>]"
    using k by (simp add: groupCredentialAttempts_def add_to_group_def)
  have spec: "target_spec ?c = ''p/n''" "target_spec ex_a \<noteq> ''p/n''"
    by (simp_all add: target_spec_def specOfTarget_def ex_try_def)
  have live: "targetUsability ex_hooks ex_no_facts 0 ?c (snd ex_new) = (snd ex_new, Live)"
    unfolding ex_usability by (simp add: ex_try_def)
  show eq: "applyStickyOrdering ex_hooks ex_no_facts 0 None ''p/n'' [ex_a, ?c] (snd ex_new) =
      (snd ex_new, [?c, ex_a], ''pinned, reordered'')"
    unfolding applyStickyOrdering_def Let_def g by (simp add: spec live)
  show "mset [?c, ex_a] = mset [ex_a, ?c]"
    using sticky_moves_only_pinned [OF eq] by blast
qed

section \<open>A spent quota rests the attempt\<close>

definition rests :: "provider_target \<Rightarrow> rat \<Rightarrow> breaker \<Rightarrow> bool" where
  "rests t now b \<longleftrightarrow> \<not> isHealthy b t now"

lemma rests_same_key: "getKey t = getKey u \<Longrightarrow> rests t now b = rests u now b"
  by (simp add: rests_def isHealthy_def getState_def)

lemma rests_cell: "0 \<le> now \<Longrightarrow> rests t now b \<longleftrightarrow> now < cooldownUntil (getOrCreate b t)"
  by (auto simp: rests_def isHealthy_cell)

lemma quota_cooldown_rests:
  assumes "0 \<le> now"
  shows "rests t now b \<Longrightarrow> rests t now (recordQuotaCooldown u r now b)"
    and "now < q \<Longrightarrow> rests u now (recordQuotaCooldown u (Fin q) now b)"
proof -
  show "rests t now (recordQuotaCooldown u r now b)" if "rests t now b"
  proof (cases "getKey t = getKey u")
    case True
    have "now < cooldownUntil (getOrCreate b u)" using that rests_same_key [OF True] rests_cell [OF assms] by blast
    then have "rests u now (recordQuotaCooldown u r now b)"
      using quota_cooldown_only_lengthens [of b u r now] rests_cell [OF assms] by (metis order.strict_trans2)
    then show ?thesis using rests_same_key [OF True] by blast
  next
    case False
    then show ?thesis using that quota_cooldown_other [OF False, of r now b] by (simp add: rests_def isHealthy_def)
  qed
  show "rests u now (recordQuotaCooldown u (Fin q) now b)" if "now < q"
    using that unfolding rests_cell [OF assms] by (auto simp: recordQuotaCooldown_def getOrCreate_modify getOrCreate_notify cell_simps)
qed

lemma usability_keeps_rest:
  assumes "0 \<le> now" and "rests t now b"
  shows "rests t now (fst (targetUsability h st now a b))"
  using assms(2) quota_cooldown_rests(1) [OF assms]
  by (auto simp: targetUsability_def cooledByQuota_def Let_def split: option.splits prod.splits if_splits)

lemma scan_keeps_rest:
  "0 \<le> now \<Longrightarrow> rests t now b \<Longrightarrow> rests t now (fst (usability_scan h st now lead cs b))"
proof (induction cs arbitrary: b)
  case (Cons c cs)
  have "rests t now (fst (targetUsability h st now (lead c) b))" by (rule usability_keeps_rest [OF Cons.prems])
  then show ?case using Cons.IH Cons.prems(1) by (simp add: Let_def case_prod_unfold)
qed simp

lemma judged_spent_rests:
  assumes "0 \<le> now" and "oh_quota h = Some q" and "q a now = Some d" and "qd_resetsAt d = Fin r" and "now < r"
    and "\<not> cooledByAllowance st a now (hook_cost h a)"
  shows "rests (target_identity a) now (fst (targetUsability h st now a b))"
proof (cases "isHealthy b (target_identity a) now")
  case True
  then have "fst (targetUsability h st now a b) = recordQuotaCooldown (target_identity a) (Fin r) now b"
    using assms(2-4,6) by (simp add: targetUsability_def cooledByQuota_def)
  then show ?thesis using quota_cooldown_rests(2) [OF assms(1,5)] by simp
next
  case False
  then show ?thesis by (intro usability_keeps_rest [OF assms(1)]) (simp add: rests_def)
qed

lemma scanned_spent_rests:
  assumes "0 \<le> now" and "oh_quota h = Some q" and "q a now = Some d" and "qd_resetsAt d = Fin r" and "now < r"
    and "\<not> cooledByAllowance st a now (hook_cost h a)"
  shows "a \<in> set attempts \<Longrightarrow> rests (target_identity a) now (fst (usability_scan h st now (\<lambda>a. a) attempts b))"
proof (induction attempts arbitrary: b)
  case (Cons c cs)
  show ?case
  proof (cases "c = a")
    case True
    then show ?thesis using scan_keeps_rest [OF assms(1) judged_spent_rests [OF assms], of h st "\<lambda>a. a" cs b]
      by (simp add: Let_def case_prod_unfold)
  next
    case False
    then show ?thesis using Cons by (simp add: Let_def case_prod_unfold)
  qed
qed simp

text \<open>Ordering the candidates leaves every attempt whose quota demotion says it is spent until a later time cooling in the
  breaker, wherever it stood in the list, unless a learned fact cools it already.\<close>

theorem spent_attempt_rests:
  assumes "0 \<le> now" and "a \<in> set attempts" and "oh_quota h = Some q" and "q a now = Some d" and "qd_resetsAt d = Fin r"
    and "now < r" and "\<not> cooledByAllowance st a now (hook_cost h a)"
  shows "\<not> isHealthy (fst (orderByUsabilityTracked h st now attempts b)) (target_identity a) now"
  using scanned_spent_rests [OF assms(1,3-7,2), of b]
  by (simp add: orderByUsabilityTracked_def rests_def case_prod_unfold Let_def)

definition ex_demotion :: quota_demotion where
  "ex_demotion = \<lparr>qd_axis = Requests, qd_period = Day, qd_remaining = Fin 0, qd_basis = Some StatedRemaining,
     qd_resetsAt = Fin 86400000, qd_resetsAtBasis = DerivedBoundary\<rparr>"

definition ex_spent :: order_hooks where
  "ex_spent = ex_hooks\<lparr>oh_quota := Some (\<lambda>a now. Some ex_demotion)\<rparr>"

theorem spent_attempt_rests_witness:
  "\<not> isHealthy (fst (orderByUsabilityTracked ex_spent ex_no_facts 0 [ex_a, ex_b] (snd ex_new))) (target_identity ex_b) 0"
  by (rule spent_attempt_rests [where r = 86400000 and d = ex_demotion and q = "\<lambda>a now. Some ex_demotion"])
    (simp_all add: ex_spent_def ex_demotion_def cooledByAllowance_def fact_cooldownUntil_def factsFor_def ex_no_facts_def)

end
