(* ===== verification/Candidate_Run_Props.thy ===== *)
theory Candidate_Run_Props
  imports Candidate_Run Candidate_Props
begin

text \<open>
  What the runner's parts promise: the next attempt is one that no hard cap forbids; an attempt settles once, whatever
  completions are called, with one accounting event and its lease given back; a success makes the attempt usable again;
  the walk stops exactly when the status calls for no further attempt; the tally and the retry hint of a request.
\<close>

section \<open>The next attempt\<close>

text \<open>The next attempt of a request, taken from a walk in any state it can be in: the loop over capped attempts returns
  without throwing; the attempt it hands out is pending and no hard cap forbids it; every attempt it passed over was forbidden,
  and is tallied with its label, in order; and it hands out nothing only when the walk is stopped, has no deployment
  left to try, or is out of time. The walk only sees its own calls, so all that holds of a walk holds here.\<close>

theorem next_attempt_uncapped:
  assumes "distinct attempts"
    and "wr_walk r = run_walk calls (new_walk lc lru ev freshness selectionNow budget suppressed cap attempts)"
  shows "\<exists>r' x skipped later. nextUncappedAttempt show_num hardCap clock now r = Inr (r', x) \<and>
     wr_walk r' = run_walk later (wr_walk r) \<and>
     list_all (\<lambda>(c, v). hardCap c now = Some v) skipped \<and>
     pt_cappedLabels (wr_tally r') = pt_cappedLabels (wr_tally r) @ map (capped_label show_num) skipped \<and>
     (case x of None \<Rightarrow> walk_drained clock (wr_walk r')
      | Some a \<Rightarrow> hardCap a now = None \<and> isPending (wr_walk r') a \<and> pt_inFlight (wr_tally r'))"
proof -
  have "walk_ok (wr_walk r)"
    using run_ok [OF new_walk_ok(1) [OF assms(1) refl]] assms(2) by simp
  then show ?thesis by (rule nextUncapped_result [unfolded uncapped_result_def, of r show_num hardCap clock now 0,
        folded nextUncappedAttempt_def])
qed

definition ex_cap :: hard_cap_verdict where
  "ex_cap = \<lparr>hv_capped = \<lparr>ca_axis = Requests, ca_period = Day, ca_cap = 450, ca_used = Fin 450, ca_source = FromCredential,
     ca_scope = CredentialCap\<rparr>, hv_resetsAt = Fin 1000\<rparr>"

definition ex_run :: walk_run where
  "ex_run = \<lparr>wr_walk = ex_walk, wr_trace = [], wr_tally = new_tracker\<rparr>"

theorem next_attempt_uncapped_witness:
  "\<exists>r' x. nextUncappedAttempt (\<lambda>_. ''450'') (\<lambda>a _. if a = ex_a then Some ex_cap else None) (\<lambda>_. 0) 0 ex_run = Inr (r', x) \<and>
     x \<noteq> Some ex_a"
proof -
  have w: "wr_walk ex_run = run_walk [] (new_walk (\<lambda>_ _. 0) new_lru (\<lambda>_. None) None (Fin 0) None [] None ex_two_attempts)"
    by (simp add: ex_run_def ex_walk_def)
  from next_attempt_uncapped [OF ex_two_distinct w, of "\<lambda>_. ''450''" "\<lambda>a _. if a = ex_a then Some ex_cap else None" "\<lambda>_. 0" 0]
  obtain r' x where "nextUncappedAttempt (\<lambda>_. ''450'') (\<lambda>a _. if a = ex_a then Some ex_cap else None) (\<lambda>_. 0) 0 ex_run = Inr (r', x)"
    "case x of None \<Rightarrow> walk_drained (\<lambda>_. 0) (wr_walk r')
      | Some a \<Rightarrow> (if a = ex_a then Some ex_cap else None) = None \<and> isPending (wr_walk r') a \<and> pt_inFlight (wr_tally r')"
    by (elim exE conjE) (rule that)
  then show ?thesis by (auto split: option.splits)
qed

section \<open>An attempt settles once\<close>

datatype completion_call =
    CallSuccess int | CallFailure failure_options | CallCancelled "string option" | CallAbandoned "string option" | CallCommitted

fun apply_completion ::
  "run_hooks \<Rightarrow> completion_call \<times> rat \<Rightarrow> health_attempt \<times> run_state \<Rightarrow> completion_failure + (health_attempt \<times> run_state)" where
  "apply_completion h (CallSuccess status, now) (att, s) = completeAttemptSuccess h status now att s"
| "apply_completion h (CallFailure opts, now) (att, s) = completeAttemptFailure h opts now att s"
| "apply_completion h (CallCancelled reason, now) (att, s) = completeAttemptCancelled reason now att s"
| "apply_completion h (CallAbandoned reason, now) (att, s) = completeAttemptAbandoned reason now att s"
| "apply_completion h (CallCommitted, now) (att, s) = Inr (markAttemptCommitted now att s)"

text \<open>A call that throws leaves the attempt and the state as they were.\<close>

fun run_completions :: "run_hooks \<Rightarrow> (completion_call \<times> rat) list \<Rightarrow> health_attempt \<times> run_state \<Rightarrow> health_attempt \<times> run_state" where
  "run_completions h [] x = x"
| "run_completions h (c # cs) x = run_completions h cs (case apply_completion h c x of Inl e \<Rightarrow> x | Inr y \<Rightarrow> y)"

fun is_settlement :: "accounting_event \<Rightarrow> bool" where
  "is_settlement (Complete acc aa res failure us now abandoned) = True"
| "is_settlement (MarkCommitted acc aa now) = False"

definition settlements :: "run_state \<Rightarrow> nat" where
  "settlements s = length (filter is_settlement (rs_accounting s))"

text \<open>An attempt that is still to be settled: its handle is open on the breaker, for its own target.\<close>

definition unsettled :: "health_attempt \<Rightarrow> run_state \<Rightarrow> bool" where
  "unsettled att s \<longleftrightarrow> \<not> ha_completed att \<and> bk_opened (rs_core s) (ha_handle att) = Some (ha_identity att)"

lemma effects_core [simp]:
  "rs_core (recordCall h att ok now s) = rs_core s" "rs_core (tell_accounting att res f now ab s) = rs_core s"
  "rs_trace (recordCall h att ok now s) = rs_trace s" "rs_trace (tell_accounting att res f now ab s) = rs_trace s"
  "rs_facts (recordCall h att ok now s) = rs_facts s" "rs_facts (tell_accounting att res f now ab s) = rs_facts s"
  "rs_accounting (recordCall h att ok now s) = rs_accounting s"
  by (simp_all add: recordCall_def tell_accounting_def split: option.splits)

lemma settlements_tell [simp]:
  "settlements (tell_accounting att res f now ab s) = settlements s + (if ha_accounting att = None then 0 else 1)"
  by (simp add: settlements_def tell_accounting_def split: option.splits)

lemma settlements_same: "rs_accounting s' = rs_accounting s \<Longrightarrow> settlements s' = settlements s"
  by (simp add: settlements_def)

lemma retract_parts [simp]:
  "rs_accounting (retract_disproved cls att s) = rs_accounting s" "rs_trace (retract_disproved cls att s) = rs_trace s"
  "fst (rs_core (retract_disproved cls att s)) = fst (rs_core s)"
  by (simp_all add: retract_disproved_def Let_def split: prod.splits)

lemma retract_core:
  assumes "breaker_ok (rs_core s)"
  shows "breaker_ok (rs_core (retract_disproved cls att s))" and "bk_opened (rs_core (retract_disproved cls att s)) = bk_opened (rs_core s)"
proof -
  obtain p b where core: "rs_core s = (p, b)" by (cases "rs_core s")
  let ?b = "fst (clearCredentialFaults (ra_credentialId (ha_resolvedAttempt att)) b)"
  have led: "same_ledger b ?b" by (simp add: frame)
  have "breaker_ok (p, ?b)" using assms cells_clears by (intro health_op [OF _ led]) (simp_all add: core)
  then show "breaker_ok (rs_core (retract_disproved cls att s))"
    using assms core by (simp add: retract_disproved_def Let_def split: prod.split)
  show "bk_opened (rs_core (retract_disproved cls att s)) = bk_opened (rs_core s)"
    using opened_ledger [OF led, of p] core by (simp add: retract_disproved_def Let_def split: prod.split)
qed

lemma unsettled_completes:
  assumes "unsettled att s" and "breaker_ok (rs_core s)" and "outcome_target oc = ha_identity att"
  shows "\<exists>core c. completeAttempt (HRef (ha_handle att)) oc (rs_core s) = (core, Inr c) \<and> breaker_ok core \<and>
    bk_opened core = (bk_opened (rs_core s))(ha_handle att := None)"
proof -
  have op: "bk_opened (rs_core s) (ha_handle att) = Some (ha_identity att)" using assms(1) by (simp add: unsettled_def)
  obtain core c where c: "completeAttempt (HRef (ha_handle att)) oc (rs_core s) = (core, Inr c)"
    using bk.complete_accepts [OF assms(2) op, of oc] assms(3) by auto
  moreover have "breaker_ok core" using bk.complete_inv [OF assms(2), of "HRef (ha_handle att)" oc] c by simp
  moreover have "bk_opened core = (bk_opened (rs_core s))(ha_handle att := None)"
    using bk.complete_closes [OF assms(2) c] by auto
  ultimately show ?thesis by blast
qed

definition settled_by :: "health_attempt \<Rightarrow> run_state \<Rightarrow> health_attempt \<Rightarrow> run_state \<Rightarrow> bool" where
  "settled_by att s att' s' \<longleftrightarrow> ha_completed att' \<and> ha_accounting att' = ha_accounting att \<and> breaker_ok (rs_core s') \<and>
     bk_opened (rs_core s') = (bk_opened (rs_core s))(ha_handle att := None) \<and>
     settlements s' = settlements s + (if ha_accounting att = None then 0 else 1)"

lemma completing_call_settles:
  assumes "unsettled att s" and "breaker_ok (rs_core s)" and "c \<noteq> CallCommitted"
  shows "\<exists>att' s'. apply_completion h (c, now) (att, s) = Inr (att', s') \<and> settled_by att s att' s'"
proof -
  have fresh: "\<not> ha_completed att" using assms(1) by (simp add: unsettled_def)
  note comp = unsettled_completes [OF assms(1,2)]
  have base: "o_target (outcome_base_of att prov now) = ha_identity att" for prov by (simp add: outcome_base_of_def)
  show ?thesis
  proof (cases c)
    case (CallSuccess status)
    obtain core d where k: "completeAttempt (HRef (ha_handle att)) (Succeeded (outcome_base_of att Upstream now) status) (rs_core s) = (core, Inr d)"
      "breaker_ok core" "bk_opened core = (bk_opened (rs_core s))(ha_handle att := None)"
      using comp [of "Succeeded (outcome_base_of att Upstream now) status"] base by (auto simp: outcome_target_def)
    let ?cls = "Option.bind (rh_cost h) (\<lambda>c. c (ha_resolvedAttempt att))"
    let ?s = "tell_accounting att AccSuccess None now False (recordCall h att True now (s\<lparr>rs_core := core,
        rs_trace := trace_record (ha_target att) (LogStatus status) (ha_started att) now (rs_trace s)\<rparr>))"
    have "settlements (retract_disproved ?cls att ?s) = settlements s + (if ha_accounting att = None then 0 else 1)"
      using settlements_same [of "retract_disproved ?cls att ?s" ?s]
        settlements_same [of "recordCall h att True now (s\<lparr>rs_core := core,
          rs_trace := trace_record (ha_target att) (LogStatus status) (ha_started att) now (rs_trace s)\<rparr>)" s] by simp
    then have "settled_by att s (settled TSucceeded att) (retract_disproved ?cls att ?s)"
      using retract_core [of ?s ?cls att] k by (simp add: settled_by_def settled_def)
    then show ?thesis by (simp add: CallSuccess completeAttemptSuccess_def fresh k(1) Let_def)
  next
    case (CallFailure opts)
    let ?oc = "Failed (outcome_base_of att (fo_provenance opts) now) (fo_failure opts) (fo_status opts) (fo_retryAfterMs opts)"
    obtain core d where k: "completeAttempt (HRef (ha_handle att)) ?oc (rs_core s) = (core, Inr d)"
      "breaker_ok core" "bk_opened core = (bk_opened (rs_core s))(ha_handle att := None)"
      using comp [of ?oc] base by (auto simp: outcome_target_def)
    show ?thesis
      using settlements_same [of "recordCall h att False now (s\<lparr>rs_core := core, rs_trace := _\<rparr>)" s]
      by (simp add: CallFailure completeAttemptFailure_def fresh k Let_def settled_by_def settled_def)
  next
    case (CallCancelled reason)
    let ?oc = "Cancelled (outcome_base_of att ClientCancellation now)
        (if ha_committed att then ClientGoneMidResponse else ClientGoneBeforeResponse) reason"
    obtain core d where k: "completeAttempt (HRef (ha_handle att)) ?oc (rs_core s) = (core, Inr d)"
      "breaker_ok core" "bk_opened core = (bk_opened (rs_core s))(ha_handle att := None)"
      using comp [of ?oc] base by (auto simp: outcome_target_def)
    show ?thesis
      using settlements_same [of "s\<lparr>rs_core := core, rs_trace := _\<rparr>" s]
      by (simp add: CallCancelled completeAttemptCancelled_def completeCancellation_def fresh k Let_def settled_by_def settled_def)
  next
    case (CallAbandoned reason)
    let ?oc = "Cancelled (outcome_base_of att ClientCancellation now) RelayAbandoned reason"
    obtain core d where k: "completeAttempt (HRef (ha_handle att)) ?oc (rs_core s) = (core, Inr d)"
      "breaker_ok core" "bk_opened core = (bk_opened (rs_core s))(ha_handle att := None)"
      using comp [of ?oc] base by (auto simp: outcome_target_def)
    show ?thesis
      using settlements_same [of "s\<lparr>rs_core := core, rs_trace := _\<rparr>" s]
      by (simp add: CallAbandoned completeAttemptAbandoned_def completeCancellation_def fresh k Let_def settled_by_def settled_def)
  qed (use assms(3) in simp)
qed

lemma settled_ignores: "ha_completed att \<Longrightarrow> c \<noteq> CallCommitted \<Longrightarrow> apply_completion h (c, now) (att, s) = Inr (att, s)"
  by (cases c) (simp_all add: completeAttemptSuccess_def completeAttemptFailure_def completeAttemptCancelled_def
      completeAttemptAbandoned_def completeCancellation_def)

lemma committing_keeps:
  assumes "apply_completion h (CallCommitted, now) (att, s) = Inr (att', s')"
  shows "ha_completed att' = ha_completed att \<and> ha_accounting att' = ha_accounting att \<and> rs_core s' = rs_core s \<and>
    settlements s' = settlements s \<and> unsettled att' s' = unsettled att s"
  using assms by (auto simp: markAttemptCommitted_def settlements_def unsettled_def split: option.splits)

lemma settled_run:
  "ha_completed (fst x) \<Longrightarrow> ha_completed (fst (run_completions h cs x)) \<and> settlements (snd (run_completions h cs x)) = settlements (snd x) \<and>
     rs_core (snd (run_completions h cs x)) = rs_core (snd x)"
proof (induction cs arbitrary: x)
  case (Cons c cs)
  obtain k now where c: "c = (k, now)" by force
  obtain att s where x: "x = (att, s)" by force
  show ?case
  proof (cases "k = CallCommitted")
    case True
    obtain att' s' where m: "markAttemptCommitted now att s = (att', s')" by force
    have "apply_completion h (CallCommitted, now) (att, s) = Inr (att', s')" by (simp add: m)
    from committing_keeps [OF this] show ?thesis using Cons.IH [of "(att', s')"] Cons.prems by (simp add: c x True m)
  next
    case False
    have "apply_completion h (k, now) (att, s) = Inr (att, s)" using settled_ignores Cons.prems False by (simp add: x)
    then show ?thesis using Cons by (simp add: c x)
  qed
qed simp

lemma run_settles:
  "unsettled (fst x) (snd x) \<Longrightarrow> breaker_ok (rs_core (snd x)) \<Longrightarrow> y = run_completions h cs x \<Longrightarrow>
     ha_completed (fst y) = list_ex (\<lambda>c. fst c \<noteq> CallCommitted) cs \<and> breaker_ok (rs_core (snd y)) \<and>
     settlements (snd y) = settlements (snd x) + (if ha_completed (fst y) \<and> ha_accounting (fst x) \<noteq> None then 1 else 0) \<and>
     bk_opened (rs_core (snd y)) = (if ha_completed (fst y) then (bk_opened (rs_core (snd x)))(ha_handle (fst x) := None)
       else bk_opened (rs_core (snd x)))"
proof (induction cs arbitrary: x)
  case Nil
  then show ?case by (simp add: unsettled_def)
next
  case (Cons c cs)
  obtain k now where c: "c = (k, now)" by force
  obtain att s where x: "x = (att, s)" by force
  show ?case
  proof (cases "k = CallCommitted")
    case True
    obtain att' s' where m: "markAttemptCommitted now att s = (att', s')" by force
    have "apply_completion h (CallCommitted, now) (att, s) = Inr (att', s')" by (simp add: m)
    note keep = committing_keeps [OF this]
    have h: "ha_handle att' = ha_handle att" using m by (auto simp: markAttemptCommitted_def)
    show ?thesis using Cons.IH [of "(att', s')"] Cons.prems keep by (simp add: c x True m h)
  next
    case False
    obtain att' s' where s': "apply_completion h (k, now) (att, s) = Inr (att', s')" "settled_by att s att' s'"
      using completing_call_settles [of att s k h now] Cons.prems False by (auto simp: x)
    then show ?thesis
      using settled_run [of "(att', s')" h cs] Cons.prems(3) False by (simp add: c x settled_by_def)
  qed
qed

text \<open>C5. An attempt settles once. From the moment the breaker lets it begin, and whatever success, failure, cancellation,
  abandonment and commit calls arrive in whatever order, it is completed exactly when one of them completes; the accounting is
  then told of one completion and never of a second; and its credential's lease, taken at the begin, is given back exactly then.\<close>

theorem attempt_settles_once:
  assumes "breaker_reachable (rs_core s)" and "beginHealthAttempt a started us acc tokens s = (s1, Some att)"
    and "(att', s') = run_completions h calls (att, s1)"
  shows "ha_completed att' = list_ex (\<lambda>c. fst c \<noteq> CallCommitted) calls \<and>
    settlements s' = settlements s + (if ha_completed att' \<and> acc \<noteq> None then 1 else 0) \<and>
    inFlightCredential (snd (rs_core s')) c = inFlightCredential (snd (rs_core s)) c +
      (if \<not> ha_completed att' \<and> c = ra_credentialId a then 1 else 0)"
proof -
  have ok: "breaker_ok (rs_core s)" using assms(1) by (rule reachable_ok)
  obtain p b where core: "rs_core s = (p, b)" by (cases "rs_core s")
  obtain p1 b1 h1 where beg: "beginAttempt (target_identity a) (Fin started) (Some tokens) (p, b) = ((p1, b1), Inr h1)"
    and s1: "s1 = s\<lparr>rs_core := (p1, b1)\<rparr>" and att: "ha_handle att = h1" "ha_identity att = target_identity a"
      "\<not> ha_completed att" "ha_accounting att = acc"
    using assms(2) by (auto simp: beginHealthAttempt_def core split: prod.splits sum.splits)
  have ao: "attempts_ok (p, b)" using ok core by (simp add: breaker_ok_def)
  note e = begin_effect [OF ao beg]
  have ok1: "breaker_ok (rs_core s1)" using begin_ok [of p b "target_identity a" "Fin started" "Some tokens"] ok core beg s1 by simp
  have un: "unsettled att s1" using e(3) s1 att by (simp add: unsettled_def)
  have run: "ha_completed att' = list_ex (\<lambda>c. fst c \<noteq> CallCommitted) calls" "breaker_ok (rs_core s')"
    "settlements s' = settlements s1 + (if ha_completed att' \<and> ha_accounting att \<noteq> None then 1 else 0)"
    "bk_opened (rs_core s') = (if ha_completed att' then (bk_opened (rs_core s1))(h1 := None) else bk_opened (rs_core s1))"
    using run_settles [OF _ _ assms(3)] un ok1 att(1) by simp_all
  have leases: "inFlightCredential (snd (rs_core x)) c = card (open_on (bk_opened (rs_core x)) c)" if "breaker_ok (rs_core x)" for x
    using that by (simp add: breaker_ok_def leases_ok_def)
  have "inFlightCredential (snd (rs_core s')) c = inFlightCredential (snd (rs_core s)) c +
      (if \<not> ha_completed att' \<and> c = ra_credentialId a then 1 else 0)"
  proof (cases "ha_completed att'")
    case True
    then have "bk_opened (rs_core s') = bk_opened (rs_core s)" using run(4) e(2,3) s1 core by (auto simp: fun_eq_iff)
    then show ?thesis using leases [OF run(2)] leases [OF ok] True by simp
  next
    case False
    then have "bk_opened (rs_core s') = bk_opened (rs_core s1)" using run(4) by simp
    then have "inFlightCredential (snd (rs_core s')) c = inFlightCredential b1 c" using leases [OF run(2)] leases [OF ok1] s1 by simp
    then show ?thesis using e(5) [of c] False core by (simp add: target_identity_def)
  qed
  then show ?thesis using run(1,3) att(4) s1 by (simp add: settlements_def)
qed

definition ex_state :: run_state where
  "ex_state = \<lparr>rs_core = ex_new, rs_facts = ex_no_facts, rs_trace = [], rs_calls = [], rs_accounting = []\<rparr>"

definition ex_rh :: run_hooks where "ex_rh = \<lparr>rh_recordsCalls = True, rh_cost = None\<rparr>"

lemma ex_begins:
  "\<exists>s1 att. beginHealthAttempt ex_a 0 \<lparr>us_ref = 0, us_completionTokens = Some 12\<rparr> (Some 7) (Fin 10) ex_state = (s1, Some att) \<and>
     unsettled att s1 \<and> breaker_reachable (rs_core s1) \<and> ha_resolvedAttempt att = ex_a \<and> ha_identity att = target_identity ex_a"
proof -
  have ao: "attempts_ok ex_new" using reachable_ok [OF ex_new_reachable] by (simp add: breaker_ok_def)
  then obtain p b h where beg: "beginAttempt (target_identity ex_a) (Fin 0) (Some (Fin 10)) ex_new = ((p, b), Inr h)"
    using begin_accepts [of "fst ex_new" "snd ex_new"] by force
  have "breaker_reachable (p, b)"
    using breaker_reachable.Step [OF ex_new_reachable breaker_step.Begin, of "target_identity ex_a" "Fin 0" "Some (Fin 10)"] beg by simp
  moreover have "bk_opened (p, b) h = Some (target_identity ex_a)"
    using begin_effect(3) [of "fst ex_new" "snd ex_new"] ao beg by simp
  ultimately show ?thesis by (simp add: beginHealthAttempt_def ex_state_def beg unsettled_def)
qed

theorem attempt_settles_once_witness:
  "\<exists>s1 att. beginHealthAttempt ex_a 0 \<lparr>us_ref = 0, us_completionTokens = Some 12\<rparr> (Some 7) (Fin 10) ex_state = (s1, Some att) \<and>
     settlements (snd (run_completions ex_rh [(CallCommitted, 3), (CallSuccess 200, 5), (CallCancelled None, 6)] (att, s1))) = 1"
proof -
  obtain s1 att where b: "beginHealthAttempt ex_a 0 \<lparr>us_ref = 0, us_completionTokens = Some 12\<rparr> (Some 7) (Fin 10) ex_state = (s1, Some att)"
    using ex_begins by blast
  have reach: "breaker_reachable (rs_core ex_state)" by (simp add: ex_state_def ex_new_reachable)
  note once = attempt_settles_once [OF reach b prod.collapse, of ex_rh "[(CallCommitted, 3), (CallSuccess 200, 5), (CallCancelled None, 6)]"]
  have "settlements (snd (run_completions ex_rh [(CallCommitted, 3), (CallSuccess 200, 5), (CallCancelled None, 6)] (att, s1))) = 1"
    using once by (simp add: settlements_def ex_state_def del: run_completions.simps)
  then show ?thesis using b by blast
qed

section \<open>A success makes the attempt usable\<close>

lemma clear_faults_cell:
  "getState (fst (clearCredentialFaults c b)) t = map_option (\<lambda>s. if t_credentialId (cs_target s) = c \<and>
      \<not> (credentialFaultUntil s = 0 \<and> credentialFailures s = 0) then clear_fault s else s) (getState b t)"
  by (simp add: clearCredentialFaults_def Let_def getState_def notifyStateChanged_def)

lemma clear_faults_usable:
  "isHealthy (fst (clearCredentialFaults c b)) t now = isHealthy b t now"
  by (auto simp: isHealthy_def clear_faults_cell clear_fault_def split: option.splits)

lemma same_target_health: "sameProviderTarget t u \<Longrightarrow> isHealthy b t now = isHealthy b u now"
  by (simp add: isHealthy_def getState_def same_target_same_key)

lemma clear_faults_fault:
  "\<not> hasCredentialFault b t now \<Longrightarrow> 0 \<le> now \<Longrightarrow> \<not> hasCredentialFault (fst (clearCredentialFaults c b)) t now"
  by (auto simp: hasCredentialFault_def clear_faults_cell clear_fault_def split: option.splits)

lemma clear_faults_all:
  assumes "(k, cell) \<in> set (b_states (fst (clearCredentialFaults c b)))" and "t_credentialId (cs_target cell) = c"
  shows "credentialFaultUntil cell = 0"
proof -
  let ?hit = "\<lambda>s. t_credentialId (cs_target s) = c \<and> \<not> (credentialFaultUntil s = 0 \<and> credentialFailures s = 0)"
  have "b_states (fst (clearCredentialFaults c b)) = map (\<lambda>(k, s). (k, if ?hit s then clear_fault s else s)) (b_states b)"
    by (simp add: clearCredentialFaults_def Let_def jm_map_values_def notifyStateChanged_def)
  then obtain s where "cell = (if ?hit s then clear_fault s else s)" using assms(1) by auto
  then show ?thesis using assms(2) by (auto simp: clear_fault_def split: if_splits)
qed

lemma same_target_fault: "sameProviderTarget t u \<Longrightarrow> hasCredentialFault b t now = hasCredentialFault b u now"
  by (simp add: hasCredentialFault_def getState_def same_target_same_key)

lemma retract_breaker:
  "snd (rs_core (retract_disproved cls att s)) = snd (rs_core s) \<or>
   snd (rs_core (retract_disproved cls att s)) = fst (clearCredentialFaults (ra_credentialId (ha_resolvedAttempt att)) (snd (rs_core s)))"
  by (simp add: retract_disproved_def Let_def split: prod.split)

lemma retract_facts:
  "rs_facts (retract_disproved cls att s) = fst (clearFacts (rt_provider (ra_target (ha_resolvedAttempt att)))
     (Some (ra_credentialId (ha_resolvedAttempt att))) (rt_model (ra_target (ha_resolvedAttempt att))) cls (rs_facts s))"
  by (simp add: retract_disproved_def Let_def split: prod.split)

lemma retract_clears_faults:
  assumes "f \<in> snd ` set (fs_facts (rs_facts s))" and "f_kind f = CredentialInvalid" and "is_credential_scope (f_scope f)"
    and "covers f (rt_provider (ra_target (ha_resolvedAttempt att))) (Some (ra_credentialId (ha_resolvedAttempt att)))
      (rt_model (ra_target (ha_resolvedAttempt att)))" and "costFilterAdmits f cls"
  shows "snd (rs_core (retract_disproved cls att s)) =
    fst (clearCredentialFaults (ra_credentialId (ha_resolvedAttempt att)) (snd (rs_core s)))"
proof -
  have "CONDITIONS (f_kind f)" by (simp add: assms(2) CONDITIONS_def)
  then have "CredentialInvalid \<in> set (snd (clearFacts (rt_provider (ra_target (ha_resolvedAttempt att)))
     (Some (ra_credentialId (ha_resolvedAttempt att))) (rt_model (ra_target (ha_resolvedAttempt att))) cls (rs_facts s)))"
    using assms by (auto simp: clearFacts_def Let_def clears_def intro!: image_eqI [of _ _ f])
  then show ?thesis by (auto simp: retract_disproved_def Let_def split: prod.split)
qed

lemma no_conditions_left:
  "h \<in> set (factsFor (fst (clearFacts provider cred model cls st)) provider cred model now cls) \<Longrightarrow> \<not> CONDITIONS (fh_kind h)"
  unfolding set_factsFor by (force simp: clearFacts_def Let_def drop_facts_def clears_def hit_of_def)

lemma success_effect:
  assumes "breaker_ok (rs_core s)" and "\<not> ha_completed att"
    and "completeAttemptSuccess h status completedAt att s = Inr (att', s')"
  obtains t ob b2 s2 where "sameProviderTarget t (ha_identity att)" "rs_facts s2 = rs_facts s"
    "snd (rs_core s2) = applyTerminalOutcome t (Succeeded (outcome_base_of att Upstream completedAt) status) ob b2"
    "s' = retract_disproved (Option.bind (rh_cost h) (\<lambda>c. c (ha_resolvedAttempt att))) att s2"
proof -
  obtain p b where core: "rs_core s = (p, b)" by (cases "rs_core s")
  let ?oc = "Succeeded (outcome_base_of att Upstream completedAt) status"
  obtain p' b' c where k: "completeAttempt (HRef (ha_handle att)) ?oc (p, b) = ((p', b'), Inr c)"
    and s': "s' = retract_disproved (Option.bind (rh_cost h) (\<lambda>c. c (ha_resolvedAttempt att))) att
      (tell_accounting att AccSuccess None completedAt False (recordCall h att True completedAt (s\<lparr>rs_core := (p', b'),
        rs_trace := trace_record (ha_target att) (LogStatus status) (ha_started att) completedAt (rs_trace s)\<rparr>)))"
    using assms(2,3) by (auto simp: completeAttemptSuccess_def core Let_def split: prod.splits sum.splits)
  have ao: "attempts_ok (p, b)" using assms(1) by (simp add: core breaker_ok_def)
  show ?thesis
  proof (rule complete_effect [OF ao k])
    fix t r b2
    assume "sameProviderTarget t (outcome_target ?oc)" "b' = applyTerminalOutcome t ?oc (ba_observation r) b2"
    then show ?thesis by (intro that [OF _ _ _ s']) (simp_all add: outcome_target_def outcome_base_of_def)
  qed
qed

text \<open>A success makes the attempt usable again, across the breaker and the facts: its cell is neither cooling nor marked for
  a credential fault, and no condition that a success could disprove is told of it any more; and when the facts held the
  credential for invalid, the credential's fault mark is gone from every cell it has, of whatever model.\<close>

theorem success_restores_attempt:
  assumes "breaker_reachable (rs_core s)" and "\<not> ha_completed att"
    and "completeAttemptSuccess h status completedAt att s = Inr (att', s')"
    and "a = ha_resolvedAttempt att" and "cls = Option.bind (rh_cost h) (\<lambda>c. c a)" and "0 \<le> now"
  shows "isHealthy (snd (rs_core s')) (ha_identity att) now \<and> \<not> hasCredentialFault (snd (rs_core s')) (ha_identity att) now \<and>
    (\<forall>f \<in> set (factsFor (rs_facts s') (rt_provider (ra_target a)) (Some (ra_credentialId a)) (rt_model (ra_target a)) now cls).
       \<not> CONDITIONS (fh_kind f)) \<and>
    ((\<exists>f \<in> snd ` set (fs_facts (rs_facts s)). f_kind f = CredentialInvalid \<and> is_credential_scope (f_scope f) \<and>
        covers f (rt_provider (ra_target a)) (Some (ra_credentialId a)) (rt_model (ra_target a)) \<and> costFilterAdmits f cls) \<longrightarrow>
      (\<forall>(k, cell) \<in> set (b_states (snd (rs_core s'))). t_credentialId (cs_target cell) = ra_credentialId a \<longrightarrow> credentialFaultUntil cell = 0))"
proof -
  obtain t ob b2 s2 where e: "sameProviderTarget t (ha_identity att)" "rs_facts s2 = rs_facts s"
    "snd (rs_core s2) = applyTerminalOutcome t (Succeeded (outcome_base_of att Upstream completedAt) status) ob b2"
    "s' = retract_disproved cls att s2"
    using success_effect [OF reachable_ok [OF assms(1)] assms(2,3)] assms(4,5) by metis
  let ?b = "snd (rs_core s2)"
  have up: "PROVENANCE_REACHES_HEALTH_PATH (o_provenance (outcome_base_of att Upstream completedAt))" by (simp add: outcome_base_of_def)
  have cell: "isHealthy ?b (ha_identity att) now" "\<not> hasCredentialFault ?b (ha_identity att) now"
    using served_recovers [OF up assms(6) e(3)] same_target_health [OF e(1)] same_target_fault [OF e(1)] by auto
  have "isHealthy (snd (rs_core s')) (ha_identity att) now" "\<not> hasCredentialFault (snd (rs_core s')) (ha_identity att) now"
    using retract_breaker [of cls att s2] cell clear_faults_usable clear_faults_fault [OF cell(2) assms(6)] by (auto simp: e(4))
  moreover have "\<not> CONDITIONS (fh_kind f)"
    if "f \<in> set (factsFor (rs_facts s') (rt_provider (ra_target a)) (Some (ra_credentialId a)) (rt_model (ra_target a)) now cls)" for f
    using that unfolding e(4) retract_facts assms(4) by (rule no_conditions_left)
  moreover have "credentialFaultUntil cell = 0"
    if f: "f \<in> snd ` set (fs_facts (rs_facts s))" "f_kind f = CredentialInvalid" "is_credential_scope (f_scope f)"
      "covers f (rt_provider (ra_target a)) (Some (ra_credentialId a)) (rt_model (ra_target a))" "costFilterAdmits f cls"
      and k: "(k, cell) \<in> set (b_states (snd (rs_core s')))" "t_credentialId (cs_target cell) = ra_credentialId a" for f k cell
    using clear_faults_all k unfolding e(4) retract_clears_faults [OF f [folded e(2), unfolded assms(4)]] assms(4) by blast
  ultimately show ?thesis by blast
qed

theorem success_restores_attempt_witness:
  "\<exists>s1 att att' s'. beginHealthAttempt ex_a 0 \<lparr>us_ref = 0, us_completionTokens = Some 12\<rparr> (Some 7) (Fin 10) ex_state = (s1, Some att) \<and>
     completeAttemptSuccess ex_rh 200 5 att s1 = Inr (att', s') \<and> isHealthy (snd (rs_core s')) (target_identity ex_a) 10"
proof -
  obtain s1 att where b: "beginHealthAttempt ex_a 0 \<lparr>us_ref = 0, us_completionTokens = Some 12\<rparr> (Some 7) (Fin 10) ex_state = (s1, Some att)"
    "unsettled att s1" "breaker_reachable (rs_core s1)" "ha_identity att = target_identity ex_a"
    using ex_begins by blast
  obtain att' s' where s': "completeAttemptSuccess ex_rh 200 5 att s1 = Inr (att', s')"
    using completing_call_settles [OF b(2) reachable_ok [OF b(3)], of "CallSuccess 200" ex_rh 5] by auto
  have "\<not> ha_completed att" using b(2) by (simp add: unsettled_def)
  from success_restores_attempt [OF b(3) this s' refl refl, of 10] have "isHealthy (snd (rs_core s')) (target_identity ex_a) 10"
    by (simp add: b(4))
  with b(1) s' show ?thesis by blast
qed

section \<open>Statuses, the walk and the tally\<close>

text \<open>The two readings of a status agree: the walk stops on the outcome the runner reports for a response exactly when the
  response is the relay's own failure or its status calls for no further attempt, for every final status.\<close>

theorem walk_stops_with_status:
  assumes "200 \<le> status"
  shows "stopping_outcome (walkOutcomeForResponse status localFailure scope) = (localFailure \<or> \<not> shouldTryNext (classifyStatus status))"
  using assms
  by (auto simp: stopping_outcome_def walkOutcomeForResponse_def shouldTryNext_def classifyStatus_def statusVerdict_def
      STATUS_VERDICT_TABLE_def)

theorem walk_stops_with_status_witness:
  "stopping_outcome (walkOutcomeForResponse 422 False None) \<and> \<not> stopping_outcome (walkOutcomeForResponse 429 False None)"
  using walk_stops_with_status [of 422 False None] walk_stops_with_status [of 429 False None]
  by (simp add: shouldTryNext_def classifyStatus_def statusVerdict_def STATUS_VERDICT_TABLE_def)

text \<open>What a request reports to its tally, in order.\<close>

datatype tally_call =
    Failover int "rat option" | FinalStatus int | DeadTurn | Capped string jsnum | Offered | Egress | UnknownRefusal

fun tally_step :: "tally_call \<Rightarrow> pool_tracker \<Rightarrow> pool_tracker" where
  "tally_step (Failover status wait) t = recordFailover status wait t"
| "tally_step (FinalStatus status) t = recordFinal status t"
| "tally_step DeadTurn t = recordDeadTurn t"
| "tally_step (Capped label lift) t = tally_capped label lift t"
| "tally_step Offered t = noteOffered t"
| "tally_step Egress t = noteEgress t"
| "tally_step UnknownRefusal t = noteUnknownRefusal t"

definition tally_run :: "tally_call list \<Rightarrow> pool_tracker" where
  "tally_run calls = fold tally_step calls new_tracker"

fun counted_key :: "tally_call \<Rightarrow> tally_key option" where
  "counted_key (Failover status wait) = Some (TallyStatus status)"
| "counted_key (FinalStatus status) = Some (TallyStatus status)"
| "counted_key DeadTurn = Some TallyDeadTurn"
| "counted_key c = None"

fun stated_retry :: "tally_call \<Rightarrow> rat option" where
  "stated_retry (Failover status wait) = (if status = 429 then wait else None)"
| "stated_retry c = None"

fun other_failure :: "tally_call \<Rightarrow> bool" where
  "other_failure (Failover status wait) = (status \<noteq> 429)"
| "other_failure DeadTurn = True"
| "other_failure c = False"

definition count_of :: "pool_tracker \<Rightarrow> tally_key \<Rightarrow> nat" where
  "count_of t k = (case jm_get (pt_counts t) k of None \<Rightarrow> 0 | Some n \<Rightarrow> n)"

lemma tally_frame [simp]:
  "pt_counts (stampCapped t) = pt_counts t" "pt_only429 (stampCapped t) = pt_only429 t"
  "pt_minRetryAfterMs (stampCapped t) = pt_minRetryAfterMs t" "pt_cappedLabels (stampCapped t) = pt_cappedLabels t"
  "pt_counts (tally_stamp k t) = pt_counts t" "pt_only429 (tally_stamp k t) = pt_only429 t"
  "pt_minRetryAfterMs (tally_stamp k t) = pt_minRetryAfterMs t" "pt_cappedLabels (tally_stamp k t) = pt_cappedLabels t"
  by (simp_all add: stampCapped_def tally_stamp_def Let_def)

lemma tally_count_frame [simp]:
  "pt_only429 (tally_count k t) = pt_only429 t" "pt_minRetryAfterMs (tally_count k t) = pt_minRetryAfterMs t"
  "pt_cappedLabels (tally_count k t) = pt_cappedLabels t"
  "pt_counts (tally_count k t) = jm_put k (count_of t k + 1) (pt_counts t)"
  by (simp_all add: tally_count_def Let_def count_of_def)

definition counts_spec :: "tally_call list \<Rightarrow> pool_tracker \<Rightarrow> bool" where
  "counts_spec calls t \<longleftrightarrow> jm_ok (pt_counts t) \<and> (\<forall>k. count_of t k = length (filter (\<lambda>c. counted_key c = Some k) calls)) \<and>
     (\<forall>k. jm_get (pt_counts t) k \<noteq> None \<longleftrightarrow> k \<in> set (List.map_filter counted_key calls))"

definition retry_spec :: "tally_call list \<Rightarrow> rat option \<Rightarrow> bool" where
  "retry_spec calls m \<longleftrightarrow>
     set_option m = (let ws = set (List.map_filter stated_retry calls) in if ws = {} then {} else {Min ws})"

fun capped_name :: "tally_call \<Rightarrow> string option" where
  "capped_name (Capped label lift) = Some label"
| "capped_name c = None"

definition tally_spec :: "tally_call list \<Rightarrow> pool_tracker \<Rightarrow> bool" where
  "tally_spec calls t \<longleftrightarrow> pt_egressed t = list_ex (\<lambda>c. c = Egress) calls \<and> counts_spec calls t \<and>
     pt_only429 t = (\<not> list_ex other_failure calls) \<and> retry_spec calls (pt_minRetryAfterMs t) \<and>
     pt_cappedLabels t = List.map_filter capped_name calls"

lemma map_filter_snoc: "List.map_filter f (xs @ [x]) = List.map_filter f xs @ (case f x of None \<Rightarrow> [] | Some y \<Rightarrow> [y])"
  by (induction xs) (auto simp: map_filter_simps split: option.split)

lemma tally_egressed [simp]:
  "pt_egressed (stampCapped t) = pt_egressed t" "pt_egressed (tally_stamp k t) = pt_egressed t"
  "pt_egressed (tally_count k t) = pt_egressed t"
  by (simp_all add: stampCapped_def tally_stamp_def tally_count_def Let_def)

lemma counted_snoc:
  assumes "counts_spec calls t" and "pt_counts t' = jm_put k (count_of t k + 1) (pt_counts t)" and "counted_key c = Some k"
  shows "counts_spec (calls @ [c]) t'"
proof -
  have "count_of t' j = (if j = k then count_of t k + 1 else count_of t j)" for j
    by (simp add: count_of_def assms(2) jm.get_put)
  then show ?thesis using assms by (auto simp: counts_spec_def jm.get_put jm.ok_put map_filter_snoc)
qed

lemma uncounted_snoc:
  assumes "counts_spec calls t" and "pt_counts t' = pt_counts t" and "counted_key c = None"
  shows "counts_spec (calls @ [c]) t'"
  using assms by (auto simp: counts_spec_def map_filter_snoc count_of_def)

lemma retry_snoc_none: "retry_spec calls m \<Longrightarrow> stated_retry c = None \<Longrightarrow> retry_spec (calls @ [c]) m"
  by (simp add: retry_spec_def map_filter_snoc)

lemma retry_snoc:
  assumes "retry_spec calls m" and "stated_retry c = Some r"
  shows "retry_spec (calls @ [c]) (Some (case m of None \<Rightarrow> r | Some n \<Rightarrow> min n r))"
proof (cases m)
  case None
  then have "set (List.map_filter stated_retry calls) = {}" using assms(1) by (auto simp: retry_spec_def Let_def split: if_splits)
  then show ?thesis using None assms(2) by (simp add: retry_spec_def map_filter_snoc)
next
  case (Some n)
  then have "set (List.map_filter stated_retry calls) \<noteq> {}" "n = Min (set (List.map_filter stated_retry calls))"
    using assms(1) by (auto simp: retry_spec_def Let_def split: if_splits)
  then show ?thesis using Some assms(2) by (simp add: retry_spec_def map_filter_snoc min.commute)
qed

lemma failover_parts:
  "pt_counts (recordFailover status wait t) = jm_put (TallyStatus status) (count_of t (TallyStatus status) + 1) (pt_counts t)"
  "pt_egressed (recordFailover status wait t) = pt_egressed t" "pt_cappedLabels (recordFailover status wait t) = pt_cappedLabels t"
  "pt_only429 (recordFailover status wait t) = (pt_only429 t \<and> status = 429)"
  "pt_minRetryAfterMs (recordFailover status wait t) = (case stated_retry (Failover status wait) of None \<Rightarrow> pt_minRetryAfterMs t
     | Some r \<Rightarrow> Some (case pt_minRetryAfterMs t of None \<Rightarrow> r | Some n \<Rightarrow> min n r))"
  by (simp_all add: recordFailover_def Let_def split: option.split)

lemma tally_spec_step:
  assumes "tally_spec calls t"
  shows "tally_spec (calls @ [c]) (tally_step c t)"
proof -
  have spec: "counts_spec calls t" "retry_spec calls (pt_minRetryAfterMs t)" using assms by (simp_all add: tally_spec_def)
  have counts: "counts_spec (calls @ [c]) (tally_step c t)"
  proof (cases "counted_key c")
    case None
    then show ?thesis
      by (intro uncounted_snoc [OF spec(1)]) (cases c; simp add: tally_capped_def noteOffered_def noteEgress_def noteUnknownRefusal_def Let_def)+
  next
    case (Some k)
    then show ?thesis
      by (intro counted_snoc [OF spec(1) _ Some]) (cases c; auto simp: failover_parts recordFinal_def recordDeadTurn_def count_of_def)
  qed
  have retry: "retry_spec (calls @ [c]) (pt_minRetryAfterMs (tally_step c t))"
  proof (cases "stated_retry c")
    case None
    then have "pt_minRetryAfterMs (tally_step c t) = pt_minRetryAfterMs t"
      by (cases c; simp add: failover_parts recordFinal_def recordDeadTurn_def tally_capped_def noteOffered_def noteEgress_def
          noteUnknownRefusal_def Let_def)
    then show ?thesis using retry_snoc_none [OF spec(2) None] by simp
  next
    case (Some r)
    then obtain wait where c: "c = Failover 429 wait" by (cases c) (auto split: if_splits)
    show ?thesis using retry_snoc [OF spec(2) Some] Some by (simp add: c failover_parts)
  qed
  show ?thesis unfolding tally_spec_def
    using assms counts retry
    by (cases c) (auto simp: tally_spec_def map_filter_snoc failover_parts recordFinal_def recordDeadTurn_def tally_capped_def
        noteOffered_def noteEgress_def noteUnknownRefusal_def Let_def)
qed

lemma tally_run_spec: "tally_spec calls (tally_run calls)"
proof (induction calls rule: rev_induct)
  case Nil
  show ?case by (simp add: tally_spec_def counts_spec_def retry_spec_def tally_run_def new_tracker_def count_of_def map_filter_simps)
next
  case (snoc c calls)
  then show ?case using tally_spec_step by (simp add: tally_run_def)
qed

text \<open>The retry hint of a request: one is given exactly when its last status is 429, every attempt that failed over before it
  failed with a 429, none of them was a dead turn, and some of them stated a wait; it is then the least of all the waits that were stated,
  the last one's included.\<close>

theorem retry_hint_is_least:
  shows "overrideMs status wait (tally_run calls) =
    (let ws = set (List.map_filter stated_retry calls)
     in if status \<noteq> 429 \<or> list_ex other_failure calls \<or> ws = {} then None else Some (Min (ws \<union> set_option wait)))"
proof -
  let ?t = "tally_run calls" and ?ws = "set (List.map_filter stated_retry calls)"
  have spec: "pt_only429 ?t = (\<not> list_ex other_failure calls)" "retry_spec calls (pt_minRetryAfterMs ?t)"
    using tally_run_spec [of calls] by (simp_all add: tally_spec_def)
  show ?thesis
  proof (cases "pt_minRetryAfterMs ?t")
    case None
    then have "?ws = {}" using spec(2) by (auto simp: retry_spec_def Let_def split: if_splits)
    then show ?thesis using None by (simp add: overrideMs_def)
  next
    case (Some m)
    then have "?ws \<noteq> {}" "m = Min ?ws" using spec(2) by (auto simp: retry_spec_def Let_def split: if_splits)
    then show ?thesis using Some spec(1) by (cases wait) (simp_all add: overrideMs_def min.commute)
  qed
qed

theorem retry_hint_is_least_witness:
  "overrideMs 429 (Some 9) (tally_run [Failover 429 (Some 12), Failover 429 None]) = Some 9"
  using retry_hint_is_least [of 429 "Some 9" "[Failover 429 (Some 12), Failover 429 None]"] by (simp add: map_filter_simps)

lemma set_map_filter: "set (List.map_filter f xs) = {k. \<exists>x \<in> set xs. f x = Some k}"
  by (induction xs) (auto simp: map_filter_simps split: option.splits)

lemma sum_counts:
  assumes "jm_ok m" and "\<And>k. (case jm_get m k of None \<Rightarrow> 0 | Some n \<Rightarrow> n) = length (filter (\<lambda>c. f c = Some k) cs)"
    and "\<And>k. jm_get m k \<noteq> None \<longleftrightarrow> k \<in> set (List.map_filter f cs)"
  shows "(\<Sum>(k, n)\<leftarrow>m. if P k then n else 0) = length (filter (\<lambda>c. case f c of None \<Rightarrow> False | Some k \<Rightarrow> P k) cs)"
proof -
  let ?n = "\<lambda>k. length (filter (\<lambda>c. f c = Some k) cs)"
  have keys: "set (map fst m) = set (List.map_filter f cs)" using assms(3) by (auto simp: jm_get_None)
  have "(\<Sum>(k, n)\<leftarrow>m. if P k then n else 0) = (\<Sum>x\<leftarrow>m. if P (fst x) then ?n (fst x) else 0)"
  proof (intro arg_cong [of _ _ sum_list] map_cong refl)
    fix x assume "x \<in> set m"
    then have "jm_get m (fst x) = Some (snd x)" using jm_in_get [OF assms(1), of "fst x" "snd x"] by simp
    then show "(case x of (k, n) \<Rightarrow> if P k then n else 0) = (if P (fst x) then ?n (fst x) else 0)"
      using assms(2) [of "fst x"] by (cases x) simp
  qed
  also have "\<dots> = (\<Sum>k\<leftarrow>map fst m. if P k then ?n k else 0)" by (simp add: comp_def)
  also have "\<dots> = (\<Sum>k\<in>set (map fst m). if P k then ?n k else 0)"
    by (rule sum_list_distinct_conv_sum_set [OF assms(1) [unfolded jm_ok_def]])
  also have "\<dots> = (\<Sum>k\<in>set (List.map_filter f cs). if P k then ?n k else 0)" by (simp only: keys)
  also have "\<dots> = length (filter (\<lambda>c. case f c of None \<Rightarrow> False | Some k \<Rightarrow> P k) cs)"
  proof (induction cs)
    case (Cons c cs)
    show ?case
    proof (cases "f c")
      case None
      then show ?thesis using Cons.IH by (simp add: map_filter_simps cong: if_cong)
    next
      case (Some k)
      let ?S = "set (List.map_filter f cs)"
      have "(\<Sum>j\<in>insert k ?S. if P j then length (filter (\<lambda>d. f d = Some j) (c # cs)) else 0) =
          (\<Sum>j\<in>insert k ?S. (if j = k \<and> P k then 1 else 0) + (if P j then length (filter (\<lambda>d. f d = Some j) cs) else 0))"
        using Some by (intro sum.cong) auto
      also have "\<dots> = (if P k then 1 else 0) + (\<Sum>j\<in>insert k ?S. if P j then length (filter (\<lambda>d. f d = Some j) cs) else 0)"
        by (simp add: sum.distrib sum.delta')
      also have "(\<Sum>j\<in>insert k ?S. if P j then length (filter (\<lambda>d. f d = Some j) cs) else 0) =
          (\<Sum>j\<in>?S. if P j then length (filter (\<lambda>d. f d = Some j) cs) else 0)"
      proof (rule sum.mono_neutral_right)
        show "\<forall>j \<in> insert k ?S - ?S. (if P j then length (filter (\<lambda>d. f d = Some j) cs) else 0) = 0"
          by (auto simp: filter_empty_conv set_map_filter)
      qed auto
      finally show ?thesis using Some Cons.IH by (simp add: map_filter_simps)
    qed
  qed (simp add: map_filter_simps)
  finally show ?thesis .
qed

fun key_serves :: "tally_key \<Rightarrow> bool" where
  "key_serves (TallyStatus st) = (st < 400)"
| "key_serves k = False"

definition counted :: "(tally_key \<Rightarrow> bool) \<Rightarrow> tally_call \<Rightarrow> bool" where
  "counted P c \<longleftrightarrow> (case counted_key c of None \<Rightarrow> False | Some k \<Rightarrow> P k)"

lemma tally_sum:
  "(\<Sum>(k, n)\<leftarrow>pt_counts (tally_run calls). if P k then n else 0) = length (filter (counted P) calls)"
  using sum_counts [of "pt_counts (tally_run calls)" counted_key calls P] tally_run_spec [of calls]
  by (simp add: tally_spec_def counts_spec_def count_of_def counted_def [abs_def])

lemma length_capped: "length (List.map_filter capped_name calls) = length (filter (\<lambda>c. capped_name c \<noteq> None) calls)"
  by (induction calls) (auto simp: map_filter_simps)

text \<open>The tally of a request is exact, whatever was reported to it in whatever order: it counts as tried every failover, final
  status and dead turn and every capped attempt, as served those with a status below 400; and the request counts as
  wholly capped exactly when something was capped, nothing was tried and nothing was sent out.\<close>

theorem tally_exact:
  "tally_tried (tally_run calls) = length (filter (\<lambda>c. counted_key c \<noteq> None \<or> capped_name c \<noteq> None) calls) \<and>
   tally_served (tally_run calls) = length (filter (\<lambda>c. \<exists>st. counted_key c = Some (TallyStatus st) \<and> st < 400) calls) \<and>
   (allCapped (tally_run calls) \<longleftrightarrow> (\<exists>c \<in> set calls. capped_name c \<noteq> None) \<and>
      list_all (\<lambda>c. counted_key c = None \<and> c \<noteq> Egress) calls)"
proof (intro conjI)
  let ?t = "tally_run calls"
  have labels: "pt_cappedLabels ?t = List.map_filter capped_name calls" and eg: "pt_egressed ?t = list_ex (\<lambda>c. c = Egress) calls"
    and keys: "\<And>k. jm_get (pt_counts ?t) k \<noteq> None \<longleftrightarrow> k \<in> set (List.map_filter counted_key calls)"
    using tally_run_spec [of calls] by (simp_all add: tally_spec_def counts_spec_def)
  have ex: "counted_key c = None \<or> capped_name c = None" for c by (cases c) simp_all
  have "(\<Sum>(k, n)\<leftarrow>pt_counts ?t. n) = length (filter (\<lambda>c. counted_key c \<noteq> None) calls)"
    using tally_sum [of "\<lambda>_. True" calls] by (simp add: counted_def [abs_def] option.case_eq_if)
  moreover have "length (filter (\<lambda>c. counted_key c \<noteq> None) calls) + length (filter (\<lambda>c. capped_name c \<noteq> None) calls) =
      length (filter (\<lambda>c. counted_key c \<noteq> None \<or> capped_name c \<noteq> None) calls)"
  proof (induction calls)
    case (Cons c calls)
    then show ?case using ex [of c] by auto
  qed simp
  ultimately show "tally_tried ?t = length (filter (\<lambda>c. counted_key c \<noteq> None \<or> capped_name c \<noteq> None) calls)"
    by (simp add: tally_tried_def labels length_capped)
  have "tally_served ?t = (\<Sum>(k, n)\<leftarrow>pt_counts ?t. if key_serves k then n else 0)"
    unfolding tally_served_def by (intro arg_cong [of _ _ sum_list] map_cong refl) (auto split: tally_key.split)
  also have "\<dots> = length (filter (counted key_serves) calls)" by (rule tally_sum)
  also have "counted key_serves = (\<lambda>c. \<exists>st. counted_key c = Some (TallyStatus st) \<and> st < 400)"
    by (rule ext, rename_tac c, case_tac c) (auto simp: counted_def)
  finally show "tally_served ?t = length (filter (\<lambda>c. \<exists>st. counted_key c = Some (TallyStatus st) \<and> st < 400) calls)" .
  have "pt_counts ?t = [] \<longleftrightarrow> (\<forall>c \<in> set calls. counted_key c = None)"
  proof -
    have "pt_counts ?t = [] \<longleftrightarrow> (\<forall>k. jm_get (pt_counts ?t) k = None)"
      by (cases "pt_counts ?t") (auto simp: jm_get_None)
    also have "\<dots> \<longleftrightarrow> set (List.map_filter counted_key calls) = {}" (is "?l = ?r")
    proof
      show "?r" if "?l" using that keys by (auto simp: set_eq_iff)
      show "?l" if "?r" using that keys by (metis empty_iff)
    qed
    also have "\<dots> \<longleftrightarrow> (\<forall>c \<in> set calls. counted_key c = None)" by (induction calls) (auto simp: map_filter_simps split: option.splits)
    finally show ?thesis .
  qed
  moreover have "pt_cappedLabels ?t \<noteq> [] \<longleftrightarrow> (\<exists>c \<in> set calls. capped_name c \<noteq> None)"
    unfolding labels by (induction calls) (auto simp: map_filter_simps split: option.splits)
  ultimately show "allCapped ?t \<longleftrightarrow> (\<exists>c \<in> set calls. capped_name c \<noteq> None) \<and>
      list_all (\<lambda>c. counted_key c = None \<and> c \<noteq> Egress) calls"
    by (auto simp: allCapped_def eg list_all_iff list_ex_iff)
qed

theorem tally_exact_witness:
  "tally_tried (tally_run [Offered, Egress, Failover 429 (Some 5), Capped ''a/m requests/day 450/450'' (Fin 9), FinalStatus 200]) = 3"
  using tally_exact [of "[Offered, Egress, Failover 429 (Some 5), Capped ''a/m requests/day 450/450'' (Fin 9), FinalStatus 200]"] by simp

end
