(* ===== verification/Candidate_Trace.thy ===== *)
theory Candidate_Trace
  imports Candidate_Run
begin

text \<open>
  The walk over the credentials and the credential trace (\<^verbatim>\<open>candidate-runner.ts\<close>) are told of the same starts and
  outcomes. The trace finds an attempt by the names of its provider, deployment and credential, the walk by its
  identity; the two never disagree.
\<close>

definition attempt_names :: "resolved_attempt \<Rightarrow> string \<times> string \<times> string" where
  "attempt_names a = (rt_provider (ra_target a), target_spec a, ra_credentialId a)"

definition entry_names :: "credential_entry \<Rightarrow> string \<times> string \<times> string" where
  "entry_names e = (cte_provider e, cte_deployment e, cte_credentialId e)"

definition running :: "string \<times> string \<times> string \<Rightarrow> (resolved_attempt, attempt_plan) jmap \<Rightarrow> nat" where
  "running k m = length (filter (\<lambda>(a, p). pl_started p \<and> attempt_names a = k) m)"

definition open_entries :: "string \<times> string \<times> string \<Rightarrow> credential_entry list \<Rightarrow> nat" where
  "open_entries k es = length (filter (\<lambda>e. cte_outcome e = None \<and> entry_names e = k) es)"

definition traced :: "credential_walk \<times> credential_entry list \<Rightarrow> bool" where
  "traced = (\<lambda>(w, es). \<forall>k. running k (cw_pending w) \<le> open_entries k es)"

lemma traced_le: "traced (w, es) \<Longrightarrow> running k (cw_pending w) \<le> open_entries k es"
  unfolding traced_def by blast

lemma tracedI: "(\<And>k. running k (cw_pending w) \<le> open_entries k es) \<Longrightarrow> traced (w, es)"
  unfolding traced_def by blast

lemma entry_open_names: "entry_open_for a e \<longleftrightarrow> cte_outcome e = None \<and> entry_names e = attempt_names a"
  by (auto simp: entry_open_for_def entry_names_def attempt_names_def)

lemma running_simps [simp]:
  "running k [] = 0"
  "running k ((a, p) # m) = (if pl_started p \<and> attempt_names a = k then 1 else 0) + running k m"
  by (simp_all add: running_def)

lemma jm_del_Cons: "jm_del a ((b, p) # m) = (if b = a then jm_del a m else (b, p) # jm_del a m)"
  by (simp add: jm_del_def)

lemma jm_del_Nil: "jm_del a [] = []"
  by (simp add: jm_del_def)

lemma running_put_unstarted: "\<not> pl_started p \<Longrightarrow> running k (jm_put a p m) \<le> running k m"
  by (induction m) (simp_all add: split_paired_all)

lemma running_put_started:
  "jm_get m a = Some held \<Longrightarrow> \<not> pl_started held \<Longrightarrow> pl_started p \<Longrightarrow>
     running k (jm_put a p m) = running k m + (if attempt_names a = k then 1 else 0)"
proof (induction m)
  case (Cons x m)
  then show ?case by (cases x) (simp split: if_splits)
qed simp

lemma running_del: "running k (jm_del a m) \<le> running k m"
  by (induction m) (simp_all add: jm_del_Nil jm_del_Cons split_paired_all)

lemma running_del_started:
  "jm_get m a = Some held \<Longrightarrow> pl_started held \<Longrightarrow> running (attempt_names a) (jm_del a m) < running (attempt_names a) m"
proof (induction m)
  case (Cons x m)
  then show ?case using running_del [of "attempt_names a" a m]
    by (cases x) (auto simp: jm_del_Cons split: if_splits)
qed simp

lemma walk_take_pending:
  "walk_take w = Inr (w', r) \<Longrightarrow> running k (cw_pending w') \<le> running k (cw_pending w)"
proof (induction w rule: walk_take.induct)
  case (1 w)
  show ?case
  proof (cases "cw_queue w")
    case Nil
    then show ?thesis using "1.prems" by (simp add: walk_take.simps [of w])
  next
    case (Cons key rest)
    then obtain g where f: "find (\<lambda>g. dg_key g = key) (cw_groups w) = Some g"
      using "1.prems" by (cases "find (\<lambda>g. dg_key g = key) (cw_groups w)") (simp_all add: walk_take.simps [of w])
    note unfold = walk_take.simps [of w] Cons f
    show ?thesis using "1.prems" "1.IH" [OF Cons f]
      by (auto simp: unfold Let_def running_put_unstarted split: if_splits)
  qed
qed

lemma walk_next_pending:
  "walk_next w now = Inr (w', r) \<Longrightarrow> running k (cw_pending w') \<le> running k (cw_pending w)"
proof -
  assume next': "walk_next w now = Inr (w', r)"
  have "w' = w \<or> walk_take w = Inr (w', r)"
    using next' by (auto simp: walk_next_def split: if_splits option.splits)
  then show ?thesis using walk_take_pending [of w w' r k] by auto
qed

datatype traced_call =
    TNext rat | TStart resolved_attempt rat | TReject resolved_attempt | TAbandon resolved_attempt | TOutcome resolved_attempt walk_outcome

text \<open>A call that throws leaves both as they were.\<close>

fun traced_step :: "(string, fleet_config) jmap \<Rightarrow> traced_call \<Rightarrow> credential_walk \<times> credential_entry list \<Rightarrow>
    credential_walk \<times> credential_entry list" where
  "traced_step providers (TNext now) (w, es) = (call_walk (Next now) w, es)"
| "traced_step providers (TReject a) (w, es) = (call_walk (Reject a) w, es)"
| "traced_step providers (TAbandon a) (w, es) = (call_walk (Abandon a) w, es)"
| "traced_step providers (TStart a now) x = (case recordCredentialStarted providers a now x of Inl e \<Rightarrow> x | Inr y \<Rightarrow> y)"
| "traced_step providers (TOutcome a out) x = (case recordCredentialOutcome a out x of Inl e \<Rightarrow> x | Inr y \<Rightarrow> y)"

definition run_traced where
  "run_traced providers calls x = fold (traced_step providers) calls x"

lemma found_where: "index_where P xs = Some i \<Longrightarrow> i < length xs \<and> P (xs ! i)"
  by (induction xs arbitrary: i) (auto split: if_splits)

lemma not_found_where: "index_where P xs = None \<longleftrightarrow> (\<forall>x \<in> set xs. \<not> P x)"
  by (induction xs) auto

lemma open_entries_settle:
  assumes "j < length es" and "cte_outcome (es ! j) = None"
  shows "open_entries k (es[j := (es ! j)\<lparr>cte_outcome := Some out\<rparr>]) + (if entry_names (es ! j) = k then 1 else 0) = open_entries k es"
proof -
  have es: "es = take j es @ es ! j # drop (Suc j) es" using assms(1) by (rule id_take_nth_drop)
  have "open_entries k es = open_entries k (take j es) + (if entry_names (es ! j) = k then 1 else 0) + open_entries k (drop (Suc j) es)"
    by (subst es) (simp add: open_entries_def assms(2))
  moreover have "open_entries k (es[j := (es ! j)\<lparr>cte_outcome := Some out\<rparr>]) = open_entries k (take j es) + open_entries k (drop (Suc j) es)"
    by (simp add: upd_conv_take_nth_drop [OF assms(1)] open_entries_def)
  ultimately show ?thesis by simp
qed

lemma ctrace_record_result:
  assumes "0 < open_entries (attempt_names a) es"
  obtains es' where "ctrace_record a out es = Some es'"
    and "\<And>k. open_entries k es' + (if attempt_names a = k then 1 else 0) = open_entries k es"
proof -
  have "\<exists>e \<in> set (rev es). entry_open_for a e"
    using assms by (auto simp: open_entries_def entry_open_names filter_empty_conv length_greater_0_conv)
  then obtain i where i: "index_where (entry_open_for a) (rev es) = Some i"
    using not_found_where [of "entry_open_for a" "rev es"] by (cases "index_where (entry_open_for a) (rev es)") auto
  let ?j = "length es - 1 - i"
  have lt: "i < length es" "entry_open_for a (rev es ! i)" using found_where [OF i] by simp_all
  then have j: "?j < length es" "entry_open_for a (es ! ?j)" by (simp_all add: rev_nth)
  then have "open_entries k (es[?j := (es ! ?j)\<lparr>cte_outcome := Some out\<rparr>]) + (if attempt_names a = k then 1 else 0) = open_entries k es" for k
    using open_entries_settle [OF j(1)] by (simp add: entry_open_names)
  then show ?thesis using that i by (simp add: ctrace_record_def Let_def)
qed

lemma outcome_pending:
  assumes "record_outcome a out w = Inr w'"
  shows "cw_pending w' = jm_del a (cw_pending w) \<and> (\<exists>held. jm_get (cw_pending w) a = Some held \<and> pl_started held)"
  using assms by (auto simp: record_outcome_def Let_def split: option.splits if_splits)

lemma traced_outcome:
  assumes "traced (w, es)"
  shows "recordCredentialOutcome a out (w, es) \<noteq> Inl TraceMismatch \<and>
    (\<forall>y. recordCredentialOutcome a out (w, es) = Inr y \<longrightarrow> traced y)"
proof (cases "record_outcome a out w")
  case (Inr w')
  note p = outcome_pending [OF Inr]
  then obtain held where "jm_get (cw_pending w) a = Some held" "pl_started held" by blast
  then have less: "running (attempt_names a) (cw_pending w') < running (attempt_names a) (cw_pending w)"
    using running_del_started p by simp
  then have "0 < open_entries (attempt_names a) es" using traced_le [OF assms, of "attempt_names a"] by simp
  then obtain es' where es': "ctrace_record a out es = Some es'"
    "\<And>k. open_entries k es' + (if attempt_names a = k then 1 else 0) = open_entries k es" using ctrace_record_result [of a es out] by metis
  have "running k (cw_pending w') \<le> open_entries k es'" for k
    using less es'(2) [of k] running_del [of k a "cw_pending w"] traced_le [OF assms, of k] p
    by (cases "attempt_names a = k") auto
  then have "traced (w', es')" by (rule tracedI)
  then show ?thesis by (simp add: recordCredentialOutcome_def Inr es'(1))
qed (simp add: recordCredentialOutcome_def)

lemma traced_start:
  assumes "traced (w, es)" and "recordCredentialStarted providers a now (w, es) = Inr y"
  shows "traced y"
proof -
  obtain w' where w': "recordStarted a now w = Inr w'" and y: "y = (w', ctrace_recordStarted providers a es)"
    using assms(2) by (auto simp: recordCredentialStarted_def split: sum.splits)
  obtain held where h: "jm_get (cw_pending w) a = Some held" "\<not> pl_started held"
    and p: "cw_pending w' = jm_put a (held\<lparr>pl_started := True\<rparr>) (cw_pending w)"
    using w' by (auto simp: recordStarted_def split: option.splits if_splits)
  have "open_entries k (ctrace_recordStarted providers a es) = open_entries k es + (if attempt_names a = k then 1 else 0)" for k
    by (simp add: ctrace_recordStarted_def Let_def open_entries_def entry_names_def attempt_names_def)
  then show ?thesis using traced_le [OF assms(1)] running_put_started [OF h, of "held\<lparr>pl_started := True\<rparr>"]
    unfolding y by (intro tracedI) (simp add: p)
qed

lemma traced_walk_call:
  assumes "traced (w, es)" and "\<And>k. running k (cw_pending w') \<le> running k (cw_pending w)"
  shows "traced (w', es)"
  by (rule tracedI) (rule le_trans [OF assms(2) traced_le [OF assms(1)]])

lemma traced_step_ok: "traced x \<Longrightarrow> traced (traced_step providers c x)"
proof (induction providers c x rule: traced_step.induct)
  case (1 providers now w es)
  show ?case unfolding traced_step.simps
    by (rule traced_walk_call [OF 1]) (auto intro: walk_next_pending split: sum.splits)
next
  case (2 providers a w es)
  show ?case unfolding traced_step.simps
    by (rule traced_walk_call [OF 2]) (auto simp: unless_thrown_def recordRejected_def running_del split: sum.splits option.splits)
next
  case (3 providers a w es)
  show ?case unfolding traced_step.simps
    by (rule traced_walk_call [OF 3]) (auto simp: unless_thrown_def recordAbandoned_def running_del split: sum.splits option.splits if_splits)
next
  case (4 providers a now x)
  then show ?case using traced_start by (cases x) (auto split: sum.splits)
next
  case (5 providers a out x)
  then show ?case using traced_outcome by (cases x) (auto split: sum.splits)
qed

lemma run_traced_ok: "traced x \<Longrightarrow> traced (run_traced providers calls x)"
  unfolding run_traced_def by (induction calls arbitrary: x) (simp_all add: traced_step_ok)

text \<open>The credential trace never loses an attempt: whatever calls a request makes on its walk and its trace, an outcome that the
  walk accepts finds the trace entry of its start, so the trace's own check never throws.\<close>

theorem trace_matches_walk:
  "recordCredentialOutcome a out (run_traced providers calls
     (new_walk lc lru ev freshness selectionNow budget suppressed cap attempts, [])) \<noteq> Inl TraceMismatch"
proof -
  let ?x = "run_traced providers calls (new_walk lc lru ev freshness selectionNow budget suppressed cap attempts, [])"
  have "traced ?x" by (rule run_traced_ok) (simp add: traced_def new_walk_def Let_def)
  then show ?thesis using traced_outcome [of "fst ?x" "snd ?x"] by simp
qed

end
