(* ===== verification/Demotion_Props.thy ===== *)
theory Demotion_Props
  imports Demotion
begin

text \<open>
  The properties of the demotion and refusal terms: what grounds them, when they end, that an unknown
  usage never acts.
\<close>

section \<open>Buckets\<close>

text \<open>What holds of every bucket the collector gathers.\<close>

definition bucket_inv :: "bool \<Rightarrow> (string, quota_bucket) jmap \<Rightarrow> bool" where
  "bucket_inv learned m \<longleftrightarrow> (\<forall>b \<in> snd ` set m. li_published (qb_limits b) = None \<and>
     (\<not> learned \<longrightarrow> li_learned (qb_limits b) = None))"

lemma bucketFor_inv:
  assumes "bucket_inv learned m"
    and "\<And>b. li_published (qb_limits b) = None \<Longrightarrow> li_published (qb_limits (f b)) = None"
    and "\<And>b. \<not> learned \<Longrightarrow> li_learned (qb_limits b) = None \<Longrightarrow> li_learned (qb_limits (f b)) = None"
  shows "bucket_inv learned (bucketFor axis period f m)"
proof -
  define b where "b = (case jm_get m (bucketKey axis period) of Some b \<Rightarrow> b
    | None \<Rightarrow> \<lparr>qb_axis = axis, qb_period = period, qb_observations = [], qb_limits = no_limits\<rparr>)"
  have "li_published (qb_limits b) = None \<and> (\<not> learned \<longrightarrow> li_learned (qb_limits b) = None)"
    using assms(1) by (force simp: b_def bucket_inv_def no_limits_def split: option.splits dest: jm_get_in)
  then show ?thesis
    using assms unfolding bucketFor_def Let_def b_def [symmetric]
    by (auto simp: bucket_inv_def dest!: jm_put_set)
qed

lemma fold_keeps: "(\<And>x m. P m \<Longrightarrow> P (f x m)) \<Longrightarrow> P m \<Longrightarrow> P (fold f xs m)"
  by (induction xs arbitrary: m) simp_all

lemma add_inv:
  "bucket_inv l m \<Longrightarrow> bucket_inv l (add_observation ob m)"
  "bucket_inv True m \<Longrightarrow> bucket_inv True (add_learned x m)"
  "bucket_inv l m \<Longrightarrow> bucket_inv l (add_configured values axis m)"
  by (auto simp: add_observation_def add_learned_def add_configured_def split: option.splits prod.splits
      intro!: bucketFor_inv)

lemma collect_inv: "bucket_inv (learned \<noteq> []) (collectQuotaBuckets observations learned configured)"
proof -
  have "bucket_inv False (fold add_observation observations [])"
    by (rule fold_keeps [where P = "bucket_inv False"]) (simp add: add_inv, simp add: bucket_inv_def)
  then have "bucket_inv (learned \<noteq> []) (fold add_learned learned (fold add_observation observations []))"
  proof (cases learned)
    case (Cons x xs)
    assume "bucket_inv False (fold add_observation observations [])"
    then have "bucket_inv True (fold add_observation observations [])" by (simp add: bucket_inv_def)
    then have "bucket_inv True (fold add_learned learned (fold add_observation observations []))"
      by (rule fold_keeps [where P = "bucket_inv True", rotated]) (rule add_inv)
    then show ?thesis using Cons by simp
  qed simp
  then show ?thesis
    by (auto simp: collectQuotaBuckets_def Let_def split: option.splits intro!: fold_keeps [where P = "bucket_inv _"] add_inv(3))
qed

lemma sorted_buckets_set: "set (sorted_buckets m) = snd ` set m"
  by (simp add: sorted_buckets_def)

lemma soonest_in: "soonest best d = Some x \<Longrightarrow> best = Some x \<or> d = Some x"
  by (auto simp: soonest_def split: option.splits if_splits)

lemma fold_soonest_in:
  "fold (\<lambda>x best. soonest best (f x)) xs acc = Some d \<Longrightarrow> acc = Some d \<or> (\<exists>x \<in> set xs. f x = Some d)"
proof (induction xs arbitrary: acc)
  case (Cons x xs)
  then have "soonest acc (f x) = Some d \<or> (\<exists>y \<in> set xs. f y = Some d)" by simp
  then show ?case using soonest_in [of acc "f x" d] by auto
qed simp

section \<open>The spent-quota demotion\<close>

lemma resolveResetsAt_future:
  assumes "resolveResetsAt stated None period (Fin now) = Some (r, basis)" and "in_calendar now"
  shows "Fin now < r"
proof (cases "period = UnknownPeriod")
  case True
  then show ?thesis using assms(1)
    by (auto simp: resolveResetsAt_def rule_or_boundary_def periodEnd_def periodStart_def split: option.splits if_splits)
next
  case False
  obtain s e where e: "periodStart (Fin now) period = Some (Fin s)" "periodEnd (Fin now) period = Some (Fin e)" "now < e"
    using period_partition_end [OF assms(2) False] by blast
  then show ?thesis using assms(1)
    by (auto simp: resolveResetsAt_def rule_or_boundary_def split: option.splits if_splits)
qed

lemma bucket_demotion_Some:
  assumes "bucket_demotion read_window now bucket = Some d" and "in_calendar now"
  shows "\<not> 0 < qd_remaining d" and "Fin now < qd_resetsAt d"
    and "qd_basis d = Some (Derived LearnedLimit) \<Longrightarrow> li_learned (qb_limits bucket) \<noteq> None"
    and "qd_basis d \<noteq> Some (Derived PublishedLimit)"
proof -
  define limits where "limits = (if li_configured (qb_limits bucket) \<noteq> None \<or> li_learned (qb_limits bucket) \<noteq> None
                    then Some (qb_limits bucket) else None)"
  define r where "r = resolveRemaining (qb_observations bucket) (qb_axis bucket) (qb_period bucket) limits
                (localUsedForPeriod read_window (qb_period bucket) (qb_axis bucket)) (Fin now)"
  obtain rem basis where d: "rr_remaining r = Some rem" "\<not> 0 < rem" "rr_routingEligible r \<or> rr_basis r = Some (Derived LearnedLimit)"
    "resolveResetsAt (Option.bind (rr_eligible r) q_resetsAt) None (qb_period bucket) (Fin now) = Some (qd_resetsAt d, basis)"
    "qd_remaining d = rem" "qd_basis d = rr_basis r"
    using assms(1) unfolding bucket_demotion_def Let_def limits_def [symmetric] r_def [symmetric]
    by (auto split: option.splits if_splits prod.splits)
  show "\<not> 0 < qd_remaining d" using d by simp
  show "Fin now < qd_resetsAt d" using resolveResetsAt_future [OF d(4) assms(2)] .
  have basis: "rr_basis r = Some (Derived b) \<Longrightarrow>
      \<exists>l. resolveLimit (qb_observations bucket) (qb_axis bucket) (qb_period bucket) limits = Some (l, b) \<and>
        (rr_routingEligible r \<longrightarrow> b = ConfiguredLimit \<or> b = StatedLimit)" for b
    by (auto simp: r_def resolveRemaining_def Let_def case_prod_unfold split: option.splits if_splits)
  show "qd_basis d \<noteq> Some (Derived PublishedLimit)" using d(3,6) basis [of PublishedLimit] by auto
  show "li_learned (qb_limits bucket) \<noteq> None" if L: "qd_basis d = Some (Derived LearnedLimit)"
  proof -
    obtain l where "resolveLimit (qb_observations bucket) (qb_axis bucket) (qb_period bucket) limits = Some (l, LearnedLimit)"
      using basis [of LearnedLimit] L [unfolded d(6)] by blast
    then show ?thesis
      by (auto simp: resolveLimit_def declared_limit_def limits_def positive_limit_def split: option.splits if_splits)
  qed
qed

text \<open>A quota demotion always rests on a spent remainder and lifts at a known later time; a learned limit
  causes one only when the operator enforces learned limits, a published limit never.\<close>

theorem quota_demotion_grounded:
  assumes "resolveQuotaDemotion settings cfg b facts accounting a now = Some d" and "in_calendar now"
  shows "\<not> 0 < qd_remaining d \<and> Fin now < qd_resetsAt d \<and> qd_basis d \<noteq> Some (Derived PublishedLimit) \<and>
     (qd_basis d = Some (Derived LearnedLimit) \<longrightarrow> Option.bind settings qs_enforceLearned = Some True) \<and>
     Option.bind settings qs_enforce \<noteq> Some False"
proof -
  define learned where "learned = (case rt_model (ra_target a) of
      Some m \<Rightarrow> if (case settings of Some s \<Rightarrow> qs_enforceLearned s = Some True | None \<Rightarrow> False)
        then observedRateLimits facts (rt_provider (ra_target a)) (Some (ra_credentialId a)) m now else []
    | None \<Rightarrow> [])"
  define m where "m = collectQuotaBuckets (cell_observations b (target_identity a)) learned
    (map_option cl_values (resolveConfiguredLimits cfg (rt_provider (ra_target a)) (attempt_label a) (rt_model (ra_target a))))"
  have on: "Option.bind settings qs_enforce \<noteq> Some False"
    using assms(1) by (auto simp: resolveQuotaDemotion_def split: option.splits)
  have "\<exists>rw. fold (\<lambda>bucket best. soonest best (bucket_demotion rw now bucket)) (sorted_buckets m) None = Some d"
    using assms(1) unfolding resolveQuotaDemotion_def Let_def learned_def [symmetric] m_def [symmetric]
    by (auto split: if_splits)
  then obtain rw bucket where bucket: "bucket \<in> set (sorted_buckets m)" "bucket_demotion rw now bucket = Some d"
    using fold_soonest_in by fastforce
  note d = bucket_demotion_Some [OF bucket(2) assms(2)]
  have "bucket_inv (learned \<noteq> []) m" unfolding m_def by (rule collect_inv)
  then have "learned \<noteq> []" if "qd_basis d = Some (Derived LearnedLimit)"
    using d(3) [OF that] bucket(1) by (auto simp: bucket_inv_def sorted_buckets_set)
  then have "Option.bind settings qs_enforceLearned = Some True" if "qd_basis d = Some (Derived LearnedLimit)"
    using that by (auto simp: learned_def split: option.splits if_splits)
  then show ?thesis using d on by blast
qed

definition ex_attempt :: resolved_attempt where
  "ex_attempt = \<lparr>ra_ref = 0, ra_target = \<lparr>rt_provider = ''p'', rt_base = \<lparr>bu_text = ''u'', bu_hostname = None\<rparr>, rt_kind = OpenAI,
     rt_model = Some ''m''\<rparr>, ra_credentialId = ''p#k'', ra_secret = DeclaredPresent,
     ra_slot = \<lparr>sl_credentialId = ''p#k'', sl_provider = ''p'', sl_label = ''k'', sl_authEnv = None, sl_enabled = True,
       sl_models = None, sl_origin = CredentialsOrigin, sl_declaredOnly = True, sl_configIndex = 0\<rparr>\<rparr>"

definition ex_spent :: quota_observation where
  "ex_spent = \<lparr>q_axis = Requests, q_period = Minute, q_limit = Fin 10, q_remaining = Fin 0, q_resetsAt = Some (Fin 90000),
     q_observedAt = Fin 60000\<rparr>"

definition ex_quota_breaker :: breaker where
  "ex_quota_breaker = \<lparr>b_states = [(''p#k/m'', (fresh_cell (target_identity ex_attempt))\<lparr>quotaObservations := [ex_spent]\<rparr>)],
     b_inFlight = [], b_starts = [], b_owner = 0, b_generation = 1,
     b_lifecycle = \<lparr>lc_owner = 1, lc_generation = 1, lc_issued = 0, lc_closed = False\<rparr>, b_attempts = (\<lambda>_. None), b_notified = 0\<rparr>"

definition ex_facts :: fact_store where
  "ex_facts = \<lparr>fs_facts = [], fs_dirty = False, fs_file = None\<rparr>"

definition ex_no_limits :: limits_cfg where
  "ex_no_limits = \<lparr>cfg_providers = [], cfg_hardCaps = None\<rparr>"

lemma ex_observations: "cell_observations ex_quota_breaker (target_identity ex_attempt) = [ex_spent]"
  by (simp add: cell_observations_def getState_def ex_quota_breaker_def getKey_def cell_key_def target_identity_def ex_attempt_def)

lemma ex_bucket_demotion:
  "bucket_demotion (\<lambda>_. None) 60000 \<lparr>qb_axis = Requests, qb_period = Minute, qb_observations = [ex_spent], qb_limits = no_limits\<rparr> =
     Some \<lparr>qd_axis = Requests, qd_period = Minute, qd_remaining = Fin 0, qd_basis = Some StatedRemaining, qd_resetsAt = Fin 90000,
       qd_resetsAtBasis = StatedReset\<rparr>"
proof -
  have w: "withinCurrentPeriod ex_spent (Fin 60000) Minute"
    by (simp add: withinCurrentPeriod_def ex_spent_def periodStart_def MINUTE_MS_def)
  then have "eligibleObservation [ex_spent] (Fin 60000) Requests Minute = (Some ex_spent, 0)"
    by (simp add: eligibleObservation_def in_bucket_def ex_spent_def)
  then show ?thesis
    by (simp add: bucket_demotion_def resolveRemaining_def Let_def ex_spent_def resolveResetsAt_def zero_jsnum_Fin)
qed

lemma ex_demotes: "resolveQuotaDemotion None ex_no_limits ex_quota_breaker ex_facts None ex_attempt 60000 =
    Some \<lparr>qd_axis = Requests, qd_period = Minute, qd_remaining = Fin 0, qd_basis = Some StatedRemaining, qd_resetsAt = Fin 90000,
       qd_resetsAtBasis = StatedReset\<rparr>"
proof -
  have c: "resolveConfiguredLimits ex_no_limits p l m = None" for p l m
    by (simp add: resolveConfiguredLimits_def ex_no_limits_def credential_limits_def Let_def split: option.splits)
  have "sorted_buckets (collectQuotaBuckets [ex_spent] [] None) =
      [\<lparr>qb_axis = Requests, qb_period = Minute, qb_observations = [ex_spent], qb_limits = no_limits\<rparr>]"
    by (simp add: sorted_buckets_def collectQuotaBuckets_def add_observation_def bucketFor_def ex_spent_def Let_def)
  then show ?thesis
    by (simp add: resolveQuotaDemotion_def Let_def c ex_observations ex_bucket_demotion soonest_def)
      (simp add: ex_attempt_def soonest_def ex_bucket_demotion)
qed

theorem quota_demotion_grounded_witness:
  "\<exists>d. resolveQuotaDemotion None ex_no_limits ex_quota_breaker ex_facts None ex_attempt 60000 = Some d \<and> \<not> 0 < qd_remaining d \<and>
     Fin 60000 < qd_resetsAt d"
proof -
  have "in_calendar 60000" by (simp add: in_calendar_def MAX_TIME_def msPerDay_def)
  from quota_demotion_grounded [OF ex_demotes this] ex_demotes show ?thesis by blast
qed

section \<open>Learned limits\<close>

text \<open>Of several learned limits of one bucket the collector keeps the last: among the facts that cover a
  target, told from the most specific scope to the least, the least specific one.\<close>

theorem learned_limit_last_wins:
  assumes "filter (\<lambda>l. ll_axis l = axis \<and> ll_period l = period) learned \<noteq> []"
  shows "\<exists>bucket. jm_get (collectQuotaBuckets observations learned None) (bucketKey axis period) = Some bucket \<and>
     li_learned (qb_limits bucket) = Some (ll_limit (last (filter (\<lambda>l. ll_axis l = axis \<and> ll_period l = period) learned)))"
  using assms
proof (induction learned rule: rev_induct)
  case (snoc l learned)
  let ?m = "fold add_learned learned (fold add_observation observations [])"
  show ?case
  proof (cases "ll_axis l = axis \<and> ll_period l = period")
    case True
    then show ?thesis by (simp add: collectQuotaBuckets_def Let_def add_learned_def bucketFor_def jm.get_put)
  next
    case False
    then obtain bucket where "jm_get ?m (bucketKey axis period) = Some bucket"
      "li_learned (qb_limits bucket) = Some (ll_limit (last (filter (\<lambda>l. ll_axis l = axis \<and> ll_period l = period) learned)))"
      using snoc by (auto simp: collectQuotaBuckets_def Let_def)
    moreover have "bucketKey axis period \<noteq> bucketKey (ll_axis l) (ll_period l)" using False by (auto simp: bucketKey_inj)
    ultimately show ?thesis using False
      by (auto simp: collectQuotaBuckets_def Let_def add_learned_def bucketFor_def jm.get_put)
  qed
qed simp

theorem learned_limit_last_wins_witness:
  "\<exists>bucket. jm_get (collectQuotaBuckets [] [\<lparr>ll_axis = Requests, ll_period = Day, ll_limit = Fin 50\<rparr>,
       \<lparr>ll_axis = Requests, ll_period = Day, ll_limit = Fin 1000\<rparr>] None) (bucketKey Requests Day) = Some bucket \<and>
     li_learned (qb_limits bucket) = Some (Fin 1000)"
  using learned_limit_last_wins [of Requests Day "[\<lparr>ll_axis = Requests, ll_period = Day, ll_limit = Fin 50\<rparr>,
       \<lparr>ll_axis = Requests, ll_period = Day, ll_limit = Fin 1000\<rparr>]" "[]"] by simp

section \<open>Hard caps\<close>

lemma map_filter_set: "set (List.map_filter f xs) = {y. \<exists>x \<in> set xs. f x = Some y}"
  by (induction xs) (auto simp: List.map_filter_simps split: option.splits)

definition cap_site :: "configured_limits \<Rightarrow> limit_axis \<Rightarrow> limit_source" where
  "cap_site configured axis = (case Option.bind (cl_hardSource configured) (\<lambda>h. h axis) of None \<Rightarrow> FromCredential | Some s \<Rightarrow> s)"

definition axis_usage ::
  "(quota_axis \<Rightarrow> quota_period \<Rightarrow> cap_scope \<Rightarrow> local_used) \<Rightarrow> configured_limits \<Rightarrow> limit_axis \<Rightarrow> jsnum option" where
  "axis_usage used configured axis = lu_value (used (fst (configuredLimitQuotaShape axis)) (snd (configuredLimitQuotaShape axis))
     (scopeOfSource (cap_site configured axis)))"

lemma axis_capped_iff:
  "axis_capped used configured axis \<noteq> None \<longleftrightarrow>
     (\<exists>cap v. Option.bind (cl_hard configured) (\<lambda>h. h axis) = Some cap \<and> axis_usage used configured axis = Some v \<and>
        Fin (of_int cap) \<le> v)"
  by (simp add: axis_capped_def axis_usage_def cap_site_def Let_def case_prod_unfold split: option.splits)

lemma js_sort_empty: "js_sort le xs = [] \<longleftrightarrow> xs = []"
proof -
  have "set (js_sort le xs) = set xs" by simp
  then show ?thesis by (metis set_empty)
qed

text \<open>A hard cap refuses exactly when an axis the operator capped has a known usage at or above its cap, read
  for the deployment or the credential as the winning declaration says; an unknown usage never refuses.\<close>

theorem hard_cap_exact:
  assumes "cfg_hardCaps cfg \<noteq> Some False" and "resolveConfiguredLimits cfg provider label model = Some configured"
    and "in_calendar now"
  shows "evaluateHardCap cfg provider label model used (Fin now) \<noteq> None \<longleftrightarrow>
     (\<exists>axis cap v. Option.bind (cl_hard configured) (\<lambda>h. h axis) = Some cap \<and> axis_usage used configured axis = Some v \<and>
        Fin (of_int cap) \<le> v)"
    (is "_ \<longleftrightarrow> ?capped")
proof -
  let ?hits = "List.map_filter (axis_capped used configured) CONFIGURED_LIMIT_AXES"
  let ?sorted = "js_sort (\<lambda>a b. bucketRank (ca_axis a) (ca_period a) \<le> bucketRank (ca_axis b) (ca_period b)) ?hits"
  have period: "ca_period c \<noteq> UnknownPeriod" if "c \<in> set ?hits" for c
  proof -
    obtain axis where "axis_capped used configured axis = Some c" using \<open>c \<in> set ?hits\<close> by (auto simp: map_filter_set)
    then show ?thesis by (cases axis) (auto simp: axis_capped_def Let_def split: option.splits if_splits)
  qed
  have "evaluateHardCap cfg provider label model used (Fin now) \<noteq> None \<longleftrightarrow> ?sorted \<noteq> []"
  proof (cases ?sorted)
    case Nil
    then show ?thesis using assms(1,2) by (simp add: evaluateHardCap_def)
  next
    case (Cons c cs)
    then have "c \<in> set ?hits" by (metis list.set_intros(1) set_js_sort)
    then obtain s e where "periodEnd (Fin now) (ca_period c) = Some (Fin e)"
      using period_partition_end [OF assms(3) period] by blast
    then show ?thesis using assms(1,2) Cons by (simp add: evaluateHardCap_def)
  qed
  also have "\<dots> \<longleftrightarrow> ?hits \<noteq> []" by (simp only: js_sort_empty)
  also have "\<dots> \<longleftrightarrow> (\<exists>axis. axis_capped used configured axis \<noteq> None)"
  proof -
    have "?hits \<noteq> [] \<longleftrightarrow> (\<exists>c. c \<in> set ?hits)" by (cases ?hits) auto
    also have "\<dots> \<longleftrightarrow> (\<exists>c axis. axis_capped used configured axis = Some c)"
      unfolding map_filter_set using axes_complete by blast
    finally show ?thesis by auto
  qed
  also have "\<dots> \<longleftrightarrow> ?capped" by (simp only: axis_capped_iff) 
  finally show ?thesis .
qed

theorem hard_cap_exact_witness:
  "evaluateHardCap ex_cfg ''p'' (Some ''k'') (Some ''m'') (\<lambda>_ _ _. \<lparr>lu_value = Some (Fin 14), lu_basis = None\<rparr>) (Fin 60000) \<noteq> None"
proof -
  have r: "resolveConfiguredLimits ex_cfg ''p'' (Some ''k'') (Some ''m'') = Some (the (resolveConfiguredLimits ex_cfg ''p'' (Some ''k'') (Some ''m'')))"
    using ex_resolves by (metis option.collapse option.distinct(1))
  have cap: "Option.bind (cl_hard (the (resolveConfiguredLimits ex_cfg ''p'' (Some ''k'') (Some ''m'')))) (\<lambda>h. h Rpd) = Some 14"
    by (simp add: resolveConfiguredLimits_def ex_cfg_def ex_limits_def credential_limits_def limit_ladder_def model_limits_def
        Let_def soft_value_def hard_value_def no_values_def CONFIGURED_LIMIT_AXES_def)
  have "cfg_hardCaps ex_cfg \<noteq> Some False" "in_calendar 60000"
    by (simp_all add: ex_cfg_def in_calendar_def MAX_TIME_def msPerDay_def)
  from hard_cap_exact [OF this(1) r this(2), of "\<lambda>_ _ _. \<lparr>lu_value = Some (Fin 14), lu_basis = None\<rparr>"] cap show ?thesis
    by (auto simp: axis_usage_def)
qed

definition ex_two_caps :: limits_cfg where
  "ex_two_caps = \<lparr>cfg_providers = [(''p'', \<lparr>pc_limits = Some \<lparr>lcfg_limits = \<lparr>rl_values = no_values,
     rl_hard = Some (no_values(Rpd := Some 5, Tpm := Some 5))\<rparr>, lcfg_models = None\<rparr>, pc_credentials = None\<rparr>)], cfg_hardCaps = None\<rparr>"

text \<open>The refusal announces the end of the first capped bucket in canonical order, requests before tokens and
  only then the shorter period: a cap on requests a day and one on tokens a minute, both reached, are
  announced as lasting to the end of the day.\<close>

theorem hard_cap_announces_canonical_first:
  "map_option (\<lambda>v. (ca_axis (hv_capped v), ca_period (hv_capped v), hv_resetsAt v))
     (evaluateHardCap ex_two_caps ''p'' None None (\<lambda>_ _ _. \<lparr>lu_value = Some (Fin 9), lu_basis = None\<rparr>) (Fin 0)) =
     Some (Requests, Day, Fin 86400000) \<and>
   axis_capped (\<lambda>_ _ _. \<lparr>lu_value = Some (Fin 9), lu_basis = None\<rparr>) (the (resolveConfiguredLimits ex_two_caps ''p'' None None)) Tpm \<noteq> None \<and>
   periodEnd (Fin 0) Minute = Some (Fin 60000)"
proof -
  have "in_calendar 0" by (simp add: in_calendar_def MAX_TIME_def msPerDay_def)
  then have day: "periodEnd (Fin 0) Day = Some (Fin 86400000)"
    using day_period(2) [of 0] by (simp add: day_of_def msPerDay_def)
  have minute: "periodEnd (Fin 0) Minute = Some (Fin 60000)"
    by (simp add: periodEnd_def periodStart_def MINUTE_MS_def)
  have r: "resolveConfiguredLimits ex_two_caps ''p'' None None = Some \<lparr>cl_values = no_values, cl_source = (\<lambda>_. None),
      cl_hard = Some (no_values(Rpd := Some 5, Tpm := Some 5)), cl_hardSource = Some ((\<lambda>_. None)(Rpd := Some FromProvider, Tpm := Some FromProvider))\<rparr>"
    by (auto simp: resolveConfiguredLimits_def ex_two_caps_def credential_limits_def limit_ladder_def model_limits_def Let_def
        soft_value_def hard_value_def no_values_def CONFIGURED_LIMIT_AXES_def fun_eq_iff split: option.splits)
  show ?thesis
    by (simp add: evaluateHardCap_def r day)
      (simp add: ex_two_caps_def axis_capped_def no_values_def CONFIGURED_LIMIT_AXES_def List.map_filter_def
        bucketRank_def day minute)
qed

end
