(* ===== verification/Diff_Gate.thy ===== *)
theory Diff_Gate
  imports JsData
begin

text \<open>
  The delegate-diff gate (\<^verbatim>\<open>delegate-gate/\<close>): the unified-diff parser, the post-image of a file, the minimality detector
  and the mechanical repair. A text is its list of lines where the code indexes its array of raw lines; a hunk keeps the raw
  indices the code keeps. The dash of one message is written as a hyphen. The detectors that walk a syntax tree use the compiler's library and are parameters.
\<close>

section \<open>The structure of a diff\<close>

datatype diff_kind = CtxLine | AddLine | RemLine

record diff_line =
  dl_kind :: diff_kind
  dl_content :: string
  dl_oldLine :: "nat option"
  dl_newLine :: "nat option"
  dl_rawIndex :: nat

record diff_hunk =
  dh_oldStart :: nat
  dh_oldLines :: nat
  dh_newStart :: nat
  dh_newLines :: nat
  dh_lines :: "diff_line list"
  dh_headerRawIndex :: nat
  dh_endRawIndex :: nat

record diff_file =
  df_oldPath :: "string option"
  df_newPath :: "string option"
  df_isNew :: bool
  df_isDeleted :: bool
  df_hunks :: "diff_hunk list"

datatype diff_parse_error = MalformedHunkHeader string

section \<open>The parser\<close>

text \<open>The regular expression of a hunk header: \<open>\d+\<close> and its optional second number after a comma.\<close>

definition is_digit :: "char \<Rightarrow> bool" where
  "is_digit c \<longleftrightarrow> 48 \<le> (of_char c :: nat) \<and> (of_char c :: nat) < 58"

definition read_number :: "string \<Rightarrow> (nat \<times> string) option" where
  "read_number v = (let ds = takeWhile is_digit v in if ds = [] then None else Some (read_digits ds, dropWhile is_digit v))"

definition read_range :: "string \<Rightarrow> (nat \<times> nat \<times> string) option" where
  "read_range v =
     (case read_number v of
        None \<Rightarrow> None
      | Some (start, rest) \<Rightarrow>
          (case rest of
             c # tail \<Rightarrow> (if c = CHR '','' then (case read_number tail of Some (size1, rest2) \<Rightarrow> Some (start, size1, rest2) | None \<Rightarrow> None)
               else Some (start, 1, rest))
           | [] \<Rightarrow> Some (start, 1, rest)))"

definition expect :: "string \<Rightarrow> string \<Rightarrow> string option" where
  "expect p v = (if starts_with p v then Some (drop (length p) v) else None)"

definition HUNK_HEADER :: "string \<Rightarrow> (nat \<times> nat \<times> nat \<times> nat) option" where
  "HUNK_HEADER line =
     (case expect ''@@ -'' line of
        None \<Rightarrow> None
      | Some v \<Rightarrow> (case read_range v of
          None \<Rightarrow> None
        | Some (oldStart, oldLines, v1) \<Rightarrow> (case expect '' +'' v1 of
            None \<Rightarrow> None
          | Some v2 \<Rightarrow> (case read_range v2 of
              None \<Rightarrow> None
            | Some (newStart, newLines, v3) \<Rightarrow>
                (if starts_with '' @@'' v3 then Some (oldStart, oldLines, newStart, newLines) else None)))))"

definition stripPrefix :: "string \<Rightarrow> string" where
  "stripPrefix path = (if starts_with ''a/'' path \<or> starts_with ''b/'' path then drop 2 path else path)"

definition pathFromHeaderLine :: "string \<Rightarrow> string option" where
  "pathFromHeaderLine line =
     (let rest = drop 4 line; raw = js_trim (takeWhile (\<lambda>c. c \<noteq> CHR 0x09) rest) in
      if raw = ''/dev/null'' then None else Some (stripPrefix raw))"

record file_header =
  fh_isNew :: bool
  fh_isDeleted :: bool
  fh_oldPath :: "string option"
  fh_newPath :: "string option"

definition header_line :: "string \<Rightarrow> file_header \<Rightarrow> file_header" where
  "header_line line h =
     (if starts_with ''new file mode'' line then h\<lparr>fh_isNew := True\<rparr>
      else if starts_with ''deleted file mode'' line then h\<lparr>fh_isDeleted := True\<rparr>
      else if starts_with ''--- '' line then h\<lparr>fh_oldPath := pathFromHeaderLine line\<rparr>
      else if starts_with ''+++ '' line then h\<lparr>fh_newPath := pathFromHeaderLine line\<rparr>
      else h)"

text \<open>A parser is given the raw lines that are left and the index of the first of them, and returns the same.\<close>

fun parseFileHeader :: "string list \<Rightarrow> nat \<Rightarrow> file_header \<Rightarrow> file_header \<times> string list \<times> nat" where
  "parseFileHeader [] i h = (h, [], i)"
| "parseFileHeader (line # ls) i h =
     (if starts_with ''diff --git '' line \<or> starts_with ''@@'' line then (h, line # ls, i)
      else if starts_with ''+++ '' line then (header_line line h, ls, i + 1)
      else parseFileHeader ls (i + 1) (header_line line h))"

definition classifyHunkBodyLine :: "string \<Rightarrow> nat \<Rightarrow> nat \<Rightarrow> nat \<Rightarrow> diff_line" where
  "classifyHunkBodyLine body oldCursor newCursor rawIndex =
     (case body of
        c # cs \<Rightarrow>
          if c = CHR ''+'' then \<lparr>dl_kind = AddLine, dl_content = cs, dl_oldLine = None, dl_newLine = Some newCursor, dl_rawIndex = rawIndex\<rparr>
          else if c = CHR ''-''
          then \<lparr>dl_kind = RemLine, dl_content = cs, dl_oldLine = Some oldCursor, dl_newLine = None, dl_rawIndex = rawIndex\<rparr>
          else \<lparr>dl_kind = CtxLine, dl_content = (if c = CHR '' '' then cs else body), dl_oldLine = Some oldCursor,
                dl_newLine = Some newCursor, dl_rawIndex = rawIndex\<rparr>
      | [] \<Rightarrow> \<lparr>dl_kind = CtxLine, dl_content = [], dl_oldLine = Some oldCursor, dl_newLine = Some newCursor, dl_rawIndex = rawIndex\<rparr>)"

text \<open>The body of a hunk, with the numbers of old and new lines still to come.\<close>

fun parse_body :: "string list \<Rightarrow> nat \<Rightarrow> nat \<Rightarrow> nat \<Rightarrow> nat \<Rightarrow> nat \<Rightarrow> diff_line list \<times> string list \<times> nat" where
  "parse_body [] i oldCursor newCursor oldLeft newLeft = ([], [], i)"
| "parse_body (body # ls) i oldCursor newCursor oldLeft newLeft =
     (if oldLeft = 0 \<and> newLeft = 0 then ([], body # ls, i)
      else if starts_with ''diff --git '' body \<or> starts_with ''@@'' body then ([], body # ls, i)
      else if starts_with [CHR 0x5C, CHR '' ''] body then parse_body ls (i + 1) oldCursor newCursor oldLeft newLeft
      else
        (let line = classifyHunkBodyLine body oldCursor newCursor i;
             new = (if dl_kind line \<noteq> RemLine then 1 else 0);
             old = (if dl_kind line \<noteq> AddLine then 1 else 0);
             (ms, rest) = parse_body ls (i + 1) (oldCursor + old) (newCursor + new) (oldLeft - old) (newLeft - new)
         in (line # ms, rest)))"

definition parseHunk :: "string \<Rightarrow> string list \<Rightarrow> nat \<Rightarrow> diff_parse_error + (diff_hunk \<times> string list \<times> nat)" where
  "parseHunk headerLine ls i =
     (case HUNK_HEADER headerLine of
        None \<Rightarrow> Inl (MalformedHunkHeader headerLine)
      | Some (oldStart, oldLines, newStart, newLines) \<Rightarrow>
          (case parse_body ls (i + 1) oldStart newStart oldLines newLines of
             (body, rest, j) \<Rightarrow> Inr (\<lparr>dh_oldStart = oldStart, dh_oldLines = oldLines, dh_newStart = newStart, dh_newLines = newLines,
               dh_lines = body, dh_headerRawIndex = i, dh_endRawIndex = j\<rparr>, rest, j)))"

lemma parse_body_shorter: "parse_body ls i a b c d = (xs, rest, j) \<Longrightarrow> length rest \<le> length ls"
proof (induction ls arbitrary: i a b c d xs rest j)
  case (Cons body ls)
  from Cons.prems show ?case
    by (auto simp: Let_def split: if_splits prod.splits dest!: Cons.IH intro: le_SucI)
qed simp

lemma parseHunk_shorter: "parseHunk l ls i = Inr (h, rest, j) \<Longrightarrow> length rest \<le> length ls"
  by (auto simp: parseHunk_def split: option.splits prod.splits dest: parse_body_shorter)

lemma parseFileHeader_shorter: "parseFileHeader ls i h = (h', rest, j) \<Longrightarrow> length rest \<le> length ls"
proof (induction ls arbitrary: i h)
  case (Cons line ls)
  from Cons.prems show ?case by (auto split: if_splits dest!: Cons.IH intro: le_SucI)
qed simp

function parse_hunks :: "string list \<Rightarrow> nat \<Rightarrow> diff_parse_error + (diff_hunk list \<times> string list \<times> nat)" where
  "parse_hunks [] i = Inr ([], [], i)"
| "parse_hunks (line # ls) i =
     (if starts_with ''@@'' line
      then (case parseHunk line ls i of
              Inl e \<Rightarrow> Inl e
            | Inr (h, rest, j) \<Rightarrow> (case parse_hunks rest j of Inl e \<Rightarrow> Inl e | Inr (hs, x) \<Rightarrow> Inr (h # hs, x)))
      else Inr ([], line # ls, i))"
  by pat_completeness auto

termination
  by (relation "measure (\<lambda>(ls, i). length ls)") (auto dest: parseHunk_shorter simp: le_imp_less_Suc)

lemma parse_hunks_shorter: "parse_hunks ls i = Inr (hs, rest, j) \<Longrightarrow> length rest \<le> length ls"
proof (induction ls i arbitrary: hs rest j rule: parse_hunks.induct)
  case (2 line ls i)
  show ?case
  proof (cases "starts_with ''@@'' line")
    case True
    then obtain h r k hs' where p: "parseHunk line ls i = Inr (h, r, k)" "parse_hunks r k = Inr (hs', rest, j)"
      using "2.prems" by (auto split: sum.splits prod.splits)
    show ?thesis using "2.IH" [OF True p(1) refl refl p(2)] parseHunk_shorter [OF p(1)] by simp
  qed (use "2.prems" in auto)
qed simp

definition no_header :: file_header where
  "no_header = \<lparr>fh_isNew = False, fh_isDeleted = False, fh_oldPath = None, fh_newPath = None\<rparr>"

function parse_files :: "string list \<Rightarrow> nat \<Rightarrow> diff_parse_error + diff_file list" where
  "parse_files [] i = Inr []"
| "parse_files (line # ls) i =
     (if \<not> starts_with ''diff --git '' line then parse_files ls (i + 1)
      else
        (case parseFileHeader ls (i + 1) no_header of
           (h, rest, j) \<Rightarrow>
             (case parse_hunks rest j of
                Inl e \<Rightarrow> Inl e
              | Inr (hunks, rest2, k) \<Rightarrow>
                  (case parse_files rest2 k of
                     Inl e \<Rightarrow> Inl e
                   | Inr files \<Rightarrow>
                       Inr (if hunks \<noteq> [] \<or> fh_isNew h \<or> fh_isDeleted h
                         then \<lparr>df_oldPath = fh_oldPath h, df_newPath = fh_newPath h, df_isNew = fh_isNew h,
                               df_isDeleted = fh_isDeleted h, df_hunks = hunks\<rparr> # files
                         else files)))))"
  by pat_completeness auto

termination
proof (relation "measure (\<lambda>(ls, i). length ls)")
  fix line ls i h rest j x hunks rest2 k y z
  assume a: "(h, y) = parseFileHeader ls (i + 1) no_header" "(rest, j) = y" and b: "parse_hunks rest j = Inr x" "(hunks, z) = x" "(rest2, k) = z"
  have "length rest \<le> length ls" using parseFileHeader_shorter [of ls "i + 1" no_header h rest j] a by simp
  moreover have "length rest2 \<le> length rest" using b parse_hunks_shorter by blast
  ultimately show "((rest2, k), (line # ls, i)) \<in> measure (\<lambda>(ls, i). length ls)" by simp
qed simp_all

definition parseUnifiedDiff :: "string \<Rightarrow> diff_parse_error + diff_file list" where
  "parseUnifiedDiff v = parse_files (split_lf (unix_eol v)) 0"

definition reportedPath :: "diff_file \<Rightarrow> string" where
  "reportedPath f = (case df_newPath f of Some p \<Rightarrow> p | None \<Rightarrow> (case df_oldPath f of Some p \<Rightarrow> p | None \<Rightarrow> ''(unknown)''))"

section \<open>The post-image\<close>

record post_image =
  pi_lines :: "string list"
  pi_addedLines :: "nat list"

text \<open>\<^verbatim>\<open>applyHunkLines\<close>: what is pushed, what is added, and where the old cursor ends.\<close>

fun applyHunkLines :: "diff_line list \<Rightarrow> post_image \<Rightarrow> nat \<Rightarrow> post_image \<times> nat" where
  "applyHunkLines [] p oldCursor = (p, oldCursor)"
| "applyHunkLines (line # ls) p oldCursor =
     (if dl_kind line = RemLine then applyHunkLines ls p (oldCursor + 1)
      else
        (let out = pi_lines p @ [dl_content line];
             added = (if dl_kind line = AddLine then pi_addedLines p @ [length out] else pi_addedLines p)
         in applyHunkLines ls \<lparr>pi_lines = out, pi_addedLines = added\<rparr> (if dl_kind line = CtxLine then oldCursor + 1 else oldCursor)))"

definition line_at :: "string list \<Rightarrow> nat \<Rightarrow> string" where
  "line_at ls k = (if k < length ls then ls ! k else [])"

definition copy_span :: "string list \<Rightarrow> nat \<Rightarrow> nat \<Rightarrow> post_image \<Rightarrow> post_image" where
  "copy_span original a b p = p\<lparr>pi_lines := pi_lines p @ map (line_at original) [a..<b]\<rparr>"

fun apply_hunks :: "string list \<Rightarrow> diff_hunk list \<Rightarrow> post_image \<Rightarrow> nat \<Rightarrow> post_image" where
  "apply_hunks original [] p oldCursor = copy_span original oldCursor (length original) p"
| "apply_hunks original (h # hs) p oldCursor =
     (let start = (if dh_oldStart h = 0 then 0 else dh_oldStart h - 1);
          (q, cur) = applyHunkLines (dh_lines h) (copy_span original oldCursor start p) (max oldCursor start)
      in apply_hunks original hs q cur)"

definition reconstructPostImage :: "string option \<Rightarrow> diff_file \<Rightarrow> post_image" where
  "reconstructPostImage original f =
     apply_hunks (case original of None \<Rightarrow> [] | Some v \<Rightarrow> split_lf (unix_eol v)) (df_hunks f) \<lparr>pi_lines = [], pi_addedLines = []\<rparr> 0"

section \<open>Minimality\<close>

definition isWhitespaceOnlyChange :: "string \<Rightarrow> string \<Rightarrow> bool" where
  "isWhitespaceOnlyChange removed added \<longleftrightarrow> removed \<noteq> added \<and> trimStart removed = trimStart added"

definition hasNoSemanticDelta :: "string \<Rightarrow> string \<Rightarrow> bool" where
  "hasNoSemanticDelta removed added \<longleftrightarrow> removed \<noteq> added \<and> js_trim removed = js_trim added"

record line_pair =
  lp_removed :: string
  lp_added :: string
  lp_newLine :: "nat option"

function pairedRuns :: "diff_line list \<Rightarrow> line_pair list" where
  "pairedRuns [] = []"
| "pairedRuns (l # ls) =
     (if dl_kind l \<noteq> RemLine then pairedRuns ls
      else
        (let removed = l # takeWhile (\<lambda>x. dl_kind x = RemLine) ls;
             after = dropWhile (\<lambda>x. dl_kind x = RemLine) ls;
             added = takeWhile (\<lambda>x. dl_kind x = AddLine) after;
             rest = dropWhile (\<lambda>x. dl_kind x = AddLine) after
         in (if length removed = length added
             then map2 (\<lambda>r a. \<lparr>lp_removed = dl_content r, lp_added = dl_content a, lp_newLine = dl_newLine a\<rparr>) removed added
             else []) @ pairedRuns rest))"
  by pat_completeness auto

termination
proof (relation "measure length")
  fix l ls rest after added removed
  assume "after = dropWhile (\<lambda>x. dl_kind x = RemLine) ls" "rest = dropWhile (\<lambda>x. dl_kind x = AddLine) after"
  then have "length rest \<le> length ls" by (metis length_dropWhile_le order_trans)
  then show "(rest, l # ls) \<in> measure length" by simp
qed simp_all

definition pairedRemoveAddRuns :: "diff_hunk \<Rightarrow> line_pair list" where
  "pairedRemoveAddRuns h = pairedRuns (dh_lines h)"

definition totalOfKind :: "diff_hunk \<Rightarrow> diff_kind \<Rightarrow> nat" where
  "totalOfKind h k = length (filter (\<lambda>l. dl_kind l = k) (dh_lines h))"

definition isPureIndentationChurnHunk :: "diff_hunk \<Rightarrow> bool" where
  "isPureIndentationChurnHunk h =
     (let pairs = pairedRemoveAddRuns h in
      if pairs = [] then False
      else if length pairs \<noteq> totalOfKind h RemLine \<or> length pairs \<noteq> totalOfKind h AddLine then False
      else list_all (\<lambda>p. isWhitespaceOnlyChange (lp_removed p) (lp_added p)) pairs)"

definition NON_MINIMAL_MIN_CHANGED_LINES :: nat where "NON_MINIMAL_MIN_CHANGED_LINES = 6"

datatype finding_class = IndentationChurn | NonMinimalDiff | TautologicalAssertion | UnnecessaryCast | SharedStateMutation

record finding =
  fd_class :: finding_class
  fd_file :: string
  fd_line :: "nat option"
  fd_detail :: string
  fd_autoFixable :: bool

definition hunk_range :: "diff_hunk \<Rightarrow> string" where
  "hunk_range h = ''hunk @@ -'' @ show_nat (dh_oldStart h) @ '','' @ show_nat (dh_oldLines h) @ '' +'' @ show_nat (dh_newStart h) @
     '','' @ show_nat (dh_newLines h) @ '' @@ ''"

definition hunk_finding :: "string \<Rightarrow> diff_hunk \<Rightarrow> finding option" where
  "hunk_finding path h =
     (let pairs = pairedRemoveAddRuns h in
      if isPureIndentationChurnHunk h
      then Some \<lparr>fd_class = IndentationChurn, fd_file = path, fd_line = lp_newLine (hd pairs),
        fd_detail = hunk_range h @ ''changes '' @ show_nat (length pairs) @ '' line(s) by leading whitespace only'', fd_autoFixable = True\<rparr>
      else if pairs = [] then None
      else
        (let noDelta = filter (\<lambda>p. hasNoSemanticDelta (lp_removed p) (lp_added p)) pairs in
         if NON_MINIMAL_MIN_CHANGED_LINES \<le> length pairs \<and> length pairs \<le> 2 * length noDelta
         then Some \<lparr>fd_class = NonMinimalDiff, fd_file = path, fd_line = lp_newLine (hd noDelta),
           fd_detail = hunk_range h @ ''has no semantic delta on '' @ show_nat (length noDelta) @ ''/'' @ show_nat (length pairs) @
             '' changed lines - likely touches lines unrelated to the actual edit'', fd_autoFixable = False\<rparr>
         else None))"

definition analyzeDiffMinimality :: "diff_file list \<Rightarrow> finding list" where
  "analyzeDiffMinimality files = concat (map (\<lambda>f. List.map_filter (hunk_finding (reportedPath f)) (df_hunks f)) files)"

section \<open>The verdict and the repair\<close>

text \<open>The detectors that walk a syntax tree, and the edits that remove a redundant cast, are arguments.\<close>

record verdict =
  vd_pass :: bool
  vd_findings :: "finding list"

definition evaluateDiff :: "(diff_file list \<Rightarrow> finding list) list \<Rightarrow> diff_file list \<Rightarrow> verdict" where
  "evaluateDiff detectors files =
     (let found = analyzeDiffMinimality files @ concat (map (\<lambda>d. d files) detectors)
      in \<lparr>vd_pass = (found = []), vd_findings = found\<rparr>)"

definition evaluateDiffText :: "(diff_file list \<Rightarrow> finding list) list \<Rightarrow> string \<Rightarrow> diff_parse_error + verdict" where
  "evaluateDiffText detectors v = map_sum id (evaluateDiff detectors) (parseUnifiedDiff v)"

record auto_repair_result =
  ar_fixedText :: string
  ar_fixedCount :: nat

definition churn_hunks :: "diff_file list \<Rightarrow> diff_hunk list" where
  "churn_hunks files = filter isPureIndentationChurnHunk (concat (map df_hunks files))"

definition dropped_lines :: "diff_file list \<Rightarrow> nat set" where
  "dropped_lines files = (\<Union>h\<in>set (churn_hunks files). {dh_headerRawIndex h..<dh_endRawIndex h})"

definition repaired_lines :: "nat set \<Rightarrow> (nat \<times> string) list \<Rightarrow> string list \<Rightarrow> string list" where
  "repaired_lines dropped edits rawLines =
     concat (map (\<lambda>i. if i \<in> dropped then []
         else [case map_of (rev edits) i of None \<Rightarrow> rawLines ! i | Some v \<Rightarrow> CHR ''+'' # v]) [0..<length rawLines])"

definition autoRepairDiff :: "(diff_file list \<Rightarrow> (nat \<times> string) list) \<Rightarrow> string \<Rightarrow> diff_parse_error + auto_repair_result" where
  "autoRepairDiff findFixableCastEdits diffText =
     (let rawLines = split_lf (unix_eol diffText) in
      case parseUnifiedDiff (unix_eol diffText) of
        Inl e \<Rightarrow> Inl e
      | Inr files \<Rightarrow>
          Inr \<lparr>ar_fixedText = join_with [LF] (repaired_lines (dropped_lines files) (findFixableCastEdits files) rawLines),
               ar_fixedCount = length (churn_hunks files) + length (findFixableCastEdits files)\<rparr>)"

end
