(* ===== verification/Diff_Gate_Props.thy ===== *)
theory Diff_Gate_Props
  imports Diff_Gate
begin

text \<open>
  Properties of the delegate-diff gate. The reference is an edit script: a file is a sequence of segments that stay and
  segments that change, the diff of it is what a generator of unified diffs writes, and its old and new side are read off
  the script. The parser and the post-image are compared with it.
\<close>

section \<open>Edit scripts\<close>

datatype segment = Same "string list" | Edit "(diff_kind \<times> string) list"

definition old_lines :: "(diff_kind \<times> string) list \<Rightarrow> string list" where
  "old_lines es = map snd (filter (\<lambda>e. fst e \<noteq> AddLine) es)"

definition new_lines :: "(diff_kind \<times> string) list \<Rightarrow> string list" where
  "new_lines es = map snd (filter (\<lambda>e. fst e \<noteq> RemLine) es)"

fun old_side :: "segment \<Rightarrow> string list" where
  "old_side (Same ls) = ls"
| "old_side (Edit es) = old_lines es"

fun new_side :: "segment \<Rightarrow> string list" where
  "new_side (Same ls) = ls"
| "new_side (Edit es) = new_lines es"

text \<open>A range of no lines starts at the line before it, any other at its first line.\<close>

definition range_start :: "nat \<Rightarrow> nat \<Rightarrow> nat" where
  "range_start before n = (if n = 0 then before else before + 1)"

text \<open>The structure a parser is to return of a script: line numbers and raw indices written out.\<close>

fun number_lines :: "(diff_kind \<times> string) list \<Rightarrow> nat \<Rightarrow> nat \<Rightarrow> nat \<Rightarrow> diff_line list" where
  "number_lines [] a b i = []"
| "number_lines ((k, c) # es) a b i =
     \<lparr>dl_kind = k, dl_content = c, dl_oldLine = (if k = AddLine then None else Some a),
      dl_newLine = (if k = RemLine then None else Some b), dl_rawIndex = i\<rparr> #
     number_lines es (if k = AddLine then a else a + 1) (if k = RemLine then b else b + 1) (i + 1)"

definition hunk_of :: "(diff_kind \<times> string) list \<Rightarrow> nat \<Rightarrow> nat \<Rightarrow> nat \<Rightarrow> diff_hunk" where
  "hunk_of es a b i =
     (let m = length (old_lines es); n = length (new_lines es) in
      \<lparr>dh_oldStart = range_start a m, dh_oldLines = m, dh_newStart = range_start b n, dh_newLines = n,
       dh_lines = number_lines es (range_start a m) (range_start b n) (i + 1), dh_headerRawIndex = i,
       dh_endRawIndex = i + 1 + length es\<rparr>)"

text \<open>\<open>a\<close> and \<open>b\<close> old and new lines lie before the segments, and the diff's next raw line is the \<open>i\<close>-th.\<close>

fun hunks_of :: "segment list \<Rightarrow> nat \<Rightarrow> nat \<Rightarrow> nat \<Rightarrow> diff_hunk list" where
  "hunks_of [] a b i = []"
| "hunks_of (Same ls # segs) a b i = hunks_of segs (a + length ls) (b + length ls) i"
| "hunks_of (Edit es # segs) a b i =
     hunk_of es a b i # hunks_of segs (a + length (old_lines es)) (b + length (new_lines es)) (i + 1 + length es)"

section \<open>The post-image is the new side\<close>

definition added_numbers :: "diff_hunk list \<Rightarrow> nat list" where
  "added_numbers hs = List.map_filter (\<lambda>l. if dl_kind l = AddLine then dl_newLine l else None) (concat (map dh_lines hs))"

lemma added_numbers_Cons:
  "added_numbers (h # hs) = List.map_filter (\<lambda>l. if dl_kind l = AddLine then dl_newLine l else None) (dh_lines h) @ added_numbers hs"
  by (simp add: added_numbers_def map_filter_def)

lemma applyHunkLines_script:
  "length (pi_lines p) + 1 = b \<or> new_lines es = [] \<Longrightarrow>
     applyHunkLines (number_lines es a b i) p cur =
       (\<lparr>pi_lines = pi_lines p @ new_lines es,
         pi_addedLines = pi_addedLines p @
           List.map_filter (\<lambda>l. if dl_kind l = AddLine then dl_newLine l else None) (number_lines es a b i)\<rparr>,
        cur + length (old_lines es))"
proof (induction es a b i arbitrary: p cur rule: number_lines.induct)
  case (1 a b i)
  then show ?case by (simp add: new_lines_def old_lines_def map_filter_def)
next
  case (2 k c es a b i)
  have hyp: "length (pi_lines q) + 1 = (if k = RemLine then b else b + 1) \<or> new_lines es = []"
    if "length (pi_lines q) = (if k = RemLine then length (pi_lines p) else length (pi_lines p) + 1)" for q :: post_image
    using that 2(2) by (cases k) (auto simp: new_lines_def)
  have num: "length (pi_lines p) + 1 = b" if "k \<noteq> RemLine" using 2(2) that by (auto simp: new_lines_def)
  show ?case
    using 2(1) [OF hyp] num by (cases k) (simp_all add: new_lines_def old_lines_def map_filter_simps Let_def)
qed

fun anchored :: "segment list \<Rightarrow> nat \<Rightarrow> bool" where
  "anchored [] a = True"
| "anchored (Same ls # segs) a = anchored segs (a + length ls)"
| "anchored (Edit es # segs) a = ((old_lines es \<noteq> [] \<or> a = 0) \<and> anchored segs (a + length (old_lines es)))"

lemma span_append: "x \<le> y \<Longrightarrow> y \<le> z \<Longrightarrow> map f [x..<y] @ map f [y..<z] = map f [x..<z]"
  by (metis le_add_diff_inverse map_append upt_add_eq_append)

lemma drop_more: "drop a xs = ls @ rest \<Longrightarrow> drop (a + length ls) xs = rest"
  by (metis add.commute append_eq_conv_conj drop_drop)

lemma span_drop: "drop a original = ls @ rest \<Longrightarrow> map (line_at original) [a..<a + length ls] = ls"
proof (rule nth_equalityI)
  assume d: "drop a original = ls @ rest"
  fix k
  assume "k < length (map (line_at original) [a..<a + length ls])"
  then have k: "k < length ls" by simp
  have "a + k < length original" using arg_cong [OF d, of length] k by simp
  moreover from this have "original ! (a + k) = ls ! k" using arg_cong [OF d, of "\<lambda>v. v ! k"] k by (simp add: nth_append)
  ultimately show "map (line_at original) [a..<a + length ls] ! k = ls ! k" using k by (simp add: line_at_def)
qed simp

lemma apply_hunks_script:
  assumes "drop a original = concat (map old_side segs)" and "a \<le> length original" and "cur \<le> a"
    and "length (pi_lines p) + (a - cur) = b" and "anchored segs a"
  shows "apply_hunks original (hunks_of segs a b i) p cur =
    \<lparr>pi_lines = pi_lines p @ map (line_at original) [cur..<a] @ concat (map new_side segs),
     pi_addedLines = pi_addedLines p @ added_numbers (hunks_of segs a b i)\<rparr>"
  using assms
proof (induction segs a b i arbitrary: p cur rule: hunks_of.induct)
  case (1 a b i)
  then have "a = length original" by simp
  then show ?case by (cases p) (simp add: copy_span_def added_numbers_def map_filter_simps)
next
  case (2 ls segs a b i)
  have d: "drop (a + length ls) original = concat (map old_side segs)" using drop_more [of a original ls] 2(2) by simp
  have le: "a + length ls \<le> length original" using arg_cong [OF 2(2), of length] 2(3) by simp
  have "map (line_at original) [cur..<a + length ls] = map (line_at original) [cur..<a] @ ls"
    using span_append [of cur a "a + length ls" "line_at original"] 2(4) span_drop [of a original ls] 2(2) by simp
  then show ?case using 2(1) [OF d le] 2(4-6) by simp
next
  case (3 es segs a b i)
  let ?m = "length (old_lines es)" and ?n = "length (new_lines es)"
  have d: "drop (a + ?m) original = concat (map old_side segs)" using drop_more [of a original "old_lines es"] 3(2) by simp
  have le: "a + ?m \<le> length original" using arg_cong [OF 3(2), of length] 3(3) by simp
  let ?h = "hunk_of es a b i" and ?hs = "hunks_of segs (a + ?m) (b + ?n) (i + 1 + length es)"
  let ?added = "List.map_filter (\<lambda>l. if dl_kind l = AddLine then dl_newLine l else None) (dh_lines ?h)"
  have start: "(if dh_oldStart ?h = 0 then 0 else dh_oldStart ?h - 1) = a"
    using 3(6) by (auto simp: range_start_def hunk_of_def Let_def)
  define q where "q = copy_span original cur a p"
  have q: "length (pi_lines q) = b" using 3(4,5) by (simp add: q_def copy_span_def)
  define r where "r = \<lparr>pi_lines = pi_lines q @ new_lines es, pi_addedLines = pi_addedLines q @ ?added\<rparr>"
  have h: "applyHunkLines (dh_lines ?h) q a = (r, a + ?m)"
    unfolding hunk_of_def Let_def r_def by simp (rule applyHunkLines_script, auto simp: q range_start_def)
  have step: "apply_hunks original (?h # ?hs) p cur = apply_hunks original ?hs r (a + ?m)"
    unfolding apply_hunks.simps start Let_def max_absorb2 [OF 3(4)] by (simp add: h flip: q_def)
  have "anchored segs (a + ?m)" "length (pi_lines r) + (a + ?m - (a + ?m)) = b + ?n" using 3(6) q by (simp_all add: r_def)
  from 3(1) [OF d le order_refl this(2,1)] show ?case
    unfolding hunks_of.simps step by (simp add: r_def q_def copy_span_def added_numbers_Cons)
qed

lemma number_lines_new: "l \<in> set (number_lines es a b i) \<Longrightarrow> dl_newLine l = Some k \<Longrightarrow>
    b \<le> k \<and> k - b < length (new_lines es) \<and> new_lines es ! (k - b) = dl_content l"
proof (induction es a b i rule: number_lines.induct)
  case (2 m c es a b i)
  have tail: "new_lines ((m, c) # es) = (if m = RemLine then new_lines es else c # new_lines es)" by (simp add: new_lines_def)
  show ?case
  proof (cases "l \<in> set (number_lines es (if m = AddLine then a else a + 1) (if m = RemLine then b else b + 1) (i + 1))")
    case True
    note IH = "2.IH" [OF True "2.prems"(2)]
    show ?thesis
    proof (cases "m = RemLine")
      case False
      then obtain d where "k = Suc (b + d)" using IH le_Suc_ex [of "Suc b" k] by auto
      then show ?thesis using IH False by (simp add: tail)
    qed (use IH tail in simp)
  qed (use "2.prems" in \<open>auto simp: tail split: if_splits\<close>)
qed simp

lemma number_lines_old: "l \<in> set (number_lines es a b i) \<Longrightarrow> dl_oldLine l = Some k \<Longrightarrow>
    a \<le> k \<and> k - a < length (old_lines es) \<and> old_lines es ! (k - a) = dl_content l"
proof (induction es a b i rule: number_lines.induct)
  case (2 m c es a b i)
  have tail: "old_lines ((m, c) # es) = (if m = AddLine then old_lines es else c # old_lines es)" by (simp add: old_lines_def)
  show ?case
  proof (cases "l \<in> set (number_lines es (if m = AddLine then a else a + 1) (if m = RemLine then b else b + 1) (i + 1))")
    case True
    note IH = "2.IH" [OF True "2.prems"(2)]
    show ?thesis
    proof (cases "m = AddLine")
      case False
      then obtain d where "k = Suc (a + d)" using IH le_Suc_ex [of "Suc a" k] by auto
      then show ?thesis using IH False by (simp add: tail)
    qed (use IH tail in simp)
  qed (use "2.prems" in \<open>auto simp: tail split: if_splits\<close>)
qed simp

definition numbers_true :: "string list \<Rightarrow> string list \<Rightarrow> diff_hunk \<Rightarrow> bool" where
  "numbers_true old new h \<longleftrightarrow> (\<forall>l\<in>set (dh_lines h).
     (\<forall>k. dl_oldLine l = Some k \<longrightarrow> 0 < k \<and> k \<le> length old \<and> old ! (k - 1) = dl_content l) \<and>
     (\<forall>k. dl_newLine l = Some k \<longrightarrow> 0 < k \<and> k \<le> length new \<and> new ! (k - 1) = dl_content l))"

lemma numbers_of_hunk: "numbers_true (A @ old_lines es @ A') (B @ new_lines es @ B') (hunk_of es (length A) (length B) i)"
proof -
  have pos: "0 < k \<and> k \<le> length (X @ xs @ Y) \<and> (X @ xs @ Y) ! (k - 1) = c"
    if "range_start (length X) (length xs) \<le> k" "k - range_start (length X) (length xs) < length xs"
      "xs ! (k - range_start (length X) (length xs)) = c" for X xs Y :: "string list" and k c
  proof -
    have "xs \<noteq> []" using that(2) by auto
    then have s: "range_start (length X) (length xs) = length X + 1" by (simp add: range_start_def)
    define j where "j = k - (length X + 1)"
    have k: "k = length X + 1 + j" using that(1) s by (simp add: j_def)
    show ?thesis using that(2,3) unfolding s k by (simp add: nth_append)
  qed
  let ?h = "hunk_of es (length A) (length B) i"
  have lines: "dh_lines ?h = number_lines es (range_start (length A) (length (old_lines es))) (range_start (length B) (length (new_lines es))) (i + 1)"
    by (simp add: hunk_of_def Let_def)
  show ?thesis
    unfolding numbers_true_def
  proof (intro ballI conjI allI impI)
    fix l k
    assume l: "l \<in> set (dh_lines ?h)"
    show "0 < k" "k \<le> length (A @ old_lines es @ A')" "(A @ old_lines es @ A') ! (k - 1) = dl_content l" if "dl_oldLine l = Some k"
      using pos [of A "old_lines es" k "dl_content l" A'] number_lines_old [OF l [unfolded lines] that] by blast+
    show "0 < k" "k \<le> length (B @ new_lines es @ B')" "(B @ new_lines es @ B') ! (k - 1) = dl_content l" if "dl_newLine l = Some k"
      using pos [of B "new_lines es" k "dl_content l" B'] number_lines_new [OF l [unfolded lines] that] by blast+
  qed
qed

lemma numbers_of_hunks:
  "h \<in> set (hunks_of segs (length A) (length B) i) \<Longrightarrow> numbers_true (A @ concat (map old_side segs)) (B @ concat (map new_side segs)) h"
proof (induction segs arbitrary: A B i)
  case (Cons s segs)
  show ?case
  proof (cases s)
    case (Same ls)
    then show ?thesis using Cons.IH [of "A @ ls" "B @ ls" i] Cons.prems by simp
  next
    case (Edit es)
    then show ?thesis
      using Cons.IH [of "A @ old_lines es" "B @ new_lines es" "i + 1 + length es"] Cons.prems
        numbers_of_hunk [of A es "concat (map old_side segs)" B "concat (map new_side segs)" i]
      by auto
  qed
qed simp

definition file_text :: "string list \<Rightarrow> string option" where
  "file_text ls = (if ls = [] then None else Some (join_with [LF] ls))"

lemma file_text_lines:
  "\<forall>l\<in>set ls. plain_line l \<Longrightarrow> (case file_text ls of None \<Rightarrow> [] | Some v \<Rightarrow> split_lf (unix_eol v)) = ls"
  by (simp add: file_text_def unix_eol_join split_lf_join plain_line_def)

text \<open>C37. For the diff of any edit script whose changed segments touch an old line (or lie at the start of the file), the post-image is
  the new side of the script, the lines marked as added are those the diff adds, under the numbers the parsed lines carry,
  and every old and new line number of a hunk names the line with that content.\<close>

theorem post_image_exact:
  assumes "\<forall>l\<in>set (concat (map old_side segs)). plain_line l" and "anchored segs 0" and "df_hunks f = hunks_of segs 0 0 i"
  shows "reconstructPostImage (file_text (concat (map old_side segs))) f =
      \<lparr>pi_lines = concat (map new_side segs), pi_addedLines = added_numbers (df_hunks f)\<rparr> \<and>
    (\<forall>h\<in>set (df_hunks f). numbers_true (concat (map old_side segs)) (concat (map new_side segs)) h)"
proof -
  have "apply_hunks (concat (map old_side segs)) (hunks_of segs 0 0 i) \<lparr>pi_lines = [], pi_addedLines = []\<rparr> 0 =
      \<lparr>pi_lines = concat (map new_side segs), pi_addedLines = added_numbers (hunks_of segs 0 0 i)\<rparr>"
    using apply_hunks_script [of 0 "concat (map old_side segs)" segs 0 "\<lparr>pi_lines = [], pi_addedLines = []\<rparr>" 0 i] assms(2) by simp
  then show ?thesis
    using numbers_of_hunks [of _ segs "[]" "[]" i] by (simp add: reconstructPostImage_def file_text_lines [OF assms(1)] assms(3))
qed

section \<open>An insertion without context is misplaced\<close>

text \<open>The hunk \<^verbatim>\<open>@@ -n,0 +n+1 @@\<close> of a diff without context inserts after the old line \<open>n\<close>; the code inserts before it.\<close>

theorem zero_context_insertion_misplaced:
  assumes "\<forall>l\<in>set (pre @ [line] @ post). plain_line l" and "adds \<noteq> []"
    and "df_hunks f = [hunk_of (map (Pair AddLine) adds) (length pre + 1) (length pre + 1) i]"
  shows "pi_lines (reconstructPostImage (file_text (pre @ [line] @ post)) f) = pre @ adds @ [line] @ post"
proof -
  let ?h = "hunk_of (map (Pair AddLine) adds) (length pre + 1) (length pre + 1) i"
  let ?o = "pre @ [line] @ post"
  have old: "old_lines (map (Pair AddLine) adds) = []" by (induction adds) (simp_all add: old_lines_def)
  have new: "new_lines (map (Pair AddLine) adds) = adds" by (induction adds) (simp_all add: new_lines_def)
  have start: "dh_oldStart ?h = length pre + 1" by (simp add: hunk_of_def Let_def old range_start_def)
  have lines: "pi_lines (fst (applyHunkLines (number_lines (map (Pair AddLine) ls) a b j) p cur)) = pi_lines p @ ls \<and>
      snd (applyHunkLines (number_lines (map (Pair AddLine) ls) a b j) p cur) = cur" for ls a b j p cur
    by (induction ls arbitrary: b j p) (simp_all add: Let_def)
  have pre: "map (line_at ?o) [0..<length pre] = pre" using span_drop [of 0 ?o pre "[line] @ post"] by simp
  have post: "map (line_at ?o) [length pre..<length ?o] = [line] @ post"
    using span_drop [of "length pre" ?o "[line] @ post" "[]"] by simp
  have "pi_lines (apply_hunks ?o [?h] \<lparr>pi_lines = [], pi_addedLines = []\<rparr> 0) = pre @ adds @ [line] @ post"
    using lines [of adds "range_start (length pre + 1) 0" "range_start (length pre + 1) (length adds)" "i + 1"
        "\<lparr>pi_lines = pre, pi_addedLines = []\<rparr>" "length pre"] post pre
    by (simp add: start hunk_of_def Let_def old new copy_span_def split_beta range_start_def)
  then show ?thesis unfolding reconstructPostImage_def file_text_lines [OF assms(1)] assms(3) .
qed

section \<open>An example\<close>

theorem post_image_exact_witness:
  "reconstructPostImage (file_text [''a'', ''b''])
     \<lparr>df_oldPath = None, df_newPath = None, df_isNew = False, df_isDeleted = False,
      df_hunks = hunks_of [Edit [(RemLine, ''a''), (AddLine, ''x'')], Same [''b'']] 0 0 3\<rparr> =
   \<lparr>pi_lines = [''x'', ''b''], pi_addedLines = [1]\<rparr>"
  using post_image_exact [of "[Edit [(RemLine, ''a''), (AddLine, ''x'')], Same [''b'']]"
      "\<lparr>df_oldPath = None, df_newPath = None, df_isNew = False, df_isDeleted = False,
        df_hunks = hunks_of [Edit [(RemLine, ''a''), (AddLine, ''x'')], Same [''b'']] 0 0 3\<rparr>" 3]
  by (simp add: old_lines_def new_lines_def plain_line_def added_numbers_def hunk_of_def Let_def range_start_def map_filter_simps)

theorem zero_context_insertion_misplaced_witness:
  "pi_lines (reconstructPostImage (file_text [''a'', ''b''])
     \<lparr>df_oldPath = None, df_newPath = None, df_isNew = False, df_isDeleted = False,
      df_hunks = [hunk_of [(AddLine, ''x'')] 1 1 3]\<rparr>) = [''x'', ''a'', ''b'']"
  using zero_context_insertion_misplaced [of "[]" "''a''" "[''b'']" "[''x'']"
      "\<lparr>df_oldPath = None, df_newPath = None, df_isNew = False, df_isDeleted = False, df_hunks = [hunk_of [(AddLine, ''x'')] 1 1 3]\<rparr>" 3]
  by (simp add: plain_line_def)

end
