(* ===== verification/Diff_Gate_Repair.thy ===== *)
theory Diff_Gate_Repair
  imports Diff_Gate_Props
begin

text \<open>
  The unified diff of an edit script as a text, what the parser makes of it, and what the mechanical repair does to it: the
  repaired text is the diff of the script whose pure indentation changes are left out.
\<close>

section \<open>Writing a diff\<close>

fun marker :: "diff_kind \<Rightarrow> char" where
  "marker CtxLine = CHR '' ''"
| "marker AddLine = CHR ''+''"
| "marker RemLine = CHR ''-''"

definition hunk_header :: "nat \<Rightarrow> nat \<Rightarrow> nat \<Rightarrow> nat \<Rightarrow> string" where
  "hunk_header a m b n = ''@@ -'' @ show_nat a @ '','' @ show_nat m @ '' +'' @ show_nat b @ '','' @ show_nat n @ '' @@''"

definition hunk_text :: "(diff_kind \<times> string) list \<Rightarrow> nat \<Rightarrow> nat \<Rightarrow> string list" where
  "hunk_text es a b =
     (let m = length (old_lines es); n = length (new_lines es) in
      hunk_header (range_start a m) m (range_start b n) n # map (\<lambda>(k, c). marker k # c) es)"

fun segs_text :: "segment list \<Rightarrow> nat \<Rightarrow> nat \<Rightarrow> string list" where
  "segs_text [] a b = []"
| "segs_text (Same ls # segs) a b = segs_text segs (a + length ls) (b + length ls)"
| "segs_text (Edit es # segs) a b = hunk_text es a b @ segs_text segs (a + length (old_lines es)) (b + length (new_lines es))"

definition file_diff :: "string \<times> segment list \<Rightarrow> string list" where
  "file_diff = (\<lambda>(path, segs).
     [''diff --git a/'' @ path @ '' b/'' @ path, ''--- a/'' @ path, ''+++ b/'' @ path] @ segs_text segs 0 0)"

text \<open>The text ends with an end of line, so its last raw line is empty.\<close>

definition diff_text :: "(string \<times> segment list) list \<Rightarrow> string" where
  "diff_text fs = join_with [LF] (concat (map file_diff fs) @ [[]])"

definition path_ok :: "string \<Rightarrow> bool" where
  "path_ok path \<longleftrightarrow> CHR 0x09 \<notin> set path \<and> LF \<notin> set path \<and> path \<noteq> [] \<and> \<not> js_space (last path)"

definition change_ok :: "string \<times> segment list \<Rightarrow> bool" where
  "change_ok = (\<lambda>(path, segs). path_ok path \<and> (\<forall>es. Edit es \<in> set segs \<longrightarrow> (\<forall>e\<in>set es. plain_line (snd e))))"

section \<open>What the parser reads\<close>

lemma digit_show: "c \<in> set (show_nat n) \<Longrightarrow> is_digit c"
  using show_nat_digits by (simp add: is_digit_def)

lemma read_number_show:
  assumes "rest = [] \<or> \<not> is_digit (hd rest)"
  shows "read_number (show_nat n @ rest) = Some (n, rest)"
proof -
  have t: "takeWhile is_digit (show_nat n @ rest) = show_nat n"
    using assms digit_show by (cases rest) (auto simp: takeWhile_append)
  have d: "dropWhile is_digit (show_nat n @ rest) = rest"
    using assms digit_show by (cases rest) (auto simp: dropWhile_append)
  have "show_nat n \<noteq> []" by (subst show_nat.simps) simp
  then show ?thesis by (simp add: read_number_def t d read_show_nat)
qed

lemma read_range_show:
  assumes "rest = [] \<or> \<not> is_digit (hd rest)"
  shows "read_range (show_nat a @ '','' @ show_nat n @ rest) = Some (a, n, rest)"
proof -
  have "read_number (show_nat a @ '','' @ show_nat n @ rest) = Some (a, '','' @ show_nat n @ rest)"
    by (rule read_number_show) (simp add: is_digit_def)
  then show ?thesis using read_number_show [OF assms, of n] by (simp add: read_range_def)
qed

lemma hunk_header_read: "HUNK_HEADER (hunk_header a m b n) = Some (a, m, b, n)"
proof -
  have 1: "read_range (show_nat a @ '','' @ show_nat m @ '' +'' @ show_nat b @ '','' @ show_nat n @ '' @@'') =
      Some (a, m, '' +'' @ show_nat b @ '','' @ show_nat n @ '' @@'')"
    by (rule read_range_show) (simp add: is_digit_def)
  have 2: "read_range (show_nat b @ '','' @ show_nat n @ '' @@'') = Some (b, n, '' @@'')"
    by (rule read_range_show) (simp add: is_digit_def)
  show ?thesis using 1 2 by (simp add: HUNK_HEADER_def hunk_header_def expect_def)
qed

lemma body_line:
  "classifyHunkBodyLine (marker k # c) a b i =
     \<lparr>dl_kind = k, dl_content = c, dl_oldLine = (if k = AddLine then None else Some a),
      dl_newLine = (if k = RemLine then None else Some b), dl_rawIndex = i\<rparr>"
  by (cases k) (simp_all add: classifyHunkBodyLine_def)

lemmas body_lines = body_line [of CtxLine, simplified] body_line [of AddLine, simplified] body_line [of RemLine, simplified]

lemma marked_line: "\<not> starts_with ''diff --git '' (marker k # c)" "\<not> starts_with ''@@'' (marker k # c)"
    "\<not> starts_with [CHR 0x5C, CHR '' ''] (marker k # c)"
  by (cases k; simp)+

lemma parse_body_script:
  "parse_body (map (\<lambda>(k, c). marker k # c) es @ rest) i a b (length (old_lines es)) (length (new_lines es)) =
     (number_lines es a b i, rest, i + length es)"
proof (induction es a b i rule: number_lines.induct)
  case (1 a b i)
  then show ?case by (cases rest) (simp_all add: old_lines_def new_lines_def)
next
  case (2 k c es a b i)
  then show ?case by (cases k) (simp_all add: body_lines Let_def old_lines_def new_lines_def)
qed

lemma parseHunk_script:
  "parseHunk (hd (hunk_text es a b)) (tl (hunk_text es a b) @ rest) i = Inr (hunk_of es a b i, rest, i + 1 + length es)"
  by (simp add: parseHunk_def hunk_text_def Let_def hunk_header_read parse_body_script hunk_of_def)

lemma length_hunk_text: "length (hunk_text es a b) = 1 + length es"
  by (simp add: hunk_text_def Let_def)

lemma hunk_text_Cons: "hunk_text es a b = hd (hunk_text es a b) # tl (hunk_text es a b)"
  by (simp add: hunk_text_def Let_def)

lemma hunk_text_starts: "starts_with ''@@'' (hd (hunk_text es a b))"
  by (simp add: hunk_text_def Let_def hunk_header_def)

lemma parse_hunks_script:
  assumes "rest = [] \<or> \<not> starts_with ''@@'' (hd rest)"
  shows "parse_hunks (segs_text segs a b @ rest) i = Inr (hunks_of segs a b i, rest, i + length (segs_text segs a b))"
proof (induction segs a b i rule: hunks_of.induct)
  case (1 a b i)
  then show ?case using assms by (cases rest) simp_all
next
  case (3 es segs a b i)
  let ?more = "segs_text segs (a + length (old_lines es)) (b + length (new_lines es))"
  have "parse_hunks (hd (hunk_text es a b) # tl (hunk_text es a b) @ ?more @ rest) i =
      Inr (hunk_of es a b i # hunks_of segs (a + length (old_lines es)) (b + length (new_lines es)) (i + 1 + length es), rest,
        i + 1 + length es + length ?more)"
    using 3 by (simp add: hunk_text_starts parseHunk_script)
  then show ?case using hunk_text_Cons [of es a b] by (simp add: length_hunk_text flip: append_Cons append_assoc)
qed simp

text \<open>What the parser returns of the diff of several files, the first raw line of which has the index \<open>i\<close>.\<close>

fun parsed_files :: "(string \<times> segment list) list \<Rightarrow> nat \<Rightarrow> diff_file list" where
  "parsed_files [] i = []"
| "parsed_files ((path, segs) # fs) i =
     (let more = parsed_files fs (i + length (file_diff (path, segs))) in
      if hunks_of segs 0 0 (i + 3) = [] then more
      else \<lparr>df_oldPath = Some path, df_newPath = Some path, df_isNew = False, df_isDeleted = False,
             df_hunks = hunks_of segs 0 0 (i + 3)\<rparr> # more)"

lemma path_read:
  assumes "path_ok path" and "p = ''a/'' \<or> p = ''b/''" and "length m = 4"
  shows "pathFromHeaderLine (m @ p @ path) = Some path"
proof -
  have tab: "takeWhile (\<lambda>c. c \<noteq> CHR 0x09) (p @ path) = p @ path"
    using assms(1,2) by (subst takeWhile_eq_all_conv) (auto simp: path_ok_def)
  obtain q c where c: "path = q @ [c]" "\<not> js_space c" using assms(1) by (auto simp: path_ok_def intro: that [of "butlast path" "last path"])
  have trim: "js_trim (p @ path) = p @ path"
  proof -
    have "\<not> js_space CHR ''a''" "\<not> js_space CHR ''b''" by (simp_all add: js_space_def)
    then have "dropWhile js_space (p @ path) = p @ path" using assms(2) by auto
    then show ?thesis using c(2) by (simp add: js_trim_def c(1))
  qed
  have d: "drop 4 (m @ p @ path) = p @ path" using assms(3) by simp
  have strip: "stripPrefix (p @ path) = path" using assms(2) by (auto simp: stripPrefix_def)
  have "p @ path \<noteq> ''/dev/null''" using assms(2) by auto
  then show ?thesis by (simp only: pathFromHeaderLine_def d tab trim strip Let_def if_False)
qed

lemma parse_header_script:
  assumes "path_ok path"
  shows "parseFileHeader ([''--- a/'' @ path, ''+++ b/'' @ path] @ rest) i no_header =
    (\<lparr>fh_isNew = False, fh_isDeleted = False, fh_oldPath = Some path, fh_newPath = Some path\<rparr>, rest, i + 2)"
  using path_read [OF assms, of "''a/''" "''--- ''"] path_read [OF assms, of "''b/''" "''+++ ''"]
  by (simp add: header_line_def no_header_def)

lemma file_diff_length: "length (file_diff (path, segs)) = 3 + length (segs_text segs 0 0)"
  by (simp add: file_diff_def)

lemma parse_one_file:
  assumes "path_ok path"
  shows "parse_files (file_diff (path, segs) @ rest) i =
    (case parse_hunks (segs_text segs 0 0 @ rest) (i + 3) of
       Inl e \<Rightarrow> Inl e
     | Inr (hunks, rest2, k) \<Rightarrow>
         (case parse_files rest2 k of
            Inl e \<Rightarrow> Inl e
          | Inr files \<Rightarrow> Inr (if hunks = [] then files
              else \<lparr>df_oldPath = Some path, df_newPath = Some path, df_isNew = False, df_isDeleted = False, df_hunks = hunks\<rparr> # files)))"
proof -
  let ?first = "''diff --git a/'' @ path @ '' b/'' @ path"
  let ?h = "\<lparr>fh_isNew = False, fh_isDeleted = False, fh_oldPath = Some path, fh_newPath = Some path\<rparr>"
  have lines: "file_diff (path, segs) @ rest = ?first # ([''--- a/'' @ path, ''+++ b/'' @ path] @ segs_text segs 0 0 @ rest)"
    by (simp add: file_diff_def)
  have first: "starts_with ''diff --git '' ?first" by simp
  have header: "parseFileHeader ([''--- a/'' @ path, ''+++ b/'' @ path] @ segs_text segs 0 0 @ rest) (i + 1) no_header =
      (?h, segs_text segs 0 0 @ rest, i + 3)"
    using parse_header_script [OF assms, of "segs_text segs 0 0 @ rest" "i + 1"] by (simp del: parseFileHeader.simps)
  show ?thesis
    unfolding lines
    by (subst parse_files.simps) (simp only: first header prod.case file_header.simps not_True_eq_False if_False simp_thms if_cancel
      cong: sum.case_cong, simp split: sum.split prod.split)
qed

lemma parse_files_script:
  "\<forall>f\<in>set fs. change_ok f \<Longrightarrow> parse_files (concat (map file_diff fs) @ [[]]) i = Inr (parsed_files fs i)"
proof (induction fs i rule: parsed_files.induct)
  case (2 path segs fs i)
  define rest where "rest = concat (map file_diff fs) @ [[]]"
  have rest: "rest = [] \<or> \<not> starts_with ''@@'' (hd rest)" by (cases fs) (auto simp: rest_def file_diff_def)
  have ok: "path_ok path" using 2(2) by (simp add: change_ok_def)
  have IH: "parse_files rest (i + length (file_diff (path, segs))) = Inr (parsed_files fs (i + length (file_diff (path, segs))))"
    using 2 by (simp add: rest_def)
  have hunks: "parse_hunks (segs_text segs 0 0 @ rest) (i + 3) =
      Inr (hunks_of segs 0 0 (i + 3), rest, i + length (file_diff (path, segs)))"
    using parse_hunks_script [OF rest, of segs 0 0 "i + 3"] by (simp add: file_diff_length add.assoc)
  have "parse_files (file_diff (path, segs) @ rest) i = Inr (parsed_files ((path, segs) # fs) i)"
    unfolding parse_one_file [OF ok] hunks by (simp add: IH Let_def)
  then show ?case by (simp add: rest_def)
qed simp

lemma show_nat_plain: "LF \<notin> set (show_nat n)" "CR \<notin> set (show_nat n)"
  using digit_show [of LF n] digit_show [of CR n] by (auto simp: is_digit_def)

lemma hunk_header_plain: "plain_line (hunk_header a m b n)"
  using show_nat_plain by (simp add: plain_line_def hunk_header_def)

lemma file_diff_plain:
  assumes "change_ok f"
  shows "\<forall>l\<in>set (file_diff f). plain_line l"
proof -
  obtain path segs where f: "f = (path, segs)" by fastforce
  have path: "path_ok path" using assms by (simp add: f change_ok_def)
  then have "last path \<noteq> CR" by (auto simp: path_ok_def js_space_def)
  then have p: "plain_line (x @ path)" if "LF \<notin> set x" for x using path that by (simp add: path_ok_def plain_line_def)
  have "\<forall>l\<in>set (segs_text segs a b). plain_line l" if "\<forall>es. Edit es \<in> set segs \<longrightarrow> (\<forall>e\<in>set es. plain_line (snd e))" for a b
    using that
  proof (induction segs a b rule: segs_text.induct)
    case (3 es segs a b)
    have "plain_line (marker k # c)" if "plain_line c" for k c using that by (cases k) (auto simp: plain_line_def)
    then have "\<forall>e\<in>set es. plain_line (marker (fst e) # snd e)" using 3(2) by simp
    then have "\<forall>l\<in>set (hunk_text es a b). plain_line l"
      by (auto simp: hunk_text_def Let_def hunk_header_plain)
    then show ?case using 3 by auto
  qed simp_all
  then show ?thesis using assms p [of "''diff --git a/'' @ path @ '' b/''"] p [of "''--- a/''"] p [of "''+++ b/''"] path
    by (auto simp: f file_diff_def change_ok_def path_ok_def)
qed

lemma diff_text_lines:
  assumes "\<forall>f\<in>set fs. change_ok f"
  shows "unix_eol (diff_text fs) = diff_text fs" and "split_lf (diff_text fs) = concat (map file_diff fs) @ [[]]"
proof -
  have plain: "\<forall>l\<in>set (concat (map file_diff fs) @ [[]]). plain_line l"
    using assms file_diff_plain by (auto simp: plain_line_def [of "[]"])
  then show "unix_eol (diff_text fs) = diff_text fs" unfolding diff_text_def by (rule unix_eol_join)
  show "split_lf (diff_text fs) = concat (map file_diff fs) @ [[]]"
    unfolding diff_text_def by (rule split_lf_join) (use plain in \<open>auto simp: plain_line_def\<close>)
qed

lemma parse_diff_text: "\<forall>f\<in>set fs. change_ok f \<Longrightarrow> parseUnifiedDiff (diff_text fs) = Inr (parsed_files fs 0)"
  by (simp add: parseUnifiedDiff_def diff_text_lines parse_files_script)

section \<open>Pure indentation changes\<close>

text \<open>The pairing looks at kinds and contents only.\<close>

definition erase :: "diff_line \<Rightarrow> diff_line" where
  "erase l = l\<lparr>dl_oldLine := None, dl_newLine := None, dl_rawIndex := 0\<rparr>"

lemma erase_simps [simp]: "dl_kind (erase l) = dl_kind l" "dl_content (erase l) = dl_content l" "dl_newLine (erase l) = None"
  by (simp_all add: erase_def)

lemma pairedRuns_erase: "pairedRuns (map erase ls) = map (\<lambda>p. p\<lparr>lp_newLine := None\<rparr>) (pairedRuns ls)"
proof (induction ls rule: pairedRuns.induct)
  case (2 l ls)
  show ?case
  proof (cases "dl_kind l = RemLine")
    case True
    note IH = "2.IH"(2) [OF _ refl refl refl refl]
    show ?thesis using IH True
      by (simp add: Let_def takeWhile_map dropWhile_map comp_def zip_map1 zip_map2 split_beta zip_Cons1 split: list.split)
  qed (use 2 in simp)
qed simp

lemma erase_number_lines: "map erase (number_lines es a b i) = map erase (number_lines es 0 0 0)"
proof -
  have "map erase (number_lines es a b i) =
      map (\<lambda>(k, c). \<lparr>dl_kind = k, dl_content = c, dl_oldLine = None, dl_newLine = None, dl_rawIndex = 0\<rparr>) es" for a b i
    by (induction es a b i rule: number_lines.induct) (simp_all add: erase_def)
  then show ?thesis by metis
qed

definition churn_pairs :: "(diff_kind \<times> string) list \<Rightarrow> (string \<times> string) list" where
  "churn_pairs es = map (\<lambda>p. (lp_removed p, lp_added p)) (pairedRuns (number_lines es 0 0 0))"

lemma pairs_of_hunk: "map (\<lambda>p. (lp_removed p, lp_added p)) (pairedRemoveAddRuns (hunk_of es a b i)) = churn_pairs es"
proof -
  have "map (\<lambda>p. (lp_removed p, lp_added p)) (pairedRuns (number_lines es a b i)) = churn_pairs es" for a b i
  proof -
    have "map (\<lambda>p. (lp_removed p, lp_added p)) (pairedRuns ls) =
        map (\<lambda>p. (lp_removed p, lp_added p)) (pairedRuns (map erase ls))" for ls
      by (simp add: pairedRuns_erase comp_def)
    then show ?thesis by (metis churn_pairs_def erase_number_lines)
  qed
  then show ?thesis by (simp add: pairedRemoveAddRuns_def hunk_of_def Let_def)
qed

text \<open>A changed segment that the gate takes for pure indentation churn.\<close>

definition pure_churn :: "(diff_kind \<times> string) list \<Rightarrow> bool" where
  "pure_churn es \<longleftrightarrow> churn_pairs es \<noteq> [] \<and>
     length (churn_pairs es) = length (filter (\<lambda>e. fst e = RemLine) es) \<and>
     length (churn_pairs es) = length (filter (\<lambda>e. fst e = AddLine) es) \<and>
     list_all (\<lambda>(r, a). isWhitespaceOnlyChange r a) (churn_pairs es)"

lemma kinds_number_lines: "length (filter (\<lambda>l. dl_kind l = k) (number_lines es a b i)) = length (filter (\<lambda>e. fst e = k) es)"
proof -
  have "map dl_kind (number_lines es a b i) = map fst es" by (induction es a b i rule: number_lines.induct) auto
  then have "length (filter (\<lambda>x. x = k) (map dl_kind (number_lines es a b i))) = length (filter (\<lambda>x. x = k) (map fst es))" by (rule arg_cong)
  then show ?thesis by (simp add: filter_map comp_def)
qed

lemma pure_churn_hunk: "isPureIndentationChurnHunk (hunk_of es a b i) = pure_churn es"
proof -
  note p = pairs_of_hunk [of es a b i]
  have "pairedRemoveAddRuns (hunk_of es a b i) = [] \<longleftrightarrow> churn_pairs es = []" by (simp flip: p)
  moreover have "length (pairedRemoveAddRuns (hunk_of es a b i)) = length (churn_pairs es)" by (simp flip: p)
  moreover have "list_all (\<lambda>q. isWhitespaceOnlyChange (lp_removed q) (lp_added q)) (pairedRemoveAddRuns (hunk_of es a b i)) =
      list_all (\<lambda>(r, a). isWhitespaceOnlyChange r a) (churn_pairs es)"
    by (simp add: list.pred_map comp_def flip: p)
  moreover have "totalOfKind (hunk_of es a b i) k = length (filter (\<lambda>e. fst e = k) es)" for k
    by (simp add: totalOfKind_def hunk_of_def Let_def kinds_number_lines)
  ultimately show ?thesis unfolding isPureIndentationChurnHunk_def pure_churn_def Let_def by auto
qed

definition kept_old :: "diff_line list \<Rightarrow> string list" where
  "kept_old ls = map dl_content (filter (\<lambda>l. dl_kind l \<noteq> AddLine) ls)"

definition kept_new :: "diff_line list \<Rightarrow> string list" where
  "kept_new ls = map dl_content (filter (\<lambda>l. dl_kind l \<noteq> RemLine) ls)"

definition count_kind :: "diff_kind \<Rightarrow> diff_line list \<Rightarrow> nat" where
  "count_kind k ls = length (filter (\<lambda>l. dl_kind l = k) ls)"

definition all_churn :: "line_pair list \<Rightarrow> bool" where
  "all_churn ps \<longleftrightarrow> list_all (\<lambda>p. isWhitespaceOnlyChange (lp_removed p) (lp_added p)) ps"

lemma churn_zip:
  assumes "length rs = length as"
    and "all_churn (map2 (\<lambda>r a. \<lparr>lp_removed = dl_content r, lp_added = dl_content a, lp_newLine = dl_newLine a\<rparr>) rs as)"
  shows "map (\<lambda>l. trimStart (dl_content l)) rs = map (\<lambda>l. trimStart (dl_content l)) as"
  using assms by (induction rs as rule: list_induct2) (auto simp: all_churn_def isWhitespaceOnlyChange_def)

lemma runs_Rem:
  assumes "\<forall>l\<in>set rs. dl_kind l = RemLine" and "\<forall>l\<in>set as. dl_kind l = AddLine"
  shows "count_kind RemLine (rs @ as @ ls) = length rs + count_kind RemLine ls"
    and "count_kind AddLine (rs @ as @ ls) = length as + count_kind AddLine ls"
    and "kept_old (rs @ as @ ls) = map dl_content rs @ kept_old ls"
    and "kept_new (rs @ as @ ls) = map dl_content as @ kept_new ls"
proof -
  have r: "filter (\<lambda>l. dl_kind l = RemLine) rs = rs" "filter (\<lambda>l. dl_kind l = AddLine) rs = []" "filter (\<lambda>l. dl_kind l \<noteq> AddLine) rs = rs"
      "filter (\<lambda>l. dl_kind l \<noteq> RemLine) rs = []"
    using assms(1) by (auto simp: filter_id_conv filter_empty_conv)
  have a: "filter (\<lambda>l. dl_kind l = AddLine) as = as" "filter (\<lambda>l. dl_kind l = RemLine) as = []" "filter (\<lambda>l. dl_kind l \<noteq> RemLine) as = as"
      "filter (\<lambda>l. dl_kind l \<noteq> AddLine) as = []"
    using assms(2) by (auto simp: filter_id_conv filter_empty_conv)
  show "count_kind RemLine (rs @ as @ ls) = length rs + count_kind RemLine ls"
    "count_kind AddLine (rs @ as @ ls) = length as + count_kind AddLine ls"
    "kept_old (rs @ as @ ls) = map dl_content rs @ kept_old ls"
    "kept_new (rs @ as @ ls) = map dl_content as @ kept_new ls"
    by (simp_all add: count_kind_def kept_old_def kept_new_def r a)
qed

text \<open>One run: the lines removed, the lines added right after them, and the rest.\<close>

lemma run_cases:
  assumes "dl_kind l = RemLine"
  obtains rs as rest where "l # ls = rs @ as @ rest" and "rs \<noteq> []" and "\<forall>l\<in>set rs. dl_kind l = RemLine"
    and "\<forall>l\<in>set as. dl_kind l = AddLine"
    and "pairedRuns (l # ls) = (if length rs = length as
      then map2 (\<lambda>r a. \<lparr>lp_removed = dl_content r, lp_added = dl_content a, lp_newLine = dl_newLine a\<rparr>) rs as else []) @ pairedRuns rest"
    and "length rest \<le> length ls"
proof -
  let ?rs = "l # takeWhile (\<lambda>x. dl_kind x = RemLine) ls" and ?after = "dropWhile (\<lambda>x. dl_kind x = RemLine) ls"
  let ?as = "takeWhile (\<lambda>x. dl_kind x = AddLine) ?after" and ?rest = "dropWhile (\<lambda>x. dl_kind x = AddLine) ?after"
  show ?thesis
  proof (rule that [of ?rs ?as ?rest])
    show "\<forall>l\<in>set ?rs. dl_kind l = RemLine" "\<forall>l\<in>set ?as. dl_kind l = AddLine" using assms by (auto dest: set_takeWhileD)
    show "length ?rest \<le> length ls" by (metis length_dropWhile_le order_trans)
    show "pairedRuns (l # ls) = (if length ?rs = length ?as
      then map2 (\<lambda>r a. \<lparr>lp_removed = dl_content r, lp_added = dl_content a, lp_newLine = dl_newLine a\<rparr>) ?rs ?as else []) @ pairedRuns ?rest"
      using assms by (simp add: Let_def)
  qed simp_all
qed

lemma pairedRuns_churn:
  "length (pairedRuns ls) \<le> count_kind RemLine ls \<and> length (pairedRuns ls) \<le> count_kind AddLine ls \<and>
   (length (pairedRuns ls) = count_kind RemLine ls \<and> length (pairedRuns ls) = count_kind AddLine ls \<and> all_churn (pairedRuns ls) \<longrightarrow>
      map trimStart (kept_old ls) = map trimStart (kept_new ls))"
proof (induction ls rule: length_induct)
  case (1 ls)
  show ?case
  proof (cases ls)
    case (Cons l ls')
    show ?thesis
    proof (cases "dl_kind l = RemLine")
      case True
      obtain rs as rest where run: "l # ls' = rs @ as @ rest" "rs \<noteq> []" "\<forall>l\<in>set rs. dl_kind l = RemLine" "\<forall>l\<in>set as. dl_kind l = AddLine"
        "pairedRuns (l # ls') = (if length rs = length as
          then map2 (\<lambda>r a. \<lparr>lp_removed = dl_content r, lp_added = dl_content a, lp_newLine = dl_newLine a\<rparr>) rs as else []) @ pairedRuns rest"
        "length rest \<le> length ls'"
        by (rule run_cases [OF True, of ls'])
      note counts = runs_Rem [OF run(3,4), of rest, folded run(1)]
      have IH: "length (pairedRuns rest) \<le> count_kind RemLine rest" "length (pairedRuns rest) \<le> count_kind AddLine rest"
        "length (pairedRuns rest) = count_kind RemLine rest \<and> length (pairedRuns rest) = count_kind AddLine rest \<and> all_churn (pairedRuns rest) \<Longrightarrow>
          map trimStart (kept_old rest) = map trimStart (kept_new rest)"
        using 1 run(6) by (auto simp: Cons)
      show ?thesis
      proof (cases "length rs = length as")
        case same: True
        have "map trimStart (kept_old (l # ls')) = map trimStart (kept_new (l # ls'))"
          if "length (pairedRuns (l # ls')) = count_kind RemLine (l # ls')" "length (pairedRuns (l # ls')) = count_kind AddLine (l # ls')"
            "all_churn (pairedRuns (l # ls'))"
        proof -
          have "map trimStart (kept_old rest) = map trimStart (kept_new rest)"
            by (rule IH(3)) (use that counts run(5) same in \<open>simp add: all_churn_def\<close>)
          moreover have "map (\<lambda>l. trimStart (dl_content l)) rs = map (\<lambda>l. trimStart (dl_content l)) as"
            by (rule churn_zip [OF same]) (use that(3) run(5) same in \<open>simp add: all_churn_def\<close>)
          ultimately show ?thesis using counts by (simp add: comp_def)
        qed
        then show ?thesis using IH(1,2) counts run(5) same by (simp add: Cons)
      next
        case False
        then have "length (pairedRuns (l # ls')) = length (pairedRuns rest)" using run(5) by simp
        then show ?thesis using IH(1,2) counts(1,2) run(2) by (auto simp: Cons)
      qed
    next
      case False
      have IH: "length (pairedRuns ls') \<le> count_kind RemLine ls'" "length (pairedRuns ls') \<le> count_kind AddLine ls'"
        "length (pairedRuns ls') = count_kind RemLine ls' \<and> length (pairedRuns ls') = count_kind AddLine ls' \<and> all_churn (pairedRuns ls') \<Longrightarrow>
          map trimStart (kept_old ls') = map trimStart (kept_new ls')"
        using 1 by (auto simp: Cons)
      then show ?thesis using False
        by (cases "dl_kind l") (auto simp: Cons count_kind_def kept_old_def kept_new_def)
    qed
  qed (simp add: count_kind_def kept_old_def kept_new_def)
qed

lemma churn_trims:
  assumes "isPureIndentationChurnHunk h"
  shows "map trimStart (kept_old (dh_lines h)) = map trimStart (kept_new (dh_lines h))"
  using pairedRuns_churn [of "dh_lines h"] assms
  by (simp add: isPureIndentationChurnHunk_def pairedRemoveAddRuns_def totalOfKind_def count_kind_def all_churn_def Let_def split: if_splits)

lemma view_number_lines: "map (\<lambda>l. (dl_kind l, dl_content l)) (number_lines es a b i) = es"
  by (induction es a b i rule: number_lines.induct) auto

lemma kept_view:
  "kept_old ls = old_lines (map (\<lambda>l. (dl_kind l, dl_content l)) ls)" "kept_new ls = new_lines (map (\<lambda>l. (dl_kind l, dl_content l)) ls)"
  by (simp_all add: kept_old_def kept_new_def old_lines_def new_lines_def filter_map comp_def)

lemma kept_number_lines: "kept_old (number_lines es a b i) = old_lines es" "kept_new (number_lines es a b i) = new_lines es"
  by (simp_all add: kept_view view_number_lines)

lemma pure_churn_trims: "pure_churn es \<Longrightarrow> map trimStart (old_lines es) = map trimStart (new_lines es)"
  using churn_trims [of "hunk_of es 0 0 0"] by (simp add: pure_churn_hunk) (simp add: hunk_of_def Let_def kept_number_lines)

section \<open>The mechanical repair\<close>

text \<open>The script without its churn: a changed segment that is pure churn stays as it was.\<close>

fun without_churn :: "segment \<Rightarrow> segment" where
  "without_churn (Same ls) = Same ls"
| "without_churn (Edit es) = (if pure_churn es then Same (old_lines es) else Edit es)"

fun is_churn :: "segment \<Rightarrow> bool" where
  "is_churn (Same ls) = False"
| "is_churn (Edit es) = pure_churn es"

definition repaired :: "string \<times> segment list \<Rightarrow> string \<times> segment list" where
  "repaired = (\<lambda>(path, segs). (path, map without_churn segs))"

lemma pure_churn_balanced: "pure_churn es \<Longrightarrow> length (new_lines es) = length (old_lines es)"
  by (metis length_map pure_churn_trims)

text \<open>The raw lines that stay when those with an index in \<open>d\<close> go, the first having the index \<open>i\<close>.\<close>

fun keep_lines :: "nat set \<Rightarrow> nat \<Rightarrow> string list \<Rightarrow> string list" where
  "keep_lines d i [] = []"
| "keep_lines d i (l # ls) = (if i \<in> d then [] else [l]) @ keep_lines d (i + 1) ls"

lemma repaired_lines_keep: "repaired_lines d [] ls = keep_lines d 0 ls"
proof -
  have "concat (map (\<lambda>k. if k \<in> d then [] else [xs ! (k - i)]) [i..<i + length xs]) = keep_lines d i xs" for i xs
  proof (induction xs arbitrary: i)
    case (Cons x xs)
    have "map (\<lambda>k. if k \<in> d then [] else [(x # xs) ! (k - i)]) [Suc i..<Suc i + length xs] =
        map (\<lambda>k. if k \<in> d then [] else [xs ! (k - Suc i)]) [Suc i..<Suc i + length xs]"
      by (rule map_cong [OF refl]) (auto simp: nth_Cons' diff_Suc split: nat.split)
    then have "concat (map (\<lambda>k. if k \<in> d then [] else [(x # xs) ! (k - i)]) [Suc i..<Suc i + length xs]) = keep_lines d (Suc i) xs"
      by (simp only: Cons.IH)
    then show ?case by (simp add: upt_conv_Cons del: upt_Suc)
  qed simp
  from this [where i = 0 and xs = ls] show ?thesis by (simp add: repaired_lines_def cong: if_cong)
qed

lemma keep_lines_append: "keep_lines d i (xs @ ys) = keep_lines d i xs @ keep_lines d (i + length xs) ys"
  by (induction xs arbitrary: i) simp_all

lemma keep_lines_none: "d \<inter> {i..<i + length xs} = {} \<Longrightarrow> keep_lines d i xs = xs"
proof (induction xs arbitrary: i)
  case (Cons x xs)
  have "d \<inter> {i + 1..<i + 1 + length xs} = {}" "i \<notin> d" using Cons.prems by auto
  then show ?case using Cons.IH [of "i + 1"] by simp
qed simp

lemma keep_lines_all: "{i..<i + length xs} \<subseteq> d \<Longrightarrow> keep_lines d i xs = []"
proof (induction xs arbitrary: i)
  case (Cons x xs)
  have "{i + 1..<i + 1 + length xs} \<subseteq> d" "i \<in> d" using Cons.prems by auto
  then show ?case using Cons.IH [of "i + 1"] by simp
qed simp

lemma keep_lines_cong: "(\<And>k. i \<le> k \<Longrightarrow> k \<in> d \<longleftrightarrow> k \<in> d') \<Longrightarrow> keep_lines d i xs = keep_lines d' i xs"
  by (induction xs arbitrary: i) simp_all

lemma keep_lines_below: "i + length xs \<le> j \<Longrightarrow> keep_lines d i xs = keep_lines (d \<inter> {..<j}) i xs"
  by (induction xs arbitrary: i) simp_all

definition hunk_lines :: "diff_hunk list \<Rightarrow> nat set" where
  "hunk_lines hs = (\<Union>h\<in>set (filter isPureIndentationChurnHunk hs). {dh_headerRawIndex h..<dh_endRawIndex h})"

lemma hunk_lines_simps:
  "hunk_lines [] = {}"
  "hunk_lines (hunk_of es a b i # hs) = (if pure_churn es then {i..<i + 1 + length es} else {}) \<union> hunk_lines hs"
  "hunk_lines (xs @ hs) = hunk_lines xs \<union> hunk_lines hs"
  by (simp_all add: hunk_lines_def pure_churn_hunk) (simp_all add: hunk_of_def Let_def)

lemma hunk_lines_range: "hunk_lines (hunks_of segs a b i) \<subseteq> {i..<i + length (segs_text segs a b)}"
proof (induction segs a b i rule: hunks_of.induct)
  case (3 es segs a b i)
  then have "hunk_lines (hunks_of segs (a + length (old_lines es)) (b + length (new_lines es)) (i + 1 + length es))
      \<subseteq> {i..<i + length (segs_text (Edit es # segs) a b)}"
    by (rule order_trans) (simp add: length_hunk_text)
  then show ?case by (auto simp: hunk_lines_simps length_hunk_text)
qed (simp_all add: hunk_lines_simps)

lemma keep_segs: "keep_lines (hunk_lines (hunks_of segs a b i)) i (segs_text segs a b) = segs_text (map without_churn segs) a b"
proof (induction segs a b i rule: hunks_of.induct)
  case (3 es segs a b i)
  let ?d = "hunk_lines (hunks_of (Edit es # segs) a b i)"
  let ?a = "a + length (old_lines es)" and ?b = "b + length (new_lines es)" and ?i = "i + 1 + length es"
  have more: "hunk_lines (hunks_of segs ?a ?b ?i) \<inter> {i..<?i} = {}" using hunk_lines_range [of segs ?a ?b ?i] by auto
  have "keep_lines ?d ?i (segs_text segs ?a ?b) = segs_text (map without_churn segs) ?a ?b"
    using 3 by (subst keep_lines_cong [of _ _ "hunk_lines (hunks_of segs ?a ?b ?i)"]) (auto simp: hunk_lines_simps)
  moreover have "keep_lines ?d i (hunk_text es a b) = (if pure_churn es then [] else hunk_text es a b)"
  proof (cases "pure_churn es")
    case True
    then show ?thesis by (simp add: keep_lines_all hunk_lines_simps length_hunk_text)
  next
    case False
    then show ?thesis using more by (simp add: keep_lines_none hunk_lines_simps length_hunk_text)
  qed
  ultimately show ?case
    by (simp add: keep_lines_append length_hunk_text pure_churn_balanced add.assoc)
qed (simp_all add: hunk_lines_simps)

lemma dropped_hunk_lines: "dropped_lines files = hunk_lines (concat (map df_hunks files))"
  by (simp add: dropped_lines_def churn_hunks_def hunk_lines_def)

lemma parsed_hunks:
  "concat (map df_hunks (parsed_files ((path, segs) # fs) i)) =
     hunks_of segs 0 0 (i + 3) @ concat (map df_hunks (parsed_files fs (i + length (file_diff (path, segs)))))"
  by (simp add: Let_def)

lemma parsed_lines_range: "hunk_lines (concat (map df_hunks (parsed_files fs i))) \<subseteq> {i..}"
proof (induction fs i rule: parsed_files.induct)
  case (2 path segs fs i)
  then have "hunk_lines (concat (map df_hunks (parsed_files fs (i + length (file_diff (path, segs)))))) \<subseteq> {i..}"
    by (rule order_trans) simp
  then show ?case unfolding parsed_hunks using hunk_lines_range [of segs 0 0 "i + 3"] by (fastforce simp: hunk_lines_simps)
qed (simp add: hunk_lines_simps)

lemma keep_files:
  "keep_lines (hunk_lines (concat (map df_hunks (parsed_files fs i)))) i (concat (map file_diff fs) @ [[]]) =
     concat (map file_diff (map repaired fs)) @ [[]]"
proof (induction fs i rule: parsed_files.induct)
  case (1 i)
  then show ?case by (simp add: hunk_lines_simps)
next
  case (2 path segs fs i)
  let ?d = "hunk_lines (concat (map df_hunks (parsed_files ((path, segs) # fs) i)))"
  let ?j = "i + length (file_diff (path, segs))"
  let ?head = "[''diff --git a/'' @ path @ '' b/'' @ path, ''--- a/'' @ path, ''+++ b/'' @ path]"
  have d: "?d = hunk_lines (hunks_of segs 0 0 (i + 3)) \<union> hunk_lines (concat (map df_hunks (parsed_files fs ?j)))"
    unfolding parsed_hunks by (simp add: hunk_lines_simps)
  have here: "hunk_lines (hunks_of segs 0 0 (i + 3)) \<subseteq> {i + 3..<?j}"
    using hunk_lines_range [of segs 0 0 "i + 3"] by (simp add: file_diff_length add.assoc)
  have there: "hunk_lines (concat (map df_hunks (parsed_files fs ?j))) \<subseteq> {?j..}" by (rule parsed_lines_range)
  have j: "i + 3 \<le> ?j" by (simp add: file_diff_length)
  have "keep_lines ?d i ?head = ?head"
    by (rule keep_lines_none) (use here there j d in auto)
  moreover have "keep_lines ?d (i + 3) (segs_text segs 0 0) = segs_text (map without_churn segs) 0 0"
  proof -
    have "keep_lines ?d (i + 3) (segs_text segs 0 0) = keep_lines (?d \<inter> {..<?j}) (i + 3) (segs_text segs 0 0)"
      by (rule keep_lines_below) (simp add: file_diff_length)
    moreover have "?d \<inter> {..<?j} = hunk_lines (hunks_of segs 0 0 (i + 3))" using here there d by auto
    ultimately show ?thesis by (simp add: keep_segs)
  qed
  moreover have "keep_lines ?d ?j (concat (map file_diff fs) @ [[]]) = concat (map file_diff (map repaired fs)) @ [[]]"
  proof -
    have "k \<in> ?d \<longleftrightarrow> k \<in> hunk_lines (concat (map df_hunks (parsed_files fs ?j)))" if "?j \<le> k" for k using here that d by auto
    then have "keep_lines ?d ?j xs = keep_lines (hunk_lines (concat (map df_hunks (parsed_files fs ?j)))) ?j xs" for xs
      by (rule keep_lines_cong)
    then show ?thesis by (simp only: 2)
  qed
  ultimately have "keep_lines ?d i (?head @ segs_text segs 0 0 @ concat (map file_diff fs) @ [[]]) =
      ?head @ segs_text (map without_churn segs) 0 0 @ concat (map file_diff (map repaired fs)) @ [[]]"
    unfolding keep_lines_append by (simp add: file_diff_length numeral_3_eq_3)
  then show ?case by (simp add: file_diff_def repaired_def)
qed

lemma count_churn_segs: "length (filter isPureIndentationChurnHunk (hunks_of segs a b i)) = length (filter is_churn segs)"
  by (induction segs a b i rule: hunks_of.induct) (simp_all add: pure_churn_hunk)

lemma count_churn: "length (churn_hunks (parsed_files fs i)) = length (filter is_churn (concat (map snd fs)))"
proof (induction fs i rule: parsed_files.induct)
  case (2 path segs fs i)
  then show ?case unfolding churn_hunks_def parsed_hunks by (simp add: count_churn_segs)
qed (simp add: churn_hunks_def)

lemma without_churn_sides:
  "old_side (without_churn s) = old_side s \<and> map trimStart (new_side (without_churn s)) = map trimStart (new_side s)"
  by (cases s) (simp_all add: pure_churn_trims)

text \<open>C36. The diff of any edit script of any files, as text, parses to exactly the hunks of the script, with their line numbers and the
  indices of their raw lines.\<close>

theorem diff_parses_back:
  assumes "\<forall>f\<in>set fs. change_ok f"
  shows "parseUnifiedDiff (diff_text fs) = Inr (parsed_files fs 0)"
  using assms by (simp add: parseUnifiedDiff_def diff_text_lines parse_files_script)

text \<open>C38. The mechanical repair of the diff of any edit script in which it finds no redundant cast to rewrite (the other thing it repairs) is
  the diff of the script without its pure indentation changes, header for header, with their number; both scripts have the
  same old side, and their new sides differ in leading white space only.\<close>

theorem repair_exact:
  assumes "\<forall>f\<in>set fs. change_ok f" and "findFixableCastEdits (parsed_files fs 0) = []"
  shows "autoRepairDiff findFixableCastEdits (diff_text fs) =
      Inr \<lparr>ar_fixedText = diff_text (map repaired fs), ar_fixedCount = length (filter is_churn (concat (map snd fs)))\<rparr> \<and>
    (\<forall>(path, segs)\<in>set fs. concat (map old_side (map without_churn segs)) = concat (map old_side segs) \<and>
       map trimStart (concat (map new_side (map without_churn segs))) = map trimStart (concat (map new_side segs)))"
proof -
  have sides: "concat (map old_side (map without_churn segs)) = concat (map old_side segs) \<and>
      map trimStart (concat (map new_side (map without_churn segs))) = map trimStart (concat (map new_side segs))" for segs
    by (induction segs) (simp_all add: without_churn_sides)
  have "autoRepairDiff findFixableCastEdits (diff_text fs) =
      Inr \<lparr>ar_fixedText = diff_text (map repaired fs), ar_fixedCount = length (filter is_churn (concat (map snd fs)))\<rparr>"
    using keep_files [of fs 0]
    by (simp add: autoRepairDiff_def Let_def diff_text_lines [OF assms(1)] parse_diff_text [OF assms(1)] assms(2) repaired_lines_keep dropped_hunk_lines
        count_churn) (simp add: diff_text_def)
  then show ?thesis using sides by auto
qed

text \<open>A line in the place of a hunk header that does not have its form is refused, with its text, whatever files and hunks precede it.\<close>

theorem malformed_header_refused:
  assumes "\<forall>f\<in>set fs. change_ok f" and "change_ok (path, segs)" and "plain_line bad" and "starts_with ''@@'' bad" and "HUNK_HEADER bad = None"
  shows "parseUnifiedDiff (join_with [LF] (concat (map file_diff fs) @ file_diff (path, segs) @ [bad])) = Inl (MalformedHunkHeader bad)"
proof -
  let ?ls = "concat (map file_diff fs) @ file_diff (path, segs) @ [bad]"
  have plain: "\<forall>l\<in>set ?ls. plain_line l" using assms(1-3) file_diff_plain by auto
  then have "\<forall>l\<in>set ?ls. LF \<notin> set l" by (simp add: plain_line_def)
  then have raw: "split_lf (unix_eol (join_with [LF] ?ls)) = ?ls" using split_lf_join [of ?ls] unix_eol_join [OF plain] by simp
  have "parse_hunks (segs_text segs a b @ [bad]) i = Inl (MalformedHunkHeader bad)" for a b i
  proof (induction segs a b i rule: hunks_of.induct)
    case (1 a b i)
    then show ?case using assms(4,5) by (simp add: parseHunk_def)
  next
    case (3 es segs a b i)
    then show ?case
      by (subst segs_text.simps, subst hunk_text_Cons) (simp add: hunk_text_starts parseHunk_script)
  qed simp
  then have last: "parse_files (file_diff (path, segs) @ [bad]) i = Inl (MalformedHunkHeader bad)" for i
    using assms(2) by (simp add: parse_one_file change_ok_def)
  have "parse_files (concat (map file_diff fs) @ file_diff (path, segs) @ [bad]) i = Inl (MalformedHunkHeader bad)" for i
    using assms(1)
  proof (induction fs i rule: parsed_files.induct)
    case (2 p ss fs i)
    define rest where "rest = concat (map file_diff fs) @ file_diff (path, segs) @ [bad]"
    have rest: "rest = [] \<or> \<not> starts_with ''@@'' (hd rest)" by (cases fs) (auto simp: file_diff_def rest_def)
    have ok: "path_ok p" using 2(2) by (simp add: change_ok_def)
    have "parse_files rest (i + length (file_diff (p, ss))) = Inl (MalformedHunkHeader bad)" using 2 by (simp add: rest_def)
    then have "parse_files (file_diff (p, ss) @ rest) i = Inl (MalformedHunkHeader bad)"
      unfolding parse_one_file [OF ok] parse_hunks_script [OF rest] by (simp add: file_diff_length add.assoc)
    then show ?case by (simp add: rest_def)
  qed (simp add: last)
  then show ?thesis unfolding parseUnifiedDiff_def raw by blast
qed

section \<open>A marker survives its hunk\<close>

definition NO_NEWLINE :: string where "NO_NEWLINE = CHR 0x5C # '' No newline at end of file''"

text \<open>The line that says that the last line of a hunk has no end of line is not part of the hunk: when the repair drops the last hunk of
  a file, the marker stays and follows whatever is left, the file's header or the hunk before.\<close>

theorem marker_survives_repair:
  assumes "change_ok (path, segs)"
  shows "autoRepairDiff (\<lambda>files. []) (join_with [LF] (file_diff (path, segs) @ [NO_NEWLINE])) =
    Inr \<lparr>ar_fixedText = join_with [LF] (file_diff (repaired (path, segs)) @ [NO_NEWLINE]), ar_fixedCount = length (filter is_churn segs)\<rparr>"
proof -
  let ?ls = "file_diff (path, segs) @ [NO_NEWLINE]"
  let ?files = "parsed_files [(path, segs)] 0"
  have plain: "\<forall>l\<in>set ?ls. plain_line l" using file_diff_plain [OF assms] by (auto simp: plain_line_def NO_NEWLINE_def)
  then have "\<forall>l\<in>set ?ls. LF \<notin> set l" by (simp add: plain_line_def)
  then have raw: "split_lf (join_with [LF] ?ls) = ?ls" "unix_eol (join_with [LF] ?ls) = join_with [LF] ?ls"
    using split_lf_join [of ?ls] unix_eol_join [OF plain] by simp_all
  have "parse_files ?ls 0 = Inr ?files"
    using assms parse_hunks_script [of "[NO_NEWLINE]" segs 0 0 3]
    by (simp add: parse_one_file change_ok_def NO_NEWLINE_def Let_def)
  then have files: "parseUnifiedDiff (join_with [LF] ?ls) = Inr ?files" by (simp add: parseUnifiedDiff_def raw)
  have "length (file_diff (path, segs)) \<notin> hunk_lines (concat (map df_hunks ?files))"
    using hunk_lines_range [of segs 0 0 3] by (auto simp: file_diff_length Let_def hunk_lines_simps)
  then have "keep_lines (hunk_lines (concat (map df_hunks ?files))) 0 ?ls = file_diff (repaired (path, segs)) @ [NO_NEWLINE]"
    using keep_files [of "[(path, segs)]" 0] by (simp add: keep_lines_append del: parsed_files.simps split: if_splits)
  then show ?thesis using count_churn [of "[(path, segs)]" 0]
    by (simp add: autoRepairDiff_def Let_def raw files repaired_lines_keep dropped_hunk_lines del: parsed_files.simps)
qed

section \<open>An example\<close>

definition ex_segs :: "segment list" where
  "ex_segs = [Same [''a''], Edit [(RemLine, ''x''), (AddLine, '' x'')], Same [''b''], Edit [(CtxLine, ''c''), (AddLine, ''d'')]]"

lemma ex_change_ok: "change_ok (''f'', ex_segs)"
  by (auto simp: ex_segs_def change_ok_def path_ok_def plain_line_def js_space_def)

theorem diff_parses_back_witness: "parseUnifiedDiff (diff_text [(''f'', ex_segs)]) = Inr (parsed_files [(''f'', ex_segs)] 0)"
  by (rule diff_parses_back) (use ex_change_ok in simp)

theorem repair_exact_witness:
  "autoRepairDiff (\<lambda>files. []) (diff_text [(''f'', ex_segs)]) =
     Inr \<lparr>ar_fixedText = diff_text [repaired (''f'', ex_segs)], ar_fixedCount = length (filter is_churn ex_segs)\<rparr>"
  using repair_exact [of "[(''f'', ex_segs)]" "\<lambda>files. []"] ex_change_ok by simp

theorem malformed_header_refused_witness:
  "parseUnifiedDiff (join_with [LF] (file_diff (''f'', ex_segs) @ [''@@ nothing''])) = Inl (MalformedHunkHeader ''@@ nothing'')"
  using malformed_header_refused [of "[]" "''f''" ex_segs "''@@ nothing''"] ex_change_ok
  by (simp add: plain_line_def HUNK_HEADER_def expect_def)

theorem marker_survives_repair_witness:
  "autoRepairDiff (\<lambda>files. []) (join_with [LF] (file_diff (''f'', ex_segs) @ [NO_NEWLINE])) =
     Inr \<lparr>ar_fixedText = join_with [LF] (file_diff (repaired (''f'', ex_segs)) @ [NO_NEWLINE]), ar_fixedCount = length (filter is_churn ex_segs)\<rparr>"
  by (rule marker_survives_repair [OF ex_change_ok])

end
