(* ===== verification/Lane_Stats.thy ===== *)
theory Lane_Stats
  imports Json_Read "HOL-Library.Char_ord" "HOL-Library.List_Lexorder" "HOL-Library.Product_Lexorder"
begin

text \<open>
  The statistics of the dispatch lanes (\<^verbatim>\<open>dispatch-lane-stats.ts\<close>) and the safe identifiers of \<^verbatim>\<open>dashboard-contract.ts\<close>:
  the parser of a telemetry report, the counters and the rolling window of a lane, their export and restoration, the file
  rows, and the order statistics of a window. The map of one configuration is the state, with the number of notifications
  beside it. The text of a date is a parameter \<open>stamp\<close>, and so is the test \<open>date_ok\<close> that a text is a date.
\<close>

section \<open>Safe identifiers\<close>

text \<open>\<open>None\<close> on a control character; every other character below 256 is one or two bytes.\<close>

fun utf8ByteLength :: "string \<Rightarrow> nat option" where
  "utf8ByteLength [] = Some 0"
| "utf8ByteLength (c # cs) =
     (let n = of_char c :: nat in
      if n \<le> 31 \<or> (127 \<le> n \<and> n \<le> 159) then None
      else map_option (\<lambda>k. (if n \<le> 127 then 1 else 2) + k) (utf8ByteLength cs))"

definition DASHBOARD_SAFE_ID_MAX_BYTES :: nat where
  "DASHBOARD_SAFE_ID_MAX_BYTES = 256"

definition isDashboardSafeId :: "string \<Rightarrow> bool" where
  "isDashboardSafeId v \<longleftrightarrow> 1 \<le> length v \<and> (case utf8ByteLength v of None \<Rightarrow> False | Some n \<Rightarrow> n \<le> DASHBOARD_SAFE_ID_MAX_BYTES)"

definition bounded_id :: "nat \<Rightarrow> string \<Rightarrow> bool" where
  "bounded_id maxChars v \<longleftrightarrow> 1 \<le> length v \<and> length v \<le> maxChars \<and> isDashboardSafeId v"

definition isBoundedId :: "nat \<Rightarrow> json option \<Rightarrow> bool" where
  "isBoundedId maxChars v \<longleftrightarrow> (case str_of v of None \<Rightarrow> False | Some s \<Rightarrow> bounded_id maxChars s)"

section \<open>Reports\<close>

datatype lane_kind = CliLane | RelayLane
datatype lane_run_status = Completed | FailedRun | TimedOut | Abandoned
datatype dispatch_mode = AgentMode | AnswerMode

fun lane_kind_name :: "lane_kind \<Rightarrow> string" where
  "lane_kind_name CliLane = ''cli''"
| "lane_kind_name RelayLane = ''relay''"

fun run_status_name :: "lane_run_status \<Rightarrow> string" where
  "run_status_name Completed = ''completed''"
| "run_status_name FailedRun = ''failed''"
| "run_status_name TimedOut = ''timed_out''"
| "run_status_name Abandoned = ''abandoned''"

fun mode_name :: "dispatch_mode \<Rightarrow> string" where
  "mode_name AgentMode = ''agent''"
| "mode_name AnswerMode = ''answer''"

definition DISPATCH_LANE_KINDS :: "lane_kind list" where "DISPATCH_LANE_KINDS = [CliLane, RelayLane]"
definition DISPATCH_LANE_STATUSES :: "lane_run_status list" where "DISPATCH_LANE_STATUSES = [Completed, FailedRun, TimedOut, Abandoned]"
definition DISPATCH_MODES :: "dispatch_mode list" where "DISPATCH_MODES = [AgentMode, AnswerMode]"

record telemetry_report =
  tr_jobId :: string
  tr_laneId :: string
  tr_kind :: lane_kind
  tr_spec :: "string option"
  tr_tier :: "string option"
  tr_mode :: "dispatch_mode option"
  tr_wallClockMs :: rat
  tr_exitCode :: "int option"
  tr_status :: lane_run_status
  tr_inputTokens :: nat
  tr_outputTokens :: nat

definition REPORT_KEYS :: "string list" where
  "REPORT_KEYS = [''jobId'', ''laneId'', ''kind'', ''spec'', ''tier'', ''mode'', ''wallClockMs'', ''exitCode'', ''status'',
     ''estimatedInputTokens'', ''estimatedOutputTokens'']"

definition parseTelemetryReport :: "json \<Rightarrow> telemetry_report option" where
  "parseTelemetryReport value =
     (case value of
        JObj body \<Rightarrow>
          (let get = member body in
           if \<not> list_all (\<lambda>(k, v). k \<in> set REPORT_KEYS) body then None
           else if \<not> isBoundedId 64 (get ''jobId'') then None
           else if \<not> isBoundedId 200 (get ''laneId'') then None
           else if \<not> absent_or (isBoundedId 200) (get ''spec'') then None
           else if \<not> absent_or (isBoundedId 64) (get ''tier'') then None
           else do {
             mode \<leftarrow> opt_member (named mode_name DISPATCH_MODES) (get ''mode'');
             kind \<leftarrow> named lane_kind_name DISPATCH_LANE_KINDS (get ''kind'');
             status \<leftarrow> named run_status_name DISPATCH_LANE_STATUSES (get ''status'');
             wall \<leftarrow> (if finite_at_least_0 (get ''wallClockMs'') then rat_of (get ''wallClockMs'') else None);
             exit \<leftarrow> null_member int_of (get ''exitCode'');
             inTokens \<leftarrow> (if natural_number (get ''estimatedInputTokens'') then nat_of (get ''estimatedInputTokens'') else None);
             outTokens \<leftarrow> (if natural_number (get ''estimatedOutputTokens'') then nat_of (get ''estimatedOutputTokens'') else None);
             Some \<lparr>tr_jobId = the (str_of (get ''jobId'')), tr_laneId = the (str_of (get ''laneId'')), tr_kind = kind,
               tr_spec = str_of (get ''spec''), tr_tier = str_of (get ''tier''), tr_mode = mode, tr_wallClockMs = wall,
               tr_exitCode = exit, tr_status = status, tr_inputTokens = inTokens, tr_outputTokens = outTokens\<rparr>
           })
      | _ \<Rightarrow> None)"

section \<open>Order statistics of a window\<close>

definition sort_numbers :: "rat list \<Rightarrow> rat list" where
  "sort_numbers xs = js_sort (\<lambda>a b. a - b \<le> 0) xs"

definition medianWallClockMs :: "rat list \<Rightarrow> rat option" where
  "medianWallClockMs samples =
     (if samples = [] then None
      else (let sorted = sort_numbers samples; mid = length sorted div 2 in
        if length sorted mod 2 = 1 then Some (sorted ! mid) else Some ((sorted ! (mid - 1) + sorted ! mid) / 2)))"

definition NUMBER_EPSILON :: rat where
  "NUMBER_EPSILON = 1 / 2 ^ 52"

definition quantileWallClockMs :: "rat list \<Rightarrow> jsnum \<Rightarrow> rat option" where
  "quantileWallClockMs samples quantile =
     (if samples = [] then None
      else (let q = (case quantile of Fin x \<Rightarrow> min 1 (max NUMBER_EPSILON x) | _ \<Rightarrow> 1);
                sorted = sort_numbers samples;
                rank = nat \<lceil>q * of_nat (length sorted)\<rceil>
            in Some (sorted ! (min (length sorted) (max 1 rank) - 1))))"

definition p95WallClockMs :: "rat list \<Rightarrow> rat option" where
  "p95WallClockMs samples = quantileWallClockMs samples (Fin (95 / 100))"

section \<open>The statistics of a lane\<close>

record lane_stats =
  ls_laneId :: string
  ls_tier :: "string option"
  ls_mode :: "dispatch_mode option"
  ls_calls :: nat
  ls_successes :: nat
  ls_failures :: nat
  ls_timeouts :: nat
  ls_consecutiveFailures :: nat
  ls_lastSuccessAt :: "rat option"
  ls_wallClockMs :: "rat list"
  ls_wallClockAt :: "string option list"
  ls_lastAt :: "rat option"

definition MAX_LANE_STAT_SAMPLES :: nat where
  "MAX_LANE_STAT_SAMPLES = 100"

definition freshLaneStats :: "string \<Rightarrow> string option \<Rightarrow> dispatch_mode option \<Rightarrow> lane_stats" where
  "freshLaneStats laneId tier mode =
     \<lparr>ls_laneId = laneId, ls_tier = tier, ls_mode = mode, ls_calls = 0, ls_successes = 0, ls_failures = 0, ls_timeouts = 0,
      ls_consecutiveFailures = 0, ls_lastSuccessAt = None, ls_wallClockMs = [], ls_wallClockAt = [], ls_lastAt = None\<rparr>"

definition mode_text :: "dispatch_mode option \<Rightarrow> string" where
  "mode_text m = (case m of Some x \<Rightarrow> mode_name x | None \<Rightarrow> [])"

definition tier_text :: "string option \<Rightarrow> string" where
  "tier_text t = (case t of Some x \<Rightarrow> x | None \<Rightarrow> [])"

definition statsKey :: "string option \<Rightarrow> string \<Rightarrow> dispatch_mode option \<Rightarrow> string" where
  "statsKey tier laneId mode = tier_text tier @ ''|'' @ mode_text mode @ ''|'' @ laneId"

record lane_memory =
  lm_stats :: "(string, lane_stats) jmap"
  lm_notified :: nat

definition count_run :: "lane_run_status \<Rightarrow> rat \<Rightarrow> lane_stats \<Rightarrow> lane_stats" where
  "count_run status now e =
     (case status of
        Completed \<Rightarrow> e\<lparr>ls_successes := ls_successes e + 1, ls_consecutiveFailures := 0, ls_lastSuccessAt := Some now\<rparr>
      | FailedRun \<Rightarrow> e\<lparr>ls_failures := ls_failures e + 1, ls_consecutiveFailures := ls_consecutiveFailures e + 1\<rparr>
      | TimedOut \<Rightarrow> e\<lparr>ls_timeouts := ls_timeouts e + 1, ls_failures := ls_failures e + 1,
          ls_consecutiveFailures := ls_consecutiveFailures e + 1\<rparr>
      | Abandoned \<Rightarrow> e\<lparr>ls_failures := ls_failures e + 1\<rparr>)"

definition trim_window :: "lane_stats \<Rightarrow> lane_stats" where
  "trim_window e =
     (if MAX_LANE_STAT_SAMPLES < length (ls_wallClockMs e)
      then (let n = length (ls_wallClockMs e) - MAX_LANE_STAT_SAMPLES
            in e\<lparr>ls_wallClockMs := drop n (ls_wallClockMs e), ls_wallClockAt := drop n (ls_wallClockAt e)\<rparr>)
      else e)"

definition run_recorded :: "(rat \<Rightarrow> string) \<Rightarrow> telemetry_report \<Rightarrow> rat \<Rightarrow> lane_stats \<Rightarrow> lane_stats" where
  "run_recorded stamp report now e =
     (let e1 = count_run (tr_status report) now (e\<lparr>ls_calls := ls_calls e + 1\<rparr>);
          e2 = (if tr_status report = Completed
            then e1\<lparr>ls_wallClockMs := ls_wallClockMs e1 @ [tr_wallClockMs report], ls_wallClockAt := ls_wallClockAt e1 @ [Some (stamp now)]\<rparr>
            else e1)
      in (trim_window e2)\<lparr>ls_lastAt := Some now\<rparr>)"

definition report_key :: "telemetry_report \<Rightarrow> string" where
  "report_key r = statsKey (tr_tier r) (tr_laneId r) (tr_mode r)"

definition recordLaneRun :: "(rat \<Rightarrow> string) \<Rightarrow> telemetry_report \<Rightarrow> rat \<Rightarrow> lane_memory \<Rightarrow> lane_memory" where
  "recordLaneRun stamp report now m =
     (let key = report_key report;
          entry = (case jm_get (lm_stats m) key of Some e \<Rightarrow> e | None \<Rightarrow> freshLaneStats (tr_laneId report) (tr_tier report) (tr_mode report))
      in m\<lparr>lm_stats := jm_put key (run_recorded stamp report now entry) (lm_stats m), lm_notified := lm_notified m + 1\<rparr>)"

definition laneStatsFor :: "lane_memory \<Rightarrow> string \<Rightarrow> string option \<Rightarrow> dispatch_mode option \<Rightarrow> lane_stats option" where
  "laneStatsFor m laneId tier mode = jm_get (lm_stats m) (statsKey tier laneId mode)"

definition compareRows :: "lane_stats \<Rightarrow> lane_stats \<Rightarrow> bool" where
  "compareRows a b \<longleftrightarrow>
     (ls_laneId a, tier_text (ls_tier a), mode_text (ls_mode a)) \<le> (ls_laneId b, tier_text (ls_tier b), mode_text (ls_mode b))"

definition allLaneStats :: "lane_memory \<Rightarrow> lane_stats list" where
  "allLaneStats m = js_sort compareRows (map snd (lm_stats m))"

section \<open>Rows\<close>

record lane_stats_row =
  lr_laneId :: string
  lr_tier :: "string option"
  lr_mode :: "dispatch_mode option"
  lr_calls :: nat
  lr_successes :: nat
  lr_failures :: nat
  lr_timeouts :: nat
  lr_consecutiveFailures :: "nat option"
  lr_lastSuccessAt :: "rat option"
  lr_wallClockMs :: "rat list"
  lr_wallClockAt :: "string option list option"
  lr_lastAt :: "rat option"

definition export_stats :: "lane_stats \<Rightarrow> lane_stats_row" where
  "export_stats s =
     \<lparr>lr_laneId = ls_laneId s, lr_tier = ls_tier s, lr_mode = ls_mode s, lr_calls = ls_calls s, lr_successes = ls_successes s,
      lr_failures = ls_failures s, lr_timeouts = ls_timeouts s, lr_consecutiveFailures = Some (ls_consecutiveFailures s),
      lr_lastSuccessAt = ls_lastSuccessAt s, lr_wallClockMs = ls_wallClockMs s, lr_wallClockAt = Some (ls_wallClockAt s),
      lr_lastAt = ls_lastAt s\<rparr>"

definition exportLaneStatsRows :: "lane_memory \<Rightarrow> lane_stats_row list" where
  "exportLaneStatsRows m = map export_stats (allLaneStats m)"

text \<open>\<^verbatim>\<open>xs.slice(-n)\<close>\<close>

definition last_n :: "nat \<Rightarrow> 'a list \<Rightarrow> 'a list" where
  "last_n n xs = drop (length xs - n) xs"

definition restoredWindow :: "lane_stats_row \<Rightarrow> rat list \<times> string option list" where
  "restoredWindow row =
     (if lr_consecutiveFailures row = None \<and> lr_successes row < length (lr_wallClockMs row) then ([], [])
      else (last_n MAX_LANE_STAT_SAMPLES (lr_wallClockMs row),
            last_n MAX_LANE_STAT_SAMPLES (case lr_wallClockAt row of Some ws \<Rightarrow> ws | None \<Rightarrow> replicate (length (lr_wallClockMs row)) None)))"

definition restored_stats :: "lane_stats_row \<Rightarrow> lane_stats" where
  "restored_stats row =
     \<lparr>ls_laneId = lr_laneId row, ls_tier = lr_tier row, ls_mode = lr_mode row, ls_calls = lr_calls row,
      ls_successes = lr_successes row, ls_failures = lr_failures row, ls_timeouts = lr_timeouts row,
      ls_consecutiveFailures = (case lr_consecutiveFailures row of Some n \<Rightarrow> n
        | None \<Rightarrow> if lr_successes row = 0 then lr_failures row else 0),
      ls_lastSuccessAt = lr_lastSuccessAt row, ls_wallClockMs = fst (restoredWindow row),
      ls_wallClockAt = snd (restoredWindow row), ls_lastAt = lr_lastAt row\<rparr>"

definition row_key :: "lane_stats_row \<Rightarrow> string" where
  "row_key row = statsKey (lr_tier row) (lr_laneId row) (lr_mode row)"

fun restore_rows_into :: "lane_stats_row list \<Rightarrow> (string, lane_stats) jmap \<Rightarrow> (string, lane_stats) jmap \<times> nat" where
  "restore_rows_into [] stats = (stats, 0)"
| "restore_rows_into (row # rows) stats =
     (let key = row_key row in
      if jm_get stats key \<noteq> None then restore_rows_into rows stats
      else (let (stats1, n) = restore_rows_into rows (jm_put key (restored_stats row) stats) in (stats1, n + 1)))"

definition restoreLaneStatsRows :: "lane_stats_row list \<Rightarrow> lane_memory \<Rightarrow> lane_memory \<times> nat" where
  "restoreLaneStatsRows rows m =
     (let (stats, restored) = restore_rows_into rows (lm_stats m)
      in (m\<lparr>lm_stats := stats, lm_notified := (if 0 < restored then lm_notified m + 1 else lm_notified m)\<rparr>, restored))"

section \<open>The file\<close>

definition natj :: "nat \<Rightarrow> json" where
  "natj n = num (of_nat n)"

definition encode_lane_row :: "lane_stats_row \<Rightarrow> json" where
  "encode_lane_row r =
     JObj ([(''laneId'', JStr (lr_laneId r)), (''tier'', nullable JStr (lr_tier r)),
        (''mode'', nullable (\<lambda>m. JStr (mode_name m)) (lr_mode r)), (''calls'', natj (lr_calls r)),
        (''successes'', natj (lr_successes r)), (''failures'', natj (lr_failures r)), (''timeouts'', natj (lr_timeouts r))]
       @ optional ''consecutiveFailures'' (map_option natj (lr_consecutiveFailures r))
       @ [(''lastSuccessAt'', nullable num (lr_lastSuccessAt r)), (''wallClockMs'', JArr (map num (lr_wallClockMs r)))]
       @ optional ''wallClockAt'' (map_option (\<lambda>ws. JArr (map (nullable JStr) ws)) (lr_wallClockAt r))
       @ [(''lastAt'', nullable num (lr_lastAt r))])"

definition saveLaneStatsRows :: "lane_stats_row list \<Rightarrow> json" where
  "saveLaneStatsRows rows = JObj [(''version'', num 1), (''rows'', JArr (map encode_lane_row rows))]"

definition absent_null_or :: "(json option \<Rightarrow> bool) \<Rightarrow> json option \<Rightarrow> bool" where
  "absent_null_or ok v \<longleftrightarrow> v = None \<or> v = Some JNull \<or> ok v"

definition hasValidStreakFields :: "(string \<times> json) list \<Rightarrow> bool" where
  "hasValidStreakFields row \<longleftrightarrow>
     list_all (\<lambda>key. absent_or natural_number (member row key)) [''consecutiveFailures'', ''abandonedSinceSuccess''] \<and>
     absent_null_or finite_at_least_0 (member row ''lastSuccessAt'')"

definition isWallClockAt :: "(string \<Rightarrow> bool) \<Rightarrow> json option \<Rightarrow> nat \<Rightarrow> bool" where
  "isWallClockAt date_ok v samples \<longleftrightarrow>
     (case v of
        None \<Rightarrow> True
      | Some (JArr stamps) \<Rightarrow> length stamps = samples \<and>
          list_all (\<lambda>s. s = JNull \<or> (case str_of (Some s) of Some t \<Rightarrow> date_ok t | None \<Rightarrow> False)) stamps
      | _ \<Rightarrow> False)"

definition hasValidSamples :: "(string \<Rightarrow> bool) \<Rightarrow> (string \<times> json) list \<Rightarrow> bool" where
  "hasValidSamples date_ok row \<longleftrightarrow>
     (case member row ''wallClockMs'' of
        Some (JArr xs) \<Rightarrow> length xs \<le> MAX_LANE_STAT_SAMPLES \<and> list_all (\<lambda>x. finite_at_least_0 (Some x)) xs \<and>
          isWallClockAt date_ok (member row ''wallClockAt'') (length xs)
      | _ \<Rightarrow> False)"

fun isLaneStatsRow :: "(string \<Rightarrow> bool) \<Rightarrow> json \<Rightarrow> bool" where
  "isLaneStatsRow date_ok (JObj row) =
     (isBoundedId 200 (member row ''laneId'') \<and> absent_null_or (isBoundedId 64) (member row ''tier'') \<and>
      absent_null_or (string_in (map mode_name DISPATCH_MODES)) (member row ''mode'') \<and>
      list_all (\<lambda>key. natural_number (member row key)) [''calls'', ''successes'', ''failures'', ''timeouts''] \<and>
      hasValidStreakFields row \<and> hasValidSamples date_ok row \<and> null_or finite_at_least_0 (member row ''lastAt''))"
| "isLaneStatsRow date_ok _ = False"

fun loadLaneStatsRows :: "(string \<Rightarrow> bool) \<Rightarrow> json option \<Rightarrow> json list" where
  "loadLaneStatsRows date_ok (Some (JObj parsed)) =
     (if member parsed ''version'' \<noteq> Some (num 1) then []
      else (case member parsed ''rows'' of Some (JArr rows) \<Rightarrow> filter (isLaneStatsRow date_ok) rows | _ \<Rightarrow> []))"
| "loadLaneStatsRows date_ok _ = []"

text \<open>The typed view of a row that has been validated.\<close>

fun read_lane_row :: "json \<Rightarrow> lane_stats_row option" where
  "read_lane_row (JObj row) = do {
     laneId \<leftarrow> str_of (member row ''laneId'');
     calls \<leftarrow> nat_of (member row ''calls'');
     successes \<leftarrow> nat_of (member row ''successes'');
     failures \<leftarrow> nat_of (member row ''failures'');
     timeouts \<leftarrow> nat_of (member row ''timeouts'');
     consecutive \<leftarrow> opt_member nat_of (member row ''consecutiveFailures'');
     wall \<leftarrow> list_member (\<lambda>x. rat_of (Some x)) (member row ''wallClockMs'');
     stamps \<leftarrow> opt_member (list_member (\<lambda>x. null_member str_of (Some x))) (member row ''wallClockAt'');
     Some \<lparr>lr_laneId = laneId, lr_tier = str_of (member row ''tier''), lr_mode = named mode_name DISPATCH_MODES (member row ''mode''),
       lr_calls = calls, lr_successes = successes, lr_failures = failures, lr_timeouts = timeouts,
       lr_consecutiveFailures = consecutive, lr_lastSuccessAt = rat_of (member row ''lastSuccessAt''), lr_wallClockMs = wall,
       lr_wallClockAt = stamps, lr_lastAt = rat_of (member row ''lastAt'')\<rparr>
   }"
| "read_lane_row _ = None"

section \<open>Lanes that come back through the relay\<close>

text \<open>\<open>origin\<close> is the origin of a URL, \<open>None\<close> when it does not parse.\<close>

definition laneRoutesThroughRelay :: "(string \<Rightarrow> string option) \<Rightarrow> (string \<Rightarrow> string option) option \<Rightarrow> string \<Rightarrow> nat \<Rightarrow> bool" where
  "laneRoutesThroughRelay origin env host port =
     (case env of
        None \<Rightarrow> False
      | Some vars \<Rightarrow>
          (let h = (if CHR '':'' \<in> set host then ''['' @ host @ '']'' else host) in
           case origin (''http://'' @ h @ '':'' @ show_nat port) of
             None \<Rightarrow> False
           | Some listener \<Rightarrow>
               list_ex (\<lambda>name. case vars name of None \<Rightarrow> False | Some v \<Rightarrow> origin v = Some listener)
                 [''ANTHROPIC_BASE_URL'', ''OPENAI_BASE_URL'']))"

end
