(* ===== verification/Lane_Affinity.thy ===== *)
theory Lane_Affinity
  imports Lane_Stats
begin

text \<open>
  The memory of which lanes are preferred and which are avoided (\<^verbatim>\<open>lane-affinity.ts\<close>): pins and demotions with an expiry,
  their recall, the outlier test that demotes a lane, export, restoration and the file rows. The map of one configuration is the
  state, with the number of notifications beside it. The decimal text of a number that is not an integer is the parameter
  \<open>show_num\<close>.
\<close>

section \<open>Rows and windows\<close>

datatype affinity_kind = Pin | Demote

fun affinity_name :: "affinity_kind \<Rightarrow> string" where
  "affinity_name Pin = ''pin''"
| "affinity_name Demote = ''demote''"

definition LANE_AFFINITY_KINDS :: "affinity_kind list" where
  "LANE_AFFINITY_KINDS = [Pin, Demote]"

record affinity_row =
  af_tier :: "string option"
  af_laneId :: string
  af_kind :: affinity_kind
  af_until :: rat
  af_reason :: string

record lane_affinity =
  la_map :: "(string, affinity_row) jmap"
  la_notified :: nat

definition MAX_AFFINITY_MS :: rat where "MAX_AFFINITY_MS = 6 * 60 * 60 * 1000"
definition DEFAULT_PIN_MS :: rat where "DEFAULT_PIN_MS = 15 * 60 * 1000"
definition DEFAULT_DEMOTE_MS :: rat where "DEFAULT_DEMOTE_MS = 15 * 60 * 1000"

fun defaultWindowFor :: "affinity_kind \<Rightarrow> rat" where
  "defaultWindowFor Pin = DEFAULT_PIN_MS"
| "defaultWindowFor Demote = DEFAULT_DEMOTE_MS"

definition affinity_key :: "string option \<Rightarrow> string \<Rightarrow> affinity_kind \<Rightarrow> string" where
  "affinity_key tier laneId kind = affinity_name kind @ '':'' @ tier_text tier @ '':'' @ laneId"

definition clampWindow :: "jsnum \<Rightarrow> rat \<Rightarrow> rat" where
  "clampWindow ttlMs fallback = (let raw = (case ttlMs of Fin x \<Rightarrow> x | _ \<Rightarrow> fallback) in min MAX_AFFINITY_MS (max 0 raw))"

definition boundedReason :: "string \<Rightarrow> string" where
  "boundedReason reason = take 200 reason"

definition affinity_notify :: "lane_affinity \<Rightarrow> lane_affinity" where
  "affinity_notify s = s\<lparr>la_notified := la_notified s + 1\<rparr>"

section \<open>Remembering and recalling\<close>

definition remember :: "affinity_kind \<Rightarrow> string option \<Rightarrow> string \<Rightarrow> string \<Rightarrow> rat \<Rightarrow> rat \<Rightarrow> lane_affinity \<Rightarrow> lane_affinity" where
  "remember kind tier laneId reason ttlMs now s =
     (if laneId = [] then s
      else affinity_notify (s\<lparr>la_map := jm_put (affinity_key tier laneId kind)
        \<lparr>af_tier = tier, af_laneId = laneId, af_kind = kind, af_until = now + ttlMs, af_reason = boundedReason reason\<rparr> (la_map s)\<rparr>))"

definition recall :: "affinity_kind \<Rightarrow> string option \<Rightarrow> string \<Rightarrow> rat \<Rightarrow> lane_affinity \<Rightarrow> lane_affinity \<times> affinity_row option" where
  "recall kind tier laneId now s =
     (let key = affinity_key tier laneId kind in
      case jm_get (la_map s) key of
        None \<Rightarrow> (s, None)
      | Some row \<Rightarrow>
          if af_until row \<le> now then (affinity_notify (s\<lparr>la_map := jm_del key (la_map s)\<rparr>), None) else (s, Some row))"

definition pinLane :: "string option \<Rightarrow> string \<Rightarrow> string \<Rightarrow> jsnum \<Rightarrow> rat \<Rightarrow> lane_affinity \<Rightarrow> lane_affinity" where
  "pinLane tier laneId reason ttlMs now s = remember Pin tier laneId reason (clampWindow ttlMs (defaultWindowFor Pin)) now s"

definition demoteLane :: "string option \<Rightarrow> string \<Rightarrow> string \<Rightarrow> jsnum \<Rightarrow> rat \<Rightarrow> lane_affinity \<Rightarrow> lane_affinity" where
  "demoteLane tier laneId reason ttlMs now s = remember Demote tier laneId reason (clampWindow ttlMs (defaultWindowFor Demote)) now s"

definition lanePin :: "string option \<Rightarrow> string \<Rightarrow> rat \<Rightarrow> lane_affinity \<Rightarrow> lane_affinity \<times> affinity_row option" where
  "lanePin tier laneId now s = recall Pin tier laneId now s"

definition laneDemotion :: "string option \<Rightarrow> string \<Rightarrow> rat \<Rightarrow> lane_affinity \<Rightarrow> lane_affinity \<times> affinity_row option" where
  "laneDemotion tier laneId now s = recall Demote tier laneId now s"

definition clearLaneAffinity :: "string option \<Rightarrow> string \<Rightarrow> lane_affinity \<Rightarrow> lane_affinity" where
  "clearLaneAffinity tier laneId s =
     (let keys = map (affinity_key tier laneId) LANE_AFFINITY_KINDS;
          changed = list_ex (\<lambda>k. jm_get (la_map s) k \<noteq> None) keys;
          cleared = s\<lparr>la_map := fold jm_del keys (la_map s)\<rparr>
      in if changed then affinity_notify cleared else cleared)"

definition forgetLaneMemory :: "affinity_kind \<Rightarrow> string option \<Rightarrow> string \<Rightarrow> rat \<Rightarrow> lane_affinity \<Rightarrow> lane_affinity \<times> bool" where
  "forgetLaneMemory kind tier laneId now s =
     (let key = affinity_key tier laneId kind in
      case jm_get (la_map s) key of
        None \<Rightarrow> (s, False)
      | Some row \<Rightarrow> (affinity_notify (s\<lparr>la_map := jm_del key (la_map s)\<rparr>), now < af_until row))"

section \<open>Outliers\<close>

record outlier_settings =
  os_recentCount :: jsnum
  os_historyQuantile :: jsnum
  os_outlierFactor :: rat
  os_minSamples :: nat

record outlier_evidence =
  oe_recentMedianMs :: rat
  oe_historyMs :: rat

text \<open>\<^verbatim>\<open>Number.isInteger(x) && x >= 1\<close>\<close>

fun positive_integer :: "jsnum \<Rightarrow> nat option" where
  "positive_integer (Fin q) = (if q = of_int \<lfloor>q\<rfloor> \<and> 1 \<le> q then Some (nat \<lfloor>q\<rfloor>) else None)"
| "positive_integer x = None"

definition checkLaneOutlier :: "rat list \<Rightarrow> outlier_settings \<Rightarrow> outlier_evidence option" where
  "checkLaneOutlier samples settings =
     (case positive_integer (os_recentCount settings) of
        None \<Rightarrow> None
      | Some recentCount \<Rightarrow>
          if length samples < recentCount + os_minSamples settings then None
          else (let recent = last_n recentCount samples; earlier = take (length samples - recentCount) samples in
            if length recent < os_minSamples settings \<or> length earlier < os_minSamples settings then None
            else (case (medianWallClockMs recent, quantileWallClockMs earlier (os_historyQuantile settings)) of
                (Some recentMedian, Some history) \<Rightarrow>
                  if history \<le> 0 then None
                  else if recentMedian \<le> history * os_outlierFactor settings then None
                  else Some \<lparr>oe_recentMedianMs = recentMedian, oe_historyMs = history\<rparr>
              | _ \<Rightarrow> None)))"

definition round_half_up :: "rat \<Rightarrow> int" where
  "round_half_up q = \<lfloor>q + 1 / 2\<rfloor>"

definition outlierDemotionReason :: "(rat \<Rightarrow> string) \<Rightarrow> outlier_evidence \<Rightarrow> rat \<Rightarrow> rat \<Rightarrow> string" where
  "outlierDemotionReason show_num evidence historyQuantile outlierFactor =
     (let seconds = (\<lambda>ms. show_num (of_int (round_half_up (ms / 1000)))) in
      ''recent median '' @ seconds (oe_recentMedianMs evidence) @ '' s vs history p'' @
      show_num (of_int (round_half_up (historyQuantile * 100))) @ '' '' @ seconds (oe_historyMs evidence) @ '' s '' @ [CHR 0xD7] @
      show_num outlierFactor)"

definition recordLaneOutlier ::
  "(rat \<Rightarrow> string) \<Rightarrow> string option \<Rightarrow> string \<Rightarrow> rat list \<Rightarrow> (jsnum \<times> rat \<times> rat) option \<Rightarrow> nat \<Rightarrow> jsnum \<Rightarrow> rat \<Rightarrow> lane_affinity \<Rightarrow>
    lane_affinity \<times> string option" where
  "recordLaneOutlier show_num tier laneId samples outlier minSamples demoteMs now s =
     (case outlier of
        None \<Rightarrow> (s, None)
      | Some (recentCount, historyQuantile, outlierFactor) \<Rightarrow>
          (case checkLaneOutlier samples \<lparr>os_recentCount = recentCount, os_historyQuantile = Fin historyQuantile,
              os_outlierFactor = outlierFactor, os_minSamples = minSamples\<rparr> of
             None \<Rightarrow> (s, None)
           | Some hit \<Rightarrow>
               (let reason = outlierDemotionReason show_num hit historyQuantile outlierFactor
                in (demoteLane tier laneId reason demoteMs now (clearLaneAffinity tier laneId s), Some reason))))"

section \<open>Export and restoration\<close>

definition row_affinity_key :: "affinity_row \<Rightarrow> string" where
  "row_affinity_key r = affinity_key (af_tier r) (af_laneId r) (af_kind r)"

definition exportLaneAffinityRows :: "rat \<Rightarrow> lane_affinity \<Rightarrow> lane_affinity \<times> affinity_row list" where
  "exportLaneAffinityRows now s =
     (let live = filter (\<lambda>(k, r). now < af_until r) (la_map s);
          s1 = s\<lparr>la_map := live\<rparr>
      in (if length live < length (la_map s) then affinity_notify s1 else s1,
          js_sort (\<lambda>a b. row_affinity_key a \<le> row_affinity_key b) (map snd live)))"

fun restore_affinity_rows :: "rat \<Rightarrow> affinity_row list \<Rightarrow> (string, affinity_row) jmap \<Rightarrow> (string, affinity_row) jmap \<times> nat" where
  "restore_affinity_rows now [] m = (m, 0)"
| "restore_affinity_rows now (row # rows) m =
     (if af_until row \<le> now \<or> jm_get m (row_affinity_key row) \<noteq> None then restore_affinity_rows now rows m
      else (let (m1, n) = restore_affinity_rows now rows
                (jm_put (row_affinity_key row) (row\<lparr>af_until := min (af_until row) (now + MAX_AFFINITY_MS)\<rparr>) m)
            in (m1, n + 1)))"

definition restoreLaneAffinityRows :: "affinity_row list \<Rightarrow> rat \<Rightarrow> lane_affinity \<Rightarrow> lane_affinity \<times> nat" where
  "restoreLaneAffinityRows rows now s =
     (let (m, restored) = restore_affinity_rows now rows (la_map s); s1 = s\<lparr>la_map := m\<rparr>
      in (if 0 < restored then affinity_notify s1 else s1, restored))"

section \<open>The file\<close>

definition encode_affinity_row :: "affinity_row \<Rightarrow> json" where
  "encode_affinity_row r = JObj [(''tier'', nullable JStr (af_tier r)), (''laneId'', JStr (af_laneId r)),
     (''kind'', JStr (affinity_name (af_kind r))), (''until'', num (af_until r)), (''reason'', JStr (af_reason r))]"

definition saveLaneAffinityRows :: "affinity_row list \<Rightarrow> json" where
  "saveLaneAffinityRows rows = JObj [(''version'', num 1), (''rows'', JArr (map encode_affinity_row rows))]"

fun isLaneAffinityRow :: "json \<Rightarrow> bool" where
  "isLaneAffinityRow (JObj row) =
     (null_or (isBoundedId 64) (member row ''tier'') \<and> isBoundedId 200 (member row ''laneId'') \<and>
      string_in (map affinity_name LANE_AFFINITY_KINDS) (member row ''kind'') \<and> finite_at_least_0 (member row ''until'') \<and>
      (case str_of (member row ''reason'') of Some s \<Rightarrow> length s \<le> 200 | None \<Rightarrow> False))"
| "isLaneAffinityRow _ = False"

fun loadLaneAffinityRows :: "json option \<Rightarrow> json list" where
  "loadLaneAffinityRows (Some (JObj parsed)) =
     (if member parsed ''version'' \<noteq> Some (num 1) then []
      else (case member parsed ''rows'' of Some (JArr rows) \<Rightarrow> filter isLaneAffinityRow rows | _ \<Rightarrow> []))"
| "loadLaneAffinityRows _ = []"

fun read_affinity_row :: "json \<Rightarrow> affinity_row option" where
  "read_affinity_row (JObj row) = do {
     laneId \<leftarrow> str_of (member row ''laneId'');
     kind \<leftarrow> named affinity_name LANE_AFFINITY_KINDS (member row ''kind'');
     until \<leftarrow> rat_of (member row ''until'');
     reason \<leftarrow> str_of (member row ''reason'');
     Some \<lparr>af_tier = str_of (member row ''tier''), af_laneId = laneId, af_kind = kind, af_until = until, af_reason = reason\<rparr>
   }"
| "read_affinity_row _ = None"

end
