(* ===== verification/Lane_Manifest.thy ===== *)
theory Lane_Manifest
  imports JsData
begin

text \<open>
  The roster of a command-line lane (\<^verbatim>\<open>lane-manifest.ts\<close>): which lane a command starts, whether a model is in its roster, which
  argument values it does not take. The prose of a verdict is left out; \<open>le_probedAt\<close> is the moment the text of the probe
  date stands for, \<open>None\<close> when it is not a date.
\<close>

section \<open>Splitting and replacing\<close>

definition prefix_at :: "string \<Rightarrow> string \<Rightarrow> bool" where
  "prefix_at p s \<longleftrightarrow> take (length p) s = p"

text \<open>\<^verbatim>\<open>s.split(sep)\<close> for a separator that is not empty.\<close>

function split_text :: "string \<Rightarrow> string \<Rightarrow> string list" where
  "split_text sep s =
     (if sep = [] \<or> s = [] then [s]
      else if prefix_at sep s then [] # split_text sep (drop (length sep) s)
      else (case split_text sep (tl s) of [] \<Rightarrow> [[hd s]] | p # ps \<Rightarrow> (hd s # p) # ps))"
  by pat_completeness auto
termination
  by (relation "measure (\<lambda>(sep, s). length s)") (auto simp: neq_Nil_conv)

declare split_text.simps [simp del]

text \<open>\<^verbatim>\<open>s.split(token).join(text)\<close>\<close>

definition replace_token :: "string \<Rightarrow> string \<Rightarrow> string \<Rightarrow> string" where
  "replace_token token text s = join_with text (split_text token s)"

text \<open>\<^verbatim>\<open>s.includes(token)\<close>\<close>

definition contains_text :: "string \<Rightarrow> string \<Rightarrow> bool" where
  "contains_text s token \<longleftrightarrow> 1 < length (split_text token s)"

text \<open>What precedes the first character of a kind, and what follows it.\<close>

definition before_char :: "char \<Rightarrow> string \<Rightarrow> string" where
  "before_char c s = takeWhile (\<lambda>d. d \<noteq> c) s"

definition after_char :: "char \<Rightarrow> string \<Rightarrow> string" where
  "after_char c s = drop (Suc (length (before_char c s))) s"

section \<open>The roster\<close>

record lane_model =
  lm_id :: string
  lm_supports :: "(string \<times> string list) list option"

record lane_entry =
  le_via :: string
  le_probedAt :: "rat option"
  le_models :: "lane_model list"
  le_rejectedArgs :: "(string \<times> string list) list option"

type_synonym lane_manifest = "(string \<times> lane_entry) list"

definition basename :: "string \<Rightarrow> string" where
  "basename path = rev (takeWhile (\<lambda>c. c \<noteq> CHR ''/'' \<and> c \<noteq> CHR 0x5C) (rev path))"

definition strip_extension :: "string \<Rightarrow> string" where
  "strip_extension s =
     (let tail = drop (length s - 4) s in if 4 \<le> length s \<and> tail \<in> {''.exe'', ''.cmd'', ''.bat''} then take (length s - 4) s else s)"

definition laneOfCommand :: "string \<Rightarrow> string option" where
  "laneOfCommand command =
     (let base = strip_extension (toLowerCase (basename command)) in
      if base = ''agy'' then Some ''agy'' else if base = ''codex'' then Some ''codex'' else None)"

fun first_lane :: "string list \<Rightarrow> string option" where
  "first_lane [] = None"
| "first_lane (token # tokens) = (case laneOfCommand token of Some lane \<Rightarrow> Some lane | None \<Rightarrow> first_lane tokens)"

definition laneOfRung :: "string \<Rightarrow> string list option \<Rightarrow> string option" where
  "laneOfRung command args =
     (case laneOfCommand command of Some lane \<Rightarrow> Some lane | None \<Rightarrow> first_lane (case args of Some xs \<Rightarrow> xs | None \<Rightarrow> []))"

definition LANE_ROSTER_TTL_MS :: rat where
  "LANE_ROSTER_TTL_MS = 7 * 24 * 60 * 60 * 1000"

definition rosterIsStale :: "lane_entry \<Rightarrow> rat \<Rightarrow> bool" where
  "rosterIsStale entry now = (case le_probedAt entry of None \<Rightarrow> True | Some probed \<Rightarrow> LANE_ROSTER_TTL_MS < now - probed)"

datatype model_verdict = UnknownModel | Servable | NotServableModel

definition manifest_entry :: "lane_manifest option \<Rightarrow> string \<Rightarrow> lane_entry option" where
  "manifest_entry manifest lane = (case manifest of None \<Rightarrow> None | Some m \<Rightarrow> map_of m lane)"

definition verifyModel :: "lane_manifest option \<Rightarrow> string \<Rightarrow> string \<Rightarrow> string list option \<Rightarrow> rat \<Rightarrow> model_verdict" where
  "verifyModel manifest command model args now =
     (case laneOfRung command args of
        None \<Rightarrow> UnknownModel
      | Some lane \<Rightarrow>
          (case manifest_entry manifest lane of
             None \<Rightarrow> UnknownModel
           | Some entry \<Rightarrow>
               if le_models entry = [] then UnknownModel
               else if list_ex (\<lambda>m. lm_id m = model) (le_models entry) then Servable
               else if rosterIsStale entry now then UnknownModel
               else NotServableModel))"

definition unsupportedArgValues ::
  "lane_manifest option \<Rightarrow> string \<Rightarrow> string \<Rightarrow> string \<Rightarrow> string \<Rightarrow> string list option \<Rightarrow> rat \<Rightarrow> bool" where
  "unsupportedArgValues manifest command model arg value args now =
     (case laneOfRung command args of
        None \<Rightarrow> False
      | Some lane \<Rightarrow>
          (case manifest_entry manifest lane of
             None \<Rightarrow> False
           | Some entry \<Rightarrow>
               (let rejected = Option.bind (le_rejectedArgs entry) (\<lambda>r. map_of r model);
                    stated = Option.bind (find (\<lambda>m. lm_id m = model) (le_models entry)) (\<lambda>m. Option.bind (lm_supports m) (\<lambda>s. map_of s arg))
                in if (case rejected of Some xs \<Rightarrow> arg \<in> set xs | None \<Rightarrow> False) then True
                   else if rosterIsStale entry now then False
                   else (case stated of Some values \<Rightarrow> value \<notin> set values | None \<Rightarrow> False))))"

definition recordRejectedArg :: "lane_manifest \<Rightarrow> string \<Rightarrow> string \<Rightarrow> string \<Rightarrow> lane_manifest" where
  "recordRejectedArg m lane model arg =
     (case map_of m lane of
        None \<Rightarrow> m
      | Some entry \<Rightarrow>
          (let rejected = (case le_rejectedArgs entry of Some r \<Rightarrow> r | None \<Rightarrow> []);
               old = rev (remdups (rev (case map_of rejected model of Some xs \<Rightarrow> xs | None \<Rightarrow> [])));
               forModel = (if arg \<in> set old then old else old @ [arg])
           in jm_put lane (entry\<lparr>le_rejectedArgs := Some (jm_put model forModel rejected)\<rparr>) m))"

section \<open>The arguments of a rung\<close>

text \<open>\<^verbatim>\<open>--model x\<close> or \<^verbatim>\<open>--model=x\<close>\<close>

fun model_after :: "string list \<Rightarrow> string option" where
  "model_after (a # b # rest) = (if a = ''--model'' then Some b else model_after (b # rest))"
| "model_after _ = None"

definition model_of_args :: "string list \<Rightarrow> string option" where
  "model_of_args args =
     (case model_after args of
        Some m \<Rightarrow> Some m
      | None \<Rightarrow> map_option (drop 8) (find (\<lambda>a. prefix_at ''--model='' a) args))"

fun arg_values :: "string list \<Rightarrow> (string \<times> string) list" where
  "arg_values [] = []"
| "arg_values (a # rest) =
     (if prefix_at ''--'' a \<and> CHR ''='' \<notin> set a
      then (case rest of v # _ \<Rightarrow> if prefix_at ''--'' v then [] else [(a, v)] | [] \<Rightarrow> [])
      else if CHR ''='' \<in> set a \<and> \<not> prefix_at ''--'' a
      then (if before_char (CHR ''='') a = [] then [] else [(before_char (CHR ''='') a, after_char (CHR ''='') a)])
      else []) @ arg_values rest"

text \<open>The arguments without the dropped ones: a dropped flag takes its value with it, a dropped \<^verbatim>\<open>key=value\<close> its \<^verbatim>\<open>--config\<close>.\<close>

function strip_from :: "string list \<Rightarrow> string list \<Rightarrow> string list \<Rightarrow> string list" where
  "strip_from drops out [] = out"
| "strip_from drops out (a # rest) =
     (if a \<in> set drops then strip_from drops out (tl rest)
      else
        (let key = (if CHR ''='' \<in> set a then before_char (CHR ''='') a else []) in
         if key \<noteq> [] \<and> key \<in> set drops
         then strip_from drops (if out \<noteq> [] \<and> last out = ''--config'' then butlast out else out) rest
         else strip_from drops (out @ [a]) rest))"
  by pat_completeness auto
termination
  by (relation "measure (\<lambda>(d, out, args). length args)") auto

definition stripArgs :: "string list \<Rightarrow> string list \<Rightarrow> string list" where
  "stripArgs args drops = strip_from drops [] args"

end
