(* ===== verification/Dispatch_Ladder.thy ===== *)
theory Dispatch_Ladder
  imports Identity Lane_Affinity Lane_Manifest
begin

text \<open>
  The dispatch ladders (\<^verbatim>\<open>dispatch.ts\<close>): the configuration that names the rungs, the choice of a ladder, the cooldown of an
  exhausted quota, and the automatic choice of a routing spec. \<open>prov_anthropic\<close> says that a provider is of the anthropic kind.
\<close>

section \<open>Configuration\<close>

datatype rung_kind = CliRung | RelayRung

record ladder_rung =
  rg_id :: string
  rg_kind :: rung_kind
  rg_enabled :: bool
  rg_quota :: "string option"
  rg_note :: "string option"
  rg_command :: "string option"
  rg_args :: "string list option"
  rg_env :: "(string \<times> string option) list option"
  rg_maxConcurrent :: "nat option"
  rg_spec :: "string option"

record cli_lane =
  cl_command :: string
  cl_args :: "string list"
  cl_env :: "(string \<times> string option) list option"

record walk_settings =
  wk_enabled :: bool
  wk_attemptMinSamples :: nat

record provider_view =
  prov_anthropic :: bool
  prov_authEnv :: "string option"
  prov_contained :: bool

datatype offload_config = OffloadFlag "bool option" | OffloadRules "(string \<times> bool) list"

datatype effort_level = Low | Medium | High | Xhigh

record dispatch_config =
  dc_ladders :: "(string \<times> ladder_rung list) list option"
  dc_ladder :: "ladder_rung list option"
  dc_subagentDefault :: "string option"
  dc_pools :: "(string \<times> string list) list option"
  dc_poolDegraded :: "(string \<times> string list) list option"
  dc_poolEffort :: "(string \<times> effort_level) list"
  dc_providers :: "(string \<times> provider_view) list"
  dc_cliLane :: "cli_lane option"
  dc_walk :: "walk_settings option"
  dc_offload :: offload_config
  dc_default :: "string list"

text \<open>A member that is present and not the empty text.\<close>

definition truthy_text :: "string option \<Rightarrow> bool" where
  "truthy_text v \<longleftrightarrow> v \<noteq> None \<and> v \<noteq> Some []"

definition offloadEnabled :: "dispatch_config \<Rightarrow> string \<Rightarrow> bool" where
  "offloadEnabled cfg client =
     (case dc_offload cfg of
        OffloadFlag v \<Rightarrow> v = Some True
      | OffloadRules rules \<Rightarrow> (case map_of rules client of Some e \<Rightarrow> e
          | None \<Rightarrow> (case map_of rules ''default'' of Some e \<Rightarrow> e | None \<Rightarrow> False)))"

section \<open>Choosing a ladder\<close>

definition inferredTier :: "dispatch_config \<Rightarrow> string option" where
  "inferredTier cfg =
     (case dc_ladders cfg of
        None \<Rightarrow> None
      | Some ladders \<Rightarrow>
          (case dc_subagentDefault cfg of
             Some d \<Rightarrow> if prefix_at ''pool/'' d \<and> map_of ladders (drop 5 d) \<noteq> None then Some (drop 5 d)
               else if map_of ladders ''medium'' \<noteq> None then Some ''medium''
               else if map_of ladders ''coding'' \<noteq> None then Some ''coding''
               else (case ladders of [] \<Rightarrow> None | (k, v) # rest \<Rightarrow> Some k)
           | None \<Rightarrow>
               if map_of ladders ''medium'' \<noteq> None then Some ''medium''
               else if map_of ladders ''coding'' \<noteq> None then Some ''coding''
               else (case ladders of [] \<Rightarrow> None | (k, v) # rest \<Rightarrow> Some k)))"

record ladder_choice =
  lc_tier :: "string option"
  lc_rungs :: "ladder_rung list"
  lc_missing :: "string option"

definition selectLadder :: "dispatch_config \<Rightarrow> string option \<Rightarrow> ladder_choice" where
  "selectLadder cfg requested =
     (case dc_ladders cfg of
        None \<Rightarrow> \<lparr>lc_tier = None, lc_rungs = (case dc_ladder cfg of Some rs \<Rightarrow> rs | None \<Rightarrow> []), lc_missing = None\<rparr>
      | Some ladders \<Rightarrow>
          (let tier = (case requested of Some t \<Rightarrow> Some t | None \<Rightarrow> inferredTier cfg) in
           case (if truthy_text tier then Option.bind tier (map_of ladders) else None) of
             None \<Rightarrow> \<lparr>lc_tier = tier, lc_rungs = [], lc_missing = (if truthy_text tier then tier else None)\<rparr>
           | Some rungs \<Rightarrow> \<lparr>lc_tier = tier, lc_rungs = rungs, lc_missing = None\<rparr>))"

definition lookupLadderRung :: "dispatch_config \<Rightarrow> string \<Rightarrow> string option \<Rightarrow> ladder_rung option" where
  "lookupLadderRung cfg laneId tier =
     (if laneId = [] then None else find (\<lambda>r. rg_id r = laneId) (lc_rungs (selectLadder cfg tier)))"

definition allLadderRungs :: "dispatch_config \<Rightarrow> ladder_rung list" where
  "allLadderRungs cfg = (case dc_ladders cfg of Some ladders \<Rightarrow> concat (map snd ladders) | None \<Rightarrow> []) @
     (case dc_ladder cfg of Some rs \<Rightarrow> rs | None \<Rightarrow> [])"

definition findLadderRung :: "dispatch_config \<Rightarrow> string \<Rightarrow> ladder_rung option" where
  "findLadderRung cfg laneId = (if laneId = [] then None else find (\<lambda>r. rg_id r = laneId) (allLadderRungs cfg))"

section \<open>Exhausted quotas\<close>

record exhaustion =
  ex_cooldowns :: "(string, rat) jmap"
  ex_notified :: nat

definition DEFAULT_EXHAUSTED_MS :: rat where "DEFAULT_EXHAUSTED_MS = 15 * 60 * 1000"
definition MAX_EXHAUSTED_MS :: rat where "MAX_EXHAUSTED_MS = 30 * 24 * 60 * 60 * 1000"

definition cooldownKey :: "ladder_rung \<Rightarrow> string" where
  "cooldownKey rung = (if truthy_text (rg_quota rung) then ''quota:'' @ the (rg_quota rung) else ''rung:'' @ rg_id rung)"

definition cooldownUntil :: "ladder_rung \<Rightarrow> rat \<Rightarrow> exhaustion \<Rightarrow> exhaustion \<times> rat option" where
  "cooldownUntil rung now ex =
     (case jm_get (ex_cooldowns ex) (cooldownKey rung) of
        None \<Rightarrow> (ex, None)
      | Some moment \<Rightarrow>
          if moment \<le> now then (ex\<lparr>ex_cooldowns := jm_del (cooldownKey rung) (ex_cooldowns ex)\<rparr>, None) else (ex, Some moment))"

definition normalizeTtl :: "jsnum \<Rightarrow> rat" where
  "normalizeTtl ttlMs = (case ttlMs of Fin x \<Rightarrow> min MAX_EXHAUSTED_MS (max 0 x) | _ \<Rightarrow> DEFAULT_EXHAUSTED_MS)"

definition clampExhaustedDeadline :: "rat \<Rightarrow> rat \<Rightarrow> rat" where
  "clampExhaustedDeadline untilMs now = min (max now untilMs) (now + MAX_EXHAUSTED_MS)"

definition exhaustion_notify :: "exhaustion \<Rightarrow> exhaustion" where
  "exhaustion_notify ex = ex\<lparr>ex_notified := ex_notified ex + 1\<rparr>"

definition markExhaustedKey :: "string \<Rightarrow> jsnum \<Rightarrow> rat \<Rightarrow> exhaustion \<Rightarrow> exhaustion" where
  "markExhaustedKey key untilMs now ex =
     (case untilMs of
        Fin u \<Rightarrow> if key = [] then ex
          else exhaustion_notify (ex\<lparr>ex_cooldowns := jm_put key (clampExhaustedDeadline u now) (ex_cooldowns ex)\<rparr>)
      | _ \<Rightarrow> ex)"

definition markExhausted :: "dispatch_config \<Rightarrow> string \<Rightarrow> jsnum \<Rightarrow> string option \<Rightarrow> rat \<Rightarrow> exhaustion \<Rightarrow> exhaustion \<times> bool" where
  "markExhausted cfg laneId ttlMs tier now ex =
     (case lookupLadderRung cfg laneId tier of
        None \<Rightarrow> (ex, False)
      | Some rung \<Rightarrow> (markExhaustedKey (cooldownKey rung) (Fin (now + normalizeTtl ttlMs)) now ex, True))"

definition clearExhaustedKey :: "string \<Rightarrow> exhaustion \<Rightarrow> exhaustion" where
  "clearExhaustedKey key ex =
     (if jm_get (ex_cooldowns ex) key = None then ex
      else exhaustion_notify (ex\<lparr>ex_cooldowns := jm_del key (ex_cooldowns ex)\<rparr>))"

definition clearExhausted :: "dispatch_config \<Rightarrow> string option \<Rightarrow> string option \<Rightarrow> exhaustion \<Rightarrow> exhaustion" where
  "clearExhausted cfg laneId tier ex =
     (case laneId of
        None \<Rightarrow> if ex_cooldowns ex = [] then ex else exhaustion_notify (ex\<lparr>ex_cooldowns := []\<rparr>)
      | Some i \<Rightarrow> (case lookupLadderRung cfg i tier of None \<Rightarrow> ex | Some rung \<Rightarrow> clearExhaustedKey (cooldownKey rung) ex))"

definition exportExhaustedRows :: "rat \<Rightarrow> exhaustion \<Rightarrow> (string \<times> rat) list" where
  "exportExhaustedRows now ex = filter (\<lambda>(key, moment). now < moment) (ex_cooldowns ex)"

fun restore_exhausted :: "rat \<Rightarrow> (string \<times> jsnum) list \<Rightarrow> (string, rat) jmap \<Rightarrow> (string, rat) jmap \<times> nat" where
  "restore_exhausted now [] m = (m, 0)"
| "restore_exhausted now ((key, moment) # rows) m =
     (case moment of
        Fin u \<Rightarrow>
          if key = [] \<or> u \<le> now \<or> jm_get m key \<noteq> None then restore_exhausted now rows m
          else (let (m1, n) = restore_exhausted now rows (jm_put key (clampExhaustedDeadline u now) m) in (m1, n + 1))
      | _ \<Rightarrow> restore_exhausted now rows m)"

definition restoreExhaustedRows :: "(string \<times> jsnum) list \<Rightarrow> rat \<Rightarrow> exhaustion \<Rightarrow> exhaustion \<times> nat" where
  "restoreExhaustedRows rows now ex =
     (let (m, restored) = restore_exhausted now rows (ex_cooldowns ex); ex1 = ex\<lparr>ex_cooldowns := m\<rparr>
      in (if 0 < restored then exhaustion_notify ex1 else ex1, restored))"

section \<open>The automatic spec\<close>

definition AUTO_TIERS :: "string list" where
  "AUTO_TIERS = [''low'', ''medium'', ''high'', ''xhigh'']"

definition normalizeAutoTier :: "string option \<Rightarrow> string" where
  "normalizeAutoTier tier =
     (case tier of None \<Rightarrow> ''medium''
      | Some t \<Rightarrow> let lower = toLowerCase (js_trim t) in if lower \<in> set AUTO_TIERS then lower else ''medium'')"

fun first_open_relay :: "ladder_rung list \<Rightarrow> rat \<Rightarrow> exhaustion \<Rightarrow> exhaustion \<times> string option" where
  "first_open_relay [] now ex = (ex, None)"
| "first_open_relay (rung # rungs) now ex =
     (if rg_kind rung = RelayRung \<and> truthy_text (rg_spec rung) \<and> rg_enabled rung
      then (let (ex1, moment) = cooldownUntil rung now ex in
            if moment = None then (ex1, rg_spec rung) else first_open_relay rungs now ex1)
      else first_open_relay rungs now ex)"

text \<open>The spec and the tier.\<close>

definition resolveAutoSpec :: "dispatch_config \<Rightarrow> string option \<Rightarrow> rat \<Rightarrow> exhaustion \<Rightarrow> exhaustion \<times> string \<times> string" where
  "resolveAutoSpec cfg rawTier now ex =
     (let tier = normalizeAutoTier rawTier;
          (ex1, spec) = first_open_relay (lc_rungs (selectLadder cfg (Some tier))) now ex
      in (ex1, (case spec of Some s \<Rightarrow> s | None \<Rightarrow> hd (dc_default cfg)), tier))"

end
