(* ===== verification/Dispatch_Lane.thy ===== *)
theory Dispatch_Lane
  imports Dispatch_Ladder
begin

text \<open>
  A lane of a dispatch view (\<^verbatim>\<open>dispatch.ts\<close>): how a rung is turned into something the asking host can start, and when it is not.
  The texts of reasons are constructors. The context window a spec publishes, the capability of a rung, and the path of the
  console launcher are parameters.
\<close>

section \<open>Invocations\<close>

record invocation =
  iv_command :: string
  iv_args :: "string list"
  iv_env :: "(string \<times> string option) list option"

definition TASK_TOKEN :: string where "TASK_TOKEN = ''{task}''"
definition SPEC_TOKEN :: string where "SPEC_TOKEN = ''{spec}''"
definition CONTEXT_TOKEN :: string where "CONTEXT_TOKEN = ''{contextWindow}''"

definition fill_task :: "string option \<Rightarrow> string \<Rightarrow> string" where
  "fill_task task a = (case task of None \<Rightarrow> a | Some t \<Rightarrow> replace_token TASK_TOKEN t a)"

definition normalizeCliCommand :: "string \<Rightarrow> bool \<Rightarrow> string" where
  "normalizeCliCommand command windows = (if windows \<and> toLowerCase command = ''agy'' then command @ ''.exe'' else command)"

definition isAlreadyLaneLaunched :: "string \<Rightarrow> string list \<Rightarrow> bool" where
  "isAlreadyLaneLaunched command args \<longleftrightarrow>
     toLowerCase command \<in> {''pwsh'', ''pwsh.exe'', ''powershell'', ''powershell.exe''} \<and>
     (let rest = dropWhile (\<lambda>a. a \<noteq> ''-File'' \<and> a \<noteq> ''/File'') args in
      case rest of f # target # _ \<Rightarrow> target \<noteq> [] \<and> toLowerCase (basename target) = ''lane-launch.ps1'' | _ \<Rightarrow> False)"

definition wrapForWindowsConsoleSafety :: "invocation \<Rightarrow> string option \<Rightarrow> bool \<Rightarrow> invocation" where
  "wrapForWindowsConsoleSafety invoke launcherPath windows =
     (case launcherPath of
        None \<Rightarrow> invoke
      | Some path \<Rightarrow>
          if \<not> windows \<or> isAlreadyLaneLaunched (iv_command invoke) (iv_args invoke) then invoke
          else invoke\<lparr>iv_command := ''pwsh'',
            iv_args := [''-NoProfile'', ''-ExecutionPolicy'', ''Bypass'', ''-File'', path, iv_command invoke] @ iv_args invoke\<rparr>)"

text \<open>\<open>show_tokens\<close> is the decimal text of a window.\<close>

definition transposeToCli :: "(rat \<Rightarrow> string) \<Rightarrow> string \<Rightarrow> cli_lane \<Rightarrow> string option \<Rightarrow> bool \<Rightarrow> rat option \<Rightarrow> invocation" where
  "transposeToCli show_tokens spec lane task windows contextWindow =
     (let fillShared = (\<lambda>value. let withSpec = replace_token SPEC_TOKEN spec value in
            case contextWindow of None \<Rightarrow> withSpec | Some w \<Rightarrow> replace_token CONTEXT_TOKEN (show_tokens w) withSpec);
          env = (case cl_env lane of None \<Rightarrow> []
            | Some vars \<Rightarrow> map (\<lambda>(name, v). (name, map_option fillShared v))
                (filter (\<lambda>(name, v). case v of None \<Rightarrow> True | Some s \<Rightarrow> \<not> (contextWindow = None \<and> contains_text s CONTEXT_TOKEN)) vars))
      in \<lparr>iv_command = normalizeCliCommand (cl_command lane) windows,
          iv_args = map (\<lambda>a. fill_task task (fillShared a)) (cl_args lane),
          iv_env = (if env = [] then None else Some env)\<rparr>)"

section \<open>Specs\<close>

text \<open>\<open>None\<close> when the spec names a pool that is not configured.\<close>

fun expandPoolSpecs :: "dispatch_config \<Rightarrow> string list \<Rightarrow> string list option" where
  "expandPoolSpecs cfg [] = Some []"
| "expandPoolSpecs cfg (s # ss) =
     (case (case splitSpec s of
        (p, Some name) \<Rightarrow> if p = ''pool'' then Option.bind (dc_pools cfg) (\<lambda>pools. map_of pools name) else Some [s]
      | (p, None) \<Rightarrow> Some [s]) of
        None \<Rightarrow> None
      | Some xs \<Rightarrow> map_option (\<lambda>ys. xs @ ys) (expandPoolSpecs cfg ss))"

definition reachableWithoutRelay :: "string \<Rightarrow> dispatch_config \<Rightarrow> bool" where
  "reachableWithoutRelay spec cfg =
     (case expandPoolSpecs cfg [spec] of
        None \<Rightarrow> False
      | Some specs \<Rightarrow> specs \<noteq> [] \<and> list_all (\<lambda>s. case map_of (dc_providers cfg) (fst (splitSpec s)) of
            None \<Rightarrow> False
          | Some p \<Rightarrow> prov_anthropic p \<and> prov_authEnv p = None \<and> \<not> prov_contained p) specs)"

record resolved_window =
  rw_tokens :: rat
  rw_source :: string

record spec_window =
  sw_window :: resolved_window
  sw_unknownMembers :: nat

fun smallest_window :: "(string \<Rightarrow> resolved_window option) \<Rightarrow> string list \<Rightarrow> resolved_window option \<Rightarrow> nat \<Rightarrow> resolved_window option \<times> nat" where
  "smallest_window published [] best unknown = (best, unknown)"
| "smallest_window published (s # ss) best unknown =
     (case published s of
        None \<Rightarrow> smallest_window published ss best (unknown + 1)
      | Some w \<Rightarrow>
          if rw_tokens w \<le> 0 then smallest_window published ss best (unknown + 1)
          else smallest_window published ss
            (case best of None \<Rightarrow> Some w | Some b \<Rightarrow> if rw_tokens w < rw_tokens b then Some w else Some b) unknown)"

definition degraded_tail :: "dispatch_config \<Rightarrow> string \<Rightarrow> string list" where
  "degraded_tail cfg spec =
     (let name = (if prefix_at ''pool/'' spec then drop 5 spec else []) in
      case Option.bind (dc_poolDegraded cfg) (\<lambda>d. map_of d name) of Some xs \<Rightarrow> xs | None \<Rightarrow> [])"

definition specContextWindow :: "string \<Rightarrow> dispatch_config \<Rightarrow> (string \<Rightarrow> resolved_window option) \<Rightarrow> spec_window option" where
  "specContextWindow spec cfg published =
     (case expandPoolSpecs cfg [spec] of
        None \<Rightarrow> None
      | Some [] \<Rightarrow> None
      | Some specs \<Rightarrow>
          (let tail = degraded_tail cfg spec;
               inBand = filter (\<lambda>s. s \<notin> set tail) specs;
               used = (if tail \<noteq> [] \<and> inBand \<noteq> [] then inBand else specs)
           in (case smallest_window published used None 0 of
               (None, unknown) \<Rightarrow> None
             | (Some best, unknown) \<Rightarrow> Some \<lparr>sw_window = best, sw_unknownMembers = unknown\<rparr>)))"

section \<open>The lane of a rung\<close>

datatype lane_state = LaneReady | LaneExhausted | LaneDisabled | LaneNotServable
datatype capability_basis = SnapshotBasis | PoolBand | UnknownBasis
datatype host_state = Routed | Bypassed | HostUnknown
datatype unreachable_reason = McpPassThrough string | NoSubagent string | NotRoutedHere string

text \<open>What one lane's statistics add up to.\<close>

record lane_totals =
  lt_calls :: nat
  lt_successes :: nat
  lt_failures :: nat
  lt_timeouts :: nat
  lt_wallClockMs :: "rat list"
  lt_lastAt :: "rat option"

record lane_stats_view =
  lv_calls :: nat
  lv_successes :: nat
  lv_failures :: nat
  lv_timeouts :: nat
  lv_median :: "rat option"
  lv_p95 :: "rat option"
  lv_lastAt :: "rat option"

record time_to_answer =
  ta_medianMs :: int
  ta_p80Ms :: int
  ta_samples :: nat
  ta_mode :: "dispatch_mode option"

record dispatch_lane =
  ln_id :: string
  ln_kind :: rung_kind
  ln_position :: nat
  ln_state :: lane_state
  ln_quota :: "string option"
  ln_note :: "string option"
  ln_maxConcurrent :: "nat option"
  ln_capability :: "effort_level option"
  ln_basis :: capability_basis
  ln_readyAt :: "rat option"
  ln_notServable :: bool
  ln_droppedArgs :: "string list"
  ln_invoke :: "invocation option"
  ln_spec :: "string option"
  ln_requiresDirective :: "bool option"
  ln_transposed :: bool
  ln_window :: "spec_window option"
  ln_unreachable :: "unreachable_reason option"
  ln_stats :: "lane_stats_view option"
  ln_pinned :: "affinity_row option"
  ln_demoted :: "affinity_row option"
  ln_timeToAnswer :: "time_to_answer option"
  ln_recentFailures :: nat
  ln_failing :: "nat option"
  ln_adHoc :: bool

record dispatch_options =
  do_client :: "string option"
  do_tier :: "string option"
  do_task :: "string option"
  do_manifest :: "lane_manifest option"
  do_lane :: "string option"
  do_after :: "string option"
  do_host :: "host_state option"
  do_published :: "(string \<Rightarrow> resolved_window option) option"
  do_mcp :: bool
  do_mode :: "dispatch_mode option"
  do_model :: "string option"

text \<open>What the process around a view gives it: whether it is Windows, the launcher, the text of a number, the capabilities.\<close>

record dispatch_env =
  de_windows :: bool
  de_launcherPath :: "string option"
  de_show_tokens :: "rat \<Rightarrow> string"
  de_effort :: "string \<Rightarrow> effort_level option"

text \<open>The model a rung names, its capability: a pool's band, else the highest effort its model's published evidence allows.\<close>

definition rungModel :: "ladder_rung \<Rightarrow> string option" where
  "rungModel rung = model_of_args (case rg_args rung of Some xs \<Rightarrow> xs | None \<Rightarrow> [])"

definition derivedCapability :: "ladder_rung \<Rightarrow> dispatch_config \<Rightarrow> (string \<Rightarrow> effort_level option) \<Rightarrow> effort_level option \<times> capability_basis" where
  "derivedCapability rung cfg effort_of =
     (let relaySpec = (if rg_kind rung = RelayRung then rg_spec rung else None);
          model = (if rg_kind rung = RelayRung then relaySpec else rungModel rung)
      in case relaySpec of
           Some s \<Rightarrow> if prefix_at ''pool/'' s
             then (case map_of (dc_poolEffort cfg) (drop 5 s) of None \<Rightarrow> (None, UnknownBasis) | Some e \<Rightarrow> (Some e, PoolBand))
             else (case effort_of s of Some e \<Rightarrow> (Some e, SnapshotBasis) | None \<Rightarrow> (None, UnknownBasis))
         | None \<Rightarrow>
             (case model of
                None \<Rightarrow> (None, UnknownBasis)
              | Some m \<Rightarrow> if prefix_at ''pool/'' m then (None, UnknownBasis)
                  else (case effort_of m of Some e \<Rightarrow> (Some e, SnapshotBasis) | None \<Rightarrow> (None, UnknownBasis))))"

definition unsupportedRungArgs :: "ladder_rung \<Rightarrow> lane_manifest option \<Rightarrow> rat \<Rightarrow> string list" where
  "unsupportedRungArgs rung manifest now =
     (case (rg_command rung, rungModel rung) of
        (Some command, Some model) \<Rightarrow>
          if command = [] \<or> model = [] then []
          else map fst (filter (\<lambda>(arg, v). arg \<noteq> ''--model'' \<and> unsupportedArgValues manifest command model arg v (rg_args rung) now)
            (arg_values (case rg_args rung of Some xs \<Rightarrow> xs | None \<Rightarrow> [])))
      | _ \<Rightarrow> [])"

definition verifyRungModel :: "ladder_rung \<Rightarrow> lane_manifest option \<Rightarrow> rat \<Rightarrow> model_verdict option" where
  "verifyRungModel rung manifest now =
     (case (rg_command rung, rungModel rung) of
        (Some command, Some model) \<Rightarrow>
          if command = [] \<or> model = [] then None else Some (verifyModel manifest command model (rg_args rung) now)
      | _ \<Rightarrow> None)"

definition bare_lane :: "ladder_rung \<Rightarrow> nat \<Rightarrow> dispatch_config \<Rightarrow> dispatch_env \<Rightarrow> rat option \<Rightarrow> dispatch_lane" where
  "bare_lane rung position cfg env moment =
     \<lparr>ln_id = rg_id rung, ln_kind = rg_kind rung, ln_position = position,
      ln_state = (if \<not> rg_enabled rung then LaneDisabled else if moment \<noteq> None then LaneExhausted else LaneReady),
      ln_quota = (if truthy_text (rg_quota rung) then rg_quota rung else None),
      ln_note = (if truthy_text (rg_note rung) then rg_note rung else None), ln_maxConcurrent = rg_maxConcurrent rung,
      ln_capability = fst (derivedCapability rung cfg (de_effort env)), ln_basis = snd (derivedCapability rung cfg (de_effort env)),
      ln_readyAt = moment, ln_notServable = False, ln_droppedArgs = [], ln_invoke = None, ln_spec = None, ln_requiresDirective = None,
      ln_transposed = False, ln_window = None, ln_unreachable = None, ln_stats = None, ln_pinned = None, ln_demoted = None,
      ln_timeToAnswer = None, ln_recentFailures = 0, ln_failing = None, ln_adHoc = False\<rparr>"

definition cli_part :: "ladder_rung \<Rightarrow> dispatch_options \<Rightarrow> dispatch_env \<Rightarrow> rat \<Rightarrow> dispatch_lane \<Rightarrow> dispatch_lane" where
  "cli_part rung opts env now lane =
     (case (rg_command rung, rg_args rung) of
        (Some command, Some args) \<Rightarrow>
          if rg_kind rung \<noteq> CliRung \<or> command = [] then lane
          else
            (let filled = map (fill_task (do_task opts)) args;
                 dropped = unsupportedRungArgs rung (do_manifest opts) now;
                 kept = (if dropped = [] then filled else stripArgs filled dropped);
                 invoke = \<lparr>iv_command = normalizeCliCommand command (de_windows env), iv_args = kept, iv_env = rg_env rung\<rparr>
             in if verifyRungModel rung (do_manifest opts) now = Some NotServableModel
                then lane\<lparr>ln_droppedArgs := dropped, ln_notServable := True, ln_state := LaneNotServable, ln_invoke := None\<rparr>
                else lane\<lparr>ln_droppedArgs := dropped, ln_invoke := Some invoke\<rparr>)
      | _ \<Rightarrow> lane)"

definition canAddressAsSubagent :: "host_state option \<Rightarrow> bool" where
  "canAddressAsSubagent host \<longleftrightarrow> host = Some Routed \<or> host = None"

definition mustTransposeEveryRung :: "host_state option \<Rightarrow> bool" where
  "mustTransposeEveryRung host \<longleftrightarrow> host = Some HostUnknown"

definition relay_part :: "ladder_rung \<Rightarrow> dispatch_config \<Rightarrow> dispatch_options \<Rightarrow> dispatch_env \<Rightarrow> string \<Rightarrow> dispatch_lane \<Rightarrow> dispatch_lane" where
  "relay_part rung cfg opts env client lane =
     (case rg_spec rung of
        None \<Rightarrow> lane
      | Some spec \<Rightarrow>
          if rg_kind rung \<noteq> RelayRung \<or> spec = [] then lane
          else if do_mcp opts \<and> reachableWithoutRelay spec cfg
          then lane\<lparr>ln_spec := Some spec, ln_unreachable := Some (McpPassThrough spec)\<rparr>
          else
            (let named = lane\<lparr>ln_spec := Some spec\<rparr> in
             if canAddressAsSubagent (do_host opts) then named\<lparr>ln_requiresDirective := Some (\<not> offloadEnabled cfg client)\<rparr>
             else if mustTransposeEveryRung (do_host opts) \<or> \<not> reachableWithoutRelay spec cfg
             then (case dc_cliLane cfg of
                 Some cli \<Rightarrow>
                   (let window = Option.bind (do_published opts) (specContextWindow spec cfg) in
                    named\<lparr>ln_invoke := Some (transposeToCli (de_show_tokens env) spec cli (do_task opts) (de_windows env)
                        (map_option (\<lambda>w. rw_tokens (sw_window w)) window)),
                      ln_transposed := True, ln_window := window\<rparr>)
               | None \<Rightarrow> named\<lparr>ln_unreachable := Some (if mustTransposeEveryRung (do_host opts) then NoSubagent spec else NotRoutedHere spec)\<rparr>)
             else named))"

definition wrapped_lane :: "dispatch_env \<Rightarrow> dispatch_lane \<Rightarrow> dispatch_lane" where
  "wrapped_lane env lane =
     lane\<lparr>ln_invoke := map_option (\<lambda>i. wrapForWindowsConsoleSafety i (de_launcherPath env) (de_windows env)) (ln_invoke lane)\<rparr>"

definition toLane ::
  "ladder_rung \<Rightarrow> nat \<Rightarrow> dispatch_config \<Rightarrow> dispatch_options \<Rightarrow> dispatch_env \<Rightarrow> rat \<Rightarrow> string \<Rightarrow> exhaustion \<Rightarrow> exhaustion \<times> dispatch_lane" where
  "toLane rung position cfg opts env now client ex =
     (let (ex1, moment) = cooldownUntil rung now ex
      in (ex1, wrapped_lane env (relay_part rung cfg opts env client (cli_part rung opts env now (bare_lane rung position cfg env moment)))))"

end
