(* ===== verification/Dispatch_View.thy ===== *)
theory Dispatch_View
  imports Dispatch_Lane
begin

text \<open>
  The dispatch view (\<^verbatim>\<open>buildDispatch\<close> of \<^verbatim>\<open>dispatch.ts\<close>): the lanes of a ladder with their statistics and affinity, the
  order in which a host should try them, and the lane to try next. The texts of the view's reasons are constructors.
\<close>

section \<open>Annotations\<close>

definition max_moment :: "rat option \<Rightarrow> rat option \<Rightarrow> rat option" where
  "max_moment a b = (case a of None \<Rightarrow> b | Some x \<Rightarrow> (case b of None \<Rightarrow> Some x | Some y \<Rightarrow> Some (max x y)))"

definition add_totals :: "lane_stats \<Rightarrow> (string, lane_totals) jmap \<Rightarrow> (string, lane_totals) jmap" where
  "add_totals row m =
     (case jm_get m (ls_laneId row) of
        None \<Rightarrow> jm_put (ls_laneId row) \<lparr>lt_calls = ls_calls row, lt_successes = ls_successes row, lt_failures = ls_failures row,
          lt_timeouts = ls_timeouts row, lt_wallClockMs = ls_wallClockMs row, lt_lastAt = ls_lastAt row\<rparr> m
      | Some t \<Rightarrow> jm_put (ls_laneId row) \<lparr>lt_calls = lt_calls t + ls_calls row, lt_successes = lt_successes t + ls_successes row,
          lt_failures = lt_failures t + ls_failures row, lt_timeouts = lt_timeouts t + ls_timeouts row,
          lt_wallClockMs = lt_wallClockMs t @ ls_wallClockMs row, lt_lastAt = max_moment (lt_lastAt t) (ls_lastAt row)\<rparr> m)"

definition stats_view :: "lane_totals \<Rightarrow> lane_stats_view" where
  "stats_view t = \<lparr>lv_calls = lt_calls t, lv_successes = lt_successes t, lv_failures = lt_failures t, lv_timeouts = lt_timeouts t,
     lv_median = medianWallClockMs (lt_wallClockMs t), lv_p95 = p95WallClockMs (lt_wallClockMs t), lv_lastAt = lt_lastAt t\<rparr>"

definition annotateLaneStats :: "lane_memory \<Rightarrow> dispatch_lane list \<Rightarrow> dispatch_lane list" where
  "annotateLaneStats stats ladder =
     (let totals = fold add_totals (allLaneStats stats) [] in
      map (\<lambda>lane. case jm_get totals (ln_id lane) of None \<Rightarrow> lane | Some t \<Rightarrow> lane\<lparr>ln_stats := Some (stats_view t)\<rparr>) ladder)"

definition laneWindows :: "lane_memory \<Rightarrow> string \<Rightarrow> string option \<Rightarrow> dispatch_mode option \<Rightarrow> lane_stats list" where
  "laneWindows stats laneId tier mode =
     List.map_filter (\<lambda>(t, m). laneStatsFor stats laneId t m) (rev (remdups (rev [(tier, mode), (tier, None), (None, mode), (None, None)])))"

definition laneHistoryFacts :: "dispatch_config \<Rightarrow> lane_memory \<Rightarrow> string \<Rightarrow> string option \<Rightarrow> dispatch_mode option \<Rightarrow> time_to_answer option \<times> nat" where
  "laneHistoryFacts cfg stats laneId tier mode =
     (let windows = laneWindows stats laneId tier mode;
          minSamples = (case dc_walk cfg of Some w \<Rightarrow> wk_attemptMinSamples w | None \<Rightarrow> 5);
          sampled = find (\<lambda>w. minSamples \<le> length (ls_wallClockMs w)) windows;
          hinted = (case sampled of Some w \<Rightarrow> Some w | None \<Rightarrow> find (\<lambda>w. 0 < length (ls_wallClockMs w)) windows);
          rounded = (\<lambda>v. round_half_up (case v of Some x \<Rightarrow> x | None \<Rightarrow> 0))
      in (map_option (\<lambda>w. \<lparr>ta_medianMs = rounded (medianWallClockMs (ls_wallClockMs w)),
            ta_p80Ms = rounded (quantileWallClockMs (ls_wallClockMs w) (Fin (8 / 10))), ta_samples = length (ls_wallClockMs w),
            ta_mode = ls_mode w\<rparr>) hinted,
          case windows of [] \<Rightarrow> 0 | w # ws \<Rightarrow> ls_consecutiveFailures w))"

definition FAILING_LANE_STREAK :: nat where
  "FAILING_LANE_STREAK = 5"

definition isSelectable :: "dispatch_lane \<Rightarrow> bool" where
  "isSelectable lane \<longleftrightarrow> ln_state lane = LaneReady \<and> ln_unreachable lane = None \<and> \<not> ln_notServable lane"

definition walk_on :: "dispatch_config \<Rightarrow> bool" where
  "walk_on cfg \<longleftrightarrow> (case dc_walk cfg of Some w \<Rightarrow> wk_enabled w | None \<Rightarrow> False)"

definition annotateLaneHistory ::
  "dispatch_config \<Rightarrow> lane_memory \<Rightarrow> string option \<Rightarrow> dispatch_mode option \<Rightarrow> dispatch_lane list \<Rightarrow> dispatch_lane list" where
  "annotateLaneHistory cfg stats tier mode ladder =
     map (\<lambda>lane. let (answer, failures) = laneHistoryFacts cfg stats (ln_id lane) tier mode;
            lane1 = lane\<lparr>ln_timeToAnswer := answer, ln_recentFailures := failures\<rparr>
          in if walk_on cfg \<and> FAILING_LANE_STREAK \<le> failures \<and> isSelectable lane then lane1\<lparr>ln_failing := Some failures\<rparr> else lane1) ladder"

fun annotateAffinity :: "string option \<Rightarrow> rat \<Rightarrow> dispatch_lane list \<Rightarrow> lane_affinity \<Rightarrow> lane_affinity \<times> dispatch_lane list" where
  "annotateAffinity tier now [] s = (s, [])"
| "annotateAffinity tier now (lane # lanes) s =
     (let (s2, lane1) = (if \<not> isSelectable lane then (s, lane)
            else (let (s1, pin) = lanePin tier (ln_id lane) now s; (s2, demotion) = laneDemotion tier (ln_id lane) now s1
                  in (s2, lane\<lparr>ln_pinned := pin, ln_demoted := demotion\<rparr>)));
          (s3, rest) = annotateAffinity tier now lanes s2
      in (s3, lane1 # rest))"

section \<open>The order\<close>

definition lane_rank :: "dispatch_lane \<Rightarrow> nat" where
  "lane_rank lane = (if ln_pinned lane \<noteq> None then 0 else if ln_demoted lane \<noteq> None \<or> ln_failing lane \<noteq> None then 2 else 1)"

definition rankSelectable :: "dispatch_lane list \<Rightarrow> dispatch_lane list" where
  "rankSelectable usable = js_sort (\<lambda>a b. lane_rank a \<le> lane_rank b) usable"

datatype view_reason =
    MissingTier string | NoLadder | NoSuchLane string | ForcedUnreachable | ForcedReady | ForcedNow lane_state
  | LaneOrModel | UnknownSpec string | NamedModel | NamedUnreachable
  | NothingAfter string nat | NothingReady nat
  | PinnedFirst | FirstAfter string | OnlyDemoted | FirstInLadder | FirstUndemoted nat nat nat

definition selectionReason :: "dispatch_lane \<Rightarrow> string option \<Rightarrow> dispatch_lane list \<Rightarrow> view_reason" where
  "selectionReason picked after usable =
     (if ln_pinned picked \<noteq> None then PinnedFirst
      else (case after of
          Some a \<Rightarrow> FirstAfter a
        | None \<Rightarrow>
            if ln_demoted picked \<noteq> None \<or> ln_failing picked \<noteq> None then OnlyDemoted
            else if ln_position picked = 1 then FirstInLadder
            else
              (let ahead = filter (\<lambda>l. ln_position l < ln_position picked) usable;
                   aheadFailing = length (filter (\<lambda>l. ln_failing l \<noteq> None) ahead);
                   aheadDemoted = length ahead - aheadFailing;
                   aheadUnavailable = ln_position picked - 1 - length ahead
               in if aheadUnavailable = 0 \<and> aheadDemoted = 0 \<and> aheadFailing = 0 then FirstInLadder
                  else FirstUndemoted aheadUnavailable aheadDemoted aheadFailing)))"

section \<open>The view\<close>

record dispatch_view =
  dv_tier :: "string option"
  dv_offload :: bool
  dv_client :: string
  dv_host :: host_state
  dv_ladder :: "dispatch_lane list"
  dv_order :: "string list"
  dv_next :: "dispatch_lane option"
  dv_reason :: view_reason

definition forcedLaneView :: "dispatch_view \<Rightarrow> string \<Rightarrow> dispatch_view" where
  "forcedLaneView base laneId =
     (case find (\<lambda>l. ln_id l = laneId) (dv_ladder base) of
        None \<Rightarrow> base\<lparr>dv_order := [], dv_next := None, dv_reason := NoSuchLane laneId\<rparr>
      | Some forced \<Rightarrow> base\<lparr>dv_order := [ln_id forced], dv_next := Some forced,
          dv_reason := (if ln_unreachable forced \<noteq> None then ForcedUnreachable
            else if ln_state forced = LaneReady then ForcedReady else ForcedNow (ln_state forced))\<rparr>)"

definition rankedView :: "dispatch_view \<Rightarrow> string option \<Rightarrow> dispatch_view" where
  "rankedView base after =
     (let ladder = dv_ladder base in
      case (case after of None \<Rightarrow> Some ladder
        | Some a \<Rightarrow> (case dropWhile (\<lambda>l. ln_id l \<noteq> a) ladder of [] \<Rightarrow> None | l # ls \<Rightarrow> Some ls)) of
        None \<Rightarrow> base\<lparr>dv_order := [], dv_next := None, dv_reason := NoSuchLane (the after)\<rparr>
      | Some pool \<Rightarrow>
          (let usable = filter isSelectable pool; ranked = rankSelectable usable;
               blocked = length (filter (\<lambda>l. ln_unreachable l \<noteq> None) pool)
           in case ranked of
                [] \<Rightarrow> base\<lparr>dv_order := [], dv_next := None,
                  dv_reason := (case after of Some a \<Rightarrow> NothingAfter a blocked | None \<Rightarrow> NothingReady blocked)\<rparr>
              | picked # rest \<Rightarrow> base\<lparr>dv_order := map ln_id ranked, dv_next := Some picked,
                  dv_reason := selectionReason picked after usable\<rparr>))"

definition control_char :: "char \<Rightarrow> bool" where
  "control_char c = (let n = of_char c :: nat in n \<le> 31 \<or> (127 \<le> n \<and> n \<le> 159))"

text \<open>Whether the spec cannot be routed at all.\<close>

definition unknownModel :: "dispatch_config \<Rightarrow> string \<Rightarrow> bool" where
  "unknownModel cfg spec =
     (if list_ex (\<lambda>c. js_space c \<or> control_char c) spec then True
      else if spec = ''auto'' then False
      else (let (provider, model) = splitSpec spec in
        if provider = ''pool''
        then \<not> (case model of None \<Rightarrow> False | Some m \<Rightarrow> m \<in> fst ` set (case dc_pools cfg of Some ps \<Rightarrow> ps | None \<Rightarrow> []))
        else provider \<notin> fst ` set (dc_providers cfg)))"

definition model_rung :: "string \<Rightarrow> ladder_rung" where
  "model_rung spec = \<lparr>rg_id = ''model:'' @ spec, rg_kind = RelayRung, rg_enabled = True, rg_quota = None, rg_note = None,
     rg_command = None, rg_args = None, rg_env = None, rg_maxConcurrent = None, rg_spec = Some spec\<rparr>"

record dispatch_state =
  dx_exhaustion :: exhaustion
  dx_stats :: lane_memory
  dx_affinity :: lane_affinity

fun make_lanes ::
  "dispatch_config \<Rightarrow> dispatch_options \<Rightarrow> dispatch_env \<Rightarrow> rat \<Rightarrow> string \<Rightarrow> ladder_rung list \<Rightarrow> nat \<Rightarrow> exhaustion \<Rightarrow> exhaustion \<times> dispatch_lane list" where
  "make_lanes cfg opts env now client [] position ex = (ex, [])"
| "make_lanes cfg opts env now client (rung # rungs) position ex =
     (let (ex1, lane) = toLane rung position cfg opts env now client ex;
          (ex2, lanes) = make_lanes cfg opts env now client rungs (position + 1) ex1
      in (ex2, lane # lanes))"

definition modelView ::
  "dispatch_config \<Rightarrow> dispatch_options \<Rightarrow> dispatch_env \<Rightarrow> rat \<Rightarrow> string \<Rightarrow> dispatch_view \<Rightarrow> string \<Rightarrow> exhaustion \<Rightarrow> exhaustion \<times> dispatch_view" where
  "modelView cfg opts env now client base spec ex =
     (if do_lane opts \<noteq> None then (ex, base\<lparr>dv_order := [], dv_next := None, dv_reason := LaneOrModel\<rparr>)
      else if unknownModel cfg spec then (ex, base\<lparr>dv_order := [], dv_next := None, dv_reason := UnknownSpec spec\<rparr>)
      else (let (ex1, lane0) = toLane (model_rung spec) (length (dv_ladder base) + 1) cfg opts env now client ex;
                lane = lane0\<lparr>ln_adHoc := True\<rparr>
            in (ex1, base\<lparr>dv_ladder := dv_ladder base @ [lane], dv_order := [ln_id lane], dv_next := Some lane,
                  dv_reason := (if ln_unreachable lane = None then NamedModel else NamedUnreachable)\<rparr>)))"

text \<open>The options are those \<^verbatim>\<open>normalizeOptions\<close> lets through: present texts are not empty.\<close>

definition client_of :: "dispatch_options \<Rightarrow> string" where
  "client_of opts = (case do_client opts of Some c \<Rightarrow> c | None \<Rightarrow> ''default'')"

definition view_ladder ::
  "dispatch_config \<Rightarrow> dispatch_options \<Rightarrow> dispatch_env \<Rightarrow> rat \<Rightarrow> dispatch_state \<Rightarrow> dispatch_state \<times> dispatch_lane list" where
  "view_ladder cfg opts env now st =
     (let selected = selectLadder cfg (do_tier opts);
          (ex1, made) = make_lanes cfg opts env now (client_of opts) (lc_rungs selected) 1 (dx_exhaustion st);
          counted = annotateLaneHistory cfg (dx_stats st) (lc_tier selected) (do_mode opts) (annotateLaneStats (dx_stats st) made);
          (af1, ladder) = (if walk_on cfg then annotateAffinity (lc_tier selected) now counted (dx_affinity st) else (dx_affinity st, counted))
      in (st\<lparr>dx_exhaustion := ex1, dx_affinity := af1\<rparr>, ladder))"

definition view_base :: "dispatch_config \<Rightarrow> dispatch_options \<Rightarrow> dispatch_lane list \<Rightarrow> dispatch_view" where
  "view_base cfg opts ladder =
     \<lparr>dv_tier = lc_tier (selectLadder cfg (do_tier opts)), dv_offload = offloadEnabled cfg (client_of opts), dv_client = client_of opts,
      dv_host = (case do_host opts of Some h \<Rightarrow> h | None \<Rightarrow> HostUnknown), dv_ladder = ladder, dv_order = [], dv_next = None,
      dv_reason = NoLadder\<rparr>"

definition buildDispatch ::
  "dispatch_config \<Rightarrow> dispatch_options \<Rightarrow> dispatch_env \<Rightarrow> rat \<Rightarrow> dispatch_state \<Rightarrow> dispatch_state \<times> dispatch_view" where
  "buildDispatch cfg opts env now st =
     (let (st1, ladder) = view_ladder cfg opts env now st; base = view_base cfg opts ladder
      in case do_model opts of
           Some spec \<Rightarrow>
             (let (ex2, view) = modelView cfg opts env now (client_of opts) base spec (dx_exhaustion st1)
              in (st1\<lparr>dx_exhaustion := ex2\<rparr>, view))
         | None \<Rightarrow>
             (st1, (case lc_missing (selectLadder cfg (do_tier opts)) of
                Some t \<Rightarrow> base\<lparr>dv_reason := MissingTier t\<rparr>
              | None \<Rightarrow>
                  if ladder = [] then base
                  else (case do_lane opts of Some l \<Rightarrow> forcedLaneView base l | None \<Rightarrow> rankedView base (do_after opts)))))"

end
