(* ===== verification/Dispatch_Props.thy ===== *)
theory Dispatch_Props
  imports Dispatch_View "HOL-Library.Sublist"
begin

text \<open>
  The properties of dispatch: the order of a view, the lane to try next, the quotas that are resting, and the arguments a lane
  loses.
\<close>

section \<open>The order of the lanes\<close>

lemma rankSelectable_key: "rankSelectable ls = sort_key lane_rank ls"
  by (simp add: rankSelectable_def js_sort_key)

interpretation dl: demote_only rankSelectable lane_rank
  by unfold_locales (simp_all add: rankSelectable_key sorted_sort_key)

definition pool_after :: "string option \<Rightarrow> dispatch_lane list \<Rightarrow> dispatch_lane list" where
  "pool_after after ladder =
     (case after of None \<Rightarrow> ladder | Some a \<Rightarrow> tl (dropWhile (\<lambda>l. ln_id l \<noteq> a) ladder))"

lemma rankedView_parts:
  assumes "\<And>a. after = Some a \<Longrightarrow> a \<in> ln_id ` set (dv_ladder base)"
  shows "dv_ladder (rankedView base after) = dv_ladder base"
    and "dv_order (rankedView base after) = map ln_id (rankSelectable (filter isSelectable (pool_after after (dv_ladder base))))"
    and "dv_next (rankedView base after) = (case rankSelectable (filter isSelectable (pool_after after (dv_ladder base))) of
      [] \<Rightarrow> None | l # ls \<Rightarrow> Some l)"
proof -
  let ?pool = "pool_after after (dv_ladder base)"
  have pool: "(case after of None \<Rightarrow> Some (dv_ladder base)
      | Some a \<Rightarrow> (case dropWhile (\<lambda>l. ln_id l \<noteq> a) (dv_ladder base) of [] \<Rightarrow> None | l # ls \<Rightarrow> Some ls)) = Some ?pool"
  proof (cases after)
    case (Some a)
    then have "dropWhile (\<lambda>l. ln_id l \<noteq> a) (dv_ladder base) \<noteq> []" using assms [of a] by (auto simp: dropWhile_eq_Nil_conv)
    then show ?thesis using Some
      by (cases "dropWhile (\<lambda>l. ln_id l \<noteq> a) (dv_ladder base)") (simp_all add: pool_after_def)
  qed (simp add: pool_after_def)
  show "dv_ladder (rankedView base after) = dv_ladder base"
    "dv_order (rankedView base after) = map ln_id (rankSelectable (filter isSelectable ?pool))"
    "dv_next (rankedView base after) = (case rankSelectable (filter isSelectable ?pool) of [] \<Rightarrow> None | l # ls \<Rightarrow> Some l)"
    unfolding rankedView_def Let_def pool by (simp_all split: list.split)
qed

text \<open>What a view without a lane or a model asked for is made of.\<close>

lemma build_ranked:
  assumes "do_model opts = None" and "do_lane opts = None" and "lc_missing (selectLadder cfg (do_tier opts)) = None"
  shows "snd (buildDispatch cfg opts env now st) =
    (let base = view_base cfg opts (snd (view_ladder cfg opts env now st))
     in if snd (view_ladder cfg opts env now st) = [] then base else rankedView base (do_after opts))"
  using assms by (simp add: buildDispatch_def Let_def split: prod.split)

lemma view_base_parts [simp]:
  "dv_ladder (view_base cfg opts ladder) = ladder" "dv_order (view_base cfg opts ladder) = []" "dv_next (view_base cfg opts ladder) = None"
  by (simp_all add: view_base_def)

text \<open>The order of a view in general; of the lanes after the named one, when one is named and is on the ladder.\<close>

lemma view_order_shape:
  assumes "do_model opts = None" and "do_lane opts = None" and "lc_missing (selectLadder cfg (do_tier opts)) = None"
    and "v = snd (buildDispatch cfg opts env now st)" and "\<forall>a. do_after opts = Some a \<longrightarrow> a \<in> ln_id ` set (dv_ladder v)"
  shows "\<exists>ranked. dv_order v = map ln_id ranked \<and> dv_next v = (case ranked of [] \<Rightarrow> None | l # ls \<Rightarrow> Some l) \<and>
    mset ranked = mset (filter isSelectable (pool_after (do_after opts) (dv_ladder v))) \<and> sorted (map lane_rank ranked) \<and>
    (\<forall>k. filter (\<lambda>l. lane_rank l = k) ranked = filter (\<lambda>l. isSelectable l \<and> lane_rank l = k) (pool_after (do_after opts) (dv_ladder v)))"
proof -
  define ladder where "ladder = snd (view_ladder cfg opts env now st)"
  let ?base = "view_base cfg opts ladder"
  have v: "v = (if ladder = [] then ?base else rankedView ?base (do_after opts))"
    using build_ranked [OF assms(1-3)] assms(4) by (simp add: ladder_def Let_def)
  show ?thesis
  proof (cases "ladder = []")
    case True
    then have "pool_after (do_after opts) (dv_ladder v) = []" using v by (simp add: pool_after_def split: option.split)
    then show ?thesis using v True by (intro exI [of _ "[]"]) simp
  next
    case False
    have l: "dv_ladder v = ladder" using v False by (simp add: rankedView_def Let_def split: option.split list.split)
    have after: "a \<in> ln_id ` set (dv_ladder ?base)" if "do_after opts = Some a" for a using assms(5) that l by simp
    let ?ranked = "rankSelectable (filter isSelectable (pool_after (do_after opts) ladder))"
    have "dv_order v = map ln_id ?ranked" "dv_next v = (case ?ranked of [] \<Rightarrow> None | x # xs \<Rightarrow> Some x)"
      using rankedView_parts [of "do_after opts" ?base, OF after] v False by simp_all
    moreover have "filter (\<lambda>l. lane_rank l = k) ?ranked = filter (\<lambda>l. isSelectable l \<and> lane_rank l = k) (pool_after (do_after opts) ladder)" for k
      by (simp add: rankSelectable_key sort_key_stable conj_commute)
    ultimately show ?thesis unfolding l using dl.order_mset dl.order_ranked by (intro exI [of _ ?ranked]) simp
  qed
qed

definition sample_rung :: "string \<Rightarrow> bool \<Rightarrow> string option \<Rightarrow> ladder_rung" where
  "sample_rung i enabled quota = \<lparr>rg_id = i, rg_kind = CliRung, rg_enabled = enabled, rg_quota = quota, rg_note = None, rg_command = Some ''codex'',
     rg_args = Some [''exec'', TASK_TOKEN], rg_env = None, rg_maxConcurrent = None, rg_spec = None\<rparr>"

definition sample_config :: dispatch_config where
  "sample_config = \<lparr>dc_ladders = None,
     dc_ladder = Some [sample_rung ''off'' False None, sample_rung ''one'' True (Some ''plan''), sample_rung ''two'' True None,
       sample_rung ''three'' True (Some ''plan'')],
     dc_subagentDefault = None, dc_pools = None, dc_poolDegraded = None, dc_poolEffort = [], dc_providers = [], dc_cliLane = None,
     dc_walk = None, dc_offload = OffloadFlag None, dc_default = [''auto'']\<rparr>"

definition sample_options :: dispatch_options where
  "sample_options = \<lparr>do_client = None, do_tier = None, do_task = Some ''fix it'', do_manifest = None, do_lane = None, do_after = None,
     do_host = None, do_published = None, do_mcp = False, do_mode = None, do_model = None\<rparr>"

definition sample_env :: dispatch_env where
  "sample_env = \<lparr>de_windows = False, de_launcherPath = None, de_show_tokens = (\<lambda>w. []), de_effort = (\<lambda>s. None)\<rparr>"

definition sample_state :: dispatch_state where
  "sample_state = \<lparr>dx_exhaustion = \<lparr>ex_cooldowns = [(''quota:plan'', 100)], ex_notified = 0\<rparr>,
     dx_stats = \<lparr>lm_stats = [], lm_notified = 0\<rparr>, dx_affinity = \<lparr>la_map = [], la_notified = 0\<rparr>\<rparr>"

section \<open>A resting quota\<close>

definition resting :: "rat \<Rightarrow> exhaustion \<Rightarrow> string \<Rightarrow> bool" where
  "resting now ex key = (case jm_get (ex_cooldowns ex) key of None \<Rightarrow> False | Some moment \<Rightarrow> now < moment)"

lemma cooldownUntil_resting [simp]:
  "(snd (cooldownUntil rung now ex) = None) = (\<not> resting now ex (cooldownKey rung))"
  "resting now (fst (cooldownUntil rung now ex)) key = resting now ex key"
  by (auto simp: cooldownUntil_def resting_def jm_laws split: option.splits)

definition shape_of :: "dispatch_lane \<Rightarrow> string \<times> bool" where
  "shape_of l = (ln_id l, isSelectable l)"

lemma toLane_shape:
  assumes "toLane rung position cfg opts env now client ex = (ex1, lane)"
  shows "ln_id lane = rg_id rung" and "isSelectable lane \<Longrightarrow> rg_enabled rung \<and> \<not> resting now ex (cooldownKey rung)"
    and "resting now ex1 key = resting now ex key"
proof -
  obtain moment where c: "cooldownUntil rung now ex = (ex1, moment)" using assms by (auto simp: toLane_def Let_def split: prod.splits)
  let ?bare = "bare_lane rung position cfg env moment"
  have lane: "lane = wrapped_lane env (relay_part rung cfg opts env client (cli_part rung opts env now ?bare))"
    using assms c by (simp add: toLane_def)
  have cli: "ln_id (cli_part rung opts env now l) = ln_id l" "ln_state (cli_part rung opts env now l) \<in> {ln_state l, LaneNotServable}" for l
    by (auto simp: cli_part_def Let_def split: option.split)
  have relay: "ln_id (relay_part rung cfg opts env client l) = ln_id l" "ln_state (relay_part rung cfg opts env client l) = ln_state l" for l
    by (simp_all add: relay_part_def Let_def split: option.split)
  show "ln_id lane = rg_id rung" by (simp add: lane wrapped_lane_def relay cli bare_lane_def)
  show "resting now ex1 key = resting now ex key" using cooldownUntil_resting(2) [of now rung ex key] c by simp
  assume "isSelectable lane"
  then have "ln_state ?bare = LaneReady" using cli(2) [of ?bare] by (auto simp: isSelectable_def lane wrapped_lane_def relay)
  then have "rg_enabled rung" "moment = None" by (auto simp: bare_lane_def split: if_splits)
  then show "rg_enabled rung \<and> \<not> resting now ex (cooldownKey rung)" using cooldownUntil_resting(1) [of rung now ex] c by simp
qed

lemma make_lanes_shape:
  assumes "make_lanes cfg opts env now client rungs position ex = (ex1, lanes)" and "lane \<in> set lanes"
  shows "\<exists>rung \<in> set rungs. ln_id lane = rg_id rung \<and> (isSelectable lane \<longrightarrow> rg_enabled rung \<and> \<not> resting now ex (cooldownKey rung))"
  using assms
proof (induction rungs arbitrary: position ex ex1 lanes)
  case Nil then show ?case by simp
next
  case (Cons r rs)
  obtain e l where first: "toLane r position cfg opts env now client ex = (e, l)" by force
  obtain e2 ls where rest: "make_lanes cfg opts env now client rs (position + 1) e = (e2, ls)" by force
  have "lane = l \<or> lane \<in> set ls" using Cons.prems first rest by auto
  then show ?case
  proof
    assume "lane = l"
    then show ?thesis using toLane_shape(1,2) [OF first] by auto
  next
    assume "lane \<in> set ls"
    then show ?thesis using Cons.IH [OF rest] toLane_shape(3) [OF first] by auto
  qed
qed

lemma shape_of_keep [simp]:
  "shape_of (l\<lparr>ln_stats := v\<rparr>) = shape_of l" "shape_of (l\<lparr>ln_timeToAnswer := w\<rparr>) = shape_of l"
  "shape_of (l\<lparr>ln_recentFailures := n\<rparr>) = shape_of l" "shape_of (l\<lparr>ln_failing := f\<rparr>) = shape_of l"
  "shape_of (l\<lparr>ln_pinned := p\<rparr>) = shape_of l" "shape_of (l\<lparr>ln_demoted := p\<rparr>) = shape_of l"
  by (simp_all add: shape_of_def isSelectable_def)

lemma annotateLaneStats_shape [simp]: "map shape_of (annotateLaneStats stats ladder) = map shape_of ladder"
  by (simp add: annotateLaneStats_def Let_def comp_def split: option.split)

lemma annotateLaneHistory_shape [simp]: "map shape_of (annotateLaneHistory cfg stats tier mode ladder) = map shape_of ladder"
  by (simp add: annotateLaneHistory_def Let_def comp_def split: prod.split)

lemma annotateAffinity_shape [simp]: "map shape_of (snd (annotateAffinity tier now ladder s)) = map shape_of ladder"
  by (induction tier now ladder s rule: annotateAffinity.induct) (auto simp: Let_def split: prod.splits)

lemma view_ladder_shape:
  assumes "lane \<in> set (snd (view_ladder cfg opts env now st))"
  shows "\<exists>rung \<in> set (lc_rungs (selectLadder cfg (do_tier opts))). ln_id lane = rg_id rung \<and>
    (isSelectable lane \<longrightarrow> rg_enabled rung \<and> \<not> resting now (dx_exhaustion st) (cooldownKey rung))"
proof -
  obtain ex1 made where m: "make_lanes cfg opts env now (client_of opts) (lc_rungs (selectLadder cfg (do_tier opts))) 1 (dx_exhaustion st) = (ex1, made)"
    by force
  have "map shape_of (snd (view_ladder cfg opts env now st)) = map shape_of made"
    by (cases "walk_on cfg") (simp_all add: view_ladder_def Let_def m case_prod_unfold del: One_nat_def)
  then have "set (map shape_of (snd (view_ladder cfg opts env now st))) = set (map shape_of made)" by (rule arg_cong)
  then have "shape_of lane \<in> shape_of ` set made" using assms by (simp only: list.set_map) (metis image_eqI)
  then obtain l where "l \<in> set made" "ln_id lane = ln_id l" "isSelectable lane = isSelectable l" by (auto simp: shape_of_def)
  then show ?thesis using make_lanes_shape [OF m] by auto
qed

lemma missing_no_lanes: "lc_missing (selectLadder cfg (do_tier opts)) \<noteq> None \<Longrightarrow> snd (view_ladder cfg opts env now st) = []"
proof -
  assume "lc_missing (selectLadder cfg (do_tier opts)) \<noteq> None"
  then have "lc_rungs (selectLadder cfg (do_tier opts)) = []" by (auto simp: selectLadder_def Let_def split: option.splits)
  then show ?thesis using view_ladder_shape [of _ cfg opts env now st] by (cases "snd (view_ladder cfg opts env now st)") auto
qed

text \<open>C27. The order of a view that asks for no lane and no model, and for no lane to start after, is exactly the lanes of its ladder that can
  be started now: pinned ones first, then the others, then those demoted or failing, each group in the order of the ladder. The
  lane to take next is the first of them, and there is none when no lane can be started.\<close>

theorem view_order_exact:
  assumes "do_model opts = None" and "do_lane opts = None" and "do_after opts = None" and "v = snd (buildDispatch cfg opts env now st)"
  shows "\<exists>ranked. dv_order v = map ln_id ranked \<and> dv_next v = (case ranked of [] \<Rightarrow> None | l # ls \<Rightarrow> Some l) \<and>
    mset ranked = mset (filter isSelectable (dv_ladder v)) \<and> sorted (map lane_rank ranked) \<and>
    (\<forall>k. filter (\<lambda>l. lane_rank l = k) ranked = filter (\<lambda>l. isSelectable l \<and> lane_rank l = k) (dv_ladder v))"
proof (cases "lc_missing (selectLadder cfg (do_tier opts)) = None")
  case True
  from view_order_shape [OF assms(1,2) this assms(4)] assms(3) show ?thesis by (simp add: pool_after_def)
next
  case False
  then have "dv_ladder v = [] \<and> dv_order v = [] \<and> dv_next v = None"
    using missing_no_lanes [OF False] assms by (auto simp: buildDispatch_def Let_def case_prod_unfold)
  then show ?thesis by (intro exI [of _ "[]"]) simp
qed

lemma view_order_exact_witness:
  "\<exists>ranked. map ln_id ranked = dv_order (snd (buildDispatch sample_config sample_options sample_env 5 sample_state)) \<and>
     sorted (map lane_rank ranked) \<and> dv_order (snd (buildDispatch sample_config sample_options sample_env 5 sample_state)) = [''two'']"
proof -
  have order: "dv_order (snd (buildDispatch sample_config sample_options sample_env 5 sample_state)) = [''two'']" by code_simp
  obtain ranked where "dv_order (snd (buildDispatch sample_config sample_options sample_env 5 sample_state)) = map ln_id ranked"
      "sorted (map lane_rank ranked)"
    using view_order_exact [of sample_options _ sample_config sample_env 5 sample_state, OF _ _ _ refl] by (auto simp: sample_options_def)
  with order show ?thesis by (intro exI [of _ ranked]) simp
qed

lemma rankedView_order_ids:
  assumes "i \<in> set (dv_order (rankedView base after))"
  shows "\<exists>lane \<in> set (dv_ladder base). ln_id lane = i \<and> isSelectable lane"
proof (cases "\<forall>a. after = Some a \<longrightarrow> a \<in> ln_id ` set (dv_ladder base)")
  case True
  have order: "dv_order (rankedView base after) = map ln_id (rankSelectable (filter isSelectable (pool_after after (dv_ladder base))))"
    using True by (intro rankedView_parts(2)) simp
  have "l \<in> set (dv_ladder base)" if "l \<in> set (pool_after after (dv_ladder base))" for l
  proof (cases after)
    case (Some a)
    then have "l \<in> set (tl (dropWhile (\<lambda>l. ln_id l \<noteq> a) (dv_ladder base)))" using that by (simp add: pool_after_def)
    then have "l \<in> set (dropWhile (\<lambda>l. ln_id l \<noteq> a) (dv_ladder base))" by (metis list.sel(2) list.set_sel(2))
    then show ?thesis by (rule set_dropWhileD)
  qed (use that in \<open>simp add: pool_after_def\<close>)
  then show ?thesis using assms order by (auto simp: rankSelectable_key)
next
  case False
  then obtain a where a: "after = Some a" "a \<notin> ln_id ` set (dv_ladder base)" by blast
  then have d: "dropWhile (\<lambda>l. ln_id l \<noteq> a) (dv_ladder base) = []" by (auto simp: dropWhile_eq_Nil_conv)
  have "dv_order (rankedView base after) = []" unfolding rankedView_def Let_def a(1) option.case d list.case by simp
  then show ?thesis using assms by simp
qed

lemma ranked_or_empty:
  assumes "do_model opts = None" and "do_lane opts = None" and "i \<in> set (dv_order (snd (buildDispatch cfg opts env now st)))"
  shows "\<exists>lane \<in> set (snd (view_ladder cfg opts env now st)). ln_id lane = i \<and> isSelectable lane"
proof -
  have none: "lc_missing (selectLadder cfg (do_tier opts)) = None"
    using assms by (cases "lc_missing (selectLadder cfg (do_tier opts))") (simp_all add: buildDispatch_def Let_def case_prod_unfold)
  show ?thesis
    using assms(3) rankedView_order_ids [of i "view_base cfg opts (snd (view_ladder cfg opts env now st))" "do_after opts"]
    by (simp add: build_ranked [OF assms(1,2) none] Let_def split: if_splits)
qed

lemma marked_rests:
  assumes "lookupLadderRung cfg laneId tier = Some rung" and "now < marked + normalizeTtl ttl"
  shows "resting now (fst (markExhausted cfg laneId ttl tier marked ex)) (cooldownKey rung)"
proof -
  have "cooldownKey rung \<noteq> []" by (simp add: cooldownKey_def)
  moreover have "0 \<le> normalizeTtl ttl \<and> normalizeTtl ttl \<le> MAX_EXHAUSTED_MS"
    by (simp add: normalizeTtl_def MAX_EXHAUSTED_MS_def DEFAULT_EXHAUSTED_MS_def split: jsnum.split)
  ultimately show ?thesis using assms
    by (simp add: markExhausted_def markExhaustedKey_def resting_def exhaustion_notify_def jm_laws clampExhaustedDeadline_def)
qed

text \<open>C26. After a lane's quota is reported exhausted, as long as the record of that report stands and until the reported time has passed, every
  lane that a view offers by its order, when it asks for no lane and no model, is the lane of a rung of the selected ladder that is
  enabled and spends another quota: neither the reported lane nor any lane on the same plan is offered. (A lane or a
  model that the caller asks for by name is the caller's choice, which this does not restrict.)\<close>

theorem exhausted_quota_not_offered:
  assumes "lookupLadderRung cfg laneId tier = Some rung" and "now < marked + normalizeTtl ttl"
    and "jm_get (ex_cooldowns (dx_exhaustion st)) (cooldownKey rung) =
      jm_get (ex_cooldowns (fst (markExhausted cfg laneId ttl tier marked ex))) (cooldownKey rung)"
    and "do_model opts = None" and "do_lane opts = None" and "i \<in> set (dv_order (snd (buildDispatch cfg opts env now st)))"
  shows "\<exists>r \<in> set (lc_rungs (selectLadder cfg (do_tier opts))). rg_id r = i \<and> rg_enabled r \<and> cooldownKey r \<noteq> cooldownKey rung"
proof -
  obtain lane where "lane \<in> set (snd (view_ladder cfg opts env now st))" "ln_id lane = i" "isSelectable lane"
    using ranked_or_empty [OF assms(4-6)] by blast
  then obtain r where "r \<in> set (lc_rungs (selectLadder cfg (do_tier opts)))" "rg_id r = i" "rg_enabled r"
      "\<not> resting now (dx_exhaustion st) (cooldownKey r)"
    using view_ladder_shape [of lane cfg opts env now st] by auto
  moreover have "resting now (dx_exhaustion st) (cooldownKey rung)"
    using marked_rests [OF assms(1,2)] unfolding resting_def assms(3) .
  ultimately show ?thesis by metis
qed

definition fresh_state :: "exhaustion \<Rightarrow> dispatch_state" where
  "fresh_state ex = sample_state\<lparr>dx_exhaustion := ex\<rparr>"

lemma exhausted_quota_not_offered_witness:
  "dv_order (snd (buildDispatch sample_config sample_options sample_env 5
     (fresh_state (fst (markExhausted sample_config ''three'' (Fin 60) None 1 \<lparr>ex_cooldowns = [], ex_notified = 0\<rparr>))))) = [''two''] \<and>
   (\<exists>r \<in> set (lc_rungs (selectLadder sample_config None)). rg_id r = ''two'' \<and> rg_enabled r \<and>
     cooldownKey r \<noteq> cooldownKey (sample_rung ''three'' True (Some ''plan'')))"
proof -
  let ?st = "fresh_state (fst (markExhausted sample_config ''three'' (Fin 60) None 1 \<lparr>ex_cooldowns = [], ex_notified = 0\<rparr>))"
  have order: "dv_order (snd (buildDispatch sample_config sample_options sample_env 5 ?st)) = [''two'']" by code_simp
  have rung: "lookupLadderRung sample_config ''three'' None = Some (sample_rung ''three'' True (Some ''plan''))" by code_simp
  have "\<exists>r \<in> set (lc_rungs (selectLadder sample_config (do_tier sample_options))). rg_id r = ''two'' \<and> rg_enabled r \<and>
      cooldownKey r \<noteq> cooldownKey (sample_rung ''three'' True (Some ''plan''))"
    by (rule exhausted_quota_not_offered [OF rung, of 5 1 "Fin 60" ?st _ sample_options _ sample_env])
       (simp_all only: order, simp_all add: normalizeTtl_def MAX_EXHAUSTED_MS_def sample_options_def fresh_state_def)
  with order show ?thesis by (simp add: sample_options_def)
qed

section \<open>The automatic spec\<close>

definition open_relay :: "rat \<Rightarrow> exhaustion \<Rightarrow> ladder_rung \<Rightarrow> bool" where
  "open_relay now ex r \<longleftrightarrow> rg_kind r = RelayRung \<and> truthy_text (rg_spec r) \<and> rg_enabled r \<and> \<not> resting now ex (cooldownKey r)"

lemma first_open_relay_find:
  "snd (first_open_relay rungs now ex) = (case find (open_relay now ex) rungs of Some r \<Rightarrow> rg_spec r | None \<Rightarrow> None)"
proof (induction rungs now ex rule: first_open_relay.induct)
  case (2 rung rungs now ex)
  obtain ex1 moment where c: "cooldownUntil rung now ex = (ex1, moment)" by force
  have same: "open_relay now ex1 = open_relay now ex" using cooldownUntil_resting(2) [of now rung ex] c by (simp add: open_relay_def fun_eq_iff)
  have moment: "(moment = None) = (\<not> resting now ex (cooldownKey rung))" using cooldownUntil_resting(1) [of rung now ex] c by simp
  show ?case
  proof (cases "rg_kind rung = RelayRung \<and> truthy_text (rg_spec rung) \<and> rg_enabled rung")
    case True
    then have "open_relay now ex rung = (moment = None)" using moment by (simp add: open_relay_def)
    then show ?thesis using 2(1) [OF True c [symmetric]] True same by (cases moment) (simp_all add: c)
  next
    case False
    moreover have "\<not> open_relay now ex rung" using False by (auto simp: open_relay_def)
    ultimately show ?thesis using 2(2) [OF False] by (auto simp only: first_open_relay.simps find.simps if_False)
  qed
qed simp

text \<open>The automatic choice is the spec of the first enabled relay rung, in the order of the tier's ladder, whose quota is not resting,
  and the configured default only when there is none.\<close>

theorem auto_spec_exact:
  "fst (snd (resolveAutoSpec cfg tier now ex)) =
     (case find (open_relay now ex) (lc_rungs (selectLadder cfg (Some (normalizeAutoTier tier)))) of
        Some r \<Rightarrow> the (rg_spec r) | None \<Rightarrow> hd (dc_default cfg))"
proof -
  let ?rungs = "lc_rungs (selectLadder cfg (Some (normalizeAutoTier tier)))"
  obtain ex1 spec where f: "first_open_relay ?rungs now ex = (ex1, spec)" by force
  have s: "spec = (case find (open_relay now ex) ?rungs of Some r \<Rightarrow> rg_spec r | None \<Rightarrow> None)"
    using first_open_relay_find [of ?rungs now ex] f by simp
  have "truthy_text (rg_spec r)" if "find (open_relay now ex) ?rungs = Some r" for r
    using that by (auto simp: find_Some_iff open_relay_def)
  then show ?thesis using s
    by (cases "find (open_relay now ex) ?rungs") (auto simp: resolveAutoSpec_def Let_def f truthy_text_def split: option.split)
qed

section \<open>Dropped arguments\<close>

text \<open>An argument that a list of dropped arguments names: the flag, or the key of \<^verbatim>\<open>key=value\<close>.\<close>

definition dropped_arg :: "string list \<Rightarrow> string \<Rightarrow> bool" where
  "dropped_arg drops a \<longleftrightarrow> a \<in> set drops \<or> (CHR ''='' \<in> set a \<and> before_char (CHR ''='') a \<noteq> [] \<and> before_char (CHR ''='') a \<in> set drops)"

lemma subseq_butlast: "subseq (butlast xs) xs"
  by (cases xs rule: rev_cases) (simp_all add: subseq_rev_drop_many)

lemma strip_from_clean:
  assumes "\<forall>a \<in> set out. \<not> dropped_arg drops a" and "a \<in> set (strip_from drops out args)"
  shows "\<not> dropped_arg drops a"
  using assms
proof (induction drops out args rule: strip_from.induct)
  case (2 drops out b rest)
  let ?key = "if CHR ''='' \<in> set b then before_char (CHR ''='') b else []"
  let ?popped = "if out \<noteq> [] \<and> last out = ''--config'' then butlast out else out"
  consider (flag) "b \<in> set drops" | (key) "b \<notin> set drops" "?key \<noteq> [] \<and> ?key \<in> set drops"
    | (kept) "b \<notin> set drops" "\<not> (?key \<noteq> [] \<and> ?key \<in> set drops)" by blast
  then show ?case
  proof cases
    case flag
    then show ?thesis using 2 by simp
  next
    case key
    have "\<forall>a \<in> set ?popped. \<not> dropped_arg drops a" using "2.prems"(1) by (auto dest: in_set_butlastD)
    then show ?thesis using "2.IH"(2) [OF key(1) refl key(2)] "2.prems"(2) key by (simp add: Let_def)
  next
    case kept
    have "\<forall>a \<in> set (out @ [b]). \<not> dropped_arg drops a" using "2.prems"(1) kept by (auto simp: dropped_arg_def split: if_splits)
    moreover have "a \<in> set (strip_from drops (out @ [b]) rest)" using "2.prems"(2) kept by (auto simp add: Let_def split: if_splits)
    ultimately show ?thesis using "2.IH"(3) [OF kept(1) refl kept(2)] by blast
  qed
qed simp

lemma strip_from_subseq: "subseq (strip_from drops out args) (out @ args)"
proof (induction drops out args rule: strip_from.induct)
  case (2 drops out b rest)
  let ?key = "if CHR ''='' \<in> set b then before_char (CHR ''='') b else []"
  let ?popped = "if out \<noteq> [] \<and> last out = ''--config'' then butlast out else out"
  consider (flag) "b \<in> set drops" | (key) "b \<notin> set drops" "?key \<noteq> [] \<and> ?key \<in> set drops"
    | (kept) "b \<notin> set drops" "\<not> (?key \<noteq> [] \<and> ?key \<in> set drops)" by blast
  then show ?case
  proof cases
    case flag
    have "subseq (tl rest) (b # rest)" by (cases rest) (simp_all add: list_emb_Cons)
    then have "subseq (out @ tl rest) (out @ b # rest)" by (simp only: subseq_append')
    then show ?thesis using "2.IH"(1) [OF flag] flag by (metis strip_from.simps(2) subseq_order.order_trans)
  next
    case key
    have "subseq (?popped @ rest) (out @ b # rest)"
      by (intro list_emb_append_mono) (simp_all add: subseq_butlast list_emb_Cons)
    then have "subseq (strip_from drops ?popped rest) (out @ b # rest)"
      by (rule subseq_order.order_trans [OF "2.IH"(2) [OF key(1) refl key(2)]])
    moreover have "strip_from drops out (b # rest) = strip_from drops ?popped rest" using key by (simp add: Let_def)
    ultimately show ?thesis by (simp only:)
  next
    case kept
    have "strip_from drops out (b # rest) = strip_from drops (out @ [b]) rest" using kept by (auto simp add: Let_def split: if_splits)
    then show ?thesis using "2.IH"(3) [OF kept(1) refl kept(2)] by simp
  qed
qed simp

text \<open>Stripping the arguments a model rejects leaves some of the given arguments in their order, none of them a rejected flag and none
  a setting of a rejected key.\<close>

theorem rejected_arguments_stripped:
  "subseq (stripArgs args drops) args \<and> (\<forall>a \<in> set (stripArgs args drops). \<not> dropped_arg drops a)"
  using strip_from_subseq [of drops "[]" args] strip_from_clean [where out = "[]" and drops = drops and args = args] by (auto simp: stripArgs_def)

lemma rejected_arguments_stripped_witness:
  "stripArgs [''exec'', ''--config'', ''effort=high'', ''--fast'', ''on'', ''go''] [''effort'', ''--fast''] = [''exec'', ''go''] \<and>
   \<not> dropped_arg [''effort'', ''--fast''] ''go''"
proof -
  let ?args = "[''exec'', ''--config'', ''effort=high'', ''--fast'', ''on'', ''go'']"
  have s: "stripArgs ?args [''effort'', ''--fast''] = [''exec'', ''go'']" by code_simp
  then show ?thesis using rejected_arguments_stripped [of ?args "[''effort'', ''--fast'']"] by simp
qed

text \<open>The arguments are stripped after the task is filled in: a task that begins like a rejected setting is lost.\<close>

lemma task_text_is_stripped:
  "map_option iv_args (ln_invoke (cli_part
     ((sample_rung ''one'' True None)\<lparr>rg_args := Some [''exec'', ''--model'', ''m'', ''--config'', ''effort=high'', TASK_TOKEN]\<rparr>)
     (sample_options\<lparr>do_task := Some ''effort=low breaks the parser: fix it'',
       do_manifest := Some [(''codex'', \<lparr>le_via = [], le_probedAt = Some 0, le_models = [\<lparr>lm_id = ''m'', lm_supports = None\<rparr>], le_rejectedArgs = Some [(''m'', [''effort''])]\<rparr>)]\<rparr>)
     sample_env 5 (bare_lane (sample_rung ''one'' True None) 1 sample_config sample_env None))) = Some [''exec'', ''--model'', ''m'']"
  by code_simp

end
