(* ===== verification/Hedge.thy ===== *)
theory Hedge
  imports Metrics
begin

text \<open>
  Hedged attempts: when a second attempt is started beside a slow one (\<^verbatim>\<open>hedge-trigger.ts\<close>), and the race of the two
  (\<^verbatim>\<open>hedge-race.ts\<close>). A promise is the event of its settlement; \<open>startHedge\<close> says whether there is a second candidate.
\<close>

section \<open>When to start the second attempt\<close>

definition DEFAULT_HEDGE_MIN_FLOOR_MS :: rat where "DEFAULT_HEDGE_MIN_FLOOR_MS = 3000"
definition DEFAULT_HEDGE_MS_PER_INPUT_TOKEN :: rat where "DEFAULT_HEDGE_MS_PER_INPUT_TOKEN = 15 / 100"
definition DEFAULT_HEDGE_MARGIN :: rat where "DEFAULT_HEDGE_MARGIN = 2"
definition DEFAULT_HEDGE_MIN_SAMPLES :: nat where "DEFAULT_HEDGE_MIN_SAMPLES = 5"

datatype hedge_basis = PerToken | Absolute | InputSize

record hedge_verdict =
  hv_basis :: hedge_basis
  hv_elapsedMs :: rat
  hv_thresholdMs :: rat
  hv_tokensSeen :: rat

record hedge_settings =
  hs_enabled :: bool
  hs_minFloorMs :: rat
  hs_msPerInputToken :: rat
  hs_margin :: rat
  hs_minSamples :: nat

record hedge_settings_input =
  hi_enabled :: "bool option"
  hi_minFloorMs :: "rat option"
  hi_floorMs :: "rat option"
  hi_msPerInputToken :: "rat option"
  hi_margin :: "rat option"
  hi_minSamples :: "nat option"

definition or_else :: "'a option \<Rightarrow> 'a \<Rightarrow> 'a" where
  "or_else v d = (case v of Some x \<Rightarrow> x | None \<Rightarrow> d)"

definition resolveHedgeSettings :: "hedge_settings_input option \<Rightarrow> hedge_settings" where
  "resolveHedgeSettings settings =
     \<lparr>hs_enabled = or_else (Option.bind settings hi_enabled) True,
      hs_minFloorMs = or_else (Option.bind settings hi_minFloorMs) (or_else (Option.bind settings hi_floorMs) DEFAULT_HEDGE_MIN_FLOOR_MS),
      hs_msPerInputToken = or_else (Option.bind settings hi_msPerInputToken) DEFAULT_HEDGE_MS_PER_INPUT_TOKEN,
      hs_margin = or_else (Option.bind settings hi_margin) DEFAULT_HEDGE_MARGIN,
      hs_minSamples = or_else (Option.bind settings hi_minSamples) DEFAULT_HEDGE_MIN_SAMPLES\<rparr>"

text \<open>A number that is finite and positive, else zero.\<close>

fun positive_or_zero :: "jsnum \<Rightarrow> rat" where
  "positive_or_zero (Fin q) = (if 0 < q then q else 0)"
| "positive_or_zero x = 0"

definition inputSizeFloorMs :: "jsnum \<Rightarrow> hedge_settings \<Rightarrow> rat" where
  "inputSizeFloorMs estimatedInputTokens s = max (hs_minFloorMs s) (hs_msPerInputToken s * positive_or_zero estimatedInputTokens)"

definition hedge_probes :: "ping list \<Rightarrow> hedge_settings \<Rightarrow> rat \<Rightarrow> hedge_basis \<times> rat" where
  "hedge_probes pings s floorMs =
     (let probes = filter (\<lambda>p. p_source p \<noteq> Some Request) pings in
      if hs_minSamples s \<le> length (filter measurable probes)
      then (case getP90 probes of Fin p90 \<Rightarrow> (Absolute, max floorMs (p90 * hs_margin s)) | _ \<Rightarrow> (InputSize, floorMs))
      else (InputSize, floorMs))"

definition hedgeThreshold :: "ping list \<Rightarrow> rat \<Rightarrow> jsnum \<Rightarrow> hedge_settings \<Rightarrow> hedge_basis \<times> rat" where
  "hedgeThreshold pings tokensSeen estimatedInputTokens s =
     (let floorMs = inputSizeFloorMs estimatedInputTokens s in
      if 0 < tokensSeen \<and> hs_minSamples s \<le> countMsPerTokenSamples pings
      then (case getP90MsPerToken pings of
          Fin rate \<Rightarrow> (PerToken, max floorMs (rate * tokensSeen * hs_margin s))
        | _ \<Rightarrow> hedge_probes pings s floorMs)
      else hedge_probes pings s floorMs)"

record hedge_input =
  hq_elapsedMs :: jsnum
  hq_tokensSeen :: jsnum
  hq_pings :: "ping list"
  hq_isFree :: bool
  hq_estimatedInputTokens :: jsnum

definition shouldHedge :: "hedge_input \<Rightarrow> hedge_settings \<Rightarrow> hedge_verdict option" where
  "shouldHedge q s =
     (if \<not> hs_enabled s \<or> \<not> hq_isFree q then None
      else (case hq_elapsedMs q of
          Fin elapsed \<Rightarrow>
            if elapsed < 0 then None
            else (let tokensSeen = positive_or_zero (hq_tokensSeen q);
                      (basis, threshold) = hedgeThreshold (hq_pings q) tokensSeen (hq_estimatedInputTokens q) s
              in if threshold < elapsed
                 then Some \<lparr>hv_basis = basis, hv_elapsedMs = elapsed, hv_thresholdMs = threshold, hv_tokensSeen = tokensSeen\<rparr>
                 else None)
        | _ \<Rightarrow> None))"

record hedge_delay =
  hd_delayMs :: rat
  hd_basis :: hedge_basis
  hd_estimatedInputTokens :: "rat option"

definition hedgeDelayDecision :: "ping list \<Rightarrow> bool \<Rightarrow> jsnum \<Rightarrow> hedge_settings \<Rightarrow> hedge_delay option" where
  "hedgeDelayDecision pings isFree estimatedInputTokens s =
     (if \<not> hs_enabled s \<or> \<not> isFree then None
      else (let (basis, threshold) = hedgeThreshold pings 0 estimatedInputTokens s in
        Some \<lparr>hd_delayMs = threshold, hd_basis = basis,
          hd_estimatedInputTokens = (if basis = InputSize then Some (positive_or_zero estimatedInputTokens) else None)\<rparr>))"

definition hedgeDelayMs :: "ping list \<Rightarrow> bool \<Rightarrow> jsnum \<Rightarrow> hedge_settings \<Rightarrow> rat option" where
  "hedgeDelayMs pings isFree estimatedInputTokens s = map_option hd_delayMs (hedgeDelayDecision pings isFree estimatedInputTokens s)"

section \<open>The race\<close>

datatype race_side = PrimarySide | HedgeSide

fun other_side :: "race_side \<Rightarrow> race_side" where
  "other_side PrimarySide = HedgeSide"
| "other_side HedgeSide = PrimarySide"

datatype ('v, 'e) settled = Fulfilled 'v | Rejected 'e
datatype ('v, 'e) race_event = Settles race_side "('v, 'e) settled" | DelayFires

record ('v, 'e) race_result =
  rr_winner :: race_side
  rr_settled :: "('v, 'e) settled"
  rr_hedgeStarted :: bool
  rr_loser :: "race_side option"

text \<open>Where the function waits: for the primary or the delay, for the primary alone, for the first of both, or for the other.\<close>

datatype ('v, 'e) race_phase =
    Delaying | PrimaryOnly | Racing | Remaining race_side "('v, 'e) settled" | Returned "('v, 'e) race_result"

record ('v, 'e) race =
  rc_phase :: "('v, 'e) race_phase"
  rc_timerCleared :: bool
  rc_hedgeStarts :: nat
  rc_aborted :: "race_side list"

definition new_race :: "('v, 'e) race" where
  "new_race = \<lparr>rc_phase = Delaying, rc_timerCleared = False, rc_hedgeStarts = 0, rc_aborted = []\<rparr>"

definition race_return :: "race_side \<Rightarrow> ('v, 'e) settled \<Rightarrow> bool \<Rightarrow> race_side option \<Rightarrow> ('v, 'e) race \<Rightarrow> ('v, 'e) race" where
  "race_return side s started loser r =
     r\<lparr>rc_phase := Returned \<lparr>rr_winner = side, rr_settled = s, rr_hedgeStarted = started, rr_loser = loser\<rparr>\<rparr>"

fun race_step :: "bool \<Rightarrow> (('v, 'e) settled \<Rightarrow> bool) \<Rightarrow> ('v, 'e) race_event \<Rightarrow> ('v, 'e) race \<Rightarrow> ('v, 'e) race" where
  "race_step startHedge isWin DelayFires r =
     (case rc_phase r of
        Delaying \<Rightarrow> if startHedge then r\<lparr>rc_phase := Racing, rc_hedgeStarts := rc_hedgeStarts r + 1\<rparr> else r\<lparr>rc_phase := PrimaryOnly\<rparr>
      | _ \<Rightarrow> r)"
| "race_step startHedge isWin (Settles side s) r =
     (case rc_phase r of
        Delaying \<Rightarrow> if side = PrimarySide then race_return PrimarySide s False None (r\<lparr>rc_timerCleared := True\<rparr>) else r
      | PrimaryOnly \<Rightarrow> if side = PrimarySide then race_return PrimarySide s False None r else r
      | Racing \<Rightarrow>
          if isWin s then race_return side s True (Some (other_side side)) (r\<lparr>rc_aborted := rc_aborted r @ [other_side side]\<rparr>)
          else r\<lparr>rc_phase := Remaining side s\<rparr>
      | Remaining first failed \<Rightarrow>
          if side = first then r
          else if isWin s then race_return side s True (Some first) r
          else race_return PrimarySide (if first = PrimarySide then failed else s) True (Some HedgeSide) r
      | Returned result \<Rightarrow> r)"

definition raceWithHedge :: "bool \<Rightarrow> (('v, 'e) settled \<Rightarrow> bool) \<Rightarrow> ('v, 'e) race_event list \<Rightarrow> ('v, 'e) race" where
  "raceWithHedge startHedge isWin events = fold (race_step startHedge isWin) events new_race"

section \<open>The threshold is the delay\<close>

lemma hedgeThreshold_floor: "inputSizeFloorMs est s \<le> snd (hedgeThreshold pings tokens est s)"
  by (simp add: hedgeThreshold_def hedge_probes_def Let_def split: jsnum.split)

text \<open>The race waits exactly as long as the judge would: for an attempt that has produced nothing, a second attempt is due at an elapsed
  time exactly when a delay is decided and that time is past it, on the same evidence; and the delay is never below
  the floor that the size of the request sets.\<close>

theorem hedge_delay_agrees:
  assumes "0 \<le> elapsed"
  shows "(\<exists>v. shouldHedge \<lparr>hq_elapsedMs = Fin elapsed, hq_tokensSeen = Fin 0, hq_pings = pings, hq_isFree = isFree, hq_estimatedInputTokens = est\<rparr> s = Some v \<and>
       hv_basis v = b) \<longleftrightarrow>
    (\<exists>d. hedgeDelayDecision pings isFree est s = Some d \<and> hd_delayMs d < elapsed \<and> hd_basis d = b \<and> inputSizeFloorMs est s \<le> hd_delayMs d)"
  using assms hedgeThreshold_floor [of est s pings 0]
  by (simp add: shouldHedge_def hedgeDelayDecision_def Let_def case_prod_beta)

lemma hedge_delay_agrees_witness:
  "\<exists>d. hedgeDelayDecision [] True (Fin 100000) (resolveHedgeSettings None) = Some d \<and> hd_delayMs d < 15001 \<and> hd_basis d = InputSize"
proof -
  have "hedgeThreshold [] 0 (Fin 100000) (resolveHedgeSettings None) = (InputSize, 15000)" by code_simp
  then have "\<exists>v. shouldHedge \<lparr>hq_elapsedMs = Fin 15001, hq_tokensSeen = Fin 0, hq_pings = [], hq_isFree = True, hq_estimatedInputTokens = Fin 100000\<rparr>
      (resolveHedgeSettings None) = Some v \<and> hv_basis v = InputSize"
    by (simp add: shouldHedge_def resolveHedgeSettings_def or_else_def)
  then show ?thesis using hedge_delay_agrees [of 15001 "[]" True "Fin 100000" "resolveHedgeSettings None" InputSize] by auto
qed

section \<open>Who wins\<close>

lemma race_done: "rc_phase r = Returned res \<Longrightarrow> fold (race_step h w) events r = r"
proof (induction events)
  case (Cons e events)
  have "race_step h w e r = r" using Cons.prems by (cases e) simp_all
  then show ?case using Cons by simp
qed simp

lemma done_return: "fold (race_step h w) es (race_return side x b l r) = race_return side x b l r"
  by (rule race_done) (simp add: race_return_def)

text \<open>The settlements of a side in a sequence of events.\<close>

fun settlements_of :: "race_side \<Rightarrow> ('v, 'e) race_event list \<Rightarrow> ('v, 'e) settled list" where
  "settlements_of side [] = []"
| "settlements_of side (DelayFires # es) = settlements_of side es"
| "settlements_of side (Settles k s # es) = (if k = side then s # settlements_of side es else settlements_of side es)"

text \<open>What the events after the start of the second attempt come to: the first win, else the primary's settlement once both are in.\<close>

fun first_win :: "(('v, 'e) settled \<Rightarrow> bool) \<Rightarrow> ('v, 'e) race_event list \<Rightarrow> (race_side \<times> ('v, 'e) settled) option" where
  "first_win w [] = None"
| "first_win w (DelayFires # es) = first_win w es"
| "first_win w (Settles k s # es) = (if w s then Some (k, s) else first_win w es)"

definition result_of :: "('v, 'e) race \<Rightarrow> ('v, 'e) race_result option" where
  "result_of r = (case rc_phase r of Returned res \<Rightarrow> Some res | _ \<Rightarrow> None)"

text \<open>A promise settles once.\<close>

definition settles_once :: "('v, 'e) race_event list \<Rightarrow> bool" where
  "settles_once es \<longleftrightarrow> (\<forall>side. length (settlements_of side es) \<le> 1)"

lemma settles_once_Cons: "settles_once (e # es) \<Longrightarrow> settles_once es"
  by (cases e) (force simp: settles_once_def split: if_splits)+

lemma settles_once_none: "settles_once (Settles k s # es) \<Longrightarrow> settlements_of k es = []"
  unfolding settles_once_def by (drule spec [of _ k]) simp

lemma no_settlement_no_win:
  "settlements_of PrimarySide es = [] \<Longrightarrow> settlements_of HedgeSide es = [] \<Longrightarrow> first_win w es = None"
proof (induction w es rule: first_win.induct)
  case (3 w k s es)
  then show ?case by (cases k) simp_all
qed simp_all

lemma remaining_race:
  assumes "rc_phase r = Remaining first failed" and "settlements_of first es = []" and "settles_once es"
  shows "map_option (\<lambda>res. (rr_winner res, rr_settled res, rr_hedgeStarted res)) (result_of (fold (race_step h w) es r)) =
      (case first_win w es of
         Some (k, s) \<Rightarrow> Some (k, s, True)
       | None \<Rightarrow> (case settlements_of (other_side first) es of [] \<Rightarrow> None
           | s # _ \<Rightarrow> Some (PrimarySide, if first = PrimarySide then failed else s, True))) \<and>
    rc_aborted (fold (race_step h w) es r) = rc_aborted r"
  using assms
proof (induction es arbitrary: r)
  case Nil
  then show ?case by (simp add: result_of_def)
next
  case (Cons e es)
  show ?case
  proof (cases e)
    case DelayFires
    show ?thesis using Cons settles_once_Cons [OF Cons.prems(3)] unfolding DelayFires settlements_of.simps first_win.simps by simp
  next
    case (Settles k s)
    then have k: "k \<noteq> first" "k = other_side first" using Cons.prems by (cases k; cases first; force)+
    have rest: "settlements_of k es = []" "settlements_of first es = []" "first_win w es = None"
    proof -
      show none: "settlements_of k es = []" using Cons.prems(3) settles_once_none unfolding Settles by blast
      show "settlements_of first es = []" using Cons.prems(2) Settles k by simp
      then have "settlements_of side es = []" for side using none k by (cases side; cases first) auto
      then show "first_win w es = None" by (intro no_settlement_no_win)
    qed
    show ?thesis using Cons.prems(1) Settles k rest
      by (simp add: done_return) (simp add: race_return_def result_of_def)
  qed
qed

definition standing :: "('v, 'e) race \<Rightarrow> (race_side \<times> ('v, 'e) settled \<times> bool) option" where
  "standing r = map_option (\<lambda>res. (rr_winner res, rr_settled res, rr_hedgeStarted res)) (result_of r)"

text \<open>What a sequence of events comes to.\<close>

fun race_outcome :: "bool \<Rightarrow> (('v, 'e) settled \<Rightarrow> bool) \<Rightarrow> ('v, 'e) race_event list \<Rightarrow> (race_side \<times> ('v, 'e) settled \<times> bool) option" where
  "race_outcome startHedge w [] = None"
| "race_outcome startHedge w (Settles PrimarySide s # es) = Some (PrimarySide, s, False)"
| "race_outcome startHedge w (Settles HedgeSide s # es) = race_outcome startHedge w es"
| "race_outcome startHedge w (DelayFires # es) =
     (if \<not> startHedge then (case settlements_of PrimarySide es of [] \<Rightarrow> None | s # _ \<Rightarrow> Some (PrimarySide, s, False))
      else (case first_win w es of
          Some (k, s) \<Rightarrow> Some (k, s, True)
        | None \<Rightarrow> (case settlements_of PrimarySide es of
              [] \<Rightarrow> None
            | p # _ \<Rightarrow> if settlements_of HedgeSide es = [] then None else Some (PrimarySide, p, True))))"

lemma standing_return [simp]: "standing (race_return side x b l r) = Some (side, x, b)"
  by (simp add: standing_def result_of_def race_return_def)

lemma primary_only_race:
  "rc_phase r = PrimaryOnly \<Longrightarrow> standing (fold (race_step h w) es r) =
    (case settlements_of PrimarySide es of [] \<Rightarrow> None | s # _ \<Rightarrow> Some (PrimarySide, s, False))"
proof (induction es arbitrary: r)
  case Nil
  then show ?case by (simp add: standing_def result_of_def)
next
  case (Cons e es)
  then show ?case
  proof (cases e)
    case (Settles k s)
    then show ?thesis using Cons by (cases k) (simp_all add: done_return)
  next
    case DelayFires
    show ?thesis using Cons unfolding DelayFires by simp
  qed
qed

lemma racing_race:
  assumes "rc_phase r = Racing" and "settles_once es"
  shows "standing (fold (race_step h w) es r) =
    (case first_win w es of
       Some (k, s) \<Rightarrow> Some (k, s, True)
     | None \<Rightarrow> (case settlements_of PrimarySide es of
           [] \<Rightarrow> None
         | p # _ \<Rightarrow> if settlements_of HedgeSide es = [] then None else Some (PrimarySide, p, True)))"
  using assms
proof (induction es arbitrary: r)
  case Nil
  then show ?case by (simp add: standing_def result_of_def)
next
  case (Cons e es)
  show ?case
  proof (cases e)
    case DelayFires
    show ?thesis using Cons settles_once_Cons [OF Cons.prems(2)] unfolding DelayFires settlements_of.simps first_win.simps by simp
  next
    case (Settles k s)
    show ?thesis
    proof (cases "w s")
      case True
      then show ?thesis using Cons.prems(1) Settles by (simp add: done_return)
    next
      case False
      have once: "settlements_of k es = []" using Cons.prems(2) settles_once_none unfolding Settles by blast
      let ?r = "r\<lparr>rc_phase := Remaining k s\<rparr>"
      have "standing (fold (race_step h w) es ?r) =
          (case first_win w es of
             Some (k, s) \<Rightarrow> Some (k, s, True)
           | None \<Rightarrow> (case settlements_of (other_side k) es of [] \<Rightarrow> None
               | x # _ \<Rightarrow> Some (PrimarySide, if k = PrimarySide then s else x, True)))"
        using conjunct1 [OF remaining_race [of ?r k s es h w, OF _ once settles_once_Cons [OF Cons.prems(2)]]] by (simp add: standing_def)
      then show ?thesis using Cons.prems(1) Settles False once by (cases k) (simp_all split: list.split option.split)
    qed
  qed
qed

text \<open>C25. The race returns the primary's settlement when that comes before the delay, or when there is no second candidate; otherwise the first
  winning settlement of either side in the order of the events, and, when neither side wins, the primary's settlement as soon
  as both are in. A losing settlement never ends the race while the other side may still win.\<close>

theorem race_exact:
  assumes "settles_once events"
  shows "standing (raceWithHedge startHedge isWin events) = race_outcome startHedge isWin events"
proof -
  have "rc_phase r = Delaying \<Longrightarrow> settles_once events \<Longrightarrow>
      standing (fold (race_step startHedge isWin) events r) = race_outcome startHedge isWin events" for r
  proof (induction startHedge isWin events arbitrary: r rule: race_outcome.induct)
    case (1 startHedge w)
    then show ?case by (simp add: standing_def result_of_def)
  next
    case (2 startHedge w s es)
    then show ?case by (simp add: done_return)
  next
    case (3 startHedge w s es)
    then show ?case using settles_once_Cons [OF 3(3)] by simp
  next
    case (4 startHedge w es)
    then show ?case
      using primary_only_race [of "r\<lparr>rc_phase := PrimaryOnly\<rparr>" startHedge w es]
        racing_race [of "r\<lparr>rc_phase := Racing, rc_hedgeStarts := Suc (rc_hedgeStarts r)\<rparr>" es startHedge w] settles_once_Cons [OF 4(2)] 4(1)
      unfolding race_outcome.simps by (cases startHedge) simp_all
  qed
  then show ?thesis using assms by (simp add: raceWithHedge_def new_race_def)
qed

lemma race_exact_witness:
  "standing (raceWithHedge True (\<lambda>s. case s of Fulfilled v \<Rightarrow> v = (200::nat) | Rejected e \<Rightarrow> False)
     [DelayFires, Settles PrimarySide (Rejected ''reset''), Settles HedgeSide (Fulfilled 200)]) = Some (HedgeSide, Fulfilled 200, True)"
proof -
  let ?w = "\<lambda>s :: (nat, string) settled. case s of Fulfilled v \<Rightarrow> v = (200::nat) | Rejected e \<Rightarrow> False"
  let ?events = "[DelayFires, Settles PrimarySide (Rejected ''reset''), Settles HedgeSide (Fulfilled 200)]"
  have "settles_once ?events"
    by (auto simp: settles_once_def)
  from race_exact [OF this, of True ?w] show ?thesis by simp
qed

section \<open>Who is aborted\<close>

definition race_inv :: "(('v, 'e) settled \<Rightarrow> bool) \<Rightarrow> ('v, 'e) race \<Rightarrow> bool" where
  "race_inv w r \<longleftrightarrow> rc_hedgeStarts r = (if rc_phase r \<in> {Delaying, PrimaryOnly} then 0 else
       case rc_phase r of Returned res \<Rightarrow> (if rr_hedgeStarted res then 1 else 0) | _ \<Rightarrow> 1) \<and>
     (rc_aborted r = [] \<or> (\<exists>res. rc_phase r = Returned res \<and> w (rr_settled res) \<and> rr_loser res = Some (other_side (rr_winner res)) \<and>
       rc_aborted r = [other_side (rr_winner res)]))"

lemma race_inv_step:
  assumes "race_inv w r"
  shows "race_inv w (race_step h w e r)"
proof (cases e)
  case DelayFires
  then show ?thesis using assms by (cases "rc_phase r") (auto simp: race_inv_def)
next
  case (Settles k s)
  then show ?thesis using assms by (cases "rc_phase r"; cases k) (auto simp: race_inv_def race_return_def)
qed

text \<open>A race starts the second attempt at most once, and aborts nothing except, after a win, the one side that did not win: the attempt
  whose settlement is returned is never aborted.\<close>

theorem race_aborts_loser_only:
  "rc_hedgeStarts (raceWithHedge startHedge isWin events) \<le> 1 \<and>
   (rc_aborted (raceWithHedge startHedge isWin events) = [] \<or>
    (\<exists>res. result_of (raceWithHedge startHedge isWin events) = Some res \<and> isWin (rr_settled res) \<and>
      rc_aborted (raceWithHedge startHedge isWin events) = [other_side (rr_winner res)]))"
proof -
  have "race_inv isWin r \<Longrightarrow> race_inv isWin (fold (race_step startHedge isWin) es r)" for r es
    by (induction es arbitrary: r) (simp_all add: race_inv_step)
  then have inv: "race_inv isWin (raceWithHedge startHedge isWin events)"
    by (simp add: raceWithHedge_def) (simp add: race_inv_def new_race_def)
  then show ?thesis by (auto simp: race_inv_def result_of_def split: race_phase.splits if_splits)
qed

end
