(* ===== verification/Job_Journal.thy ===== *)
theory Job_Journal
  imports Json_Read
begin

text \<open>
  The recovery journal of running jobs (\<^verbatim>\<open>mcp/job-journal.ts\<close>): a file that several processes share, each with the rows of
  its own jobs in memory. A process is a record that its operations return updated, next to the file; \<open>io\<close> says whether the
  locked read, merge and rewrite of a transaction goes through, \<open>alive\<close> which processes run. What a failed transaction
  reports is a counter.
\<close>

section \<open>Rows\<close>

record journal_owner =
  jo_pid :: nat
  jo_instance :: string

record starting_tree =
  st_prefix :: string
  st_entries :: "(string \<times> string) list"
  st_scope :: "string list option"

record journal_row =
  jr_jobId :: string
  jr_laneId :: string
  jr_spec :: "string option"
  jr_cwd :: string
  jr_startedAt :: jsnum
  jr_label :: "string option"
  jr_startingTree :: "starting_tree option"
  jr_brokerExecution :: "string option"
  jr_owner :: "journal_owner option"

definition MAX_ACTIVITY_STAT_PATHS :: nat where "MAX_ACTIVITY_STAT_PATHS = 500"
definition JOB_JOURNAL_VERSION :: rat where "JOB_JOURNAL_VERSION = 1"

text \<open>\<^verbatim>\<open>/^exec-[0-9a-f]{32}$/\<close>\<close>

definition execution_id :: "string \<Rightarrow> bool" where
  "execution_id s \<longleftrightarrow> length s = 37 \<and> take 5 s = ''exec-'' \<and> set (drop 5 s) \<subseteq> set ''0123456789abcdef''"

definition readBrokerExecution :: "json option \<Rightarrow> string option" where
  "readBrokerExecution value =
     (case value of
        Some (JObj ms) \<Rightarrow>
          if length ms \<noteq> 2 \<or> member ms ''kind'' \<noteq> Some (JStr ''daemon-v1'') then None
          else (case str_of (member ms ''executionId'') of Some i \<Rightarrow> if execution_id i then Some i else None | None \<Rightarrow> None)
      | _ \<Rightarrow> None)"

fun read_pair :: "json \<Rightarrow> (string \<times> string) option" where
  "read_pair (JArr [JStr a, JStr b]) = Some (a, b)"
| "read_pair v = None"

definition readStartingTree :: "json option \<Rightarrow> starting_tree option" where
  "readStartingTree value =
     (case value of
        Some (JObj ms) \<Rightarrow>
          (case (str_of (member ms ''prefix''), member ms ''entries'') of
             (Some prefix, Some (JArr pairs)) \<Rightarrow>
               if MAX_ACTIVITY_STAT_PATHS < length pairs then None
               else (case all_some (map read_pair pairs) of
                   None \<Rightarrow> None
                 | Some entries \<Rightarrow>
                     (case opt_member (list_member (\<lambda>v. str_of (Some v))) (member ms ''scope'') of
                        None \<Rightarrow> None
                      | Some scope \<Rightarrow> Some \<lparr>st_prefix = prefix, st_entries = entries, st_scope = scope\<rparr>))
           | _ \<Rightarrow> None)
      | _ \<Rightarrow> None)"

definition MAX_SAFE :: nat where "MAX_SAFE = 2 ^ 53 - 1"

definition readOwner :: "json option \<Rightarrow> journal_owner option" where
  "readOwner value =
     (case value of
        Some (JObj ms) \<Rightarrow>
          (case (int_of (member ms ''pid''), str_of (member ms ''instance'')) of
             (Some p, Some i) \<Rightarrow> if 0 < p \<and> p \<le> int MAX_SAFE then Some \<lparr>jo_pid = nat p, jo_instance = i\<rparr> else None
           | _ \<Rightarrow> None)
      | _ \<Rightarrow> None)"

fun read_number :: "json option \<Rightarrow> jsnum option" where
  "read_number (Some (JNum x)) = Some x"
| "read_number v = None"

definition readJournalRow :: "json \<Rightarrow> journal_row option" where
  "readJournalRow value =
     (case value of
        JObj ms \<Rightarrow>
          (case (str_of (member ms ''jobId''), str_of (member ms ''laneId''), str_of (member ms ''cwd''), read_number (member ms ''startedAt'')) of
             (Some jobId, Some laneId, Some cwd, Some startedAt) \<Rightarrow>
               (case (opt_member str_of (member ms ''spec''), opt_member str_of (member ms ''label''), opt_member readOwner (member ms ''owner'')) of
                  (Some spec, Some label, Some owner) \<Rightarrow>
                    Some \<lparr>jr_jobId = jobId, jr_laneId = laneId, jr_spec = spec, jr_cwd = cwd, jr_startedAt = startedAt, jr_label = label,
                      jr_startingTree = readStartingTree (member ms ''startingTree''),
                      jr_brokerExecution = readBrokerExecution (member ms ''brokerExecution''), jr_owner = owner\<rparr>
                | _ \<Rightarrow> None)
           | _ \<Rightarrow> None)
      | _ \<Rightarrow> None)"

text \<open>The members of a row as they are written.\<close>

definition encode_owner :: "journal_owner \<Rightarrow> json" where
  "encode_owner ow = JObj [(''pid'', num (of_nat (jo_pid ow))), (''instance'', JStr (jo_instance ow))]"

definition encode_tree :: "starting_tree \<Rightarrow> json" where
  "encode_tree t = JObj ([(''prefix'', JStr (st_prefix t)), (''entries'', JArr (map (\<lambda>(a, b). JArr [JStr a, JStr b]) (st_entries t)))] @
     optional ''scope'' (map_option (\<lambda>ps. JArr (map JStr ps)) (st_scope t)))"

definition encode_journal_row :: "journal_row \<Rightarrow> json" where
  "encode_journal_row r = JObj ([(''jobId'', JStr (jr_jobId r)), (''laneId'', JStr (jr_laneId r)), (''cwd'', JStr (jr_cwd r)),
     (''startedAt'', json_of_num (jr_startedAt r))] @
     optional ''spec'' (map_option JStr (jr_spec r)) @ optional ''label'' (map_option JStr (jr_label r)) @
     optional ''owner'' (map_option encode_owner (jr_owner r)) @ optional ''startingTree'' (map_option encode_tree (jr_startingTree r)) @
     optional ''brokerExecution'' (map_option (\<lambda>i. JObj [(''kind'', JStr ''daemon-v1''), (''executionId'', JStr i)]) (jr_brokerExecution r)))"

section \<open>The file\<close>

fun isJournalFile :: "json \<Rightarrow> bool" where
  "isJournalFile (JObj ms) = (member ms ''version'' = Some (num JOB_JOURNAL_VERSION) \<and>
     (case member ms ''jobs'' of Some (JArr xs) \<Rightarrow> True | _ \<Rightarrow> False))"
| "isJournalFile v = False"

fun file_jobs :: "json \<Rightarrow> json list" where
  "file_jobs (JObj ms) = (case member ms ''jobs'' of Some (JArr xs) \<Rightarrow> xs | _ \<Rightarrow> [])"
| "file_jobs v = []"

definition journal_file :: "journal_row list \<Rightarrow> json" where
  "journal_file rows = JObj [(''version'', num JOB_JOURNAL_VERSION), (''jobs'', JArr (map encode_journal_row rows))]"

definition valid_rows :: "json list \<Rightarrow> journal_row list" where
  "valid_rows jobs = List.map_filter readJournalRow jobs"

text \<open>\<^verbatim>\<open>readDisk\<close>: the rows of a file that is there and is a journal.\<close>

definition readDisk :: "json option \<Rightarrow> journal_row list option" where
  "readDisk disk = (case disk of None \<Rightarrow> None | Some f \<Rightarrow> if isJournalFile f then Some (valid_rows (file_jobs f)) else None)"

text \<open>A transaction: the new file, or a failure that leaves the file as it is.\<close>

definition journal_transaction :: "bool \<Rightarrow> json option \<Rightarrow> (journal_row list \<Rightarrow> journal_row list) \<Rightarrow> json option" where
  "journal_transaction io disk update =
     (if \<not> io then None
      else (case disk of
          None \<Rightarrow> Some (journal_file (update []))
        | Some f \<Rightarrow> if isJournalFile f then Some (journal_file (update (valid_rows (file_jobs f)))) else None))"

section \<open>One process\<close>

record journal =
  jp_owner :: journal_owner
  jp_rows :: "(string, journal_row) jmap"
  jp_loaded :: bool
  jp_startupOrphans :: "journal_row list"
  jp_persistErrors :: nat

definition createJobJournal :: "journal_owner \<Rightarrow> journal" where
  "createJobJournal owner = \<lparr>jp_owner = owner, jp_rows = [], jp_loaded = False, jp_startupOrphans = [], jp_persistErrors = 0\<rparr>"

definition ownedElsewhere :: "(nat \<Rightarrow> bool) \<Rightarrow> journal_owner \<Rightarrow> journal_row \<Rightarrow> bool" where
  "ownedElsewhere alive me row =
     (case jr_owner row of
        None \<Rightarrow> False
      | Some ow \<Rightarrow> jo_instance ow \<noteq> jo_instance me \<and> jo_pid ow \<noteq> jo_pid me \<and> alive (jo_pid ow))"

definition readOnce :: "(nat \<Rightarrow> bool) \<Rightarrow> json option \<Rightarrow> journal \<Rightarrow> journal" where
  "readOnce alive disk j =
     (if jp_loaded j then j
      else (case readDisk disk of
          None \<Rightarrow> j\<lparr>jp_loaded := True\<rparr>
        | Some rows \<Rightarrow> j\<lparr>jp_loaded := True,
            jp_startupOrphans := filter (\<lambda>row. map_option jo_instance (jr_owner row) \<noteq> Some (jo_instance (jp_owner j)) \<and>
              \<not> ownedElsewhere alive (jp_owner j) row) rows\<rparr>))"

text \<open>Every row of the file this process does not own, then its own rows, which win.\<close>

definition merged_rows :: "journal_owner \<Rightarrow> (string, journal_row) jmap \<Rightarrow> journal_row list \<Rightarrow> journal_row list" where
  "merged_rows me rows disk_rows =
     map snd (fold (\<lambda>r m. jm_put (jr_jobId r) r m) (map snd rows)
       (fold (\<lambda>r m. if jr_owner r = Some me then m else jm_put (jr_jobId r) r m) disk_rows []))"

definition persist :: "bool \<Rightarrow> json option \<Rightarrow> journal \<Rightarrow> json option \<times> journal" where
  "persist io disk j =
     (case journal_transaction io disk (merged_rows (jp_owner j) (jp_rows j)) of
        Some f \<Rightarrow> (Some f, j)
      | None \<Rightarrow> (disk, j\<lparr>jp_persistErrors := jp_persistErrors j + 1\<rparr>))"

definition journal_note :: "(nat \<Rightarrow> bool) \<Rightarrow> bool \<Rightarrow> journal_row \<Rightarrow> json option \<times> journal \<Rightarrow> json option \<times> journal" where
  "journal_note alive io row = (\<lambda>(disk, j0).
     let j = readOnce alive disk j0;
         existing = jm_get (jp_rows j) (jr_jobId row);
         tree = (case jr_startingTree row of Some t \<Rightarrow> Some t | None \<Rightarrow> Option.bind existing jr_startingTree)
     in persist io disk (j\<lparr>jp_rows := jm_put (jr_jobId row) (row\<lparr>jr_startingTree := tree, jr_owner := Some (jp_owner j)\<rparr>) (jp_rows j)\<rparr>))"

definition noteStartingTree :: "(nat \<Rightarrow> bool) \<Rightarrow> bool \<Rightarrow> string \<Rightarrow> starting_tree \<Rightarrow> json option \<times> journal \<Rightarrow> json option \<times> journal" where
  "noteStartingTree alive io jobId tree = (\<lambda>(disk, j0).
     let j = readOnce alive disk j0 in
     case jm_get (jp_rows j) jobId of
       None \<Rightarrow> (disk, j)
     | Some row \<Rightarrow>
         if MAX_ACTIVITY_STAT_PATHS < length (st_entries tree)
         then (if jr_startingTree row = None then (disk, j)
               else persist io disk (j\<lparr>jp_rows := jm_put jobId (row\<lparr>jr_startingTree := None\<rparr>) (jp_rows j)\<rparr>))
         else persist io disk (j\<lparr>jp_rows := jm_put jobId (row\<lparr>jr_startingTree := Some tree\<rparr>) (jp_rows j)\<rparr>))"

definition noteBrokerExecution :: "(nat \<Rightarrow> bool) \<Rightarrow> bool \<Rightarrow> string \<Rightarrow> json \<Rightarrow> json option \<times> journal \<Rightarrow> json option \<times> journal" where
  "noteBrokerExecution alive io jobId execution = (\<lambda>(disk, j0).
     let j = readOnce alive disk j0 in
     case jm_get (jp_rows j) jobId of
       None \<Rightarrow> (disk, j)
     | Some row \<Rightarrow>
         (case readBrokerExecution (Some execution) of
            None \<Rightarrow> (disk, j)
          | Some canonical \<Rightarrow> persist io disk (j\<lparr>jp_rows := jm_put jobId (row\<lparr>jr_brokerExecution := Some canonical\<rparr>) (jp_rows j)\<rparr>)))"

text \<open>The rows with the first row of a job claimed, and that row.\<close>

fun claim_first :: "(nat \<Rightarrow> bool) \<Rightarrow> journal_owner \<Rightarrow> string \<Rightarrow> journal_row list \<Rightarrow> journal_row list \<times> journal_row option" where
  "claim_first alive me jobId [] = ([], None)"
| "claim_first alive me jobId (row # rows) =
     (if jr_jobId row = jobId
      then (if jr_brokerExecution row = None \<or> ownedElsewhere alive me row then (row # rows, None)
            else (let next_row = row\<lparr>jr_owner := Some me\<rparr> in (next_row # rows, Some next_row)))
      else (let (rest, claimed) = claim_first alive me jobId rows in (row # rest, claimed)))"

definition claimBrokerOrphan ::
  "(nat \<Rightarrow> bool) \<Rightarrow> bool \<Rightarrow> string \<Rightarrow> json option \<times> journal \<Rightarrow> (json option \<times> journal) \<times> journal_row option" where
  "claimBrokerOrphan alive io jobId = (\<lambda>(disk, j0).
     let j = readOnce alive disk j0;
         claim = claim_first alive (jp_owner j) jobId
     in case journal_transaction io disk (\<lambda>rows. fst (claim rows)) of
          None \<Rightarrow> ((disk, j), None)
        | Some f \<Rightarrow>
            (case snd (claim (case readDisk disk of Some rows \<Rightarrow> rows | None \<Rightarrow> [])) of
               None \<Rightarrow> ((Some f, j), None)
             | Some row \<Rightarrow> ((Some f, j\<lparr>jp_rows := jm_put jobId row (jp_rows j)\<rparr>), Some row)))"

definition journal_clear :: "(nat \<Rightarrow> bool) \<Rightarrow> bool \<Rightarrow> string \<Rightarrow> json option \<times> journal \<Rightarrow> json option \<times> journal" where
  "journal_clear alive io jobId = (\<lambda>(disk, j0).
     let j = readOnce alive disk j0 in
     if jm_get (jp_rows j) jobId = None then (disk, j) else persist io disk (j\<lparr>jp_rows := jm_del jobId (jp_rows j)\<rparr>))"

text \<open>A comparison of numbers by \<^verbatim>\<open>===\<close>: a value that is no number equals nothing.\<close>

definition sameJournalRowIdentity :: "journal_row \<Rightarrow> journal_row \<Rightarrow> bool" where
  "sameJournalRowIdentity a b \<longleftrightarrow> jr_owner a = jr_owner b \<and> jr_jobId a = jr_jobId b \<and> jr_laneId a = jr_laneId b \<and> jr_cwd a = jr_cwd b \<and>
     jr_startedAt a = jr_startedAt b \<and> jr_startedAt a \<noteq> NaN"

definition clearOrphan :: "(nat \<Rightarrow> bool) \<Rightarrow> bool \<Rightarrow> journal_row \<Rightarrow> json option \<times> journal \<Rightarrow> json option \<times> journal" where
  "clearOrphan alive io orphan = (\<lambda>(disk, j0).
     let j = readOnce alive disk j0 in
     case find (\<lambda>row. sameJournalRowIdentity row orphan) (jp_startupOrphans j) of
       None \<Rightarrow> (disk, j)
     | Some startup \<Rightarrow>
         (case journal_transaction io disk (filter (\<lambda>row. \<not> sameJournalRowIdentity row startup)) of
            None \<Rightarrow> (disk, j\<lparr>jp_persistErrors := jp_persistErrors j + 1\<rparr>)
          | Some f \<Rightarrow> (Some f, j\<lparr>jp_startupOrphans := filter (\<lambda>row. \<not> sameJournalRowIdentity row startup) (jp_startupOrphans j)\<rparr>)))"

definition journal_orphans :: "(nat \<Rightarrow> bool) \<Rightarrow> json option \<times> journal \<Rightarrow> journal \<times> journal_row list" where
  "journal_orphans alive = (\<lambda>(disk, j0). let j = readOnce alive disk j0 in (j, jp_startupOrphans j))"

definition foreignRows :: "(nat \<Rightarrow> bool) \<Rightarrow> json option \<times> journal \<Rightarrow> journal \<times> journal_row list" where
  "foreignRows alive = (\<lambda>(disk, j0). let j = readOnce alive disk j0 in
     (j, filter (\<lambda>row. jm_get (jp_rows j) (jr_jobId row) = None \<and> ownedElsewhere alive (jp_owner j) row)
        (case readDisk disk of Some rows \<Rightarrow> rows | None \<Rightarrow> [])))"

definition journal_foreign :: "(nat \<Rightarrow> bool) \<Rightarrow> string \<Rightarrow> json option \<times> journal \<Rightarrow> journal \<times> journal_row option" where
  "journal_foreign alive jobId = (\<lambda>(disk, j0). let j = readOnce alive disk j0 in
     (j, if jm_get (jp_rows j) jobId \<noteq> None then None
         else find (\<lambda>row. jr_jobId row = jobId \<and> ownedElsewhere alive (jp_owner j) row)
           (case readDisk disk of Some rows \<Rightarrow> rows | None \<Rightarrow> [])))"

end
