(* ===== verification/Job_Journal_Props.thy ===== *)
theory Job_Journal_Props
  imports Job_Journal
begin

text \<open>
  The properties of the job journal: a row reads back as it was written, no process erases the row of another, and the row of an
  orphaned execution is claimed by one process only, in whatever order the processes act.
\<close>

section \<open>A row reads back\<close>

definition owner_ok :: "journal_owner \<Rightarrow> bool" where
  "owner_ok ow \<longleftrightarrow> 0 < jo_pid ow \<and> jo_pid ow \<le> MAX_SAFE"

definition row_storable :: "journal_row \<Rightarrow> bool" where
  "row_storable r \<longleftrightarrow> isFinite (jr_startedAt r) \<and> (\<forall>ow. jr_owner r = Some ow \<longrightarrow> owner_ok ow) \<and>
     (\<forall>t. jr_startingTree r = Some t \<longrightarrow> length (st_entries t) \<le> MAX_ACTIVITY_STAT_PATHS) \<and>
     (\<forall>i. jr_brokerExecution r = Some i \<longrightarrow> execution_id i)"

lemma tree_reads: "length (st_entries t) \<le> MAX_ACTIVITY_STAT_PATHS \<Longrightarrow> readStartingTree (Some (encode_tree t)) = Some t"
proof -
  assume len: "length (st_entries t) \<le> MAX_ACTIVITY_STAT_PATHS"
  have pairs: "all_some (map (read_pair \<circ> (\<lambda>(a, b). JArr [JStr a, JStr b])) xs) = Some xs" for xs
    by (induction xs) (auto split: prod.split)
  have texts: "all_some (map ((\<lambda>v. str_of (Some v)) \<circ> JStr) xs) = Some xs" for xs
    by (induction xs) simp_all
  show ?thesis using len
    by (cases "st_scope t") (simp_all add: readStartingTree_def encode_tree_def pairs texts optional_def opt_member_def)
qed

lemma owner_reads: "owner_ok ow \<Longrightarrow> readOwner (Some (encode_owner ow)) = Some ow"
  by (simp add: readOwner_def encode_owner_def owner_ok_def num_def)

lemma broker_reads: "execution_id i \<Longrightarrow> readBrokerExecution (Some (JObj [(''kind'', JStr ''daemon-v1''), (''executionId'', JStr i)])) = Some i"
  by (simp add: readBrokerExecution_def)

lemma absent_reads [simp]: "readStartingTree None = None" "readBrokerExecution None = None"
  by (simp_all add: readStartingTree_def readBrokerExecution_def)

text \<open>A row reads back as it was written, with every optional part.\<close>

lemma journal_row_reads:
  assumes "row_storable r"
  shows "readJournalRow (encode_journal_row r) = Some r"
proof -
  obtain q where q: "jr_startedAt r = Fin q" using assms by (auto simp: row_storable_def isFinite_iff)
  let ?ms = "[(''jobId'', JStr (jr_jobId r)), (''laneId'', JStr (jr_laneId r)), (''cwd'', JStr (jr_cwd r)), (''startedAt'', json_of_num (jr_startedAt r))] @
     optional ''spec'' (map_option JStr (jr_spec r)) @ optional ''label'' (map_option JStr (jr_label r)) @
     optional ''owner'' (map_option encode_owner (jr_owner r)) @ optional ''startingTree'' (map_option encode_tree (jr_startingTree r)) @
     optional ''brokerExecution'' (map_option (\<lambda>i. JObj [(''kind'', JStr ''daemon-v1''), (''executionId'', JStr i)]) (jr_brokerExecution r))"
  have parts: "member ?ms ''spec'' = map_option JStr (jr_spec r)" "member ?ms ''label'' = map_option JStr (jr_label r)"
    "member ?ms ''owner'' = map_option encode_owner (jr_owner r)" "member ?ms ''startingTree'' = map_option encode_tree (jr_startingTree r)"
    "member ?ms ''brokerExecution'' = map_option (\<lambda>i. JObj [(''kind'', JStr ''daemon-v1''), (''executionId'', JStr i)]) (jr_brokerExecution r)"
    "member ?ms ''jobId'' = Some (JStr (jr_jobId r))" "member ?ms ''laneId'' = Some (JStr (jr_laneId r))" "member ?ms ''cwd'' = Some (JStr (jr_cwd r))"
    "member ?ms ''startedAt'' = Some (JNum (Fin q))"
    by (simp_all add: q split: option.split)
  have tree: "readStartingTree (map_option encode_tree (jr_startingTree r)) = jr_startingTree r"
    using assms tree_reads by (cases "jr_startingTree r") (simp_all add: row_storable_def)
  have broker: "readBrokerExecution (map_option (\<lambda>i. JObj [(''kind'', JStr ''daemon-v1''), (''executionId'', JStr i)]) (jr_brokerExecution r)) = jr_brokerExecution r"
    using assms broker_reads by (cases "jr_brokerExecution r") (simp_all add: row_storable_def)
  have owner: "opt_member readOwner (map_option encode_owner (jr_owner r)) = Some (jr_owner r)"
    using assms owner_reads by (cases "jr_owner r") (simp_all add: row_storable_def opt_member_def)
  have strings: "opt_member str_of (map_option JStr v) = Some v" for v by (cases v) (simp_all add: opt_member_def)
  show ?thesis unfolding encode_journal_row_def readJournalRow_def json.case parts tree broker owner strings
    by (simp add: q)
qed

section \<open>The rows of a file\<close>

definition disk_rows :: "json option \<Rightarrow> journal_row list" where
  "disk_rows disk = (case readDisk disk of Some rows \<Rightarrow> rows | None \<Rightarrow> [])"

lemma rows_read_back: "\<forall>r \<in> set rows. readJournalRow (encode_journal_row r) = Some r \<Longrightarrow> disk_rows (Some (journal_file rows)) = rows"
proof -
  assume all: "\<forall>r \<in> set rows. readJournalRow (encode_journal_row r) = Some r"
  have "valid_rows (map encode_journal_row rows) = rows" using all by (induction rows) (simp_all add: valid_rows_def List.map_filter_simps)
  then show ?thesis by (simp add: disk_rows_def readDisk_def journal_file_def JOB_JOURNAL_VERSION_def)
qed

lemma stored_reads: "\<forall>r \<in> set rows. row_storable r \<Longrightarrow> disk_rows (Some (journal_file rows)) = rows"
  by (rule rows_read_back) (simp add: journal_row_reads)

lemma encode_keeps:
  assumes "readJournalRow (encode_journal_row r) = Some y"
  shows "jr_jobId y = jr_jobId r"
  using assms unfolding encode_journal_row_def readJournalRow_def
  by (auto split: option.splits json.splits if_splits)

lemma disk_rows_file: "set (disk_rows (Some (journal_file rows))) = {y. \<exists>x \<in> set rows. readJournalRow (encode_journal_row x) = Some y}"
proof -
  have "disk_rows (Some (journal_file rows)) = valid_rows (map encode_journal_row rows)"
    by (simp add: disk_rows_def readDisk_def journal_file_def JOB_JOURNAL_VERSION_def)
  moreover have "set (valid_rows vs) = {y. \<exists>v \<in> set vs. readJournalRow v = Some y}" for vs
    by (induction vs) (auto simp: valid_rows_def List.map_filter_simps split: option.splits)
  ultimately show ?thesis by auto
qed

section \<open>One row of a job\<close>

text \<open>A row that is on the file and is the only row of its job there.\<close>

definition only_row :: "journal_row list \<Rightarrow> journal_row \<Rightarrow> bool" where
  "only_row rows r \<longleftrightarrow> r \<in> set rows \<and> (\<forall>x \<in> set rows. jr_jobId x = jr_jobId r \<longrightarrow> x = r)"

lemma only_row_written:
  assumes "only_row rows r" "row_storable r"
  shows "only_row (disk_rows (Some (journal_file rows))) r"
  unfolding only_row_def
proof (intro conjI ballI impI)
  show "r \<in> set (disk_rows (Some (journal_file rows)))"
    using assms journal_row_reads unfolding disk_rows_file only_row_def by blast
next
  fix x assume "x \<in> set (disk_rows (Some (journal_file rows)))" and job: "jr_jobId x = jr_jobId r"
  then obtain y where y: "y \<in> set rows" "readJournalRow (encode_journal_row y) = Some x" unfolding disk_rows_file by blast
  then have "jr_jobId y = jr_jobId r" using encode_keeps job by simp
  then have "y = r" using assms(1) y(1) by (simp add: only_row_def)
  then show "x = r" using y(2) journal_row_reads [OF assms(2)] by simp
qed

text \<open>The rows of a process, by their job.\<close>

definition keyed :: "(string, journal_row) jmap \<Rightarrow> bool" where
  "keyed m \<longleftrightarrow> jm_ok m \<and> (\<forall>(k, r) \<in> set m. jr_jobId r = k)"

lemma keyed_put: "keyed m \<Longrightarrow> jr_jobId r = k \<Longrightarrow> keyed (jm_put k r m)"
  by (auto simp: keyed_def jm_laws dest: jm_put_set)

lemma fold_put_get:
  "k \<notin> jr_jobId ` set rs \<Longrightarrow> jm_get (fold (\<lambda>r m. jm_put (jr_jobId r) r m) rs m) k = jm_get m k"
  by (induction rs arbitrary: m) (auto simp: jm_laws)

lemma fold_put_keyed: "keyed m \<Longrightarrow> keyed (fold (\<lambda>r m. jm_put (jr_jobId r) r m) rs m)"
  by (induction rs arbitrary: m) (auto intro: keyed_put)

lemma fold_others_keyed: "keyed m \<Longrightarrow> keyed (fold (\<lambda>r m. if jr_owner r = Some me then m else jm_put (jr_jobId r) r m) rs m)"
  by (induction rs arbitrary: m) (auto intro: keyed_put)

lemma fold_others_get:
  assumes "\<forall>x \<in> set rs. jr_jobId x = jr_jobId r \<longrightarrow> x = r" and "jr_owner r \<noteq> Some me"
  shows "jm_get (fold (\<lambda>r m. if jr_owner r = Some me then m else jm_put (jr_jobId r) r m) rs m) (jr_jobId r) =
    (if r \<in> set rs then Some r else jm_get m (jr_jobId r))"
  using assms by (induction rs arbitrary: m) (auto simp: jm_laws)

lemma keyed_only: "keyed m \<Longrightarrow> jm_get m (jr_jobId r) = Some r \<Longrightarrow> only_row (map snd m) r"
proof -
  assume keyed: "keyed m" and got: "jm_get m (jr_jobId r) = Some r"
  have mem: "r \<in> set (map snd m)" using jm_get_in [OF got] by force
  have "x = r" if inm: "x \<in> set (map snd m)" and job: "jr_jobId x = jr_jobId r" for x
  proof -
    obtain k where k: "(k, x) \<in> set m" using inm by auto
    then have "k = jr_jobId r" using keyed job by (auto simp: keyed_def)
    then have "jm_get m (jr_jobId r) = Some x" using jm_in_get [of m k x] k keyed by (simp add: keyed_def)
    then show "x = r" using got by simp
  qed
  then show "only_row (map snd m) r" using mem by (simp add: only_row_def)
qed

text \<open>The rewrite of a process keeps the only row of a job that is another's and that it does not run itself.\<close>

lemma merge_keeps_others:
  assumes "only_row rows r" "jr_owner r \<noteq> Some me" "jm_get own (jr_jobId r) = None" "keyed own"
  shows "only_row (merged_rows me own rows) r"
proof -
  let ?others = "fold (\<lambda>r m. if jr_owner r = Some me then m else jm_put (jr_jobId r) r m) rows []"
  have mine: "jr_jobId r \<notin> jr_jobId ` set (map snd own)"
    using assms(3,4) by (force simp: jm_get_None keyed_def)
  have "keyed []" by (simp add: keyed_def)
  then have keyed: "keyed (fold (\<lambda>r m. jm_put (jr_jobId r) r m) (map snd own) ?others)"
    by (intro fold_put_keyed fold_others_keyed)
  have "jm_get ?others (jr_jobId r) = Some r"
    using fold_others_get [of rows r me "[]"] assms(1,2) by (simp add: only_row_def)
  then have "jm_get (fold (\<lambda>r m. jm_put (jr_jobId r) r m) (map snd own) ?others) (jr_jobId r) = Some r"
    using fold_put_get [OF mine] by simp
  then show ?thesis unfolding merged_rows_def by (rule keyed_only [OF keyed])
qed

section \<open>The operations of one process, one after another\<close>

datatype journal_op =
    Note journal_row
  | Note_Tree string starting_tree
  | Note_Execution string json
  | Claim string
  | Clear string
  | Clear_Orphan journal_row
  | Look

definition op_step :: "(nat \<Rightarrow> bool) \<Rightarrow> bool \<Rightarrow> journal_op \<Rightarrow> json option \<times> journal \<Rightarrow> json option \<times> journal" where
  "op_step alive io op s =
     (case op of
        Note row \<Rightarrow> journal_note alive io row s
      | Note_Tree jobId tree \<Rightarrow> noteStartingTree alive io jobId tree s
      | Note_Execution jobId execution \<Rightarrow> noteBrokerExecution alive io jobId execution s
      | Claim jobId \<Rightarrow> fst (claimBrokerOrphan alive io jobId s)
      | Clear jobId \<Rightarrow> journal_clear alive io jobId s
      | Clear_Orphan row \<Rightarrow> clearOrphan alive io row s
      | Look \<Rightarrow> (fst s, fst (journal_orphans alive s)))"

lemma readOnce_owner [simp]: "jp_owner (readOnce alive disk j) = jp_owner j" "jp_rows (readOnce alive disk j) = jp_rows j"
  by (simp_all add: readOnce_def split: option.split)

text \<open>A transaction applies its update to the rows of the file.\<close>

lemma transaction_rows:
  "journal_transaction io disk update = Some f \<Longrightarrow> f = journal_file (update (disk_rows disk))"
  by (auto simp: journal_transaction_def disk_rows_def readDisk_def split: option.splits if_splits)

lemma transaction_keeps:
  assumes "journal_transaction io disk update = Some f" "row_storable r" "only_row (update (disk_rows disk)) r"
  shows "only_row (disk_rows (Some f)) r"
  using only_row_written [OF assms(3,2)] transaction_rows [OF assms(1)] by simp

lemma keyed_got: "keyed m \<Longrightarrow> jm_get m k = Some x \<Longrightarrow> jr_jobId x = k"
  by (auto simp: keyed_def dest: jm_get_in)

lemma claim_first_held:
  assumes "ownedElsewhere alive me r" "\<forall>x \<in> set rows. jr_jobId x = jr_jobId r \<longrightarrow> x = r"
  shows "claim_first alive me (jr_jobId r) rows = (rows, None)"
  using assms(2) by (induction rows) (auto simp: assms(1))

lemma claim_first_other:
  "jr_jobId x \<noteq> k \<Longrightarrow> x \<in> set (fst (claim_first alive me k rows)) \<longleftrightarrow> x \<in> set rows"
  by (induction rows) (auto simp: Let_def split: prod.split)

lemma claim_first_row: "snd (claim_first alive me k rows) = Some row \<Longrightarrow> jr_jobId row = k"
  by (induction rows) (auto simp: Let_def split: if_splits prod.splits)

lemma identity_owner: "sameJournalRowIdentity a b \<Longrightarrow> jr_owner a = jr_owner b"
  by (simp add: sameJournalRowIdentity_def)

text \<open>The jobs an operation starts, and the job of an operation on a row of its own.\<close>

fun op_notes :: "journal_op \<Rightarrow> string option" where
  "op_notes (Note row) = Some (jr_jobId row)"
| "op_notes op = None"

fun op_job :: "journal_op \<Rightarrow> string option" where
  "op_job (Note row) = Some (jr_jobId row)"
| "op_job (Note_Tree k tree) = Some k"
| "op_job (Note_Execution k execution) = Some k"
| "op_job (Clear k) = Some k"
| "op_job op = None"

section \<open>The processes that leave a row alone\<close>

text \<open>What a process state promises about the row \<open>r\<close>: its rewrites and claims keep the row, and its operations on other jobs
  keep the promise. It is met by a process that does not run the job, and by the owner of the row between two operations on it.\<close>

locale journal_party =
  fixes alive :: "nat \<Rightarrow> bool" and r :: journal_row and Q :: "journal \<Rightarrow> bool"
  assumes storable: "Q j \<Longrightarrow> row_storable r"
    and keyed: "Q j \<Longrightarrow> keyed (jp_rows j)"
    and reads: "Q j \<Longrightarrow> Q (readOnce alive disk j)"
    and merges: "Q j \<Longrightarrow> only_row rows r \<Longrightarrow> only_row (merged_rows (jp_owner j) (jp_rows j) rows) r"
    and put: "Q j \<Longrightarrow> jr_jobId x = k \<Longrightarrow> k \<noteq> jr_jobId r \<Longrightarrow> Q (j\<lparr>jp_rows := jm_put k x (jp_rows j)\<rparr>)"
    and del: "Q j \<Longrightarrow> k \<noteq> jr_jobId r \<Longrightarrow> Q (j\<lparr>jp_rows := jm_del k (jp_rows j)\<rparr>)"
    and failed: "Q j \<Longrightarrow> Q (j\<lparr>jp_persistErrors := n\<rparr>)"
    and fewer: "Q j \<Longrightarrow> Q (j\<lparr>jp_startupOrphans := filter P (jp_startupOrphans j)\<rparr>)"
    and orphans: "Q j \<Longrightarrow> x \<in> set (jp_startupOrphans j) \<Longrightarrow> jr_owner x \<noteq> jr_owner r"
    and claims: "Q j \<Longrightarrow> only_row rows r \<Longrightarrow> fst (claim_first alive (jp_owner j) (jr_jobId r) rows) = rows"
    and claimed: "Q j \<Longrightarrow> only_row rows r \<Longrightarrow> snd (claim_first alive (jp_owner j) (jr_jobId r) rows) = Some x \<Longrightarrow>
      Q (j\<lparr>jp_rows := jm_put (jr_jobId r) x (jp_rows j)\<rparr>)"
begin

lemma persist_keeps:
  assumes "only_row (disk_rows disk) r" "Q j"
  shows "only_row (disk_rows (fst (persist io disk j))) r \<and> Q (snd (persist io disk j))"
proof (cases "journal_transaction io disk (merged_rows (jp_owner j) (jp_rows j))")
  case None
  then show ?thesis using assms failed by (simp add: persist_def)
next
  case (Some f)
  then show ?thesis using assms(2) transaction_keeps [OF Some storable [OF assms(2)] merges [OF assms(2,1)]]
    by (simp add: persist_def)
qed

lemma put_keeps:
  assumes "only_row (disk_rows disk) r" "Q j" "jr_jobId x = k" "k \<noteq> jr_jobId r"
  shows "only_row (disk_rows (fst (persist io disk (j\<lparr>jp_rows := jm_put k x (jp_rows j)\<rparr>)))) r \<and>
    Q (snd (persist io disk (j\<lparr>jp_rows := jm_put k x (jp_rows j)\<rparr>)))"
  by (rule persist_keeps [OF assms(1) put [OF assms(2-4)]])

lemma claim_first_keeps:
  assumes "Q j" "only_row rows r"
  shows "only_row (fst (claim_first alive (jp_owner j) k rows)) r"
proof (cases "k = jr_jobId r")
  case True
  then show ?thesis using claims [OF assms] assms(2) by simp
next
  case False
  then show ?thesis using assms(2) claim_first_other [of _ k alive "jp_owner j" rows] by (auto simp: only_row_def)
qed

lemma claim_keeps:
  assumes "only_row (disk_rows disk) r" "Q j"
  shows "only_row (disk_rows (fst (fst (claimBrokerOrphan alive io k (disk, j))))) r \<and> Q (snd (fst (claimBrokerOrphan alive io k (disk, j))))"
proof -
  define j1 where "j1 = readOnce alive disk j"
  have q1: "Q j1" unfolding j1_def by (rule reads [OF assms(2)])
  show ?thesis
  proof (cases "journal_transaction io disk (\<lambda>rows. fst (claim_first alive (jp_owner j1) k rows))")
    case None
    then show ?thesis using assms(1) q1 by (simp add: claimBrokerOrphan_def Let_def j1_def)
  next
    case (Some f)
    have kept: "only_row (disk_rows (Some f)) r"
      by (rule transaction_keeps [OF Some storable [OF q1] claim_first_keeps [OF q1 assms(1)]])
    have more: "Q (j1\<lparr>jp_rows := jm_put k row (jp_rows j1)\<rparr>)"
      if got: "snd (claim_first alive (jp_owner j1) k (disk_rows disk)) = Some row" for row
    proof (cases "k = jr_jobId r")
      case True
      then show ?thesis using claimed [OF q1 assms(1)] got by simp
    next
      case False
      then show ?thesis using put [OF q1 claim_first_row [OF got]] by simp
    qed
    show ?thesis using kept more Some q1
      by (auto simp: claimBrokerOrphan_def Let_def j1_def disk_rows_def split: option.split)
  qed
qed

lemma clear_orphan_keeps:
  assumes "only_row (disk_rows disk) r" "Q j"
  shows "only_row (disk_rows (fst (clearOrphan alive io orphan (disk, j)))) r \<and> Q (snd (clearOrphan alive io orphan (disk, j)))"
proof -
  define j1 where "j1 = readOnce alive disk j"
  have q1: "Q j1" unfolding j1_def by (rule reads [OF assms(2)])
  show ?thesis
  proof (cases "find (\<lambda>row. sameJournalRowIdentity row orphan) (jp_startupOrphans j1)")
    case None
    then show ?thesis using assms(1) q1 by (simp add: clearOrphan_def Let_def j1_def)
  next
    case (Some startup)
    then have "startup \<in> set (jp_startupOrphans j1)" by (auto simp: find_Some_iff)
    then have "\<not> sameJournalRowIdentity r startup" using orphans [OF q1] identity_owner by metis
    then have kept: "only_row (filter (\<lambda>row. \<not> sameJournalRowIdentity row startup) (disk_rows disk)) r"
      using assms(1) by (simp add: only_row_def)
    show ?thesis
    proof (cases "journal_transaction io disk (filter (\<lambda>row. \<not> sameJournalRowIdentity row startup))")
      case None
      then show ?thesis using Some assms(1) failed [OF q1] by (simp add: clearOrphan_def Let_def j1_def)
    next
      case (Some f)
      then show ?thesis using \<open>find _ _ = Some startup\<close> transaction_keeps [OF Some storable [OF q1] kept] fewer [OF q1]
        by (simp add: clearOrphan_def Let_def j1_def)
    qed
  qed
qed

lemma op_step_keeps:
  assumes "only_row (disk_rows disk) r" "Q j" "op_notes op \<noteq> Some (jr_jobId r)"
    and own: "jm_get (jp_rows j) (jr_jobId r) \<noteq> None \<Longrightarrow> op_job op \<noteq> Some (jr_jobId r)"
  shows "only_row (disk_rows (fst (op_step alive io op (disk, j)))) r \<and> Q (snd (op_step alive io op (disk, j)))"
proof -
  define j1 where "j1 = readOnce alive disk j"
  have q1: "Q j1" unfolding j1_def by (rule reads [OF assms(2)])
  note kept = put_keeps [OF assms(1) q1]
  have known: "jr_jobId x = k" if "jm_get (jp_rows j1) k = Some x" for k x
    using keyed_got [OF keyed [OF q1] that] .
  have rows: "jp_rows j1 = jp_rows j" by (simp add: j1_def)
  show ?thesis
  proof (cases op)
    case (Note row)
    let ?row = "row\<lparr>jr_startingTree := (case jr_startingTree row of Some t \<Rightarrow> Some t | None \<Rightarrow> Option.bind (jm_get (jp_rows (readOnce alive disk j)) (jr_jobId row)) jr_startingTree),
      jr_owner := Some (jp_owner j)\<rparr>"
    show ?thesis using Note kept [of ?row "jr_jobId row"] assms(3) by (simp add: op_step_def journal_note_def Let_def j1_def)
  next
    case (Note_Tree k tree)
    show ?thesis
    proof (cases "jm_get (jp_rows j1) k")
      case None
      then show ?thesis using Note_Tree assms(1) q1 by (simp add: op_step_def noteStartingTree_def Let_def j1_def)
    next
      case (Some x)
      have "jr_jobId x = k" "k \<noteq> jr_jobId r" using known [OF Some] own Some rows Note_Tree by auto
      then show ?thesis
        using Note_Tree Some assms(1) q1 kept [of "x\<lparr>jr_startingTree := None\<rparr>" k] kept [of "x\<lparr>jr_startingTree := Some tree\<rparr>" k]
        by (auto simp: op_step_def noteStartingTree_def Let_def j1_def)
    qed
  next
    case (Note_Execution k execution)
    show ?thesis
    proof (cases "jm_get (jp_rows j1) k")
      case None
      then show ?thesis using Note_Execution assms(1) q1 by (simp add: op_step_def noteBrokerExecution_def Let_def j1_def)
    next
      case (Some x)
      have "jr_jobId x = k" "k \<noteq> jr_jobId r" using known [OF Some] own Some rows Note_Execution by auto
      then show ?thesis
        using Note_Execution Some assms(1) q1 kept [of "x\<lparr>jr_brokerExecution := readBrokerExecution (Some execution)\<rparr>" k]
        by (auto simp: op_step_def noteBrokerExecution_def Let_def j1_def split: option.split)
    qed
  next
    case (Claim k)
    then show ?thesis using claim_keeps [OF assms(1,2), of io k] by (simp add: op_step_def)
  next
    case (Clear k)
    show ?thesis
    proof (cases "jm_get (jp_rows j1) k = None")
      case True
      then show ?thesis using Clear assms(1) q1 by (simp add: op_step_def journal_clear_def Let_def j1_def)
    next
      case False
      then have "k \<noteq> jr_jobId r" using own rows Clear by auto
      then show ?thesis using Clear False persist_keeps [OF assms(1) del [OF q1], of k io]
        by (auto simp: op_step_def journal_clear_def Let_def j1_def)
    qed
  next
    case (Clear_Orphan orphan)
    then show ?thesis using clear_orphan_keeps [OF assms(1,2), of io orphan] by (simp add: op_step_def)
  next
    case Look
    then show ?thesis using assms(1) q1 by (simp add: op_step_def journal_orphans_def Let_def j1_def)
  qed
qed

end

text \<open>A process that does not run the job, while the row's owner is alive.\<close>

definition bystander :: "(nat \<Rightarrow> bool) \<Rightarrow> journal_row \<Rightarrow> journal \<Rightarrow> bool" where
  "bystander alive r j \<longleftrightarrow> row_storable r \<and> keyed (jp_rows j) \<and> jm_get (jp_rows j) (jr_jobId r) = None \<and>
     ownedElsewhere alive (jp_owner j) r \<and> (\<forall>x \<in> set (jp_startupOrphans j). jr_owner x \<noteq> jr_owner r)"

lemma keyed_del: "keyed m \<Longrightarrow> keyed (jm_del k m)"
  using set_jm_del [of k m] by (auto simp: keyed_def jm_laws)

lemma elsewhere_owner: "ownedElsewhere alive me x \<Longrightarrow> jr_owner x \<noteq> Some me"
  by (auto simp: ownedElsewhere_def)

lemma elsewhere_same: "jr_owner x = jr_owner y \<Longrightarrow> ownedElsewhere alive me x = ownedElsewhere alive me y"
  by (simp add: ownedElsewhere_def)

interpretation bystander: journal_party alive r "bystander alive r" for alive r
proof
  fix j disk
  assume "bystander alive r j"
  moreover have "jr_owner x \<noteq> jr_owner r" if "\<not> ownedElsewhere alive (jp_owner j) x" for x
    using that elsewhere_same [of x r alive "jp_owner j"] calculation by (auto simp: bystander_def)
  ultimately show "bystander alive r (readOnce alive disk j)" by (auto simp: bystander_def readOnce_def split: option.split)
next
  fix j rows
  assume "bystander alive r j" "only_row rows r"
  then show "only_row (merged_rows (jp_owner j) (jp_rows j) rows) r"
    using elsewhere_owner by (intro merge_keeps_others) (auto simp: bystander_def)
next
  fix j rows
  assume "bystander alive r j" "only_row rows r"
  then show "fst (claim_first alive (jp_owner j) (jr_jobId r) rows) = rows"
    using claim_first_held by (simp add: bystander_def only_row_def)
next
  fix j rows x
  assume "bystander alive r j" "only_row rows r" "snd (claim_first alive (jp_owner j) (jr_jobId r) rows) = Some x"
  then show "bystander alive r (j\<lparr>jp_rows := jm_put (jr_jobId r) x (jp_rows j)\<rparr>)"
    using claim_first_held by (simp add: bystander_def only_row_def)
qed (auto simp: bystander_def jm_laws intro: keyed_put keyed_del)

text \<open>The owner of the row.\<close>

definition holder :: "journal_row \<Rightarrow> journal \<Rightarrow> bool" where
  "holder r j \<longleftrightarrow> row_storable r \<and> keyed (jp_rows j) \<and> jm_get (jp_rows j) (jr_jobId r) = Some r \<and>
     jr_owner r = Some (jp_owner j) \<and> (\<forall>x \<in> set (jp_startupOrphans j). jr_owner x \<noteq> jr_owner r)"

lemma fold_own_get:
  "keyed own \<Longrightarrow> jm_get own k = Some r \<Longrightarrow> jm_get (fold (\<lambda>r m. jm_put (jr_jobId r) r m) (map snd own) m) k = Some r"
proof (induction own arbitrary: m)
  case (Cons p own)
  obtain k0 r0 where p: "p = (k0, r0)" by (cases p)
  have keyed: "keyed own" and k0: "jr_jobId r0 = k0" "k0 \<notin> fst ` set own"
    using Cons.prems(1) p by (auto simp: keyed_def jm_ok_def)
  show ?case
  proof (cases "k = k0")
    case True
    have "k0 \<notin> jr_jobId ` set (map snd own)" using keyed k0(2) by (force simp: keyed_def)
    then have "jm_get (fold (\<lambda>r m. jm_put (jr_jobId r) r m) (map snd own) (jm_put k0 r0 m)) k0 = jm_get (jm_put k0 r0 m) k0"
      by (rule fold_put_get)
    then show ?thesis using True Cons.prems(2) p k0(1) by (simp add: jm_laws)
  next
    case False
    then show ?thesis using Cons.IH [OF keyed] Cons.prems(2) p by simp
  qed
qed simp

lemma merge_keeps_own:
  assumes "keyed own" "jm_get own (jr_jobId r) = Some r"
  shows "only_row (merged_rows me own rows) r"
proof -
  let ?others = "fold (\<lambda>r m. if jr_owner r = Some me then m else jm_put (jr_jobId r) r m) rows []"
  have "keyed []" by (simp add: keyed_def)
  then have keyed: "keyed (fold (\<lambda>r m. jm_put (jr_jobId r) r m) (map snd own) ?others)"
    by (intro fold_put_keyed fold_others_keyed)
  show ?thesis unfolding merged_rows_def by (rule keyed_only [OF keyed fold_own_get [OF assms]])
qed

lemma claim_first_own:
  assumes "jr_owner r = Some me" "\<forall>x \<in> set rows. jr_jobId x = jr_jobId r \<longrightarrow> x = r"
  shows "fst (claim_first alive me (jr_jobId r) rows) = rows \<and> snd (claim_first alive me (jr_jobId r) rows) \<in> {None, Some r}"
proof -
  have same: "r\<lparr>jr_owner := Some me\<rparr> = r" using assms(1) by (cases r) simp
  show ?thesis using assms(2)
    by (induction rows) (auto simp: same Let_def split: prod.split)
qed

lemma put_same: "keyed m \<Longrightarrow> jm_get m k = Some r \<Longrightarrow> jm_get (jm_put k r m) = jm_get m"
  by (rule ext) (simp add: jm_laws)

interpretation holder: journal_party alive r "holder r" for alive r
proof
  fix j disk
  assume h: "holder r j"
  then have "\<not> ownedElsewhere alive (jp_owner j) r \<and> map_option jo_instance (jr_owner r) = Some (jo_instance (jp_owner j))"
    by (simp add: holder_def ownedElsewhere_def)
  then have "jr_owner x \<noteq> jr_owner r" if "map_option jo_instance (jr_owner x) \<noteq> Some (jo_instance (jp_owner j))" for x
    using that by auto
  then show "holder r (readOnce alive disk j)" using h by (auto simp: holder_def readOnce_def split: option.split)
next
  fix j rows
  assume "holder r j" "only_row rows r"
  then show "only_row (merged_rows (jp_owner j) (jp_rows j) rows) r" by (intro merge_keeps_own) (auto simp: holder_def)
next
  fix j rows
  assume "holder r j" "only_row rows r"
  then show "fst (claim_first alive (jp_owner j) (jr_jobId r) rows) = rows"
    using claim_first_own [of r "jp_owner j" rows alive] by (simp add: holder_def only_row_def)
next
  fix j rows x
  assume h: "holder r j" and only: "only_row rows r" and got: "snd (claim_first alive (jp_owner j) (jr_jobId r) rows) = Some x"
  then have "x = r" using claim_first_own [of r "jp_owner j" rows alive] by (auto simp: holder_def only_row_def)
  then show "holder r (j\<lparr>jp_rows := jm_put (jr_jobId r) x (jp_rows j)\<rparr>)"
    using h by (auto simp: holder_def jm_laws intro: keyed_put)
qed (auto simp: holder_def jm_laws intro: keyed_put keyed_del)

section \<open>Processes over one file\<close>

text \<open>An event: a process, the processes that are alive, whether the write goes through, and the operation.\<close>

type_synonym journal_event = "nat \<times> (nat \<Rightarrow> bool) \<times> bool \<times> journal_op"

fun run_journals :: "journal_event list \<Rightarrow> json option \<times> (nat \<Rightarrow> journal) \<Rightarrow> json option \<times> (nat \<Rightarrow> journal)" where
  "run_journals [] s = s"
| "run_journals ((p, alive, io, op) # es) (disk, js) =
     (let (disk', j) = op_step alive io op (disk, js p) in run_journals es (disk', js(p := j)))"

lemma bystander_alive: "bystander (\<lambda>_. True) r j \<Longrightarrow> jr_owner r = Some ow \<Longrightarrow> alive (jo_pid ow) \<Longrightarrow> bystander alive r j"
  by (simp add: bystander_def ownedElsewhere_def)

lemma bystander_any: "bystander alive r j \<Longrightarrow> bystander (\<lambda>_. True) r j"
  by (auto simp: bystander_def ownedElsewhere_def split: option.splits)

lemma run_keeps:
  assumes "\<forall>(q, alive, io, op) \<in> set es. alive (jo_pid ow) \<and> op_notes op \<noteq> Some (jr_jobId r) \<and> (q = p \<longrightarrow> op_job op \<noteq> Some (jr_jobId r))"
    and "jr_owner r = Some ow" "only_row (disk_rows disk) r" "holder r (js p)" "\<forall>q. q \<noteq> p \<longrightarrow> bystander (\<lambda>_. True) r (js q)"
  shows "only_row (disk_rows (fst (run_journals es (disk, js)))) r \<and> holder r (snd (run_journals es (disk, js)) p) \<and>
    (\<forall>q. q \<noteq> p \<longrightarrow> bystander (\<lambda>_. True) r (snd (run_journals es (disk, js)) q))"
  using assms(1,3-)
proof (induction es arbitrary: disk js)
  case (Cons e es)
  obtain q alive io op where e: "e = (q, alive, io, op)" by (cases e)
  have ev: "alive (jo_pid ow)" "op_notes op \<noteq> Some (jr_jobId r)" "q = p \<Longrightarrow> op_job op \<noteq> Some (jr_jobId r)"
    using Cons.prems(1) e by auto
  have rest: "\<forall>(q, alive, io, op) \<in> set es. alive (jo_pid ow) \<and> op_notes op \<noteq> Some (jr_jobId r) \<and> (q = p \<longrightarrow> op_job op \<noteq> Some (jr_jobId r))"
    using Cons.prems(1) by simp
  obtain disk1 j1 where step: "op_step alive io op (disk, js q) = (disk1, j1)" by (cases "op_step alive io op (disk, js q)")
  have run: "run_journals (e # es) (disk, js) = run_journals es (disk1, js(q := j1))" by (simp add: e step)
  show ?case
  proof (cases "q = p")
    case True
    then have "only_row (disk_rows disk1) r \<and> holder r j1"
      using holder.op_step_keeps [OF Cons.prems(2,3) ev(2), of alive io] ev(3) step by simp
    then show ?thesis unfolding run using True Cons.prems(4) by (intro Cons.IH [OF rest]) auto
  next
    case False
    then have stands: "bystander alive r (js q)" using bystander_alive Cons.prems(4) assms(2) ev(1) by blast
    then have "jm_get (jp_rows (js q)) (jr_jobId r) = None" by (simp add: bystander_def)
    then have "only_row (disk_rows disk1) r \<and> bystander alive r j1"
      using bystander.op_step_keeps [OF Cons.prems(2) stands ev(2), of io] step by simp
    then show ?thesis unfolding run using False Cons.prems(3,4) bystander_any by (intro Cons.IH [OF rest]) auto
  qed
qed simp

lemma held_claim_none:
  assumes "only_row (disk_rows disk) r" "bystander alive r j"
  shows "snd (claimBrokerOrphan alive io (jr_jobId r) (disk, j)) = None"
proof -
  have "claim_first alive (jp_owner j) (jr_jobId r) (disk_rows disk) = (disk_rows disk, None)"
    using assms by (intro claim_first_held) (auto simp: bystander_def only_row_def)
  then show ?thesis by (simp add: claimBrokerOrphan_def Let_def disk_rows_def split: option.split)
qed

lemma claim_first_only:
  assumes "distinct (map jr_jobId rows)" "snd (claim_first alive me k rows) = Some r"
  shows "only_row (fst (claim_first alive me k rows)) r \<and> jr_owner r = Some me \<and> jr_jobId r = k"
  using assms
proof (induction rows)
  case (Cons row rows)
  show ?case
  proof (cases "jr_jobId row = k")
    case True
    then have r: "r = row\<lparr>jr_owner := Some me\<rparr>" "fst (claim_first alive me k (row # rows)) = r # rows"
      using Cons.prems(2) by (auto simp: Let_def split: if_splits)
    have "jr_jobId row \<notin> jr_jobId ` set rows" using Cons.prems(1) by simp
    then have "\<forall>x \<in> set rows. jr_jobId x \<noteq> k" using True by (metis image_eqI)
    then show ?thesis using r True by (auto simp: only_row_def)
  next
    case False
    then have got: "snd (claim_first alive me k rows) = Some r" and out: "fst (claim_first alive me k (row # rows)) = row # fst (claim_first alive me k rows)"
      using Cons.prems(2) by (auto simp: Let_def split: prod.splits)
    then show ?thesis unfolding out using Cons.IH [OF _ got] Cons.prems(1) False by (auto simp: only_row_def)
  qed
qed simp

text \<open>C28. The execution of a dead process is claimed by one process only: after \<^verbatim>\<open>claimBrokerOrphan\<close> has given a process the row
  of a job, and for as long as that process is alive, the row stays on the file as claimed through every interleaving of the
  operations of all processes, failed writes included, that start no job of that name and with which the claimant does not change
  that row itself; and no other process claims it.\<close>

theorem claimed_execution_is_exclusive:
  assumes claim: "claimBrokerOrphan alive0 io0 k (disk, js p) = ((disk1, j1), Some r)"
    and distinct: "distinct (map jr_jobId (disk_rows disk))" and storable: "row_storable r"
    and claimant: "keyed (jp_rows (js p))" "\<forall>x \<in> set (jp_startupOrphans (js p)). jr_owner x \<noteq> Some (jp_owner (js p))"
    and others: "\<forall>q. q \<noteq> p \<longrightarrow> jo_pid (jp_owner (js q)) \<noteq> jo_pid (jp_owner (js p)) \<and> jo_instance (jp_owner (js q)) \<noteq> jo_instance (jp_owner (js p)) \<and>
      keyed (jp_rows (js q)) \<and> jm_get (jp_rows (js q)) k = None \<and> (\<forall>x \<in> set (jp_startupOrphans (js q)). jr_owner x \<noteq> Some (jp_owner (js p)))"
    and events: "\<forall>(q, alive, io, op) \<in> set es. alive (jo_pid (jp_owner (js p))) \<and> op_notes op \<noteq> Some k \<and> (q = p \<longrightarrow> op_job op \<noteq> Some k)"
    and later: "run_journals es (disk1, js(p := j1)) = (disk2, js2)" "q \<noteq> p" "alive (jo_pid (jp_owner (js p)))"
  shows "jr_jobId r = k \<and> jr_owner r = Some (jp_owner (js p)) \<and> only_row (disk_rows disk2) r \<and>
    snd (claimBrokerOrphan alive io k (disk2, js2 q)) = None"
proof -
  obtain f where f: "journal_transaction io0 disk (\<lambda>rows. fst (claim_first alive0 (jp_owner (js p)) k rows)) = Some f"
      "snd (claim_first alive0 (jp_owner (js p)) k (disk_rows disk)) = Some r" "disk1 = Some f"
      "j1 = (readOnce alive0 disk (js p))\<lparr>jp_rows := jm_put k r (jp_rows (js p))\<rparr>"
    using claim by (auto simp: claimBrokerOrphan_def Let_def disk_rows_def split: option.splits)
  have r: "only_row (fst (claim_first alive0 (jp_owner (js p)) k (disk_rows disk))) r" "jr_owner r = Some (jp_owner (js p))" "jr_jobId r = k"
    using claim_first_only [OF distinct f(2)] by auto
  have start: "only_row (disk_rows disk1) r" unfolding f(3) by (rule transaction_keeps [OF f(1) storable r(1)])
  have "\<forall>x \<in> set (jp_startupOrphans (readOnce alive0 disk (js p))). jr_owner x \<noteq> Some (jp_owner (js p))"
    using claimant(2) by (auto simp: readOnce_def split: option.split)
  then have holder: "holder r j1" using storable claimant(1) r by (auto simp: holder_def f(4) jm_laws intro: keyed_put)
  have standing: "\<forall>q. q \<noteq> p \<longrightarrow> bystander (\<lambda>_. True) r (js q)"
  proof (intro allI impI)
    fix q assume "q \<noteq> p"
    note other = others [rule_format, OF this]
    then show "bystander (\<lambda>_. True) r (js q)" using storable r by (auto simp: bystander_def ownedElsewhere_def)
  qed
  have same: "\<forall>(q, alive, io, op) \<in> set es. alive (jo_pid (jp_owner (js p))) \<and> op_notes op \<noteq> Some (jr_jobId r) \<and> (q = p \<longrightarrow> op_job op \<noteq> Some (jr_jobId r))"
    unfolding r(3) by (rule events)
  have "holder r ((js(p := j1)) p)" "\<forall>q. q \<noteq> p \<longrightarrow> bystander (\<lambda>_. True) r ((js(p := j1)) q)" using holder standing by simp_all
  from run_keeps [OF same r(2) start this] have kept: "only_row (disk_rows disk2) r" "bystander (\<lambda>_. True) r (js2 q)"
    unfolding later(1) fst_conv snd_conv using later(2) by blast+
  have "bystander alive r (js2 q)" by (rule bystander_alive [where alive = alive, OF kept(2) r(2) later(3)])
  then have "snd (claimBrokerOrphan alive io k (disk2, js2 q)) = None" using held_claim_none [OF kept(1)] r(3) by simp
  then show ?thesis using r kept(1) by simp
qed

text \<open>A process that died owning a row with an execution, two that come after it, and their claims.\<close>

definition dead_row :: journal_row where
  "dead_row = \<lparr>jr_jobId = ''j'', jr_laneId = ''codex'', jr_spec = None, jr_cwd = ''/w'', jr_startedAt = Fin 5, jr_label = None, jr_startingTree = None,
     jr_brokerExecution = Some ''exec-00000000000000000000000000000000'', jr_owner = Some \<lparr>jo_pid = 7, jo_instance = ''7-x-1''\<rparr>\<rparr>"

definition after_crash :: "nat \<Rightarrow> journal" where
  "after_crash q = createJobJournal \<lparr>jo_pid = 8 + q, jo_instance = replicate (Suc q) CHR ''i''\<rparr>"

definition claimed_row :: journal_row where
  "claimed_row = dead_row\<lparr>jr_owner := Some \<lparr>jo_pid = 8, jo_instance = ''i''\<rparr>\<rparr>"

lemma dead_storable: "row_storable dead_row" "row_storable claimed_row"
  by (simp_all add: row_storable_def dead_row_def claimed_row_def owner_ok_def MAX_SAFE_def execution_id_def)

lemma dead_on_disk: "disk_rows (Some (journal_file [dead_row])) = [dead_row]"
  by (rule stored_reads) (simp add: dead_storable)

lemma dead_claimed:
  "claimBrokerOrphan (\<lambda>pid. 7 < pid) True ''j'' (Some (journal_file [dead_row]), after_crash 0) =
     ((Some (journal_file [claimed_row]), (readOnce (\<lambda>pid. 7 < pid) (Some (journal_file [dead_row])) (after_crash 0))\<lparr>jp_rows := [(''j'', claimed_row)]\<rparr>), Some claimed_row)"
proof -
  have rows: "readDisk (Some (journal_file [dead_row])) = Some [dead_row]"
    using dead_on_disk by (simp add: disk_rows_def readDisk_def journal_file_def JOB_JOURNAL_VERSION_def)
  have claim: "claim_first (\<lambda>pid. 7 < pid) \<lparr>jo_pid = 8, jo_instance = ''i''\<rparr> ''j'' [dead_row] = ([claimed_row], Some claimed_row)"
    by (simp add: dead_row_def claimed_row_def ownedElsewhere_def Let_def)
  have moved: "journal_transaction True (Some (journal_file [dead_row])) u = Some (journal_file (u [dead_row]))" for u
    using rows by (simp add: journal_transaction_def readDisk_def split: if_splits)
  have owner: "jp_owner (after_crash 0) = \<lparr>jo_pid = 8, jo_instance = ''i''\<rparr>" "jp_rows (after_crash 0) = []"
    by (simp_all add: after_crash_def createJobJournal_def)
  show ?thesis by (simp add: claimBrokerOrphan_def Let_def rows claim moved owner del: claim_first.simps)
qed

definition after_claim :: "json option \<times> (nat \<Rightarrow> journal)" where
  "after_claim = run_journals [(1, \<lambda>pid. 7 < pid, True, Look), (1, \<lambda>pid. 7 < pid, True, Clear ''j'')]
     (Some (journal_file [claimed_row]),
      after_crash(0 := (readOnce (\<lambda>pid. 7 < pid) (Some (journal_file [dead_row])) (after_crash 0))\<lparr>jp_rows := [(''j'', claimed_row)]\<rparr>))"

lemma claimed_execution_is_exclusive_witness:
  "jr_jobId claimed_row = ''j'' \<and> jr_owner claimed_row = Some (jp_owner (after_crash 0)) \<and> only_row (disk_rows (fst after_claim)) claimed_row \<and>
   snd (claimBrokerOrphan (\<lambda>pid. 7 < pid) True ''j'' (fst after_claim, snd after_claim 1)) = None"
proof (rule claimed_execution_is_exclusive [where p = 0 and q = 1 and js = after_crash and alive = "\<lambda>pid. 7 < pid" and k = "''j''", OF dead_claimed])
  show "run_journals [(1, \<lambda>pid. 7 < pid, True, Look), (1, \<lambda>pid. 7 < pid, True, Clear ''j'')]
      (Some (journal_file [claimed_row]),
       after_crash(0 := (readOnce (\<lambda>pid. 7 < pid) (Some (journal_file [dead_row])) (after_crash 0))\<lparr>jp_rows := [(''j'', claimed_row)]\<rparr>)) =
      (fst after_claim, snd after_claim)"
    by (simp only: after_claim_def prod.collapse)
qed (simp_all add: dead_on_disk dead_storable keyed_def after_crash_def createJobJournal_def)

end
