(* ===== verification/Job_Journal_Crash.thy ===== *)
theory Job_Journal_Crash
  imports Job_Journal_Props
begin

text \<open>
  What the job journal is for: after a crash the next process finds on the file exactly the jobs the dead one was running. The
  invariant is that the rows a process owns on the file are the rows of its memory, kept by every operation whose write goes through.
\<close>

section \<open>Memory and file agree\<close>

definition journal_readable :: "json option \<Rightarrow> bool" where
  "journal_readable disk \<longleftrightarrow> (case disk of None \<Rightarrow> True | Some f \<Rightarrow> isJournalFile f)"

definition file_ok :: "json option \<Rightarrow> bool" where
  "file_ok disk \<longleftrightarrow> journal_readable disk \<and> distinct (map jr_jobId (disk_rows disk)) \<and> (\<forall>x \<in> set (disk_rows disk). row_storable x)"

definition memory_ok :: "journal \<Rightarrow> bool" where
  "memory_ok j \<longleftrightarrow> owner_ok (jp_owner j) \<and> keyed (jp_rows j) \<and>
     (\<forall>r \<in> snd ` set (jp_rows j). row_storable r \<and> jr_owner r = Some (jp_owner j)) \<and>
     (\<forall>x \<in> set (jp_startupOrphans j). map_option jo_instance (jr_owner x) \<noteq> Some (jo_instance (jp_owner j)))"

definition mirrors :: "json option \<times> journal \<Rightarrow> bool" where
  "mirrors s \<longleftrightarrow> file_ok (fst s) \<and> memory_ok (snd s) \<and>
     (\<forall>x. x \<in> set (disk_rows (fst s)) \<and> jr_owner x = Some (jp_owner (snd s)) \<longleftrightarrow> x \<in> snd ` set (jp_rows (snd s)))"

lemma transaction_total:
  "journal_readable disk \<Longrightarrow> journal_transaction True disk update = Some (journal_file (update (disk_rows disk)))"
  by (auto simp: journal_readable_def journal_transaction_def disk_rows_def readDisk_def split: option.splits)

lemma written_ok:
  assumes "distinct (map jr_jobId rows)" "\<forall>x \<in> set rows. row_storable x"
  shows "file_ok (Some (journal_file rows))" "disk_rows (Some (journal_file rows)) = rows"
proof -
  show "disk_rows (Some (journal_file rows)) = rows" by (rule stored_reads [OF assms(2)])
  then show "file_ok (Some (journal_file rows))"
    using assms by (simp add: file_ok_def journal_readable_def journal_file_def JOB_JOURNAL_VERSION_def)
qed

lemma keyed_mem: "keyed m \<Longrightarrow> x \<in> snd ` set m \<longleftrightarrow> jm_get m (jr_jobId x) = Some x"
  by (force simp: keyed_def dest: jm_in_get jm_get_in)

lemma keyed_jobs: "keyed m \<Longrightarrow> map jr_jobId (map snd m) = map fst m"
  by (auto simp: keyed_def)

section \<open>A rewrite of the file\<close>

lemma jm_put_values: "snd ` set (jm_put k v m) \<subseteq> insert v (snd ` set m)"
proof (induction m)
  case (Cons p m)
  then show ?case by (cases p) (auto simp: image_subset_iff split: if_split)
qed simp

lemma fold_put_from:
  "x \<in> snd ` set (fold (\<lambda>r m. jm_put (jr_jobId r) r m) rs m) \<Longrightarrow> x \<in> set rs \<or> x \<in> snd ` set m"
proof (induction rs arbitrary: m)
  case (Cons r rs)
  then have "x \<in> set rs \<or> x \<in> snd ` set (jm_put (jr_jobId r) r m)" by simp
  then show ?case using jm_put_values [of "jr_jobId r" r m] by auto
qed simp

lemma fold_others_from:
  "x \<in> snd ` set (fold (\<lambda>r m. if jr_owner r = Some me then m else jm_put (jr_jobId r) r m) rs m) \<Longrightarrow>
     (x \<in> set rs \<and> jr_owner x \<noteq> Some me) \<or> x \<in> snd ` set m"
proof (induction rs arbitrary: m)
  case (Cons r rs)
  let ?m = "if jr_owner r = Some me then m else jm_put (jr_jobId r) r m"
  have "(x \<in> set rs \<and> jr_owner x \<noteq> Some me) \<or> x \<in> snd ` set ?m" using Cons.IH [of ?m] Cons.prems by simp
  then show ?case using jm_put_values [of "jr_jobId r" r m] by (auto split: if_splits)
qed simp

lemma merged_from: "x \<in> set (merged_rows me own rows) \<Longrightarrow> x \<in> snd ` set own \<or> (x \<in> set rows \<and> jr_owner x \<noteq> Some me)"
proof -
  let ?others = "fold (\<lambda>r m. if jr_owner r = Some me then m else jm_put (jr_jobId r) r m) rows []"
  assume "x \<in> set (merged_rows me own rows)"
  then have "x \<in> snd ` set (fold (\<lambda>r m. jm_put (jr_jobId r) r m) (map snd own) ?others)" by (simp add: merged_rows_def)
  then have "x \<in> set (map snd own) \<or> x \<in> snd ` set ?others" by (rule fold_put_from)
  then show ?thesis using fold_others_from [of x me rows "[]"] by auto
qed

lemma merged_distinct: "distinct (map jr_jobId (merged_rows me own rows))"
proof -
  have "keyed []" by (simp add: keyed_def)
  then have keyed: "keyed (fold (\<lambda>r m. jm_put (jr_jobId r) r m) (map snd own)
      (fold (\<lambda>r m. if jr_owner r = Some me then m else jm_put (jr_jobId r) r m) rows []))"
    by (intro fold_put_keyed fold_others_keyed)
  then show ?thesis unfolding merged_rows_def keyed_jobs [OF keyed] by (simp add: keyed_def jm_ok_def)
qed

lemma persist_mirrors:
  assumes "file_ok disk" "memory_ok j"
  shows "mirrors (persist True disk j)"
proof -
  let ?rows = "merged_rows (jp_owner j) (jp_rows j) (disk_rows disk)"
  have stored: "\<forall>x \<in> set ?rows. row_storable x"
    using assms merged_from by (force simp: file_ok_def memory_ok_def)
  note written = written_ok [OF merged_distinct stored]
  have own: "x \<in> set ?rows \<and> jr_owner x = Some (jp_owner j) \<longleftrightarrow> x \<in> snd ` set (jp_rows j)" for x
  proof
    assume "x \<in> set ?rows \<and> jr_owner x = Some (jp_owner j)"
    then show "x \<in> snd ` set (jp_rows j)" using merged_from by blast
  next
    assume mem: "x \<in> snd ` set (jp_rows j)"
    then have "jm_get (jp_rows j) (jr_jobId x) = Some x" using keyed_mem assms(2) by (simp add: memory_ok_def)
    then have "only_row ?rows x" using merge_keeps_own assms(2) by (simp add: memory_ok_def)
    then show "x \<in> set ?rows \<and> jr_owner x = Some (jp_owner j)" using mem assms(2) unfolding only_row_def memory_ok_def by blast
  qed
  have "persist True disk j = (Some (journal_file ?rows), j)"
    using assms(1) transaction_total by (simp add: persist_def file_ok_def)
  then show ?thesis using written assms(2) own by (simp add: mirrors_def)
qed

lemma memory_put:
  assumes "memory_ok j" "row_storable x" "jr_owner x = Some (jp_owner j)" "jr_jobId x = k"
  shows "memory_ok (j\<lparr>jp_rows := jm_put k x (jp_rows j)\<rparr>)"
proof -
  have rows: "\<forall>y \<in> snd ` set (jm_put k x (jp_rows j)). row_storable y \<and> jr_owner y = Some (jp_owner j)"
  proof
    fix y assume "y \<in> snd ` set (jm_put k x (jp_rows j))"
    then have "y = x \<or> y \<in> snd ` set (jp_rows j)" using jm_put_values [of k x "jp_rows j"] by blast
    then show "row_storable y \<and> jr_owner y = Some (jp_owner j)"
    proof
      assume "y = x"
      then show ?thesis using assms(2,3) by simp
    next
      assume "y \<in> snd ` set (jp_rows j)"
      then show ?thesis using assms(1) unfolding memory_ok_def by blast
    qed
  qed
  have keyed: "keyed (jm_put k x (jp_rows j))" by (rule keyed_put [OF _ assms(4)]) (use assms(1) in \<open>simp add: memory_ok_def\<close>)
  have old: "owner_ok (jp_owner j)" "\<forall>y \<in> set (jp_startupOrphans j). map_option jo_instance (jr_owner y) \<noteq> Some (jo_instance (jp_owner j))"
    using assms(1) unfolding memory_ok_def by blast+
  let ?j = "j\<lparr>jp_rows := jm_put k x (jp_rows j)\<rparr>"
  have same: "jp_owner ?j = jp_owner j" "jp_rows ?j = jm_put k x (jp_rows j)" "jp_startupOrphans ?j = jp_startupOrphans j" by simp_all
  show ?thesis unfolding memory_ok_def same using old rows keyed by blast
qed

lemma memory_del: "memory_ok j \<Longrightarrow> memory_ok (j\<lparr>jp_rows := jm_del k (jp_rows j)\<rparr>)"
proof -
  assume ok: "memory_ok j"
  have "snd ` set (jm_del k (jp_rows j)) \<subseteq> snd ` set (jp_rows j)" by (rule image_mono [OF set_jm_del])
  then have "\<forall>r \<in> snd ` set (jm_del k (jp_rows j)). row_storable r \<and> jr_owner r = Some (jp_owner j)"
    using ok unfolding memory_ok_def by blast
  then show ?thesis using ok keyed_del [of "jp_rows j" k] by (simp add: memory_ok_def)
qed

section \<open>Every operation keeps them in agreement\<close>

lemma mirrors_unchanged:
  "mirrors (disk, j) \<Longrightarrow> jp_owner j' = jp_owner j \<Longrightarrow> jp_rows j' = jp_rows j \<Longrightarrow> memory_ok j' \<Longrightarrow> mirrors (disk, j')"
  by (simp add: mirrors_def)

lemma memory_reads: "memory_ok j \<Longrightarrow> memory_ok (readOnce alive disk j)"
  by (auto simp: memory_ok_def readOnce_def split: option.split)

text \<open>A row that a process notes: it is storable whoever owns it.\<close>

definition note_ok :: "journal_op \<Rightarrow> bool" where
  "note_ok op = (case op of Note row \<Rightarrow> row_storable (row\<lparr>jr_owner := None\<rparr>) | _ \<Rightarrow> True)"

lemma storable_owned:
  "row_storable (row\<lparr>jr_owner := None\<rparr>) \<Longrightarrow> t = None \<or> length (st_entries (the t)) \<le> MAX_ACTIVITY_STAT_PATHS \<Longrightarrow> owner_ok me \<Longrightarrow>
     row_storable (row\<lparr>jr_startingTree := t, jr_owner := Some me\<rparr>)"
  by (auto simp: row_storable_def)

lemma storable_tree: "row_storable row \<Longrightarrow> t = None \<or> length (st_entries (the t)) \<le> MAX_ACTIVITY_STAT_PATHS \<Longrightarrow> row_storable (row\<lparr>jr_startingTree := t\<rparr>)"
  by (auto simp: row_storable_def)

lemma canonical_id: "readBrokerExecution v = Some i \<Longrightarrow> execution_id i"
  by (auto simp: readBrokerExecution_def split: option.splits json.splits if_splits)

lemma own_row:
  assumes "memory_ok j" "jm_get (jp_rows j) k = Some x"
  shows "row_storable x" "jr_owner x = Some (jp_owner j)" "jr_jobId x = k"
proof -
  have "(k, x) \<in> set (jp_rows j)" by (rule jm_get_in [OF assms(2)])
  then have "x \<in> snd ` set (jp_rows j)" by force
  then show "row_storable x" "jr_owner x = Some (jp_owner j)" using assms(1) unfolding memory_ok_def by blast+
  show "jr_jobId x = k" using assms keyed_got unfolding memory_ok_def by blast
qed

lemma note_mirrors:
  assumes "file_ok disk" "memory_ok j" "note_ok (Note row)"
  shows "mirrors (journal_note alive True row (disk, j))"
proof -
  define j1 where "j1 = readOnce alive disk j"
  have m1: "memory_ok j1" unfolding j1_def by (rule memory_reads [OF assms(2)])
  let ?tree = "case jr_startingTree row of Some t \<Rightarrow> Some t | None \<Rightarrow> Option.bind (jm_get (jp_rows j1) (jr_jobId row)) jr_startingTree"
  have oldtree: "jr_startingTree x = None \<or> length (st_entries (the (jr_startingTree x))) \<le> MAX_ACTIVITY_STAT_PATHS"
    if "jm_get (jp_rows j1) k = Some x" for k x
    using own_row(1) [OF m1 that] by (cases "jr_startingTree x") (simp_all add: row_storable_def)
  have tree: "?tree = None \<or> length (st_entries (the ?tree)) \<le> MAX_ACTIVITY_STAT_PATHS"
    using assms(3) oldtree by (cases "jr_startingTree row"; cases "jm_get (jp_rows j1) (jr_jobId row)") (auto simp: note_ok_def row_storable_def)
  have "row_storable (row\<lparr>jr_startingTree := ?tree, jr_owner := Some (jp_owner j1)\<rparr>)"
    using assms(3) m1 by (intro storable_owned [OF _ tree]) (simp_all add: note_ok_def memory_ok_def)
  then have "memory_ok (j1\<lparr>jp_rows := jm_put (jr_jobId row) (row\<lparr>jr_startingTree := ?tree, jr_owner := Some (jp_owner j1)\<rparr>) (jp_rows j1)\<rparr>)"
    by (intro memory_put [OF m1]) simp_all
  from persist_mirrors [OF assms(1) this] show ?thesis unfolding j1_def by (simp add: journal_note_def Let_def)
qed

lemma tree_mirrors:
  assumes "mirrors (disk, j)"
  shows "mirrors (noteStartingTree alive True k tree (disk, j))"
proof -
  define j1 where "j1 = readOnce alive disk j"
  have m1: "memory_ok j1" and f: "file_ok disk" unfolding j1_def using memory_reads assms by (auto simp: mirrors_def)
  have same: "mirrors (disk, j1)" using mirrors_unchanged [OF assms] m1 by (simp add: j1_def)
  show ?thesis
  proof (cases "jm_get (jp_rows j1) k")
    case None
    then show ?thesis using same by (simp add: noteStartingTree_def Let_def j1_def)
  next
    case (Some x)
    note x = own_row [OF m1 Some]
    have put: "mirrors (persist True disk (j1\<lparr>jp_rows := jm_put k (x\<lparr>jr_startingTree := t\<rparr>) (jp_rows j1)\<rparr>))"
      if "t = None \<or> length (st_entries (the t)) \<le> MAX_ACTIVITY_STAT_PATHS" for t
      using x storable_tree [OF x(1) that] by (intro persist_mirrors [OF f] memory_put [OF m1]) simp_all
    show ?thesis using Some same put [of None] put [of "Some tree"]
      by (auto simp: noteStartingTree_def Let_def j1_def)
  qed
qed

lemma execution_mirrors:
  assumes "mirrors (disk, j)"
  shows "mirrors (noteBrokerExecution alive True k execution (disk, j))"
proof -
  define j1 where "j1 = readOnce alive disk j"
  have m1: "memory_ok j1" and f: "file_ok disk" unfolding j1_def using memory_reads assms by (auto simp: mirrors_def)
  have same: "mirrors (disk, j1)" using mirrors_unchanged [OF assms] m1 by (simp add: j1_def)
  show ?thesis
  proof (cases "jm_get (jp_rows j1) k")
    case None
    then show ?thesis using same by (simp add: noteBrokerExecution_def Let_def j1_def)
  next
    case (Some x)
    note x = own_row [OF m1 Some]
    have put: "mirrors (persist True disk (j1\<lparr>jp_rows := jm_put k (x\<lparr>jr_brokerExecution := Some i\<rparr>) (jp_rows j1)\<rparr>))"
      if "readBrokerExecution (Some execution) = Some i" for i
      using x canonical_id [OF that] by (intro persist_mirrors [OF f] memory_put [OF m1]) (simp_all add: row_storable_def)
    show ?thesis using Some same put by (auto simp: noteBrokerExecution_def Let_def j1_def split: option.split)
  qed
qed

lemma clear_mirrors:
  assumes "mirrors (disk, j)"
  shows "mirrors (journal_clear alive True k (disk, j))"
proof -
  define j1 where "j1 = readOnce alive disk j"
  have m1: "memory_ok j1" and f: "file_ok disk" unfolding j1_def using memory_reads assms by (auto simp: mirrors_def)
  have same: "mirrors (disk, j1)" using mirrors_unchanged [OF assms] m1 by (simp add: j1_def)
  show ?thesis using same persist_mirrors [OF f memory_del [OF m1]] by (auto simp: journal_clear_def Let_def j1_def)
qed

lemma claim_first_jobs: "map jr_jobId (fst (claim_first alive me k rows)) = map jr_jobId rows"
  by (induction rows) (auto simp: Let_def split: prod.split)

lemma claim_first_none: "snd (claim_first alive me k rows) = None \<Longrightarrow> fst (claim_first alive me k rows) = rows"
  by (induction rows) (auto simp: Let_def split: if_splits prod.splits)

lemma claim_first_storable:
  "owner_ok me \<Longrightarrow> \<forall>x \<in> set rows. row_storable x \<Longrightarrow> \<forall>x \<in> set (fst (claim_first alive me k rows)). row_storable x"
proof (induction rows)
  case (Cons row rows)
  have mine: "row_storable (row\<lparr>jr_owner := Some me\<rparr>)" using Cons.prems by (auto simp: row_storable_def)
  have rest: "row_storable row" "\<forall>x \<in> set rows. row_storable x" "\<forall>x \<in> set (fst (claim_first alive me k rows)). row_storable x"
    using Cons by simp_all
  show ?case using mine rest by (simp add: Let_def split: prod.split)
qed simp

lemma claim_mirrors:
  assumes "mirrors (disk, j)"
  shows "mirrors (fst (claimBrokerOrphan alive True k (disk, j)))"
proof -
  define j1 where "j1 = readOnce alive disk j"
  define claim where "claim = claim_first alive (jp_owner j1) k (disk_rows disk)"
  have m1: "memory_ok j1" and f: "file_ok disk" unfolding j1_def using memory_reads assms by (auto simp: mirrors_def)
  have same: "mirrors (disk, j1)" using mirrors_unchanged [OF assms] m1 by (simp add: j1_def)
  have stored: "\<forall>x \<in> set (fst claim). row_storable x" unfolding claim_def
    using m1 f by (intro claim_first_storable) (simp_all add: memory_ok_def file_ok_def)
  have "distinct (map jr_jobId (fst claim))" using f by (simp add: claim_def claim_first_jobs file_ok_def)
  note written = written_ok [OF this stored]
  have total: "journal_transaction True disk (\<lambda>rows. fst (claim_first alive (jp_owner j1) k rows)) = Some (journal_file (fst claim))"
    using f transaction_total by (simp add: file_ok_def claim_def)
  show ?thesis
  proof (cases "snd claim")
    case None
    then have "mirrors (Some (journal_file (fst claim)), j1)"
      using written same claim_first_none [of alive "jp_owner j1" k "disk_rows disk"] by (simp add: mirrors_def claim_def)
    then show ?thesis using None total by (simp add: claimBrokerOrphan_def Let_def j1_def claim_def disk_rows_def)
  next
    case (Some x)
    have x: "only_row (fst claim) x" "jr_owner x = Some (jp_owner j1)" "jr_jobId x = k"
      using claim_first_only [of "disk_rows disk" alive "jp_owner j1" k x] Some f by (simp_all add: claim_def file_ok_def)
    have "row_storable x" using x(1) stored by (simp add: only_row_def)
    then have m2: "memory_ok (j1\<lparr>jp_rows := jm_put k x (jp_rows j1)\<rparr>)" by (rule memory_put [OF m1 _ x(2,3)])
    then have keyed: "keyed (jp_rows j1)" "keyed (jm_put k x (jp_rows j1))" using m1 by (simp_all add: memory_ok_def)
    have own: "y \<in> set (fst claim) \<and> jr_owner y = Some (jp_owner j1) \<longleftrightarrow> y \<in> snd ` set (jm_put k x (jp_rows j1))" for y
    proof (cases "jr_jobId y = k")
      case True
      then show ?thesis using x keyed_mem [OF keyed(2), of y] by (auto simp: only_row_def jm_laws)
    next
      case False
      then have "y \<in> set (fst claim) \<longleftrightarrow> y \<in> set (disk_rows disk)" by (simp add: claim_def claim_first_other)
      then show ?thesis using False same keyed_mem [OF keyed(1), of y] keyed_mem [OF keyed(2), of y] by (simp add: mirrors_def jm_laws)
    qed
    have "mirrors (Some (journal_file (fst claim)), j1\<lparr>jp_rows := jm_put k x (jp_rows j1)\<rparr>)"
      using written m2 own by (simp add: mirrors_def)
    then show ?thesis using Some total by (simp add: claimBrokerOrphan_def Let_def j1_def claim_def disk_rows_def)
  qed
qed

lemma clear_orphan_mirrors:
  assumes "mirrors (disk, j)"
  shows "mirrors (clearOrphan alive True orphan (disk, j))"
proof -
  define j1 where "j1 = readOnce alive disk j"
  have m1: "memory_ok j1" and f: "file_ok disk" unfolding j1_def using memory_reads assms by (auto simp: mirrors_def)
  have same: "mirrors (disk, j1)" using mirrors_unchanged [OF assms] m1 by (simp add: j1_def)
  show ?thesis
  proof (cases "find (\<lambda>row. sameJournalRowIdentity row orphan) (jp_startupOrphans j1)")
    case None
    then show ?thesis using same by (simp add: clearOrphan_def Let_def j1_def)
  next
    case (Some startup)
    let ?keep = "filter (\<lambda>row. \<not> sameJournalRowIdentity row startup)"
    have "startup \<in> set (jp_startupOrphans j1)" using Some by (auto simp: find_Some_iff)
    then have "jr_owner startup \<noteq> Some (jp_owner j1)" using m1 by (auto simp: memory_ok_def)
    then have own: "\<not> sameJournalRowIdentity y startup" if "jr_owner y = Some (jp_owner j1)" for y
      using identity_owner that by metis
    have "distinct (map jr_jobId (?keep (disk_rows disk)))" "\<forall>x \<in> set (?keep (disk_rows disk)). row_storable x"
      using f by (auto simp: file_ok_def intro: distinct_map_filter)
    note written = written_ok [OF this]
    have m2: "memory_ok (j1\<lparr>jp_startupOrphans := ?keep (jp_startupOrphans j1)\<rparr>)" using m1 by (auto simp: memory_ok_def)
    have "mirrors (Some (journal_file (?keep (disk_rows disk))), j1\<lparr>jp_startupOrphans := ?keep (jp_startupOrphans j1)\<rparr>)"
      using written m2 same own by (auto simp: mirrors_def)
    then show ?thesis using Some transaction_total [of disk] f by (simp add: clearOrphan_def Let_def j1_def file_ok_def)
  qed
qed

lemma op_mirrors:
  assumes "mirrors (disk, j)" "note_ok op"
  shows "mirrors (op_step alive True op (disk, j))"
proof (cases op)
  case Look
  have "mirrors (disk, readOnce alive disk j)"
    using mirrors_unchanged [OF assms(1)] memory_reads assms(1) by (simp add: mirrors_def)
  then show ?thesis using Look by (simp add: op_step_def journal_orphans_def Let_def)
next
  case (Note row)
  then show ?thesis using note_mirrors assms by (simp add: op_step_def mirrors_def)
qed (use tree_mirrors [OF assms(1)] execution_mirrors [OF assms(1)] claim_mirrors [OF assms(1)] clear_mirrors [OF assms(1)]
    clear_orphan_mirrors [OF assms(1)] in \<open>simp_all add: op_step_def\<close>)

section \<open>After a crash\<close>

lemma run_mirrors:
  "mirrors s \<Longrightarrow> \<forall>(alive, op) \<in> set ops. note_ok op \<Longrightarrow> mirrors (fold (\<lambda>(alive, op). op_step alive True op) ops s)"
proof (induction ops arbitrary: s)
  case (Cons e ops)
  obtain alive op where e: "e = (alive, op)" by (cases e)
  have "mirrors (op_step alive True op s)" using op_mirrors [of "fst s" "snd s"] Cons.prems e by simp
  then show ?case using Cons.IH Cons.prems(2) e by simp
qed simp

lemma persist_owner [simp]: "jp_owner (snd (persist io disk j)) = jp_owner j"
  by (simp add: persist_def split: option.split)

lemma op_owner: "jp_owner (snd (op_step alive io op s)) = jp_owner (snd s)"
  by (cases s; cases op)
    (auto simp: op_step_def journal_note_def noteStartingTree_def noteBrokerExecution_def claimBrokerOrphan_def journal_clear_def clearOrphan_def
      journal_orphans_def Let_def split: option.split)

lemma run_owner: "jp_owner (snd (fold (\<lambda>(alive, op). op_step alive True op) ops s)) = jp_owner (snd s)"
  by (induction ops arbitrary: s) (auto simp: op_owner)

text \<open>C29. A crash reports exactly the jobs that were running: a process starts on a readable file without rows of its own and performs
  any operations, whose writes go through; when it is gone, the orphans that the next process finds under its name are the rows it
  held in memory, no job that it had cleared among them and none missing.\<close>

theorem crash_reports_running_jobs:
  assumes "file_ok disk" "\<forall>x \<in> set (disk_rows disk). jr_owner x \<noteq> Some me" "owner_ok me"
    and "\<forall>(alive, op) \<in> set ops. note_ok op"
    and run: "fold (\<lambda>(alive, op). op_step alive True op) ops (disk, createJobJournal me) = (disk', j)"
    and crash: "\<not> alive' (jo_pid me)" "jo_instance new \<noteq> jo_instance me"
  shows "x \<in> set (snd (journal_orphans alive' (disk', createJobJournal new))) \<and> jr_owner x = Some me \<longleftrightarrow> x \<in> snd ` set (jp_rows j)"
proof -
  have "mirrors (disk, createJobJournal me)"
    using assms(1-3) by (auto simp: mirrors_def memory_ok_def createJobJournal_def keyed_def)
  from run_mirrors [OF this assms(4)] have mirror: "mirrors (disk', j)" by (simp add: run)
  have owner: "jp_owner j = me" using run_owner [of ops "(disk, createJobJournal me)"] run by (simp add: createJobJournal_def)
  have "set (snd (journal_orphans alive' (disk', createJobJournal new))) =
      {x \<in> set (disk_rows disk'). map_option jo_instance (jr_owner x) \<noteq> Some (jo_instance new) \<and> \<not> ownedElsewhere alive' new x}"
    by (auto simp: journal_orphans_def readOnce_def createJobJournal_def disk_rows_def Let_def split: option.split)
  moreover have "map_option jo_instance (jr_owner x) \<noteq> Some (jo_instance new) \<and> \<not> ownedElsewhere alive' new x" if "jr_owner x = Some me"
    using that crash by (auto simp: ownedElsewhere_def)
  moreover have "x \<in> set (disk_rows disk') \<and> jr_owner x = Some me \<longleftrightarrow> x \<in> snd ` set (jp_rows j)"
    using mirror owner by (simp add: mirrors_def)
  ultimately show ?thesis by blast
qed

text \<open>A process that notes two jobs, clears one and is gone.\<close>

definition crashed_ops :: "((nat \<Rightarrow> bool) \<times> journal_op) list" where
  "crashed_ops = [(\<lambda>_. True, Note (claimed_row\<lparr>jr_jobId := ''a''\<rparr>)), (\<lambda>_. True, Note claimed_row), (\<lambda>_. True, Clear ''a'')]"

definition crashed :: "json option \<times> journal" where
  "crashed = fold (\<lambda>(alive, op). op_step alive True op) crashed_ops (None, createJobJournal \<lparr>jo_pid = 8, jo_instance = ''i''\<rparr>)"

lemma persist_memory [simp]: "jp_rows (snd (persist io disk j)) = jp_rows j"
  by (simp add: persist_def split: option.split)

lemma note_rows:
  "jp_rows (snd (journal_note alive io row s)) = jm_put (jr_jobId row)
     (row\<lparr>jr_startingTree := (case jr_startingTree row of Some t \<Rightarrow> Some t | None \<Rightarrow> Option.bind (jm_get (jp_rows (snd s)) (jr_jobId row)) jr_startingTree),
        jr_owner := Some (jp_owner (snd s))\<rparr>) (jp_rows (snd s))"
  by (cases s; cases "jr_startingTree row") (simp_all add: journal_note_def Let_def)

lemma clear_rows: "jp_rows (snd (journal_clear alive io k s)) = (if jm_get (jp_rows (snd s)) k = None then jp_rows (snd s) else jm_del k (jp_rows (snd s)))"
  by (cases s) (simp add: journal_clear_def Let_def)

lemma crashed_rows: "jp_rows (snd crashed) = [(''j'', claimed_row)]"
proof -
  have own: "jp_owner (snd (journal_note alive io row s)) = jp_owner (snd s)" for alive io row s
    using op_owner [of alive io "Note row" s] by (simp add: op_step_def)
  show ?thesis
    by (simp add: crashed_def crashed_ops_def op_step_def clear_rows note_rows own createJobJournal_def claimed_row_def dead_row_def jm_del_def)
qed

lemma crash_reports_running_jobs_witness:
  "claimed_row \<in> set (snd (journal_orphans (\<lambda>_. False) (fst crashed, createJobJournal \<lparr>jo_pid = 9, jo_instance = ''n''\<rparr>)))"
proof -
  have ok: "\<forall>(alive, op) \<in> set crashed_ops. note_ok op"
    using dead_storable(2) by (simp add: crashed_ops_def note_ok_def row_storable_def)
  have empty: "file_ok None" by (simp add: file_ok_def journal_readable_def disk_rows_def readDisk_def)
  have "claimed_row \<in> set (snd (journal_orphans (\<lambda>_. False) (fst crashed, createJobJournal \<lparr>jo_pid = 9, jo_instance = ''n''\<rparr>))) \<and>
      jr_owner claimed_row = Some \<lparr>jo_pid = 8, jo_instance = ''i''\<rparr> \<longleftrightarrow> claimed_row \<in> snd ` set (jp_rows (snd crashed))"
  proof (rule crash_reports_running_jobs [OF empty _ _ ok])
    show "fold (\<lambda>(alive, op). op_step alive True op) crashed_ops (None, createJobJournal \<lparr>jo_pid = 8, jo_instance = ''i''\<rparr>) = (fst crashed, snd crashed)"
      by (simp only: crashed_def prod.collapse)
  qed (simp_all add: disk_rows_def readDisk_def owner_ok_def MAX_SAFE_def)
  then show ?thesis by (simp add: crashed_rows)
qed

end
