(* ===== verification/File_Lock.thy ===== *)
theory File_Lock
  imports JsData
begin

text \<open>
  The lock that processes take to change a shared file (\<^verbatim>\<open>storage/file-lock.ts\<close>), system call by system call. A call of
  \<^verbatim>\<open>withFileLockSync\<close> is named by its instance; what it does next is its phase. The lock is a directory with the marker of its
  owner; renaming the private claim directory onto it takes it. The answers of the system, the clock, and a crash are the events'
  choices, so that the calls interleave in every way. The work under the lock reads the file and then replaces it in one rename.
\<close>

section \<open>Markers, phases and choices\<close>

text \<open>\<^verbatim>\<open>owner-<instance>.json\<close> with the record of that instance, which is written before it is published; or any other file, a
  legacy marker among them, in which \<^verbatim>\<open>readOwner\<close> finds no owner.\<close>

datatype marker = Owner string | Foreign string

text \<open>What the owner is read for: after a refused rename, before a reclamation, and before the release.\<close>

datatype lock_use = Inspect | Recheck string | Release

datatype lock_error = Timed_Out | Io_Error | Ownership_Changed

datatype phase =
    Outside
  | Trying
  | Refused bool
  | Listing lock_use
  | Opening lock_use marker
  | Judging string
  | Unlinking string
  | Emptying
  | Looking
  | Sleeping
  | Working
  | Writing "string option"
  | Retiring
  | Leaving
  | Returned
  | Threw lock_error
  | Dead

text \<open>Whether the system call goes through; it fails, with a code of contention or another; \<^verbatim>\<open>isAlive\<close> says that there is no
  such process; the process is gone.\<close>

datatype choice = Proceed | Fail bool | Absent | Exit

record lock_options =
  lo_retryMs :: "rat option"
  lo_timeoutMs :: "rat option"

definition DEFAULT_RETRY_MS :: rat where "DEFAULT_RETRY_MS = 10"
definition DEFAULT_TIMEOUT_MS :: rat where "DEFAULT_TIMEOUT_MS = 5000"

definition lock_retryMs :: "lock_options \<Rightarrow> rat" where
  "lock_retryMs opts = max 1 (of_int \<lfloor>case lo_retryMs opts of Some r \<Rightarrow> r | None \<Rightarrow> DEFAULT_RETRY_MS\<rfloor>)"

definition lock_timeoutMs :: "lock_options \<Rightarrow> rat" where
  "lock_timeoutMs opts = max (lock_retryMs opts) (of_int \<lfloor>case lo_timeoutMs opts of Some t \<Rightarrow> t | None \<Rightarrow> DEFAULT_TIMEOUT_MS\<rfloor>)"

section \<open>The file system and the calls\<close>

record lock_world =
  lw_dir :: "marker list option"
  lw_file :: "string option"
  lw_phase :: "string \<Rightarrow> phase"
  lw_started :: "string \<Rightarrow> rat"
  lw_log :: "string list"

definition goto :: "string \<Rightarrow> phase \<Rightarrow> lock_world \<Rightarrow> lock_world" where
  "goto p ph w = w\<lparr>lw_phase := (lw_phase w)(p := ph)\<rparr>"

text \<open>The two halves of \<^verbatim>\<open>readOwner\<close>: the only file of the directory, and its owner.\<close>

definition only_file :: "marker list option \<Rightarrow> marker option" where
  "only_file dir = (case dir of Some [m] \<Rightarrow> Some m | _ \<Rightarrow> None)"

definition owner_in :: "marker list option \<Rightarrow> marker \<Rightarrow> string option" where
  "owner_in dir m = (case dir of None \<Rightarrow> None | Some ms \<Rightarrow> if m \<in> set ms then (case m of Owner i \<Rightarrow> Some i | Foreign f \<Rightarrow> None) else None)"

text \<open>What follows a reading: the loop of the acquisition, \<^verbatim>\<open>reclaimDeadLock\<close>, or the release.\<close>

definition after_reading :: "lock_use \<Rightarrow> string \<Rightarrow> string option \<Rightarrow> phase" where
  "after_reading u p observed =
     (case u of
        Inspect \<Rightarrow> (case observed of Some i \<Rightarrow> Judging i | None \<Rightarrow> Emptying)
      | Recheck i \<Rightarrow> if observed = Some i then Unlinking i else Sleeping
      | Release \<Rightarrow> if observed = Some p then Retiring else Threw Ownership_Changed)"

text \<open>\<^verbatim>\<open>renameSync(claimPath, lockPath)\<close>: it goes through when there is no directory, or an empty one on some systems.\<close>

definition publish :: "choice \<Rightarrow> string \<Rightarrow> lock_world \<Rightarrow> lock_world" where
  "publish c p w =
     (case c of
        Fail contention \<Rightarrow> goto p (Refused contention) w
      | _ \<Rightarrow> if lw_dir w \<noteq> None \<and> lw_dir w \<noteq> Some [] then goto p (Refused True) w
          else goto p Working (w\<lparr>lw_dir := Some [Owner p]\<rparr>))"

text \<open>\<^verbatim>\<open>unlinkSync\<close> of a marker; the phases say how it went: removed, not there, failed.\<close>

definition unlink_marker :: "choice \<Rightarrow> string \<Rightarrow> string \<Rightarrow> phase \<Rightarrow> phase \<Rightarrow> lock_world \<Rightarrow> lock_world" where
  "unlink_marker c p i removed missing w =
     (case c of
        Fail b \<Rightarrow> goto p (Threw Io_Error) w
      | _ \<Rightarrow> (case lw_dir w of
            Some ms \<Rightarrow> if Owner i \<in> set ms then goto p removed (w\<lparr>lw_dir := Some (removeAll (Owner i) ms)\<rparr>) else goto p missing w
          | None \<Rightarrow> goto p missing w))"

text \<open>\<^verbatim>\<open>removeEmptyLock\<close>: the directory is removed when it is empty; a code of contention is an answer, any other code is thrown.\<close>

definition remove_empty :: "choice \<Rightarrow> string \<Rightarrow> phase \<Rightarrow> phase \<Rightarrow> phase \<Rightarrow> lock_world \<Rightarrow> lock_world" where
  "remove_empty c p removed kept missing w =
     (case c of
        Fail contention \<Rightarrow> goto p (if contention then kept else Threw Io_Error) w
      | _ \<Rightarrow> (case lw_dir w of
            None \<Rightarrow> goto p missing w
          | Some [] \<Rightarrow> goto p removed (w\<lparr>lw_dir := None\<rparr>)
          | Some ms \<Rightarrow> goto p kept w))"

text \<open>One system call of the call \<open>p\<close> at the time \<open>now\<close>. \<open>work p\<close> is what it makes of the file: \<open>None\<close> when it throws.\<close>

definition lock_step ::
  "(string \<Rightarrow> lock_options) \<Rightarrow> (string \<Rightarrow> string option \<Rightarrow> string option option) \<Rightarrow> string \<times> rat \<times> choice \<Rightarrow> lock_world \<Rightarrow> lock_world" where
  "lock_step opts work e w =
     (case e of (p, now, c) \<Rightarrow>
       if c = Exit then goto p Dead w
       else (let failed = (case c of Fail b \<Rightarrow> True | _ \<Rightarrow> False) in
         case lw_phase w p of
           Outside \<Rightarrow> goto p (if failed then Threw Io_Error else Trying) (w\<lparr>lw_started := (lw_started w)(p := now)\<rparr>)
         | Trying \<Rightarrow> if lock_timeoutMs (opts p) \<le> now - lw_started w p then goto p (Threw Timed_Out) w else publish c p w
         | Refused contention \<Rightarrow>
             if lw_dir w = None then goto p (if contention then Sleeping else Threw Io_Error) w else goto p (Listing Inspect) w
         | Listing u \<Rightarrow> (case if failed then None else only_file (lw_dir w) of
               None \<Rightarrow> goto p (after_reading u p None) w
             | Some m \<Rightarrow> goto p (Opening u m) w)
         | Opening u m \<Rightarrow> goto p (after_reading u p (if failed then None else owner_in (lw_dir w) m)) w
         | Judging i \<Rightarrow> goto p (if c = Absent then Listing (Recheck i) else Sleeping) w
         | Unlinking i \<Rightarrow> unlink_marker c p i Emptying Sleeping w
         | Emptying \<Rightarrow> remove_empty c p Trying Sleeping Looking w
         | Looking \<Rightarrow> goto p (if lw_dir w = None then Trying else Sleeping) w
         | Sleeping \<Rightarrow> goto p Trying w
         | Working \<Rightarrow> (case if failed then None else work p (lw_file w) of
               None \<Rightarrow> goto p (Listing Release) w
             | Some next_text \<Rightarrow> goto p (Writing next_text) w)
         | Writing next_text \<Rightarrow>
             (if failed then goto p (Listing Release) w
              else goto p (Listing Release) (w\<lparr>lw_file := next_text, lw_log := lw_log w @ [p]\<rparr>))
         | Retiring \<Rightarrow> unlink_marker c p p Leaving (Threw Io_Error) w
         | Leaving \<Rightarrow> remove_empty c p Returned Returned Returned w
         | Returned \<Rightarrow> w
         | Threw err \<Rightarrow> w
         | Dead \<Rightarrow> w))"

text \<open>\<^verbatim>\<open>isAlive\<close> denies a process only when it is gone: every other answer of the system counts as alive, a reused identifier too.\<close>

definition truthful :: "lock_world \<Rightarrow> string \<times> rat \<times> choice \<Rightarrow> bool" where
  "truthful w e = (case e of (p, now, c) \<Rightarrow> c = Absent \<longrightarrow> (case lw_phase w p of Judging i \<Rightarrow> lw_phase w i = Dead | _ \<Rightarrow> True))"

end
