(* ===== verification/File_Lock_Props.thy ===== *)
theory File_Lock_Props
  imports File_Lock
begin

text \<open>
  The properties of the file lock over every interleaving of its calls: one call is inside at a time, no update of the file is lost,
  a release finds the lock its own, the lock of a dead process is taken over, and a marker that names no owner is left alone.
\<close>

section \<open>The invariant\<close>

text \<open>The phases between taking the lock and removing the own marker.\<close>

fun inside :: "phase \<Rightarrow> bool" where
  "inside Working = True"
| "inside (Writing next_text) = True"
| "inside (Listing u) = (u = Release)"
| "inside (Opening u m) = (u = Release)"
| "inside Retiring = True"
| "inside ph = False"

text \<open>The call that a phase has found dead.\<close>

fun found_dead :: "phase \<Rightarrow> string option" where
  "found_dead (Listing (Recheck i)) = Some i"
| "found_dead (Opening (Recheck i) m) = Some i"
| "found_dead (Unlinking i) = Some i"
| "found_dead ph = None"

fun phase_agrees :: "(string \<Rightarrow> string option \<Rightarrow> string option option) \<Rightarrow> string \<Rightarrow> string option \<Rightarrow> phase \<Rightarrow> bool" where
  "phase_agrees work p file (Writing next_text) = (work p file = Some next_text)"
| "phase_agrees work p file (Opening Release m) = (m = Owner p)"
| "phase_agrees work p file ph = True"

definition committed :: "(string \<Rightarrow> string option \<Rightarrow> string option option) \<Rightarrow> string list \<Rightarrow> string option \<Rightarrow> string option" where
  "committed work calls file = fold (\<lambda>p f. case work p f of Some g \<Rightarrow> g | None \<Rightarrow> f) calls file"

definition lock_inv :: "(string \<Rightarrow> string option \<Rightarrow> string option option) \<Rightarrow> lock_world \<Rightarrow> bool" where
  "lock_inv work w \<longleftrightarrow>
     (\<forall>p. inside (lw_phase w p) \<longrightarrow> lw_dir w = Some [Owner p]) \<and>
     (\<forall>p i. found_dead (lw_phase w p) = Some i \<longrightarrow> lw_phase w i = Dead) \<and>
     (\<forall>p. phase_agrees work p (lw_file w) (lw_phase w p))"

lemma goto_simps [simp]:
  "lw_dir (goto p ph w) = lw_dir w" "lw_file (goto p ph w) = lw_file w" "lw_log (goto p ph w) = lw_log w"
  "lw_started (goto p ph w) = lw_started w" "lw_phase (goto p ph w) q = (if q = p then ph else lw_phase w q)"
  by (simp_all add: goto_def)

lemma goto_updates:
  "goto p ph (w\<lparr>lw_dir := d\<rparr>) = (goto p ph w)\<lparr>lw_dir := d\<rparr>" "goto p ph (w\<lparr>lw_started := s\<rparr>) = (goto p ph w)\<lparr>lw_started := s\<rparr>"
  by (simp_all add: goto_def)

lemma inv_inside: "lock_inv work w \<Longrightarrow> inside (lw_phase w p) \<Longrightarrow> lw_dir w = Some [Owner p]"
  unfolding lock_inv_def by blast

lemma inv_found: "lock_inv work w \<Longrightarrow> found_dead (lw_phase w p) = Some i \<Longrightarrow> lw_phase w i = Dead"
  unfolding lock_inv_def by blast

lemma inv_agrees: "lock_inv work w \<Longrightarrow> phase_agrees work p (lw_file w) (lw_phase w p)"
  unfolding lock_inv_def by blast

lemma lock_invI:
  assumes "\<And>p. inside (lw_phase w p) \<Longrightarrow> lw_dir w = Some [Owner p]"
    and "\<And>p i. found_dead (lw_phase w p) = Some i \<Longrightarrow> lw_phase w i = Dead"
    and "\<And>p. phase_agrees work p (lw_file w) (lw_phase w p)"
  shows "lock_inv work w"
  using assms unfolding lock_inv_def by blast

lemma inv_goto:
  assumes "lock_inv work w" "inside ph \<Longrightarrow> lw_dir w = Some [Owner p]" "\<And>i. found_dead ph = Some i \<Longrightarrow> lw_phase w i = Dead \<and> i \<noteq> p"
    and "lw_phase w p = Dead \<Longrightarrow> ph = Dead" "phase_agrees work p (lw_file w) ph"
  shows "lock_inv work (goto p ph w)"
proof (rule lock_invI)
  fix q assume "inside (lw_phase (goto p ph w) q)"
  then show "lw_dir (goto p ph w) = Some [Owner q]"
    using assms(2) inv_inside [OF assms(1), of q] by (cases "q = p") simp_all
next
  fix q i assume "found_dead (lw_phase (goto p ph w) q) = Some i"
  then have "lw_phase w i = Dead \<and> (i = p \<longrightarrow> ph = Dead)"
    using assms(3,4) inv_found [OF assms(1), of q i] by (cases "q = p") auto
  then show "lw_phase (goto p ph w) i = Dead" by simp
next
  fix q show "phase_agrees work q (lw_file (goto p ph w)) (lw_phase (goto p ph w) q)"
    using assms(5) inv_agrees [OF assms(1), of q] by (cases "q = p") simp_all
qed

lemma inv_plain:
  "lock_inv work w \<Longrightarrow> \<not> inside ph \<Longrightarrow> found_dead ph = None \<Longrightarrow> lw_phase w p \<noteq> Dead \<or> ph = Dead \<Longrightarrow> phase_agrees work p (lw_file w) ph \<Longrightarrow>
     lock_inv work (goto p ph w)"
  by (rule inv_goto) auto

text \<open>The directory may change as long as nobody is inside.\<close>

lemma inv_dir: "lock_inv work w \<Longrightarrow> \<forall>q. \<not> inside (lw_phase w q) \<Longrightarrow> lock_inv work (w\<lparr>lw_dir := d\<rparr>)"
  by (simp add: lock_inv_def)

lemma inv_started: "lock_inv work w \<Longrightarrow> lock_inv work (w\<lparr>lw_started := s\<rparr>)"
  by (simp add: lock_inv_def)

lemma nobody_inside: "lock_inv work w \<Longrightarrow> lw_dir w = None \<or> lw_dir w = Some [] \<Longrightarrow> \<not> inside (lw_phase w q)"
  using inv_inside by fastforce

lemma alone_inside: "lock_inv work w \<Longrightarrow> inside (lw_phase w p) \<Longrightarrow> inside (lw_phase w q) \<Longrightarrow> p = q"
  using inv_inside [of work w p] inv_inside [of work w q] by simp

section \<open>Every system call keeps it\<close>

lemma publish_inv: "lock_inv work w \<Longrightarrow> lw_phase w p = Trying \<Longrightarrow> lock_inv work (publish c p w)"
proof -
  assume inv: "lock_inv work w" and ph: "lw_phase w p = Trying"
  have refused: "lock_inv work (goto p (Refused b) w)" for b using inv ph by (intro inv_plain) simp_all
  have "lock_inv work (goto p Working (w\<lparr>lw_dir := Some [Owner p]\<rparr>))" if empty: "\<not> (lw_dir w \<noteq> None \<and> lw_dir w \<noteq> Some [])"
  proof -
    have "\<forall>q. \<not> inside (lw_phase w q)" using nobody_inside [OF inv] empty by (cases "lw_dir w") auto
    then have "lock_inv work (w\<lparr>lw_dir := Some [Owner p]\<rparr>)" by (rule inv_dir [OF inv])
    then show ?thesis using ph by (intro inv_goto) simp_all
  qed
  then show ?thesis using refused by (simp add: publish_def split: choice.split)
qed

lemma unlink_inv:
  assumes inv: "lock_inv work w" and ph: "lw_phase w p = Unlinking i"
  shows "lock_inv work (unlink_marker c p i Emptying Sleeping w)"
proof -
  have dead: "lw_phase w i = Dead" using inv_found [OF inv, of p i] ph by simp
  have plain: "lock_inv work (goto p x w)" if "x \<in> {Emptying, Sleeping, Threw Io_Error}" for x
    using that ph by (intro inv_plain [OF inv]) auto
  have "lock_inv work ((goto p Emptying w)\<lparr>lw_dir := d\<rparr>)" if ms: "lw_dir w = Some ms" "Owner i \<in> set ms" for ms d
  proof (rule inv_dir [OF plain])
    show "\<forall>q. \<not> inside (lw_phase (goto p Emptying w) q)"
    proof (intro allI notI)
      fix q assume "inside (lw_phase (goto p Emptying w) q)"
      then have q: "inside (lw_phase w q)" by (simp split: if_splits)
      then have "lw_dir w = Some [Owner q]" by (rule inv_inside [OF inv])
      then have "i = q" using ms by simp
      then show False using q dead by simp
    qed
  qed simp
  then show ?thesis using plain by (simp add: unlink_marker_def goto_updates split: choice.split option.split)
qed

lemma retire_inv:
  assumes inv: "lock_inv work w" and ph: "lw_phase w p = Retiring"
  shows "lock_inv work (unlink_marker c p p Leaving (Threw Io_Error) w)"
proof -
  have plain: "lock_inv work (goto p x w)" if "x \<in> {Leaving, Threw Io_Error}" for x
    using that ph by (intro inv_plain [OF inv]) auto
  have alone: "\<forall>q. \<not> inside (lw_phase (goto p Leaving w) q)" using alone_inside [OF inv, of p] ph by auto
  have "lock_inv work ((goto p Leaving w)\<lparr>lw_dir := d\<rparr>)" for d by (rule inv_dir [OF plain alone]) simp
  then show ?thesis using plain by (simp add: unlink_marker_def goto_updates split: choice.split option.split)
qed

lemma remove_inv:
  assumes inv: "lock_inv work w" and ph: "lw_phase w p \<in> {Emptying, Leaving}"
    and "removed \<in> {Trying, Returned}" "kept \<in> {Sleeping, Returned}" "missing \<in> {Looking, Returned}"
  shows "lock_inv work (remove_empty c p removed kept missing w)"
proof -
  have plain: "lock_inv work (goto p x w)" if "x \<in> {Trying, Returned, Sleeping, Looking, Threw Io_Error}" for x
    using that ph by (intro inv_plain [OF inv]) auto
  have "lock_inv work ((goto p removed w)\<lparr>lw_dir := d\<rparr>)" if "lw_dir w = Some []" for d
  proof (rule inv_dir [OF plain])
    show "removed \<in> {Trying, Returned, Sleeping, Looking, Threw Io_Error}" using assms(3) by auto
    then show "\<forall>q. \<not> inside (lw_phase (goto p removed w) q)" using nobody_inside [OF inv] that by auto
  qed
  moreover have "kept \<in> {Trying, Returned, Sleeping, Looking, Threw Io_Error}" "missing \<in> {Trying, Returned, Sleeping, Looking, Threw Io_Error}"
    using assms(4,5) by auto
  ultimately show ?thesis using plain by (simp add: remove_empty_def goto_updates split: choice.split option.split list.split)
qed

lemma write_inv:
  assumes inv: "lock_inv work w" and ph: "lw_phase w p = Writing g"
  shows "lock_inv work (goto p (Listing Release) (w\<lparr>lw_file := g, lw_log := calls\<rparr>))"
proof -
  have dir: "lw_dir w = Some [Owner p]" using inv_inside [OF inv, of p] ph by simp
  have agrees: "phase_agrees work q g (if q = p then Listing Release else lw_phase w q)" for q
  proof (cases "q = p")
    case False
    then have "\<not> inside (lw_phase w q)" using alone_inside [OF inv, of p q] ph by auto
    then have "phase_agrees work q g (lw_phase w q)" by (cases "(work, q, g, lw_phase w q)" rule: phase_agrees.cases) auto
    then show ?thesis using False by simp
  qed simp
  show ?thesis
  proof (rule lock_invI)
    fix q assume "inside (lw_phase (goto p (Listing Release) (w\<lparr>lw_file := g, lw_log := calls\<rparr>)) q)"
    then show "lw_dir (goto p (Listing Release) (w\<lparr>lw_file := g, lw_log := calls\<rparr>)) = Some [Owner q]"
      using dir inv_inside [OF inv, of q] by (cases "q = p") simp_all
  next
    fix q i assume "found_dead (lw_phase (goto p (Listing Release) (w\<lparr>lw_file := g, lw_log := calls\<rparr>)) q) = Some i"
    then show "lw_phase (goto p (Listing Release) (w\<lparr>lw_file := g, lw_log := calls\<rparr>)) i = Dead"
      using inv_found [OF inv, of q i] ph by (cases "q = p") auto
  next
    fix q show "phase_agrees work q (lw_file (goto p (Listing Release) (w\<lparr>lw_file := g, lw_log := calls\<rparr>)))
        (lw_phase (goto p (Listing Release) (w\<lparr>lw_file := g, lw_log := calls\<rparr>)) q)"
      using agrees [of q] by (cases "q = p") simp_all
  qed
qed

lemma reading_inv:
  assumes inv: "lock_inv work w" and reading: "lw_phase w p = Listing u \<or> lw_phase w p = Opening u m"
    and own: "u = Release \<longrightarrow> observed = Some p \<or> observed = None"
  shows "lock_inv work (goto p (after_reading u p observed) w)"
proof (cases u)
  case Inspect
  then show ?thesis using reading by (auto simp: after_reading_def intro!: inv_plain [OF inv] split: option.split)
next
  case (Recheck i)
  then have "lw_phase w i = Dead" using reading inv_found [OF inv, of p i] by auto
  moreover have "lw_phase w p \<noteq> Dead" using reading by auto
  ultimately show ?thesis using Recheck by (intro inv_goto [OF inv]) (auto simp: after_reading_def split: if_splits)
next
  case Release
  then have "lw_dir w = Some [Owner p]" using reading inv_inside [OF inv, of p] by auto
  moreover have "lw_phase w p \<noteq> Dead" using reading by auto
  ultimately show ?thesis using Release by (intro inv_goto [OF inv]) (auto simp: after_reading_def split: if_splits)
qed

lemma owner_in_own: "owner_in dir (Owner p) = Some p \<or> owner_in dir (Owner p) = None"
  by (simp add: owner_in_def split: option.split)

lemma step_inv:
  assumes inv: "lock_inv work w" and truth: "truthful w e"
  shows "lock_inv work (lock_step opts work e w)"
proof -
  obtain p now c where e: "e = (p, now, c)" by (cases e)
  show ?thesis
  proof (cases "c = Exit")
    case True
    then show ?thesis using inv by (simp add: lock_step_def e inv_plain)
  next
    case go: False
    let ?failed = "case c of Fail b \<Rightarrow> True | _ \<Rightarrow> False"
    note plain = inv_plain [OF inv]
    show ?thesis
    proof (cases "lw_phase w p")
      case Outside
      have "lock_inv work (goto p (if ?failed then Threw Io_Error else Trying) w)" using Outside by (intro plain) auto
      then show ?thesis using go Outside inv_started by (simp add: lock_step_def e goto_updates)
    next
      case Trying
      then show ?thesis using go plain publish_inv [OF inv] by (simp add: lock_step_def e)
    next
      case (Refused b)
      then show ?thesis using go plain by (simp add: lock_step_def e)
    next
      case (Listing u)
      show ?thesis
      proof (cases "if ?failed then None else only_file (lw_dir w)")
        case None
        then show ?thesis using go Listing reading_inv [OF inv, of p u] by (simp add: lock_step_def e)
      next
        case (Some m)
        then have sole: "lw_dir w = Some [m]" by (auto simp: only_file_def split: if_splits option.splits list.splits)
        have "lock_inv work (goto p (Opening u m) w)"
        proof (rule inv_goto [OF inv])
          assume "inside (Opening u m)"
          then show "lw_dir w = Some [Owner p]" using Listing inv_inside [OF inv, of p] by simp
        next
          fix i assume "found_dead (Opening u m) = Some i"
          then have "u = Recheck i" by (cases u) simp_all
          then have "lw_phase w i = Dead" using Listing inv_found [OF inv, of p i] by simp
          then show "lw_phase w i = Dead \<and> i \<noteq> p" using Listing by auto
        next
          show "phase_agrees work p (lw_file w) (Opening u m)"
            using sole Listing inv_inside [OF inv, of p] by (cases u) simp_all
        qed (simp add: Listing)
        then show ?thesis using Some go Listing by (simp add: lock_step_def e)
      qed
    next
      case (Opening u m)
      have "u = Release \<longrightarrow> m = Owner p" using inv_agrees [OF inv, of p] Opening by auto
      then have "lock_inv work (goto p (after_reading u p (if ?failed then None else owner_in (lw_dir w) m)) w)"
        using owner_in_own by (intro reading_inv [OF inv, of p u m]) (auto simp: Opening)
      then show ?thesis using go Opening by (simp add: lock_step_def e)
    next
      case (Judging i)
      have "lock_inv work (goto p (if c = Absent then Listing (Recheck i) else Sleeping) w)"
        using truth Judging by (intro inv_goto [OF inv]) (auto simp: truthful_def e split: if_splits)
      then show ?thesis using go Judging by (simp add: lock_step_def e)
    next
      case (Unlinking i)
      then show ?thesis using go unlink_inv [OF inv] by (simp add: lock_step_def e)
    next
      case Emptying
      then show ?thesis using go remove_inv [OF inv] by (simp add: lock_step_def e)
    next
      case Looking
      then show ?thesis using go plain by (simp add: lock_step_def e)
    next
      case Sleeping
      then show ?thesis using go plain by (simp add: lock_step_def e)
    next
      case Working
      have dir: "lw_dir w = Some [Owner p]" using inv_inside [OF inv, of p] Working by simp
      have "lock_inv work (goto p (Listing Release) w)" using Working dir by (intro inv_goto [OF inv]) simp_all
      moreover have "lock_inv work (goto p (Writing g) w)" if "work p (lw_file w) = Some g" for g
        using Working dir that by (intro inv_goto [OF inv]) simp_all
      ultimately show ?thesis using go Working by (simp add: lock_step_def e split: option.split)
    next
      case (Writing g)
      have dir: "lw_dir w = Some [Owner p]" using inv_inside [OF inv, of p] Writing by simp
      have "lock_inv work (goto p (Listing Release) w)" using Writing dir by (intro inv_goto [OF inv]) simp_all
      then show ?thesis using go Writing write_inv [OF inv Writing] by (simp add: lock_step_def e)
    next
      case Retiring
      then show ?thesis using go retire_inv [OF inv] by (simp add: lock_step_def e)
    next
      case Leaving
      then show ?thesis using go remove_inv [OF inv] by (simp add: lock_step_def e)
    qed (use go inv in \<open>simp_all add: lock_step_def e\<close>)
  qed
qed

section \<open>The reachable worlds\<close>

definition lock_start :: "lock_world \<Rightarrow> bool" where
  "lock_start w \<longleftrightarrow> (\<forall>p. lw_phase w p = Outside \<or> lw_phase w p = Dead) \<and> lw_log w = []"

inductive lock_reach ::
  "(string \<Rightarrow> lock_options) \<Rightarrow> (string \<Rightarrow> string option \<Rightarrow> string option option) \<Rightarrow> lock_world \<Rightarrow> lock_world \<Rightarrow> bool"
  for opts work w0 where
  here: "lock_reach opts work w0 w0"
| onward: "lock_reach opts work w0 w \<Longrightarrow> truthful w e \<Longrightarrow> lock_reach opts work w0 (lock_step opts work e w)"

lemma start_inv: "lock_start w \<Longrightarrow> lock_inv work w"
proof (rule lock_invI)
  assume start: "lock_start w"
  fix p
  have "lw_phase w p = Outside \<or> lw_phase w p = Dead" using start by (simp add: lock_start_def)
  then show "inside (lw_phase w p) \<Longrightarrow> lw_dir w = Some [Owner p]" "found_dead (lw_phase w p) = Some i \<Longrightarrow> lw_phase w i = Dead"
    "phase_agrees work p (lw_file w) (lw_phase w p)" for i by auto
qed

lemma reach_inv: "lock_reach opts work w0 w \<Longrightarrow> lock_start w0 \<Longrightarrow> lock_inv work w"
  by (induction rule: lock_reach.induct) (auto intro: start_inv step_inv)

text \<open>The phases after the commit.\<close>

fun after_commit :: "phase \<Rightarrow> bool" where
  "after_commit (Listing u) = (u = Release)"
| "after_commit (Opening u m) = (u = Release)"
| "after_commit Retiring = True"
| "after_commit Leaving = True"
| "after_commit Returned = True"
| "after_commit (Threw err) = True"
| "after_commit Dead = True"
| "after_commit ph = False"

lemma committed_snoc: "committed work (calls @ [p]) f = (case work p (committed work calls f) of Some g \<Rightarrow> g | None \<Rightarrow> committed work calls f)"
  by (simp add: committed_def split: option.split)

lemma step_frame:
  assumes "\<And>g. lw_phase w p = Writing g \<Longrightarrow> c = Exit \<or> (\<exists>b. c = Fail b)"
  shows "lw_file (lock_step opts work (p, now, c) w) = lw_file w \<and> lw_log (lock_step opts work (p, now, c) w) = lw_log w"
  using assms
  by (cases "lw_phase w p")
    (auto simp: lock_step_def Let_def publish_def unlink_marker_def remove_empty_def split: choice.split option.split list.split)

lemma step_other: "q \<noteq> p \<Longrightarrow> lw_phase (lock_step opts work (p, now, c) w) q = lw_phase w q"
  by (cases "lw_phase w p")
    (auto simp: lock_step_def Let_def publish_def unlink_marker_def remove_empty_def split: choice.split option.split list.split)

lemma step_after_commit:
  "after_commit (lw_phase w p) \<Longrightarrow> after_commit (lw_phase (lock_step opts work (p, now, c) w) p)"
  by (cases "lw_phase w p")
    (auto simp: lock_step_def Let_def unlink_marker_def remove_empty_def after_reading_def split: choice.split option.split list.split)

text \<open>Every commit counts once, and the file is what the committed calls make of it one after another.\<close>

lemma reach_committed:
  assumes "lock_reach opts work w0 w" "lock_start w0"
  shows "lw_file w = committed work (lw_log w) (lw_file w0) \<and> distinct (lw_log w) \<and> (\<forall>p \<in> set (lw_log w). after_commit (lw_phase w p))"
  using assms(1)
proof (induction rule: lock_reach.induct)
  case here
  then show ?case using assms(2) by (simp add: lock_start_def committed_def)
next
  case (onward w e)
  obtain p now c where e: "e = (p, now, c)" by (cases e)
  have kept: "after_commit (lw_phase (lock_step opts work e w) q)" if "q \<in> set (lw_log w)" for q
    using onward.IH that step_after_commit [of w p opts work now c] step_other [of q p opts work now c w] e by (cases "q = p") auto
  show ?case
  proof (cases "\<exists>g. lw_phase w p = Writing g \<and> c \<noteq> Exit \<and> (\<forall>b. c \<noteq> Fail b)")
    case True
    then obtain g where g: "lw_phase w p = Writing g" "c \<noteq> Exit" "\<forall>b. c \<noteq> Fail b" by blast
    have step: "lock_step opts work e w = goto p (Listing Release) (w\<lparr>lw_file := g, lw_log := lw_log w @ [p]\<rparr>)"
    proof (cases c)
      case (Fail b)
      then show ?thesis using g(3) by blast
    qed (use g(1,2) in \<open>simp_all add: lock_step_def e\<close>)
    have "work p (lw_file w) = Some g" using inv_agrees [OF reach_inv [OF onward.hyps(1) assms(2)], of p] g(1) by simp
    moreover have "p \<notin> set (lw_log w)" using onward.IH g(1) by force
    ultimately show ?thesis using onward.IH kept unfolding step by (auto simp: committed_snoc)
  next
    case False
    then have "lw_file (lock_step opts work e w) = lw_file w \<and> lw_log (lock_step opts work e w) = lw_log w"
      unfolding e by (intro step_frame) auto
    then show ?thesis using onward.IH kept by simp
  qed
qed

section \<open>The claims\<close>

lemma start_frame: "lock_start w0 \<Longrightarrow> lock_reach opts work w0 w \<Longrightarrow> inside (lw_phase w p) \<Longrightarrow> lw_dir w = Some [Owner p]"
  using inv_inside [OF reach_inv] by blast

text \<open>C30. The lock excludes: in every world that any interleaving of calls reaches, with processes that die anywhere, system calls
  that fail, and locks that are reclaimed at the same time by several others, at most one call is between taking the lock and
  retiring its marker, and the lock is its own, so that no release finds the ownership changed unless a reading fails.\<close>

theorem lock_excludes:
  assumes "lock_start w0" "lock_reach opts work w0 w" "inside (lw_phase w p)"
  shows "lw_dir w = Some [Owner p] \<and> (\<forall>q. inside (lw_phase w q) \<longrightarrow> q = p) \<and>
    (\<forall>now c. lw_phase (lock_step opts work (p, now, c) w) p = Threw Ownership_Changed \<longrightarrow> (\<exists>b. c = Fail b))"
proof -
  note inv = reach_inv [OF assms(2,1)]
  have dir: "lw_dir w = Some [Owner p]" by (rule inv_inside [OF inv assms(3)])
  have "\<exists>b. c = Fail b" if threw: "lw_phase (lock_step opts work (p, now, c) w) p = Threw Ownership_Changed" for now c
  proof (rule ccontr)
    assume none: "\<nexists>b. c = Fail b"
    have "u = Release \<longrightarrow> m = Owner p" if "lw_phase w p = Opening u m" for u m
      using inv_agrees [OF inv, of p] that by auto
    then show False using threw none dir assms(3)
      by (cases "lw_phase w p"; cases c)
        (auto simp: lock_step_def Let_def unlink_marker_def after_reading_def only_file_def owner_in_def split: option.splits)
  qed
  then show ?thesis using dir alone_inside [OF inv assms(3)] by blast
qed

text \<open>A lock that names no owner, a legacy one among them, is never taken and never removed.\<close>

lemma foreign_kept:
  assumes "lock_start w0" "lw_dir w0 = Some ms" "Foreign f \<in> set ms" "lock_reach opts work w0 w"
  shows "(\<exists>ms. lw_dir w = Some ms \<and> Foreign f \<in> set ms) \<and> \<not> inside (lw_phase w p)"
proof -
  have "\<exists>ms. lw_dir w = Some ms \<and> Foreign f \<in> set ms" using assms(4)
  proof (induction rule: lock_reach.induct)
    case here
    then show ?case using assms(2,3) by simp
  next
    case (onward w e)
    obtain q now c where e: "e = (q, now, c)" by (cases e)
    obtain ms where ms: "lw_dir w = Some ms" "Foreign f \<in> set ms" using onward.IH by blast
    then have "ms \<noteq> []" by auto
    then show ?case using ms unfolding e
      by (cases "lw_phase w q"; cases c)
        (auto simp: lock_step_def Let_def publish_def unlink_marker_def remove_empty_def split: option.split list.split)
  qed
  then show ?thesis using start_frame [OF assms(1,4), of p] by auto
qed

text \<open>What a call does alone: its events one after another, at the same time.\<close>

definition alone :: "(string \<Rightarrow> lock_options) \<Rightarrow> (string \<Rightarrow> string option \<Rightarrow> string option option) \<Rightarrow> string \<Rightarrow> rat \<Rightarrow> choice list \<Rightarrow> lock_world \<Rightarrow> lock_world" where
  "alone opts work p now cs w = fold (\<lambda>c. lock_step opts work (p, now, c)) cs w"

lemma alone_reach: "lock_reach opts work w0 w \<Longrightarrow> Absent \<notin> set cs \<Longrightarrow> lock_reach opts work w0 (alone opts work p now cs w)"
proof (induction cs arbitrary: w)
  case (Cons c cs)
  then have "lock_reach opts work w0 (lock_step opts work (p, now, c) w)"
    by (intro lock_reach.onward) (auto simp: truthful_def)
  then show ?case using Cons.IH Cons.prems(2) by (simp add: alone_def)
qed (simp add: alone_def)

lemma alone_append: "alone opts work p now (xs @ ys) w = alone opts work p now ys (alone opts work p now xs w)"
  by (simp add: alone_def)

text \<open>C32. A lock whose owner died is taken over: from every world in which the lock holds the marker of a dead call only, another call
  that is about to try, and whose time is not up, is inside after ten system calls that go through, its marker in place of the
  dead one, with the file as it was and every other call where it was.\<close>

theorem dead_lock_is_taken_over:
  assumes "lw_dir w = Some [Owner i]" "lw_phase w i = Dead" "lw_phase w p = Trying"
    and "now - lw_started w p < lock_timeoutMs (opts p)"
  shows "\<exists>cs w'. length cs = 10 \<and> w' = alone opts work p now cs w \<and> lock_reach opts work w w' \<and>
    lw_phase w' p = Working \<and> lw_dir w' = Some [Owner p] \<and> lw_file w' = lw_file w \<and> (\<forall>q. q \<noteq> p \<longrightarrow> lw_phase w' q = lw_phase w q)"
proof -
  let ?go = "alone opts work p now"
  have time: "\<not> lock_timeoutMs (opts p) \<le> now - lw_started w p" using assms(4) by simp
  note steps = alone_def lock_step_def Let_def publish_def assms(1-3) time only_file_def owner_in_def after_reading_def
    unlink_marker_def remove_empty_def goto_def
  define w4 where "w4 = ?go [Proceed, Proceed, Proceed, Proceed] w"
  have w4: "w4 = w\<lparr>lw_phase := (lw_phase w)(p := Judging i)\<rparr>" by (simp add: w4_def steps)
  have "lock_reach opts work w w4" unfolding w4_def by (intro alone_reach lock_reach.here) simp
  moreover have "i \<noteq> p" using assms(2,3) by auto
  ultimately have r5: "lock_reach opts work w (lock_step opts work (p, now, Absent) w4)"
    using assms(2) by (intro lock_reach.onward) (simp_all add: truthful_def w4)
  have w5: "lock_step opts work (p, now, Absent) w4 = w\<lparr>lw_phase := (lw_phase w)(p := Listing (Recheck i))\<rparr>"
    by (simp add: w4 lock_step_def goto_def)
  let ?w' = "?go [Proceed, Proceed, Proceed, Proceed, Proceed] (lock_step opts work (p, now, Absent) w4)"
  have w': "?w' = w\<lparr>lw_phase := (lw_phase w)(p := Working), lw_dir := Some [Owner p]\<rparr>" unfolding w5 by (simp add: steps)
  have same: "?w' = ?go ([Proceed, Proceed, Proceed, Proceed] @ Absent # [Proceed, Proceed, Proceed, Proceed, Proceed]) w"
    unfolding alone_append w4_def [symmetric] by (simp add: alone_def)
  have reach: "lock_reach opts work w ?w'" by (intro alone_reach r5) simp
  have "lw_phase ?w' p = Working \<and> lw_dir ?w' = Some [Owner p] \<and> lw_file ?w' = lw_file w \<and> (\<forall>q. q \<noteq> p \<longrightarrow> lw_phase ?w' q = lw_phase w q)"
    unfolding w' by simp
  moreover have "length ([Proceed, Proceed, Proceed, Proceed] @ Absent # [Proceed, Proceed, Proceed, Proceed, Proceed]) = 10" by simp
  ultimately show ?thesis using same reach by blast
qed

text \<open>A lock that a dead call left behind, and a call that takes it over and appends its mark to the file.\<close>

definition left_behind :: lock_world where
  "left_behind = \<lparr>lw_dir = Some [Owner ''d''], lw_file = Some ''x'', lw_phase = (\<lambda>p. if p = ''d'' then Dead else Outside), lw_started = (\<lambda>p. 0), lw_log = []\<rparr>"

definition plain_options :: "string \<Rightarrow> lock_options" where
  "plain_options p = \<lparr>lo_retryMs = None, lo_timeoutMs = None\<rparr>"

definition append_mark :: "string \<Rightarrow> string option \<Rightarrow> string option option" where
  "append_mark p f = Some (Some ((case f of Some s \<Rightarrow> s | None \<Rightarrow> []) @ p))"

definition taking :: lock_world where
  "taking = alone plain_options append_mark ''p'' 7 [Proceed, Proceed, Proceed, Proceed, Proceed] left_behind"

definition taken :: lock_world where
  "taken = alone plain_options append_mark ''p'' 7 [Proceed, Proceed, Proceed, Proceed, Proceed]
     (lock_step plain_options append_mark (''p'', 7, Absent) taking)"

lemmas lock_run = alone_def lock_step_def Let_def publish_def only_file_def owner_in_def after_reading_def unlink_marker_def
  remove_empty_def goto_def left_behind_def plain_options_def lock_timeoutMs_def lock_retryMs_def DEFAULT_RETRY_MS_def
  DEFAULT_TIMEOUT_MS_def append_mark_def

lemma left_behind_starts: "lock_start left_behind"
  by (simp add: lock_start_def left_behind_def)

lemma taking_is: "lw_phase taking ''p'' = Judging ''d''" "lw_phase taking ''d'' = Dead"
  by (simp_all add: taking_def lock_run)

lemma taken_is: "lw_phase taken ''p'' = Working" "lw_file taken = Some ''x''"
  by (simp_all add: taken_def taking_def lock_run)

lemma taken_reached: "lock_reach plain_options append_mark left_behind taken"
proof -
  have "lock_reach plain_options append_mark left_behind taking" unfolding taking_def by (intro alone_reach lock_reach.here) simp
  then have "lock_reach plain_options append_mark left_behind (lock_step plain_options append_mark (''p'', 7, Absent) taking)"
    by (rule lock_reach.onward) (simp add: truthful_def taking_is)
  then show ?thesis unfolding taken_def by (intro alone_reach) simp_all
qed

lemma lock_excludes_witness: "lw_dir taken = Some [Owner ''p''] \<and> {q. inside (lw_phase taken q)} = {''p''}"
  using lock_excludes [OF left_behind_starts taken_reached, of "''p''"] taken_is by auto

lemma dead_lock_is_taken_over_witness:
  "\<exists>cs w'. length cs = 10 \<and> lw_phase w' ''p'' = Working \<and>
     w' = alone plain_options append_mark ''p'' 7 cs (lock_step plain_options append_mark (''p'', 7, Proceed) left_behind)"
proof -
  let ?w = "lock_step plain_options append_mark (''p'', 7, Proceed) left_behind"
  have "lw_dir ?w = Some [Owner ''d'']" "lw_phase ?w ''d'' = Dead" "lw_phase ?w ''p'' = Trying"
    "7 - lw_started ?w ''p'' < lock_timeoutMs (plain_options ''p'')"
    by (simp_all add: lock_run)
  from dead_lock_is_taken_over [of ?w "''d''" "''p''" 7 plain_options append_mark, OF this] show ?thesis by blast
qed

end
