(* ===== verification/Json_Store.thy ===== *)
theory Json_Store
  imports File_Lock_Props Job_Journal
begin

text \<open>
  Reading and writing JSON files (\<^verbatim>\<open>storage/json-store.ts\<close>): the replacement of a file by a rename that is tried again, the
  atomic write as the sequence of states that another process can see, the tolerant reading, and the transaction under the file
  lock, with its reading that refuses what it cannot understand. \<open>JSON.parse\<close>, which may throw, and \<open>JSON.stringify\<close> are
  parameters, and so are the answers of the file system.
\<close>

section \<open>The rename\<close>

definition WINDOWS_RENAME_RETRY_DELAYS_MS :: "rat list" where
  "WINDOWS_RENAME_RETRY_DELAYS_MS = [10, 20, 40, 80, 160, 250, 250, 250]"

definition transient_rename :: "bool \<Rightarrow> string \<Rightarrow> bool" where
  "transient_rename windows code \<longleftrightarrow> windows \<and> code \<in> {''EPERM'', ''EACCES'', ''EBUSY''}"

text \<open>The attempts from the \<open>n\<close>-th on: \<open>rename n\<close> is the code with which that attempt fails, if it does. The result is the code
  that is thrown, if one is, and the time slept.\<close>

fun rename_attempts :: "bool \<Rightarrow> (nat \<Rightarrow> string option) \<Rightarrow> nat \<Rightarrow> rat list \<Rightarrow> string option \<times> rat list" where
  "rename_attempts windows rename n [] = (rename n, [])"
| "rename_attempts windows rename n (delay # delays) =
     (case rename n of
        None \<Rightarrow> (None, [])
      | Some code \<Rightarrow>
          if \<not> transient_rename windows code then (Some code, [])
          else (let (thrown, slept) = rename_attempts windows rename (Suc n) delays in (thrown, delay # slept)))"

definition replaceFileWithRetrySync :: "bool \<Rightarrow> (nat \<Rightarrow> string option) \<Rightarrow> string option \<times> rat list" where
  "replaceFileWithRetrySync windows rename = rename_attempts windows rename 0 WINDOWS_RENAME_RETRY_DELAYS_MS"

section \<open>The atomic write\<close>

datatype store_error = Store_Io | Store_Empty | Store_Syntax | Store_Invalid

text \<open>The target and the temporary file next to it.\<close>

record store_files =
  sf_target :: "string option"
  sf_tmp :: "string option"

text \<open>What the system answers. A write that fails leaves a part of the text, or no file.\<close>

datatype tmp_write = Written | Cut nat | Not_Created

record write_answers =
  wa_windows :: bool
  wa_mkdir :: bool
  wa_write :: tmp_write
  wa_rename :: "nat \<Rightarrow> string option"
  wa_unlink :: bool

definition tmp_after :: "tmp_write \<Rightarrow> string \<Rightarrow> string option" where
  "tmp_after w json_text = (case w of Written \<Rightarrow> Some json_text | Cut n \<Rightarrow> Some (take n json_text) | Not_Created \<Rightarrow> None)"

text \<open>The states one after another, as others may see them, and the result: \<open>strict\<close> throws what is otherwise \<open>false\<close>.\<close>

definition atomicWriteJsonSync ::
  "(json \<Rightarrow> string) \<Rightarrow> write_answers \<Rightarrow> bool \<Rightarrow> json \<Rightarrow> store_files \<Rightarrow> (store_error + bool) \<times> store_files list" where
  "atomicWriteJsonSync stringify ans strict data files =
     (let json_text = stringify data @ [CHR 0x0A];
          failed = (if strict then Inl Store_Io else Inr False);
          written = files\<lparr>sf_tmp := tmp_after (wa_write ans) json_text\<rparr>;
          cleaned = written\<lparr>sf_tmp := (if wa_unlink ans then None else sf_tmp written)\<rparr>
      in if \<not> wa_mkdir ans then (failed, [files])
         else if wa_write ans \<noteq> Written then (failed, [files, written, cleaned])
         else (case fst (replaceFileWithRetrySync (wa_windows ans) (wa_rename ans)) of
             Some code \<Rightarrow> (failed, [files, written, cleaned])
           | None \<Rightarrow> (Inr True, [files, written, \<lparr>sf_target = Some json_text, sf_tmp = None\<rparr>])))"

section \<open>Reading\<close>

datatype file_reading = File_Missing | File_Unreadable | File_Text string

definition safeReadJsonSync :: "(string \<Rightarrow> json option) \<Rightarrow> (json \<Rightarrow> bool) option \<Rightarrow> json option \<Rightarrow> file_reading \<Rightarrow> json option" where
  "safeReadJsonSync json_parse validator fallback file =
     (case file of
        File_Text raw \<Rightarrow>
          if raw = [] \<or> js_trim raw = [] then fallback
          else (case json_parse raw of
              None \<Rightarrow> fallback
            | Some parsed \<Rightarrow> (case validator of
                Some ok \<Rightarrow> if ok parsed then Some parsed else fallback
              | None \<Rightarrow> Some parsed))
      | _ \<Rightarrow> fallback)"

definition readTransactionJsonSync ::
  "(string \<Rightarrow> json option) \<Rightarrow> (json \<Rightarrow> bool) option \<Rightarrow> file_reading \<Rightarrow> store_error + json option" where
  "readTransactionJsonSync json_parse validator file =
     (case file of
        File_Missing \<Rightarrow> Inr None
      | File_Unreadable \<Rightarrow> Inl Store_Io
      | File_Text raw \<Rightarrow>
          if js_trim raw = [] then Inl Store_Empty
          else (case json_parse raw of
              None \<Rightarrow> Inl Store_Syntax
            | Some parsed \<Rightarrow> if (case validator of Some ok \<Rightarrow> \<not> ok parsed | None \<Rightarrow> False) then Inl Store_Invalid else Inr (Some parsed)))"

section \<open>The transaction\<close>

definition reading_of :: "string option \<Rightarrow> file_reading" where
  "reading_of file = (case file of None \<Rightarrow> File_Missing | Some raw \<Rightarrow> File_Text raw)"

text \<open>What \<^verbatim>\<open>transactionalUpdateJsonSync\<close> does under the lock: read, update, and the text to write; \<open>None\<close> when the reading or the
  update throws.\<close>

definition transactionalUpdateJsonSync ::
  "(string \<Rightarrow> json option) \<Rightarrow> (json \<Rightarrow> string) \<Rightarrow> (json \<Rightarrow> bool) option \<Rightarrow> (json option \<Rightarrow> json option) \<Rightarrow> string option \<Rightarrow> string option option" where
  "transactionalUpdateJsonSync json_parse stringify validator update file =
     (case readTransactionJsonSync json_parse validator (reading_of file) of
        Inl err \<Rightarrow> None
      | Inr current \<Rightarrow> map_option (\<lambda>data. Some (stringify data @ [CHR 0x0A])) (update current))"

end
