(* ===== verification/Json_Store_Props.thy ===== *)
theory Json_Store_Props
  imports Json_Store
begin

text \<open>
  The properties of the JSON store: the rename is tried for about a second at most, no state in which the file is neither the old
  nor the new can be seen, and transactions of any number of processes are as good as one after another.
\<close>

section \<open>The rename\<close>

text \<open>It goes through exactly when some attempt within the delays does and every one before it failed for a reason that passes.\<close>

lemma rename_attempts_exact:
  "fst (rename_attempts windows rename n ds) = None \<longleftrightarrow>
     (\<exists>k \<le> length ds. rename (n + k) = None \<and> (\<forall>j < k. \<exists>code. rename (n + j) = Some code \<and> transient_rename windows code))"
proof (induction ds arbitrary: n)
  case (Cons d ds)
  show ?case
  proof (cases "rename n")
    case None
    then show ?thesis by (auto intro!: exI [of _ 0])
  next
    case (Some code)
    show ?thesis
    proof (cases "transient_rename windows code")
      case True
      have step: "(\<exists>k \<le> length (d # ds). P k) \<longleftrightarrow> (\<exists>k \<le> length ds. P (Suc k))" if "\<not> P 0" for P
        using that by (auto simp: Suc_le_eq less_Suc_eq_le) (metis Suc_le_mono not0_implies_Suc)
      have "(\<exists>k \<le> length (d # ds). rename (n + k) = None \<and> (\<forall>j < k. \<exists>code. rename (n + j) = Some code \<and> transient_rename windows code)) \<longleftrightarrow>
          (\<exists>k \<le> length ds. rename (n + Suc k) = None \<and> (\<forall>j < Suc k. \<exists>code. rename (n + j) = Some code \<and> transient_rename windows code))"
        by (rule step) (simp add: Some)
      also have "\<dots> \<longleftrightarrow> (\<exists>k \<le> length ds. rename (Suc n + k) = None \<and> (\<forall>j < k. \<exists>code. rename (Suc n + j) = Some code \<and> transient_rename windows code))"
        using Some True by (simp add: All_less_Suc2)
      finally show ?thesis using Cons.IH [of "Suc n"] Some True by (simp add: split_beta)
    next
      case False
      then have "\<not> (\<exists>code. rename n = Some code \<and> transient_rename windows code)" using Some by simp
      then have "k = 0" if "\<forall>j < k. \<exists>code. rename (n + j) = Some code \<and> transient_rename windows code" for k
        using that by (cases k) fastforce+
      then have "rename (n + k) \<noteq> None" if "\<forall>j < k. \<exists>code. rename (n + j) = Some code \<and> transient_rename windows code" for k
        using that Some by (metis add.right_neutral option.distinct(1))
      then show ?thesis using Some False by auto
    qed
  qed
qed simp

lemma rename_sleeps: "\<exists>rest. ds = snd (rename_attempts windows rename n ds) @ rest"
proof (induction ds arbitrary: n)
  case (Cons d ds)
  obtain rest where "ds = snd (rename_attempts windows rename (Suc n) ds) @ rest" using Cons.IH by blast
  then show ?case by (auto simp: split_beta split: option.split)
qed simp

text \<open>The retries are bounded: whatever the system answers, the rename is slept over for at most 1060 milliseconds, the sleeps are the
  first delays of the table in their order, and it fails exactly when none of the first nine attempts goes through after only
  failures that pass.\<close>

lemma rename_retries_bounded:
  "sum_list (snd (replaceFileWithRetrySync windows rename)) \<le> 1060 \<and>
   (\<exists>rest. WINDOWS_RENAME_RETRY_DELAYS_MS = snd (replaceFileWithRetrySync windows rename) @ rest) \<and>
   (fst (replaceFileWithRetrySync windows rename) = None \<longleftrightarrow>
     (\<exists>k \<le> 8. rename k = None \<and> (\<forall>j < k. \<exists>code. rename j = Some code \<and> transient_rename windows code)))"
proof -
  obtain rest where rest: "WINDOWS_RENAME_RETRY_DELAYS_MS = snd (replaceFileWithRetrySync windows rename) @ rest"
    using rename_sleeps unfolding replaceFileWithRetrySync_def by blast
  have "set rest \<subseteq> set WINDOWS_RENAME_RETRY_DELAYS_MS" by (subst rest) simp
  then have "0 \<le> sum_list rest" by (intro sum_list_nonneg) (auto simp: WINDOWS_RENAME_RETRY_DELAYS_MS_def)
  moreover have "sum_list (snd (replaceFileWithRetrySync windows rename)) + sum_list rest = sum_list WINDOWS_RENAME_RETRY_DELAYS_MS"
    using arg_cong [OF rest, of sum_list] by simp
  ultimately have "sum_list (snd (replaceFileWithRetrySync windows rename)) \<le> 1060" by (simp add: WINDOWS_RENAME_RETRY_DELAYS_MS_def)
  moreover have eight: "length WINDOWS_RENAME_RETRY_DELAYS_MS = 8" by (simp add: WINDOWS_RENAME_RETRY_DELAYS_MS_def)
  have "fst (replaceFileWithRetrySync windows rename) = None \<longleftrightarrow>
      (\<exists>k \<le> 8. rename k = None \<and> (\<forall>j < k. \<exists>code. rename j = Some code \<and> transient_rename windows code))"
    using rename_attempts_exact [of windows rename 0 WINDOWS_RENAME_RETRY_DELAYS_MS] eight by (simp add: replaceFileWithRetrySync_def)
  ultimately show ?thesis using rest by blast
qed

section \<open>The atomic write\<close>

text \<open>In every state that can be seen during a write, after which a crash may stop it too, the file is as it was or as it shall be,
  never a part; it says \<^verbatim>\<open>true\<close> exactly when the file is replaced in the end; and a failed write leaves the file as it was, and no
  temporary file unless removing it failed.\<close>

lemma atomic_write_is_atomic:
  assumes "atomicWriteJsonSync stringify ans strict data files = (result, states)" "sf_tmp files = None"
  shows "(\<forall>s \<in> set states. sf_target s = sf_target files \<or> sf_target s = Some (stringify data @ [CHR 0x0A])) \<and>
    (result = Inr True \<longrightarrow> List.last states = \<lparr>sf_target = Some (stringify data @ [CHR 0x0A]), sf_tmp = None\<rparr>) \<and>
    (result \<noteq> Inr True \<longrightarrow> result = (if strict then Inl Store_Io else Inr False) \<and> sf_target (List.last states) = sf_target files \<and>
      (wa_unlink ans \<longrightarrow> sf_tmp (List.last states) = None))"
proof (cases "wa_mkdir ans \<and> wa_write ans = Written")
  case True
  then show ?thesis using assms
    by (cases "fst (replaceFileWithRetrySync (wa_windows ans) (wa_rename ans))") (auto simp: atomicWriteJsonSync_def Let_def split: if_splits)
next
  case False
  then show ?thesis using assms by (auto simp: atomicWriteJsonSync_def Let_def split: if_splits)
qed

section \<open>Transactions under the lock\<close>

text \<open>What is assumed of the JSON library: no value reads from a blank text, and what is written reads back.\<close>

definition json_codec :: "(string \<Rightarrow> json option) \<Rightarrow> (json \<Rightarrow> string) \<Rightarrow> (json \<Rightarrow> bool) \<Rightarrow> bool" where
  "json_codec json_parse stringify known \<longleftrightarrow>
     (\<forall>raw. js_trim raw = [] \<longrightarrow> json_parse raw = None) \<and> (\<forall>v. known v \<longrightarrow> json_parse (stringify v @ [CHR 0x0A]) = Some v)"

text \<open>A value the updates make: it is one the codec keeps and the validator accepts.\<close>

definition accepted :: "(json \<Rightarrow> bool) option \<Rightarrow> json \<Rightarrow> bool" where
  "accepted validator v \<longleftrightarrow> (case validator of Some ok \<Rightarrow> ok v | None \<Rightarrow> True)"

lemma written_reads:
  assumes "json_codec json_parse stringify known" "known v" "accepted validator v"
  shows "readTransactionJsonSync json_parse validator (reading_of (Some (stringify v @ [CHR 0x0A]))) = Inr (Some v)"
proof -
  have parsed: "json_parse (stringify v @ [CHR 0x0A]) = Some v" using assms(1,2) by (simp add: json_codec_def)
  then have "js_trim (stringify v @ [CHR 0x0A]) \<noteq> []" using assms(1) by (auto simp: json_codec_def)
  then show ?thesis using parsed assms(3)
    by (auto simp: readTransactionJsonSync_def reading_of_def accepted_def split: option.split)
qed

text \<open>The value after the calls that committed, one after another.\<close>

definition serial :: "(string \<Rightarrow> json option \<Rightarrow> json option) \<Rightarrow> string list \<Rightarrow> json option \<Rightarrow> json option" where
  "serial update calls current = fold (\<lambda>p cur. case update p cur of Some v \<Rightarrow> Some v | None \<Rightarrow> cur) calls current"

lemma committed_serial:
  assumes codec: "json_codec json_parse stringify known"
    and updates: "\<forall>p cur v. update p cur = Some v \<longrightarrow> known v \<and> accepted validator v"
    and "readTransactionJsonSync json_parse validator (reading_of stored) = Inr current"
  shows "readTransactionJsonSync json_parse validator
      (reading_of (committed (\<lambda>p. transactionalUpdateJsonSync json_parse stringify validator (update p)) calls stored)) = Inr (serial update calls current)"
  using assms(3)
proof (induction calls arbitrary: stored current)
  case (Cons p calls)
  let ?work = "\<lambda>p. transactionalUpdateJsonSync json_parse stringify validator (update p)"
  define stored1 where "stored1 = (case ?work p stored of Some g \<Rightarrow> g | None \<Rightarrow> stored)"
  define current1 where "current1 = (case update p current of Some v \<Rightarrow> Some v | None \<Rightarrow> current)"
  have "readTransactionJsonSync json_parse validator (reading_of stored1) = Inr current1"
  proof (cases "update p current")
    case None
    then show ?thesis using Cons.prems by (simp add: stored1_def current1_def transactionalUpdateJsonSync_def)
  next
    case (Some v)
    then have "known v" "accepted validator v" using updates by blast+
    from written_reads [OF codec this] show ?thesis using Some Cons.prems
      by (simp add: stored1_def current1_def transactionalUpdateJsonSync_def)
  qed
  from Cons.IH [OF this] show ?case by (simp add: committed_def serial_def stored1_def current1_def)
qed (simp add: committed_def serial_def)

text \<open>C31. Transactions are serial: any number of processes run transactions on one file, under its lock, interleaved in every way, with
  crashes and failing system calls; in every world they reach, the file reads as the value that the updates which committed give
  one after another, in the order of their commits, each on the value the one before left, and each once.\<close>

theorem transactions_are_serial:
  assumes codec: "json_codec json_parse stringify known"
    and updates: "\<forall>p cur v. update p cur = Some v \<longrightarrow> known v \<and> accepted validator v"
    and start: "lock_start w0" "readTransactionJsonSync json_parse validator (reading_of (lw_file w0)) = Inr current"
    and run: "lock_reach opts (\<lambda>p. transactionalUpdateJsonSync json_parse stringify validator (update p)) w0 w"
  shows "readTransactionJsonSync json_parse validator (reading_of (lw_file w)) = Inr (serial update (lw_log w) current) \<and> distinct (lw_log w)"
  using reach_committed [OF run start(1)] committed_serial [OF codec updates start(2), of "lw_log w"] by simp

text \<open>A codec for lists of nulls, two calls that each add one, one after the other.\<close>

definition tally_text :: "json \<Rightarrow> string" where
  "tally_text v = (case v of JArr xs \<Rightarrow> CHR ''['' # replicate (length xs) CHR ''x'' | _ \<Rightarrow> [])"

definition tally_parse :: "string \<Rightarrow> json option" where
  "tally_parse raw = (if js_trim raw = [] then None else Some (JArr (replicate (length (filter (\<lambda>c. c = CHR ''x'') raw)) JNull)))"

definition tally :: "json \<Rightarrow> bool" where
  "tally v \<longleftrightarrow> (case v of JArr xs \<Rightarrow> set xs \<subseteq> {JNull} | _ \<Rightarrow> False)"

definition tally_update :: "string \<Rightarrow> json option \<Rightarrow> json option" where
  "tally_update p cur = Some (JArr (replicate (case cur of Some (JArr xs) \<Rightarrow> Suc (length xs) | _ \<Rightarrow> 1) JNull))"

definition empty_world :: lock_world where
  "empty_world = \<lparr>lw_dir = None, lw_file = None, lw_phase = (\<lambda>p. Outside), lw_started = (\<lambda>p. 0), lw_log = []\<rparr>"

definition two_tallies :: lock_world where
  "two_tallies = (let go = alone plain_options (\<lambda>p. transactionalUpdateJsonSync tally_parse tally_text None (tally_update p)) in
     go ''q'' 1 (replicate 4 Proceed) (go ''p'' 0 (replicate 8 Proceed) empty_world))"

lemma js_trim_bracket: "js_trim (CHR ''['' # s) \<noteq> []"
proof -
  have "\<not> js_space CHR ''[''" by (simp add: js_space_def)
  then have "dropWhile js_space (rev s @ [CHR ''['']) \<noteq> []" by (simp add: dropWhile_eq_Nil_conv)
  then show ?thesis using \<open>\<not> js_space _\<close> by (simp add: js_trim_def)
qed

lemma tally_codec: "json_codec tally_parse tally_text tally"
proof -
  have "tally_parse (tally_text v @ [CHR 0x0A]) = Some v" if known: "tally v" for v
  proof -
    obtain xs where v: "v = JArr xs" "set xs \<subseteq> {JNull}" using known by (auto simp: tally_def split: json.splits)
    then have "replicate (length xs) JNull = xs" by (intro replicate_eqI [symmetric]) auto
    then show ?thesis using js_trim_bracket by (simp add: tally_parse_def tally_text_def v(1))
  qed
  then show ?thesis by (simp add: json_codec_def tally_parse_def)
qed

lemma tally_updates: "\<forall>p cur v. tally_update p cur = Some v \<longrightarrow> tally v \<and> accepted None v"
  by (auto simp: tally_update_def tally_def accepted_def)

lemma empty_starts: "lock_start empty_world"
  by (simp add: lock_start_def empty_world_def)

lemma two_tallies_reached:
  "lock_reach plain_options (\<lambda>p. transactionalUpdateJsonSync tally_parse tally_text None (tally_update p)) empty_world two_tallies"
  unfolding two_tallies_def Let_def by (intro alone_reach lock_reach.here) simp_all

lemma transactions_are_serial_witness:
  "readTransactionJsonSync tally_parse None (reading_of (lw_file two_tallies)) = Inr (serial tally_update (lw_log two_tallies) None) \<and>
   distinct (lw_log two_tallies)"
  by (rule transactions_are_serial [OF tally_codec tally_updates empty_starts _ two_tallies_reached])
    (simp add: empty_world_def reading_of_def readTransactionJsonSync_def)

section \<open>The journal's transactions\<close>

text \<open>The job journal's transaction on the value of its file is this transaction on its text, with the validator's answer in place of
  the test of the value.\<close>

definition journal_update :: "(journal_row list \<Rightarrow> journal_row list) \<Rightarrow> json option \<Rightarrow> json option" where
  "journal_update u current = Some (journal_file (u (case current of None \<Rightarrow> [] | Some f \<Rightarrow> valid_rows (file_jobs f))))"

lemma journal_transaction_refined:
  "transactionalUpdateJsonSync json_parse stringify (Some isJournalFile) (journal_update u) stored =
     (case readTransactionJsonSync json_parse None (reading_of stored) of
        Inl err \<Rightarrow> None
      | Inr current \<Rightarrow> map_option (\<lambda>f. Some (stringify f @ [CHR 0x0A])) (journal_transaction True current u))"
  by (auto simp: transactionalUpdateJsonSync_def readTransactionJsonSync_def reading_of_def journal_update_def journal_transaction_def
      split: option.splits)

end
