(* ===== verification/Lane_Activity.thy ===== *)
theory Lane_Activity
  imports JsData
begin

text \<open>
  The live traffic of dispatched lanes (\<^verbatim>\<open>lane-activity.ts\<close>): a bounded memory from tags to counts of requests, in the order of
  their last activity, and the requests that are open. The requests are the handles that \<^verbatim>\<open>beginLaneRequest\<close> has given out.
\<close>

section \<open>The records\<close>

record lane_traffic =
  tr_inFlight :: int
  tr_requests :: nat
  tr_lastActivityAt :: rat

definition MAX_LANE_ACTIVITY_TAGS :: nat where "MAX_LANE_ACTIVITY_TAGS = 1000"

text \<open>\<^verbatim>\<open>/^[A-Za-z0-9_-]{8,64}$/\<close>, and the tag of a header value, a single one or the first of a list.\<close>

definition tag_char :: "char \<Rightarrow> bool" where
  "tag_char c = (let n = of_char c :: nat in
     (65 \<le> n \<and> n \<le> 90) \<or> (97 \<le> n \<and> n \<le> 122) \<or> (48 \<le> n \<and> n \<le> 57) \<or> n = 95 \<or> n = 45)"

definition laneActivityTag :: "string list \<Rightarrow> string option" where
  "laneActivityTag values =
     (case values of
        [] \<Rightarrow> None
      | raw # rest \<Rightarrow> (let tag = js_trim raw in if 8 \<le> length tag \<and> length tag \<le> 64 \<and> list_all tag_char tag then Some tag else None))"

definition LANE_ACTIVITY_HEADER :: string where "LANE_ACTIVITY_HEADER = ''x-llm-relay-lane-activity''"

definition is_lane_header :: "string \<Rightarrow> bool" where
  "is_lane_header line \<longleftrightarrow> CHR '':'' \<in> set line \<and> toLowerCase (js_trim (takeWhile (\<lambda>c. c \<noteq> CHR '':'') line)) = LANE_ACTIVITY_HEADER"

definition withLaneActivityHeader :: "string option \<Rightarrow> string \<Rightarrow> string" where
  "withLaneActivityHeader existing tag =
     (let line = LANE_ACTIVITY_HEADER @ '': '' @ tag in
      case existing of
        None \<Rightarrow> line
      | Some v \<Rightarrow> if js_trim v = [] then line
          else join_with [LF] (filter (\<lambda>l. \<not> is_lane_header l) (split_lf (unix_eol v)) @ [line]))"

text \<open>Room for a new tag: the least recently active record without a request is dropped, or the oldest when all have one.\<close>

definition forget_one :: "(string, lane_traffic) jmap \<Rightarrow> (string, lane_traffic) jmap" where
  "forget_one m =
     (case find (\<lambda>e. tr_inFlight (snd e) = 0) m of
        Some e \<Rightarrow> jm_del (fst e) m
      | None \<Rightarrow> (case m of [] \<Rightarrow> [] | e # rest \<Rightarrow> jm_del (fst e) m))"

definition touch_lane :: "string \<Rightarrow> rat \<Rightarrow> int \<Rightarrow> bool \<Rightarrow> (string, lane_traffic) jmap \<Rightarrow> (string, lane_traffic) jmap" where
  "touch_lane tag now change request m =
     (let (m1, r) = (case jm_get m tag of
            None \<Rightarrow> (if MAX_LANE_ACTIVITY_TAGS \<le> length m then forget_one m else m,
                     \<lparr>tr_inFlight = 0, tr_requests = 0, tr_lastActivityAt = now\<rparr>)
          | Some r \<Rightarrow> (jm_del tag m, r))
      in jm_put tag \<lparr>tr_inFlight = max 0 (tr_inFlight r + change), tr_requests = (if request then tr_requests r + 1 else tr_requests r),
           tr_lastActivityAt = max (tr_lastActivityAt r) now\<rparr> m1)"

section \<open>Requests\<close>

text \<open>The handles: the tag, and whether the request is open.\<close>

record lane_activity =
  lv_records :: "(string, lane_traffic) jmap"
  lv_requests :: "(string \<times> bool) list"

definition beginLaneRequest :: "string \<Rightarrow> rat \<Rightarrow> lane_activity \<Rightarrow> lane_activity" where
  "beginLaneRequest tag now s = \<lparr>lv_records = touch_lane tag now 1 True (lv_records s), lv_requests = lv_requests s @ [(tag, True)]\<rparr>"

definition lane_wrote :: "nat \<Rightarrow> rat \<Rightarrow> lane_activity \<Rightarrow> lane_activity" where
  "lane_wrote i now s =
     (if i < length (lv_requests s) \<and> snd (lv_requests s ! i)
      then s\<lparr>lv_records := touch_lane (fst (lv_requests s ! i)) now 0 False (lv_records s)\<rparr> else s)"

definition lane_ended :: "nat \<Rightarrow> rat \<Rightarrow> lane_activity \<Rightarrow> lane_activity" where
  "lane_ended i now s =
     (if i < length (lv_requests s) \<and> snd (lv_requests s ! i)
      then \<lparr>lv_records = touch_lane (fst (lv_requests s ! i)) now (- 1) False (lv_records s),
            lv_requests = (lv_requests s)[i := (fst (lv_requests s ! i), False)]\<rparr>
      else s)"

definition readLaneActivity :: "string \<Rightarrow> lane_activity \<Rightarrow> lane_traffic option" where
  "readLaneActivity tag s = jm_get (lv_records s) tag"

datatype lane_event = Begin string rat | Wrote nat rat | Ended nat rat

definition lane_event_step :: "lane_event \<Rightarrow> lane_activity \<Rightarrow> lane_activity" where
  "lane_event_step e s = (case e of Begin tag now \<Rightarrow> beginLaneRequest tag now s | Wrote i now \<Rightarrow> lane_wrote i now s | Ended i now \<Rightarrow> lane_ended i now s)"

section \<open>The counts are exact\<close>

definition open_count :: "string \<Rightarrow> (string \<times> bool) list \<Rightarrow> nat" where
  "open_count tag requests = length (filter (\<lambda>r. r = (tag, True)) requests)"

definition open_tags :: "(string \<times> bool) list \<Rightarrow> string set" where
  "open_tags requests = fst ` set (filter snd requests)"

text \<open>What holds of the memory while no more tags are open than it has room for.\<close>

definition activity_inv :: "lane_activity \<Rightarrow> bool" where
  "activity_inv s \<longleftrightarrow> jm_ok (lv_records s) \<and> length (lv_records s) \<le> MAX_LANE_ACTIVITY_TAGS \<and>
     (\<forall>tag. case jm_get (lv_records s) tag of
        None \<Rightarrow> open_count tag (lv_requests s) = 0
      | Some r \<Rightarrow> tr_inFlight r = int (open_count tag (lv_requests s)))"

lemma open_count_tags: "open_count tag requests \<noteq> 0 \<longleftrightarrow> tag \<in> open_tags requests"
  by (force simp: open_count_def open_tags_def filter_empty_conv)

lemma forget_get: "jm_get (forget_one m) k = Some r \<Longrightarrow> jm_get m k = Some r"
  by (auto simp: forget_one_def jm_laws split: option.splits list.splits if_splits)

lemma shrink_del: "jm_get m k \<noteq> None \<Longrightarrow> length (jm_del k m) < length m"
proof -
  assume "jm_get m k \<noteq> None"
  then have "k \<in> fst ` set m" by (metis jm_get_None)
  then obtain e where e: "e \<in> set m" "\<not> fst e \<noteq> k" by auto
  have "length (filter (\<lambda>e. fst e \<noteq> k) m) < length m" using length_filter_less [of e m "\<lambda>e. fst e \<noteq> k"] e by simp
  moreover have "jm_del k m = filter (\<lambda>e. fst e \<noteq> k) m" unfolding jm_del_def AList.delete_eq by (rule filter_cong) auto
  ultimately show ?thesis by simp
qed

lemma grow_put: "length (jm_put k v m) = (if jm_get m k = None then Suc (length m) else length m)"
  by (induction m) (auto split: if_splits)

text \<open>A full memory in which every tag has a request has as many open tags as it has room.\<close>

lemma full_means_open:
  assumes inv: "activity_inv s" and full: "MAX_LANE_ACTIVITY_TAGS \<le> length (lv_records s)"
    and busy: "\<forall>e \<in> set (lv_records s). tr_inFlight (snd e) \<noteq> 0"
  shows "MAX_LANE_ACTIVITY_TAGS \<le> card (open_tags (lv_requests s))"
proof -
  have "fst ` set (lv_records s) \<subseteq> open_tags (lv_requests s)"
  proof
    fix tag assume "tag \<in> fst ` set (lv_records s)"
    then obtain r where r: "(tag, r) \<in> set (lv_records s)" by auto
    then have got: "jm_get (lv_records s) tag = Some r" using inv by (intro jm_in_get) (simp_all add: activity_inv_def)
    have "tr_inFlight r \<noteq> 0" using busy r by force
    moreover have "tr_inFlight r = int (open_count tag (lv_requests s))" using inv got by (auto simp: activity_inv_def dest: spec [of _ tag])
    ultimately show "tag \<in> open_tags (lv_requests s)" using open_count_tags by simp
  qed
  moreover have "finite (open_tags (lv_requests s))" by (simp add: open_tags_def)
  ultimately have "card (fst ` set (lv_records s)) \<le> card (open_tags (lv_requests s))" by (intro card_mono)
  moreover have "card (fst ` set (lv_records s)) = length (lv_records s)"
    using inv distinct_card [of "map fst (lv_records s)"] by (simp add: activity_inv_def jm_ok_def)
  ultimately show ?thesis using full by simp
qed

text \<open>Forgetting, while the memory has an idle tag, forgets an idle one.\<close>

lemma forget_idle:
  assumes "jm_ok m" "\<exists>e \<in> set m. tr_inFlight (snd e) = 0"
  shows "\<exists>tag r. jm_get m tag = Some r \<and> tr_inFlight r = 0 \<and> forget_one m = jm_del tag m"
proof -
  obtain e where e: "find (\<lambda>e. tr_inFlight (snd e) = 0) m = Some e"
    using assms(2) by (cases "find (\<lambda>e. tr_inFlight (snd e) = 0) m") (auto simp: find_None_iff)
  then have "e \<in> set m" "tr_inFlight (snd e) = 0" by (auto simp: find_Some_iff)
  moreover have "jm_get m (fst e) = Some (snd e)" using jm_in_get [OF assms(1), of "fst e" "snd e"] \<open>e \<in> set m\<close> by simp
  ultimately show ?thesis using e by (auto simp: forget_one_def)
qed

text \<open>A touch of a tag, when the memory has room for it or an idle tag to forget, counts exactly and keeps every tag that is open.\<close>

lemma touch_counts:
  assumes inv: "activity_inv s"
    and room: "jm_get (lv_records s) tag = None \<Longrightarrow> card (open_tags (lv_requests s)) < MAX_LANE_ACTIVITY_TAGS"
    and other: "\<And>k. k \<noteq> tag \<Longrightarrow> open_count k requests = open_count k (lv_requests s)"
    and own: "int (open_count tag requests) = int (open_count tag (lv_requests s)) + change"
  shows "activity_inv \<lparr>lv_records = touch_lane tag now change b (lv_records s), lv_requests = requests\<rparr>"
proof -
  let ?m = "lv_records s"
  define m1 where "m1 = (case jm_get ?m tag of None \<Rightarrow> (if MAX_LANE_ACTIVITY_TAGS \<le> length ?m then forget_one ?m else ?m) | Some r \<Rightarrow> jm_del tag ?m)"
  define r where "r = (case jm_get ?m tag of None \<Rightarrow> \<lparr>tr_inFlight = 0, tr_requests = 0, tr_lastActivityAt = now\<rparr> | Some r \<Rightarrow> r)"
  have touched: "\<exists>x. touch_lane tag now change b ?m = jm_put tag x m1 \<and> tr_inFlight x = max 0 (tr_inFlight r + change)"
    by (auto simp: touch_lane_def m1_def r_def split: option.split)
  have ok: "jm_ok ?m" "length ?m \<le> MAX_LANE_ACTIVITY_TAGS" using inv by (simp_all add: activity_inv_def)
  have exact: "case jm_get ?m k of None \<Rightarrow> open_count k (lv_requests s) = 0 | Some x \<Rightarrow> tr_inFlight x = int (open_count k (lv_requests s))" for k
    using inv by (simp add: activity_inv_def)
  have idle: "\<exists>k x. jm_get ?m k = Some x \<and> tr_inFlight x = 0 \<and> forget_one ?m = jm_del k ?m"
    if "jm_get ?m tag = None" "MAX_LANE_ACTIVITY_TAGS \<le> length ?m"
    using forget_idle [OF ok(1)] full_means_open [OF inv that(2)] room [OF that(1)] by (meson not_le)
  have count: "tr_inFlight r = int (open_count tag (lv_requests s))"
    using exact [of tag] by (auto simp: r_def split: option.splits)
  have m1: "jm_ok m1 \<and> length m1 < MAX_LANE_ACTIVITY_TAGS \<and> jm_get m1 tag = None \<and>
      (\<forall>k. k \<noteq> tag \<longrightarrow> (case jm_get m1 k of None \<Rightarrow> open_count k (lv_requests s) = 0 | Some x \<Rightarrow> tr_inFlight x = int (open_count k (lv_requests s))))"
  proof (cases "jm_get ?m tag")
    case (Some x)
    then show ?thesis using ok shrink_del [of ?m tag] exact by (simp add: m1_def jm_laws)
  next
    case None
    show ?thesis
    proof (cases "MAX_LANE_ACTIVITY_TAGS \<le> length ?m")
      case False
      then show ?thesis using None ok exact by (simp add: m1_def)
    next
      case True
      obtain k x where k: "jm_get ?m k = Some x" "tr_inFlight x = 0" "forget_one ?m = jm_del k ?m" using idle [OF None True] by blast
      then have "open_count k (lv_requests s) = 0" using exact [of k] by simp
      then show ?thesis using k None True ok exact shrink_del [of ?m k] by (simp add: m1_def jm_laws split: option.split)
    qed
  qed
  obtain x where x: "touch_lane tag now change b ?m = jm_put tag x m1" "tr_inFlight x = int (open_count tag requests)"
    using touched count own by auto
  have "case jm_get (jm_put tag x m1) k of None \<Rightarrow> open_count k requests = 0 | Some y \<Rightarrow> tr_inFlight y = int (open_count k requests)" for k
  proof (cases "k = tag")
    case True
    then show ?thesis using x(2) by (simp add: jm_laws)
  next
    case False
    then have "case jm_get m1 k of None \<Rightarrow> open_count k (lv_requests s) = 0 | Some y \<Rightarrow> tr_inFlight y = int (open_count k (lv_requests s))"
      using m1 by blast
    then show ?thesis using False other [OF False] by (cases "jm_get m1 k") (simp_all add: jm_laws)
  qed
  moreover have "jm_ok (jm_put tag x m1)" "length (jm_put tag x m1) \<le> MAX_LANE_ACTIVITY_TAGS" using m1 by (simp_all add: jm_laws grow_put)
  ultimately show ?thesis unfolding activity_inv_def x(1) lane_activity.select_convs by blast
qed

section \<open>Reachable memories\<close>

lemma open_count_snoc: "open_count k (requests @ [(tag, True)]) = open_count k requests + (if k = tag then 1 else 0)"
  by (auto simp: open_count_def)

lemma open_count_close:
  assumes "i < length requests" "requests ! i = (tag, True)"
  shows "open_count k requests = open_count k (requests[i := (tag, False)]) + (if k = tag then 1 else 0)"
proof -
  have split: "requests = take i requests @ (tag, True) # drop (Suc i) requests" using id_take_nth_drop [OF assms(1)] assms(2) by simp
  have changed: "requests[i := (tag, False)] = take i requests @ (tag, False) # drop (Suc i) requests"
    by (rule upd_conv_take_nth_drop [OF assms(1)])
  show ?thesis unfolding changed by (subst split) (auto simp: open_count_def)
qed

lemma open_has_record:
  assumes "activity_inv s" "i < length (lv_requests s)" "lv_requests s ! i = (tag, True)"
  shows "jm_get (lv_records s) tag \<noteq> None"
proof -
  have "(tag, True) \<in> set (filter (\<lambda>r. r = (tag, True)) (lv_requests s))" using nth_mem [OF assms(2)] assms(3) by simp
  then have "open_count tag (lv_requests s) \<noteq> 0" unfolding open_count_def by (metis length_0_conv empty_iff list.set(1))
  moreover have "case jm_get (lv_records s) tag of None \<Rightarrow> open_count tag (lv_requests s) = 0 | Some r \<Rightarrow> tr_inFlight r = int (open_count tag (lv_requests s))"
    using assms(1) unfolding activity_inv_def by blast
  ultimately show ?thesis by (cases "jm_get (lv_records s) tag") simp_all
qed

text \<open>An event is within bounds when a new tag finds fewer open tags than the memory has room for.\<close>

fun within_bounds :: "lane_event \<Rightarrow> lane_activity \<Rightarrow> bool" where
  "within_bounds (Begin tag now) s = (card (open_tags (lv_requests s)) < MAX_LANE_ACTIVITY_TAGS)"
| "within_bounds e s = True"

inductive activity_reach :: "lane_activity \<Rightarrow> bool" where
  start: "activity_reach \<lparr>lv_records = [], lv_requests = []\<rparr>"
| step: "activity_reach s \<Longrightarrow> within_bounds e s \<Longrightarrow> activity_reach (lane_event_step e s)"

lemma wrote_inv: "activity_inv s \<Longrightarrow> activity_inv (lane_wrote i now s)"
proof -
  assume inv: "activity_inv s"
  show ?thesis
  proof (cases "i < length (lv_requests s) \<and> snd (lv_requests s ! i)")
    case True
    then obtain tag where tag: "lv_requests s ! i = (tag, True)" by (cases "lv_requests s ! i") simp
    have "lane_wrote i now s = \<lparr>lv_records = touch_lane tag now 0 False (lv_records s), lv_requests = lv_requests s\<rparr>"
      using True tag by (cases s) (simp add: lane_wrote_def)
    moreover have "activity_inv \<lparr>lv_records = touch_lane tag now 0 False (lv_records s), lv_requests = lv_requests s\<rparr>"
      using open_has_record [OF inv _ tag] True by (intro touch_counts [OF inv]) simp_all
    ultimately show ?thesis by simp
  qed (use inv in \<open>auto simp: lane_wrote_def\<close>)
qed

lemma ended_inv: "activity_inv s \<Longrightarrow> activity_inv (lane_ended i now s)"
proof -
  assume inv: "activity_inv s"
  show ?thesis
  proof (cases "i < length (lv_requests s) \<and> snd (lv_requests s ! i)")
    case True
    then obtain tag where tag: "lv_requests s ! i = (tag, True)" by (cases "lv_requests s ! i") simp
    have ended: "lane_ended i now s = \<lparr>lv_records = touch_lane tag now (- 1) False (lv_records s), lv_requests = (lv_requests s)[i := (tag, False)]\<rparr>"
      using True tag by (simp add: lane_ended_def)
    have counts: "open_count k (lv_requests s) = open_count k ((lv_requests s)[i := (tag, False)]) + (if k = tag then 1 else 0)" for k
      using True by (intro open_count_close [OF _ tag]) simp
    show ?thesis unfolding ended
    proof (rule touch_counts [OF inv])
      show "card (open_tags (lv_requests s)) < MAX_LANE_ACTIVITY_TAGS" if "jm_get (lv_records s) tag = None"
        using open_has_record [OF inv _ tag] True that by blast
    qed (use counts in simp_all)
  qed (use inv in \<open>auto simp: lane_ended_def\<close>)
qed

lemma activity_reach_inv: "activity_reach s \<Longrightarrow> activity_inv s"
proof (induction rule: activity_reach.induct)
  case start
  then show ?case by (simp add: activity_inv_def open_count_def)
next
  case (step s e)
  show ?case
  proof (cases e)
    case (Begin tag now)
    then have "card (open_tags (lv_requests s)) < MAX_LANE_ACTIVITY_TAGS" using step.hyps(2) by simp
    then have "activity_inv \<lparr>lv_records = touch_lane tag now 1 True (lv_records s), lv_requests = lv_requests s @ [(tag, True)]\<rparr>"
      by (intro touch_counts [OF step.IH]) (simp_all add: open_count_snoc)
    then show ?thesis using Begin by (simp add: lane_event_step_def beginLaneRequest_def)
  qed (use wrote_inv [OF step.IH] ended_inv [OF step.IH] in \<open>simp_all add: lane_event_step_def\<close>)
qed

text \<open>C33. The traffic of a lane is counted exactly: through any sequence of requests, writes and ends, calls after the end included,
  the number in flight that is read for a tag is the number of its requests that began and did not end, a tag with such a request
  always has its record, and the memory never holds more than a thousand tags, for as long as a request begins only while fewer
  than a thousand tags are open.\<close>

theorem lane_traffic_exact:
  assumes "activity_reach s"
  shows "(case readLaneActivity tag s of
      None \<Rightarrow> open_count tag (lv_requests s) = 0
    | Some r \<Rightarrow> tr_inFlight r = int (open_count tag (lv_requests s))) \<and> length (lv_records s) \<le> MAX_LANE_ACTIVITY_TAGS"
  using activity_reach_inv [OF assms] by (simp add: activity_inv_def readLaneActivity_def)

definition two_requests :: lane_activity where
  "two_requests = lane_event_step (Ended 0 9) (lane_event_step (Begin ''laneaaaa'' 5) (lane_event_step (Begin ''laneaaaa'' 3) \<lparr>lv_records = [], lv_requests = []\<rparr>))"

lemma two_requests_reached: "activity_reach two_requests"
  unfolding two_requests_def
  by (intro activity_reach.step activity_reach.start)
    (simp_all add: lane_event_step_def beginLaneRequest_def open_tags_def MAX_LANE_ACTIVITY_TAGS_def)

lemma lane_traffic_exact_witness:
  "case readLaneActivity ''laneaaaa'' two_requests of None \<Rightarrow> False | Some r \<Rightarrow> tr_inFlight r = 1"
proof -
  have "open_count ''laneaaaa'' (lv_requests two_requests) = 1"
    by (simp add: two_requests_def lane_event_step_def beginLaneRequest_def lane_ended_def open_count_def)
  then show ?thesis using lane_traffic_exact [OF two_requests_reached, of "''laneaaaa''"] by (auto split: option.splits)
qed

section \<open>The header\<close>

lemma tag_has_no_break: "laneActivityTag values = Some tag \<Longrightarrow> LF \<notin> set tag"
  by (auto simp: laneActivityTag_def tag_char_def Let_def list_all_iff split: list.splits if_splits)

lemma split_lf_lines: "l \<in> set (split_lf v) \<Longrightarrow> LF \<notin> set l"
  by (induction v arbitrary: l) (auto split: if_splits list.splits)

text \<open>The header is added once: of the lines that are passed on, one is this header, the last, with the tag given; every other
  header of the inherited value is kept in its order.\<close>

lemma lane_header_once:
  assumes "laneActivityTag values = Some tag" "js_trim existing \<noteq> []"
  shows "split_lf (withLaneActivityHeader (Some existing) tag) =
    filter (\<lambda>l. \<not> is_lane_header l) (split_lf (unix_eol existing)) @ [LANE_ACTIVITY_HEADER @ '': '' @ tag]"
proof -
  let ?lines = "filter (\<lambda>l. \<not> is_lane_header l) (split_lf (unix_eol existing)) @ [LANE_ACTIVITY_HEADER @ '': '' @ tag]"
  have "\<forall>l \<in> set ?lines. LF \<notin> set l"
    using split_lf_lines tag_has_no_break [OF assms(1)] by (auto simp: LANE_ACTIVITY_HEADER_def)
  then have "split_lf (join_with [LF] ?lines) = ?lines" by (intro split_lf_join) simp_all
  then show ?thesis using assms(2) by (simp add: withLaneActivityHeader_def)
qed

end
