(* ===== verification/Lane_Stats_Props.thy ===== *)
theory Lane_Stats_Props
  imports Lane_Stats
begin

text \<open>
  The statistics of a lane are the tally of its reports; what the file holds comes back; and the order statistics of a window
  are what their names say.
\<close>

section \<open>The tally of a history\<close>

type_synonym lane_history = "(telemetry_report \<times> rat) list"

definition record_all :: "(rat \<Rightarrow> string) \<Rightarrow> lane_history \<Rightarrow> lane_memory \<Rightarrow> lane_memory" where
  "record_all stamp hs m = fold (\<lambda>(r, now). recordLaneRun stamp r now) hs m"

definition empty_memory :: lane_memory where
  "empty_memory = \<lparr>lm_stats = [], lm_notified = 0\<rparr>"

definition with_status :: "(lane_run_status \<Rightarrow> bool) \<Rightarrow> lane_history \<Rightarrow> lane_history" where
  "with_status P hs = filter (\<lambda>(r, now). P (tr_status r)) hs"

abbreviation completed_runs :: "lane_history \<Rightarrow> lane_history" where
  "completed_runs hs \<equiv> with_status (\<lambda>s. s = Completed) hs"

text \<open>The failures since the last success; an abandoned run is not one of them.\<close>

definition failing_streak :: "lane_history \<Rightarrow> nat" where
  "failing_streak hs = length (with_status (\<lambda>s. s \<noteq> Abandoned) (takeWhile (\<lambda>(r, now). tr_status r \<noteq> Completed) (rev hs)))"

definition tally :: "(rat \<Rightarrow> string) \<Rightarrow> string \<Rightarrow> string option \<Rightarrow> dispatch_mode option \<Rightarrow> lane_history \<Rightarrow> lane_stats" where
  "tally stamp laneId tier mode hs =
     \<lparr>ls_laneId = laneId, ls_tier = tier, ls_mode = mode, ls_calls = length hs, ls_successes = length (completed_runs hs),
      ls_failures = length (with_status (\<lambda>s. s \<noteq> Completed) hs), ls_timeouts = length (with_status (\<lambda>s. s = TimedOut) hs),
      ls_consecutiveFailures = failing_streak hs,
      ls_lastSuccessAt = (if completed_runs hs = [] then None else Some (snd (last (completed_runs hs)))),
      ls_wallClockMs = last_n MAX_LANE_STAT_SAMPLES (map (\<lambda>(r, now). tr_wallClockMs r) (completed_runs hs)),
      ls_wallClockAt = last_n MAX_LANE_STAT_SAMPLES (map (\<lambda>(r, now). Some (stamp now)) (completed_runs hs)),
      ls_lastAt = (if hs = [] then None else Some (snd (last hs)))\<rparr>"

lemma with_status_snoc [simp]:
  "with_status P [] = []" "with_status P (hs @ [(r, now)]) = with_status P hs @ (if P (tr_status r) then [(r, now)] else [])"
  by (simp_all add: with_status_def)

lemma failing_streak_snoc:
  "failing_streak [] = 0"
  "failing_streak (hs @ [(r, now)]) =
     (if tr_status r = Completed then 0 else (if tr_status r = Abandoned then 0 else 1) + failing_streak hs)"
  by (simp_all add: failing_streak_def with_status_def)

lemma trim_last_n:
  assumes "0 < n"
  shows "last_n n (xs @ [x]) = (if n < length (last_n n xs @ [x]) then drop (length (last_n n xs @ [x]) - n) (last_n n xs @ [x])
    else last_n n xs @ [x])"
  using assms by (cases "n \<le> length xs") (auto simp: last_n_def Suc_diff_le)

lemma length_last_n [simp]: "length (last_n n xs) = min n (length xs)"
  by (simp add: last_n_def)

lemma last_n_Nil [simp]: "last_n n [] = []"
  by (simp add: last_n_def)

lemma trim_window_tally:
  "length ws = length vs \<Longrightarrow>
   trim_window (e\<lparr>ls_wallClockMs := last_n MAX_LANE_STAT_SAMPLES vs @ [v], ls_wallClockAt := last_n MAX_LANE_STAT_SAMPLES ws @ [w]\<rparr>) =
     e\<lparr>ls_wallClockMs := last_n MAX_LANE_STAT_SAMPLES (vs @ [v]), ls_wallClockAt := last_n MAX_LANE_STAT_SAMPLES (ws @ [w])\<rparr>"
  using trim_last_n [of MAX_LANE_STAT_SAMPLES vs v] trim_last_n [of MAX_LANE_STAT_SAMPLES ws w]
  by (auto simp: trim_window_def MAX_LANE_STAT_SAMPLES_def Let_def)

lemma tally_snoc:
  "run_recorded stamp r now (tally stamp laneId tier mode hs) = tally stamp laneId tier mode (hs @ [(r, now)])"
proof (cases "tr_status r = Completed")
  case True
  let ?e = "tally stamp laneId tier mode hs"
  have "run_recorded stamp r now ?e = (trim_window (?e\<lparr>ls_calls := length hs + 1, ls_successes := length (completed_runs hs) + 1,
      ls_consecutiveFailures := 0, ls_lastSuccessAt := Some now,
      ls_wallClockMs := last_n MAX_LANE_STAT_SAMPLES (map (\<lambda>(r, now). tr_wallClockMs r) (completed_runs hs)) @ [tr_wallClockMs r],
      ls_wallClockAt := last_n MAX_LANE_STAT_SAMPLES (map (\<lambda>(r, now). Some (stamp now)) (completed_runs hs)) @ [Some (stamp now)]\<rparr>))
      \<lparr>ls_lastAt := Some now\<rparr>"
    using True by (simp add: run_recorded_def count_run_def tally_def)
  also have "\<dots> = tally stamp laneId tier mode (hs @ [(r, now)])"
    using True by (subst trim_window_tally) (simp_all add: tally_def failing_streak_snoc)
  finally show ?thesis .
next
  case False
  have "trim_window e = e" if "length (ls_wallClockMs e) \<le> MAX_LANE_STAT_SAMPLES" for e :: lane_stats
    using that by (simp add: trim_window_def)
  then show ?thesis using False
    by (cases "tr_status r") (simp_all add: run_recorded_def count_run_def tally_def failing_streak_snoc)
qed

definition runs_of :: "string \<Rightarrow> lane_history \<Rightarrow> lane_history" where
  "runs_of key hs = filter (\<lambda>(r, now). report_key r = key) hs"

text \<open>After any history of reports the statistics under a key are the tally of the reports with that key: every counter counts
  them, the streak is the failures since the last success with the abandoned runs left out, the window holds the durations and
  the stamps of the last hundred successes, and a key without a report has no entry.\<close>

theorem stats_are_tally:
  "jm_get (lm_stats (record_all stamp hs empty_memory)) key =
     (case runs_of key hs of
        [] \<Rightarrow> None
      | (r, now) # rest \<Rightarrow> Some (tally stamp (tr_laneId r) (tr_tier r) (tr_mode r) (runs_of key hs)))"
proof (induction hs rule: rev_induct)
  case Nil
  then show ?case by (simp add: record_all_def empty_memory_def runs_of_def)
next
  case (snoc h hs)
  obtain r now where h: "h = (r, now)" by (cases h)
  have rec: "record_all stamp (hs @ [h]) empty_memory = recordLaneRun stamp r now (record_all stamp hs empty_memory)"
    by (simp add: record_all_def h)
  show ?case
  proof (cases "report_key r = key")
    case False
    then have "runs_of key (hs @ [h]) = runs_of key hs" by (simp add: runs_of_def h)
    moreover have "jm_get (lm_stats (record_all stamp (hs @ [h]) empty_memory)) key = jm_get (lm_stats (record_all stamp hs empty_memory)) key"
      using False unfolding rec by (simp add: recordLaneRun_def Let_def jm.get_put)
    ultimately show ?thesis using snoc by (simp only:)
  next
    case True
    then have runs: "runs_of key (hs @ [h]) = runs_of key hs @ [(r, now)]" by (simp add: runs_of_def h)
    have fresh: "freshLaneStats i t m = tally stamp i t m []" for i t m
      by (simp add: freshLaneStats_def tally_def failing_streak_snoc)
    have "jm_get (lm_stats (record_all stamp (hs @ [h]) empty_memory)) key =
        Some (run_recorded stamp r now (case jm_get (lm_stats (record_all stamp hs empty_memory)) key of Some e \<Rightarrow> e
          | None \<Rightarrow> freshLaneStats (tr_laneId r) (tr_tier r) (tr_mode r)))"
      using True unfolding rec by (simp add: recordLaneRun_def Let_def jm.get_put)
    then show ?thesis using snoc runs by (auto simp: fresh tally_snoc split: list.split)
  qed
qed

section \<open>Order statistics\<close>

lemma sort_numbers_sorted: "sorted (sort_numbers xs)"
proof -
  have "sorted_wrt (\<lambda>a b. a - b \<le> (0 :: rat)) (sort_numbers xs)"
    unfolding sort_numbers_def by (rule js_sort_sorted) auto
  then show ?thesis by (simp add: sorted_wrt_iff_nth_less)
qed

lemma mset_sort_numbers: "mset (sort_numbers xs) = mset xs"
  by (simp add: sort_numbers_def)

lemma length_sort_numbers [simp]: "length (sort_numbers xs) = length xs"
  using mset_sort_numbers by (metis size_mset)

lemma count_sort_numbers: "length (filter P (sort_numbers xs)) = length (filter P xs)"
  using mset_sort_numbers by (metis mset_filter size_mset)

lemma sorted_counts:
  fixes xs :: "rat list"
  assumes "sorted xs" and "i < length xs"
  shows "i < length (filter (\<lambda>x. x \<le> xs ! i) xs)" and "length (filter (\<lambda>x. x < xs ! i) xs) \<le> i"
proof -
  have split: "xs = take i xs @ xs ! i # drop (Suc i) xs" using assms(2) by (rule id_take_nth_drop)
  have low: "x \<le> xs ! i" if "x \<in> set (take i xs)" for x
    using that assms by (auto simp: in_set_conv_nth sorted_iff_nth_mono)
  have high: "xs ! i \<le> x" if "x \<in> set (drop (Suc i) xs)" for x
    using that assms by (auto simp: in_set_conv_nth sorted_iff_nth_mono)
  have len: "length (filter P xs) = length (filter P (take i xs)) + length (filter P (xs ! i # drop (Suc i) xs))" for P
    using split filter_append length_append by metis
  have "filter (\<lambda>x. x \<le> xs ! i) (take i xs) = take i xs" using low by (simp add: filter_id_conv)
  then show "i < length (filter (\<lambda>x. x \<le> xs ! i) xs)" using len [of "\<lambda>x. x \<le> xs ! i"] assms(2) by simp
  have "filter (\<lambda>x. x < xs ! i) (drop (Suc i) xs) = []" using high by (auto simp: filter_empty_conv not_less)
  then show "length (filter (\<lambda>x. x < xs ! i) xs) \<le> i"
    using len [of "\<lambda>x. x < xs ! i"] assms(2) length_filter_le [of "\<lambda>x. x < xs ! i" "take i xs"] by simp
qed

text \<open>A quantile of a window is its nearest-rank value: one of the samples, with at least that share of the samples at or below
  it and less than that share strictly below it.\<close>

theorem quantile_nearest_rank:
  assumes "samples \<noteq> []" and "NUMBER_EPSILON \<le> q" and "q \<le> 1"
  shows "\<exists>v\<in>set samples. quantileWallClockMs samples (Fin q) = Some v \<and>
    q * of_nat (length samples) \<le> of_nat (length (filter (\<lambda>x. x \<le> v) samples)) \<and>
    of_nat (length (filter (\<lambda>x. x < v) samples)) < q * of_nat (length samples)"
proof -
  define n where "n = length samples"
  define s where "s = sort_numbers samples"
  define rank where "rank = nat \<lceil>q * of_nat n\<rceil>"
  have n: "0 < n" using assms(1) by (simp add: n_def)
  have pos: "0 < q" using assms(2) by (simp add: NUMBER_EPSILON_def)
  have up: "q * of_nat n \<le> of_nat n" using assms(3) pos by (intro mult_left_le_one_le) auto
  have "0 < q * of_nat n" using pos n by simp
  then have ceil: "1 \<le> \<lceil>q * of_nat n\<rceil>" "\<lceil>q * of_nat n\<rceil> \<le> of_nat n"
    using up by (simp_all add: ceiling_le_iff one_le_ceiling)
  then have rank: "1 \<le> rank" "rank \<le> n" "of_nat rank = (of_int \<lceil>q * of_nat n\<rceil> :: rat)"
    unfolding rank_def by linarith+
  have i: "rank - 1 < length s" using rank n by (simp add: s_def n_def)
  let ?v = "s ! (rank - 1)"
  have some: "quantileWallClockMs samples (Fin q) = Some ?v"
    using assms rank by (simp add: quantileWallClockMs_def Let_def rank_def s_def n_def)
  have mem: "?v \<in> set samples" using nth_mem [OF i] mset_sort_numbers [of samples] by (metis s_def set_mset_mset)
  have "rank - 1 < length (filter (\<lambda>x. x \<le> ?v) samples)" "length (filter (\<lambda>x. x < ?v) samples) \<le> rank - 1"
    using sorted_counts [OF sort_numbers_sorted i [unfolded s_def]] count_sort_numbers by (simp_all add: s_def)
  then have "of_nat rank \<le> (of_nat (length (filter (\<lambda>x. x \<le> ?v) samples)) :: rat)"
    "(of_nat (length (filter (\<lambda>x. x < ?v) samples)) :: rat) \<le> of_nat rank - 1"
    using rank(1) by (simp_all add: of_nat_diff [symmetric] del: of_nat_diff)
  moreover have "q * of_nat n \<le> of_int \<lceil>q * of_nat n\<rceil>" "of_int \<lceil>q * of_nat n\<rceil> - 1 < q * of_nat n" by linarith+
  ultimately have "q * of_nat n \<le> of_nat (length (filter (\<lambda>x. x \<le> ?v) samples))"
    "of_nat (length (filter (\<lambda>x. x < ?v) samples)) < q * of_nat n"
    unfolding rank(3) by linarith+
  then show ?thesis using some mem by (auto simp: n_def)
qed

theorem quantile_nearest_rank_witness:
  "quantileWallClockMs [30, 10, 20] (Fin (1 / 2)) = Some 20 \<and>
   (\<exists>v\<in>set [30, 10, 20 :: rat]. quantileWallClockMs [30, 10, 20] (Fin (1 / 2)) = Some v)"
  using quantile_nearest_rank [of "[30, 10, 20]" "1 / 2"]
  by (auto simp: NUMBER_EPSILON_def quantileWallClockMs_def sort_numbers_def Let_def)

end
