(* ===== verification/Lane_Stats_File.thy ===== *)
theory Lane_Stats_File
  imports Lane_Stats_Props
begin

text \<open>
  The lane statistics through their file: every entry that the reports of a running relay can produce is a valid row, reads back
  as itself, and a restart restores the same map.
\<close>

section \<open>What a memory holds\<close>

definition optional_ok :: "('a \<Rightarrow> bool) \<Rightarrow> 'a option \<Rightarrow> bool" where
  "optional_ok P v \<longleftrightarrow> (case v of None \<Rightarrow> True | Some x \<Rightarrow> P x)"

definition stats_ok :: "(string \<Rightarrow> bool) \<Rightarrow> lane_stats \<Rightarrow> bool" where
  "stats_ok date_ok e \<longleftrightarrow> bounded_id 200 (ls_laneId e) \<and> optional_ok (bounded_id 64) (ls_tier e) \<and>
     optional_ok (\<lambda>x. 0 \<le> x) (ls_lastSuccessAt e) \<and> optional_ok (\<lambda>x. 0 \<le> x) (ls_lastAt e) \<and>
     list_all (\<lambda>x. 0 \<le> x) (ls_wallClockMs e) \<and> list_all (optional_ok date_ok) (ls_wallClockAt e) \<and>
     length (ls_wallClockAt e) = length (ls_wallClockMs e) \<and> length (ls_wallClockMs e) \<le> MAX_LANE_STAT_SAMPLES"

definition stats_key_of :: "lane_stats \<Rightarrow> string" where
  "stats_key_of e = statsKey (ls_tier e) (ls_laneId e) (ls_mode e)"

definition memory_ok :: "(string \<Rightarrow> bool) \<Rightarrow> (string, lane_stats) jmap \<Rightarrow> bool" where
  "memory_ok date_ok m \<longleftrightarrow> jm_ok m \<and> (\<forall>(k, e)\<in>set m. k = stats_key_of e \<and> stats_ok date_ok e)"

definition report_ok :: "telemetry_report \<Rightarrow> bool" where
  "report_ok r \<longleftrightarrow> bounded_id 200 (tr_laneId r) \<and> optional_ok (bounded_id 64) (tr_tier r) \<and> 0 \<le> tr_wallClockMs r"

lemma parsed_report_ok: "parseTelemetryReport v = Some r \<Longrightarrow> report_ok r"
proof (cases v)
  case (JObj body)
  assume parsed: "parseTelemetryReport v = Some r"
  have bounded: "isBoundedId n w \<Longrightarrow> \<exists>s. str_of w = Some s \<and> bounded_id n s" for n w
    by (auto simp: isBoundedId_def split: option.splits)
  have wall: "finite_at_least_0 w \<Longrightarrow> rat_of w = Some x \<Longrightarrow> 0 \<le> x" for w x
    by (cases w rule: finite_at_least_0.cases) auto
  show ?thesis using parsed bounded [of 200 "member body ''laneId''"] bounded [of 64 "member body ''tier''"] wall
    by (auto simp: JObj parseTelemetryReport_def report_ok_def optional_ok_def absent_or_def Let_def bind_eq_Some_conv split: if_splits)
qed (simp_all add: parseTelemetryReport_def)

lemma trim_window_ok:
  assumes "bounded_id 200 (ls_laneId e)" and "optional_ok (bounded_id 64) (ls_tier e)" and "optional_ok (\<lambda>x. 0 \<le> x) (ls_lastSuccessAt e)"
    and "optional_ok (\<lambda>x. 0 \<le> x) (ls_lastAt e)" and "list_all (\<lambda>x. 0 \<le> x) (ls_wallClockMs e)"
    and "list_all (optional_ok date_ok) (ls_wallClockAt e)" and "length (ls_wallClockAt e) = length (ls_wallClockMs e)"
  shows "stats_ok date_ok (trim_window e)"
  using assms by (auto simp: trim_window_def stats_ok_def Let_def list_all_iff dest: in_set_dropD)

lemma run_recorded_ok:
  assumes "stats_ok date_ok e" and "report_ok r" and "0 \<le> now" and "date_ok (stamp now)"
  shows "stats_ok date_ok (run_recorded stamp r now e)"
    and "stats_key_of (run_recorded stamp r now e) = stats_key_of e"
proof -
  have stamped: "stats_ok date_ok x \<Longrightarrow> stats_ok date_ok (x\<lparr>ls_lastAt := Some now\<rparr>)" for x
    using assms(3) by (simp add: stats_ok_def optional_ok_def)
  let ?e1 = "count_run (tr_status r) now (e\<lparr>ls_calls := ls_calls e + 1\<rparr>)"
  have e1: "stats_ok date_ok ?e1" "ls_wallClockMs ?e1 = ls_wallClockMs e" "ls_wallClockAt ?e1 = ls_wallClockAt e"
    using assms by (auto simp: count_run_def stats_ok_def optional_ok_def split: lane_run_status.split)
  let ?e2 = "?e1\<lparr>ls_wallClockMs := ls_wallClockMs ?e1 @ [tr_wallClockMs r], ls_wallClockAt := ls_wallClockAt ?e1 @ [Some (stamp now)]\<rparr>"
  have "stats_ok date_ok (trim_window ?e2)"
    by (rule trim_window_ok) (use e1 assms in \<open>auto simp: stats_ok_def optional_ok_def report_ok_def list_all_iff\<close>)
  moreover have "stats_ok date_ok (trim_window ?e1)" using e1(1) by (simp add: trim_window_def stats_ok_def)
  ultimately show "stats_ok date_ok (run_recorded stamp r now e)"
    using assms(3) stamped by (cases "tr_status r = Completed") (simp_all add: run_recorded_def Let_def)
  show "stats_key_of (run_recorded stamp r now e) = stats_key_of e"
    by (simp add: run_recorded_def Let_def stats_key_of_def trim_window_def count_run_def split: lane_run_status.split)
qed

lemma recorded_memory_ok:
  assumes "memory_ok date_ok (lm_stats m)" and "report_ok r" and "0 \<le> now" and "date_ok (stamp now)"
  shows "memory_ok date_ok (lm_stats (recordLaneRun stamp r now m))"
proof -
  define e where "e = (case jm_get (lm_stats m) (report_key r) of Some e \<Rightarrow> e | None \<Rightarrow> freshLaneStats (tr_laneId r) (tr_tier r) (tr_mode r))"
  have e: "stats_ok date_ok e \<and> stats_key_of e = report_key r"
  proof (cases "jm_get (lm_stats m) (report_key r)")
    case None
    then show ?thesis using assms(2)
      by (simp add: e_def freshLaneStats_def stats_ok_def report_ok_def stats_key_of_def report_key_def optional_ok_def)
  next
    case (Some x)
    then show ?thesis using assms(1) jm_get_in [OF Some] by (auto simp: e_def memory_ok_def)
  qed
  have put: "lm_stats (recordLaneRun stamp r now m) = jm_put (report_key r) (run_recorded stamp r now e) (lm_stats m)"
    by (simp add: recordLaneRun_def Let_def e_def)
  show ?thesis using assms(1) e run_recorded_ok [of date_ok e r now stamp] assms(2-4)
    unfolding memory_ok_def put by (auto simp: jm.ok_put dest!: jm_put_set)
qed

section \<open>Rows\<close>

lemma row_members:
  "\<exists>ms. encode_lane_row r = JObj ms \<and> member ms ''laneId'' = Some (JStr (lr_laneId r)) \<and> member ms ''tier'' = Some (nullable JStr (lr_tier r)) \<and>
     member ms ''mode'' = Some (nullable (\<lambda>m. JStr (mode_name m)) (lr_mode r)) \<and> member ms ''calls'' = Some (natj (lr_calls r)) \<and>
     member ms ''successes'' = Some (natj (lr_successes r)) \<and> member ms ''failures'' = Some (natj (lr_failures r)) \<and>
     member ms ''timeouts'' = Some (natj (lr_timeouts r)) \<and> member ms ''consecutiveFailures'' = map_option natj (lr_consecutiveFailures r) \<and>
     member ms ''abandonedSinceSuccess'' = None \<and> member ms ''lastSuccessAt'' = Some (nullable num (lr_lastSuccessAt r)) \<and>
     member ms ''wallClockMs'' = Some (JArr (map num (lr_wallClockMs r))) \<and>
     member ms ''wallClockAt'' = map_option (\<lambda>ws. JArr (map (nullable JStr) ws)) (lr_wallClockAt r) \<and>
     member ms ''lastAt'' = Some (nullable num (lr_lastAt r))"
  by (rule exI [of _ "case encode_lane_row r of JObj ms \<Rightarrow> ms | _ \<Rightarrow> []"]) (simp add: encode_lane_row_def split: option.split)

lemma mode_named: "string_in (map mode_name DISPATCH_MODES) (Some (JStr (mode_name m)))"
  "named mode_name DISPATCH_MODES (Some (JStr (mode_name m))) = Some m"
  by (cases m; simp add: DISPATCH_MODES_def named_def)+

lemma lane_row_valid:
  assumes "stats_ok date_ok e"
  shows "isLaneStatsRow date_ok (encode_lane_row (export_stats e))" and "read_lane_row (encode_lane_row (export_stats e)) = Some (export_stats e)"
proof -
  define r where "r = export_stats e"
  obtain ms where ms: "encode_lane_row r = JObj ms" and members:
     "member ms ''laneId'' = Some (JStr (lr_laneId r))" "member ms ''tier'' = Some (nullable JStr (lr_tier r))"
     "member ms ''mode'' = Some (nullable (\<lambda>m. JStr (mode_name m)) (lr_mode r))" "member ms ''calls'' = Some (natj (lr_calls r))"
     "member ms ''successes'' = Some (natj (lr_successes r))" "member ms ''failures'' = Some (natj (lr_failures r))"
     "member ms ''timeouts'' = Some (natj (lr_timeouts r))" "member ms ''consecutiveFailures'' = map_option natj (lr_consecutiveFailures r)"
     "member ms ''abandonedSinceSuccess'' = None" "member ms ''lastSuccessAt'' = Some (nullable num (lr_lastSuccessAt r))"
     "member ms ''wallClockMs'' = Some (JArr (map num (lr_wallClockMs r)))"
     "member ms ''wallClockAt'' = map_option (\<lambda>ws. JArr (map (nullable JStr) ws)) (lr_wallClockAt r)"
     "member ms ''lastAt'' = Some (nullable num (lr_lastAt r))"
    using row_members [of r] by blast
  have nums: "natural_number (Some (natj n))" "nat_of (Some (natj n)) = Some n" for n by (simp_all add: natj_def)
  have opt: "absent_null_or ok (Some (nullable f v))" if "optional_ok (\<lambda>x. ok (Some (f x))) v" for ok and f :: "'a \<Rightarrow> json" and v
    using that by (cases v) (simp_all add: absent_null_or_def optional_ok_def)
  have at_least: "optional_ok (\<lambda>x. finite_at_least_0 (Some (num x))) v = optional_ok (\<lambda>x. 0 \<le> x) v" for v
    by (cases v) (simp_all add: optional_ok_def)
  have stamps: "list_all (\<lambda>s. s = JNull \<or> (case str_of (Some s) of Some t \<Rightarrow> date_ok t | None \<Rightarrow> False)) (map (nullable JStr) ws)"
    if "list_all (optional_ok date_ok) ws" for ws
    using that by (induction ws) (auto simp: optional_ok_def split: option.splits)
  have strs: "str_of (Some (nullable JStr v)) = v" "rat_of (Some (nullable num w)) = w" for v w
    by (cases v; simp) (cases w; simp)
  show "isLaneStatsRow date_ok (encode_lane_row (export_stats e))"
    unfolding r_def [symmetric] ms isLaneStatsRow.simps hasValidStreakFields_def hasValidSamples_def members
    using assms nums opt [of "isBoundedId 64" JStr "lr_tier r"] opt [of finite_at_least_0 num "lr_lastSuccessAt r"]
      opt [of "string_in (map mode_name DISPATCH_MODES)" "\<lambda>m. JStr (mode_name m)" "lr_mode r"] mode_named(1) stamps [of "ls_wallClockAt e"]
    by (auto simp: members r_def export_stats_def stats_ok_def at_least isBoundedId_def list_all_iff isWallClockAt_def
        optional_ok_def null_or_def absent_or_def split: option.splits)
  have mode: "named mode_name DISPATCH_MODES (Some (nullable (\<lambda>m. JStr (mode_name m)) v)) = v" for v
    using mode_named(2) by (cases v) (simp_all add: named_def)
  have wall: "list_member (\<lambda>x. rat_of (Some x)) (Some (JArr (map num xs))) = Some xs" for xs
    using all_some_map [of xs "\<lambda>x. rat_of (Some x)" num] by simp
  have stamps_read: "list_member (\<lambda>x. null_member str_of (Some x)) (Some (JArr (map (nullable JStr) ws))) = Some ws" for ws
    using all_some_map [of ws "\<lambda>x. null_member str_of (Some x)" "nullable JStr"] null_round [of _ JStr str_of]
    by (auto simp: null_member_def split: option.split)
  have opt_some: "opt_member f (map_option g (Some x)) = Some (Some x)" if "f (Some (g x)) = Some x" for f :: "json option \<Rightarrow> 'b option" and g x
    using that by simp
  show "read_lane_row (encode_lane_row (export_stats e)) = Some (export_stats e)"
    unfolding r_def [symmetric] ms read_lane_row.simps members strs mode nums
    using wall opt_some stamps_read nums by (simp add: r_def export_stats_def)
qed

lemma restored_export: "stats_ok date_ok e \<Longrightarrow> restored_stats (export_stats e) = e"
  by (simp add: restored_stats_def export_stats_def restoredWindow_def stats_ok_def last_n_def)

lemma restored_rows_get:
  assumes "distinct (map row_key rows)"
    and "\<forall>row\<in>set rows. jm_get stats (row_key row) = None"
  shows "jm_get (fst (restore_rows_into rows stats)) key =
    (case map_of (map (\<lambda>row. (row_key row, restored_stats row)) rows) key of
       Some e \<Rightarrow> Some e | None \<Rightarrow> jm_get stats key)"
  using assms
proof (induction rows arbitrary: stats)
  case (Cons row rows)
  let ?stats = "jm_put (row_key row) (restored_stats row) stats"
  have "\<forall>r\<in>set rows. jm_get ?stats (row_key r) = None"
    using Cons.prems by (simp add: jm.get_put) (metis imageI)
  then have "jm_get (fst (restore_rows_into rows ?stats)) key =
      (case map_of (map (\<lambda>row. (row_key row, restored_stats row)) rows) key of Some e \<Rightarrow> Some e | None \<Rightarrow> jm_get ?stats key)"
    using Cons by simp
  moreover have "fst (restore_rows_into (row # rows) stats) = fst (restore_rows_into rows ?stats)"
    using Cons.prems by (simp add: Let_def split: prod.split)
  moreover have "map_of (map (\<lambda>row. (row_key row, restored_stats row)) rows) (row_key row) = None"
    using Cons.prems by (auto simp: map_of_eq_None_iff)
  ultimately show ?case by (auto simp: jm.get_put split: option.split)
qed simp

section \<open>A restart\<close>

definition reload :: "(string \<Rightarrow> bool) \<Rightarrow> lane_memory \<Rightarrow> lane_memory" where
  "reload date_ok m = fst (restoreLaneStatsRows
     (List.map_filter read_lane_row (loadLaneStatsRows date_ok (Some (saveLaneStatsRows (exportLaneStatsRows m))))) empty_memory)"

lemma reload_rows:
  assumes "memory_ok date_ok (lm_stats m)"
  shows "List.map_filter read_lane_row (loadLaneStatsRows date_ok (Some (saveLaneStatsRows (exportLaneStatsRows m)))) = exportLaneStatsRows m"
proof -
  have ok: "stats_ok date_ok e" if "e \<in> set (allLaneStats m)" for e
    using that assms by (auto simp: allLaneStats_def memory_ok_def)
  have "loadLaneStatsRows date_ok (Some (saveLaneStatsRows (exportLaneStatsRows m))) = map encode_lane_row (exportLaneStatsRows m)"
    using lane_row_valid(1) [OF ok] by (auto simp: saveLaneStatsRows_def exportLaneStatsRows_def filter_id_conv)
  moreover have "List.map_filter read_lane_row (map encode_lane_row (map export_stats es)) = map export_stats es"
    if "\<forall>e\<in>set es. stats_ok date_ok e" for es
    using that lane_row_valid(2) by (induction es) (auto simp: List.map_filter_simps)
  ultimately show ?thesis using ok by (simp add: exportLaneStatsRows_def)
qed

lemma recorded_history_ok:
  assumes "\<forall>(r, now)\<in>set hs. report_ok r \<and> 0 \<le> now \<and> date_ok (stamp now)" and "memory_ok date_ok (lm_stats m)"
  shows "memory_ok date_ok (lm_stats (record_all stamp hs m))"
  using assms
proof (induction hs arbitrary: m)
  case (Cons h hs)
  then show ?case using recorded_memory_ok [of date_ok m "fst h" "snd h" stamp]
    by (cases h) (auto simp: record_all_def)
qed (simp add: record_all_def)

text \<open>C15. The statistics that any history of parsed reports leaves come back from the file as they were: the same entry under every
  key. The dates the relay writes are assumed to be dates.\<close>

theorem lane_stats_survive_restart:
  assumes "\<forall>(r, now)\<in>set hs. (\<exists>v. parseTelemetryReport v = Some r) \<and> 0 \<le> now \<and> date_ok (stamp now)"
  shows "laneStatsFor (reload date_ok (record_all stamp hs empty_memory)) laneId tier mode =
    laneStatsFor (record_all stamp hs empty_memory) laneId tier mode"
proof -
  define m where "m = record_all stamp hs empty_memory"
  have ok: "memory_ok date_ok (lm_stats m)"
    unfolding m_def using assms parsed_report_ok
    by (intro recorded_history_ok) (auto simp: memory_ok_def empty_memory_def jm_ok_def)
  let ?rows = "exportLaneStatsRows m"
  have perm: "mset (allLaneStats m) = mset (map snd (lm_stats m))" by (simp add: allLaneStats_def)
  have key: "row_key (export_stats e) = stats_key_of e" for e by (simp add: row_key_def export_stats_def stats_key_of_def)
  have entries: "map (\<lambda>e. (stats_key_of e, e)) (map snd (lm_stats m)) = lm_stats m"
    using ok by (auto simp: memory_ok_def intro!: map_idI)
  have "mset (map row_key ?rows) = mset (map fst (map (\<lambda>e. (stats_key_of e, e)) (map snd (lm_stats m))))"
  proof -
    have "map row_key ?rows = map stats_key_of (allLaneStats m)" by (simp add: exportLaneStatsRows_def key)
    moreover have "map fst (map (\<lambda>e. (stats_key_of e, e)) (map snd (lm_stats m))) = map stats_key_of (map snd (lm_stats m))" by simp
    ultimately show ?thesis using perm by (simp only: mset_map [of stats_key_of])
  qed
  then have distinct: "distinct (map row_key ?rows)"
    using ok unfolding entries by (metis jm_ok_def memory_ok_def mset_eq_imp_distinct_iff)
  have "mset (map (\<lambda>row. (row_key row, restored_stats row)) ?rows) = mset (lm_stats m)"
  proof -
    have "map (\<lambda>row. (row_key row, restored_stats row)) ?rows = map (\<lambda>e. (stats_key_of e, e)) (allLaneStats m)"
      using ok perm restored_export [of date_ok]
      by (auto simp: exportLaneStatsRows_def key memory_ok_def allLaneStats_def)
    then show ?thesis using perm entries by (metis mset_map)
  qed
  then have same: "set (map (\<lambda>row. (row_key row, restored_stats row)) ?rows) = set (lm_stats m)" by (rule mset_eq_setD)
  have "distinct (map fst (map (\<lambda>row. (row_key row, restored_stats row)) ?rows))" using distinct by (simp add: comp_def)
  moreover have "distinct (map fst (lm_stats m))" using ok by (simp add: memory_ok_def jm_ok_def)
  ultimately have "map_of (map (\<lambda>row. (row_key row, restored_stats row)) ?rows) = map_of (lm_stats m)"
    using same map_of_inject_set by blast
  then show ?thesis
    using restored_rows_get [OF distinct, of "[]" "statsKey tier laneId mode"] reload_rows [OF ok]
    unfolding m_def [symmetric] laneStatsFor_def reload_def
    by (cases "restore_rows_into (exportLaneStatsRows m) []")
       (simp add: restoreLaneStatsRows_def empty_memory_def jm_get_def split: option.split)
qed

definition sample_report :: json where
  "sample_report = JObj [(''jobId'', JStr ''j1''), (''laneId'', JStr ''gpt''), (''kind'', JStr ''cli''), (''wallClockMs'', num 1500),
     (''exitCode'', JNull), (''status'', JStr ''completed''), (''estimatedInputTokens'', num 10), (''estimatedOutputTokens'', num 20)]"

definition sample_run :: telemetry_report where
  "sample_run = \<lparr>tr_jobId = ''j1'', tr_laneId = ''gpt'', tr_kind = CliLane, tr_spec = None, tr_tier = None, tr_mode = None,
     tr_wallClockMs = 1500, tr_exitCode = None, tr_status = Completed, tr_inputTokens = 10, tr_outputTokens = 20\<rparr>"

lemma sample_report_parses: "parseTelemetryReport sample_report = Some sample_run"
proof -
  have ints: "\<lfloor>10 :: rat\<rfloor> = 10" "\<lfloor>20 :: rat\<rfloor> = 20" by simp_all
  have b: "bounded_id 64 ''j1''" "bounded_id 200 ''gpt''"
    by (simp_all add: bounded_id_def isDashboardSafeId_def DASHBOARD_SAFE_ID_MAX_BYTES_def)
  show ?thesis
    by (simp add: parseTelemetryReport_def sample_report_def sample_run_def REPORT_KEYS_def isBoundedId_def b named_def
        DISPATCH_LANE_KINDS_def DISPATCH_LANE_STATUSES_def num_def nat_of_def ints null_member_def)
qed

theorem lane_stats_survive_restart_witness:
  "map_option ls_calls (laneStatsFor (reload (\<lambda>s. s = ''now'') (record_all (\<lambda>t. ''now'') [(sample_run, 5)] empty_memory)) ''gpt'' None None) = Some 1"
proof -
  have "\<forall>(r, now)\<in>set [(sample_run, 5 :: rat)]. (\<exists>v. parseTelemetryReport v = Some r) \<and> 0 \<le> now \<and> (\<lambda>s. s = ''now'') ''now''"
    using sample_report_parses by auto
  from lane_stats_survive_restart [where hs = "[(sample_run, 5)]" and date_ok = "\<lambda>s. s = ''now''" and stamp = "\<lambda>t. ''now''"
      and laneId = "''gpt''" and tier = None and mode = None, OF this]
  show ?thesis by (simp add: laneStatsFor_def record_all_def recordLaneRun_def empty_memory_def report_key_def sample_run_def
      run_recorded_def count_run_def trim_window_def freshLaneStats_def MAX_LANE_STAT_SAMPLES_def)
qed

end
