(* ===== verification/Lane_Affinity_Props.thy ===== *)
theory Lane_Affinity_Props
  imports Lane_Affinity Lane_Stats_File
begin

text \<open>
  The memory of pins and demotions against its abstract meaning, the rows that are alive at a moment: what each operation does to
  them, which rows a reachable memory holds, and which of them a restart keeps.
\<close>

section \<open>The rows that are alive\<close>

definition live :: "rat \<Rightarrow> lane_affinity \<Rightarrow> string \<Rightarrow> affinity_row option" where
  "live t s k = (case jm_get (la_map s) k of None \<Rightarrow> None | Some r \<Rightarrow> if t < af_until r then Some r else None)"

lemma live_notify [simp]: "live t (affinity_notify s) = live t s"
  by (rule ext) (simp add: live_def affinity_notify_def)

lemma live_put: "live t (s\<lparr>la_map := jm_put k r (la_map s)\<rparr>) = (live t s)(k := if t < af_until r then Some r else None)"
  by (rule ext) (simp add: live_def jm.get_put)

lemma live_del: "live t (s\<lparr>la_map := jm_del k (la_map s)\<rparr>) = (live t s)(k := None)"
  by (rule ext) (simp add: live_def jm.get_del)

lemma get_filter_live: "jm_ok m \<Longrightarrow> jm_get (filter (\<lambda>(k, r). P r) m) k = (case jm_get m k of None \<Rightarrow> None | Some r \<Rightarrow> if P r then Some r else None)"
proof (induction m)
  case (Cons x m)
  obtain j v where x: "x = (j, v)" by (cases x)
  have "jm_ok m" "j = k \<Longrightarrow> jm_get m k = None" using Cons.prems by (auto simp: x jm_ok_def jm_get_None)
  then show ?case using Cons.IH by (auto simp: x split: option.split)
qed simp

lemma live_clear: "live t (clearLaneAffinity tier laneId s) = (live t s)(affinity_key tier laneId Pin := None, affinity_key tier laneId Demote := None)"
proof -
  have "live t (s\<lparr>la_map := fold jm_del [affinity_key tier laneId Pin, affinity_key tier laneId Demote] (la_map s)\<rparr>) =
      (live t s)(affinity_key tier laneId Pin := None, affinity_key tier laneId Demote := None)"
    by (rule ext) (simp add: live_def jm.get_del)
  then show ?thesis by (simp add: clearLaneAffinity_def LANE_AFFINITY_KINDS_def Let_def)
qed

lemma clamp_bounds: "0 \<le> clampWindow ttl fallback" "clampWindow ttl fallback \<le> MAX_AFFINITY_MS"
  by (simp_all add: clampWindow_def Let_def MAX_AFFINITY_MS_def)

definition remembered :: "affinity_kind \<Rightarrow> string option \<Rightarrow> string \<Rightarrow> string \<Rightarrow> jsnum \<Rightarrow> rat \<Rightarrow> affinity_row" where
  "remembered kind tier laneId reason ttl now =
     \<lparr>af_tier = tier, af_laneId = laneId, af_kind = kind, af_until = now + clampWindow ttl (defaultWindowFor kind),
      af_reason = boundedReason reason\<rparr>"

definition remember_lane :: "affinity_kind \<Rightarrow> string option \<Rightarrow> string \<Rightarrow> string \<Rightarrow> jsnum \<Rightarrow> rat \<Rightarrow> lane_affinity \<Rightarrow> lane_affinity" where
  "remember_lane kind = (case kind of Pin \<Rightarrow> pinLane | Demote \<Rightarrow> demoteLane)"

lemma remember_lane_eq: "laneId \<noteq> [] \<Longrightarrow> remember_lane kind tier laneId reason ttl now s =
    affinity_notify (s\<lparr>la_map := jm_put (affinity_key tier laneId kind) (remembered kind tier laneId reason ttl now) (la_map s)\<rparr>)"
  by (cases kind) (simp_all add: remember_lane_def pinLane_def demoteLane_def remember_def remembered_def)

lemma live_remember:
  assumes "laneId \<noteq> []"
  shows "live t (remember_lane kind tier laneId reason ttl now s) =
    (live t s)(affinity_key tier laneId kind := if t < now + clampWindow ttl (defaultWindowFor kind)
      then Some (remembered kind tier laneId reason ttl now) else None)"
  unfolding remember_lane_eq [OF assms] live_notify live_put by (simp add: remembered_def)

lemma live_removed: "jm_get (la_map s) k = Some r \<Longrightarrow> af_until r \<le> t \<Longrightarrow> (live t s)(k := None) = live t s"
  by (rule ext) (simp add: live_def)

lemma live_none: "jm_get (la_map s) k = None \<Longrightarrow> (live t s)(k := None) = live t s"
  by (rule ext) (simp add: live_def)

lemma live_recall:
  assumes "now \<le> t"
  shows "snd (recall kind tier laneId now s) = live now s (affinity_key tier laneId kind)"
    and "live t (fst (recall kind tier laneId now s)) = live t s"
proof -
  show "snd (recall kind tier laneId now s) = live now s (affinity_key tier laneId kind)"
    by (simp add: recall_def Let_def live_def split: option.split)
  show "live t (fst (recall kind tier laneId now s)) = live t s"
    using assms live_removed [of s "affinity_key tier laneId kind" _ t]
    by (cases "jm_get (la_map s) (affinity_key tier laneId kind)") (auto simp: recall_def Let_def live_del)
qed

lemma live_forget:
  "live t (fst (forgetLaneMemory kind tier laneId now s)) = (live t s)(affinity_key tier laneId kind := None)"
  "snd (forgetLaneMemory kind tier laneId now s) \<longleftrightarrow> live now s (affinity_key tier laneId kind) \<noteq> None"
proof -
  show "live t (fst (forgetLaneMemory kind tier laneId now s)) = (live t s)(affinity_key tier laneId kind := None)"
  proof (cases "jm_get (la_map s) (affinity_key tier laneId kind)")
    case None
    then have "fst (forgetLaneMemory kind tier laneId now s) = s" by (simp add: forgetLaneMemory_def)
    then show ?thesis using live_none [OF None] by (simp only:)
  next
    case (Some r)
    then have "fst (forgetLaneMemory kind tier laneId now s) =
        affinity_notify (s\<lparr>la_map := jm_del (affinity_key tier laneId kind) (la_map s)\<rparr>)"
      by (simp add: forgetLaneMemory_def Let_def)
    then show ?thesis by (simp only: live_notify live_del)
  qed
  show "snd (forgetLaneMemory kind tier laneId now s) \<longleftrightarrow> live now s (affinity_key tier laneId kind) \<noteq> None"
    by (cases "jm_get (la_map s) (affinity_key tier laneId kind)") (auto simp: forgetLaneMemory_def Let_def live_def)
qed

lemma live_export:
  assumes "jm_ok (la_map s)" and "now \<le> t"
  shows "live t (fst (exportLaneAffinityRows now s)) = live t s"
    and "set (snd (exportLaneAffinityRows now s)) = {r. \<exists>k. live now s k = Some r}"
proof -
  have "live t (s\<lparr>la_map := filter (\<lambda>(k, r). now < af_until r) (la_map s)\<rparr>) = live t s"
    using assms by (auto simp: live_def get_filter_live fun_eq_iff split: option.split)
  then show "live t (fst (exportLaneAffinityRows now s)) = live t s" by (simp add: exportLaneAffinityRows_def Let_def)
  show "set (snd (exportLaneAffinityRows now s)) = {r. \<exists>k. live now s k = Some r}"
  proof -
    have mem: "(k, r) \<in> set (la_map s) \<longleftrightarrow> jm_get (la_map s) k = Some r" for k r
      using jm_in_get [OF assms(1)] jm_get_in by metis
    have "set (snd (exportLaneAffinityRows now s)) = {r. \<exists>k. (k, r) \<in> set (la_map s) \<and> now < af_until r}"
      by (auto simp: exportLaneAffinityRows_def Let_def image_iff)
    also have "\<dots> = {r. \<exists>k. live now s k = Some r}" unfolding mem by (auto simp: live_def split: option.splits)
    finally show ?thesis .
  qed
qed

text \<open>C16. What is alive in the memory at a moment is changed by its operations exactly as their names say: pinning or demoting a lane
  sets its row until the end of a window of at most six hours, recalling answers the row that is alive and changes nothing that
  is alive then or later, clearing removes both rows of the lane, forgetting removes one and says whether it was alive, and
  exporting changes nothing that is alive.\<close>

theorem affinity_refines:
  assumes "jm_ok (la_map s)" and "now \<le> t" and "laneId \<noteq> []"
  shows "live t (remember_lane kind tier laneId reason ttl now s) =
      (live t s)(affinity_key tier laneId kind := if t < now + clampWindow ttl (defaultWindowFor kind)
        then Some (remembered kind tier laneId reason ttl now) else None) \<and>
    clampWindow ttl (defaultWindowFor kind) \<le> 21600000 \<and>
    snd (recall kind tier laneId now s) = live now s (affinity_key tier laneId kind) \<and> live t (fst (recall kind tier laneId now s)) = live t s \<and>
    live t (clearLaneAffinity tier laneId s) =
      (live t s)(affinity_key tier laneId Pin := None, affinity_key tier laneId Demote := None) \<and>
    live t (fst (forgetLaneMemory kind tier laneId now s)) = (live t s)(affinity_key tier laneId kind := None) \<and>
    (snd (forgetLaneMemory kind tier laneId now s) \<longleftrightarrow> live now s (affinity_key tier laneId kind) \<noteq> None) \<and>
    live t (fst (exportLaneAffinityRows now s)) = live t s \<and>
    set (snd (exportLaneAffinityRows now s)) = {r. \<exists>k. live now s k = Some r}"
  using live_remember [OF assms(3)] live_recall [OF assms(2)] live_clear live_forget live_export [OF assms(1,2)] clamp_bounds(2)
  by (simp add: MAX_AFFINITY_MS_def)

theorem affinity_refines_witness:
  "live 5 (remember_lane Pin None ''gpt'' ''asked'' (Fin 10) 0 \<lparr>la_map = [], la_notified = 0\<rparr>) (affinity_key None ''gpt'' Pin) =
     Some (remembered Pin None ''gpt'' ''asked'' (Fin 10) 0)"
  using affinity_refines [of "\<lparr>la_map = [], la_notified = 0\<rparr>" 0 5 "''gpt''" Pin None "''asked''" "Fin 10"]
  by (simp add: clampWindow_def MAX_AFFINITY_MS_def jm_ok_def)

section \<open>Demotion of an outlier\<close>

text \<open>An outlier is demoted on the evidence of two disjoint parts of the window: when the test demotes a lane, both parts have the
  smallest number of samples asked for, the median of the recent ones is more than the factor times the quantile of the earlier
  ones, and from then on the lane has no pin and the one demotion with the reason.\<close>

theorem outlier_demotes:
  assumes "recordLaneOutlier show_num tier laneId samples (Some (Fin (of_nat recentCount), quantile, factor)) minSamples demoteMs now s = (s', Some reason)"
    and "laneId \<noteq> []"
  shows "\<exists>recent earlier m h. samples = earlier @ recent \<and> length recent = recentCount \<and> minSamples \<le> length recent \<and> minSamples \<le> length earlier \<and>
    medianWallClockMs recent = Some m \<and> quantileWallClockMs earlier (Fin quantile) = Some h \<and> 0 < h \<and> h * factor < m \<and>
    live t s' (affinity_key tier laneId Pin) = None \<and>
    live t s' (affinity_key tier laneId Demote) =
      (if t < now + clampWindow demoteMs (defaultWindowFor Demote) then Some (remembered Demote tier laneId reason demoteMs now) else None)"
proof -
  let ?settings = "\<lparr>os_recentCount = Fin (of_nat recentCount), os_historyQuantile = Fin quantile, os_outlierFactor = factor, os_minSamples = minSamples\<rparr>"
  obtain hit where hit: "checkLaneOutlier samples ?settings = Some hit"
      "s' = demoteLane tier laneId reason demoteMs now (clearLaneAffinity tier laneId s)"
    using assms(1) by (auto simp: recordLaneOutlier_def Let_def split: option.splits)
  have n: "positive_integer (Fin (of_nat recentCount)) = (if recentCount = 0 then None else Some recentCount)"
    by (cases recentCount) auto
  let ?recent = "last_n recentCount samples" and ?earlier = "take (length samples - recentCount) samples"
  obtain m h where mh: "medianWallClockMs ?recent = Some m" "quantileWallClockMs ?earlier (Fin quantile) = Some h" "0 < h" "h * factor < m"
      "recentCount + minSamples \<le> length samples" "minSamples \<le> length ?recent" "minSamples \<le> length ?earlier"
    using hit(1) n by (auto simp: checkLaneOutlier_def Let_def not_less not_le split: option.splits if_splits)
  have "samples = ?earlier @ ?recent" by (simp add: last_n_def)
  moreover have "length ?recent = recentCount" using mh(5) by simp
  moreover have "s' = remember_lane Demote tier laneId reason demoteMs now (clearLaneAffinity tier laneId s)"
    using hit(2) by (simp add: remember_lane_def)
  ultimately show ?thesis using mh live_remember [OF assms(2), of t Demote] live_clear [of t tier laneId s]
    by (intro exI [of _ ?recent] exI [of _ ?earlier] exI [of _ m] exI [of _ h])
       (simp add: affinity_key_def)
qed

theorem outlier_demotes_witness:
  "live 0 (fst (recordLaneOutlier (\<lambda>x. []) None ''gpt'' [10, 10, 100, 100] (Some (Fin 2, 1 / 2, 2)) 2 (Fin 60) 0 \<lparr>la_map = [], la_notified = 0\<rparr>))
     (affinity_key None ''gpt'' Demote) \<noteq> None"
proof -
  let ?s = "\<lparr>la_map = [], la_notified = 0\<rparr>"
  let ?reason = "outlierDemotionReason (\<lambda>x. []) \<lparr>oe_recentMedianMs = 100, oe_historyMs = 10\<rparr> (1 / 2) 2"
  let ?s' = "demoteLane None ''gpt'' ?reason (Fin 60) 0 (clearLaneAffinity None ''gpt'' ?s)"
  have two: "positive_integer (Fin 2) = Some 2" using floor_of_nat [of 2, where 'a = rat] by simp
  have "recordLaneOutlier (\<lambda>x. []) None ''gpt'' [10, 10, 100, 100] (Some (Fin 2, 1 / 2, 2)) 2 (Fin 60) 0 ?s = (?s', Some ?reason)"
    by (simp add: recordLaneOutlier_def checkLaneOutlier_def two last_n_def medianWallClockMs_def quantileWallClockMs_def sort_numbers_def
        Let_def NUMBER_EPSILON_def)
  from this outlier_demotes [where recentCount = 2, simplified, OF this, of 0] show ?thesis
    by (auto simp: clampWindow_def MAX_AFFINITY_MS_def)
qed

section \<open>Reachable memories and the restart\<close>

text \<open>The operations of a running relay, any lane of any tier and the restoration of any file included, and the passing of time.\<close>

inductive affinity_step :: "rat \<times> lane_affinity \<Rightarrow> rat \<times> lane_affinity \<Rightarrow> bool" where
  wait: "now \<le> later \<Longrightarrow> affinity_step (now, s) (later, s)"
| remember: "affinity_step (now, s) (now, remember_lane kind tier laneId reason ttl now s)"
| recall: "affinity_step (now, s) (now, fst (recall kind tier laneId now s))"
| clear: "affinity_step (now, s) (now, clearLaneAffinity tier laneId s)"
| forget: "affinity_step (now, s) (now, fst (forgetLaneMemory kind tier laneId now s))"
| restore: "affinity_step (now, s)
    (now, fst (restoreLaneAffinityRows (List.map_filter read_affinity_row (loadLaneAffinityRows written)) now s))"
| export: "affinity_step (now, s) (now, fst (exportLaneAffinityRows now s))"

inductive affinity_reachable :: "rat \<times> lane_affinity \<Rightarrow> bool" where
  start: "0 \<le> now \<Longrightarrow> affinity_reachable (now, \<lparr>la_map = [], la_notified = 0\<rparr>)"
| step: "affinity_reachable x \<Longrightarrow> affinity_step x y \<Longrightarrow> affinity_reachable y"

definition row_ok :: "rat \<Rightarrow> affinity_row \<Rightarrow> bool" where
  "row_ok now r \<longleftrightarrow> 0 \<le> af_until r \<and> af_until r \<le> now + MAX_AFFINITY_MS \<and> length (af_reason r) \<le> 200"

text \<open>A row that the file can hold: the tier and the lane have a name that is short enough and fit to be shown.\<close>

definition storable_row :: "affinity_row \<Rightarrow> bool" where
  "storable_row r \<longleftrightarrow> optional_ok (bounded_id 64) (af_tier r) \<and> bounded_id 200 (af_laneId r)"

definition affinity_ok :: "rat \<Rightarrow> lane_affinity \<Rightarrow> bool" where
  "affinity_ok now s \<longleftrightarrow> 0 \<le> now \<and> jm_ok (la_map s) \<and> (\<forall>(k, r)\<in>set (la_map s). k = row_affinity_key r \<and> row_ok now r)"

lemma affinity_ok_notify: "affinity_ok now (affinity_notify s) = affinity_ok now s"
  by (simp add: affinity_ok_def affinity_notify_def)

lemma affinity_ok_del: "affinity_ok now s \<Longrightarrow> affinity_ok now (s\<lparr>la_map := jm_del k (la_map s)\<rparr>)"
  using set_jm_del [of k "la_map s"] by (auto simp: affinity_ok_def jm.ok_del)

lemma read_affinity_row_ok:
  assumes "isLaneAffinityRow v" and "read_affinity_row v = Some r"
  shows "0 \<le> af_until r \<and> length (af_reason r) \<le> 200"
proof -
  have "0 \<le> q" if "finite_at_least_0 m" "rat_of m = Some q" for m q
    using that by (cases m rule: rat_of.cases) simp_all
  then show ?thesis using assms by (cases v) (auto split: Option.bind_splits option.splits)
qed

lemma loaded_affinity_rows:
  "\<forall>r\<in>set (List.map_filter read_affinity_row (loadLaneAffinityRows written)). 0 \<le> af_until r \<and> length (af_reason r) \<le> 200"
proof -
  have "isLaneAffinityRow v" if "v \<in> set (loadLaneAffinityRows written)" for v
    using that by (cases written rule: loadLaneAffinityRows.cases) (auto split: if_splits option.splits json.splits)
  then show ?thesis using read_affinity_row_ok by (fastforce simp: List.map_filter_def)
qed

lemma restored_affinity_ok:
  assumes "\<forall>r\<in>set rows. 0 \<le> af_until r \<and> length (af_reason r) \<le> 200" and "affinity_ok now s"
  shows "affinity_ok now (s\<lparr>la_map := fst (restore_affinity_rows now rows (la_map s))\<rparr>)"
  using assms
proof (induction rows arbitrary: s)
  case (Cons r rows)
  let ?s = "s\<lparr>la_map := jm_put (row_affinity_key r) (r\<lparr>af_until := min (af_until r) (now + MAX_AFFINITY_MS)\<rparr>) (la_map s)\<rparr>"
  have "affinity_ok now ?s" using Cons.prems
    by (auto simp: affinity_ok_def jm.ok_put row_ok_def row_affinity_key_def MAX_AFFINITY_MS_def dest!: jm_put_set)
  then show ?case using Cons.IH [of s] Cons.IH [of ?s] Cons.prems by (auto simp: Let_def split: prod.splits)
qed simp

lemma affinity_ok_step: "affinity_step x y \<Longrightarrow> affinity_ok (fst x) (snd x) \<Longrightarrow> affinity_ok (fst y) (snd y)"
proof (induction rule: affinity_step.induct)
  case (wait now later s)
  then show ?case by (fastforce simp: affinity_ok_def row_ok_def)
next
  case (remember now s kind tier laneId reason ttl)
  show ?case
  proof (cases "laneId = []")
    case True
    then show ?thesis using remember by (cases kind) (simp_all add: remember_lane_def pinLane_def demoteLane_def remember_def)
  next
    case False
    show ?thesis using remember clamp_bounds [of ttl "defaultWindowFor kind"]
      unfolding remember_lane_eq [OF False] fst_conv snd_conv affinity_ok_notify
      by (auto simp: affinity_ok_def jm.ok_put row_ok_def remembered_def row_affinity_key_def boundedReason_def dest!: jm_put_set)
  qed
next
  case (recall now s kind tier laneId)
  then show ?case using affinity_ok_del [of now s]
    by (auto simp: recall_def Let_def affinity_ok_notify split: option.split)
next
  case (clear now s tier laneId)
  have "affinity_ok now (s\<lparr>la_map := jm_del (affinity_key tier laneId Demote) (jm_del (affinity_key tier laneId Pin) (la_map s))\<rparr>)"
    using affinity_ok_del [OF affinity_ok_del [of now s "affinity_key tier laneId Pin"], of "affinity_key tier laneId Demote"] clear by simp
  then show ?case by (simp add: clearLaneAffinity_def LANE_AFFINITY_KINDS_def Let_def affinity_ok_notify)
next
  case (forget now s kind tier laneId)
  then show ?case using affinity_ok_del [of now s]
    by (auto simp: forgetLaneMemory_def Let_def affinity_ok_notify split: option.split)
next
  case (restore now s written)
  let ?rows = "List.map_filter read_affinity_row (loadLaneAffinityRows written)"
  obtain m n where m: "restore_affinity_rows now ?rows (la_map s) = (m, n)" by force
  have "affinity_ok now (s\<lparr>la_map := m\<rparr>)" using restored_affinity_ok [OF loaded_affinity_rows, of now s written] restore m by simp
  then show ?case by (simp add: restoreLaneAffinityRows_def m Let_def affinity_ok_notify)
next
  case (export now s)
  have "jm_ok (filter P (la_map s))" for P using export by (auto simp: affinity_ok_def jm_ok_def distinct_map_filter)
  then have "affinity_ok now (s\<lparr>la_map := filter (\<lambda>(k, r). now < af_until r) (la_map s)\<rparr>)"
    using export by (auto simp: affinity_ok_def)
  then show ?case by (simp add: exportLaneAffinityRows_def Let_def affinity_ok_notify)
qed

lemma affinity_reachable_ok: "affinity_reachable x \<Longrightarrow> affinity_ok (fst x) (snd x)"
proof (induction rule: affinity_reachable.induct)
  case (start now)
  then show ?case by (simp add: affinity_ok_def jm_ok_def)
qed (rule affinity_ok_step)

lemma affinity_row_reads:
  assumes "row_ok now r"
  shows "isLaneAffinityRow (encode_affinity_row r) \<longleftrightarrow> storable_row r" and "read_affinity_row (encode_affinity_row r) = Some r"
proof -
  have kind: "string_in (map affinity_name LANE_AFFINITY_KINDS) (Some (JStr (affinity_name k)))"
    "named affinity_name LANE_AFFINITY_KINDS (Some (JStr (affinity_name k))) = Some k" for k
    by (cases k; simp add: LANE_AFFINITY_KINDS_def named_def)+
  show "isLaneAffinityRow (encode_affinity_row r) \<longleftrightarrow> storable_row r" using assms kind(1)
    by (cases "af_tier r") (auto simp: encode_affinity_row_def row_ok_def storable_row_def optional_ok_def isBoundedId_def null_or_def
        simp del: string_in.simps list.map)
  show "read_affinity_row (encode_affinity_row r) = Some r" using kind(2)
    by (cases "af_tier r") (simp_all add: encode_affinity_row_def)
qed

definition clamped :: "rat \<Rightarrow> affinity_row \<Rightarrow> affinity_row" where
  "clamped now r = r\<lparr>af_until := min (af_until r) (now + MAX_AFFINITY_MS)\<rparr>"

lemma restored_affinity_get:
  assumes "distinct (map row_affinity_key rows)" and "\<forall>r\<in>set rows. jm_get m (row_affinity_key r) = None"
  shows "jm_get (fst (restore_affinity_rows now rows m)) k =
    (case map_of (map (\<lambda>r. (row_affinity_key r, clamped now r)) (filter (\<lambda>r. now < af_until r) rows)) k of
       Some r \<Rightarrow> Some r | None \<Rightarrow> jm_get m k)"
  using assms
proof (induction rows arbitrary: m)
  case (Cons r rows)
  show ?case
  proof (cases "now < af_until r")
    case True
    let ?m = "jm_put (row_affinity_key r) (clamped now r) m"
    have "\<forall>x\<in>set rows. jm_get ?m (row_affinity_key x) = None"
      using Cons.prems by (simp add: jm.get_put) (metis imageI)
    then have "jm_get (fst (restore_affinity_rows now rows ?m)) k =
        (case map_of (map (\<lambda>r. (row_affinity_key r, clamped now r)) (filter (\<lambda>r. now < af_until r) rows)) k of
           Some r \<Rightarrow> Some r | None \<Rightarrow> jm_get ?m k)"
      using Cons by simp
    moreover have "fst (restore_affinity_rows now (r # rows) m) = fst (restore_affinity_rows now rows ?m)"
      using Cons.prems True by (simp add: Let_def clamped_def split: prod.split)
    moreover have "map_of (map (\<lambda>r. (row_affinity_key r, clamped now r)) (filter (\<lambda>r. now < af_until r) rows)) (row_affinity_key r) = None"
      using Cons.prems by (auto simp: map_of_eq_None_iff)
    ultimately show ?thesis using True by (auto simp: jm.get_put split: option.split)
  qed (use Cons in simp)
qed simp

definition reload_affinity :: "rat \<Rightarrow> rat \<Rightarrow> lane_affinity \<Rightarrow> lane_affinity" where
  "reload_affinity now later s = fst (restoreLaneAffinityRows
     (List.map_filter read_affinity_row (loadLaneAffinityRows (Some (saveLaneAffinityRows (snd (exportLaneAffinityRows now s))))))
     later \<lparr>la_map = [], la_notified = 0\<rparr>)"

lemma loaded_saved_rows:
  assumes "\<forall>r\<in>set rows. row_ok now r"
  shows "List.map_filter read_affinity_row (loadLaneAffinityRows (Some (saveLaneAffinityRows rows))) = filter storable_row rows"
proof -
  have "loadLaneAffinityRows (Some (saveLaneAffinityRows rows)) = filter isLaneAffinityRow (map encode_affinity_row rows)"
    by (simp add: saveLaneAffinityRows_def)
  moreover have "List.map_filter read_affinity_row (filter isLaneAffinityRow (map encode_affinity_row rows)) = filter storable_row rows"
    using assms
  proof (induction rows)
    case (Cons r rows)
    then have "isLaneAffinityRow (encode_affinity_row r) \<longleftrightarrow> storable_row r" "read_affinity_row (encode_affinity_row r) = Some r"
      using affinity_row_reads [of now r] by simp_all
    then show ?case using Cons by (cases "storable_row r") (simp_all add: List.map_filter_simps)
  qed (simp add: List.map_filter_simps)
  ultimately show ?thesis by simp
qed

lemma exported_keys_distinct:
  assumes "affinity_ok now s"
  shows "distinct (map row_affinity_key (snd (exportLaneAffinityRows now s)))"
proof -
  have "mset (map row_affinity_key (snd (exportLaneAffinityRows now s))) =
      mset (map row_affinity_key (map snd (filter (\<lambda>(k, r). now < af_until r) (la_map s))))"
    by (simp only: exportLaneAffinityRows_def Let_def snd_conv mset_map mset_js_sort)
  also have "map row_affinity_key (map snd (filter (\<lambda>(k, r). now < af_until r) (la_map s))) = map fst (filter (\<lambda>(k, r). now < af_until r) (la_map s))"
    using assms by (auto simp: affinity_ok_def)
  finally have same: "mset (map row_affinity_key (snd (exportLaneAffinityRows now s))) = mset (map fst (filter (\<lambda>(k, r). now < af_until r) (la_map s)))" .
  have "distinct (map fst (filter (\<lambda>(k, r). now < af_until r) (la_map s)))"
    using assms by (intro distinct_map_filter) (simp add: affinity_ok_def jm_ok_def)
  then show ?thesis using mset_eq_imp_distinct_iff [OF same] by simp
qed

text \<open>C17. Pins and demotions survive a restart, as far as the file can hold them: what any reachable memory writes and a later process restores
  has, at every moment after the restoration, exactly those rows alive that the memory had and whose tier (at most 64
  characters) and lane (at most 200) have a name the file may hold; a row of a longer or unsafe name is dropped alone.\<close>

theorem affinity_survives_restart:
  assumes "affinity_reachable (now, s)" and "now \<le> later" and "later \<le> t"
  shows "live t (reload_affinity now later s) k =
    (case live t s k of None \<Rightarrow> None | Some r \<Rightarrow> if storable_row r then Some r else None)"
proof -
  have ok: "affinity_ok now s" using affinity_reachable_ok [OF assms(1)] by simp
  then have jm: "jm_ok (la_map s)" by (simp add: affinity_ok_def)
  let ?all = "snd (exportLaneAffinityRows now s)"
  let ?rows = "filter storable_row ?all"
  have live_row: "k = row_affinity_key r \<and> row_ok now r" if "live now s k = Some r" for k r
    using that ok jm_get_in [of "la_map s" k r] by (auto simp: live_def affinity_ok_def split: option.splits if_splits)
  have exported: "r \<in> set ?all \<longleftrightarrow> live now s (row_affinity_key r) = Some r" for r
    using live_export(2) [OF jm order_refl] live_row by blast
  then have rows: "r \<in> set ?rows \<longleftrightarrow> live now s (row_affinity_key r) = Some r \<and> storable_row r" for r by simp
  have loaded: "List.map_filter read_affinity_row (loadLaneAffinityRows (Some (saveLaneAffinityRows ?all))) = ?rows"
    using exported live_row by (intro loaded_saved_rows [of _ now]) blast
  have "distinct (map row_affinity_key ?all)" using exported_keys_distinct [OF ok] .
  then have distinct: "distinct (map row_affinity_key ?rows)" by (rule distinct_map_filter)
  let ?kept = "filter (\<lambda>r. later < af_until r) ?rows"
  have kept: "map (\<lambda>r. (row_affinity_key r, clamped later r)) ?kept = map (\<lambda>r. (row_affinity_key r, r)) ?kept"
    using rows live_row assms(2) by (fastforce simp: clamped_def row_ok_def min_def)
  have restored: "la_map (reload_affinity now later s) = fst (restore_affinity_rows later ?rows [])"
    unfolding reload_affinity_def loaded
    by (cases "restore_affinity_rows later ?rows []") (simp add: restoreLaneAffinityRows_def Let_def affinity_notify_def)
  have empty: "\<forall>r\<in>set ?rows. jm_get [] (row_affinity_key r) = (None :: affinity_row option)" by simp
  have got: "jm_get (la_map (reload_affinity now later s)) k = map_of (map (\<lambda>r. (row_affinity_key r, r)) ?kept) k"
    unfolding restored restored_affinity_get [OF distinct empty] kept by (simp split: option.split)
  have "distinct (map fst (map (\<lambda>r. (row_affinity_key r, r)) ?kept))" using distinct_map_filter [OF distinct] by (simp add: comp_def)
  then have some: "jm_get (la_map (reload_affinity now later s)) k = Some r \<longleftrightarrow> live now s k = Some r \<and> storable_row r \<and> later < af_until r" for r
    unfolding got using rows live_row by (auto simp: map_of_eq_Some_iff image_iff)
  have "jm_get (la_map (reload_affinity now later s)) k =
      (case live now s k of None \<Rightarrow> None | Some r \<Rightarrow> if storable_row r \<and> later < af_until r then Some r else None)"
  proof (cases "live now s k")
    case None
    then have "jm_get (la_map (reload_affinity now later s)) k \<noteq> Some r" for r using some [of r] by simp
    then show ?thesis using None by (metis not_None_eq option.simps(4))
  next
    case (Some r)
    then have got_some: "jm_get (la_map (reload_affinity now later s)) k = Some r' \<longleftrightarrow> r' = r \<and> storable_row r \<and> later < af_until r" for r'
      using some [of r'] by auto
    show ?thesis using Some got_some [of r] got_some [of "the (jm_get (la_map (reload_affinity now later s)) k)"]
      by (cases "jm_get (la_map (reload_affinity now later s)) k") auto
  qed
  then show ?thesis using assms(2,3) by (auto simp: live_def split: option.splits)
qed

definition long_tier :: string where "long_tier = replicate 65 (CHR ''t'')"

definition two_pins :: lane_affinity where
  "two_pins = remember_lane Pin (Some long_tier) ''gpt'' ''asked'' (Fin 10) 0
     (remember_lane Pin None ''gpt'' ''asked'' (Fin 10) 0 \<lparr>la_map = [], la_notified = 0\<rparr>)"

lemma two_pins_reachable: "affinity_reachable (0, two_pins)"
  unfolding two_pins_def
  by (intro affinity_reachable.step [OF affinity_reachable.step [OF affinity_reachable.start affinity_step.remember] affinity_step.remember])
     simp

text \<open>The pin of the one ladder survives; the pin on a tier of 65 characters does not.\<close>

theorem affinity_survives_restart_witness:
  "live 5 (reload_affinity 0 3 two_pins) (affinity_key None ''gpt'' Pin) = Some (remembered Pin None ''gpt'' ''asked'' (Fin 10) 0) \<and>
   live 5 (reload_affinity 0 3 two_pins) (affinity_key (Some long_tier) ''gpt'' Pin) = None"
proof -
  have "storable_row (remembered Pin None ''gpt'' ''asked'' (Fin 10) 0)"
    by (simp add: storable_row_def remembered_def optional_ok_def bounded_id_def isDashboardSafeId_def DASHBOARD_SAFE_ID_MAX_BYTES_def)
  moreover have "\<not> storable_row (remembered Pin (Some long_tier) ''gpt'' ''asked'' (Fin 10) 0)"
    by (simp add: storable_row_def remembered_def optional_ok_def bounded_id_def long_tier_def)
  moreover have "affinity_key (Some long_tier) ''gpt'' Pin \<noteq> affinity_key None ''gpt'' Pin"
    by (simp add: affinity_key_def tier_text_def long_tier_def)
  ultimately show ?thesis
    using affinity_survives_restart [OF two_pins_reachable, of 3 5 "affinity_key None ''gpt'' Pin"]
      affinity_survives_restart [OF two_pins_reachable, of 3 5 "affinity_key (Some long_tier) ''gpt'' Pin"]
    by (simp add: two_pins_def live_remember clampWindow_def MAX_AFFINITY_MS_def)
qed

end
