(* ===== verification/Lane_Broker.thy ===== *)
theory Lane_Broker
  imports Json_Read
begin

text \<open>
  The broker of lane executions (\<^verbatim>\<open>lane-execution-broker.ts\<close>): the parsers of its requests and of its public snapshot, the
  stored executions, and its operations. An execution is an object: executions are numbered in the order they were launched
  and the map leads from an identifier to a number, so that a settlement reaches its object whatever the map then holds. The
  launcher, the clock and the digest are parameters; what a launched process reports (its activity, its result) is the
  untyped value the code checks.
\<close>

section \<open>Constants and requests\<close>

definition LANE_EXECUTION_SCHEMA :: string where "LANE_EXECUTION_SCHEMA = ''mcp.lane-execution.v1''"
definition UNKNOWN_LANE_EXECUTION_MESSAGE :: string where "UNKNOWN_LANE_EXECUTION_MESSAGE = ''unknown lane execution id''"
definition MAX_BROKER_TERMINAL_EXECUTIONS :: int where "MAX_BROKER_TERMINAL_EXECUTIONS = 100"
definition MAX_BROKER_TASK_CHARS :: nat where "MAX_BROKER_TASK_CHARS = 32 * 1024 * 1024"
definition MAX_BROKER_PATH_CHARS :: nat where "MAX_BROKER_PATH_CHARS = 4096"
definition MAX_BROKER_ID_CHARS :: nat where "MAX_BROKER_ID_CHARS = 200"
definition MAX_BROKER_TIMEOUT_MS :: nat where "MAX_BROKER_TIMEOUT_MS = 24 * 60 * 60 * 1000"
definition MAX_RESULT_CHARS :: nat where "MAX_RESULT_CHARS = 16 * 1024 * 1024"

definition id_char :: "char \<Rightarrow> bool" where
  "id_char c =
     (let n = of_char c :: nat in (65 \<le> n \<and> n \<le> 90) \<or> (97 \<le> n \<and> n \<le> 122) \<or> (48 \<le> n \<and> n \<le> 57) \<or> c \<in> set ''_.:-'')"

definition ID_PATTERN :: "string \<Rightarrow> bool" where
  "ID_PATTERN s \<longleftrightarrow> s \<noteq> [] \<and> list_all id_char s"

datatype lane_status = LRunning | LCompleted | LFailed | LTimedOut | LCancelled

fun lane_status_name :: "lane_status \<Rightarrow> string" where
  "lane_status_name LRunning = ''running''"
| "lane_status_name LCompleted = ''completed''"
| "lane_status_name LFailed = ''failed''"
| "lane_status_name LTimedOut = ''timed_out''"
| "lane_status_name LCancelled = ''cancelled''"

datatype lane_host = Routed | Bypassed | UnknownHost

fun lane_host_name :: "lane_host \<Rightarrow> string" where
  "lane_host_name Routed = ''routed''"
| "lane_host_name Bypassed = ''bypassed''"
| "lane_host_name UnknownHost = ''unknown''"

record lane_start =
  ls_executionId :: string
  ls_jobId :: string
  ls_laneId :: string
  ls_task :: string
  ls_cwd :: string
  ls_timeoutMs :: nat
  ls_depth :: nat
  ls_tier :: "string option"
  ls_readOnly :: "bool option"
  ls_callerRoot :: "string option"
  ls_host :: "lane_host option"
  ls_entrypoint :: "string option"

datatype lane_request = LStart lane_start | LStatus string | LCancel string

text \<open>The checks of one member.\<close>

fun exactKeys :: "string list \<Rightarrow> (string \<times> json) list \<Rightarrow> bool" where
  "exactKeys allowed ms = list_all (\<lambda>(k, v). k \<in> set allowed) ms"

definition is_bounded_id :: "string \<Rightarrow> bool" where
  "is_bounded_id s \<longleftrightarrow> 0 < length s \<and> length s \<le> MAX_BROKER_ID_CHARS \<and> ID_PATTERN s"

definition boundedId :: "json option \<Rightarrow> string option" where
  "boundedId v = Option.bind (str_of v) (\<lambda>s. if is_bounded_id s then Some s else None)"

definition bounded_text :: "nat \<Rightarrow> nat \<Rightarrow> json option \<Rightarrow> string option" where
  "bounded_text least most v = Option.bind (str_of v) (\<lambda>s. if least \<le> length s \<and> length s \<le> most then Some s else None)"

definition MAX_SAFE_INTEGER :: nat where "MAX_SAFE_INTEGER = 9007199254740991"

text \<open>\<^verbatim>\<open>Number.isSafeInteger(v) && v >= 0\<close>\<close>

definition safe_natural :: "json option \<Rightarrow> nat option" where
  "safe_natural v = Option.bind (int_of v) (\<lambda>i. if 0 \<le> i \<and> i \<le> int MAX_SAFE_INTEGER then Some (nat i) else None)"

fun bool_of :: "json option \<Rightarrow> bool option" where
  "bool_of (Some (JBool b)) = Some b"
| "bool_of _ = None"

definition parseStart :: "(string \<times> json) list \<Rightarrow> lane_start option" where
  "parseStart ms =
     (if \<not> exactKeys [''action'', ''executionId'', ''jobId'', ''laneId'', ''task'', ''cwd'', ''timeoutMs'', ''depth'', ''tier'',
         ''readOnly'', ''callerRoot'', ''host'', ''entrypoint''] ms then None
      else do {
        eid \<leftarrow> boundedId (member ms ''executionId'');
        job \<leftarrow> boundedId (member ms ''jobId'');
        lane \<leftarrow> boundedId (member ms ''laneId'');
        task \<leftarrow> bounded_text 1 MAX_BROKER_TASK_CHARS (member ms ''task'');
        cwd \<leftarrow> bounded_text 1 MAX_BROKER_PATH_CHARS (member ms ''cwd'');
        timeout \<leftarrow> safe_natural (member ms ''timeoutMs'');
        (if timeout < 1 \<or> MAX_BROKER_TIMEOUT_MS < timeout then None else do {
          depth \<leftarrow> safe_natural (member ms ''depth'');
          tier \<leftarrow> opt_member boundedId (member ms ''tier'');
          readOnly \<leftarrow> opt_member bool_of (member ms ''readOnly'');
          root \<leftarrow> opt_member (bounded_text 0 MAX_BROKER_PATH_CHARS) (member ms ''callerRoot'');
          (if readOnly = Some True \<and> (root = None \<or> root = Some []) then None else do {
            host \<leftarrow> opt_member (named lane_host_name [Routed, Bypassed, UnknownHost]) (member ms ''host'');
            entry \<leftarrow> opt_member (bounded_text 0 MAX_BROKER_ID_CHARS) (member ms ''entrypoint'');
            Some \<lparr>ls_executionId = eid, ls_jobId = job, ls_laneId = lane, ls_task = task, ls_cwd = cwd, ls_timeoutMs = timeout,
              ls_depth = depth, ls_tier = tier, ls_readOnly = readOnly, ls_callerRoot = root, ls_host = host,
              ls_entrypoint = entry\<rparr> }) }) })"

fun parseLaneExecutionBrokerRequest :: "json \<Rightarrow> lane_request option" where
  "parseLaneExecutionBrokerRequest (JObj ms) =
     (if member ms ''action'' = Some (JStr ''start'') then map_option LStart (parseStart ms)
      else if \<not> exactKeys [''action'', ''executionId''] ms then None
      else do {
        eid \<leftarrow> boundedId (member ms ''executionId'');
        (if member ms ''action'' = Some (JStr ''status'') then Some (LStatus eid)
         else if member ms ''action'' = Some (JStr ''cancel'') then Some (LCancel eid)
         else None) })"
| "parseLaneExecutionBrokerRequest _ = None"

definition startSignature :: "(json \<Rightarrow> string) \<Rightarrow> lane_start \<Rightarrow> string" where
  "startSignature digest r = digest (JArr [JStr (ls_jobId r), JStr (ls_laneId r), JStr (ls_task r), JStr (ls_cwd r),
     num (of_nat (ls_timeoutMs r)), num (of_nat (ls_depth r)), nullable JStr (ls_tier r), nullable JBool (ls_readOnly r),
     nullable JStr (ls_callerRoot r), nullable (\<lambda>h. JStr (lane_host_name h)) (ls_host r), nullable JStr (ls_entrypoint r)])"

section \<open>What a process reports\<close>

record lane_run_result =
  lr_code :: "rat option"
  lr_stdout :: string
  lr_stderr :: string
  lr_timedOut :: bool

record raw_result =
  rw_code :: "json option"
  rw_stdout :: "json option"
  rw_stderr :: "json option"
  rw_timedOut :: "json option"

record lane_activity =
  la_stdoutBytes :: nat
  la_stderrBytes :: nat
  la_lastOutputAt :: "rat option"
  la_cpuMs :: "rat option"
  la_relayInFlight :: "nat option"
  la_relayLastActivityAt :: "rat option"

definition bounded :: "string \<Rightarrow> string" where
  "bounded v =
     (if length v \<le> MAX_RESULT_CHARS then v
      else (let removed = length v - MAX_RESULT_CHARS in
        ''[broker: first '' @ show_nat removed @ '' characters cut; the tail follows]'' @ [CHR 0x0A] @ drop removed v))"

definition idle_activity :: lane_activity where
  "idle_activity = \<lparr>la_stdoutBytes = 0, la_stderrBytes = 0, la_lastOutputAt = None, la_cpuMs = None, la_relayInFlight = None,
     la_relayLastActivityAt = None\<rparr>"

definition or_0 :: "nat option \<Rightarrow> nat" where
  "or_0 v = (case v of None \<Rightarrow> 0 | Some n \<Rightarrow> n)"

text \<open>The reading is \<open>None\<close> where there is no handle, where it has no activity reader, and where the reader throws.\<close>

definition safeActivity :: "(string \<times> json) list option \<Rightarrow> lane_activity" where
  "safeActivity reading =
     (case reading of
        None \<Rightarrow> idle_activity
      | Some v \<Rightarrow> \<lparr>la_stdoutBytes = or_0 (safe_natural (member v ''stdoutBytes'')),
          la_stderrBytes = or_0 (safe_natural (member v ''stderrBytes'')),
          la_lastOutputAt = rat_of (member v ''lastOutputAt''),
          la_cpuMs = Option.bind (rat_of (member v ''cpuMs'')) (\<lambda>q. if 0 \<le> q then Some q else None),
          la_relayInFlight = safe_natural (member v ''relayInFlight''),
          la_relayLastActivityAt = rat_of (member v ''relayLastActivityAt'')\<rparr>)"

definition terminalStatus :: "lane_run_result \<Rightarrow> lane_status" where
  "terminalStatus r = (if lr_timedOut r then LTimedOut else if lr_code r = Some 0 then LCompleted else LFailed)"

section \<open>The public snapshot\<close>

record lane_snapshot =
  ln_executionId :: string
  ln_jobId :: string
  ln_laneId :: string
  ln_status :: lane_status
  ln_startedAt :: rat
  ln_endedAt :: "rat option"
  ln_stdoutBytes :: nat
  ln_stderrBytes :: nat
  ln_lastOutputAt :: "rat option"
  ln_cpuMs :: "rat option"
  ln_relayInFlight :: "nat option"
  ln_relayLastActivityAt :: "rat option"
  ln_launchNotes :: "string list option"
  ln_result :: "lane_run_result option"

text \<open>The object the code returns, member by member.\<close>

definition encode_result :: "lane_run_result \<Rightarrow> (string \<times> json) list" where
  "encode_result r = [(''code'', nullable num (lr_code r)), (''stdout'', JStr (lr_stdout r)), (''stderr'', JStr (lr_stderr r)),
     (''timedOut'', JBool (lr_timedOut r))]"

definition encode_snapshot :: "lane_snapshot \<Rightarrow> json" where
  "encode_snapshot s = JObj ([(''schema'', JStr LANE_EXECUTION_SCHEMA), (''executionId'', JStr (ln_executionId s)),
       (''jobId'', JStr (ln_jobId s)), (''laneId'', JStr (ln_laneId s)), (''status'', JStr (lane_status_name (ln_status s))),
       (''startedAt'', num (ln_startedAt s)), (''endedAt'', nullable num (ln_endedAt s)),
       (''stdoutBytes'', num (of_nat (ln_stdoutBytes s))), (''stderrBytes'', num (of_nat (ln_stderrBytes s))),
       (''lastOutputAt'', nullable num (ln_lastOutputAt s))]
     @ optional ''cpuMs'' (map_option num (ln_cpuMs s))
     @ optional ''relayInFlight'' (map_option (\<lambda>n. num (of_nat n)) (ln_relayInFlight s))
     @ optional ''relayLastActivityAt'' (map_option num (ln_relayLastActivityAt s))
     @ optional ''launchNotes'' (map_option (\<lambda>ns. JArr (map JStr ns)) (ln_launchNotes s))
     @ (case ln_result s of None \<Rightarrow> [] | Some r \<Rightarrow> encode_result r))"

definition SNAPSHOT_KEYS :: "string list" where
  "SNAPSHOT_KEYS = [''schema'', ''executionId'', ''jobId'', ''laneId'', ''status'', ''startedAt'', ''endedAt'', ''stdoutBytes'',
     ''stderrBytes'', ''lastOutputAt'', ''cpuMs'', ''relayInFlight'', ''relayLastActivityAt'', ''launchNotes'', ''code'', ''stdout'',
     ''stderr'', ''timedOut'']"

definition at_least_0 :: "json option \<Rightarrow> rat option" where
  "at_least_0 v = Option.bind (rat_of v) (\<lambda>q. if 0 \<le> q then Some q else None)"

definition read_note :: "json \<Rightarrow> string option" where
  "read_note v = bounded_text 0 500 (Some v)"

definition read_notes :: "json option \<Rightarrow> string list option" where
  "read_notes v = (case v of Some (JArr xs) \<Rightarrow> if 16 < length xs then None else all_some (map read_note xs) | _ \<Rightarrow> None)"

text \<open>The four members of the process result: none of them, or all four and not in contradiction with the status.\<close>

definition result_consistent :: "lane_status \<Rightarrow> lane_run_result \<Rightarrow> bool" where
  "result_consistent st r \<longleftrightarrow>
     (st = LCompleted \<longrightarrow> lr_code r = Some 0 \<and> \<not> lr_timedOut r) \<and>
     (st = LFailed \<longrightarrow> lr_code r \<noteq> Some 0 \<and> \<not> lr_timedOut r) \<and>
     (st = LTimedOut \<longrightarrow> lr_timedOut r)"

definition read_result :: "lane_status \<Rightarrow> (string \<times> json) list \<Rightarrow> lane_run_result option option" where
  "read_result st ms =
     (let present = length (filter (\<lambda>k. member ms k \<noteq> None) [''code'', ''stdout'', ''stderr'', ''timedOut'']) in
      if present \<noteq> 0 \<and> present \<noteq> 4 then None
      else if st = LRunning \<and> present \<noteq> 0 then None
      else if st \<noteq> LRunning \<and> st \<noteq> LCancelled \<and> present \<noteq> 4 then None
      else if present = 0 then Some None
      else do {
        code \<leftarrow> null_member rat_of (member ms ''code'');
        out \<leftarrow> str_of (member ms ''stdout'');
        err \<leftarrow> str_of (member ms ''stderr'');
        late \<leftarrow> bool_of (member ms ''timedOut'');
        (let r = \<lparr>lr_code = code, lr_stdout = out, lr_stderr = err, lr_timedOut = late\<rparr> in
         if result_consistent st r then Some (Some r) else None) })"

fun parseLaneExecutionSnapshot :: "json \<Rightarrow> lane_snapshot option" where
  "parseLaneExecutionSnapshot (JObj ms) =
     (if \<not> exactKeys SNAPSHOT_KEYS ms then None
      else if member ms ''schema'' \<noteq> Some (JStr LANE_EXECUTION_SCHEMA) then None
      else do {
        eid \<leftarrow> boundedId (member ms ''executionId'');
        job \<leftarrow> boundedId (member ms ''jobId'');
        lane \<leftarrow> boundedId (member ms ''laneId'');
        st \<leftarrow> named lane_status_name [LRunning, LCompleted, LFailed, LTimedOut, LCancelled] (member ms ''status'');
        started \<leftarrow> rat_of (member ms ''startedAt'');
        ended \<leftarrow> null_member rat_of (member ms ''endedAt'');
        (if (if st = LRunning then ended \<noteq> None else ended = None) then None else do {
          outBytes \<leftarrow> safe_natural (member ms ''stdoutBytes'');
          errBytes \<leftarrow> safe_natural (member ms ''stderrBytes'');
          lastOutput \<leftarrow> null_member rat_of (member ms ''lastOutputAt'');
          cpu \<leftarrow> opt_member at_least_0 (member ms ''cpuMs'');
          inFlight \<leftarrow> opt_member safe_natural (member ms ''relayInFlight'');
          lastActivity \<leftarrow> opt_member rat_of (member ms ''relayLastActivityAt'');
          notes \<leftarrow> opt_member read_notes (member ms ''launchNotes'');
          r \<leftarrow> read_result st ms;
          Some \<lparr>ln_executionId = eid, ln_jobId = job, ln_laneId = lane, ln_status = st, ln_startedAt = started, ln_endedAt = ended,
            ln_stdoutBytes = outBytes, ln_stderrBytes = errBytes, ln_lastOutputAt = lastOutput, ln_cpuMs = cpu,
            ln_relayInFlight = inFlight, ln_relayLastActivityAt = lastActivity, ln_launchNotes = notes, ln_result = r\<rparr> }) })"
| "parseLaneExecutionSnapshot _ = None"

section \<open>The broker\<close>

record stored_execution =
  sx_executionId :: string
  sx_jobId :: string
  sx_laneId :: string
  sx_signature :: string
  sx_status :: lane_status
  sx_startedAt :: rat
  sx_endedAt :: "rat option"
  sx_handle :: bool
  sx_result :: "lane_run_result option"
  sx_cancelRequested :: bool
  sx_launchNotes :: "string list"

text \<open>
  \<open>lb_objects ! n\<close> is the execution launched as the \<open>n\<close>-th; \<open>sx_handle\<close> says that its handle is still held.
  \<open>lb_killed\<close> are the calls of \<^verbatim>\<open>handle.cancel()\<close> so far, whether or not the callback threw.
\<close>

record lane_broker =
  lb_objects :: "stored_execution list"
  lb_executions :: "(string, nat) jmap"
  lb_maxTerminal :: int
  lb_killed :: "nat list"

definition new_broker :: "int \<Rightarrow> lane_broker" where
  "new_broker maxTerminal = \<lparr>lb_objects = [], lb_executions = [], lb_maxTerminal = maxTerminal, lb_killed = []\<rparr>"

datatype lane_refusal = Status400 | Status404 | Status409 | Status503

datatype lane_answer = LaneOk lane_snapshot | LaneRefused lane_refusal string

datatype launch_outcome = LaunchThrew | LaunchRefused string | Launched "json list"

definition execution_snapshot :: "stored_execution \<Rightarrow> lane_activity \<Rightarrow> lane_snapshot" where
  "execution_snapshot x a =
     \<lparr>ln_executionId = sx_executionId x, ln_jobId = sx_jobId x, ln_laneId = sx_laneId x, ln_status = sx_status x,
      ln_startedAt = sx_startedAt x, ln_endedAt = sx_endedAt x,
      ln_stdoutBytes = (case sx_result x of None \<Rightarrow> la_stdoutBytes a | Some r \<Rightarrow> utf8_length (lr_stdout r)),
      ln_stderrBytes = (case sx_result x of None \<Rightarrow> la_stderrBytes a | Some r \<Rightarrow> utf8_length (lr_stderr r)),
      ln_lastOutputAt = la_lastOutputAt a, ln_cpuMs = la_cpuMs a, ln_relayInFlight = la_relayInFlight a,
      ln_relayLastActivityAt = la_relayLastActivityAt a,
      ln_launchNotes = (if sx_launchNotes x = [] then None else Some (sx_launchNotes x)),
      ln_result = sx_result x\<rparr>"

definition kept_notes :: "json list \<Rightarrow> string list" where
  "kept_notes notes = map (take 500) (take 16 (List.map_filter (\<lambda>v. str_of (Some v)) notes))"

definition lane_start_execution ::
  "(json \<Rightarrow> string) \<Rightarrow> (lane_start \<Rightarrow> launch_outcome) \<Rightarrow> rat \<Rightarrow> lane_start \<Rightarrow> lane_broker \<Rightarrow> lane_broker \<times> lane_answer" where
  "lane_start_execution digest launch now r b =
     (let sig = startSignature digest r in
      case jm_get (lb_executions b) (ls_executionId r) of
        Some n \<Rightarrow>
          if sx_signature (lb_objects b ! n) \<noteq> sig
          then (b, LaneRefused Status409 ''lane execution id already exists with a different start request'')
          else (b, LaneOk (execution_snapshot (lb_objects b ! n) idle_activity))
      | None \<Rightarrow>
          (case launch r of
             LaunchThrew \<Rightarrow> (b, LaneRefused Status503 ''lane execution launch failed'')
           | LaunchRefused message \<Rightarrow> (b, LaneRefused Status400 message)
           | Launched notes \<Rightarrow>
               (let x = \<lparr>sx_executionId = ls_executionId r, sx_jobId = ls_jobId r, sx_laneId = ls_laneId r, sx_signature = sig,
                      sx_status = LRunning, sx_startedAt = now, sx_endedAt = None, sx_handle = True, sx_result = None,
                      sx_cancelRequested = False, sx_launchNotes = kept_notes notes\<rparr>
                in (b\<lparr>lb_objects := lb_objects b @ [x],
                      lb_executions := jm_put (ls_executionId r) (length (lb_objects b)) (lb_executions b)\<rparr>,
                    LaneOk (execution_snapshot x idle_activity)))))"

text \<open>
  A status poll finds its execution, waits for the activity sample, and reads the execution when the sample is there:
  \<open>b\<close> is the broker when the poll arrives, \<open>b'\<close> when the sample does.
\<close>

definition lane_status_poll :: "string \<Rightarrow> (string \<times> json) list option \<Rightarrow> lane_broker \<Rightarrow> lane_broker \<Rightarrow> lane_answer" where
  "lane_status_poll eid reading b b' =
     (case jm_get (lb_executions b) eid of
        None \<Rightarrow> LaneRefused Status404 UNKNOWN_LANE_EXECUTION_MESSAGE
      | Some n \<Rightarrow> LaneOk (execution_snapshot (lb_objects b' ! n)
          (safeActivity (if sx_handle (lb_objects b ! n) then reading else None))))"

definition lane_settled :: "lane_broker \<Rightarrow> nat \<Rightarrow> bool" where
  "lane_settled b n \<longleftrightarrow> sx_status (lb_objects b ! n) \<noteq> LRunning \<and> \<not> sx_handle (lb_objects b ! n)"

definition ended_key :: "lane_broker \<Rightarrow> nat \<Rightarrow> rat" where
  "ended_key b n = (case sx_endedAt (lb_objects b ! n) of None \<Rightarrow> of_nat MAX_SAFE_INTEGER | Some t \<Rightarrow> t)"

definition prune_executions :: "lane_broker \<Rightarrow> lane_broker" where
  "prune_executions b =
     (if lb_maxTerminal b < 0 then b
      else
        (let terminal = js_sort (\<lambda>m n. ended_key b m \<le> ended_key b n) (filter (lane_settled b) (map snd (lb_executions b)));
             surplus = int (length terminal) - lb_maxTerminal b
         in b\<lparr>lb_executions :=
              fold (\<lambda>n. jm_del (sx_executionId (lb_objects b ! n))) (take (nat surplus) terminal) (lb_executions b)\<rparr>))"

definition request_cancel :: "rat \<Rightarrow> nat \<Rightarrow> lane_broker \<Rightarrow> lane_broker" where
  "request_cancel now n b =
     b\<lparr>lb_objects := (lb_objects b)[n := (lb_objects b ! n)\<lparr>sx_cancelRequested := True, sx_status := LCancelled,
           sx_endedAt := Some now\<rparr>],
       lb_killed := (if sx_handle (lb_objects b ! n) then lb_killed b @ [n] else lb_killed b)\<rparr>"

definition lane_cancel :: "rat \<Rightarrow> string \<Rightarrow> lane_broker \<Rightarrow> lane_broker \<times> lane_answer" where
  "lane_cancel now eid b =
     (case jm_get (lb_executions b) eid of
        None \<Rightarrow> (b, LaneRefused Status404 UNKNOWN_LANE_EXECUTION_MESSAGE)
      | Some n \<Rightarrow>
          (let b1 = (if sx_status (lb_objects b ! n) = LRunning then prune_executions (request_cancel now n b) else b)
           in (b1, LaneOk (execution_snapshot (lb_objects b1 ! n) idle_activity))))"

text \<open>\<open>clock n\<close> is the reading taken when the execution \<open>n\<close> is stopped.\<close>

definition shutdown_one :: "(nat \<Rightarrow> rat) \<Rightarrow> nat \<Rightarrow> lane_broker \<Rightarrow> lane_broker" where
  "shutdown_one clock n b = (if sx_status (lb_objects b ! n) = LRunning then request_cancel (clock n) n b else b)"

definition lane_shutdown :: "(nat \<Rightarrow> rat) \<Rightarrow> lane_broker \<Rightarrow> lane_broker" where
  "lane_shutdown clock b = fold (shutdown_one clock) (map snd (lb_executions b)) b"

definition sanitized :: "raw_result \<Rightarrow> lane_run_result" where
  "sanitized raw = \<lparr>lr_code = rat_of (rw_code raw),
     lr_stdout = bounded (case str_of (rw_stdout raw) of Some s \<Rightarrow> s | None \<Rightarrow> []),
     lr_stderr = bounded (case str_of (rw_stderr raw) of Some s \<Rightarrow> s | None \<Rightarrow> []),
     lr_timedOut = (rw_timedOut raw = Some (JBool True))\<rparr>"

text \<open>What is settled when the result's promise is rejected; \<open>message\<close> is that of an \<^verbatim>\<open>Error\<close>.\<close>

definition rejected_result :: "string option \<Rightarrow> raw_result" where
  "rejected_result message = \<lparr>rw_code = Some JNull, rw_stdout = Some (JStr []),
     rw_stderr = Some (JStr (case message of Some m \<Rightarrow> m | None \<Rightarrow> ''lane execution failed'')), rw_timedOut = Some (JBool False)\<rparr>"

definition lane_settle :: "rat \<Rightarrow> nat \<Rightarrow> raw_result \<Rightarrow> lane_broker \<Rightarrow> lane_broker" where
  "lane_settle now n raw b =
     (let r = sanitized raw;
          x = (lb_objects b ! n)\<lparr>sx_result := Some r, sx_handle := False\<rparr>;
          y = (if sx_cancelRequested x then x else x\<lparr>sx_status := terminalStatus r, sx_endedAt := Some now\<rparr>)
      in prune_executions (b\<lparr>lb_objects := (lb_objects b)[n := y]\<rparr>))"

definition lane_handle where
  "lane_handle digest launch now reading request b =
     (case request of
        LStart r \<Rightarrow> lane_start_execution digest launch now r b
      | LStatus eid \<Rightarrow> (b, lane_status_poll eid reading b b)
      | LCancel eid \<Rightarrow> lane_cancel now eid b)"

end
