(* ===== verification/Lane_Broker_Props.thy ===== *)
theory Lane_Broker_Props
  imports Lane_Broker
begin

text \<open>
  Properties of the broker of lane executions: the invariant of every reachable broker, and what follows of its snapshots,
  its retention and its statuses.
\<close>

section \<open>Snapshots read back\<close>

definition result_fits :: "lane_run_result \<Rightarrow> bool" where
  "result_fits r \<longleftrightarrow> utf8_length (lr_stdout r) \<le> MAX_SAFE_INTEGER \<and> utf8_length (lr_stderr r) \<le> MAX_SAFE_INTEGER"

text \<open>The invariant of one stored execution.\<close>

definition execution_ok :: "stored_execution \<Rightarrow> bool" where
  "execution_ok x \<longleftrightarrow>
     is_bounded_id (sx_executionId x) \<and> is_bounded_id (sx_jobId x) \<and> is_bounded_id (sx_laneId x) \<and>
     (sx_status x = LRunning \<longleftrightarrow> sx_endedAt x = None) \<and>
     (sx_cancelRequested x \<longleftrightarrow> sx_status x = LCancelled) \<and>
     (sx_handle x \<longleftrightarrow> sx_result x = None) \<and>
     (sx_status x = LRunning \<longrightarrow> sx_result x = None) \<and>
     (case sx_result x of None \<Rightarrow> sx_status x = LRunning \<or> sx_status x = LCancelled
        | Some r \<Rightarrow> result_fits r \<and> result_consistent (sx_status x) r) \<and>
     length (sx_launchNotes x) \<le> 16 \<and> list_all (\<lambda>n. length n \<le> 500) (sx_launchNotes x)"

definition activity_ok :: "lane_activity \<Rightarrow> bool" where
  "activity_ok a \<longleftrightarrow> la_stdoutBytes a \<le> MAX_SAFE_INTEGER \<and> la_stderrBytes a \<le> MAX_SAFE_INTEGER \<and>
     (case la_cpuMs a of None \<Rightarrow> True | Some q \<Rightarrow> 0 \<le> q) \<and>
     (case la_relayInFlight a of None \<Rightarrow> True | Some n \<Rightarrow> n \<le> MAX_SAFE_INTEGER)"

lemma safe_natural_le: "safe_natural v = Some n \<Longrightarrow> n \<le> MAX_SAFE_INTEGER"
  by (auto simp: safe_natural_def bind_eq_Some_conv split: if_splits)

lemma safe_natural_num [simp]: "n \<le> MAX_SAFE_INTEGER \<Longrightarrow> safe_natural (Some (num (of_nat n))) = Some n"
proof -
  assume n: "n \<le> MAX_SAFE_INTEGER"
  have "(of_nat n :: rat) = of_int (int n)" by simp
  then show ?thesis using n by (simp only: num_readers safe_natural_def) (simp add: Let_def)
qed

lemma at_least_0_num [simp]: "0 \<le> q \<Longrightarrow> at_least_0 (Some (num q)) = Some q"
  by (simp add: at_least_0_def)

lemma idle_activity_ok [simp]: "activity_ok idle_activity"
  by (simp add: activity_ok_def idle_activity_def)

lemma safeActivity_ok [simp]: "activity_ok (safeActivity reading)"
proof (cases reading)
  case None
  then show ?thesis by (simp add: safeActivity_def)
next
  case (Some v)
  have "or_0 (safe_natural w) \<le> MAX_SAFE_INTEGER" for w
    by (cases "safe_natural w") (simp_all add: or_0_def safe_natural_le)
  moreover have "(case Option.bind (rat_of w) (\<lambda>q. if 0 \<le> q then Some q else None) of None \<Rightarrow> True | Some q \<Rightarrow> 0 \<le> q)" for w
    by (cases "rat_of w") simp_all
  moreover have "(case safe_natural w of None \<Rightarrow> True | Some n \<Rightarrow> n \<le> MAX_SAFE_INTEGER)" for w
    by (cases "safe_natural w") (simp_all add: safe_natural_le)
  ultimately show ?thesis by (simp add: activity_ok_def safeActivity_def Some)
qed

definition snapshot_ok :: "lane_snapshot \<Rightarrow> bool" where
  "snapshot_ok s \<longleftrightarrow>
     is_bounded_id (ln_executionId s) \<and> is_bounded_id (ln_jobId s) \<and> is_bounded_id (ln_laneId s) \<and>
     (ln_status s = LRunning \<longleftrightarrow> ln_endedAt s = None) \<and>
     ln_stdoutBytes s \<le> MAX_SAFE_INTEGER \<and> ln_stderrBytes s \<le> MAX_SAFE_INTEGER \<and>
     (case ln_cpuMs s of None \<Rightarrow> True | Some q \<Rightarrow> 0 \<le> q) \<and>
     (case ln_relayInFlight s of None \<Rightarrow> True | Some n \<Rightarrow> n \<le> MAX_SAFE_INTEGER) \<and>
     (case ln_launchNotes s of None \<Rightarrow> True | Some ns \<Rightarrow> length ns \<le> 16 \<and> list_all (\<lambda>n. length n \<le> 500) ns) \<and>
     (ln_status s = LRunning \<longrightarrow> ln_result s = None) \<and>
     (case ln_result s of None \<Rightarrow> ln_status s = LRunning \<or> ln_status s = LCancelled | Some r \<Rightarrow> result_consistent (ln_status s) r)"

lemma execution_snapshot_ok: "execution_ok x \<Longrightarrow> activity_ok a \<Longrightarrow> snapshot_ok (execution_snapshot x a)"
  by (auto simp: execution_ok_def activity_ok_def snapshot_ok_def execution_snapshot_def result_fits_def split: option.splits)

definition snapshot_members :: "lane_snapshot \<Rightarrow> (string \<times> json) list" where
  "snapshot_members s = (case encode_snapshot s of JObj m \<Rightarrow> m | _ \<Rightarrow> [])"

lemma encode_snapshot_members: "encode_snapshot s = JObj (snapshot_members s)"
  by (simp add: snapshot_members_def encode_snapshot_def)

lemma member_encode_result:
  "k \<notin> {''code'', ''stdout'', ''stderr'', ''timedOut''} \<Longrightarrow> member (case v of None \<Rightarrow> [] | Some r \<Rightarrow> encode_result r) k = None"
  by (simp add: encode_result_def split: option.split)

lemma snapshot_member [simp]:
  "member (snapshot_members s) ''schema'' = Some (JStr LANE_EXECUTION_SCHEMA)"
  "member (snapshot_members s) ''executionId'' = Some (JStr (ln_executionId s))"
  "member (snapshot_members s) ''jobId'' = Some (JStr (ln_jobId s))"
  "member (snapshot_members s) ''laneId'' = Some (JStr (ln_laneId s))"
  "member (snapshot_members s) ''status'' = Some (JStr (lane_status_name (ln_status s)))"
  "member (snapshot_members s) ''startedAt'' = Some (num (ln_startedAt s))"
  "member (snapshot_members s) ''endedAt'' = Some (nullable num (ln_endedAt s))"
  "member (snapshot_members s) ''stdoutBytes'' = Some (num (of_nat (ln_stdoutBytes s)))"
  "member (snapshot_members s) ''stderrBytes'' = Some (num (of_nat (ln_stderrBytes s)))"
  "member (snapshot_members s) ''lastOutputAt'' = Some (nullable num (ln_lastOutputAt s))"
  "member (snapshot_members s) ''cpuMs'' = map_option num (ln_cpuMs s)"
  "member (snapshot_members s) ''relayInFlight'' = map_option (\<lambda>n. num (of_nat n)) (ln_relayInFlight s)"
  "member (snapshot_members s) ''relayLastActivityAt'' = map_option num (ln_relayLastActivityAt s)"
  "member (snapshot_members s) ''launchNotes'' = map_option (\<lambda>ns. JArr (map JStr ns)) (ln_launchNotes s)"
  by (simp_all add: snapshot_members_def encode_snapshot_def member_encode_result split: option.split)

lemma snapshot_result_member [simp]:
  "member (snapshot_members s) ''code'' = map_option (\<lambda>r. nullable num (lr_code r)) (ln_result s)"
  "member (snapshot_members s) ''stdout'' = map_option (\<lambda>r. JStr (lr_stdout r)) (ln_result s)"
  "member (snapshot_members s) ''stderr'' = map_option (\<lambda>r. JStr (lr_stderr r)) (ln_result s)"
  "member (snapshot_members s) ''timedOut'' = map_option (\<lambda>r. JBool (lr_timedOut r)) (ln_result s)"
  by (simp_all add: snapshot_members_def encode_snapshot_def encode_result_def split: option.split)

lemma snapshot_keys: "exactKeys SNAPSHOT_KEYS (snapshot_members s)"
  by (auto simp: snapshot_members_def encode_snapshot_def encode_result_def optional_def SNAPSHOT_KEYS_def split: option.splits)

lemma nullable_read [simp]: "null_member rat_of (Some (nullable num v)) = Some v"
  by (cases v) (simp_all add: null_member_def num_def)

lemma status_read: "named lane_status_name [LRunning, LCompleted, LFailed, LTimedOut, LCancelled] (Some (JStr (lane_status_name s))) = Some s"
  by (cases s) (simp_all add: named_def)

lemma notes_read: "length ns \<le> 16 \<Longrightarrow> list_all (\<lambda>n. length n \<le> 500) ns \<Longrightarrow> read_notes (Some (JArr (map JStr ns))) = Some ns"
proof -
  assume l: "length ns \<le> 16" "list_all (\<lambda>n. length n \<le> 500) ns"
  have "all_some (map read_note (map JStr ns)) = Some ns"
    by (rule all_some_map) (use l(2) in \<open>auto simp: read_note_def bounded_text_def list_all_iff\<close>)
  then show ?thesis using l(1) by (simp add: read_notes_def)
qed

lemma run_result_eta [simp]: "\<lparr>lr_code = lr_code r, lr_stdout = lr_stdout r, lr_stderr = lr_stderr r, lr_timedOut = lr_timedOut r\<rparr> = r"
  by simp

lemma result_read: "snapshot_ok s \<Longrightarrow> read_result (ln_status s) (snapshot_members s) = Some (ln_result s)"
  by (cases "ln_result s") (auto simp: read_result_def snapshot_ok_def Let_def)

lemma bounded_id_read [simp]: "is_bounded_id i \<Longrightarrow> boundedId (Some (JStr i)) = Some i"
  by (simp add: boundedId_def)

lemma snapshot_read: "snapshot_ok s \<Longrightarrow> parseLaneExecutionSnapshot (encode_snapshot s) = Some s"
proof -
  assume ok: "snapshot_ok s"
  have cpu: "opt_member at_least_0 (map_option num (ln_cpuMs s)) = Some (ln_cpuMs s)"
    using ok by (cases "ln_cpuMs s") (simp_all add: snapshot_ok_def)
  have fl: "opt_member safe_natural (map_option (\<lambda>n. num (of_nat n)) (ln_relayInFlight s)) = Some (ln_relayInFlight s)"
    using ok by (cases "ln_relayInFlight s") (simp_all add: snapshot_ok_def)
  have la: "opt_member rat_of (map_option num (ln_relayLastActivityAt s)) = Some (ln_relayLastActivityAt s)"
    by (cases "ln_relayLastActivityAt s") simp_all
  have nts: "opt_member read_notes (map_option (\<lambda>ns. JArr (map JStr ns)) (ln_launchNotes s)) = Some (ln_launchNotes s)"
    using ok by (cases "ln_launchNotes s") (simp_all add: snapshot_ok_def notes_read)
  have ids: "boundedId (Some (JStr (ln_executionId s))) = Some (ln_executionId s)"
    "boundedId (Some (JStr (ln_jobId s))) = Some (ln_jobId s)" "boundedId (Some (JStr (ln_laneId s))) = Some (ln_laneId s)"
    "safe_natural (Some (num (of_nat (ln_stdoutBytes s)))) = Some (ln_stdoutBytes s)"
    "safe_natural (Some (num (of_nat (ln_stderrBytes s)))) = Some (ln_stderrBytes s)"
    "ln_status s = LRunning \<longleftrightarrow> ln_endedAt s = None"
    using ok by (simp_all add: snapshot_ok_def)
  show ?thesis
    by (simp add: encode_snapshot_members snapshot_keys ids cpu fl la nts status_read result_read [OF ok] del: exactKeys.simps)
qed


section \<open>The steps of a broker\<close>

text \<open>The texts of a result are strings of the language, whose length is a safe integer.\<close>

fun text_fits :: "json option \<Rightarrow> bool" where
  "text_fits (Some (JStr s)) = (length s \<le> MAX_SAFE_INTEGER)"
| "text_fits _ = True"

definition raw_fits :: "raw_result \<Rightarrow> bool" where
  "raw_fits raw \<longleftrightarrow> text_fits (rw_stdout raw) \<and> text_fits (rw_stderr raw)"

text \<open>A settlement reaches an execution whose handle is still held: a promise settles once.\<close>

inductive broker_step :: "(json \<Rightarrow> string) \<Rightarrow> lane_broker \<Rightarrow> lane_broker \<Rightarrow> bool" for digest where
  step_start: "parseLaneExecutionBrokerRequest v = Some (LStart r) \<Longrightarrow>
     broker_step digest b (fst (lane_start_execution digest launch now r b))"
| step_cancel: "broker_step digest b (fst (lane_cancel now eid b))"
| step_settle: "n < length (lb_objects b) \<Longrightarrow> sx_handle (lb_objects b ! n) \<Longrightarrow> raw_fits raw \<Longrightarrow>
     broker_step digest b (lane_settle now n raw b)"
| step_shutdown: "broker_step digest b (lane_shutdown clock b)"

inductive broker_reach :: "(json \<Rightarrow> string) \<Rightarrow> int \<Rightarrow> lane_broker \<Rightarrow> bool" for digest maxTerminal where
  reach_new: "broker_reach digest maxTerminal (new_broker maxTerminal)"
| reach_step: "broker_reach digest maxTerminal b \<Longrightarrow> broker_step digest b b' \<Longrightarrow> broker_reach digest maxTerminal b'"

definition settled_ids :: "lane_broker \<Rightarrow> nat list" where
  "settled_ids b = filter (lane_settled b) (map snd (lb_executions b))"

definition entry_ok :: "lane_broker \<Rightarrow> string \<times> nat \<Rightarrow> bool" where
  "entry_ok b e \<longleftrightarrow> snd e < length (lb_objects b) \<and> sx_executionId (lb_objects b ! snd e) = fst e"

text \<open>What holds between two operations, but for the bound on the settled executions.\<close>

definition broker_inv :: "lane_broker \<Rightarrow> bool" where
  "broker_inv b \<longleftrightarrow>
     jm_ok (lb_executions b) \<and> (\<forall>e\<in>set (lb_executions b). entry_ok b e) \<and> (\<forall>x\<in>set (lb_objects b). execution_ok x) \<and>
     (\<forall>n<length (lb_objects b). sx_handle (lb_objects b ! n) \<longrightarrow>
        jm_get (lb_executions b) (sx_executionId (lb_objects b ! n)) = Some n)"

definition terminal_bounded :: "lane_broker \<Rightarrow> bool" where
  "terminal_bounded b \<longleftrightarrow> (0 \<le> lb_maxTerminal b \<longrightarrow> int (length (settled_ids b)) \<le> lb_maxTerminal b)"

lemma broker_inv_get:
  assumes "broker_inv b" and "jm_get (lb_executions b) i = Some n"
  shows "n < length (lb_objects b)" and "sx_executionId (lb_objects b ! n) = i" and "execution_ok (lb_objects b ! n)"
proof -
  have "entry_ok b (i, n)" using assms jm_get_in by (fastforce simp: broker_inv_def)
  then show "n < length (lb_objects b)" "sx_executionId (lb_objects b ! n) = i" by (simp_all add: entry_ok_def)
  then show "execution_ok (lb_objects b ! n)" using assms(1) by (simp add: broker_inv_def)
qed

lemma new_broker_inv: "broker_inv (new_broker m)" "terminal_bounded (new_broker m)"
  by (simp_all add: broker_inv_def new_broker_def terminal_bounded_def settled_ids_def)

lemma entries_distinct: "broker_inv b \<Longrightarrow> distinct (map snd (lb_executions b))"
proof -
  assume inv: "broker_inv b"
  have "inj_on snd (set (lb_executions b))"
    by (rule inj_onI) (use inv in \<open>metis (no_types, lifting) broker_inv_def entry_ok_def prod_eq_iff\<close>)
  moreover have "distinct (lb_executions b)" using inv by (simp add: broker_inv_def jm_ok_def distinct_map)
  ultimately show ?thesis by (simp add: distinct_map)
qed

subsection \<open>Pruning\<close>

definition pruned :: "lane_broker \<Rightarrow> nat list" where
  "pruned b = (if lb_maxTerminal b < 0 then []
     else take (nat (int (length (settled_ids b)) - lb_maxTerminal b))
       (js_sort (\<lambda>m n. ended_key b m \<le> ended_key b n) (settled_ids b)))"

lemma set_pruned: "set (pruned b) \<subseteq> set (settled_ids b)"
  by (auto simp: pruned_def dest: in_set_takeD)

lemma jm_del_filter: "jm_del k m = filter (\<lambda>e. fst e \<noteq> k) m"
  by (induction m) (auto simp: jm_del_def)

lemma fold_jm_del: "fold (\<lambda>n. jm_del (f n)) ns m = filter (\<lambda>e. fst e \<notin> f ` set ns) m"
  by (induction ns arbitrary: m) (auto simp: jm_del_filter intro!: filter_cong)

lemma prune_executions_eq:
  assumes "broker_inv b"
  shows "prune_executions b = b\<lparr>lb_executions := filter (\<lambda>e. snd e \<notin> set (pruned b)) (lb_executions b)\<rparr>"
proof -
  have "fold (\<lambda>n. jm_del (sx_executionId (lb_objects b ! n))) (pruned b) (lb_executions b) =
      filter (\<lambda>e. fst e \<notin> (\<lambda>n. sx_executionId (lb_objects b ! n)) ` set (pruned b)) (lb_executions b)"
    by (rule fold_jm_del)
  also have "\<dots> = filter (\<lambda>e. snd e \<notin> set (pruned b)) (lb_executions b)"
  proof (rule filter_cong [OF refl])
    fix e
    assume e: "e \<in> set (lb_executions b)"
    then have ok: "entry_ok b e" using assms by (simp add: broker_inv_def)
    have "snd e \<in> set (pruned b)" if n: "n \<in> set (pruned b)" "fst e = sx_executionId (lb_objects b ! n)" for n
    proof -
      obtain i where i: "(i, n) \<in> set (lb_executions b)" using n(1) set_pruned [of b] by (fastforce simp: settled_ids_def)
      then have "i = fst e" using assms n(2) by (fastforce simp: broker_inv_def entry_ok_def)
      then have "snd e = n" using i e assms eq_key_imp_eq_value [of "lb_executions b" "fst e" "snd e" n]
        by (simp add: broker_inv_def jm_ok_def)
      then show ?thesis using n(1) by simp
    qed
    then show "(fst e \<notin> (\<lambda>n. sx_executionId (lb_objects b ! n)) ` set (pruned b)) = (snd e \<notin> set (pruned b))"
      using ok by (auto simp: entry_ok_def intro!: image_eqI [of _ _ "snd e"])
  qed
  finally show ?thesis by (auto simp: prune_executions_def pruned_def settled_ids_def Let_def)
qed

lemma prune_executions_inv:
  assumes "broker_inv b"
  shows "broker_inv (prune_executions b)"
proof -
  let ?m = "filter (\<lambda>e. snd e \<notin> set (pruned b)) (lb_executions b)"
  have ok: "jm_ok ?m" using assms by (simp add: broker_inv_def jm_ok_def distinct_map_filter)
  have "jm_get ?m (sx_executionId (lb_objects b ! n)) = Some n" if n: "n < length (lb_objects b)" "sx_handle (lb_objects b ! n)" for n
  proof (rule jm_in_get [OF ok])
    have "n \<notin> set (pruned b)" using n(2) set_pruned [of b] by (auto simp: settled_ids_def lane_settled_def)
    moreover have "(sx_executionId (lb_objects b ! n), n) \<in> set (lb_executions b)"
      using assms n jm_get_in by (fastforce simp: broker_inv_def)
    ultimately show "(sx_executionId (lb_objects b ! n), n) \<in> set ?m" by simp
  qed
  then show ?thesis using assms ok by (simp add: prune_executions_eq broker_inv_def entry_ok_def)
qed

lemma settled_prune:
  assumes "broker_inv b"
  shows "settled_ids (prune_executions b) = filter (\<lambda>n. n \<notin> set (pruned b)) (settled_ids b)"
  by (simp add: prune_executions_eq [OF assms] settled_ids_def lane_settled_def filter_map comp_def conj_commute)

lemma distinct_settled: "broker_inv b \<Longrightarrow> distinct (settled_ids b)"
  by (simp add: settled_ids_def entries_distinct)

lemma prune_terminal_bounded:
  assumes "broker_inv b"
  shows "terminal_bounded (prune_executions b)"
proof (cases "lb_maxTerminal b < 0")
  case True
  then show ?thesis by (simp add: terminal_bounded_def prune_executions_def)
next
  case False
  have "distinct (pruned b)" using distinct_settled [OF assms] by (simp add: pruned_def)
  then have "card (set (pruned b)) = length (pruned b)" by (rule distinct_card)
  moreover have "length (settled_ids (prune_executions b)) = card (set (settled_ids b) - set (pruned b))"
    unfolding settled_prune [OF assms] by (metis distinct_card distinct_filter distinct_settled [OF assms] set_diff_eq set_filter)
  ultimately have "length (settled_ids (prune_executions b)) = length (settled_ids b) - length (pruned b)"
    using card_Diff_subset [OF _ set_pruned, of b] distinct_card [OF distinct_settled [OF assms]] by simp
  then show ?thesis using False by (simp add: terminal_bounded_def pruned_def prune_executions_def Let_def nat_le_iff)
qed

subsection \<open>Every operation keeps the invariant\<close>

lemma broker_inv_update:
  assumes "broker_inv b" and "n < length (lb_objects b)" and "execution_ok y"
    and "sx_executionId y = sx_executionId (lb_objects b ! n)" and "sx_handle y \<Longrightarrow> sx_handle (lb_objects b ! n)"
  shows "broker_inv (b\<lparr>lb_objects := (lb_objects b)[n := y]\<rparr>)" and "broker_inv (b\<lparr>lb_objects := (lb_objects b)[n := y], lb_killed := k\<rparr>)"
proof -
  have "execution_ok x" if "x \<in> set ((lb_objects b)[n := y])" for x
    using that set_update_subset_insert [of "lb_objects b" n y] assms(1,3) by (auto simp: broker_inv_def)
  moreover have "entry_ok (b\<lparr>lb_objects := (lb_objects b)[n := y]\<rparr>) e" "entry_ok (b\<lparr>lb_objects := (lb_objects b)[n := y], lb_killed := k\<rparr>) e"
    if "e \<in> set (lb_executions b)" for e
    using assms(1,2,4) that by (auto simp: broker_inv_def entry_ok_def nth_list_update)
  ultimately show "broker_inv (b\<lparr>lb_objects := (lb_objects b)[n := y]\<rparr>)" "broker_inv (b\<lparr>lb_objects := (lb_objects b)[n := y], lb_killed := k\<rparr>)"
    using assms(1,2,4,5) by (auto simp: broker_inv_def nth_list_update)
qed

lemma request_cancel_inv:
  assumes "broker_inv b" and "n < length (lb_objects b)" and "sx_status (lb_objects b ! n) = LRunning"
  shows "broker_inv (request_cancel now n b)" and "settled_ids (request_cancel now n b) = settled_ids b"
proof -
  have ok: "execution_ok (lb_objects b ! n)" using assms(1,2) by (simp add: broker_inv_def)
  then show "broker_inv (request_cancel now n b)"
    unfolding request_cancel_def
    by (intro broker_inv_update(2) assms) (use assms(3) in \<open>auto simp: execution_ok_def\<close>)
  have "sx_handle (lb_objects b ! n)" using ok assms(3) by (simp add: execution_ok_def)
  then have "lane_settled (request_cancel now n b) = lane_settled b"
    using assms(2,3) by (auto simp: lane_settled_def request_cancel_def nth_list_update fun_eq_iff)
  then show "settled_ids (request_cancel now n b) = settled_ids b" by (simp add: settled_ids_def request_cancel_def)
qed

lemma lane_cancel_inv:
  assumes "broker_inv b" and "terminal_bounded b"
  shows "broker_inv (fst (lane_cancel now eid b)) \<and> terminal_bounded (fst (lane_cancel now eid b))"
proof (cases "jm_get (lb_executions b) eid")
  case None
  then show ?thesis using assms by (simp add: lane_cancel_def)
next
  case (Some n)
  show ?thesis
  proof (cases "sx_status (lb_objects b ! n) = LRunning")
    case True
    note inv = request_cancel_inv(1) [OF assms(1) broker_inv_get(1) [OF assms(1) Some] True, of now]
    show ?thesis using prune_executions_inv [OF inv] prune_terminal_bounded [OF inv]
      by (simp add: lane_cancel_def Some True Let_def)
  qed (use assms in \<open>simp add: lane_cancel_def Some\<close>)
qed

lemma shutdown_loop:
  assumes "broker_inv b" and "terminal_bounded b" and "\<forall>n\<in>set ns. n < length (lb_objects b)"
  shows "broker_inv (fold (shutdown_one clock) ns b) \<and> terminal_bounded (fold (shutdown_one clock) ns b)"
  using assms
proof (induction ns arbitrary: b)
  case (Cons n ns)
  show ?case
  proof (cases "sx_status (lb_objects b ! n) = LRunning")
    case True
    have n: "n < length (lb_objects b)" using Cons.prems(3) by simp
    have "terminal_bounded (request_cancel (clock n) n b)"
      using Cons.prems(2) request_cancel_inv(2) [OF Cons.prems(1) n True]
      by (simp add: terminal_bounded_def) (simp add: request_cancel_def)
    then show ?thesis
      using Cons.IH [OF request_cancel_inv(1) [OF Cons.prems(1) n True]] Cons.prems(3) True
      by (simp add: shutdown_one_def request_cancel_def)
  qed (use Cons in \<open>simp add: shutdown_one_def\<close>)
qed simp

lemma lane_shutdown_inv:
  assumes "broker_inv b" and "terminal_bounded b"
  shows "broker_inv (lane_shutdown clock b) \<and> terminal_bounded (lane_shutdown clock b)"
  unfolding lane_shutdown_def
  by (rule shutdown_loop [OF assms]) (use assms(1) in \<open>auto simp: broker_inv_def entry_ok_def\<close>)

lemma bounded_length: "length v \<le> MAX_SAFE_INTEGER \<Longrightarrow> length (bounded v) \<le> MAX_RESULT_CHARS + 100"
proof -
  assume v: "length v \<le> MAX_SAFE_INTEGER"
  have "length v - MAX_RESULT_CHARS < 10 ^ Suc 15" using v by (simp add: MAX_SAFE_INTEGER_def)
  then have "length (show_nat (length v - MAX_RESULT_CHARS)) \<le> Suc 15" by (rule show_nat_length)
  then show ?thesis by (simp add: bounded_def Let_def)
qed

lemma bounded_fits: "length v \<le> MAX_SAFE_INTEGER \<Longrightarrow> utf8_length (bounded v) \<le> MAX_SAFE_INTEGER"
proof -
  assume v: "length v \<le> MAX_SAFE_INTEGER"
  have "utf8_length (bounded v) \<le> 2 * (MAX_RESULT_CHARS + 100)"
    by (rule order_trans [OF utf8_length_bound mult_le_mono2 [OF bounded_length [OF v]]])
  then show ?thesis by (simp add: MAX_RESULT_CHARS_def MAX_SAFE_INTEGER_def)
qed

lemma text_of_fits: "text_fits v \<Longrightarrow> length (case str_of v of Some s \<Rightarrow> s | None \<Rightarrow> []) \<le> MAX_SAFE_INTEGER"
  by (cases v rule: str_of.cases) simp_all

lemma sanitized_fits: "raw_fits raw \<Longrightarrow> result_fits (sanitized raw)"
  by (simp add: raw_fits_def result_fits_def sanitized_def bounded_fits text_of_fits)

lemma terminalStatus_consistent: "result_consistent (terminalStatus r) r" "terminalStatus r \<noteq> LRunning" "terminalStatus r \<noteq> LCancelled"
  by (auto simp: result_consistent_def terminalStatus_def)

definition settle_object :: "rat \<Rightarrow> raw_result \<Rightarrow> stored_execution \<Rightarrow> stored_execution" where
  "settle_object now raw x =
     (let r = sanitized raw; y = x\<lparr>sx_result := Some r, sx_handle := False\<rparr> in
      if sx_cancelRequested x then y else y\<lparr>sx_status := terminalStatus r, sx_endedAt := Some now\<rparr>)"

lemma lane_settle_eq:
  "lane_settle now n raw b = prune_executions (b\<lparr>lb_objects := (lb_objects b)[n := settle_object now raw (lb_objects b ! n)]\<rparr>)"
  by (simp add: lane_settle_def settle_object_def Let_def)

lemma settle_object_ok:
  assumes "execution_ok x" and "raw_fits raw"
  shows "execution_ok (settle_object now raw x)"
  using assms(1) sanitized_fits [OF assms(2)] terminalStatus_consistent [of "sanitized raw"]
  by (auto simp: execution_ok_def settle_object_def Let_def result_consistent_def split: option.splits)

lemma settle_object_simps [simp]:
  "sx_executionId (settle_object now raw x) = sx_executionId x" "\<not> sx_handle (settle_object now raw x)"
  "sx_result (settle_object now raw x) = Some (sanitized raw)" "sx_cancelRequested (settle_object now raw x) = sx_cancelRequested x"
  by (simp_all add: settle_object_def Let_def)

lemma lane_settle_inv:
  assumes "broker_inv b" and "n < length (lb_objects b)" and "raw_fits raw"
  shows "broker_inv (lane_settle now n raw b) \<and> terminal_bounded (lane_settle now n raw b)"
proof -
  have "execution_ok (lb_objects b ! n)" using assms(1,2) by (simp add: broker_inv_def)
  note inv = broker_inv_update(1) [OF assms(1,2) settle_object_ok [OF this assms(3)]]
  have "broker_inv (b\<lparr>lb_objects := (lb_objects b)[n := settle_object now raw (lb_objects b ! n)]\<rparr>)" by (rule inv) simp_all
  then show ?thesis using prune_executions_inv prune_terminal_bounded by (simp add: lane_settle_eq)
qed

lemma kept_notes_ok: "length (kept_notes ns) \<le> 16 \<and> list_all (\<lambda>n. length n \<le> 500) (kept_notes ns)"
  by (simp add: kept_notes_def list_all_iff)

lemma boundedId_some: "boundedId v = Some i \<Longrightarrow> is_bounded_id i"
  by (auto simp: boundedId_def bind_eq_Some_conv split: if_splits)

lemma parsed_start_ids:
  assumes "parseLaneExecutionBrokerRequest v = Some (LStart r)"
  shows "is_bounded_id (ls_executionId r) \<and> is_bounded_id (ls_jobId r) \<and> is_bounded_id (ls_laneId r)"
proof -
  obtain ms where "parseStart ms = Some r"
    using assms by (cases v rule: parseLaneExecutionBrokerRequest.cases) (auto split: if_splits simp: bind_eq_Some_conv)
  then show ?thesis by (auto simp: parseStart_def bind_eq_Some_conv boundedId_some split: if_splits)
qed

lemma lane_start_cases:
  obtains "fst (lane_start_execution digest launch now r b) = b"
  | ns x where "jm_get (lb_executions b) (ls_executionId r) = None" and "launch r = Launched ns"
      and "x = \<lparr>sx_executionId = ls_executionId r, sx_jobId = ls_jobId r, sx_laneId = ls_laneId r,
        sx_signature = startSignature digest r, sx_status = LRunning, sx_startedAt = now, sx_endedAt = None, sx_handle = True,
        sx_result = None, sx_cancelRequested = False, sx_launchNotes = kept_notes ns\<rparr>"
      and "fst (lane_start_execution digest launch now r b) = b\<lparr>lb_objects := lb_objects b @ [x],
        lb_executions := jm_put (ls_executionId r) (length (lb_objects b)) (lb_executions b)\<rparr>"
  by (cases "jm_get (lb_executions b) (ls_executionId r)"; cases "launch r") (auto simp: lane_start_execution_def Let_def)

lemma lane_start_inv:
  assumes "broker_inv b" and "terminal_bounded b" and "parseLaneExecutionBrokerRequest v = Some (LStart r)"
  shows "broker_inv (fst (lane_start_execution digest launch now r b)) \<and>
    terminal_bounded (fst (lane_start_execution digest launch now r b))"
proof (rule lane_start_cases [of digest launch now r b])
  assume "fst (lane_start_execution digest launch now r b) = b"
  then show ?thesis using assms by simp
next
  fix ns x
  assume new: "jm_get (lb_executions b) (ls_executionId r) = None"
    and x: "x = \<lparr>sx_executionId = ls_executionId r, sx_jobId = ls_jobId r, sx_laneId = ls_laneId r,
        sx_signature = startSignature digest r, sx_status = LRunning, sx_startedAt = now, sx_endedAt = None, sx_handle = True,
        sx_result = None, sx_cancelRequested = False, sx_launchNotes = kept_notes ns\<rparr>"
    and step: "fst (lane_start_execution digest launch now r b) = b\<lparr>lb_objects := lb_objects b @ [x],
        lb_executions := jm_put (ls_executionId r) (length (lb_objects b)) (lb_executions b)\<rparr>"
  let ?b = "b\<lparr>lb_objects := lb_objects b @ [x], lb_executions := jm_put (ls_executionId r) (length (lb_objects b)) (lb_executions b)\<rparr>"
  have x_ok: "execution_ok x" using parsed_start_ids [OF assms(3)] kept_notes_ok by (simp add: x execution_ok_def)
  have put: "lb_executions ?b = lb_executions b @ [(ls_executionId r, length (lb_objects b))]" using jm_put_new [OF new] by simp
  have id: "sx_executionId x = ls_executionId r" by (simp add: x)
  have other: "sx_executionId (lb_objects b ! n) \<noteq> ls_executionId r" if "n < length (lb_objects b)" "sx_handle (lb_objects b ! n)" for n
    using assms(1) that new by (auto simp: broker_inv_def)
  have entries: "entry_ok ?b e" if "e \<in> set (lb_executions ?b)" for e
    using that assms(1) id unfolding put by (auto simp: broker_inv_def entry_ok_def nth_append)
  have "broker_inv ?b"
    unfolding broker_inv_def
  proof (intro conjI allI impI ballI)
    show "jm_ok (lb_executions ?b)" using assms(1) by (simp add: broker_inv_def jm.ok_put)
    show "execution_ok y" if "y \<in> set (lb_objects ?b)" for y using that assms(1) x_ok by (auto simp: broker_inv_def)
    show "jm_get (lb_executions ?b) (sx_executionId (lb_objects ?b ! n)) = Some n"
      if "n < length (lb_objects ?b)" "sx_handle (lb_objects ?b ! n)" for n
      using that assms(1) id other by (cases "n = length (lb_objects b)") (auto simp: broker_inv_def nth_append jm.get_put)
  qed (rule entries)
  moreover have "settled_ids ?b = settled_ids b"
  proof -
    have "lane_settled ?b (length (lb_objects b)) = False" by (simp add: lane_settled_def x)
    moreover have "lane_settled ?b n = lane_settled b n" if "n \<in> set (map snd (lb_executions b))" for n
    proof -
      have "n < length (lb_objects b)" using that assms(1) by (auto simp: broker_inv_def entry_ok_def)
      then show ?thesis by (simp add: lane_settled_def nth_append)
    qed
    ultimately show ?thesis unfolding settled_ids_def put map_append filter_append by (subst filter_cong [OF refl, of "map snd (lb_executions b)" _ "lane_settled b"]) auto
  qed
  then have "terminal_bounded ?b" using assms(2) by (simp add: terminal_bounded_def)
  ultimately show ?thesis by (simp add: step)
qed

lemma broker_reach_inv: "broker_reach digest m b \<Longrightarrow> broker_inv b \<and> terminal_bounded b"
proof (induction rule: broker_reach.induct)
  case (reach_step b b')
  show ?case using reach_step.hyps(2) reach_step.IH
    by (cases rule: broker_step.cases) (simp_all add: lane_start_inv lane_cancel_inv lane_settle_inv lane_shutdown_inv)
qed (simp_all add: new_broker_inv)

section \<open>How an execution evolves\<close>

text \<open>What no later operation undoes: identity, a terminal status and its time, a result.\<close>

definition later :: "stored_execution \<Rightarrow> stored_execution \<Rightarrow> bool" where
  "later x y \<longleftrightarrow> sx_executionId y = sx_executionId x \<and> sx_signature y = sx_signature x \<and> sx_startedAt y = sx_startedAt x \<and>
     (sx_status x \<noteq> LRunning \<longrightarrow> sx_status y = sx_status x \<and> sx_endedAt y = sx_endedAt x) \<and>
     (\<not> sx_handle x \<longrightarrow> \<not> sx_handle y \<and> sx_result y = sx_result x)"

lemma later_refl [simp]: "later x x"
  by (simp add: later_def)

lemma later_trans: "later x y \<Longrightarrow> later y z \<Longrightarrow> later x z"
  by (auto simp: later_def)

definition objects_later :: "lane_broker \<Rightarrow> lane_broker \<Rightarrow> bool" where
  "objects_later b b' \<longleftrightarrow> length (lb_objects b) \<le> length (lb_objects b') \<and>
     (\<forall>n<length (lb_objects b). later (lb_objects b ! n) (lb_objects b' ! n))"

lemma objects_later_refl [simp]: "objects_later b b"
  by (simp add: objects_later_def)

lemma objects_later_trans: "objects_later a b \<Longrightarrow> objects_later b c \<Longrightarrow> objects_later a c"
proof -
  assume ab: "objects_later a b" and bc: "objects_later b c"
  have "later (lb_objects a ! n) (lb_objects c ! n)" if "n < length (lb_objects a)" for n
    by (rule later_trans [of _ "lb_objects b ! n"]) (use that ab bc in \<open>auto simp: objects_later_def\<close>)
  then show ?thesis using ab bc by (simp add: objects_later_def)
qed

lemma prune_objects [simp]: "lb_objects (prune_executions b) = lb_objects b"
  by (simp add: prune_executions_def Let_def)

lemma later_update: "later (xs ! n) y \<Longrightarrow> k < length xs \<Longrightarrow> later (xs ! k) (xs[n := y] ! k)"
  by (cases "k = n") simp_all

lemma request_cancel_later: "sx_status (lb_objects b ! n) = LRunning \<Longrightarrow> objects_later b (request_cancel now n b)"
proof -
  assume "sx_status (lb_objects b ! n) = LRunning"
  then have "later (lb_objects b ! n) ((lb_objects b ! n)\<lparr>sx_cancelRequested := True, sx_status := LCancelled, sx_endedAt := Some now\<rparr>)"
    by (simp add: later_def)
  then show ?thesis by (simp add: objects_later_def request_cancel_def later_update)
qed

lemma shutdown_later: "objects_later b (fold (shutdown_one clock) ns b)"
proof (induction ns arbitrary: b)
  case (Cons n ns)
  have "objects_later b (shutdown_one clock n b)" using request_cancel_later by (simp add: shutdown_one_def)
  then show ?case using Cons.IH objects_later_trans by fastforce
qed simp

lemma step_later: "broker_step digest b b' \<Longrightarrow> broker_inv b \<Longrightarrow> objects_later b b'"
proof (induction rule: broker_step.induct)
  case (step_start v r b launch now)
  show ?case
    by (rule lane_start_cases [of digest launch now r b]) (auto simp: objects_later_def nth_append)
next
  case (step_cancel b now eid)
  show ?case
    using request_cancel_later [of b _ now]
    by (cases "jm_get (lb_executions b) eid") (auto simp: lane_cancel_def Let_def objects_later_def)
next
  case (step_settle n b raw now)
  then have "execution_ok (lb_objects b ! n)" by (simp add: broker_inv_def)
  then have "later (lb_objects b ! n) (settle_object now raw (lb_objects b ! n))"
    using step_settle.hyps(2) by (auto simp: later_def settle_object_def Let_def execution_ok_def)
  then show ?case by (simp add: lane_settle_eq objects_later_def later_update)
next
  case (step_shutdown b clock)
  show ?case by (simp add: lane_shutdown_def shutdown_later)
qed

lemma reach_steps: "(broker_step digest)\<^sup>*\<^sup>* b b' \<Longrightarrow> broker_reach digest m b \<Longrightarrow> broker_reach digest m b' \<and> objects_later b b'"
proof (induction rule: rtranclp_induct)
  case (step b' b'')
  then show ?case using broker_reach_inv reach_step step_later objects_later_trans by metis
qed simp

lemma step_max: "broker_step digest b b' \<Longrightarrow> lb_maxTerminal b' = lb_maxTerminal b"
proof (induction rule: broker_step.induct)
  case (step_start v r b launch now)
  show ?case by (rule lane_start_cases [of digest launch now r b]) simp_all
next
  case (step_cancel b now eid)
  show ?case by (simp add: lane_cancel_def Let_def request_cancel_def prune_executions_def split: option.split)
next
  case (step_settle n b raw now)
  show ?case by (simp add: lane_settle_eq prune_executions_def Let_def)
next
  case (step_shutdown b clock)
  have "lb_maxTerminal (fold (shutdown_one clock) ns c) = lb_maxTerminal c" for ns c
    by (induction ns arbitrary: c) (simp_all add: shutdown_one_def request_cancel_def)
  then show ?case by (simp add: lane_shutdown_def)
qed

lemma broker_max: "broker_reach digest m b \<Longrightarrow> lb_maxTerminal b = m"
  by (induction rule: broker_reach.induct) (simp_all add: new_broker_def step_max)

lemma sorted_take_drop:
  assumes "sorted (map f xs)" and "x \<in> set (take d xs)" and "y \<in> set (drop d xs)"
  shows "f x \<le> f y"
proof -
  have "sorted (map f (take d xs) @ map f (drop d xs))" using assms(1) by (simp only: append_take_drop_id flip: map_append)
  then have "\<forall>u\<in>set (map f (take d xs)). \<forall>v\<in>set (map f (drop d xs)). u \<le> v" unfolding sorted_append by blast
  then show ?thesis using assms(2,3) by simp
qed

lemma pruned_oldest:
  assumes "k \<in> set (pruned b)" and "j \<in> set (settled_ids b)" and "j \<notin> set (pruned b)"
  shows "ended_key b k \<le> ended_key b j"
proof -
  define t where "t = js_sort (\<lambda>m n. ended_key b m \<le> ended_key b n) (settled_ids b)"
  define d where "d = nat (int (length (settled_ids b)) - lb_maxTerminal b)"
  have p: "pruned b = take d t" using assms(1) by (auto simp: pruned_def t_def d_def split: if_splits)
  have "j \<in> set t" using assms(2) by (simp add: t_def)
  then have j: "j \<in> set (drop d t)" using assms(3) p by (metis Un_iff append_take_drop_id set_append)
  have "sorted (map (ended_key b) t)" by (simp add: t_def js_sort_key)
  then show ?thesis using sorted_take_drop [OF _ _ j, of "ended_key b" k] assms(1) p by simp
qed

lemma shutdown_one_simps:
  "length (lb_objects (shutdown_one clock n b)) = length (lb_objects b)"
  "lb_executions (shutdown_one clock n b) = lb_executions b"
  "k < length (lb_objects b) \<Longrightarrow> sx_status (lb_objects (shutdown_one clock n b) ! k) =
     (if k = n \<and> sx_status (lb_objects b ! k) = LRunning then LCancelled else sx_status (lb_objects b ! k))"
  "k < length (lb_objects b) \<Longrightarrow> sx_handle (lb_objects (shutdown_one clock n b) ! k) = sx_handle (lb_objects b ! k)"
  "set (lb_killed b) \<subseteq> set (lb_killed (shutdown_one clock n b))"
proof -
  show "sx_handle (lb_objects (shutdown_one clock n b) ! k) = sx_handle (lb_objects b ! k)" if "k < length (lb_objects b)"
    using that by (cases "k = n") (simp_all add: shutdown_one_def request_cancel_def)
qed (auto simp: shutdown_one_def request_cancel_def nth_list_update)

lemma shutdown_fold:
  "k < length (lb_objects b) \<Longrightarrow>
     length (lb_objects (fold (shutdown_one clock) ns b)) = length (lb_objects b) \<and>
     lb_executions (fold (shutdown_one clock) ns b) = lb_executions b \<and>
     sx_status (lb_objects (fold (shutdown_one clock) ns b) ! k) =
       (if k \<in> set ns \<and> sx_status (lb_objects b ! k) = LRunning then LCancelled else sx_status (lb_objects b ! k)) \<and>
     set (lb_killed b) \<subseteq> set (lb_killed (fold (shutdown_one clock) ns b)) \<and>
     (k \<in> set ns \<and> sx_status (lb_objects b ! k) = LRunning \<and> sx_handle (lb_objects b ! k) \<longrightarrow>
        k \<in> set (lb_killed (fold (shutdown_one clock) ns b)))"
proof (induction ns arbitrary: b)
  case (Cons n ns)
  let ?c = "shutdown_one clock n b"
  have k: "k < length (lb_objects ?c)" using Cons.prems by (simp add: shutdown_one_simps)
  note IH = Cons.IH [OF k] and c = shutdown_one_simps(1,2,5) [where clock = clock and n = n and b = b] shutdown_one_simps(3,4) [OF Cons.prems, where clock = clock and n = n]
  have "k \<in> set (lb_killed ?c)" if "k = n" "sx_status (lb_objects b ! k) = LRunning" "sx_handle (lb_objects b ! k)"
    using that by (simp add: shutdown_one_def request_cancel_def)
  then show ?case using IH c by auto
qed simp

section \<open>The properties\<close>

text \<open>C9. Every execution a reachable broker answers with, be it to a start, to a cancellation, or to a status poll whose activity
  sample arrives any number of operations later, is one that the parser of public snapshots accepts and reads back exactly.\<close>

theorem broker_answers_read_back:
  assumes "broker_reach digest m b" and "parseLaneExecutionBrokerRequest v = Some request" and "(broker_step digest)\<^sup>*\<^sup>* b b'"
    and "snd (lane_handle digest launch now reading request b) = LaneOk s \<or> lane_status_poll eid reading b b' = LaneOk s"
  shows "parseLaneExecutionSnapshot (encode_snapshot s) = Some s"
proof -
  have inv: "broker_inv b" using broker_reach_inv [OF assms(1)] by simp
  have inv': "broker_inv b'" "objects_later b b'" using reach_steps [OF assms(3,1)] broker_reach_inv by auto
  have snap: "snapshot_ok (execution_snapshot x a)" if "x \<in> set (lb_objects c)" "broker_inv c" "activity_ok a" for x a c
    using that execution_snapshot_ok by (simp add: broker_inv_def)
  have poll: "snapshot_ok s" if p: "lane_status_poll i reading b c = LaneOk s" "broker_inv c" "objects_later b c" for i c
  proof -
    obtain n where n: "jm_get (lb_executions b) i = Some n" using p(1) by (auto simp: lane_status_poll_def split: option.splits)
    then have "lb_objects c ! n \<in> set (lb_objects c)" using broker_inv_get(1) [OF inv n] p(3) by (simp add: objects_later_def)
    then show ?thesis using p(1) snap [OF _ p(2)] n by (auto simp: lane_status_poll_def)
  qed
  have "snapshot_ok s" if h: "snd (lane_handle digest launch now reading request b) = LaneOk s"
  proof (cases request)
    case (LStart r)
    have start: "snd (lane_start_execution digest launch now r b) = LaneOk s" using h by (simp add: lane_handle_def LStart)
    then obtain x where "s = execution_snapshot x idle_activity" "x \<in> set (lb_objects (fst (lane_start_execution digest launch now r b)))"
      using broker_inv_get(1) [OF inv]
      by (auto simp: lane_start_execution_def Let_def split: option.splits launch_outcome.splits if_splits)
    moreover have "broker_inv (fst (lane_start_execution digest launch now r b))"
      using lane_start_inv [of b v r digest launch now] assms(2) broker_reach_inv [OF assms(1)] by (simp add: LStart)
    ultimately show ?thesis using snap by simp
  next
    case (LStatus i)
    then show ?thesis using poll [of i b] inv h by (simp add: lane_handle_def)
  next
    case (LCancel i)
    have cancel: "snd (lane_cancel now i b) = LaneOk s" using h by (simp add: lane_handle_def LCancel)
    then obtain n where n: "jm_get (lb_executions b) i = Some n"
        "s = execution_snapshot (lb_objects (fst (lane_cancel now i b)) ! n) idle_activity"
      by (auto simp: lane_cancel_def Let_def split: option.splits)
    moreover have "n < length (lb_objects (fst (lane_cancel now i b)))"
      using broker_inv_get(1) [OF inv n(1)] by (simp add: lane_cancel_def n(1) Let_def request_cancel_def)
    moreover have "broker_inv (fst (lane_cancel now i b))" using lane_cancel_inv [of b now i] broker_reach_inv [OF assms(1)] by simp
    ultimately show ?thesis using snap [OF nth_mem] by simp
  qed
  then have "snapshot_ok s" using assms(4) poll [OF _ inv'] by blast
  then show ?thesis by (rule snapshot_read)
qed

text \<open>A terminal execution stays what it is: whatever operations follow, its status and the time it ended do not change, a
  settled execution keeps its result, and no execution changes its identity.\<close>

theorem terminal_status_stays:
  assumes "broker_reach digest m b" and "(broker_step digest)\<^sup>*\<^sup>* b b'" and "n < length (lb_objects b)"
  shows "n < length (lb_objects b') \<and> sx_executionId (lb_objects b' ! n) = sx_executionId (lb_objects b ! n) \<and>
    (sx_status (lb_objects b ! n) \<noteq> LRunning \<longrightarrow> sx_status (lb_objects b' ! n) = sx_status (lb_objects b ! n) \<and>
       sx_endedAt (lb_objects b' ! n) = sx_endedAt (lb_objects b ! n)) \<and>
    (sx_result (lb_objects b ! n) \<noteq> None \<longrightarrow> sx_result (lb_objects b' ! n) = sx_result (lb_objects b ! n))"
proof -
  have "execution_ok (lb_objects b ! n)" using broker_reach_inv [OF assms(1)] assms(3) by (simp add: broker_inv_def)
  moreover have "later (lb_objects b ! n) (lb_objects b' ! n)" "length (lb_objects b) \<le> length (lb_objects b')"
    using reach_steps [OF assms(2,1)] assms(3) by (auto simp: objects_later_def)
  ultimately show ?thesis using assms(3) by (simp add: later_def execution_ok_def)
qed

text \<open>An execution whose process the broker still owns is never lost: its identifier leads to it, another start with that
  identifier launches nothing and changes nothing, and a cancellation makes it terminal at once without dropping it.\<close>

theorem owned_execution_found:
  assumes "broker_reach digest m b" and "n < length (lb_objects b)" and "sx_handle (lb_objects b ! n)"
    and "ls_executionId r = sx_executionId (lb_objects b ! n)"
  shows "jm_get (lb_executions b) (ls_executionId r) = Some n \<and>
    fst (lane_start_execution digest launch now r b) = b \<and>
    sx_status (lb_objects (fst (lane_cancel now (ls_executionId r) b)) ! n) = LCancelled \<and>
    jm_get (lb_executions (fst (lane_cancel now (ls_executionId r) b))) (ls_executionId r) = Some n"
proof -
  note inv = broker_reach_inv [OF assms(1)]
  have found: "jm_get (lb_executions b) (ls_executionId r) = Some n" using inv assms(2-4) by (simp add: broker_inv_def)
  let ?c = "fst (lane_cancel now (ls_executionId r) b)"
  have ok: "execution_ok (lb_objects b ! n)" using inv assms(2) by (simp add: broker_inv_def)
  have c: "length (lb_objects ?c) = length (lb_objects b)" "sx_handle (lb_objects ?c ! n)" "sx_status (lb_objects ?c ! n) = LCancelled"
      "sx_executionId (lb_objects ?c ! n) = ls_executionId r"
    using found assms(2-4) ok
    by (auto simp: lane_cancel_def Let_def request_cancel_def nth_list_update execution_ok_def split: option.splits)
  have "jm_get (lb_executions ?c) (sx_executionId (lb_objects ?c ! n)) = Some n"
    using lane_cancel_inv [of b now "ls_executionId r"] inv c(1,2) assms(2) by (simp add: broker_inv_def)
  moreover have "fst (lane_start_execution digest launch now r b) = b" by (simp add: lane_start_execution_def found Let_def)
  ultimately show ?thesis using found c(3,4) by simp
qed

text \<open>C10. A settlement keeps the retention bound and drops the oldest only: at most \<open>m\<close> settled executions are remembered, and
  whatever it dropped was settled and ended no later than every settled execution it keeps.\<close>

theorem settlement_keeps_newest:
  assumes "broker_reach digest m b" and "0 \<le> m" and "n < length (lb_objects b)" and "sx_handle (lb_objects b ! n)" and "raw_fits raw"
    and "b' = lane_settle now n raw b"
  shows "int (length (settled_ids b')) \<le> m \<and>
    (\<forall>k\<in>snd ` set (lb_executions b) - snd ` set (lb_executions b').
       lane_settled b' k \<and> (\<forall>j\<in>set (settled_ids b'). ended_key b' k \<le> ended_key b' j))"
proof -
  define c where "c = b\<lparr>lb_objects := (lb_objects b)[n := settle_object now raw (lb_objects b ! n)]\<rparr>"
  note inv = broker_reach_inv [OF assms(1)]
  have ok: "execution_ok (lb_objects b ! n)" using inv assms(3) by (simp add: broker_inv_def)
  have c: "broker_inv c" unfolding c_def
    by (rule broker_inv_update(1) [OF _ assms(3) settle_object_ok [OF ok assms(5)]]) (use inv in simp_all)
  have b': "b' = prune_executions c" by (simp add: assms(6) lane_settle_eq c_def)
  have same: "lane_settled b' = lane_settled c" "ended_key b' = ended_key c" by (simp_all add: b' lane_settled_def ended_key_def fun_eq_iff)
  have m: "lb_maxTerminal b = m" using assms(1) by (rule broker_max)
  have "int (length (settled_ids b')) \<le> m"
    using prune_terminal_bounded [OF c] assms(2) m by (simp add: terminal_bounded_def b' c_def prune_executions_def Let_def)
  moreover have "lane_settled b' k \<and> (\<forall>j\<in>set (settled_ids b'). ended_key b' k \<le> ended_key b' j)"
    if "k \<in> snd ` set (lb_executions b) - snd ` set (lb_executions b')" for k
  proof -
    have "lb_executions b' = filter (\<lambda>e. snd e \<notin> set (pruned c)) (lb_executions b)"
      unfolding b' prune_executions_eq [OF c] by (simp add: c_def)
    then have "k \<in> set (pruned c)" using that by auto
    then have k: "k \<in> set (settled_ids c)" "\<And>j. j \<in> set (settled_ids b') \<Longrightarrow> ended_key c k \<le> ended_key c j"
      using set_pruned [of c] pruned_oldest [of k c] settled_prune [OF c] by (auto simp: b')
    then show ?thesis unfolding same by (simp add: settled_ids_def)
  qed
  ultimately show ?thesis by blast
qed

text \<open>After a shutdown no execution is running: each that was running is cancelled, its process is told to stop, and every
  execution is still remembered.\<close>

theorem shutdown_stops_all:
  assumes "broker_reach digest m b" and "n < length (lb_objects b)"
  shows "sx_status (lb_objects (lane_shutdown clock b) ! n) =
      (if sx_status (lb_objects b ! n) = LRunning then LCancelled else sx_status (lb_objects b ! n)) \<and>
    (sx_status (lb_objects b ! n) = LRunning \<longrightarrow> n \<in> set (lb_killed (lane_shutdown clock b))) \<and>
    lb_executions (lane_shutdown clock b) = lb_executions b"
proof -
  note inv = broker_reach_inv [OF assms(1)]
  have ok: "execution_ok (lb_objects b ! n)" using inv assms(2) by (simp add: broker_inv_def)
  have held: "sx_handle (lb_objects b ! n)" if "sx_status (lb_objects b ! n) = LRunning" using that ok by (simp add: execution_ok_def)
  then have "n \<in> set (map snd (lb_executions b))" if "sx_status (lb_objects b ! n) = LRunning"
    using that inv assms(2) jm_get_in by (force simp: broker_inv_def)
  then show ?thesis using shutdown_fold [OF assms(2), of clock "map snd (lb_executions b)"] held
    by (auto simp: lane_shutdown_def)
qed

section \<open>An example\<close>

definition ex_request :: json where
  "ex_request = JObj [(''action'', JStr ''start''), (''executionId'', JStr ''e1''), (''jobId'', JStr ''j1''), (''laneId'', JStr ''lane''),
     (''task'', JStr ''t''), (''cwd'', JStr ''/''), (''timeoutMs'', num 1000), (''depth'', num 0)]"

definition ex_lane_start :: lane_start where
  "ex_lane_start = \<lparr>ls_executionId = ''e1'', ls_jobId = ''j1'', ls_laneId = ''lane'', ls_task = ''t'', ls_cwd = ''/'', ls_timeoutMs = 1000,
     ls_depth = 0, ls_tier = None, ls_readOnly = None, ls_callerRoot = None, ls_host = None, ls_entrypoint = None\<rparr>"

lemma ex_parsed: "parseLaneExecutionBrokerRequest ex_request = Some (LStart ex_lane_start)"
proof -
  have n: "safe_natural (Some (num 1000)) = Some 1000" "safe_natural (Some (num 0)) = Some 0"
    by (simp_all add: safe_natural_def num_def MAX_SAFE_INTEGER_def)
  have i: "boundedId (Some (JStr ''e1'')) = Some ''e1''" "boundedId (Some (JStr ''j1'')) = Some ''j1''" "boundedId (Some (JStr ''lane'')) = Some ''lane''"
    by code_simp+
  show ?thesis
    by (simp add: ex_request_def parseStart_def n i bounded_text_def MAX_BROKER_TASK_CHARS_def MAX_BROKER_PATH_CHARS_def MAX_BROKER_TIMEOUT_MS_def
        ex_lane_start_def)
qed

definition ex_broker :: lane_broker where
  "ex_broker = fst (lane_start_execution (\<lambda>j. ''d'') (\<lambda>r. Launched []) 5 ex_lane_start (new_broker 1))"

lemma ex_broker_reach: "broker_reach (\<lambda>j. ''d'') 1 ex_broker"
  unfolding ex_broker_def by (rule reach_step [OF reach_new step_start [OF ex_parsed]])

lemma ex_broker_simps:
  "lb_executions ex_broker = [(''e1'', 0)]" "length (lb_objects ex_broker) = 1" "lb_maxTerminal ex_broker = 1"
  "sx_handle (lb_objects ex_broker ! 0)" "sx_status (lb_objects ex_broker ! 0) = LRunning" "sx_executionId (lb_objects ex_broker ! 0) = ''e1''"
  by (simp_all add: ex_broker_def new_broker_def lane_start_execution_def Let_def ex_lane_start_def)

theorem broker_answers_read_back_witness:
  "parseLaneExecutionSnapshot (encode_snapshot (execution_snapshot (lb_objects ex_broker ! 0) (safeActivity (Some [])))) =
     Some (execution_snapshot (lb_objects ex_broker ! 0) (safeActivity (Some [])))"
  by (rule broker_answers_read_back [OF ex_broker_reach ex_parsed rtranclp.rtrancl_refl, where eid = "''e1''" and reading = "Some []"])
    (simp add: lane_status_poll_def ex_broker_simps)

theorem terminal_status_stays_witness:
  "sx_executionId (lb_objects (lane_settle 7 0 (rejected_result None) ex_broker) ! 0) = ''e1''"
proof -
  have "broker_step (\<lambda>j. ''d'') ex_broker (lane_settle 7 0 (rejected_result None) ex_broker)"
    by (rule step_settle) (simp_all add: ex_broker_simps raw_fits_def rejected_result_def MAX_SAFE_INTEGER_def)
  then have "(broker_step (\<lambda>j. ''d''))\<^sup>*\<^sup>* ex_broker (lane_settle 7 0 (rejected_result None) ex_broker)" by blast
  then show ?thesis using terminal_status_stays [OF ex_broker_reach, of "lane_settle 7 0 (rejected_result None) ex_broker" 0]
    by (simp add: ex_broker_simps)
qed

theorem owned_execution_found_witness:
  "sx_status (lb_objects (fst (lane_cancel 6 ''e1'' ex_broker)) ! 0) = LCancelled"
  using owned_execution_found [OF ex_broker_reach, of 0 ex_lane_start "\<lambda>r. LaunchThrew" 6]
  by (simp add: ex_broker_simps) (simp add: ex_lane_start_def)

theorem settlement_keeps_newest_witness:
  "int (length (settled_ids (lane_settle 7 0 (rejected_result None) ex_broker))) \<le> 1"
  using settlement_keeps_newest [OF ex_broker_reach _ _ _ _ refl, of 0 "rejected_result None" 7]
  by (simp add: ex_broker_simps raw_fits_def rejected_result_def MAX_SAFE_INTEGER_def)

theorem shutdown_stops_all_witness: "sx_status (lb_objects (lane_shutdown (\<lambda>n. 9) ex_broker) ! 0) = LCancelled"
  using shutdown_stops_all [OF ex_broker_reach, of 0] by (simp add: ex_broker_simps)

end
