(* ===== verification/Lane_Cadence.thy ===== *)
theory Lane_Cadence
  imports Dispatch_Lane
begin

text \<open>
  The background re-probes of command-line lanes (\<^verbatim>\<open>lane-cadence.ts\<close>), the quota buckets they can test
  (\<^verbatim>\<open>laneQuotaTargets\<close> of \<^verbatim>\<open>lane-quota-probe.ts\<close>, \<^verbatim>\<open>laneCommands\<close> of \<^verbatim>\<open>lane-probe.ts\<close>), and the file of exhausted quotas
  (\<^verbatim>\<open>dispatch-exhaustion-persistence.ts\<close>). A run in flight is a value: the catalog probe with the quota keys that follow it, or the
  quota probes that have not settled, each with the moment it began. What a lane command answers is an argument.
\<close>

section \<open>Settings and targets\<close>

record lane_probe_settings =
  lp_enabled :: bool
  lp_quotaIntervalMs :: rat
  lp_catalogIntervalMs :: rat

definition DEFAULT_LANE_PROBE :: lane_probe_settings where
  "DEFAULT_LANE_PROBE = \<lparr>lp_enabled = True, lp_quotaIntervalMs = 6 * 60 * 60 * 1000, lp_catalogIntervalMs = 24 * 60 * 60 * 1000\<rparr>"

datatype dispatch_outcome = RateLimited | QuotaExhausted

definition OUTCOME_DEFAULT_MS :: "dispatch_outcome \<Rightarrow> rat" where
  "OUTCOME_DEFAULT_MS outcome = (case outcome of RateLimited \<Rightarrow> DEFAULT_EXHAUSTED_MS | QuotaExhausted \<Rightarrow> 60 * 60 * 1000)"

datatype lane_verdict = Alive | Exhausted dispatch_outcome "rat option" | Inconclusive

record quota_target =
  qt_key :: string
  qt_lane :: string
  qt_command :: string
  qt_rung :: ladder_rung

fun quota_targets :: "ladder_rung list \<Rightarrow> string list \<Rightarrow> quota_target list" where
  "quota_targets [] seen = []"
| "quota_targets (rung # rungs) seen =
     (case (rg_kind rung, rg_command rung) of
        (CliRung, Some command) \<Rightarrow>
          (case laneOfRung command (rg_args rung) of
             None \<Rightarrow> quota_targets rungs seen
           | Some lane \<Rightarrow>
               if \<not> list_ex (\<lambda>a. contains_text a TASK_TOKEN) (case rg_args rung of Some xs \<Rightarrow> xs | None \<Rightarrow> []) \<or> cooldownKey rung \<in> set seen
               then quota_targets rungs seen
               else \<lparr>qt_key = cooldownKey rung, qt_lane = lane, qt_command = command, qt_rung = rung\<rparr> # quota_targets rungs (cooldownKey rung # seen))
      | _ \<Rightarrow> quota_targets rungs seen)"

definition laneQuotaTargets :: "dispatch_config \<Rightarrow> quota_target list" where
  "laneQuotaTargets cfg = quota_targets (allLadderRungs cfg) []"

text \<open>The lanes of the ladders, each once; their commands are not needed here.\<close>

definition laneCommands :: "dispatch_config \<Rightarrow> string list" where
  "laneCommands cfg = remdups (List.map_filter (\<lambda>rung. case (rg_kind rung, rg_command rung) of
     (CliRung, Some command) \<Rightarrow> laneOfRung command (rg_args rung) | _ \<Rightarrow> None) (allLadderRungs cfg))"

section \<open>The cadence\<close>

datatype cadence_run = Catalog_Probe "string list" | Quota_Probes "(string \<times> rat) list"

record lane_cadence =
  cd_run :: "cadence_run option"
  cd_lastCatalogRunAt :: rat
  cd_quotaAttemptAt :: "(string, rat) jmap"
  cd_batch :: "(string \<times> lane_verdict \<times> rat) list"
  cd_lastQuotaRecords :: "(string \<times> lane_verdict \<times> rat) list"

definition new_cadence :: lane_cadence where
  "new_cadence = \<lparr>cd_run = None, cd_lastCatalogRunAt = 0, cd_quotaAttemptAt = [], cd_batch = [], cd_lastQuotaRecords = []\<rparr>"

definition catalogDue :: "lane_probe_settings \<Rightarrow> dispatch_config \<Rightarrow> lane_manifest option \<Rightarrow> rat \<Rightarrow> lane_cadence \<Rightarrow> bool" where
  "catalogDue settings cfg manifest now c \<longleftrightarrow> \<not> now - cd_lastCatalogRunAt c < lp_catalogIntervalMs settings \<and>
     list_ex (\<lambda>lane. case manifest_entry manifest lane of
        None \<Rightarrow> True
      | Some entry \<Rightarrow> (case le_probedAt entry of None \<Rightarrow> True | Some probed \<Rightarrow> lp_catalogIntervalMs settings \<le> now - probed)) (laneCommands cfg)"

text \<open>The dead buckets whose gate has lapsed; one that is seen dead for the first time is stamped, and a stamp of one that is no longer
  dead is forgotten.\<close>

definition dead_keys :: "rat \<Rightarrow> exhaustion \<Rightarrow> string list" where
  "dead_keys now ex = remdups (map fst (exportExhaustedRows now ex))"

definition quotaDue :: "rat \<Rightarrow> rat \<Rightarrow> exhaustion \<Rightarrow> lane_cadence \<Rightarrow> string list \<times> lane_cadence" where
  "quotaDue interval now ex c =
     (let dead = dead_keys now ex;
          kept = filter (\<lambda>e. fst e \<in> set dead) (cd_quotaAttemptAt c)
      in (filter (\<lambda>k. case jm_get kept k of None \<Rightarrow> False | Some stamp \<Rightarrow> interval \<le> now - stamp) dead,
          c\<lparr>cd_quotaAttemptAt := fold (\<lambda>k m. if jm_get m k = None then jm_put k now m else m) dead kept\<rparr>))"

text \<open>The end of a run, when nothing is in flight any more.\<close>

definition settle_run :: "lane_cadence \<Rightarrow> lane_cadence" where
  "settle_run c = (if cd_run c = Some (Quota_Probes [])
     then c\<lparr>cd_run := None, cd_batch := [], cd_lastQuotaRecords := (if cd_batch c = [] then cd_lastQuotaRecords c else cd_batch c)\<rparr>
     else c)"

text \<open>The quota probes begin: the keys the configuration still names are stamped first. The keys that are probed are given back.\<close>

definition start_probes :: "dispatch_config \<Rightarrow> rat \<Rightarrow> string list \<Rightarrow> lane_cadence \<Rightarrow> lane_cadence \<times> string list" where
  "start_probes cfg now keys c =
     (let probed = filter (\<lambda>k. k \<in> set (map qt_key (laneQuotaTargets cfg))) keys
      in (settle_run (c\<lparr>cd_quotaAttemptAt := fold (\<lambda>k. jm_put k now) probed (cd_quotaAttemptAt c),
            cd_run := Some (Quota_Probes (map (\<lambda>k. (k, now)) probed)), cd_batch := []\<rparr>), probed))"

definition poke :: "lane_probe_settings \<Rightarrow> dispatch_config \<Rightarrow> lane_manifest option \<Rightarrow> rat \<Rightarrow> exhaustion \<Rightarrow> lane_cadence \<Rightarrow> lane_cadence \<times> string list" where
  "poke settings cfg manifest now ex c =
     (if \<not> lp_enabled settings \<or> cd_run c \<noteq> None then (c, [])
      else (let catalog = catalogDue settings cfg manifest now c; (due, c1) = quotaDue (lp_quotaIntervalMs settings) now ex c
        in if catalog then (c1\<lparr>cd_lastCatalogRunAt := now, cd_run := Some (Catalog_Probe due)\<rparr>, [])
           else if due = [] then (c1, [])
           else start_probes cfg now due c1))"

text \<open>The catalog probe is over, however it went.\<close>

definition catalog_settled :: "dispatch_config \<Rightarrow> rat \<Rightarrow> lane_cadence \<Rightarrow> lane_cadence \<times> string list" where
  "catalog_settled cfg now c =
     (case cd_run c of
        Some (Catalog_Probe due) \<Rightarrow> if due = [] then (c\<lparr>cd_run := None\<rparr>, []) else start_probes cfg now due c
      | _ \<Rightarrow> (c, []))"

text \<open>A quota probe is over: its verdict, or \<open>None\<close> when it threw. The verdict counts from the moment the probe began.\<close>

definition probe_settled :: "string \<Rightarrow> lane_verdict option \<Rightarrow> lane_cadence \<times> exhaustion \<Rightarrow> lane_cadence \<times> exhaustion" where
  "probe_settled key verdict = (\<lambda>(c, ex).
     case cd_run c of
       Some (Quota_Probes probes) \<Rightarrow>
         (case map_of probes key of
            None \<Rightarrow> (c, ex)
          | Some now \<Rightarrow>
              (let c1 = c\<lparr>cd_run := Some (Quota_Probes (filter (\<lambda>e. fst e \<noteq> key) probes)),
                      cd_batch := (case verdict of None \<Rightarrow> cd_batch c | Some v \<Rightarrow> cd_batch c @ [(key, v, now)])\<rparr>
               in case verdict of
                 Some Alive \<Rightarrow> (settle_run (c1\<lparr>cd_quotaAttemptAt := jm_del key (cd_quotaAttemptAt c1)\<rparr>), clearExhaustedKey key ex)
               | Some (Exhausted outcome retry) \<Rightarrow>
                   (settle_run c1, markExhaustedKey key (Fin (now + (case retry of Some t \<Rightarrow> t | None \<Rightarrow> OUTCOME_DEFAULT_MS outcome))) now ex)
               | _ \<Rightarrow> (settle_run c1, ex)))
     | _ \<Rightarrow> (c, ex))"

section \<open>The file of exhausted quotas\<close>

definition CURRENT_DISPATCH_EXHAUSTION_VERSION :: rat where "CURRENT_DISPATCH_EXHAUSTION_VERSION = 1"

fun isExhaustedRow :: "json \<Rightarrow> (string \<times> rat) option" where
  "isExhaustedRow (JObj row) =
     (case (member row ''key'', member row ''until'') of
        (Some (JStr key), Some (JNum (Fin u))) \<Rightarrow> if key = [] then None else Some (key, u)
      | _ \<Rightarrow> None)"
| "isExhaustedRow v = None"

definition loadExhaustedRows :: "json option \<Rightarrow> rat \<Rightarrow> (string \<times> jsnum) list" where
  "loadExhaustedRows parsed now =
     (case parsed of
        Some (JObj ms) \<Rightarrow>
          if member ms ''version'' \<noteq> Some (JNum (Fin CURRENT_DISPATCH_EXHAUSTION_VERSION)) then []
          else (case member ms ''rows'' of
              Some (JArr rows) \<Rightarrow> map (\<lambda>(key, u). (key, Fin u)) (filter (\<lambda>(key, u). now < u) (List.map_filter isExhaustedRow rows))
            | _ \<Rightarrow> [])
      | _ \<Rightarrow> [])"

definition saveExhaustedRows :: "(string \<times> rat) list \<Rightarrow> rat \<Rightarrow> json" where
  "saveExhaustedRows rows now = JObj [(''version'', JNum (Fin CURRENT_DISPATCH_EXHAUSTION_VERSION)),
     (''rows'', JArr (map (\<lambda>(key, u). JObj [(''key'', JStr key), (''until'', JNum (Fin u))]) (filter (\<lambda>(key, u). now < u) rows)))]"

text \<open>What an installation restores when the process before it wrote its cooldowns at the time \<open>now\<close>.\<close>

definition reload_exhaustion :: "rat \<Rightarrow> rat \<Rightarrow> exhaustion \<Rightarrow> exhaustion" where
  "reload_exhaustion now later ex =
     fst (restoreExhaustedRows (loadExhaustedRows (Some (saveExhaustedRows (exportExhaustedRows now ex) now)) later) later \<lparr>ex_cooldowns = [], ex_notified = 0\<rparr>)"

end
