(* ===== verification/Lane_Cadence_Props.thy ===== *)
theory Lane_Cadence_Props
  imports Lane_Cadence
begin

text \<open>
  The properties of the background probes and of the file of exhausted quotas: no bucket is probed twice within its interval, and a
  reported exhaustion survives a restart of the relay.
\<close>

section \<open>Probes keep their distance\<close>

text \<open>A world: the time, the cadence, the exhausted quotas, and the probes that were begun.\<close>

type_synonym cadence_world = "rat \<times> lane_cadence \<times> exhaustion \<times> (string \<times> rat) list"

inductive cadence_step :: "lane_probe_settings \<Rightarrow> dispatch_config \<Rightarrow> cadence_world \<Rightarrow> cadence_world \<Rightarrow> bool" for settings cfg where
  pass: "t \<le> t' \<Longrightarrow> cadence_step settings cfg (t, c, ex, probes) (t', c, ex, probes)"
| report: "cadence_step settings cfg (t, c, ex, probes) (t, c, ex', probes)"
| poked: "poke settings cfg manifest t ex c = (c', begun) \<Longrightarrow>
    cadence_step settings cfg (t, c, ex, probes) (t, c', ex, probes @ map (\<lambda>k. (k, t)) begun)"
| catalog: "catalog_settled cfg t c = (c', begun) \<Longrightarrow>
    cadence_step settings cfg (t, c, ex, probes) (t, c', ex, probes @ map (\<lambda>k. (k, t)) begun)"
| settled: "probe_settled key verdict (c, ex) = (c', ex') \<Longrightarrow> cadence_step settings cfg (t, c, ex, probes) (t, c', ex', probes)"

inductive cadence_reach :: "lane_probe_settings \<Rightarrow> dispatch_config \<Rightarrow> cadence_world \<Rightarrow> bool" for settings cfg where
  start: "cadence_reach settings cfg (t, new_cadence, ex, [])"
| step: "cadence_reach settings cfg w \<Longrightarrow> cadence_step settings cfg w w' \<Longrightarrow> cadence_reach settings cfg w'"

definition apart :: "rat \<Rightarrow> string \<times> rat \<Rightarrow> string \<times> rat \<Rightarrow> bool" where
  "apart interval a b \<longleftrightarrow> (fst a = fst b \<longrightarrow> interval \<le> snd b - snd a)"

definition rested :: "rat \<Rightarrow> rat \<Rightarrow> (string \<times> rat) list \<Rightarrow> string list \<Rightarrow> bool" where
  "rested interval t probes keys \<longleftrightarrow> distinct keys \<and> (\<forall>k \<in> set keys. \<forall>s. (k, s) \<in> set probes \<longrightarrow> interval \<le> t - s)"

fun cadence_inv :: "rat \<Rightarrow> cadence_world \<Rightarrow> bool" where
  "cadence_inv interval (t, c, ex, probes) \<longleftrightarrow>
     sorted_wrt (apart interval) probes \<and> (\<forall>(k, s) \<in> set probes. s \<le> t) \<and>
     (\<forall>k stamp. jm_get (cd_quotaAttemptAt c) k = Some stamp \<longrightarrow> (\<forall>s. (k, s) \<in> set probes \<longrightarrow> s \<le> stamp)) \<and>
     (\<forall>due. cd_run c = Some (Catalog_Probe due) \<longrightarrow> rested interval t probes due)"

lemma settle_run_simps [simp]: "cd_quotaAttemptAt (settle_run c) = cd_quotaAttemptAt c"
  "cd_run (settle_run c) = Some (Catalog_Probe due) \<longleftrightarrow> cd_run c = Some (Catalog_Probe due)"
  by (auto simp: settle_run_def)

lemma fold_stamp: "jm_get (fold (\<lambda>k. jm_put k now) keys m) k = (if k \<in> set keys then Some now else jm_get m k)"
  by (induction keys arbitrary: m) (auto simp: jm_laws)

lemma fold_first_stamp:
  "jm_get (fold (\<lambda>k m. if jm_get m k = None then jm_put k now m else m) keys m) k =
     (case jm_get m k of Some s \<Rightarrow> Some s | None \<Rightarrow> if k \<in> set keys then Some now else None)"
  by (induction keys arbitrary: m) (auto simp: jm_laws split: option.split)

text \<open>A batch that begins after every key has rested keeps the distances.\<close>

lemma begin_apart:
  assumes "sorted_wrt (apart interval) probes" "rested interval t probes keys"
  shows "sorted_wrt (apart interval) (probes @ map (\<lambda>k. (k, t)) keys)"
proof -
  have "sorted_wrt (apart interval) (map (\<lambda>k. (k, t)) keys)"
    using assms(2) by (simp add: rested_def sorted_wrt_map apart_def distinct_conv_nth sorted_wrt_iff_nth_less)
  then show ?thesis using assms by (auto simp: sorted_wrt_append apart_def rested_def)
qed

lemma start_probes_inv:
  assumes "cadence_inv interval (t, c, ex, probes)" "rested interval t probes keys" "start_probes cfg t keys c = (c', begun)"
  shows "cadence_inv interval (t, c', ex, probes @ map (\<lambda>k. (k, t)) begun)"
proof -
  have begun: "begun = filter (\<lambda>k. k \<in> set (map qt_key (laneQuotaTargets cfg))) keys"
    and stamps: "cd_quotaAttemptAt c' = fold (\<lambda>k. jm_put k t) begun (cd_quotaAttemptAt c)"
    and run: "cd_run c' \<noteq> Some (Catalog_Probe due)" for due
    using assms(3) by (auto simp: start_probes_def Let_def)
  have "rested interval t probes begun" using assms(2) by (auto simp: begun rested_def)
  then have "sorted_wrt (apart interval) (probes @ map (\<lambda>k. (k, t)) begun)" using assms(1) by (intro begin_apart) simp_all
  moreover have "\<forall>(k, s) \<in> set (probes @ map (\<lambda>k. (k, t)) begun). s \<le> t" using assms(1) by auto
  moreover have "s \<le> stamp" if "jm_get (cd_quotaAttemptAt c') k = Some stamp" "(k, s) \<in> set (probes @ map (\<lambda>k. (k, t)) begun)" for k s stamp
    using that assms(1) unfolding stamps fold_stamp by (auto split: if_splits)
  ultimately show ?thesis using run by simp
qed

lemma quotaDue_rested:
  assumes "cadence_inv interval (t, c, ex, probes)" "quotaDue interval t ex c = (due, c1)"
  shows "rested interval t probes due" "cadence_inv interval (t, c1\<lparr>cd_run := None\<rparr>, ex, probes)" "cd_run c1 = cd_run c"
proof -
  let ?kept = "filter (\<lambda>e. fst e \<in> set (dead_keys t ex)) (cd_quotaAttemptAt c)"
  have due: "due = filter (\<lambda>k. case jm_get ?kept k of None \<Rightarrow> False | Some stamp \<Rightarrow> interval \<le> t - stamp) (dead_keys t ex)"
    and c1: "c1 = c\<lparr>cd_quotaAttemptAt := fold (\<lambda>k m. if jm_get m k = None then jm_put k t m else m) (dead_keys t ex) ?kept\<rparr>"
    using assms(2) by (simp_all add: quotaDue_def Let_def)
  have kept: "jm_get (filter (\<lambda>e. fst e \<in> A) m) k = (if k \<in> A then jm_get m k else None)" for A k and m :: "(string, rat) jmap"
    by (induction m) auto
  show "rested interval t probes due"
    unfolding rested_def
  proof (intro conjI ballI allI impI)
    show "distinct due" by (simp add: due dead_keys_def)
  next
    fix k s assume k: "k \<in> set due" and s: "(k, s) \<in> set probes"
    then obtain stamp where stamp: "jm_get ?kept k = Some stamp" "interval \<le> t - stamp" by (auto simp: due split: option.splits)
    then have "jm_get (cd_quotaAttemptAt c) k = Some stamp" by (simp add: kept split: if_splits)
    then have "s \<le> stamp" using assms(1) s by auto
    then show "interval \<le> t - s" using stamp(2) by simp
  qed
  have "s \<le> stamp" if "jm_get (cd_quotaAttemptAt c1) k = Some stamp" "(k, s) \<in> set probes" for k s stamp
    using that assms(1) unfolding c1 by (auto simp: fold_first_stamp kept split: option.splits if_splits)
  then show "cadence_inv interval (t, c1\<lparr>cd_run := None\<rparr>, ex, probes)" using assms(1) by simp
  show "cd_run c1 = cd_run c" by (simp add: c1)
qed

lemma cadence_poke_inv:
  assumes "cadence_inv (lp_quotaIntervalMs settings) (t, c, ex, probes)" "poke settings cfg manifest t ex c = (c', begun)"
  shows "cadence_inv (lp_quotaIntervalMs settings) (t, c', ex, probes @ map (\<lambda>k. (k, t)) begun)"
proof (cases "\<not> lp_enabled settings \<or> cd_run c \<noteq> None")
  case True
  then show ?thesis using assms by (auto simp: poke_def)
next
  case False
  obtain due c1 where due: "quotaDue (lp_quotaIntervalMs settings) t ex c = (due, c1)" by (cases "quotaDue (lp_quotaIntervalMs settings) t ex c")
  note q = quotaDue_rested [OF assms(1) due]
  have "c1\<lparr>cd_run := None\<rparr> = c1" using q(3) False by (cases c1) simp
  then have inv: "cadence_inv (lp_quotaIntervalMs settings) (t, c1, ex, probes)" using q(2) by simp
  show ?thesis
  proof (cases "catalogDue settings cfg manifest t c")
    case True
    then show ?thesis using False assms(2) due inv q(1) by (auto simp: poke_def)
  next
    case no_catalog: False
    then show ?thesis using False assms(2) due inv q(1) start_probes_inv [OF inv q(1), of cfg c' begun]
      by (cases "due = []") (auto simp: poke_def)
  qed
qed

lemma cadence_step_inv:
  assumes "cadence_step settings cfg w w'" "cadence_inv (lp_quotaIntervalMs settings) w"
  shows "cadence_inv (lp_quotaIntervalMs settings) w'"
  using assms
proof (cases rule: cadence_step.cases)
  case (pass t t' c ex probes)
  have "rested i t' probes due" if "rested i t probes due" for i due
    using that pass(3) unfolding rested_def by (meson diff_right_mono order_trans)
  then show ?thesis using assms(2) pass by fastforce
next
  case (report t c ex probes ex')
  then show ?thesis using assms(2) by simp
next
  case (poked manifest t ex c c' begun probes)
  show ?thesis unfolding poked(2) by (rule cadence_poke_inv [OF _ poked(3)]) (use assms(2) poked(1) in simp)
next
  case (catalog t c c' begun ex probes)
  show ?thesis
  proof (cases "\<exists>due. cd_run c = Some (Catalog_Probe due)")
    case True
    then obtain due where run: "cd_run c = Some (Catalog_Probe due)" by blast
    have inv: "cadence_inv (lp_quotaIntervalMs settings) (t, c, ex, probes)" using assms(2) catalog(1) by simp
    then have "rested (lp_quotaIntervalMs settings) t probes due" using run by simp
    then show ?thesis using inv run catalog start_probes_inv [OF inv, of due cfg c' begun]
      by (cases "due = []") (auto simp: catalog_settled_def)
  next
    case False
    then have "catalog_settled cfg t c = (c, [])" by (auto simp: catalog_settled_def split: option.split cadence_run.split)
    then show ?thesis using assms(2) catalog by simp
  qed
next
  case (settled key verdict c ex c' ex' t probes)
  have stamps: "jm_get (cd_quotaAttemptAt c') k = Some stamp \<Longrightarrow> jm_get (cd_quotaAttemptAt c) k = Some stamp" for k stamp
    using settled(3) by (auto simp: probe_settled_def Let_def jm_laws split: option.splits cadence_run.splits lane_verdict.splits if_splits)
  have run: "cd_run c' = Some (Catalog_Probe due) \<Longrightarrow> cd_run c = Some (Catalog_Probe due)" for due
    using settled(3) by (auto simp: probe_settled_def Let_def split: option.splits cadence_run.splits lane_verdict.splits)
  show ?thesis using assms(2) settled(1,2) stamps run by fastforce
qed

lemma cadence_reach_inv: "cadence_reach settings cfg w \<Longrightarrow> cadence_inv (lp_quotaIntervalMs settings) w"
  by (induction rule: cadence_reach.induct) (auto simp: new_cadence_def intro: cadence_step_inv)

text \<open>C34. The relay does not spend a lane's quota on probing it: whatever is reported, retracted and answered in the meantime, two
  probes of one quota bucket are at least the configured interval apart, in every sequence of pokes, catalog probes and
  settlements.\<close>

theorem quota_probes_spaced:
  assumes "cadence_reach settings cfg (t, c, ex, probes)" "i < j" "j < length probes" "fst (probes ! i) = fst (probes ! j)"
  shows "lp_quotaIntervalMs settings \<le> snd (probes ! j) - snd (probes ! i)"
proof -
  have "sorted_wrt (apart (lp_quotaIntervalMs settings)) probes" using cadence_reach_inv [OF assms(1)] by simp
  then have "apart (lp_quotaIntervalMs settings) (probes ! i) (probes ! j)" using assms(2,3) by (simp add: sorted_wrt_iff_nth_less)
  then show ?thesis using assms(4) by (simp add: apart_def)
qed

text \<open>One bucket that stays dead: it is stamped when it is first seen, and probed twice.\<close>

definition probe_config :: dispatch_config where
  "probe_config = \<lparr>dc_ladders = None,
     dc_ladder = Some [\<lparr>rg_id = ''one'', rg_kind = CliRung, rg_enabled = True, rg_quota = None, rg_note = None, rg_command = Some ''codex'',
       rg_args = Some [''exec'', TASK_TOKEN], rg_env = None, rg_maxConcurrent = None, rg_spec = None\<rparr>],
     dc_subagentDefault = None, dc_pools = None, dc_poolDegraded = None, dc_poolEffort = [], dc_providers = [], dc_cliLane = None,
     dc_walk = None, dc_offload = OffloadFlag None, dc_default = [''auto'']\<rparr>"

definition probe_settings :: lane_probe_settings where
  "probe_settings = \<lparr>lp_enabled = True, lp_quotaIntervalMs = 10, lp_catalogIntervalMs = 1000\<rparr>"

definition dead_bucket :: exhaustion where
  "dead_bucket = \<lparr>ex_cooldowns = [(''rung:one'', 500)], ex_notified = 0\<rparr>"

lemma probe_targets: "map qt_key (laneQuotaTargets probe_config) = [''rung:one'']"
  by code_simp

definition stamped :: "rat \<Rightarrow> cadence_run option \<Rightarrow> lane_cadence" where
  "stamped t run = \<lparr>cd_run = run, cd_lastCatalogRunAt = 0, cd_quotaAttemptAt = [(''rung:one'', t)], cd_batch = [], cd_lastQuotaRecords = []\<rparr>"

lemmas probe_run = poke_def catalogDue_def quotaDue_def dead_keys_def exportExhaustedRows_def dead_bucket_def probe_settings_def
  new_cadence_def stamped_def start_probes_def settle_run_def probe_settled_def

lemma pokes:
  "poke probe_settings probe_config None 5 dead_bucket new_cadence = (stamped 5 None, [])"
  "poke probe_settings probe_config None 20 dead_bucket (stamped 5 None) = (stamped 20 (Some (Quota_Probes [(''rung:one'', 20)])), [''rung:one''])"
  "probe_settled ''rung:one'' None (stamped 20 (Some (Quota_Probes [(''rung:one'', 20)])), dead_bucket) = (stamped 20 None, dead_bucket)"
  "poke probe_settings probe_config None 35 dead_bucket (stamped 20 None) = (stamped 35 (Some (Quota_Probes [(''rung:one'', 35)])), [''rung:one''])"
  by (simp_all add: probe_run probe_targets del: set_map image_set)

lemma probed_twice:
  "cadence_reach probe_settings probe_config (35, stamped 35 (Some (Quota_Probes [(''rung:one'', 35)])), dead_bucket, [(''rung:one'', 20), (''rung:one'', 35)])"
proof -
  note go = cadence_reach.step
  have "cadence_reach probe_settings probe_config (5, new_cadence, dead_bucket, [])" by (rule cadence_reach.start)
  from go [OF this cadence_step.poked [OF pokes(1)]] have "cadence_reach probe_settings probe_config (5, stamped 5 None, dead_bucket, [])" by simp
  from go [OF this cadence_step.pass [of 5 20]] have "cadence_reach probe_settings probe_config (20, stamped 5 None, dead_bucket, [])" by simp
  from go [OF this cadence_step.poked [OF pokes(2)]]
  have "cadence_reach probe_settings probe_config (20, stamped 20 (Some (Quota_Probes [(''rung:one'', 20)])), dead_bucket, [(''rung:one'', 20)])" by simp
  from go [OF this cadence_step.settled [OF pokes(3)]]
  have "cadence_reach probe_settings probe_config (20, stamped 20 None, dead_bucket, [(''rung:one'', 20)])" .
  from go [OF this cadence_step.pass [of 20 35]] have "cadence_reach probe_settings probe_config (35, stamped 20 None, dead_bucket, [(''rung:one'', 20)])" by simp
  from go [OF this cadence_step.poked [OF pokes(4)]] show ?thesis by simp
qed

lemma quota_probes_spaced_witness: "lp_quotaIntervalMs probe_settings \<le> 35 - 20"
  using quota_probes_spaced [OF probed_twice, of 0 1] by simp

section \<open>Exhausted quotas survive a restart\<close>

text \<open>What holds of the cooldowns at a time: their keys are not empty, and none lies further ahead than the bound.\<close>

definition cooldowns_ok :: "rat \<Rightarrow> exhaustion \<Rightarrow> bool" where
  "cooldowns_ok now ex \<longleftrightarrow> jm_ok (ex_cooldowns ex) \<and> (\<forall>(k, u) \<in> set (ex_cooldowns ex). k \<noteq> [] \<and> u \<le> now + MAX_EXHAUSTED_MS)"

inductive exhaustion_step :: "rat \<times> exhaustion \<Rightarrow> rat \<times> exhaustion \<Rightarrow> bool" where
  "now \<le> later \<Longrightarrow> exhaustion_step (now, ex) (later, ex)"
| "exhaustion_step (now, ex) (now, fst (markExhausted cfg laneId ttlMs tier now ex))"
| "exhaustion_step (now, ex) (now, markExhaustedKey key untilMs now ex)"
| "exhaustion_step (now, ex) (now, clearExhausted cfg lane tier ex)"
| "exhaustion_step (now, ex) (now, clearExhaustedKey key ex)"
| "exhaustion_step (now, ex) (now, fst (cooldownUntil rung now ex))"
| "exhaustion_step (now, ex) (now, fst (restoreExhaustedRows rows now ex))"

inductive exhaustion_reach :: "rat \<times> exhaustion \<Rightarrow> bool" where
  start: "exhaustion_reach (now, \<lparr>ex_cooldowns = [], ex_notified = 0\<rparr>)"
| step: "exhaustion_reach w \<Longrightarrow> exhaustion_step w w' \<Longrightarrow> exhaustion_reach w'"

lemma max_exhausted_pos: "0 < MAX_EXHAUSTED_MS"
  by (simp add: MAX_EXHAUSTED_MS_def)

lemma cooldowns_put:
  "cooldowns_ok now ex \<Longrightarrow> key \<noteq> [] \<Longrightarrow> u \<le> now + MAX_EXHAUSTED_MS \<Longrightarrow> cooldowns_ok now (ex\<lparr>ex_cooldowns := jm_put key u (ex_cooldowns ex)\<rparr>)"
  by (auto simp: cooldowns_ok_def jm_laws dest: jm_put_set)

lemma cooldowns_del: "cooldowns_ok now ex \<Longrightarrow> cooldowns_ok now (ex\<lparr>ex_cooldowns := jm_del key (ex_cooldowns ex)\<rparr>)"
  using set_jm_del [of key "ex_cooldowns ex"] by (auto simp: cooldowns_ok_def jm_laws)

lemma cooldowns_notify [simp]: "cooldowns_ok now (exhaustion_notify ex) = cooldowns_ok now ex"
  by (simp add: cooldowns_ok_def exhaustion_notify_def)

lemma clamp_bound: "clampExhaustedDeadline u now \<le> now + MAX_EXHAUSTED_MS"
  by (simp add: clampExhaustedDeadline_def)

lemma cooldowns_mark: "cooldowns_ok now ex \<Longrightarrow> cooldowns_ok now (markExhaustedKey key untilMs now ex)"
  by (cases untilMs) (simp_all add: markExhaustedKey_def cooldowns_put clamp_bound)

lemma cooldowns_restore:
  "cooldowns_ok now \<lparr>ex_cooldowns = m, ex_notified = n\<rparr> \<Longrightarrow> cooldowns_ok now \<lparr>ex_cooldowns = fst (restore_exhausted now rows m), ex_notified = n\<rparr>"
proof (induction now rows m rule: restore_exhausted.induct)
  case (2 now key moment rows m)
  show ?case
  proof (cases moment)
    case (Fin u)
    show ?thesis
    proof (cases "key = [] \<or> u \<le> now \<or> jm_get m key \<noteq> None")
      case True
      then show ?thesis using "2.IH"(1) [OF Fin True] "2.prems" Fin by simp
    next
      case False
      then have "cooldowns_ok now \<lparr>ex_cooldowns = jm_put key (clampExhaustedDeadline u now) m, ex_notified = n\<rparr>"
        using cooldowns_put [OF "2.prems" _ clamp_bound] by simp
      then show ?thesis using "2.IH"(2) [OF Fin False] Fin False by (simp add: split_beta)
    qed
  qed (use 2 in simp_all)
qed simp

lemma cooldowns_reach: "exhaustion_reach w \<Longrightarrow> cooldowns_ok (fst w) (snd w)"
proof (induction rule: exhaustion_reach.induct)
  case (start now)
  then show ?case by (simp add: cooldowns_ok_def)
next
  case (step w w')
  from step.hyps(2) step.IH show ?case
  proof (cases rule: exhaustion_step.cases)
    case (1 now later ex)
    then show ?thesis using step.IH by (fastforce simp: cooldowns_ok_def)
  next
    case (2 now ex cfg laneId ttlMs tier)
    then show ?thesis using step.IH cooldowns_mark by (simp add: markExhausted_def split: option.split)
  next
    case (3 now ex key untilMs)
    then show ?thesis using step.IH cooldowns_mark by simp
  next
    case (4 now ex cfg lane tier)
    then show ?thesis using step.IH cooldowns_del
      by (auto simp: clearExhausted_def clearExhaustedKey_def exhaustion_notify_def cooldowns_ok_def split: option.split)
  next
    case (5 now ex key)
    then show ?thesis using step.IH cooldowns_del by (simp add: clearExhaustedKey_def)
  next
    case (6 now ex rung)
    then show ?thesis using step.IH cooldowns_del by (simp add: cooldownUntil_def split: option.split)
  next
    case (7 now ex rows)
    then show ?thesis using step.IH cooldowns_restore [of now "ex_cooldowns ex" "ex_notified ex" rows]
      by (cases ex) (simp add: restoreExhaustedRows_def split_beta Let_def)
  qed
qed

lemma restored_get:
  assumes "distinct (map fst rows)" "\<forall>(k, u) \<in> set rows. k \<noteq> [] \<and> later < u \<and> u \<le> later + MAX_EXHAUSTED_MS \<and> jm_get m k = None"
  shows "jm_get (fst (restore_exhausted later (map (\<lambda>(k, u). (k, Fin u)) rows) m)) key = (case map_of rows key of Some u \<Rightarrow> Some u | None \<Rightarrow> jm_get m key)"
  using assms
proof (induction rows arbitrary: m)
  case (Cons e rows)
  obtain k u where e: "e = (k, u)" by (cases e)
  have k: "k \<noteq> []" "later < u" "u \<le> later + MAX_EXHAUSTED_MS" "jm_get m k = None" "k \<notin> fst ` set rows"
    using Cons.prems e by auto
  have clamp: "clampExhaustedDeadline u later = u" using k(2,3) by (simp add: clampExhaustedDeadline_def)
  have "\<forall>(k', u') \<in> set rows. k' \<noteq> [] \<and> later < u' \<and> u' \<le> later + MAX_EXHAUSTED_MS \<and> jm_get (jm_put k u m) k' = None"
    using Cons.prems(2) k(5) by (force simp: jm_laws)
  from Cons.IH [OF _ this] have step: "jm_get (fst (restore_exhausted later (map (\<lambda>(k, u). (k, Fin u)) rows) (jm_put k u m))) key =
      (case map_of rows key of Some u \<Rightarrow> Some u | None \<Rightarrow> jm_get (jm_put k u m) key)"
    using Cons.prems(1) by simp
  have first: "fst (restore_exhausted later (map (\<lambda>(k, u). (k, Fin u)) (e # rows)) m) =
      fst (restore_exhausted later (map (\<lambda>(k, u). (k, Fin u)) rows) (jm_put k u m))"
    using k(1,2,4) clamp by (simp add: e split: prod.split)
  have "map_of rows k = None" using k(5) by (simp add: map_of_eq_None_iff)
  then show ?case unfolding first step using k(4) by (auto simp: e jm_laws split: option.split)
qed simp

lemma saved_rows_read:
  assumes "\<forall>(k, u) \<in> set rows. k \<noteq> []"
  shows "loadExhaustedRows (Some (saveExhaustedRows rows now)) later =
    map (\<lambda>(k, u). (k, Fin u)) (filter (\<lambda>(k, u). later < u) (filter (\<lambda>(k, u). now < u) rows))"
proof -
  have "List.map_filter isExhaustedRow (map (\<lambda>(key, u). JObj [(''key'', JStr key), (''until'', JNum (Fin u))]) xs) = xs"
    if "\<forall>(k, u) \<in> set xs. k \<noteq> []" for xs
    using that by (induction xs) (auto simp: List.map_filter_simps)
  then have "List.map_filter isExhaustedRow (map (\<lambda>(key, u). JObj [(''key'', JStr key), (''until'', JNum (Fin u))]) (filter (\<lambda>(k, u). now < u) rows)) =
      filter (\<lambda>(k, u). now < u) rows"
    using assms by auto
  then show ?thesis by (simp add: loadExhaustedRows_def saveExhaustedRows_def CURRENT_DISPATCH_EXHAUSTION_VERSION_def del: filter_filter)
qed

text \<open>The quotas that rest at a time.\<close>

definition resting :: "rat \<Rightarrow> exhaustion \<Rightarrow> string \<Rightarrow> rat option" where
  "resting t ex key = (case jm_get (ex_cooldowns ex) key of None \<Rightarrow> None | Some u \<Rightarrow> if t < u then Some u else None)"

text \<open>A reported exhaustion survives a restart: what the relay writes of its cooldowns, after any reports, retractions and earlier
  restarts, the next process restores so that at every later moment the same quotas rest, until the same times.\<close>

theorem exhaustion_survives_restart:
  assumes "exhaustion_reach (now, ex)" "now \<le> later" "later \<le> t"
  shows "resting t (reload_exhaustion now later ex) = resting t ex"
proof
  fix key
  have ok: "cooldowns_ok now ex" using cooldowns_reach [OF assms(1)] by simp
  let ?rows = "filter (\<lambda>(k, u). later < u) (filter (\<lambda>(k, u). now < u) (exportExhaustedRows now ex))"
  have rows: "?rows = filter (\<lambda>(k, u). later < u) (ex_cooldowns ex)"
    using assms(2) by (auto simp: exportExhaustedRows_def filter_filter intro!: filter_cong)
  have "\<forall>(k, u) \<in> set (exportExhaustedRows now ex). k \<noteq> []" using ok by (auto simp: exportExhaustedRows_def cooldowns_ok_def)
  note loaded = saved_rows_read [OF this, of now later]
  have distinct: "distinct (map fst ?rows)" using ok unfolding rows cooldowns_ok_def jm_ok_def by (intro distinct_map_filter) simp
  have good: "\<forall>(k, u) \<in> set ?rows. k \<noteq> [] \<and> later < u \<and> u \<le> later + MAX_EXHAUSTED_MS \<and> jm_get [] k = (None :: rat option)"
    using ok assms(2) unfolding rows cooldowns_ok_def by fastforce
  have cooldowns: "ex_cooldowns (reload_exhaustion now later ex) = fst (restore_exhausted later (map (\<lambda>(k, u). (k, Fin u)) ?rows) [])"
    unfolding reload_exhaustion_def loaded by (simp add: restoreExhaustedRows_def split_beta Let_def exhaustion_notify_def)
  have "map_of (filter (\<lambda>(k, u). later < u) m) key = (case map_of m key of None \<Rightarrow> None | Some u \<Rightarrow> if later < u then Some u else None)"
    if "distinct (map fst m)" for m :: "(string \<times> rat) list"
    using that by (induction m) (auto simp: map_of_eq_None_iff split: option.split)
  then have "map_of ?rows key = (case jm_get (ex_cooldowns ex) key of None \<Rightarrow> None | Some u \<Rightarrow> if later < u then Some u else None)"
    using ok unfolding rows by (simp add: cooldowns_ok_def jm_ok_def jm_get_def)
  then have "jm_get (ex_cooldowns (reload_exhaustion now later ex)) key =
      (case jm_get (ex_cooldowns ex) key of None \<Rightarrow> None | Some u \<Rightarrow> if later < u then Some u else None)"
    unfolding cooldowns restored_get [OF distinct good] by (simp split: option.split)
  then show "resting t (reload_exhaustion now later ex) key = resting t ex key"
    using assms(3) by (auto simp: resting_def split: option.split)
qed

lemma marked_reachable: "exhaustion_reach (0, markExhaustedKey ''quota:plan'' (Fin 100) 0 \<lparr>ex_cooldowns = [], ex_notified = 0\<rparr>)"
  by (rule exhaustion_reach.step [OF exhaustion_reach.start exhaustion_step.intros(3)])

lemma exhaustion_survives_restart_witness:
  "resting 60 (reload_exhaustion 0 50 (markExhaustedKey ''quota:plan'' (Fin 100) 0 \<lparr>ex_cooldowns = [], ex_notified = 0\<rparr>)) ''quota:plan'' = Some 100"
  using exhaustion_survives_restart [OF marked_reachable, of 50 60]
  by (simp add: resting_def markExhaustedKey_def exhaustion_notify_def clampExhaustedDeadline_def MAX_EXHAUSTED_MS_def)

end
