(* ===== verification/Openai_Request.thy ===== *)
theory Openai_Request
  imports Json_Read "HOL-Library.Word"
begin

text \<open>
  The mapping of an Anthropic request to an OpenAI chat request (\<^verbatim>\<open>openai-request.ts\<close>). An operation that throws a
  \<^verbatim>\<open>RequestMappingError\<close> returns \<open>Inl\<close> of its message; \<open>None\<close> is a search for an unused identifier that does not end.
  \<^verbatim>\<open>JSON.stringify\<close> and the digest are parameters. The callbacks' counts are part of the result.
\<close>

section \<open>Outcomes\<close>

type_synonym 'a outcome = "(string + 'a) option"
type_synonym rec = "(string \<times> json) list"

definition give :: "'a \<Rightarrow> 'a outcome" where "give x = Some (Inr x)"
definition throw :: "string \<Rightarrow> 'a outcome" where "throw m = Some (Inl m)"

definition and_then :: "'a outcome \<Rightarrow> ('a \<Rightarrow> 'b outcome) \<Rightarrow> 'b outcome" where
  "and_then x f = (case x of None \<Rightarrow> None | Some (Inl m) \<Rightarrow> Some (Inl m) | Some (Inr a) \<Rightarrow> f a)"

lemma and_then_simps [simp]:
  "and_then (give a) f = f a" "and_then (throw m) f = throw m" "and_then None f = None"
  by (simp_all add: and_then_def give_def throw_def)

lemma give_inject [simp]: "(give a = give b) = (a = b)" "give a \<noteq> throw m" "throw m \<noteq> give a" "(throw m = throw n) = (m = n)"
  "give a \<noteq> None" "throw m \<noteq> None" "None \<noteq> give a" "None \<noteq> throw m"
  by (simp_all add: give_def throw_def)

lemma and_then_give: "and_then x f = give b \<longleftrightarrow> (\<exists>a. x = give a \<and> f a = give b)"
  by (cases x; cases "the x") (auto simp: and_then_def give_def)

text \<open>A member that is a text which is not empty.\<close>

definition nonempty_text :: "json option \<Rightarrow> string option" where
  "nonempty_text v = (case str_of v of Some s \<Rightarrow> if s = [] then None else Some s | None \<Rightarrow> None)"

fun rec_of :: "json option \<Rightarrow> rec option" where
  "rec_of (Some (JObj ms)) = Some ms"
| "rec_of v = None"

fun elements :: "json option \<Rightarrow> json list" where
  "elements (Some (JArr xs)) = xs"
| "elements v = []"

definition kind_is :: "rec \<Rightarrow> string \<Rightarrow> bool" where
  "kind_is r k \<longleftrightarrow> member r ''type'' = Some (JStr k)"

section \<open>Identifiers of tool calls\<close>

definition BASE62 :: string where
  "BASE62 = ''0123456789ABCDEFGHIJKLMNOPQRSTUVWXYZabcdefghijklmnopqrstuvwxyz''"

definition STRICT9 :: "string \<Rightarrow> bool" where
  "STRICT9 s \<longleftrightarrow> length s = 9 \<and> set s \<subseteq> set BASE62"

definition strict9 :: "(string \<Rightarrow> 8 word list) \<Rightarrow> string \<Rightarrow> nat \<Rightarrow> string" where
  "strict9 digest source salt =
     (let bytes = digest (if salt = 0 then source else source @ ''#'' @ show_nat salt)
      in map (\<lambda>i. BASE62 ! (unat (bytes ! i) mod 62)) [0..<9])"

record tool_call_ids =
  ti_bySource :: "(string, string) jmap"
  ti_taken :: "string list"
  ti_rewritten :: nat

definition new_tool_call_ids :: tool_call_ids where
  "new_tool_call_ids = \<lparr>ti_bySource = [], ti_taken = [], ti_rewritten = 0\<rparr>"

text \<open>\<^verbatim>\<open>while (taken.has(out)) out = strict9(id, k++)\<close>\<close>

partial_function (option) salted :: "(string \<Rightarrow> 8 word list) \<Rightarrow> string list \<Rightarrow> string \<Rightarrow> nat \<Rightarrow> string \<Rightarrow> string option" where
  "salted digest taken source k out =
     (if out \<in> set taken then salted digest taken source (k + 1) (strict9 digest source k) else Some out)"

declare salted.simps [code]

definition map_id :: "(string \<Rightarrow> 8 word list) \<Rightarrow> string \<Rightarrow> tool_call_ids \<Rightarrow> (tool_call_ids \<times> string) option" where
  "map_id digest i t =
     (case jm_get (ti_bySource t) i of
        Some existing \<Rightarrow> Some (t, existing)
      | None \<Rightarrow>
          (case (if STRICT9 i \<and> i \<notin> set (ti_taken t) then Some i else salted digest (ti_taken t) i 1 (strict9 digest i 0)) of
             None \<Rightarrow> None
           | Some out \<Rightarrow> Some (\<lparr>ti_bySource = jm_put i out (ti_bySource t), ti_taken = out # ti_taken t,
               ti_rewritten = ti_rewritten t + (if out \<noteq> i then 1 else 0)\<rparr>, out)))"

text \<open>The identifiers and the stamps of one request; \<open>None\<close> where the option is off.\<close>

record mapping_state =
  ms_ids :: "tool_call_ids option"
  ms_sigs :: "nat option"

record mapping_options =
  mo_digest :: "string \<Rightarrow> 8 word list"
  mo_stringify :: "json \<Rightarrow> string"
  mo_model :: "string option"
  mo_stream :: "bool option"
  mo_strict9 :: bool
  mo_sentinel :: bool
  mo_deepseek :: bool
  mo_effort :: "string option"

definition mapped_id :: "mapping_options \<Rightarrow> string \<Rightarrow> mapping_state \<Rightarrow> (mapping_state \<times> string) outcome" where
  "mapped_id opts i st =
     (case ms_ids st of
        None \<Rightarrow> give (st, i)
      | Some t \<Rightarrow> (case map_id (mo_digest opts) i t of None \<Rightarrow> None | Some (t1, out) \<Rightarrow> give (st\<lparr>ms_ids := Some t1\<rparr>, out)))"

definition THOUGHT_SIGNATURE_SENTINEL :: string where
  "THOUGHT_SIGNATURE_SENTINEL = ''skip_thought_signature_validator''"

definition stamp :: "rec \<Rightarrow> mapping_state \<Rightarrow> mapping_state \<times> rec" where
  "stamp call st =
     (case ms_sigs st of
        None \<Rightarrow> (st, call)
      | Some n \<Rightarrow> (st\<lparr>ms_sigs := Some (n + 1)\<rparr>,
          jm_put ''extra_content'' (JObj [(''google'', JObj [(''thought_signature'', JStr THOUGHT_SIGNATURE_SENTINEL)])]) call))"

section \<open>Texts\<close>

definition describeType :: "json option \<Rightarrow> string" where
  "describeType t = (case nonempty_text t of Some s \<Rightarrow> [CHR 0x22] @ take 40 s @ [CHR 0x22] | None \<Rightarrow> ''(missing type)'')"

definition textOf :: "rec \<Rightarrow> string" where
  "textOf block = (case str_of (member block ''text'') of Some s \<Rightarrow> s | None \<Rightarrow> [])"

definition text_block :: "json \<Rightarrow> string option" where
  "text_block b = (case rec_of (Some b) of Some r \<Rightarrow> if kind_is r ''text'' then Some (textOf r) else None | None \<Rightarrow> None)"

definition systemText :: "json option \<Rightarrow> string" where
  "systemText system =
     (case system of
        Some (JStr s) \<Rightarrow> s
      | Some (JArr blocks) \<Rightarrow> join_with [LF, LF] (List.map_filter text_block blocks)
      | _ \<Rightarrow> [])"

section \<open>Assistant turns\<close>

definition tool_arguments :: "mapping_options \<Rightarrow> json option \<Rightarrow> string" where
  "tool_arguments opts input =
     (case input of
        Some (JStr s) \<Rightarrow> s
      | None \<Rightarrow> mo_stringify opts (JObj [])
      | Some v \<Rightarrow> mo_stringify opts (if v = JNull then JObj [] else v))"

definition toolCall :: "mapping_options \<Rightarrow> rec \<Rightarrow> mapping_state \<Rightarrow> (mapping_state \<times> json) outcome" where
  "toolCall opts block st =
     (case nonempty_text (member block ''id'') of
        None \<Rightarrow> throw ''tool_use block without an id''
      | Some i \<Rightarrow>
          (case nonempty_text (member block ''name'') of
             None \<Rightarrow> throw ''tool_use block without a name''
           | Some name \<Rightarrow>
               and_then (mapped_id opts i st) (\<lambda>(st1, out).
                 let (st2, call) = stamp [(''id'', JStr out), (''type'', JStr ''function''),
                       (''function'', JObj [(''name'', JStr name), (''arguments'', JStr (tool_arguments opts (member block ''input'')))])] st1
                 in give (st2, JObj call))))"

record assistant_parts =
  ap_texts :: "string list"
  ap_toolCalls :: "json list"
  ap_thinking :: "string list"

fun assistant_blocks :: "mapping_options \<Rightarrow> json list \<Rightarrow> assistant_parts \<Rightarrow> mapping_state \<Rightarrow> (mapping_state \<times> assistant_parts) outcome" where
  "assistant_blocks opts [] p st = give (st, p)"
| "assistant_blocks opts (raw # blocks) p st =
     (case rec_of (Some raw) of
        None \<Rightarrow> throw ''assistant content block is not an object''
      | Some r \<Rightarrow>
          if kind_is r ''text'' then assistant_blocks opts blocks (p\<lparr>ap_texts := ap_texts p @ [textOf r]\<rparr>) st
          else if kind_is r ''tool_use''
          then and_then (toolCall opts r st) (\<lambda>(st1, call). assistant_blocks opts blocks (p\<lparr>ap_toolCalls := ap_toolCalls p @ [call]\<rparr>) st1)
          else if kind_is r ''thinking''
          then assistant_blocks opts blocks
            (case nonempty_text (member r ''thinking'') of Some s \<Rightarrow> p\<lparr>ap_thinking := ap_thinking p @ [s]\<rparr> | None \<Rightarrow> p) st
          else if kind_is r ''redacted_thinking'' then assistant_blocks opts blocks p st
          else throw (''unsupported assistant content block '' @ describeType (member r ''type'')))"

definition assistant_record :: "mapping_options \<Rightarrow> assistant_parts \<Rightarrow> rec" where
  "assistant_record opts p =
     (let text = concat (ap_texts p); calls = ap_toolCalls p in
      [(''role'', JStr ''assistant''), (''content'', if text \<noteq> [] then JStr text else if calls \<noteq> [] then JNull else JStr [])] @
      (if calls \<noteq> [] then [(''tool_calls'', JArr calls)] else []) @
      (if mo_deepseek opts \<and> ap_thinking p \<noteq> [] then [(''reasoning_content'', JStr (join_with [LF, LF] (ap_thinking p)))] else []))"

text \<open>The message, and whether the turn had a tool call.\<close>

definition assistantMessage :: "mapping_options \<Rightarrow> rec \<Rightarrow> mapping_state \<Rightarrow> (mapping_state \<times> rec \<times> bool) outcome" where
  "assistantMessage opts turn st =
     (case member turn ''content'' of
        Some (JStr s) \<Rightarrow> give (st, [(''role'', JStr ''assistant''), (''content'', JStr s)], False)
      | content \<Rightarrow>
          and_then (assistant_blocks opts (elements content) \<lparr>ap_texts = [], ap_toolCalls = [], ap_thinking = []\<rparr> st)
            (\<lambda>(st1, p). give (st1, assistant_record opts p, ap_toolCalls p \<noteq> [])))"

section \<open>User turns\<close>

definition image_url :: "string \<Rightarrow> json" where
  "image_url url = JObj [(''type'', JStr ''image_url''), (''image_url'', JObj [(''url'', JStr url)])]"

definition imagePart :: "rec \<Rightarrow> json outcome" where
  "imagePart block =
     (let source = (case rec_of (member block ''source'') of Some r \<Rightarrow> r | None \<Rightarrow> []);
          failed = throw ''image block needs a base64 or url source'';
          base64 = (case (str_of (member source ''data''), str_of (member source ''media_type'')) of
              (Some d, Some m) \<Rightarrow> if kind_is source ''base64'' then give (image_url (''data:'' @ m @ '';base64,'' @ d)) else failed
            | _ \<Rightarrow> failed)
      in case str_of (member source ''url'') of
           Some u \<Rightarrow> if kind_is source ''url'' then give (image_url u) else base64
         | None \<Rightarrow> base64)"

fun tool_result_blocks :: "json list \<Rightarrow> string list \<Rightarrow> json list \<Rightarrow> (string list \<times> json list) outcome" where
  "tool_result_blocks [] texts images = give (texts, images)"
| "tool_result_blocks (raw # blocks) texts images =
     (case rec_of (Some raw) of
        None \<Rightarrow> throw ''tool_result content block is not an object''
      | Some r \<Rightarrow>
          if kind_is r ''text'' then tool_result_blocks blocks (texts @ [textOf r]) images
          else if kind_is r ''image'' then and_then (imagePart r) (\<lambda>i. tool_result_blocks blocks texts (images @ [i]))
          else throw (''tool_result carries an unsupported '' @ describeType (member r ''type'') @
            '' block; an OpenAI tool message carries text and images only''))"

definition toolResultParts :: "json option \<Rightarrow> (string \<times> json list) outcome" where
  "toolResultParts content =
     (case content of
        None \<Rightarrow> give ([], [])
      | Some JNull \<Rightarrow> give ([], [])
      | Some (JStr s) \<Rightarrow> give (s, [])
      | Some (JArr blocks) \<Rightarrow> and_then (tool_result_blocks blocks [] []) (\<lambda>(texts, images). give (join_with [LF] texts, images))
      | _ \<Rightarrow> throw ''tool_result content must be text or a list of blocks'')"

definition toolResultMessage ::
  "mapping_options \<Rightarrow> rec \<Rightarrow> (string, string) jmap \<Rightarrow> mapping_state \<Rightarrow> (mapping_state \<times> json \<times> json list) outcome" where
  "toolResultMessage opts block toolNames st =
     (case nonempty_text (member block ''tool_use_id'') of
        None \<Rightarrow> throw ''tool_result block without a tool_use_id''
      | Some i \<Rightarrow>
          and_then (toolResultParts (member block ''content'')) (\<lambda>(text, images).
            and_then (mapped_id opts i st) (\<lambda>(st1, out).
              give (st1, JObj ([(''role'', JStr ''tool''), (''tool_call_id'', JStr out), (''content'', JStr text)] @
                (case jm_get toolNames i of Some n \<Rightarrow> [(''name'', JStr n)] | None \<Rightarrow> [])), images))))"

record user_parts =
  up_tools :: "json list"
  up_parts :: "json list"

fun user_blocks ::
  "mapping_options \<Rightarrow> (string, string) jmap \<Rightarrow> json list \<Rightarrow> user_parts \<Rightarrow> mapping_state \<Rightarrow> (mapping_state \<times> user_parts) outcome" where
  "user_blocks opts names [] p st = give (st, p)"
| "user_blocks opts names (raw # blocks) p st =
     (case rec_of (Some raw) of
        None \<Rightarrow> throw ''user content block is not an object''
      | Some r \<Rightarrow>
          if kind_is r ''text''
          then user_blocks opts names blocks (p\<lparr>up_parts := up_parts p @ [JObj [(''type'', JStr ''text''), (''text'', JStr (textOf r))]]\<rparr>) st
          else if kind_is r ''image''
          then and_then (imagePart r) (\<lambda>i. user_blocks opts names blocks (p\<lparr>up_parts := up_parts p @ [i]\<rparr>) st)
          else if kind_is r ''tool_result''
          then and_then (toolResultMessage opts r names st) (\<lambda>(st1, message, images).
            user_blocks opts names blocks (p\<lparr>up_tools := up_tools p @ [message], up_parts := up_parts p @ images\<rparr>) st1)
          else if kind_is r ''thinking'' \<or> kind_is r ''redacted_thinking'' then user_blocks opts names blocks p st
          else throw (''unsupported user content block '' @ describeType (member r ''type'')))"

definition user_message :: "json \<Rightarrow> json" where
  "user_message content = JObj [(''role'', JStr ''user''), (''content'', content)]"

text \<open>The one user message after the tool messages: a single text as a text, else the parts; an empty turn keeps its place.\<close>

definition user_tail :: "user_parts \<Rightarrow> json list" where
  "user_tail p =
     (case up_parts p of
        [] \<Rightarrow> if up_tools p = [] then [user_message (JStr [])] else []
      | [JObj part] \<Rightarrow> if kind_is part ''text'' then [user_message (case member part ''text'' of Some v \<Rightarrow> v | None \<Rightarrow> JNull)]
          else [user_message (JArr (up_parts p))]
      | _ \<Rightarrow> [user_message (JArr (up_parts p))])"

definition userMessages :: "mapping_options \<Rightarrow> rec \<Rightarrow> (string, string) jmap \<Rightarrow> mapping_state \<Rightarrow> (mapping_state \<times> json list) outcome" where
  "userMessages opts turn names st =
     (case member turn ''content'' of
        Some (JStr s) \<Rightarrow> give (st, [user_message (JStr s)])
      | content \<Rightarrow>
          and_then (user_blocks opts names (elements content) \<lparr>up_tools = [], up_parts = []\<rparr> st) (\<lambda>(st1, p). give (st1, up_tools p @ user_tail p)))"

section \<open>Tools\<close>

fun map_tool_list :: "json list \<Rightarrow> json list outcome" where
  "map_tool_list [] = give []"
| "map_tool_list (raw # tools) =
     (case rec_of (Some raw) of
        None \<Rightarrow> throw ''tool declaration is not an object''
      | Some r \<Rightarrow>
          (case nonempty_text (member r ''name'') of
             None \<Rightarrow> throw ''tool declaration without a name''
           | Some name \<Rightarrow>
               (let described = [(''name'', JStr name)] @
                      (case nonempty_text (member r ''description'') of Some d \<Rightarrow> [(''description'', JStr d)] | None \<Rightarrow> []);
                    parameters = (case rec_of (member r ''input_schema'') of
                        Some s \<Rightarrow> JObj s | None \<Rightarrow> JObj [(''type'', JStr ''object''), (''properties'', JObj [])])
                in and_then (map_tool_list tools) (\<lambda>rest.
                     give (JObj [(''type'', JStr ''function''), (''function'', JObj (described @ [(''parameters'', parameters)]))] # rest)))))"

definition mapTools :: "json option \<Rightarrow> json list option outcome" where
  "mapTools tools = (if elements tools = [] then give None else and_then (map_tool_list (elements tools)) (\<lambda>ts. give (Some ts)))"

definition mapToolChoice :: "json option \<Rightarrow> json option" where
  "mapToolChoice choice =
     (if choice \<in> {Some (JStr ''auto''), Some (JStr ''none''), Some (JStr ''required'')} then choice
      else (case rec_of choice of
          None \<Rightarrow> None
        | Some r \<Rightarrow>
            if kind_is r ''auto'' then Some (JStr ''auto'')
            else if kind_is r ''any'' then Some (JStr ''required'')
            else if kind_is r ''none'' then Some (JStr ''none'')
            else if kind_is r ''tool'' then map_option (\<lambda>n. JObj [(''type'', JStr ''function''), (''function'', JObj [(''name'', JStr n)])])
              (nonempty_text (member r ''name''))
            else None))"

definition stopSequences :: "json option \<Rightarrow> json option" where
  "stopSequences raw =
     (let out = filter (\<lambda>v. str_of (Some v) \<noteq> None) (elements raw) in if out = [] then None else Some (JArr out))"

section \<open>Reasoning\<close>

definition DEEPSEEK_EFFORT :: "(string \<times> string) list" where
  "DEEPSEEK_EFFORT = [(''none'', ''disabled''), (''low'', ''low''), (''medium'', ''high''), (''high'', ''high''), (''xhigh'', ''max''), (''max'', ''max'')]"

definition explicitEffort :: "rec \<Rightarrow> string option" where
  "explicitEffort body =
     (case str_of (data_key (member body ''output_config'') ''effort'') of
        Some s \<Rightarrow> Some s | None \<Rightarrow> str_of (data_key (member body ''reasoning'') ''effort''))"

definition thinking_off :: rec where
  "thinking_off = [(''thinking'', JObj [(''type'', JStr ''disabled'')])]"

definition deepSeekEffortSpec :: "string \<Rightarrow> rec option" where
  "deepSeekEffortSpec level =
     (case map_of DEEPSEEK_EFFORT level of
        None \<Rightarrow> None
      | Some e \<Rightarrow> Some (if e = ''disabled'' then thinking_off else [(''reasoning_effort'', JStr e)]))"

definition deepSeekThinkingSpec :: "rec \<Rightarrow> string option \<Rightarrow> rec option" where
  "deepSeekThinkingSpec body effort =
     (let thinking = data_key (member body ''thinking'') ''type'' in
      if thinking = Some (JStr ''disabled'') then Some thinking_off
      else (case explicitEffort body of
          Some e \<Rightarrow> deepSeekEffortSpec e
        | None \<Rightarrow> (case effort of
            Some e \<Rightarrow> deepSeekEffortSpec e
          | None \<Rightarrow> if thinking = Some (JStr ''enabled'') then None else Some thinking_off)))"

definition forcesToolChoice :: "json option \<Rightarrow> bool" where
  "forcesToolChoice toolChoice \<longleftrightarrow> toolChoice = Some (JStr ''required'') \<or> data_key toolChoice ''type'' = Some (JStr ''function'')"

definition deepSeekThinkingIsOn :: "rec option \<Rightarrow> bool" where
  "deepSeekThinkingIsOn spec = (case spec of None \<Rightarrow> True
     | Some s \<Rightarrow> data_key (member s ''thinking'') ''type'' \<noteq> Some (JStr ''disabled''))"

text \<open>\<^verbatim>\<open>Object.assign(out, spec)\<close>\<close>

definition object_assign :: "rec \<Rightarrow> rec \<Rightarrow> rec" where
  "object_assign out spec = fold (\<lambda>(k, v) acc. jm_put k v acc) spec out"

definition applyDeepSeekReasoning :: "rec \<Rightarrow> rec \<Rightarrow> string option \<Rightarrow> bool \<Rightarrow> rec \<times> nat" where
  "applyDeepSeekReasoning out body effort hasUnreplayableReasoningTurn =
     (let natural = deepSeekThinkingSpec body effort;
          overridden = deepSeekThinkingIsOn natural \<and> (forcesToolChoice (member out ''tool_choice'') \<or> hasUnreplayableReasoningTurn);
          spec = (if overridden then Some thinking_off else natural)
      in ((case spec of Some s \<Rightarrow> object_assign out s | None \<Rightarrow> out), if overridden then 1 else 0))"

section \<open>The request\<close>

definition tool_name_entry :: "json \<Rightarrow> (string \<times> string) option" where
  "tool_name_entry block =
     (case rec_of (Some block) of
        None \<Rightarrow> None
      | Some r \<Rightarrow>
          if \<not> kind_is r ''tool_use'' then None
          else (case (nonempty_text (member r ''id''), nonempty_text (member r ''name'')) of (Some i, Some n) \<Rightarrow> Some (i, n) | _ \<Rightarrow> None))"

definition rememberToolNames :: "rec \<Rightarrow> (string, string) jmap \<Rightarrow> (string, string) jmap" where
  "rememberToolNames turn names = fold (\<lambda>(i, n). jm_put i n) (List.map_filter tool_name_entry (elements (member turn ''content''))) names"

record turns =
  tn_messages :: "json list"
  tn_names :: "(string, string) jmap"
  tn_unreplayable :: bool

fun map_turns :: "mapping_options \<Rightarrow> json list \<Rightarrow> turns \<Rightarrow> mapping_state \<Rightarrow> (mapping_state \<times> turns) outcome" where
  "map_turns opts [] t st = give (st, t)"
| "map_turns opts (raw # rest) t st =
     (case rec_of (Some raw) of
        None \<Rightarrow> throw ''message is not an object''
      | Some r \<Rightarrow>
          if member r ''role'' = Some (JStr ''assistant'')
          then (let names = rememberToolNames r (tn_names t) in
            and_then (assistantMessage opts r st) (\<lambda>(st1, message, hadToolCall).
              map_turns opts rest \<lparr>tn_messages = tn_messages t @ [JObj message], tn_names = names,
                tn_unreplayable = (tn_unreplayable t \<or>
                  (mo_deepseek opts \<and> hadToolCall \<and> str_of (member message ''reasoning_content'') = None))\<rparr> st1))
          else and_then (userMessages opts r (tn_names t) st) (\<lambda>(st1, ms).
            map_turns opts rest (t\<lparr>tn_messages := tn_messages t @ ms\<rparr>) st1))"

definition opt_field :: "string \<Rightarrow> json option \<Rightarrow> rec" where
  "opt_field name v = (case v of Some x \<Rightarrow> [(name, x)] | None \<Rightarrow> [])"

fun number_field :: "json option \<Rightarrow> json option" where
  "number_field (Some (JNum x)) = Some (JNum x)"
| "number_field v = None"

fun bool_field :: "json option \<Rightarrow> bool option" where
  "bool_field (Some (JBool b)) = Some b"
| "bool_field v = None"

record mapped_request =
  mr_request :: rec
  mr_rewritten :: "nat option"
  mr_stamped :: "nat option"
  mr_overridden :: nat

definition start_state :: "mapping_options \<Rightarrow> mapping_state" where
  "start_state opts =
     \<lparr>ms_ids = (if mo_strict9 opts then Some new_tool_call_ids else None), ms_sigs = (if mo_sentinel opts then Some 0 else None)\<rparr>"

definition first_turns :: "rec \<Rightarrow> turns" where
  "first_turns body =
     (let system = systemText (member body ''system'') in
      \<lparr>tn_messages = (if system \<noteq> [] then [JObj [(''role'', JStr ''system''), (''content'', JStr system)]] else []),
       tn_names = [], tn_unreplayable = False\<rparr>)"

definition request_fields :: "mapping_options \<Rightarrow> rec \<Rightarrow> json list \<Rightarrow> json list option \<Rightarrow> rec" where
  "request_fields opts body messages tools =
     (let stream = (case mo_stream opts of Some b \<Rightarrow> Some b | None \<Rightarrow> bool_field (member body ''stream'')) in
      [(''messages'', JArr messages)] @ opt_field ''model'' (map_option JStr (mo_model opts)) @
      opt_field ''stream'' (map_option JBool stream) @ opt_field ''max_tokens'' (number_field (member body ''max_tokens'')) @
      opt_field ''temperature'' (number_field (member body ''temperature'')) @ opt_field ''top_p'' (number_field (member body ''top_p'')) @
      opt_field ''stop'' (stopSequences (member body ''stop_sequences'')) @
      (case tools of None \<Rightarrow> [] | Some ts \<Rightarrow> (''tools'', JArr ts) # opt_field ''tool_choice'' (mapToolChoice (member body ''tool_choice''))))"

definition finished_request :: "mapping_options \<Rightarrow> rec \<Rightarrow> mapping_state \<Rightarrow> turns \<Rightarrow> json list option \<Rightarrow> mapped_request" where
  "finished_request opts body st t tools =
     (let out = request_fields opts body (tn_messages t) tools;
          (out1, overridden) = (if mo_deepseek opts then applyDeepSeekReasoning out body (mo_effort opts) (tn_unreplayable t) else (out, 0))
      in \<lparr>mr_request = out1, mr_rewritten = map_option ti_rewritten (ms_ids st), mr_stamped = ms_sigs st, mr_overridden = overridden\<rparr>)"

definition anthropicRequestToOpenAi :: "mapping_options \<Rightarrow> json \<Rightarrow> mapped_request outcome" where
  "anthropicRequestToOpenAi opts reqJson =
     (let body = (case rec_of (Some reqJson) of Some r \<Rightarrow> r | None \<Rightarrow> [])
      in and_then (map_turns opts (elements (member body ''messages'')) (first_turns body) (start_state opts)) (\<lambda>(st1, t).
         and_then (mapTools (member body ''tools'')) (\<lambda>tools. give (finished_request opts body st1 t tools))))"

end
