(* ===== verification/Openai_Request_Props.thy ===== *)
theory Openai_Request_Props
  imports Openai_Request
begin

text \<open>
  The properties of the request mapping: identifiers stay distinct and keep what they link, a request is refused exactly when a
  block of it cannot be mapped, and a forced tool choice turns thinking off.
\<close>

section \<open>Identifiers\<close>

lemma strict9_shape: "STRICT9 (strict9 digest source salt)"
proof -
  have len: "length BASE62 = 62" by (simp add: BASE62_def)
  have "BASE62 ! (n mod 62) \<in> set BASE62" for n by (rule nth_mem) (simp add: len)
  then show ?thesis by (auto simp: STRICT9_def strict9_def Let_def)
qed

lemma salted_fresh:
  assumes ret: "salted digest taken source k out = Some r" and "STRICT9 out"
  shows "r \<notin> set taken \<and> STRICT9 r"
proof -
  have "STRICT9 out \<longrightarrow> r \<notin> set taken \<and> STRICT9 r"
  proof (rule salted.raw_induct [where P = "\<lambda>digest taken source k out r. STRICT9 out \<longrightarrow> r \<notin> set taken \<and> STRICT9 r", OF _ ret])
    fix f digest taken source k out r
    assume IH: "\<And>digest taken source k out r. f digest taken source k out = Some r \<Longrightarrow> STRICT9 out \<longrightarrow> r \<notin> set taken \<and> STRICT9 r"
      and eq: "(if out \<in> set taken then f digest taken source (k + 1) (strict9 digest source k) else Some out) = Some r"
    show "STRICT9 out \<longrightarrow> r \<notin> set taken \<and> STRICT9 r"
      using IH [of digest taken source "k + 1" "strict9 digest source k" r] eq by (cases "out \<in> set taken") (simp_all add: strict9_shape)
  qed
  then show ?thesis using assms(2) by blast
qed

definition ids_ok :: "tool_call_ids \<Rightarrow> bool" where
  "ids_ok t \<longleftrightarrow> jm_ok (ti_bySource t) \<and> distinct (map snd (ti_bySource t)) \<and> set (ti_taken t) = snd ` set (ti_bySource t) \<and>
     (\<forall>v \<in> set (ti_taken t). STRICT9 v) \<and> ti_rewritten t = length (filter (\<lambda>(k, v). v \<noteq> k) (ti_bySource t))"

lemma map_id_ok:
  assumes "ids_ok t" and "map_id digest i t = Some (t1, out)"
  shows "ids_ok t1" and "jm_get (ti_bySource t1) i = Some out" and "jm_get (ti_bySource t) k = Some v \<Longrightarrow> jm_get (ti_bySource t1) k = Some v"
proof -
  have "ids_ok t1 \<and> jm_get (ti_bySource t1) i = Some out \<and> (\<forall>k v. jm_get (ti_bySource t) k = Some v \<longrightarrow> jm_get (ti_bySource t1) k = Some v)"
  proof (cases "jm_get (ti_bySource t) i")
    case (Some existing)
    then show ?thesis using assms by (simp add: map_id_def)
  next
    case None
    let ?found = "if STRICT9 i \<and> i \<notin> set (ti_taken t) then Some i else salted digest (ti_taken t) i 1 (strict9 digest i 0)"
    have tried: "?found = Some out" and t1: "t1 = \<lparr>ti_bySource = jm_put i out (ti_bySource t), ti_taken = out # ti_taken t,
        ti_rewritten = ti_rewritten t + (if out \<noteq> i then 1 else 0)\<rparr>"
      using assms(2) None by (auto simp: map_id_def split: option.splits)
    have fresh: "out \<notin> set (ti_taken t) \<and> STRICT9 out"
      using tried salted_fresh [OF _ strict9_shape] by (auto split: if_splits)
    have put: "jm_put i out (ti_bySource t) = ti_bySource t @ [(i, out)]" by (rule jm_put_new [OF None])
    have "ids_ok t1" using assms(1) fresh jm.ok_put [of "ti_bySource t" i out]
      by (auto simp: ids_ok_def t1 put)
    then show ?thesis using None by (auto simp: t1 jm.get_put)
  qed
  then show "ids_ok t1" "jm_get (ti_bySource t1) i = Some out" "jm_get (ti_bySource t) k = Some v \<Longrightarrow> jm_get (ti_bySource t1) k = Some v"
    by blast+
qed

text \<open>The sequence of calls of \<^verbatim>\<open>map\<close> that a request makes.\<close>

fun map_all :: "(string \<Rightarrow> 8 word list) \<Rightarrow> string list \<Rightarrow> tool_call_ids \<Rightarrow> (tool_call_ids \<times> string list) option" where
  "map_all digest [] t = Some (t, [])"
| "map_all digest (i # is) t =
     (case map_id digest i t of None \<Rightarrow> None
      | Some (t1, out) \<Rightarrow> map_option (\<lambda>(t2, outs). (t2, out # outs)) (map_all digest is t1))"

definition id_of :: "tool_call_ids \<Rightarrow> string \<Rightarrow> string" where
  "id_of t i = (case jm_get (ti_bySource t) i of Some v \<Rightarrow> v | None \<Rightarrow> i)"

lemma map_all_ok:
  assumes "ids_ok t" and "map_all digest is t = Some (t1, outs)"
  shows "ids_ok t1 \<and> (\<forall>k v. jm_get (ti_bySource t) k = Some v \<longrightarrow> jm_get (ti_bySource t1) k = Some v) \<and>
    (\<forall>i. jm_get (ti_bySource t1) i \<noteq> None \<longleftrightarrow> jm_get (ti_bySource t) i \<noteq> None \<or> i \<in> set is) \<and> outs = map (id_of t1) is"
  using assms
proof (induction "is" arbitrary: t outs)
  case (Cons i "is")
  obtain t2 out outs' where m: "map_id digest i t = Some (t2, out)" "map_all digest is t2 = Some (t1, outs')" "outs = out # outs'"
    using Cons.prems(2) by (auto split: option.splits)
  note one = map_id_ok [OF Cons.prems(1) m(1)]
  note rest = Cons.IH [OF one(1) m(2)]
  have got: "jm_get (ti_bySource t1) i = Some out" using rest one(2) by blast
  have "jm_get (ti_bySource t2) k \<noteq> None \<longleftrightarrow> jm_get (ti_bySource t) k \<noteq> None \<or> k = i" for k
    using m(1) one(2) by (auto simp: map_id_def jm.get_put split: option.splits if_splits)
  then show ?case using rest one(3) m(3) got by (auto simp: id_of_def)
qed simp

lemma id_of_inj: "ids_ok t \<Longrightarrow> jm_get (ti_bySource t) i = Some v \<Longrightarrow> jm_get (ti_bySource t) j = Some v \<Longrightarrow> i = j"
  using jm_get_in [of "ti_bySource t" i v] jm_get_in [of "ti_bySource t" j v]
  by (fastforce simp: ids_ok_def distinct_map inj_on_def)

text \<open>C23. The rewritten identifiers of tool calls are nine letters and digits each, equal exactly when the identifiers they stand for are equal,
  and the count of rewrites is the number of distinct identifiers that changed.\<close>

theorem tool_call_ids_injective:
  assumes "map_all digest ids new_tool_call_ids = Some (t, outs)"
  shows "length outs = length ids \<and> (\<forall>out \<in> set outs. STRICT9 out) \<and>
    (\<forall>m < length ids. \<forall>n < length ids. outs ! m = outs ! n \<longleftrightarrow> ids ! m = ids ! n) \<and>
    ti_rewritten t = card {i \<in> set ids. id_of t i \<noteq> i}"
proof -
  have start: "ids_ok new_tool_call_ids" by (simp add: ids_ok_def new_tool_call_ids_def jm_ok_def)
  note all = map_all_ok [OF start assms]
  have known: "\<exists>v. jm_get (ti_bySource t) i = Some v" if "i \<in> set ids" for i using all that by blast
  have inj: "id_of t i = id_of t j \<longleftrightarrow> i = j" if i: "i \<in> set ids" and j: "j \<in> set ids" for i j
  proof -
    obtain v w where "jm_get (ti_bySource t) i = Some v" "jm_get (ti_bySource t) j = Some w" using known [OF i] known [OF j] by blast
    then show ?thesis using id_of_inj [OF conjunct1 [OF all], of i v j] by (auto simp: id_of_def)
  qed
  have strict: "STRICT9 (id_of t i)" if "i \<in> set ids" for i
    using known [OF that] all jm_get_in [of "ti_bySource t" i] by (force simp: id_of_def ids_ok_def)
  let ?changed = "filter (\<lambda>(k, v). v \<noteq> k) (ti_bySource t)"
  have jm: "jm_ok (ti_bySource t)" using all by (simp add: ids_ok_def)
  have "{i \<in> set ids. id_of t i \<noteq> i} = fst ` set ?changed"
  proof (intro set_eqI iffI)
    fix i assume i: "i \<in> {i \<in> set ids. id_of t i \<noteq> i}"
    then obtain v where "jm_get (ti_bySource t) i = Some v" using known by blast
    moreover have "v \<noteq> i" using i calculation by (simp add: id_of_def)
    ultimately have "jm_get (ti_bySource t) i = Some v" "v \<noteq> i" by blast+
    then show "i \<in> fst ` set ?changed" using jm_get_in by force
  next
    fix i assume "i \<in> fst ` set ?changed"
    then obtain v where "(i, v) \<in> set (ti_bySource t)" "v \<noteq> i" by auto
    then have "jm_get (ti_bySource t) i = Some v" using jm_in_get [OF jm] by blast
    then show "i \<in> {i \<in> set ids. id_of t i \<noteq> i}" using all \<open>v \<noteq> i\<close> by (auto simp: id_of_def new_tool_call_ids_def)
  qed
  moreover have "card (fst ` set ?changed) = length ?changed"
    using jm distinct_card [of "map fst ?changed"] by (simp add: jm_ok_def distinct_map_filter)
  ultimately have "ti_rewritten t = card {i \<in> set ids. id_of t i \<noteq> i}" using all by (simp add: ids_ok_def)
  then show ?thesis using all inj strict by auto
qed

section \<open>The search for an unused identifier ends\<close>

lemma salted_first:
  assumes "strict9 digest source n \<notin> set taken" and "\<forall>j. k \<le> j \<and> j < n \<longrightarrow> strict9 digest source j \<in> set taken" and "k \<le> n"
  shows "salted digest taken source (k + 1) (strict9 digest source k) = Some (strict9 digest source n)"
  using assms(2,3)
proof (induction "n - k" arbitrary: k)
  case 0
  then have "k = n" by simp
  then show ?case using assms(1) by (subst salted.simps) simp
next
  case (Suc d)
  then have "salted digest taken source (Suc k + 1) (strict9 digest source (Suc k)) = Some (strict9 digest source n)" by (intro Suc.hyps(1)) auto
  moreover have "strict9 digest source k \<in> set taken" using Suc.prems Suc.hyps(2) by simp
  ultimately show ?case by (subst salted.simps) simp
qed

text \<open>The search for an unused identifier ends as soon as some salt gives one, and gives the first of them: the loop over the salts returns
  whenever an identifier can be found at all.\<close>

theorem fresh_id_found:
  assumes "strict9 digest source n \<notin> set taken"
  shows "\<exists>m \<le> n. salted digest taken source 1 (strict9 digest source 0) = Some (strict9 digest source m) \<and>
    strict9 digest source m \<notin> set taken \<and> (\<forall>j < m. strict9 digest source j \<in> set taken)"
proof -
  define m where "m = (LEAST j. strict9 digest source j \<notin> set taken)"
  have m: "strict9 digest source m \<notin> set taken" "m \<le> n" "j < m \<Longrightarrow> strict9 digest source j \<in> set taken" for j
    using assms LeastI [of "\<lambda>j. strict9 digest source j \<notin> set taken" n] Least_le [of "\<lambda>j. strict9 digest source j \<notin> set taken" n]
      not_less_Least [of j "\<lambda>j. strict9 digest source j \<notin> set taken"] by (auto simp: m_def)
  show ?thesis using m salted_first [OF m(1), of 0] by auto
qed

section \<open>Links between calls and results\<close>

datatype link = Called "string option" | Answered "string option"

text \<open>What a mapped message links, and what a turn of the original request links.\<close>

definition message_links :: "json \<Rightarrow> link list" where
  "message_links m =
     (let r = (case rec_of (Some m) of Some r \<Rightarrow> r | None \<Rightarrow> []) in
      map (\<lambda>c. Called (str_of (data_key (Some c) ''id''))) (elements (member r ''tool_calls'')) @
      (if member r ''role'' = Some (JStr ''tool'') then [Answered (str_of (member r ''tool_call_id''))] else []))"

definition block_links :: "bool \<Rightarrow> json \<Rightarrow> link list" where
  "block_links assistant b =
     (let r = (case rec_of (Some b) of Some r \<Rightarrow> r | None \<Rightarrow> []) in
      if assistant \<and> kind_is r ''tool_use'' then [Called (str_of (member r ''id''))]
      else if \<not> assistant \<and> kind_is r ''tool_result'' then [Answered (str_of (member r ''tool_use_id''))]
      else [])"

definition turn_links :: "json \<Rightarrow> link list" where
  "turn_links turn =
     (let r = (case rec_of (Some turn) of Some r \<Rightarrow> r | None \<Rightarrow> []) in
      concat (map (block_links (member r ''role'' = Some (JStr ''assistant''))) (elements (member r ''content''))))"

fun relabel :: "(string \<Rightarrow> string) \<Rightarrow> link \<Rightarrow> link" where
  "relabel f (Called i) = Called (map_option f i)"
| "relabel f (Answered i) = Answered (map_option f i)"

text \<open>The identifier that a state gives to a source, and the growth of a state.\<close>

definition state_ok :: "mapping_state \<Rightarrow> bool" where
  "state_ok st \<longleftrightarrow> (case ms_ids st of None \<Rightarrow> True | Some t \<Rightarrow> ids_ok t)"

definition label :: "mapping_state \<Rightarrow> string \<Rightarrow> string option" where
  "label st i = (case ms_ids st of None \<Rightarrow> Some i | Some t \<Rightarrow> jm_get (ti_bySource t) i)"

definition grows :: "mapping_state \<Rightarrow> mapping_state \<Rightarrow> bool" where
  "grows st st' \<longleftrightarrow> state_ok st' \<and> (ms_ids st' = None \<longleftrightarrow> ms_ids st = None) \<and> (\<forall>i v. label st i = Some v \<longrightarrow> label st' i = Some v)"

lemma labels_grow_trans: "grows a b \<Longrightarrow> grows b c \<Longrightarrow> grows a c"
  by (auto simp: grows_def)

lemma labels_grow_refl: "state_ok st \<Longrightarrow> grows st st"
  by (simp add: grows_def)

text \<open>The links that a state has labelled.\<close>

fun link_id :: "link \<Rightarrow> string option" where
  "link_id (Called i) = i"
| "link_id (Answered i) = i"

definition labelled :: "mapping_state \<Rightarrow> link list \<Rightarrow> link list \<Rightarrow> bool" where
  "labelled st source out \<longleftrightarrow> out = map (relabel (\<lambda>i. the (label st i))) source \<and>
     (\<forall>l \<in> set source. \<exists>i v. link_id l = Some i \<and> label st i = Some v)"

lemma labelled_grows: "labelled st source out \<Longrightarrow> grows st st' \<Longrightarrow> labelled st' source out"
proof -
  assume l: "labelled st source out" and g: "grows st st'"
  have "relabel (\<lambda>i. the (label st i)) k = relabel (\<lambda>i. the (label st' i)) k" if "k \<in> set source" for k
    using l g that by (cases k) (fastforce simp: labelled_def grows_def)+
  then show ?thesis using l g by (fastforce simp: labelled_def grows_def)
qed

lemma labelled_Nil [simp]: "labelled st [] out = (out = [])"
  by (simp add: labelled_def)

lemma labelled_append: "labelled st a x \<Longrightarrow> labelled st b y \<Longrightarrow> labelled st (a @ b) (x @ y)"
  by (auto simp: labelled_def)

lemma mapped_id_grows:
  assumes "state_ok st" and "mapped_id opts i st = give (st1, out)"
  shows "grows st st1" and "label st1 i = Some out" and "ms_sigs st1 = ms_sigs st"
proof -
  have "grows st st1 \<and> label st1 i = Some out \<and> ms_sigs st1 = ms_sigs st"
  proof (cases "ms_ids st")
    case None
    then show ?thesis using assms by (simp add: mapped_id_def grows_def label_def)
  next
    case (Some t)
    then obtain t1 where t1: "map_id (mo_digest opts) i t = Some (t1, out)" "st1 = st\<lparr>ms_ids := Some t1\<rparr>"
      using assms(2) by (auto simp: mapped_id_def split: option.splits)
    have "ids_ok t" using assms(1) Some by (simp add: state_ok_def)
    from map_id_ok [OF this t1(1)] show ?thesis using Some by (auto simp: grows_def state_ok_def label_def t1(2))
  qed
  then show "grows st st1" "label st1 i = Some out" "ms_sigs st1 = ms_sigs st" by blast+
qed

lemma stamp_grows: "state_ok st \<Longrightarrow> stamp call st = (st1, call1) \<Longrightarrow> grows st st1 \<and> member call1 ''id'' = member call ''id''"
  by (auto simp: stamp_def grows_def state_ok_def label_def member_def jm.get_put [unfolded jm_get_def] split: option.splits)

lemma toolCall_links:
  assumes "state_ok st" and "toolCall opts r st = give (st1, call)" and "kind_is r ''tool_use''"
  shows "grows st st1" and "labelled st1 (block_links True (JObj r)) [Called (str_of (data_key (Some call) ''id''))]"
proof -
  obtain i name where i: "nonempty_text (member r ''id'') = Some i" "nonempty_text (member r ''name'') = Some name"
    using assms(2) by (auto simp: toolCall_def split: option.splits)
  obtain st2 out where m: "mapped_id opts i st = give (st2, out)"
    using assms(2) i by (auto simp: toolCall_def and_then_give)
  let ?call = "[(''id'', JStr out), (''type'', JStr ''function''),
      (''function'', JObj [(''name'', JStr name), (''arguments'', JStr (tool_arguments opts (member r ''input'')))])]"
  obtain call1 where c: "stamp ?call st2 = (st1, call1)" "call = JObj call1"
    using assms(2) i m by (auto simp: toolCall_def Let_def split: prod.splits)
  note grow = mapped_id_grows [OF assms(1) m]
  have "state_ok st2" using grow(1) by (simp add: grows_def)
  note st = stamp_grows [OF this c(1)]
  show "grows st st1" using grow(1) st labels_grow_trans by blast
  have s: "str_of (member r ''id'') = Some i" using i(1) by (auto simp: nonempty_text_def split: option.splits if_splits)
  have "label st1 i = Some out" using grow(2) st by (simp add: grows_def)
  then show "labelled st1 (block_links True (JObj r)) [Called (str_of (data_key (Some call) ''id''))]"
    using st s assms(3) by (simp add: block_links_def labelled_def c(2))
qed

lemma toolResult_links:
  assumes "state_ok st" and "toolResultMessage opts r names st = give (st1, message, images)" and "kind_is r ''tool_result''"
  shows "grows st st1" and "labelled st1 (block_links False (JObj r)) (message_links message)"
proof -
  obtain i where i: "nonempty_text (member r ''tool_use_id'') = Some i" using assms(2) by (auto simp: toolResultMessage_def split: option.splits)
  obtain shown imgs out where m: "mapped_id opts i st = give (st1, out)"
      "message = JObj ([(''role'', JStr ''tool''), (''tool_call_id'', JStr out), (''content'', JStr shown)] @
        (case jm_get names i of Some n \<Rightarrow> [(''name'', JStr n)] | None \<Rightarrow> []))"
    using assms(2) i by (auto simp: toolResultMessage_def and_then_give)
  have s: "str_of (member r ''tool_use_id'') = Some i" using i by (auto simp: nonempty_text_def split: option.splits if_splits)
  have "message_links message = [Answered (Some out)]"
    by (cases "jm_get names i") (simp_all add: m(2) message_links_def)
  then show "labelled st1 (block_links False (JObj r)) (message_links message)"
    using mapped_id_grows(2) [OF assms(1) m(1)] s assms(3) by (simp add: block_links_def labelled_def kind_is_def)
  show "grows st st1" by (rule mapped_id_grows(1) [OF assms(1) m(1)])
qed

lemma kind_is_unique: "kind_is r k \<Longrightarrow> kind_is r j = (j = k)"
  by (auto simp: kind_is_def)

lemma rec_of_Some: "rec_of v = Some r \<longleftrightarrow> v = Some (JObj r)"
  by (cases v rule: rec_of.cases) auto

text \<open>A block of another kind links nothing.\<close>

lemma no_links:
  "\<not> kind_is r ''tool_use'' \<Longrightarrow> block_links True (JObj r) = []" "\<not> kind_is r ''tool_result'' \<Longrightarrow> block_links False (JObj r) = []"
  by (simp_all add: block_links_def)

definition call_links :: "json list \<Rightarrow> link list" where
  "call_links calls = map (\<lambda>c. Called (str_of (data_key (Some c) ''id''))) calls"

lemma assistant_blocks_links:
  assumes "state_ok st" and "assistant_blocks opts blocks p st = give (st1, q)"
  shows "grows st st1 \<and> (\<exists>new. ap_toolCalls q = ap_toolCalls p @ new \<and> labelled st1 (concat (map (block_links True) blocks)) (call_links new))"
  using assms
proof (induction opts blocks p st rule: assistant_blocks.induct)
  case (1 opts p st)
  then show ?case by (auto simp: labels_grow_refl call_links_def)
next
  case (2 opts raw blocks p st)
  obtain r where r: "rec_of (Some raw) = Some r" "raw = JObj r" using "2.prems"(2) by (auto simp: rec_of_Some split: option.splits)
  show ?case
  proof (cases "kind_is r ''tool_use''")
    case True
    have kinds: "\<not> kind_is r ''text''" using kind_is_unique [OF True] by simp
    obtain st2 call where call: "toolCall opts r st = give (st2, call)"
        "assistant_blocks opts blocks (p\<lparr>ap_toolCalls := ap_toolCalls p @ [call]\<rparr>) st2 = give (st1, q)"
      using "2.prems"(2) r True kinds by (auto simp: and_then_give)
    note links = toolCall_links [OF "2.prems"(1) call(1) True]
    have ok: "state_ok st2" using links(1) by (simp add: grows_def)
    have ih: "grows st2 st1 \<and> (\<exists>new. ap_toolCalls q = ap_toolCalls (p\<lparr>ap_toolCalls := ap_toolCalls p @ [call]\<rparr>) @ new \<and>
        labelled st1 (concat (map (block_links True) blocks)) (call_links new))"
      by (rule "2.IH"(2) [OF r(1) kinds True ok call(2)])
    then obtain new where new: "ap_toolCalls q = (ap_toolCalls p @ [call]) @ new" "labelled st1 (concat (map (block_links True) blocks)) (call_links new)"
      by auto
    have "labelled st1 (block_links True (JObj r)) (call_links [call])"
      using labelled_grows [OF links(2) conjunct1 [OF ih]] by (simp add: call_links_def)
    from labelled_append [OF this new(2)] have "labelled st1 (concat (map (block_links True) (raw # blocks))) (call_links ([call] @ new))"
      by (simp add: r(2) call_links_def)
    moreover have "ap_toolCalls q = ap_toolCalls p @ ([call] @ new)" using new(1) by simp
    ultimately show ?thesis using labels_grow_trans [OF links(1) conjunct1 [OF ih]] by blast
  next
    case False
    have "block_links True raw = []" using no_links(1) [OF False] r(2) by simp
    then show ?thesis using 2 r False by (auto split: if_splits option.splits)
  qed
qed

definition result_links :: "json list \<Rightarrow> link list" where
  "result_links messages = concat (map message_links messages)"

lemma user_blocks_links:
  assumes "state_ok st" and "user_blocks opts names blocks p st = give (st1, q)"
  shows "grows st st1 \<and> (\<exists>new. up_tools q = up_tools p @ new \<and> labelled st1 (concat (map (block_links False) blocks)) (result_links new))"
  using assms
proof (induction opts names blocks p st rule: user_blocks.induct)
  case (1 opts names p st)
  then show ?case by (auto simp: labels_grow_refl result_links_def)
next
  case (2 opts names raw blocks p st)
  obtain r where r: "rec_of (Some raw) = Some r" "raw = JObj r" using "2.prems"(2) by (auto simp: rec_of_Some split: option.splits)
  show ?case
  proof (cases "kind_is r ''tool_result''")
    case True
    have kinds: "\<not> kind_is r ''text''" "\<not> kind_is r ''image''" using kind_is_unique [OF True] by simp_all
    obtain st2 message images where m: "toolResultMessage opts r names st = give (st2, message, images)"
        "user_blocks opts names blocks (p\<lparr>up_tools := up_tools p @ [message], up_parts := up_parts p @ images\<rparr>) st2 = give (st1, q)"
      using "2.prems"(2) r True kinds by (auto simp: and_then_give)
    note links = toolResult_links [OF "2.prems"(1) m(1) True]
    have ok: "state_ok st2" using links(1) by (simp add: grows_def)
    have ih: "grows st2 st1 \<and> (\<exists>new. up_tools q = up_tools (p\<lparr>up_tools := up_tools p @ [message], up_parts := up_parts p @ images\<rparr>) @ new \<and>
        labelled st1 (concat (map (block_links False) blocks)) (result_links new))"
      by (rule "2.IH"(3) [OF r(1) kinds True ok m(2)])
    then obtain new where new: "up_tools q = (up_tools p @ [message]) @ new" "labelled st1 (concat (map (block_links False) blocks)) (result_links new)"
      by auto
    have "labelled st1 (block_links False (JObj r)) (result_links [message])"
      using labelled_grows [OF links(2) conjunct1 [OF ih]] by (simp add: result_links_def)
    from labelled_append [OF this new(2)] have "labelled st1 (concat (map (block_links False) (raw # blocks))) (result_links ([message] @ new))"
      by (simp add: r(2) result_links_def)
    moreover have "up_tools q = up_tools p @ ([message] @ new)" using new(1) by simp
    ultimately show ?thesis using labels_grow_trans [OF links(1) conjunct1 [OF ih]] by blast
  next
    case False
    have none: "block_links False raw = []" using no_links(2) [OF False] r(2) by simp
    show ?thesis
    proof (cases "kind_is r ''image''")
      case True
      have "\<not> kind_is r ''text''" using kind_is_unique [OF True] by simp
      then show ?thesis using 2 r True none by (auto simp: and_then_give)
    next
      case no_image: False
      then show ?thesis using 2 r False none by (auto split: if_splits option.splits)
    qed
  qed
qed

lemma user_tail_links [simp]: "result_links (user_tail p) = []"
  by (simp add: user_tail_def result_links_def message_links_def user_message_def split: list.split json.split)

lemma assistantMessage_links:
  assumes "state_ok st" and "assistantMessage opts r st = give (st1, message, had)"
  shows "grows st st1 \<and> labelled st1 (concat (map (block_links True) (elements (member r ''content'')))) (message_links (JObj message))"
proof (cases "\<exists>s. member r ''content'' = Some (JStr s)")
  case True
  then obtain s where "member r ''content'' = Some (JStr s)" by blast
  then show ?thesis using assms by (auto simp: assistantMessage_def labels_grow_refl message_links_def)
next
  case False
  then have "and_then (assistant_blocks opts (elements (member r ''content'')) \<lparr>ap_texts = [], ap_toolCalls = [], ap_thinking = []\<rparr> st)
      (\<lambda>(st1, p). give (st1, assistant_record opts p, ap_toolCalls p \<noteq> [])) = give (st1, message, had)"
    using assms(2) by (simp add: assistantMessage_def split: option.splits json.splits)
  then obtain p where p: "assistant_blocks opts (elements (member r ''content'')) \<lparr>ap_texts = [], ap_toolCalls = [], ap_thinking = []\<rparr> st = give (st1, p)"
      "message = assistant_record opts p"
    unfolding and_then_give by auto
  have "message_links (JObj message) = call_links (ap_toolCalls p)"
    by (simp add: p(2) assistant_record_def Let_def message_links_def call_links_def)
  then show ?thesis using assistant_blocks_links [OF assms(1) p(1)] by simp
qed

lemma userMessages_links:
  assumes "state_ok st" and "userMessages opts r names st = give (st1, ms)"
  shows "grows st st1 \<and> labelled st1 (concat (map (block_links False) (elements (member r ''content'')))) (result_links ms)"
proof (cases "\<exists>s. member r ''content'' = Some (JStr s)")
  case True
  then obtain s where "member r ''content'' = Some (JStr s)" by blast
  then show ?thesis using assms by (auto simp: userMessages_def labels_grow_refl message_links_def result_links_def user_message_def)
next
  case False
  then have "and_then (user_blocks opts names (elements (member r ''content'')) \<lparr>up_tools = [], up_parts = []\<rparr> st)
      (\<lambda>(st1, p). give (st1, up_tools p @ user_tail p)) = give (st1, ms)"
    using assms(2) by (simp add: userMessages_def split: option.splits json.splits)
  then obtain p where p: "user_blocks opts names (elements (member r ''content'')) \<lparr>up_tools = [], up_parts = []\<rparr> st = give (st1, p)"
      "ms = up_tools p @ user_tail p"
    unfolding and_then_give by auto
  moreover have "result_links ms = result_links (up_tools p)" using user_tail_links [of p] by (simp add: p(2) result_links_def)
  ultimately show ?thesis using user_blocks_links [OF assms(1) p(1)] by simp
qed

lemma map_turns_links:
  assumes "state_ok st" and "map_turns opts raws t st = give (st1, u)"
  shows "grows st st1 \<and> (\<exists>new. tn_messages u = tn_messages t @ new \<and> labelled st1 (concat (map turn_links raws)) (result_links new))"
  using assms
proof (induction opts raws t st rule: map_turns.induct)
  case (1 opts t st)
  then show ?case by (auto simp: labels_grow_refl result_links_def)
next
  case (2 opts raw rest t st)
  obtain r where r: "rec_of (Some raw) = Some r" "raw = JObj r" using "2.prems"(2) by (auto simp: rec_of_Some split: option.splits)
  have step: "grows st st1 \<and> (\<exists>new. tn_messages u = tn_messages t @ new \<and> labelled st1 (concat (map turn_links (raw # rest))) (result_links new))"
    if g: "grows st st2" and one: "labelled st2 (turn_links raw) (result_links ms)" and
      ih: "grows st2 st1" "tn_messages u = (tn_messages t @ ms) @ new" "labelled st1 (concat (map turn_links rest)) (result_links new)" for st2 ms new
  proof -
    have "labelled st1 (turn_links raw) (result_links ms)" by (rule labelled_grows [OF one ih(1)])
    from labelled_append [OF this ih(3)] have "labelled st1 (concat (map turn_links (raw # rest))) (result_links (ms @ new))"
      by (simp add: result_links_def)
    then show ?thesis using labels_grow_trans [OF g ih(1)] ih(2) by (intro conjI exI [of _ "ms @ new"]) simp_all
  qed
  show ?case
  proof (cases "member r ''role'' = Some (JStr ''assistant'')")
    case True
    obtain st2 message had where m: "assistantMessage opts r st = give (st2, message, had)"
      and next_turns: "map_turns opts rest \<lparr>tn_messages = tn_messages t @ [JObj message], tn_names = rememberToolNames r (tn_names t),
        tn_unreplayable = (tn_unreplayable t \<or> (mo_deepseek opts \<and> had \<and> str_of (member message ''reasoning_content'') = None))\<rparr> st2 = give (st1, u)"
      using "2.prems"(2) r True by (auto simp: and_then_give Let_def)
    note links = assistantMessage_links [OF "2.prems"(1) m]
    have ok: "state_ok st2" using links by (simp add: grows_def)
    note ih = "2.IH"(1) [OF r(1) True refl ok next_turns]
    have "labelled st2 (turn_links raw) (result_links [JObj message])" using links True by (simp add: turn_links_def r(2) result_links_def)
    then show ?thesis using step [of st2 "[JObj message]"] links ih by auto
  next
    case False
    obtain st2 ms where m: "userMessages opts r (tn_names t) st = give (st2, ms)"
      and next_turns: "map_turns opts rest (t\<lparr>tn_messages := tn_messages t @ ms\<rparr>) st2 = give (st1, u)"
      using "2.prems"(2) r False by (auto simp: and_then_give)
    note links = userMessages_links [OF "2.prems"(1) m]
    have ok: "state_ok st2" using links by (simp add: grows_def)
    note ih = "2.IH"(2) [OF r(1) False ok next_turns]
    have "labelled st2 (turn_links raw) (result_links ms)" using links False by (simp add: turn_links_def r(2))
    then show ?thesis using step [of st2 ms] links ih by auto
  qed
qed

lemma member_put [simp]: "member (jm_put k v m) j = (if j = k then Some v else member m j)"
  using jm.get_put [of k v m j] by (simp add: member_def jm_get_def)

text \<open>What the reasoning adds: thinking switched off, or an effort.\<close>

lemma spec_cases:
  assumes "deepSeekThinkingSpec body effort = Some s"
  shows "s = thinking_off \<or> (\<exists>e. s = [(''reasoning_effort'', JStr e)])"
  using assms by (auto simp: deepSeekThinkingSpec_def deepSeekEffortSpec_def Let_def split: if_splits option.splits)

lemma reasoning_keeps:
  assumes "k \<noteq> ''thinking''" and "k \<noteq> ''reasoning_effort''"
  shows "member (fst (applyDeepSeekReasoning out body effort unreplayable)) k = member out k"
proof -
  have keep: "member (object_assign out s) k = member out k" if "s = thinking_off \<or> (\<exists>e. s = [(''reasoning_effort'', JStr e)])" for s
    using that assms by (auto simp: object_assign_def thinking_off_def)
  show ?thesis using keep spec_cases [of body effort]
    by (auto simp: applyDeepSeekReasoning_def Let_def split: option.split)
qed

text \<open>The parts of a mapped request.\<close>

lemma request_parts:
  assumes "anthropicRequestToOpenAi opts (JObj body) = give m"
  obtains st1 t tools where
    "map_turns opts (elements (member body ''messages'')) (first_turns body) (start_state opts) = give (st1, t)"
    "mapTools (member body ''tools'') = give tools" "m = finished_request opts body st1 t tools"
  using assms unfolding anthropicRequestToOpenAi_def Let_def rec_of.simps option.case and_then_give by (auto simp: and_then_give)

lemma finished_member:
  assumes "k \<noteq> ''thinking''" and "k \<noteq> ''reasoning_effort''"
  shows "member (mr_request (finished_request opts body st t tools)) k = member (request_fields opts body (tn_messages t) tools) k"
  using reasoning_keeps [OF assms] by (simp add: finished_request_def Let_def case_prod_beta)

text \<open>C21. The mapped messages link calls and results exactly as the request did: the calls and the results of the whole conversation appear in
  the same order and number, each with the image of its identifier under one injective function, so that a result
  answers the same call after the mapping as before; without rewriting the function is the identity, and with it every
  identifier is strict.\<close>

theorem tool_links_preserved:
  assumes "anthropicRequestToOpenAi opts (JObj body) = give m"
    and "links = concat (map turn_links (elements (member body ''messages'')))"
  shows "\<exists>f. result_links (elements (member (mr_request m) ''messages'')) = map (relabel f) links \<and>
    inj_on f {i. \<exists>l \<in> set links. link_id l = Some i} \<and> (\<not> mo_strict9 opts \<longrightarrow> f = id) \<and>
    (mo_strict9 opts \<longrightarrow> (\<forall>l \<in> set links. \<exists>i. link_id l = Some i \<and> STRICT9 (f i)))"
proof -
  obtain st1 t tools where parts:
    "map_turns opts (elements (member body ''messages'')) (first_turns body) (start_state opts) = give (st1, t)"
    "m = finished_request opts body st1 t tools"
    using request_parts [OF assms(1)] by blast
  have messages: "member (mr_request m) ''messages'' = Some (JArr (tn_messages t))"
    by (simp add: parts(2) finished_member request_fields_def Let_def)
  have "state_ok (start_state opts)" by (simp add: start_state_def state_ok_def ids_ok_def new_tool_call_ids_def jm_ok_def)
  from map_turns_links [OF this parts(1)] obtain new where g: "grows (start_state opts) st1" and
      new: "tn_messages t = tn_messages (first_turns body) @ new" "labelled st1 links (result_links new)" by (auto simp: assms(2))
  have first: "result_links (tn_messages (first_turns body)) = []" by (simp add: first_turns_def Let_def result_links_def message_links_def)
  let ?f = "\<lambda>i. the (label st1 i)"
  have known: "\<exists>i v. link_id l = Some i \<and> label st1 i = Some v" if "l \<in> set links" for l
    using new(2) that by (simp add: labelled_def)
  have out: "result_links (elements (member (mr_request m) ''messages'')) = map (relabel ?f) links"
    using new first by (simp add: messages labelled_def result_links_def)
  show ?thesis
  proof (cases "mo_strict9 opts")
    case False
    have "label (start_state opts) i = Some i" for i using False by (simp add: start_state_def label_def)
    then have "?f = id" using g by (force simp: grows_def)
    then show ?thesis using out False by (intro exI [of _ ?f]) simp
  next
    case True
    have "ms_ids st1 \<noteq> None" using g True by (simp add: grows_def start_state_def)
    then obtain ti where ti: "ms_ids st1 = Some ti" by blast
    have ok: "ids_ok ti" using g ti by (simp add: grows_def state_ok_def)
    have inj: "inj_on ?f {i. \<exists>l \<in> set links. link_id l = Some i}"
    proof (rule inj_onI)
      fix i j assume "i \<in> {i. \<exists>l \<in> set links. link_id l = Some i}" "j \<in> {i. \<exists>l \<in> set links. link_id l = Some i}" and eq: "?f i = ?f j"
      then obtain v w where "label st1 i = Some v" "label st1 j = Some w" using known by fastforce
      then show "i = j" using eq id_of_inj [OF ok, of i v j] by (simp add: label_def ti)
    qed
    have "\<exists>i. link_id l = Some i \<and> STRICT9 (?f i)" if l: "l \<in> set links" for l
    proof -
      obtain i v where i: "link_id l = Some i" "label st1 i = Some v" using known [OF l] by blast
      then have "(i, v) \<in> set (ti_bySource ti)" by (simp add: label_def ti jm_get_in)
      then have "STRICT9 v" using ok by (force simp: ids_ok_def)
      then show ?thesis using i by simp
    qed
    then show ?thesis using out inj True by (intro exI [of _ ?f]) simp
  qed
qed

section \<open>When a request is refused\<close>










text \<open>An outcome that is given exactly when a condition holds, and thrown otherwise.\<close>

definition decided :: "bool \<Rightarrow> 'a outcome \<Rightarrow> bool" where
  "decided ok x \<longleftrightarrow> (if ok then \<exists>a. x = give a else \<exists>m. x = throw m)"

lemma decided_give [simp]: "decided ok (give a) = ok" and decided_throw [simp]: "decided ok (throw m) = (\<not> ok)"
  by (simp_all add: decided_def)



text \<open>
  The search for an unused identifier cannot fail while the salts give more identifiers for each source than are taken: the state
  has room for \<open>n\<close> more.
\<close>

definition room :: "mapping_options \<Rightarrow> nat \<Rightarrow> mapping_state \<Rightarrow> bool" where
  "room opts n st \<longleftrightarrow> (\<forall>t. ms_ids st = Some t \<longrightarrow> (\<forall>i. length (ti_taken t) + n \<le> card (range (strict9 (mo_digest opts) i))))"


lemma room_stamp [simp]: "room opts n (fst (stamp call st)) = room opts n st"
  by (simp add: room_def stamp_def split: option.split)

















section \<open>A forced tool choice\<close>

lemma member_of_append: "member (xs @ ys) k = (case member xs k of Some v \<Rightarrow> Some v | None \<Rightarrow> member ys k)"
  by (simp add: member_def map_of_append map_add_def split: option.split)

lemma member_opt_field: "member (opt_field name v) k = (if k = name then v else None)"
  by (simp add: opt_field_def split: option.split)

lemma request_fields_no_reasoning: "member (request_fields opts body ms tools) ''reasoning_effort'' = None"
  by (simp add: request_fields_def Let_def member_of_append member_opt_field split: option.split)

text \<open>C24. A backend that cannot think while it is forced to call a tool is never asked to: whenever the mapped request forces a tool choice,
  thinking is switched off in it and no effort is asked for, whatever the request and the configuration said.\<close>

theorem forced_choice_never_thinks:
  assumes "anthropicRequestToOpenAi opts (JObj body) = give m" and "mo_deepseek opts"
    and "forcesToolChoice (member (mr_request m) ''tool_choice'')"
  shows "member (mr_request m) ''thinking'' = Some (JObj [(''type'', JStr ''disabled'')]) \<and> member (mr_request m) ''reasoning_effort'' = None"
proof -
  obtain st1 t tools where m: "m = finished_request opts body st1 t tools" using request_parts [OF assms(1)] by blast
  let ?out = "request_fields opts body (tn_messages t) tools"
  let ?natural = "deepSeekThinkingSpec body (mo_effort opts)"
  have forced: "forcesToolChoice (member ?out ''tool_choice'')" using assms(3) by (simp add: m finished_member)
  have "mr_request m = object_assign ?out thinking_off"
  proof (cases "deepSeekThinkingIsOn ?natural")
    case True
    then show ?thesis using assms(2) forced by (simp add: m finished_request_def applyDeepSeekReasoning_def Let_def)
  next
    case False
    then obtain s where s: "?natural = Some s" by (auto simp: deepSeekThinkingIsOn_def split: option.splits)
    then have "s = thinking_off" using spec_cases [OF s] False by (auto simp: deepSeekThinkingIsOn_def)
    then show ?thesis using assms(2) False s by (simp add: m finished_request_def applyDeepSeekReasoning_def Let_def)
  qed
  then show ?thesis by (simp add: object_assign_def thinking_off_def request_fields_no_reasoning)
qed

section \<open>Examples\<close>

definition zero_digest :: "string \<Rightarrow> 8 word list" where
  "zero_digest s = replicate 9 (if s = ''x'' then 0 else 1)"

definition sample_mapping :: "bool \<Rightarrow> mapping_options" where
  "sample_mapping strict = \<lparr>mo_digest = zero_digest, mo_stringify = (\<lambda>v. ''{}''), mo_model = None, mo_stream = None, mo_strict9 = strict,
     mo_sentinel = False, mo_deepseek = True, mo_effort = Some ''high''\<rparr>"

definition sample_body :: rec where
  "sample_body =
     [(''messages'', JArr [JObj [(''role'', JStr ''assistant''), (''content'', JArr [JObj [(''type'', JStr ''tool_use''), (''id'', JStr ''x''), (''name'', JStr ''ls'')]])],
        JObj [(''role'', JStr ''user''), (''content'', JArr [JObj [(''type'', JStr ''tool_result''), (''tool_use_id'', JStr ''x''), (''content'', JStr ''a.txt'')]])]]),
      (''tools'', JArr [JObj [(''name'', JStr ''ls'')]]), (''tool_choice'', JObj [(''type'', JStr ''any'')])]"

definition given_with :: "'a outcome \<Rightarrow> ('a \<Rightarrow> bool) \<Rightarrow> bool" where
  "given_with x p = (case x of Some (Inr a) \<Rightarrow> p a | _ \<Rightarrow> False)"

lemma given_withE: "given_with x p \<Longrightarrow> \<exists>a. x = give a \<and> p a"
  by (auto simp: given_with_def give_def split: option.splits sum.splits)

lemma sample_mapped:
  "given_with (anthropicRequestToOpenAi (sample_mapping False) (JObj sample_body)) (\<lambda>m. member (mr_request m) ''tool_choice'' = Some (JStr ''required''))"
  by code_simp

lemma tool_call_ids_injective_witness:
  "\<exists>t outs. map_all zero_digest [''x'', ''abcdefghi'', ''x''] new_tool_call_ids = Some (t, outs) \<and> outs ! 0 = outs ! 2 \<and> outs ! 0 \<noteq> outs ! 1"
proof -
  have "map_option (\<lambda>p. True) (map_all zero_digest [''x'', ''abcdefghi'', ''x''] new_tool_call_ids) = Some True" by code_simp
  then obtain t outs where run: "map_all zero_digest [''x'', ''abcdefghi'', ''x''] new_tool_call_ids = Some (t, outs)" by auto
  have "outs ! m = outs ! n \<longleftrightarrow> [''x'', ''abcdefghi'', ''x''] ! m = [''x'', ''abcdefghi'', ''x''] ! n" if "m < 3" "n < 3" for m n
    using tool_call_ids_injective [OF run] that by simp
  from this [of 0 2] this [of 0 1] run show ?thesis by auto
qed

lemma fresh_id_found_witness:
  "\<exists>m \<le> 1. salted zero_digest [''000000000''] ''x'' 1 (strict9 zero_digest ''x'' 0) = Some (strict9 zero_digest ''x'' m)"
proof -
  have "strict9 zero_digest ''x'' 1 \<notin> set [''000000000'']" by code_simp
  from fresh_id_found [OF this] show ?thesis by blast
qed

lemma tool_links_preserved_witness:
  "\<exists>m. anthropicRequestToOpenAi (sample_mapping False) (JObj sample_body) = give m \<and>
     result_links (elements (member (mr_request m) ''messages'')) = [Called (Some ''x''), Answered (Some ''x'')]"
proof -
  obtain m where m: "anthropicRequestToOpenAi (sample_mapping False) (JObj sample_body) = give m" using given_withE [OF sample_mapped] by blast
  have "concat (map turn_links (elements (member sample_body ''messages''))) = [Called (Some ''x''), Answered (Some ''x'')]" by code_simp
  from tool_links_preserved [OF m this [symmetric]] m show ?thesis by (auto simp: sample_mapping_def)
qed





lemma forced_choice_never_thinks_witness:
  "\<exists>m. anthropicRequestToOpenAi (sample_mapping False) (JObj sample_body) = give m \<and>
     member (mr_request m) ''thinking'' = Some (JObj [(''type'', JStr ''disabled'')])"
proof -
  obtain m where m: "anthropicRequestToOpenAi (sample_mapping False) (JObj sample_body) = give m"
      "member (mr_request m) ''tool_choice'' = Some (JStr ''required'')"
    using given_withE [OF sample_mapped] by blast
  have "mo_deepseek (sample_mapping False)" by (simp add: sample_mapping_def)
  from forced_choice_never_thinks [OF m(1) this] m show ?thesis by (simp add: forcesToolChoice_def)
qed

end
