(* ===== verification/Message.thy ===== *)
theory Message
  imports Json_Read
begin

text \<open>
  The assistant message and the tools of a request (\<^verbatim>\<open>anthropic.ts\<close>). A content block is a JSON object; what a stream
  carries is untyped, so the stop reason and the stop sequence are JSON values too.
\<close>

section \<open>Values of the language\<close>

fun truthy :: "json \<Rightarrow> bool" where
  "truthy JNull = False"
| "truthy (JBool b) = b"
| "truthy (JNum x) = (x \<noteq> 0 \<and> x \<noteq> NaN)"
| "truthy (JStr s) = (s \<noteq> [])"
| "truthy (JArr xs) = True"
| "truthy (JObj ms) = True"

text \<open>\<^verbatim>\<open>{ ...v }\<close> and \<^verbatim>\<open>{ ...a, ...b }\<close>\<close>

fun spread :: "json \<Rightarrow> (string \<times> json) list" where
  "spread (JObj ms) = ms"
| "spread (JArr xs) = zip (map show_nat [0..<length xs]) xs"
| "spread (JStr s) = zip (map show_nat [0..<length s]) (map (\<lambda>c. JStr [c]) s)"
| "spread v = []"

definition put_all :: "(string \<times> json) list \<Rightarrow> (string \<times> json) list \<Rightarrow> (string \<times> json) list" where
  "put_all b a = fold (\<lambda>(k, v). jm_put k v) b a"

section \<open>The message\<close>

record assistant_message =
  am_id :: "string option"
  am_model :: "string option"
  am_content :: "json list"
  am_stop_reason :: json
  am_stop_sequence :: "json option"
  am_usage :: "(string \<times> json) list option"

definition isToolUseBlock :: "json \<Rightarrow> bool" where
  "isToolUseBlock b \<longleftrightarrow> data_key (Some b) ''type'' = Some (JStr ''tool_use'')"

section \<open>The tools of a request\<close>

text \<open>\<^verbatim>\<open>a ?? b\<close>, and \<^verbatim>\<open>typeof v === "object" && v !== null\<close>\<close>

fun coalesce :: "json option \<Rightarrow> json option \<Rightarrow> json option" where
  "coalesce None w = w"
| "coalesce (Some JNull) w = w"
| "coalesce v w = v"

fun as_object :: "json option \<Rightarrow> json option" where
  "as_object (Some (JObj ms)) = Some (JObj ms)"
| "as_object (Some (JArr xs)) = Some (JArr xs)"
| "as_object v = None"

type_synonym tool_map = "(string, json option) jmap"

text \<open>A tool is declared by a name of its own, or in the function it wraps; a declared tool may have no schema.\<close>

definition tool_entry :: "json \<Rightarrow> (string \<times> json option) option" where
  "tool_entry t =
     (case t of
        JObj tool \<Rightarrow>
          (case str_of (member tool ''name'') of
             Some n \<Rightarrow> Some (n, as_object (coalesce (member tool ''input_schema'') (member tool ''parameters'')))
           | None \<Rightarrow>
               if member tool ''type'' = Some (JStr ''function'')
               then map_option (\<lambda>n. (n, as_object (data_key (member tool ''function'') ''parameters'')))
                 (str_of (data_key (member tool ''function'') ''name''))
               else None)
      | _ \<Rightarrow> None)"

definition toolSchemaMap :: "json \<Rightarrow> tool_map" where
  "toolSchemaMap requestBody =
     (case data_key (Some requestBody) ''tools'' of
        Some (JArr ts) \<Rightarrow> fold (\<lambda>t m. case tool_entry t of Some (n, schema) \<Rightarrow> jm_put n schema m | None \<Rightarrow> m) ts []
      | _ \<Rightarrow> [])"

text \<open>The map of a request holds exactly the tools it declares, in any of the three shapes, and the last declaration of a name
  wins.
\<close>

theorem declared_tools_found:
  "jm_get (toolSchemaMap (JObj body)) n =
     (case member body ''tools'' of Some (JArr ts) \<Rightarrow> map_of (rev (List.map_filter tool_entry ts)) n | _ \<Rightarrow> None)"
proof -
  have "jm_get (fold (\<lambda>t m. case tool_entry t of Some (n, schema) \<Rightarrow> jm_put n schema m | None \<Rightarrow> m) ts []) n =
      map_of (rev (List.map_filter tool_entry ts)) n" for ts
    by (induction ts rule: rev_induct) (auto simp: List.map_filter_def jm.get_put split: option.split)
  then show ?thesis by (simp add: toolSchemaMap_def split: option.split json.split)
qed

end
