(* ===== verification/Validator.thy ===== *)
theory Validator
  imports Message "HOL-Library.Char_ord" "HOL-Library.List_Lexorder"
begin

text \<open>
  The validation of an assistant message against the tools of its request (\<^verbatim>\<open>validator.ts\<close>). The schema compiler is a
  third-party package and a parameter: \<open>compile\<close> of a schema is \<open>None\<close> when the package refuses it, else the check it builds,
  which answers whether an input conforms and the errors it reports. The two caches hold what \<open>compile\<close> returned and are left
  out, and so is the prose of an error. \<^verbatim>\<open>JSON.stringify\<close> of a value that is not an object is a parameter. The name and the
  identifier of a tool block are strings, as its type says.
\<close>

section \<open>Data\<close>

datatype validation_kind = UnknownTool | InputNotObject | SchemaViolation | SchemaUncheckable | StopReasonMismatch

record validation_error =
  ve_kind :: validation_kind
  ve_blockIndex :: "nat option"
  ve_tool :: "string option"
  ve_path :: "string option"

record validation_result =
  vr_valid :: bool
  vr_errors :: "validation_error list"
  vr_toolUseCount :: nat
  vr_uncheckableCount :: nat

text \<open>A check: whether the input conforms, and the paths of the errors; the package reports at least one error when it does not.\<close>

type_synonym schema_check = "json \<Rightarrow> bool \<times> string list"
type_synonym schema_compiler = "json \<Rightarrow> schema_check option"

definition tool_name :: "json \<Rightarrow> string" where
  "tool_name b = (case str_of (data_key (Some b) ''name'') of Some n \<Rightarrow> n | None \<Rightarrow> [])"

section \<open>One tool block\<close>

text \<open>\<^verbatim>\<open>const { $schema, ...rest } = schema\<close>\<close>

definition compiledFor :: "schema_compiler \<Rightarrow> json \<Rightarrow> schema_check option" where
  "compiledFor compile schema = compile (JObj (filter (\<lambda>(k, v). k \<noteq> ''$schema'') (spread schema)))"

fun is_object :: "json option \<Rightarrow> bool" where
  "is_object (Some (JObj ms)) = True"
| "is_object v = False"

definition block_error :: "validation_kind \<Rightarrow> nat \<Rightarrow> string \<Rightarrow> string option \<Rightarrow> validation_error" where
  "block_error kind i tool path = \<lparr>ve_kind = kind, ve_blockIndex = Some i, ve_tool = Some tool, ve_path = path\<rparr>"

definition validateSingleToolBlock :: "schema_compiler \<Rightarrow> json \<Rightarrow> nat \<Rightarrow> tool_map \<Rightarrow> validation_error list \<times> bool" where
  "validateSingleToolBlock compile block i tools =
     (let name = tool_name block; input = data_key (Some block) ''input'' in
      case jm_get tools name of
        None \<Rightarrow> ([block_error UnknownTool i name None], False)
      | Some schema \<Rightarrow>
          if \<not> is_object input then ([block_error InputNotObject i name None], False)
          else (case schema of
              None \<Rightarrow> ([block_error SchemaUncheckable i name None], True)
            | Some s \<Rightarrow>
                (case compiledFor compile s of
                   None \<Rightarrow> ([block_error SchemaUncheckable i name None], True)
                 | Some check \<Rightarrow>
                     (let (ok, paths) = check (the input) in
                      (if ok then [] else map (\<lambda>p. block_error SchemaViolation i name (Some (if p = [] then ''/'' else p))) paths, False)))))"

section \<open>The message\<close>

fun validate_blocks :: "schema_compiler \<Rightarrow> tool_map \<Rightarrow> json list \<Rightarrow> nat \<Rightarrow> validation_error list \<times> nat \<times> nat" where
  "validate_blocks compile tools [] i = ([], 0, 0)"
| "validate_blocks compile tools (b # bs) i =
     (let (errors, uses, uncheckable) = validate_blocks compile tools bs (i + 1) in
      if \<not> isToolUseBlock b then (errors, uses, uncheckable)
      else (let (errs, un) = validateSingleToolBlock compile b i tools
            in (errs @ errors, uses + 1, (if un then uncheckable + 1 else uncheckable))))"

definition validate :: "schema_compiler \<Rightarrow> assistant_message \<Rightarrow> tool_map \<Rightarrow> validation_result" where
  "validate compile assistant tools =
     (let (errs, uses, uncheckable) = validate_blocks compile tools (am_content assistant) 0;
          errors = errs @ (if 0 < uses \<and> am_stop_reason assistant \<noteq> JStr ''tool_use''
            then [\<lparr>ve_kind = StopReasonMismatch, ve_blockIndex = None, ve_tool = None, ve_path = None\<rparr>] else [])
      in \<lparr>vr_valid = (errors = [] \<and> uncheckable = 0), vr_errors = errors, vr_toolUseCount = uses, vr_uncheckableCount = uncheckable\<rparr>)"

section \<open>The canonical text of a value\<close>

lemma member_size: "(k, v) \<in> set ms \<Longrightarrow> size v < size (JObj ms)"
proof (induction ms)
  case (Cons m ms)
  then show ?case by (cases m) (auto simp: less_Suc_eq_le)
qed simp

function stableStringify :: "(json \<Rightarrow> string) \<Rightarrow> json \<Rightarrow> string" where
  "stableStringify stringify v =
     (case v of
        JArr xs \<Rightarrow> ''['' @ join_with '','' (map (\<lambda>x. stableStringify stringify x) xs) @ '']''
      | JObj ms \<Rightarrow> ''{'' @ join_with '',''
          (map (\<lambda>(k, x). stringify (JStr k) @ '':'' @ stableStringify stringify x) (js_sort (\<lambda>a b. fst a \<le> fst b) ms)) @ ''}''
      | _ \<Rightarrow> stringify v)"
  by pat_completeness auto
termination
  by (relation "measure (\<lambda>(stringify, v). size v)") (auto dest: member_size simp: less_Suc_eq_le size_list_estimation')

declare stableStringify.simps [simp del]

section \<open>What a valid message is\<close>

text \<open>A tool call conforms: its tool is declared with a schema that compiles, and its input is an object the check accepts.\<close>

definition conforms :: "schema_compiler \<Rightarrow> tool_map \<Rightarrow> json \<Rightarrow> bool" where
  "conforms compile tools b \<longleftrightarrow>
     (case jm_get tools (tool_name b) of
        Some (Some s) \<Rightarrow> is_object (data_key (Some b) ''input'') \<and>
          (case compiledFor compile s of Some check \<Rightarrow> fst (check (the (data_key (Some b) ''input''))) | None \<Rightarrow> False)
      | _ \<Rightarrow> False)"

text \<open>The package's contract: a check that fails reports why.\<close>

definition reports_errors :: "schema_compiler \<Rightarrow> bool" where
  "reports_errors compile \<longleftrightarrow> (\<forall>s check v. compile s = Some check \<longrightarrow> \<not> fst (check v) \<longrightarrow> snd (check v) \<noteq> [])"

lemma single_block_conforms:
  assumes "reports_errors compile"
  shows "fst (validateSingleToolBlock compile b i tools) = [] \<longleftrightarrow> conforms compile tools b"
    and "snd (validateSingleToolBlock compile b i tools) \<Longrightarrow> fst (validateSingleToolBlock compile b i tools) \<noteq> []"
  using assms
  by (auto simp: validateSingleToolBlock_def conforms_def Let_def reports_errors_def compiledFor_def split: option.split prod.split)
     (metis fst_conv snd_conv)+

lemma validate_blocks_parts:
  "fst (validate_blocks compile tools (b # bs) i) =
     (if isToolUseBlock b then fst (validateSingleToolBlock compile b i tools) else []) @ fst (validate_blocks compile tools bs (i + 1))"
  "fst (snd (validate_blocks compile tools (b # bs) i)) =
     (if isToolUseBlock b then 1 else 0) + fst (snd (validate_blocks compile tools bs (i + 1)))"
  "snd (snd (validate_blocks compile tools (b # bs) i)) =
     (if isToolUseBlock b \<and> snd (validateSingleToolBlock compile b i tools) then 1 else 0) +
       snd (snd (validate_blocks compile tools bs (i + 1)))"
  by (simp_all add: Let_def split: prod.split)

lemma validate_blocks_conform:
  assumes "reports_errors compile"
  shows "fst (validate_blocks compile tools bs i) = [] \<longleftrightarrow> (\<forall>b\<in>set bs. isToolUseBlock b \<longrightarrow> conforms compile tools b)"
    and "fst (snd (validate_blocks compile tools bs i)) = length (filter isToolUseBlock bs)"
    and "0 < snd (snd (validate_blocks compile tools bs i)) \<Longrightarrow> fst (validate_blocks compile tools bs i) \<noteq> []"
proof (induction bs arbitrary: i)
  case (Cons b bs)
  note parts = validate_blocks_parts [of compile tools b bs] and single = single_block_conforms [OF assms, of b _ tools]
  {
    case 1
    show ?case unfolding parts using Cons.IH(1) single(1) by auto
  next
    case 2
    show ?case unfolding parts using Cons.IH(2) by simp
  next
    case 3
    then show ?case unfolding parts using Cons.IH(3) single(2) by (auto split: if_splits)
  }
qed simp_all

text \<open>C12. A message is valid exactly when every tool call in it names a declared tool whose schema compiles and has an object as input
  that the check accepts, and, when there is a tool call, the stop reason says so. The schema package is assumed to report an
  error whenever a check fails.
\<close>

theorem validation_exact:
  assumes "reports_errors compile"
  shows "vr_valid (validate compile m tools) \<longleftrightarrow>
    (\<forall>b\<in>set (am_content m). isToolUseBlock b \<longrightarrow> conforms compile tools b) \<and>
    ((\<exists>b\<in>set (am_content m). isToolUseBlock b) \<longrightarrow> am_stop_reason m = JStr ''tool_use'')"
proof -
  let ?r = "validate_blocks compile tools (am_content m) 0"
  have uses: "0 < fst (snd ?r) \<longleftrightarrow> (\<exists>b\<in>set (am_content m). isToolUseBlock b)"
    using validate_blocks_conform(2) [OF assms, of tools "am_content m" 0] by (auto simp: filter_empty_conv)
  have "vr_valid (validate compile m tools) \<longleftrightarrow>
      fst ?r = [] \<and> \<not> (0 < fst (snd ?r) \<and> am_stop_reason m \<noteq> JStr ''tool_use'') \<and> snd (snd ?r) = 0"
    by (auto simp: validate_def Let_def split: prod.split)
  then show ?thesis
    using validate_blocks_conform(1,3) [OF assms, of tools "am_content m" 0] uses by auto
qed

definition accept_all :: schema_compiler where
  "accept_all schema = Some (\<lambda>v. (True, []))"

definition one_call :: assistant_message where
  "one_call = \<lparr>am_id = None, am_model = None,
     am_content = [JObj [(''type'', JStr ''tool_use''), (''id'', JStr ''c''), (''name'', JStr ''ls''), (''input'', JObj [])]],
     am_stop_reason = JStr ''tool_use'', am_stop_sequence = None, am_usage = None\<rparr>"

theorem validation_exact_witness:
  "vr_valid (validate accept_all one_call [(''ls'', Some (JObj []))]) \<and> \<not> vr_valid (validate accept_all one_call [(''ls'', None)])"
  using validation_exact [of accept_all one_call "[(''ls'', Some (JObj []))]"] validation_exact [of accept_all one_call "[(''ls'', None)]"]
  by (simp add: reports_errors_def accept_all_def one_call_def conforms_def compiledFor_def tool_name_def isToolUseBlock_def)

text \<open>Only the content and the stop reason of a message are validated.\<close>

lemma validate_cong:
  "am_content m = am_content m' \<Longrightarrow> am_stop_reason m = am_stop_reason m' \<Longrightarrow> validate compile m tools = validate compile m' tools"
  by (simp add: validate_def)

end
