(* ===== verification/Repair.thy ===== *)
theory Repair
  imports Validator
begin

text \<open>
  The repair of a message that failed validation (\<^verbatim>\<open>repair.ts\<close>): the decoding of inputs that were encoded twice, the
  normalisation of the stop reason, the bounded loop over a reshaping model, and the guard over what the model returns. The
  model is a parameter, its answer at each attempt given by \<open>reshape\<close>; the caller's abort signal is read at \<open>aborted_before\<close>
  and \<open>aborted_after\<close> each attempt. \<^verbatim>\<open>JSON.parse\<close> is \<open>json_parse\<close>.
\<close>

section \<open>Decoding what the schema says was encoded\<close>

record schema_node =
  sn_type :: "string option"
  sn_properties :: "json option"
  sn_items :: "json option"

definition schemaNode :: "json option \<Rightarrow> schema_node option" where
  "schemaNode v =
     (if as_object v = None then None
      else Some \<lparr>sn_type = str_of (data_key v ''type''), sn_properties = as_object (data_key v ''properties''),
        sn_items = data_key v ''items''\<rparr>)"

fun is_array :: "json \<Rightarrow> bool" where
  "is_array (JArr xs) = True"
| "is_array v = False"

definition decodeIfSchemaSays :: "(string \<Rightarrow> json option) \<Rightarrow> string \<Rightarrow> schema_node option \<Rightarrow> json option" where
  "decodeIfSchemaSays json_parse value schema =
     (let want = Option.bind schema sn_type; trimmed = js_trim value in
      if want \<noteq> Some ''array'' \<and> want \<noteq> Some ''object'' then None
      else if \<not> (starts_with ''['' trimmed \<or> starts_with ''{'' trimmed) then None
      else (case json_parse trimmed of
          None \<Rightarrow> None
        | Some inner \<Rightarrow> if (if want = Some ''array'' then is_array inner else is_object (Some inner)) then Some inner else None))"

text \<open>The schema of the elements of an array, and of a property of an object; a tuple of item schemas is not followed.\<close>

definition items_schema :: "json option \<Rightarrow> json option" where
  "items_schema schemaRaw =
     (case Option.bind (schemaNode schemaRaw) sn_items of Some i \<Rightarrow> if is_array i then None else Some i | None \<Rightarrow> None)"

definition property_schema :: "json option \<Rightarrow> string \<Rightarrow> json option" where
  "property_schema schemaRaw key =
     (case Option.bind (schemaNode schemaRaw) sn_properties of Some props \<Rightarrow> member (spread props) key | None \<Rightarrow> None)"

lemma data_key_size: "data_key v k = Some c \<Longrightarrow> v \<noteq> None \<and> size c < size (the v)"
proof (induction v k rule: data_key.induct)
  case (1 ms k)
  then have "(k, c) \<in> set ms" by (simp add: member_def map_of_SomeD)
  then show ?case by (simp only: option.sel) (use member_size in blast)
qed simp_all

lemma spread_member_size: "as_object (Some v) \<noteq> None \<Longrightarrow> member (spread v) k = Some c \<Longrightarrow> size c < size v"
proof (cases v)
  case (JArr xs)
  assume "member (spread v) k = Some c"
  then have "c \<in> set xs" using JArr by (auto simp: member_def dest!: map_of_SomeD set_zip_rightD)
  then show ?thesis using JArr size_list_estimation' [of c xs "size c" size] by simp
next
  case (JObj ms)
  assume "member (spread v) k = Some c"
  then have "(k, c) \<in> set ms" using JObj by (simp add: member_def map_of_SomeD)
  then show ?thesis using JObj member_size by simp
qed simp_all

lemma as_object_same: "as_object v = Some w \<Longrightarrow> v = Some w"
  by (cases v rule: as_object.cases) simp_all

lemma items_schema_size: "items_schema s = Some c \<Longrightarrow> size_option size (Some c) < size_option size s"
  by (auto simp: items_schema_def schemaNode_def dest!: data_key_size split: option.splits if_splits)

lemma property_schema_size:
  assumes "property_schema s k = Some c"
  shows "size_option size (Some c) < size_option size s"
proof -
  obtain props where props: "as_object (data_key s ''properties'') = Some props" "member (spread props) k = Some c"
    using assms by (auto simp: property_schema_def schemaNode_def split: option.splits if_splits)
  then have "size c < size props" by (metis as_object_same option.distinct(1) spread_member_size)
  moreover have "s \<noteq> None \<and> size props < size (the s)" using as_object_same [OF props(1)] by (rule data_key_size)
  ultimately show ?thesis by auto
qed

text \<open>
  The node after decoding, and whether anything in it changed. The recursion follows the schema, so it ends whatever
  \<^verbatim>\<open>JSON.parse\<close> returns.
\<close>

function decodeInPlace :: "(string \<Rightarrow> json option) \<Rightarrow> json \<Rightarrow> json option \<Rightarrow> bool \<times> json" where
  "decodeInPlace json_parse node schemaRaw =
     (case node of
        JArr xs \<Rightarrow>
          (case items_schema schemaRaw of
             None \<Rightarrow> (False, node)
           | Some item \<Rightarrow>
               (let ys = map (\<lambda>v. case v of
                      JStr s \<Rightarrow> (case decodeIfSchemaSays json_parse s (schemaNode (Some item)) of
                          None \<Rightarrow> (False, v)
                        | Some d \<Rightarrow> (True, snd (decodeInPlace json_parse d (Some item))))
                    | _ \<Rightarrow> decodeInPlace json_parse v (Some item)) xs
                in (list_ex fst ys, JArr (map snd ys))))
      | JObj ms \<Rightarrow>
          (let ys = map (\<lambda>(key, v). (key,
                 case property_schema schemaRaw key of
                   None \<Rightarrow> (False, v)
                 | Some child \<Rightarrow>
                     (case v of
                        JStr s \<Rightarrow> (case decodeIfSchemaSays json_parse s (schemaNode (Some child)) of
                            None \<Rightarrow> (False, v)
                          | Some d \<Rightarrow> (True, snd (decodeInPlace json_parse d (Some child))))
                      | _ \<Rightarrow> decodeInPlace json_parse v (Some child)))) ms
           in (list_ex (\<lambda>(key, c, v). c) ys, JObj (map (\<lambda>(key, c, v). (key, v)) ys)))
      | _ \<Rightarrow> (False, node))"
  by pat_completeness auto
termination
  by (relation "measure (\<lambda>(p, v, s). size_option size s)") (auto dest: items_schema_size property_schema_size)

text \<open>\<^verbatim>\<open>{ ...block, input }\<close>; \<open>None\<close> when nothing changed.\<close>

definition decode_block :: "(string \<Rightarrow> json option) \<Rightarrow> tool_map \<Rightarrow> json \<Rightarrow> json option" where
  "decode_block json_parse tools block =
     (if \<not> isToolUseBlock block then None
      else
        (let input = data_key (Some block) ''input'';
             (blockChanged, input1) = (case input of
                 Some (JStr s) \<Rightarrow>
                   if starts_with ''{'' (js_trim s)
                   then (case json_parse (js_trim s) of
                       Some (JObj ms) \<Rightarrow> (True, Some (JObj ms))
                     | _ \<Rightarrow> (False, input))
                   else (False, input)
               | _ \<Rightarrow> (False, input));
             (inPlace, input2) = (case as_object input1 of
                 None \<Rightarrow> (False, input1)
               | Some v \<Rightarrow>
                   (let (c, w) = decodeInPlace json_parse v (case jm_get tools (tool_name block) of Some s \<Rightarrow> s | None \<Rightarrow> None)
                    in if c then (True, Some w) else (False, input1)))
         in if blockChanged \<or> inPlace then Some (JObj (jm_put ''input'' (the input2) (spread block))) else None))"

definition decodeDoubleEncodedInputs :: "(string \<Rightarrow> json option) \<Rightarrow> assistant_message \<Rightarrow> tool_map \<Rightarrow> assistant_message option" where
  "decodeDoubleEncodedInputs json_parse message tools =
     (let content = map (\<lambda>b. (b, decode_block json_parse tools b)) (am_content message)
      in if list_ex (\<lambda>(b, d). d \<noteq> None) content
         then Some (message\<lparr>am_content := map (\<lambda>(b, d). case d of Some b' \<Rightarrow> b' | None \<Rightarrow> b) content\<rparr>)
         else None)"

declare decodeInPlace.simps [simp del]

section \<open>The guard over the reshaped message\<close>

datatype repair_outcome = Fixed assistant_message | Failed | Refused | RefusedDestructive | Cancelled

fun primitive_value :: "json \<Rightarrow> bool" where
  "primitive_value (JBool b) = True"
| "primitive_value (JNum x) = True"
| "primitive_value (JStr s) = True"
| "primitive_value v = False"

definition block_conserved :: "(json \<Rightarrow> string) \<Rightarrow> json \<Rightarrow> json \<Rightarrow> bool" where
  "block_conserved stringify a b \<longleftrightarrow>
     (if isToolUseBlock a \<noteq> isToolUseBlock b then False
      else if isToolUseBlock a then data_key (Some a) ''id'' = data_key (Some b) ''id'' \<and> data_key (Some a) ''name'' = data_key (Some b) ''name''
      else if primitive_value a \<or> primitive_value b then a = b
      else stableStringify stringify a = stableStringify stringify b)"

definition conservesStructure :: "(json \<Rightarrow> string) \<Rightarrow> assistant_message \<Rightarrow> assistant_message \<Rightarrow> bool" where
  "conservesStructure stringify original candidate \<longleftrightarrow>
     list_all2 (block_conserved stringify) (am_content original) (am_content candidate)"

definition calls_destructive :: "(string \<Rightarrow> bool) \<Rightarrow> assistant_message \<Rightarrow> bool" where
  "calls_destructive isDestructive m \<longleftrightarrow> list_ex (\<lambda>b. isDestructive (tool_name b)) (filter isToolUseBlock (am_content m))"

definition guardReshaped :: "(json \<Rightarrow> string) \<Rightarrow> assistant_message \<Rightarrow> assistant_message \<Rightarrow> (string \<Rightarrow> bool) \<Rightarrow> repair_outcome option" where
  "guardReshaped stringify original candidate isDestructive =
     (if calls_destructive isDestructive candidate then Some RefusedDestructive
      else if conservesStructure stringify original candidate then None else Some Failed)"

definition withEnvelopeOf :: "assistant_message \<Rightarrow> assistant_message \<Rightarrow> assistant_message" where
  "withEnvelopeOf original repaired =
     \<lparr>am_id = am_id original, am_model = am_model original, am_content = am_content repaired,
      am_stop_reason = am_stop_reason repaired, am_stop_sequence = am_stop_sequence original, am_usage = am_usage original\<rparr>"

section \<open>The repair\<close>

text \<open>What one call of the reshaper does: it declines, answers a message, sees the caller gone, or throws.\<close>

datatype reshape_answer = Declined | Reshaped assistant_message | SawCancel | Threw

record repair_deps =
  rd_compile :: schema_compiler
  rd_parse :: "string \<Rightarrow> json option"
  rd_stringify :: "json \<Rightarrow> string"
  rd_reshape :: "nat \<Rightarrow> assistant_message \<Rightarrow> validation_error list \<Rightarrow> reshape_answer"
  rd_maxAttempts :: nat
  rd_isDestructive :: "string \<Rightarrow> bool"
  rd_aborted_before :: "nat \<Rightarrow> bool"
  rd_aborted_after :: "nat \<Rightarrow> bool"

function repair_loop :: "repair_deps \<Rightarrow> assistant_message \<Rightarrow> tool_map \<Rightarrow> nat \<Rightarrow> assistant_message \<Rightarrow> validation_error list \<Rightarrow> repair_outcome" where
  "repair_loop deps assistant tools attempt current errors =
     (if rd_maxAttempts deps \<le> attempt then Failed
      else if rd_aborted_before deps attempt then Cancelled
      else (case rd_reshape deps attempt current errors of
          SawCancel \<Rightarrow> Cancelled
        | Threw \<Rightarrow> if rd_aborted_after deps attempt then Cancelled else Failed
        | Declined \<Rightarrow> if rd_aborted_after deps attempt then Cancelled else Refused
        | Reshaped m \<Rightarrow>
            if rd_aborted_after deps attempt then Cancelled
            else (case guardReshaped (rd_stringify deps) assistant m (rd_isDestructive deps) of
                Some outcome \<Rightarrow> outcome
              | None \<Rightarrow>
                  (let check = validate (rd_compile deps) m tools in
                   if vr_valid check then Fixed (withEnvelopeOf assistant m)
                   else repair_loop deps assistant tools (attempt + 1) m (vr_errors check)))))"
  by pat_completeness auto
termination
  by (relation "measure (\<lambda>(deps, a, t, attempt, c, e). rd_maxAttempts deps - attempt)") auto

declare repair_loop.simps [simp del]

definition only_stop_reason :: "validation_error list \<Rightarrow> bool" where
  "only_stop_reason errors \<longleftrightarrow> errors \<noteq> [] \<and> list_all (\<lambda>e. ve_kind e = StopReasonMismatch) errors"

text \<open>The stop reason is normalised when it is all that is wrong; then the loop.\<close>

definition normalize_or_reshape ::
  "repair_deps \<Rightarrow> assistant_message \<Rightarrow> tool_map \<Rightarrow> assistant_message \<Rightarrow> validation_error list \<Rightarrow> repair_outcome" where
  "normalize_or_reshape deps assistant tools current errors =
     (if only_stop_reason errors
      then (let normalized = current\<lparr>am_stop_reason := JStr ''tool_use''\<rparr>; recheck = validate (rd_compile deps) normalized tools in
            if vr_valid recheck then Fixed normalized else repair_loop deps assistant tools 0 normalized (vr_errors recheck))
      else repair_loop deps assistant tools 0 current errors)"

definition repair :: "assistant_message \<Rightarrow> tool_map \<Rightarrow> repair_deps \<Rightarrow> bool \<Rightarrow> repair_outcome" where
  "repair assistant tools deps aborted =
     (if aborted then Cancelled
      else if calls_destructive (rd_isDestructive deps) assistant then RefusedDestructive
      else
        (let initial = validate (rd_compile deps) assistant tools in
         if 0 < vr_uncheckableCount initial then Failed
         else if vr_errors initial = [] then normalize_or_reshape deps assistant tools assistant []
         else (case decodeDoubleEncodedInputs (rd_parse deps) assistant tools of
             None \<Rightarrow> normalize_or_reshape deps assistant tools assistant (vr_errors initial)
           | Some decoded \<Rightarrow>
               (let recheck = validate (rd_compile deps) decoded tools in
                if vr_valid recheck then Fixed decoded
                else normalize_or_reshape deps assistant tools decoded (vr_errors recheck)))))"

section \<open>The destructive tools\<close>

definition ends_with_star :: "string \<Rightarrow> bool" where
  "ends_with_star p \<longleftrightarrow> p \<noteq> [] \<and> last p = CHR ''*''"

definition destructiveMatcher :: "string list \<Rightarrow> string \<Rightarrow> bool" where
  "destructiveMatcher namePatterns name =
     (let lows = map toLowerCase namePatterns;
          prefixes = map butlast (filter ends_with_star lows);
          exact = filter (\<lambda>p. \<not> ends_with_star p) lows;
          n = toLowerCase name
      in n \<in> set exact \<or> list_ex (\<lambda>p. 0 < length p \<and> starts_with p n) prefixes)"

end
