(* ===== verification/Repair_Props.thy ===== *)
theory Repair_Props
  imports Repair
begin

text \<open>
  What a repair may return: a valid message of the same structure and envelope, without a destructive call; and what the
  decoding of inputs does: it follows the schema, and one pass decodes everything there is to decode.
\<close>

section \<open>The structure is kept\<close>

lemma block_conserved_refl: "block_conserved stringify b b"
  by (simp add: block_conserved_def)

lemma decode_block_conserved:
  assumes "decode_block json_parse tools b = Some b'"
  shows "isToolUseBlock b'" and "isToolUseBlock b" and "data_key (Some b') ''id'' = data_key (Some b) ''id''"
    and "data_key (Some b') ''name'' = data_key (Some b) ''name''"
proof -
  show tool: "isToolUseBlock b" using assms by (simp add: decode_block_def split: if_splits)
  then obtain ms where b: "b = JObj ms" by (cases b) (simp_all add: isToolUseBlock_def)
  obtain v where b': "b' = JObj (jm_put ''input'' v ms)"
    using assms tool b by (auto simp: decode_block_def Let_def split: if_splits prod.splits)
  have "member (jm_put ''input'' v ms) k = member ms k" if "k \<noteq> ''input''" for k
    using that jm.get_put_other [of k "''input''" v ms] by (simp add: member_def jm_get_def)
  then show "isToolUseBlock b'" "data_key (Some b') ''id'' = data_key (Some b) ''id''"
    "data_key (Some b') ''name'' = data_key (Some b) ''name''"
    using tool b b' by (simp_all add: isToolUseBlock_def)
qed

lemma decoded_conserved:
  assumes "decodeDoubleEncodedInputs json_parse m tools = Some m'"
  shows "list_all2 (\<lambda>b b'. isToolUseBlock b = isToolUseBlock b' \<and> block_conserved stringify b b' \<and> tool_name b = tool_name b')
    (am_content m) (am_content m')"
proof -
  have m': "am_content m' = map (\<lambda>b. case decode_block json_parse tools b of Some b' \<Rightarrow> b' | None \<Rightarrow> b) (am_content m)"
    using assms by (auto simp: decodeDoubleEncodedInputs_def Let_def comp_def split: if_splits)
  have step: "isToolUseBlock b = isToolUseBlock c \<and> block_conserved stringify b c \<and> tool_name b = tool_name c"
    if "c = (case decode_block json_parse tools b of Some b' \<Rightarrow> b' | None \<Rightarrow> b)" for b c
  proof (cases "decode_block json_parse tools b")
    case None
    then show ?thesis using that by (simp add: block_conserved_refl)
  next
    case (Some b')
    then show ?thesis using that decode_block_conserved [OF Some] by (simp add: block_conserved_def tool_name_def)
  qed
  show ?thesis unfolding m' list_all2_map2 by (rule list.rel_refl_strong, rule step, rule refl)
qed

lemma calls_destructive_kept:
  "list_all2 (\<lambda>b b'. isToolUseBlock b = isToolUseBlock b' \<and> tool_name b = tool_name b') (am_content m) (am_content m') \<Longrightarrow>
   calls_destructive d m' = calls_destructive d m"
  unfolding calls_destructive_def by (induction rule: list_all2_induct) auto

definition same_envelope :: "assistant_message \<Rightarrow> assistant_message \<Rightarrow> bool" where
  "same_envelope m m' \<longleftrightarrow> am_id m' = am_id m \<and> am_model m' = am_model m \<and> am_stop_sequence m' = am_stop_sequence m \<and> am_usage m' = am_usage m"

definition acceptable :: "repair_deps \<Rightarrow> tool_map \<Rightarrow> assistant_message \<Rightarrow> assistant_message \<Rightarrow> bool" where
  "acceptable deps tools original m \<longleftrightarrow> vr_valid (validate (rd_compile deps) m tools) \<and>
     conservesStructure (rd_stringify deps) original m \<and> \<not> calls_destructive (rd_isDestructive deps) m \<and> same_envelope original m"

lemma loop_fixed: "repair_loop deps a tools attempt current errors = Fixed m \<Longrightarrow> acceptable deps tools a m"
proof (induction deps a tools attempt current errors rule: repair_loop.induct)
  case (1 deps a tools attempt current errors)
  have ok: "acceptable deps tools a (withEnvelopeOf a r)"
    if "guardReshaped (rd_stringify deps) a r (rd_isDestructive deps) = None" "vr_valid (validate (rd_compile deps) r tools)" for r
  proof -
    have "validate (rd_compile deps) (withEnvelopeOf a r) tools = validate (rd_compile deps) r tools"
      by (rule validate_cong) (simp_all add: withEnvelopeOf_def)
    then show ?thesis using that
      by (simp add: acceptable_def guardReshaped_def conservesStructure_def calls_destructive_def same_envelope_def withEnvelopeOf_def
          split: if_splits)
  qed
  have guard: "guardReshaped s a r d \<noteq> Some (Fixed m)" for s r d by (simp add: guardReshaped_def)
  show ?case using "1.prems" "1.IH" ok guard
    by (subst (asm) repair_loop.simps) (auto simp: Let_def split: if_splits reshape_answer.splits option.splits)
qed

lemma normalized_fixed:
  assumes "conservesStructure (rd_stringify deps) a c" and "\<not> calls_destructive (rd_isDestructive deps) c" and "same_envelope a c"
    and "normalize_or_reshape deps a tools c errors = Fixed m"
  shows "acceptable deps tools a m"
proof (cases "only_stop_reason errors \<and> vr_valid (validate (rd_compile deps) (c\<lparr>am_stop_reason := JStr ''tool_use''\<rparr>) tools)")
  case True
  then have "m = c\<lparr>am_stop_reason := JStr ''tool_use''\<rparr>" using assms(4) by (simp add: normalize_or_reshape_def Let_def)
  then show ?thesis using assms(1-3) True
    by (simp add: acceptable_def conservesStructure_def calls_destructive_def same_envelope_def)
next
  case False
  then show ?thesis using assms(4) loop_fixed by (auto simp: normalize_or_reshape_def Let_def split: if_splits)
qed

text \<open>C11. A message that the repair returns as fixed is valid against the tools, has the blocks of the original in their order (each
  tool call with its identifier and name, every other block with its canonical text), calls no destructive tool, and carries the
  identity, the model, the stop sequence and the usage of the original, whatever the reshaping model answers.
\<close>

theorem repair_fixed_safe:
  assumes "repair a tools deps aborted = Fixed m"
  shows "vr_valid (validate (rd_compile deps) m tools) \<and> conservesStructure (rd_stringify deps) a m \<and>
    \<not> calls_destructive (rd_isDestructive deps) m \<and>
    am_id m = am_id a \<and> am_model m = am_model a \<and> am_stop_sequence m = am_stop_sequence a \<and> am_usage m = am_usage a"
proof -
  have not_destructive: "\<not> calls_destructive (rd_isDestructive deps) a" using assms by (auto simp: repair_def split: if_splits)
  have start: "conservesStructure (rd_stringify deps) a a"
    by (simp add: conservesStructure_def list.rel_refl block_conserved_refl)
  have "acceptable deps tools a m"
  proof (cases "\<exists>errors. normalize_or_reshape deps a tools a errors = Fixed m")
    case True
    then show ?thesis using normalized_fixed [OF start not_destructive] by (auto simp: same_envelope_def)
  next
    case False
    then obtain c where dec: "decodeDoubleEncodedInputs (rd_parse deps) a tools = Some c"
      and out: "(vr_valid (validate (rd_compile deps) c tools) \<and> m = c) \<or> (\<exists>errors. normalize_or_reshape deps a tools c errors = Fixed m)"
      using assms by (auto simp: repair_def Let_def split: if_splits option.splits)
    have c: "conservesStructure (rd_stringify deps) a c"
      using decoded_conserved [OF dec, of "rd_stringify deps"] by (auto simp: conservesStructure_def elim: list_all2_mono)
    have d: "\<not> calls_destructive (rd_isDestructive deps) c"
      using calls_destructive_kept [OF list_all2_mono [OF decoded_conserved [OF dec, of "rd_stringify deps"]]] not_destructive by auto
    have e: "same_envelope a c" using dec by (auto simp: decodeDoubleEncodedInputs_def Let_def same_envelope_def split: if_splits)
    show ?thesis using out normalized_fixed [OF c d e] c d e by (auto simp: acceptable_def)
  qed
  then show ?thesis by (simp add: acceptable_def same_envelope_def)
qed


section \<open>What decoding does\<close>

text \<open>
  \<open>decoded s v w\<close>: under the schema \<open>s\<close>, \<open>w\<close> is \<open>v\<close> with some texts replaced by the values they encode, each where
  the schema wants an array or an object and the value is one.
\<close>

inductive decoded :: "(string \<Rightarrow> json option) \<Rightarrow> json option \<Rightarrow> json \<Rightarrow> json \<Rightarrow> bool" for p where
  same: "decoded p s v v"
| str: "decodeIfSchemaSays p t (schemaNode s) = Some d \<Longrightarrow> decoded p s d w \<Longrightarrow> decoded p s (JStr t) w"
| arr: "items_schema s = Some item \<Longrightarrow> list_all2 (decoded p (Some item)) xs ys \<Longrightarrow> decoded p s (JArr xs) (JArr ys)"
| obj: "list_all2 (\<lambda>m n. fst m = fst n \<and>
      (snd m = snd n \<or> (\<exists>child. property_schema s (fst m) = Some child \<and> decoded p (Some child) (snd m) (snd n)))) ms ns \<Longrightarrow>
    decoded p s (JObj ms) (JObj ns)"

text \<open>One element or member, as both branches of the code treat it.\<close>

definition decode_value :: "(string \<Rightarrow> json option) \<Rightarrow> json \<Rightarrow> json \<Rightarrow> bool \<times> json" where
  "decode_value p v child =
     (case v of
        JStr s \<Rightarrow> (case decodeIfSchemaSays p s (schemaNode (Some child)) of
            None \<Rightarrow> (False, v)
          | Some d \<Rightarrow> (True, snd (decodeInPlace p d (Some child))))
      | _ \<Rightarrow> decodeInPlace p v (Some child))"

definition decode_member :: "(string \<Rightarrow> json option) \<Rightarrow> json option \<Rightarrow> string \<Rightarrow> json \<Rightarrow> bool \<times> json" where
  "decode_member p s k v = (case property_schema s k of None \<Rightarrow> (False, v) | Some child \<Rightarrow> decode_value p v child)"

lemma decodeInPlace_arr:
  "decodeInPlace p (JArr xs) s = (case items_schema s of None \<Rightarrow> (False, JArr xs)
     | Some item \<Rightarrow> (list_ex (\<lambda>v. fst (decode_value p v item)) xs, JArr (map (\<lambda>v. snd (decode_value p v item)) xs)))"
  by (simp add: decodeInPlace.simps [of p "JArr xs" s] decode_value_def [abs_def] list_ex_iff comp_def split: option.split)

lemma decode_member_unfold:
  "(case property_schema s k of None \<Rightarrow> (False, v) | Some child \<Rightarrow>
     (case v of
        JStr s \<Rightarrow> (case decodeIfSchemaSays p s (schemaNode (Some child)) of
            None \<Rightarrow> (False, v)
          | Some d \<Rightarrow> (True, snd (decodeInPlace p d (Some child))))
      | _ \<Rightarrow> decodeInPlace p v (Some child))) = decode_member p s k v"
  by (simp add: decode_member_def decode_value_def split: option.split)

lemma decodeInPlace_obj:
  "decodeInPlace p (JObj ms) s = (list_ex (\<lambda>(k, v). fst (decode_member p s k v)) ms, JObj (map (\<lambda>(k, v). (k, snd (decode_member p s k v))) ms))"
  by (subst decodeInPlace.simps) (simp add: decode_member_unfold list_ex_iff comp_def case_prod_unfold)

lemma decodeInPlace_other: "as_object (Some v) = None \<Longrightarrow> decodeInPlace p v s = (False, v)"
  by (cases v) (simp_all add: decodeInPlace.simps)

lemma decodeIfSchemaSays_object: "decodeIfSchemaSays p t n = Some d \<Longrightarrow> as_object (Some d) \<noteq> None"
  by (cases d) (auto simp: decodeIfSchemaSays_def Let_def split: if_splits option.splits)

lemma decodeInPlace_object: "as_object (Some (snd (decodeInPlace p v s))) = None \<longleftrightarrow> as_object (Some v) = None"
  by (cases v) (simp_all add: decodeInPlace_arr decodeInPlace_obj decodeInPlace_other split: option.split)

lemma decode_value_object: "as_object (Some v) \<noteq> None \<Longrightarrow> decode_value p v c = decodeInPlace p v (Some c)"
  by (cases v) (simp_all add: decode_value_def)

lemma property_smaller: "property_schema s k = Some c \<Longrightarrow> size_option size (Some c) < size_option size s"
  by (rule property_schema_size)

text \<open>A claim about every value under a schema follows from the same claim about the smaller schemas.\<close>

lemma schema_induct:
  assumes "\<And>s v. (\<And>c w. size_option size (Some c) < size_option size s \<Longrightarrow> P (Some c) w) \<Longrightarrow> P s v"
  shows "P s v"
proof (induction s arbitrary: v rule: measure_induct_rule [of "size_option size"])
  case (less s)
  show ?case by (rule assms) (rule less)
qed

lemma decodeInPlace_changed: "fst (decodeInPlace p v s) \<longleftrightarrow> snd (decodeInPlace p v s) \<noteq> v"
proof (induction s v rule: schema_induct)
  case (1 s v)
  have val: "fst (decode_value p w c) \<longleftrightarrow> snd (decode_value p w c) \<noteq> w"
    if "size_option size (Some c) < size_option size s" for w c
  proof (cases w)
    case (JStr t)
    show ?thesis
    proof (cases "decodeIfSchemaSays p t (schemaNode (Some c))")
      case (Some d)
      have "as_object (Some (snd (decodeInPlace p d (Some c)))) \<noteq> None"
        using decodeIfSchemaSays_object [OF Some] by (simp add: decodeInPlace_object)
      then have "snd (decodeInPlace p d (Some c)) \<noteq> JStr t" by auto
      then show ?thesis using JStr Some by (simp add: decode_value_def)
    qed (use JStr in \<open>simp add: decode_value_def\<close>)
  qed (use 1 [OF that] in \<open>simp_all add: decode_value_def\<close>)
  show ?case
  proof (cases v)
    case (JArr xs)
    show ?thesis
    proof (cases "items_schema s")
      case (Some item)
      have "(list_ex (\<lambda>v. fst (decode_value p v item)) xs) \<longleftrightarrow> map (\<lambda>v. snd (decode_value p v item)) xs \<noteq> xs"
        using val [OF items_schema_size [OF Some]] by (induction xs) auto
      then show ?thesis using JArr Some by (simp add: decodeInPlace_arr)
    qed (use JArr in \<open>simp add: decodeInPlace_arr\<close>)
  next
    case (JObj ms)
    have "fst (decode_member p s k w) \<longleftrightarrow> snd (decode_member p s k w) \<noteq> w" for k w
      using val [OF property_schema_size] by (simp add: decode_member_def split: option.split)
    then have "(list_ex (\<lambda>(k, v). fst (decode_member p s k v)) ms) \<longleftrightarrow> map (\<lambda>(k, v). (k, snd (decode_member p s k v))) ms \<noteq> ms"
      by (induction ms) auto
    then show ?thesis using JObj by (simp add: decodeInPlace_obj)
  qed (simp_all add: decodeInPlace_other)
qed

text \<open>Decoding follows the schema: the node that comes back is the old one with some texts replaced by the values they encode,
  each at a place where the schema wants an array or an object and the value is one; and it reports a change exactly when
  something changed.
\<close>

theorem decoding_follows_schema:
  "decoded p s v (snd (decodeInPlace p v s)) \<and> (fst (decodeInPlace p v s) \<longleftrightarrow> snd (decodeInPlace p v s) \<noteq> v)"
proof -
  have "decoded p s v (snd (decodeInPlace p v s))"
  proof (induction s v rule: schema_induct)
    case (1 s v)
    have val: "decoded p (Some c) w (snd (decode_value p w c))" if "size_option size (Some c) < size_option size s" for w c
      using 1 [OF that] by (cases w) (auto simp: decode_value_def intro: decoded.same decoded.str split: option.split)
    show ?case
    proof (cases v)
      case (JArr xs)
      then show ?thesis using val [OF items_schema_size]
        by (auto simp: decodeInPlace_arr list_all2_map2 intro!: decoded.same decoded.arr list.rel_refl_strong split: option.split)
    next
      case (JObj ms)
      have "w = snd (decode_member p s k w) \<or>
          (\<exists>child. property_schema s k = Some child \<and> decoded p (Some child) w (snd (decode_member p s k w)))" for k w
        using val [OF property_schema_size] by (auto simp: decode_member_def split: option.split)
      then show ?thesis using JObj
        by (auto simp: decodeInPlace_obj list_all2_map2 case_prod_unfold intro!: decoded.obj list.rel_refl_strong) metis
    qed (simp_all add: decodeInPlace_other decoded.same)
  qed
  then show ?thesis using decodeInPlace_changed by blast
qed

text \<open>One pass decodes everything: decoding the node that came back changes nothing.
\<close>

theorem decoding_is_complete:
  "decodeInPlace p (snd (decodeInPlace p v s)) s = (False, snd (decodeInPlace p v s))"
proof -
  have "\<not> fst (decodeInPlace p (snd (decodeInPlace p v s)) s)"
  proof (induction s v rule: schema_induct)
    case (1 s v)
    have val: "\<not> fst (decode_value p (snd (decode_value p w c)) c)" if "size_option size (Some c) < size_option size s" for w c
    proof (cases "as_object (Some w) = None")
      case True
      show ?thesis
      proof (cases "\<exists>t d. w = JStr t \<and> decodeIfSchemaSays p t (schemaNode (Some c)) = Some d")
        case True
        then obtain t d where w: "w = JStr t" "decodeIfSchemaSays p t (schemaNode (Some c)) = Some d" by blast
        have "as_object (Some (snd (decodeInPlace p d (Some c)))) \<noteq> None"
          using decodeIfSchemaSays_object [OF w(2)] by (simp add: decodeInPlace_object)
        then show ?thesis using w 1 [OF that, of d] by (simp add: decode_value_def [of p "JStr t"] decode_value_object)
      next
        case False
        then have "decode_value p w c = (False, w)" using True
          by (cases w) (auto simp: decode_value_def decodeInPlace_other split: option.split)
        then show ?thesis by simp
      qed
    next
      case False
      then have "as_object (Some (snd (decodeInPlace p w (Some c)))) \<noteq> None" by (simp add: decodeInPlace_object)
      then show ?thesis using False 1 [OF that, of w] by (simp add: decode_value_object)
    qed
    show ?case
    proof (cases v)
      case (JArr xs)
      then show ?thesis using val [OF items_schema_size]
        by (auto simp: decodeInPlace_arr list_ex_iff split: option.split)
    next
      case (JObj ms)
      have "\<not> fst (decode_member p s k (snd (decode_member p s k w)))" for k w
        using val [OF property_schema_size] by (simp add: decode_member_def split: option.split)
      then show ?thesis using JObj by (auto simp: decodeInPlace_obj list_ex_iff)
    qed (simp_all add: decodeInPlace_other)
  qed
  then show ?thesis using decodeInPlace_changed [of p "snd (decodeInPlace p v s)" s] by (simp add: prod_eq_iff)
qed

section \<open>An example\<close>

definition paths_tools :: tool_map where
  "paths_tools = toolSchemaMap (JObj [(''tools'', JArr [JObj [(''name'', JStr ''ls''), (''input_schema'',
     JObj [(''type'', JStr ''object''), (''properties'', JObj [(''paths'', JObj [(''type'', JStr ''array'')])])])]])])"

definition paths_call :: "json \<Rightarrow> assistant_message" where
  "paths_call paths = \<lparr>am_id = Some ''m1'', am_model = None,
     am_content = [JObj [(''type'', JStr ''tool_use''), (''id'', JStr ''c1''), (''name'', JStr ''ls''), (''input'', JObj [(''paths'', paths)])]],
     am_stop_reason = JStr ''tool_use'', am_stop_sequence = None, am_usage = None\<rparr>"

definition paths_check :: schema_compiler where
  "paths_check schema = Some (\<lambda>v. case data_key (Some v) ''paths'' of Some (JArr xs) \<Rightarrow> (True, []) | _ \<Rightarrow> (False, [''/paths'']))"

definition paths_deps :: repair_deps where
  "paths_deps = \<lparr>rd_compile = paths_check, rd_parse = (\<lambda>t. if t = ''[]'' then Some (JArr []) else None), rd_stringify = (\<lambda>v. []),
     rd_reshape = (\<lambda>n m es. Declined), rd_maxAttempts = 1, rd_isDestructive = destructiveMatcher [''rm*''],
     rd_aborted_before = (\<lambda>n. False), rd_aborted_after = (\<lambda>n. False)\<rparr>"

lemma paths_repaired: "repair (paths_call (JStr ''[]'')) paths_tools paths_deps False = Fixed (paths_call (JArr []))"
  by code_simp

theorem repair_fixed_safe_witness:
  "vr_valid (validate paths_check (paths_call (JArr [])) paths_tools) \<and>
   conservesStructure (\<lambda>v. []) (paths_call (JStr ''[]'')) (paths_call (JArr [])) \<and>
   \<not> calls_destructive (destructiveMatcher [''rm*'']) (paths_call (JArr []))"
  using repair_fixed_safe [OF paths_repaired] by (simp add: paths_deps_def)

end
