(* ===== verification/Session_Pin.thy ===== *)
theory Session_Pin
  imports JsData
begin

text \<open>
  Sticky sessions (\<^verbatim>\<open>session-pin.ts\<close>): the bounded, sliding-expiry map from a session to the target that served it,
  and the derivation of a session's key. A clock reading is an argument; \<open>digest\<close> stands for the hexadecimal SHA-256 of a
  text; a character is a code unit below 256.
\<close>

section \<open>The pins\<close>

record session_pin =
  sp_targetSpec :: string
  sp_pinnedAt :: rat
  sp_lastUsedAt :: rat
  sp_useCount :: nat

record sticky_sessions =
  ss_pins :: "(string, session_pin) jmap"
  ss_ttlMs :: rat
  ss_maxSessions :: nat

definition new_sessions :: "rat option \<Rightarrow> nat option \<Rightarrow> sticky_sessions" where
  "new_sessions ttl cap = \<lparr>ss_pins = [], ss_ttlMs = (case ttl of None \<Rightarrow> 1800000 | Some t \<Rightarrow> t),
     ss_maxSessions = (case cap of None \<Rightarrow> 1000 | Some m \<Rightarrow> m)\<rparr>"

definition pin_expired :: "sticky_sessions \<Rightarrow> rat \<Rightarrow> session_pin \<Rightarrow> bool" where
  "pin_expired s now p \<longleftrightarrow> ss_ttlMs s < now - sp_lastUsedAt p"

definition getPin :: "string \<Rightarrow> rat \<Rightarrow> sticky_sessions \<Rightarrow> sticky_sessions \<times> string option" where
  "getPin key now s =
     (case jm_get (ss_pins s) key of
        None \<Rightarrow> (s, None)
      | Some p \<Rightarrow>
          if pin_expired s now p then (s\<lparr>ss_pins := jm_del key (ss_pins s)\<rparr>, None)
          else (s\<lparr>ss_pins := jm_put key (p\<lparr>sp_lastUsedAt := now, sp_useCount := sp_useCount p + 1\<rparr>) (ss_pins s)\<rparr>,
                Some (sp_targetSpec p)))"

text \<open>The excess is counted and the entries are sorted before the first deletion.\<close>

definition prune_pins :: "rat \<Rightarrow> sticky_sessions \<Rightarrow> sticky_sessions" where
  "prune_pins now s =
     (if length (ss_pins s) \<le> ss_maxSessions s then s
      else
        (let live = filter (\<lambda>(k, p). \<not> pin_expired s now p) (ss_pins s) in
         if length live \<le> ss_maxSessions s then s\<lparr>ss_pins := live\<rparr>
         else
           (let oldest = js_sort (\<lambda>a b. sp_lastUsedAt (snd a) \<le> sp_lastUsedAt (snd b)) live;
                excess = length live - ss_maxSessions s in
            s\<lparr>ss_pins := fold (\<lambda>(k, p). jm_del k) (take excess oldest) live\<rparr>)))"

definition setPin :: "string \<Rightarrow> string \<Rightarrow> rat \<Rightarrow> sticky_sessions \<Rightarrow> sticky_sessions" where
  "setPin key spec now s =
     (if key = [] \<or> spec = [] then s
      else prune_pins now (s\<lparr>ss_pins := jm_put key
        \<lparr>sp_targetSpec = spec, sp_pinnedAt = now, sp_lastUsedAt = now, sp_useCount = 1\<rparr> (ss_pins s)\<rparr>))"

definition deletePin :: "string \<Rightarrow> sticky_sessions \<Rightarrow> sticky_sessions" where
  "deletePin key s = s\<lparr>ss_pins := jm_del key (ss_pins s)\<rparr>"

definition clearPins :: "sticky_sessions \<Rightarrow> sticky_sessions" where
  "clearPins s = s\<lparr>ss_pins := []\<rparr>"

section \<open>The key of a session\<close>

datatype header_value = OneValue string | ManyValues "string list" | NoValue

definition normalizedHeader :: "(string \<times> header_value) list \<Rightarrow> string \<Rightarrow> string option" where
  "normalizedHeader headers name =
     (let raw = map_option snd (find (\<lambda>(h, v). toLowerCase h = name) headers);
          value = (case raw of Some (ManyValues (v # vs)) \<Rightarrow> Some v | Some (OneValue v) \<Rightarrow> Some v | _ \<Rightarrow> None) in
      case value of None \<Rightarrow> None | Some v \<Rightarrow> if js_trim v = [] then None else Some (js_trim v))"

definition nonEmpty :: "string \<Rightarrow> string option" where
  "nonEmpty text = (if js_trim text = [] then None else Some (js_trim text))"

definition json_member :: "json \<Rightarrow> string \<Rightarrow> json option" where
  "json_member v name = (case v of JObj row \<Rightarrow> member row name | _ \<Rightarrow> None)"

definition text_part :: "json \<Rightarrow> string option" where
  "text_part block =
     (case (json_member block ''type'', json_member block ''text'') of
        (Some (JStr t), Some (JStr text)) \<Rightarrow>
          if t \<noteq> ''text'' \<and> t \<noteq> ''input_text'' then None
          else if js_trim text = [] \<or> take 17 (trimStart text) = ''<system-reminder>'' then None
          else Some text
      | _ \<Rightarrow> None)"

fun join_lines :: "string list \<Rightarrow> string" where
  "join_lines [] = []"
| "join_lines [p] = p"
| "join_lines (p # ps) = p @ [CHR 0x0A] @ join_lines ps"

fun contentText :: "json option \<Rightarrow> string option" where
  "contentText (Some (JStr s)) = nonEmpty s"
| "contentText (Some (JArr blocks)) =
     (let parts = List.map_filter text_part blocks in if parts = [] then None else nonEmpty (join_lines parts))"
| "contentText v = None"

definition firstUserMessageText :: "json option \<Rightarrow> string option" where
  "firstUserMessageText v =
     (case v of
        Some (JArr items) \<Rightarrow>
          (case find (\<lambda>item. json_member item ''role'' = Some (JStr ''user'')) items of
             None \<Rightarrow> None
           | Some item \<Rightarrow> contentText (json_member item ''content''))
      | _ \<Rightarrow> None)"

definition firstUserText :: "json option \<Rightarrow> string option" where
  "firstUserText reqJson =
     (case reqJson of
        None \<Rightarrow> None
      | Some body \<Rightarrow>
          (case firstUserMessageText (json_member body ''messages'') of
             Some t \<Rightarrow> Some t
           | None \<Rightarrow>
               (case json_member body ''input'' of
                  Some (JStr s) \<Rightarrow> nonEmpty s
                | v \<Rightarrow> firstUserMessageText v)))"

definition compound :: "string \<Rightarrow> string option \<Rightarrow> string" where
  "compound base agentId = (case agentId of None \<Rightarrow> base | Some a \<Rightarrow> if a = [] then base else base @ ''::'' @ a)"

definition deriveSessionKey :: "(string \<Rightarrow> string) \<Rightarrow> (string \<times> header_value) list \<Rightarrow> json option \<Rightarrow> string option" where
  "deriveSessionKey digest headers reqJson =
     (let agentId = normalizedHeader headers ''x-claude-code-agent-id'' in
      case normalizedHeader headers ''x-llm-relay-session'' of
        Some explicit \<Rightarrow> Some (compound (''hdr:'' @ explicit) agentId)
      | None \<Rightarrow> (case firstUserText reqJson of
            None \<Rightarrow> None
          | Some text \<Rightarrow> Some (compound (''msg:'' @ take 16 (digest text)) agentId)))"

section \<open>The bound and the memory\<close>

datatype pin_call = GetPin string rat | SetPin string string rat | DeletePin string | ClearPins

fun pin_step :: "pin_call \<Rightarrow> sticky_sessions \<Rightarrow> sticky_sessions" where
  "pin_step (GetPin k now) s = fst (getPin k now s)"
| "pin_step (SetPin k spec now) s = setPin k spec now s"
| "pin_step (DeletePin k) s = deletePin k s"
| "pin_step ClearPins s = clearPins s"

definition pins_ok :: "sticky_sessions \<Rightarrow> bool" where
  "pins_ok s \<longleftrightarrow> jm_ok (ss_pins s) \<and> length (ss_pins s) \<le> ss_maxSessions s"

lemma length_keys: "length m = length (jm_keys m)"
  by (simp add: jm_keys_def)

lemma jm_ok_filter: "jm_ok m \<Longrightarrow> jm_ok (filter P m)"
  unfolding jm_ok_def by (rule distinct_map_filter)

lemma del_all_filter:
  "jm_ok m \<Longrightarrow> fold (\<lambda>(k, p). jm_del k) xs m = filter (\<lambda>(k, p). k \<notin> fst ` set xs) m"
proof (induction xs arbitrary: m)
  case (Cons x xs)
  have "jm_del (fst x) m = filter (\<lambda>(k, p). k \<noteq> fst x) m"
    by (induction m) (auto simp: jm_del_def)
  then show ?case using Cons.IH [of "jm_del (fst x) m"] Cons.prems jm.ok_del [of m "fst x"]
    by (auto simp: case_prod_unfold intro!: filter_cong)
qed (auto simp: case_prod_unfold intro: filter_True [symmetric])

lemma filter_not_taken: "distinct (map fst xs) \<Longrightarrow> filter (\<lambda>(k, p). k \<notin> fst ` set (take n xs)) xs = drop n xs"
proof -
  assume d: "distinct (map fst xs)"
  then have dis: "fst ` set (take n xs) \<inter> fst ` set (drop n xs) = {}"
    by (metis append_take_drop_id distinct_append map_append set_map)
  let ?P = "\<lambda>(k, p). k \<notin> fst ` set (take n xs)"
  have "filter ?P (take n xs) = []" by (force simp: filter_empty_conv)
  moreover have "filter ?P (drop n xs) = drop n xs" 
  proof (rule filter_True, rule ballI)
    fix x assume "x \<in> set (drop n xs)"
    then have "fst x \<in> fst ` set (drop n xs)" by simp
    then have "fst x \<notin> fst ` set (take n xs)" using dis by blast
    then show "?P x" by (simp add: case_prod_unfold)
  qed
  ultimately have "filter ?P (take n xs @ drop n xs) = drop n xs" by (simp only: filter_append append_Nil)
  then show ?thesis by (simp only: append_take_drop_id)
qed

text \<open>Evicting the oldest entries leaves the newest, in their order of insertion.\<close>

lemma evict_length:
  assumes "jm_ok m" and "mset oldest = mset m"
  shows "length (fold (\<lambda>(k, p). jm_del k) (take n oldest) m) = length m - n"
proof -
  have "distinct (map fst oldest)"
    using assms by (metis jm_ok_def mset_eq_imp_distinct_iff mset_map)
  then have "length (filter (\<lambda>(k, p). k \<notin> fst ` set (take n oldest)) oldest) = length oldest - n"
    by (simp add: filter_not_taken)
  moreover have "length (filter P m) = length (filter P oldest)" for P
    by (metis assms(2) mset_filter size_mset)
  ultimately show ?thesis by (simp add: del_all_filter [OF assms(1)]) (metis assms(2) size_mset)
qed

lemma jm_ok_evict: "jm_ok m \<Longrightarrow> jm_ok (fold (\<lambda>(k, p). jm_del k) xs m)"
  by (simp add: del_all_filter jm_ok_filter)

lemma prune_ok: "jm_ok (ss_pins s) \<Longrightarrow> pins_ok (prune_pins now s) \<and> ss_maxSessions (prune_pins now s) = ss_maxSessions s"
  by (auto simp: prune_pins_def pins_ok_def Let_def jm_ok_filter jm_ok_evict evict_length)

lemma pin_step_ok: "pins_ok s \<Longrightarrow> pins_ok (pin_step c s) \<and> ss_maxSessions (pin_step c s) = ss_maxSessions s"
proof (induction c s rule: pin_step.induct)
  case (1 k now s)
  then show ?case
    using jm.keys_put [of k _ "ss_pins s"] jm.keys_del [of k "ss_pins s"] jm.get_keys [of "ss_pins s" k]
    by (auto simp: pins_ok_def getPin_def length_keys jm.ok_put jm.ok_del split: option.splits
        intro: order.trans [OF length_filter_le])
next
  case (2 k spec now s)
  let ?s = "s\<lparr>ss_pins := jm_put k \<lparr>sp_targetSpec = spec, sp_pinnedAt = now, sp_lastUsedAt = now, sp_useCount = 1\<rparr> (ss_pins s)\<rparr>"
  have "pins_ok (prune_pins now ?s) \<and> ss_maxSessions (prune_pins now ?s) = ss_maxSessions s"
    using prune_ok [of ?s now] 2 by (simp add: pins_ok_def jm.ok_put)
  then show ?case using 2 by (simp add: setPin_def)
next
  case (3 k s)
  then show ?case using jm.keys_del [of k "ss_pins s"]
    by (auto simp: pins_ok_def deletePin_def length_keys jm.ok_del intro: order.trans [OF length_filter_le])
qed (simp add: pins_ok_def clearPins_def)

text \<open>However many sessions come, no more than \<open>maxSessions\<close> pins are kept, one for a key.\<close>

theorem pins_bounded:
  "length (ss_pins (fold pin_step calls (new_sessions ttl cap))) \<le> (case cap of None \<Rightarrow> 1000 | Some m \<Rightarrow> m) \<and>
   distinct (map fst (ss_pins (fold pin_step calls (new_sessions ttl cap))))"
proof -
  have "pins_ok (fold pin_step calls s) \<and> ss_maxSessions (fold pin_step calls s) = ss_maxSessions s" if "pins_ok s" for s
    using that by (induction calls arbitrary: s) (auto simp: pin_step_ok)
  from this [of "new_sessions ttl cap"]
  have "pins_ok (fold pin_step calls (new_sessions ttl cap)) \<and>
      ss_maxSessions (fold pin_step calls (new_sessions ttl cap)) = ss_maxSessions (new_sessions ttl cap)"
    by (simp add: pins_ok_def new_sessions_def)
  moreover have "ss_maxSessions (new_sessions ttl cap) = (case cap of None \<Rightarrow> 1000 | Some m \<Rightarrow> m)"
    by (simp add: new_sessions_def)
  ultimately show ?thesis unfolding pins_ok_def jm_ok_def by simp
qed

lemma get_evicted:
  "jm_ok m \<Longrightarrow> k \<notin> fst ` set xs \<Longrightarrow> jm_get (fold (\<lambda>(k, p). jm_del k) xs m) k = jm_get m k"
  by (induction xs arbitrary: m) (auto simp: jm.get_del jm.ok_del)

lemma sorted_newest_last:
  assumes "\<And>y. y \<in> set xs \<Longrightarrow> f y \<le> (f x :: rat)"
  shows "js_sort (\<lambda>a b. f a \<le> f b) (xs @ [x]) = js_sort (\<lambda>a b. f a \<le> f b) xs @ [x]"
  using assms
proof (induction xs)
  case (Cons y xs)
  have "js_insert (\<lambda>a b. f a \<le> f b) y (zs @ [x]) = js_insert (\<lambda>a b. f a \<le> f b) y zs @ [x]" for zs
    using Cons.prems [of y] by (induction zs) auto
  then show ?case using Cons by simp
qed simp

text \<open>A pin set for a non-empty key and target is found under that key until it lies unused for longer than the
  time to live, whatever else had to be evicted to make room, provided the clock did not run backwards.\<close>

theorem pin_remembered:
  assumes "pins_ok s" and "0 < ss_maxSessions s" and "key \<noteq> []" and "spec \<noteq> []" and "0 \<le> ss_ttlMs s"
    and "\<And>k p. jm_get (ss_pins s) k = Some p \<Longrightarrow> sp_lastUsedAt p \<le> now"
  shows "snd (getPin key later (setPin key spec now s)) = (if later - now \<le> ss_ttlMs s then Some spec else None)"
proof -
  let ?p = "\<lparr>sp_targetSpec = spec, sp_pinnedAt = now, sp_lastUsedAt = now, sp_useCount = Suc 0\<rparr>"
  let ?s = "s\<lparr>ss_pins := jm_put key ?p (ss_pins s)\<rparr>"
  have kept: "jm_get (ss_pins (prune_pins now ?s)) key = Some ?p \<and> ss_ttlMs (prune_pins now ?s) = ss_ttlMs s"
  proof (cases "length (ss_pins ?s) \<le> ss_maxSessions s")
    case True
    then show ?thesis by (simp add: prune_pins_def jm.get_put)
  next
    case False
    have new: "jm_get (ss_pins s) key = None"
    proof (rule ccontr)
      assume "jm_get (ss_pins s) key \<noteq> None"
      then have "jm_keys (jm_put key ?p (ss_pins s)) = jm_keys (ss_pins s)" by (rule jm.keys_put_present)
      then show False using False assms(1) by (simp add: pins_ok_def length_keys)
    qed
    define old where "old = filter (\<lambda>(k, p). \<not> pin_expired ?s now p) (ss_pins s)"
    have live: "filter (\<lambda>(k, p). \<not> pin_expired ?s now p) (ss_pins ?s) = old @ [(key, ?p)]"
      using assms(5) new by (simp add: old_def jm_put_new pin_expired_def)
    have ok: "jm_ok (old @ [(key, ?p)])"
      unfolding live [symmetric] using assms(1) by (intro jm_ok_filter) (simp add: pins_ok_def jm.ok_put)
    have "sp_lastUsedAt (snd y) \<le> sp_lastUsedAt (snd (key, ?p))" if "y \<in> set old" for y
    proof -
      have "(fst y, snd y) \<in> set (ss_pins s)" using that unfolding old_def by (simp only: set_filter prod.collapse) blast
      then have "jm_get (ss_pins s) (fst y) = Some (snd y)" using assms(1) by (intro jm_in_get) (simp_all add: pins_ok_def)
      then show ?thesis using assms(6) by simp
    qed
    then have sort: "js_sort (\<lambda>a b. sp_lastUsedAt (snd a) \<le> sp_lastUsedAt (snd b)) (old @ [(key, ?p)]) =
        js_sort (\<lambda>a b. sp_lastUsedAt (snd a) \<le> sp_lastUsedAt (snd b)) old @ [(key, ?p)]"
      by (rule sorted_newest_last)
    have "key \<notin> fst ` set (take n (js_sort (\<lambda>a b. sp_lastUsedAt (snd a) \<le> sp_lastUsedAt (snd b)) old @ [(key, ?p)]))"
      if "n \<le> length old" for n
      using that ok by (auto simp: jm_ok_def dest!: in_set_takeD)
    then have "jm_get (fold (\<lambda>(k, p). jm_del k) (take (length old + 1 - ss_maxSessions s)
        (js_sort (\<lambda>a b. sp_lastUsedAt (snd a) \<le> sp_lastUsedAt (snd b)) old @ [(key, ?p)])) (old @ [(key, ?p)])) key =
        jm_get (old @ [(key, ?p)]) key"
      using assms(2) by (intro get_evicted [OF ok]) auto
    moreover have "jm_get (old @ [(key, ?p)]) key = Some ?p" by (rule jm_in_get [OF ok]) simp
    ultimately show ?thesis using False by (simp add: prune_pins_def Let_def live [simplified] sort)
  qed
  then show ?thesis using assms(3,4) by (auto simp: setPin_def getPin_def pin_expired_def)
qed

theorem pin_remembered_witness:
  "snd (getPin ''b'' 100 (setPin ''b'' ''p/m'' 50 (setPin ''a'' ''p/n'' 10 (new_sessions None (Some 1))))) = Some ''p/m''"
proof -
  let ?s = "setPin ''a'' ''p/n'' 10 (new_sessions None (Some 1))"
  have s: "?s = \<lparr>ss_pins = [(''a'', \<lparr>sp_targetSpec = ''p/n'', sp_pinnedAt = 10, sp_lastUsedAt = 10, sp_useCount = 1\<rparr>)],
      ss_ttlMs = 1800000, ss_maxSessions = 1\<rparr>"
    by (simp add: setPin_def new_sessions_def prune_pins_def)
  show ?thesis unfolding s
    by (subst pin_remembered) (auto simp: pins_ok_def jm_ok_def split: if_splits)
qed

end
