(* ===== verification/Sse_Frames.thy ===== *)
theory Sse_Frames
  imports JsData
begin

text \<open>
  Server-sent-event framing (\<^verbatim>\<open>sse-frames.ts\<close>): the boundary of a frame, the buffer that yields complete frames,
  the fields of a frame, and the loop that drives a visitor over a stream. A stream is the list of its decoded
  pieces of text; \<^verbatim>\<open>JSON.parse\<close> is a parameter that returns \<open>None\<close> where it throws.
\<close>

section \<open>Boundaries\<close>


record sse_boundary =
  sb_index :: nat
  sb_separator :: string

record sse_frame =
  sf_frame :: string
  sf_separator :: string
  sf_raw :: string

text \<open>One end of line at the head of a text, with its optional carriage return.\<close>

fun eol_at :: "string \<Rightarrow> string option" where
  "eol_at (c # d # cs) = (if c = CR \<and> d = LF then Some [CR, LF] else if c = LF then Some [LF] else None)"
| "eol_at [c] = (if c = LF then Some [LF] else None)"
| "eol_at [] = None"

text \<open>The regular expression of the boundary at the head of a text: two ends of line.\<close>

definition separator_at :: "string \<Rightarrow> string option" where
  "separator_at v =
     (case eol_at v of
        None \<Rightarrow> None
      | Some e \<Rightarrow> (case eol_at (drop (length e) v) of None \<Rightarrow> None | Some f \<Rightarrow> Some (e @ f)))"

fun scan_boundary :: "string \<Rightarrow> sse_boundary option" where
  "scan_boundary [] = None"
| "scan_boundary (c # cs) =
     (case separator_at (c # cs) of
        Some s \<Rightarrow> Some \<lparr>sb_index = 0, sb_separator = s\<rparr>
      | None \<Rightarrow> map_option (\<lambda>b. b\<lparr>sb_index := sb_index b + 1\<rparr>) (scan_boundary cs))"

definition findSseBoundary :: "string \<Rightarrow> sse_boundary option" where
  "findSseBoundary v = (if LF \<notin> set v then None else scan_boundary v)"

section \<open>The buffer of frames\<close>

definition frames_append :: "string \<Rightarrow> string \<Rightarrow> string" where
  "frames_append v buffered = buffered @ v"

definition frames_next :: "string \<Rightarrow> string \<times> sse_frame option" where
  "frames_next buffered =
     (case findSseBoundary buffered of
        None \<Rightarrow> (buffered, None)
      | Some b \<Rightarrow>
          (let e = sb_index b + length (sb_separator b) in
           (drop e buffered,
            Some \<lparr>sf_frame = take (sb_index b) buffered, sf_separator = sb_separator b, sf_raw = take e buffered\<rparr>)))"

definition takeRemainder :: "string \<Rightarrow> string \<Rightarrow> string \<times> string" where
  "takeRemainder v buffered = ([], buffered @ v)"

lemma eol_at_length: "eol_at v = Some e \<Longrightarrow> 0 < length e \<and> take (length e) v = e"
  by (induction v rule: eol_at.induct) (auto split: if_splits)

lemma separator_at_length: "separator_at v = Some s \<Longrightarrow> 2 \<le> length s \<and> take (length s) v = s"
proof -
  assume "separator_at v = Some s"
  then obtain e f where e: "eol_at v = Some e" and f: "eol_at (drop (length e) v) = Some f" and s: "s = e @ f"
    by (auto simp: separator_at_def split: option.splits)
  have "take (length e + length f) v = e @ f"
    using eol_at_length [OF e] eol_at_length [OF f] by (simp add: take_add)
  moreover have "1 \<le> length e" "1 \<le> length f" using eol_at_length [OF e] eol_at_length [OF f] by linarith+
  then have "2 \<le> length s" unfolding s length_append by linarith
  ultimately show ?thesis by (simp add: s)
qed

lemma scan_boundary_at:
  "scan_boundary v = Some b \<Longrightarrow> separator_at (drop (sb_index b) v) = Some (sb_separator b) \<and> sb_index b < length v"
  by (induction v arbitrary: b rule: scan_boundary.induct) (auto split: option.splits)

lemma boundary_fits:
  assumes "findSseBoundary v = Some b"
  shows "0 < sb_index b + length (sb_separator b)" and "sb_index b + length (sb_separator b) \<le> length v"
    and "v = take (sb_index b) v @ sb_separator b @ drop (sb_index b + length (sb_separator b)) v"
proof -
  have s: "scan_boundary v = Some b" using assms by (simp add: findSseBoundary_def split: if_splits)
  note at = conjunct1 [OF scan_boundary_at [OF s]]
  have len: "2 \<le> length (sb_separator b)" "take (length (sb_separator b)) (drop (sb_index b) v) = sb_separator b"
    using separator_at_length [OF at] by auto
  show "0 < sb_index b + length (sb_separator b)" using len(1) by linarith
  have "length (take (length (sb_separator b)) (drop (sb_index b) v)) = length (sb_separator b)" by (simp only: len(2))
  then show "sb_index b + length (sb_separator b) \<le> length v" using len(1) by auto
  show "v = take (sb_index b) v @ sb_separator b @ drop (sb_index b + length (sb_separator b)) v"
    by (metis append_take_drop_id add.commute drop_drop len(2))
qed

lemma frames_next_shorter: "frames_next v = (rest, Some f) \<Longrightarrow> length rest < length v"
proof -
  assume "frames_next v = (rest, Some f)"
  then obtain b where b: "findSseBoundary v = Some b" "rest = drop (sb_index b + length (sb_separator b)) v"
    by (auto simp: frames_next_def Let_def split: option.splits)
  show ?thesis using boundary_fits(1,2) [OF b(1)] by (simp only: length_drop b(2))
qed

text \<open>\<^verbatim>\<open>for (const f of frames)\<close>: every complete frame, then what is left.\<close>

function frames_drain :: "string \<Rightarrow> string \<times> sse_frame list" where
  "frames_drain buffered =
     (case frames_next buffered of
        (rest, None) \<Rightarrow> (rest, [])
      | (rest, Some f) \<Rightarrow> (let (left, fs) = frames_drain rest in (left, f # fs)))"
  by pat_completeness auto

termination
  by (relation "measure length") (auto simp: frames_next_shorter [OF sym])

declare frames_drain.simps [simp del]

text \<open>A reader that appends each piece and drains the frames after it.\<close>

fun frames_feed :: "string list \<Rightarrow> string \<Rightarrow> string \<times> sse_frame list" where
  "frames_feed [] buffered = (buffered, [])"
| "frames_feed (v # vs) buffered =
     (let (rest, fs) = frames_drain (frames_append v buffered);
          (left, gs) = frames_feed vs rest
      in (left, fs @ gs))"

section \<open>The fields of a frame\<close>

text \<open>\<^verbatim>\<open>split(/\r?\n/)\<close>\<close>

fun split_eol :: "string \<Rightarrow> string list" where
  "split_eol [] = [[]]"
| "split_eol [c] = (if c = LF then [[], []] else [[c]])"
| "split_eol (c # d # cs) =
     (if c = CR \<and> d = LF then [] # split_eol cs
      else if c = LF then [] # split_eol (d # cs)
      else (case split_eol (d # cs) of [] \<Rightarrow> [[c]] | l # ls \<Rightarrow> (c # l) # ls))"

record sse_event_fields =
  ef_eventLines :: "string list"
  ef_dataLines :: "string list"

definition sseEventFields :: "string \<Rightarrow> sse_event_fields" where
  "sseEventFields frame =
     fold (\<lambda>line f.
         if starts_with ''event:'' line then f\<lparr>ef_eventLines := ef_eventLines f @ [drop 6 line]\<rparr>
         else if starts_with ''data:'' line then f\<lparr>ef_dataLines := ef_dataLines f @ [drop 5 line]\<rparr>
         else f)
       (split_eol frame) \<lparr>ef_eventLines = [], ef_dataLines = []\<rparr>"

record sse_event =
  se_raw :: string
  se_type :: string
  se_data :: "json option"

definition parseSseEvent :: "(string \<Rightarrow> json option) \<Rightarrow> string \<Rightarrow> sse_event option" where
  "parseSseEvent json_parse block =
     (if js_trim block = [] then None
      else
        (let fields = sseEventFields block;
             kind = (if ef_eventLines fields = [] then [] else js_trim (last (ef_eventLines fields)));
             data = map js_trim (ef_dataLines fields)
         in Some \<lparr>se_raw = block, se_type = kind, se_data = (if data = [] then None else json_parse (join_with [LF] data))\<rparr>))"

section \<open>Driving a visitor over a stream\<close>

text \<open>
  A visitor is a step for each frame, which may push text, and a flush at the end. \<open>tail\<close> is what the decoder still held
  at the end of the bytes; \<open>failure\<close> is the message of the error the reader threw, if it threw one. A visitor does not throw.
\<close>

fun visit :: "(sse_frame \<Rightarrow> 'v \<Rightarrow> 'v \<times> string list) \<Rightarrow> sse_frame list \<Rightarrow> 'v \<Rightarrow> 'v \<times> string list" where
  "visit step [] v = (v, [])"
| "visit step (f # fs) v = (let (v1, out) = step f v; (v2, outs) = visit step fs v1 in (v2, out @ outs))"

fun read_pieces ::
  "(sse_frame \<Rightarrow> 'v \<Rightarrow> 'v \<times> string list) \<Rightarrow> string list \<Rightarrow> string \<times> 'v \<Rightarrow> (string \<times> 'v) \<times> string list" where
  "read_pieces step [] (buffered, v) = ((buffered, v), [])"
| "read_pieces step (p # ps) (buffered, v) =
     (let (rest, fs) = frames_drain (frames_append p buffered);
          (v1, out) = visit step fs v;
          (x, outs) = read_pieces step ps (rest, v1)
      in (x, out @ outs))"

definition error_event :: "(string \<Rightarrow> string) \<Rightarrow> string \<Rightarrow> string" where
  "error_event stringify message = ''event: error'' @ [LF] @ ''data: '' @ stringify (''llm-relay: stream failed: '' @ message) @ [LF, LF]"

definition createSseTransformStream ::
  "(sse_frame \<Rightarrow> 'v \<Rightarrow> 'v \<times> string list) \<Rightarrow> ('v \<Rightarrow> string list) \<Rightarrow> (string \<Rightarrow> string) \<Rightarrow> 'v \<Rightarrow> string list \<Rightarrow> string \<Rightarrow> string option \<Rightarrow>
   string list" where
  "createSseTransformStream step flush stringify v0 pieces tail failure =
     (let ((buffered, v), out) = read_pieces step (pieces @ [tail]) ([], v0)
      in filter (\<lambda>t. t \<noteq> []) (out @ flush v @ [snd (takeRemainder [] buffered)] @
           (case failure of None \<Rightarrow> [] | Some message \<Rightarrow> [error_event stringify message])))"

section \<open>Framing does not depend on how the stream is cut\<close>

lemma eol_at_append: "eol_at v = Some e \<Longrightarrow> eol_at (v @ w) = Some e"
proof (induction v rule: eol_at.induct)
  case (2 c)
  then show ?case by (cases w) (simp_all split: if_splits)
qed (simp_all split: if_splits)

lemma separator_at_append: "separator_at v = Some s \<Longrightarrow> separator_at (v @ w) = Some s"
proof -
  assume "separator_at v = Some s"
  then obtain e f where e: "eol_at v = Some e" and f: "eol_at (drop (length e) v) = Some f" and s: "s = e @ f"
    by (auto simp: separator_at_def split: option.splits)
  have "length e \<le> length v" using eol_at_length [OF e] by (metis length_take min.cobounded1)
  then show ?thesis using eol_at_append [OF e] eol_at_append [OF f] by (simp add: separator_at_def s)
qed

lemma eol_at_LF [simp]: "eol_at (LF # r) = Some [LF]"
  by (cases r) simp_all

definition separators :: "string list" where
  "separators = [[LF, LF], [CR, LF, LF], [LF, CR, LF], [CR, LF, CR, LF]]"

lemma separator_at_iff: "separator_at v = Some s \<longleftrightarrow> s \<in> set separators \<and> take (length s) v = s"
proof
  assume at: "separator_at v = Some s"
  then obtain e f where e: "eol_at v = Some e" and f: "eol_at (drop (length e) v) = Some f" and s: "s = e @ f"
    by (auto simp: separator_at_def split: option.splits)
  have "g \<in> {[LF], [CR, LF]}" if "eol_at x = Some g" for x g
    using that by (induction x rule: eol_at.induct) (auto split: if_splits)
  then have "e \<in> {[LF], [CR, LF]}" "f \<in> {[LF], [CR, LF]}" using e f by blast+
  then show "s \<in> set separators \<and> take (length s) v = s"
    using separator_at_length [OF at] by (auto simp: s separators_def)
next
  assume "s \<in> set separators \<and> take (length s) v = s"
  then have "s \<in> set separators" "v = s @ drop (length s) v" by (simp, metis append_take_drop_id)
  moreover have "separator_at (s @ r) = Some s" if "s \<in> set separators" for r
    using that by (auto simp: separators_def separator_at_def)
  ultimately show "separator_at v = Some s" by metis
qed

lemma scan_inside_separator:
  assumes "s \<in> set separators" and "n < length s" and "take n s = c # cs"
  shows "scan_boundary cs = None"
proof -
  have "n \<in> {0, 1, 2, 3}" using assms(1,2) by (auto simp: separators_def)
  then show ?thesis using assms by (auto simp: separators_def separator_at_def numeral_2_eq_2 numeral_3_eq_3)
qed

text \<open>A boundary found in what has arrived stays where it is, whatever arrives after it.\<close>

lemma scan_boundary_append: "scan_boundary v = Some b \<Longrightarrow> scan_boundary (v @ w) = Some b"
proof (induction v arbitrary: b)
  case (Cons c cs)
  show ?case
  proof (cases "separator_at (c # cs)")
    case (Some s)
    then show ?thesis using Cons.prems separator_at_append [OF Some, of w] by simp
  next
    case None
    then obtain b' where b': "scan_boundary cs = Some b'" "b = b'\<lparr>sb_index := sb_index b' + 1\<rparr>" using Cons.prems by auto
    have "separator_at ((c # cs) @ w) = None"
    proof (rule ccontr)
      assume "separator_at ((c # cs) @ w) \<noteq> None"
      then obtain s where "separator_at ((c # cs) @ w) = Some s" by blast
      then have s: "s \<in> set separators" "take (length s) ((c # cs) @ w) = s" by (simp_all add: separator_at_iff)
      show False
      proof (cases "length s \<le> length (c # cs)")
        case True
        then have "take (length s) (c # cs) = s" using s(2)
          by (simp only: take_append diff_is_0_eq [THEN iffD2] take_0 append_Nil2)
        then have "separator_at (c # cs) = Some s" using s(1) unfolding separator_at_iff by simp
        then show False using None by simp
      next
        case False
        then have "take (length (c # cs)) s = c # cs" using s(2) by (metis append_eq_conv_conj append_take_drop_id linorder_le_cases take_append take_all take_take)
        then show False using scan_inside_separator [OF s(1), of "length (c # cs)" c cs] False b'(1) by simp
      qed
    qed
    then show ?thesis using Cons.IH [OF b'(1)] b'(2) by simp
  qed
qed simp

lemma findSseBoundary_append: "findSseBoundary v = Some b \<Longrightarrow> findSseBoundary (v @ w) = Some b"
  using scan_boundary_append by (auto simp: findSseBoundary_def split: if_splits)

lemma frames_next_append:
  assumes "frames_next v = (rest, Some f)"
  shows "frames_next (v @ w) = (rest @ w, Some f)"
proof -
  obtain b where b: "findSseBoundary v = Some b" using assms by (auto simp: frames_next_def split: option.splits)
  show ?thesis using assms boundary_fits(2) [OF b] findSseBoundary_append [OF b, of w]
    by (auto simp: frames_next_def b Let_def)
qed

lemma drain_done: "frames_next v = (rest, None) \<Longrightarrow> rest = v \<and> frames_drain v = (v, [])"
proof -
  assume n: "frames_next v = (rest, None)"
  then have "rest = v" by (auto simp: frames_next_def Let_def split: option.splits)
  then show ?thesis using n by (subst frames_drain.simps) simp
qed

lemma drain_more:
  "frames_next v = (rest, Some f) \<Longrightarrow> frames_drain v = (fst (frames_drain rest), f # snd (frames_drain rest))"
  by (subst frames_drain.simps) (simp add: case_prod_beta)

lemma frames_drain_append:
  "frames_drain (v @ w) = (fst (frames_drain (fst (frames_drain v) @ w)),
     snd (frames_drain v) @ snd (frames_drain (fst (frames_drain v) @ w)))"
proof (induction v rule: frames_drain.induct)
  case (1 v)
  obtain rest x where n: "frames_next v = (rest, x)" by force
  show ?case
  proof (cases x)
    case None
    then show ?thesis using drain_done n by simp
  next
    case (Some f)
    then have n': "frames_next v = (rest, Some f)" using n by simp
    show ?thesis
      using "1.IH" [OF n [symmetric] Some] by (simp add: drain_more [OF n'] drain_more [OF frames_next_append [OF n']])
  qed
qed

lemma frames_drain_rest: "frames_drain (fst (frames_drain v)) = (fst (frames_drain v), [])"
proof (induction v rule: frames_drain.induct)
  case (1 v)
  obtain y x where n: "frames_next v = (y, x)" by force
  show ?case
  proof (cases x)
    case None
    then show ?thesis using drain_done n by simp
  next
    case (Some f)
    then show ?thesis using "1.IH" [OF n [symmetric] Some] drain_more n by simp
  qed
qed

lemma frames_feed_drain:
  "frames_drain buffered = (buffered, []) \<Longrightarrow> frames_feed vs buffered = frames_drain (buffered @ concat vs)"
proof (induction vs arbitrary: buffered)
  case (Cons v vs)
  let ?rest = "fst (frames_drain (buffered @ v))"
  have "frames_feed vs ?rest = frames_drain (?rest @ concat vs)" by (rule Cons.IH [OF frames_drain_rest])
  then show ?case using frames_drain_append [of "buffered @ v" "concat vs"]
    by (simp add: frames_append_def case_prod_beta)
qed simp

lemma frames_drain_lossless:
  "frames_drain v = (rest, fs) \<Longrightarrow> concat (map sf_raw fs) @ rest = v \<and>
     list_all (\<lambda>f. sf_raw f = sf_frame f @ sf_separator f \<and> sf_separator f \<in> set separators) fs \<and> findSseBoundary rest = None"
proof (induction v arbitrary: fs rule: frames_drain.induct)
  case (1 v)
  obtain y x where n: "frames_next v = (y, x)" by force
  show ?case
  proof (cases x)
    case None
    then show ?thesis using n "1.prems" drain_done [of v y] by (auto simp: frames_next_def Let_def split: option.splits)
  next
    case (Some f)
    then obtain b where b: "findSseBoundary v = Some b"
      and y: "y = drop (sb_index b + length (sb_separator b)) v"
      and f: "f = \<lparr>sf_frame = take (sb_index b) v, sf_separator = sb_separator b, sf_raw = take (sb_index b + length (sb_separator b)) v\<rparr>"
      using n by (auto simp: frames_next_def Let_def split: option.splits)
    have "sb_separator b \<in> set separators"
      using b scan_boundary_at separator_at_iff by (auto simp: findSseBoundary_def split: if_splits)
    moreover have "take (sb_index b + length (sb_separator b)) v = take (sb_index b) v @ sb_separator b"
      using boundary_fits(3) [OF b] by (metis append.assoc append_eq_conv_conj boundary_fits(2) [OF b] length_append length_take min.absorb2 le_add1 le_trans)
    moreover obtain gs where gs: "frames_drain y = (rest, gs)" "fs = f # gs"
      using "1.prems" drain_more [of v y f] n Some by (cases "frames_drain y") auto
    ultimately show ?thesis using "1.IH" [OF n [symmetric] Some gs(1)] boundary_fits(3) [OF b] by (simp add: gs(2) f y)
  qed
qed

lemma read_pieces_feed:
  "read_pieces step ps (buffered, v) =
     (let (rest, fs) = frames_feed ps buffered; (v1, out) = visit step fs v in ((rest, v1), out))"
proof (induction ps arbitrary: buffered v)
  case (Cons p ps)
  have "visit step (fs @ gs) w =
      (fst (visit step gs (fst (visit step fs w))), snd (visit step fs w) @ snd (visit step gs (fst (visit step fs w))))" for fs gs w
    by (induction fs arbitrary: w) (simp_all add: case_prod_beta Let_def)
  then show ?case using Cons.IH by (simp add: case_prod_beta Let_def)
qed simp

text \<open>C7. Framing does not depend on how the network cut the stream: whatever the pieces, the frames read after each piece and what
  is left are those of the whole text; the frames and the rest, put together, are the text byte for byte; every frame ends with one of the
  four separators, and what is left holds no boundary.\<close>

theorem frames_of_any_pieces:
  "frames_feed pieces [] = frames_drain (concat pieces) \<and>
   concat (map sf_raw (snd (frames_drain (concat pieces)))) @ fst (frames_drain (concat pieces)) = concat pieces \<and>
   list_all (\<lambda>f. sf_raw f = sf_frame f @ sf_separator f \<and> sf_separator f \<in> set separators) (snd (frames_drain (concat pieces))) \<and>
   findSseBoundary (fst (frames_drain (concat pieces))) = None"
proof -
  have "frames_drain [] = ([], [])" using drain_done [of "[]" "[]"] by (simp add: frames_next_def findSseBoundary_def)
  then show ?thesis using frames_feed_drain [of "[]" pieces] frames_drain_lossless [of "concat pieces"] by (simp add: prod_eq_iff)
qed

text \<open>A stream visitor sees the same frames and pushes the same text however the network cut the stream.\<close>

theorem transform_of_any_pieces:
  assumes "concat pieces @ tail = concat pieces' @ tail'"
  shows "createSseTransformStream step flush stringify v pieces tail failure =
    createSseTransformStream step flush stringify v pieces' tail' failure"
proof -
  have "frames_drain [] = ([], [])" using drain_done [of "[]" "[]"] by (simp add: frames_next_def findSseBoundary_def)
  then show ?thesis using frames_feed_drain [of "[]"] assms
    by (simp add: createSseTransformStream_def read_pieces_feed)
qed

definition ex_count :: "sse_frame \<Rightarrow> nat \<Rightarrow> nat \<times> string list" where
  "ex_count f n = (n + 1, [show_nat n @ sf_raw f])"

theorem transform_of_any_pieces_witness:
  "createSseTransformStream ex_count (\<lambda>n. [show_nat n]) id 0 [''a'' @ [CR], [LF], [LF] @ ''b''] [] None =
   createSseTransformStream ex_count (\<lambda>n. [show_nat n]) id 0 [''a'' @ [CR, LF, LF]] ''b'' None"
  by (rule transform_of_any_pieces) simp

end
