(* ===== verification/Sse_Message.thy ===== *)
theory Sse_Message
  imports Sse_Frames Message
begin

text \<open>
  Rebuilding an assistant message from an event stream (\<^verbatim>\<open>sse.ts\<close>) and writing one as an event stream (\<^verbatim>\<open>emitSse.ts\<close>),
  over the message of \<^verbatim>\<open>anthropic.ts\<close>. \<^verbatim>\<open>JSON.parse\<close> and \<^verbatim>\<open>JSON.stringify\<close> are parameters. A content block is a JSON
  value; what the stream carries is untyped, so the stop reason and the stop sequence are JSON values too.
\<close>

section \<open>Members of a primitive\<close>

datatype type_error = InOnPrimitive

text \<open>\<^verbatim>\<open>name in v\<close> throws on a primitive.\<close>

fun has_member :: "string \<Rightarrow> json \<Rightarrow> type_error + bool" where
  "has_member name (JObj ms) = Inr (member ms name \<noteq> None)"
| "has_member name (JArr xs) = Inr False"
| "has_member name v = Inl InOnPrimitive"

section \<open>Rebuilding\<close>

record block_acc =
  ba_type :: string
  ba_text :: string
  ba_partialJson :: string
  ba_thinking :: string
  ba_signature :: string
  ba_id :: "string option"
  ba_name :: "string option"
  ba_seedInput :: "json option"
  ba_seed :: json

record rebuild =
  rb_blocks :: "(rat, block_acc) jmap"
  rb_stopReason :: json
  rb_stopSequence :: "json option"
  rb_usage :: "(string \<times> json) list option"
  rb_id :: "string option"
  rb_model :: "string option"

definition new_rebuild :: rebuild where
  "new_rebuild = \<lparr>rb_blocks = [], rb_stopReason = JNull, rb_stopSequence = None, rb_usage = None, rb_id = None, rb_model = None\<rparr>"

definition iterateDataPayloads :: "string \<Rightarrow> string list" where
  "iterateDataPayloads raw =
     (let (left, fs) = frames_drain raw;
          lines = (\<lambda>frame. map (\<lambda>l. trimStart (drop 5 l)) (filter (starts_with ''data:'') (split_eol frame)))
      in map (join_with [LF]) (filter (\<lambda>ls. ls \<noteq> []) (map lines (map sf_frame fs @ [left]))))"

definition numberOr :: "json option \<Rightarrow> rat \<Rightarrow> rat" where
  "numberOr v fallback = (case rat_of v of Some q \<Rightarrow> q | None \<Rightarrow> fallback)"

definition or_empty :: "json option \<Rightarrow> json" where
  "or_empty v = (case v of None \<Rightarrow> JObj [] | Some JNull \<Rightarrow> JObj [] | Some x \<Rightarrow> x)"

definition nonempty_str :: "json option \<Rightarrow> string option" where
  "nonempty_str v = (case str_of v of Some s \<Rightarrow> if s = [] then None else Some s | None \<Rightarrow> None)"

definition or_else :: "'a option \<Rightarrow> 'a option \<Rightarrow> 'a option" where
  "or_else v w = (case v of None \<Rightarrow> w | Some x \<Rightarrow> Some x)"

definition str_or :: "json option \<Rightarrow> string" where
  "str_or v = (case str_of v of Some s \<Rightarrow> s | None \<Rightarrow> [])"

definition on_message_start :: "json option \<Rightarrow> rebuild \<Rightarrow> rebuild" where
  "on_message_start msg r =
     r\<lparr>rb_id := or_else (nonempty_str (data_key msg ''id'')) (rb_id r),
       rb_model := or_else (nonempty_str (data_key msg ''model'')) (rb_model r),
       rb_usage := (case data_key msg ''usage'' of Some u \<Rightarrow> if truthy u then Some (spread u) else rb_usage r | None \<Rightarrow> rb_usage r)\<rparr>"

definition on_block_start :: "rat \<Rightarrow> json \<Rightarrow> rebuild \<Rightarrow> type_error + rebuild" where
  "on_block_start index cb r =
     (case has_member ''input'' cb of
        Inl e \<Rightarrow> Inl e
      | Inr present \<Rightarrow>
          Inr (r\<lparr>rb_blocks := jm_put index
            \<lparr>ba_type = (case str_of (data_key (Some cb) ''type'') of Some t \<Rightarrow> t | None \<Rightarrow> ''unknown''),
             ba_text = [], ba_partialJson = [],
             ba_thinking = str_or (data_key (Some cb) ''thinking''), ba_signature = str_or (data_key (Some cb) ''signature''),
             ba_id = str_of (data_key (Some cb) ''id''), ba_name = str_of (data_key (Some cb) ''name''),
             ba_seedInput = (if present then data_key (Some cb) ''input'' else None), ba_seed = cb\<rparr> (rb_blocks r)\<rparr>))"

definition append_delta :: "json \<Rightarrow> block_acc \<Rightarrow> block_acc" where
  "append_delta delta acc =
     (let kind = data_key (Some delta) ''type''; get = (\<lambda>name. str_of (data_key (Some delta) name)) in
      if kind = Some (JStr ''text_delta'') \<and> get ''text'' \<noteq> None then acc\<lparr>ba_text := ba_text acc @ the (get ''text'')\<rparr>
      else if kind = Some (JStr ''input_json_delta'') \<and> get ''partial_json'' \<noteq> None
      then acc\<lparr>ba_partialJson := ba_partialJson acc @ the (get ''partial_json'')\<rparr>
      else if kind = Some (JStr ''thinking_delta'') \<and> get ''thinking'' \<noteq> None
      then acc\<lparr>ba_thinking := ba_thinking acc @ the (get ''thinking'')\<rparr>
      else if kind = Some (JStr ''signature_delta'') \<and> get ''signature'' \<noteq> None
      then acc\<lparr>ba_signature := ba_signature acc @ the (get ''signature'')\<rparr>
      else acc)"

definition on_block_delta :: "rat \<Rightarrow> json \<Rightarrow> rebuild \<Rightarrow> rebuild" where
  "on_block_delta index delta r =
     (case jm_get (rb_blocks r) index of
        None \<Rightarrow> r
      | Some acc \<Rightarrow> r\<lparr>rb_blocks := jm_put index (append_delta delta acc) (rb_blocks r)\<rparr>)"

definition on_message_delta :: "json option \<Rightarrow> json option \<Rightarrow> rebuild \<Rightarrow> type_error + rebuild" where
  "on_message_delta delta u r =
     (let with_usage = (\<lambda>r1. case u of
            Some v \<Rightarrow> if truthy v then r1\<lparr>rb_usage := Some (put_all (spread v) (case rb_usage r1 of Some w \<Rightarrow> w | None \<Rightarrow> []))\<rparr> else r1
          | None \<Rightarrow> r1)
      in case delta of
           None \<Rightarrow> Inr (with_usage r)
         | Some d \<Rightarrow>
             if \<not> truthy d then Inr (with_usage r)
             else (case has_member ''stop_reason'' d of
                 Inl e \<Rightarrow> Inl e
               | Inr present \<Rightarrow>
                   (let r1 = (if present
                        then r\<lparr>rb_stopReason := (case data_key delta ''stop_reason'' of Some JNull \<Rightarrow> rb_stopReason r
                              | Some v \<Rightarrow> v | None \<Rightarrow> rb_stopReason r)\<rparr> else r);
                        r2 = (case data_key delta ''stop_sequence'' of Some v \<Rightarrow> r1\<lparr>rb_stopSequence := Some v\<rparr> | None \<Rightarrow> r1)
                    in Inr (with_usage r2))))"

definition fold_event :: "json \<Rightarrow> rebuild \<Rightarrow> type_error + rebuild" where
  "fold_event evt r =
     (let at_key = data_key (Some evt) in
      case at_key ''type'' of
        Some (JStr kind) \<Rightarrow>
          if kind = ''message_start'' then Inr (on_message_start (at_key ''message'') r)
          else if kind = ''content_block_start''
          then on_block_start (numberOr (at_key ''index'') (- 1)) (or_empty (at_key ''content_block'')) r
          else if kind = ''content_block_delta''
          then Inr (on_block_delta (numberOr (at_key ''index'') (- 1)) (or_empty (at_key ''delta'')) r)
          else if kind = ''message_delta'' then on_message_delta (at_key ''delta'') (at_key ''usage'') r
          else Inr r
      | _ \<Rightarrow> Inr r)"

fun fold_payloads :: "(string \<Rightarrow> json option) \<Rightarrow> string list \<Rightarrow> rebuild \<Rightarrow> type_error + rebuild" where
  "fold_payloads json_parse [] r = Inr r"
| "fold_payloads json_parse (d # ds) r =
     (case json_parse d of
        None \<Rightarrow> fold_payloads json_parse ds r
      | Some evt \<Rightarrow> (case fold_event evt r of Inl e \<Rightarrow> Inl e | Inr r1 \<Rightarrow> fold_payloads json_parse ds r1))"

definition finalizeBlock :: "(string \<Rightarrow> json option) \<Rightarrow> block_acc \<Rightarrow> json" where
  "finalizeBlock json_parse acc =
     (if ba_type acc = ''text'' then JObj [(''type'', JStr ''text''), (''text'', JStr (ba_text acc))]
      else if ba_type acc = ''tool_use''
      then (let seeded = or_empty (ba_seedInput acc);
                input = (if ba_partialJson acc = [] then seeded
                  else (case json_parse (ba_partialJson acc) of None \<Rightarrow> JStr (ba_partialJson acc) | Some v \<Rightarrow> v))
            in JObj [(''type'', JStr ''tool_use''), (''id'', JStr (case ba_id acc of Some i \<Rightarrow> i | None \<Rightarrow> [])),
                 (''name'', JStr (case ba_name acc of Some n \<Rightarrow> n | None \<Rightarrow> [])), (''input'', input)])
      else
        (let rest = filter (\<lambda>(k, v). k \<noteq> ''type'') (spread (ba_seed acc));
             b1 = put_all rest [(''type'', JStr (ba_type acc))];
             b2 = (if ba_thinking acc = [] then b1 else jm_put ''thinking'' (JStr (ba_thinking acc)) b1);
             b3 = (if ba_signature acc = [] then b2 else jm_put ''signature'' (JStr (ba_signature acc)) b2)
         in JObj b3))"

definition reconstructFromSse :: "(string \<Rightarrow> json option) \<Rightarrow> string \<Rightarrow> type_error + assistant_message" where
  "reconstructFromSse json_parse raw =
     (case fold_payloads json_parse (iterateDataPayloads raw) new_rebuild of
        Inl e \<Rightarrow> Inl e
      | Inr r \<Rightarrow>
          Inr \<lparr>am_id = rb_id r, am_model = rb_model r,
            am_content = map (\<lambda>(i, acc). finalizeBlock json_parse acc) (js_sort (\<lambda>a b. fst a \<le> fst b) (rb_blocks r)),
            am_stop_reason = rb_stopReason r, am_stop_sequence = rb_stopSequence r, am_usage = rb_usage r\<rparr>)"

section \<open>Writing\<close>

definition syntheticMessageId :: "string \<Rightarrow> string" where
  "syntheticMessageId uuid = ''msg_relay_'' @ filter (\<lambda>c. c \<noteq> CHR ''-'') uuid"

definition usage_number :: "(string \<times> json) list option \<Rightarrow> string \<Rightarrow> (string \<times> json) list" where
  "usage_number u name = (case u of None \<Rightarrow> []
     | Some ms \<Rightarrow> (case member ms name of Some (JNum x) \<Rightarrow> [(name, JNum x)] | _ \<Rightarrow> []))"

definition startUsage :: "assistant_message \<Rightarrow> (string \<times> json) list" where
  "startUsage msg = usage_number (am_usage msg) ''input_tokens'' @ usage_number (am_usage msg) ''cache_creation_input_tokens'' @
     usage_number (am_usage msg) ''cache_read_input_tokens'' @
     (case am_usage msg of None \<Rightarrow> [] | Some u \<Rightarrow> [(''output_tokens'', JNum (Fin 0))])"

definition endDelta :: "assistant_message \<Rightarrow> (string \<times> json) list" where
  "endDelta msg =
     [(''delta'', JObj [(''stop_reason'', (if am_stop_reason msg = JNull then JStr ''end_turn'' else am_stop_reason msg)),
        (''stop_sequence'', (case am_stop_sequence msg of None \<Rightarrow> JNull | Some v \<Rightarrow> v))])] @
     (case usage_number (am_usage msg) ''output_tokens'' of [] \<Rightarrow> [] | ms \<Rightarrow> [(''usage'', JObj ms)])"

text \<open>An event is its type and the members that follow it in its data; \<^verbatim>\<open>push\<close> writes it.\<close>

definition event_data :: "string \<times> (string \<times> json) list \<Rightarrow> json" where
  "event_data = (\<lambda>(kind, data). JObj ((''type'', JStr kind) # data))"

definition event_text :: "(json \<Rightarrow> string) \<Rightarrow> string \<times> (string \<times> json) list \<Rightarrow> string" where
  "event_text stringify e = ''event: '' @ fst e @ [LF] @ ''data: '' @ stringify (event_data e) @ [LF, LF]"

definition index_of :: "nat \<Rightarrow> string \<times> json" where
  "index_of n = (''index'', num (of_nat n))"

definition emitToolUseBlock :: "(json \<Rightarrow> string) \<Rightarrow> json \<Rightarrow> nat \<Rightarrow> (string \<times> (string \<times> json) list) list" where
  "emitToolUseBlock stringify block index =
     [(''content_block_start'', [index_of index, (''content_block'', JObj ([(''type'', JStr ''tool_use'')]
         @ optional ''id'' (data_key (Some block) ''id'') @ optional ''name'' (data_key (Some block) ''name'') @ [(''input'', JObj [])]))]),
      (''content_block_delta'', [index_of index, (''delta'', JObj [(''type'', JStr ''input_json_delta''),
         (''partial_json'', JStr (stringify (or_empty (data_key (Some block) ''input''))))])]),
      (''content_block_stop'', [index_of index])]"

definition emitTextBlock :: "json \<Rightarrow> nat \<Rightarrow> (string \<times> (string \<times> json) list) list" where
  "emitTextBlock block index =
     [(''content_block_start'', [index_of index, (''content_block'', JObj [(''type'', JStr ''text''), (''text'', JStr [])])]),
      (''content_block_delta'', [index_of index, (''delta'', JObj ([(''type'', JStr ''text_delta'')]
         @ optional ''text'' (data_key (Some block) ''text'')))]),
      (''content_block_stop'', [index_of index])]"

definition emitOpaqueBlock :: "json \<Rightarrow> nat \<Rightarrow> (string \<times> (string \<times> json) list) list" where
  "emitOpaqueBlock block index =
     [(''content_block_start'', [index_of index, (''content_block'', block)]), (''content_block_stop'', [index_of index])]"

definition emitBlock :: "(json \<Rightarrow> string) \<Rightarrow> json \<Rightarrow> nat \<Rightarrow> (string \<times> (string \<times> json) list) list" where
  "emitBlock stringify block index =
     (if isToolUseBlock block then emitToolUseBlock stringify block index
      else if data_key (Some block) ''type'' = Some (JStr ''text'') then emitTextBlock block index
      else emitOpaqueBlock block index)"

fun emit_blocks :: "(json \<Rightarrow> string) \<Rightarrow> json list \<Rightarrow> nat \<Rightarrow> (string \<times> (string \<times> json) list) list" where
  "emit_blocks stringify [] index = []"
| "emit_blocks stringify (b # bs) index = emitBlock stringify b index @ emit_blocks stringify bs (index + 1)"

definition message_start_event :: "string \<Rightarrow> assistant_message \<Rightarrow> string \<times> (string \<times> json) list" where
  "message_start_event uuid msg =
     (''message_start'', [(''message'', JObj [(''id'', JStr (case am_id msg of Some i \<Rightarrow> i | None \<Rightarrow> syntheticMessageId uuid)),
        (''type'', JStr ''message''), (''role'', JStr ''assistant''),
        (''model'', JStr (case am_model msg of Some m \<Rightarrow> m | None \<Rightarrow> [])), (''content'', JArr []), (''stop_reason'', JNull),
        (''stop_sequence'', JNull), (''usage'', JObj (startUsage msg))])])"

definition end_events :: "assistant_message \<Rightarrow> (string \<times> (string \<times> json) list) list" where
  "end_events msg = [(''message_delta'', endDelta msg), (''message_stop'', [])]"

definition sse_events :: "(json \<Rightarrow> string) \<Rightarrow> string \<Rightarrow> assistant_message \<Rightarrow> (string \<times> (string \<times> json) list) list" where
  "sse_events stringify uuid msg = message_start_event uuid msg # emit_blocks stringify (am_content msg) 0 @ end_events msg"

definition emitSse :: "(json \<Rightarrow> string) \<Rightarrow> string \<Rightarrow> assistant_message \<Rightarrow> string" where
  "emitSse stringify uuid msg = concat (map (event_text stringify) (sse_events stringify uuid msg))"

definition emitSseTail :: "(json \<Rightarrow> string) \<Rightarrow> assistant_message \<Rightarrow> nat \<Rightarrow> string" where
  "emitSseTail stringify msg startIndex =
     concat (map (event_text stringify) (emit_blocks stringify (drop startIndex (am_content msg)) startIndex @ end_events msg))"

end
