(* ===== verification/Sse_Message_Props.thy ===== *)
theory Sse_Message_Props
  imports Sse_Message
begin

text \<open>
  Writing a message as an event stream and rebuilding it: the frames of the written text, the payloads they carry, and the
  message that comes back.
\<close>

section \<open>Frames and payloads of the written text\<close>

text \<open>A text in which no boundary starts, and none starts when two ends of line follow.\<close>

fun calm :: "string \<Rightarrow> bool" where
  "calm [] = True"
| "calm [c] = (c \<noteq> CR \<and> c \<noteq> LF)"
| "calm (c # d # cs) = (c \<noteq> CR \<and> (c = LF \<longrightarrow> d \<noteq> LF \<and> d \<noteq> CR) \<and> calm (d # cs))"

lemma calm_boundary: "calm f \<Longrightarrow> scan_boundary (f @ LF # LF # rest) = Some \<lparr>sb_index = length f, sb_separator = [LF, LF]\<rparr>"
proof (induction f rule: calm.induct)
  case 1
  then show ?case by (cases rest) (simp_all add: separator_at_def)
next
  case (2 c)
  then show ?case by (cases rest) (simp_all add: separator_at_def)
next
  case (3 c d cs)
  have "separator_at ((c # d # cs) @ LF # LF # rest) = None"
    using "3.prems" by (cases cs) (auto simp: separator_at_def)
  then show ?case using 3 by simp
qed

lemma calm_drain:
  assumes "calm f"
  shows "frames_drain (f @ LF # LF # rest) =
    (let (left, fs) = frames_drain rest in (left, \<lparr>sf_frame = f, sf_separator = [LF, LF], sf_raw = f @ [LF, LF]\<rparr> # fs))"
proof -
  have "findSseBoundary (f @ LF # LF # rest) = Some \<lparr>sb_index = length f, sb_separator = [LF, LF]\<rparr>"
    using calm_boundary [OF assms] by (simp add: findSseBoundary_def)
  then have "frames_next (f @ LF # LF # rest) = (rest, Some \<lparr>sf_frame = f, sf_separator = [LF, LF], sf_raw = f @ [LF, LF]\<rparr>)"
    by (simp add: frames_next_def Let_def)
  then show ?thesis by (subst frames_drain.simps) simp
qed

lemma calm_line: "CR \<notin> set l \<Longrightarrow> LF \<notin> set l \<Longrightarrow> calm l"
  by (induction l rule: calm.induct) auto

lemma calm_lines: "CR \<notin> set l \<Longrightarrow> LF \<notin> set l \<Longrightarrow> calm (c # m) \<Longrightarrow> c \<noteq> LF \<Longrightarrow> c \<noteq> CR \<Longrightarrow> calm (l @ LF # c # m)"
  by (induction l rule: calm.induct) auto

lemma split_eol_line: "CR \<notin> set l \<Longrightarrow> LF \<notin> set l \<Longrightarrow> split_eol l = [l]"
  by (induction l rule: split_eol.induct) auto

lemma split_eol_Cons: "CR \<notin> set l \<Longrightarrow> LF \<notin> set l \<Longrightarrow> split_eol (l @ LF # v) = l # split_eol v"
proof (induction l rule: split_eol.induct)
  case 1
  then show ?case by (cases v) simp_all
next
  case (2 c)
  then show ?case by (cases v) simp_all
qed auto

definition payload_text :: "string \<Rightarrow> bool" where
  "payload_text d \<longleftrightarrow> d \<noteq> [] \<and> \<not> js_space (hd d) \<and> CR \<notin> set d \<and> LF \<notin> set d"

definition event_frame :: "string \<Rightarrow> string \<Rightarrow> string" where
  "event_frame kind d = ''event: '' @ kind @ [LF] @ ''data: '' @ d"

lemma event_frame_calm:
  assumes "CR \<notin> set kind" and "LF \<notin> set kind" and "payload_text d"
  shows "calm (event_frame kind d)"
proof -
  have "calm (CHR ''d'' # ''ata: '' @ d)" by (rule calm_line) (use assms(3) in \<open>auto simp: payload_text_def\<close>)
  then show ?thesis using calm_lines [of "''event: '' @ kind" "CHR ''d''" "''ata: '' @ d"] assms(1,2) by (simp add: event_frame_def)
qed

lemma event_frame_data:
  assumes "CR \<notin> set kind" and "LF \<notin> set kind" and "payload_text d"
  shows "map (\<lambda>l. trimStart (drop 5 l)) (filter (starts_with ''data:'') (split_eol (event_frame kind d))) = [d]"
proof -
  have "split_eol (event_frame kind d) = [''event: '' @ kind, ''data: '' @ d]"
    using split_eol_Cons [of "''event: '' @ kind" "''data: '' @ d"] split_eol_line [of "''data: '' @ d"] assms
    by (simp add: event_frame_def payload_text_def)
  moreover have "trimStart (CHR '' '' # d) = d"
    using assms(3) by (cases d) (simp_all add: trimStart_def payload_text_def js_space_def)
  ultimately show ?thesis by simp
qed

lemma payloads_of_frames:
  assumes "\<forall>(kind, d)\<in>set fs. CR \<notin> set kind \<and> LF \<notin> set kind \<and> payload_text d"
  shows "iterateDataPayloads (concat (map (\<lambda>(kind, d). event_frame kind d @ [LF, LF]) fs)) = map snd fs"
proof -
  have drain: "frames_drain (concat (map (\<lambda>(kind, d). event_frame kind d @ [LF, LF]) fs)) =
      ([], map (\<lambda>(kind, d). \<lparr>sf_frame = event_frame kind d, sf_separator = [LF, LF], sf_raw = event_frame kind d @ [LF, LF]\<rparr>) fs)"
    using assms
  proof (induction fs)
    case Nil
    then show ?case using drain_done [of "[]" "[]"] by (simp add: frames_next_def findSseBoundary_def)
  next
    case (Cons f fs)
    then show ?case using calm_drain [OF event_frame_calm, of "fst f" "snd f"] by (cases f) simp
  qed
  have lines: "map (\<lambda>f. map (\<lambda>l. trimStart (drop 5 l)) (filter (starts_with ''data:'') (split_eol f)))
      (map (\<lambda>(kind, d). event_frame kind d) fs) = map (\<lambda>f. [snd f]) fs"
    using assms by (auto simp: event_frame_data)
  have "map sf_frame (snd (frames_drain (concat (map (\<lambda>(kind, d). event_frame kind d @ [LF, LF]) fs)))) =
      map (\<lambda>(kind, d). event_frame kind d) fs"
    unfolding drain by (simp add: case_prod_unfold)
  then have "iterateDataPayloads (concat (map (\<lambda>(kind, d). event_frame kind d @ [LF, LF]) fs)) =
      map (join_with [LF]) (filter (\<lambda>ls. ls \<noteq> []) (map (\<lambda>f. map (\<lambda>l. trimStart (drop 5 l)) (filter (starts_with ''data:'') (split_eol f)))
        (map (\<lambda>(kind, d). event_frame kind d) fs)))"
    unfolding iterateDataPayloads_def drain by (simp add: case_prod_unfold comp_def)
  also have "\<dots> = map (join_with [LF]) (map (\<lambda>f. [snd f]) fs)"
    by (simp only: lines) (induction fs, simp_all)
  finally show ?thesis by (simp add: comp_def)
qed

section \<open>What comes back\<close>

text \<open>What the written text relies on of \<^verbatim>\<open>JSON.stringify\<close>: it reads back, and is one line that does not start with white space.\<close>

definition codec_ok :: "(string \<Rightarrow> json option) \<Rightarrow> (json \<Rightarrow> string) \<Rightarrow> json \<Rightarrow> bool" where
  "codec_ok json_parse stringify j \<longleftrightarrow> json_parse (stringify j) = Some j \<and> payload_text (stringify j)"

fun fold_events :: "json list \<Rightarrow> rebuild \<Rightarrow> type_error + rebuild" where
  "fold_events [] r = Inr r"
| "fold_events (e # es) r = (case fold_event e r of Inl x \<Rightarrow> Inl x | Inr r1 \<Rightarrow> fold_events es r1)"

lemma fold_events_append:
  "fold_events (xs @ ys) r = (case fold_events xs r of Inl x \<Rightarrow> Inl x | Inr r1 \<Rightarrow> fold_events ys r1)"
  by (induction xs arbitrary: r) (auto split: sum.split)

lemma fold_payloads_events:
  "\<forall>e\<in>set es. json_parse (stringify e) = Some e \<Longrightarrow> fold_payloads json_parse (map stringify es) r = fold_events es r"
  by (induction es arbitrary: r) (auto split: sum.split)

lemma written_events:
  assumes "\<forall>e\<in>set es. codec_ok json_parse stringify (event_data e) \<and> CR \<notin> set (fst e) \<and> LF \<notin> set (fst e)"
  shows "fold_payloads json_parse (iterateDataPayloads (concat (map (event_text stringify) es))) r = fold_events (map event_data es) r"
proof -
  let ?fs = "map (\<lambda>e. (fst e, stringify (event_data e))) es"
  have "concat (map (event_text stringify) es) = concat (map (\<lambda>(kind, d). event_frame kind d @ [LF, LF]) ?fs)"
    by (induction es) (simp_all add: event_text_def event_frame_def)
  moreover have "iterateDataPayloads (concat (map (\<lambda>(kind, d). event_frame kind d @ [LF, LF]) ?fs)) = map snd ?fs"
    by (rule payloads_of_frames) (use assms in \<open>auto simp: codec_ok_def\<close>)
  moreover have "map snd ?fs = map stringify (map event_data es)" by simp
  moreover have "fold_payloads json_parse (map stringify (map event_data es)) r = fold_events (map event_data es) r"
    by (rule fold_payloads_events) (use assms in \<open>auto simp: codec_ok_def\<close>)
  ultimately show ?thesis by (simp only:)
qed

text \<open>The blocks of a message as they are on the wire: a text, a tool call with an input, or an opaque object with its type first.\<close>

definition wire_block :: "json \<Rightarrow> bool" where
  "wire_block b \<longleftrightarrow>
     (\<exists>t. b = JObj [(''type'', JStr ''text''), (''text'', JStr t)]) \<or>
     (\<exists>i n v. b = JObj [(''type'', JStr ''tool_use''), (''id'', JStr i), (''name'', JStr n), (''input'', v)] \<and> v \<noteq> JNull) \<or>
     (\<exists>k rest. b = JObj ((''type'', JStr k) # rest) \<and> k \<noteq> ''text'' \<and> k \<noteq> ''tool_use'' \<and> ''type'' \<notin> fst ` set rest \<and> distinct (map fst rest))"

lemma put_all_new: "distinct (map fst ms) \<Longrightarrow> fst ` set ms \<inter> fst ` set a = {} \<Longrightarrow> put_all ms a = a @ ms"
proof (induction ms arbitrary: a)
  case (Cons m ms)
  have "jm_get a (fst m) = None" using Cons.prems(2) by (auto simp: jm_get_None)
  then have "jm_put (fst m) (snd m) a = a @ [m]" by (simp add: jm_put_new)
  then show ?case using Cons.IH [of "a @ [m]"] Cons.prems by (cases m) (auto simp: put_all_def)
qed (simp add: put_all_def)

lemma jm_put_same: "jm_get m k = Some v \<Longrightarrow> jm_put k v m = m"
  by (induction m) (auto split: if_splits)


lemma jm_put_snoc: "jm_get m k = None \<Longrightarrow> jm_put k w (m @ [(k, v)]) = m @ [(k, w)]"
  by (induction m) (auto split: if_splits)

lemma block_comes_back:
  assumes "wire_block b" and "jm_get (rb_blocks r) (of_nat n) = None"
    and "isToolUseBlock b \<Longrightarrow> codec_ok json_parse stringify (or_empty (data_key (Some b) ''input''))"
  shows "\<exists>acc. fold_events (map event_data (emitBlock stringify b n)) r = Inr (r\<lparr>rb_blocks := rb_blocks r @ [(of_nat n, acc)]\<rparr>) \<and>
    finalizeBlock json_parse acc = b"
proof -
  have index: "numberOr (Some (num (of_nat n))) (- 1) = of_nat n" by (simp add: numberOr_def)
  have jm: "jm_put (of_nat n) acc (rb_blocks r) = rb_blocks r @ [(of_nat n, acc)]" for acc
    using assms(2) by (rule jm_put_new)
  have jm2: "jm_get (rb_blocks r @ [(of_nat n, acc)]) (of_nat n) = Some acc" for acc
    using assms(2) by (simp add: jm_get_def map_add_Some_iff)
  have jm3: "jm_put (of_nat n) acc2 (rb_blocks r @ [(of_nat n, acc)]) = rb_blocks r @ [(of_nat n, acc2)]" for acc acc2
    using assms(2) by (rule jm_put_snoc)
  from assms(1) consider (words) t where "b = JObj [(''type'', JStr ''text''), (''text'', JStr t)]"
    | (tool) i m v where "b = JObj [(''type'', JStr ''tool_use''), (''id'', JStr i), (''name'', JStr m), (''input'', v)]" "v \<noteq> JNull"
    | (opaque) k rest where "b = JObj ((''type'', JStr k) # rest)" "k \<noteq> ''text''" "k \<noteq> ''tool_use''" "''type'' \<notin> fst ` set rest"
        "distinct (map fst rest)"
    unfolding wire_block_def by blast
  then show ?thesis
  proof cases
    case words
    define acc where "acc = \<lparr>ba_type = ''text'', ba_text = t, ba_partialJson = [], ba_thinking = [], ba_signature = [], ba_id = None,
      ba_name = None, ba_seedInput = None, ba_seed = JObj [(''type'', JStr ''text''), (''text'', JStr [])]\<rparr>"
    have "fold_events (map event_data (emitBlock stringify b n)) r = Inr (r\<lparr>rb_blocks := rb_blocks r @ [(of_nat n, acc)]\<rparr>)"
      using words by (simp add: emitBlock_def isToolUseBlock_def emitTextBlock_def event_data_def index_of_def fold_event_def
          on_block_start_def on_block_delta_def append_delta_def or_empty_def str_or_def index jm jm2 jm3 optional_def acc_def)
    moreover have "finalizeBlock json_parse acc = b" using words by (simp add: finalizeBlock_def acc_def)
    ultimately show ?thesis by blast
  next
    case tool
    have codec: "codec_ok json_parse stringify v"
      using assms(3) tool by (cases v) (simp_all add: isToolUseBlock_def or_empty_def)
    have v: "or_empty (Some v) = v" using tool(2) by (cases v) (simp_all add: or_empty_def)
    have o: "or_empty (Some (JObj ms)) = JObj ms" for ms by (simp add: or_empty_def)
    define acc where "acc = \<lparr>ba_type = ''tool_use'', ba_text = [], ba_partialJson = stringify v, ba_thinking = [], ba_signature = [],
      ba_id = Some i, ba_name = Some m, ba_seedInput = Some (JObj []),
      ba_seed = JObj [(''type'', JStr ''tool_use''), (''id'', JStr i), (''name'', JStr m), (''input'', JObj [])]\<rparr>"
    have "fold_events (map event_data (emitBlock stringify b n)) r = Inr (r\<lparr>rb_blocks := rb_blocks r @ [(of_nat n, acc)]\<rparr>)"
      using tool by (simp add: emitBlock_def isToolUseBlock_def emitToolUseBlock_def event_data_def index_of_def fold_event_def
          on_block_start_def on_block_delta_def append_delta_def o v str_or_def index jm jm2 jm3 optional_def acc_def)
    moreover have "finalizeBlock json_parse acc = b"
      using tool codec by (simp add: finalizeBlock_def acc_def codec_ok_def payload_text_def)
    ultimately show ?thesis by blast
  next
    case opaque
    define acc where "acc = \<lparr>ba_type = k, ba_text = [], ba_partialJson = [], ba_thinking = str_or (data_key (Some b) ''thinking''),
      ba_signature = str_or (data_key (Some b) ''signature''), ba_id = str_of (data_key (Some b) ''id''),
      ba_name = str_of (data_key (Some b) ''name''), ba_seedInput = (if member rest ''input'' \<noteq> None then data_key (Some b) ''input'' else None),
      ba_seed = b\<rparr>"
    have fold: "fold_events (map event_data (emitBlock stringify b n)) r = Inr (r\<lparr>rb_blocks := rb_blocks r @ [(of_nat n, acc)]\<rparr>)"
      using opaque by (simp add: emitBlock_def isToolUseBlock_def emitOpaqueBlock_def event_data_def index_of_def fold_event_def
          on_block_start_def or_empty_def index jm acc_def)
    have "filter (\<lambda>(k, v). k \<noteq> ''type'') ((''type'', JStr k) # rest) = rest"
      using opaque(4) by (force simp: filter_id_conv)
    then have rest: "put_all (filter (\<lambda>(k, v). k \<noteq> ''type'') (spread b)) [(''type'', JStr k)] = (''type'', JStr k) # rest"
      using opaque put_all_new [of rest "[(''type'', JStr k)]"] by simp
    have same: "str_or (member rest name) \<noteq> [] \<Longrightarrow> name \<noteq> ''type'' \<Longrightarrow>
        jm_put name (JStr (str_or (member rest name))) ((''type'', JStr k) # rest) = (''type'', JStr k) # rest" for name
    proof -
      assume some: "str_or (member rest name) \<noteq> []" and name: "name \<noteq> ''type''"
      then have "member rest name = Some (JStr (str_or (member rest name)))"
        by (cases "member rest name" rule: option.exhaust) (auto simp: str_or_def split: option.splits elim: str_of.elims)
      then have "jm_get ((''type'', JStr k) # rest) name = Some (JStr (str_or (member rest name)))"
        using name by (simp add: member_def jm_get_def)
      then show ?thesis by (rule jm_put_same)
    qed
    have "finalizeBlock json_parse acc = b"
      using opaque rest same [of "''thinking''"] same [of "''signature''"] by (simp add: finalizeBlock_def acc_def Let_def)
    with fold show ?thesis by blast
  qed
qed

lemma blocks_come_back:
  assumes "\<forall>b\<in>set bs. wire_block b" and "\<forall>n' \<ge> n. jm_get (rb_blocks r) (of_nat n') = None"
    and "\<forall>b\<in>set bs. isToolUseBlock b \<longrightarrow> codec_ok json_parse stringify (or_empty (data_key (Some b) ''input''))"
  shows "\<exists>accs. fold_events (map event_data (emit_blocks stringify bs n)) r =
      Inr (r\<lparr>rb_blocks := rb_blocks r @ zip (map of_nat [n..<n + length bs]) accs\<rparr>) \<and> map (finalizeBlock json_parse) accs = bs"
  using assms
proof (induction bs arbitrary: n r)
  case Nil
  then show ?case by simp
next
  case (Cons b bs)
  obtain acc where acc: "fold_events (map event_data (emitBlock stringify b n)) r = Inr (r\<lparr>rb_blocks := rb_blocks r @ [(of_nat n, acc)]\<rparr>)"
      "finalizeBlock json_parse acc = b"
    using block_comes_back [of b r n json_parse stringify] Cons.prems by auto
  let ?r = "r\<lparr>rb_blocks := rb_blocks r @ [(of_nat n, acc)]\<rparr>"
  have "\<forall>n' \<ge> n + 1. jm_get (rb_blocks ?r) (of_nat n') = None"
    using Cons.prems(2) by (auto simp: jm_get_None)
  then obtain accs where accs: "fold_events (map event_data (emit_blocks stringify bs (n + 1))) ?r =
      Inr (?r\<lparr>rb_blocks := rb_blocks ?r @ zip (map of_nat [n + 1..<n + 1 + length bs]) accs\<rparr>)" "map (finalizeBlock json_parse) accs = bs"
    using Cons.IH [of "n + 1" ?r] Cons.prems by auto
  define zs where "zs = zip (map rat_of_nat [n + 1..<n + 1 + length bs]) accs"
  have "[n..<n + length (b # bs)] = n # [n + 1..<n + 1 + length bs]" by (simp add: upt_conv_Cons del: upt_Suc)
  then have zs: "zip (map of_nat [n..<n + length (b # bs)]) (acc # accs) = (of_nat n, acc) # zs"
    unfolding zs_def by (simp only: list.map zip_Cons_Cons)
  have "fold_events (map event_data (emit_blocks stringify (b # bs) n)) r = Inr (?r\<lparr>rb_blocks := rb_blocks ?r @ zs\<rparr>)"
    unfolding emit_blocks.simps map_append fold_events_append acc(1) sum.case accs(1) zs_def by (rule refl)
  then have "fold_events (map event_data (emit_blocks stringify (b # bs) n)) r =
      Inr (r\<lparr>rb_blocks := rb_blocks r @ zip (map of_nat [n..<n + length (b # bs)]) (acc # accs)\<rparr>)"
    unfolding zs by simp
  moreover have "map (finalizeBlock json_parse) (acc # accs) = b # bs" using acc(2) accs(2) by simp
  ultimately show ?case by (intro exI conjI)
qed

lemma js_sort_id: "sorted_wrt le xs \<Longrightarrow> js_sort le xs = xs"
proof (induction xs)
  case (Cons x xs)
  then show ?case by (cases xs) auto
qed simp

section \<open>The round trip\<close>

text \<open>What the reader makes of a message that was written: the members the writer fills in, everything else as it was.\<close>

definition received :: "string \<Rightarrow> assistant_message \<Rightarrow> assistant_message" where
  "received uuid msg =
     \<lparr>am_id = (case am_id msg of None \<Rightarrow> Some (syntheticMessageId uuid) | Some i \<Rightarrow> if i = [] then None else Some i),
      am_model = (case am_model msg of None \<Rightarrow> None | Some m \<Rightarrow> if m = [] then None else Some m),
      am_content = am_content msg,
      am_stop_reason = (if am_stop_reason msg = JNull then JStr ''end_turn'' else am_stop_reason msg),
      am_stop_sequence = Some (case am_stop_sequence msg of None \<Rightarrow> JNull | Some v \<Rightarrow> v),
      am_usage = Some (put_all (usage_number (am_usage msg) ''output_tokens'') (startUsage msg))\<rparr>"

lemma syntheticMessageId_nonempty [simp]: "syntheticMessageId uuid \<noteq> []"
  by (simp add: syntheticMessageId_def)

lemma start_comes_back:
  "fold_event (event_data (message_start_event uuid msg)) new_rebuild =
     Inr (new_rebuild\<lparr>rb_id := am_id (received uuid msg), rb_model := am_model (received uuid msg), rb_usage := Some (startUsage msg)\<rparr>)"
  by (auto simp: event_data_def message_start_event_def fold_event_def on_message_start_def new_rebuild_def received_def or_else_def
      nonempty_str_def split: option.splits)

lemma end_comes_back:
  assumes "rb_usage r = Some (startUsage msg)"
  shows "fold_events (map event_data (end_events msg)) r =
     Inr (r\<lparr>rb_stopReason := am_stop_reason (received uuid msg), rb_stopSequence := am_stop_sequence (received uuid msg),
       rb_usage := am_usage (received uuid msg)\<rparr>)"
proof -
  have none: "put_all [] a = a" for a by (simp add: put_all_def)
  show ?thesis using assms
    by (cases "usage_number (am_usage msg) ''output_tokens''"; cases "am_stop_reason msg")
       (auto simp: event_data_def end_events_def endDelta_def fold_event_def on_message_delta_def received_def Let_def none)
qed

text \<open>C13. A message written as an event stream (\<^verbatim>\<open>emitSse\<close>) and read back (\<^verbatim>\<open>reconstructFromSse\<close>) is the same message, for
  every content of text, tool and opaque blocks: the same blocks in the same order, with the tool inputs, the stop reason and the
  identity they had; only the members the writer fills in differ (\<open>received\<close>). \<^verbatim>\<open>JSON.stringify\<close> is assumed to read back and to
  write one line, on the events written and the tool inputs.
\<close>

theorem written_message_read_back:
  assumes "\<forall>b\<in>set (am_content msg). wire_block b \<and>
      (isToolUseBlock b \<longrightarrow> codec_ok json_parse stringify (or_empty (data_key (Some b) ''input'')))"
    and "\<forall>e\<in>set (sse_events stringify uuid msg). codec_ok json_parse stringify (event_data e)"
  shows "reconstructFromSse json_parse (emitSse stringify uuid msg) = Inr (received uuid msg)"
proof -
  let ?bs = "am_content msg"
  let ?r0 = "new_rebuild\<lparr>rb_id := am_id (received uuid msg), rb_model := am_model (received uuid msg), rb_usage := Some (startUsage msg)\<rparr>"
  have nb: "rb_blocks new_rebuild = []" by (simp add: new_rebuild_def)
  obtain accs where accs: "fold_events (map event_data (emit_blocks stringify ?bs 0)) ?r0 =
      Inr (?r0\<lparr>rb_blocks := rb_blocks ?r0 @ zip (map of_nat [0..<0 + length ?bs]) accs\<rparr>)" "map (finalizeBlock json_parse) accs = ?bs"
    using blocks_come_back [of ?bs 0 ?r0 json_parse stringify] assms(1) by (auto simp: new_rebuild_def)
  let ?blocks = "zip (map rat_of_nat [0..<length ?bs]) accs"
  have len: "length accs = length ?bs" using accs(2) by (metis length_map)
  have kinds: "CR \<notin> set (fst e) \<and> LF \<notin> set (fst e)" if "e \<in> set (sse_events stringify uuid msg)" for e
  proof -
    have "e \<in> set (emit_blocks stringify bs n) \<Longrightarrow> CR \<notin> set (fst e) \<and> LF \<notin> set (fst e)" for bs n
      by (induction bs arbitrary: n)
         (auto simp: emitBlock_def emitToolUseBlock_def emitTextBlock_def emitOpaqueBlock_def split: if_splits)
    then show ?thesis using that by (auto simp: sse_events_def message_start_event_def end_events_def)
  qed
  have "fold_payloads json_parse (iterateDataPayloads (emitSse stringify uuid msg)) new_rebuild =
      fold_events (map event_data (sse_events stringify uuid msg)) new_rebuild"
    unfolding emitSse_def by (rule written_events) (use assms(2) kinds in auto)
  also have "\<dots> = fold_events (map event_data (end_events msg)) (?r0\<lparr>rb_blocks := ?blocks\<rparr>)"
    using accs(1) nb by (simp add: sse_events_def start_comes_back fold_events_append)
  also have "\<dots> = Inr (?r0\<lparr>rb_blocks := ?blocks, rb_stopReason := am_stop_reason (received uuid msg),
      rb_stopSequence := am_stop_sequence (received uuid msg), rb_usage := am_usage (received uuid msg)\<rparr>)"
    by (subst end_comes_back [where uuid = uuid]) simp_all
  finally have fold: "fold_payloads json_parse (iterateDataPayloads (emitSse stringify uuid msg)) new_rebuild = \<dots>" .
  have "js_sort (\<lambda>a b. fst a \<le> fst b) ?blocks = ?blocks"
    by (rule js_sort_id) (simp add: sorted_wrt_iff_nth_less len)
  moreover have "map (\<lambda>(i, acc). finalizeBlock json_parse acc) ?blocks = ?bs"
    using accs(2) len by (metis (no_types, lifting) case_prod_unfold length_map length_upt map_snd_zip map_map comp_apply map_cong minus_nat.diff_0)
  ultimately show ?thesis using fold by (simp add: reconstructFromSse_def received_def)
qed

definition two_blocks :: assistant_message where
  "two_blocks = \<lparr>am_id = None, am_model = Some ''m'',
     am_content = [JObj [(''type'', JStr ''text''), (''text'', JStr ''hi'')],
       JObj [(''type'', JStr ''tool_use''), (''id'', JStr ''c1''), (''name'', JStr ''ls''), (''input'', JObj [])]],
     am_stop_reason = JStr ''tool_use'', am_stop_sequence = None, am_usage = None\<rparr>"

definition brief :: "json \<Rightarrow> string" where
  "brief j = ''{'' @ str_or (data_key (Some j) ''type'') @ (if rat_of (data_key (Some j) ''index'') = Some 1 then ''1'' else [])"

definition unbrief :: "string \<Rightarrow> json option" where
  "unbrief s = find (\<lambda>j. brief j = s) (JObj [] # map event_data (sse_events brief ''a-b'' two_blocks))"

theorem written_message_read_back_witness:
  "reconstructFromSse unbrief (emitSse brief ''a-b'' two_blocks) = Inr (received ''a-b'' two_blocks) \<and>
   am_id (received ''a-b'' two_blocks) = Some ''msg_relay_ab''"
proof -
  have "\<forall>b\<in>set (am_content two_blocks). wire_block b \<and>
      (isToolUseBlock b \<longrightarrow> codec_ok unbrief brief (or_empty (data_key (Some b) ''input'')))"
    by (auto simp: two_blocks_def wire_block_def isToolUseBlock_def or_empty_def codec_ok_def unbrief_def brief_def payload_text_def
        js_space_def str_or_def)
  moreover have "\<forall>e\<in>set (sse_events brief ''a-b'' two_blocks). codec_ok unbrief brief (event_data e)"
    by code_simp
  ultimately show ?thesis using written_message_read_back [of two_blocks unbrief brief "''a-b''"]
    by (auto simp: received_def two_blocks_def syntheticMessageId_def)
qed

section \<open>Where the reader throws\<close>

fun primitive :: "json \<Rightarrow> bool" where
  "primitive (JArr xs) = False"
| "primitive (JObj ms) = False"
| "primitive v = True"

text \<open>An event on which the reader throws: \<^verbatim>\<open>in\<close> is applied to a primitive block or to a truthy primitive delta.\<close>

definition throws :: "json \<Rightarrow> bool" where
  "throws evt \<longleftrightarrow>
     (data_key (Some evt) ''type'' = Some (JStr ''content_block_start'') \<and> primitive (or_empty (data_key (Some evt) ''content_block''))) \<or>
     (data_key (Some evt) ''type'' = Some (JStr ''message_delta'') \<and>
       (case data_key (Some evt) ''delta'' of None \<Rightarrow> False | Some d \<Rightarrow> truthy d \<and> primitive d))"

lemma has_member_throws: "isl (has_member name v) \<longleftrightarrow> primitive v"
  by (cases v) simp_all

lemma isl_case: "isl (case x of Inl e \<Rightarrow> Inl e | Inr y \<Rightarrow> f y) \<longleftrightarrow> isl x \<or> (\<exists>y. x = Inr y \<and> isl (f y))"
  by (cases x) simp_all

lemma fold_event_throws: "isl (fold_event evt r) \<longleftrightarrow> throws evt"
proof -
  have start: "isl (on_block_start i cb r) \<longleftrightarrow> primitive cb" for i cb
    by (simp add: on_block_start_def isl_case has_member_throws)
  have delta: "isl (on_message_delta v u r) \<longleftrightarrow> (case v of None \<Rightarrow> False | Some d \<Rightarrow> truthy d \<and> primitive d)" for v u
    by (simp add: on_message_delta_def Let_def isl_case has_member_throws split: option.split)
  show ?thesis
    by (cases "data_key (Some evt) ''type''" rule: option.exhaust; cases "the (data_key (Some evt) ''type'')")
       (simp_all add: fold_event_def throws_def Let_def start delta)
qed

lemma fold_payloads_throws:
  "isl (fold_payloads json_parse ds r) \<longleftrightarrow> (\<exists>d\<in>set ds. \<exists>evt. json_parse d = Some evt \<and> throws evt)"
proof (induction ds arbitrary: r)
  case (Cons d ds)
  show ?case
  proof (cases "json_parse d")
    case (Some evt)
    show ?thesis using Some Cons fold_event_throws [of evt r] by (cases "fold_event evt r") auto
  qed (use Cons in simp)
qed simp

text \<open>C14. The reader throws exactly when some payload of the stream is an event whose block, or whose truthy delta, is a primitive;
  every other malformed payload is skipped or defaulted.
\<close>

theorem reader_throws_exactly:
  "reconstructFromSse json_parse raw = Inl e \<longleftrightarrow>
     (\<exists>d\<in>set (iterateDataPayloads raw). \<exists>evt. json_parse d = Some evt \<and> throws evt)"
proof -
  have e: "e = InOnPrimitive" by (cases e)
  have "isl (reconstructFromSse json_parse raw) \<longleftrightarrow> isl (fold_payloads json_parse (iterateDataPayloads raw) new_rebuild)"
    by (simp add: reconstructFromSse_def split: sum.split)
  moreover have "isl (reconstructFromSse json_parse raw) \<longleftrightarrow> reconstructFromSse json_parse raw = Inl e"
    unfolding e by (cases "reconstructFromSse json_parse raw") (auto intro: type_error.exhaust)
  ultimately show ?thesis using fold_payloads_throws by metis
qed

end
