(* ===== verification/Stream_Commit.thy ===== *)
theory Stream_Commit
  imports Sse_Frames Json_Read "HOL-Library.Word"
begin

text \<open>
  The commit probe of a streamed response (\<^verbatim>\<open>stream-commit.ts\<close>): a stream is read until one event carries meaningful content,
  and only then is anything sent to the client. \<^verbatim>\<open>JSON.parse\<close>, the text decoder and the rendering of a number are
  parameters; what the reader hands out, and what the two flags say at that moment, is a list of readings.
\<close>

section \<open>The cause of a dead stream\<close>

datatype commit_protocol = AnthropicMessages | OpenaiChat | OpenaiResponses
datatype front_protocol = FrontAnthropic | FrontChat | FrontResponses
datatype fault_side = UpstreamFault | LocalFault
datatype stop_cause = StopMaxTokens | StopToolUse

record dead_classification =
  cl_stopReason :: "stop_cause option"
  cl_reasoningTokens :: "rat option"

definition relayAuthoredResponse :: "bool \<Rightarrow> front_protocol \<Rightarrow> fault_side" where
  "relayAuthoredResponse targetAnthropic front =
     (let passthrough = (targetAnthropic \<and> front = FrontAnthropic) \<or> (\<not> targetAnthropic \<and> front = FrontChat)
      in if passthrough then UpstreamFault else LocalFault)"

definition STREAM_PREFLIGHT_LIMIT :: nat where
  "STREAM_PREFLIGHT_LIMIT = 64 * 1024"

fun isRecord :: "json option \<Rightarrow> bool" where
  "isRecord (Some (JObj ms)) = True"
| "isRecord v = False"

text \<open>A member that is a text, else the empty text.\<close>

definition text_member :: "(string \<times> json) list \<Rightarrow> string \<Rightarrow> string" where
  "text_member value key = (case str_of (member value key) of Some s \<Rightarrow> s | None \<Rightarrow> [])"

text \<open>The members of a record, of anything else none.\<close>

fun members :: "json option \<Rightarrow> (string \<times> json) list" where
  "members (Some (JObj ms)) = ms"
| "members v = []"

definition normalizeStopReason :: "json option \<Rightarrow> stop_cause option" where
  "normalizeStopReason value =
     (case str_of value of
        None \<Rightarrow> None
      | Some s \<Rightarrow>
          if s = ''max_tokens'' \<or> s = ''length'' then Some StopMaxTokens
          else if s = ''tool_use'' \<or> s = ''tool_calls'' \<or> s = ''function_call'' then Some StopToolUse
          else None)"

fun numericField :: "(string \<times> json) list \<Rightarrow> string list \<Rightarrow> rat option" where
  "numericField value [] = None"
| "numericField value (key # keys) =
     (if finite_at_least_0 (member value key) then rat_of (member value key) else numericField value keys)"

definition recordStop :: "json option \<Rightarrow> dead_classification \<Rightarrow> dead_classification" where
  "recordStop value c = (case normalizeStopReason value of None \<Rightarrow> c | Some s \<Rightarrow> c\<lparr>cl_stopReason := Some s\<rparr>)"

definition recordUsage :: "json option \<Rightarrow> dead_classification \<Rightarrow> dead_classification" where
  "recordUsage value c =
     (if \<not> isRecord value then c
      else (case numericField (members value) [''reasoning_tokens'', ''reasoningTokens'', ''reasoning_output_tokens''] of
          None \<Rightarrow> c | Some n \<Rightarrow> c\<lparr>cl_reasoningTokens := Some n\<rparr>))"

definition cause_snapshot :: "dead_classification \<Rightarrow> dead_classification option" where
  "cause_snapshot c = (if cl_stopReason c = None \<and> cl_reasoningTokens c = None then None else Some c)"

fun STOP_CAUSE_ERROR_KINDS :: "stop_cause \<Rightarrow> string" where
  "STOP_CAUSE_ERROR_KINDS StopMaxTokens = ''backend_stopped_at_max_tokens''"
| "STOP_CAUSE_ERROR_KINDS StopToolUse = ''backend_stopped_at_tool_use''"

definition stopCauseToken :: "dead_classification option \<Rightarrow> string" where
  "stopCauseToken classification =
     (case classification of
        None \<Rightarrow> ''stop_reason_unknown''
      | Some c \<Rightarrow> (case cl_stopReason c of None \<Rightarrow> ''stop_reason_unknown'' | Some s \<Rightarrow> STOP_CAUSE_ERROR_KINDS s))"

definition token_count :: "(rat \<Rightarrow> string) \<Rightarrow> rat \<Rightarrow> string" where
  "token_count show_num n = show_num n @ '' reasoning token'' @ (if n = 1 then [] else ''s'')"

definition describeStreamStopCause :: "(rat \<Rightarrow> string) \<Rightarrow> dead_classification \<Rightarrow> string" where
  "describeStreamStopCause show_num c =
     (let reasoning = (case cl_reasoningTokens c of None \<Rightarrow> [] | Some n \<Rightarrow> '' after '' @ token_count show_num n) in
      case cl_stopReason c of
        Some StopMaxTokens \<Rightarrow> ''the backend stopped at max_tokens'' @ reasoning @ '' and no text''
      | Some StopToolUse \<Rightarrow> ''the backend stopped at a tool call'' @ reasoning @ '' with no text the relay could commit''
      | None \<Rightarrow> (case cl_reasoningTokens c of
            None \<Rightarrow> ''the backend sent no text and stated no stop reason''
          | Some n \<Rightarrow> ''the backend produced '' @ token_count show_num n @ '' and no text''))"

section \<open>Meaningful content\<close>

datatype event_verdict = Hold | Ready | Dead string fault_side "string option"

fun nonWhitespace :: "json option \<Rightarrow> bool" where
  "nonWhitespace (Some (JStr s)) = (js_trim s \<noteq> [])"
| "nonWhitespace v = False"

fun substantive :: "json \<Rightarrow> bool" where
  "substantive (JStr s) = (js_trim s \<noteq> [])"
| "substantive (JNum x) = True"
| "substantive (JBool b) = True"
| "substantive JNull = False"
| "substantive (JArr xs) = list_ex substantive xs"
| "substantive (JObj ms) = list_ex (\<lambda>(k, v). substantive v) ms"

fun substantive_member :: "json option \<Rightarrow> bool" where
  "substantive_member None = False"
| "substantive_member (Some v) = substantive v"

definition substantiveFields :: "(string \<times> json) list \<Rightarrow> string list \<Rightarrow> bool" where
  "substantiveFields value ignored = list_ex (\<lambda>(key, field). key \<notin> set ignored \<and> substantive field) value"

definition ready_if :: "bool \<Rightarrow> event_verdict" where
  "ready_if b = (if b then Ready else Hold)"

definition NO_CONTENT :: event_verdict where
  "NO_CONTENT = Dead ''stream completed without meaningful content'' UpstreamFault None"

text \<open>The error of an event: its \<^verbatim>\<open>error\<close> member when that is a record, else the event.\<close>

definition error_of :: "(string \<times> json) list \<Rightarrow> (string \<times> json) list" where
  "error_of value = (if isRecord (member value ''error'') then members (member value ''error'') else value)"

definition error_text :: "(string \<times> json) list \<Rightarrow> string" where
  "error_text value = take 200 (js_trim (text_member (error_of value) ''message''))"

definition boundedError :: "(string \<times> json) list \<Rightarrow> string" where
  "boundedError value =
     (let message = error_text value in
      if message \<noteq> [] then ''in-band error before meaningful content: '' @ message else ''in-band error before meaningful content'')"

definition DIALECT_REFUSED_DESTRUCTIVE_CODE :: string where
  "DIALECT_REFUSED_DESTRUCTIVE_CODE = ''tool_dialect_refused_destructive''"

definition relayAuthored :: "(string \<times> json) list \<Rightarrow> bool \<Rightarrow> bool" where
  "relayAuthored value refused \<longleftrightarrow> refused \<and>
     (member (error_of value) ''type'' = Some (JStr DIALECT_REFUSED_DESTRUCTIVE_CODE) \<or>
      member (error_of value) ''code'' = Some (JStr DIALECT_REFUSED_DESTRUCTIVE_CODE))"

definition errorVerdict :: "(string \<times> json) list \<Rightarrow> bool \<Rightarrow> event_verdict" where
  "errorVerdict value refused =
     (if \<not> relayAuthored value refused then Dead (boundedError value) UpstreamFault None
      else (let message = error_text value in
        Dead (if message \<noteq> [] then message else ''refused a tool call recovered from text because it names a destructive tool'')
          LocalFault (Some DIALECT_REFUSED_DESTRUCTIVE_CODE)))"

section \<open>Anthropic events\<close>

definition anthropicBlockStartVerdict :: "(string \<times> json) list \<Rightarrow> event_verdict" where
  "anthropicBlockStartVerdict block =
     (let blockType = text_member block ''type'' in
      if blockType = ''tool_use'' then ready_if (nonWhitespace (member block ''id'') \<or> nonWhitespace (member block ''name''))
      else if blockType = ''text'' then ready_if (nonWhitespace (member block ''text''))
      else if blockType = ''thinking'' then ready_if (nonWhitespace (member block ''thinking''))
      else ready_if (substantiveFields block [''type'', ''index'']))"

definition anthropicBlockDeltaVerdict :: "(string \<times> json) list \<Rightarrow> event_verdict" where
  "anthropicBlockDeltaVerdict delta =
     (let deltaType = text_member delta ''type'' in
      if deltaType = ''text_delta'' then ready_if (nonWhitespace (member delta ''text''))
      else if deltaType = ''thinking_delta'' then ready_if (nonWhitespace (member delta ''thinking''))
      else if deltaType = ''input_json_delta'' \<or> deltaType = ''signature_delta'' then Hold
      else ready_if (substantiveFields delta [''type'', ''index'']))"

definition anthropicVerdict :: "(string \<times> json) list \<Rightarrow> bool \<Rightarrow> event_verdict" where
  "anthropicVerdict value refused =
     (let type = text_member value ''type''; block = member value ''content_block''; delta = member value ''delta'' in
      if type = ''error'' \<or> isRecord (member value ''error'') then errorVerdict value refused
      else if type = ''message_stop'' then NO_CONTENT
      else if type = ''content_block_start'' then (if isRecord block then anthropicBlockStartVerdict (members block) else Hold)
      else if type = ''content_block_delta'' then (if isRecord delta then anthropicBlockDeltaVerdict (members delta) else Hold)
      else if starts_with ''content_block_'' type
      then ready_if ((isRecord block \<and> substantiveFields (members block) [''type'', ''index'']) \<or>
        (isRecord delta \<and> substantiveFields (members delta) [''type'', ''index'']))
      else Hold)"

section \<open>Chat completion events\<close>

definition chatToolCallMeaningful :: "json \<Rightarrow> bool" where
  "chatToolCallMeaningful v =
     (if \<not> isRecord (Some v) then False
      else if nonWhitespace (data_key (Some v) ''id'') then True
      else (let f = data_key (Some v) ''function'' in
        if \<not> isRecord f then False
        else nonWhitespace (data_key f ''name'') \<or> nonWhitespace (data_key f ''arguments'')))"

fun some_array :: "(json \<Rightarrow> bool) \<Rightarrow> json option \<Rightarrow> bool" where
  "some_array ok (Some (JArr xs)) = list_ex ok xs"
| "some_array ok v = False"

definition chat_delta_meaningful :: "(string \<times> json) list \<Rightarrow> bool" where
  "chat_delta_meaningful delta \<longleftrightarrow>
     nonWhitespace (member delta ''content'') \<or> nonWhitespace (member delta ''refusal'') \<or>
     nonWhitespace (member delta ''reasoning_content'') \<or> nonWhitespace (member delta ''reasoning'') \<or>
     some_array chatToolCallMeaningful (member delta ''tool_calls'') \<or>
     substantiveFields delta [''role'', ''content'', ''refusal'', ''reasoning_content'', ''reasoning'', ''tool_calls'']"

fun chat_choices :: "json list \<Rightarrow> bool \<Rightarrow> event_verdict" where
  "chat_choices [] finished = (if finished then NO_CONTENT else Hold)"
| "chat_choices (rawChoice # choices) finished =
     (if \<not> isRecord (Some rawChoice) then Dead ''OpenAI stream choice is not an object'' UpstreamFault None
      else
        (let reason = data_key (Some rawChoice) ''finish_reason'';
             finished' = (finished \<or> (reason \<noteq> Some JNull \<and> reason \<noteq> None));
             delta = data_key (Some rawChoice) ''delta''
         in if \<not> isRecord delta then chat_choices choices finished'
            else if chat_delta_meaningful (members delta) then Ready
            else chat_choices choices finished'))"

definition openAiChatVerdict :: "(string \<times> json) list \<Rightarrow> bool \<Rightarrow> event_verdict" where
  "openAiChatVerdict value refused =
     (if isRecord (member value ''error'') \<or> member value ''type'' = Some (JStr ''error'') then errorVerdict value refused
      else (case member value ''choices'' of
          Some (JArr choices) \<Rightarrow> if choices = [] then Hold else chat_choices choices False
        | _ \<Rightarrow> Dead ''OpenAI stream event is missing choices'' UpstreamFault None))"

section \<open>Responses events\<close>

lemma entry_size: "(k, v) \<in> set ms \<Longrightarrow> size v < size (JObj ms)"
proof (induction ms)
  case (Cons m ms)
  then show ?case by (cases m) (auto simp: less_Suc_eq_le)
qed simp

lemma element_size: "member ms k = Some (JArr xs) \<Longrightarrow> x \<in> set xs \<Longrightarrow> size x < size (JObj ms)"
proof -
  assume "member ms k = Some (JArr xs)" and x: "x \<in> set xs"
  then have "size (JArr xs) < size (JObj ms)" by (intro entry_size [of k]) (simp add: member_def map_of_SomeD)
  moreover have "size x < size (JArr xs)" using size_list_estimation' [OF x order_refl, of size] by simp
  ultimately show ?thesis by (rule less_trans [rotated])
qed

function responsesItemMeaningful :: "json \<Rightarrow> bool" where
  "responsesItemMeaningful (JObj ms) =
     (let type = text_member ms ''type''; has = (\<lambda>k. nonWhitespace (member ms k)) in
      if type = ''function_call'' then has ''id'' \<or> has ''call_id'' \<or> has ''name'' \<or> has ''arguments''
      else if type = ''output_text'' \<or> type = ''refusal'' \<or> type = ''reasoning''
      then has ''text'' \<or> has ''refusal'' \<or> substantive_member (member ms ''content'')
      else if type = ''message''
      then (case member ms ''content'' of
          Some (JArr xs) \<Rightarrow> list_ex responsesItemMeaningful xs
        | _ \<Rightarrow> substantiveFields ms [''type'', ''id'', ''status'', ''role'', ''index''])
      else substantiveFields ms [''type'', ''id'', ''status'', ''role'', ''index''])"
| "responsesItemMeaningful JNull = False"
| "responsesItemMeaningful (JBool b) = False"
| "responsesItemMeaningful (JNum x) = False"
| "responsesItemMeaningful (JStr t) = False"
| "responsesItemMeaningful (JArr xs) = False"
  by pat_completeness auto
termination
  by (relation "measure size") (auto simp only: in_measure wf_measure intro: element_size)

definition item_meaningful :: "json option \<Rightarrow> bool" where
  "item_meaningful v = (case v of None \<Rightarrow> False | Some x \<Rightarrow> responsesItemMeaningful x)"

definition ends_with :: "string \<Rightarrow> string \<Rightarrow> bool" where
  "ends_with e v \<longleftrightarrow> starts_with (rev e) (rev v)"

definition openAiResponsesVerdict :: "(string \<times> json) list \<Rightarrow> bool \<Rightarrow> event_verdict" where
  "openAiResponsesVerdict value refused =
     (let type = text_member value ''type''; has = (\<lambda>k. nonWhitespace (member value k)) in
      if type = ''error'' \<or> type = ''response.failed'' \<or> isRecord (member value ''error'') then errorVerdict value refused
      else if type = ''response.incomplete'' \<or> type = ''response.cancelled''
      then Dead (type @ '' before meaningful content'') UpstreamFault None
      else if type = ''response.output_text.delta'' \<or> type = ''response.refusal.delta'' \<or> type = ''response.reasoning.delta'' \<or>
        type = ''response.reasoning_text.delta''
      then ready_if (has ''delta'' \<or> has ''text'')
      else if type = ''response.function_call_arguments.delta'' then ready_if (has ''delta'')
      else if type = ''response.output_item.added'' \<or> type = ''response.output_item.done'' then ready_if (item_meaningful (member value ''item''))
      else if type = ''response.content_part.added'' \<or> type = ''response.content_part.done'' then ready_if (item_meaningful (member value ''part''))
      else if type = ''response.completed''
      then (let response = members (member value ''response''); status = str_of (member response ''status'') in
        if status = Some ''failed'' \<or> status = Some ''incomplete'' \<or> status = Some ''cancelled''
        then Dead ''response completed unsuccessfully before meaningful content'' UpstreamFault None
        else if some_array responsesItemMeaningful (member response ''output'') then Ready else NO_CONTENT)
      else if ends_with ''.delta'' type
      then ready_if (substantiveFields value [''type'', ''sequence_number'', ''output_index'', ''content_index'', ''item_id''])
      else if ends_with ''.done'' type then ready_if (has ''text'' \<or> has ''refusal'' \<or> item_meaningful (member value ''item''))
      else Hold)"

end
