(* ===== verification/Stream_Probe.thy ===== *)
theory Stream_Probe
  imports Stream_Commit
begin

text \<open>
  The verdict on one event and the probe itself (\<^verbatim>\<open>stream-commit.ts\<close>).
\<close>

section \<open>What an event says of the cause\<close>

definition if_record :: "json option \<Rightarrow> (json option \<Rightarrow> dead_classification \<Rightarrow> dead_classification) \<Rightarrow> dead_classification \<Rightarrow> dead_classification" where
  "if_record v f c = (if isRecord v then f v c else c)"

definition observe_choice :: "json \<Rightarrow> dead_classification \<Rightarrow> dead_classification" where
  "observe_choice choice c =
     (if \<not> isRecord (Some choice) then c
      else if_record (data_key (Some choice) ''usage'') recordUsage (recordStop (data_key (Some choice) ''finish_reason'') c))"

definition usage_with_details :: "string \<Rightarrow> json option \<Rightarrow> dead_classification \<Rightarrow> dead_classification" where
  "usage_with_details details usage c = if_record usage (\<lambda>u c. if_record (data_key u details) recordUsage (recordUsage u c)) c"

definition observeStopCause :: "(string \<times> json) list \<Rightarrow> commit_protocol \<Rightarrow> dead_classification \<Rightarrow> dead_classification" where
  "observeStopCause value protocol c =
     (case protocol of
        AnthropicMessages \<Rightarrow>
          (let delta = member value ''delta'';
               c1 = (if text_member value ''type'' = ''message_delta''
                 then if_record (member value ''usage'') recordUsage
                   (recordStop (if isRecord delta then data_key delta ''stop_reason'' else None) c)
                 else c);
               message = member value ''message'';
               c2 = (if isRecord message then if_record (data_key message ''usage'') recordUsage c1 else c1)
           in if_record (member value ''usage'') recordUsage c2)
      | OpenaiChat \<Rightarrow>
          usage_with_details ''completion_tokens_details'' (member value ''usage'')
            (case member value ''choices'' of Some (JArr choices) \<Rightarrow> fold observe_choice choices c | _ \<Rightarrow> c)
      | OpenaiResponses \<Rightarrow>
          (let response = member value ''response'' in
           if_record (member value ''usage'') recordUsage
             (if isRecord response
              then usage_with_details ''output_tokens_details'' (data_key response ''usage'')
                (recordStop (data_key (data_key response ''incomplete_details'') ''reason'') c)
              else c)))"

section \<open>One event\<close>

text \<open>\<^verbatim>\<open>line.replace(/^ /, "")\<close>\<close>

definition without_space :: "string \<Rightarrow> string" where
  "without_space line = (case line of c # cs \<Rightarrow> if c = CHR '' '' then cs else line | [] \<Rightarrow> [])"

definition protocol_verdict :: "commit_protocol \<Rightarrow> (string \<times> json) list \<Rightarrow> bool \<Rightarrow> event_verdict" where
  "protocol_verdict protocol value refused =
     (case protocol of
        AnthropicMessages \<Rightarrow> anthropicVerdict value refused
      | OpenaiChat \<Rightarrow> openAiChatVerdict value refused
      | OpenaiResponses \<Rightarrow> openAiResponsesVerdict value refused)"

definition classifyEvent ::
  "(string \<Rightarrow> json option) \<Rightarrow> commit_protocol \<Rightarrow> fault_side \<Rightarrow> bool \<Rightarrow> string \<Rightarrow> dead_classification \<Rightarrow> dead_classification \<times> event_verdict" where
  "classifyEvent json_parse protocol malformed refused event cause =
     (let fields = sseEventFields event;
          eventName = (case ef_eventLines fields of [] \<Rightarrow> [] | l # ls \<Rightarrow> js_trim l);
          data = js_trim (join_with [LF] (map without_space (ef_dataLines fields)))
      in if data = []
         then (cause, if eventName = ''error'' then Dead ''in-band error before meaningful content'' UpstreamFault None else Hold)
         else if data = ''[DONE]'' then (cause, NO_CONTENT)
         else (case json_parse data of
             None \<Rightarrow> (cause, Dead ''stream event before meaningful content is not valid JSON'' malformed None)
           | Some parsed \<Rightarrow>
               if \<not> isRecord (Some parsed)
               then (cause, Dead ''stream event before meaningful content is not an object'' malformed None)
               else (let value = members (Some parsed) in
                 (observeStopCause value protocol cause,
                  if eventName = ''error'' \<and> member value ''type'' \<noteq> Some (JStr ''error'') \<and> \<not> isRecord (member value ''error'')
                  then errorVerdict value refused
                  else protocol_verdict protocol value refused))))"

section \<open>The probe\<close>

text \<open>One answer of the reader; with it, whether the client is gone and whether the relay has refused, at that moment.\<close>

datatype read_result = Piece "8 word list" | Finished | Broken

record reading =
  rd_result :: read_result
  rd_cancelled :: bool
  rd_refused :: bool

record 'd text_decoder =
  td_start :: 'd
  td_step :: "'d \<Rightarrow> 8 word list \<Rightarrow> 'd \<times> string"
  td_flush :: "'d \<Rightarrow> string"

record 'd probe_options =
  pr_parse :: "string \<Rightarrow> json option"
  pr_show_num :: "rat \<Rightarrow> string"
  pr_decoder :: "'d text_decoder"
  pr_protocol :: commit_protocol
  pr_malformed :: fault_side
  pr_readFailure :: fault_side

text \<open>What the committed body hands out. A reader that has finished answers so again.\<close>

datatype delivery = Deliver "8 word list" | CloseBody | FailBody

datatype probe_result =
    ProbeReady "delivery list"
  | ProbeDead string fault_side "string option" "dead_classification option"
  | ProbeCancelled

fun pull_reader :: "reading list \<Rightarrow> delivery list" where
  "pull_reader [] = []"
| "pull_reader (r # rs) = (case rd_result r of Piece b \<Rightarrow> Deliver b # pull_reader rs | Finished \<Rightarrow> [CloseBody] | Broken \<Rightarrow> [FailBody])"

definition ready_body :: "8 word list list \<Rightarrow> reading list \<Rightarrow> delivery list" where
  "ready_body chunks rest = map Deliver chunks @ pull_reader rest"

definition probe_dead :: "'d probe_options \<Rightarrow> bool \<Rightarrow> dead_classification \<Rightarrow> string \<Rightarrow> fault_side \<Rightarrow> string option \<Rightarrow> probe_result" where
  "probe_dead opts cancelled cause reason side errorType =
     (if cancelled then ProbeCancelled
      else ProbeDead (case cause_snapshot cause of None \<Rightarrow> reason
          | Some c \<Rightarrow> reason @ '': '' @ describeStreamStopCause (pr_show_num opts) c) side errorType (cause_snapshot cause))"

fun classify_frames :: "'d probe_options \<Rightarrow> bool \<Rightarrow> string list \<Rightarrow> dead_classification \<Rightarrow> event_verdict \<Rightarrow> dead_classification \<times> event_verdict" where
  "classify_frames opts refused [] cause verdict = (cause, verdict)"
| "classify_frames opts refused (event # events) cause verdict =
     (let (cause1, found) = classifyEvent (pr_parse opts) (pr_protocol opts) (pr_malformed opts) refused event cause
      in classify_frames opts refused events cause1 (if verdict = Hold then found else verdict))"

text \<open>The buffer, the cause and the verdict after the complete events of the buffer.\<close>

definition drainFrames :: "'d probe_options \<Rightarrow> bool \<Rightarrow> string \<Rightarrow> dead_classification \<Rightarrow> string \<times> dead_classification \<times> event_verdict" where
  "drainFrames opts refused buffered cause =
     (let (rest, frames) = frames_drain buffered in (rest, classify_frames opts refused (map sf_frame frames) cause Hold))"

text \<open>At the end of the stream: what is left is one more event, which after a verdict only adds to the cause.\<close>

definition inspect_final :: "'d probe_options \<Rightarrow> bool \<Rightarrow> string \<Rightarrow> dead_classification \<Rightarrow> dead_classification \<times> event_verdict" where
  "inspect_final opts refused buffered cause =
     (let (rest, cause1, verdict) = drainFrames opts refused buffered cause; event = snd (takeRemainder [] rest) in
      if js_trim event = [] then (cause1, verdict)
      else (let (cause2, found) = classifyEvent (pr_parse opts) (pr_protocol opts) (pr_malformed opts) refused event cause1
        in (cause2, if verdict \<noteq> Hold then verdict else found)))"

definition NO_COMMIT :: string where
  "NO_COMMIT = ''no meaningful content within commit probe limit''"

text \<open>\<open>None\<close>: the reader has not answered yet. \<open>gone\<close> is the flag of the client at the last reading.\<close>

fun probe_loop ::
  "'d probe_options \<Rightarrow> reading list \<Rightarrow> bool \<Rightarrow> nat \<Rightarrow> 8 word list list \<Rightarrow> 'd \<Rightarrow> string \<Rightarrow> dead_classification \<Rightarrow> probe_result option" where
  "probe_loop opts reads gone inspected chunks d buffered cause =
     (if STREAM_PREFLIGHT_LIMIT \<le> inspected then Some (probe_dead opts gone cause NO_COMMIT UpstreamFault None)
      else (case reads of
          [] \<Rightarrow> None
        | r # rest \<Rightarrow>
            (case rd_result r of
               Broken \<Rightarrow> Some (if rd_cancelled r then ProbeCancelled
                 else probe_dead opts (rd_cancelled r) cause ''stream failed before meaningful content'' (pr_readFailure opts) None)
             | Finished \<Rightarrow>
                 if rd_cancelled r then Some ProbeCancelled
                 else (let (cause1, verdict) = inspect_final opts (rd_refused r) (frames_append (td_flush (pr_decoder opts) d) buffered) cause in
                   Some (case verdict of
                       Ready \<Rightarrow> ProbeReady (ready_body chunks (r # rest))
                     | Dead reason side e \<Rightarrow> probe_dead opts (rd_cancelled r) cause1 reason side e
                     | Hold \<Rightarrow> probe_dead opts (rd_cancelled r) cause1 ''stream ended before meaningful content'' UpstreamFault None))
             | Piece b \<Rightarrow>
                 if rd_cancelled r then Some ProbeCancelled
                 else (let remaining = STREAM_PREFLIGHT_LIMIT - inspected;
                           seen = (if remaining < length b then take remaining b else b);
                           (d1, text) = td_step (pr_decoder opts) d seen;
                           (buffered1, cause1, verdict) = drainFrames opts (rd_refused r) (frames_append text buffered) cause
                   in (case verdict of
                       Ready \<Rightarrow> Some (if rd_cancelled r then ProbeCancelled else ProbeReady (ready_body (chunks @ [b]) rest))
                     | Dead reason side e \<Rightarrow> Some (probe_dead opts (rd_cancelled r) cause1 reason side e)
                     | Hold \<Rightarrow>
                         if length seen < length b then Some (probe_dead opts (rd_cancelled r) cause1 NO_COMMIT UpstreamFault None)
                         else probe_loop opts rest (rd_cancelled r) (inspected + length seen) (chunks @ [b]) d1 buffered1 cause1)))))"

declare probe_loop.simps [simp del]

definition probeStreamForCommit :: "'d probe_options \<Rightarrow> reading list \<Rightarrow> probe_result option" where
  "probeStreamForCommit opts reads =
     probe_loop opts reads False 0 [] (td_start (pr_decoder opts)) [] \<lparr>cl_stopReason = None, cl_reasoningTokens = None\<rparr>"

end
