(* ===== verification/Stream_Probe_Props.thy ===== *)
theory Stream_Probe_Props
  imports Stream_Probe
begin

text \<open>
  The properties of the commit probe: nothing is lost or sent twice, it commits on the first event with content and on nothing
  else however the stream is cut, it always comes to an answer within its limit, and a refusal is the relay's own only when it said so.
\<close>

section \<open>The verdict on an event\<close>

definition no_cause :: dead_classification where
  "no_cause = \<lparr>cl_stopReason = None, cl_reasoningTokens = None\<rparr>"

definition verdict_of :: "'d probe_options \<Rightarrow> bool \<Rightarrow> string \<Rightarrow> event_verdict" where
  "verdict_of opts refused event = snd (classifyEvent (pr_parse opts) (pr_protocol opts) (pr_malformed opts) refused event no_cause)"

lemma classify_verdict: "snd (classifyEvent (pr_parse opts) (pr_protocol opts) (pr_malformed opts) refused event cause) = verdict_of opts refused event"
  by (simp add: classifyEvent_def verdict_of_def Let_def split: option.split)

definition first_decided :: "event_verdict list \<Rightarrow> event_verdict" where
  "first_decided vs = (case find (\<lambda>v. v \<noteq> Hold) vs of None \<Rightarrow> Hold | Some v \<Rightarrow> v)"

lemma first_decided_simps [simp]:
  "first_decided [] = Hold" "first_decided (v # vs) = (if v \<noteq> Hold then v else first_decided vs)"
  by (simp_all add: first_decided_def)

lemma first_decided_append: "first_decided (vs @ ws) = (if first_decided vs \<noteq> Hold then first_decided vs else first_decided ws)"
  by (induction vs) simp_all

lemma classify_frames_verdict:
  "snd (classify_frames opts refused events cause v) = (if v \<noteq> Hold then v else first_decided (map (verdict_of opts refused) events))"
proof (induction events arbitrary: cause v)
  case (Cons event events)
  obtain c f where "classifyEvent (pr_parse opts) (pr_protocol opts) (pr_malformed opts) refused event cause = (c, f)" by force
  then show ?case using Cons classify_verdict [of opts refused event cause] by simp
qed simp

lemma drainFrames_parts:
  assumes "frames_drain buffered = (rest, frames)"
  obtains c where "drainFrames opts refused buffered cause = (rest, c, first_decided (map (verdict_of opts refused) (map sf_frame frames)))"
proof -
  obtain c v where "classify_frames opts refused (map sf_frame frames) cause Hold = (c, v)" by force
  then show ?thesis using that classify_frames_verdict [of opts refused "map sf_frame frames" cause Hold] by (simp add: drainFrames_def assms)
qed

section \<open>Nothing is lost\<close>

lemma probe_loop_step:
  assumes "\<not> STREAM_PREFLIGHT_LIMIT \<le> inspected" and "rd_result r = Piece b" and "\<not> rd_cancelled r"
    and "td_step (pr_decoder opts) d (take (STREAM_PREFLIGHT_LIMIT - inspected) b) = (d1, t)"
    and "drainFrames opts (rd_refused r) (buffered @ t) cause = (buffered1, cause1, verdict)"
  shows "probe_loop opts (r # rest) gone inspected chunks d buffered cause =
    (case verdict of
       Ready \<Rightarrow> Some (ProbeReady (ready_body (chunks @ [b]) rest))
     | Dead reason side e \<Rightarrow> Some (probe_dead opts False cause1 reason side e)
     | Hold \<Rightarrow> if STREAM_PREFLIGHT_LIMIT - inspected < length b then Some (probe_dead opts False cause1 NO_COMMIT UpstreamFault None)
         else probe_loop opts rest False (inspected + length b) (chunks @ [b]) d1 buffered1 cause1)"
proof -
  have seen: "(if STREAM_PREFLIGHT_LIMIT - inspected < length b then take (STREAM_PREFLIGHT_LIMIT - inspected) b else b) =
      take (STREAM_PREFLIGHT_LIMIT - inspected) b" by simp
  have "probe_loop opts (r # rest) gone inspected chunks d buffered cause =
    (case verdict of
       Ready \<Rightarrow> Some (ProbeReady (ready_body (chunks @ [b]) rest))
     | Dead reason side e \<Rightarrow> Some (probe_dead opts False cause1 reason side e)
     | Hold \<Rightarrow> if length (take (STREAM_PREFLIGHT_LIMIT - inspected) b) < length b then Some (probe_dead opts False cause1 NO_COMMIT UpstreamFault None)
         else probe_loop opts rest False (inspected + length (take (STREAM_PREFLIGHT_LIMIT - inspected) b)) (chunks @ [b]) d1 buffered1 cause1)"
    using assms by (subst probe_loop.simps) (simp only: seen Let_def frames_append_def prod.case list.case read_result.case if_False simp_thms)
  then show ?thesis by (cases verdict) (auto simp: min_def)
qed

lemma probe_loop_end:
  assumes "\<not> STREAM_PREFLIGHT_LIMIT \<le> inspected" and "rd_result r = Finished" and "\<not> rd_cancelled r"
    and "inspect_final opts (rd_refused r) (buffered @ td_flush (pr_decoder opts) d) cause = (cause1, verdict)"
  shows "probe_loop opts (r # rest) gone inspected chunks d buffered cause =
    Some (case verdict of
       Ready \<Rightarrow> ProbeReady (ready_body chunks (r # rest))
     | Dead reason side e \<Rightarrow> probe_dead opts False cause1 reason side e
     | Hold \<Rightarrow> probe_dead opts False cause1 ''stream ended before meaningful content'' UpstreamFault None)"
  using assms by (subst probe_loop.simps) (simp add: frames_append_def split: event_verdict.split)

lemma probe_loop_limit: "STREAM_PREFLIGHT_LIMIT \<le> inspected \<Longrightarrow>
    probe_loop opts reads gone inspected chunks d buffered cause = Some (probe_dead opts gone cause NO_COMMIT UpstreamFault None)"
  by (subst probe_loop.simps) simp

lemma probe_loop_broken:
  "\<not> STREAM_PREFLIGHT_LIMIT \<le> inspected \<Longrightarrow> rd_result r = Broken \<Longrightarrow> probe_loop opts (r # rest) gone inspected chunks d buffered cause =
    Some (if rd_cancelled r then ProbeCancelled else probe_dead opts False cause ''stream failed before meaningful content'' (pr_readFailure opts) None)"
  by (subst probe_loop.simps) simp

lemma probe_loop_cancelled:
  "\<not> STREAM_PREFLIGHT_LIMIT \<le> inspected \<Longrightarrow> rd_cancelled r \<Longrightarrow> probe_loop opts (r # rest) gone inspected chunks d buffered cause = Some ProbeCancelled"
  by (subst probe_loop.simps) (simp add: Let_def split: read_result.split)

lemma probe_loop_empty: "\<not> STREAM_PREFLIGHT_LIMIT \<le> inspected \<Longrightarrow> probe_loop opts [] gone inspected chunks d buffered cause = None"
  by (subst probe_loop.simps) simp

lemma probe_dead_not_ready [simp]: "probe_dead opts gone cause reason side e \<noteq> ProbeReady body"
  by (simp add: probe_dead_def)

text \<open>The ways a reading goes.\<close>

lemma reading_cases:
  obtains (cancelled) "rd_cancelled r" | (broken) "\<not> rd_cancelled r" "rd_result r = Broken"
    | (finished) "\<not> rd_cancelled r" "rd_result r = Finished" | (piece) b where "\<not> rd_cancelled r" "rd_result r = Piece b"
  by (cases "rd_result r"; cases "rd_cancelled r") auto

lemma probe_loop_body:
  assumes "probe_loop opts reads gone inspected chunks d buffered cause = Some (ProbeReady body)"
  shows "body = map Deliver chunks @ pull_reader reads"
  using assms
proof (induction reads arbitrary: gone inspected chunks d buffered cause)
  case Nil
  then show ?case by (cases "STREAM_PREFLIGHT_LIMIT \<le> inspected") (simp_all add: probe_loop_limit probe_loop_empty)
next
  case (Cons r rest)
  show ?case
  proof (cases "STREAM_PREFLIGHT_LIMIT \<le> inspected")
    case False
    note lim = False
    show ?thesis
    proof (cases r rule: reading_cases)
      case (piece b)
      obtain d1 t where t: "td_step (pr_decoder opts) d (take (STREAM_PREFLIGHT_LIMIT - inspected) b) = (d1, t)" by force
      obtain b1 c1 v where v: "drainFrames opts (rd_refused r) (buffered @ t) cause = (b1, c1, v)" by (cases "drainFrames opts (rd_refused r) (buffered @ t) cause") auto
      note step = probe_loop_step [OF lim piece(2,1) t v, of rest gone chunks]
      show ?thesis
      proof (cases v)
        case Hold
        then show ?thesis using Cons.prems Cons.IH [of False "inspected + length b" "chunks @ [b]" d1 b1 c1] piece(2) by (simp add: step split: if_splits)
      qed (use Cons.prems piece(2) in \<open>simp_all add: step ready_body_def\<close>)
    next
      case finished
      obtain c1 v where v: "inspect_final opts (rd_refused r) (buffered @ td_flush (pr_decoder opts) d) cause = (c1, v)" by force
      show ?thesis using Cons.prems finished(2)
        by (cases v) (simp_all add: probe_loop_end [OF lim finished(2,1) v] ready_body_def)
    next
      case cancelled
      then show ?thesis using Cons.prems lim by (simp add: probe_loop_cancelled)
    next
      case broken
      then show ?thesis using Cons.prems lim by (simp add: probe_loop_broken)
    qed
  qed (use Cons.prems in \<open>simp add: probe_loop_limit\<close>)
qed

text \<open>C19. A committed body hands out exactly what the upstream stream hands out: every piece in its order, the held ones included, its
  end and its failure.\<close>

theorem committed_body_exact:
  assumes "probeStreamForCommit opts reads = Some (ProbeReady body)"
  shows "body = pull_reader reads"
  using probe_loop_body assms by (fastforce simp: probeStreamForCommit_def)

section \<open>The commit does not depend on how the stream is cut\<close>

fun decode_pieces :: "'d text_decoder \<Rightarrow> 'd \<Rightarrow> 8 word list list \<Rightarrow> string" where
  "decode_pieces dec d [] = td_flush dec d"
| "decode_pieces dec d (b # bs) = snd (td_step dec d b) @ decode_pieces dec (fst (td_step dec d b)) bs"

text \<open>The events of a whole text: its frames, and what is left when it is not blank.\<close>

definition events_of :: "string \<Rightarrow> string list" where
  "events_of text = (let (rest, frames) = frames_drain text in map sf_frame frames @ (if js_trim rest = [] then [] else [rest]))"

lemma events_of_append:
  assumes "frames_drain v = (rest, frames)"
  shows "events_of (v @ w) = map sf_frame frames @ events_of (rest @ w)"
  using frames_drain_append [of v w] by (simp add: assms events_of_def case_prod_beta)

definition arriving :: "bool \<Rightarrow> 8 word list list \<Rightarrow> reading list" where
  "arriving refused pieces = map (\<lambda>b. \<lparr>rd_result = Piece b, rd_cancelled = False, rd_refused = refused\<rparr>) pieces @
     [\<lparr>rd_result = Finished, rd_cancelled = False, rd_refused = refused\<rparr>]"

definition outcome_of :: "'d probe_options \<Rightarrow> delivery list \<Rightarrow> dead_classification \<Rightarrow> event_verdict \<Rightarrow> probe_result" where
  "outcome_of opts body cause verdict =
     (case verdict of
        Ready \<Rightarrow> ProbeReady body
      | Dead reason side e \<Rightarrow> probe_dead opts False cause reason side e
      | Hold \<Rightarrow> probe_dead opts False cause ''stream ended before meaningful content'' UpstreamFault None)"

lemma inspect_final_verdict:
  "snd (inspect_final opts refused text cause) = first_decided (map (verdict_of opts refused) (events_of text))"
proof -
  obtain rest frames where f: "frames_drain text = (rest, frames)" by force
  obtain c where c: "drainFrames opts refused text cause = (rest, c, first_decided (map (verdict_of opts refused) (map sf_frame frames)))"
    using drainFrames_parts [OF f] by blast
  show ?thesis
  proof (cases "js_trim rest = []")
    case True
    then show ?thesis by (simp add: inspect_final_def c f events_of_def takeRemainder_def)
  next
    case False
    have "snd (classifyEvent (pr_parse opts) (pr_protocol opts) (pr_malformed opts) refused rest c) = verdict_of opts refused rest"
      by (rule classify_verdict)
    then show ?thesis using False
      by (simp add: inspect_final_def c f events_of_def takeRemainder_def first_decided_append case_prod_beta)
  qed
qed

lemma probe_loop_arriving:
  assumes "inspected + sum_list (map length pieces) < STREAM_PREFLIGHT_LIMIT"
  shows "\<exists>c. probe_loop opts (arriving refused pieces) gone inspected chunks d buffered cause =
    Some (outcome_of opts (map Deliver chunks @ pull_reader (arriving refused pieces)) c
      (first_decided (map (verdict_of opts refused) (events_of (buffered @ decode_pieces (pr_decoder opts) d pieces)))))"
  using assms
proof (induction pieces arbitrary: gone inspected chunks d buffered cause)
  case Nil
  let ?r = "\<lparr>rd_result = Finished, rd_cancelled = False, rd_refused = refused\<rparr>"
  have lim: "\<not> STREAM_PREFLIGHT_LIMIT \<le> inspected" using Nil by simp
  obtain c v where cv: "inspect_final opts (rd_refused ?r) (buffered @ td_flush (pr_decoder opts) d) cause = (c, v)" by force
  have v: "v = first_decided (map (verdict_of opts refused) (events_of (buffered @ td_flush (pr_decoder opts) d)))"
    using inspect_final_verdict [of opts refused "buffered @ td_flush (pr_decoder opts) d" cause] cv by simp
  have "probe_loop opts [?r] gone inspected chunks d buffered cause = Some (outcome_of opts (map Deliver chunks @ pull_reader [?r]) c v)"
    using probe_loop_end [OF lim _ _ cv, of "[]" gone chunks] by (simp add: outcome_of_def ready_body_def cong: event_verdict.case_cong)
  then show ?case using v by (auto simp: arriving_def)
next
  case (Cons b pieces)
  let ?r = "\<lparr>rd_result = Piece b, rd_cancelled = False, rd_refused = refused\<rparr>"
  have reads: "arriving refused (b # pieces) = ?r # arriving refused pieces" by (simp add: arriving_def)
  have lim: "\<not> STREAM_PREFLIGHT_LIMIT \<le> inspected" "\<not> STREAM_PREFLIGHT_LIMIT - inspected < length b"
    "take (STREAM_PREFLIGHT_LIMIT - inspected) b = b" "inspected + length b + sum_list (map length pieces) < STREAM_PREFLIGHT_LIMIT"
    using Cons.prems by simp_all
  obtain d1 t where t: "td_step (pr_decoder opts) d b = (d1, t)" by force
  obtain rest frames where f: "frames_drain (buffered @ t) = (rest, frames)" by force
  let ?v = "first_decided (map (verdict_of opts refused) (map sf_frame frames))"
  obtain c1 where c1: "drainFrames opts refused (buffered @ t) cause = (rest, c1, ?v)" using drainFrames_parts [OF f] by blast
  have events: "events_of (buffered @ decode_pieces (pr_decoder opts) d (b # pieces)) =
      map sf_frame frames @ events_of (rest @ decode_pieces (pr_decoder opts) d1 pieces)"
    using events_of_append [OF f, of "decode_pieces (pr_decoder opts) d1 pieces"] t by simp
  have step: "probe_loop opts (?r # arriving refused pieces) gone inspected chunks d buffered cause =
    (case ?v of
       Ready \<Rightarrow> Some (ProbeReady (ready_body (chunks @ [b]) (arriving refused pieces)))
     | Dead reason side e \<Rightarrow> Some (probe_dead opts False c1 reason side e)
     | Hold \<Rightarrow> probe_loop opts (arriving refused pieces) False (inspected + length b) (chunks @ [b]) d1 rest c1)"
    using probe_loop_step [OF lim(1), of ?r b opts d d1 t buffered cause rest c1 ?v "arriving refused pieces" gone chunks] t lim(2,3) c1
    by simp
  show ?case
  proof (cases ?v)
    case Hold
    then show ?thesis unfolding reads step events map_append first_decided_append
      using Cons.IH [OF lim(4), of False "chunks @ [b]" d1 rest c1] by simp
  qed (unfold reads step events map_append first_decided_append, auto simp: outcome_of_def ready_body_def)
qed

text \<open>C18. While the response stays below the preflight limit (64 KiB), the client stays, and the reader hands out all pieces and then
  finishes, the probe commits exactly when the first event that is not held, among all events of the decoded text, has content;
  when that event is an error the stream is dead for its reason, and when every event is held it is dead because it ended. How
  the upstream cut the stream into pieces plays no part.\<close>

theorem probe_exact:
  assumes "sum_list (map length pieces) < STREAM_PREFLIGHT_LIMIT"
  shows "\<exists>cause. probeStreamForCommit opts (arriving refused pieces) = Some (outcome_of opts (pull_reader (arriving refused pieces)) cause
    (first_decided (map (verdict_of opts refused) (events_of (decode_pieces (pr_decoder opts) (td_start (pr_decoder opts)) pieces)))))"
  using probe_loop_arriving [of 0 pieces opts refused False "[]" "td_start (pr_decoder opts)" "[]" no_cause] assms
  by (simp add: probeStreamForCommit_def no_cause_def)

section \<open>The probe comes to an answer\<close>

fun bytes_of :: "read_result \<Rightarrow> nat" where
  "bytes_of (Piece b) = length b"
| "bytes_of r = 0"

lemma probe_loop_settles:
  assumes "STREAM_PREFLIGHT_LIMIT \<le> inspected + sum_list (map (\<lambda>r. bytes_of (rd_result r)) reads) \<or>
    (\<exists>r \<in> set reads. rd_cancelled r \<or> rd_result r = Finished \<or> rd_result r = Broken)"
  shows "\<exists>result. probe_loop opts reads gone inspected chunks d buffered cause = Some result"
  using assms
proof (induction reads arbitrary: gone inspected chunks d buffered cause)
  case Nil
  then show ?case by (simp add: probe_loop_limit)
next
  case (Cons r rest)
  show ?case
  proof (cases "STREAM_PREFLIGHT_LIMIT \<le> inspected")
    case False
    note lim = False
    show ?thesis
    proof (cases r rule: reading_cases)
      case (piece b)
      obtain d1 t where t: "td_step (pr_decoder opts) d (take (STREAM_PREFLIGHT_LIMIT - inspected) b) = (d1, t)" by force
      obtain b1 c1 v where v: "drainFrames opts (rd_refused r) (buffered @ t) cause = (b1, c1, v)" by (cases "drainFrames opts (rd_refused r) (buffered @ t) cause") auto
      have rest: "STREAM_PREFLIGHT_LIMIT \<le> (inspected + length b) + sum_list (map (\<lambda>r. bytes_of (rd_result r)) rest) \<or>
          (\<exists>r \<in> set rest. rd_cancelled r \<or> rd_result r = Finished \<or> rd_result r = Broken)"
        using Cons.prems piece by (simp add: add.assoc)
      show ?thesis using Cons.IH [OF rest, of False "chunks @ [b]" d1 b1 c1]
        by (cases v) (simp_all add: probe_loop_step [OF lim piece(2,1) t v])
    next
      case finished
      obtain c1 v where v: "inspect_final opts (rd_refused r) (buffered @ td_flush (pr_decoder opts) d) cause = (c1, v)" by force
      show ?thesis by (simp add: probe_loop_end [OF lim finished(2,1) v])
    next
      case cancelled
      then show ?thesis using lim by (simp add: probe_loop_cancelled)
    next
      case broken
      then show ?thesis using lim by (simp add: probe_loop_broken)
    qed
  qed (simp add: probe_loop_limit)
qed

text \<open>C20. The probe comes to an answer: once the reader has handed out as many bytes as the limit, has finished or failed, or the client is
  gone, the probe has returned, whatever the bytes say.\<close>

theorem probe_settles:
  assumes "STREAM_PREFLIGHT_LIMIT \<le> sum_list (map (\<lambda>r. bytes_of (rd_result r)) reads) \<or>
    (\<exists>r \<in> set reads. rd_cancelled r \<or> rd_result r = Finished \<or> rd_result r = Broken)"
  shows "\<exists>result. probeStreamForCommit opts reads = Some result"
  using assms unfolding probeStreamForCommit_def by (intro probe_loop_settles) simp

section \<open>A refusal of the relay's own\<close>

lemma errorVerdict_own: "errorVerdict value refused = Dead reason side (Some e) \<Longrightarrow> refused \<and> side = LocalFault \<and> e = DIALECT_REFUSED_DESTRUCTIVE_CODE"
  by (auto simp: errorVerdict_def relayAuthored_def Let_def split: if_splits)

lemma chat_choices_own: "chat_choices choices finished \<noteq> Dead reason side (Some e)"
  by (induction choices finished rule: chat_choices.induct) (simp_all add: NO_CONTENT_def Let_def)

lemma ready_if_own [simp]: "ready_if b \<noteq> Dead reason side e"
  by (simp add: ready_if_def)

lemma block_verdicts [simp]:
  "anthropicBlockStartVerdict block \<noteq> Dead reason side e" "anthropicBlockDeltaVerdict block \<noteq> Dead reason side e"
  by (simp_all add: anthropicBlockStartVerdict_def anthropicBlockDeltaVerdict_def Let_def)

lemma protocol_verdict_own:
  assumes "protocol_verdict protocol value refused = Dead reason side (Some e)"
  shows "errorVerdict value refused = Dead reason side (Some e)"
proof (cases protocol)
  case AnthropicMessages
  then show ?thesis using assms
    by (simp add: protocol_verdict_def anthropicVerdict_def Let_def NO_CONTENT_def split: if_splits)
next
  case OpenaiChat
  then show ?thesis using assms chat_choices_own
    by (simp add: protocol_verdict_def openAiChatVerdict_def split: if_splits option.splits json.splits)
next
  case OpenaiResponses
  then show ?thesis using assms
    by (simp add: protocol_verdict_def openAiResponsesVerdict_def Let_def NO_CONTENT_def split: if_splits)
qed

lemma verdict_of_own:
  assumes "verdict_of opts refused event = Dead reason side (Some e)"
  shows "refused \<and> side = LocalFault \<and> e = DIALECT_REFUSED_DESTRUCTIVE_CODE"
proof -
  obtain v where "errorVerdict v refused = Dead reason side (Some e) \<or>
      protocol_verdict (pr_protocol opts) v refused = Dead reason side (Some e)"
    using assms by (auto simp: verdict_of_def classifyEvent_def Let_def NO_CONTENT_def split: if_splits option.splits)
  then show ?thesis using protocol_verdict_own errorVerdict_own by blast
qed

lemma first_decided_own:
  assumes "first_decided (map (verdict_of opts refused) events) = Dead reason side (Some e)"
  shows "refused \<and> side = LocalFault \<and> e = DIALECT_REFUSED_DESTRUCTIVE_CODE"
  using assms by (induction events) (auto split: if_splits dest: verdict_of_own)

lemma probe_dead_own: "probe_dead opts gone cause reason side e = ProbeDead reason' side' e' c \<Longrightarrow> side' = side \<and> e' = e"
  by (simp add: probe_dead_def split: if_splits)

lemma probe_loop_own:
  assumes "probe_loop opts reads gone inspected chunks d buffered cause = Some (ProbeDead reason side (Some e) cls)"
  shows "(\<exists>r \<in> set reads. rd_refused r) \<and> side = LocalFault \<and> e = DIALECT_REFUSED_DESTRUCTIVE_CODE"
  using assms
proof (induction reads arbitrary: gone inspected chunks d buffered cause)
  case Nil
  then show ?case by (cases "STREAM_PREFLIGHT_LIMIT \<le> inspected") (auto simp: probe_loop_limit probe_loop_empty dest: probe_dead_own)
next
  case (Cons r rest)
  show ?case
  proof (cases "STREAM_PREFLIGHT_LIMIT \<le> inspected")
    case False
    note lim = False
    show ?thesis
    proof (cases r rule: reading_cases)
      case (piece b)
      obtain d1 t where t: "td_step (pr_decoder opts) d (take (STREAM_PREFLIGHT_LIMIT - inspected) b) = (d1, t)" by force
      obtain b1 frames where f: "frames_drain (buffered @ t) = (b1, frames)" by force
      let ?v = "first_decided (map (verdict_of opts (rd_refused r)) (map sf_frame frames))"
      obtain c1 where c1: "drainFrames opts (rd_refused r) (buffered @ t) cause = (b1, c1, ?v)" using drainFrames_parts [OF f] by blast
      note step = probe_loop_step [OF lim piece(2,1) t c1, of rest gone chunks]
      show ?thesis
      proof (cases ?v)
        case Hold
        then show ?thesis using Cons.prems Cons.IH [of False "inspected + length b" "chunks @ [b]" d1 b1 c1] unfolding step
          by (auto split: if_splits dest: probe_dead_own)
      next
        case (Dead x y z)
        then have "z = Some e" "y = side" using Cons.prems unfolding step by (auto dest: probe_dead_own)
        then show ?thesis using first_decided_own [of opts "rd_refused r" "map sf_frame frames" x side e] Dead by simp
      qed (use Cons.prems in \<open>simp add: step\<close>)
    next
      case finished
      let ?text = "buffered @ td_flush (pr_decoder opts) d"
      obtain c1 v where v: "inspect_final opts (rd_refused r) ?text cause = (c1, v)" by force
      have fv: "v = first_decided (map (verdict_of opts (rd_refused r)) (events_of ?text))"
        using inspect_final_verdict [of opts "rd_refused r" ?text cause] v by simp
      note step = probe_loop_end [OF lim finished(2,1) v, of rest gone chunks]
      show ?thesis
      proof (cases v)
        case Hold
        then show ?thesis using Cons.prems unfolding step by (auto dest: probe_dead_own)
      next
        case (Dead x y z)
        then have "z = Some e" "y = side" using Cons.prems unfolding step by (auto dest: probe_dead_own)
        then show ?thesis using first_decided_own [of opts "rd_refused r" "events_of ?text" x side e] Dead fv by simp
      qed (use Cons.prems in \<open>simp add: step\<close>)
    next
      case cancelled
      then show ?thesis using Cons.prems lim by (simp add: probe_loop_cancelled)
    next
      case broken
      then show ?thesis using Cons.prems lim by (auto simp: probe_loop_broken dest: probe_dead_own)
    qed
  next
    case True
    then show ?thesis using Cons.prems by (auto simp: probe_loop_limit dest: probe_dead_own)
  qed
qed

text \<open>An upstream cannot pass for the relay: a dead stream carries an error type of its own only when the relay had said, at some reading,
  that it refused a call, and then the fault is local and the type is the one of that refusal.\<close>

theorem refusal_is_own:
  assumes "probeStreamForCommit opts reads = Some (ProbeDead reason side (Some e) cls)"
  shows "(\<exists>r \<in> set reads. rd_refused r) \<and> side = LocalFault \<and> e = DIALECT_REFUSED_DESTRUCTIVE_CODE"
  using assms unfolding probeStreamForCommit_def by (rule probe_loop_own)

section \<open>Examples\<close>

definition latin_decoder :: "unit text_decoder" where
  "latin_decoder = \<lparr>td_start = (), td_step = (\<lambda>d b. ((), map (\<lambda>w. char_of (unat w)) b)), td_flush = (\<lambda>d. [])\<rparr>"

definition sample_probe :: "json \<Rightarrow> unit probe_options" where
  "sample_probe event = \<lparr>pr_parse = (\<lambda>s. Some event), pr_show_num = (\<lambda>q. []), pr_decoder = latin_decoder,
     pr_protocol = AnthropicMessages, pr_malformed = UpstreamFault, pr_readFailure = UpstreamFault\<rparr>"

definition sample_bytes :: "8 word list" where
  "sample_bytes = map (\<lambda>c. of_nat (of_char c)) (''data: {}'' @ [LF, LF])"

definition text_event :: json where
  "text_event = JObj [(''type'', JStr ''content_block_start''), (''content_block'', JObj [(''type'', JStr ''text''), (''text'', JStr ''hi'')])]"

definition refusal_event :: json where
  "refusal_event = JObj [(''type'', JStr ''error''), (''code'', JStr DIALECT_REFUSED_DESTRUCTIVE_CODE)]"

lemma sample_short: "sum_list (map length [sample_bytes]) < STREAM_PREFLIGHT_LIMIT"
  by (simp add: sample_bytes_def STREAM_PREFLIGHT_LIMIT_def)

lemma byte_char: "char_of (unat (of_nat (of_char c) :: 8 word)) = c"
  using nat_of_char_less_256 [of c] by (simp add: unat_of_nat take_bit_nat_eq_self)

lemma latin_text: "decode_pieces latin_decoder () [map (\<lambda>c. of_nat (of_char c)) s] = s"
  by (simp add: latin_decoder_def comp_def byte_char)

lemma sample_text: "decode_pieces latin_decoder () [sample_bytes] = ''data: {}'' @ [LF, LF]"
  unfolding sample_bytes_def by (rule latin_text)

lemma sample_events: "events_of (decode_pieces latin_decoder () [sample_bytes]) = [''data: {}'']"
proof -
  have "frames_next (''data: {}'' @ [LF, LF]) = ([], Some \<lparr>sf_frame = ''data: {}'', sf_separator = [LF, LF], sf_raw = ''data: {}'' @ [LF, LF]\<rparr>)"
    by code_simp
  note more = drain_more [OF this]
  have "frames_next [] = ([], None)" by code_simp
  then have "frames_drain [] = ([], [])" using drain_done by blast
  then show ?thesis unfolding sample_text by (simp add: events_of_def more js_trim_def del: append.simps)
qed

lemma sample_verdict:
  "first_decided (map (verdict_of (sample_probe text_event) True) (events_of (decode_pieces latin_decoder () [sample_bytes]))) = Ready"
  "first_decided (map (verdict_of (sample_probe refusal_event) True) (events_of (decode_pieces latin_decoder () [sample_bytes]))) =
     Dead ''refused a tool call recovered from text because it names a destructive tool'' LocalFault (Some DIALECT_REFUSED_DESTRUCTIVE_CODE)"
  unfolding sample_events by code_simp+

lemma sample_outcome:
  "\<exists>c. probeStreamForCommit (sample_probe event) (arriving True [sample_bytes]) =
     Some (outcome_of (sample_probe event) (pull_reader (arriving True [sample_bytes])) c
       (first_decided (map (verdict_of (sample_probe event) True) (events_of (decode_pieces latin_decoder () [sample_bytes])))))"
proof -
  have dec: "pr_decoder (sample_probe event) = latin_decoder" "td_start latin_decoder = ()" by (simp_all add: sample_probe_def)
  show ?thesis using probe_loop_arriving [of 0 "[sample_bytes]" "sample_probe event" True False "[]" "()" "[]" no_cause] sample_short
    by (simp add: probeStreamForCommit_def no_cause_def dec)
qed

lemma committed_body_exact_witness:
  "\<exists>body. probeStreamForCommit (sample_probe text_event) (arriving True [sample_bytes]) = Some (ProbeReady body) \<and>
     body = [Deliver sample_bytes, CloseBody]"
proof -
  obtain body where body: "probeStreamForCommit (sample_probe text_event) (arriving True [sample_bytes]) = Some (ProbeReady body)"
    using sample_outcome [of text_event] unfolding sample_verdict outcome_of_def by auto
  from committed_body_exact [OF this] body show ?thesis by (auto simp: arriving_def)
qed

lemma probe_exact_witness:
  "probeStreamForCommit (sample_probe text_event) (arriving True [sample_bytes]) = Some (ProbeReady [Deliver sample_bytes, CloseBody])"
  using probe_exact [OF sample_short, of "sample_probe text_event" True] sample_verdict(1)
  by (simp add: sample_probe_def latin_decoder_def outcome_of_def arriving_def)

lemma probe_settles_witness:
  "\<exists>result. probeStreamForCommit (sample_probe text_event) (arriving True []) = Some result"
  by (rule probe_settles) (simp add: arriving_def)

lemma refusal_is_own_witness:
  "\<exists>reason side e cls. probeStreamForCommit (sample_probe refusal_event) (arriving True [sample_bytes]) = Some (ProbeDead reason side (Some e) cls) \<and>
     side = LocalFault \<and> e = DIALECT_REFUSED_DESTRUCTIVE_CODE"
proof -
  obtain reason side e cls where dead: "probeStreamForCommit (sample_probe refusal_event) (arriving True [sample_bytes]) = Some (ProbeDead reason side (Some e) cls)"
    using sample_outcome [of refusal_event] unfolding sample_verdict outcome_of_def by (auto simp: probe_dead_def)
  from refusal_is_own [OF this] dead show ?thesis by blast
qed

end
