(* ===== verification/Think_Tags.thy ===== *)
theory Think_Tags
  imports Sse_Frames
begin

text \<open>
  The filter that strips an opening \<^verbatim>\<open><think>\<close> block from translated text (\<^verbatim>\<open>think-tags.ts\<close>), and the visitor
  that applies it to a stream of events. A text holds code points below 256, as everywhere; \<open>utf8_length\<close> is the number of bytes it takes.
\<close>

section \<open>The filter\<close>

definition OPEN_TAG :: string where "OPEN_TAG = ''<think>''"
definition CLOSE_TAG :: string where "CLOSE_TAG = ''</think>''"
definition MAX_THINK_LEAD_BYTES :: nat where "MAX_THINK_LEAD_BYTES = 512"
definition MAX_THINK_HELD_BYTES :: nat where "MAX_THINK_HELD_BYTES = 64 * 1024"
definition MARKER_HOLDBACK :: nat where "MARKER_HOLDBACK = length CLOSE_TAG - 1"

datatype filter_state = PassThrough | LeadHold | InsideThink | FilterDone

fun FLUSH_RELEASES_HELD :: "filter_state \<Rightarrow> bool" where
  "FLUSH_RELEASES_HELD LeadHold = True"
| "FLUSH_RELEASES_HELD InsideThink = True"
| "FLUSH_RELEASES_HELD PassThrough = False"
| "FLUSH_RELEASES_HELD FilterDone = False"

record think_filter =
  tf_state :: filter_state
  tf_held :: string
  tf_bodyStart :: nat
  tf_scanFrom :: nat

definition new_filter :: think_filter where
  "new_filter = \<lparr>tf_state = LeadHold, tf_held = [], tf_bodyStart = 0, tf_scanFrom = 0\<rparr>"

fun search_nonspace :: "string \<Rightarrow> nat option" where
  "search_nonspace [] = None"
| "search_nonspace (c # cs) = (if \<not> js_space c then Some 0 else map_option Suc (search_nonspace cs))"

fun find_text :: "string \<Rightarrow> string \<Rightarrow> nat option" where
  "find_text p [] = (if p = [] then Some 0 else None)"
| "find_text p (c # cs) = (if starts_with p (c # cs) then Some 0 else map_option Suc (find_text p cs))"

definition index_from :: "string \<Rightarrow> string \<Rightarrow> nat \<Rightarrow> nat option" where
  "index_from p v k = map_option (\<lambda>i. k + i) (find_text p (drop k v))"

definition releaseLosslessly :: "think_filter \<Rightarrow> think_filter \<times> string" where
  "releaseLosslessly f = (f\<lparr>tf_held := [], tf_state := PassThrough\<rparr>, tf_held f)"

definition before :: "nat option \<Rightarrow> nat option \<Rightarrow> bool" where
  "before nested close = (case nested of None \<Rightarrow> False | Some i \<Rightarrow> (case close of None \<Rightarrow> True | Some j \<Rightarrow> i < j))"

definition inspectThink :: "think_filter \<Rightarrow> think_filter \<times> string" where
  "inspectThink f =
     (let nested = index_from OPEN_TAG (tf_held f) (tf_scanFrom f);
          close = index_from CLOSE_TAG (tf_held f) (tf_scanFrom f) in
      if before nested close then releaseLosslessly f
      else (case close of
          Some j \<Rightarrow>
            (let closeEnd = j + length CLOSE_TAG in
             if MAX_THINK_HELD_BYTES < utf8_length (take closeEnd (tf_held f)) then releaseLosslessly f
             else (f\<lparr>tf_held := [], tf_state := FilterDone\<rparr>, drop closeEnd (tf_held f)))
        | None \<Rightarrow>
            if MAX_THINK_HELD_BYTES < utf8_length (tf_held f) then releaseLosslessly f
            else (f\<lparr>tf_scanFrom := max (tf_bodyStart f) (length (tf_held f) - MARKER_HOLDBACK)\<rparr>, [])))"

definition decideLead :: "think_filter \<Rightarrow> think_filter \<times> string" where
  "decideLead f =
     (case search_nonspace (tf_held f) of
        None \<Rightarrow> if MAX_THINK_LEAD_BYTES < utf8_length (tf_held f) then releaseLosslessly f else (f, [])
      | Some n \<Rightarrow>
          (let candidate = drop n (tf_held f) in
           if starts_with OPEN_TAG candidate then
             (let decisionEnd = n + length OPEN_TAG in
              if MAX_THINK_LEAD_BYTES < utf8_length (take decisionEnd (tf_held f)) then releaseLosslessly f
              else inspectThink (f\<lparr>tf_state := InsideThink, tf_bodyStart := decisionEnd, tf_scanFrom := decisionEnd\<rparr>))
           else if starts_with candidate OPEN_TAG then
             (if MAX_THINK_LEAD_BYTES < utf8_length (tf_held f) then releaseLosslessly f else (f, []))
           else releaseLosslessly f))"

definition filter_push :: "string \<Rightarrow> think_filter \<Rightarrow> think_filter \<times> string" where
  "filter_push v f =
     (if v = [] then (f, [])
      else if tf_state f = PassThrough \<or> tf_state f = FilterDone then (f, v)
      else
        (let f1 = f\<lparr>tf_held := tf_held f @ v\<rparr> in
         if tf_state f = LeadHold then decideLead f1 else inspectThink f1))"

definition filter_flush :: "think_filter \<Rightarrow> think_filter \<times> string" where
  "filter_flush f = (if FLUSH_RELEASES_HELD (tf_state f) then releaseLosslessly f else (f, []))"

definition stripOpeningThinkTag :: "string \<Rightarrow> string" where
  "stripOpeningThinkTag v = (let (f, out) = filter_push v new_filter in out @ snd (filter_flush f))"

text \<open>The texts a sequence of pushes and the closing flush release, put together.\<close>

fun push_all :: "string list \<Rightarrow> think_filter \<Rightarrow> string" where
  "push_all [] f = snd (filter_flush f)"
| "push_all (v # vs) f = (let (f', out) = filter_push v f in out @ push_all vs f')"

section \<open>The filter on a stream of events\<close>

definition sseDelta :: "(jsnum \<Rightarrow> string \<Rightarrow> string) \<Rightarrow> jsnum \<Rightarrow> string \<Rightarrow> string" where
  "sseDelta delta_json index v = ''event: content_block_delta'' @ [LF] @ ''data: '' @ delta_json index v @ [LF, LF]"

definition flushHeld :: "(jsnum \<Rightarrow> string \<Rightarrow> string) \<Rightarrow> think_filter \<times> jsnum \<Rightarrow> (think_filter \<times> jsnum) \<times> string list" where
  "flushHeld delta_json = (\<lambda>(f, index).
     case filter_flush f of (f', held) \<Rightarrow> ((f', index), if held \<noteq> [] then [sseDelta delta_json index held] else []))"

text \<open>The text of a text delta, if the event is one.\<close>

definition text_delta :: "sse_event \<Rightarrow> string option" where
  "text_delta ev =
     (let delta = data_key (se_data ev) ''delta'' in
      if data_key delta ''type'' = Some (JStr ''text_delta'')
      then (case data_key delta ''text'' of Some (JStr v) \<Rightarrow> Some v | _ \<Rightarrow> None) else None)"

definition strip_frame ::
  "(string \<Rightarrow> json option) \<Rightarrow> (jsnum \<Rightarrow> string \<Rightarrow> string) \<Rightarrow> sse_frame \<Rightarrow> think_filter \<times> jsnum \<Rightarrow> (think_filter \<times> jsnum) \<times> string list" where
  "strip_frame json_parse delta_json fr = (\<lambda>(f, index).
     case parseSseEvent json_parse (sf_frame fr) of
       None \<Rightarrow> ((f, index), [sf_raw fr])
     | Some ev \<Rightarrow>
         if se_type ev = ''content_block_start'' then
           ((f, case data_key (se_data ev) ''index'' of Some (JNum n) \<Rightarrow> n | _ \<Rightarrow> index), [sf_raw fr])
         else
           (case (if se_type ev = ''content_block_delta'' then text_delta ev else None) of
              Some v \<Rightarrow>
                (case filter_push v f of
                   (f', out) \<Rightarrow> ((f', index), if out = v then [sf_raw fr] else if out \<noteq> [] then [sseDelta delta_json index out] else []))
            | None \<Rightarrow>
                if se_type ev = ''content_block_stop'' \<or> se_type ev = ''message_stop''
                then (case flushHeld delta_json (f, index) of (x, held) \<Rightarrow> (x, held @ [sf_raw fr]))
                else ((f, index), [sf_raw fr])))"

definition stripThinkTagsInStream where
  "stripThinkTagsInStream json_parse delta_json stringify pieces tail failure =
     createSseTransformStream (strip_frame json_parse delta_json) (\<lambda>x. snd (flushHeld delta_json x)) stringify (new_filter, Fin 0)
       pieces tail failure"

section \<open>What the filter is for\<close>

text \<open>
  The text without its opening block, read off the whole text: white space and the opening tag within the lead's limit, then
  the first closing tag, with no opening tag before it and the block within the limit.
\<close>

definition without_think_block :: "string \<Rightarrow> string" where
  "without_think_block v =
     (let n = length (takeWhile js_space v) in
      if \<not> starts_with OPEN_TAG (drop n v) \<or> MAX_THINK_LEAD_BYTES < utf8_length (take (n + 7) v) then v
      else (case index_from CLOSE_TAG v (n + 7) of
          None \<Rightarrow> v
        | Some j \<Rightarrow>
            if before (index_from OPEN_TAG v (n + 7)) (Some j) \<or> MAX_THINK_HELD_BYTES < utf8_length (take (j + 8) v) then v
            else drop (j + 8) v))"

definition occurs :: "string \<Rightarrow> string \<Rightarrow> nat \<Rightarrow> bool" where
  "occurs p v k \<longleftrightarrow> starts_with p (drop k v)"

lemma starts_with_length: "starts_with p v \<Longrightarrow> length p \<le> length v"
  unfolding starts_with_def by (metis length_take min.cobounded1)

lemma starts_with_append: "length p \<le> length v \<Longrightarrow> starts_with p (v @ w) = starts_with p v"
  by (simp add: starts_with_def)

lemma occurs_length: "occurs p v k \<Longrightarrow> p \<noteq> [] \<Longrightarrow> k + length p \<le> length v"
  using starts_with_length [of p "drop k v"] by (cases p) (auto simp: occurs_def)

lemma occurs_append: "k + length p \<le> length v \<Longrightarrow> occurs p (v @ w) k = occurs p v k"
  unfolding occurs_def by (simp add: starts_with_append)

lemma find_text_Some:
  "find_text p v = Some i \<Longrightarrow> starts_with p (drop i v) \<and> (\<forall>k < i. \<not> starts_with p (drop k v))"
proof (induction v arbitrary: i)
  case (Cons c v)
  show ?case
  proof (cases "starts_with p (c # v)")
    case False
    then obtain j where j: "find_text p v = Some j" "i = Suc j" using Cons.prems by auto
    then have "\<not> starts_with p (drop k (c # v))" if "k < i" for k
      using Cons.IH [OF j(1)] False that by (cases k) auto
    then show ?thesis using Cons.IH [OF j(1)] j(2) by simp
  qed (use Cons.prems in simp)
qed (auto simp: starts_with_def split: if_splits)

lemma find_text_None: "p \<noteq> [] \<Longrightarrow> find_text p v = None \<Longrightarrow> \<not> starts_with p (drop k v)"
proof (induction v arbitrary: k)
  case (Cons c v)
  then show ?case by (cases k) (auto split: if_splits)
qed (simp add: starts_with_def)

lemma index_from_Some: "index_from p v s = Some j \<Longrightarrow> s \<le> j \<and> occurs p v j \<and> (\<forall>k. s \<le> k \<longrightarrow> k < j \<longrightarrow> \<not> occurs p v k)"
proof -
  assume "index_from p v s = Some j"
  then obtain i where i: "find_text p (drop s v) = Some i" "j = s + i" by (auto simp: index_from_def)
  have "\<not> occurs p v k" if "s \<le> k" "k < j" for k
    using find_text_Some [OF i(1)] that i(2) by (auto simp: occurs_def dest: spec [of _ "k - s"])
  then show ?thesis using find_text_Some [OF i(1)] i(2) by (simp add: occurs_def add.commute)
qed

lemma index_from_None: "p \<noteq> [] \<Longrightarrow> index_from p v s = None \<Longrightarrow> s \<le> k \<Longrightarrow> \<not> occurs p v k"
  using find_text_None [of p "drop s v" "k - s"] by (auto simp: index_from_def occurs_def)

lemma index_from_eqI:
  assumes "p \<noteq> []" and "s \<le> j" and "occurs p v j" and "\<And>k. s \<le> k \<Longrightarrow> k < j \<Longrightarrow> \<not> occurs p v k"
  shows "index_from p v s = Some j"
proof (cases "index_from p v s")
  case None
  then show ?thesis using index_from_None [OF assms(1) None assms(2)] assms(3) by simp
next
  case (Some i)
  then have "\<not> i < j" "\<not> j < i" using index_from_Some [OF Some] assms by blast+
  then show ?thesis using Some by simp
qed

lemma index_from_NoneI: "(\<And>k. s \<le> k \<Longrightarrow> \<not> occurs p v k) \<Longrightarrow> index_from p v s = None"
  using index_from_Some by (cases "index_from p v s") blast+

text \<open>Scanning from a later place finds the same when nothing was passed over.\<close>

lemma index_from_skip:
  assumes "p \<noteq> []" and "s \<le> s'" and "\<And>k. s \<le> k \<Longrightarrow> k < s' \<Longrightarrow> \<not> occurs p v k"
  shows "index_from p v s' = index_from p v s"
proof (cases "index_from p v s'")
  case None
  then have "\<not> occurs p v k" if "s \<le> k" for k
    using index_from_None [OF assms(1) None] assms(3) that by (cases "k < s'") auto
  then show ?thesis using None index_from_NoneI by metis
next
  case (Some j)
  have "\<not> occurs p v k" if "s \<le> k" "k < j" for k
    using index_from_Some [OF Some] assms(3) [OF that(1)] that(2) by (cases "k < s'") auto
  then have "index_from p v s = Some j"
    using index_from_Some [OF Some] assms(2) by (intro index_from_eqI [OF assms(1)]) auto
  then show ?thesis using Some by simp
qed

lemma tags: "OPEN_TAG \<noteq> []" "CLOSE_TAG \<noteq> []" "length OPEN_TAG = 7" "length CLOSE_TAG = 8" "MARKER_HOLDBACK = 7"
  by (simp_all add: OPEN_TAG_def CLOSE_TAG_def MARKER_HOLDBACK_def)

lemma utf8_length_append [simp]: "utf8_length (v @ w) = utf8_length v + utf8_length w"
  by (simp add: utf8_length_def)

lemma utf8_take_le: "utf8_length (take k v) \<le> utf8_length v"
  by (metis append_take_drop_id le_add1 utf8_length_append)

lemma utf8_take_mono: "k \<le> l \<Longrightarrow> utf8_length (take k v) \<le> utf8_length (take l v)"
  by (metis min.absorb1 take_take utf8_take_le)

text \<open>The lead of a text is an opening tag after white space, within the limit, so its block starts at \<open>n + 7\<close>.\<close>

definition opened :: "string \<Rightarrow> nat \<Rightarrow> bool" where
  "opened v n \<longleftrightarrow> n = length (takeWhile js_space v) \<and> starts_with OPEN_TAG (drop n v) \<and> utf8_length (take (n + 7) v) \<le> MAX_THINK_LEAD_BYTES"

lemma lead_split:
  assumes "search_nonspace v = Some n"
  shows "n = length (takeWhile js_space v)" and "n < length v" and "length (takeWhile js_space (v @ w)) = n"
proof -
  have "n = length (takeWhile js_space v) \<and> n < length v \<and> length (takeWhile js_space (v @ w)) = n"
    using assms by (induction v arbitrary: n) (auto split: if_splits)
  then show "n = length (takeWhile js_space v)" "n < length v" "length (takeWhile js_space (v @ w)) = n" by auto
qed

lemma no_lead: "search_nonspace v = None \<Longrightarrow> takeWhile js_space (v @ w) = v @ takeWhile js_space w"
  by (induction v) (auto split: if_splits)

lemma opened_append:
  assumes "opened v n"
  shows "opened (v @ w) n"
proof -
  have sw: "starts_with OPEN_TAG (drop n v)" and n: "n = length (takeWhile js_space v)" using assms unfolding opened_def by blast+
  have len: "n + 7 \<le> length v" using occurs_length [of OPEN_TAG v n] sw tags by (simp add: occurs_def)
  have "take 7 (drop n v) ! 0 = OPEN_TAG ! 0" using sw unfolding starts_with_def tags by (rule arg_cong)
  then have "v ! n = CHR ''<''" using len by (simp add: OPEN_TAG_def)
  then have "\<not> js_space (v ! n)" by (simp add: js_space_def)
  moreover have "v ! n \<in> set v" using len by simp
  ultimately have "takeWhile js_space (v @ w) = takeWhile js_space v" by (intro takeWhile_append1)
  then show ?thesis using assms len unfolding opened_def by (elim conjE) (simp add: starts_with_append tags)
qed

lemma opened_bounds: "opened v n \<Longrightarrow> n + 7 \<le> length v"
proof -
  assume "opened v n"
  then have "occurs OPEN_TAG v n" unfolding opened_def occurs_def by blast
  from occurs_length [OF this tags(1)] show ?thesis by (simp add: tags)
qed

lemma opened_spec:
  assumes "opened v n"
  shows "without_think_block v = (case index_from CLOSE_TAG v (n + 7) of
     None \<Rightarrow> v
   | Some j \<Rightarrow> if before (index_from OPEN_TAG v (n + 7)) (Some j) \<or> MAX_THINK_HELD_BYTES < utf8_length (take (j + 8) v) then v
       else drop (j + 8) v)"
proof -
  have n: "n = length (takeWhile js_space v)" and "starts_with OPEN_TAG (drop n v)"
    and "\<not> MAX_THINK_LEAD_BYTES < utf8_length (take (n + 7) v)"
    using assms unfolding opened_def by auto
  then show ?thesis unfolding without_think_block_def Let_def n by simp
qed

text \<open>Opening tags cannot start inside a closing tag that is not yet complete, nor the other way round.\<close>

lemma tags_apart: "occurs OPEN_TAG v k \<Longrightarrow> \<not> occurs CLOSE_TAG v k"
proof
  assume "occurs OPEN_TAG v k" "occurs CLOSE_TAG v k"
  then have "take 7 (drop k v) ! 1 = OPEN_TAG ! 1" "take 8 (drop k v) ! 1 = CLOSE_TAG ! 1"
    unfolding occurs_def starts_with_def tags by (simp_all only:)
  then show False by (simp add: OPEN_TAG_def CLOSE_TAG_def)
qed

lemma nested_settles:
  assumes "opened h n" and "index_from OPEN_TAG h (n + 7) = Some i" and "before (Some i) (index_from CLOSE_TAG h (n + 7))"
  shows "without_think_block (h @ w) = h @ w"
proof -
  note i = index_from_Some [OF assms(2)]
  have fits: "i + 7 \<le> length h" using occurs_length [of OPEN_TAG h i] i tags by simp
  have "index_from OPEN_TAG (h @ w) (n + 7) = Some i"
    using i fits by (intro index_from_eqI) (simp_all add: tags occurs_append)
  moreover have "i < j" if j: "index_from CLOSE_TAG (h @ w) (n + 7) = Some j" for j
  proof (rule ccontr)
    assume "\<not> i < j"
    moreover have "j \<noteq> i" using tags_apart [of "h @ w" i] index_from_Some [OF j] i fits by (auto simp: occurs_append tags)
    ultimately have lt: "j < i" by simp
    then have "occurs CLOSE_TAG h j" using index_from_Some [OF j] fits by (simp add: occurs_append tags)
    moreover have "\<not> occurs CLOSE_TAG h j"
    proof (cases "index_from CLOSE_TAG h (n + 7)")
      case None
      then show ?thesis using index_from_None [OF tags(2) None] index_from_Some [OF j] by blast
    next
      case (Some c)
      then have "i < c" using assms(3) by (simp add: before_def)
      then show ?thesis using index_from_Some [OF Some] index_from_Some [OF j] lt by simp
    qed
    ultimately show False by simp
  qed
  ultimately show ?thesis unfolding opened_spec [OF opened_append [OF assms(1)]]
    by (auto simp: before_def split: option.splits)
qed

lemma close_settles:
  assumes "opened h n" and "index_from CLOSE_TAG h (n + 7) = Some j" and "\<not> before (index_from OPEN_TAG h (n + 7)) (Some j)"
  shows "without_think_block (h @ w) = (if MAX_THINK_HELD_BYTES < utf8_length (take (j + 8) h) then h @ w else drop (j + 8) h @ w)"
proof -
  note j = index_from_Some [OF assms(2)]
  have fits: "j + 8 \<le> length h" using occurs_length [of CLOSE_TAG h j] j tags by simp
  have close: "index_from CLOSE_TAG (h @ w) (n + 7) = Some j"
    using j fits by (intro index_from_eqI) (simp_all add: tags occurs_append)
  have "\<not> before (index_from OPEN_TAG (h @ w) (n + 7)) (Some j)"
  proof
    assume "before (index_from OPEN_TAG (h @ w) (n + 7)) (Some j)"
    then obtain i where i: "index_from OPEN_TAG (h @ w) (n + 7) = Some i" "i < j" by (auto simp: before_def split: option.splits)
    have "occurs OPEN_TAG h i" using index_from_Some [OF i(1)] i(2) fits by (simp add: occurs_append tags)
    then have "index_from OPEN_TAG h (n + 7) = Some i"
      using index_from_Some [OF i(1)] i(2) fits by (intro index_from_eqI) (simp_all add: tags occurs_append)
    then show False using assms(3) i(2) by (simp add: before_def)
  qed
  then show ?thesis unfolding opened_spec [OF opened_append [OF assms(1)]] close using fits by simp
qed

lemma unclosed_settles:
  assumes "opened h n" and "index_from CLOSE_TAG h (n + 7) = None" and "MAX_THINK_HELD_BYTES < utf8_length h"
  shows "without_think_block (h @ w) = h @ w"
proof (cases "index_from CLOSE_TAG (h @ w) (n + 7)")
  case (Some j)
  have "\<not> j + 8 \<le> length h"
    using index_from_Some [OF Some] index_from_None [OF tags(2) assms(2), of j] by (auto simp: occurs_append tags)
  then have "utf8_length h \<le> utf8_length (take (j + 8) (h @ w))" by simp
  then show ?thesis unfolding opened_spec [OF opened_append [OF assms(1)]] Some using assms(3) by simp
qed (simp add: opened_spec [OF opened_append [OF assms(1)]])

lemma unclosed_text: "opened h n \<Longrightarrow> index_from CLOSE_TAG h (n + 7) = None \<Longrightarrow> without_think_block h = h"
  by (simp add: opened_spec)

section \<open>The filter keeps to it\<close>

text \<open>What the filter knows of the text \<open>t\<close> it has been given, when it has released \<open>out\<close>.\<close>

definition scanned :: "string \<Rightarrow> nat \<Rightarrow> nat \<Rightarrow> bool" where
  "scanned t s s' \<longleftrightarrow> (\<forall>k w. s \<le> k \<longrightarrow> k < s' \<longrightarrow> \<not> occurs OPEN_TAG (t @ w) k \<and> \<not> occurs CLOSE_TAG (t @ w) k)"

definition filter_ok :: "string \<Rightarrow> string \<Rightarrow> think_filter \<Rightarrow> bool" where
  "filter_ok t out f \<longleftrightarrow>
     (if tf_state f = PassThrough \<or> tf_state f = FilterDone then (\<forall>w. without_think_block (t @ w) = out @ w)
      else out = [] \<and> tf_held f = t \<and> without_think_block t = t \<and>
        (tf_state f = InsideThink \<longrightarrow> (\<exists>n. opened t n \<and> tf_bodyStart f = n + 7 \<and> n + 7 \<le> tf_scanFrom f \<and> scanned t (n + 7) (tf_scanFrom f))))"

lemma released_ok:
  "(\<And>w. without_think_block (tf_held f @ w) = tf_held f @ w) \<Longrightarrow> releaseLosslessly f = (f', out) \<Longrightarrow> filter_ok (tf_held f) out f'"
  by (auto simp: releaseLosslessly_def filter_ok_def)

lemma inspect_ok:
  assumes "opened h n" and "tf_held f = h" and "tf_bodyStart f = n + 7" and "n + 7 \<le> tf_scanFrom f" and "tf_state f = InsideThink"
    and "\<And>k. n + 7 \<le> k \<Longrightarrow> k < tf_scanFrom f \<Longrightarrow> \<not> occurs OPEN_TAG h k \<and> \<not> occurs CLOSE_TAG h k"
    and "inspectThink f = (f', out)"
  shows "filter_ok h out f'"
proof -
  have find: "index_from OPEN_TAG h (tf_scanFrom f) = index_from OPEN_TAG h (n + 7)"
    "index_from CLOSE_TAG h (tf_scanFrom f) = index_from CLOSE_TAG h (n + 7)"
    using assms(4,6) by (auto intro!: index_from_skip simp: tags)
  let ?nested = "index_from OPEN_TAG h (n + 7)" and ?close = "index_from CLOSE_TAG h (n + 7)"
  note insp = assms(7) [unfolded inspectThink_def Let_def assms(2) find]
  show ?thesis
  proof (cases "before ?nested ?close")
    case True
    then obtain i where "?nested = Some i" by (auto simp: before_def split: option.splits)
    then show ?thesis using released_ok [of f f' out] nested_settles [OF assms(1)] True insp assms(2) by simp
  next
    case nested: False
    show ?thesis
    proof (cases ?close)
      case (Some j)
      then show ?thesis using close_settles [OF assms(1) Some] nested insp released_ok [of f f' out] assms(2)
        by (auto simp: tags filter_ok_def split: if_splits)
    next
      case None
      note none = nested [unfolded None]
      show ?thesis
      proof (cases "MAX_THINK_HELD_BYTES < utf8_length h")
        case True
        then show ?thesis using unclosed_settles [OF assms(1) None] released_ok [of f f' out] insp none None assms(2) by simp
      next
        case False
        then have f': "f' = f\<lparr>tf_scanFrom := max (n + 7) (length h - 7)\<rparr>" "out = []" using insp none None assms(3) by (auto simp: tags)
        have nested': "?nested = None" using none by (auto simp: before_def split: option.splits)
        have "\<not> occurs OPEN_TAG (h @ w) k \<and> \<not> occurs CLOSE_TAG (h @ w) k" if "n + 7 \<le> k" "k < max (n + 7) (length h - 7)" for k w
          using that index_from_None [OF tags(1) nested' that(1)] index_from_None [OF tags(2) None that(1)]
          by (auto simp: occurs_append tags max_def split: if_splits)
        then have "scanned h (n + 7) (max (n + 7) (length h - 7))" by (simp add: scanned_def)
        then show ?thesis using assms(1-5) unclosed_text [OF assms(1) None]
          by (auto simp: filter_ok_def f' intro!: exI [of _ n])
      qed
    qed
  qed
qed

lemma not_opened: "n = length (takeWhile js_space v) \<Longrightarrow> \<not> starts_with OPEN_TAG (drop n v) \<or> MAX_THINK_LEAD_BYTES < utf8_length (take (n + 7) v) \<Longrightarrow>
    without_think_block v = v"
  by (auto simp: without_think_block_def Let_def)

lemma starts_with_prefix: "starts_with OPEN_TAG (v @ w) \<Longrightarrow> length v < 7 \<Longrightarrow> starts_with v OPEN_TAG"
  unfolding starts_with_def by (metis append_eq_conv_conj less_or_eq_imp_le take_append take_take tags(3) min.absorb1 append_take_drop_id)

lemma decide_ok:
  assumes "tf_held f = h" and "tf_state f = LeadHold" and "decideLead f = (f', out)"
  shows "filter_ok h out f'"
proof (cases "search_nonspace h")
  case None
  then have h: "takeWhile js_space (h @ w) = h @ takeWhile js_space w" for w by (rule no_lead)
  have "without_think_block (h @ w) = h @ w" if "MAX_THINK_LEAD_BYTES < utf8_length h" for w
  proof (rule not_opened [OF refl], rule disjI2)
    have "utf8_length h \<le> utf8_length (take (length (takeWhile js_space (h @ w)) + 7) (h @ w))" by (simp add: h)
    then show "MAX_THINK_LEAD_BYTES < utf8_length (take (length (takeWhile js_space (h @ w)) + 7) (h @ w))" using that by simp
  qed
  moreover have "without_think_block h = h"
  proof (rule not_opened [OF refl], rule disjI1)
    have t: "takeWhile js_space h = h" using h [of "[]"] by (simp only: append_Nil2 takeWhile.simps)
    show "\<not> starts_with OPEN_TAG (drop (length (takeWhile js_space h)) h)" unfolding t by (simp add: starts_with_def OPEN_TAG_def)
  qed
  ultimately show ?thesis using assms None released_ok [of f f' out] by (auto simp: decideLead_def filter_ok_def split: if_splits)
next
  case (Some n)
  note lead = lead_split [OF Some]
  have n: "n = length (takeWhile js_space (h @ w))" for w using lead(3) by simp
  have plain: "without_think_block (h @ w) = h @ w"
    if "\<not> starts_with OPEN_TAG (drop n (h @ w)) \<or> MAX_THINK_LEAD_BYTES < utf8_length (take (n + 7) (h @ w))" for w
    using not_opened [OF n that] .
  have drop_append: "drop n (h @ w) = drop n h @ w" for w using lead(2) by simp
  note decide = assms(3) [unfolded decideLead_def assms(1) Some option.case Let_def tags]
  consider (big) "starts_with OPEN_TAG (drop n h)" "MAX_THINK_LEAD_BYTES < utf8_length (take (n + 7) h)"
    | (tag) "starts_with OPEN_TAG (drop n h)" "\<not> MAX_THINK_LEAD_BYTES < utf8_length (take (n + 7) h)"
    | (partial) "\<not> starts_with OPEN_TAG (drop n h)" "starts_with (drop n h) OPEN_TAG"
    | (other) "\<not> starts_with OPEN_TAG (drop n h)" "\<not> starts_with (drop n h) OPEN_TAG" by blast
  then show ?thesis
  proof cases
    case big
    have "utf8_length (take (n + 7) h) \<le> utf8_length (take (n + 7) (h @ w))" for w by simp
    then have "without_think_block (h @ w) = h @ w" for w using plain big(2) by (meson less_le_trans)
    then show ?thesis using decide big released_ok [of f f' out] assms(1) by simp
  next
    case tag
    then have op: "opened h n" using lead(1) by (simp add: opened_def)
    show ?thesis by (rule inspect_ok [OF op]) (use tag decide assms(1) in auto)
  next
    case partial
    have short: "length (drop n h) < 7"
    proof (rule ccontr)
      assume "\<not> length (drop n h) < 7"
      then have "length (drop n h) = 7" using starts_with_length [OF partial(2)] by (simp add: tags)
      then show False using partial tags by (simp add: starts_with_def)
    qed
    have "without_think_block (h @ w) = h @ w" if "MAX_THINK_LEAD_BYTES < utf8_length h" for w
    proof (rule plain, rule disjI2)
      have "utf8_length h \<le> utf8_length (take (n + 7) (h @ w))" using short by simp
      then show "MAX_THINK_LEAD_BYTES < utf8_length (take (n + 7) (h @ w))" using that by simp
    qed
    moreover have "without_think_block h = h" using plain [of "[]"] partial(1) by simp
    ultimately show ?thesis using decide partial assms(1,2) released_ok [of f f' out]
      by (auto simp: filter_ok_def split: if_splits)
  next
    case other
    have "\<not> starts_with OPEN_TAG (drop n h @ w)" for w
    proof
      assume s: "starts_with OPEN_TAG (drop n h @ w)"
      show False
      proof (cases "length (drop n h) < 7")
        case True
        then show False using starts_with_prefix [OF s] other(2) by simp
      next
        case False
        then show False using s other(1) by (simp add: starts_with_append tags)
      qed
    qed
    then have "without_think_block (h @ w) = h @ w" for w using plain drop_append by simp
    then show ?thesis using decide other released_ok [of f f' out] assms(1) by simp
  qed
qed

lemma push_ok:
  assumes "filter_ok t out f" and "filter_push v f = (f', freed)"
  shows "filter_ok (t @ v) (out @ freed) f'"
proof -
  consider "v = []" | "v \<noteq> []" "tf_state f = PassThrough \<or> tf_state f = FilterDone"
    | "v \<noteq> []" "tf_state f = LeadHold" | "v \<noteq> []" "tf_state f = InsideThink"
    by (cases "tf_state f") auto
  then show ?thesis
  proof cases
    case 1
    then show ?thesis using assms by (simp add: filter_push_def)
  next
    case 2
    then have "f' = f" "freed = v" using assms(2) by (simp_all add: filter_push_def)
    moreover have "without_think_block (t @ v @ w) = out @ v @ w" for w using assms(1) 2(2) unfolding filter_ok_def by simp
    ultimately show ?thesis using 2(2) by (simp add: filter_ok_def)
  next
    case 3
    then have "out = []" "tf_held f = t" using assms(1) by (simp_all add: filter_ok_def)
    then show ?thesis using decide_ok [of "f\<lparr>tf_held := tf_held f @ v\<rparr>" "t @ v" f' freed] 3 assms(2) by (simp add: filter_push_def)
  next
    case 4
    then obtain n where f: "out = []" "tf_held f = t" "opened t n" "tf_bodyStart f = n + 7" "n + 7 \<le> tf_scanFrom f" "scanned t (n + 7) (tf_scanFrom f)"
      using assms(1) by (auto simp: filter_ok_def)
    have "filter_ok (t @ v) freed f'"
      by (rule inspect_ok [OF opened_append [OF f(3)], of "f\<lparr>tf_held := tf_held f @ v\<rparr>"])
        (use f 4 assms(2) in \<open>auto simp: filter_push_def scanned_def\<close>)
    then show ?thesis using f(1) by simp
  qed
qed

lemma flush_ok: "filter_ok t out f \<Longrightarrow> out @ snd (filter_flush f) = without_think_block t"
  by (cases "tf_state f") (auto simp: filter_ok_def filter_flush_def releaseLosslessly_def dest: spec [of _ "[]"])

lemma push_all_ok: "filter_ok t out f \<Longrightarrow> out @ push_all vs f = without_think_block (t @ concat vs)"
proof (induction vs arbitrary: t out f)
  case Nil
  then show ?case using flush_ok by simp
next
  case (Cons v vs)
  obtain f' freed where p: "filter_push v f = (f', freed)" by force
  show ?case using Cons.IH [OF push_ok [OF Cons.prems p]] by (simp add: p)
qed

lemma new_filter_ok: "filter_ok [] [] new_filter"
  by (simp add: filter_ok_def new_filter_def without_think_block_def Let_def starts_with_def OPEN_TAG_def)

text \<open>C6. The think-tag filter is exact and lossless: however a text is cut into pieces, what the filter releases for the pieces and at
  the end is the whole text without its opening block, as read off the whole text - nothing else is removed, reordered or held back -
  and it is what the one-piece helper returns.\<close>

theorem think_filter_exact:
  "push_all pieces new_filter = without_think_block (concat pieces) \<and>
   stripOpeningThinkTag (concat pieces) = push_all pieces new_filter"
proof -
  have all: "push_all vs new_filter = without_think_block (concat vs)" for vs using push_all_ok [OF new_filter_ok] by simp
  have "stripOpeningThinkTag (concat pieces) = push_all [concat pieces] new_filter" by (simp add: stripOpeningThinkTag_def)
  then show ?thesis using all [of pieces] all [of "[concat pieces]"] by (simp del: push_all.simps)
qed

end
