(* ===== verification/Tool_Ids.thy ===== *)
theory Tool_Ids
  imports Think_Tags
begin

text \<open>
  Tool-use identifiers (\<^verbatim>\<open>tool-use-ids.ts\<close>): which identifiers a request already uses, the minting of unused ones, and the
  rewriting of a response, buffered or streamed. A set of strings is a list in insertion order.
\<close>

section \<open>The identifiers of a request\<close>

definition MAX_BLOCK_DEPTH :: nat where "MAX_BLOCK_DEPTH = 2"

definition set_add :: "string \<Rightarrow> string list \<Rightarrow> string list" where
  "set_add v s = (if v \<in> set s then s else s @ [v])"

definition add_id :: "json option \<Rightarrow> string list \<Rightarrow> string list" where
  "add_id v s = (case v of Some (JStr i) \<Rightarrow> if i \<noteq> [] then set_add i s else s | _ \<Rightarrow> s)"

text \<open>\<open>room\<close> is how many levels of blocks may still be entered, \<^verbatim>\<open>MAX_BLOCK_DEPTH + 1 - depth\<close>.\<close>

fun collectFromBlocks :: "nat \<Rightarrow> json option \<Rightarrow> string list \<Rightarrow> string list" where
  "collectFromBlocks 0 blocks s = s"
| "collectFromBlocks (Suc room) blocks s =
     (case blocks of
        Some (JArr bs) \<Rightarrow>
          fold (\<lambda>b s.
             case b of
               JObj ms \<Rightarrow>
                 (let s1 = (if member ms ''type'' = Some (JStr ''tool_use'') then add_id (member ms ''id'') s else s) in
                  if member ms ''type'' = Some (JStr ''tool_result'')
                  then collectFromBlocks room (member ms ''content'') (add_id (member ms ''tool_use_id'') s1)
                  else s1)
             | _ \<Rightarrow> s) bs s
      | _ \<Rightarrow> s)"

definition knownToolUseIds :: "json \<Rightarrow> string list" where
  "knownToolUseIds req =
     (case data_key (Some req) ''messages'' of
        Some (JArr turns) \<Rightarrow>
          fold (\<lambda>turn s. case turn of JObj ms \<Rightarrow> collectFromBlocks MAX_BLOCK_DEPTH (member ms ''content'') s | _ \<Rightarrow> s) turns []
      | _ \<Rightarrow> [])"

section \<open>Minting\<close>

definition relay_id :: "string \<Rightarrow> nat \<Rightarrow> string" where
  "relay_id i k = i @ ''_relay'' @ show_nat k"

lemma relay_id_inj: "relay_id i k = relay_id i l \<longleftrightarrow> k = l"
  by (simp add: relay_id_def show_nat_inj)

definition taken_from :: "string \<Rightarrow> string list \<Rightarrow> nat \<Rightarrow> nat set" where
  "taken_from i taken k = {l. k \<le> l \<and> relay_id i l \<in> set taken}"

lemma finite_taken_from: "finite (taken_from i taken k)"
proof (rule finite_imageD)
  show "finite (relay_id i ` taken_from i taken k)"
    by (rule finite_subset [of _ "set taken"]) (auto simp: taken_from_def)
  show "inj_on (relay_id i) (taken_from i taken k)" by (simp add: inj_on_def relay_id_inj)
qed

text \<open>The loop of \<^verbatim>\<open>uniqueToolUseId\<close>, from \<open>k\<close> on.\<close>

function first_unused :: "string \<Rightarrow> string list \<Rightarrow> nat \<Rightarrow> string" where
  "first_unused i taken k = (if relay_id i k \<in> set taken then first_unused i taken (k + 1) else relay_id i k)"
  by pat_completeness auto

termination
proof (relation "measure (\<lambda>(i, taken, k). card (taken_from i taken k))")
  fix i :: string and taken :: "string list" and k :: nat
  assume "relay_id i k \<in> set taken"
  then have "k \<in> taken_from i taken k" "k \<notin> taken_from i taken (k + 1)" "taken_from i taken (k + 1) \<subseteq> taken_from i taken k"
    by (auto simp: taken_from_def)
  then have "taken_from i taken (k + 1) \<subset> taken_from i taken k" by blast
  then show "((i, taken, k + 1), (i, taken, k)) \<in> measure (\<lambda>(i, taken, k). card (taken_from i taken k))"
    using psubset_card_mono [OF finite_taken_from] by simp
qed simp

declare first_unused.simps [simp del]

definition uniqueToolUseId :: "string \<Rightarrow> string list \<Rightarrow> string" where
  "uniqueToolUseId i taken = (if i \<notin> set taken then i else first_unused i taken 1)"

record id_minter =
  im_taken :: "string list"
  im_count :: nat

definition mint :: "string \<Rightarrow> id_minter \<Rightarrow> id_minter \<times> string" where
  "mint i m =
     (let n = uniqueToolUseId i (im_taken m) in
      (\<lparr>im_taken = set_add n (im_taken m), im_count = (if n \<noteq> i then im_count m + 1 else im_count m)\<rparr>, n))"

section \<open>Rewriting a response\<close>

text \<open>The identifier a block of the response carries, if it is a tool use with one.\<close>

definition tool_use_id :: "json \<Rightarrow> string option" where
  "tool_use_id b =
     (case b of
        JObj ms \<Rightarrow> if member ms ''type'' = Some (JStr ''tool_use'')
          then (case member ms ''id'' of Some (JStr i) \<Rightarrow> Some i | _ \<Rightarrow> None) else None
      | _ \<Rightarrow> None)"

fun with_id :: "string \<Rightarrow> json \<Rightarrow> json" where
  "with_id i (JObj ms) = JObj (jm_put ''id'' (JStr i) ms)"
| "with_id i b = b"

fun rewrite_blocks :: "json list \<Rightarrow> id_minter \<Rightarrow> (string, string) jmap \<Rightarrow> json list \<times> id_minter \<times> (string, string) jmap" where
  "rewrite_blocks [] m renamed = ([], m, renamed)"
| "rewrite_blocks (b # bs) m renamed =
     (case tool_use_id b of
        None \<Rightarrow> (let (out, x) = rewrite_blocks bs m renamed in (b # out, x))
      | Some i \<Rightarrow>
          (let (m1, minted) = mint i m in
           if minted = i then (let (out, x) = rewrite_blocks bs m1 renamed in (b # out, x))
           else (let (out, x) = rewrite_blocks bs m1 (jm_put i minted renamed) in (with_id minted b # out, x))))"

record tool_use_id_rewrite =
  tr_content :: "json list"
  tr_rewritten :: nat
  tr_map :: "(string, string) jmap"

definition rewriteToolUseIds :: "json \<Rightarrow> string list \<Rightarrow> tool_use_id_rewrite" where
  "rewriteToolUseIds content taken =
     (let blocks = (case content of JArr bs \<Rightarrow> bs | _ \<Rightarrow> []);
          (out, m, renamed) = rewrite_blocks blocks \<lparr>im_taken = remdups taken, im_count = 0\<rparr> []
      in \<lparr>tr_content = (if 0 < im_count m then out else blocks), tr_rewritten = im_count m, tr_map = renamed\<rparr>)"

definition replaceEventData :: "string \<Rightarrow> string \<Rightarrow> string" where
  "replaceEventData block data =
     (let eol = (if find_text [CR, LF] block \<noteq> None then [CR, LF] else [LF]);
          out = fold (\<lambda>line (out, emitted).
              if \<not> starts_with ''data:'' line then (out @ [line], emitted)
              else if emitted then (out, emitted)
              else (out @ [''data: '' @ data], True)) (split_eol block) ([], False)
      in join_with eol (fst out))"

text \<open>
  One frame of a streamed response. The minter is made at the first tool use, from what \<open>takenIds\<close> then says; \<open>stringify\<close> is
  \<^verbatim>\<open>JSON.stringify\<close>. The state also counts what the caller was told was rewritten so far.
\<close>

definition rewriteOne ::
  "(string \<Rightarrow> json option) \<Rightarrow> (json \<Rightarrow> string) \<Rightarrow> string list \<Rightarrow> string \<Rightarrow> id_minter option \<Rightarrow> id_minter option \<times> string option" where
  "rewriteOne json_parse stringify takenIds block minter =
     (if find_text ''tool_use'' block = None then (minter, None)
      else
        (let data = map js_trim (ef_dataLines (sseEventFields block)) in
         if data = [] then (minter, None)
         else
           (case json_parse (join_with [LF] data) of
              Some (JObj ms) \<Rightarrow>
                if member ms ''type'' \<noteq> Some (JStr ''content_block_start'') then (minter, None)
                else
                  (case member ms ''content_block'' of
                     Some (JObj cb) \<Rightarrow>
                       (case tool_use_id (JObj cb) of
                          Some i \<Rightarrow>
                            (let m = (case minter of None \<Rightarrow> \<lparr>im_taken = remdups takenIds, im_count = 0\<rparr> | Some m \<Rightarrow> m);
                                 (m1, minted) = mint i m
                             in (Some m1, if minted = i then None
                               else Some (replaceEventData block (stringify (JObj (jm_put ''content_block'' (with_id minted (JObj cb)) ms))))))
                        | None \<Rightarrow> (minter, None))
                   | _ \<Rightarrow> (minter, None))
            | _ \<Rightarrow> (minter, None))))"

definition rewrite_frame where
  "rewrite_frame json_parse stringify takenIds f minter =
     (case rewriteOne json_parse stringify takenIds (sf_frame f) minter of
        (m, out) \<Rightarrow> (m, [(case out of None \<Rightarrow> sf_frame f | Some v \<Rightarrow> v) @ sf_separator f]))"

definition rewriteToolUseIdsInStream where
  "rewriteToolUseIdsInStream json_parse stringify takenIds render pieces tail failure =
     createSseTransformStream (rewrite_frame json_parse stringify takenIds) (\<lambda>m. []) render None pieces tail failure"

section \<open>What the rewriting promises\<close>

lemma first_unused_free:
  "first_unused i taken k \<notin> set taken \<and>
     (\<exists>l. first_unused i taken k = relay_id i l \<and> k \<le> l \<and> (\<forall>j. k \<le> j \<longrightarrow> j < l \<longrightarrow> relay_id i j \<in> set taken))"
proof (induction i taken k rule: first_unused.induct)
  case (1 i taken k)
  show ?case
  proof (cases "relay_id i k \<in> set taken")
    case True
    obtain l where l: "first_unused i taken (k + 1) = relay_id i l" "k + 1 \<le> l" "\<forall>j. k + 1 \<le> j \<longrightarrow> j < l \<longrightarrow> relay_id i j \<in> set taken"
      using "1.IH" [OF True] by blast
    have "relay_id i j \<in> set taken" if "k \<le> j" "j < l" for j
      using l(3) True that by (cases "j = k") auto
    then show ?thesis using "1.IH" [OF True] l True by (auto simp: first_unused.simps [of i taken k] intro!: exI [of _ l])
  next
    case False
    then show ?thesis by (auto simp: first_unused.simps [of i taken k] intro!: exI [of _ k])
  qed
qed

text \<open>A minted identifier is unused; it is the given one when that is unused, and otherwise the given one with the suffix \<^verbatim>\<open>_relay<k>\<close>
  for the least \<open>k\<close> from 1 on that is free. The search for it ends.\<close>

theorem minted_id_is_first_free:
  "uniqueToolUseId i taken \<notin> set taken \<and>
   (if i \<notin> set taken then uniqueToolUseId i taken = i
    else \<exists>l. uniqueToolUseId i taken = relay_id i l \<and> 1 \<le> l \<and> (\<forall>j. 1 \<le> j \<longrightarrow> j < l \<longrightarrow> relay_id i j \<in> set taken))"
  using first_unused_free [of i taken 1] by (simp add: uniqueToolUseId_def)

theorem minted_id_is_first_free_witness:
  "uniqueToolUseId ''t'' [''t'', ''t_relay1''] \<notin> {''t'', ''t_relay1''}"
  using minted_id_is_first_free [of "''t''" "[''t'', ''t_relay1'']"] by simp

lemma unique_unused: "uniqueToolUseId i taken \<notin> set taken" "i \<notin> set taken \<Longrightarrow> uniqueToolUseId i taken = i"
  using first_unused_free [of i taken 1] by (simp_all add: uniqueToolUseId_def)

lemma tool_use_id_with_id: "tool_use_id b \<noteq> None \<Longrightarrow> tool_use_id (with_id i b) = Some i"
proof (cases b)
  case (JObj ms)
  have m: "member (jm_put ''id'' (JStr i) ms) k = (if k = ''id'' then Some (JStr i) else member ms k)" for k
    using jm.get_put [of "''id''" "JStr i" ms k] by (simp add: member_def jm_get_def)
  then show "tool_use_id b \<noteq> None \<Longrightarrow> ?thesis" by (auto simp: JObj tool_use_id_def m split: if_splits)
qed (simp_all add: tool_use_id_def)

definition block_ids :: "json list \<Rightarrow> string list" where
  "block_ids bs = List.map_filter tool_use_id bs"

lemma block_ids_Cons: "block_ids (b # bs) = (case tool_use_id b of None \<Rightarrow> block_ids bs | Some i \<Rightarrow> i # block_ids bs)"
  by (simp add: block_ids_def map_filter_simps split: option.split)

definition kept_or_renamed :: "json \<Rightarrow> json \<Rightarrow> bool" where
  "kept_or_renamed b c \<longleftrightarrow> c = b \<or> (\<exists>i. tool_use_id b \<noteq> None \<and> c = with_id i b)"

lemma rewrite_blocks_ok:
  "rewrite_blocks bs m renamed = (out, m', renamed') \<Longrightarrow>
     distinct (block_ids out) \<and> set (block_ids out) \<inter> set (im_taken m) = {} \<and>
     set (im_taken m') = set (im_taken m) \<union> set (block_ids out) \<and>
     list_all2 kept_or_renamed bs out \<and> im_count m \<le> im_count m' \<and> (im_count m' = im_count m \<longrightarrow> out = bs) \<and>
     (distinct (block_ids bs) \<and> set (block_ids bs) \<inter> set (im_taken m) = {} \<longrightarrow> im_count m' = im_count m)"
proof (induction bs m renamed arbitrary: out m' renamed' rule: rewrite_blocks.induct)
  case (1 m renamed)
  then show ?case by (simp add: block_ids_def map_filter_simps)
next
  case (2 b bs m renamed)
  show ?case
  proof (cases "tool_use_id b")
    case None
    obtain out1 where r: "rewrite_blocks bs m renamed = (out1, m', renamed')" "out = b # out1"
      using "2.prems" None by (auto simp: Let_def split: prod.splits)
    show ?thesis using "2.IH"(1) [OF None r(1)] None by (simp add: r(2) block_ids_Cons kept_or_renamed_def)
  next
    case (Some i)
    define j where "j = uniqueToolUseId i (im_taken m)"
    define m1 where "m1 = \<lparr>im_taken = set_add j (im_taken m), im_count = (if j \<noteq> i then im_count m + 1 else im_count m)\<rparr>"
    have mint: "mint i m = (m1, j)" by (simp add: mint_def m1_def j_def Let_def)
    have free: "j \<notin> set (im_taken m)" using unique_unused(1) by (simp add: j_def)
    have taken: "set (im_taken m1) = insert j (set (im_taken m))" by (auto simp: m1_def set_add_def)
    show ?thesis
    proof (cases "j = i")
      case True
      obtain out1 where r: "rewrite_blocks bs m1 renamed = (out1, m', renamed')" "out = b # out1"
        using "2.prems" Some mint True by (auto simp: Let_def split: prod.splits)
      note IH = "2.IH"(2) [OF Some mint [symmetric] refl True r(1)]
      have "im_count m1 = im_count m" by (simp add: m1_def True)
      then show ?thesis using IH Some taken free True by (auto simp: r(2) block_ids_Cons kept_or_renamed_def)
    next
      case False
      obtain out1 where r: "rewrite_blocks bs m1 (jm_put i j renamed) = (out1, m', renamed')" "out = with_id j b # out1"
        using "2.prems" Some mint False by (auto simp: Let_def split: prod.splits)
      note IH = "2.IH"(3) [OF Some mint [symmetric] refl False r(1)]
      have count: "im_count m1 = im_count m + 1" by (simp add: m1_def False)
      have "i \<in> set (im_taken m)" using False unique_unused(2) [of i "im_taken m"] by (auto simp: j_def)
      then show ?thesis using IH Some taken free count tool_use_id_with_id [of b j]
        by (auto simp: r(2) block_ids_Cons kept_or_renamed_def)
    qed
  qed
qed

text \<open>C8. A rewritten response has no identifier twice and none that the conversation already uses; every block is as it was or has its
  identifier replaced and nothing else, in the same order; and rewriting it again changes nothing.\<close>

theorem rewritten_ids_unique:
  assumes "r = rewriteToolUseIds (JArr bs) taken"
  shows "distinct (block_ids (tr_content r)) \<and> set (block_ids (tr_content r)) \<inter> set taken = {} \<and>
    list_all2 kept_or_renamed bs (tr_content r) \<and>
    tr_content (rewriteToolUseIds (JArr (tr_content r)) taken) = tr_content r \<and>
    tr_rewritten (rewriteToolUseIds (JArr (tr_content r)) taken) = 0"
proof -
  let ?m = "\<lparr>im_taken = remdups taken, im_count = 0\<rparr>"
  obtain out m renamed where r: "rewrite_blocks bs ?m [] = (out, m, renamed)" using prod_cases3 by blast
  note ok = rewrite_blocks_ok [OF r]
  have content: "tr_content r = out" using ok by (simp add: assms rewriteToolUseIds_def r)
  obtain out2 m2 renamed2 where r2: "rewrite_blocks out ?m [] = (out2, m2, renamed2)" using prod_cases3 by blast
  have "im_count m2 = 0" using rewrite_blocks_ok [OF r2] ok by simp
  then have "tr_content (rewriteToolUseIds (JArr out) taken) = out" "tr_rewritten (rewriteToolUseIds (JArr out) taken) = 0"
    by (simp_all add: rewriteToolUseIds_def r2)
  then show ?thesis using ok by (simp add: content)
qed

definition ex_tool :: "string \<Rightarrow> json" where
  "ex_tool i = JObj [(''type'', JStr ''tool_use''), (''id'', JStr i)]"

theorem rewritten_ids_unique_witness:
  "distinct (block_ids (tr_content (rewriteToolUseIds (JArr [ex_tool ''t'', JNull, ex_tool ''t'']) [''t'']))) \<and>
   tr_rewritten (rewriteToolUseIds (JArr (tr_content (rewriteToolUseIds (JArr [ex_tool ''t'', JNull, ex_tool ''t'']) [''t'']))) [''t'']) = 0"
  using rewritten_ids_unique [OF refl, of "[ex_tool ''t'', JNull, ex_tool ''t'']" "[''t'']"] by simp

end
