(* ===== verification/Write_Behind.thy ===== *)
theory Write_Behind
  imports JsData
begin

text \<open>
  The write-behind timer of the persisted stores (\<^verbatim>\<open>write-behind.ts\<close>). A pending flush is a number that stands for its
  callback; the timer is the moment it is due. \<open>fires\<close> is the callback the timer runs.
\<close>

section \<open>The timer\<close>

definition DEFAULT_FLUSH_DELAY_MS :: rat where
  "DEFAULT_FLUSH_DELAY_MS = 250"

definition MAX_FLUSH_DELAY_MS :: rat where
  "MAX_FLUSH_DELAY_MS = 2000"

record write_behind =
  wb_timer :: "(rat \<times> nat) option"
  wb_dirtySince :: "rat option"
  wb_pending :: "nat option"

definition new_timer :: write_behind where
  "new_timer = \<lparr>wb_timer = None, wb_dirtySince = None, wb_pending = None\<rparr>"

definition wb_dirty :: "write_behind \<Rightarrow> bool" where
  "wb_dirty t \<longleftrightarrow> wb_dirtySince t \<noteq> None"

definition wb_clear :: "write_behind \<Rightarrow> write_behind" where
  "wb_clear t = t\<lparr>wb_timer := None, wb_dirtySince := None, wb_pending := None\<rparr>"

text \<open>\<^verbatim>\<open>touch\<close>: the first one of a burst starts the clock, every one moves the timer, none beyond the bound.\<close>

definition touch :: "nat \<Rightarrow> rat \<Rightarrow> write_behind \<Rightarrow> write_behind" where
  "touch flush now t =
     (let since = (case wb_dirtySince t of Some s \<Rightarrow> s | None \<Rightarrow> now);
          remaining = max 0 (MAX_FLUSH_DELAY_MS - (now - since))
      in t\<lparr>wb_dirtySince := Some since, wb_pending := Some flush, wb_timer := Some (now + min DEFAULT_FLUSH_DELAY_MS remaining, flush)\<rparr>)"

text \<open>The callback of the timer: the state after it, and the flush it runs.\<close>

definition timer_fires :: "write_behind \<Rightarrow> write_behind \<times> nat option" where
  "timer_fires t = (case wb_timer t of None \<Rightarrow> (t, None) | Some (moment, flush) \<Rightarrow> (wb_clear t, Some flush))"

definition flushNow :: "write_behind \<Rightarrow> write_behind \<times> nat option" where
  "flushNow t = (if \<not> wb_dirty t then (t, None) else (case wb_pending t of None \<Rightarrow> (t, None) | Some f \<Rightarrow> (wb_clear t, Some f)))"

section \<open>The registry\<close>

text \<open>\<open>ok f\<close>: the flush returns; one that throws is not counted, and the next timers are still flushed.\<close>

fun flushAll :: "(nat \<Rightarrow> bool) \<Rightarrow> write_behind list \<Rightarrow> write_behind list \<times> nat list \<times> nat" where
  "flushAll ok [] = ([], [], 0)"
| "flushAll ok (t # ts) =
     (let (t1, ran) = flushNow t; (ts1, runs, n) = flushAll ok ts in
      case ran of None \<Rightarrow> (t1 # ts1, runs, n) | Some f \<Rightarrow> (t1 # ts1, f # runs, (if ok f then n + 1 else n)))"

section \<open>Reachable timers\<close>

text \<open>
  A timer and the clock. Nothing is said of when the event loop gets to run: the clock goes on by any amount at any moment, a touch
  may come while the timer is overdue, and the timer fires at some moment when it is due, or never.
\<close>

definition due :: "write_behind \<Rightarrow> rat \<Rightarrow> bool" where
  "due t now \<longleftrightarrow> (\<exists>moment f. wb_timer t = Some (moment, f) \<and> moment \<le> now)"

text \<open>A world: the time, the timer, and the moments of the first and of the last of the changes that are not written yet, which the
  timer does not tell.\<close>

type_synonym wb_world = "rat \<times> write_behind \<times> (rat \<times> rat) option"

definition changed :: "rat \<Rightarrow> (rat \<times> rat) option \<Rightarrow> (rat \<times> rat) option" where
  "changed now waiting = Some (case waiting of None \<Rightarrow> (now, now) | Some (since, latest) \<Rightarrow> (since, now))"

inductive wb_step :: "wb_world \<Rightarrow> wb_world \<Rightarrow> bool" where
  wait: "now \<le> later \<Longrightarrow> wb_step (now, t, waiting) (later, t, waiting)"
| touch: "wb_step (now, t, waiting) (now, touch f now t, changed now waiting)"
| fire: "due t now \<Longrightarrow> wb_step (now, t, waiting) (now, fst (timer_fires t), None)"
| flush: "wb_step (now, t, waiting) (now, fst (flushNow t), if snd (flushNow t) = None then waiting else None)"
| clear: "wb_step (now, t, waiting) (now, wb_clear t, None)"

inductive wb_reachable :: "wb_world \<Rightarrow> bool" where
  start: "wb_reachable (now, new_timer, None)"
| step: "wb_reachable s \<Longrightarrow> wb_step s s' \<Longrightarrow> wb_reachable s'"

definition wb_shape :: "write_behind \<Rightarrow> bool" where
  "wb_shape t \<longleftrightarrow>
     (case (wb_timer t, wb_dirtySince t, wb_pending t) of
        (None, None, None) \<Rightarrow> True | (Some (moment, f), Some since, Some g) \<Rightarrow> f = g | _ \<Rightarrow> False)"

definition armed_for :: "rat \<Rightarrow> rat \<Rightarrow> rat" where
  "armed_for since latest = latest + min 250 (max 0 (since + 2000 - latest))"

definition wb_ok :: "wb_world \<Rightarrow> bool" where
  "wb_ok = (\<lambda>(now, t, waiting). wb_shape t \<and> wb_dirtySince t = map_option fst waiting \<and>
     (\<forall>since latest. waiting = Some (since, latest) \<longrightarrow>
        since \<le> latest \<and> latest \<le> now \<and> map_option fst (wb_timer t) = Some (armed_for since latest)))"

lemmas wb_defs = wb_shape_def touch_def timer_fires_def flushNow_def wb_clear_def wb_dirty_def due_def DEFAULT_FLUSH_DELAY_MS_def
  MAX_FLUSH_DELAY_MS_def

lemma wb_ok_clear: "wb_ok (now, wb_clear t, None)"
  by (simp add: wb_ok_def wb_shape_def wb_clear_def)

lemma wb_touch_parts:
  "wb_dirtySince (touch f now t) = Some (case wb_dirtySince t of None \<Rightarrow> now | Some since \<Rightarrow> since)"
  "wb_timer (touch f now t) = Some (armed_for (case wb_dirtySince t of None \<Rightarrow> now | Some since \<Rightarrow> since) now, f)"
  "wb_shape (touch f now t)"
  by (simp_all add: touch_def Let_def wb_shape_def armed_for_def DEFAULT_FLUSH_DELAY_MS_def MAX_FLUSH_DELAY_MS_def algebra_simps
      split: option.split)

lemma wb_flush_cases:
  assumes "wb_shape t"
  shows "flushNow t = (if wb_dirty t then (wb_clear t, wb_pending t) else (t, None))" and "wb_dirty t \<longleftrightarrow> wb_pending t \<noteq> None"
  using assms by (cases "wb_timer t"; cases "wb_dirtySince t"; cases "wb_pending t"; simp add: wb_defs split: prod.splits)+

lemma wb_step_ok: "wb_step s s' \<Longrightarrow> wb_ok s \<Longrightarrow> wb_ok s'"
proof (induction rule: wb_step.induct)
  case (touch now t waiting f)
  then show ?case by (auto simp: wb_ok_def changed_def wb_touch_parts split: option.splits)
next
  case (fire t now waiting)
  then show ?case using wb_ok_clear by (auto simp: timer_fires_def due_def split: option.splits)
next
  case (flush now t waiting)
  then have "wb_shape t" by (simp add: wb_ok_def)
  then show ?case using flush wb_ok_clear [of now t] wb_flush_cases [of t] by (auto simp: wb_dirty_def)
qed (use wb_ok_clear in \<open>fastforce simp: wb_ok_def\<close>)+

lemma wb_reachable_ok: "wb_reachable s \<Longrightarrow> wb_ok s"
proof (induction rule: wb_reachable.induct)
  case (start now)
  then show ?case by (simp add: new_timer_def wb_ok_def wb_shape_def)
qed (rule wb_step_ok)

text \<open>C35. A change is always armed to be written, and in time: in every reachable state of a write-behind timer in which changes wait,
  whenever the first and the last of them came, and however late the event loop ran the timer or the touches, one timer is
  armed for the flush that the last one asked for. It is due within the short delay after the last change, and no later than the
  long delay after the first, or at once when the last change itself came later than that. When the timer fires, it runs
  that flush and nothing waits any more. Without a change that waits there is no timer.\<close>

theorem write_is_armed_in_time:
  assumes "wb_reachable (now, t, waiting)"
  shows "case waiting of
      None \<Rightarrow> wb_timer t = None \<and> \<not> wb_dirty t
    | Some (since, latest) \<Rightarrow> (\<exists>moment f. wb_timer t = Some (moment, f) \<and> wb_pending t = Some f \<and> latest \<le> moment \<and>
        moment \<le> latest + 250 \<and> moment \<le> max latest (since + 2000) \<and> timer_fires t = (new_timer, Some f))"
proof -
  have ok: "wb_shape t" "wb_dirtySince t = map_option fst waiting"
      "\<And>since latest. waiting = Some (since, latest) \<Longrightarrow> map_option fst (wb_timer t) = Some (armed_for since latest)"
    using wb_reachable_ok [OF assms] by (auto simp: wb_ok_def)
  show ?thesis
  proof (cases waiting)
    case None
    then show ?thesis using ok(1,2) by (auto simp: wb_shape_def wb_dirty_def split: option.splits)
  next
    case (Some w)
    obtain since latest where w: "waiting = Some (since, latest)" using Some by (cases w) simp
    obtain moment f where m: "wb_timer t = Some (moment, f)" "moment = armed_for since latest" using ok(3) [OF w] by auto
    then have "wb_pending t = Some f" using ok(1,2) w by (auto simp: wb_shape_def split: option.splits)
    moreover have "timer_fires t = (new_timer, Some f)" using m by (simp add: timer_fires_def wb_clear_def new_timer_def)
    ultimately show ?thesis using m w by (auto simp: armed_for_def)
  qed
qed

text \<open>Two changes, the second of which comes after a block longer than the long delay.\<close>

lemma late_touches: "wb_reachable (3000, touch 2 3000 (touch 1 0 new_timer), Some (0, 3000))"
proof -
  have "wb_reachable (0, touch 1 0 new_timer, changed 0 None)"
    by (rule wb_reachable.step [OF wb_reachable.start wb_step.touch])
  then have "wb_reachable (3000, touch 1 0 new_timer, changed 0 None)" by (rule wb_reachable.step) (rule wb_step.wait, simp)
  then have "wb_reachable (3000, touch 2 3000 (touch 1 0 new_timer), changed 3000 (changed 0 None))"
    by (rule wb_reachable.step) (rule wb_step.touch)
  then show ?thesis by (simp add: changed_def)
qed

theorem write_is_armed_in_time_witness:
  "\<exists>moment. wb_timer (touch 2 3000 (touch 1 0 new_timer)) = Some (moment, 2) \<and> moment \<le> max 3000 (0 + 2000) \<and>
     timer_fires (touch 2 3000 (touch 1 0 new_timer)) = (new_timer, Some 2)"
  using write_is_armed_in_time [OF late_touches] by (auto simp: wb_touch_parts(2))

text \<open>What a flush of all timers runs: every pending flush once, in order, and no timer stays dirty.\<close>

lemma flushAll_exact:
  assumes "list_all wb_shape ts"
  shows "fst (snd (flushAll ok ts)) = List.map_filter wb_pending ts" and "list_all (\<lambda>t. \<not> wb_dirty t) (fst (flushAll ok ts))"
    and "snd (snd (flushAll ok ts)) = length (filter ok (List.map_filter wb_pending ts))"
proof -
  have one: "snd (flushNow t) = wb_pending t \<and> \<not> wb_dirty (fst (flushNow t))" if "wb_shape t" for t
    using wb_flush_cases [OF that] by (auto simp: wb_dirty_def wb_clear_def)
  have "fst (snd (flushAll ok ts)) = List.map_filter wb_pending ts \<and> list_all (\<lambda>t. \<not> wb_dirty t) (fst (flushAll ok ts)) \<and>
      snd (snd (flushAll ok ts)) = length (filter ok (List.map_filter wb_pending ts))"
    using assms
  proof (induction ts)
    case (Cons t ts)
    then show ?case using one [of t]
      by (cases "flushNow t"; cases "snd (flushNow t)") (auto simp: List.map_filter_simps Let_def split: prod.splits)
  qed (simp add: List.map_filter_simps)
  then show "fst (snd (flushAll ok ts)) = List.map_filter wb_pending ts" "list_all (\<lambda>t. \<not> wb_dirty t) (fst (flushAll ok ts))"
    "snd (snd (flushAll ok ts)) = length (filter ok (List.map_filter wb_pending ts))" by simp_all
qed

end
